(* ===== verification/Prelude.thy ===== *)
theory Prelude
  imports Main "HOL-Library.Word"
begin

unbundle bit_operations_syntax

text \<open>
  Shared vocabulary of the development: the machine integers of the 32-bit host the program is
  built for, byte-addressed memory with little-endian loads and stores, runs of bytes written at
  a pointer (what every \<^verbatim>\<open>code_emit\<close> macro does), and the result type of C functions that may
  call \<^verbatim>\<open>abort\<close>.  The lemmas here are about memory and words only; every component imports them.
\<close>

section \<open>Machine integers and memory\<close>

type_synonym u8 = "8 word"
type_synonym u16 = "16 word"
type_synonym u32 = "32 word"
type_synonym u64 = "64 word"

type_synonym memory = "u32 \<Rightarrow> u8"

named_theorems mem_simps \<open>reading back what was written\<close>
named_theorems emit_simps \<open>code emission as one run of bytes\<close>

definition bytes16 :: "u16 \<Rightarrow> u8 list" where
  "bytes16 v = [ucast v, ucast (drop_bit 8 v)]"

definition bytes32 :: "u32 \<Rightarrow> u8 list" where
  "bytes32 v = [ucast v, ucast (drop_bit 8 v), ucast (drop_bit 16 v), ucast (drop_bit 24 v)]"

text \<open>The unaligned little-endian accesses \<^verbatim>\<open>*(uint16_t *)p\<close> and \<^verbatim>\<open>*(uint32_t *)p\<close>.\<close>

definition ld8 :: "memory \<Rightarrow> u32 \<Rightarrow> u8" where
  "ld8 m p = m p"

definition ld16 :: "memory \<Rightarrow> u32 \<Rightarrow> u16" where
  "ld16 m p = ucast (m p) OR push_bit 8 (ucast (m (p + 1)))"

definition ld32 :: "memory \<Rightarrow> u32 \<Rightarrow> u32" where
  "ld32 m p = ucast (m p) OR push_bit 8 (ucast (m (p + 1)))
     OR push_bit 16 (ucast (m (p + 2))) OR push_bit 24 (ucast (m (p + 3)))"

primrec write_bytes :: "memory \<Rightarrow> u32 \<Rightarrow> u8 list \<Rightarrow> memory" where
  "write_bytes m p [] = m"
| "write_bytes m p (b # bs) = write_bytes (m(p := b)) (p + 1) bs"

primrec read_bytes :: "memory \<Rightarrow> u32 \<Rightarrow> nat \<Rightarrow> u8 list" where
  "read_bytes m p 0 = []"
| "read_bytes m p (Suc n) = m p # read_bytes m (p + 1) n"

definition st32 :: "memory \<Rightarrow> u32 \<Rightarrow> u32 \<Rightarrow> memory" where
  "st32 m p v = write_bytes m p (bytes32 v)"

text \<open>The addresses of the \<open>n\<close> bytes from \<open>p\<close> on, with wrap-around.\<close>

definition region :: "u32 \<Rightarrow> nat \<Rightarrow> u32 set" where
  "region p n = {q. unat (q - p) < n}"

section \<open>Results of code that may abort\<close>

text \<open>
  \<^verbatim>\<open>ABORT_IF\<close>, \<^verbatim>\<open>abort ()\<close> and \<^verbatim>\<open>assert\<close> end the process; a function that can reach one
  returns the reason on the left.  A write past the end of a C array is the reason
  \<open>Out_Of_Bounds\<close>, a loop that never ends is the reason \<open>Never_Returns\<close>, the use of a structure that
  was never filled in is \<open>Uninitialised\<close>, a call through a null pointer is \<open>Null_Emitfn\<close> (a crash, no test of the code),
  a signed integer that overflows is \<open>Int_Overflow\<close>, and a process that sends
  itself a fatal signal ends with \<open>Killed_By\<close> that signal.
\<close>

datatype abort_reason =
    Patch_Array_Overflow
  | Patch_Num_Overflow
  | Sieve_Buffer_Overflow
  | Code_Buffer_Overflow
  | Stb_Overflow
  | Tb_Flush
  | Jmp_Offset_Exceeded
  | Unexpected_Ind_Type
  | Data16_Branch
  | Addr16_Prefix
  | Null_Emitfn
  | Stat_Node_Overflow
  | Assertion_Failed
  | Page_Invalidate
  | Null_Dereference
  | Out_Of_Bounds
  | Never_Returns
  | Uninitialised
  | Int_Overflow
  | Aborted
  | Killed_By int

type_synonym 'a outcome = "abort_reason + 'a"

definition and_then :: "'a outcome \<Rightarrow> ('a \<Rightarrow> 'b outcome) \<Rightarrow> 'b outcome" where
  "and_then r f = (case r of Inl e \<Rightarrow> Inl e | Inr x \<Rightarrow> f x)"

lemma and_then_Inr [simp]: "and_then (Inr x) f = f x"
  by (simp add: and_then_def)

lemma and_then_Inl [simp]: "and_then (Inl e) f = Inl e"
  by (simp add: and_then_def)

lemma and_then_eq_Inr [simp]:
  "and_then r f = Inr y \<longleftrightarrow> (\<exists>x. r = Inr x \<and> f x = Inr y)"
  by (cases r) auto

lemma and_then_assoc: "and_then (and_then r f) g = and_then r (\<lambda>x. and_then (f x) g)"
  by (cases r) auto

section \<open>Words\<close>

lemma bytes32_length [simp]: "length (bytes32 v) = 4"
  by (simp add: bytes32_def)

lemma bytes16_length [simp]: "length (bytes16 v) = 2"
  by (simp add: bytes16_def)

lemma ld32_of_bytes32:
  "ucast (ucast (v :: u32) :: u8) OR push_bit 8 (ucast (ucast (drop_bit 8 v) :: u8))
     OR push_bit 16 (ucast (ucast (drop_bit 16 v) :: u8))
     OR push_bit 24 (ucast (ucast (drop_bit 24 v) :: u8)) = v"
proof (rule bit_word_eqI)
  fix n :: nat
  assume "n < LENGTH(32)"
  then consider "n < 8" | "8 \<le> n" "n < 16" | "16 \<le> n" "n < 24" | "24 \<le> n" "n < 32"
    by fastforce
  then show "bit ((ucast (ucast v :: u8) :: u32) OR push_bit 8 (ucast (ucast (drop_bit 8 v) :: u8))
     OR push_bit 16 (ucast (ucast (drop_bit 16 v) :: u8))
     OR push_bit 24 (ucast (ucast (drop_bit 24 v) :: u8))) n = bit v n"
    by cases (auto simp: bit_simps)
qed

lemma ld16_of_bytes16:
  "ucast (ucast (v :: u16) :: u8) OR push_bit 8 (ucast (ucast (drop_bit 8 v) :: u8)) = v"
proof (rule bit_word_eqI)
  fix n :: nat
  assume "n < LENGTH(16)"
  then consider "n < 8" | "8 \<le> n" "n < 16"
    by fastforce
  then show "bit ((ucast (ucast v :: u8) :: u16) OR push_bit 8 (ucast (ucast (drop_bit 8 v) :: u8))) n
      = bit v n"
    by cases (auto simp: bit_simps)
qed

section \<open>Runs of bytes in memory\<close>

lemma unat_minus_Suc:
  fixes p q :: "'a::len word"
  assumes "q \<noteq> p"
  shows "unat (q - p) = Suc (unat (q - (p + 1)))"
proof -
  have "q - p \<noteq> 0" using assms by simp
  then have "0 < unat (q - p)" by (simp add: unat_gt_0)
  moreover have "unat (q - p - 1) = unat (q - p) - 1"
    using \<open>q - p \<noteq> 0\<close> by (rule unat_minus_one)
  moreover have "q - (p + 1) = (q - p) - 1" by (simp add: algebra_simps)
  ultimately show ?thesis by (metis Suc_diff_1)
qed

lemma region_empty [simp]: "region p 0 = {}"
  by (simp add: region_def)

lemma region_Suc_iff: "q \<in> region p (Suc n) \<longleftrightarrow> q = p \<or> q \<in> region (p + 1) n"
proof (cases "q = p")
  case False
  then show ?thesis by (simp add: region_def unat_minus_Suc)
qed (simp add: region_def)

lemma region_self [simp]: "0 < n \<Longrightarrow> p \<in> region p n"
  by (simp add: region_def)

lemma region_offset: "unat d < n \<Longrightarrow> p + d \<in> region p n"
  by (simp add: region_def)

lemma region_sub:
  assumes "unat (p - q) + n \<le> k" and "k < 2 ^ 32"
  shows "region p n \<subseteq> region q k"
proof
  fix x assume "x \<in> region p n"
  then have x: "unat (x - p) < n" by (simp add: region_def)
  have "x - q = (x - p) + (p - q)" by simp
  moreover have "unat (x - p) + unat (p - q) < 2 ^ 32" using x assms by simp
  ultimately have "unat (x - q) = unat (x - p) + unat (p - q)"
    using unat_plus_if' [of "x - p" "p - q"] by simp
  then show "x \<in> region q k" using x assms by (simp add: region_def)
qed

lemma disjoint_subsets: "A \<inter> B = {} \<Longrightarrow> A' \<subseteq> A \<Longrightarrow> B' \<subseteq> B \<Longrightarrow> A' \<inter> B' = {}"
  by blast

lemma unat_of_nat_u32: "n < 2 ^ 32 \<Longrightarrow> unat (of_nat n :: u32) = n"
  by (simp add: unsigned_of_nat take_bit_nat_eq_self)

lemma region_mono: "n \<le> m \<Longrightarrow> region p n \<subseteq> region p m"
  by (auto simp: region_def)

lemma region_shift: "region (p + of_nat n) l \<subseteq> region p (n + l)"
proof
  fix q assume "q \<in> region (p + of_nat n) l"
  then have "unat (q - (p + of_nat n)) < l" by (simp add: region_def)
  moreover have "q - p = (q - (p + of_nat n)) + of_nat n" by simp
  then have "unat (q - p) \<le> unat (q - (p + of_nat n)) + unat (of_nat n :: u32)"
    by (metis unat_plus_if' diff_le_self le_refl)
  moreover have "unat (of_nat n :: u32) \<le> n"
    by (simp add: unsigned_of_nat take_bit_nat_less_eq_self)
  ultimately show "q \<in> region p (n + l)" by (simp add: region_def)
qed

lemma region_offsetE:
  assumes "x \<in> region p n"
  obtains a where "a < n" "x = p + of_nat a"
  using assms that [of "unat (x - p)"] by (simp add: region_def)

lemma region_apart:
  fixes c :: u32
  assumes "o1 + l1 \<le> o2" "o2 + l2 \<le> 2 ^ 32"
  shows "region (c + of_nat o1) l1 \<inter> region (c + of_nat o2) l2 = {}"
proof (rule ccontr)
  assume "region (c + of_nat o1) l1 \<inter> region (c + of_nat o2) l2 \<noteq> {}"
  then obtain x where x: "x \<in> region (c + of_nat o1) l1" "x \<in> region (c + of_nat o2) l2" by blast
  from x(1) obtain a where a: "a < l1" "x = c + of_nat o1 + of_nat a" by (rule region_offsetE)
  from x(2) obtain b where b: "b < l2" "x = c + of_nat o2 + of_nat b" by (rule region_offsetE)
  have "(of_nat (o1 + a) :: u32) = of_nat (o2 + b)" using a(2) b(2) by (simp add: add.assoc)
  moreover have "o1 + a < 2 ^ 32" "o2 + b < 2 ^ 32" using a b assms by auto
  ultimately have "o1 + a = o2 + b" by (metis unat_of_nat_u32)
  then show False using a b assms by simp
qed

lemma region_far:
  fixes c :: u32
  assumes "unat (a - c) + q < 2 ^ 32" "n \<le> unat (a - c)"
  shows "a + of_nat q \<notin> region c n"
proof -
  have "a + of_nat q - c = (a - c) + of_nat q" by simp
  moreover have "unat ((a - c) + of_nat q) = unat (a - c) + q"
    using assms(1) unat_plus_if' [of "a - c" "of_nat q"] by (simp add: unat_of_nat_u32)
  ultimately have "unat (a + of_nat q - c) = unat (a - c) + q" by (simp only:)
  then show ?thesis using assms(2) unfolding region_def mem_Collect_eq by linarith
qed

lemma write_bytes_frame [mem_simps]:
  "q \<notin> region p (length bs) \<Longrightarrow> write_bytes m p bs q = m q"
  by (induction bs arbitrary: m p) (auto simp: region_Suc_iff)

lemma write_bytes_append:
  "write_bytes m p (xs @ ys) = write_bytes (write_bytes m p xs) (p + of_nat (length xs)) ys"
  by (induction xs arbitrary: m p) (simp_all add: algebra_simps)

lemma write_bytes_Cons_eq:
  assumes "length bs < 2 ^ 32"
  shows "write_bytes m p (b # bs) p = b"
proof -
  have "unat (p - (p + 1)) = 2 ^ 32 - 1"
    by (simp add: unsigned_minus_1_eq_mask mask_eq_exp_minus_1)
  then have "p \<notin> region (p + 1) (length bs)"
    using assms by (simp add: region_def)
  then show ?thesis by (simp add: write_bytes_frame)
qed

primrec bytes_at :: "memory \<Rightarrow> u32 \<Rightarrow> u8 list \<Rightarrow> bool" where
  "bytes_at m p [] = True"
| "bytes_at m p (b # bs) = (m p = b \<and> bytes_at m (p + 1) bs)"

lemma bytes_at_write_bytes [mem_simps]:
  "length bs < 2 ^ 32 \<Longrightarrow> bytes_at (write_bytes m p bs) p bs"
proof (induction bs arbitrary: m p)
  case (Cons b bs)
  then have "length bs < 2 ^ 32" by simp
  from Cons.IH [OF this] write_bytes_Cons_eq [OF this, of m p b]
  show ?case by simp
qed simp

lemma bytes_at_append [simp]:
  "bytes_at m p (xs @ ys) \<longleftrightarrow> bytes_at m p xs \<and> bytes_at m (p + of_nat (length xs)) ys"
  by (induction xs arbitrary: p) (simp_all add: algebra_simps)

lemma bytes_at_cong:
  "(\<And>q. q \<in> region p (length bs) \<Longrightarrow> m q = m' q) \<Longrightarrow> bytes_at m p bs = bytes_at m' p bs"
  by (induction bs arbitrary: p) (simp_all add: region_Suc_iff)

lemma bytes_at_frame:
  "bytes_at m p bs \<Longrightarrow> (\<And>a. a \<in> region p (length bs) \<Longrightarrow> m' a = m a) \<Longrightarrow> bytes_at m' p bs"
  using bytes_at_cong by metis

lemma bytes_at_write_other [mem_simps]:
  "region p (length bs) \<inter> region q (length cs) = {} \<Longrightarrow>
     bytes_at (write_bytes m q cs) p bs = bytes_at m p bs"
  by (rule bytes_at_cong) (auto intro!: write_bytes_frame)

lemma read_bytes_length [simp]: "length (read_bytes m p n) = n"
  by (induction n arbitrary: p) simp_all

lemma bytes_at_iff_read: "bytes_at m p bs \<longleftrightarrow> read_bytes m p (length bs) = bs"
  by (induction bs arbitrary: p) auto

lemma bytes_at_read [simp]: "bytes_at m p (read_bytes m p n)"
  by (simp add: bytes_at_iff_read)

lemma read_bytes_cong:
  "(\<And>q. q \<in> region p n \<Longrightarrow> m q = m' q) \<Longrightarrow> read_bytes m p n = read_bytes m' p n"
  by (induction n arbitrary: p) (simp_all add: region_Suc_iff)

lemma read_bytes_nth: "k < n \<Longrightarrow> read_bytes m p n ! k = m (p + of_nat k)"
proof (induction n arbitrary: p k)
  case (Suc n)
  then show ?case by (cases k) (simp_all add: add.assoc)
qed simp

lemma write_bytes_at:
  assumes "k < length bs" "length bs < 2 ^ 32"
  shows "write_bytes m a bs (a + of_nat k) = bs ! k"
proof -
  have "read_bytes (write_bytes m a bs) a (length bs) = bs"
    using bytes_at_write_bytes [OF assms(2)] by (simp only: bytes_at_iff_read)
  then have "bs ! k = read_bytes (write_bytes m a bs) a (length bs) ! k" by (simp only:)
  also have "\<dots> = write_bytes m a bs (a + of_nat k)" by (rule read_bytes_nth [OF assms(1)])
  finally show ?thesis ..
qed

lemma bytes_at_bytes32: "bytes_at m p (bytes32 v) \<longleftrightarrow> ld32 m p = v"
proof
  assume "bytes_at m p (bytes32 v)"
  then show "ld32 m p = v"
    by (simp add: bytes32_def ld32_def add.assoc ld32_of_bytes32)
next
  assume *: "ld32 m p = v"
  have "ucast (ld32 m p) = m p" "ucast (drop_bit 8 (ld32 m p)) = m (p + 1)"
    "ucast (drop_bit 16 (ld32 m p)) = m (p + 2)" "ucast (drop_bit 24 (ld32 m p)) = m (p + 3)"
    unfolding ld32_def by (rule bit_word_eqI; auto simp: bit_simps dest: bit_imp_le_length)+
  then show "bytes_at m p (bytes32 v)"
    unfolding * bytes32_def by (simp add: add.assoc)
qed

lemma ld32_st32 [mem_simps]: "ld32 (st32 m p v) p = v"
  unfolding st32_def bytes_at_bytes32 [symmetric] by (rule bytes_at_write_bytes) simp

lemma ld32_cong:
  "(\<And>q. q \<in> region p 4 \<Longrightarrow> m q = m' q) \<Longrightarrow> ld32 m p = ld32 m' p"
  unfolding ld32_def by (simp add: region_offset)

lemma st32_frame [mem_simps]: "q \<notin> region p 4 \<Longrightarrow> st32 m p v q = m q"
  by (simp add: st32_def write_bytes_frame)

lemma ld32_st32_other [mem_simps]:
  "region p 4 \<inter> region q 4 = {} \<Longrightarrow> ld32 (st32 m q v) p = ld32 m p"
  by (rule ld32_cong) (auto intro!: st32_frame)

lemma ld32_write_bytes_other [mem_simps]:
  "region p 4 \<inter> region q (length bs) = {} \<Longrightarrow> ld32 (write_bytes m q bs) p = ld32 m p"
  by (rule ld32_cong) (auto intro!: write_bytes_frame)

lemma bytes_at_st32_other [mem_simps]:
  "region p (length bs) \<inter> region q 4 = {} \<Longrightarrow> bytes_at (st32 m q v) p bs = bytes_at m p bs"
  unfolding st32_def by (rule bytes_at_write_other) simp

lemma bytes_at_st32_apart:
  assumes "bytes_at m p bs" "region p n \<inter> region a 4 = {}" "length bs \<le> n"
  shows "bytes_at (st32 m a v) p bs"
  using assms region_mono [OF assms(3), of p] by (subst bytes_at_st32_other) auto

end
