(* ===== verification/Opcode_Tables.thy ===== *)
theory Opcode_Tables
  imports Prelude
begin

text \<open>
  The opcode tables of \<^verbatim>\<open>src/target-i386/decode-table.c\<close>, entry by entry and in the file's order,
  with the types of \<^verbatim>\<open>src/target-i386/decode.h\<close>.  A table pointer of the C initialisers is the
  name of the table it points to (\<open>opcode_table\<close>, resolved by \<open>table_of\<close>); a function pointer is
  the name of the emitter (\<open>emitfn\<close>); \<^verbatim>\<open>reserved\<close> and \<^verbatim>\<open>prefix\<close>, both defined as 0, are \<open>P_null\<close>.
  The lemmas are facts of the data the decoder relies on, checked entry by entry.
\<close>

section \<open>Entry types\<close>

datatype emitfn =
    Emit_normal
  | Emit_call_near_mem
  | Emit_jmp_near_mem
  | Emit_sysenter
  | Emit_jcond
  | Emit_ret_Iw
  | Emit_ret
  | Emit_int
  | Emit_other_jcond
  | Emit_call_disp
  | Emit_jmp

datatype opcode_table =
    T_group1_Eb_Ib
  | T_group1_Ev_Iv
  | T_group1_Ev_Ib
  | T_group2a_Eb_Ib
  | T_group2a_Ev_Ib
  | T_group2_Eb_1
  | T_group2_Ev_1
  | T_group2_Eb_CL
  | T_group2_Ev_CL
  | T_group3b
  | T_group3v
  | T_ngroup4
  | T_ngroup5
  | T_ngroup6
  | T_ngroup7
  | T_group8_Ev_Ib
  | T_ngroup9
  | T_twoByteOpcodes
  | T_nopbyte0
  | T_float_d8
  | T_float_d9
  | T_float_d9_2
  | T_float_d9_4
  | T_float_d9_5
  | T_float_d9_6
  | T_float_d9_7
  | T_float_da
  | T_float_da_5
  | T_float_db
  | T_float_db_4
  | T_float_dc
  | T_float_dd
  | T_float_de
  | T_float_de_3
  | T_float_df
  | T_float_df_4

datatype op_ptr = P_null | P_emit emitfn | P_table opcode_table

datatype inst_type =
    INST_NORMAL
  | INST_CALL
  | INST_CALL_IND
  | INST_JMP
  | INST_JMP_IND
  | INST_JCOND
  | INST_OTHER_JCOND
  | INST_RET
  | INST_RET_IW
  | INST_INT
  | INST_RESERVED
  | INST_GROUP1_EB_IB
  | INST_GROUP1_EV_IV
  | INST_GROUP1_EV_IB
  | INST_GROUP2_EB_1
  | INST_GROUP2_EV_1
  | INST_GROUP2_EB_CL
  | INST_GROUP2_EV_CL
  | INST_GROUP2A_EB_IB
  | INST_GROUP2A_EV_IB
  | INST_GROUP3B
  | INST_GROUP3V
  | INST_NGROUP4
  | INST_NGROUP5
  | INST_NGROUP6
  | INST_NGROUP7
  | INST_NGROUP9
  | INST_GROUP8_EV_IB
  | INST_2BYTES_OPC
  | INST_PREFIX
  | INST_SYSENTER
  | INST_FLOAT_D8
  | INST_FLOAT_D9
  | INST_FLOAT_DA
  | INST_FLOAT_DB
  | INST_FLOAT_DC
  | INST_FLOAT_DD
  | INST_FLOAT_DE
  | INST_FLOAT_DF
  | INST_FLOAT_D9_2
  | INST_FLOAT_D9_4
  | INST_FLOAT_D9_5
  | INST_FLOAT_D9_6
  | INST_FLOAT_D9_7
  | INST_FLOAT_DA_5
  | INST_FLOAT_DB_4
  | INST_FLOAT_DE_3
  | INST_FLOAT_DF_4

record OpArgument =
  amode :: u8
  ainfo :: u8

record OpCode =
  op_index :: u32
  op_disasm :: string
  op_args :: "OpArgument list"
  op_ptr :: op_ptr
  op_inst_type :: inst_type
  op_attr :: u32
  op_flag_effect :: u32

text \<open>One brace-enclosed initialiser of the C file.\<close>

definition opc :: "u32 \<Rightarrow> string \<Rightarrow> u8 \<Rightarrow> u8 \<Rightarrow> u8 \<Rightarrow> u8 \<Rightarrow> u8 \<Rightarrow> u8 \<Rightarrow> op_ptr \<Rightarrow> inst_type \<Rightarrow>
    u32 \<Rightarrow> u32 \<Rightarrow> OpCode" where
  "opc i d m0 i0 m1 i1 m2 i2 p t at fe =
     \<lparr> op_index = i, op_disasm = d,
       op_args = [\<lparr>amode = m0, ainfo = i0\<rparr>, \<lparr>amode = m1, ainfo = i1\<rparr>, \<lparr>amode = m2, ainfo = i2\<rparr>],
       op_ptr = p, op_inst_type = t, op_attr = at, op_flag_effect = fe \<rparr>"

section \<open>Attribute and prefix constants\<close>

abbreviation (input) DF_NONE :: u32 where "DF_NONE \<equiv> 0x0"
abbreviation (input) DF_MODRM :: u32 where "DF_MODRM \<equiv> 0x1"
abbreviation (input) DF_Ib :: u32 where "DF_Ib \<equiv> 0x2"
abbreviation (input) DF_Jb :: u32 where "DF_Jb \<equiv> 0x2"
abbreviation (input) DF_Iv :: u32 where "DF_Iv \<equiv> 0x8"
abbreviation (input) DF_Jv :: u32 where "DF_Jv \<equiv> 0x10"
abbreviation (input) DF_rel :: u32 where "DF_rel \<equiv> 0x10"
abbreviation (input) DF_Ob :: u32 where "DF_Ob \<equiv> 0x40"
abbreviation (input) DF_Ov :: u32 where "DF_Ov \<equiv> 0x80"
abbreviation (input) DF_PREFIX :: u32 where "DF_PREFIX \<equiv> 0x100"
abbreviation (input) DF_UNDEFINED :: u32 where "DF_UNDEFINED \<equiv> 0x200"
abbreviation (input) DF_TABLE :: u32 where "DF_TABLE \<equiv> 0x400"
abbreviation (input) DF_GROUP :: u32 where "DF_GROUP \<equiv> 0x800"
abbreviation (input) DF_r8 :: u32 where "DF_r8 \<equiv> 0x1000"
abbreviation (input) DF_rm8 :: u32 where "DF_rm8 \<equiv> 0x2000"
abbreviation (input) DF_Iw :: u32 where "DF_Iw \<equiv> 0x4000"
abbreviation (input) DF_Ap :: u32 where "DF_Ap \<equiv> 0x8000"
abbreviation (input) DF_FLOAT :: u32 where "DF_FLOAT \<equiv> 0x10000"
abbreviation (input) DF_ONE_MORE_LEVEL :: u32 where "DF_ONE_MORE_LEVEL \<equiv> 0x20000"
abbreviation (input) DF_BINARY :: u32 where "DF_BINARY \<equiv> 0x40000"
abbreviation (input) DF_DIRECTION :: u32 where "DF_DIRECTION \<equiv> 0x80000"
abbreviation (input) DF_ADDRSZ_PREFIX :: u32 where "DF_ADDRSZ_PREFIX \<equiv> 0x100000"
abbreviation (input) DF_OPSZ_PREFIX :: u32 where "DF_OPSZ_PREFIX \<equiv> 0x200000"
abbreviation (input) DF_MMX_SSE :: u32 where "DF_MMX_SSE \<equiv> 0x400000"
abbreviation (input) DF_BRANCH :: u32 where "DF_BRANCH \<equiv> 0x800000"

abbreviation (input) GP_REG_EAX :: u8 where "GP_REG_EAX \<equiv> 0x0"
abbreviation (input) GP_REG_ECX :: u8 where "GP_REG_ECX \<equiv> 0x1"
abbreviation (input) GP_REG_EDX :: u8 where "GP_REG_EDX \<equiv> 0x2"
abbreviation (input) GP_REG_EBX :: u8 where "GP_REG_EBX \<equiv> 0x3"
abbreviation (input) GP_REG_ESP :: u8 where "GP_REG_ESP \<equiv> 0x4"
abbreviation (input) GP_REG_EBP :: u8 where "GP_REG_EBP \<equiv> 0x5"
abbreviation (input) GP_REG_ESI :: u8 where "GP_REG_ESI \<equiv> 0x6"
abbreviation (input) GP_REG_EDI :: u8 where "GP_REG_EDI \<equiv> 0x7"
abbreviation (input) HD_PREFIX_REPZ :: u8 where "HD_PREFIX_REPZ \<equiv> 0xf3"
abbreviation (input) HD_PREFIX_REPNZ :: u8 where "HD_PREFIX_REPNZ \<equiv> 0xf2"
abbreviation (input) HD_PREFIX_LOCK :: u8 where "HD_PREFIX_LOCK \<equiv> 0xf0"
abbreviation (input) HD_PREFIX_CS :: u8 where "HD_PREFIX_CS \<equiv> 0x2e"
abbreviation (input) HD_PREFIX_DS :: u8 where "HD_PREFIX_DS \<equiv> 0x3e"
abbreviation (input) HD_PREFIX_ES :: u8 where "HD_PREFIX_ES \<equiv> 0x26"
abbreviation (input) HD_PREFIX_FS :: u8 where "HD_PREFIX_FS \<equiv> 0x64"
abbreviation (input) HD_PREFIX_GS :: u8 where "HD_PREFIX_GS \<equiv> 0x65"
abbreviation (input) HD_PREFIX_SS :: u8 where "HD_PREFIX_SS \<equiv> 0x36"
abbreviation (input) HD_PREFIX_OPSZ :: u8 where "HD_PREFIX_OPSZ \<equiv> 0x66"
abbreviation (input) HD_PREFIX_ADDRSZ :: u8 where "HD_PREFIX_ADDRSZ \<equiv> 0x67"
abbreviation (input) DSFL_GROUP1_PREFIX :: u32 where "DSFL_GROUP1_PREFIX \<equiv> 0x1"
abbreviation (input) DSFL_GROUP2_PREFIX :: u32 where "DSFL_GROUP2_PREFIX \<equiv> 0x2"
abbreviation (input) DSFL_GROUP3_PREFIX :: u32 where "DSFL_GROUP3_PREFIX \<equiv> 0x4"
abbreviation (input) DSFL_GROUP4_PREFIX :: u32 where "DSFL_GROUP4_PREFIX \<equiv> 0x8"
abbreviation (input) OPSTATE_ADDR32 :: u32 where "OPSTATE_ADDR32 \<equiv> 0x1"
abbreviation (input) OPSTATE_DATA32 :: u32 where "OPSTATE_DATA32 \<equiv> 0x2"
abbreviation (input) OPSTATE_ADDR16 :: u32 where "OPSTATE_ADDR16 \<equiv> 0x0"
abbreviation (input) OPSTATE_DATA16 :: u32 where "OPSTATE_DATA16 \<equiv> 0x0"

section \<open>The tables\<close>

definition group1_Eb_Ib :: "OpCode list" where
  "group1_Eb_Ib =
    [ opc 0x0 ''addB'' 2 1 4 1 0 0 (P_emit Emit_normal) INST_NORMAL 1048579 10,
      opc 0x1 ''orB'' 2 1 4 1 0 0 (P_emit Emit_normal) INST_NORMAL 1048579 10,
      opc 0x2 ''adcB'' 2 1 4 1 0 0 (P_emit Emit_normal) INST_NORMAL 1048579 15,
      opc 0x3 ''sbbB'' 2 1 4 1 0 0 (P_emit Emit_normal) INST_NORMAL 1048579 15,
      opc 0x4 ''andB'' 2 1 4 1 0 0 (P_emit Emit_normal) INST_NORMAL 1048579 10,
      opc 0x5 ''subB'' 2 1 4 1 0 0 (P_emit Emit_normal) INST_NORMAL 1048579 10,
      opc 0x6 ''xorB'' 2 1 4 1 0 0 (P_emit Emit_normal) INST_NORMAL 1048579 10,
      opc 0x7 ''cmpB'' 2 1 4 1 0 0 (P_emit Emit_normal) INST_NORMAL 1048579 10 ]"

definition group1_Ev_Iv :: "OpCode list" where
  "group1_Ev_Iv =
    [ opc 0x0 ''addL'' 2 2 4 2 0 0 (P_emit Emit_normal) INST_NORMAL 3145737 10,
      opc 0x1 ''orL'' 2 2 4 2 0 0 (P_emit Emit_normal) INST_NORMAL 3145737 10,
      opc 0x2 ''adcL'' 2 2 4 2 0 0 (P_emit Emit_normal) INST_NORMAL 3145737 15,
      opc 0x3 ''sbbL'' 2 2 4 2 0 0 (P_emit Emit_normal) INST_NORMAL 3145737 15,
      opc 0x4 ''andL'' 2 2 4 2 0 0 (P_emit Emit_normal) INST_NORMAL 3145737 10,
      opc 0x5 ''subL'' 2 2 4 2 0 0 (P_emit Emit_normal) INST_NORMAL 3145737 10,
      opc 0x6 ''xorL'' 2 2 4 2 0 0 (P_emit Emit_normal) INST_NORMAL 3145737 10,
      opc 0x7 ''cmpL'' 2 2 4 2 0 0 (P_emit Emit_normal) INST_NORMAL 3145737 10 ]"

definition group1_Ev_Ib :: "OpCode list" where
  "group1_Ev_Ib =
    [ opc 0x0 ''addL'' 2 2 4 1 0 0 (P_emit Emit_normal) INST_NORMAL 3145731 10,
      opc 0x1 ''orL'' 2 2 4 1 0 0 (P_emit Emit_normal) INST_NORMAL 3145731 10,
      opc 0x2 ''adcL'' 2 2 4 1 0 0 (P_emit Emit_normal) INST_NORMAL 3145731 15,
      opc 0x3 ''sbbL'' 2 2 4 1 0 0 (P_emit Emit_normal) INST_NORMAL 3145731 15,
      opc 0x4 ''andL'' 2 2 4 1 0 0 (P_emit Emit_normal) INST_NORMAL 3145731 10,
      opc 0x5 ''subL'' 2 2 4 1 0 0 (P_emit Emit_normal) INST_NORMAL 3145731 10,
      opc 0x6 ''xorL'' 2 2 4 1 0 0 (P_emit Emit_normal) INST_NORMAL 3145731 10,
      opc 0x7 ''cmpL'' 2 2 4 1 0 0 (P_emit Emit_normal) INST_NORMAL 3145731 10 ]"

definition group2a_Eb_Ib :: "OpCode list" where
  "group2a_Eb_Ib =
    [ opc 0x0 ''rolB'' 2 1 4 1 0 0 (P_emit Emit_normal) INST_NORMAL 1048579 15,
      opc 0x1 ''rorB'' 2 1 4 1 0 0 (P_emit Emit_normal) INST_NORMAL 1048579 15,
      opc 0x2 ''rclB'' 2 1 4 1 0 0 (P_emit Emit_normal) INST_NORMAL 1048579 15,
      opc 0x3 ''rcrB'' 2 1 4 1 0 0 (P_emit Emit_normal) INST_NORMAL 1048579 15,
      opc 0x4 ''shlB'' 2 1 4 1 0 0 (P_emit Emit_normal) INST_NORMAL 1048579 10,
      opc 0x5 ''shrB'' 2 1 4 1 0 0 (P_emit Emit_normal) INST_NORMAL 1048579 10,
      opc 0x6 ''reserved'' 0 0 0 0 0 0 P_null INST_RESERVED 512 0,
      opc 0x7 ''sarB'' 2 1 4 1 0 0 (P_emit Emit_normal) INST_NORMAL 1048579 10 ]"

definition group2a_Ev_Ib :: "OpCode list" where
  "group2a_Ev_Ib =
    [ opc 0x0 ''rolL'' 2 2 4 1 0 0 (P_emit Emit_normal) INST_NORMAL 3145731 15,
      opc 0x1 ''rorL'' 2 2 4 1 0 0 (P_emit Emit_normal) INST_NORMAL 3145731 15,
      opc 0x2 ''rclL'' 2 2 4 1 0 0 (P_emit Emit_normal) INST_NORMAL 3145731 15,
      opc 0x3 ''rcrL'' 2 2 4 1 0 0 (P_emit Emit_normal) INST_NORMAL 3145731 15,
      opc 0x4 ''shlL'' 2 2 4 1 0 0 (P_emit Emit_normal) INST_NORMAL 3145731 10,
      opc 0x5 ''shrL'' 2 2 4 1 0 0 (P_emit Emit_normal) INST_NORMAL 3145731 10,
      opc 0x6 ''reserved'' 0 0 0 0 0 0 P_null INST_RESERVED 512 0,
      opc 0x7 ''sarL'' 2 2 4 1 0 0 (P_emit Emit_normal) INST_NORMAL 3145731 10 ]"

definition group2_Eb_1 :: "OpCode list" where
  "group2_Eb_1 =
    [ opc 0x0 ''rolB'' 2 1 0 0 0 0 (P_emit Emit_normal) INST_NORMAL 1048577 15,
      opc 0x1 ''rorB'' 2 1 0 0 0 0 (P_emit Emit_normal) INST_NORMAL 1048577 15,
      opc 0x2 ''rclB'' 2 1 0 0 0 0 (P_emit Emit_normal) INST_NORMAL 1048577 15,
      opc 0x3 ''rcrB'' 2 1 0 0 0 0 (P_emit Emit_normal) INST_NORMAL 1048577 15,
      opc 0x4 ''shlB'' 2 1 0 0 0 0 (P_emit Emit_normal) INST_NORMAL 1048577 10,
      opc 0x5 ''shrB'' 2 1 0 0 0 0 (P_emit Emit_normal) INST_NORMAL 1048577 10,
      opc 0x6 ''reserved'' 0 0 0 0 0 0 P_null INST_RESERVED 512 0,
      opc 0x7 ''sarB'' 2 1 0 0 0 0 (P_emit Emit_normal) INST_NORMAL 1048577 10 ]"

definition group2_Ev_1 :: "OpCode list" where
  "group2_Ev_1 =
    [ opc 0x0 ''rolL'' 2 2 0 0 0 0 (P_emit Emit_normal) INST_NORMAL 3145729 15,
      opc 0x1 ''rorL'' 2 2 0 0 0 0 (P_emit Emit_normal) INST_NORMAL 3145729 15,
      opc 0x2 ''rclL'' 2 2 0 0 0 0 (P_emit Emit_normal) INST_NORMAL 3145729 15,
      opc 0x3 ''rcrL'' 2 2 0 0 0 0 (P_emit Emit_normal) INST_NORMAL 3145729 15,
      opc 0x4 ''shlL'' 2 2 0 0 0 0 (P_emit Emit_normal) INST_NORMAL 3145729 10,
      opc 0x5 ''shrL'' 2 2 0 0 0 0 (P_emit Emit_normal) INST_NORMAL 3145729 10,
      opc 0x6 ''reserved'' 0 0 0 0 0 0 P_null INST_RESERVED 512 0,
      opc 0x7 ''sarL'' 2 2 0 0 0 0 (P_emit Emit_normal) INST_NORMAL 3145729 10 ]"

definition group2_Eb_CL :: "OpCode list" where
  "group2_Eb_CL =
    [ opc 0x0 ''rolB'' 2 1 1 133 0 0 (P_emit Emit_normal) INST_NORMAL 1048577 15,
      opc 0x1 ''rorB'' 2 1 1 133 0 0 (P_emit Emit_normal) INST_NORMAL 1048577 15,
      opc 0x2 ''rclB'' 2 1 1 133 0 0 (P_emit Emit_normal) INST_NORMAL 1048577 15,
      opc 0x3 ''rcrB'' 2 1 1 133 0 0 (P_emit Emit_normal) INST_NORMAL 1048577 15,
      opc 0x4 ''shlB'' 2 1 1 133 0 0 (P_emit Emit_normal) INST_NORMAL 1048577 10,
      opc 0x5 ''shrB'' 2 1 1 133 0 0 (P_emit Emit_normal) INST_NORMAL 1048577 10,
      opc 0x6 ''reserved'' 0 0 0 0 0 0 P_null INST_RESERVED 512 0,
      opc 0x7 ''sarB'' 2 1 1 133 0 0 (P_emit Emit_normal) INST_NORMAL 1048577 10 ]"

definition group2_Ev_CL :: "OpCode list" where
  "group2_Ev_CL =
    [ opc 0x0 ''rolL'' 2 2 1 133 0 0 (P_emit Emit_normal) INST_NORMAL 3145729 15,
      opc 0x1 ''rorL'' 2 2 1 133 0 0 (P_emit Emit_normal) INST_NORMAL 3145729 15,
      opc 0x2 ''rclL'' 2 2 1 133 0 0 (P_emit Emit_normal) INST_NORMAL 3145729 15,
      opc 0x3 ''rcrL'' 2 2 1 133 0 0 (P_emit Emit_normal) INST_NORMAL 3145729 15,
      opc 0x4 ''shlL'' 2 2 1 133 0 0 (P_emit Emit_normal) INST_NORMAL 3145729 10,
      opc 0x5 ''shrL'' 2 2 1 133 0 0 (P_emit Emit_normal) INST_NORMAL 3145729 10,
      opc 0x6 ''reserved'' 0 0 0 0 0 0 P_null INST_RESERVED 512 0,
      opc 0x7 ''sarL'' 2 2 1 133 0 0 (P_emit Emit_normal) INST_NORMAL 3145729 10 ]"

definition group3b :: "OpCode list" where
  "group3b =
    [ opc 0x0 ''testB'' 2 1 4 1 0 0 (P_emit Emit_normal) INST_NORMAL 1048579 10,
      opc 0x1 ''reserved'' 0 0 0 0 0 0 P_null INST_RESERVED 512 0,
      opc 0x2 ''notB'' 2 1 0 0 0 0 (P_emit Emit_normal) INST_NORMAL 1048577 10,
      opc 0x3 ''negB'' 2 1 0 0 0 0 (P_emit Emit_normal) INST_NORMAL 1048577 10,
      opc 0x4 ''mulB'' 1 129 2 1 0 0 (P_emit Emit_normal) INST_NORMAL 1048577 10,
      opc 0x5 ''imulB'' 1 129 2 1 0 0 (P_emit Emit_normal) INST_NORMAL 1048577 10,
      opc 0x6 ''divB'' 1 129 2 1 0 0 (P_emit Emit_normal) INST_NORMAL 1048577 10,
      opc 0x7 ''idivB'' 1 129 2 1 0 0 (P_emit Emit_normal) INST_NORMAL 1048577 10 ]"

definition group3v :: "OpCode list" where
  "group3v =
    [ opc 0x0 ''testL'' 2 2 4 2 0 0 (P_emit Emit_normal) INST_NORMAL 3145737 10,
      opc 0x1 ''reserved'' 0 0 0 0 0 0 P_null INST_RESERVED 512 0,
      opc 0x2 ''notL'' 2 2 0 0 0 0 (P_emit Emit_normal) INST_NORMAL 3145729 10,
      opc 0x3 ''negL'' 2 2 0 0 0 0 (P_emit Emit_normal) INST_NORMAL 3145729 10,
      opc 0x4 ''mulL'' 1 144 2 2 0 0 (P_emit Emit_normal) INST_NORMAL 3145729 10,
      opc 0x5 ''imulL'' 1 144 2 2 0 0 (P_emit Emit_normal) INST_NORMAL 3145729 10,
      opc 0x6 ''divL'' 1 144 2 2 0 0 (P_emit Emit_normal) INST_NORMAL 3145729 10,
      opc 0x6 ''idivL'' 1 144 2 2 0 0 (P_emit Emit_normal) INST_NORMAL 3145729 10 ]"

definition ngroup4 :: "OpCode list" where
  "ngroup4 =
    [ opc 0x0 ''incB'' 2 1 0 0 0 0 (P_emit Emit_normal) INST_NORMAL 1048577 8,
      opc 0x1 ''decB'' 2 1 0 0 0 0 (P_emit Emit_normal) INST_NORMAL 1048577 8,
      opc 0x2 ''reserved'' 0 0 0 0 0 0 P_null INST_RESERVED 512 0,
      opc 0x3 ''reserved'' 0 0 0 0 0 0 P_null INST_RESERVED 512 0,
      opc 0x4 ''reserved'' 0 0 0 0 0 0 P_null INST_RESERVED 512 0,
      opc 0x5 ''reserved'' 0 0 0 0 0 0 P_null INST_RESERVED 512 0,
      opc 0x6 ''reserved'' 0 0 0 0 0 0 P_null INST_RESERVED 512 0,
      opc 0x7 ''reserved'' 0 0 0 0 0 0 P_null INST_RESERVED 512 0 ]"

definition ngroup5 :: "OpCode list" where
  "ngroup5 =
    [ opc 0x0 ''incL'' 2 2 0 0 0 0 (P_emit Emit_normal) INST_NORMAL 3145729 8,
      opc 0x1 ''decL'' 2 2 0 0 0 0 (P_emit Emit_normal) INST_NORMAL 3145729 8,
      opc 0x2 ''callL'' 2 2 0 0 0 0 (P_emit Emit_call_near_mem) INST_CALL_IND 11534337 0,
      opc 0x3 ''call'' 2 5 0 0 0 0 (P_emit Emit_normal) INST_NORMAL 3145729 0,
      opc 0x4 ''jmpL'' 2 2 0 0 0 0 (P_emit Emit_jmp_near_mem) INST_JMP_IND 11534337 0,
      opc 0x5 ''jmp'' 2 5 0 0 0 0 (P_emit Emit_normal) INST_NORMAL 3145729 0,
      opc 0x6 ''pushL'' 2 2 0 0 0 0 (P_emit Emit_normal) INST_NORMAL 3145729 0,
      opc 0x7 ''reserved'' 0 0 0 0 0 0 P_null INST_RESERVED 512 0 ]"

definition ngroup6 :: "OpCode list" where
  "ngroup6 =
    [ opc 0x0 ''sldt'' 2 3 0 0 0 0 (P_emit Emit_normal) INST_NORMAL 1048577 0,
      opc 0x1 ''str'' 2 3 0 0 0 0 (P_emit Emit_normal) INST_NORMAL 1048577 0,
      opc 0x2 ''lldt'' 2 3 0 0 0 0 (P_emit Emit_normal) INST_NORMAL 1048577 0,
      opc 0x3 ''ltr'' 2 3 0 0 0 0 (P_emit Emit_normal) INST_NORMAL 1048577 0,
      opc 0x4 ''verr'' 2 3 0 0 0 0 (P_emit Emit_normal) INST_NORMAL 1048577 15,
      opc 0x5 ''verw'' 2 3 0 0 0 0 (P_emit Emit_normal) INST_NORMAL 1048577 15,
      opc 0x6 ''reserved'' 0 0 0 0 0 0 P_null INST_RESERVED 512 0,
      opc 0x7 ''reserved'' 0 0 0 0 0 0 P_null INST_RESERVED 512 0 ]"

definition ngroup7 :: "OpCode list" where
  "ngroup7 =
    [ opc 0x0 ''sgdt'' 2 6 0 0 0 0 (P_emit Emit_normal) INST_NORMAL 3145729 0,
      opc 0x1 ''sidt'' 2 6 0 0 0 0 (P_emit Emit_normal) INST_NORMAL 3145729 0,
      opc 0x2 ''lgdt'' 2 6 0 0 0 0 (P_emit Emit_normal) INST_NORMAL 3145729 0,
      opc 0x3 ''lidt'' 2 6 0 0 0 0 (P_emit Emit_normal) INST_NORMAL 3145729 0,
      opc 0x4 ''smsw'' 2 3 0 0 0 0 (P_emit Emit_normal) INST_NORMAL 3145729 0,
      opc 0x5 ''reserved'' 0 0 0 0 0 0 P_null INST_RESERVED 512 0,
      opc 0x6 ''lmsw'' 2 3 0 0 0 0 (P_emit Emit_normal) INST_NORMAL 1048577 0,
      opc 0x7 ''invlpg'' 2 1 0 0 0 0 (P_emit Emit_normal) INST_NORMAL 1048577 0 ]"

definition group8_Ev_Ib :: "OpCode list" where
  "group8_Ev_Ib =
    [ opc 0x0 ''reserved'' 0 0 0 0 0 0 P_null INST_RESERVED 512 0,
      opc 0x1 ''reserved'' 0 0 0 0 0 0 P_null INST_RESERVED 512 0,
      opc 0x2 ''reserved'' 0 0 0 0 0 0 P_null INST_RESERVED 512 0,
      opc 0x3 ''reserved'' 0 0 0 0 0 0 P_null INST_RESERVED 512 0,
      opc 0x4 ''btL'' 2 2 4 1 0 0 (P_emit Emit_normal) INST_NORMAL 3145731 10,
      opc 0x5 ''btsL'' 2 2 4 1 0 0 (P_emit Emit_normal) INST_NORMAL 3145731 10,
      opc 0x6 ''btrL'' 2 2 4 1 0 0 (P_emit Emit_normal) INST_NORMAL 3145731 10,
      opc 0x7 ''btcL'' 2 2 4 1 0 0 (P_emit Emit_normal) INST_NORMAL 3145731 10 ]"

definition ngroup9 :: "OpCode list" where
  "ngroup9 =
    [ opc 0x0 ''reserved'' 0 0 0 0 0 0 P_null INST_RESERVED 512 0,
      opc 0x1 ''cmpxchgL'' 2 2 0 0 0 0 (P_emit Emit_normal) INST_NORMAL 1048577 10,
      opc 0x2 ''reserved'' 0 0 0 0 0 0 P_null INST_RESERVED 512 0,
      opc 0x3 ''reserved'' 0 0 0 0 0 0 P_null INST_RESERVED 512 0,
      opc 0x4 ''reserved'' 0 0 0 0 0 0 P_null INST_RESERVED 512 0,
      opc 0x5 ''reserved'' 0 0 0 0 0 0 P_null INST_RESERVED 512 0,
      opc 0x6 ''reserved'' 0 0 0 0 0 0 P_null INST_RESERVED 512 0,
      opc 0x7 ''reserved'' 0 0 0 0 0 0 P_null INST_RESERVED 512 0 ]"

definition twoByteOpcodes_00 :: "OpCode list" where
  "twoByteOpcodes_00 =
    [ opc 0x0 ''(group)'' 0 0 0 0 0 0 (P_table T_ngroup6) INST_NGROUP6 2048 0,
      opc 0x1 ''(group)'' 0 0 0 0 0 0 (P_table T_ngroup7) INST_NGROUP7 2048 0,
      opc 0x2 ''lar'' 3 2 2 2 0 0 (P_emit Emit_normal) INST_NORMAL 3145729 15,
      opc 0x3 ''lsl'' 3 2 2 2 0 0 (P_emit Emit_normal) INST_NORMAL 3145729 15,
      opc 0x4 ''reserved'' 0 0 0 0 0 0 P_null INST_RESERVED 512 0,
      opc 0x5 ''reserved'' 0 0 0 0 0 0 P_null INST_RESERVED 512 0,
      opc 0x6 ''clts'' 0 0 0 0 0 0 (P_emit Emit_normal) INST_NORMAL 0 0,
      opc 0x7 ''reserved'' 0 0 0 0 0 0 P_null INST_RESERVED 512 0,
      opc 0x8 ''invd'' 0 0 0 0 0 0 (P_emit Emit_normal) INST_NORMAL 0 0,
      opc 0x9 ''wbinvd'' 0 0 0 0 0 0 (P_emit Emit_normal) INST_NORMAL 0 0,
      opc 0xa ''reserved'' 0 0 0 0 0 0 P_null INST_RESERVED 512 0,
      opc 0xb ''reserved'' 0 0 0 0 0 0 (P_emit Emit_normal) INST_RESERVED 512 0,
      opc 0xc ''reserved'' 0 0 0 0 0 0 P_null INST_RESERVED 512 0,
      opc 0xd ''reserved'' 0 0 0 0 0 0 P_null INST_RESERVED 512 0,
      opc 0xe ''reserved'' 0 0 0 0 0 0 P_null INST_RESERVED 512 0,
      opc 0xf ''reserved'' 0 0 0 0 0 0 P_null INST_RESERVED 512 0,
      opc 0x10 ''MMX/SSE/SSE2'' 2 0 0 0 0 0 (P_emit Emit_normal) INST_NORMAL 1048577 0,
      opc 0x11 ''MMX/SSE/SSE2'' 2 0 0 0 0 0 (P_emit Emit_normal) INST_NORMAL 1048577 0,
      opc 0x12 ''MMX/SSE/SSE2'' 2 0 0 0 0 0 (P_emit Emit_normal) INST_NORMAL 1048577 0,
      opc 0x13 ''MMX/SSE/SSE2'' 2 0 0 0 0 0 (P_emit Emit_normal) INST_NORMAL 1048577 0,
      opc 0x14 ''MMX/SSE/SSE2'' 2 0 0 0 0 0 (P_emit Emit_normal) INST_NORMAL 1048577 0,
      opc 0x15 ''MMX/SSE/SSE2'' 2 0 0 0 0 0 (P_emit Emit_normal) INST_NORMAL 1048577 0,
      opc 0x16 ''MMX/SSE/SSE2'' 2 0 0 0 0 0 (P_emit Emit_normal) INST_NORMAL 1048577 0,
      opc 0x17 ''MMX/SSE/SSE2'' 2 0 0 0 0 0 (P_emit Emit_normal) INST_NORMAL 1048577 0,
      opc 0x18 ''MMX/SSE/SSE2'' 2 0 0 0 0 0 (P_emit Emit_normal) INST_NORMAL 1048577 0,
      opc 0x19 ''reserved'' 0 0 0 0 0 0 P_null INST_RESERVED 512 0,
      opc 0x1a ''reserved'' 0 0 0 0 0 0 P_null INST_RESERVED 512 0,
      opc 0x1b ''reserved'' 0 0 0 0 0 0 P_null INST_RESERVED 512 0,
      opc 0x1c ''reserved'' 0 0 0 0 0 0 P_null INST_RESERVED 512 0,
      opc 0x1d ''reserved'' 0 0 0 0 0 0 P_null INST_RESERVED 512 0,
      opc 0x1e ''reserved'' 0 0 0 0 0 0 P_null INST_RESERVED 512 0,
      opc 0x1f ''reserved'' 0 0 0 0 0 0 P_null INST_RESERVED 512 0,
      opc 0x20 ''mov'' 14 4 15 4 0 0 (P_emit Emit_normal) INST_NORMAL 1 10,
      opc 0x21 ''mov'' 14 4 16 4 0 0 (P_emit Emit_normal) INST_NORMAL 1 10,
      opc 0x22 ''mov'' 15 4 14 4 0 0 (P_emit Emit_normal) INST_NORMAL 1 10,
      opc 0x23 ''mov'' 16 4 14 4 0 0 (P_emit Emit_normal) INST_NORMAL 1 10,
      opc 0x24 ''mov'' 14 4 17 4 0 0 (P_emit Emit_normal) INST_NORMAL 1 10,
      opc 0x25 ''reserved'' 0 0 0 0 0 0 P_null INST_RESERVED 512 0,
      opc 0x26 ''mov'' 17 4 14 4 0 0 (P_emit Emit_normal) INST_NORMAL 1 10,
      opc 0x27 ''reserved'' 0 0 0 0 0 0 P_null INST_RESERVED 512 0,
      opc 0x28 ''MMX/SSE/SSE2'' 2 0 0 0 0 0 (P_emit Emit_normal) INST_NORMAL 1048577 0,
      opc 0x29 ''MMX/SSE/SSE2'' 2 0 0 0 0 0 (P_emit Emit_normal) INST_NORMAL 1048577 0,
      opc 0x2a ''MMX/SSE/SSE2'' 2 0 0 0 0 0 (P_emit Emit_normal) INST_NORMAL 1048577 0,
      opc 0x2b ''MMX/SSE/SSE2'' 2 0 0 0 0 0 (P_emit Emit_normal) INST_NORMAL 1048577 0,
      opc 0x2c ''MMX/SSE/SSE2'' 2 0 0 0 0 0 (P_emit Emit_normal) INST_NORMAL 1048577 0,
      opc 0x2d ''MMX/SSE/SSE2'' 2 0 0 0 0 0 (P_emit Emit_normal) INST_NORMAL 1048577 0,
      opc 0x2e ''MMX/SSE/SSE2'' 2 0 0 0 0 0 (P_emit Emit_normal) INST_NORMAL 1048577 0,
      opc 0x2f ''MMX/SSE/SSE2'' 2 0 0 0 0 0 (P_emit Emit_normal) INST_NORMAL 1048577 0,
      opc 0x30 ''wrmsr'' 0 0 0 0 0 0 (P_emit Emit_normal) INST_NORMAL 0 0,
      opc 0x31 ''rdtsc'' 0 0 0 0 0 0 (P_emit Emit_normal) INST_NORMAL 0 0,
      opc 0x32 ''rdmsr'' 0 0 0 0 0 0 (P_emit Emit_normal) INST_NORMAL 0 0,
      opc 0x33 ''rdpmc'' 0 0 0 0 0 0 (P_emit Emit_normal) INST_NORMAL 0 0,
      opc 0x34 ''sysenter'' 0 0 0 0 0 0 (P_emit Emit_sysenter) INST_SYSENTER 0 0,
      opc 0x35 ''sysexit'' 0 0 0 0 0 0 (P_emit Emit_normal) INST_NORMAL 0 0,
      opc 0x36 ''reserved'' 0 0 0 0 0 0 P_null INST_RESERVED 512 0,
      opc 0x37 ''reserved'' 0 0 0 0 0 0 P_null INST_RESERVED 512 0,
      opc 0x38 ''reserved'' 0 0 0 0 0 0 P_null INST_RESERVED 512 0,
      opc 0x39 ''reserved'' 0 0 0 0 0 0 P_null INST_RESERVED 512 0,
      opc 0x3a ''reserved'' 0 0 0 0 0 0 P_null INST_RESERVED 512 0,
      opc 0x3b ''reserved'' 0 0 0 0 0 0 P_null INST_RESERVED 512 0,
      opc 0x3c ''movnti'' 3 2 2 2 0 0 (P_emit Emit_normal) INST_NORMAL 1 0,
      opc 0x3d ''reserved'' 0 0 0 0 0 0 P_null INST_RESERVED 512 0,
      opc 0x3e ''reserved'' 0 0 0 0 0 0 P_null INST_RESERVED 512 0,
      opc 0x3f ''reserved'' 0 0 0 0 0 0 P_null INST_RESERVED 512 0 ]"

definition twoByteOpcodes_40 :: "OpCode list" where
  "twoByteOpcodes_40 =
    [ opc 0x40 ''cmovo'' 3 2 2 2 0 0 (P_emit Emit_normal) INST_NORMAL 3145729 5,
      opc 0x41 ''cmovno'' 3 2 2 2 0 0 (P_emit Emit_normal) INST_NORMAL 3145729 5,
      opc 0x42 ''cmovnae'' 3 2 2 2 0 0 (P_emit Emit_normal) INST_NORMAL 3145729 5,
      opc 0x43 ''cmovae'' 3 2 2 2 0 0 (P_emit Emit_normal) INST_NORMAL 3145729 5,
      opc 0x44 ''cmove'' 3 2 2 2 0 0 (P_emit Emit_normal) INST_NORMAL 3145729 5,
      opc 0x45 ''cmovne'' 3 2 2 2 0 0 (P_emit Emit_normal) INST_NORMAL 3145729 5,
      opc 0x46 ''cmovbe'' 3 2 2 2 0 0 (P_emit Emit_normal) INST_NORMAL 3145729 5,
      opc 0x47 ''cmovnbe'' 3 2 2 2 0 0 (P_emit Emit_normal) INST_NORMAL 3145729 5,
      opc 0x48 ''cmovs'' 3 2 2 2 0 0 (P_emit Emit_normal) INST_NORMAL 3145729 5,
      opc 0x49 ''cmovns'' 3 2 2 2 0 0 (P_emit Emit_normal) INST_NORMAL 3145729 5,
      opc 0x4a ''cmovp'' 3 2 2 2 0 0 (P_emit Emit_normal) INST_NORMAL 3145729 5,
      opc 0x4b ''cmovnp'' 3 2 2 2 0 0 (P_emit Emit_normal) INST_NORMAL 3145729 5,
      opc 0x4c ''cmovl'' 3 2 2 2 0 0 (P_emit Emit_normal) INST_NORMAL 3145729 5,
      opc 0x4d ''cmovge'' 3 2 2 2 0 0 (P_emit Emit_normal) INST_NORMAL 3145729 5,
      opc 0x4e ''cmovle'' 3 2 2 2 0 0 (P_emit Emit_normal) INST_NORMAL 3145729 5,
      opc 0x4f ''cmovg'' 3 2 2 2 0 0 (P_emit Emit_normal) INST_NORMAL 3145729 5,
      opc 0x50 ''MMX/SSE/SSE2'' 2 0 0 0 0 0 (P_emit Emit_normal) INST_NORMAL 1048577 0,
      opc 0x51 ''MMX/SSE/SSE2'' 2 0 0 0 0 0 (P_emit Emit_normal) INST_NORMAL 1048577 0,
      opc 0x52 ''MMX/SSE/SSE2'' 2 0 0 0 0 0 (P_emit Emit_normal) INST_NORMAL 1048577 0,
      opc 0x53 ''MMX/SSE/SSE2'' 2 0 0 0 0 0 (P_emit Emit_normal) INST_NORMAL 1048577 0,
      opc 0x54 ''MMX/SSE/SSE2'' 2 0 0 0 0 0 (P_emit Emit_normal) INST_NORMAL 1048577 0,
      opc 0x55 ''MMX/SSE/SSE2'' 2 0 0 0 0 0 (P_emit Emit_normal) INST_NORMAL 1048577 0,
      opc 0x56 ''MMX/SSE/SSE2'' 2 0 0 0 0 0 (P_emit Emit_normal) INST_NORMAL 1048577 0,
      opc 0x57 ''MMX/SSE/SSE2'' 2 0 0 0 0 0 (P_emit Emit_normal) INST_NORMAL 1048577 0,
      opc 0x58 ''MMX/SSE/SSE2'' 2 0 0 0 0 0 (P_emit Emit_normal) INST_NORMAL 1048577 0,
      opc 0x59 ''MMX/SSE/SSE2'' 2 0 0 0 0 0 (P_emit Emit_normal) INST_NORMAL 1048577 0,
      opc 0x5a ''MMX/SSE/SSE2'' 2 0 0 0 0 0 (P_emit Emit_normal) INST_NORMAL 1048577 0,
      opc 0x5b ''MMX/SSE/SSE2'' 2 0 0 0 0 0 (P_emit Emit_normal) INST_NORMAL 1048577 0,
      opc 0x5c ''MMX/SSE/SSE2'' 2 0 0 0 0 0 (P_emit Emit_normal) INST_NORMAL 1048577 0,
      opc 0x5d ''MMX/SSE/SSE2'' 2 0 0 0 0 0 (P_emit Emit_normal) INST_NORMAL 1048577 0,
      opc 0x5e ''MMX/SSE/SSE2'' 2 0 0 0 0 0 (P_emit Emit_normal) INST_NORMAL 1048577 0,
      opc 0x5f ''MMX/SSE/SSE2'' 2 0 0 0 0 0 (P_emit Emit_normal) INST_NORMAL 1048577 0,
      opc 0x60 ''MMX/SSE/SSE2'' 2 0 0 0 0 0 (P_emit Emit_normal) INST_NORMAL 1048577 0,
      opc 0x61 ''MMX/SSE/SSE2'' 2 0 0 0 0 0 (P_emit Emit_normal) INST_NORMAL 1048577 0,
      opc 0x62 ''MMX/SSE/SSE2'' 2 0 0 0 0 0 (P_emit Emit_normal) INST_NORMAL 1048577 0,
      opc 0x63 ''MMX/SSE/SSE2'' 2 0 0 0 0 0 (P_emit Emit_normal) INST_NORMAL 1048577 0,
      opc 0x64 ''MMX/SSE/SSE2'' 2 0 0 0 0 0 (P_emit Emit_normal) INST_NORMAL 1048577 0,
      opc 0x65 ''MMX/SSE/SSE2'' 2 0 0 0 0 0 (P_emit Emit_normal) INST_NORMAL 1048577 0,
      opc 0x66 ''MMX/SSE/SSE2'' 2 0 0 0 0 0 (P_emit Emit_normal) INST_NORMAL 1048577 0,
      opc 0x67 ''MMX/SSE/SSE2'' 2 0 0 0 0 0 (P_emit Emit_normal) INST_NORMAL 1048577 0,
      opc 0x68 ''MMX/SSE/SSE2'' 2 0 0 0 0 0 (P_emit Emit_normal) INST_NORMAL 1048577 0,
      opc 0x69 ''MMX/SSE/SSE2'' 2 0 0 0 0 0 (P_emit Emit_normal) INST_NORMAL 1048577 0,
      opc 0x6a ''MMX/SSE/SSE2'' 2 0 0 0 0 0 (P_emit Emit_normal) INST_NORMAL 1048577 0,
      opc 0x6b ''MMX/SSE/SSE2'' 2 0 0 0 0 0 (P_emit Emit_normal) INST_NORMAL 1048577 0,
      opc 0x6c ''MMX/SSE/SSE2'' 2 0 0 0 0 0 (P_emit Emit_normal) INST_NORMAL 1048577 0,
      opc 0x6d ''MMX/SSE/SSE2'' 2 0 0 0 0 0 (P_emit Emit_normal) INST_NORMAL 1048577 0,
      opc 0x6e ''MMX/SSE/SSE2'' 2 0 0 0 0 0 (P_emit Emit_normal) INST_NORMAL 1048577 0,
      opc 0x6f ''MMX/SSE/SSE2'' 2 0 0 0 0 0 (P_emit Emit_normal) INST_NORMAL 1048577 0,
      opc 0x70 ''MMX/SSE/SSE2'' 2 0 4 1 0 0 (P_emit Emit_normal) INST_NORMAL 1048579 0,
      opc 0x71 ''MMX/SSE/SSE2'' 2 0 4 1 0 0 (P_emit Emit_normal) INST_NORMAL 1048579 0,
      opc 0x72 ''MMX/SSE/SSE2'' 2 0 4 1 0 0 (P_emit Emit_normal) INST_NORMAL 1048579 0,
      opc 0x73 ''MMX/SSE/SSE2'' 2 0 4 1 0 0 (P_emit Emit_normal) INST_NORMAL 1048579 0,
      opc 0x74 ''MMX/SSE/SSE2'' 2 0 0 0 0 0 (P_emit Emit_normal) INST_NORMAL 1048577 0,
      opc 0x75 ''MMX/SSE/SSE2'' 2 0 0 0 0 0 (P_emit Emit_normal) INST_NORMAL 1048577 0,
      opc 0x76 ''MMX/SSE/SSE2'' 2 0 0 0 0 0 (P_emit Emit_normal) INST_NORMAL 1048577 0,
      opc 0x77 ''MMX/SSE/SSE2'' 0 0 0 0 0 0 (P_emit Emit_normal) INST_NORMAL 1048576 0,
      opc 0x78 ''reserved'' 0 0 0 0 0 0 P_null INST_RESERVED 512 0,
      opc 0x79 ''reserved'' 0 0 0 0 0 0 P_null INST_RESERVED 512 0,
      opc 0x7a ''reserved'' 0 0 0 0 0 0 P_null INST_RESERVED 512 0,
      opc 0x7b ''reserved'' 0 0 0 0 0 0 P_null INST_RESERVED 512 0,
      opc 0x7c ''reserved'' 0 0 0 0 0 0 P_null INST_RESERVED 512 0,
      opc 0x7d ''reserved'' 0 0 0 0 0 0 P_null INST_RESERVED 512 0,
      opc 0x7e ''MMX/SSE/SSE2'' 2 0 0 0 0 0 (P_emit Emit_normal) INST_NORMAL 1048577 0,
      opc 0x7f ''MMX/SSE/SSE2'' 2 0 0 0 0 0 (P_emit Emit_normal) INST_NORMAL 1048577 0 ]"

definition twoByteOpcodes_80 :: "OpCode list" where
  "twoByteOpcodes_80 =
    [ opc 0x80 ''jo'' 7 2 0 0 0 0 (P_emit Emit_jcond) INST_JCOND 10485776 5,
      opc 0x81 ''jno'' 7 2 0 0 0 0 (P_emit Emit_jcond) INST_JCOND 10485776 5,
      opc 0x82 ''jb'' 7 2 0 0 0 0 (P_emit Emit_jcond) INST_JCOND 10485776 5,
      opc 0x83 ''jae'' 7 2 0 0 0 0 (P_emit Emit_jcond) INST_JCOND 10485776 5,
      opc 0x84 ''je'' 7 2 0 0 0 0 (P_emit Emit_jcond) INST_JCOND 10485776 5,
      opc 0x85 ''jne'' 7 2 0 0 0 0 (P_emit Emit_jcond) INST_JCOND 10485776 5,
      opc 0x86 ''jbe'' 7 2 0 0 0 0 (P_emit Emit_jcond) INST_JCOND 10485776 5,
      opc 0x87 ''ja'' 7 2 0 0 0 0 (P_emit Emit_jcond) INST_JCOND 10485776 5,
      opc 0x88 ''js'' 7 2 0 0 0 0 (P_emit Emit_jcond) INST_JCOND 10485776 5,
      opc 0x89 ''jns'' 7 2 0 0 0 0 (P_emit Emit_jcond) INST_JCOND 10485776 5,
      opc 0x8a ''jp'' 7 2 0 0 0 0 (P_emit Emit_jcond) INST_JCOND 10485776 5,
      opc 0x8b ''jnp'' 7 2 0 0 0 0 (P_emit Emit_jcond) INST_JCOND 10485776 5,
      opc 0x8c ''jl'' 7 2 0 0 0 0 (P_emit Emit_jcond) INST_JCOND 10485776 5,
      opc 0x8d ''jge'' 7 2 0 0 0 0 (P_emit Emit_jcond) INST_JCOND 10485776 5,
      opc 0x8e ''jle'' 7 2 0 0 0 0 (P_emit Emit_jcond) INST_JCOND 10485776 5,
      opc 0x8f ''jg'' 7 2 0 0 0 0 (P_emit Emit_jcond) INST_JCOND 10485776 5,
      opc 0x90 ''setoB'' 2 1 0 0 0 0 (P_emit Emit_normal) INST_NORMAL 1048577 5,
      opc 0x91 ''setnoB'' 2 1 0 0 0 0 (P_emit Emit_normal) INST_NORMAL 1048577 5,
      opc 0x92 ''setbB'' 2 1 0 0 0 0 (P_emit Emit_normal) INST_NORMAL 1048577 5,
      opc 0x93 ''setnbB'' 2 1 0 0 0 0 (P_emit Emit_normal) INST_NORMAL 1048577 5,
      opc 0x94 ''setzB'' 2 1 0 0 0 0 (P_emit Emit_normal) INST_NORMAL 1048577 5,
      opc 0x95 ''setnzB'' 2 1 0 0 0 0 (P_emit Emit_normal) INST_NORMAL 1048577 5,
      opc 0x96 ''setbeB'' 2 1 0 0 0 0 (P_emit Emit_normal) INST_NORMAL 1048577 5,
      opc 0x97 ''setnbeB'' 2 1 0 0 0 0 (P_emit Emit_normal) INST_NORMAL 1048577 5,
      opc 0x98 ''setsB'' 2 1 0 0 0 0 (P_emit Emit_normal) INST_NORMAL 1048577 5,
      opc 0x99 ''setnsB'' 2 1 0 0 0 0 (P_emit Emit_normal) INST_NORMAL 1048577 5,
      opc 0x9a ''setpB'' 2 1 0 0 0 0 (P_emit Emit_normal) INST_NORMAL 1048577 5,
      opc 0x9b ''setnpB'' 2 1 0 0 0 0 (P_emit Emit_normal) INST_NORMAL 1048577 5,
      opc 0x9c ''setlB'' 2 1 0 0 0 0 (P_emit Emit_normal) INST_NORMAL 1048577 5,
      opc 0x9d ''setnlB'' 2 1 0 0 0 0 (P_emit Emit_normal) INST_NORMAL 1048577 5,
      opc 0x9e ''setleB'' 2 1 0 0 0 0 (P_emit Emit_normal) INST_NORMAL 1048577 5,
      opc 0x9f ''setnleB'' 2 1 0 0 0 0 (P_emit Emit_normal) INST_NORMAL 1048577 5,
      opc 0xa0 ''push'' 8 4 0 0 0 0 (P_emit Emit_normal) INST_NORMAL 2097152 0,
      opc 0xa1 ''pop'' 8 4 0 0 0 0 (P_emit Emit_normal) INST_NORMAL 2097152 0,
      opc 0xa2 ''cpuid'' 0 0 0 0 0 0 (P_emit Emit_normal) INST_NORMAL 0 0,
      opc 0xa3 ''btL'' 2 2 3 2 0 0 (P_emit Emit_normal) INST_NORMAL 3145729 10,
      opc 0xa4 ''shldL'' 2 2 3 2 4 1 (P_emit Emit_normal) INST_NORMAL 3145731 10,
      opc 0xa5 ''shldL'' 2 2 3 2 1 133 (P_emit Emit_normal) INST_NORMAL 3145729 10,
      opc 0xa6 ''reserved'' 0 0 0 0 0 0 P_null INST_RESERVED 512 0,
      opc 0xa7 ''reserved'' 0 0 0 0 0 0 P_null INST_RESERVED 512 0,
      opc 0xa8 ''push'' 8 5 0 0 0 0 (P_emit Emit_normal) INST_NORMAL 2097152 0,
      opc 0xa9 ''pop'' 8 5 0 0 0 0 (P_emit Emit_normal) INST_NORMAL 2097152 0,
      opc 0xaa ''rsm'' 0 0 0 0 0 0 (P_emit Emit_normal) INST_NORMAL 0 10,
      opc 0xab ''btsL'' 2 2 3 2 0 0 (P_emit Emit_normal) INST_NORMAL 3145729 10,
      opc 0xac ''shrdL'' 2 2 3 2 4 1 (P_emit Emit_normal) INST_NORMAL 3145731 10,
      opc 0xad ''shrdL'' 2 2 3 2 1 133 (P_emit Emit_normal) INST_NORMAL 3145729 10,
      opc 0xae ''MMX/SSE/SSE2'' 2 0 0 0 0 0 (P_emit Emit_normal) INST_NORMAL 1048577 0,
      opc 0xaf ''imulL'' 3 2 2 2 0 0 (P_emit Emit_normal) INST_NORMAL 3145729 10,
      opc 0xb0 ''cmpxchgB'' 2 1 3 1 0 0 (P_emit Emit_normal) INST_NORMAL 1048577 15,
      opc 0xb1 ''cmpxchgL'' 2 2 3 2 0 0 (P_emit Emit_normal) INST_NORMAL 3145729 10,
      opc 0xb2 ''lss'' 3 2 2 5 0 0 (P_emit Emit_normal) INST_NORMAL 3145729 0,
      opc 0xb3 ''btr'' 2 2 3 2 0 0 (P_emit Emit_normal) INST_NORMAL 3145729 10,
      opc 0xb4 ''lfs'' 3 2 2 5 0 0 (P_emit Emit_normal) INST_NORMAL 3145729 0,
      opc 0xb5 ''lgs'' 3 2 2 5 0 0 (P_emit Emit_normal) INST_NORMAL 3145729 0,
      opc 0xb6 ''movzbL'' 3 2 2 1 0 0 (P_emit Emit_normal) INST_NORMAL 3145729 0,
      opc 0xb7 ''movzwL'' 3 2 2 3 0 0 (P_emit Emit_normal) INST_NORMAL 1048577 0,
      opc 0xb8 ''reserved'' 0 0 0 0 0 0 P_null INST_RESERVED 512 0,
      opc 0xb9 ''reserved'' 0 0 0 0 0 0 P_null INST_RESERVED 512 0,
      opc 0xba ''(group)'' 0 0 0 0 0 0 (P_table T_group8_Ev_Ib) INST_GROUP8_EV_IB 2048 0,
      opc 0xbb ''btcL'' 2 2 3 2 0 0 (P_emit Emit_normal) INST_NORMAL 3145729 10,
      opc 0xbc ''bsfL'' 3 2 2 2 0 0 (P_emit Emit_normal) INST_NORMAL 3145729 10,
      opc 0xbd ''bsrL'' 3 2 2 2 0 0 (P_emit Emit_normal) INST_NORMAL 3145729 10,
      opc 0xbe ''movsxL'' 3 2 2 1 0 0 (P_emit Emit_normal) INST_NORMAL 3145729 0,
      opc 0xbf ''movsxL'' 3 2 2 3 0 0 (P_emit Emit_normal) INST_NORMAL 1048577 0 ]"

definition twoByteOpcodes_c0 :: "OpCode list" where
  "twoByteOpcodes_c0 =
    [ opc 0xc0 ''xaddB'' 2 1 3 1 0 0 (P_emit Emit_normal) INST_NORMAL 1048577 10,
      opc 0xc1 ''xaddL'' 2 2 3 2 0 0 (P_emit Emit_normal) INST_NORMAL 3145729 10,
      opc 0xc2 ''MMX/SSE/SSE2'' 2 0 4 1 0 0 (P_emit Emit_normal) INST_NORMAL 1048579 0,
      opc 0xc3 ''MMX/SSE/SSE2'' 2 0 0 0 0 0 (P_emit Emit_normal) INST_NORMAL 1048577 0,
      opc 0xc4 ''MMX/SSE/SSE2'' 2 0 4 1 0 0 (P_emit Emit_normal) INST_NORMAL 1048579 0,
      opc 0xc5 ''MMX/SSE/SSE2'' 2 0 4 1 0 0 (P_emit Emit_normal) INST_NORMAL 1048579 0,
      opc 0xc6 ''MMX/SSE/SSE2'' 2 0 4 1 0 0 (P_emit Emit_normal) INST_NORMAL 1048579 0,
      opc 0xc7 ''(group)'' 0 0 0 0 0 0 (P_table T_ngroup9) INST_NGROUP9 2048 0,
      opc 0xc8 ''bswap'' 1 144 0 0 0 0 (P_emit Emit_normal) INST_NORMAL 0 0,
      opc 0xc9 ''bswap'' 1 146 0 0 0 0 (P_emit Emit_normal) INST_NORMAL 0 0,
      opc 0xca ''bswap'' 1 147 0 0 0 0 (P_emit Emit_normal) INST_NORMAL 0 0,
      opc 0xcb ''bswap'' 1 145 0 0 0 0 (P_emit Emit_normal) INST_NORMAL 0 0,
      opc 0xcc ''bswap'' 1 148 0 0 0 0 (P_emit Emit_normal) INST_NORMAL 0 0,
      opc 0xcd ''bswap'' 1 149 0 0 0 0 (P_emit Emit_normal) INST_NORMAL 0 0,
      opc 0xce ''bswap'' 1 151 0 0 0 0 (P_emit Emit_normal) INST_NORMAL 0 0,
      opc 0xcf ''bswap'' 1 150 0 0 0 0 (P_emit Emit_normal) INST_NORMAL 0 0,
      opc 0xd0 ''reserved'' 0 0 0 0 0 0 P_null INST_RESERVED 512 0,
      opc 0xd1 ''MMX/SSE/SSE2'' 2 0 0 0 0 0 (P_emit Emit_normal) INST_NORMAL 1048577 0,
      opc 0xd2 ''MMX/SSE/SSE2'' 2 0 0 0 0 0 (P_emit Emit_normal) INST_NORMAL 1048577 0,
      opc 0xd3 ''MMX/SSE/SSE2'' 2 0 0 0 0 0 (P_emit Emit_normal) INST_NORMAL 1048577 0,
      opc 0xd4 ''MMX/SSE/SSE2'' 2 0 0 0 0 0 (P_emit Emit_normal) INST_NORMAL 1048577 0,
      opc 0xd5 ''MMX/SSE/SSE2'' 2 0 0 0 0 0 (P_emit Emit_normal) INST_NORMAL 1048577 0,
      opc 0xd6 ''MMX/SSE/SSE2'' 2 0 0 0 0 0 (P_emit Emit_normal) INST_NORMAL 1048577 0,
      opc 0xd7 ''MMX/SSE/SSE2'' 2 0 0 0 0 0 (P_emit Emit_normal) INST_NORMAL 1048577 0,
      opc 0xd8 ''MMX/SSE/SSE2'' 2 0 0 0 0 0 (P_emit Emit_normal) INST_NORMAL 1048577 0,
      opc 0xd9 ''MMX/SSE/SSE2'' 2 0 0 0 0 0 (P_emit Emit_normal) INST_NORMAL 1048577 0,
      opc 0xda ''MMX/SSE/SSE2'' 2 0 0 0 0 0 (P_emit Emit_normal) INST_NORMAL 1048577 0,
      opc 0xdb ''MMX/SSE/SSE2'' 2 0 0 0 0 0 (P_emit Emit_normal) INST_NORMAL 1048577 0,
      opc 0xdc ''MMX/SSE/SSE2'' 2 0 0 0 0 0 (P_emit Emit_normal) INST_NORMAL 1048577 0,
      opc 0xdd ''MMX/SSE/SSE2'' 2 0 0 0 0 0 (P_emit Emit_normal) INST_NORMAL 1048577 0,
      opc 0xde ''MMX/SSE/SSE2'' 2 0 0 0 0 0 (P_emit Emit_normal) INST_NORMAL 1048577 0,
      opc 0xdf ''MMX/SSE/SSE2'' 2 0 0 0 0 0 (P_emit Emit_normal) INST_NORMAL 1048577 0,
      opc 0xe0 ''MMX/SSE/SSE2'' 2 0 0 0 0 0 (P_emit Emit_normal) INST_NORMAL 1048577 0,
      opc 0xe1 ''MMX/SSE/SSE2'' 2 0 0 0 0 0 (P_emit Emit_normal) INST_NORMAL 1048577 0,
      opc 0xe2 ''MMX/SSE/SSE2'' 2 0 0 0 0 0 (P_emit Emit_normal) INST_NORMAL 1048577 0,
      opc 0xe3 ''MMX/SSE/SSE2'' 2 0 0 0 0 0 (P_emit Emit_normal) INST_NORMAL 1048577 0,
      opc 0xe4 ''MMX/SSE/SSE2'' 2 0 0 0 0 0 (P_emit Emit_normal) INST_NORMAL 1048577 0,
      opc 0xe5 ''MMX/SSE/SSE2'' 2 0 0 0 0 0 (P_emit Emit_normal) INST_NORMAL 1048577 0,
      opc 0xe6 ''MMX/SSE/SSE2'' 2 0 0 0 0 0 (P_emit Emit_normal) INST_NORMAL 1048577 0,
      opc 0xe7 ''MMX/SSE/SSE2'' 2 0 0 0 0 0 (P_emit Emit_normal) INST_NORMAL 1048577 0,
      opc 0xe8 ''MMX/SSE/SSE2'' 2 0 0 0 0 0 (P_emit Emit_normal) INST_NORMAL 1048577 0,
      opc 0xe9 ''MMX/SSE/SSE2'' 2 0 0 0 0 0 (P_emit Emit_normal) INST_NORMAL 1048577 0,
      opc 0xea ''MMX/SSE/SSE2'' 2 0 0 0 0 0 (P_emit Emit_normal) INST_NORMAL 1048577 0,
      opc 0xeb ''MMX/SSE/SSE2'' 2 0 0 0 0 0 (P_emit Emit_normal) INST_NORMAL 1048577 0,
      opc 0xec ''MMX/SSE/SSE2'' 2 0 0 0 0 0 (P_emit Emit_normal) INST_NORMAL 1048577 0,
      opc 0xed ''MMX/SSE/SSE2'' 2 0 0 0 0 0 (P_emit Emit_normal) INST_NORMAL 1048577 0,
      opc 0xee ''MMX/SSE/SSE2'' 2 0 0 0 0 0 (P_emit Emit_normal) INST_NORMAL 1048577 0,
      opc 0xef ''MMX/SSE/SSE2'' 2 0 0 0 0 0 (P_emit Emit_normal) INST_NORMAL 1048577 0,
      opc 0xf0 ''reserved'' 0 0 0 0 0 0 P_null INST_RESERVED 512 0,
      opc 0xf1 ''MMX/SSE/SSE2'' 2 0 0 0 0 0 (P_emit Emit_normal) INST_NORMAL 1048577 0,
      opc 0xf2 ''MMX/SSE/SSE2'' 2 0 0 0 0 0 (P_emit Emit_normal) INST_NORMAL 1048577 0,
      opc 0xf3 ''MMX/SSE/SSE2'' 2 0 0 0 0 0 (P_emit Emit_normal) INST_NORMAL 1048577 0,
      opc 0xf4 ''MMX/SSE/SSE2'' 2 0 0 0 0 0 (P_emit Emit_normal) INST_NORMAL 1048577 0,
      opc 0xf5 ''MMX/SSE/SSE2'' 2 0 0 0 0 0 (P_emit Emit_normal) INST_NORMAL 1048577 0,
      opc 0xf6 ''MMX/SSE/SSE2'' 2 0 0 0 0 0 (P_emit Emit_normal) INST_NORMAL 1048577 0,
      opc 0xf7 ''MMX/SSE/SSE2'' 2 0 0 0 0 0 (P_emit Emit_normal) INST_NORMAL 1048577 0,
      opc 0xf8 ''MMX/SSE/SSE2'' 2 0 0 0 0 0 (P_emit Emit_normal) INST_NORMAL 1048577 0,
      opc 0xf9 ''MMX/SSE/SSE2'' 2 0 0 0 0 0 (P_emit Emit_normal) INST_NORMAL 1048577 0,
      opc 0xfa ''MMX/SSE/SSE2'' 2 0 0 0 0 0 (P_emit Emit_normal) INST_NORMAL 1048577 0,
      opc 0xfb ''MMX/SSE/SSE2'' 2 0 0 0 0 0 (P_emit Emit_normal) INST_NORMAL 1048577 0,
      opc 0xfc ''MMX/SSE/SSE2'' 2 0 0 0 0 0 (P_emit Emit_normal) INST_NORMAL 1048577 0,
      opc 0xfd ''MMX/SSE/SSE2'' 2 0 0 0 0 0 (P_emit Emit_normal) INST_NORMAL 1048577 0,
      opc 0xfe ''MMX/SSE/SSE2'' 2 0 0 0 0 0 (P_emit Emit_normal) INST_NORMAL 1048577 0,
      opc 0xff ''reserved'' 0 0 0 0 0 0 P_null INST_RESERVED 512 0 ]"

definition twoByteOpcodes :: "OpCode list" where
  "twoByteOpcodes = twoByteOpcodes_00 @ twoByteOpcodes_40 @ twoByteOpcodes_80 @ twoByteOpcodes_c0"

definition nopbyte0_00 :: "OpCode list" where
  "nopbyte0_00 =
    [ opc 0x0 ''addB'' 2 1 3 1 0 0 (P_emit Emit_normal) INST_NORMAL 1048577 10,
      opc 0x1 ''addL'' 2 2 3 2 0 0 (P_emit Emit_normal) INST_NORMAL 3145729 10,
      opc 0x2 ''addB'' 3 1 2 1 0 0 (P_emit Emit_normal) INST_NORMAL 1048577 10,
      opc 0x3 ''addL'' 3 2 2 2 0 0 (P_emit Emit_normal) INST_NORMAL 3145729 10,
      opc 0x4 ''addB'' 1 129 4 1 0 0 (P_emit Emit_normal) INST_NORMAL 2 10,
      opc 0x5 ''addL'' 1 144 4 2 0 0 (P_emit Emit_normal) INST_NORMAL 2097160 10,
      opc 0x6 ''push'' 8 0 0 0 0 0 (P_emit Emit_normal) INST_NORMAL 2097152 0,
      opc 0x7 ''pop'' 8 0 0 0 0 0 (P_emit Emit_normal) INST_NORMAL 2097152 0,
      opc 0x8 ''orB'' 2 1 3 1 0 0 (P_emit Emit_normal) INST_NORMAL 1048577 10,
      opc 0x9 ''orL'' 2 2 3 2 0 0 (P_emit Emit_normal) INST_NORMAL 3145729 10,
      opc 0xa ''orB'' 3 1 2 1 0 0 (P_emit Emit_normal) INST_NORMAL 1048577 10,
      opc 0xb ''orL'' 3 2 2 2 0 0 (P_emit Emit_normal) INST_NORMAL 3145729 10,
      opc 0xc ''orB'' 1 129 4 1 0 0 (P_emit Emit_normal) INST_NORMAL 2 10,
      opc 0xd ''orL'' 1 144 4 2 0 0 (P_emit Emit_normal) INST_NORMAL 2097160 10,
      opc 0xe ''push'' 8 1 0 0 0 0 (P_emit Emit_normal) INST_NORMAL 2097152 0,
      opc 0xf ''(table)'' 0 0 0 0 0 0 (P_table T_twoByteOpcodes) INST_2BYTES_OPC 1024 0,
      opc 0x10 ''adcB'' 2 1 3 1 0 0 (P_emit Emit_normal) INST_NORMAL 1048577 15,
      opc 0x11 ''adcL'' 2 2 3 2 0 0 (P_emit Emit_normal) INST_NORMAL 3145729 15,
      opc 0x12 ''adcB'' 3 1 2 1 0 0 (P_emit Emit_normal) INST_NORMAL 1048577 15,
      opc 0x13 ''adcL'' 3 2 2 2 0 0 (P_emit Emit_normal) INST_NORMAL 3145729 15,
      opc 0x14 ''adcB'' 1 129 4 1 0 0 (P_emit Emit_normal) INST_NORMAL 2 15,
      opc 0x15 ''adcL'' 1 144 4 2 0 0 (P_emit Emit_normal) INST_NORMAL 2097160 15,
      opc 0x16 ''push'' 8 2 0 0 0 0 (P_emit Emit_normal) INST_NORMAL 2097152 0,
      opc 0x17 ''pop'' 8 2 0 0 0 0 (P_emit Emit_normal) INST_NORMAL 2097152 0,
      opc 0x18 ''sbbB'' 2 1 3 1 0 0 (P_emit Emit_normal) INST_NORMAL 1048577 15,
      opc 0x19 ''sbbL'' 2 2 3 2 0 0 (P_emit Emit_normal) INST_NORMAL 3145729 15,
      opc 0x1a ''sbbB'' 3 1 2 1 0 0 (P_emit Emit_normal) INST_NORMAL 1048577 15,
      opc 0x1b ''sbbL'' 3 2 2 2 0 0 (P_emit Emit_normal) INST_NORMAL 3145729 15,
      opc 0x1c ''sbbB'' 1 129 4 1 0 0 (P_emit Emit_normal) INST_NORMAL 2 15,
      opc 0x1d ''sbbL'' 1 144 4 2 0 0 (P_emit Emit_normal) INST_NORMAL 2097160 15,
      opc 0x1e ''push'' 8 3 0 0 0 0 (P_emit Emit_normal) INST_NORMAL 2097152 0,
      opc 0x1f ''pop'' 8 3 0 0 0 0 (P_emit Emit_normal) INST_NORMAL 2097152 0,
      opc 0x20 ''andB'' 2 1 3 1 0 0 (P_emit Emit_normal) INST_NORMAL 1048577 10,
      opc 0x21 ''andL'' 2 2 3 2 0 0 (P_emit Emit_normal) INST_NORMAL 3145729 10,
      opc 0x22 ''andB'' 3 1 2 1 0 0 (P_emit Emit_normal) INST_NORMAL 1048577 10,
      opc 0x23 ''andL'' 3 2 2 2 0 0 (P_emit Emit_normal) INST_NORMAL 3145729 10,
      opc 0x24 ''andB'' 1 129 4 1 0 0 (P_emit Emit_normal) INST_NORMAL 2 10,
      opc 0x25 ''andL'' 1 144 4 2 0 0 (P_emit Emit_normal) INST_NORMAL 2097160 10,
      opc 0x26 ''es'' 0 0 0 0 0 0 P_null INST_PREFIX 256 0,
      opc 0x27 ''daa'' 0 0 0 0 0 0 (P_emit Emit_normal) INST_NORMAL 0 15,
      opc 0x28 ''subB'' 2 1 3 1 0 0 (P_emit Emit_normal) INST_NORMAL 1048577 10,
      opc 0x29 ''subL'' 2 2 3 2 0 0 (P_emit Emit_normal) INST_NORMAL 3145729 10,
      opc 0x2a ''subB'' 3 1 2 1 0 0 (P_emit Emit_normal) INST_NORMAL 1048577 10,
      opc 0x2b ''subL'' 3 2 2 2 0 0 (P_emit Emit_normal) INST_NORMAL 3145729 10,
      opc 0x2c ''subB'' 1 129 4 1 0 0 (P_emit Emit_normal) INST_NORMAL 2 10,
      opc 0x2d ''subL'' 1 144 4 2 0 0 (P_emit Emit_normal) INST_NORMAL 2097160 10,
      opc 0x2e ''cs'' 0 0 0 0 0 0 P_null INST_PREFIX 256 0,
      opc 0x2f ''das'' 0 0 0 0 0 0 (P_emit Emit_normal) INST_NORMAL 0 15,
      opc 0x30 ''xorB'' 2 1 3 1 0 0 (P_emit Emit_normal) INST_NORMAL 1048577 10,
      opc 0x31 ''xorL'' 2 2 3 2 0 0 (P_emit Emit_normal) INST_NORMAL 3145729 10,
      opc 0x32 ''xorB'' 3 1 2 1 0 0 (P_emit Emit_normal) INST_NORMAL 1048577 10,
      opc 0x33 ''xorL'' 3 2 2 2 0 0 (P_emit Emit_normal) INST_NORMAL 3145729 10,
      opc 0x34 ''xorB'' 1 129 4 1 0 0 (P_emit Emit_normal) INST_NORMAL 2 10,
      opc 0x35 ''xorL'' 1 144 4 2 0 0 (P_emit Emit_normal) INST_NORMAL 2097160 10,
      opc 0x36 ''ss'' 0 0 0 0 0 0 P_null INST_PREFIX 256 0,
      opc 0x37 ''aaa'' 0 0 0 0 0 0 (P_emit Emit_normal) INST_NORMAL 0 15,
      opc 0x38 ''cmpB'' 2 1 3 1 0 0 (P_emit Emit_normal) INST_NORMAL 1048577 10,
      opc 0x39 ''cmpL'' 2 2 3 2 0 0 (P_emit Emit_normal) INST_NORMAL 3145729 10,
      opc 0x3a ''cmpB'' 3 1 2 1 0 0 (P_emit Emit_normal) INST_NORMAL 1048577 10,
      opc 0x3b ''cmpL'' 3 2 2 2 0 0 (P_emit Emit_normal) INST_NORMAL 3145729 10,
      opc 0x3c ''cmpB'' 1 129 4 1 0 0 (P_emit Emit_normal) INST_NORMAL 2 10,
      opc 0x3d ''cmpL'' 1 144 4 2 0 0 (P_emit Emit_normal) INST_NORMAL 2097160 10,
      opc 0x3e ''ds'' 0 0 0 0 0 0 P_null INST_PREFIX 256 0,
      opc 0x3f ''aas'' 0 0 0 0 0 0 (P_emit Emit_normal) INST_NORMAL 0 15 ]"

definition nopbyte0_40 :: "OpCode list" where
  "nopbyte0_40 =
    [ opc 0x40 ''incL'' 1 144 0 0 0 0 (P_emit Emit_normal) INST_NORMAL 2097152 8,
      opc 0x41 ''incL'' 1 146 0 0 0 0 (P_emit Emit_normal) INST_NORMAL 2097152 8,
      opc 0x42 ''incL'' 1 147 0 0 0 0 (P_emit Emit_normal) INST_NORMAL 2097152 8,
      opc 0x43 ''incL'' 1 145 0 0 0 0 (P_emit Emit_normal) INST_NORMAL 2097152 8,
      opc 0x44 ''incL'' 1 148 0 0 0 0 (P_emit Emit_normal) INST_NORMAL 2097152 8,
      opc 0x45 ''incL'' 1 149 0 0 0 0 (P_emit Emit_normal) INST_NORMAL 2097152 8,
      opc 0x46 ''incL'' 1 151 0 0 0 0 (P_emit Emit_normal) INST_NORMAL 2097152 8,
      opc 0x47 ''incL'' 1 150 0 0 0 0 (P_emit Emit_normal) INST_NORMAL 2097152 8,
      opc 0x48 ''decL'' 1 144 0 0 0 0 (P_emit Emit_normal) INST_NORMAL 2097152 8,
      opc 0x49 ''decL'' 1 146 0 0 0 0 (P_emit Emit_normal) INST_NORMAL 2097152 8,
      opc 0x4a ''decL'' 1 147 0 0 0 0 (P_emit Emit_normal) INST_NORMAL 2097152 8,
      opc 0x4b ''decL'' 1 145 0 0 0 0 (P_emit Emit_normal) INST_NORMAL 2097152 8,
      opc 0x4c ''decL'' 1 148 0 0 0 0 (P_emit Emit_normal) INST_NORMAL 2097152 8,
      opc 0x4d ''decL'' 1 149 0 0 0 0 (P_emit Emit_normal) INST_NORMAL 2097152 8,
      opc 0x4e ''decL'' 1 151 0 0 0 0 (P_emit Emit_normal) INST_NORMAL 2097152 8,
      opc 0x4f ''decL'' 1 150 0 0 0 0 (P_emit Emit_normal) INST_NORMAL 2097152 8,
      opc 0x50 ''pushL'' 1 144 0 0 0 0 (P_emit Emit_normal) INST_NORMAL 2097152 0,
      opc 0x51 ''pushL'' 1 146 0 0 0 0 (P_emit Emit_normal) INST_NORMAL 2097152 0,
      opc 0x52 ''pushL'' 1 147 0 0 0 0 (P_emit Emit_normal) INST_NORMAL 2097152 0,
      opc 0x53 ''pushL'' 1 145 0 0 0 0 (P_emit Emit_normal) INST_NORMAL 2097152 0,
      opc 0x54 ''pushL'' 1 148 0 0 0 0 (P_emit Emit_normal) INST_NORMAL 2097152 0,
      opc 0x55 ''pushL'' 1 149 0 0 0 0 (P_emit Emit_normal) INST_NORMAL 2097152 0,
      opc 0x56 ''pushL'' 1 151 0 0 0 0 (P_emit Emit_normal) INST_NORMAL 2097152 0,
      opc 0x57 ''pushL'' 1 150 0 0 0 0 (P_emit Emit_normal) INST_NORMAL 2097152 0,
      opc 0x58 ''popL'' 1 144 0 0 0 0 (P_emit Emit_normal) INST_NORMAL 2097152 0,
      opc 0x59 ''popL'' 1 146 0 0 0 0 (P_emit Emit_normal) INST_NORMAL 2097152 0,
      opc 0x5a ''popL'' 1 147 0 0 0 0 (P_emit Emit_normal) INST_NORMAL 2097152 0,
      opc 0x5b ''popL'' 1 145 0 0 0 0 (P_emit Emit_normal) INST_NORMAL 2097152 0,
      opc 0x5c ''popL'' 1 148 0 0 0 0 (P_emit Emit_normal) INST_NORMAL 2097152 0,
      opc 0x5d ''popL'' 1 149 0 0 0 0 (P_emit Emit_normal) INST_NORMAL 2097152 0,
      opc 0x5e ''popL'' 1 151 0 0 0 0 (P_emit Emit_normal) INST_NORMAL 2097152 0,
      opc 0x5f ''popL'' 1 150 0 0 0 0 (P_emit Emit_normal) INST_NORMAL 2097152 0,
      opc 0x60 ''pushaL'' 0 0 0 0 0 0 (P_emit Emit_normal) INST_NORMAL 2097152 0,
      opc 0x61 ''popaL'' 0 0 0 0 0 0 (P_emit Emit_normal) INST_NORMAL 2097152 0,
      opc 0x62 ''bound'' 3 2 2 2 0 0 (P_emit Emit_normal) INST_NORMAL 3145729 0,
      opc 0x63 ''arpl'' 2 3 3 3 0 0 (P_emit Emit_normal) INST_NORMAL 1048577 15,
      opc 0x64 ''fs'' 0 0 0 0 0 0 P_null INST_PREFIX 256 0,
      opc 0x65 ''gs'' 0 0 0 0 0 0 P_null INST_PREFIX 256 0,
      opc 0x66 ''dataN'' 0 0 0 0 0 0 P_null INST_PREFIX 256 0,
      opc 0x67 ''addrN'' 0 0 0 0 0 0 P_null INST_PREFIX 256 0,
      opc 0x68 ''pushL'' 4 2 0 0 0 0 (P_emit Emit_normal) INST_NORMAL 2097160 0,
      opc 0x69 ''imulL'' 3 2 2 2 4 2 (P_emit Emit_normal) INST_NORMAL 3145737 10,
      opc 0x6a ''push'' 4 1 0 0 0 0 (P_emit Emit_normal) INST_NORMAL 2 0,
      opc 0x6b ''imulL'' 3 2 2 2 4 1 (P_emit Emit_normal) INST_NORMAL 3145731 10,
      opc 0x6c ''insB'' 5 150 1 137 0 0 (P_emit Emit_normal) INST_NORMAL 1048576 5,
      opc 0x6d ''insL'' 5 150 1 137 0 0 (P_emit Emit_normal) INST_NORMAL 3145728 5,
      opc 0x6e ''outsB'' 1 137 6 151 0 0 (P_emit Emit_normal) INST_NORMAL 1048576 5,
      opc 0x6f ''outsL'' 1 137 6 151 0 0 (P_emit Emit_normal) INST_NORMAL 3145728 5,
      opc 0x70 ''jo'' 7 1 0 0 0 0 (P_emit Emit_jcond) INST_JCOND 10485762 5,
      opc 0x71 ''jno'' 7 1 0 0 0 0 (P_emit Emit_jcond) INST_JCOND 10485762 5,
      opc 0x72 ''jb'' 7 1 0 0 0 0 (P_emit Emit_jcond) INST_JCOND 10485762 5,
      opc 0x73 ''jae'' 7 1 0 0 0 0 (P_emit Emit_jcond) INST_JCOND 10485762 5,
      opc 0x74 ''je'' 7 1 0 0 0 0 (P_emit Emit_jcond) INST_JCOND 10485762 5,
      opc 0x75 ''jne'' 7 1 0 0 0 0 (P_emit Emit_jcond) INST_JCOND 10485762 5,
      opc 0x76 ''jbe'' 7 1 0 0 0 0 (P_emit Emit_jcond) INST_JCOND 10485762 5,
      opc 0x77 ''ja'' 7 1 0 0 0 0 (P_emit Emit_jcond) INST_JCOND 10485762 5,
      opc 0x78 ''js'' 7 1 0 0 0 0 (P_emit Emit_jcond) INST_JCOND 10485762 5,
      opc 0x79 ''jns'' 7 1 0 0 0 0 (P_emit Emit_jcond) INST_JCOND 10485762 5,
      opc 0x7a ''jp'' 7 1 0 0 0 0 (P_emit Emit_jcond) INST_JCOND 10485762 5,
      opc 0x7b ''jnp'' 7 1 0 0 0 0 (P_emit Emit_jcond) INST_JCOND 10485762 5,
      opc 0x7c ''jl'' 7 1 0 0 0 0 (P_emit Emit_jcond) INST_JCOND 10485762 5,
      opc 0x7d ''jge'' 7 1 0 0 0 0 (P_emit Emit_jcond) INST_JCOND 10485762 5,
      opc 0x7e ''jle'' 7 1 0 0 0 0 (P_emit Emit_jcond) INST_JCOND 10485762 5,
      opc 0x7f ''jg'' 7 1 0 0 0 0 (P_emit Emit_jcond) INST_JCOND 10485762 5 ]"

definition nopbyte0_80 :: "OpCode list" where
  "nopbyte0_80 =
    [ opc 0x80 ''(group)'' 0 0 0 0 0 0 (P_table T_group1_Eb_Ib) INST_GROUP1_EB_IB 2048 0,
      opc 0x81 ''(group)'' 0 0 0 0 0 0 (P_table T_group1_Ev_Iv) INST_GROUP1_EV_IV 2048 0,
      opc 0x82 ''(group)'' 0 0 0 0 0 0 (P_table T_group1_Eb_Ib) INST_GROUP1_EB_IB 2048 0,
      opc 0x83 ''(group)'' 0 0 0 0 0 0 (P_table T_group1_Ev_Ib) INST_GROUP1_EV_IB 2048 0,
      opc 0x84 ''testB'' 2 1 3 1 0 0 (P_emit Emit_normal) INST_NORMAL 1048577 10,
      opc 0x85 ''testL'' 2 2 3 2 0 0 (P_emit Emit_normal) INST_NORMAL 3145729 10,
      opc 0x86 ''xchgB'' 2 1 3 1 0 0 (P_emit Emit_normal) INST_NORMAL 1048577 0,
      opc 0x87 ''xchgL'' 2 2 3 2 0 0 (P_emit Emit_normal) INST_NORMAL 3145729 0,
      opc 0x88 ''movB'' 2 1 3 1 0 0 (P_emit Emit_normal) INST_NORMAL 1048577 0,
      opc 0x89 ''movL'' 2 2 3 2 0 0 (P_emit Emit_normal) INST_NORMAL 3145729 0,
      opc 0x8a ''movB'' 3 1 2 1 0 0 (P_emit Emit_normal) INST_NORMAL 1048577 0,
      opc 0x8b ''movL'' 3 2 2 2 0 0 (P_emit Emit_normal) INST_NORMAL 3145729 0,
      opc 0x8c ''movL'' 2 3 9 3 0 0 (P_emit Emit_normal) INST_NORMAL 3145729 0,
      opc 0x8d ''lea'' 3 2 2 0 0 0 (P_emit Emit_normal) INST_NORMAL 3145729 0,
      opc 0x8e ''movL'' 9 3 2 3 0 0 (P_emit Emit_normal) INST_NORMAL 3145729 0,
      opc 0x8f ''popL'' 2 2 0 0 0 0 (P_emit Emit_normal) INST_NORMAL 3145729 0,
      opc 0x90 ''nop'' 0 0 0 0 0 0 (P_emit Emit_normal) INST_NORMAL 2097152 0,
      opc 0x91 ''xchgL'' 1 146 1 144 0 0 (P_emit Emit_normal) INST_NORMAL 2097152 0,
      opc 0x92 ''xchgL'' 1 147 1 144 0 0 (P_emit Emit_normal) INST_NORMAL 2097152 0,
      opc 0x93 ''xchgL'' 1 145 1 144 0 0 (P_emit Emit_normal) INST_NORMAL 2097152 0,
      opc 0x94 ''xchgL'' 1 148 1 144 0 0 (P_emit Emit_normal) INST_NORMAL 2097152 0,
      opc 0x95 ''xchgL'' 1 149 1 144 0 0 (P_emit Emit_normal) INST_NORMAL 2097152 0,
      opc 0x96 ''xchgL'' 1 151 1 144 0 0 (P_emit Emit_normal) INST_NORMAL 2097152 0,
      opc 0x97 ''xchgL'' 1 150 1 144 0 0 (P_emit Emit_normal) INST_NORMAL 2097152 0,
      opc 0x98 ''cWD'' 0 0 0 0 0 0 (P_emit Emit_normal) INST_NORMAL 2097152 0,
      opc 0x99 ''cDQ'' 0 0 0 0 0 0 (P_emit Emit_normal) INST_NORMAL 2097152 0,
      opc 0x9a ''call'' 10 5 0 0 0 0 (P_emit Emit_normal) INST_NORMAL 2129920 0,
      opc 0x9b ''wait'' 0 0 0 0 0 0 (P_emit Emit_normal) INST_NORMAL 0 0,
      opc 0x9c ''pushf'' 0 0 0 0 0 0 (P_emit Emit_normal) INST_NORMAL 2097152 5,
      opc 0x9d ''popf'' 0 0 0 0 0 0 (P_emit Emit_normal) INST_NORMAL 2097152 10,
      opc 0x9e ''sahf'' 0 0 0 0 0 0 (P_emit Emit_normal) INST_NORMAL 0 10,
      opc 0x9f ''lahf'' 0 0 0 0 0 0 (P_emit Emit_normal) INST_NORMAL 0 0,
      opc 0xa0 ''movB'' 1 129 11 1 0 0 (P_emit Emit_normal) INST_NORMAL 1048640 0,
      opc 0xa1 ''movL'' 1 144 11 2 0 0 (P_emit Emit_normal) INST_NORMAL 3145856 0,
      opc 0xa2 ''movB'' 11 1 1 129 0 0 (P_emit Emit_normal) INST_NORMAL 1048640 0,
      opc 0xa3 ''movL'' 11 2 1 144 0 0 (P_emit Emit_normal) INST_NORMAL 3145856 0,
      opc 0xa4 ''movsB'' 5 150 6 151 0 0 (P_emit Emit_normal) INST_NORMAL 1048576 5,
      opc 0xa5 ''movsL'' 5 150 6 151 0 0 (P_emit Emit_normal) INST_NORMAL 3145728 5,
      opc 0xa6 ''cmpsB'' 6 151 5 150 0 0 (P_emit Emit_normal) INST_NORMAL 1048576 10,
      opc 0xa7 ''cmpsL'' 6 151 5 150 0 0 (P_emit Emit_normal) INST_NORMAL 3145728 10,
      opc 0xa8 ''testB'' 1 129 4 1 0 0 (P_emit Emit_normal) INST_NORMAL 2 10,
      opc 0xa9 ''testL'' 1 144 4 2 0 0 (P_emit Emit_normal) INST_NORMAL 2097160 10,
      opc 0xaa ''stosB'' 5 150 1 129 0 0 (P_emit Emit_normal) INST_NORMAL 1048576 5,
      opc 0xab ''stosL'' 5 150 1 144 0 0 (P_emit Emit_normal) INST_NORMAL 3145728 5,
      opc 0xac ''lodsB'' 1 129 6 151 0 0 (P_emit Emit_normal) INST_NORMAL 1048576 0,
      opc 0xad ''lodsL'' 1 144 6 151 0 0 (P_emit Emit_normal) INST_NORMAL 3145728 0,
      opc 0xae ''scasB'' 1 129 5 150 0 0 (P_emit Emit_normal) INST_NORMAL 1048576 15,
      opc 0xaf ''scasL'' 1 144 5 150 0 0 (P_emit Emit_normal) INST_NORMAL 3145728 15,
      opc 0xb0 ''movB'' 1 129 4 1 0 0 (P_emit Emit_normal) INST_NORMAL 2 0,
      opc 0xb1 ''movB'' 1 133 4 1 0 0 (P_emit Emit_normal) INST_NORMAL 2 0,
      opc 0xb2 ''movB'' 1 135 4 1 0 0 (P_emit Emit_normal) INST_NORMAL 2 0,
      opc 0xb3 ''movB'' 1 131 4 1 0 0 (P_emit Emit_normal) INST_NORMAL 2 0,
      opc 0xb4 ''movB'' 1 128 4 1 0 0 (P_emit Emit_normal) INST_NORMAL 2 0,
      opc 0xb5 ''movB'' 1 132 4 1 0 0 (P_emit Emit_normal) INST_NORMAL 2 0,
      opc 0xb6 ''movB'' 1 134 4 1 0 0 (P_emit Emit_normal) INST_NORMAL 2 0,
      opc 0xb7 ''movB'' 1 130 4 1 0 0 (P_emit Emit_normal) INST_NORMAL 2 0,
      opc 0xb8 ''movL'' 1 144 4 2 0 0 (P_emit Emit_normal) INST_NORMAL 2097160 0,
      opc 0xb9 ''movL'' 1 146 4 2 0 0 (P_emit Emit_normal) INST_NORMAL 2097160 0,
      opc 0xba ''movL'' 1 147 4 2 0 0 (P_emit Emit_normal) INST_NORMAL 2097160 0,
      opc 0xbb ''movL'' 1 145 4 2 0 0 (P_emit Emit_normal) INST_NORMAL 2097160 0,
      opc 0xbc ''movL'' 1 148 4 2 0 0 (P_emit Emit_normal) INST_NORMAL 2097160 0,
      opc 0xbd ''movL'' 1 149 4 2 0 0 (P_emit Emit_normal) INST_NORMAL 2097160 0,
      opc 0xbe ''movL'' 1 151 4 2 0 0 (P_emit Emit_normal) INST_NORMAL 2097160 0,
      opc 0xbf ''movL'' 1 150 4 2 0 0 (P_emit Emit_normal) INST_NORMAL 2097160 0 ]"

definition nopbyte0_c0 :: "OpCode list" where
  "nopbyte0_c0 =
    [ opc 0xc0 ''(group)'' 0 0 0 0 0 0 (P_table T_group2a_Eb_Ib) INST_GROUP2A_EB_IB 2048 0,
      opc 0xc1 ''(group)'' 0 0 0 0 0 0 (P_table T_group2a_Ev_Ib) INST_GROUP2A_EV_IB 2048 0,
      opc 0xc2 ''retL'' 4 3 0 0 0 0 (P_emit Emit_ret_Iw) INST_RET_IW 10502144 0,
      opc 0xc3 ''retL'' 0 0 0 0 0 0 (P_emit Emit_ret) INST_RET 10485760 0,
      opc 0xc4 ''les'' 3 2 2 5 0 0 (P_emit Emit_normal) INST_NORMAL 3145729 0,
      opc 0xc5 ''lds'' 3 2 2 5 0 0 (P_emit Emit_normal) INST_NORMAL 3145729 0,
      opc 0xc6 ''movB'' 2 1 4 1 0 0 (P_emit Emit_normal) INST_NORMAL 1048579 0,
      opc 0xc7 ''movL'' 2 2 4 2 0 0 (P_emit Emit_normal) INST_NORMAL 3145737 0,
      opc 0xc8 ''enter'' 4 3 4 1 0 0 (P_emit Emit_normal) INST_NORMAL 16386 0,
      opc 0xc9 ''leaveL'' 0 0 0 0 0 0 (P_emit Emit_normal) INST_NORMAL 2097152 0,
      opc 0xca ''lret'' 4 3 0 0 0 0 (P_emit Emit_normal) INST_NORMAL 2113536 0,
      opc 0xcb ''lret'' 0 0 0 0 0 0 (P_emit Emit_normal) INST_NORMAL 2097152 0,
      opc 0xcc ''int3'' 0 0 0 0 0 0 (P_emit Emit_normal) INST_NORMAL 0 15,
      opc 0xcd ''int'' 4 1 0 0 0 0 (P_emit Emit_int) INST_INT 2 15,
      opc 0xce ''into'' 0 0 0 0 0 0 (P_emit Emit_normal) INST_NORMAL 0 15,
      opc 0xcf ''iret'' 0 0 0 0 0 0 (P_emit Emit_normal) INST_NORMAL 2097152 15,
      opc 0xd0 ''(group)'' 0 0 0 0 0 0 (P_table T_group2_Eb_1) INST_GROUP2_EB_1 2048 0,
      opc 0xd1 ''(group)'' 0 0 0 0 0 0 (P_table T_group2_Ev_1) INST_GROUP2_EV_1 2048 0,
      opc 0xd2 ''(group)'' 0 0 0 0 0 0 (P_table T_group2_Eb_CL) INST_GROUP2_EB_CL 2048 0,
      opc 0xd3 ''(group)'' 0 0 0 0 0 0 (P_table T_group2_Ev_CL) INST_GROUP2_EV_CL 2048 0,
      opc 0xd4 ''aam'' 4 1 0 0 0 0 (P_emit Emit_normal) INST_NORMAL 2 10,
      opc 0xd5 ''aad'' 4 1 0 0 0 0 (P_emit Emit_normal) INST_NORMAL 2 10,
      opc 0xd6 ''reserved'' 0 0 0 0 0 0 P_null INST_RESERVED 512 0,
      opc 0xd7 ''xlat'' 0 0 0 0 0 0 (P_emit Emit_normal) INST_NORMAL 1048576 0,
      opc 0xd8 ''(float)'' 0 0 0 0 0 0 (P_table T_float_d8) INST_FLOAT_D8 65536 0,
      opc 0xd9 ''(float)'' 0 0 0 0 0 0 (P_table T_float_d9) INST_FLOAT_D9 65536 0,
      opc 0xda ''(float)'' 0 0 0 0 0 0 (P_table T_float_da) INST_FLOAT_DA 65536 0,
      opc 0xdb ''(float)'' 0 0 0 0 0 0 (P_table T_float_db) INST_FLOAT_DB 65536 0,
      opc 0xdc ''(float)'' 0 0 0 0 0 0 (P_table T_float_dc) INST_FLOAT_DC 65536 0,
      opc 0xdd ''(float)'' 0 0 0 0 0 0 (P_table T_float_dd) INST_FLOAT_DD 65536 0,
      opc 0xde ''(float)'' 0 0 0 0 0 0 (P_table T_float_de) INST_FLOAT_DE 65536 0,
      opc 0xdf ''(float)'' 0 0 0 0 0 0 (P_table T_float_df) INST_FLOAT_DF 65536 0,
      opc 0xe0 ''loopne'' 7 1 0 0 0 0 (P_emit Emit_other_jcond) INST_OTHER_JCOND 11534338 5,
      opc 0xe1 ''loope'' 7 1 0 0 0 0 (P_emit Emit_other_jcond) INST_OTHER_JCOND 11534338 5,
      opc 0xe2 ''loop'' 7 1 0 0 0 0 (P_emit Emit_other_jcond) INST_OTHER_JCOND 11534338 0,
      opc 0xe3 ''jcxz'' 7 1 0 0 0 0 (P_emit Emit_other_jcond) INST_OTHER_JCOND 11534338 0,
      opc 0xe4 ''inB'' 1 129 4 1 0 0 (P_emit Emit_normal) INST_NORMAL 2 0,
      opc 0xe5 ''inL'' 1 144 4 1 0 0 (P_emit Emit_normal) INST_NORMAL 2097154 0,
      opc 0xe6 ''outB'' 4 1 1 129 0 0 (P_emit Emit_normal) INST_NORMAL 2 0,
      opc 0xe7 ''outL'' 4 1 1 144 0 0 (P_emit Emit_normal) INST_NORMAL 2097154 0,
      opc 0xe8 ''callL'' 7 2 0 0 0 0 (P_emit Emit_call_disp) INST_CALL 10485776 0,
      opc 0xe9 ''jmpL'' 7 2 0 0 0 0 (P_emit Emit_jmp) INST_JMP 10485776 0,
      opc 0xea ''ljmp'' 10 5 0 0 0 0 (P_emit Emit_normal) INST_NORMAL 2129920 0,
      opc 0xeb ''jmp'' 7 1 0 0 0 0 (P_emit Emit_jmp) INST_JMP 10485762 0,
      opc 0xec ''inB'' 1 129 1 137 0 0 (P_emit Emit_normal) INST_NORMAL 0 0,
      opc 0xed ''inL'' 1 144 1 137 0 0 (P_emit Emit_normal) INST_NORMAL 2097152 0,
      opc 0xee ''outB'' 1 137 1 129 0 0 (P_emit Emit_normal) INST_NORMAL 0 0,
      opc 0xef ''outL'' 1 137 1 144 0 0 (P_emit Emit_normal) INST_NORMAL 2097152 0,
      opc 0xf0 ''lock'' 0 0 0 0 0 0 P_null INST_PREFIX 256 0,
      opc 0xf1 ''reserved'' 0 0 0 0 0 0 P_null INST_RESERVED 512 0,
      opc 0xf2 ''repne'' 0 0 0 0 0 0 P_null INST_PREFIX 256 0,
      opc 0xf3 ''rep'' 0 0 0 0 0 0 P_null INST_PREFIX 256 0,
      opc 0xf4 ''hlt'' 0 0 0 0 0 0 (P_emit Emit_normal) INST_NORMAL 0 0,
      opc 0xf5 ''cmc'' 0 0 0 0 0 0 (P_emit Emit_normal) INST_NORMAL 0 3,
      opc 0xf6 ''(group)'' 0 0 0 0 0 0 (P_table T_group3b) INST_GROUP3B 2048 0,
      opc 0xf7 ''(group)'' 0 0 0 0 0 0 (P_table T_group3v) INST_GROUP3V 2048 0,
      opc 0xf8 ''clc'' 0 0 0 0 0 0 (P_emit Emit_normal) INST_NORMAL 0 2,
      opc 0xf9 ''stc'' 0 0 0 0 0 0 (P_emit Emit_normal) INST_NORMAL 0 10,
      opc 0xfa ''cli'' 0 0 0 0 0 0 (P_emit Emit_normal) INST_NORMAL 0 10,
      opc 0xfb ''sti'' 0 0 0 0 0 0 (P_emit Emit_normal) INST_NORMAL 0 10,
      opc 0xfc ''cld'' 0 0 0 0 0 0 (P_emit Emit_normal) INST_NORMAL 0 10,
      opc 0xfd ''std'' 0 0 0 0 0 0 (P_emit Emit_normal) INST_NORMAL 0 10,
      opc 0xfe ''(group)'' 0 0 0 0 0 0 (P_table T_ngroup4) INST_NGROUP4 2048 0,
      opc 0xff ''(group)'' 0 0 0 0 0 0 (P_table T_ngroup5) INST_NGROUP5 2048 0 ]"

definition nopbyte0 :: "OpCode list" where
  "nopbyte0 = nopbyte0_00 @ nopbyte0_40 @ nopbyte0_80 @ nopbyte0_c0"

definition float_d8 :: "OpCode list" where
  "float_d8 =
    [ opc 0x0 ''fadd-sr'' 2 4 0 0 0 0 (P_emit Emit_normal) INST_NORMAL 1048577 0,
      opc 0x1 ''fmul-sr'' 2 4 0 0 0 0 (P_emit Emit_normal) INST_NORMAL 1048577 0,
      opc 0x2 ''fcom-sr'' 2 4 0 0 0 0 (P_emit Emit_normal) INST_NORMAL 1048577 0,
      opc 0x3 ''fcomp-sr'' 2 4 0 0 0 0 (P_emit Emit_normal) INST_NORMAL 1048577 0,
      opc 0x4 ''fsub-sr'' 2 4 0 0 0 0 (P_emit Emit_normal) INST_NORMAL 1048577 0,
      opc 0x5 ''fsubr-sr'' 2 4 0 0 0 0 (P_emit Emit_normal) INST_NORMAL 1048577 0,
      opc 0x6 ''fdiv-sr'' 2 4 0 0 0 0 (P_emit Emit_normal) INST_NORMAL 1048577 0,
      opc 0x7 ''fdivr-sr'' 2 4 0 0 0 0 (P_emit Emit_normal) INST_NORMAL 1048577 0,
      opc 0x8 ''fadd'' 12 0 0 0 0 0 (P_emit Emit_normal) INST_NORMAL 262144 0,
      opc 0x9 ''fmul'' 12 0 0 0 0 0 (P_emit Emit_normal) INST_NORMAL 262144 0,
      opc 0xa ''fcom'' 12 0 0 0 0 0 (P_emit Emit_normal) INST_NORMAL 262144 0,
      opc 0xb ''fcomp'' 12 0 0 0 0 0 (P_emit Emit_normal) INST_NORMAL 262144 0,
      opc 0xc ''fsub'' 12 0 0 0 0 0 (P_emit Emit_normal) INST_NORMAL 262144 0,
      opc 0xd ''fsubr'' 12 0 0 0 0 0 (P_emit Emit_normal) INST_NORMAL 262144 0,
      opc 0xe ''fdiv'' 12 0 0 0 0 0 (P_emit Emit_normal) INST_NORMAL 262144 0,
      opc 0xf ''fdivr'' 12 0 0 0 0 0 (P_emit Emit_normal) INST_NORMAL 262144 0 ]"

definition float_d9 :: "OpCode list" where
  "float_d9 =
    [ opc 0x0 ''fld-sr'' 2 4 0 0 0 0 (P_emit Emit_normal) INST_NORMAL 1048577 0,
      opc 0x1 ''reserved'' 0 0 0 0 0 0 P_null INST_RESERVED 512 0,
      opc 0x2 ''fst-sr'' 2 4 0 0 0 0 (P_emit Emit_normal) INST_NORMAL 1048577 0,
      opc 0x3 ''fstp-sr'' 2 4 0 0 0 0 (P_emit Emit_normal) INST_NORMAL 1048577 0,
      opc 0x4 ''fldenv-z'' 2 9 0 0 0 0 (P_emit Emit_normal) INST_NORMAL 1048577 0,
      opc 0x5 ''fldcw-w'' 2 3 0 0 0 0 (P_emit Emit_normal) INST_NORMAL 1048577 0,
      opc 0x6 ''fstenv-z'' 2 9 0 0 0 0 (P_emit Emit_normal) INST_NORMAL 1048577 0,
      opc 0x7 ''fstcw-w'' 2 3 0 0 0 0 (P_emit Emit_normal) INST_NORMAL 1048577 0,
      opc 0x8 ''fld'' 12 0 0 0 0 0 (P_emit Emit_normal) INST_NORMAL 262144 0,
      opc 0x9 ''fxch'' 12 0 0 0 0 0 (P_emit Emit_normal) INST_NORMAL 262144 0,
      opc 0xa ''(float)'' 0 0 0 0 0 0 (P_table T_float_d9_2) INST_FLOAT_D9_2 131072 0,
      opc 0xb ''reserved'' 0 0 0 0 0 0 P_null INST_RESERVED 512 0,
      opc 0xc ''(float)'' 0 0 0 0 0 0 (P_table T_float_d9_4) INST_FLOAT_D9_4 131072 0,
      opc 0xd ''(float)'' 0 0 0 0 0 0 (P_table T_float_d9_5) INST_FLOAT_D9_5 131072 0,
      opc 0xe ''(float)'' 0 0 0 0 0 0 (P_table T_float_d9_6) INST_FLOAT_D9_6 131072 0,
      opc 0xf ''(float)'' 0 0 0 0 0 0 (P_table T_float_d9_7) INST_FLOAT_D9_7 131072 0 ]"

definition float_d9_2 :: "OpCode list" where
  "float_d9_2 =
    [ opc 0x0 ''fnop'' 0 0 0 0 0 0 (P_emit Emit_normal) INST_NORMAL 0 0,
      opc 0x1 ''reserved'' 0 0 0 0 0 0 P_null INST_RESERVED 512 0,
      opc 0x2 ''reserved'' 0 0 0 0 0 0 P_null INST_RESERVED 512 0,
      opc 0x3 ''reserved'' 0 0 0 0 0 0 P_null INST_RESERVED 512 0,
      opc 0x4 ''reserved'' 0 0 0 0 0 0 P_null INST_RESERVED 512 0,
      opc 0x5 ''reserved'' 0 0 0 0 0 0 P_null INST_RESERVED 512 0,
      opc 0x6 ''reserved'' 0 0 0 0 0 0 P_null INST_RESERVED 512 0,
      opc 0x7 ''reserved'' 0 0 0 0 0 0 P_null INST_RESERVED 512 0 ]"

definition float_d9_4 :: "OpCode list" where
  "float_d9_4 =
    [ opc 0x0 ''fchs'' 0 0 0 0 0 0 (P_emit Emit_normal) INST_NORMAL 0 0,
      opc 0x1 ''fabs'' 0 0 0 0 0 0 (P_emit Emit_normal) INST_NORMAL 0 0,
      opc 0x2 ''reserved'' 0 0 0 0 0 0 P_null INST_RESERVED 512 0,
      opc 0x3 ''reserved'' 0 0 0 0 0 0 P_null INST_RESERVED 512 0,
      opc 0x4 ''ftst'' 0 0 0 0 0 0 (P_emit Emit_normal) INST_NORMAL 0 0,
      opc 0x5 ''fxam'' 0 0 0 0 0 0 (P_emit Emit_normal) INST_NORMAL 0 0,
      opc 0x6 ''reserved'' 0 0 0 0 0 0 P_null INST_RESERVED 512 0,
      opc 0x7 ''reserved'' 0 0 0 0 0 0 P_null INST_RESERVED 512 0 ]"

definition float_d9_5 :: "OpCode list" where
  "float_d9_5 =
    [ opc 0x0 ''fld1'' 0 0 0 0 0 0 (P_emit Emit_normal) INST_NORMAL 0 0,
      opc 0x1 ''fldl2t'' 0 0 0 0 0 0 (P_emit Emit_normal) INST_NORMAL 0 0,
      opc 0x2 ''fldl2e'' 0 0 0 0 0 0 (P_emit Emit_normal) INST_NORMAL 0 0,
      opc 0x3 ''fldpi'' 0 0 0 0 0 0 (P_emit Emit_normal) INST_NORMAL 0 0,
      opc 0x4 ''fldlg2'' 0 0 0 0 0 0 (P_emit Emit_normal) INST_NORMAL 0 0,
      opc 0x5 ''fldln2'' 0 0 0 0 0 0 (P_emit Emit_normal) INST_NORMAL 0 0,
      opc 0x6 ''fldz'' 0 0 0 0 0 0 (P_emit Emit_normal) INST_NORMAL 0 0,
      opc 0x7 ''reserved'' 0 0 0 0 0 0 P_null INST_RESERVED 512 0 ]"

definition float_d9_6 :: "OpCode list" where
  "float_d9_6 =
    [ opc 0x0 ''f2xm1'' 0 0 0 0 0 0 (P_emit Emit_normal) INST_NORMAL 0 0,
      opc 0x1 ''fyl2x'' 0 0 0 0 0 0 (P_emit Emit_normal) INST_NORMAL 0 0,
      opc 0x2 ''fptan'' 0 0 0 0 0 0 (P_emit Emit_normal) INST_NORMAL 0 0,
      opc 0x3 ''fpatan'' 0 0 0 0 0 0 (P_emit Emit_normal) INST_NORMAL 0 0,
      opc 0x4 ''fxtract'' 0 0 0 0 0 0 (P_emit Emit_normal) INST_NORMAL 0 0,
      opc 0x5 ''fprem1'' 0 0 0 0 0 0 (P_emit Emit_normal) INST_NORMAL 0 0,
      opc 0x6 ''fdecstp'' 0 0 0 0 0 0 (P_emit Emit_normal) INST_NORMAL 0 0,
      opc 0x7 ''fincstp'' 0 0 0 0 0 0 (P_emit Emit_normal) INST_NORMAL 0 0 ]"

definition float_d9_7 :: "OpCode list" where
  "float_d9_7 =
    [ opc 0x0 ''fprem'' 0 0 0 0 0 0 (P_emit Emit_normal) INST_NORMAL 0 0,
      opc 0x1 ''fyl2xp1'' 0 0 0 0 0 0 (P_emit Emit_normal) INST_NORMAL 0 0,
      opc 0x2 ''fsqrt'' 0 0 0 0 0 0 (P_emit Emit_normal) INST_NORMAL 0 0,
      opc 0x3 ''fsincos'' 0 0 0 0 0 0 (P_emit Emit_normal) INST_NORMAL 0 0,
      opc 0x4 ''frndint'' 0 0 0 0 0 0 (P_emit Emit_normal) INST_NORMAL 0 0,
      opc 0x5 ''fscale'' 0 0 0 0 0 0 (P_emit Emit_normal) INST_NORMAL 0 0,
      opc 0x6 ''fsin'' 0 0 0 0 0 0 (P_emit Emit_normal) INST_NORMAL 0 0,
      opc 0x7 ''fcos'' 0 0 0 0 0 0 (P_emit Emit_normal) INST_NORMAL 0 0 ]"

definition float_da :: "OpCode list" where
  "float_da =
    [ opc 0x0 ''fiadd-d'' 2 4 0 0 0 0 (P_emit Emit_normal) INST_NORMAL 1048577 0,
      opc 0x1 ''fimul-d'' 2 4 0 0 0 0 (P_emit Emit_normal) INST_NORMAL 1048577 0,
      opc 0x2 ''ficom-d'' 2 4 0 0 0 0 (P_emit Emit_normal) INST_NORMAL 1048577 0,
      opc 0x3 ''ficomp-d'' 2 4 0 0 0 0 (P_emit Emit_normal) INST_NORMAL 1048577 0,
      opc 0x4 ''fisub-d'' 2 4 0 0 0 0 (P_emit Emit_normal) INST_NORMAL 1048577 0,
      opc 0x5 ''fisubr-d'' 2 4 0 0 0 0 (P_emit Emit_normal) INST_NORMAL 1048577 0,
      opc 0x6 ''fidiv-d'' 2 4 0 0 0 0 (P_emit Emit_normal) INST_NORMAL 1048577 0,
      opc 0x7 ''fidivr-d'' 2 4 0 0 0 0 (P_emit Emit_normal) INST_NORMAL 1048577 0,
      opc 0x8 ''fcmovb'' 12 0 0 0 0 0 (P_emit Emit_normal) INST_NORMAL 262144 5,
      opc 0x9 ''fcmove'' 12 0 0 0 0 0 (P_emit Emit_normal) INST_NORMAL 262144 5,
      opc 0xa ''fcmovbe'' 12 0 0 0 0 0 (P_emit Emit_normal) INST_NORMAL 262144 5,
      opc 0xb ''fcmovu'' 12 0 0 0 0 0 (P_emit Emit_normal) INST_NORMAL 262144 5,
      opc 0xc ''reserved'' 0 0 0 0 0 0 P_null INST_RESERVED 512 0,
      opc 0xd ''(float)'' 0 0 0 0 0 0 (P_table T_float_da_5) INST_FLOAT_DA_5 131072 0,
      opc 0xe ''reserved'' 0 0 0 0 0 0 P_null INST_RESERVED 512 0,
      opc 0xf ''reserved'' 0 0 0 0 0 0 P_null INST_RESERVED 512 0 ]"

definition float_da_5 :: "OpCode list" where
  "float_da_5 =
    [ opc 0x0 ''reserved'' 0 0 0 0 0 0 P_null INST_RESERVED 512 0,
      opc 0x1 ''fucompp'' 0 0 0 0 0 0 (P_emit Emit_normal) INST_NORMAL 0 0,
      opc 0x2 ''reserved'' 0 0 0 0 0 0 P_null INST_RESERVED 512 0,
      opc 0x3 ''reserved'' 0 0 0 0 0 0 P_null INST_RESERVED 512 0,
      opc 0x4 ''reserved'' 0 0 0 0 0 0 P_null INST_RESERVED 512 0,
      opc 0x5 ''reserved'' 0 0 0 0 0 0 P_null INST_RESERVED 512 0,
      opc 0x6 ''reserved'' 0 0 0 0 0 0 P_null INST_RESERVED 512 0,
      opc 0x7 ''reserved'' 0 0 0 0 0 0 P_null INST_RESERVED 512 0 ]"

definition float_db :: "OpCode list" where
  "float_db =
    [ opc 0x0 ''fild-d'' 2 4 0 0 0 0 (P_emit Emit_normal) INST_NORMAL 1048577 0,
      opc 0x1 ''reserved'' 0 0 0 0 0 0 P_null INST_RESERVED 512 0,
      opc 0x2 ''fist-d'' 2 4 0 0 0 0 (P_emit Emit_normal) INST_NORMAL 1048577 0,
      opc 0x3 ''fistp-d'' 2 4 0 0 0 0 (P_emit Emit_normal) INST_NORMAL 1048577 0,
      opc 0x4 ''reserved'' 0 0 0 0 0 0 P_null INST_RESERVED 512 0,
      opc 0x5 ''fld-er'' 2 8 0 0 0 0 (P_emit Emit_normal) INST_NORMAL 1048577 0,
      opc 0x6 ''reserved'' 0 0 0 0 0 0 P_null INST_RESERVED 512 0,
      opc 0x7 ''fstp-er'' 2 8 0 0 0 0 (P_emit Emit_normal) INST_NORMAL 1048577 0,
      opc 0x8 ''fcmovnb'' 12 0 0 0 0 0 (P_emit Emit_normal) INST_NORMAL 262144 5,
      opc 0x9 ''fcmovne'' 12 0 0 0 0 0 (P_emit Emit_normal) INST_NORMAL 262144 5,
      opc 0xa ''fcmovnbe'' 12 0 0 0 0 0 (P_emit Emit_normal) INST_NORMAL 262144 5,
      opc 0xb ''fcmovnu'' 12 0 0 0 0 0 (P_emit Emit_normal) INST_NORMAL 262144 5,
      opc 0xc ''(float)'' 0 0 0 0 0 0 (P_table T_float_db_4) INST_FLOAT_DB_4 131072 0,
      opc 0xd ''fucomi'' 12 0 0 0 0 0 (P_emit Emit_normal) INST_NORMAL 262144 15,
      opc 0xe ''fcomi'' 12 0 0 0 0 0 (P_emit Emit_normal) INST_NORMAL 262144 15,
      opc 0xf ''reserved'' 0 0 0 0 0 0 P_null INST_RESERVED 512 0 ]"

definition float_db_4 :: "OpCode list" where
  "float_db_4 =
    [ opc 0x0 ''reserved'' 0 0 0 0 0 0 P_null INST_RESERVED 512 0,
      opc 0x1 ''reserved'' 0 0 0 0 0 0 P_null INST_RESERVED 512 0,
      opc 0x2 ''fclex'' 0 0 0 0 0 0 (P_emit Emit_normal) INST_NORMAL 0 0,
      opc 0x3 ''finit'' 0 0 0 0 0 0 (P_emit Emit_normal) INST_NORMAL 0 0,
      opc 0x4 ''reserved'' 0 0 0 0 0 0 P_null INST_RESERVED 512 0,
      opc 0x5 ''reserved'' 0 0 0 0 0 0 P_null INST_RESERVED 512 0,
      opc 0x6 ''reserved'' 0 0 0 0 0 0 P_null INST_RESERVED 512 0,
      opc 0x7 ''reserved'' 0 0 0 0 0 0 P_null INST_RESERVED 512 0 ]"

definition float_dc :: "OpCode list" where
  "float_dc =
    [ opc 0x0 ''fadd-dr'' 2 7 0 0 0 0 (P_emit Emit_normal) INST_NORMAL 1048577 0,
      opc 0x1 ''fmul-dr'' 2 7 0 0 0 0 (P_emit Emit_normal) INST_NORMAL 1048577 0,
      opc 0x2 ''fcom-dr'' 2 7 0 0 0 0 (P_emit Emit_normal) INST_NORMAL 1048577 0,
      opc 0x3 ''fcomp-dr'' 2 7 0 0 0 0 (P_emit Emit_normal) INST_NORMAL 1048577 0,
      opc 0x4 ''fsub-dr'' 2 7 0 0 0 0 (P_emit Emit_normal) INST_NORMAL 1048577 0,
      opc 0x5 ''fsubr-dr'' 2 7 0 0 0 0 (P_emit Emit_normal) INST_NORMAL 1048577 0,
      opc 0x6 ''fdiv-dr'' 2 7 0 0 0 0 (P_emit Emit_normal) INST_NORMAL 1048577 0,
      opc 0x7 ''fdivr-dr'' 2 7 0 0 0 0 (P_emit Emit_normal) INST_NORMAL 1048577 0,
      opc 0x8 ''fadd'' 12 0 0 0 0 0 (P_emit Emit_normal) INST_NORMAL 786432 0,
      opc 0x9 ''fmul'' 12 0 0 0 0 0 (P_emit Emit_normal) INST_NORMAL 786432 0,
      opc 0xa ''reserved'' 0 0 0 0 0 0 P_null INST_RESERVED 512 0,
      opc 0xb ''reserved'' 0 0 0 0 0 0 P_null INST_RESERVED 512 0,
      opc 0xc ''fsubr'' 12 0 0 0 0 0 (P_emit Emit_normal) INST_NORMAL 786432 0,
      opc 0xd ''fsub'' 12 0 0 0 0 0 (P_emit Emit_normal) INST_NORMAL 786432 0,
      opc 0xe ''fdivr'' 12 0 0 0 0 0 (P_emit Emit_normal) INST_NORMAL 786432 0,
      opc 0xf ''fdiv'' 12 0 0 0 0 0 (P_emit Emit_normal) INST_NORMAL 786432 0 ]"

definition float_dd :: "OpCode list" where
  "float_dd =
    [ opc 0x0 ''fld-dr'' 2 7 0 0 0 0 (P_emit Emit_normal) INST_NORMAL 1048577 0,
      opc 0x1 ''reserved'' 0 0 0 0 0 0 P_null INST_RESERVED 512 0,
      opc 0x2 ''fst-dr'' 2 7 0 0 0 0 (P_emit Emit_normal) INST_NORMAL 1048577 0,
      opc 0x3 ''fstp-dr'' 2 7 0 0 0 0 (P_emit Emit_normal) INST_NORMAL 1048577 0,
      opc 0x4 ''frstor-x'' 2 7 0 0 0 0 (P_emit Emit_normal) INST_NORMAL 1048577 0,
      opc 0x5 ''reserved'' 0 0 0 0 0 0 P_null INST_RESERVED 512 0,
      opc 0x6 ''fsave-x'' 2 7 0 0 0 0 (P_emit Emit_normal) INST_NORMAL 1048577 0,
      opc 0x7 ''fstsw-w'' 2 3 0 0 0 0 (P_emit Emit_normal) INST_NORMAL 1048577 0,
      opc 0x8 ''ffree'' 12 0 0 0 0 0 (P_emit Emit_normal) INST_NORMAL 0 0,
      opc 0x9 ''reserved'' 0 0 0 0 0 0 P_null INST_RESERVED 512 0,
      opc 0xa ''fst'' 12 0 0 0 0 0 (P_emit Emit_normal) INST_NORMAL 0 0,
      opc 0xb ''fstp'' 12 0 0 0 0 0 (P_emit Emit_normal) INST_NORMAL 0 0,
      opc 0xc ''fucom'' 12 0 0 0 0 0 (P_emit Emit_normal) INST_NORMAL 786432 0,
      opc 0xd ''fucomp'' 12 0 0 0 0 0 (P_emit Emit_normal) INST_NORMAL 0 0,
      opc 0xe ''reserved'' 0 0 0 0 0 0 P_null INST_RESERVED 512 0,
      opc 0xf ''reserved'' 0 0 0 0 0 0 P_null INST_RESERVED 512 0 ]"

definition float_de :: "OpCode list" where
  "float_de =
    [ opc 0x0 ''fiadd-w'' 2 3 0 0 0 0 (P_emit Emit_normal) INST_NORMAL 1048577 0,
      opc 0x1 ''fimul-w'' 2 3 0 0 0 0 (P_emit Emit_normal) INST_NORMAL 1048577 0,
      opc 0x2 ''ficom-w'' 2 3 0 0 0 0 (P_emit Emit_normal) INST_NORMAL 1048577 0,
      opc 0x3 ''ficomp-w'' 2 3 0 0 0 0 (P_emit Emit_normal) INST_NORMAL 1048577 0,
      opc 0x4 ''fisub-w'' 2 3 0 0 0 0 (P_emit Emit_normal) INST_NORMAL 1048577 0,
      opc 0x5 ''fisubr-w'' 2 3 0 0 0 0 (P_emit Emit_normal) INST_NORMAL 1048577 0,
      opc 0x6 ''fidiv-w'' 2 3 0 0 0 0 (P_emit Emit_normal) INST_NORMAL 1048577 0,
      opc 0x7 ''fidivr-w'' 2 3 0 0 0 0 (P_emit Emit_normal) INST_NORMAL 1048577 0,
      opc 0x8 ''faddp'' 12 0 0 0 0 0 (P_emit Emit_normal) INST_NORMAL 786432 0,
      opc 0x9 ''fmulp'' 12 0 0 0 0 0 (P_emit Emit_normal) INST_NORMAL 786432 0,
      opc 0xa ''reserved'' 0 0 0 0 0 0 P_null INST_RESERVED 512 0,
      opc 0xb ''(float)'' 0 0 0 0 0 0 (P_table T_float_de_3) INST_FLOAT_DE_3 131072 0,
      opc 0xc ''fsubrp'' 12 0 0 0 0 0 (P_emit Emit_normal) INST_NORMAL 786432 0,
      opc 0xd ''fsubp'' 12 0 0 0 0 0 (P_emit Emit_normal) INST_NORMAL 786432 0,
      opc 0xe ''fdivrp'' 12 0 0 0 0 0 (P_emit Emit_normal) INST_NORMAL 786432 0,
      opc 0xf ''fdivp'' 12 0 0 0 0 0 (P_emit Emit_normal) INST_NORMAL 786432 0 ]"

definition float_de_3 :: "OpCode list" where
  "float_de_3 =
    [ opc 0x0 ''reserved'' 0 0 0 0 0 0 P_null INST_RESERVED 512 0,
      opc 0x1 ''fcompp'' 0 0 0 0 0 0 (P_emit Emit_normal) INST_NORMAL 0 0,
      opc 0x2 ''reserved'' 0 0 0 0 0 0 P_null INST_RESERVED 512 0,
      opc 0x3 ''reserved'' 0 0 0 0 0 0 P_null INST_RESERVED 512 0,
      opc 0x4 ''reserved'' 0 0 0 0 0 0 P_null INST_RESERVED 512 0,
      opc 0x5 ''reserved'' 0 0 0 0 0 0 P_null INST_RESERVED 512 0,
      opc 0x6 ''reserved'' 0 0 0 0 0 0 P_null INST_RESERVED 512 0,
      opc 0x7 ''reserved'' 0 0 0 0 0 0 P_null INST_RESERVED 512 0 ]"

definition float_df :: "OpCode list" where
  "float_df =
    [ opc 0x0 ''fild-w'' 2 3 0 0 0 0 (P_emit Emit_normal) INST_NORMAL 1048577 0,
      opc 0x1 ''reserved'' 0 0 0 0 0 0 P_null INST_RESERVED 512 0,
      opc 0x2 ''fist-w'' 2 3 0 0 0 0 (P_emit Emit_normal) INST_NORMAL 1048577 0,
      opc 0x3 ''fistp-w'' 2 3 0 0 0 0 (P_emit Emit_normal) INST_NORMAL 1048577 0,
      opc 0x4 ''fbld-y'' 2 8 0 0 0 0 (P_emit Emit_normal) INST_NORMAL 1048577 0,
      opc 0x5 ''fild-q'' 2 7 0 0 0 0 (P_emit Emit_normal) INST_NORMAL 1048577 0,
      opc 0x6 ''fbstp-y'' 2 8 0 0 0 0 (P_emit Emit_normal) INST_NORMAL 1048577 0,
      opc 0x7 ''fistp-q'' 2 7 0 0 0 0 (P_emit Emit_normal) INST_NORMAL 1048577 0,
      opc 0x8 ''reserved'' 0 0 0 0 0 0 P_null INST_RESERVED 512 0,
      opc 0x9 ''reserved'' 0 0 0 0 0 0 P_null INST_RESERVED 512 0,
      opc 0xa ''reserved'' 0 0 0 0 0 0 P_null INST_RESERVED 512 0,
      opc 0xb ''reserved'' 0 0 0 0 0 0 P_null INST_RESERVED 512 0,
      opc 0xc ''(float)'' 0 0 0 0 0 0 (P_table T_float_df_4) INST_FLOAT_DF_4 131072 0,
      opc 0xd ''fucomip'' 12 0 0 0 0 0 (P_emit Emit_normal) INST_NORMAL 262144 15,
      opc 0xe ''fcomip'' 12 0 0 0 0 0 (P_emit Emit_normal) INST_NORMAL 262144 15,
      opc 0xf ''reserved'' 0 0 0 0 0 0 P_null INST_RESERVED 512 0 ]"

definition float_df_4 :: "OpCode list" where
  "float_df_4 =
    [ opc 0x0 ''fstsw-ax'' 0 0 0 0 0 0 (P_emit Emit_normal) INST_NORMAL 0 0,
      opc 0x1 ''reserved'' 0 0 0 0 0 0 P_null INST_RESERVED 512 0,
      opc 0x2 ''reserved'' 0 0 0 0 0 0 P_null INST_RESERVED 512 0,
      opc 0x3 ''reserved'' 0 0 0 0 0 0 P_null INST_RESERVED 512 0,
      opc 0x4 ''reserved'' 0 0 0 0 0 0 P_null INST_RESERVED 512 0,
      opc 0x5 ''reserved'' 0 0 0 0 0 0 P_null INST_RESERVED 512 0,
      opc 0x6 ''reserved'' 0 0 0 0 0 0 P_null INST_RESERVED 512 0,
      opc 0x7 ''reserved'' 0 0 0 0 0 0 P_null INST_RESERVED 512 0 ]"

fun table_of :: "opcode_table \<Rightarrow> OpCode list" where
  "table_of T_group1_Eb_Ib = group1_Eb_Ib"
| "table_of T_group1_Ev_Iv = group1_Ev_Iv"
| "table_of T_group1_Ev_Ib = group1_Ev_Ib"
| "table_of T_group2a_Eb_Ib = group2a_Eb_Ib"
| "table_of T_group2a_Ev_Ib = group2a_Ev_Ib"
| "table_of T_group2_Eb_1 = group2_Eb_1"
| "table_of T_group2_Ev_1 = group2_Ev_1"
| "table_of T_group2_Eb_CL = group2_Eb_CL"
| "table_of T_group2_Ev_CL = group2_Ev_CL"
| "table_of T_group3b = group3b"
| "table_of T_group3v = group3v"
| "table_of T_ngroup4 = ngroup4"
| "table_of T_ngroup5 = ngroup5"
| "table_of T_ngroup6 = ngroup6"
| "table_of T_ngroup7 = ngroup7"
| "table_of T_group8_Ev_Ib = group8_Ev_Ib"
| "table_of T_ngroup9 = ngroup9"
| "table_of T_twoByteOpcodes = twoByteOpcodes"
| "table_of T_nopbyte0 = nopbyte0"
| "table_of T_float_d8 = float_d8"
| "table_of T_float_d9 = float_d9"
| "table_of T_float_d9_2 = float_d9_2"
| "table_of T_float_d9_4 = float_d9_4"
| "table_of T_float_d9_5 = float_d9_5"
| "table_of T_float_d9_6 = float_d9_6"
| "table_of T_float_d9_7 = float_d9_7"
| "table_of T_float_da = float_da"
| "table_of T_float_da_5 = float_da_5"
| "table_of T_float_db = float_db"
| "table_of T_float_db_4 = float_db_4"
| "table_of T_float_dc = float_dc"
| "table_of T_float_dd = float_dd"
| "table_of T_float_de = float_de"
| "table_of T_float_de_3 = float_de_3"
| "table_of T_float_df = float_df"
| "table_of T_float_df_4 = float_df_4"

section \<open>Well-formedness of the tables\<close>

definition flag_set :: "u32 \<Rightarrow> u32 \<Rightarrow> bool" where
  "flag_set a f \<longleftrightarrow> a AND f \<noteq> 0"

text \<open>The most bytes an entry can make the decoder fetch after the opcode byte itself.\<close>

definition opt_len :: "bool \<Rightarrow> nat \<Rightarrow> nat" where
  "opt_len c n = (if c then n else 0)"

definition imm_len :: "u32 \<Rightarrow> nat" where
  "imm_len a =
     opt_len (flag_set a DF_Iw) 2 + opt_len (flag_set a DF_Ib) 1 + opt_len (flag_set a DF_Iv) 4 +
     opt_len (flag_set a DF_Ov \<or> flag_set a DF_Ob) 4 + opt_len (flag_set a (DF_Jv OR DF_Ap)) 4 +
     opt_len (flag_set a DF_Ap) 2"

text \<open>The opcode byte (or the escape byte and the ModR/M byte), operands and immediates of an entry.\<close>

definition entry_len :: "OpCode \<Rightarrow> nat" where
  "entry_len e = opt_len (flag_set (op_attr e) (DF_MODRM OR DF_GROUP)) 6 + imm_len (op_attr e)"

fun is_table_ptr :: "op_ptr \<Rightarrow> bool" where
  "is_table_ptr (P_table t) = True"
| "is_table_ptr _ = False"

definition sub_table :: "(opcode_table \<Rightarrow> bool) \<Rightarrow> op_ptr \<Rightarrow> bool" where
  "sub_table P p = (case p of P_table t \<Rightarrow> P t | _ \<Rightarrow> False)"

text \<open>An entry the decoder stops at: no further table, and a callable or null pointer.\<close>

definition terminal_entry :: "OpCode \<Rightarrow> bool" where
  "terminal_entry e \<longleftrightarrow>
     \<not> flag_set (op_attr e) (DF_PREFIX OR DF_TABLE OR DF_FLOAT OR DF_GROUP OR DF_ONE_MORE_LEVEL)
     \<and> \<not> is_table_ptr (op_ptr e)"

definition leaf_table :: "opcode_table \<Rightarrow> bool" where
  "leaf_table t \<longleftrightarrow> length (table_of t) = 8 \<and> list_all terminal_entry (table_of t)"

definition float_leaf :: "OpCode \<Rightarrow> bool" where
  "float_leaf e \<longleftrightarrow> terminal_entry e \<and> entry_len e \<le> 6"

definition float_leaf_table :: "opcode_table \<Rightarrow> bool" where
  "float_leaf_table t \<longleftrightarrow> length (table_of t) = 8 \<and> list_all float_leaf (table_of t)"

definition float_table_entry :: "OpCode \<Rightarrow> bool" where
  "float_table_entry e \<longleftrightarrow>
     (if flag_set (op_attr e) DF_ONE_MORE_LEVEL then sub_table float_leaf_table (op_ptr e)
      else float_leaf e)"

definition float_table :: "opcode_table \<Rightarrow> bool" where
  "float_table t \<longleftrightarrow> length (table_of t) = 16 \<and> list_all float_leaf (take 8 (table_of t)) \<and>
     list_all float_table_entry (drop 8 (table_of t))"

text \<open>A group entry and the eight entries it selects from, with the bytes they may fetch bounded.\<close>

definition group_entry_ok :: "nat \<Rightarrow> OpCode \<Rightarrow> bool" where
  "group_entry_ok n e = sub_table (\<lambda>t. leaf_table t \<and>
     list_all (\<lambda>e'. 6 + imm_len (op_attr e OR op_attr e') \<le> n) (table_of t)) (op_ptr e)"

definition opcode_entry :: "nat \<Rightarrow> OpCode \<Rightarrow> bool" where
  "opcode_entry n e \<longleftrightarrow>
     (if flag_set (op_attr e) DF_GROUP then group_entry_ok n e
      else entry_len e \<le> n \<and> \<not> is_table_ptr (op_ptr e))"

definition root_entry :: "OpCode \<Rightarrow> bool" where
  "root_entry e \<longleftrightarrow>
     (if flag_set (op_attr e) DF_TABLE then op_ptr e = P_table T_twoByteOpcodes
      else if flag_set (op_attr e) DF_FLOAT then sub_table float_table (op_ptr e)
      else opcode_entry 10 e)"

definition branch_emitters :: "emitfn list" where
  "branch_emitters =
     [Emit_call_disp, Emit_call_near_mem, Emit_ret, Emit_ret_Iw, Emit_jcond, Emit_other_jcond,
      Emit_jmp, Emit_jmp_near_mem]"

definition all_tables :: "opcode_table list" where
  "all_tables =
     [T_group1_Eb_Ib, T_group1_Ev_Iv, T_group1_Ev_Ib, T_group2a_Eb_Ib, T_group2a_Ev_Ib,
      T_group2_Eb_1, T_group2_Ev_1, T_group2_Eb_CL, T_group2_Ev_CL, T_group3b, T_group3v,
      T_ngroup4, T_ngroup5, T_ngroup6, T_ngroup7, T_group8_Ev_Ib, T_ngroup9, T_twoByteOpcodes,
      T_nopbyte0, T_float_d8, T_float_d9, T_float_d9_2, T_float_d9_4, T_float_d9_5, T_float_d9_6,
      T_float_d9_7, T_float_da, T_float_da_5, T_float_db, T_float_db_4, T_float_dc, T_float_dd,
      T_float_de, T_float_de_3, T_float_df, T_float_df_4]"

lemmas table_defs =
  group1_Eb_Ib_def group1_Ev_Iv_def group1_Ev_Ib_def group2a_Eb_Ib_def group2a_Ev_Ib_def
  group2_Eb_1_def group2_Ev_1_def group2_Eb_CL_def group2_Ev_CL_def group3b_def group3v_def
  ngroup4_def ngroup5_def ngroup6_def ngroup7_def group8_Ev_Ib_def ngroup9_def
  float_d8_def float_d9_def float_d9_2_def float_d9_4_def float_d9_5_def float_d9_6_def
  float_d9_7_def float_da_def float_da_5_def float_db_def float_db_4_def float_dc_def
  float_dd_def float_de_def float_de_3_def float_df_def float_df_4_def
  nopbyte0_def nopbyte0_00_def nopbyte0_40_def nopbyte0_80_def nopbyte0_c0_def
  twoByteOpcodes_def twoByteOpcodes_00_def twoByteOpcodes_40_def twoByteOpcodes_80_def
  twoByteOpcodes_c0_def opc_def flag_set_def

lemma leaf_tables:
  "list_all leaf_table [T_group1_Eb_Ib, T_group1_Ev_Iv, T_group1_Ev_Ib, T_group2a_Eb_Ib,
     T_group2a_Ev_Ib, T_group2_Eb_1, T_group2_Ev_1, T_group2_Eb_CL, T_group2_Ev_CL, T_group3b,
     T_group3v, T_ngroup4, T_ngroup5, T_ngroup6, T_ngroup7, T_group8_Ev_Ib, T_ngroup9,
     T_float_d9_2, T_float_d9_4, T_float_d9_5, T_float_d9_6, T_float_d9_7, T_float_da_5,
     T_float_db_4, T_float_de_3, T_float_df_4]"
  by (simp add: leaf_table_def table_defs terminal_entry_def)

lemmas leaf_table_facts [simp] = leaf_tables [simplified]

lemmas len_defs = entry_len_def imm_len_def opt_len_def

lemma float_leaf_tables:
  "list_all float_leaf_table [T_float_d9_2, T_float_d9_4, T_float_d9_5, T_float_d9_6, T_float_d9_7,
     T_float_da_5, T_float_db_4, T_float_de_3, T_float_df_4]"
  by (simp add: float_leaf_table_def float_leaf_def table_defs terminal_entry_def len_defs)

lemmas float_leaf_table_facts [simp] = float_leaf_tables [simplified]

lemma float_tables:
  "list_all float_table [T_float_d8, T_float_d9, T_float_da, T_float_db, T_float_dc, T_float_dd,
     T_float_de, T_float_df]"
  by (simp add: float_table_def table_defs terminal_entry_def float_table_entry_def sub_table_def
      float_leaf_def len_defs)

lemmas float_table_facts [simp] = float_tables [simplified]

lemma nopbyte0_wf: "list_all root_entry nopbyte0"
  by (simp add: table_defs root_entry_def opcode_entry_def group_entry_ok_def sub_table_def len_defs)

lemma twoByteOpcodes_wf:
  "list_all (\<lambda>e. \<not> flag_set (op_attr e) DF_TABLE \<and> \<not> flag_set (op_attr e) DF_FLOAT \<and>
     opcode_entry 9 e) twoByteOpcodes"
  by (simp add: table_defs opcode_entry_def group_entry_ok_def sub_table_def len_defs)

lemma nopbyte0_length [simp]: "length nopbyte0 = 256"
  by (simp add: table_defs)

lemma twoByteOpcodes_length [simp]: "length twoByteOpcodes = 256"
  by (simp add: table_defs)

lemma nopbyte0_prefixes:
  "map (\<lambda>e. flag_set (op_attr e) DF_PREFIX) nopbyte0 =
   map (\<lambda>i. i \<in> {0xf0, 0xf3, 0xf2, 0x2e, 0x3e, 0x26, 0x64, 0x65, 0x36, 0x66, 0x67}) [0..<256]"
  by (simp add: table_defs upt_rec)

text \<open>
  Every table is consistent in its \<^verbatim>\<open>DF_BRANCH\<close> flag: it is set exactly on the entries whose emitter
  ends or redirects the translated block.
\<close>

lemma branch_flag_consistent:
  "list_all (\<lambda>t. list_all (\<lambda>e. flag_set (op_attr e) DF_BRANCH \<longleftrightarrow>
     op_ptr e \<in> P_emit ` set branch_emitters) (table_of t)) all_tables"
  by (simp add: all_tables_def branch_emitters_def table_defs)

lemma index_is_position:
  "list_all (\<lambda>t. t = T_group3v \<or>
     map op_index (table_of t) = map of_nat [0..<length (table_of t)]) all_tables"
  by (simp add: all_tables_def table_defs upt_rec)

lemma group3v_index: "map op_index group3v = [0, 1, 2, 3, 4, 5, 6, 6]"
  by (simp add: table_defs)

end
