(* ===== verification/Decoder.thy ===== *)
theory Decoder
  imports Opcode_Tables
begin

text \<open>
  The instruction decoder \<^verbatim>\<open>simple_disas_insn\<close> of \<^verbatim>\<open>src/target-i386/decode.c\<close>, stage by stage in the
  order of the C function: the prefix loop, the opcode loop over the tables, the ModR/M, SIB and
  displacement bytes, the immediates, and the final verdict.  Guest memory is the host's memory
  (\<^verbatim>\<open>ldub_code\<close> reads through the address itself in this configuration) and \<^verbatim>\<open>IS_IFAULT\<close> is
  constantly false in user mode, so the \<^verbatim>\<open>handle_ifault\<close> exit is unreachable and not modelled.
  A decode that never returns (an address space made of prefix bytes only) is \<open>None\<close>.
\<close>

section \<open>The decoder state\<close>

record decode_t =
  decode_eip :: u32
  ds_instr :: u32
  ds_pInstr :: u32
  ds_attr :: u32
  Group1_Prefix :: u8
  Group2_Prefix :: u8
  Group3_Prefix :: u8
  Group4_Prefix :: u8
  no_of_prefixes :: u8
  ds_flags :: u32
  ds_emitfn :: op_ptr
  ds_pEntry :: "OpCode option"
  ds_b :: u32
  ds_opstate :: u32
  ds_modrm :: u8
  need_sib :: bool
  ds_sib :: u8
  dispBytes :: u32
  ds_displacement :: u32
  modrm_regs :: u32
  ds_immediate :: u32
  ds_imm16 :: u32
  ds_inst_type :: inst_type

text \<open>The bit fields of \<^verbatim>\<open>modrm_union\<close> and \<^verbatim>\<open>sib_union\<close>.\<close>

definition modrm_rm :: "u8 \<Rightarrow> u8" where
  "modrm_rm b = b AND 7"

definition modrm_reg :: "u8 \<Rightarrow> u8" where
  "modrm_reg b = drop_bit 3 b AND 7"

definition modrm_mod :: "u8 \<Rightarrow> u8" where
  "modrm_mod b = drop_bit 6 b"

definition sib_base :: "u8 \<Rightarrow> u8" where
  "sib_base b = b AND 7"

definition sib_index :: "u8 \<Rightarrow> u8" where
  "sib_index b = drop_bit 3 b AND 7"

definition sib_ss :: "u8 \<Rightarrow> u8" where
  "sib_ss b = drop_bit 6 b"

definition READ_IN_NEXT_BYTE :: "memory \<Rightarrow> decode_t \<Rightarrow> decode_t" where
  "READ_IN_NEXT_BYTE m ds =
     ds\<lparr>ds_b := ucast (ld8 m (decode_eip ds)), decode_eip := decode_eip ds + 1\<rparr>"

definition READ_IN_NEXT_WORD :: "memory \<Rightarrow> decode_t \<Rightarrow> decode_t" where
  "READ_IN_NEXT_WORD m ds =
     ds\<lparr>ds_b := ucast (ld16 m (decode_eip ds)), decode_eip := decode_eip ds + 2\<rparr>"

definition READ_IN_NEXT_LONG :: "memory \<Rightarrow> decode_t \<Rightarrow> decode_t" where
  "READ_IN_NEXT_LONG m ds =
     ds\<lparr>ds_b := ld32 m (decode_eip ds), decode_eip := decode_eip ds + 4\<rparr>"

section \<open>The stages of simple_disas_insn\<close>

definition disas_init :: "decode_t \<Rightarrow> u32 \<Rightarrow> decode_t" where
  "disas_init ds pc =
     ds\<lparr>decode_eip := pc, ds_attr := 0, ds_emitfn := P_null, modrm_regs := 0, need_sib := False,
        dispBytes := 0, no_of_prefixes := 0, Group1_Prefix := 0, Group2_Prefix := 0,
        Group3_Prefix := 0, Group4_Prefix := 0, ds_flags := 0,
        ds_opstate := OPSTATE_DATA32 OR OPSTATE_ADDR32\<rparr>"

definition table_entry :: "opcode_table \<Rightarrow> u32 \<Rightarrow> OpCode" where
  "table_entry t b = table_of t ! unat b"

definition prefix_switch :: "decode_t \<Rightarrow> decode_t" where
  "prefix_switch ds =
     (let b = ucast (ds_b ds) :: u8 in
      if b = HD_PREFIX_LOCK \<or> b = HD_PREFIX_REPZ \<or> b = HD_PREFIX_REPNZ
      then ds\<lparr>ds_flags := ds_flags ds OR DSFL_GROUP1_PREFIX, Group1_Prefix := b\<rparr>
      else if b = HD_PREFIX_CS \<or> b = HD_PREFIX_DS \<or> b = HD_PREFIX_ES \<or> b = HD_PREFIX_FS
        \<or> b = HD_PREFIX_GS \<or> b = HD_PREFIX_SS
      then ds\<lparr>ds_flags := ds_flags ds OR DSFL_GROUP2_PREFIX, Group2_Prefix := b\<rparr>
      else if b = HD_PREFIX_OPSZ
      then ds\<lparr>ds_flags := ds_flags ds OR DSFL_GROUP3_PREFIX,
              ds_opstate := ds_opstate ds XOR OPSTATE_DATA32, Group3_Prefix := b\<rparr>
      else if b = HD_PREFIX_ADDRSZ
      then ds\<lparr>ds_flags := ds_flags ds OR DSFL_GROUP4_PREFIX,
              ds_opstate := ds_opstate ds XOR OPSTATE_ADDR32, Group4_Prefix := b\<rparr>
      else ds)"

text \<open>The byte under \<^verbatim>\<open>decode_eip\<close> and its attributes are read before the loop is left.\<close>

definition prefix_fetch :: "memory \<Rightarrow> decode_t \<Rightarrow> decode_t" where
  "prefix_fetch m ds =
     (let b = ucast (ld8 m (decode_eip ds)) in
      ds\<lparr>ds_b := b, ds_attr := op_attr (table_entry T_nopbyte0 b)\<rparr>)"

definition prefix_body :: "decode_t \<Rightarrow> decode_t" where
  "prefix_body ds =
     (let ds = prefix_switch (ds\<lparr>no_of_prefixes := no_of_prefixes ds + 1\<rparr>) in
      ds\<lparr>decode_eip := decode_eip ds + 1\<rparr>)"

partial_function (option) prefix_loop :: "memory \<Rightarrow> decode_t \<Rightarrow> decode_t option" where
  "prefix_loop m ds =
     (let ds = prefix_fetch m ds in
      if ds_attr ds AND DF_PREFIX = 0 then Some ds else prefix_loop m (prefix_body ds))"

text \<open>The escape opcodes d8 to df: the ModR/M byte picks the entry of the float table.\<close>

definition float_entry :: "memory \<Rightarrow> opcode_table \<Rightarrow> decode_t \<Rightarrow> decode_t \<times> OpCode" where
  "float_entry m t ds =
     (let b = ld8 m (decode_eip ds);
          ds = ds\<lparr>ds_b := ucast b, decode_eip := decode_eip ds + 1, ds_modrm := b\<rparr>
      in if modrm_mod b = 3
         then (let e = table_entry t (ucast (modrm_reg b) + 8) in
               if flag_set (op_attr e) DF_ONE_MORE_LEVEL
               then (case op_ptr e of
                       P_table t' \<Rightarrow>
                         (let e' = table_entry t' (ucast (modrm_rm b)) in
                          (ds\<lparr>ds_attr := op_attr e'\<rparr>, e'))
                     | _ \<Rightarrow> (ds\<lparr>ds_attr := op_attr e\<rparr>, e))
               else (ds\<lparr>ds_attr := op_attr e\<rparr>, e))
         else (let e = table_entry t (ucast (modrm_reg b)) in (ds\<lparr>ds_attr := op_attr e\<rparr>, e)))"

text \<open>
  The opcode loop; the Boolean is \<^verbatim>\<open>wierd\<close> (the ModR/M byte has been consumed).  A table or float
  entry whose pointer is not a table would make the C code index through it; the tables hold no
  such entry (\<open>opcode_loop_Some\<close> below), and the model answers \<open>None\<close> there.
\<close>

partial_function (option) opcode_loop ::
    "memory \<Rightarrow> opcode_table \<Rightarrow> decode_t \<Rightarrow> (decode_t \<times> OpCode \<times> bool) option" where
  "opcode_loop m t ds =
     (let b = ucast (ld8 m (decode_eip ds));
          e = table_entry t b;
          ds = ds\<lparr>ds_b := b, ds_attr := op_attr e, decode_eip := decode_eip ds + 1\<rparr>
      in if flag_set (op_attr e) DF_TABLE
         then (case op_ptr e of P_table t' \<Rightarrow> opcode_loop m t' ds | _ \<Rightarrow> None)
         else if flag_set (op_attr e) DF_FLOAT
         then (case op_ptr e of
                 P_table t' \<Rightarrow> (let (ds', e') = float_entry m t' ds in Some (ds', e', True))
               | _ \<Rightarrow> None)
         else Some (ds, e, False))"

definition fetch_modrm :: "memory \<Rightarrow> bool \<Rightarrow> decode_t \<Rightarrow> decode_t" where
  "fetch_modrm m wierd ds =
     (if \<not> wierd \<and> flag_set (ds_attr ds) (DF_MODRM OR DF_GROUP) then READ_IN_NEXT_BYTE m ds else ds)"

definition group_entry :: "decode_t \<Rightarrow> OpCode \<Rightarrow> decode_t \<times> OpCode" where
  "group_entry ds e =
     (if flag_set (ds_attr ds) DF_GROUP
      then (let b = ucast (ds_b ds);
                e' = (case op_ptr e of P_table t \<Rightarrow> table_entry t (ucast (modrm_reg b)) | _ \<Rightarrow> e)
            in (ds\<lparr>ds_modrm := b, ds_attr := ds_attr ds OR op_attr e'\<rparr>, e'))
      else (ds, e))"

definition save_modrm :: "decode_t \<Rightarrow> decode_t" where
  "save_modrm ds = (if flag_set (ds_attr ds) DF_MODRM then ds\<lparr>ds_modrm := ucast (ds_b ds)\<rparr> else ds)"

definition addr_form :: "decode_t \<Rightarrow> decode_t" where
  "addr_form ds =
     (let md = modrm_mod (ds_modrm ds); rm = modrm_rm (ds_modrm ds) in
      if flag_set (ds_opstate ds) OPSTATE_ADDR32
      then (let ds = (if md \<noteq> 3 \<and> rm = 4 then ds\<lparr>need_sib := True\<rparr> else ds) in
            if md = 0 \<and> rm = 5 then ds\<lparr>dispBytes := 4\<rparr>
            else if md = 1 then ds\<lparr>dispBytes := 1\<rparr>
            else if md = 2 then ds\<lparr>dispBytes := 4\<rparr> else ds)
      else if md = 0 \<and> rm = 6 then ds\<lparr>dispBytes := 2\<rparr>
      else if md = 1 then ds\<lparr>dispBytes := 1\<rparr>
      else if md = 2 then ds\<lparr>dispBytes := 2\<rparr> else ds)"

definition fetch_sib :: "memory \<Rightarrow> decode_t \<Rightarrow> decode_t" where
  "fetch_sib m ds =
     (if need_sib ds
      then (let ds = READ_IN_NEXT_BYTE m ds; ds = ds\<lparr>ds_sib := ucast (ds_b ds)\<rparr> in
            if sib_base (ds_sib ds) = GP_REG_EBP \<and> modrm_mod (ds_modrm ds) = 0
            then ds\<lparr>dispBytes := 4\<rparr> else ds)
      else ds)"

definition fetch_disp :: "memory \<Rightarrow> decode_t \<Rightarrow> decode_t" where
  "fetch_disp m ds =
     (if dispBytes ds = 0 then ds
      else (let ds = (if 2 < dispBytes ds then READ_IN_NEXT_LONG m ds
                      else if 1 < dispBytes ds then READ_IN_NEXT_WORD m ds
                      else READ_IN_NEXT_BYTE m ds)
            in ds\<lparr>ds_displacement := ds_b ds\<rparr>))"

definition modrm_operands :: "memory \<Rightarrow> decode_t \<Rightarrow> decode_t" where
  "modrm_operands m ds =
     (if flag_set (ds_attr ds) (DF_MODRM OR DF_GROUP)
      then fetch_disp m (fetch_sib m (addr_form ds)) else ds)"

definition fetch_Iw :: "memory \<Rightarrow> decode_t \<Rightarrow> decode_t" where
  "fetch_Iw m ds =
     (if flag_set (ds_attr ds) DF_Iw
      then (let ds = READ_IN_NEXT_WORD m ds in ds\<lparr>ds_imm16 := ds_b ds\<rparr>) else ds)"

definition fetch_Ib :: "memory \<Rightarrow> decode_t \<Rightarrow> decode_t" where
  "fetch_Ib m ds =
     (if flag_set (ds_attr ds) DF_Ib \<or> flag_set (ds_attr ds) DF_Jb
      then (let ds = READ_IN_NEXT_BYTE m ds in
            ds\<lparr>ds_immediate := scast (ucast (ds_b ds) :: u8)\<rparr>) else ds)"

definition fetch_sized :: "memory \<Rightarrow> bool \<Rightarrow> decode_t \<Rightarrow> decode_t" where
  "fetch_sized m wide ds =
     (let ds = (if wide then READ_IN_NEXT_LONG m ds else READ_IN_NEXT_WORD m ds) in
      ds\<lparr>ds_immediate := ds_b ds\<rparr>)"

definition fetch_Iv :: "memory \<Rightarrow> decode_t \<Rightarrow> decode_t" where
  "fetch_Iv m ds =
     (if flag_set (ds_attr ds) DF_Iv
      then fetch_sized m (flag_set (ds_opstate ds) OPSTATE_DATA32) ds else ds)"

definition fetch_Ov :: "memory \<Rightarrow> decode_t \<Rightarrow> decode_t" where
  "fetch_Ov m ds =
     (if flag_set (ds_attr ds) DF_Ov \<or> flag_set (ds_attr ds) DF_Ob
      then fetch_sized m (flag_set (ds_opstate ds) OPSTATE_ADDR32) ds else ds)"

definition fetch_Jv :: "memory \<Rightarrow> decode_t \<Rightarrow> decode_t" where
  "fetch_Jv m ds =
     (if flag_set (ds_attr ds) (DF_Jv OR DF_Ap)
      then fetch_sized m (flag_set (ds_opstate ds) OPSTATE_DATA32) ds else ds)"

definition fetch_Ap :: "memory \<Rightarrow> decode_t \<Rightarrow> decode_t" where
  "fetch_Ap m ds =
     (if flag_set (ds_attr ds) DF_Ap
      then (let ds = READ_IN_NEXT_WORD m ds in ds\<lparr>ds_imm16 := ds_b ds\<rparr>) else ds)"

definition fetch_immediates :: "memory \<Rightarrow> decode_t \<Rightarrow> decode_t" where
  "fetch_immediates m ds = fetch_Ap m (fetch_Jv m (fetch_Ov m (fetch_Iv m (fetch_Ib m (fetch_Iw m ds)))))"

definition disas_finish :: "memory \<Rightarrow> decode_t \<Rightarrow> OpCode \<Rightarrow> bool \<times> decode_t" where
  "disas_finish m ds e =
     (let ds = ds\<lparr>ds_pInstr := ucast (ld8 m (decode_eip ds)), ds_emitfn := op_ptr e,
                  ds_pEntry := Some e\<rparr>
      in if flag_set (ds_attr ds) DF_UNDEFINED then (False, ds)
         else if op_ptr e = P_null then (False, ds)
         else (True, ds\<lparr>ds_inst_type := op_inst_type e\<rparr>))"

definition disas_operands :: "memory \<Rightarrow> decode_t \<times> OpCode \<times> bool \<Rightarrow> bool \<times> decode_t" where
  "disas_operands m = (\<lambda>(ds, e, wierd).
     (let (ds, e) = group_entry (fetch_modrm m wierd ds) e
      in disas_finish m (fetch_immediates m (modrm_operands m (save_modrm ds))) e))"

definition simple_disas_insn :: "memory \<Rightarrow> decode_t \<Rightarrow> u32 \<Rightarrow> (bool \<times> decode_t) option" where
  "simple_disas_insn m ds pc =
     (case prefix_loop m (disas_init ds pc) of
        None \<Rightarrow> None
      | Some ds \<Rightarrow>
          map_option (disas_operands m)
            (opcode_loop m T_nopbyte0 (ds\<lparr>ds_instr := decode_eip ds\<rparr>)))"

section \<open>Prefixes\<close>

definition is_prefix_byte :: "u8 \<Rightarrow> bool" where
  "is_prefix_byte b \<longleftrightarrow> flag_set (op_attr (table_entry T_nopbyte0 (ucast b))) DF_PREFIX"

lemma unat_ucast_u8 [simp]: "unat (ucast (b :: u8) :: u32) = unat b"
proof -
  have "unat b < 2 ^ 32" using unsigned_less [of b, where ?'a = nat] by simp
  then show ?thesis by (simp add: unsigned_ucast_eq take_bit_nat_eq_self)
qed

lemma unat_u8_less [simp]: "unat (b :: u8) < 256"
  using unsigned_less [of b, where ?'a = nat] by simp

lemma is_prefix_byte_iff:
  "is_prefix_byte b \<longleftrightarrow>
     unat b \<in> {0xf0, 0xf3, 0xf2, 0x2e, 0x3e, 0x26, 0x64, 0x65, 0x36, 0x66, 0x67}"
proof -
  have "is_prefix_byte b = map (\<lambda>e. flag_set (op_attr e) DF_PREFIX) nopbyte0 ! unat b"
    by (simp add: is_prefix_byte_def table_entry_def)
  then show ?thesis
    unfolding nopbyte0_prefixes by simp
qed

lemma prefix_fetch_simps [simp]:
  "decode_eip (prefix_fetch m ds) = decode_eip ds"
  "no_of_prefixes (prefix_fetch m ds) = no_of_prefixes ds"
  "ds_opstate (prefix_fetch m ds) = ds_opstate ds"
  "ds_b (prefix_fetch m ds) = ucast (m (decode_eip ds))"
  "ds_attr (prefix_fetch m ds) AND DF_PREFIX = 0 \<longleftrightarrow> \<not> is_prefix_byte (m (decode_eip ds))"
  by (simp_all add: prefix_fetch_def Let_def ld8_def is_prefix_byte_def flag_set_def)

lemma prefix_switch_simps [simp]:
  "decode_eip (prefix_switch ds) = decode_eip ds"
  "no_of_prefixes (prefix_switch ds) = no_of_prefixes ds"
  by (simp_all add: prefix_switch_def Let_def)

lemma prefix_body_simps [simp]:
  "decode_eip (prefix_body ds) = decode_eip ds + 1"
  "no_of_prefixes (prefix_body ds) = no_of_prefixes ds + 1"
  by (simp_all add: prefix_body_def Let_def)

definition prefix_iter :: "memory \<Rightarrow> decode_t \<Rightarrow> decode_t" where
  "prefix_iter m ds = prefix_body (prefix_fetch m ds)"

lemma prefix_loop_run:
  assumes "\<forall>i<n. is_prefix_byte (m (decode_eip ds + of_nat i))"
    and "\<not> is_prefix_byte (m (decode_eip ds + of_nat n))"
  shows "prefix_loop m ds = Some (prefix_fetch m ((prefix_iter m ^^ n) ds))"
  using assms
proof (induction n arbitrary: ds)
  case 0
  then show ?case by (subst prefix_loop.simps) simp
next
  case (Suc n)
  from Suc.prems(1) have p: "is_prefix_byte (m (decode_eip ds))" by force
  have eip: "decode_eip (prefix_iter m ds) = decode_eip ds + 1"
    by (simp add: prefix_iter_def)
  have "prefix_loop m (prefix_iter m ds)
      = Some (prefix_fetch m ((prefix_iter m ^^ n) (prefix_iter m ds)))"
  proof (rule Suc.IH)
    show "\<forall>i<n. is_prefix_byte (m (decode_eip (prefix_iter m ds) + of_nat i))"
    proof (intro allI impI)
      fix i assume "i < n"
      then have "is_prefix_byte (m (decode_eip ds + of_nat (Suc i)))" using Suc.prems(1) by blast
      then show "is_prefix_byte (m (decode_eip (prefix_iter m ds) + of_nat i))"
        by (simp add: eip add.assoc)
    qed
    show "\<not> is_prefix_byte (m (decode_eip (prefix_iter m ds) + of_nat n))"
      using Suc.prems(2) by (simp add: eip add.assoc)
  qed
  then show ?case
    using p by (subst prefix_loop.simps) (simp add: prefix_iter_def funpow_swap1)
qed

lemma prefix_loop_returns:
  assumes "prefix_loop m ds = Some r"
  shows "\<exists>n. \<not> is_prefix_byte (m (decode_eip ds + of_nat n))"
proof (rule prefix_loop.raw_induct [where P = "\<lambda>m ds r. \<exists>n. \<not> is_prefix_byte (m (decode_eip ds + of_nat n))", OF _ assms])
  fix f m ds r
  assume IH: "\<And>m ds r. f m ds = Some r \<Longrightarrow> \<exists>n. \<not> is_prefix_byte (m (decode_eip ds + of_nat n))"
    and eq: "(let ds = prefix_fetch m ds in
      if ds_attr ds AND DF_PREFIX = 0 then Some ds else f m (prefix_body ds)) = Some r"
  show "\<exists>n. \<not> is_prefix_byte (m (decode_eip ds + of_nat n))"
  proof (cases "is_prefix_byte (m (decode_eip ds))")
    case True
    with eq have "f m (prefix_body (prefix_fetch m ds)) = Some r" by simp
    from IH [OF this] obtain n where "\<not> is_prefix_byte (m (decode_eip ds + of_nat (Suc n)))"
      by (auto simp: add.assoc)
    then show ?thesis by blast
  next
    case False
    then have "\<not> is_prefix_byte (m (decode_eip ds + of_nat 0))" by simp
    then show ?thesis by blast
  qed
qed

lemma first_non_prefix:
  fixes pc :: u32
  assumes "\<not> is_prefix_byte (m a)"
  obtains n where "\<forall>i<n. is_prefix_byte (m (pc + of_nat i))"
    and "\<not> is_prefix_byte (m (pc + of_nat n))"
proof -
  have "\<not> is_prefix_byte (m (pc + of_nat (unat (a - pc))))" using assms by simp
  then have "\<exists>n. \<not> is_prefix_byte (m (pc + of_nat n))" ..
  then obtain n where "\<not> is_prefix_byte (m (pc + of_nat n))"
    "\<forall>i<n. is_prefix_byte (m (pc + of_nat i))"
    using exists_least_iff [of "\<lambda>n. \<not> is_prefix_byte (m (pc + of_nat n))"] by auto
  then show ?thesis using that by blast
qed

lemma prefix_loop_None_iff:
  "prefix_loop m ds = None \<longleftrightarrow> (\<forall>a. is_prefix_byte (m a))"
proof
  assume "prefix_loop m ds = None"
  then show "\<forall>a. is_prefix_byte (m a)"
    using first_non_prefix [of m _ "decode_eip ds"] prefix_loop_run [of _ m ds] by fastforce
next
  assume "\<forall>a. is_prefix_byte (m a)"
  then show "prefix_loop m ds = None"
    using prefix_loop_returns [of m ds] by (cases "prefix_loop m ds") auto
qed

lemma prefix_loop_Some:
  assumes "prefix_loop m ds = Some ds'"
  obtains n where "\<forall>i<n. is_prefix_byte (m (decode_eip ds + of_nat i))"
    and "\<not> is_prefix_byte (m (decode_eip ds + of_nat n))"
    and "ds' = prefix_fetch m ((prefix_iter m ^^ n) ds)"
proof -
  from prefix_loop_returns [OF assms] obtain k where
    "\<not> is_prefix_byte (m (decode_eip ds + of_nat k))" ..
  then obtain n where n: "\<forall>i<n. is_prefix_byte (m (decode_eip ds + of_nat i))"
    "\<not> is_prefix_byte (m (decode_eip ds + of_nat n))"
    by (rule first_non_prefix)
  from prefix_loop_run [OF this] assms have "ds' = prefix_fetch m ((prefix_iter m ^^ n) ds)"
    by simp
  with n show ?thesis by (rule that)
qed

lemma prefix_iter_eip [simp]: "decode_eip ((prefix_iter m ^^ n) ds) = decode_eip ds + of_nat n"
  by (induction n) (simp_all add: prefix_iter_def algebra_simps)

lemma prefix_iter_count [simp]:
  "no_of_prefixes ((prefix_iter m ^^ n) ds) = no_of_prefixes ds + of_nat n"
  by (induction n) (simp_all add: prefix_iter_def algebra_simps)

section \<open>The opcode loop always returns\<close>

lemma modrm_field_less [simp]:
  "unat (modrm_reg b) < 8" "unat (modrm_rm b) < 8" "unat (modrm_mod b) < 4"
proof -
  have "unat (x AND 7) \<le> unat (7 :: u8)" for x :: u8
    using word_and_le1 [of x "7 :: u8"] by (simp only: word_le_nat_alt)
  then show "unat (modrm_reg b) < 8" "unat (modrm_rm b) < 8"
    by (auto simp: modrm_reg_def modrm_rm_def less_Suc_eq_le
        intro: order_le_less_trans [where y = 7])
  have "unat b div 64 < 4" using unat_u8_less [of b] by (simp add: less_mult_imp_div_less)
  then show "unat (modrm_mod b) < 4"
    by (simp only: modrm_mod_def unat_drop_bit_eq drop_bit_nat_def) simp
qed

lemma root_entryD: "root_entry (table_entry T_nopbyte0 (ucast (b :: u8)))"
  using nopbyte0_wf by (simp add: table_entry_def list_all_length)

lemma twoByte_entryD:
  "\<not> flag_set (op_attr (table_entry T_twoByteOpcodes (ucast (b :: u8)))) DF_TABLE"
  "\<not> flag_set (op_attr (table_entry T_twoByteOpcodes (ucast (b :: u8)))) DF_FLOAT"
  "opcode_entry 9 (table_entry T_twoByteOpcodes (ucast (b :: u8)))"
  using twoByteOpcodes_wf by (simp_all add: table_entry_def list_all_length)

lemma flag_set_or: "flag_set a (f OR g) \<longleftrightarrow> flag_set a f \<or> flag_set a g"
  by (simp only: flag_set_def bit.conj_disj_distrib or_eq_0_iff de_Morgan_conj)

lemma terminal_not_group: "terminal_entry e \<Longrightarrow> \<not> flag_set (op_attr e) DF_GROUP"
  by (simp only: terminal_entry_def flag_set_or simp_thms de_Morgan_disj)

lemma float_entry_leaf:
  assumes "float_table t"
  shows "float_leaf (snd (float_entry m t ds))"
    and "ds_attr (fst (float_entry m t ds)) = op_attr (snd (float_entry m t ds))"
    and "decode_eip (fst (float_entry m t ds)) = decode_eip ds + 1"
proof -
  let ?b = "m (decode_eip ds)"
  have low: "float_leaf (table_entry t (ucast (modrm_reg ?b)))"
    using assms modrm_field_less(1) [of ?b] less_trans [OF modrm_field_less(1) [of ?b], of 16]
    by (simp add: float_table_def list_all_length table_entry_def)
  have "unat (ucast (modrm_reg ?b) + 8 :: u32) = unat (modrm_reg ?b) + 8"
    by (subst unat_plus_if') (simp add: less_trans [OF modrm_field_less(1)])
  then have high: "float_table_entry (table_entry t (ucast (modrm_reg ?b) + 8))"
    using assms by (auto simp: float_table_def list_all_length table_entry_def add.commute
        dest!: spec [of _ "unat (modrm_reg ?b)"])
  show "float_leaf (snd (float_entry m t ds))"
    using low high
    by (auto simp: float_entry_def Let_def ld8_def float_table_entry_def sub_table_def
        float_leaf_table_def list_all_length table_entry_def split: op_ptr.splits if_splits)
  show "ds_attr (fst (float_entry m t ds)) = op_attr (snd (float_entry m t ds))"
    and "decode_eip (fst (float_entry m t ds)) = decode_eip ds + 1"
    by (auto simp: float_entry_def Let_def split: op_ptr.splits)
qed

text \<open>Where the opcode loop stops: the entry, whether ModR/M was consumed, the bytes consumed.\<close>

definition stop_at :: "OpCode \<Rightarrow> bool \<Rightarrow> nat \<Rightarrow> bool" where
  "stop_at e w c \<longleftrightarrow>
     (if w then c = 2 \<and> float_leaf e
      else c = 1 \<and> opcode_entry 10 e \<or> c = 2 \<and> opcode_entry 9 e)"

definition stopped :: "decode_t \<Rightarrow> decode_t \<times> OpCode \<times> bool \<Rightarrow> bool" where
  "stopped ds = (\<lambda>(ds', e, w). ds_attr ds' = op_attr e \<and>
     (\<exists>c. decode_eip ds' = decode_eip ds + of_nat c \<and> stop_at e w c))"

lemma opcode_loop_twoByte:
  "\<exists>ds' e. opcode_loop m T_twoByteOpcodes ds = Some (ds', e, False) \<and> ds_attr ds' = op_attr e \<and>
     decode_eip ds' = decode_eip ds + 1 \<and> opcode_entry 9 e"
  by (subst opcode_loop.simps) (simp add: Let_def ld8_def twoByte_entryD)

lemma opcode_loop_stops: "\<exists>r. opcode_loop m T_nopbyte0 ds = Some r \<and> stopped ds r"
proof -
  let ?e = "table_entry T_nopbyte0 (ucast (m (decode_eip ds)))"
  let ?ds = "ds\<lparr>ds_b := ucast (m (decode_eip ds)), ds_attr := op_attr ?e, decode_eip := decode_eip ds + 1\<rparr>"
  have root: "root_entry ?e" by (rule root_entryD)
  consider (table) "flag_set (op_attr ?e) DF_TABLE" | (float) "\<not> flag_set (op_attr ?e) DF_TABLE"
    "flag_set (op_attr ?e) DF_FLOAT" | (leaf) "\<not> flag_set (op_attr ?e) DF_TABLE"
    "\<not> flag_set (op_attr ?e) DF_FLOAT" by blast
  then show ?thesis
  proof cases
    case table
    then have "op_ptr ?e = P_table T_twoByteOpcodes" using root by (simp add: root_entry_def)
    with table have "opcode_loop m T_nopbyte0 ds = opcode_loop m T_twoByteOpcodes ?ds"
      by (subst opcode_loop.simps) (simp add: Let_def ld8_def)
    with opcode_loop_twoByte [of m ?ds] show ?thesis
      by (fastforce simp: stopped_def stop_at_def intro: exI [of _ 2])
  next
    case float
    then obtain t where t: "op_ptr ?e = P_table t" "float_table t"
      using root by (auto simp: root_entry_def sub_table_def split: op_ptr.splits)
    then have "opcode_loop m T_nopbyte0 ds =
        Some (fst (float_entry m t ?ds), snd (float_entry m t ?ds), True)"
      using float by (subst opcode_loop.simps) (simp add: Let_def ld8_def case_prod_unfold)
    with float_entry_leaf [OF t(2), of m ?ds] show ?thesis
      by (auto simp: stopped_def stop_at_def intro!: exI [of _ 2])
  next
    case leaf
    then have "opcode_loop m T_nopbyte0 ds = Some (?ds, ?e, False)"
      by (subst opcode_loop.simps) (simp add: Let_def ld8_def)
    then show ?thesis
      using root leaf by (auto simp: stopped_def stop_at_def root_entry_def intro!: exI [of _ 1])
  qed
qed

lemma opcode_loop_Some: "opcode_loop m T_nopbyte0 ds \<noteq> None"
  using opcode_loop_stops [of m ds] by (metis option.distinct(1))

lemma disas_diverges_iff:
  "simple_disas_insn m ds pc = None \<longleftrightarrow> (\<forall>a. is_prefix_byte (m a))"
proof -
  have "simple_disas_insn m ds pc = None \<longleftrightarrow> prefix_loop m (disas_init ds pc) = None"
    by (cases "prefix_loop m (disas_init ds pc)")
      (simp_all only: simple_disas_insn_def option.case option.map_disc_iff opcode_loop_Some
        simp_thms option.distinct)
  then show ?thesis by (simp only: prefix_loop_None_iff)
qed

lemma simple_disas_insn_stages:
  assumes "simple_disas_insn m ds pc = Some (ok, ds')"
  obtains ds1 ds2 e w c n where
    "\<forall>i<n. is_prefix_byte (m (pc + of_nat i))" "\<not> is_prefix_byte (m (pc + of_nat n))"
    "ds1 = prefix_fetch m ((prefix_iter m ^^ n) (disas_init ds pc))" "decode_eip ds1 = pc + of_nat n"
    "opcode_loop m T_nopbyte0 (ds1\<lparr>ds_instr := decode_eip ds1\<rparr>) = Some (ds2, e, w)"
    "ds_attr ds2 = op_attr e" "decode_eip ds2 = decode_eip ds1 + of_nat c" "stop_at e w c"
    "disas_operands m (ds2, e, w) = (ok, ds')"
proof -
  from assms obtain ds1 where ds1: "prefix_loop m (disas_init ds pc) = Some ds1"
    by (auto simp: simple_disas_insn_def split: option.splits)
  have init: "decode_eip (disas_init ds pc) = pc" by (simp add: disas_init_def)
  from ds1 obtain n where n: "\<forall>i<n. is_prefix_byte (m (pc + of_nat i))"
    "\<not> is_prefix_byte (m (pc + of_nat n))" "ds1 = prefix_fetch m ((prefix_iter m ^^ n) (disas_init ds pc))"
    by (rule prefix_loop_Some [of m "disas_init ds pc", unfolded init])
  then have eip: "decode_eip ds1 = pc + of_nat n" by (simp add: init)
  obtain ds2 e w c where r: "opcode_loop m T_nopbyte0 (ds1\<lparr>ds_instr := decode_eip ds1\<rparr>) = Some (ds2, e, w)"
    "ds_attr ds2 = op_attr e" "decode_eip ds2 = decode_eip ds1 + of_nat c" "stop_at e w c"
    using opcode_loop_stops [of m "ds1\<lparr>ds_instr := decode_eip ds1\<rparr>"] by (auto simp: stopped_def)
  have "disas_operands m (ds2, e, w) = (ok, ds')"
    using assms ds1 r(1) by (simp add: simple_disas_insn_def)
  with n eip r show ?thesis by (rule that)
qed

section \<open>The length of a decoded instruction\<close>

definition advanced :: "decode_t \<Rightarrow> decode_t \<Rightarrow> nat \<Rightarrow> bool" where
  "advanced ds ds' n \<longleftrightarrow> (\<exists>k\<le>n. decode_eip ds' = decode_eip ds + of_nat k)"

lemma advanced_trans: "advanced a b j \<Longrightarrow> advanced b c k \<Longrightarrow> advanced a c (j + k)"
proof -
  assume "advanced a b j" and "advanced b c k"
  then obtain x y where "x \<le> j" "decode_eip b = decode_eip a + of_nat x"
    "y \<le> k" "decode_eip c = decode_eip b + of_nat y"
    by (auto simp: advanced_def)
  then have "x + y \<le> j + k \<and> decode_eip c = decode_eip a + of_nat (x + y)"
    by (simp add: algebra_simps)
  then show ?thesis unfolding advanced_def by blast
qed

lemma advanced_refl: "decode_eip b = decode_eip a \<Longrightarrow> advanced a b n"
  unfolding advanced_def by (rule exI [of _ 0]) simp

lemma advancedI: "decode_eip b = decode_eip a + of_nat k \<Longrightarrow> k \<le> n \<Longrightarrow> advanced a b n"
  unfolding advanced_def by blast

lemma read_advanced:
  "advanced ds (READ_IN_NEXT_BYTE m ds) (Suc 0)"
  "advanced ds (READ_IN_NEXT_WORD m ds) 2"
  "advanced ds (READ_IN_NEXT_LONG m ds) 4"
  by (auto simp: READ_IN_NEXT_BYTE_def READ_IN_NEXT_WORD_def READ_IN_NEXT_LONG_def
      intro: advancedI [of _ _ 1] advancedI [of _ _ 2] advancedI [of _ _ 4])

lemmas read_defs = READ_IN_NEXT_BYTE_def READ_IN_NEXT_WORD_def READ_IN_NEXT_LONG_def

lemma fetch_modrm_advanced:
  "advanced ds (fetch_modrm m w ds) (opt_len (\<not> w \<and> flag_set (ds_attr ds) (DF_MODRM OR DF_GROUP)) 1)"
  by (auto simp: fetch_modrm_def opt_len_def intro: advanced_refl read_advanced)

lemma addr_form_simps [simp]:
  "decode_eip (addr_form ds) = decode_eip ds" "ds_attr (addr_form ds) = ds_attr ds"
  by (simp_all add: addr_form_def Let_def)

lemma fetch_sib_advanced: "advanced ds (fetch_sib m ds) 1"
  by (auto simp: fetch_sib_def Let_def read_defs intro: advanced_refl advancedI [of _ _ 1])

lemma fetch_disp_advanced: "advanced ds (fetch_disp m ds) 4"
  by (auto simp: fetch_disp_def Let_def read_defs
      intro: advanced_refl advancedI [of _ _ 1] advancedI [of _ _ 2] advancedI [of _ _ 4])

lemma modrm_operands_advanced:
  "advanced ds (modrm_operands m ds) (opt_len (flag_set (ds_attr ds) (DF_MODRM OR DF_GROUP)) 5)"
proof (cases "flag_set (ds_attr ds) (DF_MODRM OR DF_GROUP)")
  case True
  have "advanced ds (addr_form ds) 0" by (rule advanced_refl) simp
  from advanced_trans [OF advanced_trans [OF this fetch_sib_advanced] fetch_disp_advanced]
  show ?thesis using True by (simp add: modrm_operands_def opt_len_def)
qed (simp add: modrm_operands_def opt_len_def advanced_refl)

lemma attr_unchanged [simp]:
  "ds_attr (fetch_Iw m ds) = ds_attr ds" "ds_attr (fetch_Ib m ds) = ds_attr ds"
  "ds_attr (fetch_Iv m ds) = ds_attr ds" "ds_attr (fetch_Ov m ds) = ds_attr ds"
  "ds_attr (fetch_Jv m ds) = ds_attr ds" "ds_attr (fetch_Ap m ds) = ds_attr ds"
  "ds_attr (fetch_sib m ds) = ds_attr ds" "ds_attr (fetch_disp m ds) = ds_attr ds"
  "ds_attr (modrm_operands m ds) = ds_attr ds" "ds_attr (save_modrm ds) = ds_attr ds"
  "ds_attr (fetch_modrm m w ds) = ds_attr ds"
  by (simp_all add: fetch_Iw_def fetch_Ib_def fetch_Iv_def fetch_Ov_def fetch_Jv_def fetch_Ap_def
      fetch_sib_def fetch_disp_def modrm_operands_def save_modrm_def fetch_modrm_def
      fetch_sized_def read_defs Let_def)

lemma fetch_sized_advanced: "advanced ds (fetch_sized m w ds) 4"
  by (auto simp: fetch_sized_def Let_def read_defs intro: advancedI [of _ _ 2] advancedI [of _ _ 4])

lemma fetch_imm_advanced:
  "advanced ds (fetch_Iw m ds) (opt_len (flag_set (ds_attr ds) DF_Iw) 2)"
  "advanced ds (fetch_Ib m ds) (opt_len (flag_set (ds_attr ds) DF_Ib) 1)"
  "advanced ds (fetch_Iv m ds) (opt_len (flag_set (ds_attr ds) DF_Iv) 4)"
  "advanced ds (fetch_Ov m ds) (opt_len (flag_set (ds_attr ds) DF_Ov \<or> flag_set (ds_attr ds) DF_Ob) 4)"
  "advanced ds (fetch_Jv m ds) (opt_len (flag_set (ds_attr ds) (DF_Jv OR DF_Ap)) 4)"
  "advanced ds (fetch_Ap m ds) (opt_len (flag_set (ds_attr ds) DF_Ap) 2)"
  by (auto simp: fetch_Iw_def fetch_Ib_def fetch_Iv_def fetch_Ov_def fetch_Jv_def fetch_Ap_def
      read_defs Let_def opt_len_def
      intro: advanced_refl advancedI [of _ _ 1] advancedI [of _ _ 2] fetch_sized_advanced)

lemma fetch_immediates_advanced: "advanced ds (fetch_immediates m ds) (imm_len (ds_attr ds))"
proof -
  note t = advanced_trans
  have "advanced ds (fetch_immediates m ds)
     (opt_len (flag_set (ds_attr ds) DF_Iw) 2 + opt_len (flag_set (ds_attr ds) DF_Ib) 1 +
      opt_len (flag_set (ds_attr ds) DF_Iv) 4 + opt_len (flag_set (ds_attr ds) DF_Ov \<or> flag_set (ds_attr ds) DF_Ob) 4 +
      opt_len (flag_set (ds_attr ds) (DF_Jv OR DF_Ap)) 4 + opt_len (flag_set (ds_attr ds) DF_Ap) 2)"
    unfolding fetch_immediates_def
    using t [OF t [OF t [OF t [OF t [OF fetch_imm_advanced(1) fetch_imm_advanced(2)]
      fetch_imm_advanced(3)] fetch_imm_advanced(4)] fetch_imm_advanced(5)] fetch_imm_advanced(6),
      of ds m m m m m m] by simp
  then show ?thesis by (simp only: imm_len_def)
qed

lemma save_modrm_eip [simp]: "decode_eip (save_modrm ds) = decode_eip ds"
  by (simp add: save_modrm_def)

lemma disas_finish_eip [simp]: "decode_eip (snd (disas_finish m ds e)) = decode_eip ds"
  by (simp add: disas_finish_def Let_def)

lemma group_entry_eip [simp]: "decode_eip (fst (group_entry ds e)) = decode_eip ds"
  by (simp add: group_entry_def Let_def)

lemma group_entry_len:
  assumes "opcode_entry n e" and "ds_attr ds = op_attr e"
  shows "opt_len (flag_set (op_attr e) (DF_MODRM OR DF_GROUP)) 1 +
     opt_len (flag_set (ds_attr (fst (group_entry ds e))) (DF_MODRM OR DF_GROUP)) 5 +
     imm_len (ds_attr (fst (group_entry ds e))) \<le> n"
proof (cases "flag_set (op_attr e) DF_GROUP")
  case True
  with assms obtain t where t: "op_ptr e = P_table t" "leaf_table t"
    "list_all (\<lambda>e'. 6 + imm_len (op_attr e OR op_attr e') \<le> n) (table_of t)"
    by (auto simp: opcode_entry_def group_entry_ok_def sub_table_def split: op_ptr.splits)
  then have "6 + imm_len (ds_attr (fst (group_entry ds e))) \<le> n"
    using True assms(2)
    by (auto simp: group_entry_def Let_def table_entry_def list_all_length leaf_table_def)
  then show ?thesis by (simp add: opt_len_def)
next
  case False
  with assms show ?thesis by (auto simp: opcode_entry_def group_entry_def entry_len_def opt_len_def)
qed

lemma disas_operands_advanced:
  assumes "ds_attr ds = op_attr e" and "stop_at e w c"
  shows "advanced ds (snd (disas_operands m (ds, e, w))) (11 - c)"
proof -
  let ?ds1 = "fetch_modrm m w ds"
  let ?ds2 = "fst (group_entry ?ds1 e)"
  let ?len = "opt_len (\<not> w \<and> flag_set (op_attr e) (DF_MODRM OR DF_GROUP)) 1 +
     opt_len (flag_set (ds_attr ?ds2) (DF_MODRM OR DF_GROUP)) 5 + imm_len (ds_attr ?ds2)"
  have "advanced ds (fetch_immediates m (modrm_operands m (save_modrm ?ds2))) ?len"
  proof -
    have "advanced ?ds1 (save_modrm ?ds2) 0" by (rule advanced_refl) simp
    from advanced_trans [OF advanced_trans [OF advanced_trans [OF fetch_modrm_advanced this]
          modrm_operands_advanced] fetch_immediates_advanced]
    show ?thesis using assms(1) by simp
  qed
  moreover have "?len \<le> 11 - c"
  proof (cases w)
    case True
    then have "float_leaf e" "c = 2" using assms(2) by (simp_all add: stop_at_def)
    then have "?ds2 = ?ds1" and "entry_len e \<le> 6"
      using assms(1) terminal_not_group [of e] by (auto simp: group_entry_def float_leaf_def)
    then show ?thesis using True \<open>c = 2\<close> assms(1) by (auto simp: entry_len_def opt_len_def)
  next
    case False
    then obtain n where "opcode_entry n e" "n \<le> 11 - c" using assms(2) by (auto simp: stop_at_def)
    then show ?thesis using group_entry_len [of n e ?ds1] assms(1) False by simp
  qed
  ultimately show ?thesis
    by (auto simp: disas_operands_def advanced_def case_prod_unfold Let_def dest: order_trans)
qed

lemma disas_advance:
  assumes "simple_disas_insn m ds pc = Some (ok, ds')"
  obtains n k where "\<forall>i<n. is_prefix_byte (m (pc + of_nat i))" "\<not> is_prefix_byte (m (pc + of_nat n))"
    "1 \<le> k" "k \<le> 11" "decode_eip ds' = pc + of_nat n + of_nat k"
  using assms
proof (rule simple_disas_insn_stages)
  fix ds1 ds2 e w c n
  assume n: "\<forall>i<n. is_prefix_byte (m (pc + of_nat i))" "\<not> is_prefix_byte (m (pc + of_nat n))"
    and eip: "decode_eip ds1 = pc + of_nat n" "decode_eip ds2 = decode_eip ds1 + of_nat c"
    and stop: "ds_attr ds2 = op_attr e" "stop_at e w c"
    and fin: "disas_operands m (ds2, e, w) = (ok, ds')"
  from disas_operands_advanced [OF stop, of m] fin
  obtain j where "j \<le> 11 - c" "decode_eip ds' = decode_eip ds2 + of_nat j"
    by (auto simp: advanced_def)
  moreover have "1 \<le> c \<and> c \<le> 2" using stop(2) by (auto simp: stop_at_def split: if_splits)
  ultimately have "1 \<le> c + j \<and> c + j \<le> 11 \<and> decode_eip ds' = pc + of_nat n + of_nat (c + j)"
    using eip by auto
  with n show ?thesis by (intro that [of n "c + j"]) auto
qed

text \<open>With at most four prefixes an instruction is at most fifteen bytes long.\<close>

lemma disas_at_most_15:
  assumes "simple_disas_insn m ds pc = Some (ok, ds')" "i \<le> 4" "\<not> is_prefix_byte (m (pc + of_nat i))"
  shows "unat (decode_eip ds' - pc) \<le> 15"
  using assms(1)
proof (rule disas_advance)
  fix n k
  assume n: "\<forall>j<n. is_prefix_byte (m (pc + of_nat j))" and k: "k \<le> 11"
    and eip: "decode_eip ds' = pc + of_nat n + of_nat k"
  have "n \<le> i" using n assms(3) not_le_imp_less by blast
  then have "n + k \<le> 15" using k assms(2) by simp
  moreover have "decode_eip ds' - pc = of_nat (n + k)" by (simp add: eip)
  moreover have "unat (of_nat (n + k) :: u32) \<le> n + k"
    by (simp add: unsigned_of_nat take_bit_nat_less_eq_self del: of_nat_add)
  ultimately show ?thesis by simp
qed

lemma disas_pEntry:
  assumes "simple_disas_insn m ds pc = Some (ok, ds')"
  shows "ds_pEntry ds' \<noteq> None"
  using assms
  by (auto simp: simple_disas_insn_def disas_operands_def disas_finish_def Let_def case_prod_unfold
      split: option.splits if_splits)

section \<open>The verdict and the operand size\<close>

lemma group_entry_ptr:
  assumes "stop_at e w c" and "ds_attr ds = op_attr e"
  shows "\<not> is_table_ptr (op_ptr (snd (group_entry ds e)))"
proof (cases "flag_set (op_attr e) DF_GROUP")
  case True
  then have "\<not> float_leaf e" using terminal_not_group [of e] by (auto simp: float_leaf_def)
  with assms True obtain n where "group_entry_ok n e"
    by (auto simp: stop_at_def opcode_entry_def split: if_splits)
  then show ?thesis
    using assms(2) True
    by (auto simp: group_entry_ok_def sub_table_def group_entry_def Let_def leaf_table_def
        list_all_length table_entry_def terminal_entry_def split: op_ptr.splits)
next
  case False
  with assms show ?thesis
    by (auto simp: group_entry_def stop_at_def opcode_entry_def float_leaf_def terminal_entry_def
        split: if_splits)
qed

lemma disas_operands_verdict:
  assumes "disas_operands m (ds, e, w) = (True, ds')" "stop_at e w c" "ds_attr ds = op_attr e"
  shows "(\<exists>f. ds_emitfn ds' = P_emit f) \<and> \<not> flag_set (ds_attr ds') DF_UNDEFINED"
  using assms(1) group_entry_ptr [OF assms(2), of "fetch_modrm m w ds"] assms(3)
  by (cases "op_ptr (snd (group_entry (fetch_modrm m w ds) e))")
    (auto simp: disas_operands_def disas_finish_def Let_def case_prod_unfold split: if_splits)

definition opsz_count :: "memory \<Rightarrow> u32 \<Rightarrow> nat \<Rightarrow> nat" where
  "opsz_count m pc n = length (filter (\<lambda>i. m (pc + of_nat i) = HD_PREFIX_OPSZ) [0..<n])"

lemma flag_set_DATA32: "flag_set a OPSTATE_DATA32 \<longleftrightarrow> bit a (Suc 0)"
  using and_exp_eq_0_iff_not_bit [of a "Suc 0"] by (simp add: flag_set_def)

lemma ucast_u8_u32 [simp]: "ucast (ucast (b :: u8) :: u32) = b"
  by (rule bit_word_eqI) (simp add: bit_simps)

lemma prefix_iter_opstate:
  "bit (ds_opstate (prefix_iter m ds)) (Suc 0) \<longleftrightarrow> (bit (ds_opstate ds) (Suc 0) \<noteq> (m (decode_eip ds) = HD_PREFIX_OPSZ))"
  by (simp add: prefix_iter_def prefix_body_def prefix_switch_def Let_def bit_simps)

lemma prefix_iter_data32:
  "bit (ds_opstate ((prefix_iter m ^^ n) ds)) (Suc 0) \<longleftrightarrow>
     (bit (ds_opstate ds) (Suc 0) \<longleftrightarrow> even (opsz_count m (decode_eip ds) n))"
  by (induction n) (auto simp: prefix_iter_opstate opsz_count_def)

lemma opstate_unchanged [simp]:
  "ds_opstate (fetch_Iw m ds) = ds_opstate ds" "ds_opstate (fetch_Ib m ds) = ds_opstate ds"
  "ds_opstate (fetch_Iv m ds) = ds_opstate ds" "ds_opstate (fetch_Ov m ds) = ds_opstate ds"
  "ds_opstate (fetch_Jv m ds) = ds_opstate ds" "ds_opstate (fetch_Ap m ds) = ds_opstate ds"
  "ds_opstate (fetch_sib m ds) = ds_opstate ds" "ds_opstate (fetch_disp m ds) = ds_opstate ds"
  "ds_opstate (addr_form ds) = ds_opstate ds"
  "ds_opstate (modrm_operands m ds) = ds_opstate ds" "ds_opstate (save_modrm ds) = ds_opstate ds"
  "ds_opstate (fetch_modrm m w ds) = ds_opstate ds"
  "ds_opstate (fetch_immediates m ds) = ds_opstate ds"
  "ds_opstate (fst (group_entry ds e)) = ds_opstate ds"
  "ds_opstate (snd (disas_finish m ds e)) = ds_opstate ds"
  "ds_opstate (fst (float_entry m t ds)) = ds_opstate ds"
  by (simp_all add: fetch_Iw_def fetch_Ib_def fetch_Iv_def fetch_Ov_def fetch_Jv_def fetch_Ap_def
      fetch_sib_def fetch_disp_def modrm_operands_def save_modrm_def fetch_modrm_def addr_form_def
      fetch_sized_def read_defs fetch_immediates_def group_entry_def disas_finish_def float_entry_def Let_def
      split: op_ptr.split)

lemma opcode_loop_opstate:
  assumes "opcode_loop m t ds = Some r"
  shows "ds_opstate (fst r) = ds_opstate ds"
proof (rule opcode_loop.raw_induct [where P = "\<lambda>m t ds r. ds_opstate (fst r) = ds_opstate ds", OF _ assms],
    goal_cases)
  case (1 f m t ds r)
  then show ?case
    by (auto simp: Let_def case_prod_unfold split: if_splits op_ptr.splits)
qed

section \<open>A decode evaluated\<close>

definition blank_ds :: decode_t where
  "blank_ds = \<lparr>decode_eip = 0, ds_instr = 0, ds_pInstr = 0, ds_attr = 0, Group1_Prefix = 0,
     Group2_Prefix = 0, Group3_Prefix = 0, Group4_Prefix = 0, no_of_prefixes = 0, ds_flags = 0,
     ds_emitfn = P_null, ds_pEntry = None, ds_b = 0, ds_opstate = 0, ds_modrm = 0,
     need_sib = False, ds_sib = 0, dispBytes = 0, ds_displacement = 0, modrm_regs = 0,
     ds_immediate = 0, ds_imm16 = 0, ds_inst_type = INST_NORMAL\<rparr>"

text \<open>The instruction \<^verbatim>\<open>movw $0x12a, %ax\<close> at address 0x1000.\<close>

definition demo_code :: memory where
  "demo_code = write_bytes (\<lambda>_. 0x90) 0x1000 [0x66, 0xb8, 0x2a, 0x01]"

lemma nopbyte0_66: "table_entry T_nopbyte0 0x66 = nopbyte0_40 ! 0x26"
  by (simp add: table_entry_def nopbyte0_def nth_append nopbyte0_00_def nopbyte0_40_def)
lemma nopbyte0_b8: "table_entry T_nopbyte0 0xb8 = nopbyte0_80 ! 0x38"
  by (simp add: table_entry_def nopbyte0_def nth_append nopbyte0_00_def nopbyte0_40_def nopbyte0_80_def)

lemma demo_entries:
  "op_attr (nopbyte0_40 ! 0x26) = DF_PREFIX"
  "nopbyte0_80 ! 0x38 = opc 0xb8 ''movL'' 1 144 4 2 0 0 (P_emit Emit_normal) INST_NORMAL 2097160 0"
  by (simp_all add: nopbyte0_40_def nopbyte0_80_def opc_def)

lemmas demo_simps = ld8_def ld16_def opc_def flag_set_def nopbyte0_66 nopbyte0_b8 demo_entries

definition demo_ds1 :: decode_t where
  "demo_ds1 = blank_ds\<lparr>decode_eip := 0x1001, no_of_prefixes := 1, Group3_Prefix := HD_PREFIX_OPSZ,
     ds_flags := DSFL_GROUP3_PREFIX, ds_opstate := OPSTATE_ADDR32, ds_b := 0xb8, ds_attr := 2097160\<rparr>"

lemma demo_prefix: "prefix_loop demo_code (disas_init blank_ds 0x1000) = Some demo_ds1"
  by (subst prefix_loop.simps, subst prefix_loop.simps)
    (simp add: disas_init_def prefix_fetch_def prefix_body_def prefix_switch_def Let_def
      demo_code_def demo_simps demo_ds1_def blank_ds_def)

lemma demo_opcode: "opcode_loop demo_code T_nopbyte0 (demo_ds1\<lparr>ds_instr := 0x1001\<rparr>) =
   Some (demo_ds1\<lparr>ds_instr := 0x1001, decode_eip := 0x1002\<rparr>,
     opc 0xb8 ''movL'' 1 144 4 2 0 0 (P_emit Emit_normal) INST_NORMAL 2097160 0, False)"
  by (subst opcode_loop.simps) (simp add: demo_ds1_def blank_ds_def demo_code_def demo_simps)

lemma demo_decode:
  "\<exists>ds. simple_disas_insn demo_code blank_ds 0x1000 = Some (True, ds) \<and> decode_eip ds = 0x1004 \<and>
     ds_emitfn ds = P_emit Emit_normal \<and> ds_immediate ds = 0x12a"
proof -
  have [simp]: "decode_eip demo_ds1 = 0x1001" by (simp add: demo_ds1_def)
  show ?thesis
    by (simp add: simple_disas_insn_def demo_prefix demo_opcode)
      (simp add: disas_operands_def fetch_modrm_def group_entry_def save_modrm_def modrm_operands_def
      fetch_immediates_def fetch_Iw_def fetch_Ib_def fetch_Iv_def fetch_Ov_def fetch_Jv_def fetch_Ap_def
      fetch_sized_def read_defs disas_finish_def demo_ds1_def blank_ds_def demo_code_def demo_simps Let_def)
qed

section \<open>Properties of the decoder\<close>

text \<open>
  C23: the decoder returns for every instruction address, in every memory that holds one byte that is not
  a prefix; the only way not to return is an address space made of prefix bytes alone.
\<close>

lemma simple_disas_insn_None_iff:
  "simple_disas_insn m ds pc = None \<longleftrightarrow> (\<forall>a. is_prefix_byte (m a))"
  by (rule disas_diverges_iff)

text \<open>
  C22: however the decode ends, the instruction pointer has advanced over the run of prefixes at
  \<^verbatim>\<open>pc\<close> and then over 1 to 11 bytes, the longest opcode, ModR/M, SIB, displacement and immediate
  any entry of the tables asks for.
\<close>

lemma simple_disas_insn_length:
  assumes "simple_disas_insn m ds pc = Some (ok, ds')"
  shows "\<exists>n k. (\<forall>i<n. is_prefix_byte (m (pc + of_nat i))) \<and> \<not> is_prefix_byte (m (pc + of_nat n)) \<and>
     1 \<le> k \<and> k \<le> 11 \<and> decode_eip ds' = pc + of_nat n + of_nat k"
  using assms by (rule disas_advance) blast

lemma simple_disas_insn_length_witness:
  "\<exists>ds n k. simple_disas_insn demo_code blank_ds 0x1000 = Some (True, ds) \<and> k \<le> 11 \<and>
     decode_eip ds = 0x1000 + of_nat n + of_nat k"
  using demo_decode simple_disas_insn_length [of demo_code blank_ds "0x1000"] by blast

text \<open>
  a successful decode leaves a callable emitter and an instruction that is not marked
  undefined, so the translator's \<^verbatim>\<open>ds->emitfn (env, ds)\<close> is a call through a function pointer.
\<close>

lemma simple_disas_insn_emits:
  assumes "simple_disas_insn m ds pc = Some (True, ds')"
  shows "(\<exists>f. ds_emitfn ds' = P_emit f) \<and> \<not> flag_set (ds_attr ds') DF_UNDEFINED"
  using assms by (rule simple_disas_insn_stages) (rule disas_operands_verdict)

lemma simple_disas_insn_emits_witness:
  "\<exists>ds. simple_disas_insn demo_code blank_ds 0x1000 = Some (True, ds) \<and>
     \<not> flag_set (ds_attr ds) DF_UNDEFINED"
  using demo_decode simple_disas_insn_emits [of demo_code blank_ds "0x1000"] by blast

text \<open>
  The operand size after the decode is 32 bits exactly when the number of 0x66 prefixes is even.
  The toggling makes it a parity, so a repeated prefix cancels itself.
\<close>

lemma simple_disas_insn_opsize:
  assumes "simple_disas_insn m ds pc = Some (ok, ds')"
  shows "\<exists>n. (\<forall>i<n. is_prefix_byte (m (pc + of_nat i))) \<and> \<not> is_prefix_byte (m (pc + of_nat n)) \<and>
     (flag_set (ds_opstate ds') OPSTATE_DATA32 \<longleftrightarrow> even (opsz_count m pc n))"
  using assms
proof (rule simple_disas_insn_stages)
  fix ds1 ds2 e w c n
  assume n: "\<forall>i<n. is_prefix_byte (m (pc + of_nat i))" "\<not> is_prefix_byte (m (pc + of_nat n))"
    and ds1: "ds1 = prefix_fetch m ((prefix_iter m ^^ n) (disas_init ds pc))"
    and loop: "opcode_loop m T_nopbyte0 (ds1\<lparr>ds_instr := decode_eip ds1\<rparr>) = Some (ds2, e, w)"
    and fin: "disas_operands m (ds2, e, w) = (ok, ds')"
  have "ds_opstate ds' = ds_opstate ds2"
    using arg_cong [OF fin, of "ds_opstate \<circ> snd"] by (simp add: disas_operands_def case_prod_unfold Let_def)
  also have "\<dots> = ds_opstate ds1" using opcode_loop_opstate [OF loop] by simp
  finally have "bit (ds_opstate ds') (Suc 0) \<longleftrightarrow> even (opsz_count m pc n)"
    by (simp add: ds1 prefix_iter_data32 disas_init_def bit_simps)
  with n show ?thesis by (auto simp: flag_set_DATA32)
qed

lemma simple_disas_insn_opsize_witness:
  "\<exists>ds n. simple_disas_insn demo_code blank_ds 0x1000 = Some (True, ds) \<and>
     (flag_set (ds_opstate ds) OPSTATE_DATA32 \<longleftrightarrow> even (opsz_count demo_code 0x1000 n))"
  using demo_decode simple_disas_insn_opsize [of demo_code blank_ds "0x1000"] by blast

end
