(* ===== verification/TB_Cache.thy ===== *)
theory TB_Cache
  imports Prelude
begin

text \<open>
  The directory of translation blocks: the array \<^verbatim>\<open>tbs\<close>, the physical hash table with its chains
  and the jump cache, with the operations of \<^verbatim>\<open>src/exec.c\<close> that allocate and link blocks and the
  lookups of \<^verbatim>\<open>src/cpu-exec.c\<close>.  A pointer to a block is its index in \<^verbatim>\<open>tbs\<close>, a null pointer is
  \<open>None\<close>.  The memory behind \<^verbatim>\<open>tbs\<close> is not cleared when it is allocated, so the array is a function
  whose values above \<^verbatim>\<open>nb_tbs\<close> are arbitrary.
\<close>

section \<open>Data\<close>

abbreviation (input) NOT_TRANS_YET :: u32 where "NOT_TRANS_YET \<equiv> 0xdeadbeaf"
abbreviation (input) NORMAL_TB_TAG :: u32 where "NORMAL_TB_TAG \<equiv> 0"
abbreviation (input) PATCH_MAX :: nat where "PATCH_MAX \<equiv> 8"
abbreviation (input) TB_FROM_MAX :: nat where "TB_FROM_MAX \<equiv> 16"
abbreviation (input) IND_SLOT_MAX :: nat where "IND_SLOT_MAX \<equiv> 3"
abbreviation (input) DEFAULT_CODE_GEN_BUFFER_SIZE :: u32 where
  "DEFAULT_CODE_GEN_BUFFER_SIZE \<equiv> 128 * 1024 * 1024"

record TranslationBlock =
  tb_pc :: u32
  func_addr :: u32
  tb_tag :: u32
  hcode_size :: u16
  insn_count :: u32
  ind_miss_count :: u32
  ind_replace_count :: u32
  tc_ptr :: u32
  phys_hash_next :: "nat option"
  patch_num :: u32
  tb_jmp_offset :: "u16 list"
  jmp_from :: "nat option list"
  jmp_from_num :: "u8 list"
  jmp_from_index :: u32
  tb_type :: u32
  jind_src_addr :: "u32 list"
  jind_dest_addr :: "u32 list"
  mru_src :: u32
  mru_dest :: u32
  jmp_ind :: u32
  jmp_ind_index :: u32
  retrans_patch_ptr :: u32
  ind_enter_sieve :: u32
  retransed :: bool
  ind_tgt :: u32

record tb_state =
  tbs :: "nat \<Rightarrow> TranslationBlock"
  nb_tbs :: nat
  tb_phys_hash :: "u32 \<Rightarrow> nat option"
  tb_jmp_cache :: "u32 \<Rightarrow> nat option"
  code_gen_buffer :: u32
  code_gen_ptr :: u32

text \<open>The limits that \<^verbatim>\<open>code_gen_alloc\<close> sets.\<close>

definition code_gen_buffer_max_size :: u32 where
  "code_gen_buffer_max_size = DEFAULT_CODE_GEN_BUFFER_SIZE - 192 * (640 - 96)"

definition code_gen_max_blocks :: nat where
  "code_gen_max_blocks = unat (DEFAULT_CODE_GEN_BUFFER_SIZE div 64)"

definition upd_tb :: "nat \<Rightarrow> (TranslationBlock \<Rightarrow> TranslationBlock) \<Rightarrow> 'a tb_state_scheme \<Rightarrow> 'a tb_state_scheme" where
  "upd_tb i f s = s\<lparr>tbs := (tbs s)(i := f (tbs s i))\<rparr>"

text \<open>A store into one of the fixed-size arrays of a block.\<close>

definition set_slot :: "'a list \<Rightarrow> nat \<Rightarrow> 'a \<Rightarrow> 'a list outcome" where
  "set_slot xs i v = (if i < length xs then Inr (xs[i := v]) else Inl Out_Of_Bounds)"

section \<open>Hash functions\<close>

definition tb_jmp_cache_hash_func :: "u32 \<Rightarrow> u32" where
  "tb_jmp_cache_hash_func pc =
     (let tmp = pc XOR drop_bit (12 - 6) pc in
      (drop_bit (12 - 6) tmp AND 0xfc0) OR (tmp AND 0x3f))"

definition tb_phys_hash_func :: "u32 \<Rightarrow> u32" where
  "tb_phys_hash_func pc = pc AND (push_bit 15 1 - 1)"

section \<open>Allocation and linking\<close>

definition tb_alloc :: "u32 \<Rightarrow> 'a tb_state_scheme \<Rightarrow> (nat \<times> 'a tb_state_scheme) option" where
  "tb_alloc pc s =
     (if code_gen_max_blocks \<le> nb_tbs s \<or>
         code_gen_buffer_max_size \<le> code_gen_ptr s - code_gen_buffer s
      then None
      else Some (nb_tbs s, upd_tb (nb_tbs s) (tb_pc_update (\<lambda>_. pc)) (s\<lparr>nb_tbs := nb_tbs s + 1\<rparr>)))"

definition tb_free :: "nat \<Rightarrow> 'a tb_state_scheme \<Rightarrow> 'a tb_state_scheme" where
  "tb_free tb s =
     (if 0 < nb_tbs s \<and> tb = nb_tbs s - 1
      then s\<lparr>code_gen_ptr := tc_ptr (tbs s tb), nb_tbs := nb_tbs s - 1\<rparr> else s)"

definition tb_link_page :: "nat \<Rightarrow> u32 \<Rightarrow> 'a tb_state_scheme \<Rightarrow> 'a tb_state_scheme" where
  "tb_link_page tb phys_pc s =
     (let h = tb_phys_hash_func phys_pc;
          s = upd_tb tb (phys_hash_next_update (\<lambda>_. tb_phys_hash s h)) s
      in s\<lparr>tb_phys_hash := (tb_phys_hash s)(h := Some tb)\<rparr>)"

text \<open>The fields that \<^verbatim>\<open>make_tb\<close> sets; its \<^verbatim>\<open>tb_tag\<close> argument is overwritten with zero.\<close>

definition init_tb :: "u32 \<Rightarrow> TranslationBlock \<Rightarrow> TranslationBlock" where
  "init_tb fa t =
     t\<lparr>tc_ptr := NOT_TRANS_YET, insn_count := 0, func_addr := fa, tb_tag := 0,
       tb_jmp_offset := replicate PATCH_MAX 0, jmp_from_index := 0, jmp_ind_index := 0,
       ind_miss_count := 0, mru_src := 0, mru_dest := 0, ind_replace_count := 0,
       retransed := False, patch_num := 0\<rparr>"

text \<open>\<^verbatim>\<open>tb_flush\<close> prints a message and aborts, so a failed allocation ends the process.\<close>

definition make_tb :: "u32 \<Rightarrow> u32 \<Rightarrow> 'a tb_state_scheme \<Rightarrow> (nat \<times> 'a tb_state_scheme) outcome" where
  "make_tb pc fa s =
     (case tb_alloc pc s of
        None \<Rightarrow> Inl Tb_Flush
      | Some (tb, s) \<Rightarrow>
          (let s = tb_link_page tb pc (upd_tb tb (init_tb fa) s) in
           Inr (tb, s\<lparr>tb_jmp_cache := (tb_jmp_cache s)(tb_jmp_cache_hash_func pc := Some tb)\<rparr>)))"

definition tb_add_jmp_from :: "nat \<Rightarrow> nat \<Rightarrow> nat \<Rightarrow> 'a tb_state_scheme \<Rightarrow> 'a tb_state_scheme outcome" where
  "tb_add_jmp_from tb next_tb n s =
     (let t = tbs s next_tb; k = unat (jmp_from_index t) in
      and_then (set_slot (jmp_from t) k (Some tb)) (\<lambda>from.
      and_then (set_slot (jmp_from_num t) k (of_nat n)) (\<lambda>num.
      (let idx = jmp_from_index t + 1;
           idx = (if idx = of_nat TB_FROM_MAX then 0 else idx)
       in Inr (upd_tb next_tb (\<lambda>t. t\<lparr>jmp_from := from, jmp_from_num := num, jmp_from_index := idx\<rparr>) s)))))"

section \<open>Lookup\<close>

partial_function (option) phys_find ::
    "(nat \<Rightarrow> TranslationBlock) \<Rightarrow> u32 \<Rightarrow> u32 \<Rightarrow> nat option \<Rightarrow> nat option option" where
  "phys_find ts pc tag p =
     (if p = None then Some None
      else if tb_pc (ts (the p)) = pc \<and> tb_tag (ts (the p)) = tag then Some p
      else phys_find ts pc tag (phys_hash_next (ts (the p))))"

definition tb_find_slow :: "u32 \<Rightarrow> u32 \<Rightarrow> 'a tb_state_scheme \<Rightarrow> (nat option \<times> 'a tb_state_scheme) outcome" where
  "tb_find_slow pc tag s =
     (case phys_find (tbs s) pc tag (tb_phys_hash s (tb_phys_hash_func pc)) of
        None \<Rightarrow> Inl Never_Returns
      | Some None \<Rightarrow> Inr (None, s)
      | Some (Some i) \<Rightarrow>
          Inr (Some i, s\<lparr>tb_jmp_cache := (tb_jmp_cache s)(tb_jmp_cache_hash_func pc := Some i)\<rparr>))"

definition tb_find_fast :: "u32 \<Rightarrow> u32 \<Rightarrow> 'a tb_state_scheme \<Rightarrow> (nat option \<times> 'a tb_state_scheme) outcome" where
  "tb_find_fast pc tag s =
     (case tb_jmp_cache s (tb_jmp_cache_hash_func pc) of
        None \<Rightarrow> tb_find_slow pc tag s
      | Some i \<Rightarrow>
          if tb_pc (tbs s i) \<noteq> pc \<or> tag \<noteq> tb_tag (tbs s i) then tb_find_slow pc tag s
          else Inr (Some i, s))"

section \<open>The invariant and the abstract directory\<close>

primrec chain :: "(nat \<Rightarrow> TranslationBlock) \<Rightarrow> nat option \<Rightarrow> nat list \<Rightarrow> bool" where
  "chain ts p [] \<longleftrightarrow> p = None"
| "chain ts p (i # is) \<longleftrightarrow> p = Some i \<and> chain ts (phys_hash_next (ts i)) is"

text \<open>The blocks of a bucket, the newest first.\<close>

definition bucket :: "'a tb_state_scheme \<Rightarrow> u32 \<Rightarrow> nat list" where
  "bucket s h = filter (\<lambda>i. tb_phys_hash_func (tb_pc (tbs s i)) = h) (rev [0..<nb_tbs s])"

text \<open>What the directory means: the newest block of a guest address.\<close>

definition tb_of :: "'a tb_state_scheme \<Rightarrow> u32 \<Rightarrow> nat option" where
  "tb_of s pc = find (\<lambda>i. tb_pc (tbs s i) = pc) (rev [0..<nb_tbs s])"

text \<open>The arrays of every block have the sizes of the C struct, in use or not.\<close>

definition tb_shape :: "TranslationBlock \<Rightarrow> bool" where
  "tb_shape t \<longleftrightarrow> length (tb_jmp_offset t) = PATCH_MAX \<and> length (jmp_from t) = TB_FROM_MAX \<and>
     length (jmp_from_num t) = TB_FROM_MAX \<and> length (jind_src_addr t) = IND_SLOT_MAX \<and>
     length (jind_dest_addr t) = IND_SLOT_MAX"

definition tb_inv :: "'a tb_state_scheme \<Rightarrow> bool" where
  "tb_inv s \<longleftrightarrow>
     (\<forall>h. chain (tbs s) (tb_phys_hash s h) (bucket s h)) \<and>
     (\<forall>i<nb_tbs s. tb_tag (tbs s i) = 0 \<and> unat (jmp_from_index (tbs s i)) < TB_FROM_MAX) \<and>
     (\<forall>h i. tb_jmp_cache s h = Some i \<longrightarrow>
        tb_of s (tb_pc (tbs s i)) = Some i \<and> tb_jmp_cache_hash_func (tb_pc (tbs s i)) = h) \<and>
     (\<forall>i. tb_shape (tbs s i))"

lemma upd_tb_simps [simp]:
  "tbs (upd_tb i f s) = (tbs s)(i := f (tbs s i))" "nb_tbs (upd_tb i f s) = nb_tbs s"
  "tb_phys_hash (upd_tb i f s) = tb_phys_hash s" "tb_jmp_cache (upd_tb i f s) = tb_jmp_cache s"
  "code_gen_buffer (upd_tb i f s) = code_gen_buffer s" "code_gen_ptr (upd_tb i f s) = code_gen_ptr s"
  "tb_state.more (upd_tb i f s) = tb_state.more s"
  by (simp_all add: upd_tb_def)

lemma phys_find_chain:
  "chain ts p is \<Longrightarrow> phys_find ts pc tag p = Some (find (\<lambda>i. tb_pc (ts i) = pc \<and> tb_tag (ts i) = tag) is)"
proof (induction "is" arbitrary: p)
  case Nil
  then show ?case by (subst phys_find.simps) simp
next
  case (Cons i "is")
  then show ?case by (subst phys_find.simps) simp
qed

lemma find_filter: "find P (filter Q xs) = find (\<lambda>x. Q x \<and> P x) xs"
  by (induction xs) auto

lemma find_cong': "(\<And>x. x \<in> set xs \<Longrightarrow> P x = Q x) \<Longrightarrow> find P xs = find Q xs"
  by (induction xs) auto

lemma find_None: "(\<And>x. x \<in> set xs \<Longrightarrow> \<not> P x) \<Longrightarrow> find P xs = None"
  by (induction xs) auto

lemma find_SomeD: "find P xs = Some x \<Longrightarrow> x \<in> set xs \<and> P x"
  by (induction xs) (auto split: if_splits)

lemma tb_of_SomeD: "tb_of s pc = Some i \<Longrightarrow> i < nb_tbs s \<and> tb_pc (tbs s i) = pc"
  unfolding tb_of_def by (drule find_SomeD) simp

lemma tb_of_mem: "i < nb_tbs s \<Longrightarrow> tb_of s (tb_pc (tbs s i)) \<noteq> None"
  unfolding tb_of_def by (auto simp: find_None_iff)

lemma phys_find_tb_of:
  assumes "tb_inv s"
  shows "phys_find (tbs s) pc tag (tb_phys_hash s (tb_phys_hash_func pc)) =
     Some (if tag = 0 then tb_of s pc else None)"
proof -
  have "phys_find (tbs s) pc tag (tb_phys_hash s (tb_phys_hash_func pc)) =
      Some (find (\<lambda>i. tb_phys_hash_func (tb_pc (tbs s i)) = tb_phys_hash_func pc \<and>
         tb_pc (tbs s i) = pc \<and> tb_tag (tbs s i) = tag) (rev [0..<nb_tbs s]))"
  proof -
    have "chain (tbs s) (tb_phys_hash s (tb_phys_hash_func pc)) (bucket s (tb_phys_hash_func pc))"
      using assms by (simp add: tb_inv_def)
    from phys_find_chain [OF this] show ?thesis by (simp add: bucket_def find_filter)
  qed
  also have "\<dots> = Some (if tag = 0 then tb_of s pc else None)"
    using assms by (auto simp: tb_of_def tb_inv_def intro!: find_cong' find_None)
  finally show ?thesis .
qed

lemma tb_inv_jmp_cache:
  assumes "tb_inv s" and "tb_of s pc = Some i"
  shows "tb_inv (s\<lparr>tb_jmp_cache := (tb_jmp_cache s)(tb_jmp_cache_hash_func pc := Some i)\<rparr>)"
  using assms by (auto simp: tb_inv_def bucket_def tb_of_def dest: tb_of_SomeD [unfolded tb_of_def])

lemma tb_find_slow_spec:
  assumes "tb_inv s"
  obtains c where "tb_find_slow pc 0 s = Inr (tb_of s pc, s\<lparr>tb_jmp_cache := c\<rparr>)"
    and "tb_inv (s\<lparr>tb_jmp_cache := c\<rparr>)"
proof (cases "tb_of s pc")
  case None
  then have "tb_find_slow pc 0 s = Inr (tb_of s pc, s\<lparr>tb_jmp_cache := tb_jmp_cache s\<rparr>)"
    using assms by (simp add: tb_find_slow_def phys_find_tb_of)
  moreover have "tb_inv (s\<lparr>tb_jmp_cache := tb_jmp_cache s\<rparr>)" using assms by simp
  ultimately show ?thesis by (rule that)
next
  case (Some i)
  then have "tb_find_slow pc 0 s = Inr (tb_of s pc,
      s\<lparr>tb_jmp_cache := (tb_jmp_cache s)(tb_jmp_cache_hash_func pc := Some i)\<rparr>)"
    using assms by (simp add: tb_find_slow_def phys_find_tb_of)
  then show ?thesis using tb_inv_jmp_cache [OF assms Some] by (rule that)
qed

text \<open>Every lookup returns, finds the newest block, and changes the jump cache only.\<close>

lemma tb_find_fast_spec:
  assumes "tb_inv s"
  obtains c where "tb_find_fast pc 0 s = Inr (tb_of s pc, s\<lparr>tb_jmp_cache := c\<rparr>)"
    and "tb_inv (s\<lparr>tb_jmp_cache := c\<rparr>)"
proof (cases "\<exists>i. tb_jmp_cache s (tb_jmp_cache_hash_func pc) = Some i \<and> tb_pc (tbs s i) = pc \<and> tb_tag (tbs s i) = 0")
  case True
  then obtain i where i: "tb_jmp_cache s (tb_jmp_cache_hash_func pc) = Some i" "tb_pc (tbs s i) = pc"
    "tb_tag (tbs s i) = 0" by blast
  with assms have "tb_of s pc = Some i" unfolding tb_inv_def by metis
  with i have "tb_find_fast pc 0 s = Inr (tb_of s pc, s\<lparr>tb_jmp_cache := tb_jmp_cache s\<rparr>)"
    by (simp add: tb_find_fast_def)
  moreover have "tb_inv (s\<lparr>tb_jmp_cache := tb_jmp_cache s\<rparr>)" using assms by simp
  ultimately show ?thesis by (rule that)
next
  case False
  then have "tb_find_fast pc 0 s = tb_find_slow pc 0 s"
    by (auto simp: tb_find_fast_def split: option.splits)
  moreover from assms obtain c where "tb_find_slow pc 0 s = Inr (tb_of s pc, s\<lparr>tb_jmp_cache := c\<rparr>)"
    and "tb_inv (s\<lparr>tb_jmp_cache := c\<rparr>)" by (rule tb_find_slow_spec)
  ultimately show ?thesis using that by simp
qed

lemma tb_of_upd [simp]:
  "tb_of (s\<lparr>tb_jmp_cache := c\<rparr>) = tb_of s" "tb_of (s\<lparr>tb_phys_hash := p\<rparr>) = tb_of s"
  "tb_of (s\<lparr>code_gen_ptr := g\<rparr>) = tb_of s"
  by (simp_all add: tb_of_def fun_eq_iff)

text \<open>A store into a block that leaves its key and its link alone keeps the directory.\<close>

definition keeps_key :: "(TranslationBlock \<Rightarrow> TranslationBlock) \<Rightarrow> bool" where
  "keeps_key f \<longleftrightarrow> (\<forall>t. tb_pc (f t) = tb_pc t \<and> tb_tag (f t) = tb_tag t \<and>
     phys_hash_next (f t) = phys_hash_next t)"

lemma chain_cong:
  "(\<And>i. i \<in> set is \<Longrightarrow> phys_hash_next (ts i) = phys_hash_next (ts' i)) \<Longrightarrow> chain ts p is = chain ts' p is"
  by (induction "is" arbitrary: p) auto

lemma tb_of_upd_tb: "keeps_key f \<Longrightarrow> tb_of (upd_tb i f s) = tb_of s"
  by (auto simp: tb_of_def keeps_key_def fun_eq_iff intro!: find_cong')

lemma tb_inv_upd_tb:
  assumes "tb_inv s" and "keeps_key f" and "tb_shape (f (tbs s i))"
    and "i < nb_tbs s \<Longrightarrow> unat (jmp_from_index (f (tbs s i))) < TB_FROM_MAX"
  shows "tb_inv (upd_tb i f s)"
proof -
  have key: "tb_pc (tbs (upd_tb i f s) j) = tb_pc (tbs s j)"
    "phys_hash_next (tbs (upd_tb i f s) j) = phys_hash_next (tbs s j)"
    "tb_tag (tbs (upd_tb i f s) j) = tb_tag (tbs s j)" for j
    using assms(2) by (simp_all add: keeps_key_def)
  then have "bucket (upd_tb i f s) h = bucket s h" for h
    by (simp add: bucket_def del: upd_tb_simps(1))
  then have "chain (tbs (upd_tb i f s)) p (bucket (upd_tb i f s) h) = chain (tbs s) p (bucket s h)" for p h
    by (simp only:) (rule chain_cong, rule key(2))
  then show ?thesis
    using assms by (simp add: tb_inv_def key tb_of_upd_tb del: upd_tb_simps(1)) simp
qed

section \<open>A new block\<close>

lemma make_tb_elim:
  assumes "make_tb pc fa s = Inr (i, s')"
  obtains t where "i = nb_tbs s" "nb_tbs s < code_gen_max_blocks" "tb_pc t = pc"
    "t = (init_tb fa (tbs s i\<lparr>tb_pc := pc\<rparr>))\<lparr>phys_hash_next := tb_phys_hash s (tb_phys_hash_func pc)\<rparr>"
    "s' = s\<lparr>tbs := (tbs s)(i := t), nb_tbs := Suc (nb_tbs s),
        tb_phys_hash := (tb_phys_hash s)(tb_phys_hash_func pc := Some i),
        tb_jmp_cache := (tb_jmp_cache s)(tb_jmp_cache_hash_func pc := Some i)\<rparr>"
  using assms
  by (auto simp: init_tb_def make_tb_def tb_alloc_def tb_link_page_def upd_tb_def Let_def split: if_splits)

lemma tb_of_new:
  assumes "tbs s' = (tbs s)(nb_tbs s := t)" "nb_tbs s' = Suc (nb_tbs s)" "tb_pc t = pc"
  shows "tb_of s' = (tb_of s)(pc \<mapsto> nb_tbs s)"
  using assms by (auto simp: tb_of_def fun_eq_iff intro!: find_cong')

lemma bucket_new:
  assumes "tbs s' = (tbs s)(nb_tbs s := t)" "nb_tbs s' = Suc (nb_tbs s)" "tb_pc t = pc"
  shows "bucket s' h = (if tb_phys_hash_func pc = h then [nb_tbs s] else []) @ bucket s h"
proof -
  have "filter (\<lambda>i. tb_phys_hash_func (tb_pc (tbs s' i)) = h) (rev [0..<nb_tbs s]) = bucket s h"
    unfolding bucket_def using assms(1) by (intro filter_cong) auto
  then show ?thesis using assms by (simp add: bucket_def)
qed

lemma make_tb_inv:
  assumes "tb_inv s" and "make_tb pc fa s = Inr (i, s')"
  shows "tb_inv s'"
  using assms(2)
proof (rule make_tb_elim)
  fix t
  assume i: "i = nb_tbs s" and pc: "tb_pc t = pc"
    and t: "t = (init_tb fa (tbs s i\<lparr>tb_pc := pc\<rparr>))\<lparr>phys_hash_next := tb_phys_hash s (tb_phys_hash_func pc)\<rparr>"
    and s': "s' = s\<lparr>tbs := (tbs s)(i := t), nb_tbs := Suc (nb_tbs s),
        tb_phys_hash := (tb_phys_hash s)(tb_phys_hash_func pc := Some i),
        tb_jmp_cache := (tb_jmp_cache s)(tb_jmp_cache_hash_func pc := Some i)\<rparr>"
  have new: "tbs s' = (tbs s)(nb_tbs s := t)" "nb_tbs s' = Suc (nb_tbs s)" "tb_pc t = pc"
    using pc by (simp_all add: s' i)
  have old: "chain (tbs s') p (bucket s h) = chain (tbs s) p (bucket s h)" for p h
    by (rule chain_cong) (auto simp: s' i bucket_def)
  have "chain (tbs s') (tb_phys_hash s' h) (bucket s' h)" for h
  proof -
    have inv: "chain (tbs s) (tb_phys_hash s h) (bucket s h)" using assms(1) by (simp add: tb_inv_def)
    have "tb_phys_hash s' h = (if tb_phys_hash_func pc = h then Some (nb_tbs s) else tb_phys_hash s h)"
      "phys_hash_next (tbs s' (nb_tbs s)) = tb_phys_hash s (tb_phys_hash_func pc)"
      by (simp_all add: s' i t)
    then show ?thesis using inv old by (auto simp only: bucket_new [OF new] append.simps chain.simps if_True if_False split: if_splits)
  qed
  moreover have "tb_tag t = 0" "jmp_from_index t = 0" "tb_shape t"
    using assms(1) by (auto simp: t init_tb_def tb_shape_def tb_inv_def)
  moreover have "tb_of s' (tb_pc (tbs s' j)) = Some j \<and> tb_jmp_cache_hash_func (tb_pc (tbs s' j)) = h"
    if "tb_jmp_cache s' h = Some j" for h j
  proof (cases "j = i")
    case True
    have "tb_jmp_cache s h = Some i \<Longrightarrow> False"
      using assms(1) tb_of_SomeD [of s _ i] unfolding tb_inv_def i by blast
    with True that have "h = tb_jmp_cache_hash_func pc" by (auto simp: s' split: if_splits)
    with True show ?thesis by (simp add: tb_of_new [OF new] new i)
  next
    case False
    with that have "h \<noteq> tb_jmp_cache_hash_func pc" "tb_jmp_cache s h = Some j"
      by (auto simp: s' split: if_splits)
    with assms(1) False show ?thesis
      by (auto simp: tb_of_new [OF new] new i tb_inv_def)
  qed
  ultimately show ?thesis
    using assms(1) unfolding tb_inv_def by (auto simp: new less_Suc_eq)
qed

lemma make_tb_tb_of:
  assumes "make_tb pc fa s = Inr (i, s')"
  shows "tb_of s' = (tb_of s)(pc \<mapsto> i)"
  using assms
proof (rule make_tb_elim)
  fix t
  assume "i = nb_tbs s" "tb_pc t = pc" and s': "s' = s\<lparr>tbs := (tbs s)(i := t), nb_tbs := Suc (nb_tbs s),
        tb_phys_hash := (tb_phys_hash s)(tb_phys_hash_func pc := Some i),
        tb_jmp_cache := (tb_jmp_cache s)(tb_jmp_cache_hash_func pc := Some i)\<rparr>"
  then show ?thesis using tb_of_new [of s' s t pc] by simp
qed

lemma make_tb_new:
  assumes "make_tb pc fa s = Inr (i, s')"
  shows "i = nb_tbs s" "nb_tbs s' = Suc i" "j \<noteq> i \<Longrightarrow> tbs s' j = tbs s j"
    "tb_pc (tbs s' i) = pc" "func_addr (tbs s' i) = fa" "tc_ptr (tbs s' i) = NOT_TRANS_YET"
    "patch_num (tbs s' i) = 0" "tb_state.more s' = tb_state.more s"
    "code_gen_buffer s' = code_gen_buffer s" "code_gen_ptr s' = code_gen_ptr s"
  using assms
  by (auto simp: init_tb_def make_tb_def tb_alloc_def tb_link_page_def upd_tb_def Let_def split: if_splits)

text \<open>Recording a jump source keeps the directory; the ring index never leaves the array.\<close>

lemma unat_Suc_less:
  fixes w :: u32
  assumes "unat w < 16"
  shows "unat (w + 1) = Suc (unat w)"
proof -
  have "w + 1 \<noteq> 0"
  proof
    assume "w + 1 = 0"
    then have "unat w = unat (- 1 :: u32)" by (metis add_eq_0_iff2)
    with assms show False by (simp add: unsigned_minus_1_eq_mask mask_eq_exp_minus_1)
  qed
  from unat_minus_Suc [OF this] show ?thesis by simp
qed

lemma tb_add_jmp_from_ok:
  assumes "tb_inv s" and "j < nb_tbs s"
  shows "\<exists>f. tb_add_jmp_from i j n s = Inr (upd_tb j f s) \<and> keeps_key f \<and> tb_inv (upd_tb j f s) \<and>
     (\<forall>t. tc_ptr (f t) = tc_ptr t \<and> patch_num (f t) = patch_num t \<and>
        tb_jmp_offset (f t) = tb_jmp_offset t \<and> func_addr (f t) = func_addr t)"
proof -
  let ?t = "tbs s j" and ?k = "unat (jmp_from_index (tbs s j))"
  let ?idx = "if jmp_from_index ?t + 1 = of_nat TB_FROM_MAX then 0 else jmp_from_index ?t + 1"
  let ?f = "\<lambda>t. t\<lparr>jmp_from := (jmp_from ?t)[?k := Some i], jmp_from_num := (jmp_from_num ?t)[?k := of_nat n],
     jmp_from_index := ?idx\<rparr>"
  have k: "?k < 16" and shape: "tb_shape ?t" using assms by (auto simp: tb_inv_def)
  have eq: "tb_add_jmp_from i j n s = Inr (upd_tb j ?f s)"
    using k shape by (simp add: tb_add_jmp_from_def set_slot_def tb_shape_def Let_def)
  have "keeps_key ?f" by (simp add: keeps_key_def)
  moreover have "unat ?idx < 16"
  proof (cases "?k = 15")
    case True
    then have "jmp_from_index ?t + 1 = 16" 
      using unat_Suc_less [OF k] by (simp add: word_unat_eq_iff)
    then show ?thesis by simp
  next
    case False
    then show ?thesis using k unat_Suc_less [OF k] by simp
  qed
  ultimately have "tb_inv (upd_tb j ?f s)"
    using assms(1) shape by (intro tb_inv_upd_tb) (simp_all add: tb_shape_def)
  with eq \<open>keeps_key ?f\<close> show ?thesis by (intro exI [of _ ?f]) simp
qed

section \<open>The directory as an interface\<close>

text \<open>
  What the translator and the execution loop rely on: a lookup returns the block of an address and
  changes nothing else, and a new block becomes the block of its address and of no other.
\<close>

locale tb_directory =
  fixes block :: "'s \<Rightarrow> u32 \<Rightarrow> nat option"
    and lookup :: "u32 \<Rightarrow> 's \<Rightarrow> (nat option \<times> 's) outcome"
    and add :: "u32 \<Rightarrow> u32 \<Rightarrow> 's \<Rightarrow> (nat \<times> 's) outcome"
    and invar :: "'s \<Rightarrow> bool"
  assumes lookup_block: "invar s \<Longrightarrow> \<exists>s'. lookup pc s = Inr (block s pc, s') \<and> invar s' \<and> block s' = block s"
    and add_block: "invar s \<Longrightarrow> add pc fa s = Inr (i, s') \<Longrightarrow> invar s' \<and> block s' = (block s)(pc \<mapsto> i)"
begin

text \<open>The lookup-or-create step of the loop, of \<open>trans_next\<close> and of \<open>lazy_patch\<close>.\<close>

definition ensure :: "u32 \<Rightarrow> u32 \<Rightarrow> 's \<Rightarrow> (nat \<times> 's) outcome" where
  "ensure pc fa s = and_then (lookup pc s) (\<lambda>(r, s). case r of Some i \<Rightarrow> Inr (i, s) | None \<Rightarrow> add pc fa s)"

lemma lookup_added:
  assumes "invar s" and "add pc fa s = Inr (i, s')"
  shows "\<exists>s''. lookup pc s' = Inr (Some i, s'') \<and> invar s''"
    and "pc' \<noteq> pc \<Longrightarrow> \<exists>s''. lookup pc' s' = Inr (block s pc', s'') \<and> invar s''"
proof -
  from add_block [OF assms] have s': "invar s'" "block s' = (block s)(pc \<mapsto> i)" by auto
  from lookup_block [OF s'(1), of pc] s'(2)
  show "\<exists>s''. lookup pc s' = Inr (Some i, s'') \<and> invar s''" by auto
  from lookup_block [OF s'(1), of pc'] s'(2)
  show "pc' \<noteq> pc \<Longrightarrow> \<exists>s''. lookup pc' s' = Inr (block s pc', s'') \<and> invar s''" by auto
qed

lemma ensure_block:
  assumes "invar s" and "ensure pc fa s = Inr (i, s')"
  shows "invar s'" and "block s' pc = Some i" and "block s \<subseteq>\<^sub>m block s'"
proof -
  from lookup_block [OF assms(1), of pc] obtain s1 where
    s1: "lookup pc s = Inr (block s pc, s1)" "invar s1" "block s1 = block s" by blast
  show "invar s'" "block s' pc = Some i" "block s \<subseteq>\<^sub>m block s'"
    using assms(2) s1 add_block [OF s1(2), of pc fa i s']
    by (auto simp: ensure_def map_le_def split: option.splits)
qed

lemma ensure_idem:
  assumes "invar s" and "ensure pc fa s = Inr (i, s')"
  shows "\<exists>s''. ensure pc fa' s' = Inr (i, s'')"
  using lookup_block [OF ensure_block(1) [OF assms], of pc] ensure_block(2) [OF assms]
  by (auto simp: ensure_def)

end

interpretation dir: tb_directory tb_of "\<lambda>pc. tb_find_fast pc NORMAL_TB_TAG" make_tb tb_inv
proof unfold_locales
  fix s :: "'a tb_state_scheme" and pc
  assume "tb_inv s"
  then obtain c where "tb_find_fast pc 0 s = Inr (tb_of s pc, s\<lparr>tb_jmp_cache := c\<rparr>)"
    and "tb_inv (s\<lparr>tb_jmp_cache := c\<rparr>)" by (rule tb_find_fast_spec)
  then show "\<exists>s'. tb_find_fast pc 0 s = Inr (tb_of s pc, s') \<and> tb_inv s' \<and> tb_of s' = tb_of s"
    by (intro exI [of _ "s\<lparr>tb_jmp_cache := c\<rparr>"]) simp
qed (simp add: make_tb_inv make_tb_tb_of)

section \<open>Reachable directories\<close>

definition tb_init :: "'a tb_state_scheme \<Rightarrow> bool" where
  "tb_init s \<longleftrightarrow> nb_tbs s = 0 \<and> (\<forall>h. tb_phys_hash s h = None) \<and> (\<forall>h. tb_jmp_cache s h = None) \<and>
     (\<forall>i. tb_shape (tbs s i))"

text \<open>What the program does to the directory, in any order.\<close>

inductive dir_step :: "'a tb_state_scheme \<Rightarrow> 'a tb_state_scheme \<Rightarrow> bool" where
  find: "tb_find_fast pc NORMAL_TB_TAG s = Inr (r, s') \<Longrightarrow> dir_step s s'"
| make: "make_tb pc fa s = Inr (i, s') \<Longrightarrow> dir_step s s'"
| from_edge: "j < nb_tbs s \<Longrightarrow> tb_add_jmp_from i j n s = Inr s' \<Longrightarrow> dir_step s s'"
| translated: "i < nb_tbs s \<Longrightarrow> dir_step s (upd_tb i (tc_ptr_update (\<lambda>_. p)) s)"
| code_pointer: "dir_step s (s\<lparr>code_gen_ptr := p\<rparr>)"

inductive dir_reachable :: "'a tb_state_scheme \<Rightarrow> bool" where
  start: "tb_init s \<Longrightarrow> dir_reachable s"
| step: "dir_reachable s \<Longrightarrow> dir_step s s' \<Longrightarrow> dir_reachable s'"

lemma tb_init_inv: "tb_init s \<Longrightarrow> tb_inv s"
  by (simp add: tb_init_def tb_inv_def bucket_def)

lemma tb_inv_code_gen_ptr: "tb_inv s \<Longrightarrow> tb_inv (s\<lparr>code_gen_ptr := p\<rparr>)"
  by (simp add: tb_inv_def bucket_def)

lemma dir_step_inv: "dir_step s s' \<Longrightarrow> tb_inv s \<Longrightarrow> tb_inv s'"
proof (induction rule: dir_step.induct)
  case (find pc s r s')
  then show ?case using dir.lookup_block [of s pc] by auto
next
  case (make pc fa s i s')
  then show ?case by (simp add: make_tb_inv)
next
  case (from_edge j s i n s')
  then show ?case using tb_add_jmp_from_ok [of s j i n] by auto
next
  case (translated i s p)
  then show ?case by (intro tb_inv_upd_tb) (auto simp: keeps_key_def tb_inv_def tb_shape_def)
qed (rule tb_inv_code_gen_ptr)

lemma dir_reachable_inv: "dir_reachable s \<Longrightarrow> tb_inv s"
  by (induction rule: dir_reachable.induct) (auto intro: tb_init_inv dir_step_inv)

section \<open>Properties of the directory\<close>

definition blank_tb :: TranslationBlock where
  "blank_tb = \<lparr>tb_pc = 0, func_addr = 0, tb_tag = 0, hcode_size = 0, insn_count = 0,
     ind_miss_count = 0, ind_replace_count = 0, tc_ptr = 0, phys_hash_next = None, patch_num = 0,
     tb_jmp_offset = replicate 8 0, jmp_from = replicate 16 None, jmp_from_num = replicate 16 0,
     jmp_from_index = 0, tb_type = 0, jind_src_addr = replicate 3 0, jind_dest_addr = replicate 3 0,
     mru_src = 0, mru_dest = 0, jmp_ind = 0, jmp_ind_index = 0, retrans_patch_ptr = 0,
     ind_enter_sieve = 0, retransed = False, ind_tgt = 0\<rparr>"

definition empty_dir :: tb_state where
  "empty_dir = \<lparr>tbs = (\<lambda>_. blank_tb), nb_tbs = 0, tb_phys_hash = (\<lambda>_. None),
     tb_jmp_cache = (\<lambda>_. None), code_gen_buffer = 0x9000000, code_gen_ptr = 0x9000000\<rparr>"

lemma empty_dir_init [simp]: "tb_init empty_dir"
  by (simp add: tb_init_def empty_dir_def blank_tb_def tb_shape_def)

lemma empty_dir_make: "\<exists>s'. make_tb 0x8048000 0 empty_dir = Inr (0, s')"
  by (simp add: make_tb_def tb_alloc_def empty_dir_def code_gen_max_blocks_def
      code_gen_buffer_max_size_def Let_def)

text \<open>
  C21: in every state the program reaches, a lookup returns (the hash chain it walks is finite), its
  answer is the newest block made for that address or none, and it changes nothing but the jump
  cache, so the cache in front of the hash table is transparent.
\<close>

theorem tb_find_fast_newest:
  assumes "dir_reachable s"
  shows "\<exists>c. tb_find_fast pc NORMAL_TB_TAG s = Inr (tb_of s pc, s\<lparr>tb_jmp_cache := c\<rparr>)"
  using dir_reachable_inv [OF assms] by (rule tb_find_fast_spec) blast

theorem tb_find_fast_newest_witness:
  "\<exists>c. tb_find_fast 0x8048000 NORMAL_TB_TAG empty_dir = Inr (tb_of empty_dir 0x8048000, empty_dir\<lparr>tb_jmp_cache := c\<rparr>)"
  using tb_find_fast_newest [OF dir_reachable.start [OF empty_dir_init], of "0x8048000"] .

text \<open>
  A block that was made is found: the lookup of its address returns it, and lookups of all other
  addresses return what they returned before, in every reachable state.
\<close>

theorem make_tb_found:
  assumes "dir_reachable s" and "make_tb pc fa s = Inr (i, s')"
  shows "\<exists>s1. tb_find_fast pc' NORMAL_TB_TAG s' = Inr (if pc' = pc then Some i else tb_of s pc', s1)"
  using dir.lookup_added(1) [OF dir_reachable_inv [OF assms(1)] assms(2)]
    dir.lookup_added(2) [OF dir_reachable_inv [OF assms(1)] assms(2), of pc']
  by (cases "pc' = pc") auto

theorem make_tb_found_witness:
  "\<exists>s' s1. make_tb 0x8048000 0 empty_dir = Inr (0, s') \<and>
     tb_find_fast 0x8048000 NORMAL_TB_TAG s' = Inr (Some 0, s1)"
proof -
  from empty_dir_make obtain s' where m: "make_tb 0x8048000 0 empty_dir = Inr (0, s')" ..
  from make_tb_found [OF dir_reachable.start [OF empty_dir_init] m, of "0x8048000"] m
  show ?thesis by auto
qed

end
