(* ===== verification/Emitter.thy ===== *)
theory Emitter
  imports Decoder TB_Cache
begin

text \<open>
  The code emitter of \<^verbatim>\<open>src/target-i386/translate.c\<close> and \<^verbatim>\<open>cemit-inline.c\<close>, in the configuration
  of \<^verbatim>\<open>opt-def.h\<close> (\<^verbatim>\<open>SIEVE_OPT\<close>, \<^verbatim>\<open>SEP_SIEVE\<close>, \<^verbatim>\<open>J_IND_OPT\<close>, \<^verbatim>\<open>CALL_IND_OPT\<close>, \<^verbatim>\<open>RET_CACHE\<close>,
  \<^verbatim>\<open>TRANS_NEXT\<close>).  Emitted code is bytes in the one memory that also holds the guest's code; a
  run of \<^verbatim>\<open>code_emit\<close> macros is one \<open>emit\<close> of the bytes they store.  The members of \<^verbatim>\<open>env\<close>
  that emitted code reads or writes live in that memory, at their offsets in the struct.
\<close>

section \<open>Addresses\<close>

record layout =
  l_env :: u32
  l_tbs :: u32
  l_sieve_buffer :: u32
  l_prologue :: u32
  l_exit_stub :: u32

text \<open>Offsets of the members of \<^verbatim>\<open>CPUX86State\<close> on the 32-bit host.\<close>

definition a_regs :: "layout \<Rightarrow> u32" where "a_regs L = l_env L"
definition a_eip :: "layout \<Rightarrow> u32" where "a_eip L = l_env L + 32"
definition a_target_tc :: "layout \<Rightarrow> u32" where "a_target_tc L = l_env L + 44"
definition a_esp_tmp :: "layout \<Rightarrow> u32" where "a_esp_tmp L = l_env L + 48"
definition a_ret_tb :: "layout \<Rightarrow> u32" where "a_ret_tb L = l_env L + 56"
definition a_patch_num :: "layout \<Rightarrow> u32" where "a_patch_num L = l_env L + 64"
definition a_ret_hash_table :: "layout \<Rightarrow> u32" where "a_ret_hash_table L = l_env L + 72"
definition a_sieve_hashtable :: "layout \<Rightarrow> u32" where "a_sieve_hashtable L = l_env L + 267344"
definition a_ind_dest :: "layout \<Rightarrow> u32" where "a_ind_dest L = l_env L + 1840208"
definition a_ind_type :: "layout \<Rightarrow> u32" where "a_ind_type L = l_env L + 1840212"

text \<open>\<^verbatim>\<open>&tbs[i]\<close>: a block takes 256 bytes.\<close>

definition tb_addr :: "layout \<Rightarrow> nat \<Rightarrow> u32" where
  "tb_addr L i = l_tbs L + 256 * of_nat i"

definition RET_HASH_FUNC :: "u32 \<Rightarrow> u32 \<Rightarrow> u32" where
  "RET_HASH_FUNC b i = b + (i AND 0xffff) * 4"

definition SIEVE_HASH :: "u32 \<Rightarrow> u32 \<Rightarrow> u32" where
  "SIEVE_HASH b i = b + (i AND push_bit 3 0xffff)"

abbreviation (input) NOT_IND :: u32 where "NOT_IND \<equiv> 0"
abbreviation (input) IND_TYPE_CALL :: u32 where "IND_TYPE_CALL \<equiv> 1"
abbreviation (input) IND_TYPE_JMP :: u32 where "IND_TYPE_JMP \<equiv> 2"
abbreviation (input) IND_TYPE_RET :: u32 where "IND_TYPE_RET \<equiv> 3"
abbreviation (input) IND_TYPE_RECUR :: u32 where "IND_TYPE_RECUR \<equiv> 4"
abbreviation (input) IND_TYPE_CALL_SP :: u32 where "IND_TYPE_CALL_SP \<equiv> 5"
abbreviation (input) IND_TYPE_JMP_SP :: u32 where "IND_TYPE_JMP_SP \<equiv> 6"
abbreviation (input) IND_TYPE_RET_SP :: u32 where "IND_TYPE_RET_SP \<equiv> 8"
abbreviation (input) TYPE_SYSCALL :: u32 where "TYPE_SYSCALL \<equiv> 9"

abbreviation (input) NEED_PATCH_32 :: u32 where "NEED_PATCH_32 \<equiv> 0x5a5a"
abbreviation (input) NEED_PATCH_8 :: u8 where "NEED_PATCH_8 \<equiv> 0x5a"
abbreviation (input) MAX_INSNS :: nat where "MAX_INSNS \<equiv> 8192"
abbreviation (input) PATCH_ARRAY_SIZE :: nat where "PATCH_ARRAY_SIZE \<equiv> 256"
abbreviation (input) STB_MAX :: nat where "STB_MAX \<equiv> 512000"
abbreviation (input) TB_FOR_SIEVE_MAX_SIZE :: nat where "TB_FOR_SIEVE_MAX_SIZE \<equiv> 256"
abbreviation (input) DEFAULT_SIEVE_BUFFER_SIZE :: u32 where
  "DEFAULT_SIEVE_BUFFER_SIZE \<equiv> 64 * 1024 * 1024"
abbreviation (input) NR_exit_group :: u32 where "NR_exit_group \<equiv> 252"

section \<open>The translator's state\<close>

record patch_entry =
  patch_at :: u32
  patch_to :: u32
  patch_tb :: nat
  patch_func_addr :: u32
  patch_tb_tag :: u32

record SuperTransBlock =
  stb_pc_start :: u32
  stb_pc_end :: u32
  stb_tc_ptr :: u32

text \<open>
  The directory, memory, the two emission pointers and the patch list of \<^verbatim>\<open>env\<close> (\<^verbatim>\<open>patch_count\<close> is
  its length), the globals \<^verbatim>\<open>cur_tb\<close> and \<^verbatim>\<open>sieve_stub\<close>, and \<^verbatim>\<open>code_gen_context\<close>.
\<close>

record trans_state = tb_state +
  mem :: memory
  code_ptr :: u32
  sieve_code_ptr :: u32
  patch_array :: "patch_entry list"
  cur_tb :: nat
  sieve_stub :: u32
  tb_ret_addr :: u32
  pc_ptr :: u32
  pc_start :: u32
  insn_len :: u32
  stbs :: "nat \<Rightarrow> SuperTransBlock"
  stb_count :: nat
  jmp_count :: u32
  jcond_count :: u32
  jothercond_count :: u32
  call_count :: u32
  call_ind_count :: u32
  ret_count :: u32
  retIw_count :: u32
  j_ind_count :: u32
  find_dest_count :: u32
  s_code_size :: u32
  sieve_stat :: "u32 \<Rightarrow> u32"
  end_by_transnext :: u32

section \<open>Emission\<close>

definition emit :: "u8 list \<Rightarrow> trans_state \<Rightarrow> trans_state" where
  "emit bs s = s\<lparr>mem := write_bytes (mem s) (code_ptr s) bs, code_ptr := code_ptr s + of_nat (length bs)\<rparr>"

definition semit :: "u8 list \<Rightarrow> trans_state \<Rightarrow> trans_state" where
  "semit bs s = s\<lparr>mem := write_bytes (mem s) (sieve_code_ptr s) bs,
     sieve_code_ptr := sieve_code_ptr s + of_nat (length bs)\<rparr>"

text \<open>\<^verbatim>\<open>jmp_offset = target - code_ptr - 4; code_emit32 (code_ptr, jmp_offset)\<close>.\<close>

definition emit_rel32 :: "u32 \<Rightarrow> trans_state \<Rightarrow> trans_state" where
  "emit_rel32 target s = emit (bytes32 (target - code_ptr s - 4)) s"

definition semit_rel32 :: "u32 \<Rightarrow> trans_state \<Rightarrow> trans_state" where
  "semit_rel32 target s = semit (bytes32 (target - sieve_code_ptr s - 4)) s"

definition poke32 :: "u32 \<Rightarrow> u32 \<Rightarrow> trans_state \<Rightarrow> trans_state" where
  "poke32 p v s = s\<lparr>mem := st32 (mem s) p v\<rparr>"

definition poke8 :: "u32 \<Rightarrow> u8 \<Rightarrow> trans_state \<Rightarrow> trans_state" where
  "poke8 p v s = s\<lparr>mem := (mem s)(p := v)\<rparr>"

text \<open>The emitters of \<^verbatim>\<open>cemit-inline.c\<close>.\<close>

definition MODRM :: "u8 \<Rightarrow> u8 \<Rightarrow> u8 \<Rightarrow> u8" where
  "MODRM md reg rm = push_bit 6 md OR push_bit 3 reg OR rm"

definition cemit_mov_IM_G :: "u32 \<Rightarrow> u8 \<Rightarrow> trans_state \<Rightarrow> trans_state" where
  "cemit_mov_IM_G addr reg = emit ([0x8b, MODRM 0 reg 5] @ bytes32 addr)"

definition cemit_mov_G_IM :: "u8 \<Rightarrow> u32 \<Rightarrow> trans_state \<Rightarrow> trans_state" where
  "cemit_mov_G_IM reg addr = emit ([0x89, MODRM 0 reg 5] @ bytes32 addr)"

definition cemit_mov_I_GM :: "u32 \<Rightarrow> u8 \<Rightarrow> trans_state \<Rightarrow> trans_state" where
  "cemit_mov_I_GM imm32 reg = emit ([0xc7, MODRM 0 0 reg] @ bytes32 imm32)"

definition cemit_push_I :: "u32 \<Rightarrow> trans_state \<Rightarrow> trans_state" where
  "cemit_push_I imm32 = emit (0x68 # bytes32 imm32)"

definition cemit_lea_reg :: "u8 \<Rightarrow> u32 \<Rightarrow> trans_state \<Rightarrow> trans_state" where
  "cemit_lea_reg reg offset s =
     (let modrm = (if offset <s 0 then MODRM 1 reg reg else MODRM 2 reg reg);
          s = emit (if reg = 4 then [0x8d, modrm, 0x24] else [0x8d, modrm]) s
      in if offset <s 0 then emit [ucast offset] s else emit (bytes32 offset) s)"

definition cemit_incl_mem :: "u32 \<Rightarrow> trans_state \<Rightarrow> trans_state" where
  "cemit_incl_mem addr = emit ([0x9c, 0xff, 0x05] @ bytes32 addr @ [0x9d])"

definition cemit_incl_mem64 :: "u32 \<Rightarrow> trans_state \<Rightarrow> trans_state" where
  "cemit_incl_mem64 addr = emit ([0x9c, 0x83, 0x05] @ bytes32 addr @ [1, 0x83, 0x15] @
     bytes32 (addr + 4) @ [0, 0x9d])"

definition cemit_add_mem64 :: "u32 \<Rightarrow> u32 \<Rightarrow> trans_state \<Rightarrow> trans_state" where
  "cemit_add_mem64 addr val = emit ([0x9c, 0x81, 0x05] @ bytes32 addr @ bytes32 val @ [0x83, 0x15] @
     bytes32 (addr + 4) @ [0, 0x9d])"

section \<open>Patches\<close>

definition note_patch ::
    "layout \<Rightarrow> u32 \<Rightarrow> u32 \<Rightarrow> nat \<Rightarrow> u32 \<Rightarrow> u32 \<Rightarrow> trans_state \<Rightarrow> trans_state outcome" where
  "note_patch L at to tb fa tag s =
     (if PATCH_ARRAY_SIZE \<le> length (patch_array s) then Inl Patch_Array_Overflow
      else if of_nat PATCH_MAX \<le> ld32 (mem s) (a_patch_num L) then Inl Patch_Num_Overflow
      else Inr (upd_tb tb (\<lambda>t. t\<lparr>patch_num := patch_num t + 1\<rparr>)
        (s\<lparr>patch_array := patch_array s @ [\<lparr>patch_at = at, patch_to = to, patch_tb = tb,
           patch_func_addr = fa, patch_tb_tag = tag\<rparr>]\<rparr>)))"

text \<open>\<^verbatim>\<open>tb->tb_jmp_offset[tb->patch_num] = v\<close>\<close>

definition set_jmp_offset :: "nat \<Rightarrow> u32 \<Rightarrow> trans_state \<Rightarrow> trans_state outcome" where
  "set_jmp_offset tb v s =
     and_then (set_slot (tb_jmp_offset (tbs s tb)) (unat (patch_num (tbs s tb))) (ucast v))
       (\<lambda>os. Inr (upd_tb tb (tb_jmp_offset_update (\<lambda>_. os)) s))"

text \<open>The exit stub of a branch whose target has no translation yet.\<close>

definition emit_stub :: "layout \<Rightarrow> nat \<Rightarrow> u32 \<Rightarrow> u32 \<Rightarrow> trans_state \<Rightarrow> trans_state" where
  "emit_stub L tb n to s =
     semit_rel32 (tb_ret_addr s) (semit (
       [0xc7, 0x05] @ bytes32 (a_ret_tb L) @ bytes32 (tb_addr L tb) @
       [0xc7, 0x05] @ bytes32 (a_patch_num L) @ bytes32 n @
       [0xc7, 0x05] @ bytes32 (a_eip L) @ bytes32 to @ [0xe9]) s)"

definition lazy_patch_found :: "patch_entry \<Rightarrow> nat \<Rightarrow> trans_state \<Rightarrow> trans_state outcome" where
  "lazy_patch_found p dest s =
     (let s = poke32 (patch_at p) (tc_ptr (tbs s dest) - patch_at p - 4)
                (s\<lparr>find_dest_count := find_dest_count s + 1\<rparr>);
          s = upd_tb (patch_tb p) (\<lambda>t. t\<lparr>patch_num := patch_num t - 1\<rparr>) (s\<lparr>cur_tb := patch_tb p\<rparr>)
      in and_then (set_jmp_offset (patch_tb p) (patch_at p - tc_ptr (tbs s (patch_tb p))) s)
           (\<lambda>s. tb_add_jmp_from (patch_tb p) dest (unat (patch_num (tbs s (patch_tb p)))) s))"

definition lazy_patch_stub :: "layout \<Rightarrow> patch_entry \<Rightarrow> trans_state \<Rightarrow> trans_state outcome" where
  "lazy_patch_stub L p s =
     (let s = poke32 (patch_at p) (sieve_code_ptr s - patch_at p - 4) s;
          s = upd_tb (patch_tb p) (\<lambda>t. t\<lparr>patch_num := patch_num t - 1\<rparr>) (s\<lparr>cur_tb := patch_tb p\<rparr>)
      in and_then (set_jmp_offset (patch_tb p) (patch_at p - tc_ptr (tbs s (patch_tb p))) s)
           (\<lambda>s. Inr (emit_stub L (patch_tb p) (patch_num (tbs s (patch_tb p))) (patch_to p) s)))"

definition lazy_patch_one :: "layout \<Rightarrow> patch_entry \<Rightarrow> trans_state \<Rightarrow> trans_state outcome" where
  "lazy_patch_one L p s =
     and_then (tb_find_fast (patch_to p) (patch_tb_tag p) s) (\<lambda>(dest, s).
       case dest of
         Some d \<Rightarrow> if tc_ptr (tbs s d) \<noteq> NOT_TRANS_YET then lazy_patch_found p d s
                   else lazy_patch_stub L p s
       | None \<Rightarrow> and_then (make_tb (patch_to p) (patch_func_addr p) s) (\<lambda>(_, s). lazy_patch_stub L p s))"

primrec lazy_patch_list :: "layout \<Rightarrow> patch_entry list \<Rightarrow> trans_state \<Rightarrow> trans_state outcome" where
  "lazy_patch_list L [] s = Inr s"
| "lazy_patch_list L (p # ps) s = and_then (lazy_patch_one L p s) (lazy_patch_list L ps)"

definition lazy_patch :: "layout \<Rightarrow> trans_state \<Rightarrow> trans_state outcome" where
  "lazy_patch L s = lazy_patch_list L (patch_array s) s"

section \<open>Continuing after a branch\<close>

text \<open>\<^verbatim>\<open>always_new_tb\<close> is set to true on entry.\<close>

definition trans_next :: "decode_t \<Rightarrow> trans_state \<Rightarrow> (bool \<times> trans_state) outcome" where
  "trans_next ds s =
     (if \<not> flag_set (ds_opstate ds) OPSTATE_DATA32 then Inl Data16_Branch
      else and_then (tb_find_fast (pc_ptr s) NORMAL_TB_TAG s) (\<lambda>(tb, s).
        case tb of
          Some i \<Rightarrow>
            if tc_ptr (tbs s i) \<noteq> NOT_TRANS_YET
            then (let s = emit_rel32 (tc_ptr (tbs s i)) (emit [0xe9] s);
                      s = s\<lparr>end_by_transnext := end_by_transnext s + 1\<rparr>
                  in and_then (set_jmp_offset (cur_tb s) (code_ptr s - tc_ptr (tbs s (cur_tb s)) - 4) s)
                       (\<lambda>s. and_then (tb_add_jmp_from (cur_tb s) i (unat (patch_num (tbs s (cur_tb s)))) s)
                          (\<lambda>s. Inr (False, s))))
            else Inr (True, (upd_tb i (tc_ptr_update (\<lambda>_. code_ptr s)) s)\<lparr>cur_tb := i\<rparr>)
        | None \<Rightarrow>
            and_then (make_tb (pc_ptr s) (func_addr (tbs s (cur_tb s))) s)
              (\<lambda>(i, s). Inr (True, (upd_tb i (tc_ptr_update (\<lambda>_. code_ptr s)) s)\<lparr>cur_tb := i\<rparr>))))"

section \<open>Shared code sequences\<close>

text \<open>\<^verbatim>\<open>movl $v, (addr)\<close>, a pattern of the file.\<close>

definition emit_mov_mem :: "u32 \<Rightarrow> u32 \<Rightarrow> trans_state \<Rightarrow> trans_state" where
  "emit_mov_mem addr v = emit ([0xc7, 0x05] @ bytes32 addr @ bytes32 v)"

definition emit_push_rm :: "decode_t \<Rightarrow> trans_state \<Rightarrow> trans_state outcome" where
  "emit_push_rm ds s =
     (let modrm = (ds_modrm ds AND 0xc7) OR push_bit 3 6;
          s = (if flag_set (ds_flags ds) DSFL_GROUP2_PREFIX then emit [Group2_Prefix ds] s else s)
      in if flag_set (ds_flags ds) DSFL_GROUP4_PREFIX then Inl Addr16_Prefix
         else (let s = emit [0xff, modrm] s;
                   s = (if need_sib ds then emit [ds_sib ds] s else s)
               in Inr (if dispBytes ds = 1 then emit [ucast (ds_displacement ds)] s
                       else if dispBytes ds = 2 then emit (bytes16 (ucast (ds_displacement ds))) s
                       else if dispBytes ds = 4 then emit (bytes32 (ds_displacement ds)) s
                       else s)))"

definition cemit_sieve_nopush :: "trans_state \<Rightarrow> trans_state" where
  "cemit_sieve_nopush s = emit_rel32 (sieve_stub s) (emit [0xe9] s)"

definition cemit_sieve :: "trans_state \<Rightarrow> trans_state" where
  "cemit_sieve s = cemit_sieve_nopush (emit [0x51] s)"

definition cemit_exit_tb :: "layout \<Rightarrow> u32 \<Rightarrow> u32 \<Rightarrow> trans_state \<Rightarrow> trans_state" where
  "cemit_exit_tb L ret_tb ind_type s =
     (let s = emit ([0x59, 0x8f, 0x05] @ bytes32 (a_eip L)) s;
          s = (if ret_tb \<noteq> - 1 then emit_mov_mem (a_ret_tb L) ret_tb s else s);
          s = (if ind_type \<noteq> - 1 then emit_mov_mem (a_ind_type L) ind_type s else s)
      in emit_rel32 (tb_ret_addr s) (emit [0xe9] s))"

definition ind_patch_sieve :: "u32 \<Rightarrow> trans_state \<Rightarrow> trans_state" where
  "ind_patch_sieve enter_sieve_ptr s =
     (cemit_sieve_nopush (s\<lparr>code_ptr := enter_sieve_ptr\<rparr>))\<lparr>code_ptr := code_ptr s\<rparr>"

text \<open>
  The inline cache of an indirect branch: \<^verbatim>\<open>IND_SLOT_MAX\<close> probes, the exit, and one hit path per
  slot.  A probe returns the address of its \<^verbatim>\<open>jecxz\<close> displacement.
\<close>

definition ind_probe :: "nat \<Rightarrow> trans_state \<Rightarrow> u32 \<times> trans_state" where
  "ind_probe i s =
     (let s = emit [0x8b, 0x4c, 0x24, 4, 0x8d, 0x89] s;
          s = upd_tb (cur_tb s) (jind_src_addr_update (\<lambda>xs. xs[i := code_ptr s])) s;
          s = emit (bytes32 (- NEED_PATCH_32) @ [0xe3]) s
      in (code_ptr s, emit [NEED_PATCH_8] s))"

definition ind_hit :: "nat \<Rightarrow> u32 \<Rightarrow> trans_state \<Rightarrow> trans_state outcome" where
  "ind_hit i patch_addr s =
     (let jmp_offset = code_ptr s - patch_addr - 1 in
      if 0xff < jmp_offset then Inl Jmp_Offset_Exceeded
      else (let s = poke8 patch_addr (ucast jmp_offset) s;
                s = emit [0x59, 0x8d, 0x64, 0x24, 4, 0xe9] s;
                s = upd_tb (cur_tb s) (jind_dest_addr_update (\<lambda>xs. xs[i := code_ptr s])) s
            in Inr (emit (bytes32 NEED_PATCH_32) s)))"

definition cemit_ind_opt :: "layout \<Rightarrow> u32 \<Rightarrow> trans_state \<Rightarrow> trans_state outcome" where
  "cemit_ind_opt L m_ind_type s =
     (let s = emit [0x51] s;
          (p0, s) = ind_probe 0 s;
          (p1, s) = ind_probe 1 s;
          (p2, s) = ind_probe 2 s;
          s = upd_tb (cur_tb s) (ind_enter_sieve_update (\<lambda>_. code_ptr s)) s;
          s = cemit_exit_tb L (tb_addr L (cur_tb s)) m_ind_type s
      in and_then (ind_hit 0 p0 s) (\<lambda>s. and_then (ind_hit 1 p1 s) (ind_hit 2 p2)))"

definition cemit_rc_cmp :: "u32 \<Rightarrow> trans_state \<Rightarrow> trans_state" where
  "cemit_rc_cmp patch_addr_rc s =
     (let s = poke32 patch_addr_rc (code_ptr s) s;
          s = emit ([0x51, 0x8b, 0x4c, 0x24, 4, 0x8d, 0x89] @ bytes32 (- pc_ptr s) @ [0xe3]) s;
          patch = code_ptr s;
          s = cemit_sieve_nopush (emit [NEED_PATCH_8] s);
          s = poke8 patch (ucast (code_ptr s - patch - 1)) s
      in emit [0x59, 0x8d, 0x64, 0x24, 4] s)"

section \<open>The emitters of the opcode tables\<close>

definition guest_insn :: "trans_state \<Rightarrow> u8 list" where
  "guest_insn s = read_bytes (mem s) (pc_ptr s - insn_len s) (unat (insn_len s))"

definition emit_normal :: "trans_state \<Rightarrow> (bool \<times> trans_state) outcome" where
  "emit_normal s = Inr (True, emit (guest_insn s) s)"

definition emit_call_disp :: "layout \<Rightarrow> decode_t \<Rightarrow> trans_state \<Rightarrow> (bool \<times> trans_state) outcome" where
  "emit_call_disp L ds s =
     (let s = s\<lparr>call_count := call_count s + 1\<rparr>;
          jmp_target = pc_ptr s + ds_immediate ds;
          s = emit (0x68 # bytes32 (pc_ptr s)) s
      in if \<not> flag_set (ds_opstate ds) OPSTATE_DATA32 then Inl Data16_Branch
         else (let s = emit ([0xc7, 0x05] @ bytes32 (RET_HASH_FUNC (a_ret_hash_table L) jmp_target)) s;
                   patch_addr_rc = code_ptr s;
                   s = emit (bytes32 NEED_PATCH_32 @ 0xe9 # bytes32 0) s
               in and_then (note_patch L (code_ptr s - 4) jmp_target (cur_tb s) jmp_target NORMAL_TB_TAG s)
                    (\<lambda>s. trans_next ds (cemit_rc_cmp patch_addr_rc s))))"

definition dest_based_on_esp :: "decode_t \<Rightarrow> bool" where
  "dest_based_on_esp ds =
     (if modrm_reg (ds_modrm ds) = 4 then True
      else if modrm_mod (ds_modrm ds) = 3 then modrm_rm (ds_modrm ds) = 4
      else modrm_rm (ds_modrm ds) = 4 \<and> sib_base (ds_sib ds) = 4)"

definition emit_call_near_mem :: "layout \<Rightarrow> decode_t \<Rightarrow> trans_state \<Rightarrow> (bool \<times> trans_state) outcome" where
  "emit_call_near_mem L ds s =
     (let s = upd_tb (cur_tb s) (tb_type_update (\<lambda>_. IND_TYPE_CALL)) (s\<lparr>call_ind_count := call_ind_count s + 1\<rparr>)
      in and_then
        (if dest_based_on_esp ds
         then and_then (emit_push_rm ds s) (\<lambda>s.
           Inr (emit ([0xff, 0x34, 0x24, 0xc7, 0x44, 0x24, 0x4] @ bytes32 (pc_ptr s)) s))
         else emit_push_rm ds (emit (0x68 # bytes32 (pc_ptr s)) s))
        (\<lambda>s. let s = emit ([0x51, 0x8b, 0x4c, 0x24, 4, 0x81, 0xe1] @ bytes32 0xffff @
                     [0xc7, 0x04, 0x8d] @ bytes32 (a_ret_hash_table L)) s;
                 patch_addr_rc = code_ptr s;
                 s = emit (bytes32 NEED_PATCH_32 @ [0x59]) s
             in and_then (cemit_ind_opt L IND_TYPE_CALL s)
                  (\<lambda>s. trans_next ds (cemit_rc_cmp patch_addr_rc s))))"

definition emit_ret :: "layout \<Rightarrow> trans_state \<Rightarrow> (bool \<times> trans_state) outcome" where
  "emit_ret L s =
     (let s = s\<lparr>ret_count := ret_count s + 1\<rparr> in
      Inr (False, emit ([0xff, 0x25] @
        bytes32 (RET_HASH_FUNC (a_ret_hash_table L) (func_addr (tbs s (cur_tb s))))) s))"

definition emit_ret_Iw :: "layout \<Rightarrow> decode_t \<Rightarrow> trans_state \<Rightarrow> (bool \<times> trans_state) outcome" where
  "emit_ret_Iw L ds s =
     (let s = s\<lparr>retIw_count := retIw_count s + 1\<rparr>;
          s = emit ([0x8f, 0x84, 0x24] @ bytes32 (ds_imm16 ds - 4)) s;
          s = (if ds_imm16 ds - 4 \<noteq> 0 then emit ([0x8d, 0xa4, 0x24] @ bytes32 (ds_imm16 ds - 4)) s else s)
      in Inr (False, emit ([0xff, 0x25] @
        bytes32 (RET_HASH_FUNC (a_ret_hash_table L) (func_addr (tbs s (cur_tb s))))) s))"

definition emit_jcond :: "layout \<Rightarrow> decode_t \<Rightarrow> trans_state \<Rightarrow> (bool \<times> trans_state) outcome" where
  "emit_jcond L ds s =
     (let s = s\<lparr>jcond_count := jcond_count s + 1\<rparr>;
          jmp_target = pc_ptr s + ds_immediate ds;
          jmp_target = (if \<not> flag_set (ds_opstate ds) OPSTATE_DATA32 then jmp_target AND 0xffff else jmp_target);
          s = (if flag_set (ds_flags ds) DSFL_GROUP2_PREFIX then emit [Group2_Prefix ds] s else s);
          cond = (if mem s (ds_instr ds) = 0x0f then mem s (ds_instr ds + 1) else mem s (ds_instr ds));
          s = emit ([0x0f, (cond AND 0x0f) OR 0x80] @ bytes32 NEED_PATCH_32) s
      in and_then (note_patch L (code_ptr s - 4) jmp_target (cur_tb s) (func_addr (tbs s (cur_tb s))) NORMAL_TB_TAG s)
           (trans_next ds))"

definition emit_other_jcond :: "layout \<Rightarrow> decode_t \<Rightarrow> trans_state \<Rightarrow> (bool \<times> trans_state) outcome" where
  "emit_other_jcond L ds s =
     (let s = s\<lparr>jothercond_count := jothercond_count s + 1\<rparr>;
          s = (if flag_set (ds_flags ds) DSFL_GROUP2_PREFIX then emit [Group2_Prefix ds] s else s)
      in case ds_pEntry ds of
           None \<Rightarrow> Inl Null_Dereference
         | Some e \<Rightarrow>
             (let s = emit [ucast (op_index e), 0x02, 0xeb] s;
                  patch_addr_jother = code_ptr s;
                  s = emit [NEED_PATCH_8] s;
                  jmp_target = pc_ptr s + ds_immediate ds;
                  s = emit (0xe9 # bytes32 0) s
              in and_then (note_patch L (code_ptr s - 4) jmp_target (cur_tb s)
                             (func_addr (tbs s (cur_tb s))) NORMAL_TB_TAG s)
                   (\<lambda>s. trans_next ds (poke8 patch_addr_jother (ucast (code_ptr s - patch_addr_jother - 1)) s))))"

definition is_function_patten :: "memory \<Rightarrow> u32 \<Rightarrow> bool" where
  "is_function_patten m addr \<longleftrightarrow> m addr = 0x55 \<and> m (addr + 1) = 0x89 \<and> m (addr + 2) = 0xe5"

text \<open>Moving the return-cache entry of the current function to the entry of another one.\<close>

definition emit_rc_move :: "layout \<Rightarrow> u32 \<Rightarrow> u32 \<Rightarrow> trans_state \<Rightarrow> trans_state" where
  "emit_rc_move L src dst = emit ([0xff, 0x35] @ bytes32 (RET_HASH_FUNC (a_ret_hash_table L) src) @
     [0x8f, 0x05] @ bytes32 (RET_HASH_FUNC (a_ret_hash_table L) dst))"

definition emit_jmp :: "layout \<Rightarrow> decode_t \<Rightarrow> trans_state \<Rightarrow> (bool \<times> trans_state) outcome" where
  "emit_jmp L ds s =
     (let s = s\<lparr>jmp_count := jmp_count s + 1\<rparr>;
          jmp_target = pc_ptr s + ds_immediate ds;
          jmp_target = (if \<not> flag_set (ds_opstate ds) OPSTATE_DATA32 then jmp_target AND 0xffff else jmp_target)
      in and_then (tb_find_fast jmp_target NORMAL_TB_TAG s) (\<lambda>(tb, s).
         and_then
           (let cur = func_addr (tbs s (cur_tb s)) in
            case tb of
              Some i \<Rightarrow>
                Inr (if func_addr (tbs s i) \<noteq> 0 \<and> func_addr (tbs s i) \<noteq> cur
                     then emit_rc_move L cur (func_addr (tbs s i)) s else s)
            | None \<Rightarrow>
                if jmp_target < cur \<or> is_function_patten (mem s) jmp_target
                then and_then (make_tb jmp_target jmp_target s) (\<lambda>(_, s). Inr (emit_rc_move L cur jmp_target s))
                else Inr s)
           (\<lambda>s. let s = emit (0xe9 # bytes32 NEED_PATCH_32) s in
                and_then (note_patch L (code_ptr s - 4) jmp_target (cur_tb s)
                            (func_addr (tbs s (cur_tb s))) NORMAL_TB_TAG s) (\<lambda>s. Inr (False, s)))))"

definition emit_jmp_near_mem :: "layout \<Rightarrow> decode_t \<Rightarrow> trans_state \<Rightarrow> (bool \<times> trans_state) outcome" where
  "emit_jmp_near_mem L ds s =
     (let s = upd_tb (cur_tb s) (tb_type_update (\<lambda>_. IND_TYPE_JMP)) (s\<lparr>j_ind_count := j_ind_count s + 1\<rparr>);
          s = emit_mov_mem (a_ind_dest L) (func_addr (tbs s (cur_tb s))) s
      in and_then (emit_push_rm ds s) (\<lambda>s.
         and_then (cemit_ind_opt L IND_TYPE_JMP s) (\<lambda>s. Inr (False, s))))"

definition emit_int :: "layout \<Rightarrow> decode_t \<Rightarrow> trans_state \<Rightarrow> (bool \<times> trans_state) outcome" where
  "emit_int L ds s =
     (let s =
        (if mem s (ds_instr ds + 1) = 0x80
         then (let s = emit ([0x9c, 0x3d] @ bytes32 NR_exit_group @ [0x75]) s;
                   patch_addr = code_ptr s;
                   s = emit (NEED_PATCH_8 # 0x68 # bytes32 (l_env L) @ [0xe8]) s;
                   s = emit [0x8d, 0x64, 0x24, 4] (emit_rel32 (l_exit_stub L) s);
                   s = poke8 patch_addr (ucast (code_ptr s - patch_addr - 1)) s
               in emit [0x9d] s)
         else s)
      in Inr (True, emit (guest_insn s) s))"

text \<open>\<^verbatim>\<open>emit_sysenter\<close> emits nothing and ends the block.\<close>

definition emit_sysenter :: "trans_state \<Rightarrow> (bool \<times> trans_state) outcome" where
  "emit_sysenter s = Inr (False, s)"

text \<open>
  The call \<^verbatim>\<open>(ds->emitfn) (env, ds)\<close>.  A null pointer faults; a pointer to a table cannot be
  reached (\<open>group_entry_ptr\<close>) and is given the same answer.
\<close>

fun run_emitfn :: "layout \<Rightarrow> op_ptr \<Rightarrow> decode_t \<Rightarrow> trans_state \<Rightarrow> (bool \<times> trans_state) outcome" where
  "run_emitfn L (P_emit Emit_normal) ds s = emit_normal s"
| "run_emitfn L (P_emit Emit_call_near_mem) ds s = emit_call_near_mem L ds s"
| "run_emitfn L (P_emit Emit_jmp_near_mem) ds s = emit_jmp_near_mem L ds s"
| "run_emitfn L (P_emit Emit_sysenter) ds s = emit_sysenter s"
| "run_emitfn L (P_emit Emit_jcond) ds s = emit_jcond L ds s"
| "run_emitfn L (P_emit Emit_ret_Iw) ds s = emit_ret_Iw L ds s"
| "run_emitfn L (P_emit Emit_ret) ds s = emit_ret L s"
| "run_emitfn L (P_emit Emit_int) ds s = emit_int L ds s"
| "run_emitfn L (P_emit Emit_other_jcond) ds s = emit_other_jcond L ds s"
| "run_emitfn L (P_emit Emit_call_disp) ds s = emit_call_disp L ds s"
| "run_emitfn L (P_emit Emit_jmp) ds s = emit_jmp L ds s"
| "run_emitfn L _ ds s = Inl Null_Emitfn"

section \<open>Translating a block\<close>

text \<open>The static counter \<^verbatim>\<open>sieve_count\<close> is never written, so it keeps its initial zero.\<close>

definition sieve_count :: nat where "sieve_count = 0"

definition limit_reached :: "nat \<Rightarrow> trans_state \<Rightarrow> bool" where
  "limit_reached n s \<longleftrightarrow> PATCH_ARRAY_SIZE - 2 \<le> length (patch_array s) \<or>
     TB_FOR_SIEVE_MAX_SIZE - 1 \<le> sieve_count \<or> MAX_INSNS \<le> n"

definition end_at_limit :: "layout \<Rightarrow> trans_state \<Rightarrow> trans_state outcome" where
  "end_at_limit L s =
     (let s = (if tc_ptr (tbs s (cur_tb s)) = code_ptr s
               then upd_tb (cur_tb s) (tc_ptr_update (\<lambda>_. NOT_TRANS_YET)) s else s);
          s = emit (0xe9 # bytes32 NEED_PATCH_32) s
      in note_patch L (code_ptr s - 4) (pc_ptr s) (cur_tb s) (func_addr (tbs s (cur_tb s))) NORMAL_TB_TAG s)"

text \<open>The loop body up to the emitter's answer.\<close>

definition gen_insn :: "layout \<Rightarrow> decode_t \<Rightarrow> trans_state \<Rightarrow> (bool \<times> decode_t \<times> trans_state) outcome" where
  "gen_insn L ds s =
     (case simple_disas_insn (mem s) ds (pc_ptr s) of
        None \<Rightarrow> Inl Never_Returns
      | Some (_, ds) \<Rightarrow>
          if flag_set (ds_opstate ds) OPSTATE_ADDR16 then Inl Addr16_Prefix
          else (let s = s\<lparr>insn_len := decode_eip ds - pc_ptr s, pc_ptr := decode_eip ds\<rparr> in
                and_then (run_emitfn L (ds_emitfn ds) ds s) (\<lambda>(cont, s).
                  Inr (cont, ds, upd_tb (cur_tb s) (\<lambda>t. t\<lparr>insn_count := insn_count t + 1\<rparr>) s))))"

function gen_loop :: "layout \<Rightarrow> nat \<Rightarrow> decode_t \<Rightarrow> trans_state \<Rightarrow> trans_state outcome" where
  "gen_loop L n ds s =
     and_then (gen_insn L ds s) (\<lambda>(cont, ds, s).
       if \<not> cont then Inr s
       else if limit_reached n s then end_at_limit L s
       else gen_loop L (Suc n) ds s)"
  by pat_completeness auto
termination
  by (relation "measure (\<lambda>(L, n, ds, s). MAX_INSNS - n)") (auto simp: limit_reached_def)

declare gen_loop.simps [simp del]

definition gen_target_code :: "layout \<Rightarrow> decode_t \<Rightarrow> nat \<Rightarrow> trans_state \<Rightarrow> trans_state outcome" where
  "gen_target_code L ds tb s =
     (let s = s\<lparr>pc_start := tb_pc (tbs s tb), pc_ptr := tb_pc (tbs s tb), code_ptr := tc_ptr (tbs s tb),
                cur_tb := tb, patch_array := []\<rparr>;
          cur_stb = stb_count s;
          s = s\<lparr>stb_count := stb_count s + 1\<rparr>
      in if STB_MAX \<le> stb_count s then Inl Stb_Overflow
         else (let s = s\<lparr>stbs := (stbs s)(cur_stb := (stbs s cur_stb)
                  \<lparr>stb_pc_start := tb_pc (tbs s tb), stb_tc_ptr := tc_ptr (tbs s tb)\<rparr>)\<rparr>
               in and_then (gen_loop L 0 ds s) (\<lambda>s.
                  and_then (lazy_patch L (s\<lparr>stbs := (stbs s)(cur_stb := (stbs s cur_stb)
                    \<lparr>stb_pc_end := pc_ptr s - 1\<rparr>)\<rparr>)) (\<lambda>s.
                  let s = s\<lparr>s_code_size := s_code_size s + (pc_ptr s - pc_start s),
                            code_gen_ptr := code_ptr s\<rparr>
                  in if DEFAULT_CODE_GEN_BUFFER_SIZE <s code_gen_ptr s - code_gen_buffer s
                     then Inl Code_Buffer_Overflow
                     else Inr (upd_tb tb (\<lambda>t. t\<lparr>hcode_size := ucast (code_gen_ptr s - tc_ptr t)\<rparr>) s)))))"

text \<open>\<^verbatim>\<open>cpu_gen_code\<close>, less its logging.\<close>

definition cpu_gen_code :: "layout \<Rightarrow> decode_t \<Rightarrow> nat \<Rightarrow> trans_state \<Rightarrow> trans_state outcome" where
  "cpu_gen_code L ds tb s = gen_target_code L ds tb (upd_tb tb (tc_ptr_update (\<lambda>_. code_gen_ptr s)) s)"

definition tb_gen_code :: "layout \<Rightarrow> decode_t \<Rightarrow> u32 \<Rightarrow> trans_state \<Rightarrow> (nat \<times> trans_state) outcome" where
  "tb_gen_code L ds pc s =
     and_then (make_tb pc 0 s) (\<lambda>(tb, s). and_then (cpu_gen_code L ds tb s) (\<lambda>s. Inr (tb, s)))"

end
