(* ===== verification/Host_Machine.thy ===== *)
theory Host_Machine
  imports Decoder
begin

text \<open>
  The instructions of the host processor that the translator emits around guest code: pushes, pops,
  moves, \<^verbatim>\<open>lea\<close>, \<^verbatim>\<open>jecxz\<close> and jumps, with the general ModR/M and SIB operand forms of 32-bit
  mode.  Emitted code is run by decoding the bytes in memory; an encoding outside this list stops
  the machine.  None of these instructions changes the flags, except \<^verbatim>\<open>popf\<close>.
\<close>

section \<open>State and instructions\<close>

record host =
  h_eip :: u32
  h_reg :: "u8 \<Rightarrow> u32"
  h_flags :: u32
  h_mem :: memory

abbreviation (input) EAX :: u8 where "EAX \<equiv> 0"
abbreviation (input) ECX :: u8 where "ECX \<equiv> 1"
abbreviation (input) EDX :: u8 where "EDX \<equiv> 2"
abbreviation (input) EBX :: u8 where "EBX \<equiv> 3"
abbreviation (input) ESP :: u8 where "ESP \<equiv> 4"
abbreviation (input) EBP :: u8 where "EBP \<equiv> 5"
abbreviation (input) ESI :: u8 where "ESI \<equiv> 6"
abbreviation (input) EDI :: u8 where "EDI \<equiv> 7"

text \<open>A register, or memory at base + index * 2 ^ shift + displacement.\<close>

datatype hoperand =
    O_reg u8
  | O_mem "u8 option" "(u8 \<times> nat) option" u32

datatype hinsn =
    H_push hoperand
  | H_push_imm u32
  | H_pop hoperand
  | H_mov_load u8 hoperand
  | H_mov_store hoperand u8
  | H_mov_imm hoperand u32
  | H_movzwl u8 hoperand
  | H_lea u8 hoperand
  | H_jecxz u32
  | H_jcc u8 u32
  | H_jmp u32
  | H_jmp_ind hoperand
  | H_ret
  | H_pushf
  | H_popf

definition addr_of :: "(u8 \<Rightarrow> u32) \<Rightarrow> u8 option \<Rightarrow> (u8 \<times> nat) option \<Rightarrow> u32 \<Rightarrow> u32" where
  "addr_of r b i d = (case b of None \<Rightarrow> 0 | Some x \<Rightarrow> r x) +
     (case i of None \<Rightarrow> 0 | Some (x, k) \<Rightarrow> push_bit k (r x)) + d"

definition sext8 :: "u8 \<Rightarrow> u32" where
  "sext8 b = scast b"

section \<open>Decoding\<close>

text \<open>The operand of the ModR/M byte at \<open>p\<close> and the address after it.\<close>

definition hmodrm :: "memory \<Rightarrow> u32 \<Rightarrow> hoperand \<times> u32" where
  "hmodrm m p =
     (let md = modrm_mod (m p); rm = modrm_rm (m p) in
      if md = 3 then (O_reg rm, p + 1)
      else
        (let (b, i, q) =
           (if rm = 4
            then (Some (sib_base (m (p + 1))),
                  (if sib_index (m (p + 1)) = 4 then None
                   else Some (sib_index (m (p + 1)), unat (sib_ss (m (p + 1))))), p + 2)
            else (Some rm, None, p + 1));
           absent = (md = 0 \<and> b = Some 5)
         in if absent then (O_mem None i (ld32 m q), q + 4)
            else if md = 0 then (O_mem b i 0, q)
            else if md = 1 then (O_mem b i (sext8 (m q)), q + 1)
            else (O_mem b i (ld32 m q), q + 4)))"

definition hdecode :: "memory \<Rightarrow> u32 \<Rightarrow> (hinsn \<times> u32) option" where
  "hdecode m p =
     (let b = m p; reg = modrm_reg (m (p + 1)); (rm, q) = hmodrm m (p + 1) in
      if b AND 0xf8 = 0x50 then Some (H_push (O_reg (b AND 7)), p + 1)
      else if b AND 0xf8 = 0x58 then Some (H_pop (O_reg (b AND 7)), p + 1)
      else if b = 0x68 then Some (H_push_imm (ld32 m (p + 1)), p + 5)
      else if b = 0x89 then Some (H_mov_store rm reg, q)
      else if b = 0x8b then Some (H_mov_load reg rm, q)
      else if b = 0x8d then (case rm of O_reg _ \<Rightarrow> None | O_mem _ _ _ \<Rightarrow> Some (H_lea reg rm, q))
      else if b = 0x8f then if reg = 0 then Some (H_pop rm, q) else None
      else if b = 0x9c then Some (H_pushf, p + 1)
      else if b = 0x9d then Some (H_popf, p + 1)
      else if b = 0xc3 then Some (H_ret, p + 1)
      else if b = 0xc7 then if reg = 0 then Some (H_mov_imm rm (ld32 m q), q + 4) else None
      else if b = 0xe3 then Some (H_jecxz (sext8 (m (p + 1))), p + 2)
      else if b = 0xe9 then Some (H_jmp (ld32 m (p + 1)), p + 5)
      else if b = 0xff then
        if reg = 4 then Some (H_jmp_ind rm, q) else if reg = 6 then Some (H_push rm, q) else None
      else if b = 0x0f then
        if m (p + 1) AND 0xf0 = 0x80 then Some (H_jcc (m (p + 1) AND 0x0f) (ld32 m (p + 2)), p + 6)
        else if m (p + 1) = 0xb7
        then (let (rm, q) = hmodrm m (p + 2) in Some (H_movzwl (modrm_reg (m (p + 2))) rm, q))
        else None
      else None)"

section \<open>Execution\<close>

definition hread :: "host \<Rightarrow> hoperand \<Rightarrow> u32" where
  "hread h op = (case op of O_reg x \<Rightarrow> h_reg h x | O_mem b i d \<Rightarrow> ld32 (h_mem h) (addr_of (h_reg h) b i d))"

definition hread16 :: "host \<Rightarrow> hoperand \<Rightarrow> u16" where
  "hread16 h op = (case op of O_reg x \<Rightarrow> ucast (h_reg h x) | O_mem b i d \<Rightarrow> ld16 (h_mem h) (addr_of (h_reg h) b i d))"

definition hwrite :: "hoperand \<Rightarrow> u32 \<Rightarrow> host \<Rightarrow> host" where
  "hwrite op v h = (case op of
       O_reg x \<Rightarrow> h\<lparr>h_reg := (h_reg h)(x := v)\<rparr>
     | O_mem b i d \<Rightarrow> h\<lparr>h_mem := st32 (h_mem h) (addr_of (h_reg h) b i d) v\<rparr>)"

definition hpush :: "u32 \<Rightarrow> host \<Rightarrow> host" where
  "hpush v h = h\<lparr>h_reg := (h_reg h)(ESP := h_reg h ESP - 4), h_mem := st32 (h_mem h) (h_reg h ESP - 4) v\<rparr>"

definition hdrop :: "host \<Rightarrow> host" where
  "hdrop h = h\<lparr>h_reg := (h_reg h)(ESP := h_reg h ESP + 4)\<rparr>"

text \<open>The sixteen conditions of \<^verbatim>\<open>jcc\<close> on CF (bit 0), PF (2), ZF (6), SF (7) and OF (11).\<close>

definition hcond :: "u8 \<Rightarrow> u32 \<Rightarrow> bool" where
  "hcond c f =
     (let k = c AND 0x0e; cf = bit f 0; pf = bit f 2; zf = bit f 6; sf = bit f 7; ovf = bit f 11;
          r = (if k = 0 then ovf else if k = 2 then cf else if k = 4 then zf else if k = 6 then cf \<or> zf
               else if k = 8 then sf else if k = 10 then pf else if k = 12 then sf \<noteq> ovf
               else zf \<or> sf \<noteq> ovf)
      in r \<noteq> bit c 0)"

text \<open>\<^verbatim>\<open>h_eip\<close> already points behind the instruction; the address of a \<^verbatim>\<open>pop\<close> uses the new \<^verbatim>\<open>%esp\<close>.\<close>

fun hexec :: "hinsn \<Rightarrow> host \<Rightarrow> host" where
  "hexec (H_push op) h = hpush (hread h op) h"
| "hexec (H_push_imm v) h = hpush v h"
| "hexec (H_pop op) h = hwrite op (ld32 (h_mem h) (h_reg h ESP)) (hdrop h)"
| "hexec (H_mov_load r op) h = hwrite (O_reg r) (hread h op) h"
| "hexec (H_mov_store op r) h = hwrite op (h_reg h r) h"
| "hexec (H_mov_imm op v) h = hwrite op v h"
| "hexec (H_movzwl r op) h = hwrite (O_reg r) (ucast (hread16 h op)) h"
| "hexec (H_lea r op) h = (case op of
       O_reg _ \<Rightarrow> h | O_mem b i d \<Rightarrow> hwrite (O_reg r) (addr_of (h_reg h) b i d) h)"
| "hexec (H_jecxz rel) h = (if h_reg h ECX = 0 then h\<lparr>h_eip := h_eip h + rel\<rparr> else h)"
| "hexec (H_jcc c rel) h = (if hcond c (h_flags h) then h\<lparr>h_eip := h_eip h + rel\<rparr> else h)"
| "hexec (H_jmp rel) h = h\<lparr>h_eip := h_eip h + rel\<rparr>"
| "hexec (H_jmp_ind op) h = h\<lparr>h_eip := hread h op\<rparr>"
| "hexec H_ret h = (hdrop h)\<lparr>h_eip := ld32 (h_mem h) (h_reg h ESP)\<rparr>"
| "hexec H_pushf h = hpush (h_flags h) h"
| "hexec H_popf h = (hdrop h)\<lparr>h_flags := ld32 (h_mem h) (h_reg h ESP)\<rparr>"

definition hstep :: "host \<Rightarrow> host option" where
  "hstep h = (case hdecode (h_mem h) (h_eip h) of
       None \<Rightarrow> None | Some (i, q) \<Rightarrow> Some (hexec i (h\<lparr>h_eip := q\<rparr>)))"

primrec hrun :: "nat \<Rightarrow> host \<Rightarrow> host option" where
  "hrun 0 h = Some h"
| "hrun (Suc n) h = Option.bind (hstep h) (hrun n)"

lemma hrun_numeral [simp]: "hrun (numeral k) h = Option.bind (hstep h) (hrun (pred_numeral k))"
  by (simp add: numeral_eq_Suc)

text \<open>\<open>runs h h'\<close>: from \<open>h\<close> the machine gets to \<open>h'\<close>.\<close>

definition runs :: "host \<Rightarrow> host \<Rightarrow> bool" where
  "runs h h' \<longleftrightarrow> (\<exists>n. hrun n h = Some h')"

section \<open>Sequencing\<close>

lemma hrun_add: "hrun (n + k) h = Option.bind (hrun n h) (hrun k)"
proof (induction n arbitrary: h)
  case (Suc n)
  then show ?case by (cases "hstep h") simp_all
qed simp

lemma runs_refl [simp]: "runs h h"
  unfolding runs_def by (rule exI [of _ 0]) simp

lemma runs_hrun: "hrun n h = Some h' \<Longrightarrow> runs h h'"
  by (auto simp: runs_def)

lemma runs_trans: "runs h h1 \<Longrightarrow> runs h1 h2 \<Longrightarrow> runs h h2"
  unfolding runs_def by (metis bind.bind_lunit hrun_add)

lemma runs_step: "hstep h = Some h1 \<Longrightarrow> runs h1 h2 \<Longrightarrow> runs h h2"
  unfolding runs_def by (metis bind.bind_lunit hrun.simps(2))

lemma runs_deterministic:
  assumes "hrun n h = Some h1" "hrun k h = Some h2" "n \<le> k"
  shows "hrun (k - n) h1 = Some h2"
  using assms hrun_add [of n "k - n" h] by simp

section \<open>Encodings\<close>

text \<open>\<open>encodes bs i\<close>: wherever the bytes \<open>bs\<close> stand they decode to \<open>i\<close>, and to nothing more.\<close>

definition encodes :: "u8 list \<Rightarrow> hinsn \<Rightarrow> bool" where
  "encodes bs i \<longleftrightarrow> (\<forall>m p. bytes_at m p bs \<longrightarrow> hdecode m p = Some (i, p + of_nat (length bs)))"

named_theorems encodings \<open>the encodings of the instructions the translator emits\<close>

lemma runs_insn:
  assumes "encodes bs i" "bytes_at (h_mem h) (h_eip h) bs"
    and "runs (hexec i (h\<lparr>h_eip := h_eip h + of_nat (length bs)\<rparr>)) h'"
  shows "runs h h'"
proof (rule runs_step [OF _ assms(3)])
  show "hstep h = Some (hexec i (h\<lparr>h_eip := h_eip h + of_nat (length bs)\<rparr>))"
    using assms(1,2) by (simp add: hstep_def encodes_def)
qed

lemmas hdecode_defs = encodes_def hdecode_def hmodrm_def Let_def
  modrm_reg_def modrm_mod_def modrm_rm_def sib_base_def sib_index_def sib_ss_def

text \<open>A sequence of instructions with their lengths, and the bytes that assemble it.\<close>

primrec insns_at :: "memory \<Rightarrow> u32 \<Rightarrow> (hinsn \<times> nat) list \<Rightarrow> bool" where
  "insns_at m p [] = True"
| "insns_at m p (x # xs) =
     (hdecode m p = Some (fst x, p + of_nat (snd x)) \<and> insns_at m (p + of_nat (snd x)) xs)"

definition assembles :: "u8 list list \<Rightarrow> (hinsn \<times> nat) list \<Rightarrow> bool" where
  "assembles bss xs \<longleftrightarrow> list_all2 (\<lambda>bs x. encodes bs (fst x) \<and> length bs = snd x) bss xs"

lemma assembles_simps [simp]:
  "assembles [] []"
  "assembles (bs # bss) ((i, n) # xs) \<longleftrightarrow> encodes bs i \<and> length bs = n \<and> assembles bss xs"
  by (simp_all add: assembles_def)

lemma insns_at_assembles:
  assumes "assembles bss xs" "bytes_at m p (concat bss)"
  shows "insns_at m p xs"
  using assms unfolding assembles_def
  by (induction bss xs arbitrary: p rule: list_all2_induct) (auto simp: encodes_def)

lemmas run_simps = hread_def hread16_def hwrite_def addr_of_def hpush_def hdrop_def hstep_def

text \<open>The registers of the prologue, by number.\<close>

lemma register_cases:
  fixes r :: u8
  assumes "r < 8"
  shows "r \<in> {0, 1, 2, 3, 4, 5, 6, 7}"
proof -
  have "unat r < 8" using assms by (simp add: word_less_nat_alt)
  then have "unat r \<in> {0, 1, 2, 3, 4, 5, 6, 7}" by auto
  then have "(word_of_nat (unat r) :: u8) \<in> word_of_nat ` {0, 1, 2, 3, 4, 5, 6, 7::nat}" by (rule imageI)
  then show ?thesis by simp
qed

lemma encodes_stack_reg:
  assumes "r < 8"
  shows "encodes [0x50 OR r] (H_push (O_reg r))" and "encodes [0x58 OR r] (H_pop (O_reg r))"
  using register_cases [OF assms] by (auto simp: hdecode_defs)

lemma encodes_pop_ecx [encodings]: "encodes [0x59] (H_pop (O_reg ECX))"
  by (simp add: hdecode_defs)

lemma encodes_push_ecx [encodings]: "encodes [0x51] (H_push (O_reg ECX))"
  by (simp add: hdecode_defs)

lemma encodes_push_imm [encodings]: "encodes (0x68 # bytes32 v) (H_push_imm v)"
  by (simp add: hdecode_defs bytes_at_bytes32)

lemma encodes_load_esp4 [encodings]:
  "encodes [0x8b, 0x4c, 0x24, 4] (H_mov_load ECX (O_mem (Some ESP) None 4))"
  by (simp add: hdecode_defs sext8_def add.assoc)

lemma encodes_lea_ecx [encodings]:
  "encodes (0x8d # 0x89 # bytes32 d) (H_lea ECX (O_mem (Some ECX) None d))"
  by (simp add: hdecode_defs bytes_at_bytes32 add.assoc)

lemma encodes_lea_esp4 [encodings]:
  "encodes [0x8d, 0x64, 0x24, 4] (H_lea ESP (O_mem (Some ESP) None 4))"
  by (simp add: hdecode_defs sext8_def add.assoc)

lemma encodes_lea_esp [encodings]:
  "encodes (0x8d # 0xa4 # 0x24 # bytes32 d) (H_lea ESP (O_mem (Some ESP) None d))"
  by (simp add: hdecode_defs bytes_at_bytes32 add.assoc)

lemma encodes_lea_table [encodings]:
  "encodes (0x8d # 0x0c # 0xcd # bytes32 d) (H_lea ECX (O_mem None (Some (ECX, 3)) d))"
  by (simp add: hdecode_defs bytes_at_bytes32 add.assoc)

lemma encodes_movzwl [encodings]: "encodes [0x0f, 0xb7, 0xc9] (H_movzwl ECX (O_reg ECX))"
  by (simp add: hdecode_defs add.assoc)

lemma encodes_jecxz [encodings]: "encodes [0xe3, d] (H_jecxz (sext8 d))"
  by (simp add: hdecode_defs)

lemma encodes_jmp [encodings]: "encodes (0xe9 # bytes32 d) (H_jmp d)"
  by (simp add: hdecode_defs bytes_at_bytes32)

lemma encodes_jmp_ecx [encodings]: "encodes [0xff, 0xe1] (H_jmp_ind (O_reg ECX))"
  by (simp add: hdecode_defs add.assoc)

lemma encodes_jmp_mem [encodings]: "encodes (0xff # 0x25 # bytes32 a) (H_jmp_ind (O_mem None None a))"
  by (simp add: hdecode_defs bytes_at_bytes32 add.assoc)

lemma encodes_push_mem [encodings]: "encodes (0xff # 0x35 # bytes32 a) (H_push (O_mem None None a))"
  by (simp add: hdecode_defs bytes_at_bytes32 add.assoc)

lemma encodes_push_top [encodings]: "encodes [0xff, 0x34, 0x24] (H_push (O_mem (Some ESP) None 0))"
  by (simp add: hdecode_defs add.assoc)

lemma encodes_pop_mem [encodings]: "encodes (0x8f # 0x05 # bytes32 a) (H_pop (O_mem None None a))"
  by (simp add: hdecode_defs bytes_at_bytes32 add.assoc)

lemma encodes_pop_esp [encodings]: "encodes (0x8f # 0x84 # 0x24 # bytes32 d) (H_pop (O_mem (Some ESP) None d))"
  by (simp add: hdecode_defs bytes_at_bytes32 add.assoc)

lemma encodes_mov_mem [encodings]:
  "encodes (0xc7 # 0x05 # bytes32 a @ bytes32 v) (H_mov_imm (O_mem None None a) v)"
  by (simp add: hdecode_defs bytes_at_bytes32 add.assoc)

lemma encodes_mov_table [encodings]:
  "encodes (0xc7 # 0x04 # 0x8d # bytes32 a @ bytes32 v) (H_mov_imm (O_mem None (Some (ECX, 2)) a) v)"
  by (simp add: hdecode_defs bytes_at_bytes32 add.assoc)

lemma encodes_mov_esp4 [encodings]:
  "encodes (0xc7 # 0x44 # 0x24 # 4 # bytes32 v) (H_mov_imm (O_mem (Some ESP) None 4) v)"
  by (simp add: hdecode_defs bytes_at_bytes32 sext8_def add.assoc)

lemma encodes_flags_ret [encodings]:
  "encodes [0x9c] H_pushf" "encodes [0x9d] H_popf" "encodes [0xc3] H_ret"
  by (simp_all add: hdecode_defs)

lemma encodes_mov_reg:
  assumes "r < 8"
  shows "encodes (0x8b # (0x05 OR push_bit 3 r) # bytes32 a) (H_mov_load r (O_mem None None a))"
    and "encodes (0x89 # (0x05 OR push_bit 3 r) # bytes32 a) (H_mov_store (O_mem None None a) r)"
  using register_cases [OF assms] by (auto simp: hdecode_defs bytes_at_bytes32 add.assoc)

lemmas encodes_registers = encodes_mov_reg [of 0, simplified] encodes_mov_reg [of 1, simplified]
  encodes_mov_reg [of 2, simplified] encodes_mov_reg [of 3, simplified] encodes_mov_reg [of 4, simplified]
  encodes_mov_reg [of 5, simplified] encodes_mov_reg [of 6, simplified] encodes_mov_reg [of 7, simplified]
  encodes_stack_reg [of 3, simplified] encodes_stack_reg [of 5, simplified]
  encodes_stack_reg [of 6, simplified] encodes_stack_reg [of 7, simplified]

end
