(* ===== verification/Runtime_Code.thy ===== *)
theory Runtime_Code
  imports Emitter Host_Machine
begin

text \<open>
  The code that is not translated from the guest: what \<^verbatim>\<open>codecache_prologue_init\<close> of
  \<^verbatim>\<open>src/target-i386/translate.c\<close> writes once (the prologue and epilogue of the code cache, the sieve's
  entry and its empty table, the return cache), the sieve nodes of \<^verbatim>\<open>add_sieve_entry\<close>, and the
  rebuilding of a profiled indirect branch.
\<close>

section \<open>Start-up code\<close>

text \<open>The loop of \<^verbatim>\<open>sv_table_init\<close> over the entries still to fill.\<close>

primrec sv_fill :: "nat \<Rightarrow> u32 \<Rightarrow> u32 \<Rightarrow> memory \<Rightarrow> memory" where
  "sv_fill 0 p out m = m"
| "sv_fill (Suc n) p out m = sv_fill n (p + 8) out (write_bytes m p (0xe9 # bytes32 (out - (p + 1) - 4)))"

definition sv_table_init :: "layout \<Rightarrow> u32 \<Rightarrow> u32 \<Rightarrow> trans_state \<Rightarrow> (u32 \<times> trans_state) outcome" where
  "sv_table_init L p ind_type s =
     (let s1 = cemit_exit_tb L (- 1) ind_type (s\<lparr>code_ptr := p\<rparr>);
          s2 = s1\<lparr>code_ptr := code_ptr s\<rparr>
      in if ind_type = IND_TYPE_CALL
         then Inr (code_ptr s1, s2\<lparr>mem := sv_fill 65536 (a_sieve_hashtable L) p (mem s2)\<rparr>)
         else Inl Unexpected_Ind_Type)"

definition sieve_entry_bytes :: "layout \<Rightarrow> u8 list" where
  "sieve_entry_bytes L = [0x8b, 0x4c, 0x24, 4, 0x0f, 0xb7, 0xc9, 0x8d, 0x0c, 0xcd] @
     bytes32 (a_sieve_hashtable L) @ [0xff, 0xe1]"

definition sieve_init :: "layout \<Rightarrow> trans_state \<Rightarrow> trans_state outcome" where
  "sieve_init L s =
     (let s = semit (sieve_entry_bytes L) (s\<lparr>sieve_stub := sieve_code_ptr s\<rparr>)
      in and_then (sv_table_init L (l_prologue L + 256) IND_TYPE_CALL s) (\<lambda>(_, s). Inr s))"

primrec ret_fill :: "nat \<Rightarrow> u32 \<Rightarrow> u32 \<Rightarrow> memory \<Rightarrow> memory" where
  "ret_fill 0 p v m = m"
| "ret_fill (Suc n) p v m = ret_fill n (p + 4) v (st32 m p v)"

definition ret_cache_proc_init :: "layout \<Rightarrow> trans_state \<Rightarrow> trans_state" where
  "ret_cache_proc_init L s =
     (let p = l_prologue L + 512;
          s1 = (cemit_sieve (s\<lparr>code_ptr := p\<rparr>))\<lparr>code_ptr := code_ptr s\<rparr>
      in s1\<lparr>mem := ret_fill 65536 (a_ret_hash_table L) p (mem s1)\<rparr>)"

abbreviation (input) all_regs :: "u8 list" where "all_regs \<equiv> [0, 1, 2, 3, 4, 5, 6, 7]"

definition reg_addr :: "layout \<Rightarrow> u8 \<Rightarrow> u32" where
  "reg_addr L r = a_regs L + 4 * ucast r"

definition prologue_bytes :: "layout \<Rightarrow> u8 list" where
  "prologue_bytes L =
     [0x50 OR EBX, 0x50 OR EBP, 0x50 OR ESI, 0x50 OR EDI] @
     [0x89, 0x05 OR push_bit 3 ESP] @ bytes32 (a_esp_tmp L) @
     concat (map (\<lambda>i. [0x8b, 0x05 OR push_bit 3 i] @ bytes32 (reg_addr L i)) all_regs) @
     [0x9d] @ [0xff, 0x25] @ bytes32 (a_target_tc L)"

definition epilogue_bytes :: "layout \<Rightarrow> u8 list" where
  "epilogue_bytes L =
     [0x9c] @ concat (map (\<lambda>i. [0x89, 0x05 OR push_bit 3 i] @ bytes32 (reg_addr L i)) all_regs) @
     [0x8b, 0x05 OR push_bit 3 ESP] @ bytes32 (a_esp_tmp L) @
     [0x58 OR EBX, 0x58 OR EBP, 0x58 OR ESI, 0x58 OR EDI] @
     [0x8b, 0x05 OR push_bit 3 EAX] @ bytes32 (a_ret_tb L) @ [0xc3]"

text \<open>
  \<^verbatim>\<open>codecache_prologue_init\<close>: the context \<^verbatim>\<open>cgc\<close> is cleared, a stack slot is reserved for the flags,
  and the block of the first guest instruction is made.
\<close>

definition clear_cgc :: "trans_state \<Rightarrow> trans_state" where
  "clear_cgc s = s\<lparr>tb_ret_addr := 0, pc_ptr := 0, pc_start := 0, insn_len := 0,
     stbs := (\<lambda>_. \<lparr>stb_pc_start = 0, stb_pc_end = 0, stb_tc_ptr = 0\<rparr>), stb_count := 0, jmp_count := 0,
     jcond_count := 0, jothercond_count := 0, call_count := 0, call_ind_count := 0, ret_count := 0,
     retIw_count := 0, j_ind_count := 0, find_dest_count := 0, s_code_size := 0, sieve_stat := (\<lambda>_. 0),
     end_by_transnext := 0\<rparr>"

definition codecache_prologue_init :: "layout \<Rightarrow> trans_state \<Rightarrow> trans_state outcome" where
  "codecache_prologue_init L s =
     (let s = clear_cgc s;
          s = poke32 (reg_addr L ESP) (ld32 (mem s) (reg_addr L ESP) - 4) s;
          s = s\<lparr>mem := write_bytes (mem s) (l_prologue L) (prologue_bytes L)\<rparr>;
          ret = l_prologue L + of_nat (length (prologue_bytes L));
          s = s\<lparr>tb_ret_addr := ret, mem := write_bytes (mem s) ret (epilogue_bytes L)\<rparr>
      in and_then (sieve_init L (s\<lparr>sieve_code_ptr := l_sieve_buffer L\<rparr>)) (\<lambda>s.
         let s = ret_cache_proc_init L s
         in and_then (make_tb (ld32 (mem s) (a_eip L)) (ld32 (mem s) (a_eip L)) s) (\<lambda>(_, s). Inr s)))"

section \<open>The sieve\<close>

text \<open>The code of one node: compare the guest target with \<open>pc\<close>, and go to \<open>next\<close> or to \<open>tc\<close>.\<close>

definition sieve_node_bytes :: "u32 \<Rightarrow> u32 \<Rightarrow> u32 \<Rightarrow> u32 \<Rightarrow> u8 list" where
  "sieve_node_bytes p pc next tc =
     [0x8b, 0x4c, 0x24, 4] @ [0x8d, 0x89] @ bytes32 (- pc) @ [0xe3, 5] @
     0xe9 # bytes32 (next - (p + 13) - 4) @
     [0x59] @ [0x8d, 0x64, 0x24, 4] @ 0xe9 # bytes32 (tc - (p + 23) - 4)"

definition add_sieve_entry :: "layout \<Rightarrow> nat \<Rightarrow> trans_state \<Rightarrow> trans_state outcome" where
  "add_sieve_entry L tb s =
     (let t = tbs s tb in
      if tc_ptr t = NOT_TRANS_YET then Inr s
      else
        (let se = SIEVE_HASH (a_sieve_hashtable L) (push_bit 3 (tb_pc t));
             k = drop_bit 3 (tb_pc t AND push_bit 3 0xffff);
             s = s\<lparr>sieve_stat := (sieve_stat s)(k := sieve_stat s k + 1)\<rparr>;
             next_insn = se + 5;
             next_node = next_insn + ld32 (mem s) (se + 1);
             s = poke32 (se + 1) (sieve_code_ptr s - next_insn) s;
             s = semit (sieve_node_bytes (sieve_code_ptr s) (tb_pc t) next_node (tc_ptr t)) s
         in if DEFAULT_SIEVE_BUFFER_SIZE <s sieve_code_ptr s - l_sieve_buffer L
            then Inl Sieve_Buffer_Overflow else Inr s))"

section \<open>Rebuilding a profiled indirect branch\<close>

abbreviation (input) IND_TGT_SIZE :: u32 where "IND_TGT_SIZE \<equiv> 128"
abbreviation (input) IND_THRESHOLD :: u32 where "IND_THRESHOLD \<equiv> 30"

definition cemit_count_tgt :: "nat \<Rightarrow> trans_state \<Rightarrow> trans_state" where
  "cemit_count_tgt tb s =
     (let s = emit_rel32 (sieve_code_ptr s) (emit [0xe9] s);
          s = semit ([0x9c, 0x8b, 0x4c, 0x24, 8, 0x81, 0xe1] @ bytes32 (IND_TGT_SIZE - 1) @
                [0x81, 0xc1] @ bytes32 (ind_tgt (tbs s tb)) @ [0xff, 0x01] @
                [0x81, 0x39] @ bytes32 IND_THRESHOLD @ [0x0f, 0x83]) s;
          s = semit [0x9d] (semit_rel32 (code_ptr s) s);
          s1 = cemit_sieve_nopush (s\<lparr>code_ptr := sieve_code_ptr s\<rparr>);
          s = s1\<lparr>sieve_code_ptr := code_ptr s1, code_ptr := code_ptr s\<rparr>
      in emit [0x9d] s)"

definition rebuild_profed_tb :: "layout \<Rightarrow> nat \<Rightarrow> trans_state \<Rightarrow> trans_state" where
  "rebuild_profed_tb L tb s =
     (let s1 = fold (\<lambda>i s. poke32 (jind_src_addr (tbs s tb) ! i) NEED_PATCH_32 s) [0, 1, 2] s;
          s2 = upd_tb tb (jmp_ind_index_update (\<lambda>_. 0)) s1;
          p = retrans_patch_ptr (tbs s2 tb);
          s3 = upd_tb tb (ind_enter_sieve_update (\<lambda>_. p)) (s2\<lparr>code_ptr := p\<rparr>);
          s4 = cemit_count_tgt tb s3;
          s5 = cemit_exit_tb L (tb_addr L (cur_tb s4)) IND_TYPE_JMP s4
      in s5\<lparr>code_ptr := code_ptr s\<rparr>)"

end
