(* ===== verification/Sieve.thy ===== *)
theory Sieve
  imports Runtime_Code
begin

text \<open>
  The sieve: emitted code that maps the guest target of an indirect branch to host code.  The table
  \<^verbatim>\<open>env->sieve_hashtable\<close> holds one jump per bucket, to a chain of nodes that \<^verbatim>\<open>add_sieve_entry\<close>
  writes; the chain ends at code that leaves the code cache.  The code is run on the machine of
  \<open>Host_Machine\<close> and shown to be a map from guest addresses to host addresses.
\<close>

section \<open>Leaving the code cache\<close>

text \<open>The code of \<^verbatim>\<open>cemit_exit_tb\<close> as one run of bytes.\<close>

definition exit_bytes :: "layout \<Rightarrow> u32 \<Rightarrow> u32 \<Rightarrow> u32 \<Rightarrow> u32 \<Rightarrow> u8 list" where
  "exit_bytes L p ret_tb ind_type ret =
     [0x59] @ [0x8f, 0x05] @ bytes32 (a_eip L) @
     (if ret_tb \<noteq> - 1 then [0xc7, 0x05] @ bytes32 (a_ret_tb L) @ bytes32 ret_tb else []) @
     (if ind_type \<noteq> - 1 then [0xc7, 0x05] @ bytes32 (a_ind_type L) @ bytes32 ind_type else []) @
     0xe9 # bytes32 (ret - (p + 8 + (if ret_tb \<noteq> - 1 then 10 else 0) + (if ind_type \<noteq> - 1 then 10 else 0)) - 4)"

lemma emit_emit2: "emit ys (emit xs s) = emit (xs @ ys) s"
  by (simp add: emit_def write_bytes_append algebra_simps)

lemma cemit_exit_tb_bytes:
  "cemit_exit_tb L ret_tb ind_type s = emit (exit_bytes L (code_ptr s) ret_tb ind_type (tb_ret_addr s)) s"
  by (simp add: cemit_exit_tb_def exit_bytes_def emit_mov_mem_def emit_rel32_def Let_def emit_emit2)
     (simp add: emit_def algebra_simps)

text \<open>What leaving writes to \<^verbatim>\<open>env\<close>.\<close>

definition exit_mem :: "layout \<Rightarrow> u32 \<Rightarrow> u32 \<Rightarrow> u32 \<Rightarrow> memory \<Rightarrow> memory" where
  "exit_mem L ret_tb ind_type t m =
     (let m = st32 m (a_eip L) t;
          m = (if ret_tb \<noteq> - 1 then st32 m (a_ret_tb L) ret_tb else m)
      in if ind_type \<noteq> - 1 then st32 m (a_ind_type L) ind_type else m)"

definition env_apart :: "layout \<Rightarrow> u32 \<Rightarrow> nat \<Rightarrow> bool" where
  "env_apart L p n \<longleftrightarrow> region p n \<inter> region (a_eip L) 4 = {} \<and> region p n \<inter> region (a_ret_tb L) 4 = {} \<and>
     region p n \<inter> region (a_ind_type L) 4 = {} \<and> region p n \<inter> region (a_patch_num L) 4 = {}"

lemma exit_bytes_length: "length (exit_bytes L p r i e) = 12 + (if r \<noteq> - 1 then 10 else 0) + (if i \<noteq> - 1 then 10 else 0)"
  by (simp add: exit_bytes_def)

definition exit_insns :: "layout \<Rightarrow> u32 \<Rightarrow> u32 \<Rightarrow> u32 \<Rightarrow> u32 \<Rightarrow> (hinsn \<times> nat) list" where
  "exit_insns L p ret_tb ind_type ret =
     [(H_pop (O_reg ECX), 1), (H_pop (O_mem None None (a_eip L)), 6)] @
     (if ret_tb \<noteq> - 1 then [(H_mov_imm (O_mem None None (a_ret_tb L)) ret_tb, 10)] else []) @
     (if ind_type \<noteq> - 1 then [(H_mov_imm (O_mem None None (a_ind_type L)) ind_type, 10)] else []) @
     [(H_jmp (ret - (p + 8 + (if ret_tb \<noteq> - 1 then 10 else 0) + (if ind_type \<noteq> - 1 then 10 else 0)) - 4), 5)]"

lemma exit_insns_at:
  assumes "bytes_at m p (exit_bytes L p r i e)"
  shows "insns_at m p (exit_insns L p r i e)"
proof (rule insns_at_assembles)
  let ?b = "[[0x59], [0x8f, 0x05] @ bytes32 (a_eip L)] @
     (if r \<noteq> - 1 then [[0xc7, 0x05] @ bytes32 (a_ret_tb L) @ bytes32 r] else []) @
     (if i \<noteq> - 1 then [[0xc7, 0x05] @ bytes32 (a_ind_type L) @ bytes32 i] else []) @
     [0xe9 # bytes32 (e - (p + 8 + (if r \<noteq> - 1 then 10 else 0) + (if i \<noteq> - 1 then 10 else 0)) - 4)]"
  show "bytes_at m p (concat ?b)" using assms by (simp add: exit_bytes_def split: if_splits)
  show "assembles ?b (exit_insns L p r i e)" by (simp add: exit_insns_def encodings)
qed

lemma exit_runs:
  assumes code: "bytes_at m p (exit_bytes L p r i e)" and apart: "env_apart L p 32"
  shows "runs \<lparr>h_eip = p, h_reg = g, h_flags = f, h_mem = m\<rparr>
     \<lparr>h_eip = e, h_reg = g(ECX := ld32 m (g ESP), ESP := g ESP + 8), h_flags = f,
      h_mem = exit_mem L r i (ld32 m (g ESP + 4)) m\<rparr>"
proof -
  let ?b = "exit_bytes L p r i e" and ?t = "ld32 m (g ESP + 4)"
  let ?m1 = "st32 m (a_eip L) ?t"
  let ?m2 = "if r \<noteq> - 1 then st32 ?m1 (a_ret_tb L) r else ?m1"
  have n: "length ?b \<le> 32" by (simp add: exit_bytes_length)
  have c1: "bytes_at ?m1 p ?b"
    by (rule bytes_at_st32_apart [OF code _ n]) (use apart in \<open>simp add: env_apart_def\<close>)
  have c2: "bytes_at ?m2 p ?b"
    using c1 bytes_at_st32_apart [OF c1 _ n] apart by (auto simp: env_apart_def)
  have c3: "bytes_at (exit_mem L r i ?t m) p ?b"
    using c2 bytes_at_st32_apart [OF c2 _ n] apart by (auto simp: env_apart_def exit_mem_def Let_def)
  note insns = code [THEN exit_insns_at] c1 [THEN exit_insns_at] c2 [THEN exit_insns_at] c3 [THEN exit_insns_at]
  show ?thesis
    unfolding runs_def
    using insns
    by (intro exI [of _ "3 + (if r \<noteq> - 1 then 1 else 0) + (if i \<noteq> - 1 then 1 else 0)"])
      (auto simp: exit_insns_def exit_mem_def run_simps add.commute [of p] add.commute [of "g 4"] Let_def split: if_splits)
qed

section \<open>Dispatching an indirect branch\<close>

text \<open>
  Every piece of emitted code that looks up the target of an indirect branch has one contract.  It is
  entered with the saved \<^verbatim>\<open>%ecx\<close> on top of the stack and the guest target below it.  If its table
  knows the target it jumps to the host code with \<^verbatim>\<open>%ecx\<close> restored and both words popped; if not it
  goes to its miss exit with only \<^verbatim>\<open>%ecx\<close> changed.
\<close>

locale dispatcher =
  fixes valid :: "'c \<Rightarrow> memory \<Rightarrow> bool"
    and entry :: "'c \<Rightarrow> u32"
    and target :: "'c \<Rightarrow> u32 \<Rightarrow> u32 option"
    and out :: "'c \<Rightarrow> u32"
  assumes hit: "valid c m \<Longrightarrow> target c (ld32 m (g ESP + 4)) = Some tc \<Longrightarrow>
      runs \<lparr>h_eip = entry c, h_reg = g, h_flags = f, h_mem = m\<rparr>
       \<lparr>h_eip = tc, h_reg = g(ECX := ld32 m (g ESP), ESP := g ESP + 8), h_flags = f, h_mem = m\<rparr>"
    and miss: "valid c m \<Longrightarrow> target c (ld32 m (g ESP + 4)) = None \<Longrightarrow>
      \<exists>v. runs \<lparr>h_eip = entry c, h_reg = g, h_flags = f, h_mem = m\<rparr>
       \<lparr>h_eip = out c, h_reg = g(ECX := v), h_flags = f, h_mem = m\<rparr>"
begin

text \<open>With the exit code at the miss exit, a miss hands the target to the translator.\<close>

lemma miss_exit:
  assumes "valid c m" "target c (ld32 m (g ESP + 4)) = None"
    and "bytes_at m (out c) (exit_bytes L (out c) r i e)" "env_apart L (out c) 32"
  shows "runs \<lparr>h_eip = entry c, h_reg = g, h_flags = f, h_mem = m\<rparr>
     \<lparr>h_eip = e, h_reg = g(ECX := ld32 m (g ESP), ESP := g ESP + 8), h_flags = f,
      h_mem = exit_mem L r i (ld32 m (g ESP + 4)) m\<rparr>"
proof -
  from miss [OF assms(1), of g f, OF assms(2)] obtain v where
    "runs \<lparr>h_eip = entry c, h_reg = g, h_flags = f, h_mem = m\<rparr>
       \<lparr>h_eip = out c, h_reg = g(ECX := v), h_flags = f, h_mem = m\<rparr>" by blast
  from runs_trans [OF this exit_runs [OF assms(3,4), of "g(ECX := v)" f]] show ?thesis by simp
qed

end

section \<open>The sieve as a dispatcher\<close>

definition sieve_node_insns :: "u32 \<Rightarrow> u32 \<Rightarrow> u32 \<Rightarrow> u32 \<Rightarrow> (hinsn \<times> nat) list" where
  "sieve_node_insns p pc next tc =
    [(H_mov_load ECX (O_mem (Some ESP) None 4), 4), (H_lea ECX (O_mem (Some ECX) None (- pc)), 6),
    (H_jecxz (sext8 5), 2), (H_jmp (next - (p + 13) - 4), 5), (H_pop (O_reg ECX), 1), (H_lea ESP (O_mem (Some ESP) None 4), 4),
    (H_jmp (tc - (p + 23) - 4), 5)]"

lemma sieve_node_insns_at:
  assumes "bytes_at m p (sieve_node_bytes p pc next tc)"
  shows "insns_at m p (sieve_node_insns p pc next tc)"
proof (rule insns_at_assembles)
  let ?b = "[[0x8b, 0x4c, 0x24, 4], [0x8d, 0x89] @ bytes32 (- pc), [0xe3, 5],
     0xe9 # bytes32 (next - (p + 13) - 4), [0x59], [0x8d, 0x64, 0x24, 4], 0xe9 # bytes32 (tc - (p + 23) - 4)]"
  show "bytes_at m p (concat ?b)" using assms by (simp add: sieve_node_bytes_def)
  show "assembles ?b (sieve_node_insns p pc next tc)"
    by (simp add: sieve_node_insns_def encodings)
qed

lemma sieve_node_hit:
  assumes "bytes_at m p (sieve_node_bytes p pc next tc)" "ld32 m (r ESP + 4) = pc"
  shows "runs \<lparr>h_eip = p, h_reg = r, h_flags = f, h_mem = m\<rparr>
     \<lparr>h_eip = tc, h_reg = r(ECX := ld32 m (r ESP), ESP := r ESP + 8), h_flags = f, h_mem = m\<rparr>"
  unfolding runs_def
  using sieve_node_insns_at [OF assms(1)] assms(2)
  by (intro exI [of _ 6]) (simp add: sieve_node_insns_def run_simps sext8_def add.commute [of p] add.commute [of "r 4"])

lemma sieve_node_miss:
  assumes "bytes_at m p (sieve_node_bytes p pc next tc)" "ld32 m (r ESP + 4) \<noteq> pc"
  shows "\<exists>v. runs \<lparr>h_eip = p, h_reg = r, h_flags = f, h_mem = m\<rparr>
     \<lparr>h_eip = next, h_reg = r(ECX := v), h_flags = f, h_mem = m\<rparr>"
  unfolding runs_def
  using sieve_node_insns_at [OF assms(1)] assms(2)
  by (intro exI [of _ 4] exI [of _ "ld32 m (r ESP + 4) - pc"]) (simp add: sieve_node_insns_def run_simps sext8_def add.commute [of p] add.commute [of "r 4"])


text \<open>A chain of nodes inside the first \<open>k\<close> bytes from \<open>v\<close>, ending at \<open>out\<close>.\<close>

primrec chain_at :: "memory \<Rightarrow> u32 \<Rightarrow> nat \<Rightarrow> u32 \<Rightarrow> u32 \<Rightarrow> (u32 \<times> u32) list \<Rightarrow> bool" where
  "chain_at m v k e p [] \<longleftrightarrow> p = e"
| "chain_at m v k e p (n # ns) \<longleftrightarrow> region p 27 \<subseteq> region v k \<and>
     (\<exists>next. bytes_at m p (sieve_node_bytes p (fst n) next (snd n)) \<and> chain_at m v k e next ns)"

lemma chain_hit:
  assumes "chain_at m v k e p ns" "map_of ns (ld32 m (g ESP + 4)) = Some tc"
  shows "runs \<lparr>h_eip = p, h_reg = g, h_flags = f, h_mem = m\<rparr>
     \<lparr>h_eip = tc, h_reg = g(ECX := ld32 m (g ESP), ESP := g ESP + 8), h_flags = f, h_mem = m\<rparr>"
  using assms
proof (induction ns arbitrary: p g)
  case (Cons n ns)
  then obtain nx where nx: "bytes_at m p (sieve_node_bytes p (fst n) nx (snd n))" "chain_at m v k e nx ns" by auto
  show ?case
  proof (cases "fst n = ld32 m (g ESP + 4)")
    case True
    then have "snd n = tc" using Cons.prems(2) by simp
    with sieve_node_hit [OF nx(1), of g f] True show ?thesis by (simp only:)
  next
    case False
    with sieve_node_miss [OF nx(1), of g f] obtain w where
      "runs \<lparr>h_eip = p, h_reg = g, h_flags = f, h_mem = m\<rparr> \<lparr>h_eip = nx, h_reg = g(ECX := w), h_flags = f, h_mem = m\<rparr>"
      by auto
    moreover have "map_of ns (ld32 m ((g(ECX := w)) ESP + 4)) = Some tc" using False Cons.prems(2) by simp
    from Cons.IH [OF nx(2), of "g(ECX := w)", OF this]
    have "runs \<lparr>h_eip = nx, h_reg = g(ECX := w), h_flags = f, h_mem = m\<rparr>
      \<lparr>h_eip = tc, h_reg = g(ECX := ld32 m (g ESP), ESP := g ESP + 8), h_flags = f, h_mem = m\<rparr>"
      by (simp add: fun_upd_other del: fun_upd_apply)
    ultimately show ?thesis by (rule runs_trans)
  qed
qed simp

lemma chain_miss:
  assumes "chain_at m v k e p ns" "map_of ns (ld32 m (g ESP + 4)) = None"
  shows "\<exists>w. runs \<lparr>h_eip = p, h_reg = g, h_flags = f, h_mem = m\<rparr>
     \<lparr>h_eip = e, h_reg = g(ECX := w), h_flags = f, h_mem = m\<rparr>"
  using assms
proof (induction ns arbitrary: p g)
  case Nil
  then show ?case by (intro exI [of _ "g ECX"]) simp
next
  case (Cons n ns)
  then obtain nx where nx: "bytes_at m p (sieve_node_bytes p (fst n) nx (snd n))" "chain_at m v k e nx ns" by auto
  have "fst n \<noteq> ld32 m (g ESP + 4)" using Cons.prems(2) by (auto split: if_splits)
  with sieve_node_miss [OF nx(1), of g f] obtain w where
    w: "runs \<lparr>h_eip = p, h_reg = g, h_flags = f, h_mem = m\<rparr> \<lparr>h_eip = nx, h_reg = g(ECX := w), h_flags = f, h_mem = m\<rparr>"
    by auto
  have "map_of ns (ld32 m ((g(ECX := w)) ESP + 4)) = None" using Cons.prems(2) by (auto split: if_splits)
  from Cons.IH [OF nx(2), of "g(ECX := w)", OF this] obtain w' where
    "runs \<lparr>h_eip = nx, h_reg = g(ECX := w), h_flags = f, h_mem = m\<rparr>
      \<lparr>h_eip = e, h_reg = g(ECX := w'), h_flags = f, h_mem = m\<rparr>"
    by (auto simp del: fun_upd_apply)
  with w show ?case by (blast intro: runs_trans)
qed

text \<open>A sieve: where it is, where a miss goes, and the nodes of each bucket, newest first.\<close>

record sieve =
  sv_layout :: layout
  sv_stub :: u32
  sv_base :: u32
  sv_used :: nat
  sv_out :: u32
  sv_nodes :: "u32 \<Rightarrow> (u32 \<times> u32) list"

definition sieve_target :: "sieve \<Rightarrow> u32 \<Rightarrow> u32 option" where
  "sieve_target c t = map_of (sv_nodes c (t AND 0xffff)) t"

definition bucket_addr :: "layout \<Rightarrow> u32 \<Rightarrow> u32" where
  "bucket_addr L t = a_sieve_hashtable L + push_bit 3 (t AND 0xffff)"

definition bucket_ok :: "sieve \<Rightarrow> memory \<Rightarrow> u32 \<Rightarrow> bool" where
  "bucket_ok c m t \<longleftrightarrow> (\<exists>p. bytes_at m (bucket_addr (sv_layout c) t) (0xe9 # bytes32 (p - (bucket_addr (sv_layout c) t + 5))) \<and>
     chain_at m (sv_base c) (sv_used c) (sv_out c) p (sv_nodes c (t AND 0xffff)))"

definition sieve_valid :: "sieve \<Rightarrow> memory \<Rightarrow> bool" where
  "sieve_valid c m \<longleftrightarrow> bytes_at m (sv_stub c) (sieve_entry_bytes (sv_layout c)) \<and>
     region (sv_stub c) 16 \<subseteq> region (sv_base c) (sv_used c) \<and> (\<forall>t. bucket_ok c m t)"

lemma movzwl_mask: "(ucast (ucast (t :: u32) :: u16) :: u32) = t AND 0xffff"
  proof -
  have mask: "(0xffff :: u32) = mask 16" by (simp add: mask_eq_exp_minus_1)
  show ?thesis unfolding mask by (auto intro!: bit_word_eqI simp: bit_simps)
qed


lemma sieve_entry_runs:
  assumes "bytes_at m p (sieve_entry_bytes L)" "ld32 m (g ESP + 4) = t"
  shows "runs \<lparr>h_eip = p, h_reg = g, h_flags = f, h_mem = m\<rparr>
     \<lparr>h_eip = bucket_addr L t, h_reg = g(ECX := bucket_addr L t), h_flags = f, h_mem = m\<rparr>"
proof -
  have "insns_at m p [(H_mov_load ECX (O_mem (Some ESP) None 4), 4), (H_movzwl ECX (O_reg ECX), 3),
      (H_lea ECX (O_mem None (Some (ECX, 3)) (a_sieve_hashtable L)), 7), (H_jmp_ind (O_reg ECX), 2)]"
    by (rule insns_at_assembles [of "[[0x8b, 0x4c, 0x24, 4], [0x0f, 0xb7, 0xc9],
      [0x8d, 0x0c, 0xcd] @ bytes32 (a_sieve_hashtable L), [0xff, 0xe1]]"])
     (use assms(1) in \<open>simp_all add: encodings sieve_entry_bytes_def\<close>)
  then show ?thesis
    unfolding runs_def using assms(2)
    by (intro exI [of _ 4]) (simp add: run_simps add.commute [of p] movzwl_mask bucket_addr_def add.commute [of "a_sieve_hashtable L"])
qed

lemma jmp_runs:
  assumes "bytes_at m p (0xe9 # bytes32 d)"
  shows "runs \<lparr>h_eip = p, h_reg = g, h_flags = f, h_mem = m\<rparr> \<lparr>h_eip = p + 5 + d, h_reg = g, h_flags = f, h_mem = m\<rparr>"
  by (rule runs_insn [OF encodes_jmp [of d]]) (use assms in simp_all)

lemma sieve_bucket_runs:
  assumes "sieve_valid c m" "ld32 m (g ESP + 4) = t"
  obtains p w where "runs \<lparr>h_eip = sv_stub c, h_reg = g, h_flags = f, h_mem = m\<rparr>
       \<lparr>h_eip = p, h_reg = g(ECX := w), h_flags = f, h_mem = m\<rparr>"
    "chain_at m (sv_base c) (sv_used c) (sv_out c) p (sv_nodes c (t AND 0xffff))"
proof -
  let ?b = "bucket_addr (sv_layout c) t"
  from assms(1) obtain p where p: "bytes_at m ?b (0xe9 # bytes32 (p - (?b + 5)))"
    "chain_at m (sv_base c) (sv_used c) (sv_out c) p (sv_nodes c (t AND 0xffff))"
    by (auto simp: sieve_valid_def bucket_ok_def)
  have "bytes_at m (sv_stub c) (sieve_entry_bytes (sv_layout c))" using assms(1) by (simp add: sieve_valid_def)
  from runs_trans [OF sieve_entry_runs [OF this, of g, OF assms(2), of f] jmp_runs [OF p(1)]] p(2) that show thesis by simp
qed

interpretation sieve_code: dispatcher sieve_valid sv_stub sieve_target sv_out
proof
  fix c m f tc and g :: "u8 \<Rightarrow> u32"
  assume v: "sieve_valid c m" and t: "sieve_target c (ld32 m (g ESP + 4)) = Some tc"
  obtain p w where p: "runs \<lparr>h_eip = sv_stub c, h_reg = g, h_flags = f, h_mem = m\<rparr>
       \<lparr>h_eip = p, h_reg = g(ECX := w), h_flags = f, h_mem = m\<rparr>"
    "chain_at m (sv_base c) (sv_used c) (sv_out c) p (sv_nodes c (ld32 m (g ESP + 4) AND 0xffff))"
    using sieve_bucket_runs [OF v refl, of g f] by blast
  have "map_of (sv_nodes c (ld32 m (g ESP + 4) AND 0xffff)) (ld32 m ((g(ECX := w)) ESP + 4)) = Some tc"
    using t by (simp add: sieve_target_def)
  from runs_trans [OF p(1) chain_hit [OF p(2), of "g(ECX := w)", OF this]]
  show "runs \<lparr>h_eip = sv_stub c, h_reg = g, h_flags = f, h_mem = m\<rparr>
     \<lparr>h_eip = tc, h_reg = g(ECX := ld32 m (g ESP), ESP := g ESP + 8), h_flags = f, h_mem = m\<rparr>" by simp
next
  fix c m f and g :: "u8 \<Rightarrow> u32"
  assume v: "sieve_valid c m" and t: "sieve_target c (ld32 m (g ESP + 4)) = None"
  obtain p w where p: "runs \<lparr>h_eip = sv_stub c, h_reg = g, h_flags = f, h_mem = m\<rparr>
       \<lparr>h_eip = p, h_reg = g(ECX := w), h_flags = f, h_mem = m\<rparr>"
    "chain_at m (sv_base c) (sv_used c) (sv_out c) p (sv_nodes c (ld32 m (g ESP + 4) AND 0xffff))"
    using sieve_bucket_runs [OF v refl, of g f] by blast
  have "map_of (sv_nodes c (ld32 m (g ESP + 4) AND 0xffff)) (ld32 m ((g(ECX := w)) ESP + 4)) = None"
    using t by (simp add: sieve_target_def)
  from chain_miss [OF p(2), of "g(ECX := w)" f, OF this] p(1)
  show "\<exists>v. runs \<lparr>h_eip = sv_stub c, h_reg = g, h_flags = f, h_mem = m\<rparr>
     \<lparr>h_eip = sv_out c, h_reg = g(ECX := v), h_flags = f, h_mem = m\<rparr>"
    by (auto intro: runs_trans)
qed

section \<open>Frames\<close>

lemma sieve_node_bytes_length [simp]: "length (sieve_node_bytes p pc nx tc) = 27"
  by (simp add: sieve_node_bytes_def)

lemma chain_at_cong:
  assumes "\<And>a. a \<in> region v k \<Longrightarrow> m' a = m a" "chain_at m v k e p ns"
  shows "chain_at m' v k e p ns"
  using assms(2)
proof (induction ns arbitrary: p)
  case (Cons n ns)
  then obtain nx where nx: "region p 27 \<subseteq> region v k" "bytes_at m p (sieve_node_bytes p (fst n) nx (snd n))"
    "chain_at m v k e nx ns" by auto
  have "bytes_at m' p (sieve_node_bytes p (fst n) nx (snd n))"
    using nx(2) by (rule iffD2 [OF bytes_at_cong, rotated]) (use nx(1) assms(1) in auto)
  with nx Cons.IH show ?case by auto
qed simp

lemma chain_at_mono: "chain_at m v k e p ns \<Longrightarrow> k \<le> k' \<Longrightarrow> chain_at m v k' e p ns"
  by (induction ns arbitrary: p) (auto dest: region_mono [of k k' v])

abbreviation table_size :: nat where "table_size \<equiv> 8 * 65536"

lemma bucket_offset:
  "bucket_addr L t = a_sieve_hashtable L + of_nat (8 * unat (t AND 0xffff))" "unat (t AND 0xffff) < 65536"
proof -
  have "push_bit 3 (t AND 0xffff) = 8 * (t AND 0xffff)" by (simp add: push_bit_eq_mult)
  then show "bucket_addr L t = a_sieve_hashtable L + of_nat (8 * unat (t AND 0xffff))"
    by (simp add: bucket_addr_def)
  have "t AND 0xffff = take_bit 16 t" by (simp add: take_bit_eq_mask mask_eq_exp_minus_1)
  then have "unat (t AND 0xffff) = take_bit 16 (unat t)" by (simp add: unsigned_take_bit_eq)
  also have "\<dots> < 2 ^ 16" by (rule take_bit_nat_less_exp)
  finally show "unat (t AND 0xffff) < 65536" by simp
qed

lemma bucket_region: "region (bucket_addr L t) 8 \<subseteq> region (a_sieve_hashtable L) table_size"
proof -
  have "region (bucket_addr L t) 8 \<subseteq> region (a_sieve_hashtable L) (8 * unat (t AND 0xffff) + 8)"
    unfolding bucket_offset(1) [of L t] by (rule region_shift)
  also have "\<dots> \<subseteq> region (a_sieve_hashtable L) table_size"
    using bucket_offset(2) [of t] by (intro region_mono) simp
  finally show ?thesis .
qed

lemma bucket_apart:
  assumes "t AND 0xffff \<noteq> u AND 0xffff"
  shows "region (bucket_addr L t) 8 \<inter> region (bucket_addr L u) 8 = {}"
proof -
  have ne: "unat (t AND 0xffff) \<noteq> unat (u AND 0xffff)" using assms by (simp add: word_unat_eq_iff)
  show ?thesis
    unfolding bucket_offset(1)
    using ne bucket_offset(2) [of t] bucket_offset(2) [of u]
      region_apart [of "8 * unat (t AND 0xffff)" 8 "8 * unat (u AND 0xffff)" 8 "a_sieve_hashtable L"]
      region_apart [of "8 * unat (u AND 0xffff)" 8 "8 * unat (t AND 0xffff)" 8 "a_sieve_hashtable L"]
    by (cases "unat (t AND 0xffff) < unat (u AND 0xffff)") (auto simp: Int_commute)
qed

text \<open>Memory that differs outside the table and the used part of the buffer holds the same sieve.\<close>

lemma sieve_valid_frame:
  assumes "sieve_valid c m"
    and buf: "\<And>a. a \<in> region (sv_base c) (sv_used c) \<Longrightarrow> m' a = m a"
    and tab: "\<And>a. a \<in> region (a_sieve_hashtable (sv_layout c)) table_size \<Longrightarrow> m' a = m a"
  shows "sieve_valid c m'"
proof -
  have "bytes_at m' (sv_stub c) (sieve_entry_bytes (sv_layout c)) = bytes_at m (sv_stub c) (sieve_entry_bytes (sv_layout c))"
    by (rule bytes_at_cong) (use assms(1) buf in \<open>auto simp: sieve_valid_def sieve_entry_bytes_def\<close>)
  moreover have "bucket_ok c m' t" if "bucket_ok c m t" for t
  proof -
    let ?b = "bucket_addr (sv_layout c) t"
    from that obtain p where p: "bytes_at m ?b (0xe9 # bytes32 (p - (?b + 5)))"
      "chain_at m (sv_base c) (sv_used c) (sv_out c) p (sv_nodes c (t AND 0xffff))" by (auto simp: bucket_ok_def)
    have "bytes_at m' ?b (0xe9 # bytes32 (p - (?b + 5))) = bytes_at m ?b (0xe9 # bytes32 (p - (?b + 5)))"
      by (rule bytes_at_cong)
        (use tab bucket_region [of "sv_layout c" t] region_mono [of 5 8 ?b] in auto)
    with p chain_at_cong [OF buf p(2)] show ?thesis by (auto simp: bucket_ok_def)
  qed
  ultimately show ?thesis using assms(1) by (auto simp: sieve_valid_def)
qed

section \<open>The empty sieve\<close>

lemma sv_fill_frame: "a \<notin> region p (8 * n) \<Longrightarrow> sv_fill n p e m a = m a"
proof (induction n arbitrary: p m)
  case (Suc n)
  have "a \<notin> region (p + of_nat 8) (8 * n)" "a \<notin> region p 5"
    using Suc.prems region_shift [of p 8 "8 * n"] region_mono [of 5 "8 * Suc n" p] by auto
  then show ?case using Suc.IH [of "p + 8"] by (simp add: write_bytes_frame del: write_bytes.simps)
qed simp

lemma sv_fill_entry:
  assumes "i < n" "8 * n \<le> 2 ^ 32"
  shows "bytes_at (sv_fill n p e m) (p + of_nat (8 * i)) (0xe9 # bytes32 (e - (p + of_nat (8 * i) + 5)))"
  using assms
proof (induction n arbitrary: i p m)
  case (Suc n)
  show ?case
  proof (cases i)
    case 0
    have apart: "region p 5 \<inter> region (p + of_nat 8) (8 * n) = {}"
      using region_apart [of 0 5 8 "8 * n" p] Suc.prems(2) by simp
    let ?b = "0xe9 # bytes32 (e - (p + 1) - 4)"
    have "bytes_at (sv_fill n (p + 8) e (write_bytes m p ?b)) p ?b = bytes_at (write_bytes m p ?b) p ?b"
      by (rule bytes_at_cong) (use apart in \<open>auto intro!: sv_fill_frame\<close>)
    moreover have "bytes_at (write_bytes m p ?b) p ?b" by (rule bytes_at_write_bytes) simp
    ultimately show ?thesis using 0 by (simp del: write_bytes.simps bytes_at.simps add: algebra_simps)
  next
    case (Suc j)
    then show ?thesis using Suc.IH [of j "p + 8"] Suc.prems by (simp del: bytes_at.simps add: algebra_simps)
  qed
qed simp


text \<open>After the table is filled every bucket leads to the exit.\<close>

lemma sv_fill_valid:
  assumes "bytes_at m st (sieve_entry_bytes L)" "region st 16 \<subseteq> region v k"
    and "region v k \<inter> region (a_sieve_hashtable L) table_size = {}"
  shows "sieve_valid \<lparr>sv_layout = L, sv_stub = st, sv_base = v, sv_used = k, sv_out = e, sv_nodes = (\<lambda>_. [])\<rparr>
     (sv_fill 65536 (a_sieve_hashtable L) e m)" (is "sieve_valid ?c ?m")
proof -
  have "bytes_at ?m st (sieve_entry_bytes L) = bytes_at m st (sieve_entry_bytes L)"
    by (rule bytes_at_cong, rule sv_fill_frame) (use assms(2,3) in \<open>auto simp: sieve_entry_bytes_def\<close>)
  moreover have "bucket_ok ?c ?m t" for t
    using sv_fill_entry [OF bucket_offset(2) [of t], of "a_sieve_hashtable L" e m]
    by (auto simp: bucket_ok_def bucket_offset(1) simp del: bytes_at.simps of_nat_mult)
  ultimately show ?thesis using assms(1,2) by (simp add: sieve_valid_def)
qed

section \<open>Adding a node\<close>

definition sieve_add :: "u32 \<Rightarrow> u32 \<Rightarrow> sieve \<Rightarrow> sieve" where
  "sieve_add pc tc c = c\<lparr>sv_used := sv_used c + 27,
     sv_nodes := (sv_nodes c)(pc AND 0xffff := (pc, tc) # sv_nodes c (pc AND 0xffff))\<rparr>"

lemma sieve_target_add: "sieve_target (sieve_add pc tc c) = (sieve_target c)(pc \<mapsto> tc)"
  by (auto simp: sieve_target_def sieve_add_def fun_eq_iff)

lemma SIEVE_HASH_bucket: "SIEVE_HASH (a_sieve_hashtable L) (push_bit 3 pc) = bucket_addr L pc"
  by (simp add: SIEVE_HASH_def bucket_addr_def push_bit_and)

text \<open>The memory after a node for \<open>pc\<close> was written behind the used part.\<close>

definition node_mem :: "layout \<Rightarrow> u32 \<Rightarrow> u32 \<Rightarrow> u32 \<Rightarrow> memory \<Rightarrow> memory" where
  "node_mem L q pc tc m =
     (let b = bucket_addr L pc
      in write_bytes (st32 m (b + 1) (q - (b + 5))) q (sieve_node_bytes q pc (b + 5 + ld32 m (b + 1)) tc))"

lemma add_sieve_entry_eq:
  assumes "tc_ptr (tbs s tb) \<noteq> NOT_TRANS_YET" "add_sieve_entry L tb s = Inr s'"
  shows "mem s' = node_mem L (sieve_code_ptr s) (tb_pc (tbs s tb)) (tc_ptr (tbs s tb)) (mem s)"
    and "sieve_code_ptr s' = sieve_code_ptr s + 27" and "code_ptr s' = code_ptr s" "tbs s' = tbs s"
  using assms
  by (auto simp: add_sieve_entry_def Let_def semit_def poke32_def node_mem_def SIEVE_HASH_bucket split: if_splits)

lemma node_mem_frame:
  assumes "a \<notin> region (bucket_addr L pc + 1) 4" "a \<notin> region q 27"
  shows "node_mem L q pc tc m a = m a"
  using assms by (simp add: node_mem_def Let_def write_bytes_frame st32_frame)

lemma node_mem_node:
  assumes "region q 27 \<inter> region (bucket_addr L pc) 8 = {}" "bytes_at m (bucket_addr L pc) (0xe9 # bytes32 (p - (bucket_addr L pc + 5)))"
  shows "bytes_at (node_mem L q pc tc m) q (sieve_node_bytes q pc p tc)"
    and "bytes_at (node_mem L q pc tc m) (bucket_addr L pc) (0xe9 # bytes32 (q - (bucket_addr L pc + 5)))"
proof -
  let ?b = "bucket_addr L pc"
  have "ld32 m (?b + 1) = p - (?b + 5)" and e9: "m ?b = 0xe9" using assms(2) by (simp_all add: bytes_at_bytes32)
  then have eq: "node_mem L q pc tc m = write_bytes (st32 m (?b + 1) (q - (?b + 5))) q (sieve_node_bytes q pc p tc)"
    by (simp add: node_mem_def Let_def)
  show "bytes_at (node_mem L q pc tc m) q (sieve_node_bytes q pc p tc)"
    unfolding eq by (rule bytes_at_write_bytes) simp
  have "?b \<notin> region (?b + 1) 4" by (simp add: region_def unsigned_minus_1_eq_mask mask_eq_exp_minus_1)
  then have "bytes_at (st32 m (?b + 1) (q - (?b + 5))) ?b (0xe9 # bytes32 (q - (?b + 5)))"
    using e9 by (simp add: bytes_at_bytes32 ld32_st32 st32_frame)
  moreover have "region ?b 5 \<inter> region q 27 = {}" using assms(1) region_mono [of 5 8 ?b] by auto
  ultimately show "bytes_at (node_mem L q pc tc m) ?b (0xe9 # bytes32 (q - (?b + 5)))"
    unfolding eq by (subst bytes_at_write_other) simp_all
qed

lemma sieve_valid_add:
  assumes valid: "sieve_valid c m" and q: "q = sv_base c + of_nat (sv_used c)"
    and disj: "region (sv_base c) (sv_used c + 27) \<inter> region (a_sieve_hashtable (sv_layout c)) table_size = {}"
    and room: "sv_used c + 27 \<le> 2 ^ 32"
  shows "sieve_valid (sieve_add pc tc c) (node_mem (sv_layout c) q pc tc m)" (is "sieve_valid ?c ?m")
proof -
  let ?L = "sv_layout c" and ?v = "sv_base c" and ?k = "sv_used c"
  let ?b = "bucket_addr ?L pc"
  have qk: "region q 27 \<subseteq> region ?v (?k + 27)" unfolding q by (rule region_shift)
  have b4: "region (?b + 1) 4 \<subseteq> region ?b 8" using region_shift [of ?b 1 4] region_mono [of "1 + 4" 8 ?b] by auto
  have kv: "region ?v ?k \<subseteq> region ?v (?k + 27)" by (rule region_mono) simp
  have "region ?v ?k \<inter> region q 27 = {}" using region_apart [of 0 ?k ?k 27 ?v] room q by simp
  then have buf: "?m a = m a" if "a \<in> region ?v ?k" for a
    using that b4 bucket_region [of ?L pc] disj kv by (intro node_mem_frame) blast+
  have stub: "bytes_at m (sv_stub c) (sieve_entry_bytes ?L)" "region (sv_stub c) 16 \<subseteq> region ?v ?k"
    using valid by (simp_all add: sieve_valid_def)
  have "bytes_at ?m (sv_stub c) (sieve_entry_bytes ?L) = bytes_at m (sv_stub c) (sieve_entry_bytes ?L)"
    by (rule bytes_at_cong) (use stub(2) buf in \<open>auto simp: sieve_entry_bytes_def\<close>)
  moreover have "bucket_ok ?c ?m t" for t
  proof -
    from valid obtain p where p: "bytes_at m (bucket_addr ?L t) (0xe9 # bytes32 (p - (bucket_addr ?L t + 5)))"
      "chain_at m ?v ?k (sv_out c) p (sv_nodes c (t AND 0xffff))" by (auto simp: sieve_valid_def bucket_ok_def)
    have old: "chain_at ?m ?v (?k + 27) (sv_out c) p (sv_nodes c (t AND 0xffff))"
      by (rule chain_at_mono [OF chain_at_cong [OF buf p(2)]]) simp_all
    have q_t: "region q 27 \<inter> region (bucket_addr ?L t) 8 = {}" using disj qk bucket_region [of ?L t] by blast
    show ?thesis
    proof (cases "t AND 0xffff = pc AND 0xffff")
      case True
      then have same: "bucket_addr ?L t = ?b" by (simp add: bucket_addr_def)
      note node = node_mem_node [OF q_t [unfolded same] p(1) [unfolded same], of tc]
      have "chain_at ?m ?v (?k + 27) (sv_out c) q ((pc, tc) # sv_nodes c (pc AND 0xffff))"
        using qk node(1) old True by auto
      with node(2) show ?thesis unfolding bucket_ok_def sieve_add_def same [symmetric]
        using True by (auto simp: same simp del: chain_at.simps)
    next
      case False
      have "bytes_at ?m (bucket_addr ?L t) (0xe9 # bytes32 (p - (bucket_addr ?L t + 5))) =
          bytes_at m (bucket_addr ?L t) (0xe9 # bytes32 (p - (bucket_addr ?L t + 5)))"
        by (rule bytes_at_cong, rule node_mem_frame)
          (use bucket_apart [OF False, of ?L] b4 q_t region_mono [of 5 8 "bucket_addr ?L t"] in auto)
      with p(1) old False show ?thesis by (auto simp: bucket_ok_def sieve_add_def simp del: bytes_at.simps)
    qed
  qed
  ultimately show ?thesis using stub kv by (auto simp: sieve_valid_def sieve_add_def)
qed

end
