(* ===== verification/Emitter_Inv.thy ===== *)
theory Emitter_Inv
  imports Emitter
begin

text \<open>
  What holds while a block is being translated: which bytes have been written, where the recorded
  patches lie, and how the \<^verbatim>\<open>patch_num\<close> counters of the blocks relate to the patch list.  Every
  emitter keeps this invariant or ends in one of a few named ways.
\<close>

section \<open>Outcomes\<close>

text \<open>
  The ways the emission of a block may end early; the reasons not in this list are never given.  The first four are
  refusals, tests of the code that end the process.  The last is a crash: the code calls the emit function of the
  instruction it has decoded, and for an instruction it does not support that is a null pointer.
\<close>

definition early_ends :: "abort_reason set" where
  "early_ends = {Tb_Flush, Patch_Num_Overflow, Data16_Branch, Addr16_Prefix, Null_Emitfn}"

definition sat :: "'a outcome \<Rightarrow> ('a \<Rightarrow> bool) \<Rightarrow> bool" where
  "sat r P = (case r of Inl e \<Rightarrow> e \<in> early_ends | Inr x \<Rightarrow> P x)"

lemma sat_Inr [simp]: "sat (Inr x) P = P x"
  by (simp add: sat_def)

lemma sat_Inl [simp]: "sat (Inl e) P = (e \<in> early_ends)"
  by (simp add: sat_def)

lemma sat_and_then:
  "sat r Q \<Longrightarrow> (\<And>x. Q x \<Longrightarrow> sat (f x) P) \<Longrightarrow> sat (and_then r f) P"
  by (cases r) auto

lemma sat_mono: "sat r Q \<Longrightarrow> (\<And>x. Q x \<Longrightarrow> P x) \<Longrightarrow> sat r P"
  by (cases r) auto

lemma satD: "sat r P \<Longrightarrow> r = Inr x \<Longrightarrow> P x"
  by simp

section \<open>Written bytes\<close>

definition ext :: "u32 \<Rightarrow> u32 \<Rightarrow> memory \<Rightarrow> nat \<Rightarrow> nat \<Rightarrow> trans_state \<Rightarrow> bool" where
  "ext c v m n k s \<longleftrightarrow> code_ptr s = c + of_nat n \<and> sieve_code_ptr s = v + of_nat k \<and>
     (\<forall>a. a \<notin> region c n \<longrightarrow> a \<notin> region v k \<longrightarrow> mem s a = m a)"

lemma ext_emit:
  assumes "ext c v m n k s"
  shows "ext c v m (n + length bs) k (emit bs s)"
proof -
  have "a \<notin> region (c + of_nat n) (length bs)" "a \<notin> region c n" if "a \<notin> region c (n + length bs)" for a
    using that region_shift [of c n "length bs"] region_mono [of n "n + length bs" c] by auto
  then show ?thesis
    using assms by (auto simp: ext_def emit_def write_bytes_frame algebra_simps)
qed

lemma ext_semit:
  assumes "ext c v m n k s"
  shows "ext c v m n (k + length bs) (semit bs s)"
proof -
  have "a \<notin> region (v + of_nat k) (length bs)" "a \<notin> region v k" if "a \<notin> region v (k + length bs)" for a
    using that region_shift [of v k "length bs"] region_mono [of k "k + length bs" v] by auto
  then show ?thesis
    using assms by (auto simp: ext_def semit_def write_bytes_frame algebra_simps)
qed

lemma ext_poke32:
  assumes "ext c v m n k s" and "o1 + 4 \<le> n"
  shows "ext c v m n k (poke32 (c + of_nat o1) x s)"
proof -
  have "a \<notin> region (c + of_nat o1) 4" if "a \<notin> region c n" for a
    using that region_shift [of c o1 4] region_mono [OF assms(2), of c] by auto
  then show ?thesis using assms by (auto simp: ext_def poke32_def st32_frame)
qed

lemma ext_poke8:
  assumes "ext c v m n k s" and "o1 < n"
  shows "ext c v m n k (poke8 (c + of_nat o1) x s)"
proof -
  have "c + of_nat o1 \<in> region c (o1 + 1)"
    by (rule subsetD [OF region_shift region_self]) simp
  then have "c + of_nat o1 \<in> region c n"
    using region_mono [of "o1 + 1" n c] assms(2) by auto
  then show ?thesis using assms by (auto simp: ext_def poke8_def)
qed

section \<open>The invariant\<close>

definition patch_tbs :: "trans_state \<Rightarrow> nat set" where
  "patch_tbs s = patch_tb ` set (patch_array s)"

text \<open>The patches lie in the emitted code, in order and apart from each other.\<close>

definition patches_at :: "u32 \<Rightarrow> nat \<Rightarrow> patch_entry list \<Rightarrow> bool" where
  "patches_at c n ps \<longleftrightarrow> (\<exists>os. map patch_at ps = map (\<lambda>o1. c + of_nat o1) os \<and>
     sorted_wrt (\<lambda>a b. a + 4 \<le> b) os \<and> (\<forall>o1\<in>set os. o1 + 4 \<le> n))"

definition blocks_ok :: "u32 \<Rightarrow> nat \<Rightarrow> trans_state \<Rightarrow> bool" where
  "blocks_ok c n s \<longleftrightarrow> tb_inv s \<and> cur_tb s < nb_tbs s \<and> distinct (map patch_tb (patch_array s)) \<and>
     (\<forall>p\<in>set (patch_array s). patch_tb p < nb_tbs s \<and> patch_tb_tag p = 0) \<and>
     (\<forall>i<nb_tbs s. patch_num (tbs s i) = (if i \<in> patch_tbs s then 1 else 0)) \<and>
     (\<forall>i\<in>insert (cur_tb s) (patch_tbs s). \<exists>o1\<le>n. tc_ptr (tbs s i) = c + of_nat o1)"

definition emit_inv :: "u32 \<Rightarrow> u32 \<Rightarrow> memory \<Rightarrow> nat \<Rightarrow> nat \<Rightarrow> trans_state \<Rightarrow> bool" where
  "emit_inv c v m n k s \<longleftrightarrow> ext c v m n k s \<and> patches_at c n (patch_array s) \<and> blocks_ok c n s"

text \<open>No branch of the current block has been noted yet.\<close>

definition fresh :: "trans_state \<Rightarrow> bool" where
  "fresh s \<longleftrightarrow> cur_tb s \<notin> patch_tbs s"

text \<open>What the emitters leave alone.\<close>

definition same_tbs :: "trans_state \<Rightarrow> trans_state \<Rightarrow> bool" where
  "same_tbs s s' \<longleftrightarrow> tbs s' = tbs s \<and> nb_tbs s' = nb_tbs s \<and> tb_phys_hash s' = tb_phys_hash s \<and>
     tb_jmp_cache s' = tb_jmp_cache s \<and> patch_array s' = patch_array s \<and> cur_tb s' = cur_tb s"

lemma tb_inv_same: "same_tbs s s' \<Longrightarrow> tb_inv s' = tb_inv s"
  by (simp add: same_tbs_def tb_inv_def bucket_def tb_of_def)

lemma blocks_ok_same: "same_tbs s s' \<Longrightarrow> blocks_ok c n s' = blocks_ok c n s"
  using tb_inv_same [of s s'] by (simp add: blocks_ok_def same_tbs_def patch_tbs_def)

lemma fresh_same: "same_tbs s s' \<Longrightarrow> fresh s' = fresh s"
  by (simp add: fresh_def same_tbs_def patch_tbs_def)

lemma patches_at_mono: "patches_at c n ps \<Longrightarrow> n \<le> n' \<Longrightarrow> patches_at c n' ps"
  unfolding patches_at_def by (meson order_trans)

lemma blocks_ok_mono: "blocks_ok c n s \<Longrightarrow> n \<le> n' \<Longrightarrow> blocks_ok c n' s"
  unfolding blocks_ok_def by (meson order_trans)

lemma emit_inv_step:
  assumes "emit_inv c v m n k s" "same_tbs s s'" "ext c v m n' k' s'" "n \<le> n'"
  shows "emit_inv c v m n' k' s'"
  using assms blocks_ok_same [OF assms(2)] blocks_ok_mono [of c n s n'] patches_at_mono [of c n _ n']
  by (auto simp: emit_inv_def same_tbs_def)

lemma same_tbs_simps [simp]:
  "same_tbs s (emit bs s)" "same_tbs s (semit bs s)" "same_tbs s (poke32 p x s)" "same_tbs s (poke8 p y s)"
  by (simp_all add: same_tbs_def emit_def semit_def poke32_def poke8_def)

lemma emit_inv_emit: "emit_inv c v m n k s \<Longrightarrow> emit_inv c v m (n + length bs) k (emit bs s)"
  by (rule emit_inv_step [where s = s]) (auto simp: emit_inv_def intro: ext_emit)

lemma emit_inv_emit': "emit_inv c v m n k s \<Longrightarrow> n' = n + length bs \<Longrightarrow> emit_inv c v m n' k (emit bs s)"
  by (simp add: emit_inv_emit)

lemma emit_inv_rel32: "emit_inv c v m n k s \<Longrightarrow> n' = n + 4 \<Longrightarrow> emit_inv c v m n' k (emit_rel32 t s)"
  by (simp add: emit_rel32_def emit_inv_emit')

lemma emit_rel32_fields [simp]:
  "cur_tb (emit_rel32 t s) = cur_tb s" "pc_ptr (emit_rel32 t s) = pc_ptr s"
  "patch_array (emit_rel32 t s) = patch_array s" "tbs (emit_rel32 t s) = tbs s"
  "nb_tbs (emit_rel32 t s) = nb_tbs s" "insn_len (emit_rel32 t s) = insn_len s"
  by (simp_all add: emit_rel32_def emit_def)

lemma emit_inv_semit: "emit_inv c v m n k s \<Longrightarrow> emit_inv c v m n (k + length bs) (semit bs s)"
  by (rule emit_inv_step [where s = s]) (auto simp: emit_inv_def intro: ext_semit)

lemma emit_inv_poke32:
  "emit_inv c v m n k s \<Longrightarrow> o1 + 4 \<le> n \<Longrightarrow> emit_inv c v m n k (poke32 (c + of_nat o1) x s)"
  by (rule emit_inv_step [where s = s and n = n and k = k]) (auto simp: emit_inv_def intro: ext_poke32)

lemma emit_inv_poke8:
  "emit_inv c v m n k s \<Longrightarrow> o1 < n \<Longrightarrow> emit_inv c v m n k (poke8 (c + of_nat o1) y s)"
  by (rule emit_inv_step [where s = s and n = n and k = k]) (auto simp: emit_inv_def intro: ext_poke8)

lemma emit_fields [simp]:
  "cur_tb (emit bs s) = cur_tb s" "pc_ptr (emit bs s) = pc_ptr s" "patch_array (emit bs s) = patch_array s"
  "tbs (emit bs s) = tbs s" "sieve_stub (emit bs s) = sieve_stub s" "tb_ret_addr (emit bs s) = tb_ret_addr s"
  "insn_len (emit bs s) = insn_len s" "sieve_code_ptr (emit bs s) = sieve_code_ptr s"
  "nb_tbs (emit bs s) = nb_tbs s" "fresh (emit bs s) = fresh s"
  by (simp_all add: emit_def fresh_def patch_tbs_def)

lemma poke_fields [simp]:
  "cur_tb (poke32 p x s) = cur_tb s" "pc_ptr (poke32 p x s) = pc_ptr s"
  "patch_array (poke32 p x s) = patch_array s" "tbs (poke32 p x s) = tbs s"
  "code_ptr (poke32 p x s) = code_ptr s" "sieve_stub (poke32 p x s) = sieve_stub s"
  "fresh (poke32 p x s) = fresh s" "tb_ret_addr (poke32 p x s) = tb_ret_addr s"
  "sieve_code_ptr (poke32 p x s) = sieve_code_ptr s" "nb_tbs (poke32 p x s) = nb_tbs s"
  "cur_tb (poke8 p y s) = cur_tb s" "pc_ptr (poke8 p y s) = pc_ptr s"
  "patch_array (poke8 p y s) = patch_array s" "tbs (poke8 p y s) = tbs s"
  "code_ptr (poke8 p y s) = code_ptr s" "sieve_stub (poke8 p y s) = sieve_stub s"
  "fresh (poke8 p y s) = fresh s" "tb_ret_addr (poke8 p y s) = tb_ret_addr s"
  by (simp_all add: poke32_def poke8_def fresh_def patch_tbs_def)

lemma upd_tb_fields [simp]:
  "cur_tb (upd_tb i f s) = cur_tb s" "pc_ptr (upd_tb i f s) = pc_ptr s"
  "patch_array (upd_tb i f s) = patch_array s" "code_ptr (upd_tb i f s) = code_ptr s"
  "sieve_code_ptr (upd_tb i f s) = sieve_code_ptr s" "mem (upd_tb i f s) = mem s"
  "sieve_stub (upd_tb i f s) = sieve_stub s" "tb_ret_addr (upd_tb i f s) = tb_ret_addr s"
  "insn_len (upd_tb i f s) = insn_len s" "fresh (upd_tb i f s) = fresh s"
  by (simp_all add: upd_tb_def fresh_def patch_tbs_def)

lemma emit_inv_code_ptr: "emit_inv c v m n k s \<Longrightarrow> code_ptr s = c + of_nat n"
  by (simp add: emit_inv_def ext_def)

text \<open>The counters and the program counter play no part.\<close>

lemma emit_inv_counter:
  assumes "same_tbs s s'" "mem s' = mem s" "code_ptr s' = code_ptr s" "sieve_code_ptr s' = sieve_code_ptr s"
  shows "emit_inv c v m n k s' = emit_inv c v m n k s"
  using assms blocks_ok_same [OF assms(1)] by (simp add: emit_inv_def ext_def same_tbs_def)

lemma emit_inv_counters [simp]:
  "emit_inv c v m n k (s\<lparr>call_count := x\<rparr>) = emit_inv c v m n k s"
  "emit_inv c v m n k (s\<lparr>call_ind_count := x\<rparr>) = emit_inv c v m n k s"
  "emit_inv c v m n k (s\<lparr>ret_count := x\<rparr>) = emit_inv c v m n k s"
  "emit_inv c v m n k (s\<lparr>retIw_count := x\<rparr>) = emit_inv c v m n k s"
  "emit_inv c v m n k (s\<lparr>jcond_count := x\<rparr>) = emit_inv c v m n k s"
  "emit_inv c v m n k (s\<lparr>jothercond_count := x\<rparr>) = emit_inv c v m n k s"
  "emit_inv c v m n k (s\<lparr>jmp_count := x\<rparr>) = emit_inv c v m n k s"
  "emit_inv c v m n k (s\<lparr>j_ind_count := x\<rparr>) = emit_inv c v m n k s"
  "emit_inv c v m n k (s\<lparr>end_by_transnext := x\<rparr>) = emit_inv c v m n k s"
  "emit_inv c v m n k (s\<lparr>find_dest_count := x\<rparr>) = emit_inv c v m n k s"
  "emit_inv c v m n k (s\<lparr>insn_len := x\<rparr>) = emit_inv c v m n k s"
  "emit_inv c v m n k (s\<lparr>pc_ptr := x\<rparr>) = emit_inv c v m n k s"
  "emit_inv c v m n k (s\<lparr>stbs := y\<rparr>) = emit_inv c v m n k s"
  by (rule emit_inv_counter; simp add: same_tbs_def)+

section \<open>Stores into blocks\<close>

definition benign :: "(TranslationBlock \<Rightarrow> TranslationBlock) \<Rightarrow> bool" where
  "benign f \<longleftrightarrow> keeps_key f \<and> (\<forall>t. tc_ptr (f t) = tc_ptr t \<and> patch_num (f t) = patch_num t \<and>
     jmp_from_index (f t) = jmp_from_index t \<and> (tb_shape t \<longrightarrow> tb_shape (f t)))"

lemma blocks_ok_upd:
  assumes "blocks_ok c n s" "tb_inv (upd_tb i f s)" "\<And>t. tc_ptr (f t) = tc_ptr t" "\<And>t. patch_num (f t) = patch_num t"
  shows "blocks_ok c n (upd_tb i f s)"
  using assms by (auto simp: blocks_ok_def patch_tbs_def)

lemma emit_inv_upd:
  assumes "emit_inv c v m n k s" "tb_inv (upd_tb i f s)" "\<And>t. tc_ptr (f t) = tc_ptr t" "\<And>t. patch_num (f t) = patch_num t"
  shows "emit_inv c v m n k (upd_tb i f s)"
  using assms blocks_ok_upd [of c n s i f] by (simp add: emit_inv_def ext_def)

lemma tb_inv_benign: "tb_inv s \<Longrightarrow> benign f \<Longrightarrow> tb_inv (upd_tb i f s)"
  by (rule tb_inv_upd_tb) (auto simp: benign_def tb_inv_def)

lemma emit_inv_benign: "emit_inv c v m n k s \<Longrightarrow> benign f \<Longrightarrow> emit_inv c v m n k (upd_tb i f s)"
  by (rule emit_inv_upd) (auto simp: emit_inv_def blocks_ok_def tb_inv_benign, auto simp: benign_def)

lemma benign_updates [simp, intro]:
  "benign (tb_type_update (\<lambda>_. x))" "benign (ind_enter_sieve_update (\<lambda>_. x))"
  "benign (jind_src_addr_update (\<lambda>xs. xs[j := x]))" "benign (jind_dest_addr_update (\<lambda>xs. xs[j := x]))"
  "benign (\<lambda>t. t\<lparr>insn_count := insn_count t + 1\<rparr>)"
  by (simp_all add: benign_def keeps_key_def tb_shape_def)

lemma set_jmp_offset_ok:
  assumes "emit_inv c v m n k s" "i < nb_tbs s"
  obtains os where "set_jmp_offset i x s = Inr (upd_tb i (tb_jmp_offset_update (\<lambda>_. os)) s)"
    "os = (tb_jmp_offset (tbs s i))[unat (patch_num (tbs s i)) := ucast x]"
    "emit_inv c v m n k (upd_tb i (tb_jmp_offset_update (\<lambda>_. os)) s)"
proof -
  let ?os = "(tb_jmp_offset (tbs s i))[unat (patch_num (tbs s i)) := ucast x]"
  have inv: "tb_inv s" "patch_num (tbs s i) = (if i \<in> patch_tbs s then 1 else 0)"
    using assms by (auto simp: emit_inv_def blocks_ok_def)
  then have shape: "tb_shape (tbs s i)" and num: "unat (patch_num (tbs s i)) < 8"
    by (auto simp: tb_inv_def)
  then have "set_jmp_offset i x s = Inr (upd_tb i (tb_jmp_offset_update (\<lambda>_. ?os)) s)"
    by (simp add: set_jmp_offset_def set_slot_def tb_shape_def)
  moreover have "tb_inv (upd_tb i (tb_jmp_offset_update (\<lambda>_. ?os)) s)"
    using inv(1) shape by (intro tb_inv_upd_tb) (auto simp: keeps_key_def tb_shape_def tb_inv_def)
  then have "emit_inv c v m n k (upd_tb i (tb_jmp_offset_update (\<lambda>_. ?os)) s)"
    using assms(1) by (intro emit_inv_upd) auto
  ultimately show ?thesis using that by blast
qed

lemma emit_inv_add_jmp_from:
  assumes "emit_inv c v m n k s" "j < nb_tbs s"
  obtains f where "tb_add_jmp_from i j x s = Inr (upd_tb j f s)" "emit_inv c v m n k (upd_tb j f s)"
    "\<And>t. tc_ptr (f t) = tc_ptr t" "\<And>t. patch_num (f t) = patch_num t" "\<And>t. tb_jmp_offset (f t) = tb_jmp_offset t"
proof -
  have "tb_inv s" using assms by (simp add: emit_inv_def blocks_ok_def)
  from tb_add_jmp_from_ok [OF this assms(2), of i x] obtain f where
    f: "tb_add_jmp_from i j x s = Inr (upd_tb j f s)" "tb_inv (upd_tb j f s)"
    "\<forall>t. tc_ptr (f t) = tc_ptr t \<and> patch_num (f t) = patch_num t \<and> tb_jmp_offset (f t) = tb_jmp_offset t"
    by blast
  then have "emit_inv c v m n k (upd_tb j f s)" using assms(1) by (intro emit_inv_upd) auto
  with f show ?thesis using that by blast
qed

lemma emit_inv_find:
  assumes "emit_inv c v m n k s"
  obtains jc where "tb_find_fast pc 0 s = Inr (tb_of s pc, s\<lparr>tb_jmp_cache := jc\<rparr>)"
    "emit_inv c v m n k (s\<lparr>tb_jmp_cache := jc\<rparr>)"
proof -
  have "tb_inv s" using assms by (simp add: emit_inv_def blocks_ok_def)
  then obtain jc where jc: "tb_find_fast pc 0 s = Inr (tb_of s pc, s\<lparr>tb_jmp_cache := jc\<rparr>)"
    "tb_inv (s\<lparr>tb_jmp_cache := jc\<rparr>)" by (rule tb_find_fast_spec)
  moreover have "emit_inv c v m n k (s\<lparr>tb_jmp_cache := jc\<rparr>)"
    using assms jc(2) by (simp add: emit_inv_def ext_def blocks_ok_def patch_tbs_def)
  ultimately show ?thesis using that by blast
qed

lemma make_tb_fields:
  assumes "make_tb pc fa (s :: trans_state) = Inr (i, s')"
  shows "cur_tb s' = cur_tb s" "pc_ptr s' = pc_ptr s" "patch_array s' = patch_array s" "code_ptr s' = code_ptr s"
    "sieve_code_ptr s' = sieve_code_ptr s" "mem s' = mem s" "tb_ret_addr s' = tb_ret_addr s"
    "sieve_stub s' = sieve_stub s" "insn_len s' = insn_len s" "i = nb_tbs s" "nb_tbs s' = Suc (nb_tbs s)"
  using assms by (auto elim!: make_tb_elim)

lemma emit_inv_make:
  assumes "emit_inv c v m n k s" "make_tb pc fa s = Inr (i, s')"
  shows "emit_inv c v m n k s'" "fresh s' = fresh s"
proof -
  note mf = make_tb_fields [OF assms(2)]
  have lt: "\<forall>i\<in>insert (cur_tb s) (patch_tbs s). i < nb_tbs s" "tb_inv s"
    using assms(1) by (auto simp: emit_inv_def blocks_ok_def patch_tbs_def)
  have old: "tbs s' j = tbs s j" if "j < nb_tbs s" for j
    using make_tb_new(3) [OF assms(2), of j] that mf by simp
  have "blocks_ok c n s'"
    using assms(1) mf lt make_tb_inv [OF lt(2) assms(2)] make_tb_new(7) [OF assms(2)]
    by (auto simp: emit_inv_def blocks_ok_def patch_tbs_def less_Suc_eq old)
  then show "emit_inv c v m n k s'" using assms(1) mf by (simp add: emit_inv_def ext_def)
  show "fresh s' = fresh s" using mf by (simp add: fresh_def patch_tbs_def)
qed

lemma make_tb_soft: "sat (make_tb pc fa s) (\<lambda>(i, s'). make_tb pc fa s = Inr (i, s'))"
  by (cases "make_tb pc fa s") (auto simp: make_tb_def early_ends_def Let_def split: option.splits)

section \<open>Noting a patch and continuing\<close>

lemma patches_at_snoc:
  assumes "patches_at c o1 ps" "o1 + 4 \<le> n" "patch_at p = c + of_nat o1"
  shows "patches_at c n (ps @ [p])"
proof -
  from assms(1) obtain os where "map patch_at ps = map (\<lambda>o1. c + of_nat o1) os"
    "sorted_wrt (\<lambda>a b. a + 4 \<le> b) os" "\<forall>x\<in>set os. x + 4 \<le> o1"
    by (auto simp: patches_at_def)
  with assms(2,3) show ?thesis
    unfolding patches_at_def by (intro exI [of _ "os @ [o1]"]) (auto simp: sorted_wrt_append intro: order_trans)
qed

lemma note_patch_sat:
  assumes "emit_inv c v m n k s" "fresh s" "length (patch_array s) < 256"
    and "patches_at c o1 (patch_array s)" "o1 + 4 \<le> n"
  shows "sat (note_patch L (c + of_nat o1) to (cur_tb s) fa 0 s)
     (\<lambda>s'. emit_inv c v m n k s' \<and> length (patch_array s') = Suc (length (patch_array s)) \<and>
        pc_ptr s' = pc_ptr s \<and> cur_tb s' = cur_tb s \<and> code_ptr s' = code_ptr s)"
proof -
  let ?p = "\<lparr>patch_at = c + of_nat o1, patch_to = to, patch_tb = cur_tb s, patch_func_addr = fa, patch_tb_tag = 0\<rparr>"
  let ?s = "upd_tb (cur_tb s) (\<lambda>t. t\<lparr>patch_num := patch_num t + 1\<rparr>) (s\<lparr>patch_array := patch_array s @ [?p]\<rparr>)"
  have b: "blocks_ok c n s" using assms(1) by (simp add: emit_inv_def)
  have "tb_inv (s\<lparr>patch_array := patch_array s @ [?p]\<rparr>)"
    using b by (simp add: blocks_ok_def tb_inv_def bucket_def tb_of_def)
  then have "tb_inv ?s"
    by (intro tb_inv_upd_tb) (auto simp: keeps_key_def tb_shape_def tb_inv_def)
  then have "blocks_ok c n ?s"
    using b assms(2) by (auto simp: blocks_ok_def fresh_def patch_tbs_def)
  moreover have "patches_at c n (patch_array s @ [?p])"
    using patches_at_snoc [OF assms(4,5), of ?p] by simp
  ultimately have "emit_inv c v m n k ?s"
    using assms(1) by (simp add: emit_inv_def ext_def)
  then show ?thesis using assms(3) by (auto simp: note_patch_def early_ends_def)
qed

text \<open>What an emitter establishes when it returns.\<close>

definition emitted :: "u32 \<Rightarrow> u32 \<Rightarrow> memory \<Rightarrow> nat \<Rightarrow> nat \<Rightarrow> trans_state \<Rightarrow> bool \<times> trans_state \<Rightarrow> bool" where
  "emitted c v m N k s = (\<lambda>(cont, s'). (\<exists>n\<le>N. emit_inv c v m n k s') \<and>
     length (patch_array s') \<le> Suc (length (patch_array s)) \<and> pc_ptr s' = pc_ptr s \<and> (cont \<longrightarrow> fresh s'))"

definition nty_clear :: "u32 \<Rightarrow> nat \<Rightarrow> bool" where
  "nty_clear c N \<longleftrightarrow> (\<forall>o1\<le>N. c + of_nat o1 \<noteq> NOT_TRANS_YET)"

lemma emit_inv_retarget:
  assumes "emit_inv c v m n k s" "i < nb_tbs s" "i \<notin> patch_tbs s"
  shows "emit_inv c v m n k ((upd_tb i (tc_ptr_update (\<lambda>_. code_ptr s)) s)\<lparr>cur_tb := i\<rparr>)"
proof -
  let ?u = "upd_tb i (tc_ptr_update (\<lambda>_. code_ptr s)) s"
  have b: "blocks_ok c n s" and cp: "code_ptr s = c + of_nat n"
    using assms(1) by (simp_all add: emit_inv_def ext_def)
  have "tb_inv ?u"
    using b by (intro tb_inv_upd_tb) (auto simp: blocks_ok_def keeps_key_def tb_shape_def tb_inv_def)
  then have "tb_inv (?u\<lparr>cur_tb := i\<rparr>)" by (simp add: tb_inv_def bucket_def tb_of_def)
  then have "blocks_ok c n (?u\<lparr>cur_tb := i\<rparr>)"
    using b assms(2,3) cp by (auto simp: blocks_ok_def patch_tbs_def)
  then show ?thesis using assms(1) by (simp add: emit_inv_def ext_def)
qed

lemma not_translated_fresh:
  assumes "emit_inv c v m n k s" "nty_clear c N" "n \<le> N" "tc_ptr (tbs s i) = NOT_TRANS_YET"
  shows "i \<notin> patch_tbs s"
proof
  assume "i \<in> patch_tbs s"
  then obtain o1 where "o1 \<le> n" "tc_ptr (tbs s i) = c + of_nat o1"
    using assms(1) by (auto simp: emit_inv_def blocks_ok_def)
  then show False using assms by (auto simp: nty_clear_def)
qed

lemma trans_next_link:
  assumes "emit_inv c v m n k s" "i < nb_tbs s"
  shows "\<exists>s'. and_then (set_jmp_offset (cur_tb s) x s)
      (\<lambda>s. and_then (tb_add_jmp_from (cur_tb s) i (unat (patch_num (tbs s (cur_tb s)))) s) (\<lambda>s. Inr (False, s)))
      = Inr (False, s') \<and> emit_inv c v m n k s' \<and> patch_array s' = patch_array s \<and> pc_ptr s' = pc_ptr s"
proof -
  have "cur_tb s < nb_tbs s" using assms(1) by (simp add: emit_inv_def blocks_ok_def)
  with assms(1) obtain os where
    os: "set_jmp_offset (cur_tb s) x s = Inr (upd_tb (cur_tb s) (tb_jmp_offset_update (\<lambda>_. os)) s)"
    and inv: "emit_inv c v m n k (upd_tb (cur_tb s) (tb_jmp_offset_update (\<lambda>_. os)) s)"
    by (rule set_jmp_offset_ok)
  let ?s = "upd_tb (cur_tb s) (tb_jmp_offset_update (\<lambda>_. os)) s"
  have "i < nb_tbs ?s" using assms(2) by simp
  with inv obtain f where
    "tb_add_jmp_from (cur_tb ?s) i (unat (patch_num (tbs ?s (cur_tb ?s)))) ?s = Inr (upd_tb i f ?s)"
    "emit_inv c v m n k (upd_tb i f ?s)" by (rule emit_inv_add_jmp_from)
  with os show ?thesis by (intro exI [of _ "upd_tb i f ?s"]) (simp del: upd_tb_simps(1))
qed

lemma trans_next_sat:
  assumes "emit_inv c v m n k s" "nty_clear c N" "n \<le> N"
  shows "sat (trans_next ds s) (\<lambda>(cont, s'). (\<exists>n'\<le>n + 5. emit_inv c v m n' k s') \<and>
     patch_array s' = patch_array s \<and> pc_ptr s' = pc_ptr s \<and> (cont \<longrightarrow> fresh s'))"
proof (cases "flag_set (ds_opstate ds) OPSTATE_DATA32")
  case False
  then show ?thesis by (simp add: trans_next_def early_ends_def)
next
  case True
  from assms(1) obtain jc where find: "tb_find_fast (pc_ptr s) 0 s = Inr (tb_of s (pc_ptr s), s\<lparr>tb_jmp_cache := jc\<rparr>)"
    and inv: "emit_inv c v m n k (s\<lparr>tb_jmp_cache := jc\<rparr>)" by (rule emit_inv_find)
  let ?s = "s\<lparr>tb_jmp_cache := jc\<rparr>"
  show ?thesis
  proof (cases "tb_of s (pc_ptr s)")
    case None
    have "sat (make_tb (pc_ptr ?s) (func_addr (tbs ?s (cur_tb ?s))) ?s) (\<lambda>(i, s'). emit_inv c v m n k
        ((upd_tb i (tc_ptr_update (\<lambda>_. code_ptr s')) s')\<lparr>cur_tb := i\<rparr>) \<and> i \<notin> patch_tbs s' \<and>
        patch_array s' = patch_array s \<and> pc_ptr s' = pc_ptr s)"
    proof (rule sat_mono [OF make_tb_soft], clarify)
      fix i s' assume mk: "make_tb (pc_ptr ?s) (func_addr (tbs ?s (cur_tb ?s))) ?s = Inr (i, s')"
      note mf = make_tb_fields [OF mk]
      have i: "i \<notin> patch_tbs s'" using inv mf by (auto simp: emit_inv_def blocks_ok_def patch_tbs_def)
      then show "emit_inv c v m n k ((upd_tb i (tc_ptr_update (\<lambda>_. code_ptr s')) s')\<lparr>cur_tb := i\<rparr>) \<and>
          i \<notin> patch_tbs s' \<and> patch_array s' = patch_array s \<and> pc_ptr s' = pc_ptr s"
        using emit_inv_retarget [OF emit_inv_make(1) [OF inv mk] _ i] mf by simp
    qed
    then show ?thesis using True find None
      by (auto simp: trans_next_def fresh_def patch_tbs_def intro!: sat_and_then exI [of _ n])
  next
    case (Some i)
    then have lt: "i < nb_tbs ?s" using tb_of_SomeD [of s "pc_ptr s" i] by simp
    show ?thesis
    proof (cases "tc_ptr (tbs ?s i) = NOT_TRANS_YET")
      case yet: True
      then have "i \<notin> patch_tbs ?s" using not_translated_fresh [OF inv assms(2,3)] by blast
      with emit_inv_retarget [OF inv lt] show ?thesis using True find Some yet
        by (auto simp: trans_next_def fresh_def patch_tbs_def)
    next
      case ready: False
      let ?e = "(emit_rel32 (tc_ptr (tbs ?s i)) (emit [0xe9] ?s))"
      have "emit_inv c v m (n + 5) k (?e\<lparr>end_by_transnext := end_by_transnext ?e + 1\<rparr>)"
        by (simp, rule emit_inv_rel32, rule emit_inv_emit' [OF inv]) simp_all
      from trans_next_link [OF this, of i "code_ptr ?e - tc_ptr (tbs ?e (cur_tb ?e)) - 4"] lt
      obtain s' where "and_then (set_jmp_offset (cur_tb ?e) (code_ptr ?e - tc_ptr (tbs ?e (cur_tb ?e)) - 4)
          (?e\<lparr>end_by_transnext := end_by_transnext ?e + 1\<rparr>))
        (\<lambda>s. and_then (tb_add_jmp_from (cur_tb s) i (unat (patch_num (tbs s (cur_tb s)))) s) (\<lambda>s. Inr (False, s)))
        = Inr (False, s')" "emit_inv c v m (n + 5) k s'" "patch_array s' = patch_array s" "pc_ptr s' = pc_ptr s"
        by auto
      with True find Some ready show ?thesis
        by (auto simp: trans_next_def Let_def intro!: exI [of _ "n + 5"])
    qed
  qed
qed

section \<open>The emitters keep the invariant\<close>

lemmas emit_rules = emit_inv_emit' emit_inv_rel32

definition emitted_by :: "u32 \<Rightarrow> u32 \<Rightarrow> memory \<Rightarrow> nat \<Rightarrow> nat \<Rightarrow> trans_state \<Rightarrow> trans_state \<Rightarrow> bool" where
  "emitted_by c v m n k s s' \<longleftrightarrow> emit_inv c v m n k s' \<and> patch_array s' = patch_array s \<and>
     pc_ptr s' = pc_ptr s \<and> cur_tb s' = cur_tb s \<and> tb_ret_addr s' = tb_ret_addr s"

lemma emitted_byD:
  assumes "emitted_by c v m n k s s'"
  shows "emit_inv c v m n k s'" "patch_array s' = patch_array s" "pc_ptr s' = pc_ptr s" "cur_tb s' = cur_tb s"
    "fresh s' = fresh s"
  using assms by (simp_all add: emitted_by_def fresh_def patch_tbs_def)

lemma emitted_by_emit: "emitted_by c v m n k s s' \<Longrightarrow> n' = n + length bs \<Longrightarrow> emitted_by c v m n' k s (emit bs s')"
  by (auto simp: emitted_by_def intro: emit_inv_emit')

lemma emitted_by_rel32: "emitted_by c v m n k s s' \<Longrightarrow> n' = n + 4 \<Longrightarrow> emitted_by c v m n' k s (emit_rel32 t s')"
  by (simp add: emit_rel32_def emitted_by_emit)

lemma emitted_by_benign: "emitted_by c v m n k s s' \<Longrightarrow> benign f \<Longrightarrow> emitted_by c v m n k s (upd_tb i f s')"
  by (simp add: emitted_by_def emit_inv_benign)

lemma emitted_by_poke32:
  "emitted_by c v m n k s s' \<Longrightarrow> p = c + of_nat o1 \<Longrightarrow> o1 + 4 \<le> n \<Longrightarrow> emitted_by c v m n k s (poke32 p x s')"
  by (simp add: emitted_by_def emit_inv_poke32)

lemma emitted_by_poke8:
  "emitted_by c v m n k s s' \<Longrightarrow> p = c + of_nat o1 \<Longrightarrow> o1 < n \<Longrightarrow> emitted_by c v m n k s (poke8 p y s')"
  by (simp add: emitted_by_def emit_inv_poke8)

lemma emitted_by_refl: "emit_inv c v m n k s \<Longrightarrow> emitted_by c v m n k s s"
  by (simp add: emitted_by_def)

lemma emitted_by_code_ptr: "emitted_by c v m n k s s' \<Longrightarrow> code_ptr s' = c + of_nat n"
  by (auto simp: emitted_by_def intro: emit_inv_code_ptr)

lemmas emitted_rules = emitted_by_emit emitted_by_rel32 emitted_by_benign

definition within :: "u32 \<Rightarrow> u32 \<Rightarrow> memory \<Rightarrow> nat \<Rightarrow> nat \<Rightarrow> trans_state \<Rightarrow> trans_state \<Rightarrow> bool" where
  "within c v m N k s s' \<longleftrightarrow> (\<exists>n\<le>N. emitted_by c v m n k s s')"

lemma within_emit: "within c v m N k s s' \<Longrightarrow> N + length bs \<le> N' \<Longrightarrow> within c v m N' k s (emit bs s')"
  unfolding within_def by (metis emitted_by_emit add_le_mono1 order_trans)

lemma within_mono: "within c v m N k s s' \<Longrightarrow> N \<le> N' \<Longrightarrow> within c v m N' k s s'"
  unfolding within_def by (meson order_trans)

lemma withinI: "emitted_by c v m n k s s' \<Longrightarrow> n \<le> N \<Longrightarrow> within c v m N k s s'"
  unfolding within_def by blast

lemma emit_push_rm_sat:
  assumes "emitted_by c v m n k s0 s"
  shows "sat (emit_push_rm ds s) (within c v m (n + 8) k s0)"
proof -
  let ?s1 = "if flag_set (ds_flags ds) DSFL_GROUP2_PREFIX then emit [Group2_Prefix ds] s else s"
  let ?s2 = "emit [0xff, (ds_modrm ds AND 0xc7) OR push_bit 3 6] ?s1"
  let ?s3 = "if need_sib ds then emit [ds_sib ds] ?s2 else ?s2"
  have "within c v m n k s0 s" using assms by (rule withinI) simp
  then have "within c v m (n + 1) k s0 ?s1"
    by (simp add: within_emit within_mono [of c v m n])
  then have s2: "within c v m (n + 3) k s0 ?s2" by (rule within_emit) simp
  then have "within c v m (n + 4) k s0 ?s3"
    using within_emit [OF s2, of "[ds_sib ds]" "n + 4"] within_mono [OF s2, of "n + 4"] by simp
  note w = this within_emit [OF this, of "[ucast (ds_displacement ds)]" "n + 8"]
    within_emit [OF this, of "bytes16 (ucast (ds_displacement ds))" "n + 8"]
    within_emit [OF this, of "bytes32 (ds_displacement ds)" "n + 8"] within_mono [OF this, of "n + 8"]
  then show ?thesis unfolding emit_push_rm_def Let_def
    by (simp add: early_ends_def)
qed

lemma cemit_sieve_nopush_emitted:
  "emitted_by c v m n k s0 s \<Longrightarrow> n' = n + 5 \<Longrightarrow> emitted_by c v m n' k s0 (cemit_sieve_nopush s)"
  unfolding cemit_sieve_nopush_def
  by (rule emitted_by_rel32 [where n = "n + 1"], rule emitted_by_emit [where n = n]) auto

definition exit_len :: "u32 \<Rightarrow> u32 \<Rightarrow> nat" where
  "exit_len ret_tb ind_type = 12 + (if ret_tb = - 1 then 0 else 10) + (if ind_type = - 1 then 0 else 10)"

lemma cemit_exit_tb_emitted:
  assumes "emitted_by c v m n k s0 s"
  shows "emitted_by c v m (n + exit_len r t) k s0 (cemit_exit_tb L r t s)"
proof -
  let ?s1 = "emit ([0x59, 0x8f, 0x05] @ bytes32 (a_eip L)) s"
  let ?s2 = "if r \<noteq> - 1 then emit_mov_mem (a_ret_tb L) r ?s1 else ?s1"
  let ?s3 = "if t \<noteq> - 1 then emit_mov_mem (a_ind_type L) t ?s2 else ?s2"
  have s1: "emitted_by c v m (n + 7) k s0 ?s1" using assms by (rule emitted_by_emit) simp
  have s2: "emitted_by c v m (n + 7 + (if r = - 1 then 0 else 10)) k s0 ?s2"
    using s1 by (auto simp: emit_mov_mem_def intro: emitted_by_emit)
  have "emitted_by c v m (n + 7 + (if r = - 1 then 0 else 10) + (if t = - 1 then 0 else 10)) k s0 ?s3"
  proof (cases "t = - 1")
    case False
    have "emitted_by c v m (n + 7 + (if r = - 1 then 0 else 10) + 10) k s0
        (emit ([0xc7, 0x05] @ bytes32 (a_ind_type L) @ bytes32 t) ?s2)"
      using s2 by (rule emitted_by_emit) simp
    with False show ?thesis by (simp add: emit_mov_mem_def)
  qed (use s2 in simp)
  then have "emitted_by c v m (n + exit_len r t) k s0 (emit_rel32 (tb_ret_addr ?s3) (emit [0xe9] ?s3))"
    by (rule emitted_by_rel32 [OF emitted_by_emit]) (auto simp: exit_len_def)
  then show ?thesis unfolding cemit_exit_tb_def Let_def .
qed

lemma ind_probe_emitted:
  assumes "emitted_by c v m n k s0 s" "o1 = n + 11" "n' = n + 12"
  shows "fst (ind_probe i s) = c + of_nat o1" "emitted_by c v m n' k s0 (snd (ind_probe i s))"
proof -
  let ?s1 = "emit [0x8b, 0x4c, 0x24, 4, 0x8d, 0x89] s"
  let ?s2 = "upd_tb (cur_tb ?s1) (jind_src_addr_update (\<lambda>xs. xs[i := code_ptr ?s1])) ?s1"
  let ?s3 = "emit (bytes32 (- NEED_PATCH_32) @ [0xe3]) ?s2"
  have "emitted_by c v m (n + 6) k s0 ?s1" using assms(1) by (rule emitted_by_emit) simp
  then have "emitted_by c v m (n + 6) k s0 ?s2" by (rule emitted_by_benign) simp
  then have s3: "emitted_by c v m (n + 11) k s0 ?s3" by (rule emitted_by_emit) simp
  have probe: "ind_probe i s = (code_ptr ?s3, emit [NEED_PATCH_8] ?s3)"
    by (simp only: ind_probe_def Let_def)
  show "fst (ind_probe i s) = c + of_nat o1"
    unfolding probe fst_conv assms(2) using s3 by (rule emitted_by_code_ptr)
  show "emitted_by c v m n' k s0 (snd (ind_probe i s))"
    unfolding probe snd_conv assms(3) using s3 by (rule emitted_by_emit) simp
qed

lemma ind_hit_emitted:
  assumes "emitted_by c v m n k s0 s" "p = c + of_nat o1" "o1 < n" "n \<le> o1 + 256"
  shows "\<exists>s'. ind_hit i p s = Inr s' \<and> emitted_by c v m (n + 10) k s0 s'"
proof -
  have d: "code_ptr s - p - 1 = of_nat (n - o1 - 1)"
    using assms(3) by (simp add: emitted_by_code_ptr [OF assms(1)] assms(2) of_nat_diff algebra_simps)
  have "n - o1 - 1 < 2 ^ 32" using assms(4) by simp
  then have "unat (of_nat (n - o1 - 1) :: u32) = n - o1 - 1"
    by (simp add: unsigned_of_nat take_bit_nat_eq_self del: of_nat_diff)
  then have small: "\<not> 0xff < code_ptr s - p - 1"
    unfolding d word_less_nat_alt using assms(3,4) by simp
  let ?s1 = "poke8 p (ucast (code_ptr s - p - 1)) s"
  let ?s2 = "emit [0x59, 0x8d, 0x64, 0x24, 4, 0xe9] ?s1"
  let ?s3 = "upd_tb (cur_tb ?s2) (jind_dest_addr_update (\<lambda>xs. xs[i := code_ptr ?s2])) ?s2"
  have "emitted_by c v m n k s0 ?s1" using assms(1,2,3) by (rule emitted_by_poke8)
  then have "emitted_by c v m (n + 6) k s0 ?s2" by (rule emitted_by_emit) simp
  then have "emitted_by c v m (n + 6) k s0 ?s3" by (rule emitted_by_benign) simp
  then have "emitted_by c v m (n + 10) k s0 (emit (bytes32 NEED_PATCH_32) ?s3)"
    by (rule emitted_by_emit) simp
  moreover have "ind_hit i p s = Inr (emit (bytes32 NEED_PATCH_32) ?s3)"
    using small by (simp only: ind_hit_def Let_def if_False)
  ultimately show ?thesis by blast
qed

lemma cemit_ind_opt_emitted:
  assumes "emitted_by c v m n k s0 s"
  obtains s' n' where "cemit_ind_opt L t s = Inr s'" "n \<le> n'" "n' \<le> n + 99" "emitted_by c v m n' k s0 s'"
proof -
  obtain p0 s1 where a: "ind_probe 0 (emit [0x51] s) = (p0, s1)" by (cases "ind_probe 0 (emit [0x51] s)")
  obtain p1 s2 where b: "ind_probe 1 s1 = (p1, s2)" by (cases "ind_probe 1 s1")
  obtain p2 s3 where d: "ind_probe 2 s2 = (p2, s3)" by (cases "ind_probe 2 s2")
  let ?s4 = "upd_tb (cur_tb s3) (ind_enter_sieve_update (\<lambda>_. code_ptr s3)) s3"
  let ?s5 = "cemit_exit_tb L (tb_addr L (cur_tb ?s4)) t ?s4"
  let ?e = "exit_len (tb_addr L (cur_tb ?s4)) t"
  have e: "?e \<le> 32" by (simp add: exit_len_def)
  have "emitted_by c v m (n + 1) k s0 (emit [0x51] s)" using assms by (rule emitted_by_emit) simp
  from ind_probe_emitted [OF this, of "n + 12" "n + 13" 0] a
  have p0: "p0 = c + of_nat (n + 12)" and s1: "emitted_by c v m (n + 13) k s0 s1" by simp_all
  from ind_probe_emitted [OF s1, of "n + 24" "n + 25" 1] b
  have p1: "p1 = c + of_nat (n + 24)" and s2: "emitted_by c v m (n + 25) k s0 s2" by simp_all
  from ind_probe_emitted [OF s2, of "n + 36" "n + 37" 2] d
  have p2: "p2 = c + of_nat (n + 36)" and s3: "emitted_by c v m (n + 37) k s0 s3" by simp_all
  from s3 have "emitted_by c v m (n + 37) k s0 ?s4" by (rule emitted_by_benign) simp
  then have s5: "emitted_by c v m (n + 37 + ?e) k s0 ?s5" by (rule cemit_exit_tb_emitted)
  then obtain s6 where h0: "ind_hit 0 p0 ?s5 = Inr s6" "emitted_by c v m (n + 37 + ?e + 10) k s0 s6"
    using ind_hit_emitted [OF s5 p0] e by auto
  then obtain s7 where h1: "ind_hit 1 p1 s6 = Inr s7" "emitted_by c v m (n + 37 + ?e + 20) k s0 s7"
    using ind_hit_emitted [OF h0(2) p1] e by auto
  then obtain s8 where h2: "ind_hit 2 p2 s7 = Inr s8" "emitted_by c v m (n + 37 + ?e + 30) k s0 s8"
    using ind_hit_emitted [OF h1(2) p2] e by auto
  have "cemit_ind_opt L t s = Inr s8"
    using h0(1) h1(1) h2(1) by (simp add: cemit_ind_opt_def a b [simplified] d)
  then show ?thesis by (rule that [OF _ _ _ h2(2)]) (use e in simp_all)
qed

lemma cemit_rc_cmp_emitted:
  assumes "emitted_by c v m n k s0 s" "p = c + of_nat o1" "o1 + 4 \<le> n"
  shows "emitted_by c v m (n + 23) k s0 (cemit_rc_cmp p s)"
proof -
  let ?s1 = "poke32 p (code_ptr s) s"
  let ?s2 = "emit ([0x51, 0x8b, 0x4c, 0x24, 4, 0x8d, 0x89] @ bytes32 (- pc_ptr ?s1) @ [0xe3]) ?s1"
  let ?s3 = "cemit_sieve_nopush (emit [NEED_PATCH_8] ?s2)"
  let ?s4 = "poke8 (code_ptr ?s2) (ucast (code_ptr ?s3 - code_ptr ?s2 - 1)) ?s3"
  have "emitted_by c v m n k s0 ?s1" using assms by (rule emitted_by_poke32)
  then have s2: "emitted_by c v m (n + 12) k s0 ?s2" by (rule emitted_by_emit) simp
  then have "emitted_by c v m (n + 13) k s0 (emit [NEED_PATCH_8] ?s2)" by (rule emitted_by_emit) simp
  then have "emitted_by c v m (n + 18) k s0 ?s3" by (rule cemit_sieve_nopush_emitted) simp
  then have "emitted_by c v m (n + 18) k s0 ?s4"
    by (rule emitted_by_poke8 [OF _ emitted_by_code_ptr [OF s2]]) simp
  then have "emitted_by c v m (n + 23) k s0 (emit [0x59, 0x8d, 0x64, 0x24, 4] ?s4)"
    by (rule emitted_by_emit) simp
  then show ?thesis by (simp only: cemit_rc_cmp_def Let_def)
qed

text \<open>A branch is emitted, noted and the translation continues behind it.\<close>

lemma emitted_mono: "emitted c v m N k s r \<Longrightarrow> N \<le> N' \<Longrightarrow> emitted c v m N' k s r"
  unfolding emitted_def by (auto intro: order_trans)

lemma note_then_next:
  assumes "emitted_by c v m n k s0 s" "fresh s0" "length (patch_array s0) < 256"
    and "patches_at c o1 (patch_array s0)" "o1 + 4 \<le> n" "at1 = c + of_nat o1"
    and "nty_clear c N" "n + d \<le> N"
    and step: "\<And>s'. emit_inv c v m n k s' \<Longrightarrow> emitted_by c v m (n + d) k s' (g s')"
  shows "sat (and_then (note_patch L at1 to (cur_tb s) fa 0 s) (\<lambda>s'. trans_next ds (g s')))
     (emitted c v m (n + d + 5) k s0)"
proof (rule sat_and_then)
  show "sat (note_patch L at1 to (cur_tb s) fa 0 s) (\<lambda>s'. emit_inv c v m n k s' \<and>
      length (patch_array s') = Suc (length (patch_array s0)) \<and> pc_ptr s' = pc_ptr s0)"
    unfolding assms(6)
    using note_patch_sat [of c v m n k s o1 L to fa] assms(2-5) emitted_byD [OF assms(1)]
    by (auto elim!: sat_mono)
next
  fix s' assume s': "emit_inv c v m n k s' \<and> length (patch_array s') = Suc (length (patch_array s0)) \<and>
    pc_ptr s' = pc_ptr s0"
  then have g: "emitted_by c v m (n + d) k s' (g s')" by (intro step) simp
  show "sat (trans_next ds (g s')) (emitted c v m (n + d + 5) k s0)"
    by (rule sat_mono [OF trans_next_sat [OF emitted_byD(1) [OF g] assms(7,8)]])
      (use s' emitted_byD [OF g] in \<open>auto simp: emitted_def\<close>)
qed

lemma within_sat_next:
  assumes "within c v m N1 k s0 s" "nty_clear c N" "N1 \<le> N"
  shows "sat (trans_next ds s) (emitted c v m (N1 + 5) k s0)"
proof -
  from assms(1) obtain n where n: "n \<le> N1" "emitted_by c v m n k s0 s" by (auto simp: within_def)
  then have "n \<le> N" using assms(3) by simp
  have "sat (trans_next ds s) (emitted c v m (n + 5) k s0)"
    by (rule sat_mono [OF trans_next_sat [OF emitted_byD(1) [OF n(2)] assms(2) \<open>n \<le> N\<close>]])
      (use emitted_byD [OF n(2)] in \<open>auto simp: emitted_def\<close>)
  then show ?thesis by (rule sat_mono) (use n(1) in \<open>auto elim: emitted_mono\<close>)
qed

lemma maybe_emit:
  assumes "emitted_by c v m n k s0 s"
  obtains n1 where "n \<le> n1" "n1 \<le> n + length bs" "emitted_by c v m n1 k s0 (if b then emit bs s else s)"
proof (cases b)
  case True
  with emitted_by_emit [OF assms refl, of bs] that [of "n + length bs"] show ?thesis by simp
next
  case False
  with assms that [of n] show ?thesis by simp
qed

lemma emitted_stop:
  assumes "within c v m N k s0 s"
  shows "emitted c v m N k s0 (False, s)"
  using assms emitted_byD by (fastforce simp: emitted_def within_def)

lemma emit_jcond_sat:
  assumes "emit_inv c v m n k s" "fresh s" "length (patch_array s) < 256" "nty_clear c N" "n + 12 \<le> N"
  shows "sat (emit_jcond L ds s) (emitted c v m (n + 12) k s)"
proof -
  let ?s0 = "s\<lparr>jcond_count := jcond_count s + 1\<rparr>"
  let ?s1 = "if flag_set (ds_flags ds) DSFL_GROUP2_PREFIX then emit [Group2_Prefix ds] ?s0 else ?s0"
  let ?cond = "if mem ?s1 (ds_instr ds) = 0x0f then mem ?s1 (ds_instr ds + 1) else mem ?s1 (ds_instr ds)"
  let ?s2 = "emit ([0x0f, (?cond AND 0x0f) OR 0x80] @ bytes32 NEED_PATCH_32) ?s1"
  have s0: "emitted_by c v m n k s ?s0" using assms(1) by (simp add: emitted_by_def)
  then obtain n1 where n1: "n \<le> n1" "n1 \<le> n + length [Group2_Prefix ds]" "emitted_by c v m n1 k s ?s1"
    by (rule maybe_emit)
  have s2: "emitted_by c v m (n1 + 6) k s ?s2" using n1(3) by (rule emitted_by_emit) simp
  have at1: "code_ptr ?s2 - 4 = c + of_nat (n1 + 2)" by (simp only: emitted_by_code_ptr [OF s2]) simp
  have "patches_at c (n1 + 2) (patch_array s)"
    using assms(1) n1(1) patches_at_mono [of c n _ "n1 + 2"] by (simp add: emit_inv_def)
  from note_then_next [OF s2 assms(2,3) this _ at1 assms(4), of 0 "\<lambda>s. s"] emitted_by_refl n1(2) assms(5)
  have "sat (and_then (note_patch L (code_ptr ?s2 - 4) to (cur_tb ?s2) fa 0 ?s2) (trans_next ds))
      (emitted c v m (n1 + 6 + 5) k s)" for to fa by simp
  then have "sat (and_then (note_patch L (code_ptr ?s2 - 4) to (cur_tb ?s2) fa 0 ?s2) (trans_next ds))
      (emitted c v m (n + 12) k s)" for to fa
    by (rule sat_mono) (use n1(2) in \<open>auto elim: emitted_mono\<close>)
  then show ?thesis unfolding emit_jcond_def Let_def .
qed

lemma emit_other_jcond_sat:
  assumes "emit_inv c v m n k s" "fresh s" "length (patch_array s) < 256" "nty_clear c N" "n + 15 \<le> N"
    and "ds_pEntry ds \<noteq> None"
  shows "sat (emit_other_jcond L ds s) (emitted c v m (n + 15) k s)"
proof -
  from assms(6) obtain e where e: "ds_pEntry ds = Some e" by blast
  let ?s0 = "s\<lparr>jothercond_count := jothercond_count s + 1\<rparr>"
  let ?s1 = "if flag_set (ds_flags ds) DSFL_GROUP2_PREFIX then emit [Group2_Prefix ds] ?s0 else ?s0"
  let ?s2 = "emit [ucast (op_index e), 0x02, 0xeb] ?s1"
  let ?s3 = "emit (0xe9 # bytes32 0) (emit [NEED_PATCH_8] ?s2)"
  have s0: "emitted_by c v m n k s ?s0" using assms(1) by (simp add: emitted_by_def)
  then obtain n1 where n1: "n \<le> n1" "n1 \<le> n + length [Group2_Prefix ds]" "emitted_by c v m n1 k s ?s1"
    by (rule maybe_emit)
  have s2: "emitted_by c v m (n1 + 3) k s ?s2" using n1(3) by (rule emitted_by_emit) simp
  then have "emitted_by c v m (n1 + 4) k s (emit [NEED_PATCH_8] ?s2)" by (rule emitted_by_emit) simp
  then have s3: "emitted_by c v m (n1 + 9) k s ?s3" by (rule emitted_by_emit) simp
  have at1: "code_ptr ?s3 - 4 = c + of_nat (n1 + 5)" by (simp only: emitted_by_code_ptr [OF s3]) simp
  have p: "patches_at c (n1 + 5) (patch_array s)"
    using assms(1) n1(1) patches_at_mono [of c n _ "n1 + 5"] by (simp add: emit_inv_def)
  let ?g = "\<lambda>s'. poke8 (code_ptr ?s2) (ucast (code_ptr s' - code_ptr ?s2 - 1)) s'"
  have step: "emitted_by c v m (n1 + 9 + 0) k s' (?g s')" if "emit_inv c v m (n1 + 9) k s'" for s'
    using emitted_by_poke8 [OF emitted_by_refl [OF that] emitted_by_code_ptr [OF s2]] by simp
  have "sat (and_then (note_patch L (code_ptr ?s3 - 4) to (cur_tb ?s3) fa 0 ?s3) (\<lambda>s'. trans_next ds (?g s')))
      (emitted c v m (n1 + 9 + 0 + 5) k s)" for to fa
    by (rule note_then_next [OF s3 assms(2,3) p _ at1 assms(4) _ step]) (use n1(2) assms(5) in auto)
  then have "sat (and_then (note_patch L (code_ptr ?s3 - 4) to (cur_tb ?s3) fa 0 ?s3) (\<lambda>s'. trans_next ds (?g s')))
      (emitted c v m (n + 15) k s)" for to fa
    by (rule sat_mono) (use n1(2) in \<open>auto elim: emitted_mono\<close>)
  then show ?thesis unfolding emit_other_jcond_def Let_def e option.case .
qed

lemma emit_call_disp_sat:
  assumes "emit_inv c v m n k s" "fresh s" "length (patch_array s) < 256" "nty_clear c N" "n + 48 \<le> N"
  shows "sat (emit_call_disp L ds s) (emitted c v m (n + 48) k s)"
proof (cases "flag_set (ds_opstate ds) OPSTATE_DATA32")
  case False
  then show ?thesis by (simp add: emit_call_disp_def Let_def early_ends_def)
next
  case True
  let ?s0 = "s\<lparr>call_count := call_count s + 1\<rparr>"
  let ?t = "pc_ptr ?s0 + ds_immediate ds"
  let ?s1 = "emit (0x68 # bytes32 (pc_ptr ?s0)) ?s0"
  let ?s2 = "emit ([0xc7, 0x05] @ bytes32 (RET_HASH_FUNC (a_ret_hash_table L) ?t)) ?s1"
  let ?s3 = "emit (bytes32 NEED_PATCH_32 @ 0xe9 # bytes32 0) ?s2"
  have "emitted_by c v m n k s ?s0" using assms(1) by (simp add: emitted_by_def)
  then have "emitted_by c v m (n + 5) k s ?s1" by (rule emitted_by_emit) simp
  then have s2: "emitted_by c v m (n + 11) k s ?s2" by (rule emitted_by_emit) simp
  then have s3: "emitted_by c v m (n + 20) k s ?s3" by (rule emitted_by_emit) simp
  have at1: "code_ptr ?s3 - 4 = c + of_nat (n + 16)" by (simp only: emitted_by_code_ptr [OF s3]) simp
  have p: "patches_at c (n + 16) (patch_array s)"
    using assms(1) patches_at_mono [of c n _ "n + 16"] by (simp add: emit_inv_def)
  have step: "emitted_by c v m (n + 20 + 23) k s' (cemit_rc_cmp (code_ptr ?s2) s')"
    if "emit_inv c v m (n + 20) k s'" for s'
    by (rule cemit_rc_cmp_emitted [OF emitted_by_refl [OF that] emitted_by_code_ptr [OF s2]]) simp
  have "sat (and_then (note_patch L (code_ptr ?s3 - 4) to (cur_tb ?s3) fa 0 ?s3)
      (\<lambda>s'. trans_next ds (cemit_rc_cmp (code_ptr ?s2) s'))) (emitted c v m (n + 20 + 23 + 5) k s)" for to fa
    by (rule note_then_next [OF s3 assms(2,3) p _ at1 assms(4) _ step]) (use assms(5) in auto)
  then have "sat (and_then (note_patch L (code_ptr ?s3 - 4) to (cur_tb ?s3) fa 0 ?s3)
      (\<lambda>s'. trans_next ds (cemit_rc_cmp (code_ptr ?s2) s'))) (emitted c v m (n + 48) k s)" for to fa
    by (rule sat_mono) (auto elim: emitted_mono)
  then show ?thesis unfolding emit_call_disp_def Let_def using True by (simp only: not_True_eq_False if_False)
qed

lemma emit_call_dest_sat:
  assumes "emitted_by c v m n k s0 s"
  shows "sat (if dest_based_on_esp ds
         then and_then (emit_push_rm ds s) (\<lambda>s.
           Inr (emit ([0xff, 0x34, 0x24, 0xc7, 0x44, 0x24, 0x4] @ bytes32 (pc_ptr s)) s))
         else emit_push_rm ds (emit (0x68 # bytes32 (pc_ptr s)) s)) (within c v m (n + 19) k s0)"
proof (cases "dest_based_on_esp ds")
  case True
  have "sat (and_then (emit_push_rm ds s) (\<lambda>s.
      Inr (emit ([0xff, 0x34, 0x24, 0xc7, 0x44, 0x24, 0x4] @ bytes32 (pc_ptr s)) s))) (within c v m (n + 19) k s0)"
    by (rule sat_and_then [OF emit_push_rm_sat [OF assms]]) (simp, erule within_emit, simp)
  with True show ?thesis by simp
next
  case False
  have "emitted_by c v m (n + 5) k s0 (emit (0x68 # bytes32 (pc_ptr s)) s)"
    using assms by (rule emitted_by_emit) simp
  from sat_mono [OF emit_push_rm_sat [OF this], of "within c v m (n + 19) k s0"] False show ?thesis
    by (simp add: within_mono)
qed

lemma emit_call_near_mem_sat:
  assumes "emit_inv c v m n k s" "nty_clear c N" "n + 170 \<le> N"
  shows "sat (emit_call_near_mem L ds s) (emitted c v m (n + 170) k s)"
proof -
  let ?s0 = "upd_tb (cur_tb s) (tb_type_update (\<lambda>_. IND_TYPE_CALL))
    (s\<lparr>call_ind_count := call_ind_count s + 1\<rparr>)"
  have "emitted_by c v m n k s (s\<lparr>call_ind_count := call_ind_count s + 1\<rparr>)"
    using assms(1) by (simp add: emitted_by_def)
  then have s0: "emitted_by c v m n k s ?s0" by (rule emitted_by_benign) simp
  have rest: "sat (let s = emit ([0x51, 0x8b, 0x4c, 0x24, 4, 0x81, 0xe1] @ bytes32 0xffff @
                     [0xc7, 0x04, 0x8d] @ bytes32 (a_ret_hash_table L)) s1;
                 patch_addr_rc = code_ptr s;
                 s = emit (bytes32 NEED_PATCH_32 @ [0x59]) s
             in and_then (cemit_ind_opt L IND_TYPE_CALL s)
                  (\<lambda>s. trans_next ds (cemit_rc_cmp patch_addr_rc s))) (emitted c v m (n + 170) k s)"
    if "within c v m (n + 19) k s s1" for s1
  proof -
    from that obtain n1 where n1: "n1 \<le> n + 19" "emitted_by c v m n1 k s s1" by (auto simp: within_def)
    let ?s2 = "emit ([0x51, 0x8b, 0x4c, 0x24, 4, 0x81, 0xe1] @ bytes32 0xffff @
                     [0xc7, 0x04, 0x8d] @ bytes32 (a_ret_hash_table L)) s1"
    let ?s3 = "emit (bytes32 NEED_PATCH_32 @ [0x59]) ?s2"
    have s2: "emitted_by c v m (n1 + 18) k s ?s2" using n1(2) by (rule emitted_by_emit) simp
    then have s3: "emitted_by c v m (n1 + 23) k s ?s3" by (rule emitted_by_emit) simp
    from s3 obtain s4 n4 where s4: "cemit_ind_opt L IND_TYPE_CALL ?s3 = Inr s4"
      and n4: "n1 + 23 \<le> n4" "n4 \<le> n1 + 23 + 99" "emitted_by c v m n4 k s s4"
      by (rule cemit_ind_opt_emitted)
    have "emitted_by c v m (n4 + 23) k s (cemit_rc_cmp (code_ptr ?s2) s4)"
      by (intro cemit_rc_cmp_emitted [OF n4(3) emitted_by_code_ptr [OF s2]]) (use n4(1) in simp)
    then have "within c v m (n + 165) k s (cemit_rc_cmp (code_ptr ?s2) s4)"
      by (rule withinI) (use n4(2) n1(1) in simp)
    from within_sat_next [OF this assms(2), of ds] assms(3) s4 show ?thesis
      by (simp add: Let_def add.commute)
  qed
  show ?thesis
    unfolding emit_call_near_mem_def Let_def
    by (rule sat_and_then [OF emit_call_dest_sat [OF s0]]) (rule rest [unfolded Let_def])
qed

lemma emit_jmp_near_mem_sat:
  assumes "emit_inv c v m n k s"
  shows "sat (emit_jmp_near_mem L ds s) (emitted c v m (n + 117) k s)"
proof -
  let ?s0 = "upd_tb (cur_tb s) (tb_type_update (\<lambda>_. IND_TYPE_JMP))
    (s\<lparr>j_ind_count := j_ind_count s + 1\<rparr>)"
  let ?s1 = "emit_mov_mem (a_ind_dest L) (func_addr (tbs ?s0 (cur_tb ?s0))) ?s0"
  have "emitted_by c v m n k s (s\<lparr>j_ind_count := j_ind_count s + 1\<rparr>)"
    using assms(1) by (simp add: emitted_by_def)
  then have "emitted_by c v m n k s ?s0" by (rule emitted_by_benign) simp
  then have s1: "emitted_by c v m (n + 10) k s ?s1"
    unfolding emit_mov_mem_def by (rule emitted_by_emit) simp
  have "sat (and_then (cemit_ind_opt L IND_TYPE_JMP s2) (\<lambda>s. Inr (False, s))) (emitted c v m (n + 117) k s)"
    if "within c v m (n + 10 + 8) k s s2" for s2
  proof -
    from that obtain n2 where n2: "n2 \<le> n + 10 + 8" "emitted_by c v m n2 k s s2"
      unfolding within_def by blast
    from n2(2) obtain s3 n3 where s3: "cemit_ind_opt L IND_TYPE_JMP s2 = Inr s3"
      and n3: "n2 \<le> n3" "n3 \<le> n2 + 99" "emitted_by c v m n3 k s s3" by (rule cemit_ind_opt_emitted)
    from n3(3) have "within c v m (n + 117) k s s3" by (rule withinI) (use n3(2) n2(1) in simp)
    then show ?thesis using s3 by (simp add: emitted_stop)
  qed
  from sat_and_then [OF emit_push_rm_sat [OF s1] this] show ?thesis
    unfolding emit_jmp_near_mem_def Let_def .
qed

lemma emit_ret_sat:
  assumes "emit_inv c v m n k s"
  shows "sat (emit_ret L s) (emitted c v m (n + 6) k s)"
proof -
  have "emitted_by c v m n k s (s\<lparr>ret_count := ret_count s + 1\<rparr>)"
    using assms(1) by (simp add: emitted_by_def)
  then have "within c v m (n + 6) k s (emit ([0xff, 0x25] @ bytes32 x) (s\<lparr>ret_count := ret_count s + 1\<rparr>))" for x
    by (rule withinI [OF emitted_by_emit [OF _ refl]]) simp
  then show ?thesis unfolding emit_ret_def Let_def by (simp only: sat_Inr emitted_stop)
qed

lemma emit_ret_Iw_sat:
  assumes "emit_inv c v m n k s"
  shows "sat (emit_ret_Iw L ds s) (emitted c v m (n + 20) k s)"
proof -
  let ?s0 = "s\<lparr>retIw_count := retIw_count s + 1\<rparr>"
  let ?s1 = "emit ([0x8f, 0x84, 0x24] @ bytes32 (ds_imm16 ds - 4)) ?s0"
  let ?b = "[0x8d, 0xa4, 0x24] @ bytes32 (ds_imm16 ds - 4)"
  have "emitted_by c v m n k s ?s0" using assms(1) by (simp add: emitted_by_def)
  then have "emitted_by c v m (n + 7) k s ?s1" by (rule emitted_by_emit) simp
  then obtain n2 where n2: "n2 \<le> n + 7 + length ?b"
    "emitted_by c v m n2 k s (if ds_imm16 ds - 4 \<noteq> 0 then emit ?b ?s1 else ?s1)" by (rule maybe_emit)
  from n2(2) have "within c v m (n + 20) k s (emit ([0xff, 0x25] @ bytes32 x)
      (if ds_imm16 ds - 4 \<noteq> 0 then emit ?b ?s1 else ?s1))" for x
    by (rule withinI [OF emitted_by_emit [OF _ refl]]) (use n2(1) in simp)
  then show ?thesis unfolding emit_ret_Iw_def Let_def by (simp only: sat_Inr emitted_stop)
qed

lemma emit_normal_sat:
  assumes "emit_inv c v m n k s" "fresh s"
  shows "sat (emit_normal s) (emitted c v m (n + unat (insn_len s)) k s)"
  using emit_inv_emit [OF assms(1), of "guest_insn s"] assms(2)
  by (auto simp: emit_normal_def emitted_def guest_insn_def intro!: exI [of _ "n + unat (insn_len s)"])

lemma emit_int_sat:
  assumes "emit_inv c v m n k s" "fresh s"
  shows "sat (emit_int L ds s) (emitted c v m (n + 23 + unat (insn_len s)) k s)"
proof -
  let ?s1 = "emit ([0x9c, 0x3d] @ bytes32 NR_exit_group @ [0x75]) s"
  let ?s2 = "emit (NEED_PATCH_8 # 0x68 # bytes32 (l_env L) @ [0xe8]) ?s1"
  let ?s3 = "emit [0x8d, 0x64, 0x24, 4] (emit_rel32 (l_exit_stub L) ?s2)"
  let ?s4 = "poke8 (code_ptr ?s1) (ucast (code_ptr ?s3 - code_ptr ?s1 - 1)) ?s3"
  have s0: "emitted_by c v m n k s s" using assms(1) by (rule emitted_by_refl)
  then have s1: "emitted_by c v m (n + 7) k s ?s1" by (rule emitted_by_emit) simp
  then have "emitted_by c v m (n + 14) k s ?s2" by (rule emitted_by_emit) simp
  then have "emitted_by c v m (n + 18) k s (emit_rel32 (l_exit_stub L) ?s2)" by (rule emitted_by_rel32) simp
  then have "emitted_by c v m (n + 22) k s ?s3" by (rule emitted_by_emit) simp
  then have "emitted_by c v m (n + 22) k s ?s4"
    by (rule emitted_by_poke8 [OF _ emitted_by_code_ptr [OF s1]]) simp
  then have s5: "emitted_by c v m (n + 23) k s (emit [0x9d] ?s4)" by (rule emitted_by_emit) simp
  let ?r = "if mem s (ds_instr ds + 1) = 0x80 then emit [0x9d] ?s4 else s"
  have len: "insn_len ?r = insn_len s" by (simp add: poke8_def)
  obtain n1 where n1: "n1 \<le> n + 23" "emitted_by c v m n1 k s ?r"
  proof (cases "mem s (ds_instr ds + 1) = 0x80")
    case True
    with s5 show ?thesis by (intro that [of "n + 23"]) simp_all
  next
    case False
    with s0 show ?thesis by (intro that [of n]) simp_all
  qed
  from emitted_by_emit [OF n1(2) refl, of "guest_insn ?r"]
  have "emitted_by c v m (n1 + unat (insn_len s)) k s (emit (guest_insn ?r) ?r)"
    by (simp add: guest_insn_def len)
  note d = emitted_byD [OF this]
  have "emitted c v m (n + 23 + unat (insn_len s)) k s (True, emit (guest_insn ?r) ?r)"
    unfolding emitted_def using d assms(2) n1(1) by (auto intro!: exI [of _ "n1 + unat (insn_len s)"])
  then show ?thesis unfolding emit_int_def Let_def sat_Inr .
qed

definition moved :: "u32 \<Rightarrow> u32 \<Rightarrow> memory \<Rightarrow> nat \<Rightarrow> nat \<Rightarrow> trans_state \<Rightarrow> trans_state \<Rightarrow> bool" where
  "moved c v m n k s s' \<longleftrightarrow> (\<exists>n1. n \<le> n1 \<and> n1 \<le> n + 12 \<and> emit_inv c v m n1 k s') \<and>
     patch_array s' = patch_array s \<and> pc_ptr s' = pc_ptr s \<and> cur_tb s' = cur_tb s"

lemma moved_rc:
  assumes "emit_inv c v m n k s'" "patch_array s' = patch_array s" "pc_ptr s' = pc_ptr s" "cur_tb s' = cur_tb s"
  shows "moved c v m n k s (emit_rc_move L a b s')"
  using assms by (auto simp: moved_def emit_rc_move_def intro!: exI [of _ "n + 12"] emit_inv_emit')

lemma rc_move_sat:
  assumes "emit_inv c v m n k s"
  shows "sat (case r of Some i \<Rightarrow> Inr (if P i then emit_rc_move L cur (F i) s else s)
     | None \<Rightarrow> if B then and_then (make_tb t t s) (\<lambda>(_, s). Inr (emit_rc_move L cur t s)) else Inr s)
     (moved c v m n k s)"
proof -
  have id: "moved c v m n k s s" using assms by (auto simp: moved_def)
  have mk: "sat (make_tb t t s) (\<lambda>(i, s'). emit_inv c v m n k s' \<and> patch_array s' = patch_array s \<and>
      pc_ptr s' = pc_ptr s \<and> cur_tb s' = cur_tb s)"
    by (rule sat_mono [OF make_tb_soft]) (use assms in \<open>auto simp: make_tb_fields dest: emit_inv_make(1)\<close>)
  have "sat (and_then (make_tb t t s) (\<lambda>(_, s). Inr (emit_rc_move L cur t s))) (moved c v m n k s)"
    by (rule sat_and_then [OF mk]) (auto intro: moved_rc)
  with id moved_rc [OF assms refl refl refl] show ?thesis by (simp split: option.split)
qed

lemma emit_jmp_sat:
  assumes "emit_inv c v m n k s" "fresh s" "length (patch_array s) < 256"
  shows "sat (emit_jmp L ds s) (emitted c v m (n + 17) k s)"
proof -
  let ?s0 = "s\<lparr>jmp_count := jmp_count s + 1\<rparr>"
  let ?t = "if \<not> flag_set (ds_opstate ds) OPSTATE_DATA32 then (pc_ptr ?s0 + ds_immediate ds) AND 0xffff
    else pc_ptr ?s0 + ds_immediate ds"
  have inv0: "emit_inv c v m n k ?s0" using assms(1) by simp
  then obtain jc where find: "tb_find_fast ?t 0 ?s0 = Inr (tb_of ?s0 ?t, ?s0\<lparr>tb_jmp_cache := jc\<rparr>)"
    and inv: "emit_inv c v m n k (?s0\<lparr>tb_jmp_cache := jc\<rparr>)" by (rule emit_inv_find)
  let ?s1 = "?s0\<lparr>tb_jmp_cache := jc\<rparr>"
  have last: "sat (let s = emit (0xe9 # bytes32 NEED_PATCH_32) s2 in
                and_then (note_patch L (code_ptr s - 4) t (cur_tb s) (func_addr (tbs s (cur_tb s))) 0 s)
                  (\<lambda>s. Inr (False, s))) (emitted c v m (n + 17) k s)" if mv: "moved c v m n k ?s1 s2" for s2 t
  proof -
    let ?s3 = "emit (0xe9 # bytes32 NEED_PATCH_32) s2"
    from mv obtain n1 where n1: "n \<le> n1" "n1 \<le> n + 12" "emit_inv c v m n1 k s2"
      and same: "patch_array s2 = patch_array s" "pc_ptr s2 = pc_ptr s" "cur_tb s2 = cur_tb s"
      by (auto simp: moved_def)
    then have s3: "emit_inv c v m (n1 + 5) k ?s3" by (intro emit_inv_emit') auto
    have at1: "code_ptr ?s3 - 4 = c + of_nat (n1 + 1)" by (simp only: emit_inv_code_ptr [OF s3]) simp
    have fr: "fresh ?s3" using assms(2) same by (simp add: fresh_def patch_tbs_def)
    have p: "patches_at c (n1 + 1) (patch_array ?s3)"
      using assms(1) n1(1) same patches_at_mono [of c n _ "n1 + 1"] by (simp add: emit_inv_def)
    have len: "length (patch_array ?s3) < 256" using assms(3) same by simp
    note np = note_patch_sat [OF s3 fr len p]
    have "sat (and_then (note_patch L (code_ptr ?s3 - 4) t (cur_tb ?s3) fa 0 ?s3) (\<lambda>s. Inr (False, s)))
        (emitted c v m (n + 17) k s)" for fa
      unfolding at1
      by (rule sat_and_then [OF np]) (use n1(2) same in \<open>auto simp: emitted_def intro!: exI [of _ "n1 + 5"]\<close>)
    then show ?thesis unfolding Let_def .
  qed
  show ?thesis
    unfolding emit_jmp_def Let_def using find
    by (simp only: and_then_Inr prod.case) (rule sat_and_then [OF rc_move_sat [OF inv] last [unfolded Let_def]])
qed

end
