(* ===== verification/Translate_Block.thy ===== *)
theory Translate_Block
  imports Emitter_Inv
begin

text \<open>
  Translation of a whole block: the loop of \<^verbatim>\<open>gen_target_code\<close> and the patching of \<^verbatim>\<open>lazy_patch\<close>.
  The bounds are those of the code: at most \<^verbatim>\<open>MAX_INSNS\<close> + 1 instructions of at most fifteen
  bytes (four prefixes), each translated to at most 185 bytes, and at most 256 patches with a stub of
  35 bytes each.
\<close>

section \<open>One instruction\<close>

lemma run_emitfn_sat:
  assumes "emit_inv c v m n k s" "fresh s" "length (patch_array s) < 256" "nty_clear c N"
    and "n + 170 + unat (insn_len s) \<le> N" "ds_pEntry ds \<noteq> None"
  shows "sat (run_emitfn L f ds s) (emitted c v m (n + 170 + unat (insn_len s)) k s)"
proof (cases f)
  case (P_emit g)
  have mono: "sat r (emitted c v m N1 k s) \<Longrightarrow> N1 \<le> n + 170 + unat (insn_len s) \<Longrightarrow>
      sat r (emitted c v m (n + 170 + unat (insn_len s)) k s)" for r N1
    by (erule sat_mono) (auto elim: emitted_mono)
  note bounds = le_trans [OF _ assms(5)]
  show ?thesis
  proof (cases g)
    case Emit_normal
    then show ?thesis using mono [OF emit_normal_sat [OF assms(1,2)]] by (simp add: P_emit)
  next
    case Emit_call_near_mem
    then show ?thesis using mono [OF emit_call_near_mem_sat [OF assms(1,4)]] bounds by (simp add: P_emit)
  next
    case Emit_jmp_near_mem
    then show ?thesis using mono [OF emit_jmp_near_mem_sat [OF assms(1)]] by (simp add: P_emit)
  next
    case Emit_sysenter
    have "emitted c v m (n + 170 + unat (insn_len s)) k s (False, s)"
      using assms(1) by (auto simp: emitted_def intro!: exI [of _ n])
    then show ?thesis using Emit_sysenter by (simp add: P_emit emit_sysenter_def)
  next
    case Emit_jcond
    then show ?thesis using mono [OF emit_jcond_sat [OF assms(1-4)]] bounds by (simp add: P_emit)
  next
    case Emit_ret_Iw
    then show ?thesis using mono [OF emit_ret_Iw_sat [OF assms(1)]] by (simp add: P_emit)
  next
    case Emit_ret
    then show ?thesis using mono [OF emit_ret_sat [OF assms(1)]] by (simp add: P_emit)
  next
    case Emit_int
    then show ?thesis using mono [OF emit_int_sat [OF assms(1,2)]] by (simp add: P_emit)
  next
    case Emit_other_jcond
    then show ?thesis using mono [OF emit_other_jcond_sat [OF assms(1-4) _ assms(6)]] bounds by (simp add: P_emit)
  next
    case Emit_call_disp
    then show ?thesis using mono [OF emit_call_disp_sat [OF assms(1-4)]] bounds by (simp add: P_emit)
  next
    case Emit_jmp
    then show ?thesis using mono [OF emit_jmp_sat [OF assms(1-3)]] by (simp add: P_emit)
  qed
qed (simp_all add: early_ends_def)

definition insn_done ::
    "u32 \<Rightarrow> u32 \<Rightarrow> memory \<Rightarrow> nat \<Rightarrow> nat \<Rightarrow> trans_state \<Rightarrow> bool \<times> decode_t \<times> trans_state \<Rightarrow> bool" where
  "insn_done c v m N k s = (\<lambda>(cont, ds, s'). (\<exists>n\<le>N. emit_inv c v m n k s') \<and>
     length (patch_array s') \<le> Suc (length (patch_array s)) \<and>
     (\<exists>d\<le>15. pc_ptr s' = pc_ptr s + of_nat d) \<and> (cont \<longrightarrow> fresh s'))"

lemma gen_insn_sat:
  assumes "emit_inv c v m n k s" "fresh s" "length (patch_array s) < 256" "nty_clear c N" "n + 185 \<le> N"
    and "i \<le> 4" "\<not> is_prefix_byte (mem s (pc_ptr s + of_nat i))"
  shows "sat (gen_insn L ds s) (insn_done c v m (n + 185) k s)"
proof -
  obtain ok ds' where dis: "simple_disas_insn (mem s) ds (pc_ptr s) = Some (ok, ds')"
    using assms(7) disas_diverges_iff [of "mem s" ds "pc_ptr s"]
    by (cases "simple_disas_insn (mem s) ds (pc_ptr s)") auto
  let ?s = "s\<lparr>insn_len := decode_eip ds' - pc_ptr s, pc_ptr := decode_eip ds'\<rparr>"
  have len: "unat (insn_len ?s) \<le> 15" using disas_at_most_15 [OF dis assms(6,7)] by simp
  have pc: "decode_eip ds' = pc_ptr s + of_nat (unat (decode_eip ds' - pc_ptr s))" by simp
  have "emit_inv c v m n k ?s" "fresh ?s" "length (patch_array ?s) < 256"
    using assms by (simp_all add: fresh_def patch_tbs_def)
  from run_emitfn_sat [OF this assms(4) _ disas_pEntry [OF dis]] len assms(5)
  have run: "sat (run_emitfn L (ds_emitfn ds') ds' ?s) (emitted c v m (n + 170 + unat (insn_len ?s)) k ?s)"
    by simp
  have "sat (and_then (run_emitfn L (ds_emitfn ds') ds' ?s) (\<lambda>(cont, s).
      Inr (cont, ds', upd_tb (cur_tb s) (\<lambda>t. t\<lparr>insn_count := insn_count t + 1\<rparr>) s)))
      (insn_done c v m (n + 185) k s)"
  proof (rule sat_and_then [OF run], clarify)
    fix cont s'
    assume "emitted c v m (n + 170 + unat (insn_len ?s)) k ?s (cont, s')"
    then have "emitted c v m (n + 185) k ?s (cont, s')" by (rule emitted_mono) (use len in simp)
    then obtain n' where n': "n' \<le> n + 185" "emit_inv c v m n' k s'" and
      rest: "length (patch_array s') \<le> Suc (length (patch_array s))" "pc_ptr s' = decode_eip ds'" "cont \<longrightarrow> fresh s'"
      by (auto simp: emitted_def)
    from n'(2) have "emit_inv c v m n' k (upd_tb (cur_tb s') (\<lambda>t. t\<lparr>insn_count := insn_count t + 1\<rparr>) s')"
      by (rule emit_inv_benign) simp
    moreover have "\<exists>d\<le>15. decode_eip ds' = pc_ptr s + of_nat d" using len pc by auto
    ultimately show "sat (Inr (cont, ds', upd_tb (cur_tb s') (\<lambda>t. t\<lparr>insn_count := insn_count t + 1\<rparr>) s'))
        (insn_done c v m (n + 185) k s)"
      unfolding sat_Inr insn_done_def using n'(1) rest by auto
  qed
  then show ?thesis using dis by (simp add: gen_insn_def flag_set_def Let_def)
qed

section \<open>The loop\<close>

abbreviation code_max :: nat where "code_max \<equiv> 1600000"

text \<open>
  The patch invariant without the conditions on \<^verbatim>\<open>tc_ptr\<close> that only matter inside the loop, over the
  patches still to be applied.
\<close>

definition patch_inv ::
    "u32 \<Rightarrow> u32 \<Rightarrow> memory \<Rightarrow> nat \<Rightarrow> nat \<Rightarrow> patch_entry list \<Rightarrow> trans_state \<Rightarrow> bool" where
  "patch_inv c v m n k ps s \<longleftrightarrow> ext c v m n k s \<and> patches_at c n ps \<and> tb_inv s \<and> distinct (map patch_tb ps) \<and>
     (\<forall>p\<in>set ps. patch_tb p < nb_tbs s \<and> patch_tb_tag p = 0) \<and>
     (\<forall>i<nb_tbs s. patch_num (tbs s i) = (if i \<in> patch_tb ` set ps then 1 else 0))"

lemma emit_inv_patch_inv: "emit_inv c v m n k s \<Longrightarrow> patch_inv c v m n k (patch_array s) s"
  by (simp add: emit_inv_def blocks_ok_def patch_inv_def patch_tbs_def)

lemma patch_inv_emit:
  assumes "patch_inv c v m n k ps s"
  shows "patch_inv c v m (n + length bs) k ps (emit bs s)"
proof -
  have "tb_inv (emit bs s) = tb_inv s" by (rule tb_inv_same) simp
  with assms show ?thesis
    by (simp add: patch_inv_def ext_emit patches_at_mono [of c n])
qed

lemma note_patch_patch_inv:
  assumes "patch_inv c v m n k (patch_array s) s" "patches_at c o1 (patch_array s)" "o1 + 4 \<le> n"
    and "fresh s" "cur_tb s < nb_tbs s" "length (patch_array s) < 256"
  shows "sat (note_patch L (c + of_nat o1) to (cur_tb s) fa 0 s)
     (\<lambda>s'. patch_inv c v m n k (patch_array s') s' \<and> length (patch_array s') = Suc (length (patch_array s)))"
proof -
  let ?p = "\<lparr>patch_at = c + of_nat o1, patch_to = to, patch_tb = cur_tb s, patch_func_addr = fa, patch_tb_tag = 0\<rparr>"
  let ?s = "upd_tb (cur_tb s) (\<lambda>t. t\<lparr>patch_num := patch_num t + 1\<rparr>) (s\<lparr>patch_array := patch_array s @ [?p]\<rparr>)"
  have "tb_inv (s\<lparr>patch_array := patch_array s @ [?p]\<rparr>)"
    using assms(1) by (simp add: patch_inv_def tb_inv_def bucket_def tb_of_def)
  then have "tb_inv ?s"
    by (intro tb_inv_upd_tb) (auto simp: keeps_key_def tb_shape_def tb_inv_def)
  moreover have "patches_at c n (patch_array s @ [?p])"
    using patches_at_snoc [OF assms(2,3), of ?p] by simp
  ultimately have "patch_inv c v m n k (patch_array ?s) ?s"
    using assms(1,4,5) by (auto simp: patch_inv_def ext_def fresh_def patch_tbs_def)
  then show ?thesis using assms(6) by (auto simp: note_patch_def early_ends_def)
qed

definition loop_done :: "u32 \<Rightarrow> u32 \<Rightarrow> memory \<Rightarrow> trans_state \<Rightarrow> bool" where
  "loop_done c v m s \<longleftrightarrow>
     (\<exists>n\<le>code_max. patch_inv c v m n 0 (patch_array s) s) \<and> length (patch_array s) \<le> 256"

lemma end_at_limit_sat:
  assumes "emit_inv c v m n 0 s" "fresh s" "length (patch_array s) < 256" "n + 5 \<le> code_max"
  shows "sat (end_at_limit L s) (loop_done c v m)"
proof -
  let ?s1 = "if tc_ptr (tbs s (cur_tb s)) = code_ptr s
    then upd_tb (cur_tb s) (tc_ptr_update (\<lambda>_. NOT_TRANS_YET)) s else s"
  let ?s2 = "emit (0xe9 # bytes32 NEED_PATCH_32) ?s1"
  have pinv: "patch_inv c v m n 0 (patch_array s) s" using assms(1) by (rule emit_inv_patch_inv)
  have "tb_inv (upd_tb (cur_tb s) (tc_ptr_update (\<lambda>_. NOT_TRANS_YET)) s)"
    using pinv by (intro tb_inv_upd_tb) (auto simp: patch_inv_def keeps_key_def tb_shape_def tb_inv_def)
  with pinv have "patch_inv c v m n 0 (patch_array s) ?s1" by (auto simp: patch_inv_def ext_def)
  from patch_inv_emit [OF this, of "0xe9 # bytes32 NEED_PATCH_32"]
  have "patch_inv c v m (n + 5) 0 (patch_array s) ?s2" by simp
  moreover have "patch_array ?s2 = patch_array s" by simp
  ultimately have p2: "patch_inv c v m (n + 5) 0 (patch_array ?s2) ?s2" by (simp only:)
  have at1: "code_ptr ?s2 - 4 = c + of_nat (n + 1)"
    using emit_inv_code_ptr [OF assms(1)] by (simp add: emit_def)
  have at2: "patches_at c (n + 1) (patch_array ?s2)"
    using assms(1) patches_at_mono [of c n _ "n + 1"] by (simp add: emit_inv_def)
  have side: "fresh ?s2" "cur_tb ?s2 < nb_tbs ?s2" "length (patch_array ?s2) < 256"
    using assms by (simp_all add: emit_inv_def blocks_ok_def)
  have "sat (note_patch L (c + of_nat (n + 1)) to (cur_tb ?s2) fa 0 ?s2) (loop_done c v m)" for to fa
    by (rule sat_mono [OF note_patch_patch_inv [OF p2 at2 _ side]])
      (use assms(4) side(3) in \<open>auto simp: loop_done_def intro!: exI [of _ "n + 5"]\<close>)
  then show ?thesis unfolding end_at_limit_def Let_def at1 .
qed

text \<open>
  Guest code the loop can read: within the bytes a block may span, no more than four prefixes in
  a row, and outside the code buffer.
\<close>

definition guest_code :: "u32 \<Rightarrow> memory \<Rightarrow> u32 \<Rightarrow> bool" where
  "guest_code c m pc \<longleftrightarrow> (\<forall>q\<le>15 * Suc MAX_INSNS. \<exists>i\<le>4. pc + of_nat q + of_nat i \<notin> region c code_max \<and>
     \<not> is_prefix_byte (m (pc + of_nat q + of_nat i)))"

lemma gen_loop_sat:
  assumes "emit_inv c v m n 0 s" "fresh s" "length (patch_array s) < 254" "nty_clear c code_max"
    and "guest_code c m pc" "pc_ptr s = pc + of_nat q" "n \<le> 185 * j" "q \<le> 15 * j" "j \<le> MAX_INSNS"
  shows "sat (gen_loop L j ds s) (loop_done c v m)"
  using assms(1-3,6-9)
proof (induction "MAX_INSNS - j" arbitrary: j n q ds s rule: less_induct)
  case less
  have n: "n + 185 \<le> code_max" using less.prems(5,7) by simp
  have "q \<le> 15 * Suc MAX_INSNS" using less.prems(6,7) by simp
  with assms(5) obtain i where i: "i \<le> 4" "pc_ptr s + of_nat i \<notin> region c code_max"
    "\<not> is_prefix_byte (m (pc_ptr s + of_nat i))"
    unfolding guest_code_def less.prems(4) by blast
  then have "pc_ptr s + of_nat i \<notin> region c n" using region_mono [of n code_max c] n by auto
  then have "mem s (pc_ptr s + of_nat i) = m (pc_ptr s + of_nat i)"
    using less.prems(1) by (auto simp: emit_inv_def ext_def)
  with i less.prems(3) have step: "sat (gen_insn L ds s) (insn_done c v m (n + 185) 0 s)"
    by (intro gen_insn_sat [OF less.prems(1,2) _ assms(4) n]) auto
  show ?case
    unfolding gen_loop.simps [of L j]
  proof (rule sat_and_then [OF step], clarify)
    fix cont ds' s'
    assume "insn_done c v m (n + 185) 0 s (cont, ds', s')"
    then obtain n' d where n': "n' \<le> n + 185" "emit_inv c v m n' 0 s'"
      and len: "length (patch_array s') \<le> Suc (length (patch_array s))"
      and d: "d \<le> 15" "pc_ptr s' = pc_ptr s + of_nat d" and fr: "cont \<longrightarrow> fresh s'"
      unfolding insn_done_def by auto
    have pc: "pc_ptr s' = pc + of_nat (q + d)" using d(2) less.prems(4) by simp
    show "sat (if \<not> cont then Inr s' else if limit_reached j s' then end_at_limit L s'
        else gen_loop L (Suc j) ds' s') (loop_done c v m)"
    proof (cases "cont \<and> \<not> limit_reached j s'")
      case True
      then have j: "j < MAX_INSNS" "length (patch_array s') < 254" by (auto simp: limit_reached_def)
      have "sat (gen_loop L (Suc j) ds' s') (loop_done c v m)"
        by (rule less.hyps [OF _ n'(2) _ j(2) pc]) (use True fr j(1) n'(1) d(1) less.prems(5,6) in auto)
      with True show ?thesis by simp
    next
      case False
      have "sat (end_at_limit L s') (loop_done c v m)" if cont
        using end_at_limit_sat [OF n'(2)] fr that len less.prems(3,5,7) n'(1) by auto
      moreover have "loop_done c v m s'"
        unfolding loop_done_def using emit_inv_patch_inv [OF n'(2)] n'(1) n len less.prems(3) by (auto intro!: exI [of _ n'])
      ultimately show ?thesis using False by auto
    qed
  qed
qed

section \<open>Patching\<close>

text \<open>What \<^verbatim>\<open>lazy_patch\<close> does to the blocks for one patch: the counter goes back, the offset is stored.\<close>

definition take_patch :: "patch_entry \<Rightarrow> trans_state \<Rightarrow> trans_state" where
  "take_patch p s = upd_tb (patch_tb p) (\<lambda>t. t\<lparr>patch_num := patch_num t - 1,
     tb_jmp_offset := (tb_jmp_offset t)[0 := ucast (patch_at p - tc_ptr t)]\<rparr>) (s\<lparr>cur_tb := patch_tb p\<rparr>)"

lemma upd_tb_upd_tb [simp]: "upd_tb i f (upd_tb i g s) = upd_tb i (\<lambda>t. f (g t)) s"
  by (simp add: upd_tb_def)

lemma take_patch_eq:
  assumes "patch_num (tbs s (patch_tb p)) = 1" "tb_shape (tbs s (patch_tb p))"
    and "s1 = upd_tb (patch_tb p) (\<lambda>t. t\<lparr>patch_num := patch_num t - 1\<rparr>) (s\<lparr>cur_tb := patch_tb p\<rparr>)"
  shows "set_jmp_offset (patch_tb p) (patch_at p - tc_ptr (tbs s1 (patch_tb p))) s1 = Inr (take_patch p s)"
  using assms by (simp add: set_jmp_offset_def set_slot_def tb_shape_def take_patch_def upd_tb_def)

lemma take_patch_inv:
  assumes "patch_inv c v m n k (p # ps) s"
  shows "patch_inv c v m n k ps (take_patch p s)"
proof -
  let ?f = "\<lambda>t. t\<lparr>patch_num := patch_num t - 1,
     tb_jmp_offset := (tb_jmp_offset t)[0 := ucast (patch_at p - tc_ptr t)]\<rparr>"
  have "tb_inv (s\<lparr>cur_tb := patch_tb p\<rparr>)"
    using assms by (simp add: patch_inv_def tb_inv_def bucket_def tb_of_def)
  then have "tb_inv (take_patch p s)" unfolding take_patch_def
    by (intro tb_inv_upd_tb) (auto simp: keeps_key_def tb_shape_def tb_inv_def)
  moreover have "patches_at c n ps"
    using assms by (auto simp: patch_inv_def patches_at_def Cons_eq_map_conv)
  ultimately show ?thesis
    using assms by (auto simp: patch_inv_def ext_def take_patch_def)
qed

subsection \<open>One patch\<close>

definition stub_bytes :: "layout \<Rightarrow> u32 \<Rightarrow> u32 \<Rightarrow> u32 \<Rightarrow> u32 \<Rightarrow> u32 \<Rightarrow> u8 list" where
  "stub_bytes L q tb n to epilogue =
     [0xc7, 0x05] @ bytes32 (a_ret_tb L) @ bytes32 tb @
     [0xc7, 0x05] @ bytes32 (a_patch_num L) @ bytes32 n @
     [0xc7, 0x05] @ bytes32 (a_eip L) @ bytes32 to @ 0xe9 # bytes32 (epilogue - (q + 31) - 4)"

lemma stub_bytes_length [simp]: "length (stub_bytes L q tb n to e) = 35"
  by (simp add: stub_bytes_def)

lemma semit_semit: "semit ys (semit xs s) = semit (xs @ ys) s"
  by (simp add: semit_def write_bytes_append algebra_simps)

lemma semit_ptr: "sieve_code_ptr (semit bs s) = sieve_code_ptr s + of_nat (length bs)"
  by (simp add: semit_def)

lemma emit_stub_eq:
  "emit_stub L tb n to s = semit (stub_bytes L (sieve_code_ptr s) (tb_addr L tb) n to (tb_ret_addr s)) s"
  by (simp add: emit_stub_def semit_rel32_def semit_semit stub_bytes_def semit_ptr)

text \<open>
  A patched branch: it jumps to the translation of its guest target, or to a stub in the sieve
  buffer that leaves for that target, and slot 0 of its block names the place of the branch.
\<close>

definition linked :: "layout \<Rightarrow> u32 \<Rightarrow> nat \<Rightarrow> trans_state \<Rightarrow> patch_entry \<Rightarrow> bool" where
  "linked L v k s p \<longleftrightarrow>
     (\<exists>d. tb_of s (patch_to p) = Some d \<and>
       (tc_ptr (tbs s d) \<noteq> NOT_TRANS_YET \<and> ld32 (mem s) (patch_at p) = tc_ptr (tbs s d) - patch_at p - 4 \<or>
        (\<exists>o1. o1 + 35 \<le> k \<and> ld32 (mem s) (patch_at p) = v + of_nat o1 - patch_at p - 4 \<and>
          bytes_at (mem s) (v + of_nat o1)
            (stub_bytes L (v + of_nat o1) (tb_addr L (patch_tb p)) 0 (patch_to p) (tb_ret_addr s))))) \<and>
     tb_jmp_offset (tbs s (patch_tb p)) ! 0 = ucast (patch_at p - tc_ptr (tbs s (patch_tb p)))"

text \<open>What patching \<open>p\<close> may change.\<close>

definition patch_frame :: "u32 \<Rightarrow> nat \<Rightarrow> patch_entry \<Rightarrow> trans_state \<Rightarrow> trans_state \<Rightarrow> bool" where
  "patch_frame v k p s s' \<longleftrightarrow> tb_ret_addr s' = tb_ret_addr s \<and> code_ptr s' = code_ptr s \<and>
     patch_array s' = patch_array s \<and> pc_ptr s' = pc_ptr s \<and> nb_tbs s \<le> nb_tbs s' \<and>
     (\<forall>pc d. tb_of s pc = Some d \<longrightarrow> tb_of s' pc = Some d) \<and>
     (\<forall>i<nb_tbs s. tc_ptr (tbs s' i) = tc_ptr (tbs s i)) \<and>
     (\<forall>i<nb_tbs s. i \<noteq> patch_tb p \<longrightarrow> tb_jmp_offset (tbs s' i) = tb_jmp_offset (tbs s i)) \<and>
     (\<forall>a. a \<notin> region (patch_at p) 4 \<longrightarrow> a \<notin> region (v + of_nat k) 35 \<longrightarrow> mem s' a = mem s a)"

lemma linked_frame:
  assumes "linked L v k s p'" "patch_frame v k p s s'" "patch_tb p' \<noteq> patch_tb p" "patch_tb p' < nb_tbs s"
    and "region (patch_at p') 4 \<inter> region (patch_at p) 4 = {}"
    and "region (patch_at p') 4 \<inter> region (v + of_nat k) 35 = {}"
    and "region v k \<inter> region (patch_at p) 4 = {}" "k + 35 \<le> 2 ^ 32" "k \<le> k'"
  shows "linked L v k' s' p'"
proof -
  have code: "ld32 (mem s') (patch_at p') = ld32 (mem s) (patch_at p')"
    using assms(2,5,6) by (intro ld32_cong) (auto simp: patch_frame_def)
  have stub: "bytes_at (mem s') (v + of_nat o1) bs = bytes_at (mem s) (v + of_nat o1) bs"
    if "o1 + 35 \<le> k" "length bs = 35" for o1 bs
  proof (rule bytes_at_cong)
    fix a assume a: "a \<in> region (v + of_nat o1) (length bs)"
    then have "a \<in> region v k"
      using that region_shift [of v o1 35] region_mono [of "o1 + 35" k v] by auto
    moreover have "a \<notin> region (v + of_nat k) 35"
      using region_apart [of o1 35 k 35 v] that a assms(8) by auto
    ultimately show "mem s' a = mem s a" using assms(2,7) by (auto simp: patch_frame_def)
  qed
  from assms(1) obtain d where d: "tb_of s (patch_to p') = Some d"
    and alt: "tc_ptr (tbs s d) \<noteq> NOT_TRANS_YET \<and> ld32 (mem s) (patch_at p') = tc_ptr (tbs s d) - patch_at p' - 4 \<or>
        (\<exists>o1. o1 + 35 \<le> k \<and> ld32 (mem s) (patch_at p') = v + of_nat o1 - patch_at p' - 4 \<and>
          bytes_at (mem s) (v + of_nat o1)
            (stub_bytes L (v + of_nat o1) (tb_addr L (patch_tb p')) 0 (patch_to p') (tb_ret_addr s)))"
    by (auto simp: linked_def)
  have "tc_ptr (tbs s' d) = tc_ptr (tbs s d)" "tb_of s' (patch_to p') = Some d" "tb_ret_addr s' = tb_ret_addr s"
    using assms(2) d tb_of_SomeD [OF d] by (auto simp: patch_frame_def)
  moreover have "tb_jmp_offset (tbs s' (patch_tb p')) ! 0 = ucast (patch_at p' - tc_ptr (tbs s' (patch_tb p')))"
    using assms(1-4) by (auto simp: linked_def patch_frame_def)
  ultimately show ?thesis
    unfolding linked_def code using alt assms(9) stub by (fastforce intro: order_trans)
qed

lemma patch_inv_same:
  assumes "patch_inv c v m n k ps s" "same_tbs s s'" "ext c v m n k' s'"
  shows "patch_inv c v m n k' ps s'"
  using assms tb_inv_same [OF assms(2)] by (simp add: patch_inv_def same_tbs_def)

lemma patches_at_head:
  assumes "patches_at c n (ds @ p # ps)"
  obtains o1 where "patch_at p = c + of_nat o1" "o1 + 4 \<le> n"
    "\<forall>p'\<in>set ds. \<exists>o2. patch_at p' = c + of_nat o2 \<and> o2 + 4 \<le> o1"
proof -
  from assms obtain os where os: "map patch_at (ds @ p # ps) = map (\<lambda>o1. c + of_nat o1) os"
    "sorted_wrt (\<lambda>a b. a + 4 \<le> b) os" "\<forall>x\<in>set os. x + 4 \<le> n"
    by (auto simp: patches_at_def)
  have "map (\<lambda>o1. c + of_nat o1) os = map patch_at ds @ patch_at p # map patch_at ps" using os(1) by simp
  then obtain xs zs where xs: "os = xs @ zs" "map patch_at ds = map (\<lambda>o1. c + of_nat o1) xs"
    "map (\<lambda>o1. c + of_nat o1) zs = patch_at p # map patch_at ps"
    by (auto simp: map_eq_append_conv)
  then obtain x ys where split: "os = xs @ x # ys"
    and eqs: "map patch_at ds = map (\<lambda>o1. c + of_nat o1) xs" "patch_at p = c + of_nat x"
    by (auto simp: map_eq_Cons_conv)
  have "\<exists>o2. patch_at p' = c + of_nat o2 \<and> o2 + 4 \<le> x" if "p' \<in> set ds" for p'
  proof -
    from that have "patch_at p' \<in> (\<lambda>o1. c + of_nat o1) ` set xs"
      using arg_cong [OF eqs(1), of set] by auto
    then show ?thesis using os(2) split by (auto simp: sorted_wrt_append)
  qed
  then show ?thesis using that [of x] eqs(2) os(3) split by auto
qed

lemma lazy_patch_found_ok:
  assumes inv: "patch_inv c v m n k (p # ps) s" and d: "tb_of s (patch_to p) = Some d"
    and tc: "tc_ptr (tbs s d) \<noteq> NOT_TRANS_YET"
  shows "\<exists>s'. lazy_patch_found p d s = Inr s' \<and> patch_inv c v m n k ps s' \<and> linked L v k s' p \<and> patch_frame v k p s s'"
proof -
  let ?s0 = "s\<lparr>find_dest_count := find_dest_count s + 1\<rparr>"
  let ?s1 = "poke32 (patch_at p) (tc_ptr (tbs s d) - patch_at p - 4) ?s0"
  from inv obtain o1 where o1: "patch_at p = c + of_nat o1" "o1 + 4 \<le> n"
    using patches_at_head [of c n "[]" p ps] by (auto simp: patch_inv_def)
  have "ext c v m n k ?s0" using inv by (simp add: patch_inv_def ext_def)
  then have "ext c v m n k ?s1" unfolding o1(1) using o1(2) by (rule ext_poke32)
  then have inv1: "patch_inv c v m n k (p # ps) ?s1"
    by (intro patch_inv_same [OF inv]) (auto simp: same_tbs_def poke32_def)
  then have num: "patch_num (tbs ?s1 (patch_tb p)) = 1" "tb_shape (tbs ?s1 (patch_tb p))" "patch_tb p < nb_tbs ?s1"
    by (auto simp: patch_inv_def tb_inv_def)
  let ?s2 = "take_patch p ?s1"
  have inv2: "patch_inv c v m n k ps ?s2" using inv1 by (rule take_patch_inv)
  have dn: "d < nb_tbs ?s2" using tb_of_SomeD [OF d] by (simp add: take_patch_def)
  have "tb_inv ?s2" using inv2 by (simp add: patch_inv_def)
  from tb_add_jmp_from_ok [OF this dn, of "patch_tb p" "unat (patch_num (tbs ?s2 (patch_tb p)))"]
  obtain f where f: "tb_add_jmp_from (patch_tb p) d (unat (patch_num (tbs ?s2 (patch_tb p)))) ?s2 = Inr (upd_tb d f ?s2)"
    "keeps_key f" "tb_inv (upd_tb d f ?s2)" "\<And>t. tc_ptr (f t) = tc_ptr t" "\<And>t. patch_num (f t) = patch_num t"
    "\<And>t. tb_jmp_offset (f t) = tb_jmp_offset t" by blast
  let ?s3 = "upd_tb d f ?s2"
  have "lazy_patch_found p d s = Inr ?s3"
    using take_patch_eq [OF num(1,2) refl] f(1) by (simp add: lazy_patch_found_def Let_def)
  moreover have "patch_inv c v m n k ps ?s3"
    using inv2 f by (auto simp: patch_inv_def ext_def)
  moreover have tbo: "tb_of ?s3 = tb_of s"
  proof -
    have "tb_of ?s3 = tb_of ?s2" using f(2) by (rule tb_of_upd_tb)
    also have "\<dots> = tb_of (?s1\<lparr>cur_tb := patch_tb p\<rparr>)"
      unfolding take_patch_def by (rule tb_of_upd_tb) (simp add: keeps_key_def)
    also have "\<dots> = tb_of s" by (simp add: tb_of_def poke32_def fun_eq_iff)
    finally show ?thesis .
  qed
  have tcs: "tc_ptr (tbs ?s3 i) = tc_ptr (tbs s i)" for i using f(4) by (simp add: take_patch_def)
  have "linked L v k ?s3 p"
    using d tc tcs num(2) tbo f(6)
    by (auto simp: linked_def take_patch_def poke32_def ld32_st32 tb_shape_def)
  moreover have "patch_frame v k p s ?s3"
    using tbo tcs f(6) by (auto simp: patch_frame_def take_patch_def poke32_def st32_frame)
  ultimately show ?thesis by blast
qed

lemma lazy_patch_stub_ok:
  assumes inv: "patch_inv c v m n k (p # ps) s" and d: "tb_of s (patch_to p) = Some d"
    and disj: "region c n \<inter> region v (k + 35) = {}"
  shows "\<exists>s'. lazy_patch_stub L p s = Inr s' \<and> patch_inv c v m n (k + 35) ps s' \<and>
     linked L v (k + 35) s' p \<and> patch_frame v k p s s'"
proof -
  let ?s1 = "poke32 (patch_at p) (sieve_code_ptr s - patch_at p - 4) s"
  have sp: "sieve_code_ptr s = v + of_nat k" using inv by (simp add: patch_inv_def ext_def)
  from inv obtain o1 where o1: "patch_at p = c + of_nat o1" "o1 + 4 \<le> n"
    using patches_at_head [of c n "[]" p ps] by (auto simp: patch_inv_def)
  have apart: "region (patch_at p) 4 \<inter> region (v + of_nat k) 35 = {}"
    using disj region_shift [of c o1 4] region_mono [OF o1(2), of c] region_shift [of v k 35] o1(1) by auto
  have "ext c v m n k s" using inv by (simp add: patch_inv_def)
  then have "ext c v m n k ?s1" unfolding o1(1) using o1(2) by (rule ext_poke32)
  then have inv1: "patch_inv c v m n k (p # ps) ?s1"
    by (intro patch_inv_same [OF inv]) simp_all
  then have num: "patch_num (tbs ?s1 (patch_tb p)) = 1" "tb_shape (tbs ?s1 (patch_tb p))" "patch_tb p < nb_tbs ?s1"
    by (auto simp: patch_inv_def tb_inv_def)
  let ?s2 = "take_patch p ?s1"
  have inv2: "patch_inv c v m n k ps ?s2" using inv1 by (rule take_patch_inv)
  have n0: "patch_num (tbs ?s2 (patch_tb p)) = 0" using num(1) by (simp add: take_patch_def)
  have sp2: "sieve_code_ptr ?s2 = v + of_nat k" "tb_ret_addr ?s2 = tb_ret_addr s"
    using sp by (simp_all add: take_patch_def poke32_def)
  let ?b = "stub_bytes L (v + of_nat k) (tb_addr L (patch_tb p)) 0 (patch_to p) (tb_ret_addr s)"
  let ?s3 = "semit ?b ?s2"
  have "lazy_patch_stub L p s = Inr ?s3"
    using take_patch_eq [OF num(1,2) refl] n0 sp2 by (simp add: lazy_patch_stub_def Let_def emit_stub_eq)
  moreover have "patch_inv c v m n (k + 35) ps ?s3"
    using ext_semit [of c v m n k ?s2 ?b] inv2
    by (intro patch_inv_same [OF inv2]) (simp_all add: patch_inv_def)
  moreover have tbo: "tb_of ?s3 = tb_of s"
  proof -
    have "tb_of ?s3 = tb_of ?s2" by (simp add: tb_of_def semit_def fun_eq_iff)
    also have "\<dots> = tb_of (?s1\<lparr>cur_tb := patch_tb p\<rparr>)"
      unfolding take_patch_def by (rule tb_of_upd_tb) (simp add: keeps_key_def)
    also have "\<dots> = tb_of s" by (simp add: tb_of_def poke32_def fun_eq_iff)
    finally show ?thesis .
  qed
  have tcs: "tc_ptr (tbs ?s3 i) = tc_ptr (tbs s i)" for i by (simp add: take_patch_def semit_def)
  have mem3: "mem ?s3 = write_bytes (st32 (mem s) (patch_at p) (v + of_nat k - patch_at p - 4)) (v + of_nat k) ?b"
    using sp2(1) sp by (simp add: semit_def take_patch_def poke32_def)
  have "ld32 (mem ?s3) (patch_at p) = v + of_nat k - patch_at p - 4"
    unfolding mem3 using apart by (simp add: ld32_write_bytes_other ld32_st32)
  moreover have "bytes_at (mem ?s3) (v + of_nat k) ?b" unfolding mem3 by (rule bytes_at_write_bytes) simp
  moreover have "tb_jmp_offset (tbs ?s3 (patch_tb p)) ! 0 = ucast (patch_at p - tc_ptr (tbs s (patch_tb p)))"
    using num(2) by (simp add: take_patch_def semit_def tb_shape_def)
  ultimately have "linked L v (k + 35) ?s3 p"
    unfolding linked_def using d tbo tcs sp2(2) by (auto simp: semit_def intro!: exI [of _ k])
  moreover have "patch_frame v k p s ?s3"
    unfolding patch_frame_def mem3 using tbo tcs
    by (auto simp: take_patch_def semit_def poke32_def st32_frame write_bytes_frame)
  ultimately show ?thesis using \<open>lazy_patch_stub L p s = Inr ?s3\<close> \<open>patch_inv c v m n (k + 35) ps ?s3\<close> by blast
qed

lemma patch_inv_find:
  assumes "patch_inv c v m n k ps s"
  obtains jc where "tb_find_fast pc 0 s = Inr (tb_of s pc, s\<lparr>tb_jmp_cache := jc\<rparr>)"
    "patch_inv c v m n k ps (s\<lparr>tb_jmp_cache := jc\<rparr>)"
proof -
  have "tb_inv s" using assms by (simp add: patch_inv_def)
  then obtain jc where jc: "tb_find_fast pc 0 s = Inr (tb_of s pc, s\<lparr>tb_jmp_cache := jc\<rparr>)"
    "tb_inv (s\<lparr>tb_jmp_cache := jc\<rparr>)" by (rule tb_find_fast_spec)
  with assms show ?thesis using that [of jc] by (simp add: patch_inv_def ext_def)
qed

lemma patch_inv_make:
  assumes "patch_inv c v m n k ps s" "make_tb pc fa s = Inr (i, s')"
  shows "patch_inv c v m n k ps s'"
proof -
  note mf = make_tb_fields [OF assms(2)]
  have old: "tbs s' j = tbs s j" if "j < nb_tbs s" for j
    using make_tb_new(3) [OF assms(2), of j] that mf by simp
  have "tb_inv s" using assms(1) by (simp add: patch_inv_def)
  then show ?thesis
    using assms(1) mf make_tb_inv [OF _ assms(2)] make_tb_new(7) [OF assms(2)]
    by (auto simp: patch_inv_def ext_def less_Suc_eq old)
qed

lemma patch_frame_make:
  assumes "make_tb pc fa s = Inr (i, s1)" "tb_of s pc = None" "patch_frame v k p s1 s'" "patch_tb p < nb_tbs s"
  shows "patch_frame v k p s s'"
proof -
  note mf = make_tb_fields [OF assms(1)]
  have old: "tbs s1 j = tbs s j" if "j < nb_tbs s" for j
    using make_tb_new(3) [OF assms(1), of j] that mf by simp
  have "tb_of s1 pc' = Some d" if "tb_of s pc' = Some d" for pc' d
    using make_tb_tb_of [OF assms(1)] that assms(2) by auto
  with assms(3) mf old show ?thesis by (auto simp: patch_frame_def)
qed

lemma patch_frame_cache: "patch_frame v k p (s\<lparr>tb_jmp_cache := jc\<rparr>) s' = patch_frame v k p s s'"
  by (simp add: patch_frame_def)

text \<open>One patch in either way, and a new block when the target has none.\<close>

lemma lazy_patch_one_sat:
  assumes inv: "patch_inv c v m n k (p # ps) s" and disj: "region c n \<inter> region v (k + 35) = {}"
  shows "sat (lazy_patch_one L p s) (\<lambda>s'. \<exists>k'. k \<le> k' \<and> k' \<le> k + 35 \<and> patch_inv c v m n k' ps s' \<and>
     linked L v k' s' p \<and> patch_frame v k p s s')"
proof -
  have tag: "patch_tb_tag p = 0" and lt: "patch_tb p < nb_tbs s" using inv by (auto simp: patch_inv_def)
  from inv obtain jc where find: "tb_find_fast (patch_to p) 0 s = Inr (tb_of s (patch_to p), s\<lparr>tb_jmp_cache := jc\<rparr>)"
    and inv1: "patch_inv c v m n k (p # ps) (s\<lparr>tb_jmp_cache := jc\<rparr>)" by (rule patch_inv_find)
  let ?s1 = "s\<lparr>tb_jmp_cache := jc\<rparr>"
  show ?thesis
  proof (cases "tb_of s (patch_to p)")
    case (Some d)
    then have d: "tb_of ?s1 (patch_to p) = Some d" by simp
    show ?thesis
    proof (cases "tc_ptr (tbs ?s1 d) = NOT_TRANS_YET")
      case True
      from lazy_patch_stub_ok [OF inv1 d disj, of L] True Some find tag show ?thesis
        by (auto simp: lazy_patch_one_def patch_frame_cache intro!: exI [of _ "k + 35"])
    next
      case False
      from lazy_patch_found_ok [OF inv1 d False, of L] False Some find tag show ?thesis
        by (auto simp: lazy_patch_one_def patch_frame_cache intro!: exI [of _ k])
    qed
  next
    case None
    have "sat (and_then (make_tb (patch_to p) (patch_func_addr p) ?s1) (\<lambda>(_, s). lazy_patch_stub L p s))
      (\<lambda>s'. \<exists>k'. k \<le> k' \<and> k' \<le> k + 35 \<and> patch_inv c v m n k' ps s' \<and> linked L v k' s' p \<and> patch_frame v k p s s')"
    proof (rule sat_and_then [OF make_tb_soft], clarify)
      fix i s2 assume mk: "make_tb (patch_to p) (patch_func_addr p) ?s1 = Inr (i, s2)"
      have "tb_of s2 (patch_to p) = Some i" using make_tb_tb_of [OF mk] by simp
      from lazy_patch_stub_ok [OF patch_inv_make [OF inv1 mk] this disj, of L]
      obtain s' where s': "lazy_patch_stub L p s2 = Inr s'" "patch_inv c v m n (k + 35) ps s'"
        "linked L v (k + 35) s' p" "patch_frame v k p s2 s'" by blast
      have "patch_frame v k p ?s1 s'" by (rule patch_frame_make [OF mk _ s'(4)]) (use None lt in simp_all)
      with s' show "sat (lazy_patch_stub L p s2) (\<lambda>s'. \<exists>k'. k \<le> k' \<and> k' \<le> k + 35 \<and>
          patch_inv c v m n k' ps s' \<and> linked L v k' s' p \<and> patch_frame v k p s s')"
        by (auto simp: patch_frame_cache intro!: exI [of _ "k + 35"])
    qed
    with None find tag show ?thesis by (simp add: lazy_patch_one_def)
  qed
qed

lemma lazy_patch_list_sat:
  assumes "patch_inv c v m n k ps s" "patches_at c n (ds @ ps)" "distinct (map patch_tb (ds @ ps))"
    and "\<forall>p\<in>set ds. linked L v k s p \<and> patch_tb p < nb_tbs s"
    and "region c n \<inter> region v (k + 35 * length ps) = {}" "n \<le> 2 ^ 32" "k + 35 * length ps \<le> 2 ^ 32"
  shows "sat (lazy_patch_list L ps s) (\<lambda>s'. \<exists>k'. k' \<le> k + 35 * length ps \<and> patch_inv c v m n k' [] s' \<and>
     (\<forall>p\<in>set (ds @ ps). linked L v k' s' p) \<and> code_ptr s' = code_ptr s \<and> patch_array s' = patch_array s \<and>
     nb_tbs s \<le> nb_tbs s' \<and> (\<forall>i<nb_tbs s. tc_ptr (tbs s' i) = tc_ptr (tbs s i)))"
  using assms
proof (induction ps arbitrary: ds k s)
  case Nil
  then show ?case by (auto intro!: exI [of _ k])
next
  case (Cons p ps)
  have room: "region c n \<inter> region v (k + 35) = {}"
    using Cons.prems(5) region_mono [of "k + 35" "k + 35 * length (p # ps)" v] by auto
  from Cons.prems(2) obtain o1 where o1: "patch_at p = c + of_nat o1" "o1 + 4 \<le> n"
    "\<forall>p'\<in>set ds. \<exists>o2. patch_at p' = c + of_nat o2 \<and> o2 + 4 \<le> o1"
    by (rule patches_at_head)
  have code: "region (c + of_nat x) 4 \<subseteq> region c n" if "x + 4 \<le> n" for x
    using region_shift [of c x 4] region_mono [OF that, of c] by auto
  show ?case unfolding lazy_patch_list.simps
  proof (rule sat_and_then [OF lazy_patch_one_sat [OF Cons.prems(1) room]], clarify)
    fix s1 k1
    assume k1: "k \<le> k1" "k1 \<le> k + 35" and inv1: "patch_inv c v m n k1 ps s1"
      and lp: "linked L v k1 s1 p" and fr: "patch_frame v k p s s1"
    have old: "linked L v k1 s1 p' \<and> patch_tb p' < nb_tbs s1" if p': "p' \<in> set ds" for p'
    proof -
      from o1(3) p' obtain o2 where o2: "patch_at p' = c + of_nat o2" "o2 + 4 \<le> o1" by blast
      have "linked L v k1 s1 p'"
      proof (rule linked_frame [OF _ fr])
        show "linked L v k s p'" "patch_tb p' < nb_tbs s" using Cons.prems(4) p' by auto
        show "patch_tb p' \<noteq> patch_tb p" using Cons.prems(3) imageI [OF p', of patch_tb] by auto
        show "region (patch_at p') 4 \<inter> region (patch_at p) 4 = {}"
          unfolding o1(1) o2(1) using o2(2) o1(2) Cons.prems(6) by (intro region_apart) auto
        show "region (patch_at p') 4 \<inter> region (v + of_nat k) 35 = {}"
          using code [of o2] o2 o1(2) room region_shift [of v k 35] by auto
        show "region v k \<inter> region (patch_at p) 4 = {}"
          using code [OF o1(2)] o1(1) room region_mono [of k "k + 35" v] by auto
      qed (use k1 Cons.prems(7) in auto)
      then show ?thesis using Cons.prems(4) p' fr by (auto simp: patch_frame_def intro: less_le_trans)
    qed
    have lt: "patch_tb p < nb_tbs s1"
      using Cons.prems(1) fr by (auto simp: patch_inv_def patch_frame_def intro: less_le_trans)
    have region1: "region c n \<inter> region v (k1 + 35 * length ps) = {}"
      using Cons.prems(5) k1(2) region_mono [of "k1 + 35 * length ps" "k + 35 * length (p # ps)" v] by auto
    have "sat (lazy_patch_list L ps s1) (\<lambda>s'. \<exists>k'. k' \<le> k1 + 35 * length ps \<and> patch_inv c v m n k' [] s' \<and>
        (\<forall>p\<in>set ((ds @ [p]) @ ps). linked L v k' s' p) \<and> code_ptr s' = code_ptr s1 \<and>
        patch_array s' = patch_array s1 \<and> nb_tbs s1 \<le> nb_tbs s' \<and>
        (\<forall>i<nb_tbs s1. tc_ptr (tbs s' i) = tc_ptr (tbs s1 i)))"
      by (rule Cons.IH [OF inv1 _ _ _ region1 Cons.prems(6)])
        (use Cons.prems(2,3,7) k1(2) lp lt old in auto)
    then show "sat (lazy_patch_list L ps s1) (\<lambda>s'. \<exists>k'. k' \<le> k + 35 * length (p # ps) \<and>
        patch_inv c v m n k' [] s' \<and> (\<forall>p\<in>set (ds @ p # ps). linked L v k' s' p) \<and>
        code_ptr s' = code_ptr s \<and> patch_array s' = patch_array s \<and> nb_tbs s \<le> nb_tbs s' \<and>
        (\<forall>i<nb_tbs s. tc_ptr (tbs s' i) = tc_ptr (tbs s i)))"
    proof (rule sat_mono, elim exE conjE)
      fix s' k'
      assume "k' \<le> k1 + 35 * length ps" "patch_inv c v m n k' [] s'"
        "\<forall>p\<in>set ((ds @ [p]) @ ps). linked L v k' s' p" "code_ptr s' = code_ptr s1"
        "patch_array s' = patch_array s1" "nb_tbs s1 \<le> nb_tbs s'"
        "\<forall>i<nb_tbs s1. tc_ptr (tbs s' i) = tc_ptr (tbs s1 i)"
      with fr k1(2) show "\<exists>k'\<le>k + 35 * length (p # ps). patch_inv c v m n k' [] s' \<and>
          (\<forall>p\<in>set (ds @ p # ps). linked L v k' s' p) \<and> code_ptr s' = code_ptr s \<and>
          patch_array s' = patch_array s \<and> nb_tbs s \<le> nb_tbs s' \<and> (\<forall>i<nb_tbs s. tc_ptr (tbs s' i) = tc_ptr (tbs s i))"
        by (intro exI [of _ k']) (auto simp: patch_frame_def)
    qed
  qed
qed

section \<open>A whole block\<close>

abbreviation max_stubs :: nat where "max_stubs \<equiv> 8960"

text \<open>Between translations no patch is pending.\<close>

definition rest_inv :: "trans_state \<Rightarrow> bool" where
  "rest_inv s \<longleftrightarrow> tb_inv s \<and> (\<forall>i<nb_tbs s. patch_num (tbs s i) = 0)"

text \<open>A block that may be translated, with room for its code and its stubs.\<close>

definition gen_ready :: "nat \<Rightarrow> trans_state \<Rightarrow> bool" where
  "gen_ready tb s \<longleftrightarrow> rest_inv s \<and> tb < nb_tbs s \<and> nty_clear (tc_ptr (tbs s tb)) code_max \<and>
     guest_code (tc_ptr (tbs s tb)) (mem s) (tb_pc (tbs s tb)) \<and>
     region (tc_ptr (tbs s tb)) code_max \<inter> region (sieve_code_ptr s) max_stubs = {}"

definition translated :: "layout \<Rightarrow> nat \<Rightarrow> trans_state \<Rightarrow> trans_state \<Rightarrow> bool" where
  "translated L tb s s' \<longleftrightarrow> rest_inv s' \<and>
     (\<exists>n\<le>code_max. \<exists>k\<le>max_stubs. ext (tc_ptr (tbs s tb)) (sieve_code_ptr s) (mem s) n k s' \<and>
        (\<forall>p\<in>set (patch_array s'). linked L (sieve_code_ptr s) k s' p))"

lemma rest_inv_more:
  assumes "patch_inv c v m n k [] s"
  shows "rest_inv (upd_tb tb (\<lambda>t. t\<lparr>hcode_size := x t\<rparr>) (s\<lparr>s_code_size := y, code_gen_ptr := z\<rparr>))"
proof -
  have "tb_inv (s\<lparr>s_code_size := y, code_gen_ptr := z\<rparr>)"
    using assms by (simp add: patch_inv_def tb_inv_def bucket_def tb_of_def)
  then have "tb_inv (upd_tb tb (\<lambda>t. t\<lparr>hcode_size := x t\<rparr>) (s\<lparr>s_code_size := y, code_gen_ptr := z\<rparr>))"
    by (intro tb_inv_benign) (auto simp: benign_def keeps_key_def tb_shape_def)
  then show ?thesis using assms by (simp add: rest_inv_def patch_inv_def)
qed

lemma linked_more:
  "linked L v k s p \<Longrightarrow> linked L v k (upd_tb tb (\<lambda>t. t\<lparr>hcode_size := x t\<rparr>) (s\<lparr>s_code_size := y, code_gen_ptr := z\<rparr>)) p"
proof -
  let ?s = "upd_tb tb (\<lambda>t. t\<lparr>hcode_size := x t\<rparr>) (s\<lparr>s_code_size := y, code_gen_ptr := z\<rparr>)"
  have "tb_of ?s = tb_of (s\<lparr>s_code_size := y, code_gen_ptr := z\<rparr>)"
    by (rule tb_of_upd_tb) (simp add: keeps_key_def)
  also have "\<dots> = tb_of s" by (simp add: tb_of_def fun_eq_iff)
  finally have tbo: "tb_of ?s = tb_of s" .
  have "tc_ptr (tbs ?s i) = tc_ptr (tbs s i)" "tb_jmp_offset (tbs ?s i) = tb_jmp_offset (tbs s i)" for i by simp_all
  then show "linked L v k s p \<Longrightarrow> linked L v k ?s p" unfolding linked_def tbo by simp
qed

lemma gen_start_inv:
  assumes "rest_inv s" "tb < nb_tbs s"
    and "s1 = s\<lparr>pc_start := tb_pc (tbs s tb), pc_ptr := tb_pc (tbs s tb), code_ptr := tc_ptr (tbs s tb),
      cur_tb := tb, patch_array := [], stb_count := x, stbs := y\<rparr>"
  shows "emit_inv (tc_ptr (tbs s tb)) (sieve_code_ptr s) (mem s) 0 0 s1" "fresh s1"
proof -
  have "tb_inv s1" using assms(1) unfolding assms(3) by (simp add: rest_inv_def tb_inv_def bucket_def tb_of_def)
  then show "emit_inv (tc_ptr (tbs s tb)) (sieve_code_ptr s) (mem s) 0 0 s1"
    using assms by (auto simp: emit_inv_def ext_def patches_at_def blocks_ok_def patch_tbs_def rest_inv_def)
  show "fresh s1" unfolding assms(3) by (simp add: fresh_def patch_tbs_def)
qed

lemma gen_target_code_outcome:
  assumes "gen_ready tb s"
  shows "case gen_target_code L ds tb s of
     Inl e \<Rightarrow> e \<in> early_ends \<union> {Stb_Overflow, Code_Buffer_Overflow} | Inr s' \<Rightarrow> translated L tb s s'"
proof -
  let ?c = "tc_ptr (tbs s tb)" and ?v = "sieve_code_ptr s" and ?m = "mem s"
  let ?s1 = "s\<lparr>pc_start := tb_pc (tbs s tb), pc_ptr := tb_pc (tbs s tb), code_ptr := ?c,
      cur_tb := tb, patch_array := [], stb_count := stb_count s + 1,
      stbs := (stbs s)(stb_count s := (stbs s (stb_count s))\<lparr>stb_pc_start := tb_pc (tbs s tb), stb_tc_ptr := ?c\<rparr>)\<rparr>"
  have ready: "rest_inv s" "tb < nb_tbs s" "nty_clear ?c code_max" "guest_code ?c ?m (tb_pc (tbs s tb))"
    "region ?c code_max \<inter> region ?v max_stubs = {}" using assms by (simp_all add: gen_ready_def)
  note start = gen_start_inv [OF ready(1,2), of ?s1, OF refl]
  have "sat (gen_loop L 0 ds ?s1) (loop_done ?c ?v ?m)"
    by (rule gen_loop_sat [OF start _ ready(3,4), of 0]) simp_all
  moreover have "sat (lazy_patch L (s2\<lparr>stbs := z\<rparr>)) (\<lambda>s3. \<exists>n\<le>code_max. \<exists>k\<le>max_stubs.
      patch_inv ?c ?v ?m n k [] s3 \<and> (\<forall>p\<in>set (patch_array s3). linked L ?v k s3 p))"
    if "loop_done ?c ?v ?m s2" for s2 z
  proof -
    from that obtain n where n: "n \<le> code_max" "patch_inv ?c ?v ?m n 0 (patch_array s2) s2"
      and len: "length (patch_array s2) \<le> 256" by (auto simp: loop_done_def)
    have inv: "patch_inv ?c ?v ?m n 0 (patch_array s2) (s2\<lparr>stbs := z\<rparr>)"
      by (rule patch_inv_same [OF n(2)]) (use n(2) in \<open>auto simp: same_tbs_def patch_inv_def ext_def\<close>)
    have "region ?c n \<inter> region ?v (0 + 35 * length (patch_array s2)) = {}"
      using ready(5) region_mono [OF n(1), of ?c] region_mono [of "0 + 35 * length (patch_array s2)" max_stubs ?v] len
      by auto
    from lazy_patch_list_sat [OF inv _ _ _ this, of "[]" L] n len
    have "sat (lazy_patch_list L (patch_array s2) (s2\<lparr>stbs := z\<rparr>)) (\<lambda>s'. \<exists>k'. k' \<le> 35 * length (patch_array s2) \<and>
       patch_inv ?c ?v ?m n k' [] s' \<and> (\<forall>p\<in>set (patch_array s2). linked L ?v k' s' p) \<and> patch_array s' = patch_array s2)"
      by (auto simp: patch_inv_def elim!: sat_mono)
    then have "sat (lazy_patch_list L (patch_array s2) (s2\<lparr>stbs := z\<rparr>)) (\<lambda>s3. \<exists>n\<le>code_max. \<exists>k\<le>max_stubs.
        patch_inv ?c ?v ?m n k [] s3 \<and> (\<forall>p\<in>set (patch_array s3). linked L ?v k s3 p))"
    proof (rule sat_mono, elim exE conjE)
      fix s3 k
      assume "k \<le> 35 * length (patch_array s2)" "patch_inv ?c ?v ?m n k [] s3"
        "\<forall>p\<in>set (patch_array s2). linked L ?v k s3 p" "patch_array s3 = patch_array s2"
      with n(1) len show "\<exists>n\<le>code_max. \<exists>k\<le>max_stubs. patch_inv ?c ?v ?m n k [] s3 \<and>
          (\<forall>p\<in>set (patch_array s3). linked L ?v k s3 p)"
        by (intro exI [of _ n] conjI exI [of _ k]) auto
    qed
    then show ?thesis by (simp add: lazy_patch_def)
  qed
  ultimately have run: "sat (and_then (gen_loop L 0 ds ?s1) (\<lambda>s2. lazy_patch L (s2\<lparr>stbs := g s2\<rparr>)))
      (\<lambda>s3. \<exists>n\<le>code_max. \<exists>k\<le>max_stubs. patch_inv ?c ?v ?m n k [] s3 \<and> (\<forall>p\<in>set (patch_array s3). linked L ?v k s3 p))" for g
    by (rule sat_and_then)
  let ?g = "\<lambda>s2. (stbs s2)(stb_count s := (stbs s2 (stb_count s))\<lparr>stb_pc_end := pc_ptr s2 - 1\<rparr>)"
  let ?R = "and_then (gen_loop L 0 ds ?s1) (\<lambda>s2. lazy_patch L (s2\<lparr>stbs := ?g s2\<rparr>))"
  let ?F = "\<lambda>s3. let s = s3\<lparr>s_code_size := s_code_size s3 + (pc_ptr s3 - pc_start s3), code_gen_ptr := code_ptr s3\<rparr>
    in if DEFAULT_CODE_GEN_BUFFER_SIZE <s code_gen_ptr s - code_gen_buffer s then Inl Code_Buffer_Overflow
       else Inr (upd_tb tb (\<lambda>t. t\<lparr>hcode_size := ucast (code_gen_ptr s - tc_ptr t)\<rparr>) s)"
  have gen: "gen_target_code L ds tb s = (if STB_MAX \<le> stb_count s + 1 then Inl Stb_Overflow else and_then ?R ?F)"
    by (simp add: gen_target_code_def Let_def and_then_assoc)
  show ?thesis
  proof (cases ?R)
    case (Inl e)
    with run [of ?g] show ?thesis by (simp add: gen)
  next
    case (Inr s3)
    with run [of ?g] obtain n k where nk: "n \<le> code_max" "k \<le> max_stubs" "patch_inv ?c ?v ?m n k [] s3"
      "\<forall>p\<in>set (patch_array s3). linked L ?v k s3 p" by (auto simp del: and_then_eq_Inr)
    have "ext ?c ?v ?m n k (upd_tb tb f (s3\<lparr>s_code_size := y, code_gen_ptr := z\<rparr>))" for f y z
      using nk(3) by (simp add: patch_inv_def ext_def)
    then have "translated L tb s (upd_tb tb (\<lambda>t. t\<lparr>hcode_size := x t\<rparr>) (s3\<lparr>s_code_size := y, code_gen_ptr := z\<rparr>))" for x y z
      unfolding translated_def using nk rest_inv_more [OF nk(3)] linked_more
      by (intro conjI exI [of _ n] exI [of _ k]) auto
    with Inr show ?thesis by (simp add: gen Let_def del: and_then_eq_Inr)
  qed
qed

section \<open>A translation evaluated\<close>

text \<open>The instruction \<^verbatim>\<open>jmp .\<close> at 0x8048000 and a state with one block for it.\<close>

definition demo_L :: layout where
  "demo_L = \<lparr>l_env = 0x20000000, l_tbs = 0x30000000, l_sieve_buffer = 0x14000000, l_prologue = 0x1f000000,
     l_exit_stub = 0x1f100000\<rparr>"

definition demo_guest :: memory where
  "demo_guest = write_bytes (\<lambda>_. 0) 0x8048000 [0xeb, 0xfe]"

definition demo_tb :: TranslationBlock where
  "demo_tb = blank_tb\<lparr>tb_pc := 0x8048000, func_addr := 0x8048000, tc_ptr := 0x9000000\<rparr>"

definition demo_state :: "memory \<Rightarrow> trans_state" where
  "demo_state m = \<lparr>tbs = (\<lambda>_. blank_tb)(0 := demo_tb), nb_tbs = 1,
     tb_phys_hash = (\<lambda>_. None)(tb_phys_hash_func 0x8048000 := Some 0),
     tb_jmp_cache = (\<lambda>_. None)(tb_jmp_cache_hash_func 0x8048000 := Some 0),
     code_gen_buffer = 0x9000000, code_gen_ptr = 0x9000000,
     mem = m, code_ptr = 0x9000000, sieve_code_ptr = 0x14000010, patch_array = [], cur_tb = 0,
     sieve_stub = 0x14000000, tb_ret_addr = 0x1f000041, pc_ptr = 0, pc_start = 0, insn_len = 0,
     stbs = (\<lambda>_. \<lparr>stb_pc_start = 0, stb_pc_end = 0, stb_tc_ptr = 0\<rparr>), stb_count = 0, jmp_count = 0,
     jcond_count = 0, jothercond_count = 0, call_count = 0, call_ind_count = 0, ret_count = 0,
     retIw_count = 0, j_ind_count = 0, find_dest_count = 0, s_code_size = 0, sieve_stat = (\<lambda>_. 0),
     end_by_transnext = 0\<rparr>"

text \<open>Memory that holds the guest's code, whatever else it holds.\<close>

definition demo_mem :: "memory \<Rightarrow> bool" where
  "demo_mem m \<longleftrightarrow> (\<forall>q<1000000. m (0x8048000 + of_nat q) = demo_guest (0x8048000 + of_nat q)) \<and>
     ld32 m (a_patch_num demo_L) = 0"

lemma demo_rest: "rest_inv (demo_state m)"
  by (auto simp: rest_inv_def tb_inv_def demo_state_def bucket_def tb_of_def demo_tb_def blank_tb_def tb_shape_def
     tb_jmp_cache_hash_func_def tb_phys_hash_func_def)

lemma demo_code_apart: "q < 1000000 \<Longrightarrow> 0x8048000 + of_nat q \<notin> region 0x9000000 code_max"
  by (rule region_far) simp_all

lemma demo_guest_prefix: "\<not> is_prefix_byte (demo_guest a)"
  by (auto simp: is_prefix_byte_iff demo_guest_def)

lemma demo_ready:
  assumes "demo_mem m"
  shows "gen_ready 0 (demo_state m)"
proof -
  have "nty_clear 0x9000000 code_max"
    unfolding nty_clear_def
  proof (intro allI impI notI)
    fix o1 assume "o1 \<le> code_max" "(0x9000000 + of_nat o1 :: u32) = 0xdeadbeaf"
    then have "of_nat o1 = (0xdeadbeaf - 0x9000000 :: u32)" by (simp add: algebra_simps)
    moreover have "unat (of_nat o1 :: u32) = o1"
      using \<open>o1 \<le> code_max\<close> by (intro unat_of_nat_u32) simp
    ultimately show False using \<open>o1 \<le> code_max\<close> by simp
  qed
  moreover have "guest_code 0x9000000 m 0x8048000"
    unfolding guest_code_def using assms demo_guest_prefix demo_code_apart
    by (auto simp: demo_mem_def intro!: exI [of _ 0])
  moreover have "region 0x9000000 code_max \<inter> region 0x14000010 max_stubs = {}"
    using region_apart [of 0 code_max "0xb000010" max_stubs "0x9000000"] by simp
  ultimately show ?thesis
    using demo_rest by (simp add: gen_ready_def demo_state_def demo_tb_def)
qed

lemma demo_eb: "table_entry T_nopbyte0 0xeb = opc 0xeb ''jmp'' 7 1 0 0 0 0 (P_emit Emit_jmp) INST_JMP 10485762 0"
  by (simp add: table_entry_def nopbyte0_def nth_append nopbyte0_00_def nopbyte0_40_def nopbyte0_80_def nopbyte0_c0_def)

lemma demo_bytes: "demo_mem m \<Longrightarrow> m 0x8048000 = 0xeb \<and> m 0x8048001 = 0xfe"
  unfolding demo_mem_def by (drule conjunct1, frule spec [of _ 0], drule spec [of _ 1]) (simp add: demo_guest_def)

lemma demo_jmp_decode:
  assumes "demo_mem m"
  shows "\<exists>ds. simple_disas_insn m blank_ds 0x8048000 = Some (True, ds) \<and> decode_eip ds = 0x8048002 \<and>
     ds_emitfn ds = P_emit Emit_jmp \<and> ds_immediate ds = - 2 \<and> ds_opstate ds = 3"
proof -
  have "prefix_loop m (disas_init blank_ds 0x8048000) =
      Some ((disas_init blank_ds 0x8048000)\<lparr>ds_b := 0xeb, ds_attr := 10485762\<rparr>)" (is "_ = Some ?ds")
    by (subst prefix_loop.simps)
      (simp add: disas_init_def prefix_fetch_def Let_def demo_bytes [OF assms] demo_eb ld8_def opc_def)
  moreover have "opcode_loop m T_nopbyte0 (?ds\<lparr>ds_instr := 0x8048000\<rparr>) =
     Some (?ds\<lparr>ds_instr := 0x8048000, decode_eip := 0x8048001\<rparr>, table_entry T_nopbyte0 0xeb, False)"
    by (subst opcode_loop.simps) (simp add: demo_bytes [OF assms] demo_eb demo_simps disas_init_def)
  ultimately show ?thesis
    by (simp add: simple_disas_insn_def disas_init_def)
     (simp add: disas_operands_def fetch_modrm_def group_entry_def save_modrm_def modrm_operands_def demo_eb
      fetch_immediates_def fetch_Iw_def fetch_Ib_def fetch_Iv_def fetch_Ov_def fetch_Jv_def fetch_Ap_def
      fetch_sized_def read_defs disas_finish_def blank_ds_def demo_bytes [OF assms] demo_simps Let_def)
qed

lemma demo_guest_mem: "demo_mem demo_guest"
  by (simp add: demo_mem_def ld32_def demo_guest_def a_patch_num_def demo_L_def)

lemma demo_insn:
  assumes "demo_mem m"
  shows "\<exists>ds' s'. gen_insn demo_L blank_ds ((demo_state m)\<lparr>pc_start := 0x8048000, pc_ptr := 0x8048000, code_ptr := 0x9000000,
     cur_tb := 0, patch_array := [], stb_count := x, stbs := y\<rparr>) = Inr (False, ds', s') \<and>
     code_ptr s' = 0x9000005 \<and> code_gen_buffer s' = 0x9000000 \<and>
     patch_array s' = [\<lparr>patch_at = 0x9000001, patch_to = 0x8048000, patch_tb = 0, patch_func_addr = 0x8048000, patch_tb_tag = 0\<rparr>] \<and>
     tbs s' = (\<lambda>_. blank_tb)(0 := demo_tb\<lparr>patch_num := 1, insn_count := 1\<rparr>) \<and>
     tb_jmp_cache s' = tb_jmp_cache (demo_state m)"
proof -
  obtain ds where ds: "simple_disas_insn m blank_ds 0x8048000 = Some (True, ds)" "decode_eip ds = 0x8048002"
     "ds_emitfn ds = P_emit Emit_jmp" "ds_immediate ds = - 2" "ds_opstate ds = 3" using demo_jmp_decode [OF assms] by blast
  have "ld32 (write_bytes m 0x9000000 bs) (a_patch_num demo_L) = 0" if "length bs = 5" for bs
    using that assms region_apart [of 0 5 "0x17000040" 4 "0x9000000"]
    by (simp add: ld32_write_bytes_other demo_mem_def a_patch_num_def demo_L_def Int_commute)
  then show ?thesis
    by (simp add: gen_insn_def ds demo_state_def flag_set_def emit_jmp_def demo_tb_def blank_tb_def tb_find_fast_def
      note_patch_def Let_def emit_def upd_tb_def del: write_bytes.simps)
qed

lemma demo_gen:
  assumes "demo_mem m"
  shows "\<exists>s'. gen_target_code demo_L blank_ds 0 (demo_state m) = Inr s' \<and> patch_array s' \<noteq> []"
proof -
  let ?y = "(\<lambda>_. \<lparr>stb_pc_start = 0, stb_pc_end = 0, stb_tc_ptr = 0\<rparr>)(0 := \<lparr>stb_pc_start = 0x8048000, stb_pc_end = 0, stb_tc_ptr = 0x9000000\<rparr>)"
  obtain ds' s' where s': "gen_insn demo_L blank_ds ((demo_state m)\<lparr>pc_start := 0x8048000, pc_ptr := 0x8048000, code_ptr := 0x9000000,
     cur_tb := 0, patch_array := [], stb_count := Suc 0, stbs := ?y\<rparr>) = Inr (False, ds', s')"
     "code_ptr s' = 0x9000005" "code_gen_buffer s' = 0x9000000"
     "patch_array s' = [\<lparr>patch_at = 0x9000001, patch_to = 0x8048000, patch_tb = 0, patch_func_addr = 0x8048000, patch_tb_tag = 0\<rparr>]"
     "tbs s' = (\<lambda>_. blank_tb)(0 := demo_tb\<lparr>patch_num := 1, insn_count := 1\<rparr>)"
     "tb_jmp_cache s' = tb_jmp_cache (demo_state m)" using demo_insn [OF assms, of ?y "Suc 0"] by blast
  have loop: "gen_loop demo_L 0 blank_ds ((demo_state m)\<lparr>pc_start := 0x8048000, pc_ptr := 0x8048000, code_ptr := 0x9000000,
     cur_tb := 0, patch_array := [], stb_count := Suc 0, stbs := ?y\<rparr>) = Inr s'"
    by (subst gen_loop.simps) (simp add: s'(1) del: and_then_eq_Inr)
  have start: "(demo_state m)\<lparr>pc_start := 0x8048000, pc_ptr := 0x8048000, code_ptr := 0x9000000,
     cur_tb := 0, patch_array := [], stb_count := Suc 0, stbs := ?y\<rparr> = (demo_state m)\<lparr>pc_start := tb_pc (tbs (demo_state m) 0), pc_ptr := tb_pc (tbs (demo_state m) 0), code_ptr := tc_ptr (tbs (demo_state m) 0),
     cur_tb := 0, patch_array := [], stb_count := stb_count (demo_state m) + 1, stbs := (stbs (demo_state m))(stb_count (demo_state m) := (stbs (demo_state m) (stb_count (demo_state m)))
                  \<lparr>stb_pc_start := tb_pc (tbs (demo_state m) 0), stb_tc_ptr := tc_ptr (tbs (demo_state m) 0)\<rparr>)\<rparr>"
     by (simp add: demo_state_def demo_tb_def)
  have st: "stb_count (demo_state m) = 0" by (simp add: demo_state_def)
  have "\<exists>s2. lazy_patch demo_L (s'\<lparr>stbs := z\<rparr>) = Inr s2 \<and> code_ptr s2 = 0x9000005 \<and> patch_array s2 \<noteq> [] \<and>
     code_gen_buffer s2 = 0x9000000" for z
    by (simp add: lazy_patch_def s' lazy_patch_one_def tb_find_fast_def demo_state_def demo_tb_def blank_tb_def
      lazy_patch_found_def Let_def poke32_def upd_tb_def set_jmp_offset_def set_slot_def tb_add_jmp_from_def)
  then obtain s2 where s2: "lazy_patch demo_L (s'\<lparr>stbs := (stbs s')(0 := (stbs s' 0)\<lparr>stb_pc_end := pc_ptr s' - 1\<rparr>)\<rparr>) = Inr s2"
     "code_ptr s2 = 0x9000005" "patch_array s2 \<noteq> []" "code_gen_buffer s2 = 0x9000000" by blast
  have "(DEFAULT_CODE_GEN_BUFFER_SIZE <s (5::u32)) = False" by simp
  then show ?thesis using loop s2 st unfolding start
    by (simp add: gen_target_code_def Let_def st del: and_then_eq_Inr)
qed

section \<open>What a translation does\<close>




text \<open>
  C10: A translation writes its code from the block's \<^verbatim>\<open>tc_ptr\<close> up to the new code pointer and its exit
  stubs from the old up to the new sieve pointer, at most 1600000 and 8960 bytes, and leaves every
  other byte of memory (the guest's code among them) as it was.
\<close>

theorem gen_target_code_frame:
  assumes "gen_ready tb s" "gen_target_code L ds tb s = Inr s'"
  shows "\<exists>n k. n \<le> 1600000 \<and> k \<le> 8960 \<and>
     code_ptr s' = tc_ptr (tbs s tb) + of_nat n \<and> sieve_code_ptr s' = sieve_code_ptr s + of_nat k \<and>
     (\<forall>a. a \<notin> region (tc_ptr (tbs s tb)) n \<longrightarrow> a \<notin> region (sieve_code_ptr s) k \<longrightarrow> mem s' a = mem s a)"
  using gen_target_code_outcome [OF assms(1), of L ds] assms(2)
  by (auto simp: translated_def ext_def)

theorem gen_target_code_frame_witness:
  "\<exists>s' n k. gen_target_code demo_L blank_ds 0 (demo_state demo_guest) = Inr s' \<and> n \<le> 1600000 \<and> k \<le> 8960 \<and>
     code_ptr s' = tc_ptr (tbs (demo_state demo_guest) 0) + of_nat n \<and>
     sieve_code_ptr s' = sieve_code_ptr (demo_state demo_guest) + of_nat k \<and>
     (\<forall>a. a \<notin> region (tc_ptr (tbs (demo_state demo_guest) 0)) n \<longrightarrow> a \<notin> region (sieve_code_ptr (demo_state demo_guest)) k \<longrightarrow>
        mem s' a = mem (demo_state demo_guest) a)"
proof -
  from demo_gen [OF demo_guest_mem] obtain s' where s': "gen_target_code demo_L blank_ds 0 (demo_state demo_guest) = Inr s'" by blast
  from gen_target_code_frame [OF demo_ready [OF demo_guest_mem] s'] s' show ?thesis by blast
qed

text \<open>
  C9: After a translation every branch it recorded is linked: its displacement reaches the host code
  of a known block for the target, or an exit stub in the sieve buffer that names the branch's block,
  slot 0 and the guest target and jumps to the epilogue; the target has a block in the directory, and
  slot 0 of \<^verbatim>\<open>tb_jmp_offset\<close> holds the low 16 bits of the displacement's offset in the block.
\<close>

theorem gen_target_code_linked:
  assumes "gen_ready tb s" "gen_target_code L ds tb s = Inr s'" "p \<in> set (patch_array s')"
  shows "(\<exists>d q. tb_of s' (patch_to p) = Some d \<and> ld32 (mem s') (patch_at p) = q - (patch_at p + 4) \<and>
      (q = tc_ptr (tbs s' d) \<and> q \<noteq> NOT_TRANS_YET \<or>
       bytes_at (mem s') q (stub_bytes L q (tb_addr L (patch_tb p)) 0 (patch_to p) (tb_ret_addr s')))) \<and>
    tb_jmp_offset (tbs s' (patch_tb p)) ! 0 = ucast (patch_at p - tc_ptr (tbs s' (patch_tb p)))"
proof -
  from gen_target_code_outcome [OF assms(1), of L ds] assms(2,3) obtain k
    where "linked L (sieve_code_ptr s) k s' p" by (auto simp: translated_def)
  then show ?thesis unfolding linked_def diff_diff_eq [symmetric] by blast
qed

theorem gen_target_code_linked_witness:
  "\<exists>s' p d q. gen_target_code demo_L blank_ds 0 (demo_state demo_guest) = Inr s' \<and> p \<in> set (patch_array s') \<and>
     tb_of s' (patch_to p) = Some d \<and> ld32 (mem s') (patch_at p) = q - (patch_at p + 4)"
proof -
  from demo_gen [OF demo_guest_mem] obtain s' p where s': "gen_target_code demo_L blank_ds 0 (demo_state demo_guest) = Inr s'" "p \<in> set (patch_array s')"
    by (metis list.set_intros(1) list.exhaust)
  from gen_target_code_linked [OF demo_ready [OF demo_guest_mem] s'] s' show ?thesis by blast
qed

end
