(* ===== verification/Block_Growth.thy ===== *)
theory Block_Growth
  imports Translate_Block
begin

text \<open>
  What translating a block keeps of the blocks that are there: no translated block moves, none is
  forgotten, and the block being translated ends up translated.  The code emitter sets \<^verbatim>\<open>tc_ptr\<close>
  back to \<^verbatim>\<open>NOT_TRANS_YET\<close> when it stops in an empty block, so this needs that every instruction emits
  code or goes on in another block.
\<close>

section \<open>The relations\<close>

text \<open>The parts of a block that linking uses.\<close>

definition slots :: "TranslationBlock \<Rightarrow> u16 list \<times> u32 list \<times> u32 list \<times> u32 \<times> u32" where
  "slots t = (tb_jmp_offset t, jind_src_addr t, jind_dest_addr t, jmp_ind_index t, ind_enter_sieve t)"

text \<open>The blocks a translation may work on: its own, new ones, and those without code.\<close>

definition own :: "trans_state \<Rightarrow> nat \<Rightarrow> bool" where
  "own s i \<longleftrightarrow> i = cur_tb s \<or> nb_tbs s \<le> i \<or> tc_ptr (tbs s i) = NOT_TRANS_YET"

definition keeps :: "trans_state \<Rightarrow> trans_state \<Rightarrow> bool" where
  "keeps s s' \<longleftrightarrow> nb_tbs s \<le> nb_tbs s' \<and>
     (\<forall>i<nb_tbs s. tb_pc (tbs s' i) = tb_pc (tbs s i) \<and>
        (tc_ptr (tbs s i) \<noteq> NOT_TRANS_YET \<longrightarrow> tc_ptr (tbs s' i) = tc_ptr (tbs s i)) \<and>
        (\<not> own s i \<longrightarrow> slots (tbs s' i) = slots (tbs s i))) \<and>
     (\<forall>p\<in>set (patch_array s'). p \<in> set (patch_array s) \<or> own s (patch_tb p)) \<and>
     tb_ret_addr s' = tb_ret_addr s \<and> sieve_stub s' = sieve_stub s \<and> code_gen_buffer s' = code_gen_buffer s"

definition grows :: "trans_state \<Rightarrow> trans_state \<Rightarrow> bool" where
  "grows s s' \<longleftrightarrow> keeps s s' \<and> own s (cur_tb s')"

lemma keeps_refl [simp]: "keeps s s"
  by (simp add: keeps_def)

lemma grows_refl [simp]: "grows s s"
  by (simp add: grows_def own_def)

text \<open>A block that is not translated now was not translated before, if it was there.\<close>

lemma keeps_untranslated: "keeps s s1 \<Longrightarrow> tc_ptr (tbs s1 i) = NOT_TRANS_YET \<Longrightarrow> own s i"
  unfolding own_def by (metis keeps_def linorder_not_less)

lemma own_back: "grows s s1 \<Longrightarrow> own s1 i \<Longrightarrow> own s i"
  using keeps_untranslated [of s s1 i] by (auto simp: grows_def own_def keeps_def)

lemma grows_keeps:
  assumes "grows s s1" "keeps s1 s2"
  shows "keeps s s2"
proof -
  have k: "keeps s s1" using assms(1) by (simp add: grows_def)
  have "nb_tbs s \<le> nb_tbs s1" using k by (simp add: keeps_def)
  moreover have "slots (tbs s2 i) = slots (tbs s i)" if "i < nb_tbs s" "\<not> own s i" for i
  proof -
    have "\<not> own s1 i" using that(2) own_back [OF assms(1)] by blast
    with that k assms(2) show ?thesis by (simp add: keeps_def)
  qed
  ultimately show ?thesis using k assms(2) own_back [OF assms(1)] by (auto simp: keeps_def)
qed

lemma grows_trans: "grows s s1 \<Longrightarrow> grows s1 s2 \<Longrightarrow> grows s s2"
  using grows_keeps [of s s1 s2] own_back [of s s1] by (auto simp: grows_def)

text \<open>What holds of a result, if there is one.\<close>

definition post :: "'a outcome \<Rightarrow> ('a \<Rightarrow> bool) \<Rightarrow> bool" where
  "post r P \<longleftrightarrow> (\<forall>x. r = Inr x \<longrightarrow> P x)"

lemma post_simps [simp]: "post (Inr x) P = P x" "post (Inl e) P"
  by (simp_all add: post_def)

lemma post_and_then: "post r Q \<Longrightarrow> (\<And>x. Q x \<Longrightarrow> post (f x) P) \<Longrightarrow> post (and_then r f) P"
  by (auto simp: post_def)

lemma postD: "post r P \<Longrightarrow> r = Inr x \<Longrightarrow> P x"
  by (simp add: post_def)

lemma post_mono: "post r Q \<Longrightarrow> (\<And>x. Q x \<Longrightarrow> P x) \<Longrightarrow> post r P"
  by (auto simp: post_def)

named_theorems grow_rules \<open>what the emitters' primitives keep of the directory\<close>

lemma grows_same:
  assumes "grows s s1" "tbs s2 = tbs s1" "nb_tbs s2 = nb_tbs s1" "tb_ret_addr s2 = tb_ret_addr s1" "sieve_stub s2 = sieve_stub s1"
    "code_gen_buffer s2 = code_gen_buffer s1" "cur_tb s2 = cur_tb s1" "patch_array s2 = patch_array s1"
  shows "grows s s2"
  using assms by (simp add: grows_def keeps_def)

lemma grows_emit [grow_rules]:
  "grows s s1 \<Longrightarrow> grows s (emit bs s1)" "grows s s1 \<Longrightarrow> grows s (semit bs s1)" "grows s s1 \<Longrightarrow> grows s (emit_rel32 t s1)"
  "grows s s1 \<Longrightarrow> grows s (poke32 p w s1)" "grows s s1 \<Longrightarrow> grows s (poke8 p b s1)" "grows s s1 \<Longrightarrow> grows s (cemit_sieve_nopush s1)"
  "grows s s1 \<Longrightarrow> grows s (emit_mov_mem a w s1)" "grows s s1 \<Longrightarrow> grows s (emit_rc_move L x y s1)"
  by (erule grows_same; simp add: emit_def semit_def emit_rel32_def poke32_def poke8_def cemit_sieve_nopush_def emit_mov_mem_def
    emit_rc_move_def)+

lemma grows_upd [grow_rules]:
  assumes "grows s s1" "\<And>t. tb_pc (f t) = tb_pc t" "\<And>t. tc_ptr (f t) = tc_ptr t"
    and "i = cur_tb s1 \<or> (\<forall>t. slots (f t) = slots t)"
  shows "grows s (upd_tb i f s1)"
  using assms by (auto simp: grows_def keeps_def upd_tb_def)

lemma grows_fields [simp]:
  "grows s (s1\<lparr>call_count := x\<rparr>) = grows s s1" "grows s (s1\<lparr>call_ind_count := x\<rparr>) = grows s s1"
  "grows s (s1\<lparr>ret_count := x\<rparr>) = grows s s1" "grows s (s1\<lparr>retIw_count := x\<rparr>) = grows s s1"
  "grows s (s1\<lparr>jcond_count := x\<rparr>) = grows s s1" "grows s (s1\<lparr>jothercond_count := x\<rparr>) = grows s s1"
  "grows s (s1\<lparr>jmp_count := x\<rparr>) = grows s s1" "grows s (s1\<lparr>j_ind_count := x\<rparr>) = grows s s1"
  "grows s (s1\<lparr>end_by_transnext := x\<rparr>) = grows s s1" "grows s (s1\<lparr>find_dest_count := x\<rparr>) = grows s s1"
  "grows s (s1\<lparr>insn_len := x\<rparr>) = grows s s1" "grows s (s1\<lparr>pc_ptr := x\<rparr>) = grows s s1"
  "grows s (s1\<lparr>tb_jmp_cache := jc\<rparr>) = grows s s1"
  by (simp_all add: grows_def keeps_def)

lemma make_tb_grows [grow_rules]:
  "grows s s1 \<Longrightarrow> post (make_tb pc fa s1) (\<lambda>(i, s2). grows s s2 \<and> i < nb_tbs s2 \<and> nb_tbs s \<le> i)"
  unfolding post_def
proof clarify
  fix i s2 assume g: "grows s s1" and mk: "make_tb pc fa s1 = Inr (i, s2)"
  note new = make_tb_new [OF mk] and f = make_tb_fields [OF mk]
  have lt: "nb_tbs s \<le> nb_tbs s1" using g by (simp add: grows_def keeps_def)
  have "tbs s2 j = tbs s1 j" if "j < nb_tbs s" for j using new(1) new(3) [of j] that lt by simp
  then show "grows s s2 \<and> i < nb_tbs s2 \<and> nb_tbs s \<le> i" using g new(1,2,9) f(1,3,7,8) lt by (auto simp: grows_def keeps_def)
qed

lemma find_grows [grow_rules]:
  "grows s s1 \<Longrightarrow> post (tb_find_fast pc tag s1) (\<lambda>(tb, s2). grows s s2)"
  by (auto simp: post_def tb_find_fast_def tb_find_slow_def split: option.splits if_splits)

lemma grows_patch:
  "grows s s1 \<Longrightarrow> own s (patch_tb p) \<Longrightarrow> grows s (s1\<lparr>patch_array := patch_array s1 @ [p]\<rparr>)"
  by (simp add: grows_def keeps_def)

lemma note_patch_grows [grow_rules]:
  assumes "grows s s1" "tb = cur_tb s1"
  shows "post (note_patch L a to tb fa tag s1) (grows s)"
  using assms grows_patch [OF assms(1)]
  by (auto simp: post_def note_patch_def grows_def [of s s1] slots_def intro!: grows_upd split: if_splits)

lemma set_jmp_offset_grows [grow_rules]: "grows s s1 \<Longrightarrow> tb = cur_tb s1 \<Longrightarrow> post (set_jmp_offset tb v s1) (grows s)"
  by (auto simp: post_def set_jmp_offset_def intro!: grow_rules)

lemma tb_add_jmp_from_grows [grow_rules]: "grows s s1 \<Longrightarrow> post (tb_add_jmp_from tb nx n s1) (grows s)"
  by (auto simp: post_def tb_add_jmp_from_def Let_def slots_def intro!: grow_rules)

text \<open>An emitter that goes on after a branch does so in a block that had no code.\<close>

definition moved_on :: "trans_state \<Rightarrow> bool \<times> trans_state \<Rightarrow> bool" where
  "moved_on s = (\<lambda>(cont, s'). grows s s' \<and>
     (cont \<longrightarrow> nb_tbs s \<le> cur_tb s' \<or> tc_ptr (tbs s (cur_tb s')) = NOT_TRANS_YET))"

lemma moved_on_stop [simp]: "moved_on s (False, s') = grows s s'"
  by (simp add: moved_on_def)

lemma retarget_moved:
  assumes "grows s s1" "nb_tbs s \<le> i \<or> tc_ptr (tbs s1 i) = NOT_TRANS_YET"
  shows "moved_on s (True, (upd_tb i (tc_ptr_update (\<lambda>_. p)) s1)\<lparr>cur_tb := i\<rparr>)"
proof -
  have k: "keeps s s1" using assms(1) by (simp add: grows_def)
  then have i: "nb_tbs s \<le> i \<or> tc_ptr (tbs s i) = NOT_TRANS_YET" using assms(2) unfolding keeps_def by (metis linorder_not_less)
  then have "own s i" by (auto simp: own_def)
  then show ?thesis using i k by (auto simp: moved_on_def grows_def keeps_def upd_tb_def)
qed

lemma trans_next_moves [grow_rules]:
  assumes "grows s s1"
  shows "post (trans_next ds s1) (moved_on s)"
  unfolding trans_next_def
  by (auto simp: Let_def assms intro!: post_and_then [OF find_grows [OF assms]] post_and_then [OF set_jmp_offset_grows]
      post_and_then [OF tb_add_jmp_from_grows] post_and_then [OF make_tb_grows] retarget_moved grow_rules split: option.split)

section \<open>The emitters\<close>

lemma emit_push_rm_grows [grow_rules]: "grows s s1 \<Longrightarrow> post (emit_push_rm ds s1) (grows s)"
  by (auto simp: emit_push_rm_def Let_def intro!: grow_rules)

lemma cemit_exit_tb_grows [grow_rules]: "grows s s1 \<Longrightarrow> grows s (cemit_exit_tb L r t s1)"
  by (auto simp: cemit_exit_tb_def Let_def intro!: grow_rules)

lemma cemit_rc_cmp_grows [grow_rules]: "grows s s1 \<Longrightarrow> grows s (cemit_rc_cmp p s1)"
  by (auto simp: cemit_rc_cmp_def Let_def intro!: grow_rules)

lemma ind_hit_grows [grow_rules]: "grows s s1 \<Longrightarrow> post (ind_hit i p s1) (grows s)"
  by (auto simp: ind_hit_def Let_def intro!: grow_rules)

lemma ind_probe_grows: "grows s s1 \<Longrightarrow> grows s (snd (ind_probe i s1))"
  by (auto simp: ind_probe_def Let_def intro!: grow_rules)

lemma cemit_ind_opt_grows [grow_rules]: "grows s s1 \<Longrightarrow> post (cemit_ind_opt L t s1) (grows s)"
  unfolding cemit_ind_opt_def Let_def case_prod_unfold
  by (auto intro!: post_and_then [OF ind_hit_grows] grow_rules ind_probe_grows)

lemma emit_call_disp_moves: "post (emit_call_disp L ds s) (moved_on s)"
  unfolding emit_call_disp_def Let_def by (auto intro!: post_and_then [OF note_patch_grows] grow_rules)

lemma emit_call_near_mem_moves: "post (emit_call_near_mem L ds s) (moved_on s)"
  unfolding emit_call_near_mem_def Let_def
  apply (rule post_and_then [where Q = "grows s"])
   apply (auto simp: slots_def intro!: post_and_then [OF emit_push_rm_grows] grow_rules)[1]
  by (auto intro!: post_and_then [OF cemit_ind_opt_grows] grow_rules)

lemma emit_jcond_moves: "post (emit_jcond L ds s) (moved_on s)"
  unfolding emit_jcond_def Let_def by (auto intro!: post_and_then [OF note_patch_grows] grow_rules)

lemma emit_other_jcond_moves: "post (emit_other_jcond L ds s) (moved_on s)"
  unfolding emit_other_jcond_def Let_def
  by (auto intro!: post_and_then [OF note_patch_grows] grow_rules split: option.split)

lemma emit_jmp_near_mem_moves: "post (emit_jmp_near_mem L ds s) (moved_on s)"
  unfolding emit_jmp_near_mem_def Let_def
  by (auto intro!: post_and_then [OF emit_push_rm_grows] post_and_then [OF cemit_ind_opt_grows] grow_rules)

lemma rc_move_grows:
  assumes "grows s s1"
  shows "post (case tb of
      Some i \<Rightarrow> Inr (if func_addr (tbs s1 i) \<noteq> 0 \<and> func_addr (tbs s1 i) \<noteq> cur then emit_rc_move L cur (func_addr (tbs s1 i)) s1 else s1)
    | None \<Rightarrow> if to < cur \<or> is_function_patten (mem s1) to
        then and_then (make_tb to to s1) (\<lambda>(_, s). Inr (emit_rc_move L cur to s)) else Inr s1) (grows s)"
  using assms by (auto intro!: post_and_then [OF make_tb_grows] grow_rules split: option.split)

lemma emit_jmp_moves: "post (emit_jmp L ds s) (moved_on s)"
  unfolding emit_jmp_def Let_def
  by (auto intro!: post_and_then [OF find_grows] post_and_then [OF rc_move_grows] post_and_then [OF note_patch_grows] grow_rules)

text \<open>
  After one instruction the translator stops, goes on in a block that had no code, or has emitted at
  least the instruction itself.
\<close>

definition insn_emitted :: "trans_state \<Rightarrow> bool \<times> trans_state \<Rightarrow> bool" where
  "insn_emitted s = (\<lambda>(cont, s'). grows s s' \<and> (cont \<longrightarrow> moved_on s (cont, s') \<or>
     (\<exists>d\<le>30. code_ptr s' = code_ptr s + of_nat d + insn_len s)))"

lemma emit_code_ptr: "code_ptr (emit bs s) = code_ptr s + of_nat (length bs)"
  by (simp add: emit_def)

lemma emit_int_emits: "post (emit_int L ds s) (insn_emitted s)"
proof (cases "mem s (ds_instr ds + 1) = 0x80")
  case True
  have [simp]: "insn_len (poke8 p b s') = insn_len s'" for p b s' by (simp add: poke8_def)
  show ?thesis
    unfolding emit_int_def Let_def insn_emitted_def
    by (auto simp: True emit_code_ptr emit_rel32_def guest_insn_def add.assoc intro!: grow_rules exI [of _ 23])
next
  case False
  then show ?thesis
    by (auto simp: emit_int_def insn_emitted_def emit_code_ptr guest_insn_def intro!: grow_rules exI [of _ 0])
qed

lemma run_emitfn_emits: "post (run_emitfn L f ds s) (insn_emitted s)"
proof (cases f)
  case (P_emit g)
  have "post r (moved_on s) \<Longrightarrow> post r (insn_emitted s)" for r
    by (erule post_mono) (auto simp: insn_emitted_def moved_on_def)
  then show ?thesis
    using P_emit emit_call_near_mem_moves [of L ds s] emit_call_disp_moves [of L ds s] emit_jcond_moves [of L ds s]
      emit_other_jcond_moves [of L ds s] emit_jmp_near_mem_moves [of L ds s] emit_jmp_moves [of L ds s] emit_int_emits [of L ds s]
    by (cases g) (auto simp: insn_emitted_def emit_normal_def emit_sysenter_def emit_ret_def emit_ret_Iw_def Let_def emit_code_ptr
        guest_insn_def intro!: grow_rules exI [of _ 0])
qed simp_all

definition insn_step :: "trans_state \<Rightarrow> bool \<times> decode_t \<times> trans_state \<Rightarrow> bool" where
  "insn_step s = (\<lambda>(cont, ds, s'). grows s s' \<and> (cont \<longrightarrow> nb_tbs s \<le> cur_tb s' \<or> tc_ptr (tbs s (cur_tb s')) = NOT_TRANS_YET \<or>
     (\<exists>d. 0 < d \<and> d \<le> 45 \<and> code_ptr s' = code_ptr s + of_nat d)))"

lemma gen_insn_steps:
  assumes "i \<le> 4" "\<not> is_prefix_byte (mem s (pc_ptr s + of_nat i))"
  shows "post (gen_insn L ds s) (insn_step s)"
proof (cases "simple_disas_insn (mem s) ds (pc_ptr s)")
  case (Some r)
  then obtain ok ds' where dis: "simple_disas_insn (mem s) ds (pc_ptr s) = Some (ok, ds')" by (cases r) auto
  let ?n = "unat (decode_eip ds' - pc_ptr s)" and ?s = "s\<lparr>insn_len := decode_eip ds' - pc_ptr s, pc_ptr := decode_eip ds'\<rparr>"
  have n: "?n \<le> 15" by (rule disas_at_most_15 [OF dis assms])
  have n0: "0 < ?n"
    using dis
  proof (rule disas_advance)
    fix n k assume "\<forall>i<n. is_prefix_byte (mem s (pc_ptr s + of_nat i))" "1 \<le> k" "k \<le> 11"
      "decode_eip ds' = pc_ptr s + of_nat n + of_nat k"
    moreover from this assms have "n \<le> 4" by (meson le_trans not_le_imp_less)
    ultimately have "?n = n + k" by (simp add: add.assoc unat_of_nat_u32 flip: of_nat_add)
    with \<open>1 \<le> k\<close> show ?thesis by simp
  qed
  have "insn_step s (cont, ds', upd_tb (cur_tb s') (\<lambda>t. t\<lparr>insn_count := insn_count t + 1\<rparr>) s')"
    if "insn_emitted ?s (cont, s')" for cont s'
  proof -
    have "grows ?s s'" using that by (simp add: insn_emitted_def)
    then have "grows s s'" by (simp add: grows_def keeps_def own_def)
    moreover have "\<exists>d'. 0 < d' \<and> d' \<le> 45 \<and> code_ptr s' = code_ptr s + of_nat d'"
      if "d \<le> 30" "code_ptr s' = code_ptr ?s + of_nat d + insn_len ?s" for d
      using that n n0 by (intro exI [of _ "d + ?n"]) simp
    ultimately show ?thesis using that by (auto simp: insn_step_def insn_emitted_def moved_on_def slots_def intro!: grow_rules)
  qed
  then show ?thesis
    unfolding gen_insn_def Let_def dis by (auto intro!: post_and_then [OF run_emitfn_emits])
qed (simp add: gen_insn_def)

section \<open>The loop and the patches\<close>

lemma end_at_limit_grows:
  assumes "grows s0 s" "tc_ptr (tbs s (cur_tb s)) = code_ptr s \<Longrightarrow> nb_tbs s0 \<le> cur_tb s \<or> tc_ptr (tbs s0 (cur_tb s)) = NOT_TRANS_YET"
  shows "post (end_at_limit L s) (grows s0)"
proof -
  let ?s = "if tc_ptr (tbs s (cur_tb s)) = code_ptr s then upd_tb (cur_tb s) (tc_ptr_update (\<lambda>_. NOT_TRANS_YET)) s else s"
  have "grows s0 ?s" using assms by (auto simp: grows_def keeps_def upd_tb_def slots_def own_def)
  then have "grows s0 (emit (0xe9 # bytes32 NEED_PATCH_32) ?s)" by (rule grow_rules)
  then show ?thesis
    unfolding end_at_limit_def Let_def by (rule note_patch_grows) simp
qed

lemma gen_loop_grows:
  assumes "emit_inv c v m n 0 s" "fresh s" "length (patch_array s) < 254" "nty_clear c code_max"
    and "guest_code c m pc" "pc_ptr s = pc + of_nat q" "n \<le> 185 * j" "q \<le> 15 * j" "j \<le> MAX_INSNS"
    and s0: "tc_ptr (tbs s0 (cur_tb s0)) = c" "c \<noteq> NOT_TRANS_YET" "cur_tb s0 < nb_tbs s0" and "grows s0 s"
  shows "post (gen_loop L j ds s) (grows s0)"
  using assms(1-3,6-9,13)
proof (induction "MAX_INSNS - j" arbitrary: j n q ds s rule: less_induct)
  case less
  have n: "n + 185 \<le> code_max" using less.prems(5,7) by simp
  have "q \<le> 15 * Suc MAX_INSNS" using less.prems(6,7) by simp
  with assms(5) obtain i where i: "i \<le> 4" "pc_ptr s + of_nat i \<notin> region c code_max"
    "\<not> is_prefix_byte (m (pc_ptr s + of_nat i))"
    unfolding guest_code_def less.prems(4) by blast
  then have "pc_ptr s + of_nat i \<notin> region c n" using region_mono [of n code_max c] n by auto
  then have pf: "\<not> is_prefix_byte (mem s (pc_ptr s + of_nat i))"
    using less.prems(1) i(3) by (auto simp: emit_inv_def ext_def)
  have len: "length (patch_array s) < 256" using less.prems(3) by simp
  note step = gen_insn_sat [OF less.prems(1,2) len assms(4) n i(1) pf, of L ds] gen_insn_steps [OF i(1) pf, of L ds]
  have "post (gen_insn L ds s) (\<lambda>r. insn_done c v m (n + 185) 0 s r \<and> insn_step s r)"
    using step by (auto simp: post_def sat_def)
  then show ?case
    unfolding gen_loop.simps [of L j]
  proof (rule post_and_then, clarify)
    fix cont ds' s'
    assume "insn_done c v m (n + 185) 0 s (cont, ds', s')" and st: "insn_step s (cont, ds', s')"
    then obtain n' d where n': "n' \<le> n + 185" "emit_inv c v m n' 0 s'"
      and d: "d \<le> 15" "pc_ptr s' = pc_ptr s + of_nat d" and fr: "cont \<longrightarrow> fresh s'"
      unfolding insn_done_def by auto
    have pc: "pc_ptr s' = pc + of_nat (q + d)" using d(2) less.prems(4) by simp
    have g: "grows s0 s'" using grows_trans [OF less.prems(8)] st by (simp add: insn_step_def)
    show "post (if \<not> cont then Inr s' else if limit_reached j s' then end_at_limit L s' else gen_loop L (Suc j) ds' s') (grows s0)"
    proof (cases "cont \<and> \<not> limit_reached j s'")
      case True
      then have j: "j < MAX_INSNS" "length (patch_array s') < 254" by (auto simp: limit_reached_def)
      have "post (gen_loop L (Suc j) ds' s') (grows s0)"
        by (rule less.hyps [OF _ n'(2) _ j(2) pc _ _ _ g]) (use True fr j(1) n'(1) d(1) less.prems(5,6) in auto)
      with True show ?thesis by simp
    next
      case False
      have "nb_tbs s0 \<le> cur_tb s' \<or> tc_ptr (tbs s0 (cur_tb s')) = NOT_TRANS_YET" if "tc_ptr (tbs s' (cur_tb s')) = code_ptr s'" cont
      proof (rule ccontr)
        assume no: "\<not> (nb_tbs s0 \<le> cur_tb s' \<or> tc_ptr (tbs s0 (cur_tb s')) = NOT_TRANS_YET)"
        with g have cur: "cur_tb s' = cur_tb s0" by (auto simp: grows_def own_def)
        have "keeps s0 s" using less.prems(8) by (simp add: grows_def)
        with s0 have "tc_ptr (tbs s (cur_tb s')) = c" "cur_tb s' < nb_tbs s" unfolding cur by (auto simp: keeps_def)
        with st \<open>cont\<close> s0(2) obtain k where k: "0 < k" "k \<le> 45" "code_ptr s' = code_ptr s + of_nat k" by (auto simp: insn_step_def)
        have "tc_ptr (tbs s' (cur_tb s')) = c" using g s0 unfolding cur by (simp add: grows_def keeps_def)
        with that(1) k(3) emit_inv_code_ptr [OF less.prems(1)] have "(of_nat (n + k) :: u32) = 0" by simp
        then have "unat (of_nat (n + k) :: u32) = 0" by simp
        with n k(1,2) show False by (simp add: unat_of_nat_u32 del: of_nat_add)
      qed
      then have "post (end_at_limit L s') (grows s0)" if cont using end_at_limit_grows [OF g] that by blast
      then show ?thesis using False g by auto
    qed
  qed
qed

text \<open>The patches are blocks the translation may work on; \<^verbatim>\<open>lazy_patch\<close> makes each the current one in turn.\<close>

lemma lazy_patch_one_grows:
  assumes "grows s s1" "own s (patch_tb p)"
  shows "post (lazy_patch_one L p s1) (grows s)"
proof -
  have cur: "grows s s2 \<Longrightarrow> grows s (s2\<lparr>cur_tb := patch_tb p\<rparr>)" for s2
    using assms(2) by (simp add: grows_def keeps_def)
  have found: "grows s s2 \<Longrightarrow> post (lazy_patch_found p d s2) (grows s)" for d s2
    unfolding lazy_patch_found_def Let_def
    by (rule post_and_then [OF set_jmp_offset_grows]) (auto intro!: cur grow_rules)
  have stub: "grows s s2 \<Longrightarrow> post (lazy_patch_stub L p s2) (grows s)" for s2
    unfolding lazy_patch_stub_def Let_def
    by (rule post_and_then [OF set_jmp_offset_grows]) (auto simp: emit_stub_def semit_rel32_def intro!: cur grow_rules)
  show ?thesis
    unfolding lazy_patch_one_def
    by (rule post_and_then [OF find_grows [OF assms(1)]])
      (auto intro!: found stub post_and_then [OF make_tb_grows] split: option.split)
qed

lemma lazy_patch_list_grows:
  "grows s s1 \<Longrightarrow> \<forall>p\<in>set ps. own s (patch_tb p) \<Longrightarrow> post (lazy_patch_list L ps s1) (grows s)"
  by (induction ps arbitrary: s1) (auto intro!: post_and_then [OF lazy_patch_one_grows])

text \<open>A translation leaves every translated block where it is, the block itself included.\<close>

lemma gen_target_code_keeps:
  assumes "gen_ready tb s" "gen_target_code L ds tb s = Inr s'"
  shows "keeps (s\<lparr>cur_tb := tb, patch_array := []\<rparr>) s'"
proof -
  let ?c = "tc_ptr (tbs s tb)"
  let ?s1 = "s\<lparr>pc_start := tb_pc (tbs s tb), pc_ptr := tb_pc (tbs s tb), code_ptr := ?c,
      cur_tb := tb, patch_array := [], stb_count := stb_count s + 1,
      stbs := (stbs s)(stb_count s := (stbs s (stb_count s))\<lparr>stb_pc_start := tb_pc (tbs s tb), stb_tc_ptr := ?c\<rparr>)\<rparr>"
  have ready: "rest_inv s" "tb < nb_tbs s" "nty_clear ?c code_max" "guest_code ?c (mem s) (tb_pc (tbs s tb))"
    using assms(1) by (simp_all add: gen_ready_def)
  note start = gen_start_inv [OF ready(1,2), of ?s1, OF refl]
  have c: "?c \<noteq> NOT_TRANS_YET" using ready(3) by (auto simp: nty_clear_def dest: spec [of _ 0])
  have loop: "post (gen_loop L 0 ds ?s1) (grows ?s1)"
    by (rule gen_loop_grows [OF start _ ready(3,4), of 0]) (use ready(2) c in simp_all)
  from assms(2) obtain s2 s3 where s2: "gen_loop L 0 ds ?s1 = Inr s2"
    and s3: "lazy_patch L (s2\<lparr>stbs := (stbs s2)(stb_count s := (stbs s2 (stb_count s))\<lparr>stb_pc_end := pc_ptr s2 - 1\<rparr>)\<rparr>) = Inr s3"
    and s': "s' = upd_tb tb (\<lambda>t. t\<lparr>hcode_size := ucast (code_ptr s3 - tc_ptr t)\<rparr>)
       (s3\<lparr>s_code_size := s_code_size s3 + (pc_ptr s3 - pc_start s3), code_gen_ptr := code_ptr s3\<rparr>)"
    by (auto simp: gen_target_code_def Let_def split: if_splits)
  have g2: "grows ?s1 s2" by (rule postD [OF loop s2])
  then have ps: "\<forall>p\<in>set (patch_array s2). own ?s1 (patch_tb p)" by (simp add: grows_def keeps_def)
  have "grows ?s1 (s2\<lparr>stbs := f\<rparr>)" for f using g2 by (simp add: grows_def keeps_def)
  from lazy_patch_list_grows [OF this ps] s3 have "grows ?s1 s3" by (auto simp: lazy_patch_def post_def)
  then have "grows ?s1 s'" unfolding s' by (intro grows_upd) (simp_all add: grows_def keeps_def slots_def)
  then show ?thesis by (simp add: grows_def keeps_def own_def)
qed

end
