(* ===== verification/Code_Cache.thy ===== *)
theory Code_Cache
  imports Sieve Block_Growth
begin

text \<open>
  The start-up code of the code cache at work: \<^verbatim>\<open>codecache_prologue_init\<close> leaves a prologue, an
  epilogue, an empty sieve and an empty return cache in memory; the prologue hands the processor to
  the guest and the epilogue hands it back.
\<close>

section \<open>The start-up code in memory\<close>

abbreviation env_size :: nat where "env_size \<equiv> 1840216"
abbreviation sieve_size :: nat where "sieve_size \<equiv> 67108864"

text \<open>The static buffers, the prologue and \<^verbatim>\<open>env\<close> do not overlap.\<close>

definition good_layout :: "layout \<Rightarrow> bool" where
  "good_layout L \<longleftrightarrow> region (l_prologue L) 2048 \<inter> region (l_env L) env_size = {} \<and>
     region (l_sieve_buffer L) sieve_size \<inter> region (l_env L) env_size = {} \<and>
     region (l_prologue L) 2048 \<inter> region (l_sieve_buffer L) sieve_size = {}"

lemma env_table: "region (a_sieve_hashtable L) table_size \<subseteq> region (l_env L) env_size"
  using region_shift [of "l_env L" 267344 table_size] region_mono [of "267344 + table_size" env_size "l_env L"]
  by (simp add: a_sieve_hashtable_def)

lemma env_ret_table: "region (a_ret_hash_table L) (4 * 65536) \<subseteq> region (l_env L) env_size"
  using region_shift [of "l_env L" 72 "4 * 65536"] region_mono [of "72 + 4 * 65536" env_size "l_env L"]
  by (simp add: a_ret_hash_table_def)

lemma prologue_length [simp]: "length (prologue_bytes L) = 65" "length (epilogue_bytes L) = 66"
  by (simp_all add: prologue_bytes_def epilogue_bytes_def)

lemma ret_fill_frame: "a \<notin> region p (4 * n) \<Longrightarrow> ret_fill n p v m a = m a"
proof (induction n arbitrary: p m)
  case (Suc n)
  have "a \<notin> region (p + of_nat 4) (4 * n)" "a \<notin> region p 4"
    using Suc.prems region_shift [of p 4 "4 * n"] region_mono [of 4 "4 * Suc n" p] by auto
  then show ?case using Suc.IH [of "p + 4"] by (simp add: st32_frame)
qed simp

lemma ret_fill_entry:
  assumes "i < n" "4 * n \<le> 2 ^ 32"
  shows "ld32 (ret_fill n p v m) (p + of_nat (4 * i)) = v"
  using assms
proof (induction n arbitrary: i p m)
  case (Suc n)
  show ?case
  proof (cases i)
    case 0
    have "region p 4 \<inter> region (p + of_nat 4) (4 * n) = {}"
      using region_apart [of 0 4 4 "4 * n" p] Suc.prems(2) by simp
    then have "ld32 (ret_fill n (p + 4) v (st32 m p v)) p = ld32 (st32 m p v) p"
      by (intro ld32_cong ret_fill_frame) auto
    with 0 show ?thesis by (simp add: ld32_st32)
  next
    case (Suc j)
    then show ?thesis using Suc.IH [of j "p + 4"] Suc.prems by (simp add: algebra_simps)
  qed
qed simp

definition sieve_jump :: "u32 \<Rightarrow> u32 \<Rightarrow> u8 list" where
  "sieve_jump p stub = 0x51 # 0xe9 # bytes32 (stub - (p + 2) - 4)"

lemma cemit_sieve_bytes: "cemit_sieve s = emit (sieve_jump (code_ptr s) (sieve_stub s)) s"
  by (simp add: cemit_sieve_def cemit_sieve_nopush_def emit_rel32_def emit_emit2 sieve_jump_def)
     (simp add: emit_def algebra_simps)

text \<open>The memory that \<^verbatim>\<open>codecache_prologue_init\<close> leaves.\<close>

definition init_mem :: "layout \<Rightarrow> memory \<Rightarrow> memory" where
  "init_mem L m0 =
     (let p = l_prologue L; v = l_sieve_buffer L;
          m1 = write_bytes (st32 m0 (reg_addr L ESP) (ld32 m0 (reg_addr L ESP) - 4)) p (prologue_bytes L);
          m2 = write_bytes m1 (p + 65) (epilogue_bytes L);
          m3 = write_bytes m2 v (sieve_entry_bytes L);
          m4 = write_bytes m3 (p + 256) (exit_bytes L (p + 256) (- 1) IND_TYPE_CALL (p + 65));
          m5 = sv_fill 65536 (a_sieve_hashtable L) (p + 256) m4;
          m6 = write_bytes m5 (p + 512) (sieve_jump (p + 512) v)
      in ret_fill 65536 (a_ret_hash_table L) (p + 512) m6)"

lemma sieve_entry_length [simp]: "length (sieve_entry_bytes L) = 16"
  by (simp add: sieve_entry_bytes_def)

lemma codecache_prologue_init_mem:
  assumes "codecache_prologue_init L s = Inr s'"
  shows "mem s' = init_mem L (mem s) \<and> sieve_code_ptr s' = l_sieve_buffer L + 16 \<and>
     tb_ret_addr s' = l_prologue L + 65 \<and> sieve_stub s' = l_sieve_buffer L \<and> code_ptr s' = code_ptr s"
proof -
  from assms obtain s1 i pc where s1: "make_tb pc pc s1 = Inr (i, s')" "mem s1 = init_mem L (mem s)"
    "sieve_code_ptr s1 = l_sieve_buffer L + 16" "tb_ret_addr s1 = l_prologue L + 65"
    "sieve_stub s1 = l_sieve_buffer L" "code_ptr s1 = code_ptr s"
    unfolding codecache_prologue_init_def sieve_init_def sv_table_init_def
      ret_cache_proc_init_def cemit_exit_tb_bytes cemit_sieve_bytes
    by (auto simp: Let_def init_mem_def emit_def semit_def poke32_def clear_cgc_def simp del: write_bytes.simps)
  then show ?thesis using make_tb_fields [OF s1(1)] by simp
qed

text \<open>What stays true of the start-up code while the program runs.\<close>

definition runtime_code :: "layout \<Rightarrow> memory \<Rightarrow> bool" where
  "runtime_code L m \<longleftrightarrow> bytes_at m (l_prologue L) (prologue_bytes L) \<and>
     bytes_at m (l_prologue L + 65) (epilogue_bytes L) \<and>
     bytes_at m (l_prologue L + 256) (exit_bytes L (l_prologue L + 256) (- 1) IND_TYPE_CALL (l_prologue L + 65)) \<and>
     bytes_at m (l_prologue L + 512) (sieve_jump (l_prologue L + 512) (l_sieve_buffer L))"

definition empty_sieve :: "layout \<Rightarrow> sieve" where
  "empty_sieve L = \<lparr>sv_layout = L, sv_stub = l_sieve_buffer L, sv_base = l_sieve_buffer L, sv_used = 16,
     sv_out = l_prologue L + 256, sv_nodes = (\<lambda>_. [])\<rparr>"

lemma runtime_code_frame:
  assumes "runtime_code L m" "\<And>a. a \<in> region (l_prologue L) 2048 \<Longrightarrow> m' a = m a"
  shows "runtime_code L m'"
proof -
  have sub: "region (l_prologue L + of_nat n) l \<subseteq> region (l_prologue L) 2048" if "n + l \<le> 2048" for n l
    using region_shift [of "l_prologue L" n l] region_mono [OF that, of "l_prologue L"] by blast
  have "bytes_at m' (l_prologue L + of_nat n) bs" if "bytes_at m (l_prologue L + of_nat n) bs" "n + length bs \<le> 2048" for n bs
    using that(1) by (rule bytes_at_frame) (use sub [OF that(2)] assms(2) in auto)
  from this [of 0 "prologue_bytes L"] this [of 65 "epilogue_bytes L"] this [of 256] this [of 512] assms(1)
  show ?thesis by (simp add: runtime_code_def exit_bytes_length sieve_jump_def del: bytes_at.simps)
qed

lemma init_mem_runtime:
  assumes "good_layout L"
  shows "runtime_code L (init_mem L m)" "sieve_valid (empty_sieve L) (init_mem L m)"
    and "ld32 (init_mem L m) (RET_HASH_FUNC (a_ret_hash_table L) f) = l_prologue L + 512"
proof -
  let ?p = "l_prologue L" and ?v = "l_sieve_buffer L"
  define m1 where "m1 = write_bytes (st32 m (reg_addr L ESP) (ld32 m (reg_addr L ESP) - 4)) ?p (prologue_bytes L)"
  define m2 where "m2 = write_bytes m1 (?p + 65) (epilogue_bytes L)"
  define m3 where "m3 = write_bytes m2 ?v (sieve_entry_bytes L)"
  define m4 where "m4 = write_bytes m3 (?p + 256) (exit_bytes L (?p + 256) (- 1) IND_TYPE_CALL (?p + 65))"
  define m5 where "m5 = sv_fill 65536 (a_sieve_hashtable L) (?p + 256) m4"
  define m6 where "m6 = write_bytes m5 (?p + 512) (sieve_jump (?p + 512) ?v)"
  define m7 where "m7 = ret_fill 65536 (a_ret_hash_table L) (?p + 512) m6"
  have eq: "init_mem L m = m7"
    by (simp add: init_mem_def Let_def m1_def m2_def m3_def m4_def m5_def m6_def m7_def)
  let ?env = "region (l_env L) env_size"
  have slice: "a \<notin> ?env \<and> a \<notin> region ?v 16" if "a \<in> region (?p + of_nat n) l" "n + l \<le> 2048" for a n l
  proof -
    have "a \<in> region ?p 2048" using that region_shift [of ?p n l] region_mono [OF that(2), of ?p] by auto
    with assms show ?thesis using region_mono [of 16 sieve_size ?v] by (auto simp: good_layout_def)
  qed
  have apart: "a \<notin> region (?p + of_nat j) l'"
    if "a \<in> region (?p + of_nat i) l" "i + l \<le> j \<or> j + l' \<le> i" "i + l \<le> 2048" "j + l' \<le> 2048" for a i l j l'
    using that region_apart [of i l j l' ?p] region_apart [of j l' i l ?p] by fastforce
  have f7: "m7 a = m6 a" if "a \<notin> ?env" for a
    unfolding m7_def using that env_ret_table [of L] by (intro ret_fill_frame) auto
  have f6: "m6 a = m5 a" if "a \<notin> region (?p + of_nat 512) 6" for a
    unfolding m6_def using that by (intro write_bytes_frame) (simp add: sieve_jump_def)
  have f5: "m5 a = m4 a" if "a \<notin> ?env" for a
    unfolding m5_def using that env_table [of L] by (intro sv_fill_frame) auto
  have f4: "m4 a = m3 a" if "a \<notin> region (?p + of_nat 256) 22" for a
    unfolding m4_def using that by (intro write_bytes_frame) (simp add: exit_bytes_length)
  have f3: "m3 a = m2 a" if "a \<notin> region ?v 16" for a
    unfolding m3_def using that by (intro write_bytes_frame) simp
  have f2: "m2 a = m1 a" if "a \<notin> region (?p + of_nat 65) 66" for a
    unfolding m2_def using that by (intro write_bytes_frame) simp
  have "bytes_at m7 (?p + of_nat 0) (prologue_bytes L)"
    by (rule bytes_at_frame [of m1])
      (use slice [of _ 0 65] apart [of _ 0 65 512 6] apart [of _ 0 65 256 22] apart [of _ 0 65 65 66] in \<open>simp_all add: m1_def bytes_at_write_bytes f7 f6 f5 f4 f3 f2\<close>)
  moreover have "bytes_at m7 (?p + of_nat 65) (epilogue_bytes L)"
    by (rule bytes_at_frame [of m2])
      (use slice [of _ 65 66] apart [of _ 65 66 512 6] apart [of _ 65 66 256 22] in \<open>simp_all add: m2_def bytes_at_write_bytes f7 f6 f5 f4 f3\<close>)
  moreover have "bytes_at m7 (?p + of_nat 256) (exit_bytes L (?p + 256) (- 1) IND_TYPE_CALL (?p + 65))"
    by (rule bytes_at_frame [of m4])
      (use slice [of _ 256 22] apart [of _ 256 22 512 6] in
        \<open>simp_all add: m4_def bytes_at_write_bytes exit_bytes_length f7 f6 f5\<close>)
  moreover have "bytes_at m7 (?p + of_nat 512) (sieve_jump (?p + 512) ?v)"
    by (rule bytes_at_frame [of m6])
      (use slice [of _ 512 6] in \<open>simp_all add: m6_def bytes_at_write_bytes sieve_jump_def f7 del: bytes_at.simps write_bytes.simps\<close>)
  ultimately show "runtime_code L (init_mem L m)" by (simp add: runtime_code_def eq)
  have vt: "region ?v 16 \<inter> region (a_sieve_hashtable L) table_size = {}"
    by (rule disjoint_subsets [OF _ _ env_table, of "region ?v sieve_size"])
      (use assms in \<open>simp_all add: good_layout_def region_mono\<close>)
  have v4: "bytes_at m4 ?v (sieve_entry_bytes L)"
  proof (rule bytes_at_frame [of m3])
    show "bytes_at m3 ?v (sieve_entry_bytes L)" unfolding m3_def by (rule bytes_at_write_bytes) simp
    show "m4 a = m3 a" if "a \<in> region ?v (length (sieve_entry_bytes L))" for a
      using that slice [of a 256 22] by (intro f4) auto
  qed
  have "sieve_valid (empty_sieve L) m5"
    unfolding empty_sieve_def m5_def by (rule sv_fill_valid [OF v4 _ vt]) simp
  then have v6: "sieve_valid (empty_sieve L) m6"
    by (rule sieve_valid_frame) (use slice [of _ 512 6] env_table [of L] f6 in \<open>auto simp: empty_sieve_def\<close>)
  have keep: "m7 a = m6 a" if "a \<in> region ?v 16 \<or> a \<in> region (a_sieve_hashtable L) table_size" for a
    unfolding m7_def
  proof (rule ret_fill_frame)
    have "region ?v 16 \<inter> region (a_ret_hash_table L) (4 * 65536) = {}"
      by (rule disjoint_subsets [OF _ _ env_ret_table, of "region ?v sieve_size"])
        (use assms in \<open>simp_all add: good_layout_def region_mono\<close>)
    moreover have "region (a_ret_hash_table L) (4 * 65536) \<inter> region (a_sieve_hashtable L) table_size = {}"
      using region_apart [of 72 "4 * 65536" 267344 table_size "l_env L"]
      by (simp add: a_ret_hash_table_def a_sieve_hashtable_def)
    ultimately show "a \<notin> region (a_ret_hash_table L) (4 * 65536)" using that by blast
  qed
  from v6 show "sieve_valid (empty_sieve L) (init_mem L m)"
    unfolding eq by (rule sieve_valid_frame) (use keep in \<open>auto simp: empty_sieve_def\<close>)
  have "ld32 m7 (a_ret_hash_table L + of_nat (4 * unat (f AND 0xffff))) = ?p + 512"
    unfolding m7_def using bucket_offset(2) [of f] by (intro ret_fill_entry) simp_all
  then show "ld32 (init_mem L m) (RET_HASH_FUNC (a_ret_hash_table L) f) = ?p + 512"
    by (simp add: eq RET_HASH_FUNC_def mult.commute)
qed

section \<open>Running the prologue and the epilogue\<close>

definition load_code :: "layout \<Rightarrow> u8 list \<Rightarrow> u8 list" where
  "load_code L rs = concat (map (\<lambda>i. [0x8b, 0x05 OR push_bit 3 i] @ bytes32 (reg_addr L i)) rs)"

definition store_code :: "layout \<Rightarrow> u8 list \<Rightarrow> u8 list" where
  "store_code L rs = concat (map (\<lambda>i. [0x89, 0x05 OR push_bit 3 i] @ bytes32 (reg_addr L i)) rs)"

lemma load_code_Cons: "load_code L (r # rs) = (0x8b # (0x05 OR push_bit 3 r) # bytes32 (reg_addr L r)) @ load_code L rs"
  by (simp add: load_code_def)

lemma store_code_Cons: "store_code L (r # rs) = (0x89 # (0x05 OR push_bit 3 r) # bytes32 (reg_addr L r)) @ store_code L rs"
  by (simp add: store_code_def)

lemma load_code_length [simp]: "length (load_code L rs) = 6 * length rs" "length (store_code L rs) = 6 * length rs"
  by (induction rs) (simp_all add: load_code_def store_code_def)

lemma reg_addr_env:
  assumes "r < 8"
  shows "region (reg_addr L r) 4 \<subseteq> region (l_env L) 32"
proof -
  have "unat r < 8" using assms by (simp add: word_less_nat_alt)
  moreover have "reg_addr L r = l_env L + of_nat (4 * unat r)" by (simp add: reg_addr_def a_regs_def)
  ultimately show ?thesis
    using region_shift [of "l_env L" "4 * unat r" 4] region_mono [of "4 * unat r + 4" 32 "l_env L"] by auto
qed

lemma load_code_runs:
  assumes "\<forall>r\<in>set rs. r < 8" "bytes_at m p (load_code L rs)"
  shows "runs \<lparr>h_eip = p, h_reg = g, h_flags = f, h_mem = m\<rparr>
     \<lparr>h_eip = p + of_nat (6 * length rs), h_reg = fold (\<lambda>r g. g(r := ld32 m (reg_addr L r))) rs g, h_flags = f, h_mem = m\<rparr>"
  using assms
proof (induction rs arbitrary: p g)
  case (Cons r rs)
  let ?b = "0x8b # (0x05 OR push_bit 3 r) # bytes32 (reg_addr L r)"
  have code: "bytes_at m p ?b" "bytes_at m (p + 6) (load_code L rs)"
    using Cons.prems(2) unfolding load_code_Cons bytes_at_append by simp_all
  have "encodes ?b (H_mov_load r (O_mem None None (reg_addr L r)))" using Cons.prems(1) by (intro encodes_mov_reg) simp
  from runs_insn [OF this, of "\<lparr>h_eip = p, h_reg = g, h_flags = f, h_mem = m\<rparr>"] code(1)
    Cons.IH [OF _ code(2), of "g(r := ld32 m (reg_addr L r))"] Cons.prems(1)
  show ?case by (simp add: run_simps algebra_simps del: fun_upd_apply)
qed simp

lemma store_code_runs:
  assumes "\<forall>r\<in>set rs. r < 8" "bytes_at m p (store_code L rs)" "region p (6 * length rs) \<inter> region (l_env L) 32 = {}"
  shows "runs \<lparr>h_eip = p, h_reg = g, h_flags = f, h_mem = m\<rparr>
     \<lparr>h_eip = p + of_nat (6 * length rs), h_reg = g, h_flags = f,
      h_mem = fold (\<lambda>r m. st32 m (reg_addr L r) (g r)) rs m\<rparr>"
  using assms
proof (induction rs arbitrary: p m)
  case (Cons r rs)
  let ?b = "0x89 # (0x05 OR push_bit 3 r) # bytes32 (reg_addr L r)"
  have code: "bytes_at m p ?b" "bytes_at m (p + 6) (store_code L rs)"
    using Cons.prems(2) unfolding store_code_Cons bytes_at_append by simp_all
  have r8: "r < 8" using Cons.prems(1) by simp
  have tail: "region (p + of_nat 6) (6 * length rs) \<inter> region (l_env L) 32 = {}"
    using Cons.prems(3) region_shift [of p 6 "6 * length rs"] by auto
  have "bytes_at (st32 m (reg_addr L r) (g r)) (p + 6) (store_code L rs)"
    by (rule bytes_at_st32_apart [OF code(2), of "6 * length rs"], rule disjoint_subsets [OF tail _ reg_addr_env [OF r8]])
      simp_all
  from Cons.IH [OF _ this] Cons.prems(1) tail
  have "runs \<lparr>h_eip = p + 6, h_reg = g, h_flags = f, h_mem = st32 m (reg_addr L r) (g r)\<rparr>
     \<lparr>h_eip = p + 6 + of_nat (6 * length rs), h_reg = g, h_flags = f,
      h_mem = fold (\<lambda>r m. st32 m (reg_addr L r) (g r)) rs (st32 m (reg_addr L r) (g r))\<rparr>" by simp
  moreover have "encodes ?b (H_mov_store (O_mem None None (reg_addr L r)) r)" using r8 by (rule encodes_mov_reg)
  ultimately show ?case
    using runs_insn [of ?b _ "\<lparr>h_eip = p, h_reg = g, h_flags = f, h_mem = m\<rparr>"] code(1)
    by (simp add: run_simps algebra_simps)
qed simp

primrec push_mem :: "u32 \<Rightarrow> u32 list \<Rightarrow> memory \<Rightarrow> memory" where
  "push_mem sp [] m = m"
| "push_mem sp (v # vs) m = push_mem (sp - 4) vs (st32 m (sp - 4) v)"


lemma push_code_runs:
  assumes "\<forall>r\<in>set rs. r < 8 \<and> r \<noteq> ESP" "bytes_at m p (map (\<lambda>r. 0x50 OR r) rs)"
    and "region p (length rs) \<inter> region (g ESP - of_nat (4 * length rs)) (4 * length rs) = {}" "4 * length rs \<le> 2 ^ 32"
  shows "runs \<lparr>h_eip = p, h_reg = g, h_flags = f, h_mem = m\<rparr>
     \<lparr>h_eip = p + of_nat (length rs), h_reg = g(ESP := g ESP - of_nat (4 * length rs)), h_flags = f,
      h_mem = push_mem (g ESP) (map g rs) m\<rparr>"
  using assms
proof (induction rs arbitrary: p g m)
  case (Cons r rs)
  let ?n = "4 * length rs" and ?sp = "g ESP - 4" and ?g = "g(ESP := g ESP - 4)"
  have low: "g ESP - of_nat (4 * length (r # rs)) = ?sp - of_nat ?n" by (simp add: algebra_simps)
  have "region ?sp 4 = region (?sp - of_nat ?n + of_nat ?n) 4" by simp
  then have top: "region ?sp 4 \<subseteq> region (?sp - of_nat ?n) (4 + ?n)"
    using region_shift [of "?sp - of_nat ?n" ?n 4] by (simp add: add.commute [of _ 4])
  have rest: "region (?sp - of_nat ?n) ?n \<subseteq> region (?sp - of_nat ?n) (4 + ?n)" by (rule region_mono) simp
  have tl: "region (p + of_nat 1) (length rs) \<subseteq> region p (length (r # rs))" using region_shift [of p 1 "length rs"] by simp
  note apart = Cons.prems(3) [unfolded low]
  have code: "bytes_at m p [0x50 OR r]" "bytes_at m (p + 1) (map (\<lambda>r. 0x50 OR r) rs)" using Cons.prems(2) by simp_all
  have c2: "bytes_at (st32 m ?sp (g r)) (p + 1) (map (\<lambda>r. 0x50 OR r) rs)"
    by (rule bytes_at_st32_apart [OF code(2), of "length rs"], rule disjoint_subsets [OF apart]) (use tl top in simp_all)
  have "region (p + 1) (length rs) \<inter> region (?g ESP - of_nat ?n) ?n = {}"
    by (rule disjoint_subsets [OF apart]) (use tl rest in simp_all)
  from Cons.IH [OF _ c2, of ?g] this Cons.prems(1,4)
  have run: "runs \<lparr>h_eip = p + 1, h_reg = ?g, h_flags = f, h_mem = st32 m ?sp (g r)\<rparr>
     \<lparr>h_eip = p + 1 + of_nat (length rs), h_reg = g(ESP := ?sp - of_nat ?n), h_flags = f,
      h_mem = push_mem ?sp (map ?g rs) (st32 m ?sp (g r))\<rparr>" by (simp add: fun_upd_same del: fun_upd_apply)
  have same: "map ?g rs = map g rs" using Cons.prems(1) by auto
  have "encodes [0x50 OR r] (H_push (O_reg r))" using Cons.prems(1) by (intro encodes_stack_reg) simp
  from runs_insn [OF this, of "\<lparr>h_eip = p, h_reg = g, h_flags = f, h_mem = m\<rparr>"] code(1) run
  show ?case unfolding same by (simp add: run_simps algebra_simps fun_upd_same del: fun_upd_apply)
qed simp


lemma push_mem_frame:
  assumes "a \<notin> region (sp - of_nat (4 * length vs)) (4 * length vs)"
  shows "push_mem sp vs m a = m a"
  using assms
proof (induction vs arbitrary: sp m)
  case (Cons v vs)
  let ?n = "4 * length vs"
  have low: "sp - of_nat (4 * length (v # vs)) = sp - 4 - of_nat ?n" by (simp add: algebra_simps)
  have "region (sp - 4) 4 \<subseteq> region (sp - 4 - of_nat ?n) (4 + ?n)"
    using region_shift [of "sp - 4 - of_nat ?n" ?n 4] by (simp add: add.commute [of _ 4])
  moreover have "region (sp - 4 - of_nat ?n) ?n \<subseteq> region (sp - 4 - of_nat ?n) (4 + ?n)" by (rule region_mono) simp
  ultimately have "a \<notin> region (sp - 4) 4" "a \<notin> region (sp - 4 - of_nat ?n) ?n"
    using Cons.prems unfolding low by auto
  with Cons.IH [of "sp - 4"] show ?case by (simp add: st32_frame)
qed simp

lemma fold_upd: "fold (\<lambda>r g. g(r := h r)) rs g = (\<lambda>r. if r \<in> set rs then h r else g r)"
  by (induction rs arbitrary: g) (auto simp: fun_eq_iff)

lemma all_regs_set: "r \<in> set all_regs \<longleftrightarrow> r < 8"
  using register_cases [of r] by auto

text \<open>The registers of the guest, as \<^verbatim>\<open>env\<close> holds them; there are no others.\<close>

definition guest_regs :: "layout \<Rightarrow> memory \<Rightarrow> (u8 \<Rightarrow> u32) \<Rightarrow> u8 \<Rightarrow> u32" where
  "guest_regs L m g r = (if r < 8 then ld32 m (reg_addr L r) else g r)"

lemma guest_regs_fold: "fold (\<lambda>r g. g(r := ld32 m (reg_addr L r))) all_regs g = guest_regs L m g"
  by (simp only: fold_upd all_regs_set guest_regs_def fun_eq_iff) simp

text \<open>The memory after the prologue: the saved registers on the host stack, and its top.\<close>

definition entry_mem :: "layout \<Rightarrow> (u8 \<Rightarrow> u32) \<Rightarrow> memory \<Rightarrow> memory" where
  "entry_mem L g m = st32 (push_mem (g ESP) (map g [EBX, EBP, ESI, EDI]) m) (a_esp_tmp L) (g ESP - 16)"

lemma entry_mem_frame:
  "a \<notin> region (g ESP - 16) 16 \<Longrightarrow> a \<notin> region (a_esp_tmp L) 4 \<Longrightarrow> entry_mem L g m a = m a"
  using push_mem_frame [of a "g ESP" "map g [EBX, EBP, ESI, EDI]" m] by (simp add: entry_mem_def st32_frame)

lemma prologue_split:
  "prologue_bytes L = map (\<lambda>r. 0x50 OR r) [EBX, EBP, ESI, EDI] @ (0x89 # (0x05 OR push_bit 3 ESP) # bytes32 (a_esp_tmp L)) @
     load_code L all_regs @ [0x9d] @ (0xff # 0x25 # bytes32 (a_target_tc L))"
  by (simp add: prologue_bytes_def load_code_def)

lemma prologue_runs:
  assumes code: "bytes_at m p (prologue_bytes L)"
    and stack: "region p 65 \<inter> region (g ESP - 16) 16 = {}" and env: "region p 65 \<inter> region (a_esp_tmp L) 4 = {}"
  defines "m' \<equiv> entry_mem L g m"
  shows "runs \<lparr>h_eip = p, h_reg = g, h_flags = f, h_mem = m\<rparr>
     \<lparr>h_eip = ld32 m' (a_target_tc L),
      h_reg = (guest_regs L m' g)(ESP := ld32 m' (reg_addr L ESP) + 4),
      h_flags = ld32 m' (ld32 m' (reg_addr L ESP)), h_mem = m'\<rparr>"
proof -
  let ?rs = "[EBX, EBP, ESI, EDI]"
  let ?m1 = "push_mem (g ESP) (map g ?rs) m" and ?g1 = "g(ESP := g ESP - 16)"
  let ?g2 = "guest_regs L m' ?g1"
  have code1: "bytes_at ?m1 p (prologue_bytes L)"
    by (rule bytes_at_frame [OF code], rule push_mem_frame) (use stack in auto)
  have code2: "bytes_at m' p (prologue_bytes L)"
    unfolding m'_def by (rule bytes_at_frame [OF code], rule entry_mem_frame) (use stack env in auto)
  note parts = code1 [unfolded prologue_split bytes_at_append] code2 [unfolded prologue_split bytes_at_append]
  have four: "Suc (Suc (Suc (Suc 0))) = 4" by simp
  have "region p 4 \<inter> region (g ESP - 16) 16 = {}"
    by (rule disjoint_subsets [OF stack]) (simp_all add: region_mono)
  then have r1: "runs \<lparr>h_eip = p, h_reg = g, h_flags = f, h_mem = m\<rparr> \<lparr>h_eip = p + 4, h_reg = ?g1, h_flags = f, h_mem = ?m1\<rparr>"
    using push_code_runs [of ?rs m p g f] code unfolding prologue_split bytes_at_append
    by (simp add: four)
  have r2: "runs \<lparr>h_eip = p + 4, h_reg = ?g1, h_flags = f, h_mem = ?m1\<rparr>
      \<lparr>h_eip = p + 10, h_reg = ?g1, h_flags = f, h_mem = m'\<rparr>"
    by (rule runs_insn [OF encodes_mov_reg(2) [of ESP "a_esp_tmp L"]])
      (use parts(1) in \<open>simp_all add: run_simps m'_def entry_mem_def add.assoc\<close>)
  have r3: "runs \<lparr>h_eip = p + 10, h_reg = ?g1, h_flags = f, h_mem = m'\<rparr>
      \<lparr>h_eip = p + 58, h_reg = ?g2, h_flags = f, h_mem = m'\<rparr>"
    using load_code_runs [of all_regs m' "p + 10" L ?g1 f, unfolded guest_regs_fold] parts(2) by (simp add: add.assoc)
  have "insns_at m' (p + 58) [(H_popf, 1), (H_jmp_ind (O_mem None None (a_target_tc L)), 6)]"
    by (rule insns_at_assembles [of "[[0x9d], 0xff # 0x25 # bytes32 (a_target_tc L)]"])
      (use parts(2) in \<open>simp_all add: encodings add.assoc\<close>)
  then have r4: "hrun 2 \<lparr>h_eip = p + 58, h_reg = ?g2, h_flags = f, h_mem = m'\<rparr> =
     Some \<lparr>h_eip = ld32 m' (a_target_tc L), h_reg = ?g2(ESP := ?g2 ESP + 4), h_flags = ld32 m' (?g2 ESP), h_mem = m'\<rparr>"
    by (simp add: run_simps)
  have e1: "?g2(ESP := ?g2 ESP + 4) =
      (guest_regs L m' g)(ESP := ld32 m' (reg_addr L ESP) + 4)"
    by (auto simp: guest_regs_def fun_eq_iff)
  have e2: "?g2 ESP = ld32 m' (reg_addr L ESP)" by (simp add: guest_regs_def)
  have r5: "runs \<lparr>h_eip = p + 58, h_reg = ?g2, h_flags = f, h_mem = m'\<rparr>
     \<lparr>h_eip = ld32 m' (a_target_tc L), h_reg = (guest_regs L m' g)(ESP := ld32 m' (reg_addr L ESP) + 4),
      h_flags = ld32 m' (ld32 m' (reg_addr L ESP)), h_mem = m'\<rparr>"
    by (rule runs_hrun [OF r4 [unfolded e1, unfolded e2]])
  show ?thesis by (rule runs_trans [OF runs_trans [OF runs_trans [OF r1 r2] r3] r5])
qed


section \<open>Leaving\<close>

text \<open>The memory after the epilogue's stores.\<close>

definition saved_mem :: "layout \<Rightarrow> (u8 \<Rightarrow> u32) \<Rightarrow> u32 \<Rightarrow> memory \<Rightarrow> memory" where
  "saved_mem L g f m = fold (\<lambda>r m. st32 m (reg_addr L r) ((g(ESP := g ESP - 4)) r)) all_regs (st32 m (g ESP - 4) f)"

lemma fold_store_frame:
  "\<forall>r\<in>set rs. r < 8 \<Longrightarrow> a \<notin> region (l_env L) 32 \<Longrightarrow> fold (\<lambda>r m. st32 m (reg_addr L r) (h r)) rs m a = m a"
proof (induction rs arbitrary: m)
  case (Cons r rs)
  then have "a \<notin> region (reg_addr L r) 4" using reg_addr_env [of r L] by auto
  with Cons show ?case by (simp add: st32_frame)
qed simp

lemma reg_addr_apart: "r < 8 \<Longrightarrow> r' < 8 \<Longrightarrow> r \<noteq> r' \<Longrightarrow> region (reg_addr L r) 4 \<inter> region (reg_addr L r') 4 = {}"
proof -
  assume "r < 8" "r' < 8" "r \<noteq> r'"
  then have n: "unat r < 8" "unat r' < 8" "unat r \<noteq> unat r'" by (simp_all add: word_less_nat_alt word_unat_eq_iff)
  have eq: "reg_addr L x = l_env L + of_nat (4 * unat x)" for x by (simp add: reg_addr_def a_regs_def)
  show ?thesis unfolding eq
    using n region_apart [of "4 * unat r" 4 "4 * unat r'" 4 "l_env L"] region_apart [of "4 * unat r'" 4 "4 * unat r" 4 "l_env L"]
    by (cases "unat r < unat r'") (auto simp: Int_commute)
qed

lemma fold_store_read:
  "\<forall>r\<in>set rs. r < 8 \<Longrightarrow> r < 8 \<Longrightarrow>
     ld32 (fold (\<lambda>r m. st32 m (reg_addr L r) (h r)) rs m) (reg_addr L r) =
       (if r \<in> set rs then h r else ld32 m (reg_addr L r))"
proof (induction rs arbitrary: m)
  case (Cons x rs)
  then show ?case
    by (cases "x = r") (simp_all add: ld32_st32 ld32_st32_other [OF reg_addr_apart])
qed simp

text \<open>\<^verbatim>\<open>env->regs\<close> holds the guest's registers, with the flags pushed.\<close>

lemma saved_mem_reg:
  "r < 8 \<Longrightarrow> ld32 (saved_mem L g f m) (reg_addr L r) = (g(ESP := g ESP - 4)) r"
  unfolding saved_mem_def using fold_store_read [of all_regs r L "g(ESP := g ESP - 4)"] register_cases [of r] by auto

lemma saved_mem_frame:
  "a \<notin> region (l_env L) 32 \<Longrightarrow> a \<notin> region (g ESP - 4) 4 \<Longrightarrow> saved_mem L g f m a = m a"
  unfolding saved_mem_def by (subst fold_store_frame) (simp_all add: st32_frame)

lemma epilogue_split:
  "epilogue_bytes L = [0x9c] @ store_code L all_regs @
     concat [0x8b # (0x05 OR push_bit 3 ESP) # bytes32 (a_esp_tmp L), [0x58 OR EBX], [0x58 OR EBP], [0x58 OR ESI], [0x58 OR EDI],
       0x8b # (0x05 OR push_bit 3 EAX) # bytes32 (a_ret_tb L), [0xc3]]"
  by (simp add: epilogue_bytes_def store_code_def)

lemma epilogue_runs:
  fixes f :: u32
  assumes code: "bytes_at m p (epilogue_bytes L)"
    and stack: "region p 66 \<inter> region (g ESP - 4) 4 = {}" and env: "region p 66 \<inter> region (l_env L) 32 = {}"
  defines "m' \<equiv> saved_mem L g f m"
  defines "sp \<equiv> ld32 m' (a_esp_tmp L)"
  shows "runs \<lparr>h_eip = p, h_reg = g, h_flags = f, h_mem = m\<rparr>
     \<lparr>h_eip = ld32 m' (sp + 16),
      h_reg = g(ESP := sp + 20, EBX := ld32 m' sp, EBP := ld32 m' (sp + 4), ESI := ld32 m' (sp + 8),
        EDI := ld32 m' (sp + 12), EAX := ld32 m' (a_ret_tb L)),
      h_flags = f, h_mem = m'\<rparr>"
proof -
  let ?m1 = "st32 m (g ESP - 4) f" and ?g1 = "g(ESP := g ESP - 4)"
  have code1: "bytes_at ?m1 p (epilogue_bytes L)"
    by (rule bytes_at_st32_apart [OF code stack]) simp
  have code2: "bytes_at m' p (epilogue_bytes L)"
    unfolding m'_def by (rule bytes_at_frame [OF code], rule saved_mem_frame) (use stack env in auto)
  note parts = code [unfolded epilogue_split bytes_at_append] code1 [unfolded epilogue_split bytes_at_append]
    code2 [unfolded epilogue_split bytes_at_append]
  have r1: "runs \<lparr>h_eip = p, h_reg = g, h_flags = f, h_mem = m\<rparr> \<lparr>h_eip = p + 1, h_reg = ?g1, h_flags = f, h_mem = ?m1\<rparr>"
    by (rule runs_insn [OF encodes_flags_ret(1)]) (use parts(1) in \<open>simp_all add: run_simps\<close>)
  have "region (p + 1) 48 \<inter> region (l_env L) 32 = {}"
    by (rule disjoint_subsets [OF env]) (use region_shift [of p 1 48] region_mono [of 49 66 p] in auto)
  then have r2: "runs \<lparr>h_eip = p + 1, h_reg = ?g1, h_flags = f, h_mem = ?m1\<rparr>
      \<lparr>h_eip = p + 49, h_reg = ?g1, h_flags = f, h_mem = m'\<rparr>"
    using store_code_runs [of all_regs ?m1 "p + 1" L ?g1 f, folded saved_mem_def] parts(2) unfolding m'_def
    by (simp add: add.assoc)
  have "insns_at m' (p + 49) [(H_mov_load ESP (O_mem None None (a_esp_tmp L)), 6), (H_pop (O_reg EBX), 1), (H_pop (O_reg EBP), 1),
      (H_pop (O_reg ESI), 1), (H_pop (O_reg EDI), 1), (H_mov_load EAX (O_mem None None (a_ret_tb L)), 6), (H_ret, 1)]"
    by (rule insns_at_assembles [of "[0x8b # (0x05 OR push_bit 3 ESP) # bytes32 (a_esp_tmp L), [0x58 OR EBX], [0x58 OR EBP],
       [0x58 OR ESI], [0x58 OR EDI], 0x8b # (0x05 OR push_bit 3 EAX) # bytes32 (a_ret_tb L), [0xc3]]"])
      (use parts(3) in \<open>simp_all add: encodings encodes_registers add.assoc\<close>)
  then have "hrun 7 \<lparr>h_eip = p + 49, h_reg = ?g1, h_flags = f, h_mem = m'\<rparr> =
     Some \<lparr>h_eip = ld32 m' (sp + 16),
      h_reg = g(ESP := sp + 20, EBX := ld32 m' sp, EBP := ld32 m' (sp + 4), ESI := ld32 m' (sp + 8),
        EDI := ld32 m' (sp + 12), EAX := ld32 m' (a_ret_tb L)),
      h_flags = f, h_mem = m'\<rparr>"
    by (simp add: run_simps add.commute [of p] sp_def add.commute [of "ld32 m' (a_esp_tmp L)"] fun_upd_twist)
  from runs_trans [OF runs_trans [OF r1 r2] runs_hrun [OF this]] show ?thesis .
qed

section \<open>Calling the code cache\<close>

text \<open>
  The host stack at a call of the prologue: the return address at \<open>%esp\<close> and room for four words
  below it, away from the start-up code and from \<^verbatim>\<open>env\<close>.
\<close>

definition host_stack :: "layout \<Rightarrow> u32 \<Rightarrow> bool" where
  "host_stack L sp \<longleftrightarrow> region (l_prologue L) 2048 \<inter> region (sp - 16) 20 = {} \<and>
     region (l_env L) env_size \<inter> region (sp - 16) 20 = {}"

lemma env_field: "n + 4 \<le> env_size \<Longrightarrow> region (l_env L + of_nat n) 4 \<subseteq> region (l_env L) env_size"
  using region_shift [of "l_env L" n 4] region_mono [of "n + 4" env_size "l_env L"] by auto

lemma env_fields:
  "region (a_esp_tmp L) 4 \<subseteq> region (l_env L) env_size" "region (a_target_tc L) 4 \<subseteq> region (l_env L) env_size"
  "region (a_ret_tb L) 4 \<subseteq> region (l_env L) env_size" "region (l_env L) 32 \<subseteq> region (l_env L) env_size"
  "region (a_eip L) 4 \<subseteq> region (l_env L) env_size" "region (a_ind_type L) 4 \<subseteq> region (l_env L) env_size"
  "region (a_patch_num L) 4 \<subseteq> region (l_env L) env_size"
  using env_field [of 48 L] env_field [of 44 L] env_field [of 56 L] env_field [of 32 L] env_field [of 1840212 L] env_field [of 64 L]
  by (simp_all add: a_esp_tmp_def a_target_tc_def a_ret_tb_def a_eip_def a_ind_type_def a_patch_num_def region_mono)

lemma stack_word: "n + 4 \<le> 20 \<Longrightarrow> region (sp - 16 + of_nat n) 4 \<subseteq> region (sp - 16) 20"
  using region_shift [of "sp - 16" n 4] region_mono [of "n + 4" 20 "sp - 16"] by auto

lemma entry_mem_stack:
  assumes "host_stack L (g ESP)"
  shows "ld32 (entry_mem L g m) (a_esp_tmp L) = g ESP - 16"
    and "ld32 (entry_mem L g m) (g ESP - 16) = g EDI" "ld32 (entry_mem L g m) (g ESP - 12) = g ESI"
    and "ld32 (entry_mem L g m) (g ESP - 8) = g EBP" "ld32 (entry_mem L g m) (g ESP - 4) = g EBX"
    and "ld32 (entry_mem L g m) (g ESP) = ld32 m (g ESP)"
proof -
  let ?b = "g ESP - 16"
  have env: "region (?b + of_nat n) 4 \<inter> region (a_esp_tmp L) 4 = {}" if "n + 4 \<le> 20" for n
    using assms env_fields(1) [of L] stack_word [OF that, of "g ESP"] by (auto simp: host_stack_def)
  have ap: "region (?b + of_nat i) 4 \<inter> region (?b + of_nat j) 4 = {}" if "i + 4 \<le> j \<or> j + 4 \<le> i" "i \<le> 16" "j \<le> 16" for i j
    using that region_apart [of i 4 j 4 ?b] region_apart [of j 4 i 4 ?b] by (auto simp: Int_commute)
  have eq: "entry_mem L g m = st32 (st32 (st32 (st32 (st32 m (?b + of_nat 12) (g EBX)) (?b + of_nat 8) (g EBP))
      (?b + of_nat 4) (g ESI)) (?b + of_nat 0) (g EDI)) (a_esp_tmp L) ?b"
    by (simp add: entry_mem_def)
  show "ld32 (entry_mem L g m) (a_esp_tmp L) = ?b" by (simp add: entry_mem_def ld32_st32)
  have rd: "ld32 (entry_mem L g m) (?b + of_nat n) = (if n = 0 then g EDI else if n = 4 then g ESI else if n = 8 then g EBP
      else if n = 12 then g EBX else ld32 m (?b + of_nat n))" if "n \<in> {0, 4, 8, 12, 16}" for n
    unfolding eq using that env [of n] ap [of n 0] ap [of n 4] ap [of n 8] ap [of n 12]
    by (auto simp: ld32_st32 ld32_st32_other simp del: of_nat_0 of_nat_numeral)
  from rd [of 0] rd [of 4] rd [of 8] rd [of 12] rd [of 16]
  show "ld32 (entry_mem L g m) (g ESP - 16) = g EDI" "ld32 (entry_mem L g m) (g ESP - 12) = g ESI"
    "ld32 (entry_mem L g m) (g ESP - 8) = g EBP" "ld32 (entry_mem L g m) (g ESP - 4) = g EBX"
    "ld32 (entry_mem L g m) (g ESP) = ld32 m (g ESP)"
    by simp_all
qed

text \<open>Outside the host stack and \<^verbatim>\<open>env->esp_tmp\<close> the prologue changes nothing.\<close>

lemma entry_mem_read:
  assumes "region a 4 \<inter> region (g ESP - 16) 20 = {}" "region a 4 \<inter> region (a_esp_tmp L) 4 = {}"
  shows "ld32 (entry_mem L g m) a = ld32 m a"
  by (rule ld32_cong, rule entry_mem_frame) (use assms region_mono [of 16 20 "g ESP - 16"] in auto)

lemma prologue_to_guest:
  assumes "runtime_code L m" "good_layout L" "host_stack L (g ESP)" "ld32 m (reg_addr L ESP) = sp"
    and "region sp 4 \<inter> region (g ESP - 16) 20 = {}" "region sp 4 \<inter> region (l_env L) env_size = {}"
  shows "runs \<lparr>h_eip = l_prologue L, h_reg = g, h_flags = f, h_mem = m\<rparr>
     \<lparr>h_eip = ld32 m (a_target_tc L), h_reg = (guest_regs L m g)(ESP := sp + 4), h_flags = ld32 m sp,
      h_mem = entry_mem L g m\<rparr>"
proof -
  let ?p = "l_prologue L" and ?m = "entry_mem L g m"
  have code: "bytes_at m ?p (prologue_bytes L)" using assms(1) by (simp add: runtime_code_def)
  have s1: "region ?p 65 \<inter> region (g ESP - 16) 16 = {}"
    by (rule disjoint_subsets [of "region ?p 2048" "region (g ESP - 16) 20"])
      (use assms(3) in \<open>simp_all add: host_stack_def region_mono\<close>)
  have s2: "region ?p 65 \<inter> region (a_esp_tmp L) 4 = {}"
    by (rule disjoint_subsets [of "region ?p 2048" "region (l_env L) env_size"])
      (use assms(2) env_fields in \<open>simp_all add: good_layout_def region_mono\<close>)
  have env: "ld32 ?m (l_env L + of_nat n) = ld32 m (l_env L + of_nat n)" if "n \<le> 44" for n
  proof (rule entry_mem_read)
    show "region (l_env L + of_nat n) 4 \<inter> region (g ESP - 16) 20 = {}"
      by (rule disjoint_subsets [of "region (l_env L) env_size" "region (g ESP - 16) 20"])
        (use assms(3) env_field [of n L] that in \<open>simp_all add: host_stack_def\<close>)
    show "region (l_env L + of_nat n) 4 \<inter> region (a_esp_tmp L) 4 = {}"
      using region_apart [of n 4 48 4 "l_env L"] that by (simp add: a_esp_tmp_def)
  qed
  have regs: "ld32 ?m (reg_addr L r) = ld32 m (reg_addr L r)" if "r < 8" for r
  proof -
    have "unat r < 8" using that by (simp add: word_less_nat_alt)
    then show ?thesis using env [of "4 * unat r"] by (simp add: reg_addr_def a_regs_def)
  qed
  have "ld32 ?m sp = ld32 m sp"
    by (rule entry_mem_read [of sp g, OF assms(5)], rule disjoint_subsets [OF assms(6) order_refl env_fields(1)])
  moreover have "guest_regs L ?m g = guest_regs L m g" by (simp add: guest_regs_def fun_eq_iff regs)
  moreover have "ld32 ?m (a_target_tc L) = ld32 m (a_target_tc L)" using env [of 44] by (simp add: a_target_tc_def)
  ultimately show ?thesis using prologue_runs [OF code, of g f, OF s1 s2] regs [of ESP] assms(4) by simp
qed

text \<open>
  C18: Calling the prologue gives control to the guest: execution reaches the host code in
  \<^verbatim>\<open>env->target_tc\<close> with all eight registers loaded from \<^verbatim>\<open>env->regs\<close>, the flags popped from the
  guest's stack, and no memory changed but the host's stack and \<^verbatim>\<open>env->esp_tmp\<close>.
\<close>

theorem prologue_enters_guest:
  assumes "runtime_code L m" "good_layout L" "host_stack L (g ESP)" "ld32 m (reg_addr L ESP) = sp"
    and "region sp 4 \<inter> region (g ESP - 16) 20 = {}" "region sp 4 \<inter> region (l_env L) env_size = {}"
  shows "runs \<lparr>h_eip = l_prologue L, h_reg = g, h_flags = f, h_mem = m\<rparr>
     \<lparr>h_eip = ld32 m (a_target_tc L), h_reg = (guest_regs L m g)(ESP := sp + 4), h_flags = ld32 m sp,
      h_mem = entry_mem L g m\<rparr>"
  using assms by (rule prologue_to_guest)


text \<open>
  C19: When guest code reaches the epilogue with the host's stack and \<^verbatim>\<open>env->esp_tmp\<close> intact, the call of
  the prologue returns to its caller with \<^verbatim>\<open>env->ret_tb\<close> as its result; all eight guest registers are
  in \<^verbatim>\<open>env->regs\<close>, with the flags pushed on the guest's stack.  The callee-saved registers are popped in
  the order they were pushed, so the caller gets them permuted: its \<^verbatim>\<open>%edi\<close> in \<^verbatim>\<open>%ebx\<close>, its \<^verbatim>\<open>%esi\<close>
  in \<^verbatim>\<open>%ebp\<close>, its \<^verbatim>\<open>%ebp\<close> in \<^verbatim>\<open>%esi\<close> and its \<^verbatim>\<open>%ebx\<close> in \<^verbatim>\<open>%edi\<close>.
\<close>

theorem epilogue_returns:
  assumes "runtime_code L m2" "good_layout L" "host_stack L (g ESP)"
    and kept: "\<forall>a\<in>region (g ESP - 16) 20. m2 a = entry_mem L g m a" "ld32 m2 (a_esp_tmp L) = g ESP - 16"
    and slot: "region (l_prologue L) 2048 \<inter> region (g' ESP - 4) 4 = {}"
      "region (l_env L) env_size \<inter> region (g' ESP - 4) 4 = {}" "region (g ESP - 16) 20 \<inter> region (g' ESP - 4) 4 = {}"
  shows "runs \<lparr>h_eip = l_prologue L + 65, h_reg = g', h_flags = f, h_mem = m2\<rparr>
     \<lparr>h_eip = ld32 m (g ESP),
      h_reg = g'(ESP := g ESP + 4, EBX := g EDI, EBP := g ESI, ESI := g EBP, EDI := g EBX, EAX := ld32 m2 (a_ret_tb L)),
      h_flags = f, h_mem = saved_mem L g' f m2\<rparr> \<and>
    (\<forall>r<8. ld32 (saved_mem L g' f m2) (reg_addr L r) = (g'(ESP := g' ESP - 4)) r)"
proof
  let ?p = "l_prologue L + of_nat 65" and ?m = "saved_mem L g' f m2"
  have in_p: "region ?p 66 \<subseteq> region (l_prologue L) 2048"
    using region_shift [of "l_prologue L" 65 66] region_mono [of "65 + 66" 2048 "l_prologue L"] by auto
  have code: "bytes_at m2 ?p (epilogue_bytes L)" using assms(1) by (simp add: runtime_code_def)
  have a1: "region ?p 66 \<inter> region (g' ESP - 4) 4 = {}" by (rule disjoint_subsets [OF slot(1) in_p order_refl])
  have a2: "region ?p 66 \<inter> region (l_env L) 32 = {}"
    by (rule disjoint_subsets [OF _ in_p env_fields(4)]) (use assms(2) in \<open>simp add: good_layout_def\<close>)
  have field: "ld32 ?m (l_env L + of_nat n) = ld32 m2 (l_env L + of_nat n)" if "32 \<le> n" "n \<le> 56" for n
    using region_apart [of 0 32 n 4 "l_env L"] env_field [of n L] slot(2) that
    by (intro ld32_cong saved_mem_frame) auto
  have tmp: "ld32 ?m (a_esp_tmp L) = g ESP - 16" and ret: "ld32 ?m (a_ret_tb L) = ld32 m2 (a_ret_tb L)"
    using field [of 48] field [of 56] kept(2) by (simp_all add: a_esp_tmp_def a_ret_tb_def)
  have "ld32 ?m (g ESP - 16 + of_nat n) = ld32 (entry_mem L g m) (g ESP - 16 + of_nat n)" if "n \<le> 16" for n
  proof (rule ld32_cong)
    fix a assume "a \<in> region (g ESP - 16 + of_nat n) 4"
    then have a: "a \<in> region (g ESP - 16) 20" using stack_word [of n "g ESP"] that by auto
    then have "a \<notin> region (l_env L) 32" using assms(3) env_fields(4) [of L] by (auto simp: host_stack_def)
    with a slot(3) have "?m a = m2 a" by (intro saved_mem_frame) auto
    with a kept(1) show "?m a = entry_mem L g m a" by simp
  qed
  from this [of 0] this [of 4] this [of 8] this [of 12] this [of 16]
  have "ld32 ?m (g ESP - 16) = g EDI" "ld32 ?m (g ESP - 16 + 4) = g ESI" "ld32 ?m (g ESP - 16 + 8) = g EBP"
    "ld32 ?m (g ESP - 16 + 12) = g EBX" "ld32 ?m (g ESP - 16 + 16) = ld32 m (g ESP)"
    using entry_mem_stack [of L g, OF assms(3), of m] by simp_all
  with epilogue_runs [OF code, of g' f, OF a1 a2] tmp ret
  show "runs \<lparr>h_eip = l_prologue L + 65, h_reg = g', h_flags = f, h_mem = m2\<rparr>
     \<lparr>h_eip = ld32 m (g ESP),
      h_reg = g'(ESP := g ESP + 4, EBX := g EDI, EBP := g ESI, ESI := g EBP, EDI := g EBX, EAX := ld32 m2 (a_ret_tb L)),
      h_flags = f, h_mem = ?m\<rparr>" by (simp add: add.commute [of "g 4"])
  show "\<forall>r<8. ld32 ?m (reg_addr L r) = (g'(ESP := g' ESP - 4)) r" by (simp add: saved_mem_reg)
qed

section \<open>The sieve over the life of the program\<close>

lemma sieve_valid_more: "sieve_valid c m \<Longrightarrow> sieve_valid (c\<lparr>sv_used := sv_used c + k\<rparr>) m"
  unfolding sieve_valid_def bucket_ok_def
  using region_mono [of "sv_used c" "sv_used c + k" "sv_base c"] chain_at_mono [of m "sv_base c" "sv_used c" _ _ _ "sv_used c + k"]
  by simp (meson order_trans)

text \<open>The sieve of a running program: in memory, at the place the emission pointer says.\<close>

definition sieve_at :: "layout \<Rightarrow> sieve \<Rightarrow> trans_state \<Rightarrow> bool" where
  "sieve_at L c s \<longleftrightarrow> sieve_valid c (mem s) \<and> sv_layout c = L \<and> sv_base c = l_sieve_buffer L \<and>
     sv_stub c = sieve_stub s \<and> sieve_code_ptr s = sv_base c + of_nat (sv_used c)"

lemma sieve_table_apart:
  assumes "good_layout L" "n \<le> sieve_size"
  shows "region (l_sieve_buffer L) n \<inter> region (a_sieve_hashtable L) table_size = {}"
  by (rule disjoint_subsets [OF _ _ env_table, of "region (l_sieve_buffer L) sieve_size"])
    (use assms in \<open>simp_all add: good_layout_def region_mono\<close>)

lemma add_sieve_entry_keeps:
  assumes "add_sieve_entry L tb s = Inr s'" "tc_ptr (tbs s tb) \<noteq> NOT_TRANS_YET"
  shows "sieve_stub s' = sieve_stub s"
  using assms by (auto simp: add_sieve_entry_def Let_def semit_def poke32_def split: if_splits)

lemma sieve_entry_added:
  assumes "good_layout L" "sieve_at L c s" "sv_used c + 27 \<le> 67108864"
    and "tc_ptr (tbs s tb) \<noteq> NOT_TRANS_YET" "add_sieve_entry L tb s = Inr s'"
  shows "sieve_at L (sieve_add (tb_pc (tbs s tb)) (tc_ptr (tbs s tb)) c) s'"
proof -
  let ?c = "sieve_add (tb_pc (tbs s tb)) (tc_ptr (tbs s tb)) c"
  note eq = add_sieve_entry_eq [OF assms(4,5)]
  have at: "sieve_valid c (mem s)" "sv_layout c = L" "sv_base c = l_sieve_buffer L"
    "sieve_code_ptr s = sv_base c + of_nat (sv_used c)" using assms(2) by (simp_all add: sieve_at_def)
  have "sieve_valid ?c (mem s')"
    using sieve_valid_add [OF at(1,4)] sieve_table_apart [OF assms(1,3)] assms(3) at(2,3) unfolding eq(1) by simp
  then show ?thesis
    using assms(2) eq(2) add_sieve_entry_keeps [OF assms(5,4)]
    by (simp add: sieve_at_def sieve_add_def add.assoc)
qed

text \<open>
  C12: \<^verbatim>\<open>add_sieve_entry\<close> extends the map that the sieve implements by exactly the pair of the block's
  guest address and its host code, and keeps the sieve well formed.
\<close>

theorem add_sieve_entry_adds:
  assumes "good_layout L" "sieve_at L c s" "sv_used c + 27 \<le> 67108864"
    and "tc_ptr (tbs s tb) \<noteq> NOT_TRANS_YET" "add_sieve_entry L tb s = Inr s'"
  shows "\<exists>c'. sieve_at L c' s' \<and> sv_out c' = sv_out c \<and>
     sieve_target c' = (sieve_target c)(tb_pc (tbs s tb) \<mapsto> tc_ptr (tbs s tb))"
  using sieve_entry_added [OF assms] sieve_target_add by (intro exI) (auto simp: sieve_add_def)

text \<open>
  C11: Running the sieve is a lookup in that map.  Entered with the guest target below the saved
  \<^verbatim>\<open>%ecx\<close> on the stack, it reaches the host code of the target with \<^verbatim>\<open>%ecx\<close> restored, the two words
  popped and memory unchanged; for a target the map does not know it leaves through the epilogue with
  the target in \<^verbatim>\<open>env->eip\<close> and the branch marked as indirect.
\<close>

theorem sieve_dispatch:
  assumes "sieve_valid c m" "bytes_at m (sv_out c) (exit_bytes L (sv_out c) (- 1) IND_TYPE_CALL e)"
    and "env_apart L (sv_out c) 32" "ld32 m (g ESP + 4) = t"
  shows "runs \<lparr>h_eip = sv_stub c, h_reg = g, h_flags = f, h_mem = m\<rparr>
     (case sieve_target c t of
        Some tc \<Rightarrow> \<lparr>h_eip = tc, h_reg = g(ECX := ld32 m (g ESP), ESP := g ESP + 8), h_flags = f, h_mem = m\<rparr>
      | None \<Rightarrow> \<lparr>h_eip = e, h_reg = g(ECX := ld32 m (g ESP), ESP := g ESP + 8), h_flags = f,
          h_mem = exit_mem L (- 1) IND_TYPE_CALL t m\<rparr>)"
proof (cases "sieve_target c t")
  case (Some tc)
  then show ?thesis using sieve_code.hit [OF assms(1), of g tc f] assms(4) by simp
next
  case None
  then show ?thesis using sieve_code.miss_exit [OF assms(1), of g, OF _ assms(2,3), of f] assms(4) by simp
qed

lemma empty_sieve_target [simp]: "sieve_target (empty_sieve L) = Map.empty"
  by (simp add: empty_sieve_def sieve_target_def fun_eq_iff)

text \<open>
  \<^verbatim>\<open>codecache_prologue_init\<close> sets up the code cache: the prologue, the epilogue, the exit of the
  sieve and the default return-cache entry are in memory, the sieve is well formed and empty, and
  every entry of the return cache leads to the sieve.
\<close>

theorem codecache_prologue_init_ready:
  assumes "good_layout L" "codecache_prologue_init L s = Inr s'"
  shows "runtime_code L (mem s') \<and> sieve_at L (empty_sieve L) s' \<and> sieve_target (empty_sieve L) = Map.empty \<and>
     tb_ret_addr s' = l_prologue L + 65 \<and>
     (\<forall>f. ld32 (mem s') (RET_HASH_FUNC (a_ret_hash_table L) f) = l_prologue L + 512)"
  using codecache_prologue_init_mem [OF assms(2)] init_mem_runtime [OF assms(1), of "mem s"]
  by (simp add: sieve_at_def empty_sieve_target) (simp add: empty_sieve_def)

lemma runtime_exit:
  assumes "runtime_code L m" "good_layout L"
  shows "bytes_at m (l_prologue L + 256) (exit_bytes L (l_prologue L + 256) (- 1) IND_TYPE_CALL (l_prologue L + 65))"
    and "env_apart L (l_prologue L + 256) 32"
proof -
  show "bytes_at m (l_prologue L + 256) (exit_bytes L (l_prologue L + 256) (- 1) IND_TYPE_CALL (l_prologue L + 65))"
    using assms(1) by (simp add: runtime_code_def)
  have "region (l_prologue L + of_nat 256) 32 \<subseteq> region (l_prologue L) 2048"
    using region_shift [of "l_prologue L" 256 32] region_mono [of "256 + 32" 2048 "l_prologue L"] by auto
  then have sub: "region (l_prologue L + 256) 32 \<subseteq> region (l_prologue L) 2048" by simp
  have "region (l_prologue L + 256) 32 \<inter> X = {}" if "X \<subseteq> region (l_env L) env_size" for X
    by (rule disjoint_subsets [OF _ sub that]) (use assms(2) in \<open>simp add: good_layout_def\<close>)
  then show "env_apart L (l_prologue L + 256) 32" by (simp add: env_apart_def env_fields)
qed


lemma translation_keeps_sieve:
  assumes "gen_ready tb s" "gen_target_code L ds tb s = Inr s'" "good_layout L" "sieve_at L c s" "runtime_code L (mem s)"
    and room: "sv_used c + 8960 \<le> 67108864"
    and code: "region (tc_ptr (tbs s tb)) 1600000 \<inter> region (l_prologue L) 2048 = {}"
      "region (tc_ptr (tbs s tb)) 1600000 \<inter> region (l_sieve_buffer L) 67108864 = {}"
      "region (tc_ptr (tbs s tb)) 1600000 \<inter> region (l_env L) 1840216 = {}"
  shows "runtime_code L (mem s') \<and> (\<exists>k\<le>8960. sieve_at L (c\<lparr>sv_used := sv_used c + k\<rparr>) s')"
proof -
  let ?c = "tc_ptr (tbs s tb)" and ?v = "l_sieve_buffer L" and ?env = "region (l_env L) env_size"
  from gen_target_code_outcome [OF assms(1), of L ds] assms(2) obtain n k where
    nk: "n \<le> code_max" "k \<le> max_stubs" "ext ?c (sieve_code_ptr s) (mem s) n k s'" by (auto simp: translated_def)
  have at: "sieve_valid c (mem s)" "sv_layout c = L" "sv_base c = ?v" "sieve_code_ptr s = ?v + of_nat (sv_used c)"
    using assms(4) by (simp_all add: sieve_at_def)
  have stubs: "region (sieve_code_ptr s) k \<subseteq> region ?v sieve_size"
    unfolding at(4) using region_shift [of ?v "sv_used c" k] region_mono [of "sv_used c + k" sieve_size ?v] room nk(2) by auto
  have old: "region ?v (sv_used c) \<inter> region (sieve_code_ptr s) k = {}"
    unfolding at(4) using region_apart [of 0 "sv_used c" "sv_used c" k ?v] room nk(2) by simp
  have cn: "region ?c n \<subseteq> region ?c code_max" using nk(1) by (rule region_mono)
  have frame: "mem s' a = mem s a" if "a \<notin> region ?c n" "a \<notin> region (sieve_code_ptr s) k" for a
    using nk(3) that by (simp add: ext_def)
  have "runtime_code L (mem s')"
  proof (rule runtime_code_frame [OF assms(5)], rule frame)
    fix a assume "a \<in> region (l_prologue L) 2048"
    then show "a \<notin> region ?c n" "a \<notin> region (sieve_code_ptr s) k"
      using code(1) cn stubs assms(3) by (auto simp: good_layout_def)
  qed
  moreover have "sieve_valid c (mem s')"
  proof (rule sieve_valid_frame [OF at(1)]; rule frame)
    fix a assume "a \<in> region (sv_base c) (sv_used c)"
    then show "a \<notin> region (sieve_code_ptr s) k" "a \<notin> region ?c n"
      using old code(2) cn region_mono [of "sv_used c" sieve_size ?v] room at(3) by auto
  next
    fix a assume "a \<in> region (a_sieve_hashtable (sv_layout c)) table_size"
    then have "a \<in> ?env" using env_table [of L] at(2) by auto
    then show "a \<notin> region (sieve_code_ptr s) k" "a \<notin> region ?c n"
      using code(3) cn stubs assms(3) by (auto simp: good_layout_def)
  qed
  moreover have "sieve_code_ptr s' = sv_base c + of_nat (sv_used c + k)"
    using nk(3) at(3,4) by (simp add: ext_def add.assoc)
  moreover have "sieve_stub s' = sieve_stub s" using gen_target_code_keeps [OF assms(1,2)] by (simp add: keeps_def)
  ultimately show ?thesis using nk(2) assms(4) sieve_valid_more by (auto simp: sieve_at_def)
qed

text \<open>
  Translating a block leaves the start-up code and the sieve as they were: with the code buffer
  away from the prologue, the sieve's table and its buffer, the sieve implements the same map before and
  after, and only its buffer has grown.
\<close>

theorem gen_target_code_keeps_sieve:
  assumes "gen_ready tb s" "gen_target_code L ds tb s = Inr s'" "good_layout L" "sieve_at L c s" "runtime_code L (mem s)"
    and room: "sv_used c + 8960 \<le> 67108864"
    and code: "region (tc_ptr (tbs s tb)) 1600000 \<inter> region (l_prologue L) 2048 = {}"
      "region (tc_ptr (tbs s tb)) 1600000 \<inter> region (l_sieve_buffer L) 67108864 = {}"
      "region (tc_ptr (tbs s tb)) 1600000 \<inter> region (l_env L) 1840216 = {}"
  shows "runtime_code L (mem s') \<and>
     (\<exists>k\<le>8960. sieve_at L (c\<lparr>sv_used := sv_used c + k\<rparr>) s' \<and> sieve_target (c\<lparr>sv_used := sv_used c + k\<rparr>) = sieve_target c)"
  using translation_keeps_sieve [OF assms] by (auto simp: sieve_target_def fun_eq_iff)

section \<open>A program started\<close>

definition boot_mem :: memory where
  "boot_mem = init_mem demo_L demo_guest"

lemma demo_layout: "good_layout demo_L"
proof -
  have "region 0x1f000000 2048 \<inter> region (0x20000000 :: u32) env_size = {}"
    using region_apart [of 0 2048 "0x1000000" env_size "0x1f000000"] by simp
  moreover have "region 0x14000000 sieve_size \<inter> region (0x20000000 :: u32) env_size = {}"
    using region_apart [of 0 sieve_size "0xc000000" env_size "0x14000000"] by simp
  moreover have "region 0x14000000 sieve_size \<inter> region (0x1f000000 :: u32) 2048 = {}"
    using region_apart [of 0 sieve_size "0xb000000" 2048 "0x14000000"] by simp
  ultimately show ?thesis by (simp add: good_layout_def demo_L_def Int_commute)
qed

text \<open>Addresses that the start-up code does not touch.\<close>

lemma init_mem_frame:
  assumes "a \<notin> region (l_prologue L) 2048" "a \<notin> region (l_sieve_buffer L) 16" "a \<notin> region (reg_addr L ESP) 4"
    and "a \<notin> region (a_ret_hash_table L) (4 * 65536)" "a \<notin> region (a_sieve_hashtable L) table_size"
  shows "init_mem L m a = m a"
proof -
  let ?p = "l_prologue L"
  have sub: "a \<notin> region (?p + of_nat n) l" if "n + l \<le> 2048" for n l
    using assms(1) region_shift [of ?p n l] region_mono [OF that, of ?p] by auto
  show ?thesis
    using sub [of 0 65] sub [of 65 66] sub [of 256 22] sub [of 512 6] assms
    by (simp add: init_mem_def Let_def ret_fill_frame sv_fill_frame write_bytes_frame st32_frame exit_bytes_length
      sieve_jump_def del: write_bytes.simps)
qed

lemma boot_mem_ok:
  shows "runtime_code demo_L boot_mem" "sieve_valid (empty_sieve demo_L) boot_mem"
    and "sieve_at demo_L (empty_sieve demo_L) (demo_state boot_mem)"
  using init_mem_runtime [OF demo_layout, of demo_guest]
  by (simp_all add: boot_mem_def sieve_at_def) (simp add: demo_state_def empty_sieve_def demo_L_def)


lemma boot_demo_mem: "demo_mem boot_mem"
proof -
  have "boot_mem (0x8048000 + of_nat q) = demo_guest (0x8048000 + of_nat q)" if "q < 1000000" for q
    unfolding boot_mem_def
    by (rule init_mem_frame; rule region_far)
      (use that in \<open>simp_all add: demo_L_def reg_addr_def a_regs_def a_ret_hash_table_def a_sieve_hashtable_def\<close>)
  moreover have "ld32 boot_mem (a_patch_num demo_L) = ld32 demo_guest (a_patch_num demo_L)"
  proof (rule ld32_cong)
    fix a assume "a \<in> region (a_patch_num demo_L) 4"
    then obtain i where i: "i < 4" "a = 0x20000040 + of_nat i" by (rule region_offsetE) (simp add: a_patch_num_def demo_L_def)
    show "boot_mem a = demo_guest a"
      unfolding boot_mem_def i(2)
      by (rule init_mem_frame; rule region_far)
       (use i(1) in \<open>simp_all add: demo_L_def reg_addr_def a_regs_def a_ret_hash_table_def a_sieve_hashtable_def\<close>)
  qed
  ultimately show ?thesis using demo_guest_mem by (simp add: demo_mem_def)
qed

lemma boot_env_apart: "X \<subseteq> region (l_env demo_L) env_size \<Longrightarrow> region (l_prologue demo_L) 2048 \<inter> X = {}"
  using demo_layout by (auto simp: good_layout_def)

lemma boot_add: "\<exists>s'. add_sieve_entry demo_L 0 (demo_state boot_mem) = Inr s'"
  by (simp add: add_sieve_entry_def Let_def semit_def poke32_def demo_state_def demo_tb_def demo_L_def)

theorem add_sieve_entry_adds_witness:
  "\<exists>s' c'. add_sieve_entry demo_L 0 (demo_state boot_mem) = Inr s' \<and> sieve_at demo_L c' s' \<and>
     sieve_target c' = [0x8048000 \<mapsto> 0x9000000]"
proof -
  obtain s' where s': "add_sieve_entry demo_L 0 (demo_state boot_mem) = Inr s'" using boot_add by blast
  have tb: "tbs (demo_state boot_mem) 0 = demo_tb" by (simp add: demo_state_def)
  have room: "sv_used (empty_sieve demo_L) + 27 \<le> 67108864" by (simp add: empty_sieve_def)
  have tc: "tc_ptr (tbs (demo_state boot_mem) 0) \<noteq> NOT_TRANS_YET" by (simp add: tb demo_tb_def)
  from add_sieve_entry_adds [OF demo_layout boot_mem_ok(3) room tc s'] s' show ?thesis
    by (auto simp: tb demo_tb_def)
qed

theorem sieve_dispatch_witness:
  "runs \<lparr>h_eip = 0x14000000, h_reg = (\<lambda>_. 0x7fff0000), h_flags = 0, h_mem = boot_mem\<rparr>
     \<lparr>h_eip = 0x1f000041, h_reg = (\<lambda>_. 0x7fff0000)(ECX := ld32 boot_mem 0x7fff0000, ESP := 0x7fff0008), h_flags = 0,
      h_mem = exit_mem demo_L (- 1) IND_TYPE_CALL (ld32 boot_mem 0x7fff0004) boot_mem\<rparr>"
  using sieve_dispatch [OF boot_mem_ok(2), of demo_L "0x1f000041" "\<lambda>_. 0x7fff0000" "ld32 boot_mem 0x7fff0004" 0]
    runtime_exit [OF boot_mem_ok(1) demo_layout]
  by (simp add: empty_sieve_def demo_L_def sieve_target_def)

theorem codecache_prologue_init_ready_witness:
  "\<exists>s'. codecache_prologue_init demo_L (demo_state demo_guest) = Inr s' \<and> runtime_code demo_L (mem s')"
proof -
  have "\<exists>s'. codecache_prologue_init demo_L (demo_state demo_guest) = Inr s'"
    unfolding codecache_prologue_init_def sieve_init_def sv_table_init_def ret_cache_proc_init_def cemit_exit_tb_bytes cemit_sieve_bytes
    by (simp add: Let_def emit_def semit_def poke32_def clear_cgc_def make_tb_def tb_alloc_def demo_state_def
      code_gen_max_blocks_def code_gen_buffer_max_size_def del: write_bytes.simps)
  then show ?thesis using codecache_prologue_init_ready [OF demo_layout] by blast
qed

theorem gen_target_code_keeps_sieve_witness:
  "\<exists>s' k. gen_target_code demo_L blank_ds 0 (demo_state boot_mem) = Inr s' \<and> runtime_code demo_L (mem s') \<and>
     sieve_at demo_L ((empty_sieve demo_L)\<lparr>sv_used := 16 + k\<rparr>) s'"
proof -
  from demo_gen [OF boot_demo_mem] obtain s' where
    s': "gen_target_code demo_L blank_ds 0 (demo_state boot_mem) = Inr s'" by blast
  have tc: "tc_ptr (tbs (demo_state boot_mem) 0) = 0x9000000" by (simp add: demo_state_def demo_tb_def)
  have apart: "region (0x9000000 :: u32) 1600000 \<inter> region (l_prologue demo_L) 2048 = {}"
    "region (0x9000000 :: u32) 1600000 \<inter> region (l_sieve_buffer demo_L) 67108864 = {}"
    "region (0x9000000 :: u32) 1600000 \<inter> region (l_env demo_L) 1840216 = {}"
    using region_apart [of 0 1600000 "0x16000000" 2048 "0x9000000"] region_apart [of 0 1600000 "0xb000000" 67108864 "0x9000000"]
      region_apart [of 0 1600000 "0x17000000" 1840216 "0x9000000"] by (simp_all add: demo_L_def)
  from gen_target_code_keeps_sieve [OF demo_ready [OF boot_demo_mem] s' demo_layout boot_mem_ok(3), unfolded tc, OF _ _ apart]
    s' show ?thesis using boot_mem_ok(1) by (auto simp: empty_sieve_def demo_state_def)
qed


text \<open>The memory of the example at a call of the prologue: the guest's stack pointer is set.\<close>

definition call_mem :: memory where
  "call_mem = st32 boot_mem (reg_addr demo_L ESP) 0x7fff0000"

lemma call_mem_ok:
  shows "runtime_code demo_L call_mem" "ld32 call_mem (reg_addr demo_L ESP) = 0x7fff0000"
proof -
  have env: "region (reg_addr demo_L ESP) 4 \<subseteq> region (l_env demo_L) env_size"
    using env_field [of 16 demo_L] by (simp add: reg_addr_def a_regs_def)
  show "runtime_code demo_L call_mem"
    using boot_mem_ok(1) by (rule runtime_code_frame) (use boot_env_apart [OF env] in \<open>auto simp: call_mem_def intro!: st32_frame\<close>)
  show "ld32 call_mem (reg_addr demo_L ESP) = 0x7fff0000" by (simp add: call_mem_def ld32_st32)
qed

lemma demo_stack: "host_stack demo_L 0xbf000000"
  using region_apart [of 0 2048 "0x9ffffff0" 20 "0x1f000000"] region_apart [of 0 env_size "0x9efffff0" 20 "0x20000000"]
  by (simp add: host_stack_def demo_L_def)

theorem prologue_enters_guest_witness:
  "runs \<lparr>h_eip = 0x1f000000, h_reg = (\<lambda>_. 0xbf000000), h_flags = 0, h_mem = call_mem\<rparr>
     \<lparr>h_eip = ld32 call_mem (a_target_tc demo_L), h_reg = (guest_regs demo_L call_mem (\<lambda>_. 0xbf000000))(ESP := 0x7fff0004),
      h_flags = ld32 call_mem 0x7fff0000, h_mem = entry_mem demo_L (\<lambda>_. 0xbf000000) call_mem\<rparr>"
  using prologue_enters_guest [OF call_mem_ok(1) demo_layout, of "\<lambda>_. 0xbf000000" "0x7fff0000" 0] demo_stack call_mem_ok(2)
    region_apart [of 0 4 "0x3f00fff0" 20 "0x7fff0000"] region_apart [of 0 env_size "0x5fff0000" 4 "0x20000000"]
  by (simp add: demo_L_def Int_commute)

theorem epilogue_returns_witness:
  "runs \<lparr>h_eip = 0x1f000041, h_reg = (\<lambda>_. 0x7fff0000), h_flags = 0, h_mem = entry_mem demo_L (\<lambda>_. 0xbf000000) call_mem\<rparr>
     \<lparr>h_eip = ld32 call_mem 0xbf000000, h_reg = (\<lambda>_. 0x7fff0000)(ESP := 0xbf000004, EBX := 0xbf000000, EBP := 0xbf000000,
        ESI := 0xbf000000, EDI := 0xbf000000, EAX := ld32 (entry_mem demo_L (\<lambda>_. 0xbf000000) call_mem) (a_ret_tb demo_L)),
      h_flags = 0, h_mem = saved_mem demo_L (\<lambda>_. 0x7fff0000) 0 (entry_mem demo_L (\<lambda>_. 0xbf000000) call_mem)\<rparr>"
proof -
  let ?g = "\<lambda>_::u8. 0xbf000000 :: u32" and ?g' = "\<lambda>_::u8. 0x7fff0000 :: u32" and ?m = "entry_mem demo_L (\<lambda>_. 0xbf000000) call_mem"
  have st: "region (l_prologue demo_L) 2048 \<inter> region (?g ESP - 16) 16 = {}"
    by (rule disjoint_subsets [of "region (l_prologue demo_L) 2048" "region (?g ESP - 16) 20"])
      (use demo_stack in \<open>simp_all add: host_stack_def region_mono\<close>)
  have "runtime_code demo_L ?m"
    using call_mem_ok(1)
    by (rule runtime_code_frame) (rule entry_mem_frame; use st boot_env_apart [OF env_fields(1)] in auto)
  from epilogue_returns [OF this demo_layout, of ?g call_mem ?g' 0] demo_stack entry_mem_stack(1) [of demo_L ?g call_mem]
    region_apart [of 0 2048 "0x60fefffc" 4 "0x1f000000"] region_apart [of 0 env_size "0x5ffefffc" 4 "0x20000000"]
    region_apart [of 0 4 "0x3f00fff4" 20 "0x7ffefffc"]
  show ?thesis by (simp add: demo_L_def Int_commute)
qed

end
