(* ===== verification/Exec_Loop.thy ===== *)
theory Exec_Loop
  imports Code_Cache
begin

text \<open>
  The execution loop \<^verbatim>\<open>cpu_exec\<close> of \<^verbatim>\<open>src/cpu-exec.c\<close> with the linking functions of
  \<^verbatim>\<open>src/exec-all.h\<close>: find or translate the block of \<^verbatim>\<open>env->eip\<close>, enter an indirect branch into the
  sieve or the inline cache, link the block that was left, and call the code cache.
\<close>

section \<open>Linking blocks\<close>

definition tb_set_jmp_target1 :: "u32 \<Rightarrow> u32 \<Rightarrow> trans_state \<Rightarrow> trans_state" where
  "tb_set_jmp_target1 jmp_addr addr = poke32 jmp_addr (addr - (jmp_addr + 4))"

definition tb_set_jmp_target :: "nat \<Rightarrow> nat \<Rightarrow> u32 \<Rightarrow> trans_state \<Rightarrow> trans_state outcome" where
  "tb_set_jmp_target tb n addr s =
     (let t = tbs s tb in
      if n < length (tb_jmp_offset t)
      then Inr (tb_set_jmp_target1 (tc_ptr t + ucast (tb_jmp_offset t ! n)) addr s)
      else Inl Out_Of_Bounds)"

definition tb_add_jump :: "nat \<Rightarrow> nat \<Rightarrow> nat \<Rightarrow> trans_state \<Rightarrow> trans_state outcome" where
  "tb_add_jump tb n tb_next s =
     and_then (tb_set_jmp_target tb n (tc_ptr (tbs s tb_next)) s) (tb_add_jmp_from tb tb_next n)"

section \<open>The next block\<close>

text \<open>The function address that a block made by \<^verbatim>\<open>get_next_tb\<close> is given.\<close>

definition next_func_addr :: "layout \<Rightarrow> u32 \<Rightarrow> nat option \<Rightarrow> trans_state \<Rightarrow> u32" where
  "next_func_addr L cur_pc prev_tb s =
     (let ind_type = ld32 (mem s) (a_ind_type L); ind_dest = ld32 (mem s) (a_ind_dest L) in
      if ind_type \<noteq> NOT_IND \<and> ind_type \<noteq> TYPE_SYSCALL
      then if ind_type = IND_TYPE_CALL \<or> ind_type = IND_TYPE_CALL_SP then cur_pc
        else if ind_type = IND_TYPE_JMP \<or> ind_type = IND_TYPE_JMP_SP then ind_dest
        else if ind_type = IND_TYPE_RET \<or> ind_type = IND_TYPE_RET_SP then cur_pc
        else if ind_type = IND_TYPE_RECUR then ind_dest
        else 0
      else case prev_tb of Some p \<Rightarrow> func_addr (tbs s p) | None \<Rightarrow> 0)"

definition get_next_tb ::
    "layout \<Rightarrow> decode_t \<Rightarrow> u32 \<Rightarrow> nat option \<Rightarrow> trans_state \<Rightarrow> (nat \<times> trans_state) outcome" where
  "get_next_tb L ds cur_pc prev_tb s =
     and_then (tb_find_fast cur_pc NORMAL_TB_TAG s) (\<lambda>(tb, s).
       case tb of
         None \<Rightarrow> and_then (make_tb cur_pc (next_func_addr L cur_pc prev_tb s) s) (\<lambda>(i, s).
                   and_then (cpu_gen_code L ds i s) (\<lambda>s. Inr (i, s)))
       | Some i \<Rightarrow> if tc_ptr (tbs s i) = NOT_TRANS_YET
                   then and_then (cpu_gen_code L ds i s) (\<lambda>s. Inr (i, s))
                   else Inr (i, s))"

section \<open>Filling the inline cache\<close>

definition patch_jmp_target :: "nat \<Rightarrow> u32 \<Rightarrow> u32 \<Rightarrow> trans_state \<Rightarrow> trans_state outcome" where
  "patch_jmp_target tb src_addr dest_addr s =
     (let t = tbs s tb; jmp_index = unat (jmp_ind_index t) in
      if jmp_index < length (jind_src_addr t) \<and> jmp_index < length (jind_dest_addr t)
      then (let s = poke32 (jind_src_addr t ! jmp_index) (- src_addr) s;
                s = poke32 (jind_dest_addr t ! jmp_index) (dest_addr - jind_dest_addr t ! jmp_index - 4) s
            in Inr (upd_tb tb (\<lambda>t. t\<lparr>jmp_ind := 0, jmp_ind_index := jmp_ind_index t + 1\<rparr>) s))
      else Inl Out_Of_Bounds)"

definition patch_ind_opt :: "layout \<Rightarrow> nat \<Rightarrow> nat \<Rightarrow> trans_state \<Rightarrow> trans_state outcome" where
  "patch_ind_opt L prev_tb tb s =
     (let tgt_addr = ld32 (mem s) (a_eip L) in
      if jmp_ind_index (tbs s prev_tb) < of_nat IND_SLOT_MAX
      then patch_jmp_target prev_tb tgt_addr (tc_ptr (tbs s tb)) s
      else Inr (ind_patch_sieve (ind_enter_sieve (tbs s prev_tb)) s))"

section \<open>The loop\<close>

text \<open>
  What the code cache returns is the address of the block it left, or zero.  \<open>tb_index\<close> is the block
  at an address in \<^verbatim>\<open>tbs\<close>.
\<close>

definition tb_index :: "layout \<Rightarrow> u32 \<Rightarrow> nat" where
  "tb_index L p = unat ((p - l_tbs L) div 256)"

definition tb_ptr :: "layout \<Rightarrow> u32 \<Rightarrow> nat option" where
  "tb_ptr L p = (if p = 0 then None else Some (tb_index L p))"

text \<open>An indirect branch enters its target into the sieve or into the inline cache of its block.\<close>

definition note_indirect :: "layout \<Rightarrow> u32 \<Rightarrow> nat \<Rightarrow> trans_state \<Rightarrow> (u32 \<times> trans_state) outcome" where
  "note_indirect L prev_tb tb s =
     (if ld32 (mem s) (a_ind_type L) \<noteq> NOT_IND
      then if prev_tb = 0
        then and_then (add_sieve_entry L tb s) (\<lambda>s. Inr (prev_tb, poke32 (a_ind_type L) NOT_IND s))
        else and_then (patch_ind_opt L (tb_index L prev_tb) tb s) (\<lambda>s. Inr (0, s))
      else Inr (prev_tb, s))"

definition link_previous :: "layout \<Rightarrow> u32 \<Rightarrow> nat \<Rightarrow> trans_state \<Rightarrow> trans_state outcome" where
  "link_previous L prev_tb tb s =
     (if prev_tb \<noteq> 0 \<and> tb_addr L tb \<noteq> prev_tb
      then tb_add_jump (tb_index L prev_tb) (unat (ld32 (mem s) (a_patch_num L))) tb s
      else Inr s)"

definition set_entry :: "layout \<Rightarrow> nat \<Rightarrow> trans_state \<Rightarrow> trans_state" where
  "set_entry L tb s =
     (let s = poke32 (a_target_tc L) (tc_ptr (tbs s tb)) s;
          s = poke32 (a_ret_tb L) 0 s
      in poke32 (a_ind_type L) NOT_IND s)"

text \<open>One round of the loop, up to the call of the code cache.\<close>

definition cpu_exec_enter :: "layout \<Rightarrow> decode_t \<Rightarrow> u32 \<Rightarrow> trans_state \<Rightarrow> (nat \<times> trans_state) outcome" where
  "cpu_exec_enter L ds prev_tb s =
     and_then (get_next_tb L ds (ld32 (mem s) (a_eip L)) (tb_ptr L prev_tb) s) (\<lambda>(tb, s).
     and_then (note_indirect L prev_tb tb s) (\<lambda>(prev_tb, s).
     and_then (link_previous L prev_tb tb s) (\<lambda>s.
     Inr (tb, set_entry L tb s))))"

text \<open>
  The state of the loop: the block last left, \<^verbatim>\<open>env->current_tb\<close>, \<^verbatim>\<open>prolog_count\<close> and the rest.  What
  the code cache does, the guest's own instructions among it, is the relation \<open>enter\<close> between the
  memory at the call of the prologue and the memory and result at its return.
\<close>

record cpu_loop =
  lp_prev :: u32
  lp_current :: "nat option"
  prolog_count :: u32
  lp_state :: trans_state

definition cpu_exec_start :: "trans_state \<Rightarrow> cpu_loop" where
  "cpu_exec_start s = \<lparr>lp_prev = 0, lp_current = None, prolog_count = 0, lp_state = s\<rparr>"

inductive cpu_exec_step :: "layout \<Rightarrow> (memory \<Rightarrow> u32 \<Rightarrow> memory \<Rightarrow> bool) \<Rightarrow> cpu_loop \<Rightarrow> cpu_loop \<Rightarrow> bool"
  for L enter where
  round: "cpu_exec_enter L ds (lp_prev l) (lp_state l) = Inr (tb, s) \<Longrightarrow> enter (mem s) r m \<Longrightarrow>
    cpu_exec_step L enter l \<lparr>lp_prev = r, lp_current = None, prolog_count = prolog_count l + 1, lp_state = s\<lparr>mem := m\<rparr>\<rparr>"

inductive_cases cpu_exec_stepE: "cpu_exec_step L enter l l'"

section \<open>The invariant of the loop\<close>

text \<open>
  The code buffer, with the bytes behind it that a translation may write before its size is checked,
  lies apart from the start-up code, the sieve and \<^verbatim>\<open>env\<close>, and does not hold the address that marks a
  block as not translated.
\<close>

abbreviation code_span :: nat where "code_span \<equiv> 135817729"

definition code_apart :: "layout \<Rightarrow> trans_state \<Rightarrow> bool" where
  "code_apart L s \<longleftrightarrow> region (code_gen_buffer s) code_span \<inter> region (l_prologue L) 2048 = {} \<and>
     region (code_gen_buffer s) code_span \<inter> region (l_sieve_buffer L) sieve_size = {} \<and>
     region (code_gen_buffer s) code_span \<inter> region (l_env L) env_size = {} \<and>
     NOT_TRANS_YET \<notin> region (code_gen_buffer s) code_span"

definition exec_inv :: "layout \<Rightarrow> sieve \<Rightarrow> trans_state \<Rightarrow> bool" where
  "exec_inv L c s \<longleftrightarrow> good_layout L \<and> code_apart L s \<and> rest_inv s \<and> sieve_at L c s \<and> runtime_code L (mem s) \<and>
     unat (code_gen_ptr s - code_gen_buffer s) \<le> 134217728"

lemma code_window:
  assumes "unat (code_gen_ptr s - code_gen_buffer s) \<le> 134217728" "n \<le> 1600001"
  shows "region (code_gen_ptr s) n \<subseteq> region (code_gen_buffer s) code_span"
proof -
  define u where "u = unat (code_gen_ptr s - code_gen_buffer s)"
  have eq: "code_gen_ptr s = code_gen_buffer s + of_nat u" by (simp add: u_def)
  have "region (code_gen_buffer s) (u + n) \<subseteq> region (code_gen_buffer s) code_span"
    using assms unfolding u_def [symmetric] by (intro region_mono) simp
  then show ?thesis unfolding eq using region_shift [of "code_gen_buffer s" u n] by (rule subset_trans [rotated])
qed

lemma rest_inv_tc: "rest_inv s \<Longrightarrow> i < nb_tbs s \<Longrightarrow> rest_inv (upd_tb i (tc_ptr_update (\<lambda>_. p)) s)"
  unfolding rest_inv_def
  by (intro conjI tb_inv_upd_tb) (auto simp: keeps_key_def tb_shape_def tb_inv_def upd_tb_def)

lemma gen_target_code_size:
  assumes "gen_target_code L ds tb s = Inr s'"
  shows "code_gen_ptr s' = code_ptr s'" "\<not> DEFAULT_CODE_GEN_BUFFER_SIZE <s code_gen_ptr s' - code_gen_buffer s'"
  using assms by (auto simp: gen_target_code_def Let_def upd_tb_def split: if_splits)

text \<open>The offset of the end of the code, after a translation that was not refused.\<close>

lemma sint_small:
  assumes "unat (x :: u32) < 2 ^ 31"
  shows "sint x = int (unat x)"
proof -
  have "int (unat x) < int (2 ^ 31)" using assms by (simp only: of_nat_less_iff)
  then have "uint x < 2 ^ 31" by simp
  moreover have "0 \<le> uint x" by simp
  then have "- (2 ^ 31) \<le> uint x" by (rule order_trans [rotated]) simp
  ultimately have "signed_take_bit 31 (uint x) = uint x" by (intro signed_take_bit_int_eq_self)
  then show ?thesis by (simp add: sint_uint)
qed

lemma sless_small: "unat (x :: u32) < 2 ^ 31 \<Longrightarrow> unat y < 2 ^ 31 \<Longrightarrow> x <s y \<longleftrightarrow> unat x < unat y"
  unfolding word_sless_alt by (simp only: sint_small of_nat_less_iff)

lemma exec_inv_ready:
  assumes "exec_inv L c s" "i < nb_tbs s" "guest_code (code_gen_ptr s) (mem s) (tb_pc (tbs s i))"
    and "sv_used c + 8960 \<le> sieve_size"
  shows "gen_ready i (upd_tb i (tc_ptr_update (\<lambda>_. code_gen_ptr s)) s)" (is "gen_ready i ?s")
proof -
  let ?p = "code_gen_ptr s"
  have inv: "rest_inv s" "sieve_at L c s" "code_apart L s" and u: "unat (?p - code_gen_buffer s) \<le> 134217728"
    using assms(1) by (simp_all add: exec_inv_def)
  have "?p + of_nat o1 \<noteq> NOT_TRANS_YET" if "o1 \<le> code_max" for o1
  proof -
    have "?p + of_nat o1 \<in> region ?p (o1 + 1)" by (rule subsetD [OF region_shift region_self]) simp
    then have "?p + of_nat o1 \<in> region (code_gen_buffer s) code_span" using code_window [OF u, of "o1 + 1"] that by auto
    then show ?thesis using inv(3) by (auto simp: code_apart_def)
  qed
  then have nty: "nty_clear ?p code_max" by (simp add: nty_clear_def)
  have "region (sieve_code_ptr s) max_stubs \<subseteq> region (l_sieve_buffer L) sieve_size"
    using region_shift [of "l_sieve_buffer L" "sv_used c" max_stubs] region_mono [of "sv_used c + max_stubs" sieve_size "l_sieve_buffer L"]
      inv(2) assms(4) by (auto simp: sieve_at_def)
  then have "region ?p code_max \<inter> region (sieve_code_ptr s) max_stubs = {}"
    using inv(3) by (intro disjoint_subsets [OF _ code_window [OF u]]) (auto simp: code_apart_def)
  then show ?thesis using nty rest_inv_tc [OF inv(1) assms(2)] assms(2,3) by (simp add: gen_ready_def)
qed

text \<open>Translating a block keeps the invariant; of memory it changes only code and stubs.\<close>

definition gen_frame :: "nat \<Rightarrow> trans_state \<Rightarrow> trans_state \<Rightarrow> bool" where
  "gen_frame i s s' \<longleftrightarrow> nb_tbs s \<le> nb_tbs s' \<and> (\<forall>j<nb_tbs s. tb_pc (tbs s' j) = tb_pc (tbs s j) \<and>
     (j \<noteq> i \<longrightarrow> tc_ptr (tbs s j) \<noteq> NOT_TRANS_YET \<longrightarrow>
        tc_ptr (tbs s' j) = tc_ptr (tbs s j) \<and> slots (tbs s' j) = slots (tbs s j)))"

lemma exec_gen:
  assumes "exec_inv L c s" "i < nb_tbs s" "guest_code (code_gen_ptr s) (mem s) (tb_pc (tbs s i))"
    and "sv_used c + 8960 \<le> sieve_size" "cpu_gen_code L ds i s = Inr s'"
  shows "\<exists>k\<le>8960. exec_inv L (c\<lparr>sv_used := sv_used c + k\<rparr>) s'"
    and "gen_frame i s s'" "tc_ptr (tbs s' i) = code_gen_ptr s" "\<forall>a\<in>region (l_env L) env_size. mem s' a = mem s a"
    and "code_gen_buffer s' = code_gen_buffer s" "\<forall>a\<in>region (code_gen_buffer s) code_span - region (code_gen_ptr s) code_max. mem s' a = mem s a"
proof -
  let ?s = "upd_tb i (tc_ptr_update (\<lambda>_. code_gen_ptr s)) s" and ?p = "code_gen_ptr s"
  have ready: "gen_ready i ?s" by (rule exec_inv_ready [OF assms(1-4)])
  have gen: "gen_target_code L ds i ?s = Inr s'" using assms(5) by (simp add: cpu_gen_code_def)
  have inv: "good_layout L" "sieve_at L c ?s" "code_apart L s" "runtime_code L (mem ?s)" and u: "unat (?p - code_gen_buffer s) \<le> 134217728"
    using assms(1) by (simp_all add: exec_inv_def sieve_at_def)
  have p: "tc_ptr (tbs ?s i) = ?p" by simp
  have win: "region ?p code_max \<subseteq> region (code_gen_buffer s) code_span" using code_window [OF u, of code_max] by simp
  have ap: "region ?p code_max \<inter> X = {}" if "region (code_gen_buffer s) code_span \<inter> X = {}" for X
    by (rule disjoint_subsets [OF that win order_refl])
  have apart: "region ?p code_max \<inter> region (l_prologue L) 2048 = {}" "region ?p code_max \<inter> region (l_sieve_buffer L) sieve_size = {}"
    "region ?p code_max \<inter> region (l_env L) env_size = {}" using inv(3) by (auto simp: code_apart_def intro!: ap)
  note kp = gen_target_code_keeps [OF ready gen]
  show buf: "code_gen_buffer s' = code_gen_buffer s" using kp by (simp add: keeps_def)
  have nty: "?p \<noteq> NOT_TRANS_YET" using ready by (auto simp: gen_ready_def nty_clear_def dest: spec [of _ 0])
  with kp assms(2) show "tc_ptr (tbs s' i) = ?p" by (auto simp: keeps_def)
  show "gen_frame i s s'"
    using kp by (auto simp: gen_frame_def keeps_def own_def)
  from gen_target_code_outcome [OF ready, of L ds] gen obtain n k where tr: "rest_inv s'" "n \<le> code_max" "k \<le> max_stubs"
    "ext ?p (sieve_code_ptr s) (mem s) n k s'" by (auto simp: translated_def)
  have stubs: "region (sieve_code_ptr s) k \<subseteq> region (l_sieve_buffer L) sieve_size"
    using region_shift [of "l_sieve_buffer L" "sv_used c" k] region_mono [of "sv_used c + k" sieve_size "l_sieve_buffer L"]
      inv(2) assms(4) tr(3) by (auto simp: sieve_at_def)
  show "\<forall>a\<in>region (l_env L) env_size. mem s' a = mem s a"
  proof
    fix a assume a: "a \<in> region (l_env L) env_size"
    then have "a \<notin> region ?p n" using apart(3) region_mono [OF tr(2), of ?p] by auto
    moreover have "a \<notin> region (sieve_code_ptr s) k" using a stubs inv(1) by (auto simp: good_layout_def)
    ultimately show "mem s' a = mem s a" using tr(4) by (simp add: ext_def)
  qed
  show "\<forall>a\<in>region (code_gen_buffer s) code_span - region ?p code_max. mem s' a = mem s a"
  proof
    fix a assume a: "a \<in> region (code_gen_buffer s) code_span - region ?p code_max"
    then have "a \<notin> region ?p n" using region_mono [OF tr(2), of ?p] by auto
    moreover have "a \<notin> region (sieve_code_ptr s) k" using a stubs inv(3) by (auto simp: code_apart_def)
    ultimately show "mem s' a = mem s a" using tr(4) by (simp add: ext_def)
  qed
  let ?x = "code_gen_ptr s' - code_gen_buffer s'"
  have "?x = of_nat (unat (?p - code_gen_buffer s) + n)"
    using gen_target_code_size(1) [OF gen] tr(4) buf by (simp add: ext_def algebra_simps)
  then have x: "unat ?x = unat (?p - code_gen_buffer s) + n" using u tr(2) by (simp add: unat_of_nat_u32 del: of_nat_add)
  have "unat ?x \<le> 134217728"
    using gen_target_code_size(2) [OF gen] sless_small [of DEFAULT_CODE_GEN_BUFFER_SIZE ?x] x u tr(2) by simp
  moreover have "code_apart L s'" using inv(3) buf by (simp add: code_apart_def)
  moreover from translation_keeps_sieve [OF ready gen inv(1,2,4) assms(4), unfolded p, OF apart] obtain k' where
    "runtime_code L (mem s')" "k' \<le> 8960" "sieve_at L (c\<lparr>sv_used := sv_used c + k'\<rparr>) s'" by blast
  ultimately show "\<exists>k\<le>8960. exec_inv L (c\<lparr>sv_used := sv_used c + k\<rparr>) s'"
    using inv(1) tr(1) by (auto simp: exec_inv_def)
qed

text \<open>The ways a round may end early: six refusals, and the crash \<open>Null_Emitfn\<close>.\<close>

definition exec_errors :: "abort_reason set" where
  "exec_errors = early_ends \<union> {Stb_Overflow, Code_Buffer_Overflow}"

definition round_sat :: "'a outcome \<Rightarrow> ('a \<Rightarrow> bool) \<Rightarrow> bool" where
  "round_sat r P \<longleftrightarrow> (case r of Inl e \<Rightarrow> e \<in> exec_errors | Inr x \<Rightarrow> P x)"

lemma round_sat_simps [simp]: "round_sat (Inr x) P = P x" "round_sat (Inl e) P \<longleftrightarrow> e \<in> exec_errors"
  by (simp_all add: round_sat_def)

lemma round_sat_and_then:
  "round_sat r Q \<Longrightarrow> (\<And>x. Q x \<Longrightarrow> round_sat (f x) P) \<Longrightarrow> round_sat (and_then r f) P"
  by (cases r) simp_all

lemma round_sat_mono: "round_sat r Q \<Longrightarrow> (\<And>x. Q x \<Longrightarrow> P x) \<Longrightarrow> round_sat r P"
  by (cases r) simp_all

text \<open>Memory outside the translator's own may change.\<close>

definition own_mem :: "layout \<Rightarrow> sieve \<Rightarrow> u32 set" where
  "own_mem L c = region (l_prologue L) 2048 \<union> region (l_sieve_buffer L) (sv_used c) \<union> region (a_sieve_hashtable L) table_size"

lemma exec_inv_mem:
  assumes "exec_inv L c s" "\<And>a. a \<in> own_mem L c \<Longrightarrow> m a = mem s a"
  shows "exec_inv L c (s\<lparr>mem := m\<rparr>)"
proof -
  have i: "sieve_at L c s" "runtime_code L (mem s)" "rest_inv s" using assms(1) by (simp_all add: exec_inv_def)
  have "runtime_code L m" by (rule runtime_code_frame [OF i(2)], rule assms(2)) (simp add: own_mem_def)
  moreover have "sieve_valid c m"
    by (rule sieve_valid_frame [of _ "mem s"]; (rule assms(2))?) (use i(1) in \<open>auto simp: sieve_at_def own_mem_def\<close>)
  moreover have "rest_inv (s\<lparr>mem := m\<rparr>)"
    using i(3) tb_inv_same [of s "s\<lparr>mem := m\<rparr>"] by (simp add: rest_inv_def same_tbs_def)
  ultimately show ?thesis using assms(1) by (simp add: exec_inv_def sieve_at_def code_apart_def)
qed

lemma poke32_mem: "poke32 a v s = s\<lparr>mem := st32 (mem s) a v\<rparr>"
  by (simp add: poke32_def)

lemma exec_inv_poke:
  assumes "exec_inv L c s" "region a 4 \<inter> own_mem L c = {}"
  shows "exec_inv L c (poke32 a v s)"
  unfolding poke32_mem using assms(1) by (rule exec_inv_mem) (use assms(2) in \<open>auto intro: st32_frame\<close>)

lemma exec_inv_upd:
  assumes "exec_inv L c s" "benign f"
  shows "exec_inv L c (upd_tb i f s)"
proof -
  have "rest_inv (upd_tb i f s)"
    using assms tb_inv_benign [of s f i] by (simp add: exec_inv_def rest_inv_def benign_def)
  then show ?thesis using assms(1) by (simp add: exec_inv_def sieve_at_def code_apart_def)
qed

text \<open>The code buffer and the fields of \<^verbatim>\<open>env\<close> lie outside.\<close>

lemma own_mem_code:
  assumes "exec_inv L c s" "sv_used c \<le> sieve_size"
  shows "region (code_gen_buffer s) code_span \<inter> own_mem L c = {}"
proof -
  have "code_apart L s" using assms(1) by (simp add: exec_inv_def)
  moreover have "region (l_sieve_buffer L) (sv_used c) \<subseteq> region (l_sieve_buffer L) sieve_size"
    using assms(2) by (rule region_mono)
  ultimately show ?thesis using env_table [of L] unfolding own_mem_def code_apart_def by blast
qed

lemma own_mem_env:
  assumes "good_layout L" "sv_used c \<le> sieve_size" "n + 4 \<le> 267344 \<or> 791632 \<le> n \<and> n + 4 \<le> env_size"
  shows "region (l_env L + of_nat n) 4 \<inter> own_mem L c = {}"
proof -
  have "region (l_env L + of_nat n) 4 \<subseteq> region (l_env L) env_size" using assms(3) by (intro env_field) auto
  moreover have "region (l_sieve_buffer L) (sv_used c) \<subseteq> region (l_sieve_buffer L) sieve_size"
    using assms(2) by (rule region_mono)
  moreover have "region (l_env L + of_nat n) 4 \<inter> region (a_sieve_hashtable L) table_size = {}"
    using assms(3) region_apart [of n 4 267344 table_size "l_env L"] region_apart [of 267344 table_size n 4 "l_env L"]
    by (auto simp: a_sieve_hashtable_def Int_commute)
  ultimately show ?thesis using assms(1) unfolding own_mem_def good_layout_def by blast
qed

lemma exec_make:
  assumes "exec_inv L c s" "make_tb pc fa s = Inr (i, s')"
  shows "exec_inv L c s'"
proof -
  have i: "rest_inv s" using assms(1) by (simp add: exec_inv_def)
  have "tb_inv s'" using make_tb_inv [OF _ assms(2)] i by (simp add: rest_inv_def)
  moreover have "patch_num (tbs s' j) = 0" if "j < nb_tbs s'" for j
    using that make_tb_new [OF assms(2)] i by (cases "j = i") (auto simp: rest_inv_def)
  ultimately show ?thesis
    using assms(1) make_tb_new(9,10) [OF assms(2)] make_tb_fields [OF assms(2)]
    by (simp add: exec_inv_def rest_inv_def sieve_at_def code_apart_def)
qed

text \<open>
  What the loop needs of the place it was left from: zero, or a translated block whose branch (for a
  direct exit) or inline-cache slots (for an indirect one) lie in the code buffer.
\<close>

definition exit_ok :: "layout \<Rightarrow> u32 \<Rightarrow> trans_state \<Rightarrow> bool" where
  "exit_ok L prev s \<longleftrightarrow> prev = 0 \<or>
     (let t = tbs s (tb_index L prev); code = region (code_gen_buffer s) code_span in
      tb_index L prev < nb_tbs s \<and> tc_ptr t \<noteq> NOT_TRANS_YET \<and>
      (if ld32 (mem s) (a_ind_type L) = NOT_IND
       then ld32 (mem s) (a_patch_num L) < of_nat PATCH_MAX \<and>
         region (tc_ptr t + ucast (tb_jmp_offset t ! unat (ld32 (mem s) (a_patch_num L)))) 4 \<subseteq> code
       else (\<forall>k<IND_SLOT_MAX. region (jind_src_addr t ! k) 4 \<subseteq> code \<and> region (jind_dest_addr t ! k) 4 \<subseteq> code) \<and>
         region (ind_enter_sieve t) 5 \<subseteq> code))"

text \<open>What finding the next block leaves as it was.\<close>

definition found :: "layout \<Rightarrow> trans_state \<Rightarrow> nat \<Rightarrow> trans_state \<Rightarrow> bool" where
  "found L s tb s' \<longleftrightarrow> tb < nb_tbs s' \<and> tc_ptr (tbs s' tb) \<noteq> NOT_TRANS_YET \<and> nb_tbs s \<le> nb_tbs s' \<and>
     (\<forall>j<nb_tbs s. tc_ptr (tbs s j) \<noteq> NOT_TRANS_YET \<longrightarrow>
        tc_ptr (tbs s' j) = tc_ptr (tbs s j) \<and> slots (tbs s' j) = slots (tbs s j)) \<and>
     (\<forall>a\<in>region (l_env L) env_size. mem s' a = mem s a) \<and> code_gen_buffer s' = code_gen_buffer s \<and>
     (\<forall>a\<in>region (code_gen_buffer s) code_span - region (code_gen_ptr s) code_max. mem s' a = mem s a)"

lemma exec_gen_sat:
  assumes "exec_inv L c s" "i < nb_tbs s" "tc_ptr (tbs s i) = NOT_TRANS_YET"
    and "guest_code (code_gen_ptr s) (mem s) (tb_pc (tbs s i))" "sv_used c + 8960 \<le> sieve_size"
  shows "round_sat (cpu_gen_code L ds i s) (\<lambda>s'. (\<exists>k\<le>8960. exec_inv L (c\<lparr>sv_used := sv_used c + k\<rparr>) s') \<and>
     found L s i s' \<and> tb_pc (tbs s' i) = tb_pc (tbs s i))"
proof (cases "cpu_gen_code L ds i s")
  case (Inl e)
  with gen_target_code_outcome [OF exec_inv_ready [OF assms(1,2,4,5)], of L ds] show ?thesis
    by (simp add: cpu_gen_code_def exec_errors_def)
next
  case (Inr s')
  note g = exec_gen [OF assms(1,2,4,5) Inr]
  have p: "code_gen_ptr s \<noteq> NOT_TRANS_YET"
    using exec_inv_ready [OF assms(1,2,4,5)] by (auto simp: gen_ready_def nty_clear_def dest: spec [of _ 0])
  have "found L s i s'"
    unfolding found_def
  proof (intro conjI allI impI)
    fix j assume "j < nb_tbs s" "tc_ptr (tbs s j) \<noteq> NOT_TRANS_YET"
    moreover from this assms(3) have "j \<noteq> i" by auto
    ultimately show "tc_ptr (tbs s' j) = tc_ptr (tbs s j)" "slots (tbs s' j) = slots (tbs s j)"
      using g(2) by (auto simp: gen_frame_def)
  qed (use g p assms(2) in \<open>auto simp: gen_frame_def\<close>)
  with Inr g(1,2) assms(2) show ?thesis by (simp add: gen_frame_def)
qed

lemma tb_ofD: "tb_of s pc = Some i \<Longrightarrow> i < nb_tbs s \<and> tb_pc (tbs s i) = pc"
  by (auto simp: tb_of_def find_Some_iff) (metis diff_less_Suc length_rev length_upt nth_mem set_rev set_upt atLeastLessThan_iff diff_zero)

lemma exec_inv_cache: "exec_inv L c s \<Longrightarrow> tb_inv (s\<lparr>tb_jmp_cache := jc\<rparr>) \<Longrightarrow> exec_inv L c (s\<lparr>tb_jmp_cache := jc\<rparr>)"
  by (simp add: exec_inv_def rest_inv_def sieve_at_def code_apart_def)

lemma get_next_sat:
  assumes "exec_inv L c s" "guest_code (code_gen_ptr s) (mem s) pc" "sv_used c + 8960 \<le> sieve_size"
  shows "round_sat (get_next_tb L ds pc p s) (\<lambda>(tb, s'). (\<exists>k\<le>8960. exec_inv L (c\<lparr>sv_used := sv_used c + k\<rparr>) s') \<and>
     found L s tb s' \<and> tb_pc (tbs s' tb) = pc)"
proof -
  have "tb_inv s" using assms(1) by (simp add: exec_inv_def rest_inv_def)
  then obtain jc where f: "tb_find_fast pc 0 s = Inr (tb_of s pc, s\<lparr>tb_jmp_cache := jc\<rparr>)" and i1: "tb_inv (s\<lparr>tb_jmp_cache := jc\<rparr>)"
    by (rule tb_find_fast_spec)
  let ?s = "s\<lparr>tb_jmp_cache := jc\<rparr>"
  have inv: "exec_inv L c ?s" using assms(1) i1 by (rule exec_inv_cache)
  show ?thesis
  proof (cases "tb_of s pc")
    case None
    have made: "round_sat (make_tb pc fa ?s) (\<lambda>(i, s'). make_tb pc fa ?s = Inr (i, s'))" for fa
      using make_tb_soft [of pc fa ?s] by (cases "make_tb pc fa ?s") (auto simp: exec_errors_def)
    have gen1: "round_sat (and_then (cpu_gen_code L ds i s1) (\<lambda>s. Inr (i, s))) (\<lambda>(tb, s').
        (\<exists>k\<le>8960. exec_inv L (c\<lparr>sv_used := sv_used c + k\<rparr>) s') \<and> found L s tb s' \<and> tb_pc (tbs s' tb) = pc)"
      if mk: "make_tb pc fa ?s = Inr (i, s1)" for fa i s1
    proof -
      note new = make_tb_new [OF mk] and fl = make_tb_fields [OF mk]
      have gen: "round_sat (cpu_gen_code L ds i s1) (\<lambda>s'. (\<exists>k\<le>8960. exec_inv L (c\<lparr>sv_used := sv_used c + k\<rparr>) s') \<and>
          found L s1 i s' \<and> tb_pc (tbs s' i) = pc)"
        using exec_gen_sat [OF exec_make [OF inv mk], of i ds] new fl assms(2,3) by simp
      have "found L s i s'" if "found L s1 i s'" for s'
        using that new fl by (auto simp: found_def)
      then show ?thesis by (auto intro!: round_sat_and_then [OF gen])
    qed
    show ?thesis
      unfolding get_next_tb_def f and_then_Inr prod.case None option.case
      by (rule round_sat_and_then [OF made], clarify, rule gen1)
  next
    case (Some i)
    note i = tb_ofD [OF Some]
    have "round_sat (cpu_gen_code L ds i ?s) (\<lambda>s'. (\<exists>k\<le>8960. exec_inv L (c\<lparr>sv_used := sv_used c + k\<rparr>) s') \<and>
        found L s i s' \<and> tb_pc (tbs s' i) = pc)" if "tc_ptr (tbs s i) = NOT_TRANS_YET"
      using exec_gen_sat [OF inv, of i ds] i that assms(2,3) by (simp add: found_def)
    moreover have "\<exists>k\<le>8960. exec_inv L (c\<lparr>sv_used := sv_used c + k\<rparr>) ?s" using inv by (intro exI [of _ 0]) simp
    ultimately show ?thesis
      unfolding get_next_tb_def f using i by (auto simp: Some found_def intro!: round_sat_and_then)
  qed
qed

lemma exit_ok_found:
  assumes "exit_ok L prev s" "found L s tb s'"
  shows "exit_ok L prev s'"
proof (cases "prev = 0")
  case False
  have env: "ld32 (mem s') (l_env L + of_nat n) = ld32 (mem s) (l_env L + of_nat n)" if "n + 4 \<le> env_size" for n
    using assms(2) env_field [OF that, of L] by (intro ld32_cong) (auto simp: found_def)
  have f: "ld32 (mem s') (a_ind_type L) = ld32 (mem s) (a_ind_type L)" "ld32 (mem s') (a_patch_num L) = ld32 (mem s) (a_patch_num L)"
    using env [of 1840212] env [of 64] by (simp_all add: a_ind_type_def a_patch_num_def)
  have i: "tb_index L prev < nb_tbs s" "tc_ptr (tbs s (tb_index L prev)) \<noteq> NOT_TRANS_YET"
    using assms(1) False by (auto simp: exit_ok_def Let_def)
  with assms(2) have "tc_ptr (tbs s' (tb_index L prev)) = tc_ptr (tbs s (tb_index L prev))"
    "slots (tbs s' (tb_index L prev)) = slots (tbs s (tb_index L prev))" "tb_index L prev < nb_tbs s'"
    "code_gen_buffer s' = code_gen_buffer s" by (auto simp: found_def)
  with assms(1) show ?thesis unfolding exit_ok_def Let_def f by (auto simp: slots_def split: if_splits)
qed (simp add: exit_ok_def)

text \<open>What the rest of a round leaves as it was.\<close>

definition settled :: "layout \<Rightarrow> trans_state \<Rightarrow> trans_state \<Rightarrow> bool" where
  "settled L s s' \<longleftrightarrow> nb_tbs s' = nb_tbs s \<and> code_gen_buffer s' = code_gen_buffer s \<and>
     (\<forall>i. tb_pc (tbs s' i) = tb_pc (tbs s i) \<and> tc_ptr (tbs s' i) = tc_ptr (tbs s i)) \<and>
     ld32 (mem s') (a_eip L) = ld32 (mem s) (a_eip L)"

lemma settled_refl [simp]: "settled L s s"
  by (simp add: settled_def)

lemma settled_trans: "settled L s s1 \<Longrightarrow> settled L s1 s2 \<Longrightarrow> settled L s s2"
  by (simp add: settled_def)

lemma settled_poke: "region a 4 \<inter> region (a_eip L) 4 = {} \<Longrightarrow> settled L s (poke32 a v s)"
  by (simp add: settled_def poke32_def ld32_st32_other Int_commute)

lemma code_poke:
  assumes "exec_inv L c s" "sv_used c \<le> sieve_size" "region a 4 \<subseteq> region (code_gen_buffer s) code_span"
  shows "exec_inv L c (poke32 a v s)" "settled L s (poke32 a v s)"
proof -
  show "exec_inv L c (poke32 a v s)"
    by (rule exec_inv_poke [OF assms(1)], rule disjoint_subsets [OF own_mem_code [OF assms(1,2)] assms(3) order_refl])
  have "region (code_gen_buffer s) code_span \<inter> region (l_env L) env_size = {}" using assms(1) by (simp add: exec_inv_def code_apart_def)
  then have "region a 4 \<inter> region (a_eip L) 4 = {}" by (rule disjoint_subsets [OF _ assms(3) env_fields(5)])
  then show "settled L s (poke32 a v s)" by (rule settled_poke)
qed

lemma exec_inv_upd':
  assumes "exec_inv L c s" "tb_inv (upd_tb i f s)" "\<And>t. patch_num (f t) = patch_num t"
  shows "exec_inv L c (upd_tb i f s)"
  using assms by (simp add: exec_inv_def rest_inv_def sieve_at_def code_apart_def)

lemma settled_upd:
  "(\<And>t. tb_pc (f t) = tb_pc t) \<Longrightarrow> (\<And>t. tc_ptr (f t) = tc_ptr t) \<Longrightarrow> settled L s (upd_tb i f s)"
  by (simp add: settled_def)

text \<open>A new entry of the sieve.\<close>

lemma sieve_round:
  assumes inv: "exec_inv L c s" and room: "sv_used c + 27 \<le> sieve_size" and tc: "tc_ptr (tbs s tb) \<noteq> NOT_TRANS_YET"
  obtains s' c' where "add_sieve_entry L tb s = Inr s'" "exec_inv L c' s'" "settled L s s'"
    "sieve_target c' = (sieve_target c)(tb_pc (tbs s tb) \<mapsto> tc_ptr (tbs s tb))" "sv_used c' = sv_used c + 27"
proof -
  let ?q = "sieve_code_ptr s" and ?pc = "tb_pc (tbs s tb)"
  have at: "good_layout L" "sieve_at L c s" "rest_inv s" "runtime_code L (mem s)" using inv by (simp_all add: exec_inv_def)
  have q: "?q = l_sieve_buffer L + of_nat (sv_used c)" using at(2) by (simp add: sieve_at_def)
  have "?q + 27 - l_sieve_buffer L = of_nat (sv_used c + 27)" by (simp add: q)
  then have u: "unat (?q + 27 - l_sieve_buffer L) = sv_used c + 27" using room by (simp add: unat_of_nat_u32 del: of_nat_add)
  have "\<not> DEFAULT_SIEVE_BUFFER_SIZE <s ?q + 27 - l_sieve_buffer L"
    using sless_small [of DEFAULT_SIEVE_BUFFER_SIZE "?q + 27 - l_sieve_buffer L"] u room by simp
  then obtain s' where s': "add_sieve_entry L tb s = Inr s'"
    using tc by (auto simp: add_sieve_entry_def Let_def semit_def poke32_def)
  let ?c = "sieve_add ?pc (tc_ptr (tbs s tb)) c"
  have c': "sieve_at L ?c s'" by (rule sieve_entry_added [OF at(1,2) room tc s'])
  have node: "region ?q 27 \<subseteq> region (l_sieve_buffer L) sieve_size"
    unfolding q using region_shift [of "l_sieve_buffer L" "sv_used c" 27] region_mono [OF room, of "l_sieve_buffer L"] by (rule subset_trans)
  have "region (bucket_addr L ?pc + of_nat 1) 4 \<subseteq> region (bucket_addr L ?pc) 8"
    using region_shift [of "bucket_addr L ?pc" 1 4] region_mono [of "1 + 4" 8 "bucket_addr L ?pc"] by auto
  then have bucket: "region (bucket_addr L ?pc + 1) 4 \<subseteq> region (a_sieve_hashtable L) table_size"
    using bucket_region [of L ?pc] by simp
  have frame: "mem s' a = mem s a" if "a \<notin> region (l_sieve_buffer L) sieve_size" "a \<notin> region (a_sieve_hashtable L) table_size" for a
    unfolding add_sieve_entry_eq(1) [OF tc s'] using that node bucket by (intro node_mem_frame) auto
  have "runtime_code L (mem s')"
    by (rule runtime_code_frame [OF at(4)], rule frame) (use at(1) env_table [of L] in \<open>auto simp: good_layout_def\<close>)
  moreover have flds: "tbs s' = tbs s" "nb_tbs s' = nb_tbs s" "tb_phys_hash s' = tb_phys_hash s" "tb_jmp_cache s' = tb_jmp_cache s"
    "patch_array s' = patch_array s" "cur_tb s' = cur_tb s" "code_gen_ptr s' = code_gen_ptr s" "code_gen_buffer s' = code_gen_buffer s"
    using tc s' by (auto simp: add_sieve_entry_def Let_def semit_def poke32_def split: if_splits)
  moreover have "rest_inv s'" using at(3) tb_inv_same [of s s'] flds by (simp add: rest_inv_def same_tbs_def)
  ultimately have "exec_inv L ?c s'" using inv c' by (simp add: exec_inv_def code_apart_def)
  moreover have "ld32 (mem s') (a_eip L) = ld32 (mem s) (a_eip L)"
  proof (rule ld32_cong, rule frame)
    fix a assume a: "a \<in> region (a_eip L) 4"
    then show "a \<notin> region (l_sieve_buffer L) sieve_size" using env_fields(5) [of L] at(1) by (auto simp: good_layout_def)
    show "a \<notin> region (a_sieve_hashtable L) table_size"
      using a region_apart [of 32 4 267344 table_size "l_env L"] by (auto simp: a_eip_def a_sieve_hashtable_def)
  qed
  then have "settled L s s'" using flds by (simp add: settled_def)
  ultimately show ?thesis using that [OF s'] sieve_target_add [of ?pc "tc_ptr (tbs s tb)" c] by (simp add: sieve_add_def)
qed

lemma ind_patch_sieve_eq:
  "ind_patch_sieve p s = s\<lparr>mem := write_bytes (mem s) p (0xe9 # bytes32 (sieve_stub s - (p + 1) - 4))\<rparr>"
  by (simp add: ind_patch_sieve_def cemit_sieve_nopush_def emit_rel32_def emit_emit2 emit_def add.commute)

lemma code_write:
  assumes "exec_inv L c s" "sv_used c \<le> sieve_size" "region p (length bs) \<subseteq> region (code_gen_buffer s) code_span"
  shows "exec_inv L c (s\<lparr>mem := write_bytes (mem s) p bs\<rparr>)" "settled L s (s\<lparr>mem := write_bytes (mem s) p bs\<rparr>)"
proof -
  show "exec_inv L c (s\<lparr>mem := write_bytes (mem s) p bs\<rparr>)"
    by (rule exec_inv_mem [OF assms(1)], rule write_bytes_frame) (use own_mem_code [OF assms(1,2)] assms(3) in auto)
  have "region (code_gen_buffer s) code_span \<inter> region (l_env L) env_size = {}" using assms(1) by (simp add: exec_inv_def code_apart_def)
  then have "region p (length bs) \<inter> region (a_eip L) 4 = {}" by (rule disjoint_subsets [OF _ assms(3) env_fields(5)])
  then show "settled L s (s\<lparr>mem := write_bytes (mem s) p bs\<rparr>)"
    by (auto simp: settled_def intro!: ld32_cong write_bytes_frame)
qed

lemma settled_buffer: "settled L s s' \<Longrightarrow> code_gen_buffer s' = code_gen_buffer s"
  by (simp add: settled_def)

lemma benign_ind [simp, intro]: "benign (\<lambda>t. t\<lparr>jmp_ind := 0, jmp_ind_index := jmp_ind_index t + 1\<rparr>)"
  by (simp add: benign_def keeps_key_def tb_shape_def)

lemma patch_ind_round:
  assumes inv: "exec_inv L c s" and room: "sv_used c \<le> sieve_size" and ex: "exit_ok L prev s" "prev \<noteq> 0"
    and ind: "ld32 (mem s) (a_ind_type L) \<noteq> NOT_IND"
  obtains s' where "patch_ind_opt L (tb_index L prev) tb s = Inr s'" "exec_inv L c s'" "settled L s s'"
proof (cases "jmp_ind_index (tbs s (tb_index L prev)) < 3")
  case True
  let ?i = "tb_index L prev"
  let ?t = "tbs s ?i" and ?k = "unat (jmp_ind_index (tbs s (tb_index L prev)))"
  have k: "?k < 3" using True by (simp add: word_less_nat_alt)
  have sh: "length (jind_src_addr ?t) = 3" "length (jind_dest_addr ?t) = 3"
    using inv by (simp_all add: exec_inv_def rest_inv_def tb_inv_def tb_shape_def)
  have sl: "region (jind_src_addr ?t ! ?k) 4 \<subseteq> region (code_gen_buffer s) code_span"
    "region (jind_dest_addr ?t ! ?k) 4 \<subseteq> region (code_gen_buffer s) code_span"
    using ex ind k by (auto simp: exit_ok_def Let_def)
  let ?s1 = "poke32 (jind_src_addr ?t ! ?k) (- ld32 (mem s) (a_eip L)) s"
  let ?s2 = "poke32 (jind_dest_addr ?t ! ?k) (tc_ptr (tbs s tb) - jind_dest_addr ?t ! ?k - 4) ?s1"
  note p1 = code_poke [OF inv room sl(1), of "- ld32 (mem s) (a_eip L)"]
  have "region (jind_dest_addr ?t ! ?k) 4 \<subseteq> region (code_gen_buffer ?s1) code_span" using sl(2) settled_buffer [OF p1(2)] by simp
  note p2 = code_poke [OF p1(1) room this, of "tc_ptr (tbs s tb) - jind_dest_addr ?t ! ?k - 4"]
  let ?s3 = "upd_tb ?i (\<lambda>t. t\<lparr>jmp_ind := 0, jmp_ind_index := jmp_ind_index t + 1\<rparr>) ?s2"
  have "patch_ind_opt L ?i tb s = Inr ?s3"
    using True k sh by (simp add: patch_ind_opt_def patch_jmp_target_def Let_def)
  moreover have "exec_inv L c ?s3" using p2(1) by (rule exec_inv_upd) simp
  moreover have "settled L s ?s3" by (rule settled_trans [OF settled_trans [OF p1(2) p2(2)] settled_upd]) simp_all
  ultimately show ?thesis by (rule that)
next
  case False
  let ?e = "ind_enter_sieve (tbs s (tb_index L prev))"
  have "region ?e 5 \<subseteq> region (code_gen_buffer s) code_span" using ex ind by (auto simp: exit_ok_def Let_def)
  with False show ?thesis
    using code_write [OF inv room, of ?e "0xe9 # bytes32 (sieve_stub s - (?e + 1) - 4)"]
    by (intro that [of "ind_patch_sieve ?e s"]) (simp_all add: patch_ind_opt_def Let_def ind_patch_sieve_eq)
qed

lemma env_poke:
  assumes "exec_inv L c s" "sv_used c \<le> sieve_size" "n + 4 \<le> 267344 \<or> 791632 \<le> n \<and> n + 4 \<le> env_size" "n + 4 \<le> 32 \<or> 36 \<le> n"
  shows "exec_inv L c (poke32 (l_env L + of_nat n) v s)" "settled L s (poke32 (l_env L + of_nat n) v s)"
proof -
  have L: "good_layout L" using assms(1) by (simp add: exec_inv_def)
  show "exec_inv L c (poke32 (l_env L + of_nat n) v s)"
    by (rule exec_inv_poke [OF assms(1) own_mem_env [OF L assms(2,3)]])
  have "n + 4 \<le> env_size" using assms(3) by auto
  then have "region (l_env L + of_nat n) 4 \<inter> region (a_eip L) 4 = {}"
    using assms(4) region_apart [of n 4 32 4 "l_env L"] region_apart [of 32 4 n 4 "l_env L"] by (auto simp: a_eip_def Int_commute)
  then show "settled L s (poke32 (l_env L + of_nat n) v s)" by (rule settled_poke)
qed

definition noted :: "layout \<Rightarrow> sieve \<Rightarrow> u32 \<Rightarrow> nat \<Rightarrow> trans_state \<Rightarrow> u32 \<times> trans_state \<Rightarrow> bool" where
  "noted L c prev tb s = (\<lambda>(p, s'). \<exists>c'. exec_inv L c' s' \<and> settled L s s' \<and> sv_used c' \<le> sv_used c + 27 \<and>
     sieve_target c' = (if ld32 (mem s) (a_ind_type L) \<noteq> NOT_IND \<and> prev = 0
       then (sieve_target c)(tb_pc (tbs s tb) \<mapsto> tc_ptr (tbs s tb)) else sieve_target c) \<and>
     (if ld32 (mem s) (a_ind_type L) = NOT_IND then p = prev \<and> s' = s else p = 0))"

lemma note_indirect_sat:
  assumes inv: "exec_inv L c s" and room: "sv_used c + 27 \<le> sieve_size" and ex: "exit_ok L prev s"
    and tc: "tc_ptr (tbs s tb) \<noteq> NOT_TRANS_YET"
  shows "round_sat (note_indirect L prev tb s) (noted L c prev tb s)"
proof (cases "ld32 (mem s) (a_ind_type L) = NOT_IND")
  case True
  then show ?thesis using inv by (auto simp: note_indirect_def noted_def intro!: exI [of _ c])
next
  case ind: False
  show ?thesis
  proof (cases "prev = 0")
    case True
    from inv room tc obtain s' c' where s': "add_sieve_entry L tb s = Inr s'" "exec_inv L c' s'" "settled L s s'"
      "sieve_target c' = (sieve_target c)(tb_pc (tbs s tb) \<mapsto> tc_ptr (tbs s tb))" "sv_used c' = sv_used c + 27" by (rule sieve_round)
    have "exec_inv L c' (poke32 (a_ind_type L) NOT_IND s')" "settled L s' (poke32 (a_ind_type L) NOT_IND s')"
      using env_poke [OF s'(2), of 1840212] s'(5) room by (simp_all add: a_ind_type_def)
    then show ?thesis
      using s' ind True settled_trans [OF s'(3)] by (auto simp: note_indirect_def noted_def intro!: exI [of _ c'])
  next
    case False
    from patch_ind_round [OF inv _ ex False ind, of tb] room obtain s' where
      "patch_ind_opt L (tb_index L prev) tb s = Inr s'" "exec_inv L c s'" "settled L s s'" by auto
    then show ?thesis using ind False by (auto simp: note_indirect_def noted_def intro!: exI [of _ c])
  qed
qed

text \<open>The displacement of the branch through which a block was left.\<close>

definition branch_addr :: "layout \<Rightarrow> u32 \<Rightarrow> trans_state \<Rightarrow> u32" where
  "branch_addr L prev s = tc_ptr (tbs s (tb_index L prev)) +
     ucast (tb_jmp_offset (tbs s (tb_index L prev)) ! unat (ld32 (mem s) (a_patch_num L)))"

definition linked_to :: "layout \<Rightarrow> u32 \<Rightarrow> nat \<Rightarrow> trans_state \<Rightarrow> trans_state \<Rightarrow> bool" where
  "linked_to L prev tb s s' \<longleftrightarrow> (prev \<noteq> 0 \<longrightarrow> tb_addr L tb \<noteq> prev \<longrightarrow>
     ld32 (mem s') (branch_addr L prev s) = tc_ptr (tbs s' tb) - (branch_addr L prev s + 4))"

text \<open>The code emitted so far stays as it is, apart from the displacement of that branch.\<close>

definition code_kept :: "layout \<Rightarrow> u32 \<Rightarrow> trans_state \<Rightarrow> trans_state \<Rightarrow> bool" where
  "code_kept L prev s s' \<longleftrightarrow> (\<forall>a\<in>region (code_gen_buffer s) code_span - region (code_gen_ptr s) code_max.
     a \<notin> region (branch_addr L prev s) 4 \<longrightarrow> mem s' a = mem s a)"

lemma link_ok:
  assumes inv: "exec_inv L c s" and room: "sv_used c \<le> sieve_size" and ex: "exit_ok L prev s"
    and ind: "prev \<noteq> 0 \<Longrightarrow> ld32 (mem s) (a_ind_type L) = NOT_IND" and tb: "tb < nb_tbs s"
  shows "\<exists>s'. link_previous L prev tb s = Inr s' \<and> exec_inv L c s' \<and> settled L s s' \<and> linked_to L prev tb s s' \<and>
     (\<forall>a. a \<notin> region (branch_addr L prev s) 4 \<longrightarrow> mem s' a = mem s a)"
proof (cases "prev \<noteq> 0 \<and> tb_addr L tb \<noteq> prev")
  case True
  let ?b = "branch_addr L prev s" and ?n = "unat (ld32 (mem s) (a_patch_num L))"
  have i: "ld32 (mem s) (a_patch_num L) < 8" "region ?b 4 \<subseteq> region (code_gen_buffer s) code_span"
    using ex True ind by (auto simp: exit_ok_def branch_addr_def Let_def)
  have n: "?n < length (tb_jmp_offset (tbs s (tb_index L prev)))"
    using i(1) inv by (simp add: exec_inv_def rest_inv_def tb_inv_def tb_shape_def word_less_nat_alt)
  let ?s1 = "poke32 ?b (tc_ptr (tbs s tb) - (?b + 4)) s"
  note p = code_poke [OF inv room i(2), of "tc_ptr (tbs s tb) - (?b + 4)"]
  have "tb_inv ?s1" "tb < nb_tbs ?s1" using p(1) tb by (simp_all add: exec_inv_def rest_inv_def)
  from tb_add_jmp_from_ok [OF this, of "tb_index L prev" ?n] obtain f where
    f: "tb_add_jmp_from (tb_index L prev) tb ?n ?s1 = Inr (upd_tb tb f ?s1)" "keeps_key f" "tb_inv (upd_tb tb f ?s1)"
    "\<forall>t. tc_ptr (f t) = tc_ptr t \<and> patch_num (f t) = patch_num t" by blast
  have "link_previous L prev tb s = Inr (upd_tb tb f ?s1)"
    using True n f(1) by (simp add: link_previous_def tb_add_jump_def tb_set_jmp_target_def tb_set_jmp_target1_def branch_addr_def Let_def)
  moreover have "exec_inv L c (upd_tb tb f ?s1)" using f by (intro exec_inv_upd' [OF p(1)]) auto
  moreover have "settled L s (upd_tb tb f ?s1)"
    by (rule settled_trans [OF p(2) settled_upd]) (use f in \<open>auto simp: keeps_key_def\<close>)
  moreover have "linked_to L prev tb s (upd_tb tb f ?s1)"
    using f by (auto simp: linked_to_def poke32_def ld32_st32)
  moreover have "\<forall>a. a \<notin> region ?b 4 \<longrightarrow> mem (upd_tb tb f ?s1) a = mem s a"
    by (simp add: poke32_def st32_frame)
  ultimately show ?thesis by simp
qed (use inv in \<open>auto simp: link_previous_def linked_to_def\<close>)

lemma link_sat:
  assumes "exec_inv L c s" "sv_used c \<le> sieve_size" "exit_ok L prev s"
    and "prev \<noteq> 0 \<Longrightarrow> ld32 (mem s) (a_ind_type L) = NOT_IND" "tb < nb_tbs s"
  shows "round_sat (link_previous L prev tb s) (\<lambda>s'. exec_inv L c s' \<and> settled L s s' \<and> linked_to L prev tb s s' \<and>
     (\<forall>a. a \<notin> region (branch_addr L prev s) 4 \<longrightarrow> mem s' a = mem s a))"
  using link_ok [OF assms] by auto

text \<open>The entry: \<^verbatim>\<open>env\<close> is set up for the call of the prologue.\<close>

definition entered :: "layout \<Rightarrow> nat \<Rightarrow> trans_state \<Rightarrow> bool" where
  "entered L tb s \<longleftrightarrow> ld32 (mem s) (a_target_tc L) = tc_ptr (tbs s tb) \<and> ld32 (mem s) (a_ret_tb L) = 0 \<and>
     ld32 (mem s) (a_ind_type L) = NOT_IND"

lemma env_field_apart: "n + 4 \<le> k \<Longrightarrow> k + 4 \<le> env_size \<Longrightarrow> region (l_env L + of_nat n) 4 \<inter> region (l_env L + of_nat k) 4 = {}"
  using region_apart [of n 4 k 4 "l_env L"] by simp

lemma set_entry_ok:
  assumes inv: "exec_inv L c s" and room: "sv_used c \<le> sieve_size"
  shows "exec_inv L c (set_entry L tb s)" "settled L s (set_entry L tb s)" "entered L tb (set_entry L tb s)"
    and "region a 4 \<subseteq> region (code_gen_buffer s) code_span \<Longrightarrow> ld32 (mem (set_entry L tb s)) a = ld32 (mem s) a"
    "x \<in> region (code_gen_buffer s) code_span \<Longrightarrow> mem (set_entry L tb s) x = mem s x"
proof -
  let ?s1 = "poke32 (l_env L + of_nat 44) (tc_ptr (tbs s tb)) s" and ?s2 = "\<lambda>s. poke32 (l_env L + of_nat 56) 0 s"
  have eq: "set_entry L tb s = poke32 (l_env L + of_nat 1840212) NOT_IND (?s2 ?s1)"
    by (simp add: set_entry_def Let_def a_target_tc_def a_ret_tb_def a_ind_type_def)
  note e1 = env_poke [OF inv room, of 44 "tc_ptr (tbs s tb)", simplified]
  note e2 = env_poke [OF e1(1) room, of 56 0, simplified]
  note e3 = env_poke [OF e2(1) room, of 1840212 NOT_IND, simplified]
  show "exec_inv L c (set_entry L tb s)" using e3(1) by (simp add: eq)
  show "settled L s (set_entry L tb s)" using settled_trans [OF settled_trans [OF e1(2) e2(2)] e3(2)] by (simp add: eq)
  show "entered L tb (set_entry L tb s)"
    using env_field_apart [of 44 56 L] env_field_apart [of 44 1840212 L] env_field_apart [of 56 1840212 L]
    by (simp add: entered_def eq poke32_def a_target_tc_def a_ret_tb_def a_ind_type_def ld32_st32 ld32_st32_other)
  have ap: "region (code_gen_buffer s) code_span \<inter> region (l_env L) env_size = {}" using inv by (simp add: exec_inv_def code_apart_def)
  show "mem (set_entry L tb s) x = mem s x" if "x \<in> region (code_gen_buffer s) code_span"
  proof -
    have "x \<notin> region (l_env L + of_nat n) 4" if "n + 4 \<le> env_size" for n
      using ap env_field [OF that, of L] \<open>x \<in> _\<close> by blast
    from this [of 44] this [of 56] this [of 1840212] show ?thesis by (simp add: eq poke32_def st32_frame)
  qed
  assume a: "region a 4 \<subseteq> region (code_gen_buffer s) code_span"
  have "region a 4 \<inter> region (l_env L + of_nat n) 4 = {}" if "n + 4 \<le> env_size" for n
    by (rule disjoint_subsets [OF ap a env_field [OF that]])
  from this [of 44] this [of 56] this [of 1840212] show "ld32 (mem (set_entry L tb s)) a = ld32 (mem s) a"
    by (simp add: eq poke32_def ld32_st32_other Int_commute)
qed

section \<open>A round\<close>

definition round_done :: "layout \<Rightarrow> sieve \<Rightarrow> u32 \<Rightarrow> trans_state \<Rightarrow> nat \<times> trans_state \<Rightarrow> bool" where
  "round_done L c prev s = (\<lambda>(tb, s'). let eip = ld32 (mem s) (a_eip L); ind = ld32 (mem s) (a_ind_type L) in
     (\<exists>c'. exec_inv L c' s' \<and> sv_used c' \<le> sv_used c + 8987 \<and>
        sieve_target c' = (if ind \<noteq> NOT_IND \<and> prev = 0 then (sieve_target c)(eip \<mapsto> tc_ptr (tbs s' tb)) else sieve_target c)) \<and>
     tb < nb_tbs s' \<and> tb_pc (tbs s' tb) = eip \<and> tc_ptr (tbs s' tb) \<noteq> NOT_TRANS_YET \<and> entered L tb s' \<and>
     ld32 (mem s') (a_eip L) = eip \<and> (ind = NOT_IND \<longrightarrow> linked_to L prev tb s s' \<and> (prev \<noteq> 0 \<longrightarrow> code_kept L prev s s')))"

lemma sieve_target_used [simp]: "sieve_target (c\<lparr>sv_used := k\<rparr>) = sieve_target c"
  by (simp add: sieve_target_def fun_eq_iff)

lemma exit_ok_zero [simp]: "exit_ok L 0 s"
  by (simp add: exit_ok_def)

lemma enter_round:
  assumes inv: "exec_inv L c s" and ex: "exit_ok L prev s" and room: "sv_used c + 8987 \<le> sieve_size"
    and guest: "guest_code (code_gen_ptr s) (mem s) (ld32 (mem s) (a_eip L))"
  shows "round_sat (cpu_exec_enter L ds prev s) (round_done L c prev s)"
  unfolding cpu_exec_enter_def
proof (rule round_sat_and_then [OF get_next_sat [OF inv guest]], use room in simp, clarify)
  fix tb s1 k
  assume f: "found L s tb s1" and pc: "tb_pc (tbs s1 tb) = ld32 (mem s) (a_eip L)" and k: "k \<le> 8960"
    and inv1: "exec_inv L (c\<lparr>sv_used := sv_used c + k\<rparr>) s1"
  let ?c1 = "c\<lparr>sv_used := sv_used c + k\<rparr>"
  have ex1: "exit_ok L prev s1" using ex f by (rule exit_ok_found)
  have env: "ld32 (mem s1) (l_env L + of_nat n) = ld32 (mem s) (l_env L + of_nat n)" if "n + 4 \<le> env_size" for n
    using f env_field [OF that, of L] by (intro ld32_cong) (auto simp: found_def)
  have flds: "ld32 (mem s1) (a_ind_type L) = ld32 (mem s) (a_ind_type L)" "ld32 (mem s1) (a_patch_num L) = ld32 (mem s) (a_patch_num L)"
    "ld32 (mem s1) (a_eip L) = ld32 (mem s) (a_eip L)"
    using env [of 1840212] env [of 64] env [of 32] by (simp_all add: a_ind_type_def a_patch_num_def a_eip_def)
  have tb: "tb < nb_tbs s1" "tc_ptr (tbs s1 tb) \<noteq> NOT_TRANS_YET" using f by (auto simp: found_def)
  have r1: "sv_used ?c1 + 27 \<le> sieve_size" using room k by simp
  have br: "branch_addr L prev s1 = branch_addr L prev s" if "prev \<noteq> 0"
  proof -
    have "tb_index L prev < nb_tbs s" "tc_ptr (tbs s (tb_index L prev)) \<noteq> NOT_TRANS_YET" using ex that by (auto simp: exit_ok_def Let_def)
    then show ?thesis using f flds(2) by (auto simp: found_def branch_addr_def slots_def)
  qed
  show "round_sat (and_then (note_indirect L prev tb s1) (\<lambda>(prev_tb, s). and_then (link_previous L prev_tb tb s)
      (\<lambda>s. Inr (tb, set_entry L tb s)))) (round_done L c prev s)"
  proof (rule round_sat_and_then [OF note_indirect_sat [OF inv1 r1 ex1 tb(2)]], clarify)
    fix p s2
    assume "noted L ?c1 prev tb s1 (p, s2)"
    then obtain c2 where c2: "exec_inv L c2 s2" "settled L s1 s2" "sv_used c2 \<le> sv_used ?c1 + 27"
      "sieve_target c2 = (if ld32 (mem s) (a_ind_type L) \<noteq> NOT_IND \<and> prev = 0
         then (sieve_target c)(tb_pc (tbs s1 tb) \<mapsto> tc_ptr (tbs s1 tb)) else sieve_target c)"
      "if ld32 (mem s) (a_ind_type L) = NOT_IND then p = prev \<and> s2 = s1 else p = 0"
      unfolding noted_def prod.case flds sieve_target_used by blast
    have u2: "sv_used c2 \<le> sieve_size" "sv_used c2 \<le> sv_used c + 8987" using c2(3) r1 k by simp_all
    have ex2: "exit_ok L p s2" "p \<noteq> 0 \<Longrightarrow> ld32 (mem s2) (a_ind_type L) = NOT_IND" "tb < nb_tbs s2"
      using c2(2,5) ex1 flds(1) tb(1) by (auto simp: settled_def split: if_splits)
    show "round_sat (and_then (link_previous L p tb s2) (\<lambda>s. Inr (tb, set_entry L tb s))) (round_done L c prev s)"
    proof (rule round_sat_and_then [OF link_sat [OF c2(1) u2(1) ex2]], assumption, elim conjE)
      fix s3 assume s3: "exec_inv L c2 s3" "settled L s2 s3" "linked_to L p tb s2 s3"
        "\<forall>a. a \<notin> region (branch_addr L p s2) 4 \<longrightarrow> mem s3 a = mem s2 a"
      note e = set_entry_ok [OF s3(1) u2(1), where tb = tb]
      have st: "settled L s1 (set_entry L tb s3)" by (rule settled_trans [OF settled_trans [OF c2(2) s3(2)] e(2)])
      have lk: "linked_to L prev tb s (set_entry L tb s3)" if "ld32 (mem s) (a_ind_type L) = NOT_IND"
        unfolding linked_to_def
      proof (intro impI)
        assume prev: "prev \<noteq> 0" "tb_addr L tb \<noteq> prev"
        have ps: "p = prev" "s2 = s1" using c2(5) that by simp_all
        have "region (branch_addr L prev s1) 4 \<subseteq> region (code_gen_buffer s1) code_span"
          using ex1 prev(1) flds(1) that by (auto simp: exit_ok_def branch_addr_def Let_def)
        then have "ld32 (mem (set_entry L tb s3)) (branch_addr L prev s1) = ld32 (mem s3) (branch_addr L prev s1)"
          using e(4) settled_buffer [OF s3(2)] ps(2) by simp
        then show "ld32 (mem (set_entry L tb s3)) (branch_addr L prev s) = tc_ptr (tbs (set_entry L tb s3) tb) - (branch_addr L prev s + 4)"
          using s3(3) prev e(2) ps br by (simp add: linked_to_def settled_def)
      qed
      have kp: "code_kept L prev s (set_entry L tb s3)" if "ld32 (mem s) (a_ind_type L) = NOT_IND" "prev \<noteq> 0"
        unfolding code_kept_def
      proof (intro ballI impI)
        fix a assume a: "a \<in> region (code_gen_buffer s) code_span - region (code_gen_ptr s) code_max" "a \<notin> region (branch_addr L prev s) 4"
        have ps: "p = prev" "s2 = s1" using c2(5) that(1) by simp_all
        have "code_gen_buffer s3 = code_gen_buffer s" using settled_buffer [OF s3(2)] ps f by (simp add: found_def)
        then have "mem (set_entry L tb s3) a = mem s3 a" using e(5) a(1) by simp
        also have "\<dots> = mem s1 a" using s3(4) a(2) ps br [OF that(2)] by simp
        also have "\<dots> = mem s a" using f a(1) unfolding found_def by blast
        finally show "mem (set_entry L tb s3) a = mem s a" .
      qed
      have "sieve_target c2 = (if ld32 (mem s) (a_ind_type L) \<noteq> NOT_IND \<and> prev = 0
          then (sieve_target c)(ld32 (mem s) (a_eip L) \<mapsto> tc_ptr (tbs (set_entry L tb s3) tb)) else sieve_target c)"
        using c2(4) pc st by (simp add: settled_def)
      moreover have "tb < nb_tbs (set_entry L tb s3)" "tb_pc (tbs (set_entry L tb s3) tb) = ld32 (mem s) (a_eip L)"
        "tc_ptr (tbs (set_entry L tb s3) tb) \<noteq> NOT_TRANS_YET" "ld32 (mem (set_entry L tb s3)) (a_eip L) = ld32 (mem s) (a_eip L)"
        using st tb pc flds(3) by (simp_all add: settled_def)
      ultimately show "round_sat (Inr (tb, set_entry L tb s3)) (round_done L c prev s)"
        using e(1,3) lk kp u2(2) by (auto simp: round_done_def Let_def)
    qed
  qed
qed

text \<open>
  C2: The loop enters the block of \<^verbatim>\<open>env->eip\<close>: after a round that is not refused,
  \<^verbatim>\<open>env->target_tc\<close> is the host code of a translated block whose guest address is \<^verbatim>\<open>env->eip\<close>, with
  \<^verbatim>\<open>env->ret_tb\<close> and \<^verbatim>\<open>env->ind_type\<close> cleared.
\<close>

theorem cpu_exec_enter_target:
  assumes "exec_inv L c s" "exit_ok L prev s" "sv_used c + 8987 \<le> 67108864"
    and "guest_code (code_gen_ptr s) (mem s) (ld32 (mem s) (a_eip L))" "cpu_exec_enter L ds prev s = Inr (tb, s')"
  shows "tb < nb_tbs s' \<and> tb_pc (tbs s' tb) = ld32 (mem s) (a_eip L) \<and> tc_ptr (tbs s' tb) \<noteq> NOT_TRANS_YET \<and>
     ld32 (mem s') (a_target_tc L) = tc_ptr (tbs s' tb) \<and> ld32 (mem s') (a_ret_tb L) = 0 \<and>
     ld32 (mem s') (a_ind_type L) = NOT_IND \<and> ld32 (mem s') (a_eip L) = ld32 (mem s) (a_eip L)"
  using enter_round [OF assms(1-4), of ds] assms(5) by (simp add: round_done_def entered_def Let_def)


text \<open>
  C3: Linking.  When a block was left through a direct branch and another block is entered, the branch
  goes there from now on: the instruction, a \<^verbatim>\<open>jmp\<close> or a \<^verbatim>\<open>jcc\<close> in the code emitted before the round, is still there after it, and
  in one step reaches the host code of the entered block, or the instruction behind it if its condition does not hold.
\<close>

definition branch_of :: "memory \<Rightarrow> u32 \<Rightarrow> u32 \<Rightarrow> bool" where
  "branch_of m a b \<longleftrightarrow> m a = 0xe9 \<and> b = a + 1 \<or> m a = 0x0f \<and> m (a + 1) AND 0xf0 = 0x80 \<and> b = a + 2"

theorem cpu_exec_enter_links:
  assumes "exec_inv L c s" "exit_ok L prev s" "sv_used c + 8987 \<le> 67108864"
    and "guest_code (code_gen_ptr s) (mem s) (ld32 (mem s) (a_eip L))" "cpu_exec_enter L ds prev s = Inr (tb, s')"
    and "prev \<noteq> 0" "tb_addr L tb \<noteq> prev" "ld32 (mem s) (a_ind_type L) = NOT_IND"
    and "branch_of (mem s) a (branch_addr L prev s)" "region a 2 \<subseteq> region (code_gen_buffer s) 135817729 - region (code_gen_ptr s) 1600000"
  shows "hstep \<lparr>h_eip = a, h_reg = g, h_flags = f, h_mem = mem s'\<rparr> =
     Some \<lparr>h_eip = (if mem s a = 0xe9 \<or> hcond (mem s (a + 1) AND 0x0f) f then tc_ptr (tbs s' tb) else a + 6),
       h_reg = g, h_flags = f, h_mem = mem s'\<rparr>"
proof -
  let ?b = "branch_addr L prev s"
  have fin: "round_done L c prev s (tb, s')" using enter_round [OF assms(1-4), of ds] assms(5) by simp
  then have d: "ld32 (mem s') ?b = tc_ptr (tbs s' tb) - (?b + 4)"
    using assms(6-8) by (simp add: round_done_def linked_to_def Let_def)
  have "code_kept L prev s s'" using fin assms(6,8) by (simp add: round_done_def Let_def)
  then have k: "mem s' x = mem s x" if "x \<in> region a 2" "x \<notin> region ?b 4" for x
    using assms(10) that unfolding code_kept_def by blast
  have in2: "a \<in> region a 2" "a + 1 \<in> region a 2" by (simp_all add: region_def)
  from assms(9) consider (jmp) "mem s a = 0xe9" "?b = a + 1" | (jcc) "mem s a = 0x0f" "mem s (a + 1) AND 0xf0 = 0x80" "?b = a + 2"
    by (auto simp: branch_of_def)
  then show ?thesis
  proof cases
    case jmp
    have "mem s' a = 0xe9" using k [OF in2(1)] jmp by (simp add: region_def unsigned_minus_1_eq_mask mask_eq_exp_minus_1)
    then show ?thesis using d jmp by (simp add: hstep_def hdecode_def Let_def case_prod_unfold add.commute [of a])
  next
    case jcc
    have "mem s' a = 0x0f" "mem s' (a + 1) = mem s (a + 1)" using k [OF in2(1)] k [OF in2(2)] jcc by (simp_all add: region_def unsigned_minus_1_eq_mask mask_eq_exp_minus_1)
    then show ?thesis using d jcc by (simp add: hstep_def hdecode_def Let_def case_prod_unfold add.commute [of a])
  qed
qed


section \<open>Leaving through an exit stub\<close>

definition stub_mem :: "layout \<Rightarrow> u32 \<Rightarrow> u32 \<Rightarrow> u32 \<Rightarrow> memory \<Rightarrow> memory" where
  "stub_mem L tb n to m = st32 (st32 (st32 m (a_ret_tb L) tb) (a_patch_num L) n) (a_eip L) to"

text \<open>
  C6: The exit stub of a branch runs to the epilogue with the block, the slot and the guest target of
  the branch in \<^verbatim>\<open>env->ret_tb\<close>, \<^verbatim>\<open>env->patch_num\<close> and \<^verbatim>\<open>env->eip\<close>, and changes neither the
  registers nor the flags.
\<close>

theorem exit_stub_runs:
  assumes "bytes_at m q (stub_bytes L q tb n to e)" "region q 35 \<inter> region (l_env L) 1840216 = {}"
  shows "runs \<lparr>h_eip = q, h_reg = g, h_flags = f, h_mem = m\<rparr>
     \<lparr>h_eip = e, h_reg = g, h_flags = f, h_mem = stub_mem L tb n to m\<rparr>"
proof -
  let ?m1 = "st32 m (a_ret_tb L) tb"
  let ?m2 = "st32 ?m1 (a_patch_num L) n"
  let ?bs = "[0xc7 # 0x05 # bytes32 (a_ret_tb L) @ bytes32 tb, 0xc7 # 0x05 # bytes32 (a_patch_num L) @ bytes32 n,
      0xc7 # 0x05 # bytes32 (a_eip L) @ bytes32 to, 0xe9 # bytes32 (e - (q + 31) - 4)]"
  let ?is = "[(H_mov_imm (O_mem None None (a_ret_tb L)) tb, 10), (H_mov_imm (O_mem None None (a_patch_num L)) n, 10),
      (H_mov_imm (O_mem None None (a_eip L)) to, 10), (H_jmp (e - (q + 31) - 4), 5)]"
  have split: "stub_bytes L q tb n to e = concat ?bs" by (simp add: stub_bytes_def)
  have apart: "region q 35 \<inter> region (a_ret_tb L) 4 = {}" "region q 35 \<inter> region (a_patch_num L) 4 = {}"
    "region q 35 \<inter> region (a_eip L) 4 = {}"
    by (rule disjoint_subsets [OF assms(2) order_refl], rule env_fields)+
  have code: "insns_at m q ?is" if "bytes_at m q (stub_bytes L q tb n to e)" for m
    using that unfolding split by (intro insns_at_assembles [of ?bs]) (simp_all add: encodings)
  have len: "length (stub_bytes L q tb n to e) \<le> 35" by simp
  have c1: "bytes_at ?m1 q (stub_bytes L q tb n to e)" by (rule bytes_at_st32_apart [OF assms(1) apart(1) len])
  have c2: "bytes_at ?m2 q (stub_bytes L q tb n to e)" by (rule bytes_at_st32_apart [OF c1 apart(2) len])
  have c3: "bytes_at (stub_mem L tb n to m) q (stub_bytes L q tb n to e)"
    unfolding stub_mem_def by (rule bytes_at_st32_apart [OF c2 apart(3) len])
  have "hrun 4 \<lparr>h_eip = q, h_reg = g, h_flags = f, h_mem = m\<rparr> =
      Some \<lparr>h_eip = e, h_reg = g, h_flags = f, h_mem = stub_mem L tb n to m\<rparr>"
    using code [OF assms(1)] code [OF c1] code [OF c2] code [OF c3]
    by (simp add: run_simps stub_mem_def add.commute [of q])
  then show ?thesis by (rule runs_hrun)
qed


section \<open>A program running\<close>

text \<open>
  Two blocks of the example program, both translated; the second was left through a direct branch to
  the first.
\<close>

definition run_mem :: memory where
  "run_mem = st32 (st32 (st32 boot_mem (a_eip demo_L) 0x8048000) (a_ind_type demo_L) 0) (a_patch_num demo_L) 0"

definition run_state :: trans_state where
  "run_state = upd_tb 1 (\<lambda>t. t\<lparr>tc_ptr := 0x9000100, tb_jmp_offset := 1 # replicate 7 0\<rparr>)
     (case make_tb 0x8048010 0x8048000 (demo_state run_mem) of Inr (_, s) \<Rightarrow> s)"

lemma run_state_eq:
  obtains s where "make_tb 0x8048010 0x8048000 (demo_state run_mem) = Inr (1, s)"
    "run_state = upd_tb 1 (\<lambda>t. t\<lparr>tc_ptr := 0x9000100, tb_jmp_offset := 1 # replicate 7 0\<rparr>) s"
proof -
  have "\<exists>s. make_tb 0x8048010 0x8048000 (demo_state run_mem) = Inr (1, s)"
    by (simp add: make_tb_def tb_alloc_def demo_state_def code_gen_max_blocks_def code_gen_buffer_max_size_def Let_def)
  then show ?thesis using that by (auto simp: run_state_def)
qed

lemma run_mem_frame: "a \<notin> region (l_env demo_L) env_size \<Longrightarrow> run_mem a = boot_mem a"
  using env_fields(5,6,7) [of demo_L] by (auto simp: run_mem_def intro!: st32_frame [THEN trans])

lemma run_mem_fields:
  "ld32 run_mem (a_eip demo_L) = 0x8048000" "ld32 run_mem (a_ind_type demo_L) = 0" "ld32 run_mem (a_patch_num demo_L) = 0"
  using env_field_apart [of 32 64 demo_L] env_field_apart [of 32 1840212 demo_L] env_field_apart [of 64 1840212 demo_L]
  by (simp_all add: run_mem_def a_eip_def a_ind_type_def a_patch_num_def ld32_st32 ld32_st32_other Int_commute)

lemma demo_exec_inv: "exec_inv demo_L (empty_sieve demo_L) (demo_state boot_mem)"
proof -
  have "code_apart demo_L (demo_state boot_mem)"
    using region_apart [of 0 code_span "0x16000000" 2048 "0x9000000"] region_apart [of 0 code_span "0xb000000" sieve_size "0x9000000"]
      region_apart [of 0 code_span "0x17000000" env_size "0x9000000"]
    by (simp add: code_apart_def demo_state_def demo_L_def region_def)
  then show ?thesis
    using demo_layout demo_rest boot_mem_ok by (simp add: exec_inv_def) (simp add: demo_state_def)
qed

lemma run_exec_inv: "exec_inv demo_L (empty_sieve demo_L) run_state"
proof -
  have e: "\<And>n v s. exec_inv demo_L (empty_sieve demo_L) s \<Longrightarrow> n \<in> {32, 64, 1840212} \<Longrightarrow>
      exec_inv demo_L (empty_sieve demo_L) (poke32 (l_env demo_L + of_nat n) v s)"
    by (rule exec_inv_poke, assumption, rule own_mem_env [OF demo_layout]) (auto simp: empty_sieve_def)
  have "demo_state run_mem = poke32 (l_env demo_L + of_nat 64) 0 (poke32 (l_env demo_L + of_nat 1840212) 0
      (poke32 (l_env demo_L + of_nat 32) 0x8048000 (demo_state boot_mem)))"
    by (simp add: poke32_def run_mem_def demo_state_def a_eip_def a_ind_type_def a_patch_num_def)
  then have inv: "exec_inv demo_L (empty_sieve demo_L) (demo_state run_mem)"
    by (simp only:) (intro e demo_exec_inv; simp)
  obtain s where s: "make_tb 0x8048010 0x8048000 (demo_state run_mem) = Inr (1, s)"
    "run_state = upd_tb 1 (\<lambda>t. t\<lparr>tc_ptr := 0x9000100, tb_jmp_offset := 1 # replicate 7 0\<rparr>) s" by (rule run_state_eq)
  have i1: "exec_inv demo_L (empty_sieve demo_L) s" by (rule exec_make [OF inv s(1)])
  then have "tb_inv (upd_tb 1 (\<lambda>t. t\<lparr>tc_ptr := 0x9000100, tb_jmp_offset := 1 # replicate 7 0\<rparr>) s)"
    by (intro tb_inv_upd_tb) (auto simp: exec_inv_def rest_inv_def keeps_key_def tb_shape_def tb_inv_def)
  then show ?thesis unfolding s(2) by (rule exec_inv_upd' [OF i1]) simp
qed

lemma run_fields:
  shows "mem run_state = run_mem" "nb_tbs run_state = 2" "tbs run_state 0 = demo_tb" "tc_ptr (tbs run_state 1) = 0x9000100"
    "tb_jmp_offset (tbs run_state 1) = 1 # replicate 7 0" "code_gen_buffer run_state = 0x9000000" "code_gen_ptr run_state = 0x9000000"
    "tb_jmp_cache run_state (tb_jmp_cache_hash_func 0x8048000) = Some 0"
proof -
  obtain s where s: "make_tb 0x8048010 0x8048000 (demo_state run_mem) = Inr (1, s)"
    "run_state = upd_tb 1 (\<lambda>t. t\<lparr>tc_ptr := 0x9000100, tb_jmp_offset := 1 # replicate 7 0\<rparr>) s" by (rule run_state_eq)
  note n = make_tb_new [OF s(1)] and f = make_tb_fields [OF s(1)]
  show "mem run_state = run_mem" "nb_tbs run_state = 2" "tc_ptr (tbs run_state 1) = 0x9000100"
    "tb_jmp_offset (tbs run_state 1) = 1 # replicate 7 0" "code_gen_buffer run_state = 0x9000000" "code_gen_ptr run_state = 0x9000000"
    using n f by (simp_all add: s(2) demo_state_def)
  show "tbs run_state 0 = demo_tb" using n(3) [of 0] by (simp add: s(2) demo_state_def)
  have "tb_jmp_cache_hash_func 0x8048010 \<noteq> tb_jmp_cache_hash_func 0x8048000" by (simp add: tb_jmp_cache_hash_func_def Let_def)
  then show "tb_jmp_cache run_state (tb_jmp_cache_hash_func 0x8048000) = Some 0"
    using s(1) unfolding s(2) by (auto simp: make_tb_def tb_alloc_def tb_link_page_def Let_def demo_state_def split: if_splits)
qed

lemma run_guest: "guest_code (code_gen_ptr run_state) (mem run_state) (ld32 (mem run_state) (a_eip demo_L))"
proof -
  have "run_mem (0x8048000 + of_nat q) = boot_mem (0x8048000 + of_nat q)" if "q < 1000000" for q
    by (rule run_mem_frame, rule region_far) (use that in \<open>simp_all add: demo_L_def\<close>)
  then have "demo_mem run_mem" using boot_demo_mem run_mem_fields(3) by (simp add: demo_mem_def)
  from demo_ready [OF this] show ?thesis by (simp add: gen_ready_def run_fields run_mem_fields demo_state_def demo_tb_def)
qed

lemma run_exit: "exit_ok demo_L 0x30000100 run_state" "tb_index demo_L 0x30000100 = 1"
proof -
  show i: "tb_index demo_L 0x30000100 = 1" by (simp add: tb_index_def demo_L_def)
  have "region (0x9000000 + of_nat 257) 4 \<subseteq> region (0x9000000 :: u32) code_span"
    by (rule subset_trans [OF region_shift region_mono]) simp
  then show "exit_ok demo_L 0x30000100 run_state"
    unfolding exit_ok_def i by (simp add: run_fields [simplified] run_mem_fields)
qed

lemma run_room: "sv_used (empty_sieve demo_L) + 8987 \<le> 67108864"
  by (simp add: empty_sieve_def)

lemma run_enter: "\<exists>s'. cpu_exec_enter demo_L blank_ds 0x30000100 run_state = Inr (0, s')"
proof -
  have f: "tb_find_fast 0x8048000 0 run_state = Inr (Some 0, run_state)"
    by (simp add: tb_find_fast_def run_fields demo_tb_def blank_tb_def)
  have g: "get_next_tb demo_L blank_ds 0x8048000 p run_state = Inr (0, run_state)" for p
    by (simp add: get_next_tb_def f run_fields demo_tb_def)
  have "\<exists>s'. link_previous demo_L 0x30000100 0 run_state = Inr s' \<and> exec_inv demo_L (empty_sieve demo_L) s' \<and>
      settled demo_L run_state s' \<and> linked_to demo_L 0x30000100 0 run_state s'"
    using link_ok [OF run_exec_inv _ run_exit(1), of 0] by (auto simp: empty_sieve_def run_fields run_mem_fields)
  then show ?thesis
    unfolding cpu_exec_enter_def run_fields run_mem_fields g and_then_Inr prod.case
    by (auto simp: note_indirect_def run_fields run_mem_fields)
qed

theorem cpu_exec_enter_target_witness:
  "\<exists>s'. cpu_exec_enter demo_L blank_ds 0x30000100 run_state = Inr (0, s') \<and> tb_pc (tbs s' 0) = 0x8048000 \<and>
     ld32 (mem s') (a_target_tc demo_L) = tc_ptr (tbs s' 0)"
proof -
  from run_enter obtain s' where s': "cpu_exec_enter demo_L blank_ds 0x30000100 run_state = Inr (0, s')" ..
  from cpu_exec_enter_target [OF run_exec_inv run_exit(1) run_room run_guest s'] s' show ?thesis
    by (auto simp: run_fields run_mem_fields)
qed


text \<open>The same with a branch where the second block was left: its instruction is in memory, and code is emitted behind it.\<close>

definition linked_state :: "u8 list \<Rightarrow> trans_state" where
  "linked_state op = upd_tb 1 (\<lambda>t. t\<lparr>tb_jmp_offset := of_nat (length op) # replicate 7 0\<rparr>)
     (run_state\<lparr>mem := write_bytes run_mem 0x9000100 op, code_gen_ptr := 0x9000200\<rparr>)"

lemma linked_fields:
  "mem (linked_state op) = write_bytes run_mem 0x9000100 op" "nb_tbs (linked_state op) = 2" "tbs (linked_state op) 0 = demo_tb"
  "tc_ptr (tbs (linked_state op) 1) = 0x9000100" "tb_jmp_offset (tbs (linked_state op) 1) = of_nat (length op) # replicate 7 0"
  "code_gen_buffer (linked_state op) = 0x9000000" "code_gen_ptr (linked_state op) = 0x9000200"
  "tb_jmp_cache (linked_state op) (tb_jmp_cache_hash_func 0x8048000) = Some 0"
  by (simp_all add: linked_state_def run_fields [simplified])

lemma linked_bytes: "length op \<le> 2 \<Longrightarrow> a \<notin> region 0x9000100 2 \<Longrightarrow> write_bytes run_mem 0x9000100 op a = run_mem a"
  using region_mono [of "length op" 2 "0x9000100"] by (intro write_bytes_frame) auto

lemma linked_env:
  assumes "length op \<le> 2" "n + 4 \<le> env_size"
  shows "ld32 (mem (linked_state op)) (l_env demo_L + of_nat n) = ld32 run_mem (l_env demo_L + of_nat n)"
  unfolding linked_fields
proof (intro ld32_cong linked_bytes [OF assms(1)])
  fix a assume "a \<in> region (l_env demo_L + of_nat n) 4"
  then have "a \<in> region (l_env demo_L) env_size" using env_field [OF assms(2)] by blast
  then show "a \<notin> region 0x9000100 2"
    using region_apart [of 0 2 "0x16ffff00" env_size "0x9000100"] by (auto simp: demo_L_def)
qed

lemma linked_env_fields:
  assumes "length op \<le> 2"
  shows "ld32 (mem (linked_state op)) (a_eip demo_L) = 0x8048000" "ld32 (mem (linked_state op)) (a_ind_type demo_L) = 0"
    "ld32 (mem (linked_state op)) (a_patch_num demo_L) = 0"
  using linked_env [OF assms, of 32] linked_env [OF assms, of 1840212] linked_env [OF assms, of 64] run_mem_fields
  by (simp_all add: a_eip_def a_ind_type_def a_patch_num_def)

lemmas linked_env_written = linked_env_fields [unfolded linked_fields(1)]

lemma linked_exec_inv:
  assumes "length op \<le> 2"
  shows "exec_inv demo_L (empty_sieve demo_L) (linked_state op)"
proof -
  have "region (0x9000000 + of_nat 256) 2 \<subseteq> region (0x9000000 :: u32) code_span"
    by (rule subset_trans [OF region_shift region_mono]) simp
  then have "a \<notin> region 0x9000100 2" if "a \<in> own_mem demo_L (empty_sieve demo_L)" for a
    using own_mem_code [OF run_exec_inv] that by (auto simp: run_fields empty_sieve_def)
  then have i: "exec_inv demo_L (empty_sieve demo_L) (run_state\<lparr>mem := write_bytes run_mem 0x9000100 op\<rparr>)"
    by (intro exec_inv_mem [OF run_exec_inv]) (simp add: linked_bytes [OF assms] run_fields)
  have "tb_inv (run_state\<lparr>mem := write_bytes run_mem 0x9000100 op, code_gen_ptr := 0x9000200\<rparr>)"
    using i by (simp add: exec_inv_def rest_inv_def tb_inv_def bucket_def tb_of_def)
  with i have j: "exec_inv demo_L (empty_sieve demo_L) (run_state\<lparr>mem := write_bytes run_mem 0x9000100 op, code_gen_ptr := 0x9000200\<rparr>)"
    by (simp add: exec_inv_def rest_inv_def sieve_at_def code_apart_def run_fields)
  then have "tb_inv (linked_state op)"
    unfolding linked_state_def by (intro tb_inv_upd_tb) (auto simp: exec_inv_def rest_inv_def keeps_key_def tb_shape_def tb_inv_def)
  then show ?thesis using j unfolding linked_state_def by (intro exec_inv_upd' [OF j]) simp_all
qed

lemma linked_guest:
  assumes "length op \<le> 2"
  shows "guest_code (code_gen_ptr (linked_state op)) (mem (linked_state op)) (ld32 (mem (linked_state op)) (a_eip demo_L))"
  unfolding linked_env_fields [OF assms] guest_code_def unfolding linked_fields
proof (intro allI impI)
  fix q assume q: "q \<le> 15 * Suc MAX_INSNS"
  let ?a = "0x8048000 + of_nat q :: u32"
  have far: "?a \<notin> region 0x9000200 code_max" "?a \<notin> region 0x9000100 2" "?a \<notin> region 0x9000000 code_max"
    by (rule region_far; use q in simp)+
  have "mem run_state ?a = demo_guest ?a"
  proof -
    have "run_mem ?a = boot_mem ?a"
      by (rule run_mem_frame, rule region_far) (use q in \<open>simp_all add: demo_L_def\<close>)
    then show ?thesis using boot_demo_mem q by (simp add: run_fields demo_mem_def)
  qed
  then have "\<not> is_prefix_byte (write_bytes run_mem 0x9000100 op ?a)"
    using demo_guest_prefix [of ?a] linked_bytes [OF assms far(2)] by (simp add: run_fields)
  with far(1) show "\<exists>i\<le>4. ?a + of_nat i \<notin> region 0x9000200 code_max \<and> \<not> is_prefix_byte (write_bytes run_mem 0x9000100 op (?a + of_nat i))"
    by (intro exI [of _ 0]) simp
qed

lemma linked_exit:
  assumes "length op \<le> 2"
  shows "exit_ok demo_L 0x30000100 (linked_state op)" "branch_addr demo_L 0x30000100 (linked_state op) = 0x9000100 + of_nat (length op)"
proof -
  have "length op = 0 \<or> length op = 1 \<or> length op = 2" using assms by arith
  then have len: "length op \<in> {0, 1, 2}" by auto
  have "region (0x9000000 + of_nat (256 + length op)) 4 \<subseteq> region (0x9000000 :: u32) code_span"
    by (rule subset_trans [OF region_shift region_mono]) (use assms in simp)
  then show "exit_ok demo_L 0x30000100 (linked_state op)"
    unfolding exit_ok_def run_exit(2) using len by (auto simp: linked_fields [simplified] linked_env_written [OF assms])
  show "branch_addr demo_L 0x30000100 (linked_state op) = 0x9000100 + of_nat (length op)"
    using len by (auto simp: branch_addr_def run_exit(2) [simplified] linked_fields [simplified] linked_env_written [OF assms])
qed

lemma linked_enter:
  assumes "length op \<le> 2"
  shows "\<exists>s'. cpu_exec_enter demo_L blank_ds 0x30000100 (linked_state op) = Inr (0, s')"
proof -
  let ?s = "linked_state op"
  have f: "tb_find_fast 0x8048000 0 ?s = Inr (Some 0, ?s)"
    by (simp add: tb_find_fast_def linked_fields demo_tb_def blank_tb_def)
  have g: "get_next_tb demo_L blank_ds 0x8048000 p ?s = Inr (0, ?s)" for p
    by (simp add: get_next_tb_def f linked_fields demo_tb_def)
  have "\<exists>s'. link_previous demo_L 0x30000100 0 ?s = Inr s'"
    using link_ok [OF linked_exec_inv [OF assms] _ linked_exit(1) [OF assms], of 0]
    by (auto simp: empty_sieve_def linked_fields linked_env_written [OF assms])
  then show ?thesis
    unfolding cpu_exec_enter_def linked_env_fields [OF assms] g and_then_Inr prod.case
    by (auto simp: note_indirect_def linked_env_fields [OF assms])
qed

lemma linked_code: "region 0x9000100 2 \<subseteq> region (code_gen_buffer (linked_state op)) 135817729 - region (code_gen_ptr (linked_state op)) 1600000"
proof -
  have "region (0x9000000 + of_nat 256) 2 \<subseteq> region (0x9000000 :: u32) 135817729"
    by (rule subset_trans [OF region_shift region_mono]) simp
  moreover have "region (0x9000100 :: u32) 2 \<inter> region 0x9000200 1600000 = {}"
    using region_apart [of 0 2 256 1600000 "0x9000100 :: u32"] by simp
  ultimately show ?thesis by (auto simp: linked_fields)
qed

theorem cpu_exec_enter_links_witness:
  "(\<exists>s'. cpu_exec_enter demo_L blank_ds 0x30000100 (linked_state [0xe9]) = Inr (0, s') \<and>
      hstep \<lparr>h_eip = 0x9000100, h_reg = (\<lambda>_. 0), h_flags = 0, h_mem = mem s'\<rparr> =
        Some \<lparr>h_eip = tc_ptr (tbs s' 0), h_reg = (\<lambda>_. 0), h_flags = 0, h_mem = mem s'\<rparr>) \<and>
   (\<exists>s'. cpu_exec_enter demo_L blank_ds 0x30000100 (linked_state [0x0f, 0x84]) = Inr (0, s') \<and>
      hstep \<lparr>h_eip = 0x9000100, h_reg = (\<lambda>_. 0), h_flags = 0x40, h_mem = mem s'\<rparr> =
        Some \<lparr>h_eip = tc_ptr (tbs s' 0), h_reg = (\<lambda>_. 0), h_flags = 0x40, h_mem = mem s'\<rparr> \<and>
      hstep \<lparr>h_eip = 0x9000100, h_reg = (\<lambda>_. 0), h_flags = 0, h_mem = mem s'\<rparr> =
        Some \<lparr>h_eip = 0x9000106, h_reg = (\<lambda>_. 0), h_flags = 0, h_mem = mem s'\<rparr>)"
proof -
  have ne: "(0x30000100 :: u32) \<noteq> 0" "tb_addr demo_L 0 \<noteq> 0x30000100" by (simp_all add: tb_addr_def demo_L_def)
  have step: "hstep \<lparr>h_eip = 0x9000100, h_reg = (\<lambda>_. 0), h_flags = f, h_mem = mem s'\<rparr> =
      Some \<lparr>h_eip = (if hd op = 0xe9 \<or> hcond (op ! 1 AND 0x0f) f then tc_ptr (tbs s' 0) else 0x9000106),
        h_reg = (\<lambda>_. 0), h_flags = f, h_mem = mem s'\<rparr>"
    if op: "op = [0xe9] \<or> op = [0x0f, 0x84]" and s': "cpu_exec_enter demo_L blank_ds 0x30000100 (linked_state op) = Inr (0, s')" for op f s'
  proof -
    have len: "length op \<le> 2" using op by auto
    have br: "branch_of (mem (linked_state op)) 0x9000100 (branch_addr demo_L 0x30000100 (linked_state op))"
      unfolding linked_exit(2) [OF len] linked_fields using op by (auto simp: branch_of_def)
    have "mem (linked_state op) 0x9000100 = hd op" "op \<noteq> [0xe9] \<longrightarrow> mem (linked_state op) (0x9000100 + 1) = op ! 1"
      using op by (auto simp: linked_fields)
    with cpu_exec_enter_links [OF linked_exec_inv [OF len] linked_exit(1) [OF len] run_room linked_guest [OF len] s' ne
      linked_env_fields(2) [OF len] br linked_code, of "\<lambda>_. 0" f] op show ?thesis by auto
  qed
  obtain s1 where s1: "cpu_exec_enter demo_L blank_ds 0x30000100 (linked_state [0xe9]) = Inr (0, s1)" using linked_enter [of "[0xe9]"] by auto
  obtain s2 where s2: "cpu_exec_enter demo_L blank_ds 0x30000100 (linked_state [0x0f, 0x84]) = Inr (0, s2)"
    using linked_enter [of "[0x0f, 0x84]"] by auto
  have c: "hcond 4 0x40" "\<not> hcond 4 0" by (simp_all add: hcond_def)
  from step [OF _ s1, of 0] step [OF _ s2, of "0x40"] step [OF _ s2, of 0] s1 s2 c show ?thesis by auto
qed

theorem exit_stub_runs_witness:
  "runs \<lparr>h_eip = 0x14000010, h_reg = (\<lambda>_. 0), h_flags = 0,
      h_mem = write_bytes boot_mem 0x14000010 (stub_bytes demo_L 0x14000010 0x30000000 0 0x8048000 0x1f000041)\<rparr>
     \<lparr>h_eip = 0x1f000041, h_reg = (\<lambda>_. 0), h_flags = 0, h_mem = stub_mem demo_L 0x30000000 0 0x8048000
      (write_bytes boot_mem 0x14000010 (stub_bytes demo_L 0x14000010 0x30000000 0 0x8048000 0x1f000041))\<rparr>"
  by (rule exit_stub_runs, rule bytes_at_write_bytes)
    (use region_apart [of 0 35 "0xbfffff0" env_size "0x14000010"] in \<open>simp_all add: demo_L_def\<close>)


end
