(* ===== verification/Page_Table.thy ===== *)
theory Page_Table
  imports Prelude
begin

unbundle bit_operations_syntax

text \<open>
  The table of the guest's pages (\<^verbatim>\<open>src/exec.c\<close>, with the flags of \<^verbatim>\<open>src/cpu-all.h\<close> and the accessors of
  \<^verbatim>\<open>src/linux-user/qemu.h\<close>): two levels of 1024 entries, filled by \<^verbatim>\<open>page_set_flags\<close> and read by
  \<^verbatim>\<open>page_get_flags\<close>, \<^verbatim>\<open>page_check_range\<close>, \<^verbatim>\<open>page_dump\<close> and the debugger's \<^verbatim>\<open>cpu_memory_rw_debug\<close>.
  The lemmas show that the two levels behave as one function from page numbers to flags.
\<close>

section \<open>The host\<close>

text \<open>
  The system calls the program makes of its host.  What the kernel answers to a call may depend on all
  the calls made so far; it is the parameter \<open>answer\<close> of the state.
\<close>

datatype host_call =
    Host_mmap u32 u32 u32 u32 u32 u32
  | Host_munmap u32 u32
  | Host_mprotect u32 u32 u32
  | Host_mremap u32 u32 u32 u32 u32
  | Host_msync u32 u32 u32
  | Host_pread u32 u32 u32 u32
  | Host_fstat u32
  | Host_st_size u32
  | Host_st_size_high u32

definition MAP_FAILED :: u32 where "MAP_FAILED = - 1"

section \<open>The page table\<close>

text \<open>\<^verbatim>\<open>PageDesc\<close>; \<^verbatim>\<open>first_tb\<close> is the index of a block.\<close>

record PageDesc =
  first_tb :: "nat option"
  code_write_count :: u32
  code_bitmap :: u32
  pd_flags :: u32

definition blank_page :: PageDesc where
  "blank_page = \<lparr>first_tb = None, code_write_count = 0, code_bitmap = 0, pd_flags = 0\<rparr>"

text \<open>
  The guest has a 32-bit address space and pages of 4096 bytes, so \<^verbatim>\<open>V_L1_BITS\<close> and \<^verbatim>\<open>V_L1_SHIFT\<close> are
  both ten: \<^verbatim>\<open>l1_map\<close> has 1024 entries, each null or a table of 1024 descriptors, and the loop over the
  levels in between is empty.
\<close>

record vm_state =
  l1_map :: "nat \<Rightarrow> (nat \<Rightarrow> PageDesc) option"
  qemu_real_host_page_size :: u32
  qemu_host_page_size :: u32
  qemu_host_page_bits :: nat
  qemu_host_page_mask :: u32
  guest_base :: u32
  reserved_va :: u32
  mmap_min_addr :: u32
  mmap_next_start :: u32
  mmap_lock_count :: int
  errno :: u32
  host_log :: "host_call list"
  answer :: "host_call list \<Rightarrow> u32"

definition host :: "host_call \<Rightarrow> vm_state \<Rightarrow> u32 \<times> vm_state" where
  "host c s = (answer s (c # host_log s), s\<lparr>host_log := c # host_log s\<rparr>)"

abbreviation (input) "TARGET_PAGE_SIZE \<equiv> 0x1000 :: u32"
abbreviation (input) "TARGET_PAGE_MASK \<equiv> 0xfffff000 :: u32"
abbreviation (input) "PAGE_READ \<equiv> 1 :: u32"
abbreviation (input) "PAGE_WRITE \<equiv> 2 :: u32"
abbreviation (input) "PAGE_EXEC \<equiv> 4 :: u32"
abbreviation (input) "PAGE_BITS \<equiv> 7 :: u32"
abbreviation (input) "PAGE_VALID \<equiv> 8 :: u32"
abbreviation (input) "PAGE_WRITE_ORG \<equiv> 0x10 :: u32"

definition TARGET_PAGE_ALIGN :: "u32 \<Rightarrow> u32" where
  "TARGET_PAGE_ALIGN addr = (addr + TARGET_PAGE_SIZE - 1) AND TARGET_PAGE_MASK"

definition HOST_PAGE_ALIGN :: "vm_state \<Rightarrow> u32 \<Rightarrow> u32" where
  "HOST_PAGE_ALIGN s addr = (addr + qemu_host_page_size s - 1) AND qemu_host_page_mask s"

text \<open>
  The loop of \<^verbatim>\<open>page_init\<close> counts the bits of the page size.  C leaves a shift by 32 undefined; the
  loop gets there only for sizes over $2^{31}$, and the model stops it there.
\<close>

function page_bits_loop :: "nat \<Rightarrow> u32 \<Rightarrow> nat" where
  "page_bits_loop bits sz = (if bits < 32 \<and> push_bit bits 1 < sz then page_bits_loop (bits + 1) sz else bits)"
  by pat_completeness auto
termination by (relation "measure (\<lambda>(bits, _). 32 - bits)") auto

declare page_bits_loop.simps [simp del]

definition page_init :: "u32 \<Rightarrow> vm_state \<Rightarrow> vm_state" where
  "page_init getpagesize s =
     (let s = s\<lparr>qemu_real_host_page_size := getpagesize\<rparr>;
          s = (if qemu_host_page_size s = 0 then s\<lparr>qemu_host_page_size := qemu_real_host_page_size s\<rparr> else s);
          s = (if qemu_host_page_size s < TARGET_PAGE_SIZE then s\<lparr>qemu_host_page_size := TARGET_PAGE_SIZE\<rparr> else s);
          s = s\<lparr>qemu_host_page_bits := page_bits_loop 0 (qemu_host_page_size s)\<rparr>
      in s\<lparr>qemu_host_page_mask := NOT (qemu_host_page_size s - 1)\<rparr>)"

definition map_exec :: "u32 \<Rightarrow> u32 \<Rightarrow> u32 \<Rightarrow> vm_state \<Rightarrow> vm_state" where
  "map_exec page_size addr sz s =
     (let start = addr AND NOT (page_size - 1);
          end = (addr + sz + (page_size - 1)) AND NOT (page_size - 1)
      in snd (host (Host_mprotect start (end - start) 7) s))"

text \<open>A pointer to a descriptor is the pair of its indices.\<close>

type_synonym page_ptr = "nat \<times> nat"

definition page_loc :: "u32 \<Rightarrow> page_ptr" where
  "page_loc index = (unat (drop_bit 10 index AND 0x3ff), unat (index AND 0x3ff))"

definition page_desc :: "vm_state \<Rightarrow> page_ptr \<Rightarrow> PageDesc" where
  "page_desc s p = (case l1_map s (fst p) of None \<Rightarrow> blank_page | Some t \<Rightarrow> t (snd p))"

definition set_page_flags :: "page_ptr \<Rightarrow> u32 \<Rightarrow> vm_state \<Rightarrow> vm_state" where
  "set_page_flags p flags s =
     (case l1_map s (fst p) of None \<Rightarrow> s
      | Some t \<Rightarrow> s\<lparr>l1_map := (l1_map s)(fst p \<mapsto> t(snd p := (t (snd p))\<lparr>pd_flags := flags\<rparr>))\<rparr>)"

text \<open>
  \<^verbatim>\<open>page_find_alloc\<close>.  A failed \<^verbatim>\<open>mmap\<close> of the host leaves \<^verbatim>\<open>MAP_FAILED\<close> in the table; the callers
  access the descriptor it does not have.
\<close>

definition page_find_alloc :: "u32 \<Rightarrow> bool \<Rightarrow> vm_state \<Rightarrow> (page_ptr option \<times> vm_state) outcome" where
  "page_find_alloc index alloc s =
     (let (i, j) = page_loc index in
      case l1_map s i of
        Some _ \<Rightarrow> Inr (Some (i, j), s)
      | None \<Rightarrow>
          if \<not> alloc then Inr (None, s)
          else (let (pd, s) = host (Host_mmap 0 0x4000 3 0x22 (- 1) 0) s in
                if pd = MAP_FAILED then Inl Null_Dereference
                else Inr (Some (i, j), s\<lparr>l1_map := (l1_map s)(i \<mapsto> (\<lambda>_. blank_page))\<rparr>)))"

definition page_find :: "u32 \<Rightarrow> vm_state \<Rightarrow> page_ptr option" where
  "page_find index s = (case page_find_alloc index False s of Inl _ \<Rightarrow> None | Inr (p, _) \<Rightarrow> p)"

definition page_get_flags :: "vm_state \<Rightarrow> u32 \<Rightarrow> u32" where
  "page_get_flags s address =
     (case page_find (drop_bit 12 address) s of None \<Rightarrow> 0 | Some p \<Rightarrow> pd_flags (page_desc s p))"

definition tb_invalidate_phys_page :: "u32 \<Rightarrow> vm_state \<Rightarrow> vm_state outcome" where
  "tb_invalidate_phys_page addr s = Inl Page_Invalidate"

text \<open>
  The loops over the pages of an aligned area run once per page: \<open>n\<close> is \<^verbatim>\<open>len / TARGET_PAGE_SIZE\<close>.
\<close>

primrec set_flags_loop :: "nat \<Rightarrow> u32 \<Rightarrow> u32 \<Rightarrow> vm_state \<Rightarrow> vm_state outcome" where
  "set_flags_loop 0 addr flags s = Inr s"
| "set_flags_loop (Suc n) addr flags s =
     and_then (page_find_alloc (drop_bit 12 addr) True s) (\<lambda>(p, s).
       case p of None \<Rightarrow> Inl Null_Dereference
       | Some p \<Rightarrow>
           and_then
             (if pd_flags (page_desc s p) AND PAGE_WRITE = 0 \<and> flags AND PAGE_WRITE \<noteq> 0 \<and> first_tb (page_desc s p) \<noteq> None
              then tb_invalidate_phys_page addr s else Inr s)
             (\<lambda>s. set_flags_loop n (addr + TARGET_PAGE_SIZE) flags (set_page_flags p flags s)))"

definition page_count :: "u32 \<Rightarrow> u32 \<Rightarrow> nat" where
  "page_count start end = unat (drop_bit 12 (end - start))"

definition page_set_flags :: "u32 \<Rightarrow> u32 \<Rightarrow> u32 \<Rightarrow> vm_state \<Rightarrow> vm_state outcome" where
  "page_set_flags start end flags s =
     (if \<not> start < end then Inl Assertion_Failed
      else (let start = start AND TARGET_PAGE_MASK;
                end = TARGET_PAGE_ALIGN end;
                flags = (if flags AND PAGE_WRITE \<noteq> 0 then flags OR PAGE_WRITE_ORG else flags)
            in set_flags_loop (page_count start end) start flags s))"

definition mmap_lock :: "vm_state \<Rightarrow> vm_state" where
  "mmap_lock s = s\<lparr>mmap_lock_count := mmap_lock_count s + 1\<rparr>"

definition mmap_unlock :: "vm_state \<Rightarrow> vm_state" where
  "mmap_unlock s = s\<lparr>mmap_lock_count := mmap_lock_count s - 1\<rparr>"

primrec unprotect_loop :: "nat \<Rightarrow> u32 \<Rightarrow> u32 \<Rightarrow> vm_state \<Rightarrow> (u32 \<times> vm_state) outcome" where
  "unprotect_loop 0 addr prot s = Inr (prot, s)"
| "unprotect_loop (Suc n) addr prot s =
     (case page_find (drop_bit 12 addr) s of None \<Rightarrow> Inl Null_Dereference
      | Some p \<Rightarrow>
          (let s = set_page_flags p (pd_flags (page_desc s p) OR PAGE_WRITE) s;
               prot = prot OR pd_flags (page_desc s p)
           in and_then (tb_invalidate_phys_page addr s) (unprotect_loop n (addr + TARGET_PAGE_SIZE) prot)))"

definition page_unprotect :: "u32 \<Rightarrow> vm_state \<Rightarrow> (int \<times> vm_state) outcome" where
  "page_unprotect address s =
     (let s = mmap_lock s in
      case page_find (drop_bit 12 address) s of None \<Rightarrow> Inr (0, mmap_unlock s)
      | Some p \<Rightarrow>
          if pd_flags (page_desc s p) AND PAGE_WRITE_ORG \<noteq> 0 \<and> pd_flags (page_desc s p) AND PAGE_WRITE = 0
          then (let host_start = address AND qemu_host_page_mask s;
                    host_end = host_start + qemu_host_page_size s
                in and_then (unprotect_loop (if host_start < host_end then page_count host_start host_end else 0) host_start 0 s)
                     (\<lambda>(prot, s). Inr (1, mmap_unlock (snd (host
                        (Host_mprotect (host_start + guest_base s) (qemu_host_page_size s) (prot AND PAGE_BITS)) s)))))
          else Inr (0, mmap_unlock s))"

primrec check_range_loop :: "nat \<Rightarrow> u32 \<Rightarrow> u32 \<Rightarrow> vm_state \<Rightarrow> (int \<times> vm_state) outcome" where
  "check_range_loop 0 addr flags s = Inr (0, s)"
| "check_range_loop (Suc n) addr flags s =
     (case page_find (drop_bit 12 addr) s of None \<Rightarrow> Inr (- 1, s)
      | Some p \<Rightarrow>
          (let f = pd_flags (page_desc s p) in
           if f AND PAGE_VALID = 0 then Inr (- 1, s)
           else if flags AND PAGE_READ \<noteq> 0 \<and> f AND PAGE_READ = 0 then Inr (- 1, s)
           else if flags AND PAGE_WRITE \<noteq> 0
           then (if f AND PAGE_WRITE_ORG = 0 then Inr (- 1, s)
                 else if f AND PAGE_WRITE = 0
                 then and_then (page_unprotect addr s) (\<lambda>(r, s). if r = 0 then Inr (- 1, s) else Inr (0, s))
                 else Inr (0, s))
           else check_range_loop n (addr + TARGET_PAGE_SIZE) flags s))"

definition page_check_range :: "u32 \<Rightarrow> u32 \<Rightarrow> u32 \<Rightarrow> vm_state \<Rightarrow> (int \<times> vm_state) outcome" where
  "page_check_range start len flags s =
     (if len = 0 then Inr (0, s)
      else if start + len - 1 < start then Inr (- 1, s)
      else (let end = TARGET_PAGE_ALIGN (start + len);
                start = start AND TARGET_PAGE_MASK
            in check_range_loop (page_count start end) start flags s))"

section \<open>Addresses and pages\<close>

abbreviation page_of :: "u32 \<Rightarrow> u32" where "page_of a \<equiv> drop_bit 12 a"

definition aligned :: "u32 \<Rightarrow> bool" where
  "aligned a \<longleftrightarrow> take_bit 12 a = 0"

lemma u32_less: "unat (a :: u32) < 4294967296"
  using unsigned_less [of a] by simp

lemma div_page: "x div 4096 = k \<longleftrightarrow> 4096 * k \<le> x \<and> x < 4096 * k + 4096" for x k :: nat
  using div_less_iff_less_mult [of 4096 x "Suc k"] less_eq_div_iff_mult_less_eq [of 4096 k x] by auto

lemma page_of_nat: "unat (page_of a) = unat a div 4096"
  by (simp add: drop_bit_eq_div unat_div)

lemma aligned_nat: "aligned a \<longleftrightarrow> unat a mod 4096 = 0"
proof -
  have "unat (take_bit 12 a) = unat a mod 4096" by (simp add: take_bit_eq_mod unat_mod)
  then show ?thesis unfolding aligned_def by (metis unat_eq_zero)
qed

lemma mask_page: "a AND TARGET_PAGE_MASK = push_bit 12 (page_of a)"
proof (rule bit_word_eqI)
  fix n :: nat assume "n < LENGTH(32)"
  moreover have "bit (0xfffff000 :: u32) n \<longleftrightarrow> 12 \<le> n \<and> n < 32"
  proof -
    have "(0xfffff000 :: u32) = push_bit 12 (mask 20)" by (simp add: push_bit_eq_mult mask_eq_exp_minus_1)
    then show ?thesis by (simp only: bit_push_bit_iff bit_mask_iff) auto
  qed
  ultimately show "bit (a AND TARGET_PAGE_MASK) n = bit (push_bit 12 (page_of a)) n" by (auto simp: bit_simps)
qed

lemma mask_nat: "unat (a AND TARGET_PAGE_MASK) = unat a div 4096 * 4096"
proof -
  have "unat a div 4096 * 4096 < 2 ^ 32" using u32_less [of a] by (simp add: less_mult_imp_div_less)
  then show ?thesis
    by (simp add: mask_page push_bit_eq_mult unat_word_ariths page_of_nat unsigned_push_bit_eq take_bit_eq_mod mult.commute)
qed

lemma page_loc_inj: "page_loc (page_of a) = page_loc (page_of b) \<longleftrightarrow> page_of a = page_of b"
proof
  assume eq: "page_loc (page_of a) = page_loc (page_of b)"
  then have hi: "drop_bit 10 (page_of a) AND 0x3ff = drop_bit 10 (page_of b) AND 0x3ff" and lo: "page_of a AND 0x3ff = page_of b AND 0x3ff"
    unfolding page_loc_def word_unat_eq_iff by simp_all
  have m: "(0x3ff :: u32) = mask 10" by (simp add: mask_eq_exp_minus_1)
  show "page_of a = page_of b"
  proof (rule bit_word_eqI)
    fix n :: nat assume "n < LENGTH(32)"
    then consider "n < 10" | "10 \<le> n" "n < 20" | "20 \<le> n" "n < 32" by fastforce
    then show "bit (page_of a) n = bit (page_of b) n"
    proof cases
      case 1
      then show ?thesis using arg_cong [OF lo, of "\<lambda>w. bit w n"] by (simp add: m bit_simps)
    next
      case 2
      then have "n - 10 < 32" "n - 10 < 10" by simp_all
      then show ?thesis using 2 arg_cong [OF hi, of "\<lambda>w. bit w (n - 10)"] by (simp add: m bit_simps)
    next
      case 3
      then show ?thesis by (auto simp: bit_simps dest: bit_imp_le_length)
    qed
  qed
qed simp

lemma same_page:
  assumes "aligned b"
  shows "page_of a = page_of b \<longleftrightarrow> a \<in> region b 4096"
proof -
  have b: "unat b mod 4096 = 0" using assms by (simp add: aligned_nat)
  have lt: "unat a < 4294967296" "unat b < 4294967296" using u32_less [of a] u32_less [of b] by simp_all
  have sub: "unat (a - b) = (if unat b \<le> unat a then unat a - unat b else unat a + 4294967296 - unat b)"
    by (simp add: unat_sub_if_size word_size word_le_nat_alt)
  have "page_of a = page_of b \<longleftrightarrow> unat a div 4096 = unat b div 4096" by (metis page_of_nat word_unat_eq_iff)
  also have "\<dots> \<longleftrightarrow> unat (a - b) < 4096"
  proof -
    obtain k where k: "unat b = 4096 * k" using b by auto
    moreover have "k < 1048576" using lt k by simp
    ultimately show ?thesis unfolding sub k using lt div_page [of "unat a" k] by auto
  qed
  finally show ?thesis by (simp add: region_def)
qed

lemma div_diff_mult: "(m * 4096 - k * 4096) div 4096 = m - k" for m k :: nat
  by (simp flip: diff_mult_distrib)

lemma page_window:
  fixes S E A :: nat
  assumes "S \<le> E" "E < 0x100000" "A < 4294967296"
  shows "(if S * 4096 \<le> A then A - S * 4096 else A + 4294967296 - S * 4096) < 4096 * (E + 1 - S) \<longleftrightarrow>
     S \<le> A div 4096 \<and> A div 4096 \<le> E"
proof -
  obtain d where d: "E = S + d" using assms(1) le_Suc_ex by blast
  have "S \<le> A div 4096 \<longleftrightarrow> S * 4096 \<le> A" "A div 4096 \<le> E \<longleftrightarrow> A < Suc E * 4096"
    using less_eq_div_iff_mult_less_eq [of 4096 S A] div_less_iff_less_mult [of 4096 A "Suc E"] by auto
  with assms(2,3) show ?thesis unfolding d by auto
qed

text \<open>The pages that the loops of an area from \<open>start\<close> to its last byte \<open>l\<close> visit.\<close>

lemma page_area:
  assumes "start \<le> l" "\<not> (start < TARGET_PAGE_SIZE \<and> TARGET_PAGE_MASK \<le> l)"
  defines "b \<equiv> start AND TARGET_PAGE_MASK" and "n \<equiv> page_count (start AND TARGET_PAGE_MASK) (TARGET_PAGE_ALIGN (l + 1))"
  shows "aligned b" "n \<le> 2 ^ 20" "0 < n" "page_of b = page_of start"
    "a \<in> region b (4096 * n) \<longleftrightarrow> page_of start \<le> page_of a \<and> page_of a \<le> page_of l"
proof -
  let ?S = "unat start div 4096" and ?E = "unat l div 4096"
  have le: "unat start \<le> unat l" "unat start < 4096 \<Longrightarrow> unat l < 0xfffff000"
    using assms(1,2) by (auto simp: word_less_nat_alt word_le_nat_alt)
  have SE: "?S \<le> ?E" using le by (intro div_le_mono) simp
  have E: "?E < 0x100000" using u32_less [of l] by (simp add: div_less_iff_less_mult)
  have b: "unat b = ?S * 4096" unfolding b_def by (rule mask_nat)
  then show "aligned b" by (simp add: aligned_nat)
  show "page_of b = page_of start" unfolding word_unat_eq_iff page_of_nat b by simp
  have "unat (l + 1 + TARGET_PAGE_SIZE - 1) = (4096 + unat l) mod 4294967296"
    by (simp add: unat_word_ariths)
  then have e: "unat (TARGET_PAGE_ALIGN (l + 1)) = (4096 + unat l) mod 4294967296 div 4096 * 4096"
    unfolding TARGET_PAGE_ALIGN_def by (simp add: mask_nat)
  have n: "n = ?E + 1 - ?S"
  proof (cases "unat l < 0xfffff000")
    case True
    moreover have "(4096 + unat l) div 4096 = Suc ?E" by simp
    ultimately have "unat (TARGET_PAGE_ALIGN (l + 1)) = Suc ?E * 4096" unfolding e by (simp del: mult_Suc)
    moreover from this SE have "unat b \<le> unat (TARGET_PAGE_ALIGN (l + 1))" unfolding b by simp
    ultimately show ?thesis
      using div_diff_mult [of "Suc ?E" ?S] by (simp add: n_def flip: b_def) (simp add: page_count_def page_of_nat unat_sub word_le_nat_alt b)
  next
    case False
    then have "(4096 + unat l) mod 4294967296 = unat l + 4096 - 4294967296" using u32_less [of l] by (simp add: le_mod_geq)
    then have z: "unat (TARGET_PAGE_ALIGN (l + 1)) = 0" unfolding e using u32_less [of l] by simp
    have "?E = 0xfffff" using False u32_less [of l] unfolding div_page by linarith
    moreover have S: "0 < ?S" using False le by (cases "unat start < 4096") auto
    moreover have "unat (TARGET_PAGE_ALIGN (l + 1) - b) = 0x100000 * 4096 - ?S * 4096"
      using z S by (simp add: unat_sub_if_size word_size word_le_nat_alt b)
    ultimately show ?thesis
      using div_diff_mult [of "0x100000" ?S] by (simp add: n_def flip: b_def) (simp add: page_count_def page_of_nat)
  qed
  from SE E show "n \<le> 2 ^ 20" "0 < n" using n by (simp; linarith)+
  have sub: "unat (a - b) = (if unat b \<le> unat a then unat a - unat b else unat a + 4294967296 - unat b)"
    by (simp add: unat_sub_if_size word_size word_le_nat_alt)
  have "a \<in> region b (4096 * n) \<longleftrightarrow> ?S \<le> unat a div 4096 \<and> unat a div 4096 \<le> ?E"
    unfolding region_def mem_Collect_eq sub b n using page_window [OF SE E u32_less [of a]] by simp
  then show "a \<in> region b (4096 * n) \<longleftrightarrow> page_of start \<le> page_of a \<and> page_of a \<le> page_of l"
    by (simp add: word_le_nat_alt page_of_nat)
qed

section \<open>Reading and setting the flags of a page\<close>

lemma page_find_eq: "page_find i s = (if l1_map s (fst (page_loc i)) = None then None else Some (page_loc i))"
  by (auto simp: page_find_def page_find_alloc_def page_loc_def split: option.splits)

lemma page_get_flags_desc: "page_get_flags s a = pd_flags (page_desc s (page_loc (page_of a)))"
  by (auto simp: page_get_flags_def page_find_eq page_desc_def blank_page_def)

lemma page_find_flags:
  "page_find (page_of a) s = Some p \<Longrightarrow> pd_flags (page_desc s p) = page_get_flags s a \<and> p = page_loc (page_of a)"
  by (auto simp: page_find_eq page_get_flags_desc split: if_splits)

lemma page_desc_host [simp]: "page_desc (s\<lparr>host_log := l\<rparr>) p = page_desc s p" "page_desc (s\<lparr>mmap_lock_count := k\<rparr>) p = page_desc s p"
  by (simp_all add: page_desc_def)

lemma page_find_alloc_desc:
  assumes "page_find_alloc i True s = Inr (p, s')"
  shows "p = Some (page_loc i)" "l1_map s' (fst (page_loc i)) \<noteq> None" "page_desc s' = page_desc s"
  using assms by (auto simp: page_find_alloc_def page_loc_def host_def page_desc_def fun_eq_iff Let_def split: option.splits if_splits)

lemma set_page_flags_desc:
  assumes "l1_map s (fst p) \<noteq> None"
  shows "page_desc (set_page_flags p f s) = (page_desc s)(p := (page_desc s p)\<lparr>pd_flags := f\<rparr>)"
  using assms by (cases p) (auto simp: set_page_flags_def page_desc_def fun_eq_iff)

text \<open>
  The descriptors the program keeps: no page lists a block (nothing sets \<^verbatim>\<open>first_tb\<close>), and a page that was
  writable still is.
\<close>

definition flags_ok :: "u32 \<Rightarrow> bool" where
  "flags_ok f \<longleftrightarrow> (f AND PAGE_WRITE_ORG \<noteq> 0 \<longrightarrow> f AND PAGE_WRITE \<noteq> 0)"

definition page_ok :: "vm_state \<Rightarrow> bool" where
  "page_ok s \<longleftrightarrow> (\<forall>p. first_tb (page_desc s p) = None \<and> flags_ok (pd_flags (page_desc s p)))"

lemma page_okD: "page_ok s \<Longrightarrow> first_tb (page_desc s p) = None" "page_ok s \<Longrightarrow> flags_ok (page_get_flags s a)"
  unfolding page_ok_def page_get_flags_desc by blast+

lemma page_ok_set:
  assumes "page_ok s" "flags_ok f" "page_desc s' = (page_desc s)(p := (page_desc s p)\<lparr>pd_flags := f\<rparr>)"
  shows "page_ok s'"
proof -
  have "first_tb (page_desc s' q) = None \<and> flags_ok (pd_flags (page_desc s' q))" for q
    unfolding assms(3) using assms(1) [unfolded page_ok_def, rule_format, of q] assms(2) by (cases "q = p") simp_all
  then show ?thesis unfolding page_ok_def by blast
qed

definition keeps_flags :: "vm_state \<Rightarrow> vm_state \<Rightarrow> bool" where
  "keeps_flags s s' \<longleftrightarrow> qemu_host_page_size s' = qemu_host_page_size s \<and> qemu_host_page_mask s' = qemu_host_page_mask s \<and>
     qemu_real_host_page_size s' = qemu_real_host_page_size s \<and> mmap_lock_count s' = mmap_lock_count s \<and> answer s' = answer s \<and>
     guest_base s' = guest_base s \<and> reserved_va s' = reserved_va s \<and> mmap_min_addr s' = mmap_min_addr s \<and>
     mmap_next_start s' = mmap_next_start s \<and> errno s' = errno s"

text \<open>The kernel does not run out of memory for page tables.\<close>

definition host_memory :: "vm_state \<Rightarrow> bool" where
  "host_memory s \<longleftrightarrow> (\<forall>log. answer s (Host_mmap 0 0x4000 3 0x22 (- 1) 0 # log) \<noteq> MAP_FAILED)"

lemma page_find_alloc_total:
  assumes "host_memory s"
  shows "\<exists>p s'. page_find_alloc i True s = Inr (p, s')"
proof (cases "l1_map s (fst (page_loc i))")
  case None
  then show ?thesis using assms by (cases "page_loc i") (simp add: page_find_alloc_def host_def host_memory_def)
next
  case (Some t)
  then show ?thesis by (cases "page_loc i") (simp add: page_find_alloc_def)
qed

lemma set_flags_step:
  assumes "page_ok s"
  shows "set_flags_loop (Suc n) addr flags s =
     and_then (page_find_alloc (page_of addr) True s) (\<lambda>(p, s). set_flags_loop n (addr + TARGET_PAGE_SIZE) flags (set_page_flags (page_loc (page_of addr)) flags s))"
proof (cases "page_find_alloc (page_of addr) True s")
  case (Inr r)
  obtain p s1 where r: "r = (p, s1)" by (cases r)
  note d = page_find_alloc_desc [OF Inr [unfolded r]]
  have "first_tb (page_desc s1 (page_loc (page_of addr))) = None" using assms by (simp add: page_okD d(3))
  with Inr show ?thesis by (simp add: r d(1))
qed simp

lemma aligned_next: "aligned addr \<Longrightarrow> aligned (addr + TARGET_PAGE_SIZE)"
  by (simp add: aligned_nat unat_word_ariths mod_mod_cancel)

lemma next_pages:
  assumes "Suc n \<le> 2 ^ 20"
  shows "a \<in> region addr (4096 * Suc n) \<longleftrightarrow> a \<in> region addr 4096 \<or> a \<in> region (addr + TARGET_PAGE_SIZE) (4096 * n)"
proof -
  have "unat (x - 0x1000) = (if 4096 \<le> unat x then unat x - 4096 else unat x + 4294967296 - 4096)" for x :: u32
    by (simp add: unat_sub_if_size word_size word_le_nat_alt)
  from this [of "a - addr"] show ?thesis using assms by (auto simp: region_def diff_diff_eq)
qed

lemma set_flags_loop_spec:
  assumes "page_ok s" "flags_ok flags" "aligned addr" "n \<le> 2 ^ 20" "set_flags_loop n addr flags s = Inr s'"
  shows "page_ok s' \<and> keeps_flags s s' \<and>
     (\<forall>a. page_get_flags s' a = (if a \<in> region addr (4096 * n) then flags else page_get_flags s a))"
  using assms
proof (induction n arbitrary: addr s)
  case 0
  then show ?case by (simp add: keeps_flags_def)
next
  case (Suc n)
  from Suc.prems(5) obtain p s1 where r: "page_find_alloc (page_of addr) True s = Inr (p, s1)"
    "set_flags_loop n (addr + TARGET_PAGE_SIZE) flags (set_page_flags (page_loc (page_of addr)) flags s1) = Inr s'"
    unfolding set_flags_step [OF Suc.prems(1)] by auto
  let ?s2 = "set_page_flags (page_loc (page_of addr)) flags s1"
  note d = page_find_alloc_desc [OF r(1)]
  have desc: "page_desc ?s2 = (page_desc s)(page_loc (page_of addr) := (page_desc s (page_loc (page_of addr)))\<lparr>pd_flags := flags\<rparr>)"
    using set_page_flags_desc [OF d(2)] by (simp add: d(3))
  have ok: "page_ok ?s2" by (rule page_ok_set [OF Suc.prems(1,2) desc])
  have k: "keeps_flags s ?s2"
    using r(1) by (auto simp: keeps_flags_def set_page_flags_def page_find_alloc_def host_def Let_def split: option.splits if_splits prod.splits)
  note al = aligned_next [OF Suc.prems(3)]
  have get: "page_get_flags ?s2 a = (if a \<in> region addr 4096 then flags else page_get_flags s a)" for a
    using page_loc_inj [of a addr] same_page [OF Suc.prems(3), of a] by (auto simp: page_get_flags_desc desc)
  from Suc.IH [OF ok Suc.prems(2) al _ r(2)] Suc.prems(4) k get next_pages [OF Suc.prems(4)] show ?case
    by (auto simp: keeps_flags_def)
qed

lemma set_flags_loop_total:
  assumes "page_ok s" "flags_ok flags" "host_memory s"
  shows "\<exists>s'. set_flags_loop n addr flags s = Inr s'"
  using assms
proof (induction n arbitrary: addr s)
  case (Suc n)
  obtain p s1 where r: "page_find_alloc (page_of addr) True s = Inr (p, s1)"
    using page_find_alloc_total [OF Suc.prems(3)] by blast
  note d = page_find_alloc_desc [OF r]
  have "host_memory (set_page_flags (page_loc (page_of addr)) flags s1)"
    using r Suc.prems(3) by (auto simp: host_memory_def set_page_flags_def page_find_alloc_def host_def Let_def split: option.splits if_splits prod.splits)
  moreover have "page_ok (set_page_flags (page_loc (page_of addr)) flags s1)"
    by (rule page_ok_set [OF Suc.prems(1,2)]) (simp add: set_page_flags_desc [OF d(2)] d(3))
  ultimately show ?case using Suc.IH [OF _ Suc.prems(2)] r unfolding set_flags_step [OF Suc.prems(1)] by simp
qed simp

section \<open>The operations\<close>

definition whole_space :: "u32 \<Rightarrow> u32 \<Rightarrow> bool" where
  "whole_space start l \<longleftrightarrow> page_of start = 0 \<and> page_of l = 0xfffff"

lemma whole_space_iff: "whole_space start l \<longleftrightarrow> start < TARGET_PAGE_SIZE \<and> TARGET_PAGE_MASK \<le> l"
proof -
  have "unat start div 4096 = 0 \<longleftrightarrow> unat start < 4096" by (simp add: div_eq_0_iff)
  moreover have "unat l div 4096 = 0xfffff \<longleftrightarrow> 0xfffff000 \<le> unat l" using u32_less [of l] unfolding div_page by linarith
  ultimately show ?thesis
    by (simp add: whole_space_def word_unat_eq_iff page_of_nat word_less_nat_alt word_le_nat_alt)
qed

lemma small_not_whole:
  assumes "len \<noteq> 0" "unat len \<le> 4096"
  shows "\<not> whole_space start (start + len - 1)"
proof
  assume w: "whole_space start (start + len - 1)"
  have l: "unat (len - 1) = unat len - 1" using assms(1) by (simp add: unat_minus_one)
  have "unat start < 4096" "4294963200 \<le> unat (start + len - 1)"
    using w unfolding whole_space_iff by (simp_all add: word_less_nat_alt word_le_nat_alt)
  moreover have "unat (start + (len - 1)) < 8192" using assms calculation(1) by (simp add: unat_word_ariths l)
  ultimately show False by (simp add: add_diff_eq)
qed

definition stored_flags :: "u32 \<Rightarrow> u32" where
  "stored_flags flags = (if flags AND PAGE_WRITE \<noteq> 0 then flags OR PAGE_WRITE_ORG else flags)"

lemma and_bit_iff: "w AND 0x10 \<noteq> 0 \<longleftrightarrow> bit w 4" "w AND 2 \<noteq> 0 \<longleftrightarrow> bit w 1" for w :: u32
proof -
  have "w AND push_bit n 1 \<noteq> 0 \<longleftrightarrow> bit w n" for n
    by (simp add: bit_iff_and_push_bit_not_eq_0)
  from this [of 4] this [of 1] show "w AND 0x10 \<noteq> 0 \<longleftrightarrow> bit w 4" "w AND 2 \<noteq> 0 \<longleftrightarrow> bit w 1" by simp_all
qed

lemma stored_flags_ok: "flags_ok f \<Longrightarrow> flags_ok (stored_flags f)"
  unfolding flags_ok_def stored_flags_def and_bit_iff by (auto simp: bit_simps)

lemma page_set_flags_spec:
  assumes "page_ok s" "flags_ok flags" "start < end" "\<not> whole_space start (end - 1)" "page_set_flags start end flags s = Inr s'"
  shows "page_ok s' \<and> keeps_flags s s' \<and> (\<forall>a. page_get_flags s' a =
     (if page_of start \<le> page_of a \<and> page_of a \<le> page_of (end - 1) then stored_flags flags else page_get_flags s a))"
proof -
  have le: "start \<le> end - 1" using assms(3) unat_minus_one [of "end"] by (cases "end = 0") (auto simp: word_less_nat_alt word_le_nat_alt)
  note area = page_area [OF le, unfolded diff_add_cancel, OF assms(4) [unfolded whole_space_iff]]
  from set_flags_loop_spec [OF assms(1) stored_flags_ok [OF assms(2)] area(1,2)] assms(3,5) area(5)
  show ?thesis by (simp add: page_set_flags_def Let_def flip: stored_flags_def)
qed

lemma page_set_flags_total:
  assumes "page_ok s" "flags_ok flags" "host_memory s" "start < end"
  shows "\<exists>s'. page_set_flags start end flags s = Inr s'"
  using set_flags_loop_total [OF assms(1) stored_flags_ok [OF assms(2)] assms(3)] assms(4)
  by (simp add: page_set_flags_def Let_def flip: stored_flags_def)

text \<open>\<^verbatim>\<open>page_unprotect\<close> finds nothing to do on such a table.\<close>

lemma page_unprotect_idle:
  assumes "page_ok s"
  shows "page_unprotect a s = Inr (0, s)"
proof -
  have l: "mmap_unlock (mmap_lock s) = s" by (simp add: mmap_lock_def mmap_unlock_def)
  have f: "page_get_flags (mmap_lock s) a = page_get_flags s a" by (simp add: page_get_flags_desc mmap_lock_def)
  show ?thesis
    using page_okD(2) [OF assms, of a] page_find_flags [of a "mmap_lock s"]
    by (auto simp: page_unprotect_def Let_def l f flags_ok_def split: option.split)
qed

definition page_allows :: "u32 \<Rightarrow> u32 \<Rightarrow> bool" where
  "page_allows flags f \<longleftrightarrow> f AND PAGE_VALID \<noteq> 0 \<and> (flags AND PAGE_READ \<noteq> 0 \<longrightarrow> f AND PAGE_READ \<noteq> 0) \<and>
     (flags AND PAGE_WRITE \<noteq> 0 \<longrightarrow> f AND PAGE_WRITE_ORG \<noteq> 0)"

lemma check_range_step:
  assumes "page_ok s"
  shows "check_range_loop (Suc n) addr flags s =
     (if \<not> page_allows flags (page_get_flags s addr) then Inr (- 1, s)
      else if flags AND PAGE_WRITE \<noteq> 0 then Inr (0, s) else check_range_loop n (addr + TARGET_PAGE_SIZE) flags s)"
proof (cases "page_find (page_of addr) s")
  case None
  then have "page_get_flags s addr = 0" by (simp add: page_get_flags_def)
  then show ?thesis using None by (simp add: page_allows_def)
next
  case (Some p)
  have "page_get_flags s addr AND PAGE_WRITE_ORG = 0 \<or> page_get_flags s addr AND PAGE_WRITE \<noteq> 0"
    using page_okD(2) [OF assms, of addr] by (auto simp: flags_ok_def)
  with Some page_find_flags [OF Some] show ?thesis by (auto simp: page_allows_def Let_def)
qed

lemma check_range_loop_spec:
  assumes "page_ok s" "flags AND PAGE_WRITE = 0" "aligned addr" "n \<le> 2 ^ 20"
  shows "check_range_loop n addr flags s =
     Inr (if \<forall>a\<in>region addr (4096 * n). page_allows flags (page_get_flags s a) then 0 else - 1, s)"
  using assms(3,4)
proof (induction n arbitrary: addr)
  case (Suc n)
  have "page_get_flags s a = page_get_flags s addr" if "a \<in> region addr 4096" for a
    using that unfolding page_get_flags_desc same_page [OF Suc.prems(1), symmetric] by simp
  moreover have "addr \<in> region addr 4096" by simp
  ultimately have "(\<forall>a\<in>region addr 4096. page_allows flags (page_get_flags s a)) \<longleftrightarrow> page_allows flags (page_get_flags s addr)"
    by metis
  then have "(\<forall>a\<in>region addr (4096 * Suc n). page_allows flags (page_get_flags s a)) \<longleftrightarrow>
     page_allows flags (page_get_flags s addr) \<and> (\<forall>a\<in>region (addr + TARGET_PAGE_SIZE) (4096 * n). page_allows flags (page_get_flags s a))"
    unfolding Ball_def next_pages [OF Suc.prems(2)] by blast
  moreover have "n \<le> 2 ^ 20" using Suc.prems(2) by simp
  ultimately show ?case
    unfolding check_range_step [OF assms(1)] using assms(2) Suc.IH [OF aligned_next [OF Suc.prems(1)]] by simp
qed simp

lemma page_check_range_spec:
  assumes "page_ok s" "\<not> whole_space start (start + len - 1)"
  shows "page_check_range start len flags s =
     Inr (if len = 0 then 0 else if start + len - 1 < start then - 1
          else if flags AND PAGE_WRITE \<noteq> 0 then (if page_allows flags (page_get_flags s start) then 0 else - 1)
          else if \<forall>a. page_of start \<le> page_of a \<and> page_of a \<le> page_of (start + len - 1) \<longrightarrow> page_allows flags (page_get_flags s a)
          then 0 else - 1, s)"
proof (cases "len = 0 \<or> start + len - 1 < start")
  case False
  then have le: "start \<le> start + len - 1" by auto
  note area = page_area [OF le, unfolded diff_add_cancel, OF assms(2) [unfolded whole_space_iff]]
  show ?thesis
  proof (cases "flags AND PAGE_WRITE = 0")
    case True
    with False check_range_loop_spec [OF assms(1) True area(1,2)] area(5) show ?thesis
      by (auto simp: page_check_range_def Let_def)
  next
    case w: False
    obtain n where n: "page_count (start AND TARGET_PAGE_MASK) (TARGET_PAGE_ALIGN (start + len)) = Suc n" using area(3) gr0_conv_Suc by blast
    have "page_get_flags s (start AND TARGET_PAGE_MASK) = page_get_flags s start" unfolding page_get_flags_desc area(4) ..
    with False w n show ?thesis
      by (simp add: page_check_range_def Let_def check_range_step [OF assms(1)] del: check_range_loop.simps)
  qed
qed (auto simp: page_check_range_def)

section \<open>The interface for the mapping calls\<close>

text \<open>
  What the mapping calls use of the table: setting the flags of an area and reading those of an address.
\<close>

locale page_flags =
  fixes ok :: "'s \<Rightarrow> bool" and get :: "'s \<Rightarrow> u32 \<Rightarrow> u32" and upd :: "u32 \<Rightarrow> u32 \<Rightarrow> u32 \<Rightarrow> 's \<Rightarrow> 's outcome"
  assumes upd_ok: "ok s \<Longrightarrow> flags_ok f \<Longrightarrow> start < end \<Longrightarrow> \<not> whole_space start (end - 1) \<Longrightarrow> upd start end f s = Inr s' \<Longrightarrow> ok s'"
    and upd_get: "ok s \<Longrightarrow> flags_ok f \<Longrightarrow> start < end \<Longrightarrow> \<not> whole_space start (end - 1) \<Longrightarrow> upd start end f s = Inr s' \<Longrightarrow>
      get s' a = (if page_of start \<le> page_of a \<and> page_of a \<le> page_of (end - 1) then stored_flags f else get s a)"
begin

text \<open>Unmapping one area and mapping another, which may overlap.\<close>

lemma move:
  assumes "ok s" "flags_ok f" "old < old'" "\<not> whole_space old (old' - 1)" "upd old old' 0 s = Inr s1"
    and "new < new'" "\<not> whole_space new (new' - 1)" "upd new new' f s1 = Inr s2"
  shows "ok s2" "get s2 a = (if page_of new \<le> page_of a \<and> page_of a \<le> page_of (new' - 1) then stored_flags f
     else if page_of old \<le> page_of a \<and> page_of a \<le> page_of (old' - 1) then 0 else get s a)"
proof -
  have z: "flags_ok 0" "stored_flags 0 = 0" by (simp_all add: flags_ok_def stored_flags_def)
  note s1 = upd_ok [OF assms(1) z(1) assms(3-5)]
  show "ok s2" by (rule upd_ok [OF s1 assms(2,6-8)])
  show "get s2 a = (if page_of new \<le> page_of a \<and> page_of a \<le> page_of (new' - 1) then stored_flags f
     else if page_of old \<le> page_of a \<and> page_of a \<le> page_of (old' - 1) then 0 else get s a)"
    using upd_get [OF s1 assms(2,6-8), of a] upd_get [OF assms(1) z(1) assms(3-5), of a] z(2) by simp
qed

end

interpretation guest_pages: page_flags page_ok page_get_flags page_set_flags
  by unfold_locales (use page_set_flags_spec in auto)

section \<open>Access for the debugger\<close>

abbreviation (input) "VERIFY_READ \<equiv> 0 :: u32"
abbreviation (input) "VERIFY_WRITE \<equiv> 1 :: u32"

definition access_ok :: "u32 \<Rightarrow> u32 \<Rightarrow> u32 \<Rightarrow> vm_state \<Rightarrow> (bool \<times> vm_state) outcome" where
  "access_ok type addr sz s =
     and_then (page_check_range addr sz (if type = VERIFY_READ then PAGE_READ else PAGE_READ OR PAGE_WRITE) s)
       (\<lambda>(r, s). Inr (r = 0, s))"

text \<open>\<^verbatim>\<open>lock_user\<close> without \<^verbatim>\<open>DEBUG_REMAP\<close>: the host address of the guest's data, or null.\<close>

definition lock_user :: "u32 \<Rightarrow> u32 \<Rightarrow> u32 \<Rightarrow> vm_state \<Rightarrow> (u32 \<times> vm_state) outcome" where
  "lock_user type guest_addr len s =
     and_then (access_ok type guest_addr len s) (\<lambda>(ok, s). Inr (if ok then guest_addr + guest_base s else 0, s))"

definition chunk :: "u32 \<Rightarrow> nat \<Rightarrow> nat" where
  "chunk addr len = min (unat ((addr AND TARGET_PAGE_MASK) + TARGET_PAGE_SIZE - addr)) len"

lemma page_rest: "unat ((addr AND TARGET_PAGE_MASK) + TARGET_PAGE_SIZE - addr) = 4096 - unat addr mod 4096"
proof -
  have "addr = (addr AND TARGET_PAGE_MASK) + of_nat (unat addr mod 4096)"
  proof -
    have "of_nat (unat addr) = (of_nat (unat addr div 4096 * 4096 + unat addr mod 4096) :: u32)" by simp
    then show ?thesis by (simp add: mask_nat [symmetric] del: div_mult_mod_eq)
  qed
  then have "(addr AND TARGET_PAGE_MASK) + TARGET_PAGE_SIZE - addr = 0x1000 - of_nat (unat addr mod 4096)"
    by (metis add_diff_cancel_left)
  also have "\<dots> = of_nat (4096 - unat addr mod 4096)" by (simp add: of_nat_diff)
  finally have eq: "(addr AND TARGET_PAGE_MASK) + TARGET_PAGE_SIZE - addr = of_nat (4096 - unat addr mod 4096)" .
  show ?thesis unfolding eq by (rule unat_of_nat_u32) simp
qed

lemma chunk_pos: "0 < n \<Longrightarrow> 0 < chunk addr n"
  by (simp add: chunk_def page_rest)

text \<open>
  \<^verbatim>\<open>cpu_memory_rw_debug\<close>: the buffer and the host's memory afterwards.  The buffer has \<^verbatim>\<open>len\<close> bytes.
\<close>

function cpu_memory_rw_debug :: "bool \<Rightarrow> u32 \<Rightarrow> u8 list \<Rightarrow> memory \<Rightarrow> vm_state \<Rightarrow> (int \<times> u8 list \<times> memory \<times> vm_state) outcome" where
  "cpu_memory_rw_debug is_write addr buf m s =
     (if buf = [] then Inr (0, [], m, s)
      else (let page = addr AND TARGET_PAGE_MASK;
                l = chunk addr (length buf);
                flags = page_get_flags s page
            in if flags AND PAGE_VALID = 0 then Inr (- 1, buf, m, s)
               else if flags AND (if is_write then PAGE_WRITE else PAGE_READ) = 0 then Inr (- 1, buf, m, s)
               else and_then (lock_user (if is_write then VERIFY_WRITE else VERIFY_READ) addr (of_nat l) s) (\<lambda>(p, s).
                 if p = 0 then Inr (- 1, buf, m, s)
                 else (let here = (if is_write then take l buf else read_bytes m p l);
                           m = (if is_write then write_bytes m p (take l buf) else m)
                       in and_then (cpu_memory_rw_debug is_write (addr + of_nat l) (drop l buf) m s)
                            (\<lambda>(r, rest, m, s). Inr (r, here @ rest, m, s))))))"
  by pat_completeness auto
termination
  by (relation "measure (\<lambda>(_, _, buf, _, _). length buf)") (auto simp: chunk_pos)

declare cpu_memory_rw_debug.simps [simp del]

definition debug_ok :: "bool \<Rightarrow> u32 \<Rightarrow> bool" where
  "debug_ok is_write f \<longleftrightarrow> page_allows (if is_write then 3 else 1) f \<and> f AND (if is_write then PAGE_WRITE else PAGE_READ) \<noteq> 0"

lemma chunk_page:
  assumes "i < chunk addr n"
  shows "page_of (addr + of_nat i) = page_of addr"
proof -
  have i: "i < 4096 - unat addr mod 4096" using assms by (simp add: chunk_def page_rest)
  have "unat addr + i < 4294967296"
  proof -
    have "unat addr div 4096 < 0x100000" using u32_less [of addr] by (simp add: div_less_iff_less_mult)
    then show ?thesis using i div_mult_mod_eq [of "unat addr" 4096] by linarith
  qed
  then have "unat (addr + of_nat i) = unat addr + i" by (simp add: unat_word_ariths unat_of_nat)
  moreover have "(unat addr + i) div 4096 = unat addr div 4096"
    using i div_mult_mod_eq [of "unat addr" 4096] unfolding div_page by linarith
  ultimately show ?thesis by (simp add: word_unat_eq_iff page_of_nat)
qed

lemma lock_user_chunk:
  assumes "page_ok s" "0 < n" "l = chunk addr n"
  shows "lock_user type addr (of_nat l) s =
     Inr (if page_allows (if type = VERIFY_READ then 1 else 3) (page_get_flags s addr) then addr + guest_base s else 0, s)"
proof -
  have l: "0 < l" "l \<le> 4096" using assms chunk_pos [of n addr] by (auto simp: chunk_def page_rest)
  then have nz: "of_nat l \<noteq> (0 :: u32)" using unat_of_nat_u32 [of l] by auto
  have last: "addr + of_nat l - 1 = addr + of_nat (l - 1)" using l by (simp add: of_nat_diff)
  have pg: "page_of (addr + of_nat l - 1) = page_of addr" unfolding last using l assms(3) by (intro chunk_page [of _ _ n]) simp
  have w: "\<not> whole_space addr (addr + of_nat l - 1)" unfolding whole_space_def pg by auto
  have ge: "\<not> addr + of_nat l - 1 < addr"
  proof -
    have "l \<le> 4096 - unat addr mod 4096" using assms(3) by (simp add: chunk_def page_rest)
    then have "l - 1 < 4096 - unat addr mod 4096" using l(1) by linarith
    moreover have "unat addr div 4096 < 0x100000" using u32_less [of addr] by (simp add: div_less_iff_less_mult)
    ultimately have "unat addr + (l - 1) < 4294967296" using div_mult_mod_eq [of "unat addr" 4096] by linarith
    then show ?thesis unfolding last by (simp add: word_less_nat_alt unat_word_ariths unat_of_nat)
  qed
  have all: "(\<forall>a. page_of addr \<le> page_of a \<and> page_of a \<le> page_of addr \<longrightarrow> page_allows f (page_get_flags s a)) \<longleftrightarrow>
    page_allows f (page_get_flags s addr)" for f by (auto simp: page_get_flags_desc)
  show ?thesis
    using nz ge by (simp add: lock_user_def access_ok_def page_check_range_spec [OF assms(1) w] pg all del: word_less_sub1)
qed

lemma debug_step:
  assumes "page_ok s" "buf \<noteq> []"
  shows "cpu_memory_rw_debug w addr buf m s =
     (let l = chunk addr (length buf) in
      if debug_ok w (page_get_flags s addr) \<and> addr + guest_base s \<noteq> 0
      then and_then (cpu_memory_rw_debug w (addr + of_nat l) (drop l buf)
             (if w then write_bytes m (addr + guest_base s) (take l buf) else m) s)
           (\<lambda>(r, rest, m', s'). Inr (r, (if w then take l buf else read_bytes m (addr + guest_base s) l) @ rest, m', s'))
      else Inr (- 1, buf, m, s))"
proof -
  have "page_get_flags s (addr AND TARGET_PAGE_MASK) = page_get_flags s addr"
  proof -
    have "page_of (addr AND TARGET_PAGE_MASK) = page_of addr" unfolding word_unat_eq_iff page_of_nat mask_nat by simp
    then show ?thesis unfolding page_get_flags_desc by (rule arg_cong)
  qed
  then show ?thesis
    using assms(2) lock_user_chunk [OF assms(1), of "length buf" _ addr]
    by (subst cpu_memory_rw_debug.simps) (auto simp: Let_def debug_ok_def page_allows_def)
qed

lemma read_bytes_add: "read_bytes m p (a + b) = read_bytes m p a @ read_bytes m (p + of_nat a) b"
  by (induction a arbitrary: p) (simp_all add: add.assoc)

lemma debug_transfer:
  assumes "page_ok s" "length buf \<le> 2 ^ 32" "\<forall>a\<in>region addr (length buf). debug_ok w (page_get_flags s a) \<and> a + guest_base s \<noteq> 0"
  shows "cpu_memory_rw_debug w addr buf m s =
     Inr (0, if w then buf else read_bytes m (addr + guest_base s) (length buf), if w then write_bytes m (addr + guest_base s) buf else m, s)"
  using assms(2,3)
proof (induction "length buf" arbitrary: addr buf m rule: less_induct)
  case less
  show ?case
  proof (cases "buf = []")
    case True
    then show ?thesis by (simp add: cpu_memory_rw_debug.simps)
  next
    case False
    let ?l = "chunk addr (length buf)"
    have l: "0 < ?l" "?l \<le> length buf" using False chunk_pos by (auto simp: chunk_def)
    have ok: "debug_ok w (page_get_flags s addr)" "addr + guest_base s \<noteq> 0" using less.prems(2) False by simp_all
    have sub: "region (addr + of_nat ?l) (length (drop ?l buf)) \<subseteq> region addr (length buf)"
      using region_shift [of addr ?l "length buf - ?l"] l by simp
    have IH: "cpu_memory_rw_debug w (addr + of_nat ?l) (drop ?l buf) m1 s =
       Inr (0, if w then drop ?l buf else read_bytes m1 (addr + of_nat ?l + guest_base s) (length (drop ?l buf)),
         if w then write_bytes m1 (addr + of_nat ?l + guest_base s) (drop ?l buf) else m1, s)" for m1
      using l less.prems sub by (intro less.hyps) auto
    have sw: "addr + of_nat ?l + guest_base s = addr + guest_base s + of_nat ?l" by simp
    have wr: "write_bytes (write_bytes m (addr + guest_base s) (take ?l buf)) (addr + guest_base s + of_nat ?l) (drop ?l buf) = write_bytes m (addr + guest_base s) buf"
      using write_bytes_append [of m "addr + guest_base s" "take ?l buf" "drop ?l buf"] l by (simp add: min_absorb2)
    have rd: "read_bytes m (addr + guest_base s) ?l @ read_bytes m (addr + guest_base s + of_nat ?l) (length (drop ?l buf)) = read_bytes m (addr + guest_base s) (length buf)"
      using read_bytes_add [of m "addr + guest_base s" ?l "length buf - ?l"] l by simp
    show ?thesis
      unfolding debug_step [OF assms(1) False] Let_def IH using ok rd wr unfolding sw by simp
  qed
qed

section \<open>Walking the regions\<close>

record walk_memory_regions_data =
  wd_start :: u32
  wd_prot :: u32

text \<open>
  The callback \<open>fn\<close> takes what \<^verbatim>\<open>priv\<close> points to and returns it updated.
\<close>

type_synonym 'p walk_fn = "'p \<Rightarrow> u32 \<Rightarrow> u32 \<Rightarrow> u32 \<Rightarrow> int \<times> 'p"

definition walk_memory_regions_end ::
  "'p walk_fn \<Rightarrow> u32 \<Rightarrow> u32 \<Rightarrow> walk_memory_regions_data \<times> 'p \<Rightarrow> int \<times> walk_memory_regions_data \<times> 'p" where
  "walk_memory_regions_end fn end new_prot d =
     (let (data, priv) = d;
          (rc, priv) = (if wd_start data \<noteq> - 1 then fn priv (wd_start data) end (wd_prot data) else (0, priv))
      in if rc \<noteq> 0 then (rc, data, priv)
         else (0, \<lparr>wd_start = (if new_prot \<noteq> 0 then end else - 1), wd_prot = new_prot\<rparr>, priv))"

text \<open>The loops of \<^verbatim>\<open>walk_memory_regions_1\<close> at level zero and of \<^verbatim>\<open>walk_memory_regions\<close>, over a list of indices.\<close>

fun walk_table :: "'p walk_fn \<Rightarrow> (nat \<Rightarrow> PageDesc) \<Rightarrow> u32 \<Rightarrow> nat list \<Rightarrow> walk_memory_regions_data \<times> 'p \<Rightarrow> int \<times> walk_memory_regions_data \<times> 'p" where
  "walk_table fn pd base [] d = (0, d)"
| "walk_table fn pd base (i # is) d =
     (let prot = pd_flags (pd i);
          pa = base OR push_bit 12 (of_nat i);
          (rc, d) = (if prot \<noteq> wd_prot (fst d) then walk_memory_regions_end fn pa prot d else (0, d))
      in if rc \<noteq> 0 then (rc, d) else walk_table fn pd base is d)"

definition walk_memory_regions_1 ::
  "'p walk_fn \<Rightarrow> (nat \<Rightarrow> PageDesc) option \<Rightarrow> u32 \<Rightarrow> walk_memory_regions_data \<times> 'p \<Rightarrow> int \<times> walk_memory_regions_data \<times> 'p" where
  "walk_memory_regions_1 fn lp base d =
     (case lp of None \<Rightarrow> walk_memory_regions_end fn base 0 d | Some pd \<Rightarrow> walk_table fn pd base [0..<1024] d)"

fun walk_l1 :: "'p walk_fn \<Rightarrow> vm_state \<Rightarrow> nat list \<Rightarrow> walk_memory_regions_data \<times> 'p \<Rightarrow> int \<times> walk_memory_regions_data \<times> 'p" where
  "walk_l1 fn s [] d = (0, d)"
| "walk_l1 fn s (i # is) d =
     (let (rc, d) = walk_memory_regions_1 fn (l1_map s i) (push_bit 10 (of_nat i)) d
      in if rc \<noteq> 0 then (rc, d) else walk_l1 fn s is d)"

definition walk_memory_regions :: "'p walk_fn \<Rightarrow> vm_state \<Rightarrow> 'p \<Rightarrow> int \<times> 'p" where
  "walk_memory_regions fn s priv =
     (let (rc, d) = walk_l1 fn s [0..<1024] (\<lparr>wd_start = - 1, wd_prot = 0\<rparr>, priv)
      in if rc \<noteq> 0 then (rc, snd d) else (let (rc, d) = walk_memory_regions_end fn 0 0 d in (rc, snd d)))"

text \<open>\<^verbatim>\<open>page_dump\<close> prints the regions; here they are collected.\<close>

definition dump_region :: "(u32 \<times> u32 \<times> u32) list walk_fn" where
  "dump_region f start end prot = (0, f @ [(start, end, prot)])"

definition page_dump :: "vm_state \<Rightarrow> (u32 \<times> u32 \<times> u32) list" where
  "page_dump s = snd (walk_memory_regions dump_region s [])"

abbreviation idle :: walk_memory_regions_data where "idle \<equiv> \<lparr>wd_start = - 1, wd_prot = 0\<rparr>"

lemma walk_table_append:
  "walk_table fn pd base (is @ js) d = (let (rc, d) = walk_table fn pd base is d in if rc \<noteq> 0 then (rc, d) else walk_table fn pd base js d)"
  by (induction "is" arbitrary: d) (simp_all add: Let_def split: prod.split)

lemma walk_l1_append:
  "walk_l1 fn s (is @ js) d = (let (rc, d) = walk_l1 fn s is d in if rc \<noteq> 0 then (rc, d) else walk_l1 fn s js d)"
  by (induction "is" arbitrary: d) (simp_all add: Let_def split: prod.split)

lemma walk_table_skip: "\<forall>i\<in>set is. pd_flags (pd i) = wd_prot (fst d) \<Longrightarrow> walk_table fn pd base is d = (0, d)"
  by (induction "is") simp_all

lemma walk_l1_skip:
  "\<forall>i\<in>set is. \<forall>pd. l1_map s i = Some pd \<longrightarrow> (\<forall>j<1024. pd_flags (pd j) = 0) \<Longrightarrow> walk_l1 fn s is (idle, p) = (0, idle, p)"
proof (induction "is")
  case (Cons i "is")
  have "walk_memory_regions_1 fn (l1_map s i) base (idle, p) = (0, idle, p)" for base
  proof (cases "l1_map s i")
    case (Some pd)
    then show ?thesis using Cons.prems unfolding walk_memory_regions_1_def by (simp only: Some option.case, intro walk_table_skip) auto
  qed (simp add: walk_memory_regions_1_def walk_memory_regions_end_def)
  with Cons show ?case by simp
qed simp

lemma upt_split3: "j < n \<Longrightarrow> [0..<n] = [0..<j] @ j # [Suc j..<n]"
  using upt_add_eq_append [of 0 j "n - j"] by (simp add: upt_conv_Cons)

lemma upt_split4: "Suc j < n \<Longrightarrow> [0..<n] = [0..<j] @ j # Suc j # [Suc (Suc j)..<n]"
  using upt_split3 [of j n] by (simp add: upt_conv_Cons)

lemma walk_single:
  assumes "i < 1024" "Suc j < 1024" "f \<noteq> 0" "push_bit 10 (of_nat i) OR push_bit 12 (of_nat j) \<noteq> (- 1 :: u32)"
    and "\<And>i' j'. i' < 1024 \<Longrightarrow> j' < 1024 \<Longrightarrow> pd_flags (page_desc s (i', j')) = (if (i', j') = (i, j) then f else 0)"
  shows "page_dump s = [(push_bit 10 (of_nat i) OR push_bit 12 (of_nat j), push_bit 10 (of_nat i) OR push_bit 12 (of_nat (Suc j)), f)]"
proof -
  obtain pd where pd: "l1_map s i = Some pd"
    using assms(1-3) assms(5) [of i j] by (cases "l1_map s i") (auto simp: page_desc_def blank_page_def)
  have fl: "pd_flags (pd k) = (if k = j then f else 0)" if "k < 1024" for k
    using assms(1) assms(5) [of i k] that by (simp add: page_desc_def pd)
  have others: "pd_flags (t k) = 0" if "l1_map s i' = Some t" "i' \<noteq> i" "i' < 1024" "k < 1024" for i' t k
    using that assms(5) [of i' k] by (simp add: page_desc_def)
  let ?pa = "\<lambda>k. push_bit 10 (of_nat i) OR push_bit 12 (of_nat k) :: u32"
  have "walk_table dump_region pd (push_bit 10 (of_nat i)) [0..<1024] (idle, []) = (0, idle, [(?pa j, ?pa (Suc j), f)])"
    unfolding upt_split4 [OF assms(2)] walk_table_append
    using assms(2-4) by (simp add: walk_table_skip fl walk_memory_regions_end_def dump_region_def)
  then have "walk_memory_regions_1 dump_region (l1_map s i) (push_bit 10 (of_nat i)) (idle, []) = (0, idle, [(?pa j, ?pa (Suc j), f)])"
    unfolding walk_memory_regions_1_def pd option.case .
  then have "walk_l1 dump_region s [0..<1024] (idle, []) = (0, idle, [(?pa j, ?pa (Suc j), f)])"
    unfolding upt_split3 [OF assms(1)] walk_l1_append using assms(1) by (simp add: walk_l1_skip others)
  then show ?thesis unfolding page_dump_def walk_memory_regions_def by (simp add: walk_memory_regions_end_def del: upt_rec_numeral upt.simps)
qed


lemma page_loc_onto:
  assumes "i < 1024" "j < 1024"
  obtains b where "page_loc (page_of b) = (i, j)"
proof
  define n where "n = i * 1024 + j"
  have n: "n < 1048576" "n div 1024 = i" "n mod 1024 = j" using assms by (simp_all add: n_def)
  let ?x = "of_nat n :: u32"
  have x: "unat ?x = n" using n by (intro unat_of_nat_u32) simp
  then have "unat (push_bit 12 ?x) = n * 4096" using n by (simp add: push_bit_eq_mult unat_word_ariths mult.commute)
  then have "unat (page_of (push_bit 12 ?x)) = n" by (simp add: page_of_nat)
  then have pg: "page_of (push_bit 12 ?x) = ?x" using x by (metis word_unat_eq_iff)
  have mask: "(0x3ff :: u32) = mask 10" by (simp add: mask_eq_exp_minus_1)
  show "page_loc (page_of (push_bit 12 ?x)) = (i, j)"
    unfolding pg page_loc_def mask take_bit_eq_mask [symmetric] using assms x n by (simp add: take_bit_eq_mod drop_bit_eq_div unat_mod unat_div)
qed

section \<open>Properties\<close>

text \<open>
  C13: What \<^verbatim>\<open>page_get_flags\<close> returns after \<^verbatim>\<open>page_set_flags\<close>.  While the host has memory for page
  tables, setting the flags of an area succeeds; every page that the area touches then has the flags,
  with \<^verbatim>\<open>PAGE_WRITE_ORG\<close> for a writable one, and every other page the flags it had.  The area of all
  $2^{20}$ pages is the one exception: its length wraps to zero.
\<close>

theorem page_set_flags_get:
  assumes "page_ok s" "flags_ok flags" "host_memory s" "start < end" "\<not> whole_space start (end - 1)"
  shows "\<exists>s'. page_set_flags start end flags s = Inr s' \<and> page_ok s' \<and> (\<forall>a. page_get_flags s' a =
     (if page_of start \<le> page_of a \<and> page_of a \<le> page_of (end - 1) then stored_flags flags else page_get_flags s a))"
  using page_set_flags_total [OF assms(1-4)] page_set_flags_spec [OF assms(1,2,4,5)] by blast

definition demo_vm :: vm_state where
  "demo_vm = \<lparr>l1_map = (\<lambda>_. None), qemu_real_host_page_size = 0x1000, qemu_host_page_size = 0x1000, qemu_host_page_bits = 12,
     qemu_host_page_mask = 0xfffff000, guest_base = 0, reserved_va = 0, mmap_min_addr = 0x10000, mmap_next_start = 0x40000000,
     mmap_lock_count = 0, errno = 0, host_log = [], answer = (\<lambda>_. 0x50000000)\<rparr>"

lemma demo_vm_ok: "page_ok demo_vm" "host_memory demo_vm" "page_get_flags demo_vm a = 0"
  by (simp_all add: page_ok_def host_memory_def MAP_FAILED_def demo_vm_def page_desc_def blank_page_def flags_ok_def page_get_flags_desc)

theorem page_set_flags_get_witness:
  "\<exists>s'. page_set_flags 0x8048123 0x804a001 0xb demo_vm = Inr s' \<and>
     page_get_flags s' 0x8048000 = 0x1b \<and> page_get_flags s' 0x804afff = 0x1b \<and> page_get_flags s' 0x804b000 = 0"
  using page_set_flags_get [of demo_vm "0xb" "0x8048123" "0x804a001"] demo_vm_ok
  by (auto simp: flags_ok_def whole_space_def stored_flags_def)

lemma demo_pages:
  obtains s where "page_set_flags 0x8048000 0x804a000 0xb demo_vm = Inr s" "page_ok s" "guest_base s = 0"
    "\<And>a. page_get_flags s a = (if 0x8048 \<le> page_of a \<and> page_of a \<le> 0x8049 then 0x1b else 0)"
proof -
  have ok: "flags_ok 0xb" "\<not> whole_space 0x8048000 (0x804a000 - 1)" by (simp_all add: flags_ok_def whole_space_def)
  obtain s where s: "page_set_flags 0x8048000 0x804a000 0xb demo_vm = Inr s"
    using page_set_flags_total [OF demo_vm_ok(1) ok(1) demo_vm_ok(2), of "0x8048000" "0x804a000"] by auto
  note spec = page_set_flags_spec [OF demo_vm_ok(1) ok(1) _ ok(2) s]
  show thesis by (rule that [OF s]) (use spec in \<open>simp_all add: demo_vm_ok(3) stored_flags_def keeps_flags_def\<close>, simp add: demo_vm_def)
qed

text \<open>
  What \<^verbatim>\<open>page_check_range\<close> checks.  It never aborts and changes nothing.  For reading it answers 0
  exactly if every page of the range is valid and readable as asked; for writing it looks at the first
  page of the range only.
\<close>

theorem page_check_range_checks:
  assumes "page_ok s" "\<not> whole_space start (start + len - 1)"
  shows "page_check_range start len flags s =
     Inr (if len = 0 then 0 else if start + len - 1 < start then - 1
          else if flags AND PAGE_WRITE \<noteq> 0 then (if page_allows flags (page_get_flags s start) then 0 else - 1)
          else if \<forall>a. page_of start \<le> page_of a \<and> page_of a \<le> page_of (start + len - 1) \<longrightarrow> page_allows flags (page_get_flags s a)
          then 0 else - 1, s)"
  by (rule page_check_range_spec [OF assms])

theorem page_check_range_checks_witness:
  "\<exists>s. page_set_flags 0x8048000 0x804a000 0xb demo_vm = Inr s \<and>
     page_check_range 0x8049ff0 0x20 1 s = Inr (- 1, s) \<and> page_check_range 0x8049ff0 0x20 3 s = Inr (0, s)"
proof -
  obtain s where s: "page_set_flags 0x8048000 0x804a000 0xb demo_vm = Inr s" "page_ok s" "guest_base s = 0"
    "\<And>a. page_get_flags s a = (if 0x8048 \<le> page_of a \<and> page_of a \<le> 0x8049 then 0x1b else 0)" using demo_pages by blast
  have w: "\<not> whole_space 0x8049ff0 (0x8049ff0 + 0x20 - 1)" by (simp add: whole_space_def)
  have "\<exists>a. 0x8049 \<le> page_of a \<and> page_of a \<le> 0x804a \<and> \<not> page_allows 1 (page_get_flags s a)"
    by (rule exI [of _ "0x804a000"]) (simp add: s(4) page_allows_def)
  with page_check_range_checks [OF s(2) w, of 1] page_check_range_checks [OF s(2) w, of 3] s(1) show ?thesis
    by (intro exI [of _ s]) (auto simp: s(4) page_allows_def)
qed

text \<open>
  The debugger reads back what it wrote.  If every page of the range is readable and writable,
  writing a buffer and then reading as many bytes gives the buffer; no other byte changes.
\<close>

theorem cpu_memory_rw_debug_roundtrip:
  assumes "page_ok s" "length buf = length buf'" "length buf < 2 ^ 31"
    and "\<forall>a\<in>region addr (length buf). debug_ok True (page_get_flags s a) \<and> a + guest_base s \<noteq> 0"
  shows "\<exists>m'. cpu_memory_rw_debug True addr buf m s = Inr (0, buf, m', s) \<and>
     cpu_memory_rw_debug False addr buf' m' s = Inr (0, buf, m', s) \<and> (\<forall>q. q \<notin> region (addr + guest_base s) (length buf) \<longrightarrow> m' q = m q)"
proof -
  let ?m = "write_bytes m (addr + guest_base s) buf"
  have "\<forall>a\<in>region addr (length buf'). debug_ok False (page_get_flags s a) \<and> a + guest_base s \<noteq> 0"
    using assms(2,4) by (auto simp: debug_ok_def page_allows_def)
  from debug_transfer [OF assms(1) _ this, of ?m] debug_transfer [OF assms(1) _ assms(4), of m]
    bytes_at_write_bytes [of buf m "addr + guest_base s"] assms(2,3)
  show ?thesis by (intro exI [of _ ?m]) (auto simp: bytes_at_iff_read write_bytes_frame)
qed

theorem cpu_memory_rw_debug_roundtrip_witness:
  "\<exists>s m'. page_set_flags 0x8048000 0x804a000 0xb demo_vm = Inr s \<and>
     cpu_memory_rw_debug True 0x8048fff [1, 2] (\<lambda>_. 0) s = Inr (0, [1, 2], m', s) \<and>
     cpu_memory_rw_debug False 0x8048fff [0, 0] m' s = Inr (0, [1, 2], m', s)"
proof -
  obtain s where s: "page_set_flags 0x8048000 0x804a000 0xb demo_vm = Inr s" "page_ok s" "guest_base s = 0"
    "\<And>a. page_get_flags s a = (if 0x8048 \<le> page_of a \<and> page_of a \<le> 0x8049 then 0x1b else 0)" using demo_pages by blast
  have "region 0x8048fff 2 = {0x8048fff, 0x8049000 :: u32}" by (auto simp: numeral_2_eq_2 region_Suc_iff)
  then have "\<forall>a\<in>region 0x8048fff (length [1, 2 :: u8]). debug_ok True (page_get_flags s a) \<and> a + guest_base s \<noteq> 0"
    by (simp add: s(3,4) debug_ok_def page_allows_def flip: numeral_2_eq_2)
  from cpu_memory_rw_debug_roundtrip [OF s(2) _ _ this, of "[0, 0]" "\<lambda>_. 0"] obtain m' where
    "cpu_memory_rw_debug True 0x8048fff [1, 2] (\<lambda>_. 0) s = Inr (0, [1, 2], m', s)"
    "cpu_memory_rw_debug False 0x8048fff [0, 0] m' s = Inr (0, [1, 2], m', s)" by auto
  with s(1) show ?thesis by blast
qed

text \<open>
  What \<^verbatim>\<open>page_dump\<close> says of a single mapped page: it is reported once, with its flags, but
  the index of its table is shifted by \<^verbatim>\<open>V_L1_SHIFT\<close>, ten, and not by the 22 bits of an address.
\<close>

theorem page_dump_single:
  assumes "\<And>b. page_get_flags s b = (if page_of b = page_of a then f else 0)" "f \<noteq> 0" "page_of a AND 0x3ff \<noteq> 0x3ff"
  shows "page_dump s = [(push_bit 10 (drop_bit 22 a) OR push_bit 12 (page_of a AND 0x3ff),
     push_bit 10 (drop_bit 22 a) OR push_bit 12 ((page_of a AND 0x3ff) + 1), f)]"
proof -
  let ?i = "unat (drop_bit 22 a)" and ?j = "unat (page_of a AND 0x3ff)"
  have mask: "(0x3ff :: u32) = mask 10" by (simp add: mask_eq_exp_minus_1)
  have "?i = unat a div 4194304" by (simp add: drop_bit_eq_div unat_div)
  then have i: "?i < 1024" using u32_less [of a] by (simp add: div_less_iff_less_mult)
  have "?j < 1024" unfolding mask take_bit_eq_mask [symmetric] by (simp add: take_bit_eq_mod unat_mod)
  moreover have "?j \<noteq> 1023" using assms(3) unfolding word_unat_eq_iff by simp
  ultimately have j: "Suc ?j < 1024" by linarith
  have loc: "page_loc (page_of a) = (?i, ?j)"
  proof -
    have "drop_bit 22 a AND 0x3ff = drop_bit 22 a"
      unfolding mask take_bit_eq_mask [symmetric] using i by (simp add: word_unat_eq_iff take_bit_eq_mod unat_mod)
    then show ?thesis by (simp add: page_loc_def)
  qed
  have desc: "pd_flags (page_desc s (i', j')) = (if (i', j') = (?i, ?j) then f else 0)" if ij: "i' < 1024" "j' < 1024" for i' j'
  proof -
    obtain b where b: "page_loc (page_of b) = (i', j')" using page_loc_onto [OF ij] .
    from assms(1) [of b] page_loc_inj [of b a] show ?thesis unfolding page_get_flags_desc b loc by (simp only:)
  qed
  have "\<not> bit (push_bit 10 (of_nat ?i) OR push_bit 12 (of_nat ?j) :: u32) 0" by (simp add: bit_simps)
  then have "push_bit 10 (of_nat ?i) OR push_bit 12 (of_nat ?j) \<noteq> (- 1 :: u32)" by (metis bit_minus_1_iff possible_bit_word len_gt_0)
  from walk_single [OF i j assms(2) this desc] show ?thesis by (simp add: add.commute)
qed

theorem page_dump_single_witness:
  "\<exists>s. page_set_flags 0x8048000 0x8049000 0xd demo_vm = Inr s \<and> page_dump s = [(0x48000, 0x49000, 0xd)]"
proof -
  have ok: "flags_ok 0xd" "\<not> whole_space 0x8048000 (0x8049000 - 1)" by (simp_all add: flags_ok_def whole_space_def)
  obtain s where s: "page_set_flags 0x8048000 0x8049000 0xd demo_vm = Inr s"
    using page_set_flags_total [OF demo_vm_ok(1) ok(1) demo_vm_ok(2), of "0x8048000" "0x8049000"] by auto
  have "page_get_flags s b = (if page_of b = page_of 0x8048000 then 0xd else 0)" for b
    using page_set_flags_spec [OF demo_vm_ok(1) ok(1) _ ok(2) s] by (auto simp: demo_vm_ok(3) stored_flags_def)
  from page_dump_single [of s "0x8048000", OF this] s show ?thesis by simp
qed

end
