(* ===== verification/Mmap.thy ===== *)
theory Mmap
  imports Page_Table
begin

unbundle bit_operations_syntax

text \<open>
  The guest's memory mappings (\<^verbatim>\<open>src/linux-user/mmap.c\<close>): \<^verbatim>\<open>target_mmap\<close>, \<^verbatim>\<open>target_munmap\<close>,
  \<^verbatim>\<open>target_mprotect\<close>, \<^verbatim>\<open>target_mremap\<close> and \<^verbatim>\<open>target_msync\<close> over the page table and the host's calls, whose
  answers are the parameter \<open>answer\<close> of the state.  The lemmas say what flags each call leaves behind.
  \<^verbatim>\<open>unsigned long\<close> and \<^verbatim>\<open>abi_ulong\<close> both have 32 bits, so the tests that an area fits the guest's address
  space are always passed.
\<close>

section \<open>Host calls\<close>

abbreviation (input) "PROT_NONE \<equiv> 0 :: u32"
abbreviation (input) "PROT_READ \<equiv> 1 :: u32"
abbreviation (input) "PROT_WRITE \<equiv> 2 :: u32"
abbreviation (input) "MAP_SHARED \<equiv> 1 :: u32"
abbreviation (input) "MAP_PRIVATE \<equiv> 2 :: u32"
abbreviation (input) "MAP_TYPE \<equiv> 0xf :: u32"
abbreviation (input) "MAP_FIXED \<equiv> 0x10 :: u32"
abbreviation (input) "MAP_ANONYMOUS \<equiv> 0x20 :: u32"
abbreviation (input) "MAP_NORESERVE \<equiv> 0x4000 :: u32"
abbreviation (input) "MREMAP_MAYMOVE \<equiv> 1 :: u32"
abbreviation (input) "MREMAP_FIXED \<equiv> 2 :: u32"
abbreviation (input) "EINVAL \<equiv> 22 :: u32"
abbreviation (input) "ENOMEM \<equiv> 12 :: u32"
abbreviation (input) "TASK_UNMAPPED_BASE \<equiv> 0x40000000 :: u32"

definition g2h :: "vm_state \<Rightarrow> u32 \<Rightarrow> u32" where
  "g2h s x = x + guest_base s"

definition h2g :: "vm_state \<Rightarrow> u32 \<Rightarrow> u32" where
  "h2g s x = x - guest_base s"

section \<open>Flags of the other guest pages of a host page\<close>

text \<open>
  The loop \<^verbatim>\<open>for (addr = a; addr < b; addr += TARGET_PAGE_SIZE) prot |= page_get_flags(addr)\<close>, where \<open>b\<close> is
  aligned, and the bytewise loop of \<^verbatim>\<open>mmap_frag\<close>.
\<close>

definition page_addrs :: "u32 \<Rightarrow> u32 \<Rightarrow> u32 list" where
  "page_addrs a b = map (\<lambda>k. a + of_nat (4096 * k)) [0..<(unat b - unat a + 4095) div 4096]"

definition or_flags :: "vm_state \<Rightarrow> u32 \<Rightarrow> u32 \<Rightarrow> u32 \<Rightarrow> u32" where
  "or_flags s a b prot = fold (\<lambda>addr prot. prot OR page_get_flags s addr) (page_addrs a b) prot"

definition or_outside :: "vm_state \<Rightarrow> u32 \<Rightarrow> u32 \<Rightarrow> u32 \<Rightarrow> u32 \<Rightarrow> u32" where
  "or_outside s real_start real_end start end =
     fold (\<lambda>addr prot. if addr < start \<or> end \<le> addr then prot OR page_get_flags s addr else prot)
       (map (\<lambda>k. real_start + of_nat k) [0..<unat real_end - unat real_start]) 0"

section \<open>Changing protections\<close>

text \<open>The three ranges of host pages; each call may be refused, which ends the function.\<close>

definition try_mprotect :: "u32 \<Rightarrow> u32 \<Rightarrow> u32 \<Rightarrow> vm_state \<Rightarrow> (int \<times> vm_state)" where
  "try_mprotect addr len prot s = (let (ret, s) = host (Host_mprotect (g2h s addr) len prot) s in (sint ret, s))"

definition mprotect_first :: "u32 \<Rightarrow> u32 \<Rightarrow> u32 \<Rightarrow> u32 \<Rightarrow> u32 \<Rightarrow> vm_state \<Rightarrow> int \<times> u32 \<times> u32 \<times> vm_state" where
  "mprotect_first start end host_start host_end prot s =
     (if host_start < start
      then (let prot1 = or_flags s host_start start prot;
                (prot1, end) = (if host_end = host_start + qemu_host_page_size s then (or_flags s end host_end prot1, host_end) else (prot1, end));
                (ret, s) = try_mprotect host_start (qemu_host_page_size s) (prot1 AND PAGE_BITS) s
            in (ret, end, host_start + qemu_host_page_size s, s))
      else (0, end, host_start, s))"

definition mprotect_last :: "u32 \<Rightarrow> u32 \<Rightarrow> u32 \<Rightarrow> vm_state \<Rightarrow> int \<times> u32 \<times> vm_state" where
  "mprotect_last end host_end prot s =
     (if end < host_end
      then (let prot1 = or_flags s end host_end prot;
                (ret, s) = try_mprotect (host_end - qemu_host_page_size s) (qemu_host_page_size s) (prot1 AND PAGE_BITS) s
            in (ret, host_end - qemu_host_page_size s, s))
      else (0, host_end, s))"

definition mprotect_middle :: "u32 \<Rightarrow> u32 \<Rightarrow> u32 \<Rightarrow> vm_state \<Rightarrow> int \<times> vm_state" where
  "mprotect_middle host_start host_end prot s =
     (if host_start < host_end then try_mprotect host_start (host_end - host_start) prot s else (0, s))"

definition target_mprotect :: "u32 \<Rightarrow> u32 \<Rightarrow> u32 \<Rightarrow> vm_state \<Rightarrow> (int \<times> vm_state) outcome" where
  "target_mprotect start len prot s =
     (if start AND NOT TARGET_PAGE_MASK \<noteq> 0 then Inr (- 22, s)
      else (let len = TARGET_PAGE_ALIGN len;
                end = start + len
            in if end < start then Inr (- 22, s)
               else (let prot = prot AND 7 in
                     if len = 0 then Inr (0, s)
                     else (let s = mmap_lock s;
                               host_start = start AND qemu_host_page_mask s;
                               host_end = HOST_PAGE_ALIGN s end;
                               (ret, end, host_start, s) = mprotect_first start end host_start host_end prot s
                           in if ret \<noteq> 0 then Inr (ret, mmap_unlock s)
                              else (let (ret, host_end, s) = mprotect_last end host_end prot s
                                    in if ret \<noteq> 0 then Inr (ret, mmap_unlock s)
                                       else (let (ret, s) = mprotect_middle host_start host_end prot s
                                             in if ret \<noteq> 0 then Inr (ret, mmap_unlock s)
                                                else and_then (page_set_flags start (start + len) (prot OR PAGE_VALID) s)
                                                       (\<lambda>s. Inr (0, mmap_unlock s))))))))"

section \<open>Mapping a part of a host page\<close>

definition mmap_frag :: "u32 \<Rightarrow> u32 \<Rightarrow> u32 \<Rightarrow> u32 \<Rightarrow> u32 \<Rightarrow> u32 \<Rightarrow> u32 \<Rightarrow> vm_state \<Rightarrow> int \<times> vm_state" where
  "mmap_frag real_start start end prot flags fd offset s =
     (let real_end = real_start + qemu_host_page_size s;
          host_start = g2h s real_start;
          prot1 = or_outside s real_start real_end start end;
          (p, prot1, s) = (if prot1 = 0
            then (let (p, s) = host (Host_mmap host_start (qemu_host_page_size s) prot (flags OR MAP_ANONYMOUS) (- 1) 0) s in (p, prot, s))
            else (0, prot1, s))
      in if p = MAP_FAILED then (- 1, s)
         else (let prot1 = prot1 AND PAGE_BITS;
                   prot_new = prot OR prot1
               in if flags AND MAP_ANONYMOUS = 0
                  then (if flags AND MAP_TYPE = MAP_SHARED \<and> prot AND PROT_WRITE \<noteq> 0 then (- 1, s)
                        else (let s = (if prot1 AND PROT_WRITE = 0
                                then snd (host (Host_mprotect host_start (qemu_host_page_size s) (prot1 OR PROT_WRITE)) s) else s);
                                  (r, s) = host (Host_pread fd (g2h s start) (end - start) offset) s
                              in if r = - 1 then (- 1, s)
                                 else (0, if prot_new \<noteq> (prot1 OR PROT_WRITE)
                                   then snd (host (Host_mprotect host_start (qemu_host_page_size s) prot_new) s) else s)))
                  else (0, if prot_new \<noteq> prot1 then snd (host (Host_mprotect host_start (qemu_host_page_size s) prot_new) s) else s)))"

section \<open>Finding room\<close>

text \<open>
  \<^verbatim>\<open>mmap_find_vma_reserved\<close>.  The loop may run forever for a page size that does not fit; not returning is
  \<open>None\<close>.
\<close>

partial_function (option) find_reserved_loop :: "u32 \<Rightarrow> u32 \<Rightarrow> u32 \<Rightarrow> bool \<Rightarrow> vm_state \<Rightarrow> (u32 \<times> vm_state) option" where
  "find_reserved_loop sz addr last_addr looped s =
     (if last_addr + sz = addr then Some (last_addr, s\<lparr>mmap_next_start := addr\<rparr>)
      else if reserved_va s \<le> last_addr + sz \<or> last_addr + sz < last_addr
      then (if looped then Some (- 1, s)
            else find_reserved_loop sz (0 + qemu_host_page_size s) (qemu_host_page_size s) True s)
      else find_reserved_loop sz (addr + qemu_host_page_size s)
             (if page_get_flags s addr \<noteq> 0 then addr + qemu_host_page_size s else last_addr) looped s)"

definition mmap_find_vma_reserved :: "u32 \<Rightarrow> u32 \<Rightarrow> vm_state \<Rightarrow> (u32 \<times> vm_state) option" where
  "mmap_find_vma_reserved start sz s = (if reserved_va s < sz then Some (- 1, s) else find_reserved_loop sz start start False s)"

text \<open>
  The search of \<^verbatim>\<open>mmap_find_vma\<close> when no address space is reserved.  On a 32-bit host \<^verbatim>\<open>h2g_valid\<close> holds
  for every address.
\<close>

definition next_try :: "nat \<Rightarrow> u32 \<Rightarrow> u32" where
  "next_try repeat addr =
     (if repeat = 0 then TARGET_PAGE_ALIGN addr else if repeat = 1 then addr AND TARGET_PAGE_MASK else if repeat = 2 then 0 else - 1)"

definition low_memory :: "vm_state \<Rightarrow> u32" where
  "low_memory s = (if TARGET_PAGE_SIZE < mmap_min_addr s then TARGET_PAGE_ALIGN (mmap_min_addr s) else TARGET_PAGE_SIZE)"

partial_function (option) find_vma_loop :: "u32 \<Rightarrow> u32 \<Rightarrow> u32 \<Rightarrow> u32 \<Rightarrow> nat \<Rightarrow> bool \<Rightarrow> vm_state \<Rightarrow> (u32 \<times> vm_state) option" where
  "find_vma_loop start sz addr prev repeat wrapped s =
     (let (ptr, s) = host (Host_mmap (g2h s addr) sz PROT_NONE (MAP_ANONYMOUS OR MAP_PRIVATE OR MAP_NORESERVE) (- 1) 0) s in
      if ptr = MAP_FAILED then Some (- 1, s)
      else (let repeat = (if ptr = prev then repeat + 1 else 0);
                addr = h2g s ptr
            in if addr AND NOT TARGET_PAGE_MASK = 0
               then Some (addr, if start = mmap_next_start s \<and> TASK_UNMAPPED_BASE \<le> addr then s\<lparr>mmap_next_start := addr + sz\<rparr> else s)
               else (let addr = next_try repeat addr;
                         s = snd (host (Host_munmap ptr sz) s)
                     in if addr = - 1 then Some (- 1, s)
                        else if addr = 0
                        then (if wrapped then Some (- 1, s) else find_vma_loop start sz (low_memory s) ptr repeat True s)
                        else if wrapped \<and> start \<le> addr then Some (- 1, s)
                        else find_vma_loop start sz addr ptr repeat wrapped s)))"

definition mmap_find_vma :: "u32 \<Rightarrow> u32 \<Rightarrow> vm_state \<Rightarrow> (u32 \<times> vm_state) option" where
  "mmap_find_vma start sz s =
     (let start = (if start = 0 then mmap_next_start s else start AND qemu_host_page_mask s);
          sz = HOST_PAGE_ALIGN s sz
      in if reserved_va s \<noteq> 0 then mmap_find_vma_reserved start sz s else find_vma_loop start sz start 0 0 False s)"

definition find_vma :: "u32 \<Rightarrow> u32 \<Rightarrow> vm_state \<Rightarrow> (u32 \<times> vm_state) outcome" where
  "find_vma start sz s = (case mmap_find_vma start sz s of None \<Rightarrow> Inl Never_Returns | Some r \<Rightarrow> Inr r)"

section \<open>Mapping\<close>

definition set_errno :: "u32 \<Rightarrow> vm_state \<Rightarrow> vm_state" where
  "set_errno e s = s\<lparr>errno := e\<rparr>"

definition mmap_fail :: "vm_state \<Rightarrow> (u32 \<times> vm_state) outcome" where
  "mmap_fail s = Inr (- 1, mmap_unlock s)"

definition mmap_done :: "u32 \<Rightarrow> u32 \<Rightarrow> u32 \<Rightarrow> vm_state \<Rightarrow> (u32 \<times> vm_state) outcome" where
  "mmap_done start len prot s =
     and_then (page_set_flags start (start + len) (prot OR PAGE_VALID) s) (\<lambda>s. Inr (start, mmap_unlock s))"

text \<open>
  The length of a file mapping on a host with pages smaller than the guest's; \<open>None\<close> if \<^verbatim>\<open>fstat\<close> fails.  The size of
  the file is an \<^verbatim>\<open>off_t\<close> of 64 bits, given in two halves.
\<close>

definition mmap_len :: "u32 \<Rightarrow> u32 \<Rightarrow> u32 \<Rightarrow> u32 \<Rightarrow> vm_state \<Rightarrow> u32 option \<times> vm_state" where
  "mmap_len len flags fd offset s =
     (if qemu_real_host_page_size s < TARGET_PAGE_SIZE \<and> flags AND MAP_ANONYMOUS = 0
      then (let (r, s) = host (Host_fstat fd) s in
            if r = - 1 then (None, s)
            else (let (low, s) = host (Host_st_size fd) s; (high, s) = host (Host_st_size_high fd) s;
                      st_size = push_bit 32 (ucast high) OR ucast low :: 64 word
                  in (Some (if st_size <s ucast (offset + len)
                            then (ucast (st_size - ucast offset) + qemu_real_host_page_size s - 1) AND NOT (qemu_real_host_page_size s - 1)
                            else len), s)))
      else (Some len, s))"

definition mmap_anywhere :: "u32 \<Rightarrow> u32 \<Rightarrow> u32 \<Rightarrow> u32 \<Rightarrow> u32 \<Rightarrow> u32 \<Rightarrow> vm_state \<Rightarrow> (u32 \<times> vm_state) outcome" where
  "mmap_anywhere real_start len prot flags fd offset s =
     (let host_offset = offset AND qemu_host_page_mask s;
          host_len = HOST_PAGE_ALIGN s (len + offset - host_offset)
      in and_then (find_vma real_start host_len s) (\<lambda>(mmap_start, s).
           if mmap_start = - 1 then mmap_fail (set_errno ENOMEM s)
           else (let (p, s) = host (Host_mmap (g2h s mmap_start) host_len prot (flags OR MAP_FIXED OR MAP_ANONYMOUS) (- 1) 0) s
                 in if p = MAP_FAILED then mmap_fail s
                    else (let (host_start, s) = (if flags AND MAP_ANONYMOUS = 0
                            then (p + (offset - host_offset), snd (host (Host_mmap (g2h s mmap_start) len prot (flags OR MAP_FIXED) fd host_offset) s))
                            else (p, s))
                          in mmap_done (h2g s host_start) len prot s))))"

definition mmap_first :: "u32 \<Rightarrow> u32 \<Rightarrow> u32 \<Rightarrow> u32 \<Rightarrow> u32 \<Rightarrow> u32 \<Rightarrow> u32 \<Rightarrow> vm_state \<Rightarrow> int \<times> u32 \<times> vm_state" where
  "mmap_first real_start start end prot flags fd offset s =
     (if real_start < start
      then (let (ret, s) = mmap_frag real_start start end prot flags fd offset s in (ret, real_start + qemu_host_page_size s, s))
      else (0, real_start, s))"

definition mmap_last :: "u32 \<Rightarrow> u32 \<Rightarrow> u32 \<Rightarrow> u32 \<Rightarrow> u32 \<Rightarrow> u32 \<Rightarrow> u32 \<Rightarrow> vm_state \<Rightarrow> int \<times> u32 \<times> vm_state" where
  "mmap_last start end real_end prot flags fd offset s =
     (if end < real_end
      then (let (ret, s) = mmap_frag (real_end - qemu_host_page_size s) (real_end - qemu_host_page_size s) real_end prot flags fd
                  (offset + real_end - qemu_host_page_size s - start) s
            in (ret, real_end - qemu_host_page_size s, s))
      else (0, real_end, s))"

definition mmap_middle :: "u32 \<Rightarrow> u32 \<Rightarrow> u32 \<Rightarrow> u32 \<Rightarrow> u32 \<Rightarrow> u32 \<Rightarrow> u32 \<Rightarrow> vm_state \<Rightarrow> u32 \<times> vm_state" where
  "mmap_middle start real_start real_end prot flags fd offset s =
     (if real_start < real_end
      then host (Host_mmap (g2h s real_start) (real_end - real_start) prot flags fd
             (if flags AND MAP_ANONYMOUS \<noteq> 0 then 0 else offset + real_start - start)) s
      else (0, s))"

definition mmap_fixed_pages :: "u32 \<Rightarrow> u32 \<Rightarrow> u32 \<Rightarrow> u32 \<Rightarrow> u32 \<Rightarrow> u32 \<Rightarrow> u32 \<Rightarrow> vm_state \<Rightarrow> (u32 \<times> vm_state) outcome" where
  "mmap_fixed_pages real_start start len prot flags fd offset s =
     (let end = start + len;
          real_end = HOST_PAGE_ALIGN s end
      in if real_start < start \<and> real_end = real_start + qemu_host_page_size s
         then (let (ret, s) = mmap_frag real_start start end prot flags fd offset s
               in if ret = - 1 then mmap_fail s else mmap_done start len prot s)
         else (let (ret, real_start, s) = mmap_first real_start start (real_start + qemu_host_page_size s) prot flags fd offset s
               in if ret = - 1 then mmap_fail s
                  else (let (ret, real_end, s) = mmap_last start end real_end prot flags fd offset s
                        in if ret = - 1 then mmap_fail s
                           else (let (p, s) = mmap_middle start real_start real_end prot flags fd offset s
                                 in if p = MAP_FAILED then mmap_fail s else mmap_done start len prot s))))"

text \<open>
  \<^verbatim>\<open>target_mmap\<close>.  A file that cannot be mapped, because its offset is not aligned as the address is, is
  read into an anonymous mapping; that call of \<^verbatim>\<open>target_mmap\<close> makes no other.
\<close>

text \<open>The last part of a mapping that is read: the file's data and the protection asked for.\<close>

definition read_in :: "u32 \<Rightarrow> u32 \<Rightarrow> u32 \<Rightarrow> u32 \<Rightarrow> u32 \<Rightarrow> vm_state \<Rightarrow> (u32 \<times> vm_state) outcome" where
  "read_in start len prot fd offset s =
     (let (r, s) = host (Host_pread fd (g2h s start) len offset) s
      in if r = - 1 then mmap_fail s
         else if prot AND PROT_WRITE = 0
         then and_then (target_mprotect start len prot s) (\<lambda>(ret, s). Inr (if ret \<noteq> 0 then word_of_int ret else start, mmap_unlock s))
         else Inr (start, mmap_unlock s))"

definition mmap_flags_anon :: u32 where
  "mmap_flags_anon = MAP_FIXED OR MAP_PRIVATE OR MAP_ANONYMOUS"

function target_mmap :: "u32 \<Rightarrow> u32 \<Rightarrow> u32 \<Rightarrow> u32 \<Rightarrow> u32 \<Rightarrow> u32 \<Rightarrow> vm_state \<Rightarrow> (u32 \<times> vm_state) outcome" where
  "target_mmap start len prot flags fd offset s =
     (let s = mmap_lock s in
      if offset AND NOT TARGET_PAGE_MASK \<noteq> 0 then mmap_fail (set_errno EINVAL s)
      else (let len = TARGET_PAGE_ALIGN len in
            if len = 0 then Inr (start, mmap_unlock s)
            else (let real_start = start AND qemu_host_page_mask s;
                      (l, s) = mmap_len len flags fd offset s
                  in case l of None \<Rightarrow> mmap_fail s
                     | Some len \<Rightarrow>
                         if flags AND MAP_FIXED = 0 then mmap_anywhere real_start len prot flags fd offset s
                         else if start AND NOT TARGET_PAGE_MASK \<noteq> 0 then mmap_fail (set_errno EINVAL s)
                         else if flags AND MAP_ANONYMOUS = 0 \<and> offset AND NOT (qemu_host_page_mask s) \<noteq> start AND NOT (qemu_host_page_mask s)
                         then (if flags AND MAP_TYPE = MAP_SHARED \<and> prot AND PROT_WRITE \<noteq> 0 then mmap_fail (set_errno EINVAL s)
                               else and_then (target_mmap start len (prot OR PROT_WRITE) mmap_flags_anon (- 1) 0 s) (\<lambda>(retaddr, s).
                                 if retaddr = - 1 then mmap_fail s
                                 else read_in start len prot fd offset s))
                         else mmap_fixed_pages real_start start len prot flags fd offset s)))"
  by pat_completeness auto
termination
  by (relation "measure (\<lambda>(_, _, _, flags, _, _, _). if flags AND MAP_ANONYMOUS = 0 then 1 else 0)") (auto simp: mmap_flags_anon_def)

declare target_mmap.simps [simp del]

section \<open>Unmapping\<close>

text \<open>
  The host pages at the ends of an area stay if another guest page on them is mapped: the first and the
  last host page that may go.  The loops are those of both \<^verbatim>\<open>mmap_reserve\<close> and \<^verbatim>\<open>target_munmap\<close>.
\<close>

definition unmap_first :: "u32 \<Rightarrow> u32 \<Rightarrow> u32 \<Rightarrow> u32 \<Rightarrow> vm_state \<Rightarrow> u32 \<times> u32" where
  "unmap_first start end real_start real_end s =
     (if real_start < start
      then (let prot = or_flags s real_start start 0;
                (prot, end) = (if real_end = real_start + qemu_host_page_size s then (or_flags s end real_end prot, real_end) else (prot, end))
            in (end, if prot \<noteq> 0 then real_start + qemu_host_page_size s else real_start))
      else (end, real_start))"

definition unmap_last :: "u32 \<Rightarrow> u32 \<Rightarrow> vm_state \<Rightarrow> u32" where
  "unmap_last end real_end s =
     (if end < real_end \<and> or_flags s end real_end 0 \<noteq> 0 then real_end - qemu_host_page_size s else real_end)"

definition mmap_reserve :: "u32 \<Rightarrow> u32 \<Rightarrow> vm_state \<Rightarrow> vm_state" where
  "mmap_reserve start sz s =
     (let real_start = start AND qemu_host_page_mask s;
          real_end = HOST_PAGE_ALIGN s (start + sz);
          (end, real_start) = unmap_first start (start + sz) real_start real_end s;
          real_end = unmap_last end real_end s
      in if real_start \<noteq> real_end
         then snd (host (Host_mmap (g2h s real_start) (real_end - real_start) PROT_NONE
                (MAP_FIXED OR MAP_ANONYMOUS OR MAP_PRIVATE OR MAP_NORESERVE) (- 1) 0) s)
         else s)"

definition unmap_host :: "u32 \<Rightarrow> u32 \<Rightarrow> vm_state \<Rightarrow> int \<times> vm_state" where
  "unmap_host real_start real_end s =
     (if real_start < real_end
      then (if reserved_va s \<noteq> 0 then (0, mmap_reserve real_start (real_end - real_start) s)
            else (let (r, s) = host (Host_munmap (g2h s real_start) (real_end - real_start)) s in (sint r, s)))
      else (0, s))"

definition target_munmap :: "u32 \<Rightarrow> u32 \<Rightarrow> vm_state \<Rightarrow> (int \<times> vm_state) outcome" where
  "target_munmap start len s =
     (if start AND NOT TARGET_PAGE_MASK \<noteq> 0 then Inr (- 22, s)
      else (let len = TARGET_PAGE_ALIGN len in
            if len = 0 then Inr (- 22, s)
            else (let s = mmap_lock s;
                      real_start = start AND qemu_host_page_mask s;
                      real_end = HOST_PAGE_ALIGN s (start + len);
                      (end, real_start) = unmap_first start (start + len) real_start real_end s;
                      real_end = unmap_last end real_end s;
                      (ret, s) = unmap_host real_start real_end s
                  in and_then (if ret = 0 then page_set_flags start (start + len) 0 s else Inr s) (\<lambda>s. Inr (ret, mmap_unlock s)))))"

section \<open>Moving and syncing\<close>

text \<open>The kernel's part of \<^verbatim>\<open>target_mremap\<close>: the new host address.\<close>

definition or_bytes :: "vm_state \<Rightarrow> u32 \<Rightarrow> u32 \<Rightarrow> u32" where
  "or_bytes s a b = fold (\<lambda>addr prot. prot OR page_get_flags s addr) (map (\<lambda>k. a + of_nat k) [0..<unat b - unat a]) 0"

definition mremap_in_place :: "u32 \<Rightarrow> u32 \<Rightarrow> u32 \<Rightarrow> u32 \<Rightarrow> vm_state \<Rightarrow> u32 \<times> vm_state" where
  "mremap_in_place old_addr old_size new_size flags s =
     (let prot = (if reserved_va s \<noteq> 0 \<and> old_size < new_size then or_bytes s (old_addr + old_size) (old_addr + new_size) else 0);
          (host_addr, s) = (if prot = 0
            then (let (host_addr, s) = host (Host_mremap (g2h s old_addr) old_size new_size flags 0) s
                  in (host_addr, if host_addr \<noteq> MAP_FAILED \<and> reserved_va s \<noteq> 0 \<and> new_size < old_size
                        then mmap_reserve (old_addr + old_size) (new_size - old_size) s else s))
            else (MAP_FAILED, set_errno ENOMEM s))
      in if - 1 < host_addr + new_size
         then (MAP_FAILED, set_errno ENOMEM (snd (host (Host_mremap (g2h s old_addr) new_size old_size flags 0) s)))
         else (host_addr, s))"

definition mremap_host :: "u32 \<Rightarrow> u32 \<Rightarrow> u32 \<Rightarrow> u32 \<Rightarrow> u32 \<Rightarrow> vm_state \<Rightarrow> (u32 \<times> vm_state) outcome" where
  "mremap_host old_addr old_size new_size flags new_addr s =
     (if flags AND MREMAP_FIXED \<noteq> 0
      then (let (host_addr, s) = host (Host_mremap (g2h s old_addr) old_size new_size flags (g2h s new_addr)) s
            in Inr (host_addr, if reserved_va s \<noteq> 0 \<and> host_addr \<noteq> MAP_FAILED then mmap_reserve old_addr old_size s else s))
      else if flags AND MREMAP_MAYMOVE \<noteq> 0
      then and_then (find_vma 0 new_size s) (\<lambda>(mmap_start, s).
             if mmap_start = - 1 then Inr (MAP_FAILED, set_errno ENOMEM s)
             else (let (host_addr, s) = host (Host_mremap (g2h s old_addr) old_size new_size (flags OR MREMAP_FIXED) (g2h s mmap_start)) s
                   in Inr (host_addr, mmap_reserve old_addr old_size s)))
      else Inr (mremap_in_place old_addr old_size new_size flags s))"

definition target_mremap :: "u32 \<Rightarrow> u32 \<Rightarrow> u32 \<Rightarrow> u32 \<Rightarrow> u32 \<Rightarrow> vm_state \<Rightarrow> (u32 \<times> vm_state) outcome" where
  "target_mremap old_addr old_size new_size flags new_addr s =
     and_then (mremap_host old_addr old_size new_size flags new_addr (mmap_lock s)) (\<lambda>(host_addr, s).
       if host_addr = MAP_FAILED then Inr (- 1, mmap_unlock s)
       else (let new_addr = h2g s host_addr;
                 prot = page_get_flags s old_addr
             in and_then (page_set_flags old_addr (old_addr + old_size) 0 s) (\<lambda>s.
                  and_then (page_set_flags new_addr (new_addr + new_size) (prot OR PAGE_VALID) s) (\<lambda>s. Inr (new_addr, mmap_unlock s)))))"

definition target_msync :: "u32 \<Rightarrow> u32 \<Rightarrow> u32 \<Rightarrow> vm_state \<Rightarrow> int \<times> vm_state" where
  "target_msync start len flags s =
     (if start AND NOT TARGET_PAGE_MASK \<noteq> 0 then (- 22, s)
      else (let end = start + TARGET_PAGE_ALIGN len in
            if end < start then (- 22, s)
            else if end = start then (0, s)
            else (let start = start AND qemu_host_page_mask s;
                      (r, s) = host (Host_msync (g2h s start) (end - start) flags) s
                  in (sint r, s))))"

section \<open>What the host's part leaves alone\<close>

definition same_table :: "vm_state \<Rightarrow> vm_state \<Rightarrow> bool" where
  "same_table s s' \<longleftrightarrow> l1_map s' = l1_map s \<and> qemu_host_page_size s' = qemu_host_page_size s \<and> qemu_host_page_mask s' = qemu_host_page_mask s \<and>
     qemu_real_host_page_size s' = qemu_real_host_page_size s \<and> mmap_lock_count s' = mmap_lock_count s \<and> answer s' = answer s \<and>
     guest_base s' = guest_base s \<and> reserved_va s' = reserved_va s"

lemma same_table_refl [simp]: "same_table s s"
  by (simp add: same_table_def)

lemma same_table_iff: "same_table t t' \<Longrightarrow> same_table s t' \<longleftrightarrow> same_table s t"
  by (auto simp: same_table_def)

lemma same_table_host [simp]:
  "same_table s (snd (host c t)) = same_table s t" "same_table s (set_errno e t) = same_table s t"
  "same_table s (t\<lparr>mmap_next_start := a\<rparr>) = same_table s t"
  by (auto simp: host_def set_errno_def same_table_def)

lemma same_table_flags:
  assumes "same_table s s'"
  shows "page_get_flags s' a = page_get_flags s a" "page_ok s' = page_ok s" "host_memory s' = host_memory s"
proof -
  have d: "page_desc s' = page_desc s" using assms by (simp add: same_table_def page_desc_def fun_eq_iff)
  show "page_get_flags s' a = page_get_flags s a" "page_ok s' = page_ok s" "host_memory s' = host_memory s"
    using assms by (simp_all add: page_get_flags_desc page_ok_def host_memory_def d same_table_def)
qed

lemma same_table_mprotect [simp]:
  "same_table s (snd (try_mprotect addr len prot t)) = same_table s t"
  "same_table s (snd (mprotect_middle h e prot t)) = same_table s t"
  "same_table s (snd (snd (mprotect_last e he prot t))) = same_table s t"
  "same_table s (snd (snd (snd (mprotect_first st e h he prot t)))) = same_table s t"
  by (simp_all add: mprotect_middle_def mprotect_last_def mprotect_first_def try_mprotect_def Let_def split_def)

lemma same_table_mmap_parts [simp]:
  "same_table s (snd (mmap_frag rs st e prot flags fd off t)) = same_table s t"
  "same_table s (snd (snd (mmap_first rs st e prot flags fd off t))) = same_table s t"
  "same_table s (snd (snd (mmap_last st e re prot flags fd off t))) = same_table s t"
  "same_table s (snd (mmap_middle st rs re prot flags fd off t)) = same_table s t"
  "same_table s (snd (mmap_len len flags fd off t)) = same_table s t"
  by (simp_all add: mmap_frag_def mmap_first_def mmap_last_def mmap_middle_def mmap_len_def Let_def split_def)

lemma same_table_reserve [simp]: "same_table s (mmap_reserve st sz t) = same_table s t"
  by (simp add: mmap_reserve_def Let_def split_def)

lemma same_table_unmap [simp]: "same_table s (snd (unmap_host h e t)) = same_table s t"
  by (simp add: unmap_host_def Let_def split_def)

lemma find_reserved_table: "find_reserved_loop sz addr last_addr looped s = Some r \<Longrightarrow> same_table s (snd r)"
proof (rule find_reserved_loop.raw_induct [of "\<lambda>_ _ _ _ s r. same_table s (snd r)"])
  fix f :: "u32 \<Rightarrow> u32 \<Rightarrow> u32 \<Rightarrow> bool \<Rightarrow> vm_state \<Rightarrow> (u32 \<times> vm_state) option" and sz addr last_addr looped s y
  assume IH: "\<And>sz addr last_addr looped s y. f sz addr last_addr looped s = Some y \<Longrightarrow> same_table s (snd y)"
  assume "(if last_addr + sz = addr then Some (last_addr, s\<lparr>mmap_next_start := addr\<rparr>)
      else if reserved_va s \<le> last_addr + sz \<or> last_addr + sz < last_addr
      then (if looped then Some (- 1, s) else f sz (0 + qemu_host_page_size s) (qemu_host_page_size s) True s)
      else f sz (addr + qemu_host_page_size s)
             (if page_get_flags s addr \<noteq> 0 then addr + qemu_host_page_size s else last_addr) looped s) = Some y"
  then show "same_table s (snd y)" by (auto simp: split: if_splits dest: IH)
qed

lemma find_vma_table:
  assumes "find_vma_loop start sz addr prev repeat wrapped s = Some r"
  shows "same_table s (snd r)"
proof (rule find_vma_loop.raw_induct [of "\<lambda>_ _ _ _ _ _ s r. same_table s (snd r)", OF _ assms], goal_cases)
  case (1 f start sz addr prev repeat wrapped s y)
  have tr: "same_table t (snd y) \<Longrightarrow> same_table s t \<Longrightarrow> same_table s (snd y)" for t by (simp add: same_table_def)
  from 1(2) show ?case
    by (auto simp: Let_def split_def split: if_splits dest!: 1(1) intro: tr)
qed

lemma mmap_find_table:
  assumes "find_vma start sz s = Inr r"
  shows "same_table s (snd r)"
  using assms by (auto simp: find_vma_def mmap_find_vma_def mmap_find_vma_reserved_def Let_def
    split: option.splits if_splits dest: find_reserved_table find_vma_table)

section \<open>Aligned areas\<close>

lemma aligned_iff: "a AND NOT TARGET_PAGE_MASK = 0 \<longleftrightarrow> aligned a"
proof -
  have "NOT TARGET_PAGE_MASK = mask 12" by (simp add: mask_eq_exp_minus_1)
  then show ?thesis unfolding aligned_def take_bit_eq_mask by (simp only:)
qed

lemma aligned_align: "aligned (TARGET_PAGE_ALIGN len)"
  unfolding aligned_nat TARGET_PAGE_ALIGN_def mask_nat by simp

lemma aligned_not_whole:
  assumes "aligned start" "aligned len" "len \<noteq> 0"
  shows "\<not> whole_space start (start + len - 1)"
proof
  assume w: "whole_space start (start + len - 1)"
  then have "unat start div 4096 = 0" by (simp add: whole_space_def word_unat_eq_iff page_of_nat)
  then have "unat start = 0" using assms(1) unfolding aligned_nat by simp
  then have z: "start = 0" by (simp add: unat_eq_zero)
  have "unat (len - 1) = unat len - 1" using assms(3) by (rule unat_minus_one)
  moreover have "unat (len - 1) div 4096 = 0xfffff" using w by (simp add: z whole_space_def word_unat_eq_iff page_of_nat)
  then have "0xfffff000 \<le> unat (len - 1)" unfolding div_page by simp
  moreover obtain k where "unat len = 4096 * k" using assms(2) unfolding aligned_nat by auto
  moreover have "unat len \<noteq> 0" using assms(3) by (simp add: unat_eq_zero)
  ultimately show False using u32_less [of len] by auto
qed

section \<open>Under the lock\<close>

lemma unlock_flags [simp]:
  "page_get_flags (mmap_unlock t) a = page_get_flags t a" "page_ok (mmap_unlock t) = page_ok t"
  "page_get_flags (mmap_lock t) a = page_get_flags t a" "page_ok (mmap_lock t) = page_ok t" "host_memory (mmap_lock t) = host_memory t"
  by (simp_all add: mmap_unlock_def mmap_lock_def page_get_flags_desc page_ok_def host_memory_def)

lemma lock_fields [simp]:
  "mmap_lock_count (mmap_lock s) = mmap_lock_count s + 1" "answer (mmap_lock s) = answer s" "guest_base (mmap_lock s) = guest_base s"
  "qemu_host_page_mask (mmap_lock s) = qemu_host_page_mask s" "reserved_va (mmap_lock s) = reserved_va s"
  "qemu_real_host_page_size (mmap_lock s) = qemu_real_host_page_size s" "qemu_host_page_size (mmap_lock s) = qemu_host_page_size s"
  by (simp_all add: mmap_lock_def)

text \<open>\<open>unlocked s s' P\<close>: the call gave the lock back and left the flags that \<open>P\<close> says.\<close>

text \<open>What no call changes: the sizes of pages, the kernel, and where the guest's memory is.\<close>

definition vm_consts :: "vm_state \<Rightarrow> u32 \<times> u32 \<times> u32 \<times> (host_call list \<Rightarrow> u32) \<times> u32 \<times> u32" where
  "vm_consts s = (qemu_host_page_size s, qemu_host_page_mask s, qemu_real_host_page_size s, answer s, guest_base s, reserved_va s)"

lemma vm_consts_same: "same_table s t \<Longrightarrow> vm_consts t = vm_consts s"
  by (simp add: vm_consts_def same_table_def)

lemma vm_consts_lock [simp]: "vm_consts (mmap_lock s) = vm_consts s" "vm_consts (mmap_unlock s) = vm_consts s"
  by (simp_all add: vm_consts_def mmap_lock_def mmap_unlock_def)

lemma vm_consts_host: "vm_consts t = vm_consts s \<Longrightarrow> host_memory t = host_memory s"
  by (simp add: vm_consts_def host_memory_def)

definition unlocked :: "vm_state \<Rightarrow> vm_state \<Rightarrow> (u32 \<Rightarrow> u32) \<Rightarrow> bool" where
  "unlocked s s' P \<longleftrightarrow> page_ok s' \<and> mmap_lock_count s' = mmap_lock_count s \<and> vm_consts s' = vm_consts s \<and> (\<forall>a. page_get_flags s' a = P a)"

definition in_area :: "u32 \<Rightarrow> u32 \<Rightarrow> u32 \<Rightarrow> bool" where
  "in_area start len a \<longleftrightarrow> page_of start \<le> page_of a \<and> page_of a \<le> page_of (start + len - 1)"

definition flags_after :: "vm_state \<Rightarrow> u32 \<Rightarrow> u32 \<Rightarrow> u32 \<Rightarrow> u32 \<Rightarrow> u32" where
  "flags_after s start len f a = (if in_area start len a then stored_flags f else page_get_flags s a)"

lemma unlock_unchanged:
  assumes "page_ok s" "same_table (mmap_lock s) t"
  shows "unlocked s (mmap_unlock t) (page_get_flags s)"
  using assms same_table_flags [OF assms(2)] by (simp add: unlocked_def) (simp add: mmap_unlock_def mmap_lock_def same_table_def vm_consts_def)

lemma set_and_unlock:
  assumes "page_ok s" "host_memory s" "same_table (mmap_lock s) t" "flags_ok f" "start < start + len" "\<not> whole_space start (start + len - 1)"
  obtains t' where "page_set_flags start (start + len) f t = Inr t'" "unlocked s (mmap_unlock t') (flags_after s start len f)"
proof -
  note t = same_table_flags [OF assms(3)]
  have ok: "page_ok t" "host_memory t" using assms(1,2) t by simp_all
  obtain t' where t': "page_set_flags start (start + len) f t = Inr t'" using page_set_flags_total [OF ok(1) assms(4) ok(2) assms(5)] by blast
  from page_set_flags_spec [OF ok(1) assms(4-6) t'] assms(3) have "unlocked s (mmap_unlock t') (flags_after s start len f)"
    by (simp add: unlocked_def flags_after_def in_area_def t) (simp add: keeps_flags_def mmap_unlock_def mmap_lock_def same_table_def vm_consts_def)
  with t' show thesis by (rule that)
qed

lemma prot_flags_ok: "flags_ok ((prot AND 7) OR PAGE_VALID)" "flags_ok 0"
  unfolding flags_ok_def and_bit_iff by (simp_all add: bit_simps)

lemma target_mprotect_outcome:
  assumes "page_ok s" "host_memory s" "aligned start" "start < start + TARGET_PAGE_ALIGN len"
  shows "\<exists>r s'. target_mprotect start len prot s = Inr (r, s') \<and>
     unlocked s s' (if r = 0 then flags_after s start (TARGET_PAGE_ALIGN len) ((prot AND 7) OR PAGE_VALID) else page_get_flags s)"
proof -
  let ?len = "TARGET_PAGE_ALIGN len"
  have g: "\<not> start + ?len < start" "?len \<noteq> 0" using assms(4) by auto
  obtain r1 e h s1 where s1: "mprotect_first start (start + ?len) (start AND qemu_host_page_mask s) (HOST_PAGE_ALIGN (mmap_lock s) (start + ?len)) (prot AND 7) (mmap_lock s) = (r1, e, h, s1)"
    by (metis prod_cases4)
  obtain r2 he s2 where s2: "mprotect_last e (HOST_PAGE_ALIGN (mmap_lock s) (start + ?len)) (prot AND 7) s1 = (r2, he, s2)" by (metis prod_cases3)
  obtain r3 s3 where s3: "mprotect_middle h he (prot AND 7) s2 = (r3, s3)" by force
  have t: "same_table (mmap_lock s) s1" "same_table (mmap_lock s) s2" "same_table (mmap_lock s) s3"
    using same_table_mprotect(4) [of "mmap_lock s", unfolded same_table_refl] s1 s2 s3 same_table_mprotect
    by (metis same_table_refl snd_conv)+
  obtain s4 where s4: "page_set_flags start (start + ?len) ((prot AND 7) OR PAGE_VALID) s3 = Inr s4"
    "unlocked s (mmap_unlock s4) (flags_after s start ?len ((prot AND 7) OR PAGE_VALID))"
    using set_and_unlock [OF assms(1,2) t(3) prot_flags_ok(1) assms(4) aligned_not_whole [OF assms(3) aligned_align g(2)]] .
  show ?thesis
    using g s4 unlock_unchanged [OF assms(1) t(1)] unlock_unchanged [OF assms(1) t(2)] unlock_unchanged [OF assms(1) t(3)]
    unfolding target_mprotect_def aligned_iff by (auto simp: assms(3) s1 s2 s3 Let_def)
qed


lemma target_munmap_outcome:
  assumes "page_ok s" "host_memory s" "aligned start" "start < start + TARGET_PAGE_ALIGN len"
  shows "\<exists>r s'. target_munmap start len s = Inr (r, s') \<and>
     unlocked s s' (if r = 0 then flags_after s start (TARGET_PAGE_ALIGN len) 0 else page_get_flags s)"
proof -
  let ?len = "TARGET_PAGE_ALIGN len" and ?s = "mmap_lock s"
  have g: "?len \<noteq> 0" using assms(4) by auto
  obtain e h where eh: "unmap_first start (start + ?len) (start AND qemu_host_page_mask s) (HOST_PAGE_ALIGN ?s (start + ?len)) ?s = (e, h)" by force
  define he where "he = unmap_last e (HOST_PAGE_ALIGN ?s (start + ?len)) ?s"
  obtain r t where r: "unmap_host h he ?s = (r, t)" by force
  have t: "same_table ?s t" using same_table_unmap [of ?s h he ?s] by (simp add: r)
  obtain t' where t': "page_set_flags start (start + ?len) 0 t = Inr t'" "unlocked s (mmap_unlock t') (flags_after s start ?len 0)"
    using set_and_unlock [OF assms(1,2) t prot_flags_ok(2) assms(4) aligned_not_whole [OF assms(3) aligned_align g]] .
  have "target_munmap start len s = and_then (if r = 0 then page_set_flags start (start + ?len) 0 t else Inr t) (\<lambda>s. Inr (r, mmap_unlock s))"
    unfolding target_munmap_def aligned_iff Let_def using g assms(3) by (simp add: eh r flip: he_def)
  with t' unlock_unchanged [OF assms(1) t] show ?thesis by (cases "r = 0") auto
qed

text \<open>An area that reaches the end of the address space ends the process.\<close>

lemma target_munmap_top_aborts:
  assumes "aligned start" "start + TARGET_PAGE_ALIGN len = 0" "TARGET_PAGE_ALIGN len \<noteq> 0" "qemu_host_page_mask s = NOT (qemu_host_page_size s - 1)"
  shows "target_munmap start len s = Inl Assertion_Failed"
proof -
  have "HOST_PAGE_ALIGN (mmap_lock s) 0 = 0" using assms(4) by (simp add: HOST_PAGE_ALIGN_def mmap_lock_def)
  then show ?thesis
    unfolding target_munmap_def aligned_iff using assms(1-3)
    by (simp add: Let_def split_def unmap_last_def unmap_host_def page_set_flags_def)
qed

section \<open>What a mapping leaves behind\<close>

text \<open>
  What is relied on of the kernel: \<^verbatim>\<open>mmap\<close> answers an address on a page boundary or fails, \<^verbatim>\<open>mprotect\<close> answers
  zero or minus one.  The guest's memory starts on a page boundary of the host's.
\<close>

definition kernel_ok :: "vm_state \<Rightarrow> bool" where
  "kernel_ok s \<longleftrightarrow> aligned (guest_base s) \<and>
     (\<forall>a l p f fd off log. answer s (Host_mmap a l p f fd off # log) = MAP_FAILED \<or> aligned (answer s (Host_mmap a l p f fd off # log))) \<and>
     (\<forall>a l p log. answer s (Host_mprotect a l p # log) = 0 \<or> answer s (Host_mprotect a l p # log) = - 1)"

lemma kernel_ok_same: "same_table s t \<Longrightarrow> kernel_ok t = kernel_ok s" "kernel_ok (mmap_lock s) = kernel_ok s"
  by (auto simp: kernel_ok_def same_table_def mmap_lock_def)

lemma aligned_add: "aligned a \<Longrightarrow> aligned b \<Longrightarrow> aligned (a + b)" "aligned a \<Longrightarrow> aligned b \<Longrightarrow> aligned (a - b)"
proof -
  assume "aligned a" "aligned b"
  then obtain j k where "unat a = 4096 * j" "unat b = 4096 * k" unfolding aligned_nat by (metis mod_0_imp_dvd dvdE)
  then have "of_nat (unat a) = (4096 * of_nat j :: u32)" "of_nat (unat b) = (4096 * of_nat k :: u32)" by simp_all
  then have "a = 4096 * of_nat j" "b = 4096 * of_nat k" by simp_all
  then have "a + b = push_bit 12 (of_nat j + of_nat k)" "a - b = push_bit 12 (of_nat j - of_nat k)"
    by (simp_all add: push_bit_eq_mult algebra_simps)
  then show "aligned (a + b)" "aligned (a - b)" by (simp_all add: aligned_def take_bit_push_bit)
qed

definition mapped_good :: "vm_state \<Rightarrow> u32 set \<Rightarrow> u32 \<Rightarrow> u32 \<Rightarrow> (u32 \<times> vm_state) outcome \<Rightarrow> bool" where
  "mapped_good s A len prot res \<longleftrightarrow> (case res of Inl e \<Rightarrow> e = Assertion_Failed
     | Inr (r, s') \<Rightarrow> page_ok s' \<and> mmap_lock_count s' = mmap_lock_count s \<and> vm_consts s' = vm_consts s \<and>
         (r \<noteq> - 1 \<longrightarrow> r \<in> A \<and> r < r + len \<and> (\<forall>a. page_get_flags s' a = flags_after s r len (prot OR PAGE_VALID) a)))"

lemma good_fail:
  assumes "page_ok s" "same_table (mmap_lock s) t"
  shows "mapped_good s A len prot (mmap_fail t)"
  using unlock_unchanged [OF assms] by (simp add: mapped_good_def mmap_fail_def unlocked_def)

lemma aligned_and: "aligned a \<Longrightarrow> aligned (a AND m)"
  by (simp add: aligned_def)

lemma good_done:
  assumes "page_ok s" "host_memory s" "same_table (mmap_lock s) t" "prot AND 7 = prot" "aligned start" "aligned len" "len \<noteq> 0"
    and "start \<in> A"
  shows "mapped_good s A len prot (mmap_done start len prot t)"
proof (cases "start < start + len")
  case True
  have "flags_ok (prot OR PAGE_VALID)" using prot_flags_ok(1) [of prot] by (simp add: assms(4))
  from set_and_unlock [OF assms(1-3) this True aligned_not_whole [OF assms(5-7)]] obtain t' where
    "page_set_flags start (start + len) (prot OR PAGE_VALID) t = Inr t'" "unlocked s (mmap_unlock t') (flags_after s start len (prot OR PAGE_VALID))" .
  then show ?thesis using True assms(8) by (simp add: mapped_good_def mmap_done_def unlocked_def)
next
  case False
  then show ?thesis by (simp add: mapped_good_def mmap_done_def page_set_flags_def)
qed

lemma kernel_mmap:
  assumes "kernel_ok s"
  shows "fst (host (Host_mmap a l p f fd off) s) = MAP_FAILED \<or>
     aligned (h2g (snd (host (Host_mmap a l p f fd off) s)) (fst (host (Host_mmap a l p f fd off) s)))"
proof -
  have "answer s (Host_mmap a l p f fd off # host_log s) = MAP_FAILED \<or> aligned (answer s (Host_mmap a l p f fd off # host_log s))" "aligned (guest_base s)"
    using assms by (simp_all add: kernel_ok_def)
  then show ?thesis using aligned_add(2) by (auto simp: host_def h2g_def)
qed

lemma find_vma_first:
  assumes "kernel_ok s" "reserved_va s = 0"
  obtains a t where "find_vma start sz s = Inr (a, t)" "same_table s t" "a = - 1 \<or> aligned a"
proof -
  let ?start = "if start = 0 then mmap_next_start s else start AND qemu_host_page_mask s" and ?sz = "HOST_PAGE_ALIGN s sz"
  let ?c = "Host_mmap (g2h s ?start) ?sz PROT_NONE (MAP_ANONYMOUS OR MAP_PRIVATE OR MAP_NORESERVE) (- 1) 0"
  note ptr = kernel_mmap [OF assms(1), of "g2h s ?start" ?sz PROT_NONE "MAP_ANONYMOUS OR MAP_PRIVATE OR MAP_NORESERVE" "- 1" 0]
  have "\<exists>a t. find_vma_loop ?start ?sz ?start 0 0 False s = Some (a, t) \<and> (a = - 1 \<or> aligned a)"
    using ptr unfolding find_vma_loop.simps [of ?start ?sz ?start] aligned_iff by (auto simp: Let_def split_def)
  then obtain a t where r: "find_vma_loop ?start ?sz ?start 0 0 False s = Some (a, t)" "a = - 1 \<or> aligned a" by blast
  then have f: "find_vma start sz s = Inr (a, t)" using assms(2) by (simp add: find_vma_def mmap_find_vma_def Let_def)
  from mmap_find_table [OF f] r(2) f show thesis by (intro that) simp_all
qed


lemma good_anywhere:
  assumes "page_ok s" "host_memory s" "kernel_ok s" "reserved_va s = 0" "same_table (mmap_lock s) t" "prot AND 7 = prot"
    and "aligned len" "len \<noteq> 0" "aligned offset"
  shows "mapped_good s {a. aligned a} len prot (mmap_anywhere rs len prot flags fd offset t)"
proof -
  let ?ho = "offset AND qemu_host_page_mask t"
  have k: "kernel_ok t" using kernel_ok_same(1) [OF assms(5)] assms(3) by (simp add: kernel_ok_same(2))
  have rv: "reserved_va t = 0" using assms(4,5) by (simp add: same_table_def mmap_lock_def)
  obtain a t1 where v: "find_vma rs (HOST_PAGE_ALIGN t (len + offset - ?ho)) t = Inr (a, t1)" "same_table t t1" "a = - 1 \<or> aligned a"
    using find_vma_first [OF k rv] .
  have t1: "same_table (mmap_lock s) t1" using same_table_iff [OF v(2)] assms(5) by simp
  have k1: "kernel_ok t1" using kernel_ok_same(1) [OF v(2)] k by simp
  let ?c = "Host_mmap (g2h t1 a) (HOST_PAGE_ALIGN t (len + offset - ?ho)) prot (flags OR MAP_FIXED OR MAP_ANONYMOUS) (- 1) 0"
  let ?c2 = "Host_mmap (g2h (snd (host ?c t1)) a) len prot (flags OR MAP_FIXED) fd ?ho"
  have h: "h2g (snd (host c u)) x = h2g u x" for c u x by (simp add: host_def h2g_def)
  have p: "fst (host ?c t1) = MAP_FAILED \<or> aligned (h2g t1 (fst (host ?c t1)))" using kernel_mmap [OF k1] by (simp add: h)
  have o: "aligned (offset - ?ho)" using assms(9) by (intro aligned_add(2) aligned_and)
  have "aligned (h2g t1 (fst (host ?c t1)) + (offset - ?ho))" if "fst (host ?c t1) \<noteq> MAP_FAILED" using that p o by (intro aligned_add(1)) auto
  moreover have "h2g t1 (x + y) = h2g t1 x + y" for x y by (simp add: h2g_def)
  ultimately show ?thesis
    using p assms(7,8) t1 v(1) by (auto simp: mmap_anywhere_def Let_def split_def h intro!: good_fail good_done assms(1,2,6))
qed

lemma good_fixed_pages:
  assumes "page_ok s" "host_memory s" "same_table (mmap_lock s) t" "prot AND 7 = prot" "aligned start" "aligned len" "len \<noteq> 0"
  shows "mapped_good s {start} len prot (mmap_fixed_pages rs start len prot flags fd offset t)"
  using assms(3,5-7) by (auto simp: mmap_fixed_pages_def Let_def split_def intro!: good_fail good_done assms(1,2,4))


lemma good_mono: "mapped_good s A len prot r \<Longrightarrow> A \<subseteq> B \<Longrightarrow> mapped_good s B len prot r"
  by (auto simp: mapped_good_def split: sum.splits)

lemma try_mprotect_answer: "kernel_ok s \<Longrightarrow> fst (try_mprotect a l p s) = 0 \<or> fst (try_mprotect a l p s) = - 1"
proof -
  assume "kernel_ok s"
  then have "answer s (Host_mprotect (g2h s a) l p # host_log s) = 0 \<or> answer s (Host_mprotect (g2h s a) l p # host_log s) = - 1"
    unfolding kernel_ok_def by blast
  then show ?thesis by (auto simp: try_mprotect_def host_def)
qed

lemma mprotect_answers:
  assumes "kernel_ok s" "aligned start" "start < start + TARGET_PAGE_ALIGN len" "target_mprotect start len prot s = Inr (r, s')"
  shows "r = 0 \<or> r = - 1"
proof -
  have f: "fst (mprotect_first a b c d p t) = 0 \<or> fst (mprotect_first a b c d p t) = - 1" if "kernel_ok t" for a b c d p t
    using try_mprotect_answer [OF that] by (auto simp: mprotect_first_def Let_def split_def)
  have l: "fst (mprotect_last b c p t) = 0 \<or> fst (mprotect_last b c p t) = - 1" if "kernel_ok t" for b c p t
    using try_mprotect_answer [OF that] by (auto simp: mprotect_last_def Let_def split_def)
  have m: "fst (mprotect_middle b c p t) = 0 \<or> fst (mprotect_middle b c p t) = - 1" if "kernel_ok t" for b c p t
    using try_mprotect_answer [OF that] by (auto simp: mprotect_middle_def)
  have k1: "kernel_ok (snd (snd (snd (mprotect_first a b c d p t))))" "kernel_ok (snd (snd (mprotect_last b c p t)))" if "kernel_ok t" for a b c d p t
    by (simp_all add: that kernel_ok_same(1) [of t])
  have k0: "kernel_ok (mmap_lock s)" using assms(1) by (simp add: kernel_ok_same(2))
  note fl = f [OF k0] l [OF k1(1) [OF k0]] m [OF k1(2) [OF k1(1) [OF k0]]]
  show ?thesis
    using assms(2,3,4) unfolding target_mprotect_def aligned_iff Let_def split_def
    by (auto split: if_splits) (use fl(1) in blast, use fl(2) in blast, use fl(3) in blast)
qed

lemma align_aligned: "aligned len \<Longrightarrow> TARGET_PAGE_ALIGN len = len"
proof -
  assume a: "aligned len"
  then obtain k where k: "unat len = 4096 * k" unfolding aligned_nat by auto
  then have "k < 1048576" using u32_less [of len] by simp
  then have "unat (len + TARGET_PAGE_SIZE - 1) = 4096 * k + 4095" using k by (simp add: unat_word_ariths)
  then have "unat (TARGET_PAGE_ALIGN len) = unat len" unfolding TARGET_PAGE_ALIGN_def mask_nat k by simp
  then show ?thesis by (simp add: word_unat_eq_iff)
qed

lemma mmap_len_whole:
  assumes "TARGET_PAGE_SIZE \<le> qemu_real_host_page_size t"
  shows "mmap_len len flags fd off t = (Some len, t)"
  using assms by (simp add: mmap_len_def linorder_not_less [symmetric])

lemma target_mmap_simple:
  assumes ok: "page_ok s" "host_memory s" "kernel_ok s" "reserved_va s = 0" "TARGET_PAGE_SIZE \<le> qemu_real_host_page_size s"
    and "prot AND 7 = prot" "TARGET_PAGE_ALIGN len \<noteq> 0"
    and no_read: "flags AND MAP_FIXED = 0 \<or> flags AND MAP_ANONYMOUS \<noteq> 0 \<or> offset AND NOT (qemu_host_page_mask s) = start AND NOT (qemu_host_page_mask s)"
  shows "mapped_good s (if flags AND MAP_FIXED = 0 then {a. aligned a} else {start}) (TARGET_PAGE_ALIGN len) prot (target_mmap start len prot flags fd offset s)"
proof -
  have t: "same_table (mmap_lock s) (mmap_lock s)" by simp
  have l: "mmap_len (TARGET_PAGE_ALIGN len) flags fd offset (mmap_lock s) = (Some (TARGET_PAGE_ALIGN len), mmap_lock s)"
    using ok(5) by (intro mmap_len_whole) simp
  have nr: "flags AND MAP_FIXED = 0 \<or> \<not> (flags AND MAP_ANONYMOUS = 0 \<and> offset AND NOT (qemu_host_page_mask s) \<noteq> start AND NOT (qemu_host_page_mask s))" using no_read by blast
  show ?thesis
    unfolding target_mmap.simps [of start len] Let_def l aligned_iff split_conv option.case lock_fields
    using nr good_anywhere [OF ok(1-4) t assms(6) aligned_align assms(7)] good_fixed_pages [OF ok(1,2) t assms(6) _ aligned_align assms(7)]
      good_fail [OF ok(1), of "set_errno EINVAL (mmap_lock s)"] assms(7)
    by auto
qed

lemma prot_write: "(prot OR PROT_WRITE) AND 7 = (prot AND 7) OR PROT_WRITE" "prot AND PROT_WRITE \<noteq> 0 \<Longrightarrow> prot OR PROT_WRITE = prot" for prot :: u32
proof -
  have "(7 :: u32) = mask 3" by (simp add: mask_eq_exp_minus_1)
  then show "(prot OR PROT_WRITE) AND 7 = (prot AND 7) OR PROT_WRITE" by (simp add: word_ao_dist)
  have "(2 :: u32) = push_bit 1 1" by simp
  then show "prot AND PROT_WRITE \<noteq> 0 \<Longrightarrow> prot OR PROT_WRITE = prot"
    unfolding and_bit_iff by (simp only:) (rule bit_word_eqI, auto simp: bit_simps)
qed

lemma good_intro:
  assumes "page_ok t" "mmap_lock_count t = mmap_lock_count s + 1" "vm_consts t = vm_consts s"
    "r \<noteq> - 1 \<Longrightarrow> r \<in> A \<and> r < r + len \<and> (\<forall>a. page_get_flags t a = flags_after s r len (prot OR PAGE_VALID) a)"
  shows "mapped_good s A len prot (Inr (r, mmap_unlock t))"
  using assms by (simp add: mapped_good_def) (simp add: mmap_unlock_def)

lemma same_table_desc: "same_table s1 t \<Longrightarrow> page_ok s1 \<Longrightarrow> page_ok t \<and> page_get_flags t = page_get_flags s1 \<and>
     mmap_lock_count t = mmap_lock_count s1 \<and> vm_consts t = vm_consts s1"
  using same_table_flags [of s1 t] by (auto simp: fun_eq_iff same_table_def vm_consts_def)

lemma good_read_in:
  assumes "page_ok t" "host_memory t" "kernel_ok t" "mmap_lock_count t = mmap_lock_count s + 1" "vm_consts t = vm_consts s" "prot AND 7 = prot" "aligned start" "aligned len"
    and "start < start + len" "\<And>a. page_get_flags t a = flags_after s start len ((prot OR PROT_WRITE) OR PAGE_VALID) a"
  shows "mapped_good s {start} len prot (read_in start len prot fd offset t)"
proof -
  let ?h = "host (Host_pread fd (g2h t start) len offset) t"
  let ?u = "snd ?h"
  have st: "same_table t ?u" by simp
  have u: "page_ok ?u" "page_get_flags ?u = page_get_flags t" "mmap_lock_count ?u = mmap_lock_count s + 1" "host_memory ?u" "kernel_ok ?u"
    "vm_consts ?u = vm_consts s"
    using same_table_desc [OF st assms(1)] assms(4,5) same_table_flags(3) [OF st] kernel_ok_same(1) [OF st] assms(2,3) by simp_all
  have w: "page_get_flags ?u a = flags_after s start len (prot OR PAGE_VALID) a" if "prot AND PROT_WRITE \<noteq> 0" for a
    using assms(10) that by (simp add: u(2) prot_write(2))
  have al: "TARGET_PAGE_ALIGN len = len" using assms(8) by (rule align_aligned)
  obtain r3 s3 where m: "target_mprotect start len prot ?u = Inr (r3, s3)"
    "unlocked ?u s3 (if r3 = 0 then flags_after ?u start len (prot OR PAGE_VALID) else page_get_flags ?u)"
    using target_mprotect_outcome [OF u(1,4) assms(7), of len prot] assms(9) unfolding al assms(6) by blast
  have r3: "r3 = 0 \<or> r3 = - 1" using mprotect_answers [OF u(5) assms(7) _ m(1)] assms(9) by (simp add: al)
  have s3: "page_ok s3" "mmap_lock_count s3 = mmap_lock_count s + 1" "vm_consts s3 = vm_consts s" using m(2) u by (simp_all add: unlocked_def)
  have f3: "page_get_flags s3 a = flags_after s start len (prot OR PAGE_VALID) a" if "r3 = 0" for a
    using m(2) that assms(10) [of a] by (simp add: unlocked_def flags_after_def u(2))
  have "mapped_good s {start} len prot (Inr (if r3 \<noteq> 0 then word_of_int r3 else start, mmap_unlock s3))"
    using r3 s3 f3 assms(9) by (intro good_intro) auto
  moreover have "mapped_good s {start} len prot (mmap_fail ?u)" unfolding mmap_fail_def using u by (intro good_intro) auto
  moreover have "mapped_good s {start} len prot (Inr (start, mmap_unlock ?u))" if "prot AND PROT_WRITE \<noteq> 0"
    using u w that assms(9) by (intro good_intro) auto
  ultimately show ?thesis using m(1) by (cases "r3 = 0") (simp_all add: read_in_def Let_def split_def)
qed

lemma target_mmap_good:
  assumes ok: "page_ok s" "host_memory s" "kernel_ok s" "reserved_va s = 0" "TARGET_PAGE_SIZE \<le> qemu_real_host_page_size s"
    and "prot AND 7 = prot" "TARGET_PAGE_ALIGN len \<noteq> 0"
  shows "mapped_good s (if flags AND MAP_FIXED = 0 then {a. aligned a} else {start}) (TARGET_PAGE_ALIGN len) prot (target_mmap start len prot flags fd offset s)"
proof (cases "flags AND MAP_FIXED = 0 \<or> flags AND MAP_ANONYMOUS \<noteq> 0 \<or> offset AND NOT (qemu_host_page_mask s) = start AND NOT (qemu_host_page_mask s)")
  case True
  then show ?thesis by (rule target_mmap_simple [OF assms])
next
  case False
  let ?s = "mmap_lock s" and ?len = "TARGET_PAGE_ALIGN len"
  let ?inner = "target_mmap start ?len (prot OR PROT_WRITE) mmap_flags_anon (- 1) 0 ?s"
  have l: "mmap_len ?len flags fd offset ?s = (Some ?len, ?s)" using ok(5) by (intro mmap_len_whole) simp
  have oks: "page_ok ?s" "host_memory ?s" "kernel_ok ?s" "reserved_va ?s = 0" "TARGET_PAGE_SIZE \<le> qemu_real_host_page_size ?s"
    using ok by (simp_all add: kernel_ok_same(2))
  have p: "(prot OR PROT_WRITE) AND 7 = prot OR PROT_WRITE" using assms(6) by (simp add: prot_write(1))
  have an: "mmap_flags_anon AND MAP_FIXED \<noteq> 0" "mmap_flags_anon AND MAP_ANONYMOUS \<noteq> 0" by (simp_all add: mmap_flags_anon_def)
  have len: "TARGET_PAGE_ALIGN ?len = ?len" by (rule align_aligned [OF aligned_align])
  have inner: "mapped_good ?s {start} ?len (prot OR PROT_WRITE) ?inner"
    using target_mmap_simple [OF oks p, of ?len mmap_flags_anon 0 start "- 1"] an assms(7) by (simp add: len)
  have "mapped_good s {start} ?len prot (and_then ?inner (\<lambda>(retaddr, t). if retaddr = - 1 then mmap_fail t else read_in start ?len prot fd offset t))"
    if al: "aligned start"
  proof (cases ?inner)
    case (Inl e)
    then show ?thesis using inner by (simp add: mapped_good_def)
  next
    case (Inr x)
    obtain r t where x: "x = (r, t)" by (cases x)
    have t: "page_ok t" "mmap_lock_count t = mmap_lock_count s + 1" "vm_consts t = vm_consts s" using inner by (simp_all add: Inr x mapped_good_def)
    show ?thesis
    proof (cases "r = - 1")
      case True
      then show ?thesis using t by (simp add: Inr x mmap_fail_def good_intro)
    next
      case False
      then have fl: "start < start + ?len" "page_get_flags t a = flags_after s start ?len ((prot OR PROT_WRITE) OR PAGE_VALID) a" for a
        using inner by (auto simp: Inr x mapped_good_def flags_after_def)
      have "host_memory t" "kernel_ok t" using ok(2,3) t(3) by (simp_all add: vm_consts_def host_memory_def kernel_ok_def)
      from good_read_in [OF t(1) this t(2,3) assms(6) al aligned_align fl] False show ?thesis by (simp add: Inr x)
    qed
  qed
  then show ?thesis
    unfolding target_mmap.simps [of start len] Let_def l aligned_iff split_conv option.case lock_fields
    using False good_fail [OF ok(1), of "set_errno EINVAL (mmap_lock s)"] assms(7)
    by auto
qed

section \<open>Searching the reserved address space\<close>

text \<open>
  What the search looks at in an area: every \<open>H\<close>-th byte, that is, the first guest page of each host page.
  The other guest pages of a host page are not tested.
\<close>

definition free_area :: "vm_state \<Rightarrow> u32 \<Rightarrow> nat \<Rightarrow> bool" where
  "free_area s a n \<longleftrightarrow> (\<forall>k<n. page_get_flags s (a + of_nat (k * unat (qemu_host_page_size s))) = 0)"

definition search_ok :: "vm_state \<Rightarrow> u32 \<Rightarrow> nat \<Rightarrow> (u32 \<times> vm_state) option \<Rightarrow> bool" where
  "search_ok s sz n res \<longleftrightarrow> (\<exists>r s'. res = Some (r, s') \<and> same_table s s' \<and>
     (r = - 1 \<or> unat r mod unat (qemu_host_page_size s) = 0 \<and> free_area s r n \<and> unat r + unat sz < unat (reserved_va s)))"

lemma find_reserved_search:
  fixes n j :: nat and s :: vm_state
  defines "H \<equiv> unat (qemu_host_page_size s)"
  assumes "0 < H" "unat sz = n * H" "0 < n" "addr = last_addr + of_nat (j * H)" "j \<le> n" "free_area s last_addr j"
    and "unat last_addr mod H = 0" "0 < j \<Longrightarrow> unat last_addr + unat sz < unat (reserved_va s)"
  shows "search_ok s sz n (find_reserved_loop sz addr last_addr looped s)"
  using assms(5-9)
proof (induction "(if looped then 0 else 2 ^ 33) + (2 ^ 32 - unat addr)" arbitrary: addr last_addr j looped rule: less_induct)
  case less
  let ?h = "qemu_host_page_size s"
  have h: "of_nat H = ?h" by (simp add: H_def)
  have jn: "j * H \<le> unat sz" using less.prems(2) assms(3) by simp
  have full: "last_addr + sz = addr \<longleftrightarrow> j = n"
  proof -
    have "last_addr + sz = addr \<longleftrightarrow> sz = of_nat (j * H)" using less.prems(1) by auto
    moreover have "unat (of_nat (j * H) :: u32) = j * H" using jn u32_less [of sz] by (intro unat_of_nat_u32) simp
    ultimately have "last_addr + sz = addr \<longleftrightarrow> unat sz = j * H" by (metis word_unat_eq_iff)
    then show ?thesis using assms(2,3) by auto
  qed
  show ?case
  proof (cases "j = n")
    case True
    then show ?thesis using full less.prems(3-5) assms(4) by (subst find_reserved_loop.simps) (simp add: search_ok_def H_def)
  next
    case False
    show ?thesis
    proof (cases "reserved_va s \<le> last_addr + sz \<or> last_addr + sz < last_addr")
      case True
      have "search_ok s sz n (find_reserved_loop sz (0 + ?h) ?h True s)" if "\<not> looped"
      proof (rule less.hyps [of True "0 + ?h" ?h 0])
        show "(if True then 0 else 2 ^ 33) + (2 ^ 32 - unat (0 + ?h)) < (if looped then 0 else 2 ^ 33) + (2 ^ 32 - unat addr)" using that by simp
      qed (simp_all add: free_area_def H_def)
      with True False full show ?thesis by (subst find_reserved_loop.simps) (auto simp: search_ok_def)
    next
      case room: False
      then have lt: "unat last_addr + unat sz < unat (reserved_va s)"
        using u32_less [of sz] u32_less [of last_addr]
        by (auto simp: word_le_nat_alt word_less_nat_alt unat_plus_if_size word_size split: if_splits)
      have "Suc j * H \<le> unat sz" using less.prems(2) False assms(3) by (metis Suc_leI le_neq_implies_less mult_le_mono1)
      then have sum: "unat last_addr + Suc j * H < 4294967296" using lt u32_less [of "reserved_va s"] by simp
      have a: "unat addr = unat last_addr + j * H"
        using sum by (simp add: less.prems(1) unat_word_ariths unat_of_nat del: of_nat_mult)
      have next': "addr + ?h = last_addr + of_nat (Suc j * H)" by (simp add: less.prems(1) h [symmetric] algebra_simps)
      have a': "unat (addr + ?h) = unat last_addr + Suc j * H"
        using sum by (simp add: next' unat_word_ariths unat_of_nat del: of_nat_mult mult_Suc)
      have m': "unat (addr + ?h) mod H = 0" unfolding a' mod_mult_self1 by (rule less.prems(4))
      have less': "(if looped then 0 else 2 ^ 33) + (2 ^ 32 - unat (addr + ?h)) < (if looped then 0 else 2 ^ 33) + (2 ^ 32 - unat addr)"
        using a a' sum assms(2) by simp
      have "search_ok s sz n (find_reserved_loop sz (addr + ?h) (addr + ?h) looped s)"
        by (rule less.hyps [OF less', of _ 0]) (simp_all add: free_area_def m')
      moreover have "search_ok s sz n (find_reserved_loop sz (addr + ?h) last_addr looped s)" if "page_get_flags s addr = 0"
      proof (rule less.hyps [OF less', of _ "Suc j"])
        show "free_area s last_addr (Suc j)"
          using less.prems(1,3) that by (auto simp: free_area_def less_Suc_eq H_def)
      qed (use next' less.prems(2,4) False lt in auto)
      ultimately show ?thesis using room False full by (subst find_reserved_loop.simps) auto
    qed
  qed
qed

section \<open>Moving a mapping\<close>

lemma mremap_host_table:
  assumes "mremap_host old_addr old_size new_size flags new_addr s = Inr (h, t)"
  shows "same_table s t"
proof -
  have find: "same_table s u" if "find_vma a b s = Inr (r, u)" for a b r u using mmap_find_table [OF that] by simp
  show ?thesis
    using assms by (auto simp: mremap_host_def mremap_in_place_def Let_def split_def split: if_splits dest!: find)
qed

definition flags_moved :: "vm_state \<Rightarrow> u32 \<Rightarrow> u32 \<Rightarrow> u32 \<Rightarrow> u32 \<Rightarrow> u32 \<Rightarrow> u32" where
  "flags_moved s old old_size new new_size a =
     (if in_area new new_size a then stored_flags (page_get_flags s old OR PAGE_VALID)
      else if in_area old old_size a then 0 else page_get_flags s a)"

lemma flags_ok_valid: "flags_ok f \<Longrightarrow> flags_ok (f OR PAGE_VALID)"
  unfolding flags_ok_def and_bit_iff by (simp add: bit_simps)

lemma page_set_flags_start: "page_set_flags a b f s = Inr s' \<Longrightarrow> a < b"
  by (auto simp: page_set_flags_def split: if_splits)

lemma target_mremap_outcome:
  assumes "page_ok s" "target_mremap old old_size new_size flags new s = Inr (r, s')"
    and "\<not> whole_space old (old + old_size - 1)" "\<not> whole_space r (r + new_size - 1)"
  shows "r = - 1 \<and> unlocked s s' (page_get_flags s) \<or> unlocked s s' (flags_moved s old old_size r new_size)"
proof -
  obtain h t where h: "mremap_host old old_size new_size flags new (mmap_lock s) = Inr (h, t)"
    using assms(2) by (auto simp: target_mremap_def)
  note st = mremap_host_table [OF h]
  note t = same_table_flags [OF st]
  have okt: "page_ok t" using assms(1) t by simp
  show ?thesis
  proof (cases "h = MAP_FAILED")
    case True
    then show ?thesis using assms(2) h unlock_unchanged [OF assms(1) st] by (auto simp: target_mremap_def)
  next
    case False
    obtain t1 t2 where p: "page_set_flags old (old + old_size) 0 t = Inr t1"
      "page_set_flags r (r + new_size) (page_get_flags t old OR PAGE_VALID) t1 = Inr t2" "s' = mmap_unlock t2"
      using assms(2) h False by (auto simp: target_mremap_def Let_def)
    have fo: "flags_ok (page_get_flags t old OR PAGE_VALID)" by (rule flags_ok_valid [OF page_okD(2) [OF okt]])
    note lt = page_set_flags_start [OF p(1)] page_set_flags_start [OF p(2)]
    note mv = guest_pages.move [OF okt fo lt(1) assms(3) p(1) lt(2) assms(4) p(2)]
    have k: "keeps_flags t t1" using page_set_flags_spec [OF okt prot_flags_ok(2) lt(1) assms(3) p(1)] by simp
    have "page_ok t1" using page_set_flags_spec [OF okt prot_flags_ok(2) lt(1) assms(3) p(1)] by simp
    then have k2: "keeps_flags t1 t2" using page_set_flags_spec [OF _ fo lt(2) assms(4) p(2)] by simp
    have "unlocked s s' (flags_moved s old old_size r new_size)"
      unfolding p(3) unlocked_def using mv k k2 st
      by (simp add: flags_moved_def in_area_def t) (simp add: keeps_flags_def mmap_unlock_def same_table_def vm_consts_def)
    then show ?thesis by blast
  qed
qed

lemma target_mremap_aborts:
  assumes "page_ok s" "host_memory s" "\<not> whole_space old (old + old_size - 1)" "target_mremap old old_size new_size flags new s = Inl e"
  shows "e = Assertion_Failed \<or> e = Never_Returns"
proof (cases "mremap_host old old_size new_size flags new (mmap_lock s)")
  case (Inl d)
  then have "d = Never_Returns"
    by (auto simp: mremap_host_def find_vma_def and_then_def Let_def split_def split: if_splits option.splits sum.splits)
  then show ?thesis using assms(4) Inl by (simp add: target_mremap_def)
next
  case (Inr x)
  obtain h t where x: "x = (h, t)" by (cases x)
  note t = same_table_flags [OF mremap_host_table [OF Inr [unfolded x]]]
  have ok: "page_ok t" "host_memory t" using assms(1,2) t by simp_all
  have fo: "flags_ok (page_get_flags t old OR PAGE_VALID)" by (rule flags_ok_valid [OF page_okD(2) [OF ok(1)]])
  have ends: "d = Assertion_Failed" if "page_set_flags a b f u = Inl d" "page_ok u" "flags_ok f" "host_memory u" for a b f u d
    using that page_set_flags_total [OF that(2-4), of a b] by (cases "a < b") (auto simp: page_set_flags_def)
  show ?thesis
  proof (cases "page_set_flags old (old + old_size) 0 t")
    case (Inl d)
    then show ?thesis using assms(4) Inr x ends [OF Inl ok(1) prot_flags_ok(2) ok(2)] by (auto simp: target_mremap_def Let_def split: if_splits)
  next
    case (Inr u)
    note sp = page_set_flags_spec [OF ok(1) prot_flags_ok(2) page_set_flags_start [OF Inr] assms(3) Inr]
    have u: "page_ok u" "host_memory u" using sp ok(2) by (auto simp: keeps_flags_def host_memory_def)
    then show ?thesis
      using assms(4) Inr \<open>mremap_host _ _ _ _ _ _ = _\<close> x ends [OF _ u(1) fo u(2)]
      by (auto simp: target_mremap_def Let_def and_then_def split: if_splits sum.splits)
  qed
qed

section \<open>The last host page of a fixed mapping\<close>

lemma fold_skip: "\<forall>x\<in>set xs. \<not> P x \<Longrightarrow> fold (\<lambda>x acc. if P x then f x acc else acc) xs acc = acc"
  by (induction xs) simp_all

lemma or_outside_all: "or_outside s a b a b = 0"
proof -
  have "\<not> (a + of_nat k < a \<or> b \<le> a + of_nat k)" if "k < unat b - unat a" for k
  proof -
    have "unat (a + of_nat k) = unat a + k" using that u32_less [of b] by (simp add: unat_word_ariths unat_of_nat)
    then show ?thesis using that by (simp add: word_less_nat_alt word_le_nat_alt)
  qed
  then show ?thesis unfolding or_outside_def by (intro fold_skip) auto
qed

lemma host_log_mono: "c \<in> set (host_log s) \<Longrightarrow> c \<in> set (host_log (snd (host d s)))" "c \<in> set (host_log (snd (host c s)))"
  by (simp_all add: host_def)

lemma mmap_last_replaces:
  assumes "end < real_end"
  shows "Host_mmap (g2h s (real_end - qemu_host_page_size s)) (qemu_host_page_size s) prot (flags OR MAP_ANONYMOUS) (- 1) 0
     \<in> set (host_log (snd (snd (mmap_last start end real_end prot flags fd offset s))))"
proof -
  have "or_outside s (real_end - h) (real_end - h + h) (real_end - h) real_end = 0" for h using or_outside_all by simp
  then show ?thesis using assms by (auto simp: mmap_last_def mmap_frag_def Let_def split_def intro!: host_log_mono)
qed

end
