(* ===== verification/Loader.thy ===== *)
theory Loader
  imports Mmap
begin

text \<open>
  The loader's work on the guest's stack (\<^verbatim>\<open>src/linux-user/elfload.c\<close>, \<^verbatim>\<open>src/linux-user/linuxload.c\<close>, with
  \<^verbatim>\<open>target_strlen\<close> of \<^verbatim>\<open>src/linux-user/uaccess.c\<close>): copying the strings of the arguments and the environment into
  pages, mapping the stack, and building the tables of pointers and the auxiliary vector.
\<close>

unbundle bit_operations_syntax

section \<open>Copying the strings\<close>

abbreviation (input) "MAX_ARG_PAGES \<equiv> 33 :: nat"

text \<open>The argument pages \<^verbatim>\<open>bprm->page\<close>: null, or the 4096 bytes of a page.\<close>

type_synonym arg_pages = "nat \<Rightarrow> (nat \<Rightarrow> u8) option"

text \<open>
  Getting the page of the address \<open>p\<close>.  \<open>malloc_ok\<close> says which calls of \<^verbatim>\<open>malloc\<close> succeed; a page that could
  not be allocated is cleared before it is tested.
\<close>

definition arg_page :: "(nat \<Rightarrow> bool) \<Rightarrow> nat \<Rightarrow> arg_pages \<Rightarrow> (nat \<times> arg_pages) outcome" where
  "arg_page malloc_ok p page =
     (let i = p div 4096 in
      if i \<ge> MAX_ARG_PAGES then Inl Out_Of_Bounds
      else case page i of
        Some _ \<Rightarrow> Inr (i, page)
      | None \<Rightarrow> if malloc_ok i then Inr (i, page(i \<mapsto> (\<lambda>_. 0))) else Inl Null_Dereference)"

text \<open>Storing bytes at an offset of the page \<open>pag\<close>.\<close>

definition arg_store :: "nat option \<Rightarrow> nat \<Rightarrow> u8 list \<Rightarrow> arg_pages \<Rightarrow> arg_pages outcome" where
  "arg_store pag off bs page =
     (case pag of None \<Rightarrow> Inl Null_Dereference
      | Some i \<Rightarrow>
          (case page i of None \<Rightarrow> Inl Null_Dereference
           | Some f \<Rightarrow>
               if off + length bs > 4096 then Inl Out_Of_Bounds
               else Inr (page(i \<mapsto> (\<lambda>o'. if off \<le> o' \<and> o' < off + length bs then bs ! (o' - off) else f o')))))"

text \<open>
  The inner loop for one string \<open>bs\<close>, its final null included: \<open>len\<close> bytes of it are still to be copied, from
  the last to the first, and go below the address \<open>p\<close>.  The variables \<^verbatim>\<open>offset\<close> and \<^verbatim>\<open>pag\<close> carry over from one
  string to the next; a run of bytes within one page is copied at once.
\<close>

function copy_string :: "(nat \<Rightarrow> bool) \<Rightarrow> u8 list \<Rightarrow> nat \<Rightarrow> nat \<Rightarrow> int \<Rightarrow> nat option \<Rightarrow> arg_pages \<Rightarrow> (nat \<times> int \<times> nat option \<times> arg_pages) outcome" where
  "copy_string malloc_ok bs len p offset pag page =
     (if len = 0 then Inr (p, offset, pag, page)
      else
        let p = p - 1; len = len - 1; offset = offset - 1 in
        and_then (if offset < 0
                  then and_then (arg_page malloc_ok p page) (\<lambda>(i, page). Inr (int (p mod 4096), Some i, page))
                  else Inr (offset, pag, page)) (\<lambda>(offset, pag, page).
          if len = 0 \<or> offset = 0
          then and_then (arg_store pag (nat offset) [bs ! len] page) (copy_string malloc_ok bs len p offset pag)
          else
            let bytes_to_copy = (if int len > offset then nat offset else len);
                p = p - bytes_to_copy; offset = offset - int bytes_to_copy; len = len - bytes_to_copy in
            and_then (arg_store pag (nat offset) (take (bytes_to_copy + 1) (drop len bs)) page)
              (copy_string malloc_ok bs len p offset pag)))"
  by pat_completeness auto
termination by (relation "measure (\<lambda>(m, bs, len, _). len)") auto

declare copy_string.simps [simp del]

text \<open>
  The outer loop takes the strings from the last to the first; \<open>args\<close> is what is left of \<^verbatim>\<open>argv\<close>, reversed.
  A string that does not fit makes the result 0.
\<close>

fun copy_strings_loop :: "(nat \<Rightarrow> bool) \<Rightarrow> u8 list list \<Rightarrow> nat \<Rightarrow> int \<Rightarrow> nat option \<Rightarrow> arg_pages \<Rightarrow> (nat \<times> arg_pages) outcome" where
  "copy_strings_loop malloc_ok [] p offset pag page = Inr (p, page)"
| "copy_strings_loop malloc_ok (s # args) p offset pag page =
     (let bs = s @ [0] in
      if p < length bs then Inr (0, page)
      else and_then (copy_string malloc_ok bs (length bs) p offset pag page)
             (\<lambda>(p, offset, pag, page). copy_strings_loop malloc_ok args p offset pag page))"

definition copy_elf_strings :: "(nat \<Rightarrow> bool) \<Rightarrow> u8 list list \<Rightarrow> arg_pages \<Rightarrow> nat \<Rightarrow> (nat \<times> arg_pages) outcome" where
  "copy_elf_strings malloc_ok argv page p =
     (if p = 0 then Inr (0, page) else copy_strings_loop malloc_ok (rev argv) p 0 None page)"

text \<open>The three calls of \<^verbatim>\<open>load_elf_binary\<close>: the name of the file goes highest, then the environment, then the arguments.\<close>

definition copy_bprm_strings :: "(nat \<Rightarrow> bool) \<Rightarrow> u8 list \<Rightarrow> u8 list list \<Rightarrow> u8 list list \<Rightarrow> arg_pages \<Rightarrow> nat \<Rightarrow> (nat \<times> arg_pages) outcome" where
  "copy_bprm_strings malloc_ok filename envp argv page p =
     and_then (copy_elf_strings malloc_ok [filename] page p) (\<lambda>(p, page).
     and_then (copy_elf_strings malloc_ok envp page p) (\<lambda>(p, page).
     copy_elf_strings malloc_ok argv page p))"

section \<open>State of the loader\<close>

text \<open>The guest's page table and memory, and \<^verbatim>\<open>struct image_info\<close>.\<close>

record loader_state =
  l_vm :: vm_state
  l_mem :: memory
  info_load_addr :: u32
  start_code :: u32
  end_code :: u32
  start_data :: u32
  end_data :: u32
  start_brk :: u32
  info_brk :: u32
  start_mmap :: u32
  info_mmap :: u32
  rss :: u32
  start_stack :: u32
  stack_limit :: u32
  info_entry :: u32
  saved_auxv :: u32
  arg_start :: u32
  arg_end :: u32
  personality :: u32

text \<open>An anonymous mapping: the pages that the kernel hands out are clear.\<close>

definition mmap_anon :: "u32 \<Rightarrow> u32 \<Rightarrow> u32 \<Rightarrow> u32 \<Rightarrow> loader_state \<Rightarrow> (u32 \<times> loader_state) outcome" where
  "mmap_anon start len prot flags s =
     and_then (target_mmap start len prot (flags OR MAP_ANONYMOUS) (- 1) 0 (l_vm s)) (\<lambda>(r, v).
       Inr (r, s\<lparr>l_vm := v, l_mem := (\<lambda>a. if r \<noteq> - 1 \<and> a \<in> region r (unat len) then 0 else l_mem s a)\<rparr>))"

text \<open>\<^verbatim>\<open>put_user\<close> with four bytes; every caller here ignores its result.\<close>

definition put_user_ual :: "u32 \<Rightarrow> u32 \<Rightarrow> loader_state \<Rightarrow> loader_state outcome" where
  "put_user_ual x gaddr s =
     and_then (lock_user VERIFY_WRITE gaddr 4 (l_vm s)) (\<lambda>(p, v).
       let s = s\<lparr>l_vm := v\<rparr> in Inr (if p \<noteq> 0 then s\<lparr>l_mem := st32 (l_mem s) gaddr x\<rparr> else s))"

definition put_user_u8 :: "u8 \<Rightarrow> u32 \<Rightarrow> loader_state \<Rightarrow> loader_state outcome" where
  "put_user_u8 x gaddr s =
     and_then (lock_user VERIFY_WRITE gaddr 1 (l_vm s)) (\<lambda>(p, v).
       let s = s\<lparr>l_vm := v\<rparr> in Inr (if p \<noteq> 0 then s\<lparr>l_mem := (l_mem s)(gaddr := x)\<rparr> else s))"

definition memcpy_to_target :: "u32 \<Rightarrow> u8 list \<Rightarrow> loader_state \<Rightarrow> (int \<times> loader_state) outcome" where
  "memcpy_to_target dest bs s =
     and_then (lock_user VERIFY_WRITE dest (of_nat (length bs)) (l_vm s)) (\<lambda>(p, v).
       let s = s\<lparr>l_vm := v\<rparr> in
       Inr (if p = 0 then (- 14, s) else (0, s\<lparr>l_mem := write_bytes (l_mem s) dest bs\<rparr>)))"

text \<open>The length of a string in the guest's memory, page by page.\<close>

primrec qemu_strnlen :: "memory \<Rightarrow> u32 \<Rightarrow> nat \<Rightarrow> nat" where
  "qemu_strnlen m s 0 = 0"
| "qemu_strnlen m s (Suc max_len) = (if m s = 0 then 0 else Suc (qemu_strnlen m (s + 1) max_len))"

partial_function (option) strlen_loop :: "loader_state \<Rightarrow> u32 \<Rightarrow> u32 \<Rightarrow> u32 outcome option" where
  "strlen_loop s guest_addr1 guest_addr =
     (let max_len = TARGET_PAGE_SIZE - (guest_addr AND NOT TARGET_PAGE_MASK) in
      case lock_user VERIFY_READ guest_addr max_len (l_vm s) of
        Inl e \<Rightarrow> Some (Inl e)
      | Inr (p, v) \<Rightarrow>
          if p = 0 then Some (Inr (- 14))
          else
            let len = of_nat (qemu_strnlen (l_mem s) guest_addr (unat max_len)); guest_addr = guest_addr + len in
            if guest_addr = 0 \<or> guest_addr - guest_addr1 > 0x7fffffff then Some (Inr (- 14))
            else if len \<noteq> max_len then Some (Inr (guest_addr - guest_addr1))
            else strlen_loop s guest_addr1 guest_addr)"

definition target_strlen :: "u32 \<Rightarrow> loader_state \<Rightarrow> u32 outcome" where
  "target_strlen guest_addr1 s =
     (case strlen_loop s guest_addr1 guest_addr1 of None \<Rightarrow> Inl Never_Returns | Some r \<Rightarrow> r)"

section \<open>The stack\<close>

text \<open>Copying the argument pages to the stack; \<open>n\<close> pages are left, from the page \<open>i\<close> on.\<close>

primrec copy_pages :: "nat \<Rightarrow> nat \<Rightarrow> arg_pages \<Rightarrow> u32 \<Rightarrow> loader_state \<Rightarrow> loader_state outcome" where
  "copy_pages 0 i page stack_base s = Inr s"
| "copy_pages (Suc n) i page stack_base s =
     (case page i of
        None \<Rightarrow> copy_pages n (i + 1) page (stack_base + TARGET_PAGE_SIZE) s
      | Some f \<Rightarrow>
          and_then (memcpy_to_target stack_base (map f [0..<4096]) (s\<lparr>rss := rss s + 1\<rparr>))
            (\<lambda>(_, s). copy_pages n (i + 1) page (stack_base + TARGET_PAGE_SIZE) s))"

text \<open>\<^verbatim>\<open>setup_arg_pages\<close>; \<^verbatim>\<open>exit (-1)\<close> after a failed mapping is the reason \<open>Aborted\<close>.\<close>

definition setup_arg_pages :: "u32 \<Rightarrow> u32 \<Rightarrow> arg_pages \<Rightarrow> loader_state \<Rightarrow> (u32 \<times> loader_state) outcome" where
  "setup_arg_pages guest_stack_size p page s =
     (let sz = (if guest_stack_size < 0x21000 then 0x21000 else guest_stack_size) in
      and_then (mmap_anon 0 (sz + qemu_host_page_size (l_vm s)) (PROT_READ OR PROT_WRITE) MAP_PRIVATE s) (\<lambda>(error, s).
        if error = - 1 then Inl Aborted
        else
          and_then (target_mprotect (error + sz) (qemu_host_page_size (l_vm s)) PROT_NONE (l_vm s)) (\<lambda>(_, v).
            let s = s\<lparr>l_vm := v, stack_limit := error\<rparr>;
                stack_base = error + sz - 0x21000
            in and_then (copy_pages MAX_ARG_PAGES 0 page stack_base s) (\<lambda>s. Inr (p + stack_base, s)))))"

text \<open>The loops of \<^verbatim>\<open>loader_build_argptr\<close>: one pointer per string.\<close>

primrec put_pointers :: "nat \<Rightarrow> u32 \<Rightarrow> u32 \<Rightarrow> loader_state \<Rightarrow> (u32 \<times> u32 \<times> loader_state) outcome" where
  "put_pointers 0 stringp argv s = Inr (stringp, argv, s)"
| "put_pointers (Suc n) stringp argv s =
     and_then (put_user_ual stringp argv s) (\<lambda>s.
     and_then (target_strlen stringp s) (\<lambda>len. put_pointers n (stringp + len + 1) (argv + 4) s))"

definition loader_build_argptr :: "int \<Rightarrow> int \<Rightarrow> u32 \<Rightarrow> u32 \<Rightarrow> bool \<Rightarrow> loader_state \<Rightarrow> (u32 \<times> loader_state) outcome" where
  "loader_build_argptr envc argc sp stringp push_ptr s =
     (let sp = sp - word_of_int ((envc + 1) * 4); envp = sp;
          sp = sp - word_of_int ((argc + 1) * 4); argv = sp in
      and_then (if push_ptr then and_then (put_user_ual envp (sp - 4) s) (put_user_ual argv (sp - 8)) else Inr s) (\<lambda>s.
        let sp = (if push_ptr then sp - 8 else sp) - 4 in
        and_then (put_user_ual (word_of_int argc) sp s) (\<lambda>s.
        let s = s\<lparr>arg_start := stringp\<rparr> in
        and_then (put_pointers (nat argc) stringp argv s) (\<lambda>(stringp, argv, s).
        let s = s\<lparr>arg_end := stringp\<rparr> in
        and_then (put_user_ual 0 argv s) (\<lambda>s.
        and_then (put_pointers (nat envc) stringp envp s) (\<lambda>(stringp, envp, s).
        and_then (put_user_ual 0 envp s) (\<lambda>s. Inr (sp, s))))))))"

section \<open>The auxiliary vector\<close>

text \<open>
  The fields of the ELF header that the loader reads, and the machine's description of itself and the
  user's identity, as \<^verbatim>\<open>create_elf_tables\<close> asks for them.
\<close>

record elfhdr =
  e_type :: u16
  e_machine :: u16
  e_entry :: u32
  e_phoff :: u32
  e_phentsize :: u16
  e_phnum :: u16

record host_ids =
  h_getuid :: u32
  h_geteuid :: u32
  h_getgid :: u32
  h_getegid :: u32
  h_clktck :: u32
  cpuid_version :: u32
  cpuid_features :: u32

definition get_elf_platform :: "host_ids \<Rightarrow> u8 list" where
  "get_elf_platform h =
     (let family = drop_bit 8 (cpuid_version h) AND 0xff; family = (if family > 6 then 6 else family)
      in [0x69, if family \<ge> 3 then 0x30 + ucast family else 0x33, 0x38, 0x36])"

text \<open>\<^verbatim>\<open>NEW_AUX_ENT\<close>, for a list of entries.\<close>

primrec new_aux_ents :: "(u32 \<times> u32) list \<Rightarrow> u32 \<Rightarrow> loader_state \<Rightarrow> (u32 \<times> loader_state) outcome" where
  "new_aux_ents [] sp s = Inr (sp, s)"
| "new_aux_ents (e # es) sp s =
     and_then (put_user_ual (snd e) (sp - 4) s) (\<lambda>s.
     and_then (put_user_ual (fst e) (sp - 8) s) (new_aux_ents es (sp - 8)))"

abbreviation (input) "DLINFO_ITEMS \<equiv> 12 :: int"

definition aux_vector :: "elfhdr \<Rightarrow> host_ids \<Rightarrow> u32 \<Rightarrow> u32 \<Rightarrow> u32 \<Rightarrow> u32 \<Rightarrow> (u32 \<times> u32) list" where
  "aux_vector exec h load_addr load_bias interp_load_addr u_platform =
     [(0, 0), (3, load_addr + e_phoff exec), (4, 32), (5, ucast (e_phnum exec)), (6, TARGET_PAGE_SIZE), (7, interp_load_addr),
      (8, 0), (9, load_bias + e_entry exec), (11, h_getuid h), (12, h_geteuid h), (13, h_getgid h), (14, h_getegid h),
      (16, cpuid_features h), (17, h_clktck h), (15, u_platform)]"

definition create_elf_tables ::
    "u32 \<Rightarrow> int \<Rightarrow> int \<Rightarrow> elfhdr \<Rightarrow> host_ids \<Rightarrow> u32 \<Rightarrow> u32 \<Rightarrow> u32 \<Rightarrow> bool \<Rightarrow> loader_state \<Rightarrow> (u32 \<times> loader_state) outcome" where
  "create_elf_tables p argc envc exec h load_addr load_bias interp_load_addr ibcs s =
     (let k_platform = get_elf_platform h @ [0];
          sp = p - ((of_nat (length k_platform) + 3) AND NOT 3); u_platform = sp in
      and_then (memcpy_to_target sp k_platform s) (\<lambda>(_, s).
        let sp = sp AND NOT 15;
            sz = ((DLINFO_ITEMS + 1) * 2 + 2 + envc + argc + 2 + (if \<not> ibcs then 3 else 1)) * 4;
            sp = (if sz AND 15 \<noteq> 0 then sp - word_of_int (16 - (sz AND 15)) else sp) in
        and_then (new_aux_ents (aux_vector exec h load_addr load_bias interp_load_addr u_platform) sp s) (\<lambda>(sp, s).
          loader_build_argptr envc argc sp p (\<not> ibcs) (s\<lparr>saved_auxv := sp\<rparr>))))"

section \<open>The break and the rest of a page\<close>

definition set_brk :: "u32 \<Rightarrow> u32 \<Rightarrow> loader_state \<Rightarrow> loader_state outcome" where
  "set_brk start end s =
     (let start = HOST_PAGE_ALIGN (l_vm s) start; end = HOST_PAGE_ALIGN (l_vm s) end in
      if end \<le> start then Inr s
      else and_then (mmap_anon start (end - start) 7 (MAP_FIXED OR MAP_PRIVATE) s) (\<lambda>(r, s).
             if r = - 1 then Inl Aborted else Inr s))"

primrec zero_bytes :: "nat \<Rightarrow> u32 \<Rightarrow> loader_state \<Rightarrow> loader_state outcome" where
  "zero_bytes 0 elf_bss s = Inr s"
| "zero_bytes (Suc n) elf_bss s = and_then (put_user_u8 0 elf_bss s) (zero_bytes n (elf_bss + 1))"

definition padzero :: "u32 \<Rightarrow> u32 \<Rightarrow> loader_state \<Rightarrow> loader_state outcome" where
  "padzero elf_bss last_bss s =
     (if elf_bss \<ge> last_bss then Inr s
      else
        let v = l_vm s;
            s = (if qemu_real_host_page_size v < qemu_host_page_size v then
                   (let end_addr1 = (elf_bss + qemu_real_host_page_size v - 1) AND NOT (qemu_real_host_page_size v - 1);
                        end_addr = HOST_PAGE_ALIGN v elf_bss in
                    if end_addr1 < end_addr
                    then s\<lparr>l_vm := snd (host (Host_mmap (g2h v end_addr1) (end_addr - end_addr1) 7 0x32 (- 1) 0) v),
                           l_mem := (\<lambda>a. if a \<in> region end_addr1 (unat (end_addr - end_addr1)) then 0 else l_mem s a)\<rparr>
                    else s)
                 else s);
            nbyte = elf_bss AND (qemu_host_page_size (l_vm s) - 1) in
        if nbyte \<noteq> 0 then zero_bytes (unat (qemu_host_page_size (l_vm s) - nbyte)) elf_bss s else Inr s)"

section \<open>What is in the pages\<close>

definition arg_byte :: "arg_pages \<Rightarrow> nat \<Rightarrow> u8" where
  "arg_byte page a = (case page (a div 4096) of None \<Rightarrow> 0 | Some f \<Rightarrow> f (a mod 4096))"

lemma arg_byte_empty: "arg_byte (\<lambda>_. None) a = 0"
  by (simp add: arg_byte_def)

text \<open>The reference: the bytes from \<open>p\<close> on are replaced.\<close>

definition put_bytes :: "(nat \<Rightarrow> u8) \<Rightarrow> nat \<Rightarrow> u8 list \<Rightarrow> nat \<Rightarrow> u8" where
  "put_bytes g p bs a = (if p \<le> a \<and> a < p + length bs then bs ! (a - p) else g a)"

lemma put_bytes_Nil [simp]: "put_bytes g p [] = g"
  by (rule ext) (auto simp: put_bytes_def)

lemma put_bytes_append: "put_bytes (put_bytes g (p + length xs) ys) p xs = put_bytes g p (xs @ ys)"
  by (auto simp: put_bytes_def nth_append fun_eq_iff)

lemma arg_page_byte:
  assumes "arg_page malloc_ok p page = Inr (i, page')"
  shows "i = p div 4096" "page' i \<noteq> None" "arg_byte page' = arg_byte page"
proof -
  have c: "i = p div 4096 \<and> (page' = page \<and> page i \<noteq> None \<or> page i = None \<and> page' = page(i \<mapsto> (\<lambda>_. 0)))"
    using assms by (auto simp: arg_page_def Let_def split: if_splits option.splits)
  then show "i = p div 4096" "page' i \<noteq> None" by auto
  show "arg_byte page' = arg_byte page" using c by (auto simp: arg_byte_def)
qed

lemma arg_store_byte:
  assumes "arg_store pag (a mod 4096) bs page = Inr page'" "pag = Some (a div 4096)"
  shows "arg_byte page' = put_bytes (arg_byte page) a bs" "page' (a div 4096) \<noteq> None"
proof -
  obtain f where f: "page (a div 4096) = Some f" "a mod 4096 + length bs \<le> 4096"
    "page' = page(a div 4096 \<mapsto> (\<lambda>o'. if a mod 4096 \<le> o' \<and> o' < a mod 4096 + length bs then bs ! (o' - a mod 4096) else f o'))"
    using assms by (auto simp: arg_store_def split: option.splits if_splits)
  have "arg_byte page' b = put_bytes (arg_byte page) a bs b" for b
  proof (cases "b div 4096 = a div 4096")
    case True
    then have "b = a div 4096 * 4096 + b mod 4096" "a = a div 4096 * 4096 + a mod 4096" by (metis div_mult_mod_eq)+
    then have "a \<le> b \<longleftrightarrow> a mod 4096 \<le> b mod 4096" "b < a + length bs \<longleftrightarrow> b mod 4096 < a mod 4096 + length bs"
      "b - a = b mod 4096 - a mod 4096" by linarith+
    then show ?thesis using True f by (simp add: arg_byte_def put_bytes_def)
  next
    case False
    have "\<not> (a \<le> b \<and> b < a + length bs)"
    proof
      assume ab: "a \<le> b \<and> b < a + length bs"
      then have "b < a div 4096 * 4096 + 4096" using f(2) div_mult_mod_eq [of a 4096] by linarith
      then have "b div 4096 \<le> a div 4096" by (simp add: less_mult_imp_div_less less_Suc_eq_le [symmetric] mult.commute add.commute)
      with ab False show False using div_le_mono [of a b 4096] by linarith
    qed
    then show ?thesis using False f by (auto simp: arg_byte_def put_bytes_def)
  qed
  then show "arg_byte page' = put_bytes (arg_byte page) a bs" by blast
  show "page' (a div 4096) \<noteq> None" using f by simp
qed


text \<open>The cursor: within a page, \<^verbatim>\<open>offset\<close> and \<^verbatim>\<open>pag\<close> are those of the last byte stored.\<close>

definition cursor_ok :: "int \<Rightarrow> nat \<Rightarrow> nat option \<Rightarrow> arg_pages \<Rightarrow> bool" where
  "cursor_ok offset p pag page \<longleftrightarrow> 0 \<le> offset \<and>
     (offset > 0 \<longrightarrow> offset = int (p mod 4096) \<and> pag = Some (p div 4096) \<and> page (p div 4096) \<noteq> None)"

lemma mod_minus:
  assumes "n \<le> p mod 4096"
  shows "(p - n) mod 4096 = p mod 4096 - n \<and> (p - n) div 4096 = p div (4096 :: nat)"
proof -
  have e: "p - n = p div 4096 * 4096 + (p mod 4096 - n)" using assms div_mult_mod_eq [of p 4096] by linarith
  have r: "p mod 4096 - n < 4096" using mod_less_divisor [of 4096 p] by linarith
  show ?thesis unfolding e using r by simp
qed

lemma mod_pred: "0 < p mod 4096 \<Longrightarrow> (p - 1) mod 4096 = p mod 4096 - 1 \<and> (p - 1) div 4096 = p div 4096" for p :: nat
  by (rule mod_minus) simp

lemma arg_page_fetch:
  assumes "0 < p" "p \<le> 33 * 4096" "cursor_ok offset p pag page" "\<And>i. malloc_ok i"
  obtains page' where
    "(if offset - 1 < 0 then and_then (arg_page malloc_ok (p - 1) page) (\<lambda>(i, page). Inr (int ((p - 1) mod 4096), Some i, page))
      else Inr (offset - 1, pag, page)) = Inr (int ((p - 1) mod 4096), Some ((p - 1) div 4096), page')"
    "page' ((p - 1) div 4096) \<noteq> None" "arg_byte page' = arg_byte page"
proof (cases "offset > 0")
  case True
  then show ?thesis using assms(3) mod_pred [of p] that [of page] by (auto simp: cursor_ok_def)
next
  case False
  have "(p - 1) div 4096 < 33" using assms(1,2) by (simp add: div_less_iff_less_mult)
  then obtain i page' where "arg_page malloc_ok (p - 1) page = Inr (i, page')"
    using assms(4) by (fastforce simp: arg_page_def Let_def split: option.splits)
  then show ?thesis using arg_page_byte [of malloc_ok "p - 1" page i page'] False assms(3) that [of page'] by (auto simp: cursor_ok_def)
qed

lemma arg_store_ok:
  assumes "page (a div 4096) \<noteq> None" "a mod 4096 + length bs \<le> 4096"
  obtains page' where "arg_store (Some (a div 4096)) (a mod 4096) bs page = Inr page'"
    "arg_byte page' = put_bytes (arg_byte page) a bs" "page' (a div 4096) \<noteq> None"
proof -
  obtain page' where p: "arg_store (Some (a div 4096)) (a mod 4096) bs page = Inr page'"
    using assms by (auto simp: arg_store_def)
  then show ?thesis using arg_store_byte [OF p refl] that by blast
qed

lemma copy_string_spec:
  assumes "len \<le> length bs" "len \<le> p" "p \<le> 33 * 4096" "cursor_ok offset p pag page" "\<And>i. malloc_ok i"
  shows "\<exists>offset' pag' page'. copy_string malloc_ok bs len p offset pag page = Inr (p - len, offset', pag', page') \<and>
    cursor_ok offset' (p - len) pag' page' \<and> arg_byte page' = put_bytes (arg_byte page) (p - len) (take len bs)"
  using assms(1-4)
proof (induction len arbitrary: p offset pag page rule: less_induct)
  case (less len)
  show ?case
  proof (cases "len = 0")
    case True
    then show ?thesis using less.prems by (subst copy_string.simps) simp
  next
    case False
    let ?q = "p - 1" and ?l = "len - 1"
    obtain page1 where f: "(if offset - 1 < 0 then and_then (arg_page malloc_ok ?q page) (\<lambda>(i, page). Inr (int (?q mod 4096), Some i, page))
        else Inr (offset - 1, pag, page)) = Inr (int (?q mod 4096), Some (?q div 4096), page1)"
      "page1 (?q div 4096) \<noteq> None" "arg_byte page1 = arg_byte page"
      using arg_page_fetch [of p offset pag page malloc_ok] less.prems assms(5) False by (metis gr0I le_0_eq)
    define n where "n = (if ?l = 0 \<or> ?q mod 4096 = 0 then 0 else min ?l (?q mod 4096))"
    have n: "n \<le> ?l" "n \<le> ?q mod 4096" by (auto simp: n_def)
    let ?a = "?q - n" and ?bs = "take (n + 1) (drop (?l - n) bs)"
    have a: "?a mod 4096 = ?q mod 4096 - n" "?a div 4096 = ?q div 4096" using mod_minus [OF n(2)] by auto
    have len_bs: "length ?bs = n + 1" using n less.prems False by simp
    have step: "copy_string malloc_ok bs len p offset pag page =
        and_then (arg_store (Some (?a div 4096)) (?a mod 4096) ?bs page1) (copy_string malloc_ok bs (?l - n) ?a (int (?a mod 4096)) (Some (?a div 4096)))"
    proof (cases "?l = 0 \<or> ?q mod 4096 = 0")
      case True
      then have n0: "n = 0" by (simp add: n_def)
      have bs: "?bs = [bs ! ?l]" using n0 less.prems False by (simp add: take_Suc_conv_app_nth hd_drop_conv_nth take_Suc)
      show ?thesis unfolding copy_string.simps [of malloc_ok bs len p offset pag page] Let_def f(1) bs
        using True n0 False by simp
    next
      case F: False
      then have n1: "(if int ?l > int (?q mod 4096) then nat (int (?q mod 4096)) else ?l) = n" by (auto simp: n_def)
      have o1: "int (?q mod 4096) - int n = int (?a mod 4096)" using a(1) n(2) by simp
      show ?thesis unfolding copy_string.simps [of malloc_ok bs len p offset pag page] Let_def f(1) and_then_Inr case_prod_conv n1 o1 a(2)
        using F False by simp
    qed
    obtain page2 where s: "arg_store (Some (?a div 4096)) (?a mod 4096) ?bs page1 = Inr page2"
        "arg_byte page2 = put_bytes (arg_byte page1) ?a ?bs" "page2 (?a div 4096) \<noteq> None"
      using f(2) a len_bs n(2) by (elim arg_store_ok [of page1 ?a ?bs, rotated 2]) (auto simp: Suc_le_eq)
    have c: "cursor_ok (int (?a mod 4096)) ?a (Some (?a div 4096)) page2" using s(3) by (simp add: cursor_ok_def)
    have b: "?l - n < len" "?l - n \<le> length bs" "?l - n \<le> ?a" "?a \<le> 33 * 4096" using less.prems n False by simp_all
    obtain offset' pag' page' where r: "copy_string malloc_ok bs (?l - n) ?a (int (?a mod 4096)) (Some (?a div 4096)) page2 = Inr (?a - (?l - n), offset', pag', page')"
      "cursor_ok offset' (?a - (?l - n)) pag' page'" "arg_byte page' = put_bytes (arg_byte page2) (?a - (?l - n)) (take (?l - n) bs)"
      using less.IH [OF b c] by blast
    have e: "?a - (?l - n) = p - len" "?a = (p - len) + length (take (?l - n) bs)" using n less.prems False by auto
    have "take (?l - n) bs @ ?bs = take len bs" using n False by (simp flip: take_add)
    then have "arg_byte page' = put_bytes (arg_byte page) (p - len) (take len bs)"
      using put_bytes_append [of "arg_byte page" "p - len" "take (?l - n) bs" ?bs] r(3) s(2) f(3) e by simp
    then show ?thesis using r step s(1) e by simp
  qed
qed

text \<open>The strings of a list, one after the other, and the addresses they have.\<close>

definition flat_args :: "u8 list list \<Rightarrow> u8 list" where
  "flat_args argv = concat (map (\<lambda>s. s @ [0]) argv)"

lemma flat_args_simps [simp]:
  "flat_args [] = []" "flat_args (s # argv) = s @ 0 # flat_args argv" "flat_args (xs @ ys) = flat_args xs @ flat_args ys"
  by (simp_all add: flat_args_def)

lemma put_bytes_below: "length xs \<le> p \<Longrightarrow> put_bytes (put_bytes g p ys) (p - length xs) xs = put_bytes g (p - length xs) (xs @ ys)"
  using put_bytes_append [of g "p - length xs" xs ys] by simp

lemma copy_strings_loop_spec:
  assumes "p \<le> 33 * 4096" "cursor_ok offset p pag page" "\<And>i. malloc_ok i"
  shows "\<exists>page'. copy_strings_loop malloc_ok args p offset pag page = Inr (p - length (flat_args (rev args)), page') \<and>
    (length (flat_args (rev args)) \<le> p \<longrightarrow> arg_byte page' = put_bytes (arg_byte page) (p - length (flat_args (rev args))) (flat_args (rev args)))"
  using assms(1,2)
proof (induction args arbitrary: p offset pag page)
  case (Cons s args)
  let ?bs = "s @ [0]" and ?r = "flat_args (rev args)"
  show ?case
  proof (cases "p < length ?bs")
    case False
    then obtain offset' pag' page1 where c: "copy_string malloc_ok ?bs (length ?bs) p offset pag page = Inr (p - length ?bs, offset', pag', page1)"
      "cursor_ok offset' (p - length ?bs) pag' page1" "arg_byte page1 = put_bytes (arg_byte page) (p - length ?bs) ?bs"
      using copy_string_spec [of "length ?bs" ?bs p offset pag page malloc_ok] Cons.prems assms(3) by auto
    have le: "p - length ?bs \<le> 33 * 4096" using Cons.prems by simp
    obtain page' where r: "copy_strings_loop malloc_ok args (p - length ?bs) offset' pag' page1 = Inr (p - length ?bs - length ?r, page')"
      "length ?r \<le> p - length ?bs \<Longrightarrow> arg_byte page' = put_bytes (arg_byte page1) (p - length ?bs - length ?r) ?r"
      using Cons.IH [OF le c(2)] by blast
    have "arg_byte page' = put_bytes (arg_byte page) (p - length ?bs - length ?r) (?r @ ?bs)" if "length ?r \<le> p - length ?bs"
      using r(2) [OF that] c(3) put_bytes_below [OF that] by (simp only:)
    then show ?thesis using r(1) c(1) False by (auto simp: Let_def add.commute)
  qed simp
qed simp

lemma copy_elf_strings_spec:
  assumes "p \<le> 33 * 4096" "\<And>i. malloc_ok i"
  shows "\<exists>page'. copy_elf_strings malloc_ok argv page p = Inr (p - length (flat_args argv), page') \<and>
    (length (flat_args argv) \<le> p \<longrightarrow> arg_byte page' = put_bytes (arg_byte page) (p - length (flat_args argv)) (flat_args argv))"
proof (cases "p = 0")
  case False
  have "cursor_ok 0 p None page" by (simp add: cursor_ok_def)
  from copy_strings_loop_spec [where args = "rev argv", OF assms(1) this] assms(2) False show ?thesis by (simp add: copy_elf_strings_def)
qed (auto simp: copy_elf_strings_def)

lemma copy_bprm_strings_spec:
  fixes argv envp :: "u8 list list" and filename :: "u8 list"
  assumes "p \<le> 33 * 4096" "\<And>i. malloc_ok i"
  defines "all \<equiv> argv @ envp @ [filename]"
  shows "\<exists>page'. copy_bprm_strings malloc_ok filename envp argv page p = Inr (p - length (flat_args all), page') \<and>
    (length (flat_args all) \<le> p \<longrightarrow> arg_byte page' = put_bytes (arg_byte page) (p - length (flat_args all)) (flat_args all))"
proof -
  let ?f = "flat_args [filename]" and ?e = "flat_args envp" and ?a = "flat_args argv"
  have u1: "p - length ?f \<le> 33 * 4096" and u2: "p - length ?f - length ?e \<le> 33 * 4096" using assms(1) by simp_all
  obtain p1 where p1: "copy_elf_strings malloc_ok [filename] page p = Inr (p - length ?f, p1)"
      "length ?f \<le> p \<Longrightarrow> arg_byte p1 = put_bytes (arg_byte page) (p - length ?f) ?f"
    using copy_elf_strings_spec [where malloc_ok = malloc_ok and argv = "[filename]" and page = page, OF assms(1,2)] by blast
  obtain p2 where p2: "copy_elf_strings malloc_ok envp p1 (p - length ?f) = Inr (p - length ?f - length ?e, p2)"
      "length ?e \<le> p - length ?f \<Longrightarrow> arg_byte p2 = put_bytes (arg_byte p1) (p - length ?f - length ?e) ?e"
    using copy_elf_strings_spec [where malloc_ok = malloc_ok and argv = envp and page = p1, OF u1 assms(2)] by blast
  obtain p3 where p3: "copy_elf_strings malloc_ok argv p2 (p - length ?f - length ?e) = Inr (p - length ?f - length ?e - length ?a, p3)"
      "length ?a \<le> p - length ?f - length ?e \<Longrightarrow> arg_byte p3 = put_bytes (arg_byte p2) (p - length ?f - length ?e - length ?a) ?a"
    using copy_elf_strings_spec [where malloc_ok = malloc_ok and argv = argv and page = p2, OF u2 assms(2)] by blast
  have len: "length (flat_args all) = length ?f + length ?e + length ?a" by (simp add: all_def)
  have "arg_byte p3 = put_bytes (arg_byte page) (p - length (flat_args all)) (flat_args all)" if le: "length (flat_args all) \<le> p"
  proof -
    have q: "length ?f \<le> p" "length ?e \<le> p - length ?f" "length ?a \<le> p - length ?f - length ?e" "length (?a @ ?e) \<le> p - length ?f"
      "p - length ?f - length ?e - length ?a = p - length (flat_args all)" "p - length ?f - length (?a @ ?e) = p - length (flat_args all)"
      using le len by simp_all
    have "arg_byte p3 = put_bytes (arg_byte p1) (p - length (flat_args all)) (?a @ ?e)"
      using p3(2) [OF q(3)] p2(2) [OF q(2)] put_bytes_below [OF q(3)] unfolding q(5) by (simp only:)
    also have "\<dots> = put_bytes (arg_byte page) (p - length (flat_args all)) ((?a @ ?e) @ ?f)"
      using p1(2) [OF q(1)] put_bytes_below [OF q(4)] unfolding q(6) by (simp only:)
    finally show ?thesis by (simp add: all_def)
  qed
  then show ?thesis using p1(1) p2(1) p3(1) len by (simp add: copy_bprm_strings_def add.assoc)
qed

end
