(* ===== verification/Load_Elf.thy ===== *)
theory Load_Elf
  imports Loader
begin

text \<open>
  Loading an ELF program (\<^verbatim>\<open>load_elf_binary\<close>, \<^verbatim>\<open>load_elf_interp\<close> of \<^verbatim>\<open>src/linux-user/elfload.c\<close> and \<^verbatim>\<open>loader_exec\<close> of
  \<^verbatim>\<open>src/linux-user/linuxload.c\<close>): the checks, the interpreter, room in the host's address space, the segments, the break
  and the registers the program starts with.
\<close>

unbundle bit_operations_syntax

section \<open>Files\<close>

text \<open>The fields of a program header that the loader reads.\<close>

record elf_phdr =
  p_type :: u32
  p_offset :: u32
  p_vaddr :: u32
  p_filesz :: u32
  p_memsz :: u32
  p_flags :: u32

text \<open>
  What the files hold, and which of the calls on them succeed.  For the interpreter: whether there is
  memory for its name, the name, whether its file can be opened and its first 128 bytes read, those bytes as the
  header of an a.out file and of an ELF file with the identification in front, and the table of program headers,
  which may fail to be read.
\<close>

record interp_file =
  if_malloc :: bool
  if_read_name :: bool
  if_name :: "u8 list"
  if_readable :: bool
  if_a_info :: u32
  if_ident :: "u8 list"
  if_hdr :: elfhdr
  if_table_malloc :: bool
  if_phdrs :: "elf_phdr list option"
  if_fd :: u32

text \<open>For the program: its header, whether there is memory for the table, the table, its interpreters by program header.\<close>

record elf_file =
  ef_hdr :: elfhdr
  ef_table_malloc :: bool
  ef_phdrs :: "elf_phdr list option"
  ef_interp :: "elf_phdr \<Rightarrow> interp_file"
  ef_fd :: u32

text \<open>
  \<open>map_file fd offset start len\<close> is what the mapping of a part of a file does to the contents of the guest's memory.
\<close>

type_synonym map_file = "u32 \<Rightarrow> u32 \<Rightarrow> u32 \<Rightarrow> u32 \<Rightarrow> memory \<Rightarrow> memory"

abbreviation (input) "PT_LOAD \<equiv> 1 :: u32"
abbreviation (input) "PT_INTERP \<equiv> 3 :: u32"
abbreviation (input) "ET_EXEC \<equiv> 2 :: u16"
abbreviation (input) "ET_DYN \<equiv> 3 :: u16"
abbreviation (input) "MAP_DENYWRITE \<equiv> 0x800 :: u32"

definition elf_check_arch :: "u16 \<Rightarrow> bool" where
  "elf_check_arch x \<longleftrightarrow> x = 3 \<or> x = 6"

definition elf_type_ok :: "elfhdr \<Rightarrow> bool" where
  "elf_type_ok h \<longleftrightarrow> (e_type h = ET_EXEC \<or> e_type h = ET_DYN) \<and> elf_check_arch (e_machine h)"

definition TARGET_ELF_PAGESTART :: "u32 \<Rightarrow> u32" where
  "TARGET_ELF_PAGESTART v = v AND NOT (TARGET_PAGE_SIZE - 1)"

definition TARGET_ELF_PAGEOFFSET :: "u32 \<Rightarrow> u32" where
  "TARGET_ELF_PAGEOFFSET v = v AND (TARGET_PAGE_SIZE - 1)"

definition elf_prot :: "elf_phdr \<Rightarrow> u32" where
  "elf_prot ph = (if p_flags ph AND 4 \<noteq> 0 then PROT_READ else 0) OR (if p_flags ph AND 2 \<noteq> 0 then PROT_WRITE else 0) OR
     (if p_flags ph AND 1 \<noteq> 0 then 4 else 0)"

text \<open>Mapping a part of a file.\<close>

definition mmap_file :: "map_file \<Rightarrow> u32 \<Rightarrow> u32 \<Rightarrow> u32 \<Rightarrow> u32 \<Rightarrow> u32 \<Rightarrow> u32 \<Rightarrow> loader_state \<Rightarrow> (u32 \<times> loader_state) outcome" where
  "mmap_file map_file start len prot flags fd offset s =
     and_then (target_mmap start len prot flags fd offset (l_vm s)) (\<lambda>(r, v).
       Inr (r, s\<lparr>l_vm := v, l_mem := if r = - 1 then l_mem s else map_file fd offset r len (l_mem s)\<rparr>))"

section \<open>The segments of the program\<close>

record elf_layout =
  ly_set :: bool
  ly_load_addr :: u32
  ly_load_bias :: u32
  ly_start_code :: u32
  ly_end_code :: u32
  ly_start_data :: u32
  ly_end_data :: u32
  ly_bss :: u32
  ly_brk :: u32

definition no_layout :: elf_layout where
  "no_layout = \<lparr>ly_set = False, ly_load_addr = 0, ly_load_bias = 0, ly_start_code = - 1, ly_end_code = 0, ly_start_data = 0, ly_end_data = 0,
     ly_bss = 0, ly_brk = 0\<rparr>"

text \<open>The address of the first segment decides where the program is loaded.\<close>

definition set_load_addr :: "u16 \<Rightarrow> elf_phdr \<Rightarrow> u32 \<Rightarrow> elf_layout \<Rightarrow> elf_layout" where
  "set_load_addr type ph error g =
     (if ly_set g then g
      else
        let g = g\<lparr>ly_set := True, ly_load_addr := p_vaddr ph - p_offset ph\<rparr> in
        if type = ET_DYN
        then (let bias = ly_load_bias g + (error - TARGET_ELF_PAGESTART (ly_load_bias g + p_vaddr ph))
              in g\<lparr>ly_load_bias := bias, ly_load_addr := ly_load_addr g + bias\<rparr>)
        else g)"

text \<open>The limits of the program, without the bias.\<close>

definition add_limits :: "elf_phdr \<Rightarrow> elf_layout \<Rightarrow> elf_layout" where
  "add_limits ph g =
     (let k = p_vaddr ph;
          g = (if k < ly_start_code g then g\<lparr>ly_start_code := k\<rparr> else g);
          g = (if ly_start_data g < k then g\<lparr>ly_start_data := k\<rparr> else g);
          k = p_vaddr ph + p_filesz ph;
          g = (if k > ly_bss g then g\<lparr>ly_bss := k\<rparr> else g);
          g = (if p_flags ph AND 1 \<noteq> 0 \<and> ly_end_code g < k then g\<lparr>ly_end_code := k\<rparr> else g);
          g = (if ly_end_data g < k then g\<lparr>ly_end_data := k\<rparr> else g);
          k = p_vaddr ph + p_memsz ph
      in if k > ly_brk g then g\<lparr>ly_brk := k\<rparr> else g)"

text \<open>Mapping a segment.  The variable \<^verbatim>\<open>elf_flags\<close> of the source is computed and not used.\<close>

definition map_segment :: "map_file \<Rightarrow> u16 \<Rightarrow> u32 \<Rightarrow> elf_phdr \<Rightarrow> elf_layout \<Rightarrow> loader_state \<Rightarrow> (elf_layout \<times> loader_state) outcome" where
  "map_segment map_file type fd ph g s =
     and_then (mmap_file map_file (TARGET_ELF_PAGESTART (ly_load_bias g + p_vaddr ph)) (p_filesz ph + TARGET_ELF_PAGEOFFSET (p_vaddr ph))
                 (elf_prot ph) (MAP_FIXED OR MAP_PRIVATE OR MAP_DENYWRITE) fd (p_offset ph - TARGET_ELF_PAGEOFFSET (p_vaddr ph)) s) (\<lambda>(error, s).
       if error = - 1 then Inl Aborted
       else Inr (add_limits ph (set_load_addr type ph error g), s))"

text \<open>One turn of the loop.\<close>

definition load_segment :: "map_file \<Rightarrow> u16 \<Rightarrow> u32 \<Rightarrow> elf_phdr \<Rightarrow> elf_layout \<Rightarrow> loader_state \<Rightarrow> (elf_layout \<times> loader_state) outcome" where
  "load_segment map_file type fd ph g s =
     (if p_type ph \<noteq> PT_LOAD then Inr (g, s)
      else if \<not> (type = ET_EXEC \<or> ly_set g) \<and> type = ET_DYN
      then and_then (mmap_anon 0 0x8000000 PROT_NONE MAP_PRIVATE s) (\<lambda>(error, s).
             if error = - 1 then Inl Aborted
             else map_segment map_file type fd ph (g\<lparr>ly_load_bias := TARGET_ELF_PAGESTART (error - p_vaddr ph)\<rparr>) s)
      else map_segment map_file type fd ph g s)"

fun load_segments :: "map_file \<Rightarrow> u16 \<Rightarrow> u32 \<Rightarrow> elf_phdr list \<Rightarrow> elf_layout \<Rightarrow> loader_state \<Rightarrow> (elf_layout \<times> loader_state) outcome" where
  "load_segments map_file type fd [] g s = Inr (g, s)"
| "load_segments map_file type fd (ph # phs) g s =
     and_then (load_segment map_file type fd ph g s) (\<lambda>(g, s). load_segments map_file type fd phs g s)"

section \<open>Room in the host's address space\<close>

text \<open>The range of the segments; \<^verbatim>\<open>app_start\<close> and \<^verbatim>\<open>app_end\<close>.\<close>

fun app_range :: "elf_phdr list \<Rightarrow> u32 \<Rightarrow> u32 \<Rightarrow> u32 \<times> u32" where
  "app_range [] app_start app_end = (app_start, app_end)"
| "app_range (ph # phs) app_start app_end =
     (if p_type ph \<noteq> PT_LOAD then app_range phs app_start app_end
      else
        let addr = p_vaddr ph; app_start = (if addr < app_start then addr else app_start);
            addr = addr + p_memsz ph; app_end = (if addr > app_end then addr else app_end)
        in app_range phs app_start app_end)"

text \<open>The linear search: None is a loop that never ends.\<close>

partial_function (option) find_host_area :: "u32 \<Rightarrow> u32 \<Rightarrow> u32 \<Rightarrow> vm_state \<Rightarrow> (u32 \<times> vm_state) outcome option" where
  "find_host_area host_start host_size app_start v =
     (let (real_start, v) = host (Host_mmap host_start host_size PROT_NONE 0x4022 (- 1) 0) v in
      if real_start = - 1 then Some (Inl Aborted)
      else if real_start = host_start then Some (Inr (real_start, v))
      else
        let v = snd (host (Host_munmap real_start host_size) v); host_start = host_start + qemu_host_page_size v in
        if host_start = app_start then Some (Inl Aborted) else find_host_area host_start host_size app_start v)"

definition probe_guest_base :: "bool \<Rightarrow> elf_phdr list \<Rightarrow> vm_state \<Rightarrow> vm_state outcome" where
  "probe_guest_base have_guest_base phs v =
     (if have_guest_base \<or> reserved_va v \<noteq> 0 then Inr v
      else
        let (app_start, app_end) = app_range phs (- 1) 0 in
        if \<not> app_start < app_end then Inl Assertion_Failed
        else
          let app_start = app_start AND qemu_host_page_mask v; app_end = HOST_PAGE_ALIGN v app_end;
              host_start = (if app_start < mmap_min_addr v then HOST_PAGE_ALIGN v (mmap_min_addr v) else app_start)
          in case find_host_area host_start (app_end - app_start) app_start v of
               None \<Rightarrow> Inl Never_Returns
             | Some r \<Rightarrow> and_then r (\<lambda>(real_start, v). Inr (v\<lparr>guest_base := real_start - app_start\<rparr>)))"

section \<open>The interpreter\<close>

text \<open>The loop over its segments: its limits, or None if a mapping failed.\<close>

fun interp_segments :: "map_file \<Rightarrow> u16 \<Rightarrow> u32 \<Rightarrow> u32 \<Rightarrow> bool \<Rightarrow> elf_phdr list \<Rightarrow> u32 \<Rightarrow> u32 \<Rightarrow> loader_state \<Rightarrow> ((u32 \<times> u32 \<times> u32) option \<times> loader_state) outcome" where
  "interp_segments map_file type fd load_addr is_set [] bss last_bss s = Inr (Some (load_addr, bss, last_bss), s)"
| "interp_segments map_file type fd load_addr is_set (ph # phs) bss last_bss s =
     (if p_type ph \<noteq> PT_LOAD then interp_segments map_file type fd load_addr is_set phs bss last_bss s
      else
        let fixed = (type = ET_EXEC \<or> is_set); vaddr = (if fixed then p_vaddr ph else 0);
            elf_type = MAP_PRIVATE OR MAP_DENYWRITE OR (if fixed then MAP_FIXED else 0) in
        and_then (mmap_file map_file (load_addr + TARGET_ELF_PAGESTART vaddr) (p_filesz ph + TARGET_ELF_PAGEOFFSET (p_vaddr ph))
                    (elf_prot ph) elf_type fd (p_offset ph - TARGET_ELF_PAGEOFFSET (p_vaddr ph)) s) (\<lambda>(error, s).
          if error = - 1 then Inr (None, s)
          else
            let (load_addr, is_set) = (if \<not> is_set \<and> type = ET_DYN then (error, True) else (load_addr, is_set));
                k = load_addr + p_vaddr ph + p_filesz ph; bss = (if k > bss then k else bss);
                k = load_addr + p_memsz ph + p_vaddr ph; last_bss = (if k > last_bss then k else last_bss)
            in interp_segments map_file type fd load_addr is_set phs bss last_bss s))"

text \<open>The rest of the last page and the pages of the bss behind it; a failed mapping goes unnoticed.\<close>

definition interp_bss :: "u32 \<Rightarrow> u32 \<Rightarrow> loader_state \<Rightarrow> loader_state outcome" where
  "interp_bss bss last_bss s =
     and_then (padzero bss last_bss s) (\<lambda>s.
       let bss = TARGET_ELF_PAGESTART (bss + qemu_host_page_size (l_vm s) - 1) in
       if last_bss > bss then and_then (mmap_anon bss (last_bss - bss) 7 (MAP_FIXED OR MAP_PRIVATE) s) (\<lambda>(_, s). Inr s) else Inr s)"

text \<open>The result is the address to start at, or minus one, and the address the interpreter was loaded at.\<close>

definition load_elf_interp :: "map_file \<Rightarrow> interp_file \<Rightarrow> loader_state \<Rightarrow> (u32 \<times> u32 \<times> loader_state) outcome" where
  "load_elf_interp map_file f s =
     (let h = if_hdr f in
      if \<not> elf_type_ok h \<or> 32 * unat (e_phnum h) > 4096 \<or> \<not> if_table_malloc f \<or> e_phentsize h \<noteq> 32 then Inr (- 1, 0, s)
      else case if_phdrs f of
        None \<Rightarrow> Inl Aborted
      | Some phs \<Rightarrow>
          and_then (if e_type h = ET_DYN
                    then and_then (mmap_anon 0 0x2000000 PROT_NONE MAP_PRIVATE s) (\<lambda>(error, s).
                           if error = - 1 then Inl Aborted else Inr (error, True, s))
                    else Inr (0, False, s)) (\<lambda>(load_addr, is_set, s).
          and_then (interp_segments map_file (e_type h) (if_fd f) load_addr is_set phs 0 0 s) (\<lambda>(r, s).
          case r of
            None \<Rightarrow> Inr (- 1, 0, s)
          | Some (load_addr, bss, last_bss) \<Rightarrow>
              and_then (interp_bss bss last_bss s) (\<lambda>s. Inr (e_entry h + load_addr, load_addr, s)))))"

section \<open>The whole program\<close>

text \<open>Looking for the interpreter: a result that is returned at once, or what was found and whether it is one of iBCS2.\<close>

definition ibcs2_name :: "u8 list \<Rightarrow> bool" where
  "ibcs2_name name \<longleftrightarrow> name = map of_char ''/usr/lib/libc.so.1'' \<or> name = map of_char ''/usr/lib/ld.so.1''"

fun find_interp :: "elf_file \<Rightarrow> elf_phdr list \<Rightarrow> interp_file option \<Rightarrow> (int + interp_file option) outcome" where
  "find_interp ef [] found = Inr (Inr found)"
| "find_interp ef (ph # phs) found =
     (if p_type ph \<noteq> PT_INTERP then find_interp ef phs found
      else
        let f = ef_interp ef ph in
        if found \<noteq> None then Inr (Inl (- 22))
        else if \<not> if_malloc f then Inr (Inl (- 12))
        else if \<not> if_read_name f \<or> \<not> if_readable f then Inl Aborted
        else find_interp ef phs (Some f))"

text \<open>One for a.out, two for ELF, or both, or none.\<close>

definition interpreter_type :: "interp_file \<Rightarrow> u32" where
  "interpreter_type f =
     (let magic = if_a_info f AND 0xffff; type = (if magic \<noteq> 0x107 \<and> magic \<noteq> 0x10b \<and> magic \<noteq> 0xcc then 2 else 3)
      in if take 4 (if_ident f) \<noteq> [0x7f, 0x45, 0x4c, 0x46] then type AND NOT 2 else type)"

text \<open>The number of a file descriptor in decimal, in a buffer of six characters.\<close>

fun decimal :: "nat \<Rightarrow> u8 list" where
  "decimal n = (if n < 10 then [] else decimal (n div 10)) @ [0x30 + of_nat (n mod 10)]"

declare decimal.simps [simp del]

definition load_aout_interp :: u32 where
  "load_aout_interp = 0"

text \<open>What the command line and the host contribute.\<close>

record exec_env =
  x_malloc :: "nat \<Rightarrow> bool"
  have_guest_base :: bool
  guest_stack_size :: u32
  x_ids :: host_ids

text \<open>The interpreter is loaded: where the program starts, and where the interpreter is.\<close>

definition start_interp :: "map_file \<Rightarrow> interp_file option \<Rightarrow> u32 \<Rightarrow> loader_state \<Rightarrow> (u32 \<times> u32 \<times> loader_state) outcome" where
  "start_interp map_file interp elf_entry s =
     (case interp of
        None \<Rightarrow> Inr (elf_entry, 0, s)
      | Some f \<Rightarrow>
          and_then (if interpreter_type f AND 1 \<noteq> 0 then Inr (load_aout_interp, 0, s)
                    else if interpreter_type f AND 2 \<noteq> 0 then load_elf_interp map_file f s
                    else Inr (elf_entry, 0, s)) (\<lambda>(elf_entry, interp_load_addr, s).
            if elf_entry = - 1 then Inl Aborted else Inr (elf_entry, interp_load_addr, s)))"

text \<open>From the point of no return on.\<close>

definition load_image :: "exec_env \<Rightarrow> map_file \<Rightarrow> elf_file \<Rightarrow> elf_phdr list \<Rightarrow> interp_file option \<Rightarrow> nat \<Rightarrow> arg_pages \<Rightarrow> int \<Rightarrow> int \<Rightarrow> loader_state \<Rightarrow> loader_state outcome" where
  "load_image x map_file ef phs interp p page argc envc s =
     (let h = ef_hdr ef; type = (case interp of None \<Rightarrow> 0 | Some f \<Rightarrow> interpreter_type f);
          s = s\<lparr>end_data := 0, end_code := 0, start_mmap := 0x80000000, info_mmap := 0\<rparr> in
      and_then (probe_guest_base (have_guest_base x) phs (l_vm s)) (\<lambda>v.
      and_then (setup_arg_pages (guest_stack_size x) (of_nat p) page (s\<lparr>l_vm := v, rss := 0\<rparr>)) (\<lambda>(p, s).
      and_then (load_segments map_file (e_type h) (ef_fd ef) phs no_layout (s\<lparr>start_stack := p\<rparr>)) (\<lambda>(g, s).
      let bias = ly_load_bias g; bss = ly_bss g + bias; brk = ly_brk g + bias in
      and_then (start_interp map_file interp (e_entry h + bias) s) (\<lambda>(elf_entry, interp_load_addr, s).
      let ibcs2 = (case interp of None \<Rightarrow> False | Some f \<Rightarrow> ibcs2_name (if_name f));
          reloc = (if interp = None then (if e_type h = ET_DYN \<and> ly_set g then bias else 0) else interp_load_addr);
          s = s\<lparr>personality := if ibcs2 then 0x4100001 else 0\<rparr> in
      and_then (create_elf_tables p argc envc h (x_ids x) (ly_load_addr g) bias interp_load_addr (type \<noteq> 1) s) (\<lambda>(sp, s).
      let s = s\<lparr>info_load_addr := reloc, start_brk := brk, info_brk := brk, end_code := ly_end_code g + bias, start_code := ly_start_code g + bias,
                start_data := ly_start_data g + bias, end_data := ly_end_data g + bias, start_stack := sp\<rparr> in
      and_then (set_brk bss brk s) (\<lambda>s.
      and_then (padzero bss brk s) (\<lambda>s.
      and_then (if ibcs2
                then and_then (target_mmap 0 (qemu_host_page_size (l_vm s)) (PROT_READ OR 4) (MAP_FIXED OR MAP_PRIVATE) (- 1) 0 (l_vm s)) (\<lambda>(_, v). Inr (s\<lparr>l_vm := v\<rparr>))
                else Inr s) (\<lambda>s.
      Inr (s\<lparr>info_entry := elf_entry\<rparr>))))))))))"

text \<open>
  The checks of the interpreter, and the number of the program's file as one more argument for an a.out interpreter.
\<close>

definition check_interp :: "exec_env \<Rightarrow> map_file \<Rightarrow> elf_file \<Rightarrow> elf_phdr list \<Rightarrow> interp_file option \<Rightarrow> nat \<Rightarrow> arg_pages \<Rightarrow> int \<Rightarrow> int \<Rightarrow> loader_state \<Rightarrow> (int \<times> loader_state) outcome" where
  "check_interp x map_file ef phs interp p page argc envc s =
     (let type = (case interp of None \<Rightarrow> 0 | Some f \<Rightarrow> interpreter_type f) in
      if interp \<noteq> None \<and> type = 0 then Inr (- 80, s)
      else
        and_then (if type = 1
                  then and_then (copy_elf_strings (x_malloc x) [take 5 (decimal (unat (ef_fd ef)))] page p) (\<lambda>(p, page). Inr (p, page, argc + 1))
                  else Inr (p, page, argc)) (\<lambda>(p, page, argc).
        if p = 0 then Inr (- 7, s)
        else and_then (load_image x map_file ef phs interp p page argc envc s) (\<lambda>s. Inr (0, s))))"

definition load_elf_binary :: "exec_env \<Rightarrow> map_file \<Rightarrow> elf_file \<Rightarrow> u8 list \<Rightarrow> u8 list list \<Rightarrow> u8 list list \<Rightarrow> nat \<Rightarrow> loader_state \<Rightarrow> (int \<times> loader_state) outcome" where
  "load_elf_binary x map_file ef filename envp argv p s =
     (if \<not> elf_type_ok (ef_hdr ef) then Inr (- 8, s)
      else
        and_then (copy_bprm_strings (x_malloc x) filename envp argv (\<lambda>_. None) p) (\<lambda>(p, page).
        if \<not> ef_table_malloc ef then Inr (- 12, s)
        else case ef_phdrs ef of
          None \<Rightarrow> Inl Aborted
        | Some phs \<Rightarrow>
            and_then (find_interp ef phs None) (\<lambda>r.
            case r of
              Inl e \<Rightarrow> Inr (e, s)
            | Inr interp \<Rightarrow> check_interp x map_file ef phs interp p page (int (length argv)) (int (length envp)) s)))"

section \<open>Starting a program\<close>

text \<open>
  The file to be executed: the answer of \<^verbatim>\<open>open\<close>, its status or the error of \<^verbatim>\<open>fstat\<close>, whether its beginning can be
  read, and the beginning.
\<close>

record file_stat =
  st_mode :: u32
  st_uid :: u32
  st_gid :: u32

record exec_file =
  xf_open :: int
  xf_stat :: "int + file_stat"
  xf_read :: int
  xf_buf :: "u8 list"
  xf_elf :: elf_file

definition in_group_p :: "u32 list \<Rightarrow> u32 \<Rightarrow> bool" where
  "in_group_p groups g \<longleftrightarrow> g \<in> set groups"

text \<open>The result, \<^verbatim>\<open>e_uid\<close> and \<^verbatim>\<open>e_gid\<close>.\<close>

definition prepare_binprm :: "host_ids \<Rightarrow> exec_file \<Rightarrow> (int \<times> u32 \<times> u32) outcome" where
  "prepare_binprm ids f =
     (case xf_stat f of
        Inl e \<Rightarrow> Inr (- e, 0, 0)
      | Inr st \<Rightarrow>
          let mode = st_mode st in
          if mode AND 0xf000 \<noteq> 0x8000 then Inr (- 13, 0, 0)
          else if mode AND 0x49 = 0 then Inr (- 13, 0, 0)
          else
            let e_uid = (if mode AND 0x800 \<noteq> 0 then st_uid st else h_geteuid ids);
                e_gid = (if mode AND (0x400 OR 8) = 0x400 OR 8 then st_gid st else h_getegid ids)
            in if xf_read f < 0 then Inl Aborted else Inr (xf_read f, e_uid, e_gid))"

record pt_regs =
  r_esp :: u32
  r_eip :: u32
  r_edx :: u32

definition init_thread :: "loader_state \<Rightarrow> pt_regs" where
  "init_thread s = \<lparr>r_esp = start_stack s, r_eip = info_entry s, r_edx = 0\<rparr>"

definition loader_exec :: "exec_env \<Rightarrow> map_file \<Rightarrow> exec_file \<Rightarrow> u8 list \<Rightarrow> u8 list list \<Rightarrow> u8 list list \<Rightarrow> loader_state \<Rightarrow> (int \<times> pt_regs option \<times> loader_state) outcome" where
  "loader_exec x map_file f filename argv envp s =
     (if xf_open f < 0 then Inr (xf_open f, None, s)
      else
        and_then (prepare_binprm (x_ids x) f) (\<lambda>(retval, _).
        if retval \<ge> 0 \<and> take 4 (xf_buf f) \<noteq> [0x7f, 0x45, 0x4c, 0x46] then Inr (- 1, None, s)
        else
          and_then (if retval \<ge> 0 then load_elf_binary x map_file (xf_elf f) filename envp argv (33 * 4096 - 4) s else Inr (retval, s)) (\<lambda>(retval, s).
          Inr (retval, if retval \<ge> 0 then Some (init_thread s) else None, s))))"

end
