(* ===== verification/Mmap_Rights.thy ===== *)
theory Mmap_Rights
  imports Mmap
begin

unbundle bit_operations_syntax

text \<open>
  Host pages that hold several guest pages: the rights that \<^verbatim>\<open>target_mprotect\<close> of
  \<^verbatim>\<open>src/linux-user/mmap.c\<close> asks the host for, and the properties of the mapping calls.
\<close>

section \<open>The rights of the neighbours\<close>

text \<open>All rights of \<open>p\<close> are among \<open>q\<close>.\<close>

definition rights_le :: "u32 \<Rightarrow> u32 \<Rightarrow> bool" where
  "rights_le p q \<longleftrightarrow> p AND NOT q = 0"

lemma rights_le_bits: "rights_le p q \<longleftrightarrow> (\<forall>n. bit p n \<longrightarrow> bit q n)"
  unfolding rights_le_def using bit_imp_le_length [of p] by (auto simp: bit_eq_iff bit_simps)

text \<open>
  A host page has at least the rights of the guest pages on it: those of the area get \<open>prot\<close>, the others
  keep what they have.
\<close>

definition needed :: "vm_state \<Rightarrow> u32 \<Rightarrow> u32 \<Rightarrow> u32 \<Rightarrow> u32 \<Rightarrow> u32" where
  "needed s start end prot x = (if start \<le> x \<and> x < end then prot else page_get_flags s x AND PAGE_BITS)"

definition call_grants :: "vm_state \<Rightarrow> u32 \<Rightarrow> u32 \<Rightarrow> u32 \<Rightarrow> host_call \<Rightarrow> bool" where
  "call_grants s start end prot c = (case c of
       Host_mprotect a l p \<Rightarrow> \<forall>x. g2h s x \<in> region a (unat l) \<longrightarrow> rights_le (needed s start end prot x) p
     | _ \<Rightarrow> True)"

lemma fold_or_rights:
  "rights_le prot (fold (\<lambda>a p. p OR f a) xs prot)" "a \<in> set xs \<Longrightarrow> rights_le (f a) (fold (\<lambda>a p. p OR f a) xs prot)"
proof -
  have m: "rights_le p (fold (\<lambda>a p. p OR f a) xs p)" for p xs
    by (induction xs arbitrary: p) (auto simp: rights_le_bits bit_simps)
  show "rights_le prot (fold (\<lambda>a p. p OR f a) xs prot)" by (rule m)
  show "a \<in> set xs \<Longrightarrow> rights_le (f a) (fold (\<lambda>a p. p OR f a) xs prot)"
  proof (induction xs arbitrary: prot)
    case (Cons b xs)
    show ?case
    proof (cases "a = b")
      case True
      then show ?thesis using m [of "prot OR f b" xs] by (auto simp: rights_le_bits bit_simps)
    next
      case False
      then show ?thesis using Cons by simp
    qed
  qed simp
qed

lemma or_flags_rights:
  "rights_le prot (or_flags s a b prot)"
  "aligned a \<Longrightarrow> a \<le> x \<Longrightarrow> x < b \<Longrightarrow> rights_le (page_get_flags s x) (or_flags s a b prot)"
proof -
  show "rights_le prot (or_flags s a b prot)" unfolding or_flags_def by (rule fold_or_rights)
  assume x: "aligned a" "a \<le> x" "x < b"
  let ?k = "(unat x - unat a) div 4096"
  obtain m where m: "unat a = 4096 * m" using x(1) unfolding aligned_nat by auto
  have le: "unat a \<le> unat x" "unat x < unat b" using x by (simp_all add: word_le_nat_alt word_less_nat_alt)
  have k: "4096 * ?k \<le> unat x - unat a" "unat x - unat a < 4096 * ?k + 4096" using div_page [of "unat x - unat a" ?k] by simp_all
  have e: "unat (a + of_nat (4096 * ?k)) = unat a + 4096 * ?k"
    using k le u32_less [of x] by (simp add: unat_word_ariths unat_of_nat del: of_nat_mult)
  have "page_of (a + of_nat (4096 * ?k)) = page_of x"
    unfolding word_unat_eq_iff page_of_nat e using k le m by (simp add: div_page)
  then have f: "page_get_flags s (a + of_nat (4096 * ?k)) = page_get_flags s x" unfolding page_get_flags_desc by (rule arg_cong)
  have "?k < (unat b - unat a + 4095) div 4096"
    using le k by (simp add: less_eq_div_iff_mult_less_eq Suc_le_eq [symmetric])
  then have "a + of_nat (4096 * ?k) \<in> set (page_addrs a b)" unfolding page_addrs_def by auto
  from fold_or_rights(2) [OF this, of "page_get_flags s" prot] show "rights_le (page_get_flags s x) (or_flags s a b prot)"
    unfolding or_flags_def f .
qed


text \<open>Host pages are a power of two and no smaller than the guest's, which \<^verbatim>\<open>page_init\<close> sees to.\<close>

definition host_pages :: "vm_state \<Rightarrow> bool" where
  "host_pages s \<longleftrightarrow> (\<exists>k. 12 \<le> k \<and> k < 32 \<and> qemu_host_page_size s = push_bit k 1 \<and> qemu_host_page_mask s = NOT (qemu_host_page_size s - 1))"

lemma host_floor:
  assumes "host_pages s"
  defines "H \<equiv> unat (qemu_host_page_size s)"
  shows "unat (x AND qemu_host_page_mask s) = unat x div H * H" "4096 dvd H" "0 < H"
proof -
  obtain k where k: "12 \<le> k" "k < 32" "qemu_host_page_size s = push_bit k 1" "qemu_host_page_mask s = NOT (mask k)"
    using assms(1) by (auto simp: host_pages_def mask_eq_exp_minus_1 push_bit_eq_mult)
  have lt: "(2 :: nat) ^ k < 2 ^ 32" using k(2) by (intro power_strict_increasing) simp_all
  have "push_bit k 1 = (of_nat (2 ^ k) :: u32)" by (simp add: push_bit_eq_mult)
  then have H: "H = 2 ^ k" using unat_of_nat_u32 [OF lt] unfolding H_def k(3) by (simp only:)
  have u2: "unat (2 ^ k :: u32) = 2 ^ k" using unat_of_nat_u32 [OF lt] by simp
  show "4096 dvd H" unfolding H using le_imp_power_dvd [OF k(1), of "2 :: nat"] by simp
  show "0 < H" by (simp add: H)
  have "x AND NOT (mask k) = push_bit k (drop_bit k x)"
    by (rule bit_word_eqI) (auto simp: bit_simps)
  moreover have "unat x div 2 ^ k * 2 ^ k < 4294967296" using u32_less [of x] div_times_less_eq_dividend [of "unat x" "2 ^ k"] by linarith
  ultimately show "unat (x AND qemu_host_page_mask s) = unat x div H * H"
    by (simp add: k(4) H push_bit_eq_mult drop_bit_eq_div unat_div unat_word_ariths u2)
qed


lemma host_ceiling:
  assumes "host_pages s" "unat x + unat (qemu_host_page_size s) \<le> 4294967296" "0 < unat x"
  defines "H \<equiv> unat (qemu_host_page_size s)"
  shows "unat (HOST_PAGE_ALIGN s x) = (unat x + H - 1) div H * H"
proof -
  have H: "0 < H" using host_floor(3) [OF assms(1)] by (simp add: H_def)
  have "unat (x + qemu_host_page_size s - 1) = unat x + H - 1"
  proof -
    have "x + qemu_host_page_size s - 1 = of_nat (unat x + H - 1)" using assms(3) H by (simp add: H_def of_nat_diff)
    then show ?thesis using assms(2,3) unfolding H_def by (simp only:) (rule unat_of_nat_u32, simp)
  qed
  then show ?thesis unfolding HOST_PAGE_ALIGN_def host_floor(1) [OF assms(1), folded H_def] by simp
qed

text \<open>The three kinds of call, with the addresses as numbers.\<close>

lemma grants_call:
  assumes "\<And>x. a \<le> unat x \<Longrightarrow> unat x < a + unat l \<Longrightarrow> rights_le (needed s start end prot x) p" "a = unat h" "a + unat l \<le> 4294967296"
  shows "call_grants s start end prot (Host_mprotect (g2h s h) l p)"
  unfolding call_grants_def host_call.case
proof (intro allI impI)
  fix x assume "g2h s x \<in> region (g2h s h) (unat l)"
  then have "unat (x - h) < unat l" by (simp add: region_def g2h_def)
  moreover have "unat (x - h) = (if unat h \<le> unat x then unat x - unat h else unat x + 4294967296 - unat h)"
    by (simp add: unat_sub_if_size word_size word_le_nat_alt)
  ultimately have "a \<le> unat x" "unat x < a + unat l" using assms(2,3) by (auto split: if_splits)
  then show "rights_le (needed s start end prot x) p" by (rule assms(1))
qed

lemma needed_rights:
  assumes "start \<le> x \<and> x < end \<Longrightarrow> rights_le prot q" "\<not> (start \<le> x \<and> x < end) \<Longrightarrow> rights_le (page_get_flags s x) q" "prot AND 7 = prot"
  shows "rights_le (needed s start end prot x) (q AND PAGE_BITS)"
proof -
  have "bit prot n \<Longrightarrow> bit (7 :: u32) n" for n using assms(3) by (metis bit_and_iff)
  then show ?thesis using assms(1,2) by (auto simp: needed_def rights_le_bits bit_and_iff)
qed

definition mprotect_area :: "vm_state \<Rightarrow> u32 \<Rightarrow> u32 \<Rightarrow> u32 \<Rightarrow> bool" where
  "mprotect_area s start end prot \<longleftrightarrow> host_pages s \<and> aligned start \<and> aligned end \<and> start < end \<and>
     unat end + unat (qemu_host_page_size s) \<le> 4294967296 \<and> prot AND 7 = prot"

lemma area_span:
  assumes "mprotect_area s start end prot"
  defines "H \<equiv> unat (qemu_host_page_size s)" and "hs \<equiv> unat (start AND qemu_host_page_mask s)" and "he \<equiv> unat (HOST_PAGE_ALIGN s end)"
  shows "0 < H" "hs \<le> unat start" "unat start < hs + H" "unat end \<le> he" "he < unat end + H" "he = hs + H \<or> hs + H + H \<le> he" "unat start < unat end"
    "aligned (start AND qemu_host_page_mask s)" "he \<le> 4294967296 - 1" "hs + H \<le> he"
proof -
  have pg: "host_pages s" and e: "unat end + H \<le> 4294967296" and lt: "unat start < unat end"
    using assms(1) by (simp_all add: mprotect_area_def H_def word_less_nat_alt)
  note fl = host_floor [OF pg, folded H_def]
  have hs: "hs = unat start div H * H" unfolding hs_def by (rule fl(1))
  have he: "he = (unat end + H - 1) div H * H"
    unfolding he_def H_def using e lt by (intro host_ceiling [OF pg]) (simp_all add: H_def)
  show H: "0 < H" by (rule fl(3))
  show 1: "hs \<le> unat start" "unat start < hs + H"
    unfolding hs using div_times_less_eq_dividend [of "unat start" H] dividend_less_div_times [OF H, of "unat start"] by simp_all
  have 2: "he \<le> unat end + H - 1" "unat end + H - 1 < he + H"
    unfolding he using div_times_less_eq_dividend [of "unat end + H - 1" H] dividend_less_div_times [OF H, of "unat end + H - 1"] by simp_all
  then show 3: "unat end \<le> he" "he < unat end + H" using H by linarith+
  show "unat start < unat end" by (rule lt)
  show "aligned (start AND qemu_host_page_mask s)" using assms(1) by (simp add: mprotect_area_def aligned_and)
  show "he \<le> 4294967296 - 1" unfolding he_def using u32_less [of "HOST_PAGE_ALIGN s end"] by linarith
  obtain i j where ij: "hs = i * H" "he = j * H" using hs he by blast
  have "i * H < j * H" using 1 3 lt ij by linarith
  then have "i < j" by simp
  then have "j = Suc i \<or> Suc (Suc i) \<le> j" by linarith
  then show "he = hs + H \<or> hs + H + H \<le> he" unfolding ij by (auto dest: mult_le_mono1 [of _ _ H])
  then show "hs + H \<le> he" by linarith
qed

lemma same_table_grants:
  assumes "same_table s t"
  shows "call_grants t = call_grants s" "or_flags t = or_flags s" "g2h t = g2h s" "qemu_host_page_size t = qemu_host_page_size s"
proof -
  have f: "page_get_flags t = page_get_flags s" using same_table_flags(1) [OF assms] by blast
  show g: "g2h t = g2h s" "qemu_host_page_size t = qemu_host_page_size s" using assms by (simp_all add: same_table_def g2h_def fun_eq_iff)
  show "or_flags t = or_flags s" by (simp add: or_flags_def f fun_eq_iff)
  show "call_grants t = call_grants s" by (simp add: call_grants_def needed_def f g fun_eq_iff split: host_call.split)
qed

lemma try_mprotect_log:
  assumes "try_mprotect a l p s = (r, t)"
  shows "host_log t = Host_mprotect (g2h s a) l p # host_log s" "same_table s t"
  using assms same_table_mprotect(1) [of s a l p s] by (auto simp: try_mprotect_def host_def)

lemma first_grants:
  assumes ar: "mprotect_area s start end prot"
    and "mprotect_first start end (start AND qemu_host_page_mask s) (HOST_PAGE_ALIGN s end) prot s = (r, e, h, t)"
  shows "\<exists>cs. host_log t = cs @ host_log s \<and> list_all (call_grants s start end prot) cs" "same_table s t"
    and "start AND qemu_host_page_mask s = start \<and> e = end \<and> h = start \<or>
      unat h = unat (start AND qemu_host_page_mask s) + unat (qemu_host_page_size s) \<and>
      (e = HOST_PAGE_ALIGN s end \<and> h = HOST_PAGE_ALIGN s end \<or> e = end \<and> unat h + unat (qemu_host_page_size s) \<le> unat (HOST_PAGE_ALIGN s end))"
proof -
  let ?hs = "start AND qemu_host_page_mask s" and ?he = "HOST_PAGE_ALIGN s end" and ?H = "qemu_host_page_size s"
  note sp = area_span [OF ar]
  have al: "aligned start" "aligned end" "prot AND 7 = prot" using ar by (simp_all add: mprotect_area_def)
  have "(\<exists>cs. host_log t = cs @ host_log s \<and> list_all (call_grants s start end prot) cs) \<and> same_table s t \<and>
      (?hs = start \<and> e = end \<and> h = start \<or> unat h = unat ?hs + unat ?H \<and>
      (e = ?he \<and> h = ?he \<or> e = end \<and> unat h + unat ?H \<le> unat ?he))"
  proof (cases "?hs < start")
    case False
    then have "?hs = start" using sp(2) by (simp add: word_less_nat_alt word_unat_eq_iff)
    then show ?thesis using assms(2) by (simp add: mprotect_first_def)
  next
    case True
    have sum: "unat (?hs + ?H) = unat ?hs + unat ?H" using sp(9,10) by (simp add: unat_word_ariths)
    have eq: "?he = ?hs + ?H \<longleftrightarrow> unat ?he = unat ?hs + unat ?H" unfolding word_unat_eq_iff sum ..
    define p1 where "p1 = or_flags s ?hs start prot"
    define p2 where "p2 = (if ?he = ?hs + ?H then or_flags s end ?he p1 else p1)"
    obtain r' t' where tm: "try_mprotect ?hs ?H (p2 AND PAGE_BITS) s = (r', t')" by force
    have mt: "t = t'" "h = ?hs + ?H" "e = (if ?he = ?hs + ?H then ?he else end)"
      using assms(2) True tm unfolding mprotect_first_def by (auto simp: Let_def p2_def p1_def same_table_grants(4) [OF try_mprotect_log(2) [OF tm]] split: if_splits)
    have p12: "rights_le p1 p2" by (auto simp: p2_def or_flags_rights(1)) (simp add: rights_le_bits)
    have "call_grants s start end prot (Host_mprotect (g2h s ?hs) ?H (p2 AND PAGE_BITS))"
    proof (rule grants_call [OF needed_rights refl])
      fix x :: u32 assume x: "unat ?hs \<le> unat x" "unat x < unat ?hs + unat ?H"
      show "rights_le prot p2" using or_flags_rights(1) [of prot s ?hs start] p12 by (auto simp: p1_def rights_le_bits)
      assume out: "\<not> (start \<le> x \<and> x < end)"
      show "rights_le (page_get_flags s x) p2"
      proof (cases "x < start")
        case True
        then have "rights_le (page_get_flags s x) p1" unfolding p1_def using x(1) sp(8) by (intro or_flags_rights(2)) (simp_all add: word_le_nat_alt)
        then show ?thesis using p12 by (auto simp: rights_le_bits)
      next
        case False
        then have "unat end \<le> unat x" using out by (auto simp: word_le_nat_alt word_less_nat_alt)
        then have he: "?he = ?hs + ?H" unfolding eq using x(2) sp(5,6) by linarith
        have "end \<le> x" "x < ?he" using \<open>unat end \<le> unat x\<close> x(2) by (simp_all add: word_le_nat_alt word_less_nat_alt he sum)
        then show ?thesis unfolding p2_def using he al(2) by (simp add: or_flags_rights(2))
      qed
    qed (use al sp(9,10) in auto)
    with try_mprotect_log [OF tm] mt sum sp(6) eq show ?thesis by (auto intro!: exI [of _ "[_]"])
  qed
  then show "\<exists>cs. host_log t = cs @ host_log s \<and> list_all (call_grants s start end prot) cs" "same_table s t"
    and "?hs = start \<and> e = end \<and> h = start \<or> unat h = unat ?hs + unat ?H \<and>
      (e = ?he \<and> h = ?he \<or> e = end \<and> unat h + unat ?H \<le> unat ?he)" by blast+
qed

definition extends_log :: "(host_call \<Rightarrow> bool) \<Rightarrow> vm_state \<Rightarrow> vm_state \<Rightarrow> bool" where
  "extends_log P s t \<longleftrightarrow> (\<exists>cs. host_log t = cs @ host_log s \<and> list_all P cs)"

lemma extends_log_trans: "extends_log P s t \<Longrightarrow> extends_log P t u \<Longrightarrow> extends_log P s u"
proof -
  assume "extends_log P s t" "extends_log P t u"
  then obtain cs ds where "host_log t = cs @ host_log s" "list_all P cs" "host_log u = ds @ host_log t" "list_all P ds"
    by (auto simp: extends_log_def)
  then show ?thesis unfolding extends_log_def by (intro exI [of _ "ds @ cs"]) simp
qed

lemma last_grants:
  assumes ar: "mprotect_area s start end prot" and st: "same_table s u"
    and lo: "unat start \<le> unat (HOST_PAGE_ALIGN s end) - unat (qemu_host_page_size s)"
    and "mprotect_last end (HOST_PAGE_ALIGN s end) prot u = (r, he, t)"
  shows "extends_log (call_grants s start end prot) u t" "same_table s t" "he \<le> end"
proof -
  let ?he = "HOST_PAGE_ALIGN s end" and ?H = "qemu_host_page_size s"
  note sp = area_span [OF ar]
  have al: "aligned end" "prot AND 7 = prot" using ar by (simp_all add: mprotect_area_def)
  note sg = same_table_grants [OF st]
  have "extends_log (call_grants s start end prot) u t \<and> same_table s t \<and> he \<le> end"
  proof (cases "end < ?he")
    case False
    then show ?thesis using assms(4) st by (auto simp: mprotect_last_def extends_log_def)
  next
    case True
    have sub: "unat (?he - ?H) = unat ?he - unat ?H" using sp(10) by (simp add: unat_sub word_le_nat_alt)
    let ?p = "or_flags s end ?he prot"
    obtain r' t' where tm: "try_mprotect (?he - ?H) ?H (?p AND PAGE_BITS) u = (r', t')" by force
    have mt: "t = t'" "he = ?he - ?H"
      using assms(4) True tm same_table_grants(4) [OF try_mprotect_log(2) [OF tm]] unfolding mprotect_last_def by (auto simp: Let_def sg)
    have "call_grants s start end prot (Host_mprotect (g2h s (?he - ?H)) ?H (?p AND PAGE_BITS))"
    proof (rule grants_call [OF needed_rights refl])
      fix x :: u32 assume x: "unat (?he - ?H) \<le> unat x" "unat x < unat (?he - ?H) + unat ?H"
      show "rights_le prot ?p" by (rule or_flags_rights(1))
      assume "\<not> (start \<le> x \<and> x < end)"
      then have "end \<le> x" "x < ?he" using x lo sp(10) unfolding sub by (auto simp: word_le_nat_alt word_less_nat_alt)
      then show "rights_le (page_get_flags s x) ?p" using al by (intro or_flags_rights(2))
    qed (use al sp(9,10) sub in auto)
    moreover have "?he - ?H \<le> end" using sub sp(5) by (simp add: word_le_nat_alt)
    moreover have "same_table s t'" using same_table_iff [OF try_mprotect_log(2) [OF tm]] st by simp
    ultimately show ?thesis using try_mprotect_log(1) [OF tm] mt sg by (auto simp: extends_log_def intro!: exI [of _ "[_]"])
  qed
  then show "extends_log (call_grants s start end prot) u t" "same_table s t" "he \<le> end" by blast+
qed

lemma middle_grants:
  assumes st: "same_table s u" and "start \<le> h" "he \<le> end" "mprotect_middle h he prot u = (r, t)"
  shows "extends_log (call_grants s start end prot) u t" "same_table s t"
proof -
  note sg = same_table_grants [OF st]
  have "extends_log (call_grants s start end prot) u t \<and> same_table s t"
  proof (cases "h < he")
    case False
    then show ?thesis using assms by (auto simp: mprotect_middle_def extends_log_def)
  next
    case True
    then have tm: "try_mprotect h (he - h) prot u = (r, t)" using assms(4) by (simp add: mprotect_middle_def)
    have sub: "unat (he - h) = unat he - unat h" using True by (simp add: unat_sub word_less_nat_alt word_le_nat_alt)
    have lt: "unat h < unat he" using True by (simp add: word_less_nat_alt)
    have "call_grants s start end prot (Host_mprotect (g2h s h) (he - h) prot)"
    proof (rule grants_call [OF _ refl])
      fix x :: u32 assume "unat h \<le> unat x" "unat x < unat h + unat (he - h)"
      then have "start \<le> x" "x < end" using assms(2,3) lt unfolding sub by (simp_all add: word_le_nat_alt word_less_nat_alt)
      then show "rights_le (needed s start end prot x) prot" by (simp add: needed_def rights_le_bits)
    qed (use lt sub u32_less [of he] in auto)
    then show ?thesis using try_mprotect_log [OF tm] sg same_table_iff [OF try_mprotect_log(2) [OF tm]] st by (auto simp: extends_log_def intro!: exI [of _ "[_]"])
  qed
  then show "extends_log (call_grants s start end prot) u t" "same_table s t" by blast+
qed

text \<open>Setting flags maps page tables only.\<close>

lemma set_flags_log:
  assumes "page_ok s" "flags_ok flags" "set_flags_loop n addr flags s = Inr t"
  shows "extends_log (call_grants s0 start end prot) s t"
  using assms(1,3)
proof (induction n arbitrary: addr s)
  case 0
  then show ?case by (simp add: extends_log_def)
next
  case (Suc n)
  let ?p = "page_loc (page_of addr)"
  from Suc.prems(2) obtain p s1 where p: "page_find_alloc (page_of addr) True s = Inr (p, s1)"
    "set_flags_loop n (addr + TARGET_PAGE_SIZE) flags (set_page_flags ?p flags s1) = Inr t"
    unfolding set_flags_step [OF Suc.prems(1)] by auto
  note d = page_find_alloc_desc [OF p(1)]
  have ok: "page_ok (set_page_flags ?p flags s1)"
    by (rule page_ok_set [OF Suc.prems(1) assms(2)]) (simp add: set_page_flags_desc [OF d(2)] d(3))
  have l: "host_log (set_page_flags ?p flags s1) = host_log s1" by (simp add: set_page_flags_def split: option.split)
  have "extends_log (call_grants s0 start end prot) s s1"
    using p(1) by (cases ?p) (auto simp: page_find_alloc_def host_def call_grants_def extends_log_def Let_def split: option.splits if_splits intro!: exI [of _ "[_]"])
  then have "extends_log (call_grants s0 start end prot) s (set_page_flags ?p flags s1)" by (simp add: extends_log_def l)
  from extends_log_trans [OF this Suc.IH [OF ok p(2)]] show ?case .
qed

lemma target_mprotect_grants:
  assumes ar: "mprotect_area s start (start + TARGET_PAGE_ALIGN len) (prot AND 7)" and ok: "page_ok s"
    and "target_mprotect start len prot s = Inr (r, s')"
  shows "extends_log (call_grants s start (start + TARGET_PAGE_ALIGN len) (prot AND 7)) s s'"
proof -
  let ?s = "mmap_lock s" and ?stop = "start + TARGET_PAGE_ALIGN len" and ?prot = "prot AND 7"
  let ?ok = "extends_log (call_grants s start ?stop ?prot) ?s"
  have ar': "mprotect_area ?s start ?stop ?prot" using ar by (simp add: mprotect_area_def host_pages_def)
  have gr: "call_grants ?s = call_grants s" by (simp add: call_grants_def needed_def g2h_def fun_eq_iff split: host_call.split)
  have lg: "extends_log P s (mmap_unlock t) = extends_log P ?s t" for P t by (simp add: extends_log_def mmap_lock_def mmap_unlock_def)
  note sp = area_span [OF ar']
  have g: "aligned start" "\<not> ?stop < start" "TARGET_PAGE_ALIGN len \<noteq> 0" using ar by (auto simp: mprotect_area_def)
  obtain r1 e h s1 where s1: "mprotect_first start ?stop (start AND qemu_host_page_mask s) (HOST_PAGE_ALIGN ?s ?stop) ?prot ?s = (r1, e, h, s1)" by (metis prod_cases4)
  note f = first_grants [OF ar', unfolded lock_fields, OF s1, unfolded gr]
  obtain r2 he s2 where s2: "mprotect_last e (HOST_PAGE_ALIGN ?s ?stop) ?prot s1 = (r2, he, s2)" by (metis prod_cases3)
  obtain r3 s3 where s3: "mprotect_middle h he ?prot s2 = (r3, s3)" by force
  have ok1: "?ok s1" using f(1) by (simp add: extends_log_def)
  have lm: "?ok s2 \<and> ?ok s3 \<and> same_table ?s s3"
  proof (cases "e = HOST_PAGE_ALIGN ?s ?stop \<and> h = e")
    case True
    then have "s2 = s1" "he = h" "s3 = s2" using s2 s3 by (auto simp: mprotect_last_def mprotect_middle_def)
    then show ?thesis using ok1 f(2) by simp
  next
    case False
    with f(3) have e: "e = ?stop" and "start \<le> h" "unat start \<le> unat (HOST_PAGE_ALIGN ?s ?stop) - unat (qemu_host_page_size ?s)"
      using sp by (auto simp: word_le_nat_alt)
    note l = last_grants [OF ar' f(2) this(3) s2 [unfolded e], unfolded gr]
    note m = middle_grants [OF l(2) \<open>start \<le> h\<close> l(3) s3, unfolded gr]
    show ?thesis using extends_log_trans [OF ok1 l(1)] extends_log_trans [OF extends_log_trans [OF ok1 l(1)] m(1)] m(2) by blast
  qed
  have ok3: "page_ok s3" using same_table_flags(2) [of ?s s3] lm ok by simp
  have "?ok t" if "page_set_flags start ?stop (?prot OR PAGE_VALID) s3 = Inr t" for t
  proof -
    have "extends_log (call_grants s start ?stop ?prot) s3 t"
      using that set_flags_log [OF ok3 stored_flags_ok [OF prot_flags_ok(1) [of prot]]]
      by (simp add: page_set_flags_def Let_def split: if_splits flip: stored_flags_def)
    then show ?thesis using lm extends_log_trans by blast
  qed
  with lm ok1 assms(3) g show ?thesis
    unfolding target_mprotect_def aligned_iff lock_fields by (auto simp: Let_def s1 s2 s3 lg split: if_splits)
qed

section \<open>Properties\<close>

text \<open>An example: a host that grants every request, with pages four times the guest's.\<close>

definition kernel_answer :: "host_call list \<Rightarrow> u32" where
  "kernel_answer log = (case log of Host_mmap _ _ _ _ _ _ # _ \<Rightarrow> 0x50000000 | _ \<Rightarrow> 0)"

definition demo_map :: vm_state where
  "demo_map = demo_vm\<lparr>qemu_host_page_size := 0x4000, qemu_host_page_bits := 14, qemu_host_page_mask := 0xffffc000, answer := kernel_answer\<rparr>"

lemma demo_map_ok: "page_ok demo_map" "host_memory demo_map" "kernel_ok demo_map" "reserved_va demo_map = 0" "host_pages demo_map"
  "0x1000 \<le> qemu_real_host_page_size demo_map" "page_get_flags demo_map a = 0" "qemu_host_page_mask demo_map = NOT (qemu_host_page_size demo_map - 1)"
proof -
  show "page_ok demo_map" "host_memory demo_map" "reserved_va demo_map = 0" "0x1000 \<le> qemu_real_host_page_size demo_map" "page_get_flags demo_map a = 0"
    by (simp_all add: page_ok_def host_memory_def MAP_FAILED_def demo_map_def demo_vm_def page_desc_def blank_page_def flags_ok_def
      page_get_flags_desc kernel_answer_def)
  show "kernel_ok demo_map"
    by (simp add: kernel_ok_def demo_map_def demo_vm_def kernel_answer_def aligned_def)
  show m: "qemu_host_page_mask demo_map = NOT (qemu_host_page_size demo_map - 1)" by (simp add: demo_map_def)
  then show "host_pages demo_map" unfolding host_pages_def by (intro exI [of _ 14]) (simp add: demo_map_def)
qed

text \<open>
  What \<^verbatim>\<open>target_mprotect\<close> does.  An area that is not aligned or that wraps is refused with
  \<^verbatim>\<open>EINVAL\<close>; an empty one is accepted; neither changes anything.  Otherwise, if the host accepts its
  calls, exactly the pages of the area get the new protection and the call returns zero; if the host
  refuses one, its answer is returned and no flag changes.  The lock is given back in every case.
\<close>

theorem target_mprotect_flags:
  assumes "page_ok s" "host_memory s"
  shows "\<exists>r s'. target_mprotect start len prot s = Inr (r, s') \<and>
     (if \<not> aligned start \<or> start + TARGET_PAGE_ALIGN len < start then r = - 22 \<and> s' = s
      else if TARGET_PAGE_ALIGN len = 0 then r = 0 \<and> s' = s
      else unlocked s s' (if r = 0 then flags_after s start (TARGET_PAGE_ALIGN len) ((prot AND 7) OR PAGE_VALID) else page_get_flags s))"
proof (cases "aligned start \<and> start < start + TARGET_PAGE_ALIGN len")
  case True
  then have "\<not> start + TARGET_PAGE_ALIGN len < start" "TARGET_PAGE_ALIGN len \<noteq> 0" by auto
  then show ?thesis using True target_mprotect_outcome [OF assms, of start len prot] by simp
next
  case False
  then have "\<not> aligned start \<or> start + TARGET_PAGE_ALIGN len < start \<or> TARGET_PAGE_ALIGN len = 0"
    by (metis add_cancel_left_right linorder_less_linear)
  then show ?thesis unfolding target_mprotect_def aligned_iff by (auto simp: Let_def)
qed

theorem target_mprotect_flags_witness:
  "\<exists>r s'. target_mprotect 0x8049000 0x1001 5 demo_map = Inr (r, s') \<and> (r = 0 \<longrightarrow> page_get_flags s' 0x804a000 = 13)"
  using target_mprotect_flags [OF demo_map_ok(1,2), of "0x8049000" "0x1001" 5]
  by (auto simp: TARGET_PAGE_ALIGN_def aligned_def unlocked_def flags_after_def in_area_def stored_flags_def)

text \<open>
  C14: \<^verbatim>\<open>target_mprotect\<close> takes no rights from the neighbours.  Where host pages are larger than the
  guest's, every \<^verbatim>\<open>mprotect\<close> it asks of the host grants each guest page it covers at least what that page
  needs: the new protection inside the area, the protection it has outside.
\<close>

theorem target_mprotect_rights:
  assumes "mprotect_area s start (start + TARGET_PAGE_ALIGN len) (prot AND 7)" "page_ok s" "target_mprotect start len prot s = Inr (r, s')"
  shows "\<exists>cs. host_log s' = cs @ host_log s \<and> list_all (call_grants s start (start + TARGET_PAGE_ALIGN len) (prot AND 7)) cs"
  using target_mprotect_grants [OF assms] by (simp add: extends_log_def)

theorem target_mprotect_rights_witness:
  "\<exists>r s' cs. target_mprotect 0x8049000 0x1001 5 demo_map = Inr (r, s') \<and> host_log s' = cs @ host_log demo_map \<and>
     list_all (call_grants demo_map 0x8049000 0x804b000 5) cs"
proof -
  have area: "mprotect_area demo_map 0x8049000 (0x8049000 + TARGET_PAGE_ALIGN 0x1001) (5 AND 7)"
    using demo_map_ok(5) by (simp add: mprotect_area_def TARGET_PAGE_ALIGN_def aligned_def) (simp add: demo_map_def)
  have "\<exists>r s'. target_mprotect 0x8049000 0x1001 5 demo_map = Inr (r, s')"
    using target_mprotect_outcome [OF demo_map_ok(1,2), of "0x8049000" "0x1001" 5] by (auto simp: TARGET_PAGE_ALIGN_def aligned_def)
  then obtain r s' where r: "target_mprotect 0x8049000 0x1001 5 demo_map = Inr (r, s')" by blast
  from target_mprotect_rights [OF area demo_map_ok(1) r] r show ?thesis by (auto simp: TARGET_PAGE_ALIGN_def)
qed

text \<open>
  C16: What \<^verbatim>\<open>target_munmap\<close> does.  An area that is not aligned or is empty is refused.  An area that
  ends below the top of the address space is cleared, and nothing else, unless the host refuses.  An area
  that ends exactly at the top ends the process: the assertion of \<^verbatim>\<open>page_set_flags\<close> fails.
\<close>

theorem target_munmap_flags:
  assumes "page_ok s" "host_memory s" "qemu_host_page_mask s = NOT (qemu_host_page_size s - 1)"
  shows "if \<not> aligned start \<or> TARGET_PAGE_ALIGN len = 0 then target_munmap start len s = Inr (- 22, s)
     else if start + TARGET_PAGE_ALIGN len = 0 then target_munmap start len s = Inl Assertion_Failed
     else start < start + TARGET_PAGE_ALIGN len \<longrightarrow> (\<exists>r s'. target_munmap start len s = Inr (r, s') \<and>
       unlocked s s' (if r = 0 then flags_after s start (TARGET_PAGE_ALIGN len) 0 else page_get_flags s))"
proof -
  have "target_munmap start len s = Inr (- 22, s)" if "\<not> aligned start \<or> TARGET_PAGE_ALIGN len = 0"
    unfolding target_munmap_def aligned_iff using that by (auto simp: Let_def)
  then show ?thesis using target_munmap_top_aborts [OF _ _ _ assms(3)] target_munmap_outcome [OF assms(1,2)] by simp
qed

theorem target_munmap_flags_witness:
  "target_munmap 0xfffff000 0x1000 demo_map = Inl Assertion_Failed"
  using target_munmap_flags [OF demo_map_ok(1,2,8), of "0xfffff000" "0x1000"] by (simp add: TARGET_PAGE_ALIGN_def aligned_def)

text \<open>
  C15: What \<^verbatim>\<open>target_mmap\<close> leaves behind, for every kind of mapping: fixed or not, anonymous, mapped or read
  from a file.  It returns, or fails the assertion of \<^verbatim>\<open>page_set_flags\<close>; the lock is given back.  An address
  that it returns is the one asked for if the mapping is fixed, and exactly the pages from there on have
  the protection asked for.
\<close>

theorem target_mmap_maps:
  assumes "page_ok s" "host_memory s" "kernel_ok s" "reserved_va s = 0" "TARGET_PAGE_SIZE \<le> qemu_real_host_page_size s"
    and "prot AND 7 = prot" "TARGET_PAGE_ALIGN len \<noteq> 0"
  shows "case target_mmap start len prot flags fd offset s of Inl e \<Rightarrow> e = Assertion_Failed
     | Inr (r, s') \<Rightarrow> page_ok s' \<and> mmap_lock_count s' = mmap_lock_count s \<and>
         (r \<noteq> - 1 \<longrightarrow> (flags AND MAP_FIXED \<noteq> 0 \<longrightarrow> r = start) \<and>
           (\<forall>a. page_get_flags s' a = flags_after s r (TARGET_PAGE_ALIGN len) (prot OR PAGE_VALID) a))"
  using target_mmap_good [OF assms, of flags start fd offset] by (auto simp: mapped_good_def split: sum.splits if_splits)

theorem target_mmap_maps_witness:
  "case target_mmap 0x10001000 0x2345 3 0x32 (- 1) 0 demo_map of Inl e \<Rightarrow> e = Assertion_Failed
     | Inr (r, s') \<Rightarrow> page_ok s' \<and> mmap_lock_count s' = 0 \<and> (r \<noteq> - 1 \<longrightarrow> r = 0x10001000 \<and> page_get_flags s' 0x10003000 = 0x1b)"
proof -
  have l: "TARGET_PAGE_ALIGN 0x2345 = 0x3000" "mmap_lock_count demo_map = 0" by (simp_all add: TARGET_PAGE_ALIGN_def demo_map_def demo_vm_def)
  have f: "flags_after demo_map 0x10001000 0x3000 (3 OR PAGE_VALID) 0x10003000 = 0x1b" by (simp add: flags_after_def in_area_def stored_flags_def)
  from target_mmap_maps [OF demo_map_ok(1-4,6), where prot = 3 and len = "0x2345" and start = "0x10001000" and flags = "0x32" and fd = "- 1" and offset = 0] l f show ?thesis
    by (auto split: sum.splits)
qed

text \<open>The first address of the host page that holds an address.\<close>

definition host_page_start :: "vm_state \<Rightarrow> u32 \<Rightarrow> u32" where
  "host_page_start s a = of_nat (unat a - unat a mod unat (qemu_host_page_size s))"

lemma free_area_at:
  assumes "free_area s r n" "unat r mod H = 0" "unat sz = n * H" "unat r \<le> unat a" "unat a < unat r + unat sz" "H = unat (qemu_host_page_size s)"
  shows "page_get_flags s (host_page_start s a) = 0"
proof -
  let ?d = "unat a - unat r"
  have "?d < n * H" using assms(3-5) by simp
  then have k: "?d div H < n" by (simp add: less_mult_imp_div_less)
  have m: "unat a mod H = ?d mod H" using mod_add_left_eq [of "unat r" H ?d] assms(2,4) by simp
  have "unat a - unat a mod H = unat r + ?d div H * H"
    using assms(4) div_mult_mod_eq [of ?d H] unfolding m by linarith
  then have "host_page_start s a = r + of_nat (?d div H * H)" by (simp add: host_page_start_def assms(6) [symmetric])
  then show ?thesis using assms(1) k unfolding free_area_def assms(6) [symmetric] by simp
qed

lemma guest_page_start: "page_get_flags s (of_nat (unat a - unat a mod 4096)) = page_get_flags s a"
proof -
  have "unat (of_nat (unat a - unat a mod 4096) :: u32) = unat a - unat a mod 4096"
    using u32_less [of a] by (intro unat_of_nat_u32) simp
  then have "unat (page_of (of_nat (unat a - unat a mod 4096))) = unat (page_of a)"
    unfolding page_of_nat by (simp only: minus_mod_eq_div_mult)
  then have "page_of (of_nat (unat a - unat a mod 4096)) = page_of a"
    unfolding word_unat_eq_iff .
  then show ?thesis by (simp only: page_get_flags_desc)
qed

text \<open>
  C17: The search for room in a reserved address space always comes to an end and changes no flag.  Either it fails, or what it
  returns lies on a host page boundary and ends below the end of the reserved space, and for every address in it the
  first guest page of its host page is unmapped.  If host pages are no larger than the guest's, the whole area is free; if they
  are larger, the other guest pages of a host page are not looked at and may be mapped.
\<close>

theorem mmap_find_vma_reserved_free:
  assumes "0 < qemu_host_page_size s" "unat sz = n * unat (qemu_host_page_size s)" "0 < n"
    and "unat start mod unat (qemu_host_page_size s) = 0"
  shows "\<exists>r s'. mmap_find_vma_reserved start sz s = Some (r, s') \<and> page_get_flags s' = page_get_flags s \<and>
     (r = - 1 \<or> unat r mod unat (qemu_host_page_size s) = 0 \<and> unat r + unat sz < unat (reserved_va s) \<and>
        (\<forall>a. unat r \<le> unat a \<and> unat a < unat r + unat sz \<longrightarrow> page_get_flags s (host_page_start s a) = 0 \<and>
           (qemu_host_page_size s = 0x1000 \<longrightarrow> page_get_flags s a = 0)))"
proof -
  let ?H = "unat (qemu_host_page_size s)"
  have "0 < ?H" using assms(1) by (simp add: word_less_nat_alt)
  then have "search_ok s sz n (find_reserved_loop sz start start False s)"
    by (rule find_reserved_search [OF _ assms(2,3), of _ _ 0]) (simp_all add: free_area_def assms(4))
  moreover have "page_get_flags s (host_page_start s a) = 0 \<and> (qemu_host_page_size s = 0x1000 \<longrightarrow> page_get_flags s a = 0)"
    if "free_area s r n" "unat r mod ?H = 0" "unat r \<le> unat a" "unat a < unat r + unat sz" for r a
  proof -
    have f: "page_get_flags s (host_page_start s a) = 0" by (rule free_area_at [OF that(1,2) assms(2) that(3,4) refl])
    then show ?thesis using guest_page_start [of s a] by (auto simp: host_page_start_def)
  qed
  ultimately show ?thesis using same_table_flags by (fastforce simp: mmap_find_vma_reserved_def search_ok_def)
qed

theorem mmap_find_vma_reserved_free_witness:
  "\<exists>r s'. mmap_find_vma_reserved 0x40000000 0x8000 (demo_map\<lparr>reserved_va := 0x60000000\<rparr>) = Some (r, s') \<and>
     (r = - 1 \<or> unat r mod 0x4000 = 0 \<and> unat r + 0x8000 < 0x60000000)"
proof -
  let ?s = "demo_map\<lparr>reserved_va := 0x60000000\<rparr>"
  have h: "unat (qemu_host_page_size ?s) = 0x4000" by (simp add: demo_map_def)
  with mmap_find_vma_reserved_free [of ?s "0x8000" 2 "0x40000000"] show ?thesis by (auto simp: word_less_nat_alt)
qed

text \<open>A page that is mapped and yet given out: the second guest page of a host page of four.\<close>

lemma mmap_find_vma_reserved_gives_used:
  "\<exists>s s'. page_set_flags 0x40001000 0x40002000 0xb (demo_map\<lparr>reserved_va := 0x60000000\<rparr>) = Inr s \<and>
     page_get_flags s 0x40001000 = 0x1b \<and> mmap_find_vma_reserved 0x40000000 0x4000 s = Some (0x40000000, s')"
proof -
  let ?m = "demo_map\<lparr>reserved_va := 0x60000000\<rparr>"
  have ok: "flags_ok 0xb" "\<not> whole_space 0x40001000 (0x40002000 - 1)" by (simp_all add: flags_ok_def whole_space_def)
  have m: "page_ok ?m" "host_memory ?m" "page_get_flags ?m a = page_get_flags demo_map a" for a
    using demo_map_ok(1,2) by (simp_all add: page_ok_def host_memory_def page_desc_def page_get_flags_desc)
  obtain s where s: "page_set_flags 0x40001000 0x40002000 0xb ?m = Inr s"
    using page_set_flags_total [OF m(1) ok(1) m(2), of "0x40001000" "0x40002000"] by auto
  note sp = page_set_flags_spec [OF m(1) ok(1) _ ok(2) s]
  have h: "qemu_host_page_size s = 0x4000" "reserved_va s = 0x60000000" using sp by (simp_all add: keeps_flags_def) (simp_all add: demo_map_def demo_vm_def)
  have "page_get_flags s 0x40000000 = 0" using sp by (simp add: m(3) demo_map_ok(7))
  then have "mmap_find_vma_reserved 0x40000000 0x4000 s = Some (0x40000000, s\<lparr>mmap_next_start := 0x40004000\<rparr>)"
    unfolding mmap_find_vma_reserved_def by (subst find_reserved_loop.simps, subst find_reserved_loop.simps) (simp add: h)
  moreover have "page_get_flags s 0x40001000 = 0x1b" using sp by (simp add: stored_flags_def)
  ultimately show ?thesis using s by blast
qed

text \<open>
  What \<^verbatim>\<open>target_mremap\<close> leaves behind.  It returns unless an area wraps, which fails the assertion of
  \<^verbatim>\<open>page_set_flags\<close>, or the search for room does not end.  Either it failed and no flag changed, or the new
  area has the flags of the old one's first page, the rest of the old area is unmapped, and every other page
  is as it was.  The lock is given back.
\<close>

theorem target_mremap_moves:
  assumes "page_ok s" "host_memory s" "\<not> whole_space old (old + old_size - 1)"
  shows "case target_mremap old old_size new_size flags new s of Inl e \<Rightarrow> e = Assertion_Failed \<or> e = Never_Returns
     | Inr (r, s') \<Rightarrow> whole_space r (r + new_size - 1) \<or> mmap_lock_count s' = mmap_lock_count s \<and> page_ok s' \<and>
         (r = - 1 \<and> page_get_flags s' = page_get_flags s \<or> page_get_flags s' = flags_moved s old old_size r new_size)"
proof (cases "target_mremap old old_size new_size flags new s")
  case (Inl e)
  then show ?thesis using target_mremap_aborts [OF assms(1,2) _ Inl] assms(3) by auto
next
  case (Inr x)
  obtain r s' where x: "x = (r, s')" by (cases x)
  have "whole_space r (r + new_size - 1) \<or> mmap_lock_count s' = mmap_lock_count s \<and> page_ok s' \<and>
         (r = - 1 \<and> page_get_flags s' = page_get_flags s \<or> page_get_flags s' = flags_moved s old old_size r new_size)"
    using target_mremap_outcome [OF assms(1) Inr [unfolded x] assms(3)] by (auto simp: unlocked_def fun_eq_iff)
  then show ?thesis by (simp add: Inr x)
qed

theorem target_mremap_moves_witness:
  "case target_mremap 0x8048000 0x2000 0x3000 3 0x9000000 demo_map of Inl e \<Rightarrow> e = Assertion_Failed \<or> e = Never_Returns
     | Inr (r, s') \<Rightarrow> whole_space r (r + 0x3000 - 1) \<or> mmap_lock_count s' = mmap_lock_count demo_map \<and> page_ok s' \<and>
         (r = - 1 \<and> page_get_flags s' = page_get_flags demo_map \<or> page_get_flags s' = flags_moved demo_map 0x8048000 0x2000 r 0x3000)"
  using target_mremap_moves [OF demo_map_ok(1,2), of "0x8048000" "0x2000" "0x3000" 3 "0x9000000"] by (simp add: whole_space_def)

text \<open>
  The end of a fixed mapping that does not fill its last host page: \<^verbatim>\<open>mmap_frag\<close> is told that the mapping
  fills it, so the whole host page is replaced by a fresh one, whatever other guest pages are on it.
\<close>

theorem mmap_last_discards:
  assumes "end < real_end"
  shows "Host_mmap (g2h s (real_end - qemu_host_page_size s)) (qemu_host_page_size s) prot (flags OR MAP_ANONYMOUS) (- 1) 0
     \<in> set (host_log (snd (snd (mmap_last start end real_end prot flags fd offset s))))"
  by (rule mmap_last_replaces [OF assms])

theorem mmap_last_discards_witness:
  "\<exists>s. page_set_flags 0x8043000 0x8044000 0xb demo_map = Inr s \<and> page_get_flags s 0x8043000 = 0x1b \<and>
     Host_mmap 0x8040000 0x4000 3 0x32 (- 1) 0 \<in> set (host_log (snd (snd (mmap_last 0x8040000 0x8042000 0x8044000 3 0x32 (- 1) 0 s))))"
proof -
  have ok: "flags_ok 0xb" "\<not> whole_space 0x8043000 (0x8044000 - 1)" by (simp_all add: flags_ok_def whole_space_def)
  obtain s where s: "page_set_flags 0x8043000 0x8044000 0xb demo_map = Inr s"
    using page_set_flags_total [OF demo_map_ok(1) ok(1) demo_map_ok(2), of "0x8043000" "0x8044000"] by auto
  note sp = page_set_flags_spec [OF demo_map_ok(1) ok(1) _ ok(2) s]
  have h: "qemu_host_page_size s = 0x4000" "guest_base s = 0" using sp by (simp_all add: keeps_flags_def) (simp_all add: demo_map_def demo_vm_def)
  have "page_get_flags s 0x8043000 = 0x1b" using sp by (simp add: stored_flags_def)
  with s mmap_last_discards [of "0x8042000" "0x8044000" s 3 "0x32" "0x8040000" "- 1" 0] h show ?thesis by (auto simp: g2h_def)
qed

end
