(* ===== verification/Loader_Stack.thy ===== *)
theory Loader_Stack
  imports Loader Mmap_Rights
begin

text \<open>
  The stack a program starts with: that the strings, the tables of pointers and the auxiliary vector are
  in the guest's memory as the functions of the loader mean to put them there.
\<close>

unbundle bit_operations_syntax

section \<open>The guest's stack\<close>

primrec string_ptrs :: "u32 \<Rightarrow> u8 list list \<Rightarrow> u32 list" where
  "string_ptrs p [] = []"
| "string_ptrs p (s # argv) = p # string_ptrs (p + of_nat (length s + 1)) argv"

lemma length_string_ptrs [simp]: "length (string_ptrs p argv) = length argv"
  by (induction argv arbitrary: p) simp_all

definition words :: "u32 list \<Rightarrow> u8 list" where
  "words ws = concat (map bytes32 ws)"

lemma words_simps [simp]: "words [] = []" "words (w # ws) = bytes32 w @ words ws" "words (xs @ ys) = words xs @ words ys"
  by (simp_all add: words_def)

lemma length_words [simp]: "length (words ws) = 4 * length ws"
  by (induction ws) simp_all

text \<open>An area the guest may write to, all of whose pages have host memory.\<close>

definition stack_zone :: "vm_state \<Rightarrow> u32 \<Rightarrow> nat \<Rightarrow> bool" where
  "stack_zone v b Z \<longleftrightarrow> page_ok v \<and> b \<noteq> 0 \<and> unat b + Z \<le> 2 ^ 32 \<and>
     (\<forall>a\<in>region b Z. page_allows 3 (page_get_flags v a) \<and> a + guest_base v \<noteq> 0)"

lemma zone_offset: "stack_zone v b Z \<Longrightarrow> i < Z \<Longrightarrow> unat (b + of_nat i) = unat b + i"
  by (simp add: stack_zone_def unat_word_ariths unat_of_nat_u32)

lemma zone_at:
  assumes "stack_zone v b Z" "i < Z"
  shows "page_allows 3 (page_get_flags v (b + of_nat i))" "b + of_nat i + guest_base v \<noteq> 0"
proof -
  have "i < 2 ^ 32" using assms by (simp add: stack_zone_def)
  then have "b + of_nat i \<in> region b Z" using assms(2) by (simp add: region_def unat_of_nat_u32)
  then show "page_allows 3 (page_get_flags v (b + of_nat i))" "b + of_nat i + guest_base v \<noteq> 0"
    using assms(1) by (auto simp: stack_zone_def)
qed

lemma lock_zone:
  assumes z: "stack_zone v b Z" and n: "0 < n" "n \<le> 4096" "i + n \<le> Z"
  shows "\<exists>p. p \<noteq> 0 \<and> lock_user VERIFY_WRITE (b + of_nat i) (of_nat n) v = Inr (p, v)"
proof -
  let ?a = "b + of_nat i :: u32"
  have len: "of_nat n \<noteq> (0 :: u32)" "unat (of_nat n :: u32) = n"
    using n(1,2) unat_of_nat_u32 [of n] by (auto simp flip: unat_eq_zero)
  have u: "unat ?a = unat b + i" using zone_offset [OF z] n by simp
  have e: "?a + of_nat n - 1 = b + of_nat (i + n - 1)" using n(1) by (simp add: of_nat_diff)
  have "unat (?a + of_nat n - 1) = unat b + (i + n - 1)" unfolding e using n by (intro zone_offset [OF z]) simp
  then have "\<not> ?a + of_nat n - 1 < ?a" using u n(1) unfolding word_less_nat_alt by linarith
  then have "page_check_range ?a (of_nat n) 3 v = Inr (0, v)"
    using page_check_range_spec [OF _ small_not_whole [OF len(1)], of v ?a 3] z n len zone_at(1) [OF z, of i]
    by (simp add: stack_zone_def del: word_less_sub1)
  then show ?thesis using zone_at(2) [OF z, of i] n by (simp add: lock_user_def access_ok_def)
qed

lemma put_user_zone:
  assumes "stack_zone (l_vm s) b Z" "i + 4 \<le> Z"
  shows "put_user_ual x (b + of_nat i) s = Inr (s\<lparr>l_mem := st32 (l_mem s) (b + of_nat i) x\<rparr>)"
  using lock_zone [OF assms(1), of 4 i] assms(2) by (auto simp: put_user_ual_def)

lemma memcpy_zone:
  assumes "stack_zone (l_vm s) b Z" "bs \<noteq> []" "length bs \<le> 4096" "i + length bs \<le> Z"
  shows "memcpy_to_target (b + of_nat i) bs s = Inr (0, s\<lparr>l_mem := write_bytes (l_mem s) (b + of_nat i) bs\<rparr>)"
  using lock_zone [OF assms(1), of "length bs" i] assms by (auto simp: memcpy_to_target_def)

section \<open>The length of a string\<close>

lemma strnlen_of:
  assumes "bytes_at m a (x @ [0])" "0 \<notin> set x"
  shows "qemu_strnlen m a n = min (length x) n"
  using assms
proof (induction n arbitrary: x a)
  case (Suc n)
  then show ?case by (cases x) auto
qed simp


lemma page_offset: "unat (TARGET_PAGE_SIZE - (a AND NOT TARGET_PAGE_MASK)) = 4096 - unat a mod 4096"
proof -
  have "NOT TARGET_PAGE_MASK = mask 12" by (simp add: mask_eq_exp_minus_1)
  then have e: "a AND NOT TARGET_PAGE_MASK = take_bit 12 a" unfolding take_bit_eq_mask by (simp only:)
  have u: "unat (take_bit 12 a) = unat a mod 4096" by (simp add: take_bit_eq_mod unat_mod)
  have "take_bit 12 a \<le> TARGET_PAGE_SIZE" using u by (simp add: word_le_nat_alt less_imp_le)
  then show ?thesis unfolding e by (simp add: unat_sub u)
qed

lemma lock_page:
  assumes z: "stack_zone v b Z" and i: "i < Z"
  shows "\<exists>p. p \<noteq> 0 \<and> lock_user VERIFY_READ (b + of_nat i) (TARGET_PAGE_SIZE - ((b + of_nat i) AND NOT TARGET_PAGE_MASK)) v = Inr (p, v)"
proof -
  let ?a = "b + of_nat i :: u32" and ?l = "TARGET_PAGE_SIZE - ((b + of_nat i) AND NOT TARGET_PAGE_MASK)"
  have c: "chunk ?a 4096 = unat ?l" unfolding page_offset chunk_def page_rest by simp
  have "of_nat (chunk ?a 4096) = ?l" unfolding c by simp
  then have "lock_user VERIFY_READ ?a ?l v = Inr (if page_allows 1 (page_get_flags v ?a) then ?a + guest_base v else 0, v)"
    using lock_user_chunk [of v 4096 "chunk ?a 4096" ?a VERIFY_READ] z by (simp add: stack_zone_def)
  moreover have "page_allows 1 (page_get_flags v ?a)" using zone_at(1) [OF assms] by (simp add: page_allows_def)
  ultimately show ?thesis using zone_at(2) [OF assms] by simp
qed

lemma strlen_loop_zone:
  assumes z: "stack_zone (l_vm s) b Z" and fit: "k + length x < Z" "k + length x < 2 ^ 31" "j \<le> k"
    and x: "bytes_at (l_mem s) (b + of_nat k) (x @ [0])" "0 \<notin> set x"
  shows "strlen_loop s (b + of_nat j) (b + of_nat k) = Some (Inr (of_nat (k + length x - j)))"
  using fit x
proof (induction "length x" arbitrary: k x rule: less_induct)
  case less
  let ?a = "b + of_nat k" and ?l = "TARGET_PAGE_SIZE - ((b + of_nat k) AND NOT TARGET_PAGE_MASK)"
  have l: "0 < unat ?l" unfolding page_offset by (simp add: Suc_le_eq)
  obtain q where q: "q \<noteq> 0" "lock_user VERIFY_READ ?a ?l (l_vm s) = Inr (q, l_vm s)" using lock_page [OF z, of k] less.prems by auto
  let ?n = "min (length x) (unat ?l)"
  have len: "qemu_strnlen (l_mem s) ?a (unat ?l) = ?n" using strnlen_of [OF less.prems(4,5)] .
  have a': "?a + of_nat ?n = b + of_nat (k + ?n)" by (simp only: of_nat_add add.assoc)
  have "unat (b + of_nat (k + ?n)) = unat b + (k + ?n)" using less.prems by (intro zone_offset [OF z]) auto
  then have nz: "b + of_nat (k + ?n) \<noteq> 0" using z by (auto simp: stack_zone_def simp flip: unat_eq_zero)
  have d: "b + of_nat (k + ?n) - (b + of_nat j) = of_nat (k + ?n - j)" using less.prems(3) by (simp add: of_nat_diff)
  have nb: "k + ?n - j < 2 ^ 31" using less.prems by auto
  have nd: "\<not> 0x7fffffff < (of_nat (k + ?n - j) :: u32)"
    using nb unat_of_nat_u32 [of "k + ?n - j"] by (simp add: word_less_nat_alt)
  have step: "strlen_loop s (b + of_nat j) ?a =
      (if of_nat ?n \<noteq> ?l then Some (Inr (of_nat (k + ?n - j))) else strlen_loop s (b + of_nat j) (b + of_nat (k + ?n)))"
    unfolding strlen_loop.simps [of s "b + of_nat j" ?a] Let_def q(2) len sum.case prod.case a' d using q(1) nz nd by simp
  have ul: "of_nat (unat ?l) = ?l" by simp
  show ?case
  proof (cases "length x < unat ?l")
    case True
    have "of_nat ?n \<noteq> ?l"
    proof
      assume "of_nat ?n = ?l"
      then have "unat (of_nat ?n :: u32) = unat ?l" by (simp only:)
      moreover have "?n < 2 ^ 32" using less.prems(2) by auto
      ultimately show False using True unat_of_nat_u32 [of ?n] by auto
    qed
    then show ?thesis using step True by simp
  next
    case False
    let ?x = "drop (unat ?l) x"
    have n: "?n = unat ?l" using False by simp
    have "x @ [0] = take (unat ?l) x @ (?x @ [0])" by simp
    with less.prems(4) have "bytes_at (l_mem s) ?a (take (unat ?l) x @ (?x @ [0]))" by (simp only:)
    then have b: "bytes_at (l_mem s) (b + of_nat (k + unat ?l)) (?x @ [0])"
      unfolding bytes_at_append [of _ _ "take (unat ?l) x"] using False by (simp add: add.assoc)
    have "strlen_loop s (b + of_nat j) (b + of_nat (k + unat ?l)) = Some (Inr (of_nat (k + unat ?l + length ?x - j)))"
      using False l less.prems b by (intro less.hyps) (auto dest: in_set_dropD)
    moreover have "k + unat ?l + length ?x = k + length x" using False by simp
    ultimately show ?thesis unfolding step n using ul by simp
  qed
qed

lemma target_strlen_zone:
  assumes "stack_zone (l_vm s) b Z" "k + length x < Z" "k + length x < 2 ^ 31" "bytes_at (l_mem s) (b + of_nat k) (x @ [0])" "0 \<notin> set x"
  shows "target_strlen (b + of_nat k) s = Inr (of_nat (length x))"
  using strlen_loop_zone [OF assms(1-3) _ assms(4,5), of k] by (simp add: target_strlen_def)

section \<open>The tables\<close>

lemma put_pointers_zone:
  assumes z: "stack_zone (l_vm s) b Z" and x: "bytes_at (l_mem s) (b + of_nat k) (flat_args xs)" "\<forall>x\<in>set xs. 0 \<notin> set x"
    and fit: "o1 + 4 * length xs \<le> k" "k + length (flat_args xs) \<le> Z" "k + length (flat_args xs) < 2 ^ 31"
  shows "put_pointers (length xs) (b + of_nat k) (b + of_nat o1) s =
    Inr (b + of_nat (k + length (flat_args xs)), b + of_nat (o1 + 4 * length xs),
      s\<lparr>l_mem := write_bytes (l_mem s) (b + of_nat o1) (words (string_ptrs (b + of_nat k) xs))\<rparr>)"
  using assms
proof (induction xs arbitrary: s k o1)
  case (Cons x xs)
  let ?s = "s\<lparr>l_mem := st32 (l_mem s) (b + of_nat o1) (b + of_nat k)\<rparr>" and ?k = "k + (length x + 1)"
  have big: "Z \<le> 2 ^ 32" using Cons.prems(1) by (simp add: stack_zone_def)
  have put: "put_user_ual (b + of_nat k) (b + of_nat o1) s = Inr ?s"
    using Cons.prems by (intro put_user_zone) auto
  have dis: "region (b + of_nat k) (length (flat_args (x # xs))) \<inter> region (b + of_nat o1) 4 = {}"
    using region_apart [of o1 4 k "length (flat_args (x # xs))" b] Cons.prems big by (simp add: Int_commute)
  have bs: "bytes_at (l_mem ?s) (b + of_nat k) (flat_args (x # xs))"
    using bytes_at_st32_other [OF dis] Cons.prems(2) by simp
  then have bs': "bytes_at (l_mem ?s) (b + of_nat k) ((x @ [0]) @ flat_args xs)" by simp
  then have b1: "bytes_at (l_mem ?s) (b + of_nat k) (x @ [0])" "bytes_at (l_mem ?s) (b + of_nat ?k) (flat_args xs)"
    unfolding bytes_at_append [of _ _ "x @ [0]"] by (simp_all add: ac_simps)
  have len: "target_strlen (b + of_nat k) ?s = Inr (of_nat (length x))"
    using Cons.prems b1(1) by (intro target_strlen_zone) auto
  have e: "b + of_nat k + of_nat (length x) + 1 = b + of_nat ?k" "b + of_nat o1 + 4 = b + of_nat (o1 + 4)" by simp_all
  have IH: "put_pointers (length xs) (b + of_nat ?k) (b + of_nat (o1 + 4)) ?s =
    Inr (b + of_nat (?k + length (flat_args xs)), b + of_nat (o1 + 4 + 4 * length xs),
      ?s\<lparr>l_mem := write_bytes (l_mem ?s) (b + of_nat (o1 + 4)) (words (string_ptrs (b + of_nat ?k) xs))\<rparr>)"
    using Cons.prems b1(2) by (intro Cons.IH) auto
  have f: "string_ptrs (b + of_nat k) (x # xs) = (b + of_nat k) # string_ptrs (b + of_nat ?k) xs" by (simp add: ac_simps)
  show ?case
    using put len IH unfolding f by (simp add: e write_bytes_append st32_def ac_simps)
qed simp

text \<open>The auxiliary vector grows downwards; read upwards, its entries come in reverse.\<close>

definition aux_words :: "(u32 \<times> u32) list \<Rightarrow> u32 list" where
  "aux_words es = concat (map (\<lambda>e. [fst e, snd e]) (rev es))"

lemma length_aux_words [simp]: "length (aux_words es) = 2 * length es"
  by (induction es) (simp_all add: aux_words_def)

lemma aux_words_Cons: "aux_words (e # es) = aux_words es @ [fst e, snd e]"
  by (simp add: aux_words_def)

lemma new_aux_ents_zone:
  assumes "stack_zone (l_vm s) b Z" "o1 + 8 * length es \<le> Z"
  shows "\<exists>m. new_aux_ents es (b + of_nat (o1 + 8 * length es)) s = Inr (b + of_nat o1, s\<lparr>l_mem := m\<rparr>) \<and>
    bytes_at m (b + of_nat o1) (words (aux_words es)) \<and> (\<forall>a. a \<notin> region (b + of_nat o1) (8 * length es) \<longrightarrow> m a = l_mem s a)"
  using assms
proof (induction es arbitrary: s)
  case (Cons e es)
  let ?o = "o1 + 8 * length es" and ?n = "8 * length es"
  have big: "Z \<le> 2 ^ 32" using Cons.prems(1) by (simp add: stack_zone_def)
  have d: "b + of_nat (o1 + 8 * length (e # es)) - 4 = b + of_nat (?o + 4)" "b + of_nat (o1 + 8 * length (e # es)) - 8 = b + of_nat ?o"
    by simp_all
  let ?m1 = "st32 (l_mem s) (b + of_nat (?o + 4)) (snd e)"
  let ?m2 = "st32 ?m1 (b + of_nat ?o) (fst e)"
  have p1: "put_user_ual (snd e) (b + of_nat (?o + 4)) s = Inr (s\<lparr>l_mem := ?m1\<rparr>)"
    using Cons.prems by (intro put_user_zone) auto
  have p2: "put_user_ual (fst e) (b + of_nat ?o) (s\<lparr>l_mem := ?m1\<rparr>) = Inr (s\<lparr>l_mem := ?m2\<rparr>)"
    using put_user_zone [of "s\<lparr>l_mem := ?m1\<rparr>" b Z ?o "fst e"] Cons.prems by auto
  obtain m where m: "new_aux_ents es (b + of_nat ?o) (s\<lparr>l_mem := ?m2\<rparr>) = Inr (b + of_nat o1, s\<lparr>l_mem := m\<rparr>)"
    "bytes_at m (b + of_nat o1) (words (aux_words es))" "\<And>a. a \<notin> region (b + of_nat o1) ?n \<Longrightarrow> m a = ?m2 a"
    using Cons.IH [of "s\<lparr>l_mem := ?m2\<rparr>"] Cons.prems by (auto simp del: of_nat_add)
  have top: "region (b + of_nat ?o) 8 \<inter> region (b + of_nat o1) ?n = {}"
    using region_apart [of o1 ?n ?o 8 b] Cons.prems big by (simp add: Int_commute)
  have "ld32 ?m2 (b + of_nat ?o) = fst e" by (rule ld32_st32)
  moreover have "ld32 ?m2 (b + of_nat (?o + 4)) = snd e"
  proof -
    have "region (b + of_nat (?o + 4)) 4 \<inter> region (b + of_nat ?o) 4 = {}"
      using region_apart [of ?o 4 "?o + 4" 4 b] Cons.prems big by (simp add: Int_commute)
    then show ?thesis by (subst ld32_st32_other) (simp_all only: ld32_st32)
  qed
  ultimately have "bytes_at ?m2 (b + of_nat ?o) (bytes32 (fst e) @ bytes32 (snd e))"
    by (simp add: bytes_at_bytes32 ac_simps)
  then have "bytes_at m (b + of_nat ?o) (bytes32 (fst e) @ bytes32 (snd e))"
    by (rule bytes_at_frame) (use m(3) top in auto)
  then have "bytes_at m (b + of_nat o1) (words (aux_words (e # es)))"
    using m(2) by (simp add: aux_words_Cons ac_simps)
  moreover have "m a = l_mem s a" if "a \<notin> region (b + of_nat o1) (8 * length (e # es))" for a
  proof -
    have 2: "region (b + of_nat (o1 + j)) l \<subseteq> region (b + of_nat o1) (8 * length (e # es))" if "j + l \<le> 8 * length (e # es)" for j l
      using region_shift [of "b + of_nat o1" j l] region_mono [OF that, of "b + of_nat o1"] by (simp add: ac_simps)
    have "a \<notin> region (b + of_nat o1) ?n" "a \<notin> region (b + of_nat ?o) 4" "a \<notin> region (b + of_nat (?o + 4)) 4"
      using 2 [of 0 ?n] 2 [of ?n 4] 2 [of "?n + 4" 4] that by (auto simp: add.assoc simp del: of_nat_add)
    then show ?thesis using m(3) [of a] by (simp only: st32_frame simp_thms)
  qed
  ultimately show ?case using p1 p2 m(1) unfolding new_aux_ents.simps d by auto
next
  case Nil
  have "s\<lparr>l_mem := l_mem s\<rparr> = s" by simp
  then show ?case by (intro exI [of _ "l_mem s"]) (simp add: aux_words_def)
qed

definition arg_table :: "u32 \<Rightarrow> u8 list list \<Rightarrow> u8 list list \<Rightarrow> u32 list" where
  "arg_table p av ev = of_nat (length av) # string_ptrs p av @ 0 # string_ptrs (p + of_nat (length (flat_args av))) ev @ [0]"

lemma length_arg_table [simp]: "length (arg_table p av ev) = length av + length ev + 3"
  by (simp add: arg_table_def)

lemma stack_zone_mem [simp]: "stack_zone (l_vm (s\<lparr>l_mem := m\<rparr>)) b Z = stack_zone (l_vm s) b Z"
  by simp

lemma st32_write: "st32 m a x = write_bytes m a (words [x])"
  by (simp add: st32_def)

lemma write_words: "write_bytes (write_bytes m a (words xs)) (a + of_nat (4 * length xs)) (words ys) = write_bytes m a (words (xs @ ys))"
  by (simp add: write_bytes_append)

lemma build_argptr_zone:
  assumes z: "stack_zone (l_vm s) b Z" and x: "bytes_at (l_mem s) (b + of_nat k) (flat_args (av @ ev))" "\<forall>x\<in>set (av @ ev). 0 \<notin> set x"
    and fit: "o1 + 4 * (length av + length ev + 3) \<le> k" "k + length (flat_args (av @ ev)) \<le> Z" "k + length (flat_args (av @ ev)) < 2 ^ 31"
  shows "loader_build_argptr (int (length ev)) (int (length av)) (b + of_nat (o1 + 4 * (length av + length ev + 3))) (b + of_nat k) False s =
    Inr (b + of_nat o1, s\<lparr>l_mem := write_bytes (l_mem s) (b + of_nat o1) (words (arg_table (b + of_nat k) av ev)),
      arg_start := b + of_nat k, arg_end := b + of_nat (k + length (flat_args av))\<rparr>)"
proof -
  let ?la = "length av" and ?le = "length ev" and ?f = "length (flat_args av)"
  let ?sp = "b + of_nat o1" and ?argv = "b + of_nat (o1 + 4)" and ?envp = "b + of_nat (o1 + 4 * (?la + 2))"
  let ?w1 = "[of_nat ?la] :: u32 list" and ?w2 = "of_nat ?la # string_ptrs (b + of_nat k) av"
  let ?mem = "\<lambda>ws. write_bytes (l_mem s) ?sp (words ws)"
  have big: "Z \<le> 2 ^ 32" using z by (simp add: stack_zone_def)
  have e: "b + of_nat (o1 + 4 * (?la + ?le + 3)) - word_of_int ((int ?le + 1) * 4) = ?envp"
    "?envp - word_of_int ((int ?la + 1) * 4) = ?argv" "?argv - 4 = ?sp"
    by (simp_all add: algebra_simps)
  have keep: "bytes_at (?mem ws) (b + of_nat k) (flat_args (av @ ev))" if "length ws \<le> ?la + ?le + 3" for ws
  proof -
    have "region ?sp (length (words ws)) \<inter> region (b + of_nat k) (length (flat_args (av @ ev))) = {}"
      using fit big that by (intro region_apart) auto
    then have "region (b + of_nat k) (length (flat_args (av @ ev))) \<inter> region ?sp (length (words ws)) = {}" by blast
    from bytes_at_write_other [OF this] x(1) show ?thesis by (simp only:)
  qed
  have p1: "put_user_ual (word_of_int (int ?la)) ?sp s = Inr (s\<lparr>l_mem := ?mem ?w1\<rparr>)"
    using put_user_zone [OF z, of o1] fit by (simp add: st32_write)
  let ?s1 = "s\<lparr>l_mem := ?mem ?w1, arg_start := b + of_nat k\<rparr>"
  have "bytes_at (l_mem ?s1) (b + of_nat k) (flat_args av)" using keep [of ?w1] by simp
  then have p2: "put_pointers ?la (b + of_nat k) ?argv ?s1 = Inr (b + of_nat (k + ?f), b + of_nat (o1 + 4 + 4 * ?la), ?s1\<lparr>l_mem := ?mem ?w2\<rparr>)"
    using put_pointers_zone [of ?s1 b Z k av "o1 + 4"] z x fit write_words [of "l_mem s" ?sp ?w1 "string_ptrs (b + of_nat k) av"]
    by (simp add: add.assoc)
  let ?w3 = "?w2 @ [0]"
  let ?s2 = "?s1\<lparr>l_mem := ?mem ?w2, arg_end := b + of_nat (k + ?f)\<rparr>"
  have p3: "put_user_ual 0 (b + of_nat (o1 + 4 + 4 * ?la)) ?s2 = Inr (?s2\<lparr>l_mem := ?mem ?w3\<rparr>)"
    using put_user_zone [of ?s2 b Z "o1 + 4 + 4 * ?la" 0] z fit write_words [of "l_mem s" ?sp ?w2 "[0]"]
    by (simp add: st32_write ac_simps)
  let ?s3 = "?s2\<lparr>l_mem := ?mem ?w3\<rparr>"
  let ?w4 = "?w3 @ string_ptrs (b + of_nat (k + ?f)) ev"
  have "bytes_at (l_mem ?s3) (b + of_nat (k + ?f)) (flat_args ev)" using keep [of ?w3] by (simp add: ac_simps)
  then have p4: "put_pointers ?le (b + of_nat (k + ?f)) ?envp ?s3 = Inr (b + of_nat (k + ?f + length (flat_args ev)), b + of_nat (o1 + 4 * (?la + 2) + 4 * ?le), ?s3\<lparr>l_mem := ?mem ?w4\<rparr>)"
    using put_pointers_zone [of ?s3 b Z "k + ?f" ev "o1 + 4 * (?la + 2)"] z x fit
      write_words [of "l_mem s" ?sp ?w3 "string_ptrs (b + of_nat (k + ?f)) ev"]
    by (simp add: ac_simps)
  let ?s4 = "?s3\<lparr>l_mem := ?mem ?w4\<rparr>"
  have p5: "put_user_ual 0 (b + of_nat (o1 + 4 * (?la + 2) + 4 * ?le)) ?s4 = Inr (?s4\<lparr>l_mem := ?mem (?w4 @ [0])\<rparr>)"
    using put_user_zone [of ?s4 b Z "o1 + 4 * (?la + 2) + 4 * ?le" 0] z fit write_words [of "l_mem s" ?sp ?w4 "[0]"]
    by (simp add: st32_write ac_simps)
  have t: "arg_table (b + of_nat k) av ev = ?w4 @ [0]" by (simp add: arg_table_def add.assoc)
  show ?thesis
    unfolding loader_build_argptr_def Let_def e if_False and_then_Inr p1 nat_int p2 prod.case p3 p4 p5 t by simp
qed

lemma align16: "a AND NOT 15 = a - of_nat (unat a mod 16)" for a :: u32
proof -
  have "(NOT 15 :: u32) = NOT (mask 4)" by (simp add: mask_eq_exp_minus_1)
  then have "a AND NOT 15 = a AND NOT (mask 4)" by (simp only:)
  also have "\<dots> = push_bit 4 (drop_bit 4 a)" by (rule bit_word_eqI) (auto simp: bit_simps)
  also have "\<dots> = a - take_bit 4 a" using bits_ident [of 4 a] by (simp add: eq_diff_eq)
  also have "take_bit 4 a = of_nat (unat a mod 16)"
    by (rule word_unat_eq_iff [THEN iffD2]) (simp add: take_bit_eq_mod unat_mod unat_of_nat_u32)
  finally show ?thesis .
qed

definition pad16 :: "int \<Rightarrow> nat" where
  "pad16 sz = (if sz AND 15 \<noteq> 0 then nat (16 - (sz AND 15)) else 0)"

lemma and_15: "(sz :: int) AND 15 = sz mod 16"
proof -
  have "(15 :: int) = mask 4" by (simp add: mask_eq_exp_minus_1)
  then have "sz AND 15 = take_bit 4 sz" by (simp only: take_bit_eq_mask)
  then show ?thesis by (simp add: take_bit_eq_mod)
qed

lemma pad16_fills: "pad16 sz < 16" "(sz + int (pad16 sz)) mod 16 = 0"
proof -
  show "pad16 sz < 16" using pos_mod_bound [of 16 sz] pos_mod_sign [of 16 sz] by (auto simp: pad16_def and_15)
  show "(sz + int (pad16 sz)) mod 16 = 0"
  proof (cases "sz mod 16 = 0")
    case False
    have "int (pad16 sz) = 16 - sz mod 16" using False pos_mod_bound [of 16 sz] by (simp add: pad16_def and_15)
    then show ?thesis by presburger
  qed (simp add: pad16_def and_15)
qed


lemma pad16_word: "(if sz AND 15 \<noteq> 0 then x - word_of_int (16 - (sz AND 15)) else x) = x - of_nat (pad16 sz)" for x :: u32
proof (cases "sz AND 15 = 0")
  case False
  define y where "y = 16 - (sz AND 15)"
  have y: "0 \<le> y" using pos_mod_bound [of 16 sz] by (simp add: y_def and_15)
  have p: "pad16 sz = nat y" using False by (simp add: pad16_def y_def)
  have "(of_nat (nat y) :: u32) = word_of_int y" using y by (metis int_nat_eq of_int_of_nat_eq)
  then show ?thesis unfolding p y_def [symmetric] using False by simp
qed (simp add: pad16_def)

text \<open>The offset the stack pointer ends up at.\<close>

definition final_offset :: "u32 \<Rightarrow> nat \<Rightarrow> nat \<Rightarrow> nat" where
  "final_offset b P n = P - 8 - (unat b + P - 8) mod 16 - pad16 (4 * (int n + 31)) - 120 - 4 * (n + 3)"

lemma offset_sum: "r < 16 \<Longrightarrow> d < 16 \<Longrightarrow> 4 * n + 170 \<le> P \<Longrightarrow> P - 8 - r = (P - 8 - r - d - 120 - 4 * (n + 3)) + 4 * (n + 3) + 120 + d" for P :: nat
proof -
  assume a: "r < 16" "d < 16" "4 * n + 170 \<le> P"
  then have "r + d + 4 * n + 140 \<le> P" by linarith
  then obtain Q where "P = Q + (r + d + 4 * n + 140)" by (metis le_add_diff_inverse2)
  then show ?thesis by simp
qed

lemma offset_back: "P - 8 - r = A \<Longrightarrow> 0 < A \<Longrightarrow> P - 8 = A + r" for P :: nat
  by linarith

lemma mod_16_8: "X mod 16 = 0 \<Longrightarrow> T mod 16 = 0 \<Longrightarrow> X = y + T + 8 \<Longrightarrow> y mod 16 = 8" for X :: nat
proof -
  assume a: "X mod 16 = 0" "T mod 16 = 0" "X = y + T + 8"
  then have "(y + 8) mod 16 = 0" by (metis add.assoc add.commute add_0_right mod_add_left_eq)
  then show ?thesis by presburger
qed

lemma final_offset_at:
  assumes "4 * n + 170 \<le> P"
  shows "P - 8 - (unat b + P - 8) mod 16 = final_offset b P n + 4 * (n + 3) + 120 + pad16 (4 * (int n + 31))"
    "(unat b + final_offset b P n) mod 16 = 8"
proof -
  let ?r = "(unat b + P - 8) mod 16" and ?d = "pad16 (4 * (int n + 31))" and ?f = "final_offset b P n"
  have r: "?r < 16" by simp
  show e: "P - 8 - ?r = ?f + 4 * (n + 3) + 120 + ?d" unfolding final_offset_def by (rule offset_sum [OF r pad16_fills(1) assms])
  have p: "(4 * (n + 31) + ?d) mod 16 = 0"
  proof -
    have "int ((4 * (n + 31) + ?d) mod 16) = 0" using pad16_fills(2) [of "4 * (int n + 31)"] by (simp add: zmod_int)
    then show ?thesis by simp
  qed
  define T where "T = 4 * (n + 31) + ?d"
  have T: "T mod 16 = 0" using p by (simp add: T_def)
  define X where "X = unat b + P - 8 - ?r"
  have X: "X mod 16 = 0" unfolding X_def by (metis minus_mod_eq_mult_div mod_mult_self1_is_0)
  have "P - 8 = ?f + 4 * (n + 3) + 120 + ?d + ?r" by (rule offset_back [OF e]) simp
  then have "unat b + P - 8 = (unat b + ?f + T + 8) + ?r" using assms unfolding T_def by (simp add: algebra_simps)
  then have "X = (unat b + ?f) + T + 8" unfolding X_def by (metis add_diff_cancel_right')
  then show "(unat b + ?f) mod 16 = 8" by (rule mod_16_8 [OF X T])
qed


lemma zone_keep:
  assumes z: "stack_zone v b Z" and m: "bytes_at m (b + of_nat o2) bs" and o: "o1 + l1 \<le> o2" "o2 + length bs \<le> Z"
    and f: "\<And>a. a \<notin> region (b + of_nat o1) l1 \<Longrightarrow> m' a = m a"
  shows "bytes_at m' (b + of_nat o2) bs"
proof (rule bytes_at_frame [OF m])
  fix a
  assume "a \<in> region (b + of_nat o2) (length bs)"
  moreover have "region (b + of_nat o1) l1 \<inter> region (b + of_nat o2) (length bs) = {}"
    using z o by (intro region_apart) (auto simp: stack_zone_def)
  ultimately show "m' a = m a" by (intro f) blast
qed

lemma zone_keep_write:
  assumes "stack_zone v b Z" "bytes_at m (b + of_nat o2) bs" "o1 + length cs \<le> o2" "o2 + length bs \<le> Z"
  shows "bytes_at (write_bytes m (b + of_nat o1) cs) (b + of_nat o2) bs"
  by (rule zone_keep [OF assms]) (rule write_bytes_frame)

lemma platform_length: "length (get_elf_platform h) = 4"
  by (simp add: get_elf_platform_def Let_def)

text \<open>
  The contents of the stack: at the stack pointer the number of arguments, the pointers to the arguments
  and to the environment, each list with a null after it, and the auxiliary vector; from \<open>p\<close> on, where the pointers
  lead, the strings.
\<close>

definition stack_image :: "u32 \<Rightarrow> u32 \<Rightarrow> u8 list list \<Rightarrow> u8 list list \<Rightarrow> (u32 \<times> u32) list \<Rightarrow> u8 list \<Rightarrow> loader_state \<Rightarrow> bool" where
  "stack_image sp p argv envp aux platform s \<longleftrightarrow>
     bytes_at (l_mem s) sp (words (arg_table p argv envp @ aux_words aux)) \<and>
     bytes_at (l_mem s) p (flat_args (argv @ envp)) \<and> bytes_at (l_mem s) (p - 8) (platform @ [0]) \<and>
     arg_start s = p \<and> arg_end s = p + of_nat (length (flat_args argv))"

text \<open>The writes of \<^verbatim>\<open>create_elf_tables\<close>, from the platform's name down to the argument count.\<close>

lemma aligned_platform:
  assumes "stack_zone v b Z" "4 * n + 170 \<le> P" "P \<le> Z"
  shows "(b + of_nat (P - 8)) AND NOT 15 = b + of_nat (final_offset b P n + 4 * (n + 3) + 120 + pad16 (4 * (int n + 31)))"
proof -
  let ?u = "b + of_nat (P - 8)" and ?r = "(unat b + P - 8) mod 16" and ?o = "final_offset b P n + 4 * (n + 3) + 120 + pad16 (4 * (int n + 31))"
  have uu: "unat ?u = unat b + P - 8" using zone_offset [OF assms(1), of "P - 8"] assms(2,3) by simp
  have "P - 8 = ?o + ?r" by (rule offset_back [OF final_offset_at(1) [OF assms(2)]]) simp
  then have e: "of_nat (P - 8) = (of_nat ?o + of_nat ?r :: u32)" by (simp only: of_nat_add)
  have "?u AND NOT 15 = ?u - of_nat ?r" using align16 [of ?u] uu by (simp only:)
  also have "\<dots> = (b + of_nat ?o + of_nat ?r) - of_nat ?r" by (simp only: e add.assoc)
  finally show ?thesis by (simp only: add_diff_cancel_right')
qed

lemma create_elf_tables_aux:
  fixes exec :: elfhdr and h :: host_ids and load_addr load_bias interp_load_addr :: u32
  assumes z: "stack_zone (l_vm s) b Z" and x: "bytes_at (l_mem s) (b + of_nat P) (flat_args (av @ ev))"
    and fit: "4 * (length av + length ev) + 170 \<le> P" "P + length (flat_args (av @ ev)) \<le> Z"
  defines "o3 \<equiv> final_offset b P (length av + length ev) + 4 * (length av + length ev + 3)"
    and "aux \<equiv> aux_vector exec h load_addr load_bias interp_load_addr (b + of_nat (P - 8))"
  shows "o3 + 120 \<le> P - 8" "\<exists>m. create_elf_tables (b + of_nat P) (int (length av)) (int (length ev)) exec h load_addr load_bias interp_load_addr True s =
      loader_build_argptr (int (length ev)) (int (length av)) (b + of_nat o3) (b + of_nat P) False (s\<lparr>l_mem := m, saved_auxv := b + of_nat o3\<rparr>) \<and>
    bytes_at m (b + of_nat o3) (words (aux_words aux)) \<and> bytes_at m (b + of_nat P) (flat_args (av @ ev)) \<and>
    bytes_at m (b + of_nat (P - 8)) (get_elf_platform h @ [0])"
proof -
  let ?n = "length av + length ev" and ?k = "get_elf_platform h @ [0]" and ?u = "b + of_nat (P - 8)"
  let ?d = "pad16 (4 * (int ?n + 31))"
  show f8: "o3 + 120 \<le> P - 8" using offset_back [OF final_offset_at(1) [OF fit(1), of b, folded o3_def]] by simp
  have aux15: "length aux = 15" by (simp add: aux_def aux_vector_def)
  have e1: "b + of_nat P - ((of_nat (length ?k) + 3) AND NOT 3) = ?u"
  proof -
    have "((of_nat (length ?k) + 3) AND NOT 3 :: u32) = 8" by (simp add: platform_length)
    then show ?thesis using fit(1) by (simp add: of_nat_diff)
  qed
  let ?m1 = "write_bytes (l_mem s) ?u ?k"
  let ?s1 = "s\<lparr>l_mem := ?m1\<rparr>"
  have c: "memcpy_to_target ?u ?k s = Inr (0, ?s1)"
    using fit by (intro memcpy_zone [OF z]) (auto simp: platform_length)
  have "P \<le> Z" using fit(2) by simp
  note e2 = aligned_platform [OF z fit(1) this, folded o3_def]
  have sz: "((12 + 1) * 2 + 2 + int (length ev) + int (length av) + 2 + (if \<not> True then 3 else 1)) * 4 = 4 * (int ?n + 31)" by simp
  have e3: "b + of_nat (o3 + 120 + ?d) - of_nat ?d = b + of_nat (o3 + 8 * length aux)" using aux15 by simp
  have z1: "stack_zone (l_vm ?s1) b Z" using z by simp
  have oZ: "o3 + 8 * length aux \<le> Z" using f8 fit(2) unfolding aux15 by linarith
  obtain m where m: "new_aux_ents aux (b + of_nat (o3 + 8 * length aux)) ?s1 = Inr (b + of_nat o3, ?s1\<lparr>l_mem := m\<rparr>)"
    "bytes_at m (b + of_nat o3) (words (aux_words aux))" "\<And>a. a \<notin> region (b + of_nat o3) (8 * length aux) \<Longrightarrow> m a = l_mem ?s1 a"
    using new_aux_ents_zone [OF z1 oZ] by blast
  have P8: "P - 8 + length ?k \<le> P" "P - 8 + length ?k \<le> Z" "length ?k < 2 ^ 32" using fit by (auto simp: platform_length)
  have oP: "o3 + 8 * length aux \<le> P - 8" "o3 + 8 * length aux \<le> P" using f8 unfolding aux15 by linarith+
  have "bytes_at m ?u ?k" by (rule zone_keep [OF z bytes_at_write_bytes [OF P8(3)] oP(1) P8(2)]) (use m(3) in simp)
  moreover have "bytes_at m (b + of_nat P) (flat_args (av @ ev))"
    by (rule zone_keep [OF z zone_keep_write [OF z x P8(1) fit(2)] oP(2) fit(2)]) (use m(3) in simp)
  moreover have "create_elf_tables (b + of_nat P) (int (length av)) (int (length ev)) exec h load_addr load_bias interp_load_addr True s =
      loader_build_argptr (int (length ev)) (int (length av)) (b + of_nat o3) (b + of_nat P) False (s\<lparr>l_mem := m, saved_auxv := b + of_nat o3\<rparr>)"
    unfolding create_elf_tables_def Let_def e1 c and_then_Inr prod.case e2 sz pad16_word e3 aux_def [symmetric] m(1) by simp
  ultimately show "\<exists>m. create_elf_tables (b + of_nat P) (int (length av)) (int (length ev)) exec h load_addr load_bias interp_load_addr True s =
      loader_build_argptr (int (length ev)) (int (length av)) (b + of_nat o3) (b + of_nat P) False (s\<lparr>l_mem := m, saved_auxv := b + of_nat o3\<rparr>) \<and>
    bytes_at m (b + of_nat o3) (words (aux_words aux)) \<and> bytes_at m (b + of_nat P) (flat_args (av @ ev)) \<and>
    bytes_at m (b + of_nat (P - 8)) (get_elf_platform h @ [0])" using m(2) by blast
qed

lemma create_elf_tables_zone:
  fixes exec :: elfhdr and h :: host_ids and load_addr load_bias interp_load_addr :: u32
  assumes z: "stack_zone (l_vm s) b Z" and x: "bytes_at (l_mem s) (b + of_nat P) (flat_args (av @ ev))" "\<forall>x\<in>set (av @ ev). 0 \<notin> set x"
    and fit: "4 * (length av + length ev) + 170 \<le> P" "P + length (flat_args (av @ ev)) \<le> Z" "P + length (flat_args (av @ ev)) < 2 ^ 31"
  defines "f \<equiv> final_offset b P (length av + length ev)"
    and "aux \<equiv> aux_vector exec h load_addr load_bias interp_load_addr (b + of_nat P - 8)"
  shows "\<exists>s'. create_elf_tables (b + of_nat P) (int (length av)) (int (length ev)) exec h load_addr load_bias interp_load_addr True s = Inr (b + of_nat f, s') \<and>
    stack_image (b + of_nat f) (b + of_nat P) av ev aux (get_elf_platform h) s'"
proof -
  let ?n = "length av + length ev" and ?k = "get_elf_platform h @ [0]" and ?u = "b + of_nat (P - 8)"
  let ?o3 = "f + 4 * (?n + 3)" and ?t = "words (arg_table (b + of_nat P) av ev)"
  have u8: "b + of_nat P - 8 = ?u" using fit(1) by (simp add: of_nat_diff)
  note part = create_elf_tables_aux [OF z x(1) fit(1,2), folded f_def]
  obtain m where m: "create_elf_tables (b + of_nat P) (int (length av)) (int (length ev)) exec h load_addr load_bias interp_load_addr True s =
      loader_build_argptr (int (length ev)) (int (length av)) (b + of_nat ?o3) (b + of_nat P) False (s\<lparr>l_mem := m, saved_auxv := b + of_nat ?o3\<rparr>)"
      "bytes_at m (b + of_nat ?o3) (words (aux_words aux))" "bytes_at m (b + of_nat P) (flat_args (av @ ev))" "bytes_at m ?u ?k"
    using part(2) unfolding aux_def u8 by blast
  let ?s2 = "s\<lparr>l_mem := m, saved_auxv := b + of_nat ?o3\<rparr>"
  let ?s3 = "?s2\<lparr>l_mem := write_bytes m (b + of_nat f) ?t, arg_start := b + of_nat P, arg_end := b + of_nat (P + length (flat_args av))\<rparr>"
  have bld: "loader_build_argptr (int (length ev)) (int (length av)) (b + of_nat ?o3) (b + of_nat P) False ?s2 = Inr (b + of_nat f, ?s3)"
    using build_argptr_zone [of ?s2 b Z P av ev f] z m(3) x(2) part(1) fit by simp
  have tl: "length ?t = 4 * (?n + 3)" by simp
  have tf: "f + length ?t = ?o3" "f + length ?t \<le> P" "f + length ?t \<le> P - 8" "length ?t < 2 ^ 32"
    using part(1) fit unfolding tl by auto
  have al: "?o3 + length (words (aux_words aux)) \<le> Z" using part(1) fit(2) by (simp add: aux_def aux_vector_def)
  have P8: "P - 8 + length ?k \<le> Z" using fit by (auto simp: platform_length)
  note keep = zone_keep_write [OF z]
  have t1: "bytes_at (l_mem ?s3) (b + of_nat f) ?t" using bytes_at_write_bytes [OF tf(4)] by simp
  have t2: "bytes_at (l_mem ?s3) (b + of_nat f + of_nat (length ?t)) (words (aux_words aux))"
    using keep [OF m(2) eq_refl [OF tf(1)] al] unfolding add.assoc of_nat_add [symmetric] tf(1) by simp
  have "bytes_at (l_mem ?s3) (b + of_nat f) (words (arg_table (b + of_nat P) av ev @ aux_words aux))"
    using t1 t2 by (simp only: words_simps bytes_at_append simp_thms)
  moreover have "bytes_at (l_mem ?s3) ?u ?k" using keep [OF m(4) tf(3) P8] by simp
  moreover have "bytes_at (l_mem ?s3) (b + of_nat P) (flat_args (av @ ev))" using keep [OF m(3) tf(2) fit(2)] by simp
  moreover have "arg_start ?s3 = b + of_nat P" "arg_end ?s3 = b + of_nat P + of_nat (length (flat_args av))" by (simp_all add: add.assoc)
  ultimately show ?thesis unfolding stack_image_def u8 using m(1) bld by auto
qed

section \<open>The pages on the stack\<close>

lemma memcpy_page_zone:
  assumes "stack_zone (l_vm s) b Z" "4096 * i + 4096 \<le> Z"
  shows "memcpy_to_target (b + of_nat (4096 * i)) (map f [0..<4096]) s = Inr (0, s\<lparr>l_mem := write_bytes (l_mem s) (b + of_nat (4096 * i)) (map f [0..<4096])\<rparr>)"
  by (rule memcpy_zone [OF assms(1)]) (use assms(2) in auto)

text \<open>What the copying leaves: an allocated page is copied, the place of another keeps what it had.\<close>

definition page_or :: "arg_pages \<Rightarrow> (nat \<Rightarrow> u8) \<Rightarrow> nat \<Rightarrow> u8" where
  "page_or page g a = (case page (a div 4096) of None \<Rightarrow> g a | Some f \<Rightarrow> f (a mod 4096))"

definition zone_bytes :: "memory \<Rightarrow> u32 \<Rightarrow> nat \<Rightarrow> u8" where
  "zone_bytes m b a = m (b + of_nat a)"

lemma copy_page_step:
  assumes z: "stack_zone (l_vm s) b Z" and fit: "4096 * i + 4096 \<le> Z"
  shows "\<exists>m r. copy_pages (Suc n) i page (b + of_nat (4096 * i)) s = copy_pages n (i + 1) page (b + of_nat (4096 * (i + 1))) (s\<lparr>l_mem := m, rss := r\<rparr>) \<and>
    (\<forall>a<Z. zone_bytes m b a = (if a div 4096 = i then page_or page (zone_bytes (l_mem s) b) a else zone_bytes (l_mem s) b a))"
proof (cases "page i")
  case None
  then show ?thesis by (intro exI [of _ "l_mem s"] exI [of _ "rss s"]) (auto simp: page_or_def zone_bytes_def ac_simps)
next
  case (Some f)
  let ?p = "b + of_nat (4096 * i)" and ?bs = "map f [0..<4096]"
  let ?m = "write_bytes (l_mem s) ?p ?bs"
  have upd: "s\<lparr>rss := rss s + 1, l_mem := ?m\<rparr> = s\<lparr>l_mem := ?m, rss := rss s + 1\<rparr>" by simp
  have "memcpy_to_target ?p ?bs (s\<lparr>rss := rss s + 1\<rparr>) = Inr (0, s\<lparr>rss := rss s + 1, l_mem := ?m\<rparr>)"
    using memcpy_page_zone [of "s\<lparr>rss := rss s + 1\<rparr>" b Z i f] z fit by simp
  moreover have "?p + TARGET_PAGE_SIZE = b + of_nat (4096 * (i + 1))" by simp
  ultimately have "copy_pages (Suc n) i page ?p s = copy_pages n (i + 1) page (b + of_nat (4096 * (i + 1))) (s\<lparr>l_mem := ?m, rss := rss s + 1\<rparr>)"
    unfolding copy_pages.simps Some option.case by (simp only: upd and_then_Inr prod.case)
  moreover have "zone_bytes ?m b a = (if a div 4096 = i then page_or page (zone_bytes (l_mem s) b) a else zone_bytes (l_mem s) b a)" if "a < Z" for a
  proof (cases "a div 4096 = i")
    case True
    then have a: "a = 4096 * i + a mod 4096" by (metis mult_div_mod_eq)
    have "?m (?p + of_nat (a mod 4096)) = ?bs ! (a mod 4096)" by (rule write_bytes_at) simp_all
    moreover have "b + of_nat a = ?p + of_nat (a mod 4096)" using a by (metis of_nat_add add.assoc)
    ultimately have "zone_bytes ?m b a = ?bs ! (a mod 4096)" by (simp only: zone_bytes_def)
    then show ?thesis using True Some by (simp add: page_or_def)
  next
    case False
    have big: "Z \<le> 2 ^ 32" using z by (simp add: stack_zone_def)
    have "a < 4096 * i \<or> 4096 * i + 4096 \<le> a" using False by (simp add: div_page) linarith
    then have "region (b + of_nat a) 1 \<inter> region ?p 4096 = {}"
      using region_apart [of a 1 "4096 * i" 4096 b] region_apart [of "4096 * i" 4096 a 1 b] that fit big by (auto simp: Int_commute)
    moreover have "b + of_nat a \<in> region (b + of_nat a) 1" by (rule region_self) simp
    ultimately have "b + of_nat a \<notin> region ?p 4096" by blast
    then show ?thesis using False by (simp add: zone_bytes_def write_bytes_frame)
  qed
  ultimately show ?thesis by blast
qed

lemma copy_pages_zone:
  assumes "stack_zone (l_vm s) b Z" "4096 * (i + n) \<le> Z"
  shows "\<exists>m r. copy_pages n i page (b + of_nat (4096 * i)) s = Inr (s\<lparr>l_mem := m, rss := r\<rparr>) \<and>
    (\<forall>a<Z. zone_bytes m b a = (if i \<le> a div 4096 \<and> a div 4096 < i + n then page_or page (zone_bytes (l_mem s) b) a else zone_bytes (l_mem s) b a))"
  using assms
proof (induction n arbitrary: i s)
  case 0
  have "s = s\<lparr>l_mem := l_mem s, rss := rss s\<rparr>" by simp
  then show ?case by (intro exI [of _ "l_mem s"] exI [of _ "rss s"]) auto
next
  case (Suc n)
  obtain m r where 1: "copy_pages (Suc n) i page (b + of_nat (4096 * i)) s = copy_pages n (i + 1) page (b + of_nat (4096 * (i + 1))) (s\<lparr>l_mem := m, rss := r\<rparr>)"
      "\<And>a. a < Z \<Longrightarrow> zone_bytes m b a = (if a div 4096 = i then page_or page (zone_bytes (l_mem s) b) a else zone_bytes (l_mem s) b a)"
    using copy_page_step [OF Suc.prems(1), of i n page] Suc.prems(2) by auto
  obtain m' r' where 2: "copy_pages n (i + 1) page (b + of_nat (4096 * (i + 1))) (s\<lparr>l_mem := m, rss := r\<rparr>) = Inr (s\<lparr>l_mem := m', rss := r'\<rparr>)"
      "\<And>a. a < Z \<Longrightarrow> zone_bytes m' b a = (if i + 1 \<le> a div 4096 \<and> a div 4096 < i + 1 + n then page_or page (zone_bytes m b) a else zone_bytes m b a)"
    using Suc.IH [of "s\<lparr>l_mem := m, rss := r\<rparr>" "i + 1"] Suc.prems by auto
  have "zone_bytes m' b a = (if i \<le> a div 4096 \<and> a div 4096 < i + Suc n then page_or page (zone_bytes (l_mem s) b) a else zone_bytes (l_mem s) b a)" if "a < Z" for a
    using 1(2) [OF that] 2(2) [OF that] by (auto simp: page_or_def split: option.splits)
  then show ?case using 1(1) 2(1) by auto
qed

lemma no_wrap: "a < a + b \<Longrightarrow> unat (a + b) = unat a + unat b" for a b :: u32
  by (metis less_imp_le unat_plus_simple)

lemma host_page_aligned: "host_pages v \<Longrightarrow> aligned (qemu_host_page_size v) \<and> qemu_host_page_size v \<noteq> 0"
  using host_floor(2,3) [of v] by (auto simp: aligned_nat)

text \<open>The state of the guest's memory in which a program is loaded.\<close>

definition fresh_vm :: "vm_state \<Rightarrow> bool" where
  "fresh_vm v \<longleftrightarrow> page_ok v \<and> host_memory v \<and> kernel_ok v \<and> reserved_va v = 0 \<and> TARGET_PAGE_SIZE \<le> qemu_real_host_page_size v \<and>
     host_pages v \<and> guest_base v = 0"

lemma aligned_below: "aligned c \<Longrightarrow> unat a < unat c \<Longrightarrow> page_of a < page_of c"
proof -
  assume a: "aligned c" "unat a < unat c"
  then have "unat a div 4096 < unat c div 4096"
    unfolding aligned_nat by (metis div_less_iff_less_mult div_mult_mod_eq add_0_right zero_less_numeral)
  then show ?thesis by (simp add: word_less_nat_alt page_of_nat)
qed

lemma stack_mapped:
  assumes v: "fresh_vm v" and sz: "aligned sz" "0x21000 < sz" "unat sz + unat (qemu_host_page_size v) < 2 ^ 32"
    and m: "target_mmap 0 (sz + qemu_host_page_size v) 3 0x22 (- 1) 0 v = Inr (error, v1)" "error \<noteq> - 1"
  shows "qemu_host_page_size v1 = qemu_host_page_size v" "\<exists>r v2. target_mprotect (error + sz) (qemu_host_page_size v) 0 v1 = Inr (r, v2) \<and> stack_zone v2 (error + sz - 0x21000) 0x21000 \<and>
    region (error + sz - 0x21000) 0x21000 \<subseteq> region error (unat (sz + qemu_host_page_size v))"
proof -
  let ?hp = "qemu_host_page_size v"
  let ?len = "sz + ?hp" and ?start = "error + sz"
  have hp: "aligned ?hp" "?hp \<noteq> 0" using v host_page_aligned by (auto simp: fresh_vm_def)
  have ul: "unat ?len = unat sz + unat ?hp" using sz(3) by (simp add: unat_word_ariths)
  have len: "TARGET_PAGE_ALIGN ?len = ?len" "TARGET_PAGE_ALIGN ?hp = ?hp" using aligned_add(1) [OF sz(1) hp(1)] hp(1) by (simp_all only: align_aligned)
  have nz: "?len \<noteq> 0" using ul sz(2) by (auto simp: word_less_nat_alt simp flip: unat_eq_zero)
  have "mapped_good v {a. aligned a} ?len 3 (target_mmap 0 ?len 3 0x22 (- 1) 0 v)"
    using target_mmap_good [of v 3 ?len "0x22" 0 "- 1" 0] v nz unfolding len fresh_vm_def by simp
  then have g: "page_ok v1" "vm_consts v1 = vm_consts v" "aligned error" "error < error + ?len" "\<And>a. page_get_flags v1 a = flags_after v error ?len 11 a"
    using m unfolding mapped_good_def by simp_all
  show "qemu_host_page_size v1 = ?hp" using g(2) by (simp add: vm_consts_def)
  have ue: "unat (error + ?len) = unat error + unat ?len" by (rule no_wrap [OF g(4)])
  have bound: "unat error + unat ?len < 2 ^ 32" using u32_less [of "error + ?len"] ue by simp
  have us: "unat ?start = unat error + unat sz" using bound ul by (simp add: unat_word_ariths)
  have st: "aligned ?start" "?start < ?start + ?hp"
    using aligned_add(1) [OF g(3) sz(1)] bound ul us unat_word_ariths(1) [of ?start ?hp] hp(2)
    by (simp_all add: word_less_nat_alt unat_eq_zero [symmetric] del: unat_eq_zero)
  have hm: "host_memory v1" using v g(2) by (simp add: fresh_vm_def vm_consts_host [OF g(2)])
  obtain r v2 where p: "target_mprotect ?start ?hp 0 v1 = Inr (r, v2)"
      "unlocked v1 v2 (if r = 0 then flags_after v1 ?start ?hp ((0 AND 7) OR PAGE_VALID) else page_get_flags v1)"
    using target_mprotect_outcome [OF g(1) hm st(1), of ?hp 0] st(2) unfolding len by blast
  let ?b = "?start - 0x21000"
  have sz': "0x21000 < unat sz" using sz(2) by (simp add: word_less_nat_alt)
  have ub: "unat ?b = unat error + unat sz - 0x21000" using us sz' by (simp add: unat_sub word_le_nat_alt)
  have at: "\<exists>k<0x21000. unat a = unat ?b + k" if ra: "a \<in> region ?b 0x21000" for a
  proof -
    obtain k where k: "k < 0x21000" "a = ?b + of_nat k" by (rule region_offsetE [OF ra])
    have "unat a = unat ?b + k" unfolding k(2) using k(1) ub us sz' bound ul by (simp add: unat_word_ariths unat_of_nat_u32)
    with k(1) show ?thesis by blast
  qed
  have fl: "page_get_flags v2 a = 0x1b" if ra: "a \<in> region ?b 0x21000" for a
  proof -
    obtain k where k: "k < 0x21000" "unat a = unat ?b + k" using at [OF ra] by blast
    have lo: "unat error \<le> unat a" and hi: "unat a < unat ?start" using k ub us sz' by linarith+
    have "page_of a < page_of ?start" by (rule aligned_below [OF st(1) hi])
    moreover have "unat (error + ?len - 1) = unat error + unat ?len - 1"
      using ue ul sz' by (simp add: unat_minus_one unat_eq_zero [symmetric] del: unat_eq_zero)
    then have "page_of error \<le> page_of a" "page_of a \<le> page_of (error + ?len - 1)"
      using lo hi us ul sz' unfolding word_le_nat_alt page_of_nat by (auto intro!: div_le_mono)
    ultimately have "\<not> in_area ?start ?hp a" "in_area error ?len a" by (auto simp: in_area_def)
    then show ?thesis using p(2) g(5) [of a] by (auto simp: unlocked_def flags_after_def stored_flags_def split: if_splits)
  qed
  have gb: "guest_base v2 = 0" using p(2) g(2) v by (simp add: unlocked_def vm_consts_def fresh_vm_def)
  have a0: "a \<noteq> 0" if "a \<in> region ?b 0x21000" for a using at [OF that] ub sz' by auto
  have b0: "?b \<noteq> 0" using a0 [OF region_self] by simp
  have "unat ?b + 0x21000 \<le> 2 ^ 32" "page_ok v2" using ub sz' bound ul p(2) by (simp_all add: unlocked_def)
  then have "stack_zone v2 ?b 0x21000" using b0 a0 fl gb by (simp add: stack_zone_def page_allows_def)
  moreover have "region ?b 0x21000 \<subseteq> region error (unat ?len)"
  proof
    fix a
    assume "a \<in> region ?b 0x21000"
    then obtain k where k: "k < 0x21000" "unat a = unat ?b + k" using at by blast
    then have "unat (a - error) = unat a - unat error" using ub sz' by (intro unat_sub) (simp add: word_le_nat_alt)
    then show "a \<in> region error (unat ?len)" using k ub sz' ul by (simp add: region_def)
  qed
  ultimately show "\<exists>r v2. target_mprotect (error + sz) (qemu_host_page_size v) 0 v1 = Inr (r, v2) \<and> stack_zone v2 (error + sz - 0x21000) 0x21000 \<and>
    region (error + sz - 0x21000) 0x21000 \<subseteq> region error (unat (sz + qemu_host_page_size v))" using p(1) by blast
qed

lemma bytes_at_zone:
  assumes "\<And>k. k < length bs \<Longrightarrow> zone_bytes m b (p + k) = bs ! k"
  shows "bytes_at m (b + of_nat p) bs"
proof -
  have "read_bytes m (b + of_nat p) (length bs) = bs"
  proof (rule nth_equalityI)
    show "length (read_bytes m (b + of_nat p) (length bs)) = length bs" by simp
    fix k
    assume "k < length (read_bytes m (b + of_nat p) (length bs))"
    then show "read_bytes m (b + of_nat p) (length bs) ! k = bs ! k"
      using assms [of k] by (simp add: read_bytes_nth zone_bytes_def add.assoc)
  qed
  then show ?thesis by (simp only: bytes_at_iff_read)
qed

lemma copy_pages_all:
  assumes "stack_zone (l_vm s) b 0x21000" "\<And>a. a < 0x21000 \<Longrightarrow> zone_bytes (l_mem s) b a = 0"
  shows "\<exists>m r. copy_pages 33 0 page b s = Inr (s\<lparr>l_mem := m, rss := r\<rparr>) \<and> (\<forall>a<0x21000. zone_bytes m b a = arg_byte page a)"
proof -
  obtain m r where c: "copy_pages 33 0 page (b + of_nat (4096 * 0)) s = Inr (s\<lparr>l_mem := m, rss := r\<rparr>)"
      "\<And>a. a < 0x21000 \<Longrightarrow> zone_bytes m b a = (if 0 \<le> a div 4096 \<and> a div 4096 < 0 + 33 then page_or page (zone_bytes (l_mem s) b) a else zone_bytes (l_mem s) b a)"
    using copy_pages_zone [OF assms(1), of 0 33 page] by auto
  have "zone_bytes m b a = arg_byte page a" if "a < 0x21000" for a
  proof -
    have "a div 4096 < 33" using that by (simp add: div_less_iff_less_mult)
    then show ?thesis using c(2) [OF that] assms(2) [OF that] by (simp add: page_or_def arg_byte_def split: option.splits)
  qed
  then show ?thesis using c(1) by auto
qed

lemma setup_arg_pages_zone:
  assumes v: "fresh_vm (l_vm s)" and sz: "aligned gs" "0x21000 < gs" "unat gs + unat (qemu_host_page_size (l_vm s)) < 2 ^ 32"
    and m: "target_mmap 0 (gs + qemu_host_page_size (l_vm s)) 3 0x22 (- 1) 0 (l_vm s) = Inr (error, v1)" "error \<noteq> - 1"
  defines "b \<equiv> error + gs - 0x21000"
  shows "\<exists>s'. setup_arg_pages gs p page s = Inr (p + b, s') \<and> stack_zone (l_vm s') b 0x21000 \<and> (\<forall>a<0x21000. zone_bytes (l_mem s') b a = arg_byte page a)"
proof -
  let ?hp = "qemu_host_page_size (l_vm s)"
  note sm = stack_mapped [OF v sz m, folded b_def]
  obtain r v2 where p: "target_mprotect (error + gs) ?hp 0 v1 = Inr (r, v2)" "stack_zone v2 b 0x21000" "region b 0x21000 \<subseteq> region error (unat (gs + ?hp))"
    using sm(2) by blast
  let ?m = "\<lambda>a. if error \<noteq> - 1 \<and> a \<in> region error (unat (gs + ?hp)) then 0 else l_mem s a"
  let ?s = "s\<lparr>l_mem := ?m, l_vm := v2, stack_limit := error\<rparr>"
  have z: "stack_zone (l_vm ?s) b 0x21000" using p(2) by simp
  have "zone_bytes (l_mem ?s) b a = 0" if "a < 0x21000" for a
  proof -
    have "b + of_nat a \<in> region b 0x21000" using that by (simp add: region_def unat_of_nat_u32)
    then show ?thesis using p(3) m(2) by (auto simp: zone_bytes_def)
  qed
  then obtain m' r' where c: "copy_pages 33 0 page b ?s = Inr (?s\<lparr>l_mem := m', rss := r'\<rparr>)" "\<forall>a<0x21000. zone_bytes m' b a = arg_byte page a"
    using copy_pages_all [OF z, of page] by blast
  have "setup_arg_pages gs p page s = Inr (p + b, ?s\<lparr>l_mem := m', rss := r'\<rparr>)"
    using m p(1) c(1) less_not_sym [OF sz(2)] sm(1) by (simp add: setup_arg_pages_def mmap_anon_def b_def Let_def)
  then show ?thesis using p(2) c(2) by (intro exI [of _ "?s\<lparr>l_mem := m', rss := r'\<rparr>"]) simp
qed

lemma create_elf_tables_image:
  fixes av ev :: "u8 list list"
  assumes z: "stack_zone (l_vm s) b 0x21000" and x: "\<forall>a<0x21000. zone_bytes (l_mem s) b a = put_bytes g P (flat_args (av @ ev @ fs)) a" "\<forall>x\<in>set (av @ ev). 0 \<notin> set x"
    and fit: "4 * (length av + length ev) + 170 \<le> P" "P + length (flat_args (av @ ev @ fs)) \<le> 0x21000"
  shows "\<exists>sp s'. create_elf_tables (b + of_nat P) (int (length av)) (int (length ev)) exec h load_addr load_bias interp_load_addr True s = Inr (sp, s') \<and>
    unat sp mod 16 = 8 \<and> stack_image sp (b + of_nat P) av ev (aux_vector exec h load_addr load_bias interp_load_addr (b + of_nat P - 8)) (get_elf_platform h) s'"
proof -
  let ?xs = "flat_args (av @ ev)" and ?f = "final_offset b P (length av + length ev)"
  have le: "P + length ?xs \<le> 0x21000" using fit(2) by simp
  have "zone_bytes (l_mem s) b (P + k) = ?xs ! k" if "k < length ?xs" for k
  proof -
    have "flat_args (av @ ev @ fs) = ?xs @ flat_args fs" by simp
    then show ?thesis using x(1) [rule_format, of "P + k"] that le by (simp add: put_bytes_def nth_append del: flat_args_simps)
  qed
  then have x1: "bytes_at (l_mem s) (b + of_nat P) ?xs" by (rule bytes_at_zone)
  have le31: "P + length ?xs < 2 ^ 31" using le by simp
  have "?f < 0x21000" using final_offset_at(1) [OF fit(1), of b] le by linarith
  then have "unat (b + of_nat ?f) = unat b + ?f" by (rule zone_offset [OF z])
  then have "unat (b + of_nat ?f) mod 16 = 8" using final_offset_at(2) [OF fit(1)] by simp
  then show ?thesis using create_elf_tables_zone [OF z x1 x(2) fit(1) le le31] by blast
qed

text \<open>An example: a program about to be loaded.\<close>

definition demo_loader :: loader_state where
  "demo_loader = \<lparr>l_vm = demo_map, l_mem = (\<lambda>_. 0xff), info_load_addr = 0, start_code = 0, end_code = 0, start_data = 0, end_data = 0,
     start_brk = 0, info_brk = 0, start_mmap = 0, info_mmap = 0, rss = 0, start_stack = 0, stack_limit = 0, info_entry = 0,
     saved_auxv = 0, arg_start = 0, arg_end = 0, personality = 0\<rparr>"

definition demo_elf :: elfhdr where
  "demo_elf = \<lparr>e_type = 2, e_machine = 3, e_entry = 0x8048100, e_phoff = 0x34, e_phentsize = 32, e_phnum = 3\<rparr>"

definition demo_ids :: host_ids where
  "demo_ids = \<lparr>h_getuid = 1000, h_geteuid = 1000, h_getgid = 1000, h_getegid = 1000, h_clktck = 100, cpuid_version = 0x663, cpuid_features = 0x383fbff\<rparr>"

section \<open>Properties\<close>

text \<open>
  C29: \<^verbatim>\<open>copy_elf_strings\<close> packs the strings: although it works backwards, page by page and in runs of bytes, what
  it leaves in the argument pages is what one gets by writing the strings one after the other, each with its
  final null, so that they end where the free room ended; nothing else changes.  If they do not fit, the
  result is 0, which the caller reads as too many arguments.
\<close>

theorem copy_elf_strings_packs:
  assumes "p \<le> MAX_ARG_PAGES * 4096" "\<And>i. malloc_ok i"
  shows "\<exists>page'. copy_elf_strings malloc_ok argv page p = Inr (if length (flat_args argv) \<le> p then p - length (flat_args argv) else 0, page') \<and>
    (length (flat_args argv) \<le> p \<longrightarrow> arg_byte page' = put_bytes (arg_byte page) (p - length (flat_args argv)) (flat_args argv))"
  using copy_elf_strings_spec [where malloc_ok = malloc_ok and argv = argv and page = page, OF assms] by auto

theorem copy_elf_strings_packs_witness:
  "\<exists>page'. copy_elf_strings (\<lambda>_. True) [[0x61], [0x62, 0x63]] (\<lambda>_. None) 4098 = Inr (4093, page') \<and>
     map (arg_byte page') [4092..<4098] = [0, 0x61, 0, 0x62, 0x63, 0]"
  using copy_elf_strings_packs [of 4098 "\<lambda>_. True" "[[0x61], [0x62, 0x63]]" "\<lambda>_. None"]
  by (auto simp: upt_rec put_bytes_def arg_byte_empty)

text \<open>
  C28: The stack a program starts with, from the three copies of strings to the auxiliary vector.  If the
  host has no room for the stack the process ends.  Otherwise the stack pointer is at the number of arguments; the
  pointers that follow lead to the strings of the arguments and of the environment, which are all there, each list
  ends with a null pointer, and the auxiliary vector describes the program.  The stack pointer is eight bytes off a
  multiple of sixteen, because one entry more is pushed than \<^verbatim>\<open>DLINFO_ITEMS\<close> counts.
\<close>

theorem initial_stack:
  fixes argv envp :: "u8 list list" and filename :: "u8 list"
  assumes "fresh_vm (l_vm s)" "aligned gs" "0x21000 < gs" "unat gs + unat (qemu_host_page_size (l_vm s)) < 2 ^ 32"
    and "\<And>i. malloc_ok i" "\<forall>x\<in>set (argv @ envp). 0 \<notin> set x"
    and "length (flat_args (argv @ envp @ [filename])) + 4 * (length argv + length envp) + 170 \<le> 33 * 4096 - 4"
  defines "P \<equiv> 33 * 4096 - 4 - length (flat_args (argv @ envp @ [filename]))"
  shows "\<exists>page. copy_bprm_strings malloc_ok filename envp argv (\<lambda>_. None) (33 * 4096 - 4) = Inr (P, page) \<and>
    (case target_mmap 0 (gs + qemu_host_page_size (l_vm s)) 3 0x22 (- 1) 0 (l_vm s) of
       Inl e \<Rightarrow> setup_arg_pages gs (of_nat P) page s = Inl e
     | Inr (error, _) \<Rightarrow>
         if error = - 1 then setup_arg_pages gs (of_nat P) page s = Inl Aborted
         else \<exists>p s1 sp s2. setup_arg_pages gs (of_nat P) page s = Inr (p, s1) \<and>
           create_elf_tables p (int (length argv)) (int (length envp)) exec h load_addr load_bias interp_load_addr True s1 = Inr (sp, s2) \<and>
           unat sp mod 16 = 8 \<and> stack_image sp p argv envp (aux_vector exec h load_addr load_bias interp_load_addr (p - 8)) (get_elf_platform h) s2)"
proof -
  let ?all = "flat_args (argv @ envp @ [filename])" and ?map = "target_mmap 0 (gs + qemu_host_page_size (l_vm s)) 3 0x22 (- 1) 0 (l_vm s)"
  obtain page where pg: "copy_bprm_strings malloc_ok filename envp argv (\<lambda>_. None) (33 * 4096 - 4) = Inr (P, page)"
      "arg_byte page = put_bytes (arg_byte (\<lambda>_. None)) P ?all"
    using copy_bprm_strings_spec [where malloc_ok = malloc_ok and p = "33 * 4096 - 4" and page = "\<lambda>_. None" and argv = argv and envp = envp and filename = filename]
      assms(5,7) unfolding P_def by auto
  have fit: "4 * (length argv + length envp) + 170 \<le> P" "P + length ?all \<le> 0x21000" using assms(7) unfolding P_def by simp_all
  have "setup_arg_pages gs (of_nat P) page s = Inl e" if "?map = Inl e" for e
    using that less_not_sym [OF assms(3)] by (simp add: setup_arg_pages_def mmap_anon_def)
  moreover have "setup_arg_pages gs (of_nat P) page s = Inl Aborted" if "?map = Inr (- 1, v)" for v
    using that less_not_sym [OF assms(3)] by (simp add: setup_arg_pages_def mmap_anon_def)
  moreover have "\<exists>p s1 sp s2. setup_arg_pages gs (of_nat P) page s = Inr (p, s1) \<and>
      create_elf_tables p (int (length argv)) (int (length envp)) exec h load_addr load_bias interp_load_addr True s1 = Inr (sp, s2) \<and>
      unat sp mod 16 = 8 \<and> stack_image sp p argv envp (aux_vector exec h load_addr load_bias interp_load_addr (p - 8)) (get_elf_platform h) s2"
    if m: "?map = Inr (error, v)" "error \<noteq> - 1" for error v
  proof -
    let ?b = "error + gs - 0x21000"
    obtain s1 where s1: "setup_arg_pages gs (of_nat P) page s = Inr (?b + of_nat P, s1)" "stack_zone (l_vm s1) ?b 0x21000"
        "\<forall>a<0x21000. zone_bytes (l_mem s1) ?b a = put_bytes (arg_byte (\<lambda>_. None)) P ?all a"
      using setup_arg_pages_zone [OF assms(1-4) m, of "of_nat P" page] unfolding pg(2) by (auto simp: add.commute)
    from create_elf_tables_image [OF s1(2,3) assms(6) fit] s1(1) show ?thesis by blast
  qed
  ultimately show ?thesis using pg(1) by (cases ?map) (auto split: prod.splits)
qed

theorem initial_stack_witness:
  "\<exists>page. copy_bprm_strings (\<lambda>_. True) [0x61] [[0x50, 0x3d]] [[0x61], [0x2d, 0x6c]] (\<lambda>_. None) 135164 = Inr (135154, page) \<and>
    (case target_mmap 0 0x804000 3 0x22 (- 1) 0 demo_map of
       Inl e \<Rightarrow> setup_arg_pages 0x800000 135154 page demo_loader = Inl e
     | Inr (error, _) \<Rightarrow>
         if error = - 1 then setup_arg_pages 0x800000 135154 page demo_loader = Inl Aborted
         else \<exists>p s1 sp s2. setup_arg_pages 0x800000 135154 page demo_loader = Inr (p, s1) \<and>
           create_elf_tables p 2 1 demo_elf demo_ids 0x8048000 0 0 True s1 = Inr (sp, s2) \<and> unat sp mod 16 = 8 \<and>
           stack_image sp p [[0x61], [0x2d, 0x6c]] [[0x50, 0x3d]] (aux_vector demo_elf demo_ids 0x8048000 0 0 (p - 8)) (get_elf_platform demo_ids) s2)"
proof -
  have l: "l_vm demo_loader = demo_map" "qemu_host_page_size demo_map = 0x4000" by (simp_all add: demo_loader_def demo_map_def)
  have v: "fresh_vm demo_map" using demo_map_ok by (simp add: fresh_vm_def) (simp add: demo_map_def demo_vm_def)
  let ?av = "[[0x61], [0x2d, 0x6c]] :: u8 list list" and ?ev = "[[0x50, 0x3d]] :: u8 list list" and ?fn = "[0x61] :: u8 list"
  have n: "length (flat_args (?av @ ?ev @ [?fn])) = 10" "33 * 4096 - 4 = (135164 :: nat)" "135164 - 10 = (135154 :: nat)" "of_nat 135154 = (135154 :: u32)"
    "0x800000 + 0x4000 = (0x804000 :: u32)" "int (length ?av) = 2" "int (length ?ev) = 1"
    by simp_all
  have h: "fresh_vm (l_vm demo_loader)" "aligned 0x800000" "0x21000 < (0x800000 :: u32)" "unat (0x800000 :: u32) + unat (qemu_host_page_size (l_vm demo_loader)) < 2 ^ 32"
    "\<forall>x\<in>set (?av @ ?ev). 0 \<notin> set x" "length (flat_args (?av @ ?ev @ [?fn])) + 4 * (length ?av + length ?ev) + 170 \<le> 33 * 4096 - 4"
    using v by (simp_all add: l aligned_def)
  from initial_stack [OF h(1-4) TrueI h(5,6), of demo_elf demo_ids "0x8048000" 0 0] show ?thesis unfolding n l .
qed

end
