(* ===== verification/Load_Elf_Maps.thy ===== *)
theory Load_Elf_Maps
  imports Load_Elf Loader_Stack
begin

text \<open>
  What loading a program comes to: which results it has, that the search for room in the host's address space ends, and
  which pages have which rights once the segments are mapped.
\<close>

unbundle bit_operations_syntax

section \<open>Refusals\<close>

lemma find_interp_refuses: "find_interp ef phs found = Inr (Inl e) \<Longrightarrow> e = - 22 \<or> e = - 12"
  by (induction ef phs found rule: find_interp.induct) (auto simp: Let_def split: if_splits)

lemma check_interp_result:
  "check_interp x map_file ef phs interp p page argc envc s = Inr (r, s') \<Longrightarrow> r = 0 \<or> (r = - 80 \<or> r = - 7) \<and> s' = s"
  by (auto simp: check_interp_def Let_def split: if_splits)

lemma load_elf_binary_result:
  assumes "load_elf_binary x map_file ef filename envp argv p s = Inr (r, s')"
  shows "r = 0 \<and> elf_type_ok (ef_hdr ef) \<or> r \<in> {- 8, - 12, - 22, - 80, - 7} \<and> s' = s"
proof (cases "elf_type_ok (ef_hdr ef) \<and> ef_table_malloc ef")
  case True
  then obtain p1 page phs y where "find_interp ef phs None = Inr y"
    "(case y of Inl e \<Rightarrow> Inr (e, s) | Inr interp \<Rightarrow> check_interp x map_file ef phs interp p1 page (int (length argv)) (int (length envp)) s) = Inr (r, s')"
    using assms by (auto simp: load_elf_binary_def split: option.splits)
  then show ?thesis using True check_interp_result find_interp_refuses by (cases y) fastforce+
qed (use assms in \<open>auto simp: load_elf_binary_def split: if_splits\<close>)

section \<open>Room for the program\<close>

lemma host_size_dvd: "host_pages v \<Longrightarrow> unat (qemu_host_page_size v) dvd 4294967296"
proof -
  assume "host_pages v"
  then obtain k where k: "k < 32" "qemu_host_page_size v = push_bit k 1" by (auto simp: host_pages_def)
  have lt: "(2 :: nat) ^ k < 2 ^ 32" using k(1) by (intro power_strict_increasing) simp_all
  have "push_bit k 1 = (of_nat (2 ^ k) :: u32)" by (simp add: push_bit_eq_mult)
  then have "unat (qemu_host_page_size v) = 2 ^ k" using unat_of_nat_u32 [OF lt] unfolding k(2) by (simp only:)
  moreover have "(2 :: nat) ^ k dvd 2 ^ 32" using k(1) by (intro le_imp_power_dvd) simp
  ultimately show ?thesis by simp
qed

lemma step_back:
  fixes d hp :: u32
  assumes "hp \<noteq> 0" "unat hp dvd 4294967296" "unat hp dvd unat d" "d \<noteq> hp"
  shows "unat hp dvd unat (d - hp)" "unat (d - hp - 1) < unat (d - 1)"
proof -
  have H: "0 < unat hp" using assms(1) by (simp add: unat_gt_0)
  have "unat hp dvd unat (d - hp) \<and> unat (d - hp - 1) < unat (d - 1)"
  proof (cases "d = 0")
    case True
    have "- hp = of_nat (4294967296 - unat hp)" using u32_less [of hp] by (simp add: of_nat_diff)
    then have u: "unat (- hp) = 4294967296 - unat hp" using H by (simp only:) (rule unat_of_nat_u32, simp)
    have "unat (- hp - 1) = 4294967296 - unat hp - 1" using assms(1) u by (simp add: unat_minus_one)
    moreover have "unat (- 1 :: u32) = unat (0xffffffff :: u32)" by (rule arg_cong [where f = unat]) simp
    ultimately show ?thesis using True u assms(2) H u32_less [of hp] by (auto simp: dvd_diff_nat)
  next
    case False
    have ne: "unat d \<noteq> unat hp" using assms(4) by (simp add: word_unat_eq_iff)
    have "unat hp \<le> unat d" using assms(3) False by (intro dvd_imp_le) (simp_all add: unat_gt_0)
    then have u: "unat (d - hp) = unat d - unat hp" "0 < unat d - unat hp" using ne by (simp_all add: unat_sub word_le_nat_alt)
    then have "d - hp \<noteq> 0" using ne by auto
    then have "unat (d - hp - 1) = unat d - unat hp - 1" using u by (simp add: unat_minus_one)
    moreover have "unat (d - 1) = unat d - 1" using False by (simp add: unat_minus_one)
    ultimately show ?thesis using u H assms(3) by (auto simp: dvd_diff_nat)
  qed
  then show "unat hp dvd unat (d - hp)" "unat (d - hp - 1) < unat (d - 1)" by auto
qed

text \<open>The host granted the area asked for, and nothing but the log of its calls has changed.\<close>

definition host_area :: "u32 \<Rightarrow> vm_state \<Rightarrow> u32 \<Rightarrow> vm_state \<Rightarrow> bool" where
  "host_area host_size v real_start v' \<longleftrightarrow>
     (\<exists>log. v' = v\<lparr>host_log := Host_mmap real_start host_size PROT_NONE 0x4022 (- 1) 0 # log\<rparr> \<and>
        answer v (Host_mmap real_start host_size PROT_NONE 0x4022 (- 1) 0 # log) = real_start)"

lemma find_host_area_ends:
  assumes "host_pages v" "unat (qemu_host_page_size v) dvd unat (app_start - host_start)"
  shows "\<exists>r. find_host_area host_start host_size app_start v = Some r \<and>
     (case r of Inl e \<Rightarrow> e = Aborted | Inr (real_start, v') \<Rightarrow> host_area host_size v real_start v')"
  using assms
proof (induction "unat (app_start - host_start - 1)" arbitrary: host_start v rule: less_induct)
  case less
  let ?c = "Host_mmap host_start host_size PROT_NONE 0x4022 (- 1) 0"
  let ?r = "answer v (?c # host_log v)" and ?hp = "qemu_host_page_size v"
  let ?v = "v\<lparr>host_log := Host_munmap ?r host_size # ?c # host_log v\<rparr>"
  have step: "find_host_area host_start host_size app_start v =
      (if ?r = - 1 then Some (Inl Aborted) else if ?r = host_start then Some (Inr (?r, v\<lparr>host_log := ?c # host_log v\<rparr>))
       else if host_start + ?hp = app_start then Some (Inl Aborted) else find_host_area (host_start + ?hp) host_size app_start ?v)"
    by (subst find_host_area.simps) (simp add: host_def Let_def)
  show ?case
  proof (cases "?r = - 1 \<or> ?r = host_start \<or> host_start + ?hp = app_start")
    case True
    then show ?thesis unfolding step by (auto simp: host_area_def)
  next
    case False
    have hp: "?hp \<noteq> 0" using host_floor(3) [OF less.prems(1)] by auto
    have ne: "app_start - host_start \<noteq> ?hp" using False by (auto simp: algebra_simps)
    note sb = step_back [OF hp host_size_dvd [OF less.prems(1)] less.prems(2) ne]
    have e: "app_start - (host_start + ?hp) = app_start - host_start - ?hp" by simp
    have "\<exists>r. find_host_area (host_start + ?hp) host_size app_start ?v = Some r \<and>
        (case r of Inl e \<Rightarrow> e = Aborted | Inr (real_start, v') \<Rightarrow> host_area host_size ?v real_start v')"
      using sb less.prems(1) by (intro less.hyps) (simp_all only: e, simp_all add: host_pages_def)
    then show ?thesis unfolding step using False by (auto simp: host_area_def split: sum.splits)
  qed
qed

section \<open>The segments in memory\<close>

definition vm_good :: "vm_state \<Rightarrow> bool" where
  "vm_good v \<longleftrightarrow> page_ok v \<and> host_memory v \<and> kernel_ok v \<and> reserved_va v = 0 \<and> TARGET_PAGE_SIZE \<le> qemu_real_host_page_size v"

lemma vm_good_consts: "vm_good v \<Longrightarrow> vm_consts v' = vm_consts v \<Longrightarrow> page_ok v' \<Longrightarrow> vm_good v'"
  by (simp add: vm_good_def vm_consts_def host_memory_def kernel_ok_def)

lemma target_mmap_empty:
  assumes "TARGET_PAGE_ALIGN len = 0"
  shows "target_mmap start len prot flags fd offset v = (if offset AND NOT TARGET_PAGE_MASK \<noteq> 0 then mmap_fail (set_errno EINVAL (mmap_lock v)) else Inr (start, mmap_unlock (mmap_lock v)))"
  by (subst target_mmap.simps) (simp add: assms)

text \<open>The rights of a page after a mapping of \<open>len\<close> bytes.\<close>

definition flags_mapped :: "u32 \<Rightarrow> u32 \<Rightarrow> u32 \<Rightarrow> (u32 \<Rightarrow> u32) \<Rightarrow> u32 \<Rightarrow> u32" where
  "flags_mapped start len prot f a =
     (if TARGET_PAGE_ALIGN len \<noteq> 0 \<and> in_area start (TARGET_PAGE_ALIGN len) a then stored_flags (prot OR PAGE_VALID) else f a)"

lemma target_mmap_rights:
  assumes v: "vm_good v" and "prot AND 7 = prot"
  shows "case target_mmap start len prot flags fd offset v of Inl e \<Rightarrow> e = Assertion_Failed
    | Inr (r, v') \<Rightarrow> vm_good v' \<and> (r \<noteq> - 1 \<longrightarrow> (flags AND MAP_FIXED \<noteq> 0 \<longrightarrow> r = start) \<and> page_get_flags v' = flags_mapped r len prot (page_get_flags v))"
proof (cases "TARGET_PAGE_ALIGN len = 0")
  case True
  have u: "unlocked v (mmap_unlock (mmap_lock v)) (page_get_flags v)" "unlocked v (mmap_unlock (set_errno EINVAL (mmap_lock v))) (page_get_flags v)"
    using v by (auto simp: vm_good_def intro!: unlock_unchanged)
  then show ?thesis
    using True vm_good_consts [OF v] unfolding target_mmap_empty [OF True] by (auto simp: mmap_fail_def unlocked_def flags_mapped_def fun_eq_iff)
next
  case False
  have "mapped_good v (if flags AND MAP_FIXED = 0 then {a. aligned a} else {start}) (TARGET_PAGE_ALIGN len) prot (target_mmap start len prot flags fd offset v)"
    using v assms(2) False unfolding vm_good_def by (intro target_mmap_good) auto
  then show ?thesis
    using False vm_good_consts [OF v] by (auto simp: mapped_good_def flags_mapped_def flags_after_def fun_eq_iff split: sum.splits)
qed

lemma elf_prot_rights: "elf_prot ph AND 7 = elf_prot ph"
  by (simp add: elf_prot_def)

text \<open>Where a segment goes, its length, and what it does to the rights of pages.\<close>

definition seg_len :: "elf_phdr \<Rightarrow> u32" where
  "seg_len ph = p_filesz ph + TARGET_ELF_PAGEOFFSET (p_vaddr ph)"

definition seg_flags :: "u32 \<Rightarrow> elf_phdr \<Rightarrow> (u32 \<Rightarrow> u32) \<Rightarrow> u32 \<Rightarrow> u32" where
  "seg_flags bias ph f = (if p_type ph = PT_LOAD then flags_mapped (TARGET_ELF_PAGESTART (bias + p_vaddr ph)) (seg_len ph) (elf_prot ph) f else f)"

definition seg_layout :: "u16 \<Rightarrow> elf_phdr \<Rightarrow> elf_layout \<Rightarrow> elf_layout" where
  "seg_layout type ph g = (if p_type ph = PT_LOAD then add_limits ph (set_load_addr type ph (TARGET_ELF_PAGESTART (ly_load_bias g + p_vaddr ph)) g) else g)"

lemma mmap_file_rights:
  assumes "vm_good (l_vm s)" "prot AND 7 = prot" "flags AND MAP_FIXED \<noteq> 0"
  shows "case mmap_file map_file start len prot flags fd offset s of Inl e \<Rightarrow> e = Assertion_Failed
    | Inr (r, s') \<Rightarrow> vm_good (l_vm s') \<and> (r \<noteq> - 1 \<longrightarrow> r = start \<and> page_get_flags (l_vm s') = flags_mapped start len prot (page_get_flags (l_vm s)))"
  using target_mmap_rights [where start = start and len = len and flags = flags and fd = fd and offset = offset, OF assms(1,2)] assms(3)
  by (cases "target_mmap start len prot flags fd offset (l_vm s)") (auto simp: mmap_file_def)

lemma load_bias_kept: "ly_load_bias (add_limits ph g) = ly_load_bias g" "ly_set (add_limits ph g) = ly_set g"
  "ly_load_bias (set_load_addr type ph (TARGET_ELF_PAGESTART (ly_load_bias g + p_vaddr ph)) g) = ly_load_bias g"
  "ly_set (set_load_addr type ph e g)"
  by (simp_all add: add_limits_def set_load_addr_def Let_def)

lemma map_segment_rights:
  assumes "vm_good (l_vm s)" "p_type ph = PT_LOAD"
  shows "case map_segment map_file type fd ph g s of Inl e \<Rightarrow> e = Aborted \<or> e = Assertion_Failed
    | Inr (g', s') \<Rightarrow> vm_good (l_vm s') \<and> g' = seg_layout type ph g \<and> page_get_flags (l_vm s') = seg_flags (ly_load_bias g) ph (page_get_flags (l_vm s))"
proof -
  let ?r = "mmap_file map_file (TARGET_ELF_PAGESTART (ly_load_bias g + p_vaddr ph)) (p_filesz ph + TARGET_ELF_PAGEOFFSET (p_vaddr ph))
                    (elf_prot ph) (MAP_FIXED OR MAP_PRIVATE OR MAP_DENYWRITE) fd (p_offset ph - TARGET_ELF_PAGEOFFSET (p_vaddr ph)) s"
  have "case ?r of Inl e \<Rightarrow> e = Assertion_Failed
    | Inr (r, s') \<Rightarrow> vm_good (l_vm s') \<and> (r \<noteq> - 1 \<longrightarrow> r = TARGET_ELF_PAGESTART (ly_load_bias g + p_vaddr ph) \<and>
        page_get_flags (l_vm s') = flags_mapped (TARGET_ELF_PAGESTART (ly_load_bias g + p_vaddr ph)) (p_filesz ph + TARGET_ELF_PAGEOFFSET (p_vaddr ph)) (elf_prot ph) (page_get_flags (l_vm s)))"
    by (rule mmap_file_rights [OF assms(1) elf_prot_rights]) simp
  then show ?thesis unfolding map_segment_def using assms(2)
    by (cases ?r) (auto simp: seg_layout_def seg_flags_def seg_len_def split: prod.splits)
qed

lemma load_segment_fixed:
  assumes "vm_good (l_vm s)" "type \<noteq> ET_DYN \<or> ly_set g"
  shows "case load_segment map_file type fd ph g s of Inl e \<Rightarrow> e = Aborted \<or> e = Assertion_Failed
    | Inr (g', s') \<Rightarrow> vm_good (l_vm s') \<and> g' = seg_layout type ph g \<and> page_get_flags (l_vm s') = seg_flags (ly_load_bias g) ph (page_get_flags (l_vm s))"
proof (cases "p_type ph = PT_LOAD")
  case True
  then have "load_segment map_file type fd ph g s = map_segment map_file type fd ph g s" using assms(2) by (auto simp: load_segment_def)
  then show ?thesis using map_segment_rights [OF assms(1) True] by simp
qed (simp add: load_segment_def seg_layout_def seg_flags_def assms(1))

lemma load_segments_fixed:
  assumes "vm_good (l_vm s)" "type \<noteq> ET_DYN \<or> ly_set g"
  shows "case load_segments map_file type fd phs g s of Inl e \<Rightarrow> e = Aborted \<or> e = Assertion_Failed
    | Inr (g', s') \<Rightarrow> vm_good (l_vm s') \<and> g' = fold (seg_layout type) phs g \<and> ly_load_bias g' = ly_load_bias g \<and>
        page_get_flags (l_vm s') = fold (seg_flags (ly_load_bias g)) phs (page_get_flags (l_vm s))"
  using assms
proof (induction phs arbitrary: g s)
  case (Cons ph phs)
  let ?r = "load_segment map_file type fd ph g s"
  note one = load_segment_fixed [where map_file = map_file and fd = fd and ph = ph, OF Cons.prems]
  show ?case
  proof (cases ?r)
    case (Inr y)
    then obtain s1 where s1: "?r = Inr (seg_layout type ph g, s1)" "vm_good (l_vm s1)" "page_get_flags (l_vm s1) = seg_flags (ly_load_bias g) ph (page_get_flags (l_vm s))"
      using one by (cases y) auto
    have b: "ly_load_bias (seg_layout type ph g) = ly_load_bias g" "type \<noteq> ET_DYN \<or> ly_set (seg_layout type ph g)"
      using Cons.prems(2) by (auto simp: seg_layout_def load_bias_kept)
    show ?thesis using Cons.IH [OF s1(2) b(2)] s1(1,3) b(1) by (cases "load_segments map_file type fd phs (seg_layout type ph g) s1") auto
  qed (use one in auto)
qed simp

text \<open>A program that can be loaded anywhere: room for all of it is set aside first.\<close>

lemma load_segment_dyn:
  assumes v: "vm_good (l_vm s)" and g: "\<not> ly_set g" "p_type ph = PT_LOAD"
  shows "case load_segment map_file ET_DYN fd ph g s of Inl e \<Rightarrow> e = Aborted \<or> e = Assertion_Failed
    | Inr (g', s') \<Rightarrow> vm_good (l_vm s') \<and> (\<exists>base. let g0 = g\<lparr>ly_load_bias := TARGET_ELF_PAGESTART (base - p_vaddr ph)\<rparr> in
        g' = seg_layout ET_DYN ph g0 \<and> page_get_flags (l_vm s') = seg_flags (ly_load_bias g0) ph (flags_mapped base 0x8000000 0 (page_get_flags (l_vm s))))"
proof -
  let ?m = "target_mmap 0 0x8000000 0 0x22 (- 1) 0 (l_vm s)"
  have m: "case ?m of Inl e \<Rightarrow> e = Assertion_Failed
      | Inr (r, v') \<Rightarrow> vm_good v' \<and> (r \<noteq> - 1 \<longrightarrow> page_get_flags v' = flags_mapped r 0x8000000 0 (page_get_flags (l_vm s)))"
    using target_mmap_rights [where prot = 0 and start = 0 and len = "0x8000000" and flags = "0x22" and fd = "- 1" and offset = 0, OF v] by (cases ?m) auto
  show ?thesis
  proof (cases ?m)
    case (Inl e)
    then show ?thesis using m g by (simp add: load_segment_def mmap_anon_def)
  next
    case (Inr y)
    then obtain base v1 where y: "?m = Inr (base, v1)" "vm_good v1" "base \<noteq> - 1 \<Longrightarrow> page_get_flags v1 = flags_mapped base 0x8000000 0 (page_get_flags (l_vm s))"
      using m by (cases y) auto
    show ?thesis
    proof (cases "base = - 1")
      case True
      then show ?thesis using y(1) g by (simp add: load_segment_def mmap_anon_def)
    next
      case False
      let ?s = "s\<lparr>l_vm := v1, l_mem := (\<lambda>a. if base \<noteq> - 1 \<and> a \<in> region base 0x8000000 then 0 else l_mem s a)\<rparr>"
      let ?g = "g\<lparr>ly_load_bias := TARGET_ELF_PAGESTART (base - p_vaddr ph)\<rparr>"
      have "load_segment map_file ET_DYN fd ph g s = map_segment map_file ET_DYN fd ph ?g ?s"
        using g y(1) False by (simp add: load_segment_def mmap_anon_def)
      moreover have "vm_good (l_vm ?s)" using y(2) by simp
      note map_segment_rights [where map_file = map_file and type = ET_DYN and fd = fd and g = ?g, OF this g(2)]
      ultimately show ?thesis using y(3) [OF False]
        by (cases "map_segment map_file ET_DYN fd ph ?g ?s") (auto simp: Let_def intro!: exI [of _ base])
    qed
  qed
qed

section \<open>The limits\<close>

lemma set_load_addr_limits:
  "ly_start_code (set_load_addr type ph e g) = ly_start_code g" "ly_end_code (set_load_addr type ph e g) = ly_end_code g"
  "ly_start_data (set_load_addr type ph e g) = ly_start_data g" "ly_end_data (set_load_addr type ph e g) = ly_end_data g"
  "ly_bss (set_load_addr type ph e g) = ly_bss g" "ly_brk (set_load_addr type ph e g) = ly_brk g"
  by (simp_all add: set_load_addr_def Let_def)

lemma add_limits_limits:
  "ly_start_code (add_limits ph g) = min (p_vaddr ph) (ly_start_code g)"
  "ly_start_data (add_limits ph g) = max (p_vaddr ph) (ly_start_data g)"
  "ly_end_code (add_limits ph g) = (if p_flags ph AND 1 \<noteq> 0 then max (p_vaddr ph + p_filesz ph) (ly_end_code g) else ly_end_code g)"
  "ly_end_data (add_limits ph g) = max (p_vaddr ph + p_filesz ph) (ly_end_data g)"
  "ly_bss (add_limits ph g) = max (p_vaddr ph + p_filesz ph) (ly_bss g)"
  "ly_brk (add_limits ph g) = max (p_vaddr ph + p_memsz ph) (ly_brk g)"
  by (auto simp: add_limits_def Let_def min_def max_def)

lemma seg_layout_limits:
  "ly_start_code (seg_layout type ph g) = (if p_type ph = PT_LOAD then min (p_vaddr ph) (ly_start_code g) else ly_start_code g)"
  "ly_start_data (seg_layout type ph g) = (if p_type ph = PT_LOAD then max (p_vaddr ph) (ly_start_data g) else ly_start_data g)"
  "ly_end_code (seg_layout type ph g) = (if p_type ph = PT_LOAD \<and> p_flags ph AND 1 \<noteq> 0 then max (p_vaddr ph + p_filesz ph) (ly_end_code g) else ly_end_code g)"
  "ly_end_data (seg_layout type ph g) = (if p_type ph = PT_LOAD then max (p_vaddr ph + p_filesz ph) (ly_end_data g) else ly_end_data g)"
  "ly_bss (seg_layout type ph g) = (if p_type ph = PT_LOAD then max (p_vaddr ph + p_filesz ph) (ly_bss g) else ly_bss g)"
  "ly_brk (seg_layout type ph g) = (if p_type ph = PT_LOAD then max (p_vaddr ph + p_memsz ph) (ly_brk g) else ly_brk g)"
  by (simp_all add: seg_layout_def add_limits_limits set_load_addr_limits)

text \<open>A field that is raised, or lowered, by each segment of some kind.\<close>

lemma fold_Max:
  fixes f :: "'g \<Rightarrow> 'a::linorder"
  assumes "\<And>ph g. f (h ph g) = (if P ph then max (k ph) (f g) else f g)"
  shows "f (fold h phs g) = Max (insert (f g) (k ` {ph \<in> set phs. P ph}))"
proof (induction phs arbitrary: g)
  case (Cons ph phs)
  let ?A = "k ` {ph \<in> set phs. P ph}"
  have "k ` {x \<in> set (ph # phs). P x} = (if P ph then insert (k ph) ?A else ?A)" by auto
  moreover have "Max (insert (max x y) ?A) = Max (insert y (insert x ?A))" for x y by (cases "?A = {}") (simp_all del: image_is_empty add: ac_simps)
  moreover have "f (fold h (ph # phs) g) = Max (insert (f (h ph g)) ?A)" using Cons by simp
  ultimately show ?case by (simp only: assms split: if_split) simp
qed simp

lemma fold_Min:
  fixes f :: "'g \<Rightarrow> 'a::linorder"
  assumes "\<And>ph g. f (h ph g) = (if P ph then min (k ph) (f g) else f g)"
  shows "f (fold h phs g) = Min (insert (f g) (k ` {ph \<in> set phs. P ph}))"
proof (induction phs arbitrary: g)
  case (Cons ph phs)
  let ?A = "k ` {ph \<in> set phs. P ph}"
  have "k ` {x \<in> set (ph # phs). P x} = (if P ph then insert (k ph) ?A else ?A)" by auto
  moreover have "Min (insert (min x y) ?A) = Min (insert y (insert x ?A))" for x y by (cases "?A = {}") (simp_all del: image_is_empty add: ac_simps)
  moreover have "f (fold h (ph # phs) g) = Min (insert (f (h ph g)) ?A)" using Cons by simp
  ultimately show ?case by (simp only: assms split: if_split) simp
qed simp

text \<open>The limits of a program.\<close>

definition limits_ok :: "elf_phdr list \<Rightarrow> elf_layout \<Rightarrow> bool" where
  "limits_ok phs g \<longleftrightarrow> (let segs = {ph \<in> set phs. p_type ph = PT_LOAD}; ends = (\<lambda>ph. p_vaddr ph + p_filesz ph) in
     ly_start_code g = Min (insert (- 1) (p_vaddr ` segs)) \<and> ly_start_data g = Max (insert 0 (p_vaddr ` segs)) \<and>
     ly_end_code g = Max (insert 0 (ends ` {ph \<in> segs. p_flags ph AND 1 \<noteq> 0})) \<and> ly_end_data g = Max (insert 0 (ends ` segs)) \<and>
     ly_bss g = Max (insert 0 (ends ` segs)) \<and> ly_brk g = Max (insert 0 ((\<lambda>ph. p_vaddr ph + p_memsz ph) ` segs)))"

lemma layout_limits:
  assumes "ly_start_code g = - 1" "ly_start_data g = 0" "ly_end_code g = 0" "ly_end_data g = 0" "ly_bss g = 0" "ly_brk g = 0"
  shows "limits_ok phs (fold (seg_layout type) phs g)"
  using fold_Min [of ly_start_code "seg_layout type", OF seg_layout_limits(1), of phs g] fold_Max [of ly_start_data "seg_layout type", OF seg_layout_limits(2), of phs g]
    fold_Max [of ly_end_code "seg_layout type", OF seg_layout_limits(3), of phs g] fold_Max [of ly_end_data "seg_layout type", OF seg_layout_limits(4), of phs g]
    fold_Max [of ly_bss "seg_layout type", OF seg_layout_limits(5), of phs g] fold_Max [of ly_brk "seg_layout type", OF seg_layout_limits(6), of phs g]
  unfolding limits_ok_def Let_def assms by (simp add: conj_assoc)

lemma dvd_word_diff:
  fixes a b :: u32
  assumes "n dvd unat a" "n dvd unat b" "n dvd 4294967296"
  shows "n dvd unat (a - b)"
proof -
  have "a - b = of_nat (4294967296 + unat a - unat b)" using u32_less [of b] by (simp add: of_nat_diff)
  then have "unat (a - b) = (4294967296 + unat a - unat b) mod 4294967296" by (simp only: unat_of_nat) simp
  moreover have "n dvd 4294967296 + unat a - unat b" using assms by (intro dvd_diff_nat dvd_add)
  ultimately show ?thesis using assms(3) by (simp add: dvd_mod)
qed

lemma probe_guest_base_spec:
  assumes "host_pages v" "\<not> have_base" "reserved_va v = 0" "fst (app_range phs (- 1) 0) < snd (app_range phs (- 1) 0)"
  defines "app_start \<equiv> fst (app_range phs (- 1) 0) AND qemu_host_page_mask v"
  shows "case probe_guest_base have_base phs v of Inl e \<Rightarrow> e = Aborted
    | Inr v' \<Rightarrow> \<exists>real_start v1. host_area (HOST_PAGE_ALIGN v (snd (app_range phs (- 1) 0)) - app_start) v real_start v1 \<and> v' = v1\<lparr>guest_base := real_start - app_start\<rparr>"
proof -
  let ?size = "HOST_PAGE_ALIGN v (snd (app_range phs (- 1) 0)) - app_start"
  let ?start = "if app_start < mmap_min_addr v then HOST_PAGE_ALIGN v (mmap_min_addr v) else app_start"
  have m: "unat (qemu_host_page_size v) dvd unat (x AND qemu_host_page_mask v)" for x unfolding host_floor(1) [OF assms(1)] by simp
  then have "unat (qemu_host_page_size v) dvd unat app_start" "unat (qemu_host_page_size v) dvd unat ?start"
    by (simp_all add: app_start_def HOST_PAGE_ALIGN_def)
  then have "unat (qemu_host_page_size v) dvd unat (app_start - ?start)" using host_size_dvd [OF assms(1)] by (rule dvd_word_diff)
  then obtain r where r: "find_host_area ?start ?size app_start v = Some r" "case r of Inl e \<Rightarrow> e = Aborted | Inr (real_start, v') \<Rightarrow> host_area ?size v real_start v'"
    using find_host_area_ends [OF assms(1)] by blast
  have "probe_guest_base have_base phs v = and_then r (\<lambda>(real_start, v). Inr (v\<lparr>guest_base := real_start - app_start\<rparr>))"
    using assms(2-4) r(1) unfolding probe_guest_base_def app_start_def by (simp add: Let_def split_def)
  then show ?thesis using r(2) by (cases r) (simp, simp split: prod.splits, blast)
qed

lemma seg_skip: "p_type ph \<noteq> PT_LOAD \<Longrightarrow> seg_flags bias ph = id" "p_type ph \<noteq> PT_LOAD \<Longrightarrow> seg_layout type ph = id"
  by (simp_all add: fun_eq_iff seg_flags_def seg_layout_def)

text \<open>The segments of a program that can be loaded anywhere.\<close>

definition dyn_result :: "elf_phdr list \<Rightarrow> (u32 \<Rightarrow> u32) \<Rightarrow> elf_layout \<Rightarrow> elf_layout \<Rightarrow> (u32 \<Rightarrow> u32) \<Rightarrow> bool" where
  "dyn_result phs f g g' f' \<longleftrightarrow> (\<exists>base. let bias = TARGET_ELF_PAGESTART (base - p_vaddr (hd (filter (\<lambda>ph. p_type ph = PT_LOAD) phs))) in
     g' = fold (seg_layout ET_DYN) phs (g\<lparr>ly_load_bias := bias\<rparr>) \<and> ly_load_bias g' = bias \<and>
     f' = fold (seg_flags bias) phs (flags_mapped base 0x8000000 0 f))"

lemma load_segments_dyn:
  assumes "vm_good (l_vm s)" "\<not> ly_set g" "filter (\<lambda>ph. p_type ph = PT_LOAD) phs \<noteq> []"
  shows "case load_segments map_file ET_DYN fd phs g s of Inl e \<Rightarrow> e = Aborted \<or> e = Assertion_Failed
    | Inr (g', s') \<Rightarrow> vm_good (l_vm s') \<and> dyn_result phs (page_get_flags (l_vm s)) g g' (page_get_flags (l_vm s'))"
  using assms
proof (induction phs arbitrary: g s)
  case (Cons ph phs)
  show ?case
  proof (cases "p_type ph = PT_LOAD")
    case False
    then have "load_segment map_file ET_DYN fd ph g s = Inr (g, s)" by (simp add: load_segment_def)
    then show ?thesis using False Cons.IH [OF Cons.prems(1,2)] Cons.prems(3)
      by (cases "load_segments map_file ET_DYN fd phs g s") (auto simp: dyn_result_def seg_skip)
  next
    case True
    note one = load_segment_dyn [where map_file = map_file and fd = fd, OF Cons.prems(1,2) True]
    show ?thesis
    proof (cases "load_segment map_file ET_DYN fd ph g s")
      case (Inr y)
      then obtain g1 s1 base where s1: "load_segment map_file ET_DYN fd ph g s = Inr (g1, s1)" "vm_good (l_vm s1)"
          "g1 = seg_layout ET_DYN ph (g\<lparr>ly_load_bias := TARGET_ELF_PAGESTART (base - p_vaddr ph)\<rparr>)"
          "page_get_flags (l_vm s1) = seg_flags (TARGET_ELF_PAGESTART (base - p_vaddr ph)) ph (flags_mapped base 0x8000000 0 (page_get_flags (l_vm s)))"
        using one by (cases y) (auto simp: Let_def)
      have g1: "ly_set g1" "ly_load_bias g1 = TARGET_ELF_PAGESTART (base - p_vaddr ph)"
        unfolding s1(3) using load_bias_kept(3) [of ET_DYN ph "g\<lparr>ly_load_bias := TARGET_ELF_PAGESTART (base - p_vaddr ph)\<rparr>"]
        by (simp_all add: seg_layout_def load_bias_kept(1,2,4) True)
      have "case load_segments map_file ET_DYN fd phs g1 s1 of Inl e \<Rightarrow> e = Aborted \<or> e = Assertion_Failed
          | Inr (g', s') \<Rightarrow> vm_good (l_vm s') \<and> g' = fold (seg_layout ET_DYN) phs g1 \<and> ly_load_bias g' = ly_load_bias g1 \<and>
              page_get_flags (l_vm s') = fold (seg_flags (ly_load_bias g1)) phs (page_get_flags (l_vm s1))"
        using g1(1) by (intro load_segments_fixed [OF s1(2)]) simp
      then show ?thesis using s1(1,3,4) g1(2) True
        by (cases "load_segments map_file ET_DYN fd phs g1 s1") (auto simp: dyn_result_def Let_def)
    qed (use one in auto)
  qed
qed simp

lemma layout_addr_set: "ly_set g \<Longrightarrow> ly_load_addr (fold (seg_layout type) phs g) = ly_load_addr g"
proof (induction phs arbitrary: g)
  case (Cons ph phs)
  have "ly_set (seg_layout type ph g)" "ly_load_addr (seg_layout type ph g) = ly_load_addr g"
    using Cons.prems by (auto simp: seg_layout_def set_load_addr_def add_limits_def Let_def)
  then show ?case using Cons.IH by simp
qed simp

lemma layout_addr:
  assumes "\<not> ly_set g" "filter (\<lambda>ph. p_type ph = PT_LOAD) phs = ph # rest"
  shows "ly_load_addr (fold (seg_layout type) phs g) = p_vaddr ph - p_offset ph + (if type = ET_DYN then ly_load_bias g else 0)"
  using assms
proof (induction phs)
  case (Cons ph1 phs)
  show ?case
  proof (cases "p_type ph1 = PT_LOAD")
    case True
    then have "ph1 = ph" using Cons.prems by simp
    moreover have "ly_set (seg_layout type ph1 g)" using True by (simp add: seg_layout_def load_bias_kept)
    moreover have "ly_load_addr (seg_layout type ph1 g) = p_vaddr ph1 - p_offset ph1 + (if type = ET_DYN then ly_load_bias g else 0)"
      using True Cons.prems(1) by (simp add: seg_layout_def set_load_addr_def add_limits_def Let_def)
    ultimately show ?thesis by (simp add: layout_addr_set)
  qed (use Cons in \<open>simp add: seg_skip\<close>)
qed simp

text \<open>What loading the segments amounts to.\<close>

definition image_maps :: "u16 \<Rightarrow> elf_phdr list \<Rightarrow> (u32 \<Rightarrow> u32) \<Rightarrow> elf_layout \<Rightarrow> (u32 \<Rightarrow> u32) \<Rightarrow> bool" where
  "image_maps type phs f g f' \<longleftrightarrow> (let segs = filter (\<lambda>ph. p_type ph = PT_LOAD) phs; bias = ly_load_bias g in
     limits_ok phs g \<and> (segs \<noteq> [] \<longrightarrow> ly_load_addr g = p_vaddr (hd segs) - p_offset (hd segs) + bias) \<and>
     (if type = ET_DYN \<and> segs \<noteq> []
      then \<exists>base. bias = TARGET_ELF_PAGESTART (base - p_vaddr (hd segs)) \<and> f' = fold (seg_flags bias) phs (flags_mapped base 0x8000000 0 f)
      else bias = 0 \<and> f' = fold (seg_flags 0) phs f))"

lemma dyn_image:
  assumes "filter (\<lambda>ph. p_type ph = PT_LOAD) phs = ph # rest" "dyn_result phs f no_layout g f'"
  shows "image_maps ET_DYN phs f g f'"
proof -
  obtain base bias where b: "bias = TARGET_ELF_PAGESTART (base - p_vaddr ph)" "g = fold (seg_layout ET_DYN) phs (no_layout\<lparr>ly_load_bias := bias\<rparr>)"
      "ly_load_bias g = bias" "f' = fold (seg_flags bias) phs (flags_mapped base 0x8000000 0 f)"
    using assms by (auto simp: dyn_result_def Let_def)
  have "limits_ok phs g" unfolding b(2) by (rule layout_limits) (simp_all add: no_layout_def)
  moreover have "ly_load_addr g = p_vaddr ph - p_offset ph + bias"
    unfolding b(2) by (subst layout_addr [OF _ assms(1)]) (simp_all add: no_layout_def)
  ultimately show ?thesis unfolding image_maps_def assms(1) Let_def b(3) using b(1,4) by auto
qed

lemma fixed_image:
  assumes "type \<noteq> ET_DYN \<or> filter (\<lambda>ph. p_type ph = PT_LOAD) phs = []" "g = fold (seg_layout type) phs no_layout" "ly_load_bias g = 0" "f' = fold (seg_flags 0) phs f"
  shows "image_maps type phs f g f'"
proof -
  have "limits_ok phs g" unfolding assms(2) by (rule layout_limits) (simp_all add: no_layout_def)
  moreover have "ly_load_addr g = p_vaddr ph - p_offset ph" if "filter (\<lambda>ph. p_type ph = PT_LOAD) phs = ph # rest" for ph rest
    unfolding assms(2) using assms(1) that by (subst layout_addr [OF _ that]) (auto simp: no_layout_def)
  ultimately show ?thesis unfolding image_maps_def Let_def assms(3)
    using assms(1,4) by (cases "filter (\<lambda>ph. p_type ph = PT_LOAD) phs") auto
qed

lemma load_segments_none:
  "filter (\<lambda>ph. p_type ph = PT_LOAD) phs = [] \<Longrightarrow> load_segments map_file type fd phs g s = Inr (g, s) \<and> fold (seg_layout type) phs g = g \<and> fold (seg_flags b) phs f = f"
  by (induction phs) (auto simp: load_segment_def seg_skip split: if_splits)

section \<open>Properties\<close>

text \<open>
  C30: Where the segments of a program go.  A program with fixed addresses is mapped there; for one that can
  be loaded anywhere an area of 128 megabytes is set aside, and its segments keep their distances from one another within
  it.  In the end a page has the rights of the last segment that touches it, and no other page has changed; the limits of the
  program's code, data, bss and break are those of its segments, and the address for the program headers comes from the first
  segment.  If a mapping fails the process ends.
\<close>

theorem load_segments_maps:
  assumes "vm_good (l_vm s)"
  shows "case load_segments map_file type fd phs no_layout s of Inl e \<Rightarrow> e = Aborted \<or> e = Assertion_Failed
    | Inr (g, s') \<Rightarrow> image_maps type phs (page_get_flags (l_vm s)) g (page_get_flags (l_vm s'))"
proof (cases "filter (\<lambda>ph. p_type ph = PT_LOAD) phs")
  case Nil
  then show ?thesis using load_segments_none [OF Nil] by (simp add: fixed_image no_layout_def)
next
  case (Cons ph rest)
  have n: "\<not> ly_set no_layout" "ly_load_bias no_layout = 0" by (simp_all add: no_layout_def)
  show ?thesis
  proof (cases "type = ET_DYN")
    case True
    from Cons have "filter (\<lambda>ph. p_type ph = PT_LOAD) phs \<noteq> []" by simp
    from load_segments_dyn [where map_file = map_file and fd = fd, OF assms n(1) this] show ?thesis
      unfolding True using dyn_image [OF Cons] by (cases "load_segments map_file ET_DYN fd phs no_layout s") auto
  next
    case False
    from load_segments_fixed [where map_file = map_file and fd = fd and phs = phs and g = no_layout, OF assms disjI1 [OF False]] show ?thesis
      using fixed_image [of type phs, OF disjI1 [OF False]] n(2) by (cases "load_segments map_file type fd phs no_layout s") auto
  qed
qed

text \<open>Two segments, of code and of data; the data has a bss behind it.\<close>

definition demo_phdrs :: "elf_phdr list" where
  "demo_phdrs = [\<lparr>p_type = PT_LOAD, p_offset = 0, p_vaddr = 0x8048000, p_filesz = 0x1234, p_memsz = 0x1234, p_flags = 5\<rparr>,
     \<lparr>p_type = PT_LOAD, p_offset = 0x1234, p_vaddr = 0x804a234, p_filesz = 0x100, p_memsz = 0x2000, p_flags = 6\<rparr>]"

lemma demo_good: "vm_good (l_vm demo_loader)"
  using demo_map_ok by (simp add: vm_good_def demo_loader_def)

lemma demo_rights:
  "map (fold (seg_flags 0) demo_phdrs (\<lambda>_. 0)) [0x8047fff, 0x8048000, 0x8049fff, 0x804a000, 0x804b000] = [0, 13, 13, 27, 0]"
  by (simp add: demo_phdrs_def seg_flags_def flags_mapped_def seg_len_def TARGET_ELF_PAGESTART_def TARGET_ELF_PAGEOFFSET_def
    TARGET_PAGE_ALIGN_def in_area_def stored_flags_def elf_prot_def)

lemma demo_limits:
  assumes "limits_ok demo_phdrs g"
  shows "ly_start_code g = 0x8048000" "ly_bss g = 0x804a334" "ly_brk g = 0x804c234" "ly_end_code g = 0x8049234"
proof -
  have s: "{ph \<in> set demo_phdrs. p_type ph = 1} = set demo_phdrs" by (auto simp: demo_phdrs_def)
  have x: "{ph \<in> set demo_phdrs. p_flags ph AND 1 \<noteq> 0} = {hd demo_phdrs}" by (auto simp: demo_phdrs_def)
  show "ly_start_code g = 0x8048000" "ly_bss g = 0x804a334" "ly_brk g = 0x804c234" "ly_end_code g = 0x8049234"
    using assms unfolding limits_ok_def Let_def s x by (simp_all add: demo_phdrs_def)
qed

lemma demo_image:
  assumes "image_maps ET_EXEC demo_phdrs (\<lambda>_. 0) g f'"
  shows "limits_ok demo_phdrs g" "ly_load_addr g = 0x8048000" "ly_load_bias g = 0" "f' = fold (seg_flags 0) demo_phdrs (\<lambda>_. 0)"
proof -
  have s: "filter (\<lambda>ph. p_type ph = PT_LOAD) demo_phdrs = demo_phdrs" by (simp add: demo_phdrs_def)
  have h: "demo_phdrs \<noteq> []" "p_vaddr (hd demo_phdrs) = 0x8048000" "p_offset (hd demo_phdrs) = 0" by (simp_all add: demo_phdrs_def)
  show "limits_ok demo_phdrs g" "ly_load_addr g = 0x8048000" "ly_load_bias g = 0" "f' = fold (seg_flags 0) demo_phdrs (\<lambda>_. 0)"
    using assms unfolding image_maps_def Let_def s h by (simp_all add: h)
qed

theorem load_segments_maps_witness:
  "case load_segments (\<lambda>_ _ _ _ m. m) ET_EXEC 3 demo_phdrs no_layout demo_loader of Inl e \<Rightarrow> e = Aborted \<or> e = Assertion_Failed
    | Inr (g, s') \<Rightarrow> ly_start_code g = 0x8048000 \<and> ly_bss g = 0x804a334 \<and> ly_brk g = 0x804c234 \<and> ly_end_code g = 0x8049234 \<and>
        ly_load_addr g = 0x8048000 \<and> ly_load_bias g = 0 \<and>
        map (page_get_flags (l_vm s')) [0x8047fff, 0x8048000, 0x8049fff, 0x804a000, 0x804b000] = [0, 13, 13, 27, 0]"
proof -
  have z: "page_get_flags (l_vm demo_loader) = (\<lambda>_. 0)" by (simp add: fun_eq_iff demo_loader_def demo_map_ok(7))
  let ?r = "load_segments (\<lambda>_ _ _ _ m. m) ET_EXEC 3 demo_phdrs no_layout demo_loader"
  note m = load_segments_maps [where map_file = "\<lambda>_ _ _ _ m. m" and type = ET_EXEC and fd = 3 and phs = demo_phdrs, OF demo_good, unfolded z]
  show ?thesis
  proof (cases ?r)
    case (Inr y)
    then obtain g s' where r: "?r = Inr (g, s')" "image_maps ET_EXEC demo_phdrs (\<lambda>_. 0) g (page_get_flags (l_vm s'))" using m by (cases y) simp
    note i = demo_image [OF r(2)]
    show ?thesis unfolding r(1) sum.case prod.case i(2-4) demo_rights using demo_limits [OF i(1)] by simp
  qed (use m in simp)
qed

text \<open>
  C31: Finding room in the host's address space for a program ends: the search either gives up, or the host has granted
  an area of the size of the program at the place it was asked for, and guest addresses are shifted so that the program lies there.  A
  program without segments fails the assertion.
\<close>

theorem probe_guest_base_ends:
  assumes "host_pages v"
  shows "let (app_start, app_end) = app_range phs (- 1) 0; start = app_start AND qemu_host_page_mask v in
    case probe_guest_base have_base phs v of
      Inl e \<Rightarrow> e = Aborted \<or> e = Assertion_Failed \<and> \<not> app_start < app_end
    | Inr v' \<Rightarrow> (if have_base \<or> reserved_va v \<noteq> 0 then v' = v
        else \<exists>real_start v1. host_area (HOST_PAGE_ALIGN v app_end - start) v real_start v1 \<and> v' = v1\<lparr>guest_base := real_start - start\<rparr>)"
proof (cases "\<not> have_base \<and> reserved_va v = 0 \<and> fst (app_range phs (- 1) 0) < snd (app_range phs (- 1) 0)")
  case True
  then show ?thesis using probe_guest_base_spec [OF assms, of have_base phs] by (auto simp: split_def Let_def split: sum.splits)
qed (auto simp: probe_guest_base_def split_def Let_def)

theorem probe_guest_base_ends_witness:
  "case probe_guest_base False demo_phdrs demo_map of Inl e \<Rightarrow> e = Aborted
    | Inr v' \<Rightarrow> \<exists>real_start v1. host_area 0x8000 demo_map real_start v1 \<and> v' = v1\<lparr>guest_base := real_start - 0x8048000\<rparr>"
  using probe_guest_base_ends [OF demo_map_ok(5), of demo_phdrs False]
  by (auto simp: demo_phdrs_def demo_map_ok HOST_PAGE_ALIGN_def demo_map_def demo_vm_def split: sum.splits)

text \<open>
  C32: How starting a program ends when the process does not.  Either the result is 0, the file was a regular, executable ELF
  file for this machine, and the registers hold the entry point and the stack pointer that the loader has computed; or the result is
  an error, no registers are set, and the guest's memory is untouched: the loader fails before the point of no return or not at all.
\<close>

theorem loader_exec_outcome:
  assumes "loader_exec x map_file f filename argv envp s = Inr (r, regs, s')" "\<And>e. xf_stat f = Inl e \<Longrightarrow> 0 < e"
  shows "r = 0 \<and> regs = Some \<lparr>r_esp = start_stack s', r_eip = info_entry s', r_edx = 0\<rparr> \<and>
      take 4 (xf_buf f) = [0x7f, 0x45, 0x4c, 0x46] \<and> elf_type_ok (ef_hdr (xf_elf f)) \<and>
      (\<exists>st. xf_stat f = Inr st \<and> st_mode st AND 0xf000 = 0x8000 \<and> st_mode st AND 0x49 \<noteq> 0)
    \<or> r < 0 \<and> regs = None \<and> s' = s"
  using assms(1) load_elf_binary_result [of x map_file "xf_elf f" filename envp argv "33 * 4096 - 4" s] assms(2)
  by (auto simp: loader_exec_def prepare_binprm_def init_thread_def Let_def split: if_splits sum.splits)

text \<open>An executable file for another machine.\<close>

definition demo_file :: exec_file where
  "demo_file = \<lparr>xf_open = 3, xf_stat = Inr \<lparr>st_mode = 0x81ed, st_uid = 0, st_gid = 0\<rparr>, xf_read = 128, xf_buf = [0x7f, 0x45, 0x4c, 0x46, 1],
     xf_elf = \<lparr>ef_hdr = demo_elf\<lparr>e_machine := 8\<rparr>, ef_table_malloc = True, ef_phdrs = Some demo_phdrs, ef_interp = (\<lambda>_. undefined), ef_fd = 3\<rparr>\<rparr>"

definition demo_env :: exec_env where
  "demo_env = \<lparr>x_malloc = (\<lambda>_. True), have_guest_base = False, guest_stack_size = 0x800000, x_ids = demo_ids\<rparr>"

theorem loader_exec_outcome_witness:
  "loader_exec demo_env (\<lambda>_ _ _ _ m. m) demo_file [0x61] [[0x61]] [] demo_loader = Inr (- 8, None, demo_loader) \<and> (- 8 :: int) < 0"
proof -
  have r: "loader_exec demo_env (\<lambda>_ _ _ _ m. m) demo_file [0x61] [[0x61]] [] demo_loader = Inr (- 8, None, demo_loader)"
    by (simp add: loader_exec_def prepare_binprm_def demo_file_def demo_env_def load_elf_binary_def elf_type_ok_def elf_check_arch_def demo_elf_def)
  show ?thesis using loader_exec_outcome [OF r] r by (simp add: demo_file_def)
qed

end
