(* ===== verification/Start_Up.thy ===== *)
theory Start_Up
  imports Exec_Loop Load_Elf_Maps
begin

text \<open>
  From the loader to the first block of the program: what \<^verbatim>\<open>main\<close> does with the registers that \<^verbatim>\<open>loader_exec\<close> has set
  (\<^verbatim>\<open>src/linux-user/main.c\<close>), the start of \<^verbatim>\<open>cpu_loop\<close>, and the first round of \<^verbatim>\<open>cpu_exec\<close>.  The components meet here:
  the loader computes where the program starts, the start-up code and the block for that address are set up, the
  block is translated, and the prologue enters it.
\<close>

unbundle bit_operations_syntax

section \<open>The end of main\<close>

text \<open>
  The registers: \<^verbatim>\<open>main\<close> has cleared the structure before the call of the loader, which sets three of them.  The base of
  the code segment in \<^verbatim>\<open>env\<close> is set to 0 too; no code that runs reads it.
\<close>

definition start_registers :: "layout \<Rightarrow> pt_regs \<Rightarrow> memory \<Rightarrow> memory" where
  "start_registers L regs m =
     st32 (fold (\<lambda>(r, v) m. st32 m (reg_addr L r) v)
       [(EAX, 0), (EBX, 0), (ECX, 0), (EDX, r_edx regs), (ESI, 0), (EDI, 0), (EBP, 0), (ESP, r_esp regs)] m)
     (a_eip L) (r_eip regs)"

text \<open>Two flat segments in a table of descriptors, at the address that \<^verbatim>\<open>target_mmap\<close> gave for it.\<close>

definition write_dt :: "u32 \<Rightarrow> u32 \<Rightarrow> u32 \<Rightarrow> u32 \<Rightarrow> memory \<Rightarrow> memory" where
  "write_dt p addr limit flags m =
     (let e1 = push_bit 16 addr OR (limit AND 0xffff);
          e2 = (drop_bit 16 addr AND 0xff) OR (addr AND 0xff000000) OR (limit AND 0x000f0000) OR flags
      in st32 (st32 m p e1) (p + 4) e2)"

definition setup_gdt :: "u32 \<Rightarrow> memory \<Rightarrow> memory" where
  "setup_gdt gdt m =
     (let flags = push_bit 23 1 OR push_bit 22 1 OR push_bit 15 1 OR push_bit 12 1 OR push_bit 13 3;
          m = write_dt (gdt + 8 * 4) 0 0xfffff (flags OR push_bit 8 0xa) m
      in write_dt (gdt + 8 * 5) 0 0xfffff (flags OR push_bit 8 0x2) m)"

definition start_program :: "layout \<Rightarrow> u32 \<Rightarrow> pt_regs \<Rightarrow> trans_state \<Rightarrow> trans_state outcome" where
  "start_program L gdt regs s =
     codecache_prologue_init L
       (s\<lparr>tb_phys_hash := (\<lambda>_. None), mem := setup_gdt gdt (start_registers L regs (mem s))\<rparr>)"

section \<open>What is in env then\<close>

lemma reg_offset: "reg_addr L r = l_env L + of_nat (4 * unat r)"
  by (simp add: reg_addr_def a_regs_def)

lemma reg_offset_less: "(r :: u8) < 8 \<Longrightarrow> 4 * unat r + 4 \<le> 32"
  by (simp add: word_less_nat_alt)

lemma reg_apart:
  assumes "r < 8" "r' < 8" "r \<noteq> r'"
  shows "region (reg_addr L r) 4 \<inter> region (reg_addr L r') 4 = {}"
proof -
  have u: "4 * unat r + 4 \<le> 4 * unat r' \<or> 4 * unat r' + 4 \<le> 4 * unat r"
    using assms(3) by (auto simp: word_unat_eq_iff)
  then show ?thesis
    unfolding reg_offset
    using region_apart [of "4 * unat r" 4 "4 * unat r'" 4 "l_env L"] region_apart [of "4 * unat r'" 4 "4 * unat r" 4 "l_env L"]
      reg_offset_less [OF assms(1)] reg_offset_less [OF assms(2)] by (auto simp del: of_nat_mult)
qed

lemma stored_registers:
  assumes "distinct (map fst rvs)" "\<forall>(r, v)\<in>set rvs. r < 8" "r < 8"
  shows "ld32 (fold (\<lambda>(r, v) m. st32 m (reg_addr L r) v) rvs m) (reg_addr L r) =
     (case map_of rvs r of None \<Rightarrow> ld32 m (reg_addr L r) | Some v \<Rightarrow> v)"
  using assms(1,2)
proof (induction rvs arbitrary: m)
  case (Cons p rvs)
  obtain q v where p: "p = (q, v)" by (cases p)
  have q: "q < 8" "map_of rvs q = None" using Cons.prems p by (auto simp: map_of_eq_None_iff)
  show ?case
  proof (cases "q = r")
    case True
    with Cons q p show ?thesis by (simp add: ld32_st32)
  next
    case False
    with Cons q p assms(3) reg_apart [of r q L] show ?thesis by (simp add: ld32_st32_other split: option.split)
  qed
qed simp

lemma stored_frame:
  assumes "\<forall>(r, v)\<in>set rvs. r < 8" "a \<notin> region (l_env L) 32"
  shows "fold (\<lambda>(r, v) m. st32 m (reg_addr L r) v) rvs m a = m a"
  using assms(1)
proof (induction rvs arbitrary: m)
  case (Cons p rvs)
  obtain q v where p: "p = (q, v)" by (cases p)
  with Cons have "a \<notin> region (reg_addr L q) 4" using reg_addr_env [of q L] assms(2) by auto
  with Cons p show ?case by (simp add: st32_frame)
qed simp

definition start_value :: "pt_regs \<Rightarrow> u8 \<Rightarrow> u32" where
  "start_value regs r = (if r = EDX then r_edx regs else if r = ESP then r_esp regs else 0)"

lemma start_registers_frame:
  assumes "a \<notin> region (l_env L) 36"
  shows "start_registers L regs m a = m a"
proof -
  let ?rvs = "[(EAX, 0), (EBX, 0), (ECX, 0), (EDX, r_edx regs), (ESI, 0), (EDI, 0), (EBP, 0), (ESP, r_esp regs)]"
  have "region (l_env L) 32 \<subseteq> region (l_env L) 36" "region (a_eip L) 4 \<subseteq> region (l_env L) 36"
    using region_mono [of 32 36 "l_env L"] region_shift [of "l_env L" 32 4] by (simp_all add: a_eip_def)
  with assms have "a \<notin> region (l_env L) 32" "a \<notin> region (a_eip L) 4" by auto
  then show ?thesis using stored_frame [of ?rvs a L m] by (simp add: start_registers_def st32_frame)
qed

lemma start_registers_mem:
  shows "r < 8 \<Longrightarrow> ld32 (start_registers L regs m) (reg_addr L r) = start_value regs r"
    and "ld32 (start_registers L regs m) (a_eip L) = r_eip regs"
    and "region a 4 \<inter> region (l_env L) 36 = {} \<Longrightarrow> ld32 (start_registers L regs m) a = ld32 m a"
proof -
  let ?rvs = "[(EAX, 0), (EBX, 0), (ECX, 0), (EDX, r_edx regs), (ESI, 0), (EDI, 0), (EBP, 0), (ESP, r_esp regs)]"
  have eip: "region (l_env L) 32 \<inter> region (a_eip L) 4 = {}"
    using region_apart [of 0 32 32 4 "l_env L"] by (simp add: a_eip_def)
  show "ld32 (start_registers L regs m) (reg_addr L r) = start_value regs r" if "r < 8"
  proof -
    have "region (reg_addr L r) 4 \<inter> region (a_eip L) 4 = {}" using eip reg_addr_env [OF that, of L] by blast
    then have "ld32 (start_registers L regs m) (reg_addr L r) = (case map_of ?rvs r of None \<Rightarrow> ld32 m (reg_addr L r) | Some v \<Rightarrow> v)"
      using stored_registers [of ?rvs r L m] that by (simp add: start_registers_def ld32_st32_other)
    moreover have "r \<in> {0, 1, 2, 3, 4, 5, 6, 7}"
      using that all_regs_set [of r] by auto
    ultimately show ?thesis by (auto simp: start_value_def)
  qed
  show "ld32 (start_registers L regs m) (a_eip L) = r_eip regs" by (simp add: start_registers_def ld32_st32)
  show "ld32 (start_registers L regs m) a = ld32 m a" if "region a 4 \<inter> region (l_env L) 36 = {}"
    using that by (intro ld32_cong start_registers_frame) auto
qed

lemma setup_gdt_frame:
  assumes "a \<notin> region gdt 48"
  shows "setup_gdt gdt m a = m a"
proof -
  have "a \<notin> region (gdt + of_nat k) 4" if "k + 4 \<le> 48" for k
    using assms region_shift [of gdt k 4] region_mono [OF that, of gdt] by auto
  from this [of 32] this [of 36] this [of 40] this [of 44] show ?thesis
    by (simp add: setup_gdt_def write_dt_def Let_def st32_frame add.assoc)
qed

text \<open>In \<^verbatim>\<open>env\<close>, outside its two tables, the start-up code changes the stack pointer only.\<close>

lemma init_mem_at:
  assumes "good_layout L" "a \<in> region (l_env L) env_size"
    and "a \<notin> region (a_ret_hash_table L) (4 * 65536)" "a \<notin> region (a_sieve_hashtable L) table_size"
  shows "init_mem L m a = st32 m (reg_addr L ESP) (ld32 m (reg_addr L ESP) - 4) a"
proof -
  have p: "a \<notin> region (l_prologue L + of_nat k) n" if "k + n \<le> 2048" for k n
    using assms(1,2) region_shift [of "l_prologue L" k n] region_mono [OF that, of "l_prologue L"] by (auto simp: good_layout_def)
  have v: "a \<notin> region (l_sieve_buffer L) 16"
    using assms(1,2) region_mono [of 16 sieve_size "l_sieve_buffer L"] by (auto simp: good_layout_def)
  show ?thesis
    using p [of 0 65] p [of 65 66] p [of 256 22] p [of 512 6] v assms(3,4)
    by (simp add: init_mem_def Let_def ret_fill_frame sv_fill_frame write_bytes_frame exit_bytes_length sieve_jump_def del: write_bytes.simps)
qed

lemma init_mem_word:
  assumes "good_layout L" "k + 4 \<le> 72 \<or> k = 1840212"
  shows "ld32 (init_mem L m) (l_env L + of_nat k) = ld32 (st32 m (reg_addr L ESP) (ld32 m (reg_addr L ESP) - 4)) (l_env L + of_nat k)"
proof (rule ld32_cong, rule init_mem_at [OF assms(1)])
  fix a assume a: "a \<in> region (l_env L + of_nat k) 4"
  show "a \<in> region (l_env L) env_size" using a env_field [of k L] assms(2) by auto
  show "a \<notin> region (a_ret_hash_table L) (4 * 65536)"
    using a assms(2) region_apart [of k 4 72 "4 * 65536" "l_env L"] region_apart [of 72 "4 * 65536" k 4 "l_env L"]
    by (auto simp: a_ret_hash_table_def)
  show "a \<notin> region (a_sieve_hashtable L) table_size"
    using a assms(2) region_apart [of k 4 267344 table_size "l_env L"] region_apart [of 267344 table_size k 4 "l_env L"]
    by (auto simp: a_sieve_hashtable_def)
qed

text \<open>What the first round finds in \<^verbatim>\<open>env\<close>.\<close>

definition ready_to_run :: "layout \<Rightarrow> pt_regs \<Rightarrow> memory \<Rightarrow> bool" where
  "ready_to_run L regs m \<longleftrightarrow> ld32 m (a_eip L) = r_eip regs \<and> ld32 m (a_ind_type L) = NOT_IND \<and>
     (\<forall>r<8. ld32 m (reg_addr L r) = (if r = ESP then r_esp regs - 4 else start_value regs r))"

lemma start_memory:
  assumes "good_layout L" "region gdt 48 \<inter> region (l_env L) env_size = {}" "ld32 m (a_ind_type L) = NOT_IND"
  shows "ready_to_run L regs (init_mem L (setup_gdt gdt (start_registers L regs m)))"
proof -
  let ?start = "start_registers L regs m" and ?m = "setup_gdt gdt (start_registers L regs m)"
  have gdt: "ld32 ?m (l_env L + of_nat k) = ld32 ?start (l_env L + of_nat k)" if "k + 4 \<le> env_size" for k
    using env_field [OF that, of L] assms(2) by (intro ld32_cong setup_gdt_frame) auto
  have regs: "ld32 ?m (reg_addr L r) = start_value regs r" if "r < 8" for r
  proof -
    have "4 * unat r + 4 \<le> env_size" using reg_offset_less [OF that] by linarith
    then have "ld32 ?m (reg_addr L r) = ld32 ?start (reg_addr L r)" unfolding reg_offset by (rule gdt)
    then show ?thesis using start_registers_mem(1) [OF that, of L regs m] by (rule trans)
  qed
  have far: "region (a_ind_type L) 4 \<inter> region (l_env L) 36 = {}"
    using region_apart [of 0 36 1840212 4 "l_env L"] by (auto simp: a_ind_type_def)
  have other: "ld32 (init_mem L ?m) (l_env L + of_nat k) = ld32 ?start (l_env L + of_nat k)"
    if "20 \<le> k \<and> k + 4 \<le> 72 \<or> k = 1840212" for k
  proof -
    have "region (l_env L + of_nat k) 4 \<inter> region (reg_addr L ESP) 4 = {}"
      using region_apart [of 16 4 k 4 "l_env L"] that by (auto simp: reg_addr_def a_regs_def)
    then show ?thesis
      using init_mem_word [OF assms(1), of k ?m] gdt [of k] that by (auto simp: ld32_st32_other)
  qed
  have "ld32 (init_mem L ?m) (a_eip L) = r_eip regs"
    using other [of 32] start_registers_mem(2) [of L regs m] by (simp add: a_eip_def)
  moreover have "ld32 (init_mem L ?m) (a_ind_type L) = NOT_IND"
    using other [of 1840212] start_registers_mem(3) [OF far, of regs m] assms(3) by (simp add: a_ind_type_def)
  moreover have "ld32 (init_mem L ?m) (reg_addr L r) = (if r = ESP then r_esp regs - 4 else start_value regs r)" if "r < 8" for r
  proof -
    have "ld32 (init_mem L ?m) (reg_addr L r) = ld32 (st32 ?m (reg_addr L ESP) (ld32 ?m (reg_addr L ESP) - 4)) (reg_addr L r)"
    proof -
      have "4 * unat r + 4 \<le> 72" using reg_offset_less [OF that] by linarith
      then show ?thesis using init_mem_word [OF assms(1), of "4 * unat r" ?m] by (simp only: reg_offset simp_thms)
    qed
    then show ?thesis
      using regs [OF that] regs [of ESP] reg_apart [OF that, of ESP L]
      by (cases "r = ESP") (simp_all add: ld32_st32 ld32_st32_other start_value_def)
  qed
  ultimately show ?thesis by (simp add: ready_to_run_def)
qed

section \<open>The first round\<close>

text \<open>The translator before the program runs: no block, an empty buffer, nothing noted in \<^verbatim>\<open>env\<close>.\<close>

definition before_start :: "layout \<Rightarrow> trans_state \<Rightarrow> bool" where
  "before_start L s \<longleftrightarrow> nb_tbs s = 0 \<and> (\<forall>h. tb_jmp_cache s h = None) \<and> (\<forall>i. tb_shape (tbs s i)) \<and>
     code_gen_ptr s = code_gen_buffer s \<and> ld32 (mem s) (a_ind_type L) = NOT_IND"

lemma cache_init_block:
  assumes "codecache_prologue_init L s = Inr s'"
  obtains s1 pc where "make_tb pc pc s1 = Inr (nb_tbs s, s')" "nb_tbs s1 = nb_tbs s" "tbs s1 = tbs s"
    "tb_phys_hash s1 = tb_phys_hash s" "tb_jmp_cache s1 = tb_jmp_cache s" "code_gen_buffer s1 = code_gen_buffer s"
    "code_gen_ptr s1 = code_gen_ptr s"
proof -
  from assms obtain s1 i pc where s1: "make_tb pc pc s1 = Inr (i, s')" "nb_tbs s1 = nb_tbs s" "tbs s1 = tbs s"
    "tb_phys_hash s1 = tb_phys_hash s" "tb_jmp_cache s1 = tb_jmp_cache s" "code_gen_buffer s1 = code_gen_buffer s"
    "code_gen_ptr s1 = code_gen_ptr s"
    unfolding codecache_prologue_init_def sieve_init_def sv_table_init_def
      ret_cache_proc_init_def cemit_exit_tb_bytes cemit_sieve_bytes
    by (auto simp: Let_def emit_def semit_def poke32_def clear_cgc_def simp del: write_bytes.simps)
  with make_tb_new(1) [OF s1(1)] show ?thesis using that by simp
qed

lemma start_state:
  assumes "good_layout L" "code_apart L s" "before_start L s" "region gdt 48 \<inter> region (l_env L) env_size = {}"
    and "start_program L gdt regs s = Inr s1"
  shows "exec_inv L (empty_sieve L) s1" "ready_to_run L regs (mem s1)"
proof -
  let ?m = "setup_gdt gdt (start_registers L regs (mem s))"
  have init: "codecache_prologue_init L (s\<lparr>tb_phys_hash := (\<lambda>_. None), mem := ?m\<rparr>) = Inr s1"
    using assms(5) by (simp add: start_program_def)
  note im = codecache_prologue_init_mem [OF init]
  from init obtain s0 pc where s0: "make_tb pc pc s0 = Inr (0, s1)" "nb_tbs s0 = 0" "tbs s0 = tbs s" "tb_phys_hash s0 = (\<lambda>_. None)"
    "tb_jmp_cache s0 = tb_jmp_cache s" "code_gen_buffer s0 = code_gen_buffer s" "code_gen_ptr s0 = code_gen_ptr s"
    by (rule cache_init_block) (use assms(3) in \<open>simp add: before_start_def\<close>)
  have "tb_inv s0" using assms(3) s0(2-5) by (simp add: tb_inv_def bucket_def before_start_def)
  then have "tb_inv s1" using s0(1) by (rule make_tb_inv)
  then have "rest_inv s1" using make_tb_new(2,7) [OF s0(1)] by (simp add: rest_inv_def)
  moreover have "runtime_code L (mem s1)" "sieve_at L (empty_sieve L) s1"
    using im init_mem_runtime [OF assms(1), of ?m] by (simp_all add: sieve_at_def) (simp_all add: empty_sieve_def)
  moreover have "code_gen_buffer s1 = code_gen_buffer s" "code_gen_ptr s1 = code_gen_buffer s"
    using make_tb_new(9,10) [OF s0(1)] s0(6,7) assms(3) by (simp_all add: before_start_def)
  ultimately show "exec_inv L (empty_sieve L) s1" using assms(1,2) by (simp add: exec_inv_def code_apart_def)
  show "ready_to_run L regs (mem s1)"
    using start_memory [OF assms(1,4), of "mem s" regs] assms(3) im by (simp add: before_start_def)
qed

text \<open>A round that starts with no block and no indirect branch only looks up, translates and enters.\<close>

lemma first_round:
  assumes inv: "exec_inv L c s" and room: "sv_used c + 8960 \<le> sieve_size"
    and guest: "guest_code (code_gen_ptr s) (mem s) (ld32 (mem s) (a_eip L))" and ind: "ld32 (mem s) (a_ind_type L) = NOT_IND"
  shows "round_sat (cpu_exec_enter L ds 0 s) (\<lambda>(tb, s'). tb_pc (tbs s' tb) = ld32 (mem s) (a_eip L) \<and> runtime_code L (mem s') \<and>
     ld32 (mem s') (a_target_tc L) = tc_ptr (tbs s' tb) \<and> (\<forall>r<8. ld32 (mem s') (reg_addr L r) = ld32 (mem s) (reg_addr L r)))"
  unfolding cpu_exec_enter_def
proof (rule round_sat_and_then [OF get_next_sat [OF inv guest room]], clarify)
  fix tb s1 k
  assume f: "found L s tb s1" and pc: "tb_pc (tbs s1 tb) = ld32 (mem s) (a_eip L)" and k: "k \<le> 8960"
    and inv1: "exec_inv L (c\<lparr>sv_used := sv_used c + k\<rparr>) s1"
  have env: "ld32 (mem s1) (l_env L + of_nat n) = ld32 (mem s) (l_env L + of_nat n)" if "n + 4 \<le> env_size" for n
    using f env_field [OF that, of L] by (intro ld32_cong) (auto simp: found_def)
  have n: "note_indirect L 0 tb s1 = Inr (0, s1)" and l: "link_previous L 0 tb s1 = Inr s1"
    using env [of 1840212] ind by (simp_all add: note_indirect_def link_previous_def a_ind_type_def)
  have r: "sv_used (c\<lparr>sv_used := sv_used c + k\<rparr>) \<le> sieve_size" using room k by simp
  note e = set_entry_ok [OF inv1 r, where tb = tb]
  have regs: "ld32 (mem (set_entry L tb s1)) (reg_addr L r) = ld32 (mem s) (reg_addr L r)" if "r < 8" for r
  proof -
    have "4 * unat r + 4 \<le> 44" "4 * unat r + 4 \<le> 56" "4 * unat r + 4 \<le> 1840212" "4 * unat r + 4 \<le> env_size"
      using reg_offset_less [OF that] by linarith+
    from env_field_apart [OF this(1), of L] env_field_apart [OF this(2), of L] env_field_apart [OF this(3), of L] env [OF this(4)]
    show ?thesis
      by (simp add: reg_offset set_entry_def Let_def poke32_def a_target_tc_def a_ret_tb_def a_ind_type_def ld32_st32_other del: of_nat_mult)
  qed
  have "tb_pc (tbs (set_entry L tb s1) tb) = ld32 (mem s) (a_eip L)" using e(2) pc by (simp add: settled_def)
  moreover have "runtime_code L (mem (set_entry L tb s1))" using e(1) by (simp add: exec_inv_def)
  moreover have "ld32 (mem (set_entry L tb s1)) (a_target_tc L) = tc_ptr (tbs (set_entry L tb s1) tb)"
    using e(3) by (simp add: entered_def)
  ultimately show "round_sat (and_then (note_indirect L 0 tb s1) (\<lambda>(prev_tb, s). and_then (link_previous L prev_tb tb s) (\<lambda>s. Inr (tb, set_entry L tb s))))
     (\<lambda>(tb, s'). tb_pc (tbs s' tb) = ld32 (mem s) (a_eip L) \<and> runtime_code L (mem s') \<and>
     ld32 (mem s') (a_target_tc L) = tc_ptr (tbs s' tb) \<and> (\<forall>r<8. ld32 (mem s') (reg_addr L r) = ld32 (mem s) (reg_addr L r)))"
    using regs by (simp add: n l)
qed

section \<open>The program is entered\<close>

text \<open>
  C1: The program starts where the loader said.  After the loader, \<^verbatim>\<open>main\<close> and the start of \<^verbatim>\<open>cpu_loop\<close>, the first round of
  \<^verbatim>\<open>cpu_exec\<close> ends early for one of the reasons of \<open>exec_errors\<close> (six refusals, and the crash at an instruction without an
  emit function), or it finds the block of the entry point, translates it and notes
  its code in \<^verbatim>\<open>env\<close>; calling the prologue then runs to that code, with the loader's stack pointer in \<^verbatim>\<open>%esp\<close> and 0 in
  all other registers of the program.  Its flags are the word below its stack, where the start-up code has moved the
  stack pointer for the prologue to pop them from.
\<close>

theorem main_enters_program:
  assumes "good_layout L" "code_apart L s" "before_start L s" "region gdt 48 \<inter> region (l_env L) env_size = {}"
    and "start_program L gdt (init_thread ls) s = Inr s1" "guest_code (code_gen_ptr s1) (mem s1) (info_entry ls)"
    and "host_stack L (g ESP)" "region (start_stack ls - 4) 4 \<inter> region (g ESP - 16) 20 = {}"
      "region (start_stack ls - 4) 4 \<inter> region (l_env L) env_size = {}"
  shows "case cpu_exec_enter L ds (lp_prev (cpu_exec_start s1)) (lp_state (cpu_exec_start s1)) of
      Inl e \<Rightarrow> e \<in> exec_errors
    | Inr (tb, s2) \<Rightarrow> tb_pc (tbs s2 tb) = info_entry ls \<and>
        runs \<lparr>h_eip = l_prologue L, h_reg = g, h_flags = f, h_mem = mem s2\<rparr>
          \<lparr>h_eip = tc_ptr (tbs s2 tb), h_reg = (\<lambda>r. if r < 8 then 0 else g r)(ESP := start_stack ls),
           h_flags = ld32 (mem s2) (start_stack ls - 4), h_mem = entry_mem L g (mem s2)\<rparr>"
proof -
  note st = start_state [OF assms(1-5)]
  have ready: "ld32 (mem s1) (a_eip L) = info_entry ls" "ld32 (mem s1) (a_ind_type L) = NOT_IND"
    "r < 8 \<Longrightarrow> ld32 (mem s1) (reg_addr L r) = (if r = ESP then start_stack ls - 4 else 0)" for r
    using st(2) by (simp_all add: ready_to_run_def init_thread_def start_value_def)
  have room: "sv_used (empty_sieve L) + 8960 \<le> sieve_size" by (simp add: empty_sieve_def)
  have enter: "round_sat (cpu_exec_enter L ds 0 s1) (\<lambda>(tb, s'). tb_pc (tbs s' tb) = info_entry ls \<and> runtime_code L (mem s') \<and>
     ld32 (mem s') (a_target_tc L) = tc_ptr (tbs s' tb) \<and> (\<forall>r<8. ld32 (mem s') (reg_addr L r) = ld32 (mem s1) (reg_addr L r)))"
    using first_round [OF st(1) room _ ready(2)] assms(6) by (simp add: ready(1))
  have run: "runs \<lparr>h_eip = l_prologue L, h_reg = g, h_flags = f, h_mem = m\<rparr>
      \<lparr>h_eip = ld32 m (a_target_tc L), h_reg = (\<lambda>r. if r < 8 then 0 else g r)(ESP := start_stack ls),
       h_flags = ld32 m (start_stack ls - 4), h_mem = entry_mem L g m\<rparr>"
    if m: "runtime_code L m" "\<forall>r<8. ld32 m (reg_addr L r) = ld32 (mem s1) (reg_addr L r)" for m
  proof -
    have sp: "ld32 m (reg_addr L ESP) = start_stack ls - 4" using m(2) ready(3) [of ESP] by simp
    have "(guest_regs L m g)(ESP := start_stack ls) = (\<lambda>r. if r < 8 then 0 else g r)(ESP := start_stack ls)"
      using m(2) ready(3) by (auto simp: guest_regs_def fun_eq_iff)
    with prologue_to_guest [where g = g, OF m(1) assms(1,7) sp assms(8,9)] show ?thesis by simp
  qed
  show ?thesis
  proof (cases "cpu_exec_enter L ds 0 s1")
    case (Inr p)
    then obtain tb s2 where p: "p = (tb, s2)" by (cases p)
    with enter Inr have e: "tb_pc (tbs s2 tb) = info_entry ls" "runtime_code L (mem s2)"
      "ld32 (mem s2) (a_target_tc L) = tc_ptr (tbs s2 tb)" "\<forall>r<8. ld32 (mem s2) (reg_addr L r) = ld32 (mem s1) (reg_addr L r)"
      by auto
    with run [OF e(2,4)] Inr p show ?thesis by (simp add: cpu_exec_start_def del: fun_upd_apply)
  qed (use enter in \<open>simp add: cpu_exec_start_def\<close>)
qed

text \<open>A program that loops at its entry point.\<close>

definition demo_before :: trans_state where
  "demo_before = (demo_state demo_guest)\<lparr>tbs := (\<lambda>_. blank_tb), nb_tbs := 0, tb_jmp_cache := (\<lambda>_. None)\<rparr>"

definition demo_image :: loader_state where
  "demo_image = demo_loader\<lparr>start_stack := 0x7fff0000, info_entry := 0x8048000\<rparr>"

lemma demo_before_start: "before_start demo_L demo_before" "code_apart demo_L demo_before"
proof -
  have "ld32 demo_guest (a_ind_type demo_L) = 0"
    by (simp add: ld32_def demo_guest_def a_ind_type_def demo_L_def)
  then show "before_start demo_L demo_before"
    by (simp add: before_start_def demo_before_def demo_state_def blank_tb_def tb_shape_def)
  show "code_apart demo_L demo_before" using demo_exec_inv by (simp add: exec_inv_def code_apart_def demo_before_def demo_state_def)
qed

lemma demo_gdt: "region 0x50000000 48 \<inter> region (l_env demo_L) env_size = {}"
  using region_apart [of 0 env_size "0x30000000" 48 "0x20000000"] by (simp add: demo_L_def Int_commute)

lemma demo_started: "\<exists>s1. start_program demo_L 0x50000000 regs demo_before = Inr s1"
  unfolding start_program_def codecache_prologue_init_def sieve_init_def sv_table_init_def ret_cache_proc_init_def
    cemit_exit_tb_bytes cemit_sieve_bytes
  by (simp add: Let_def emit_def semit_def poke32_def clear_cgc_def make_tb_def tb_alloc_def demo_before_def demo_state_def
    code_gen_max_blocks_def code_gen_buffer_max_size_def del: write_bytes.simps)

lemma demo_guest_code:
  assumes "start_program demo_L 0x50000000 regs demo_before = Inr s1"
  shows "guest_code (code_gen_ptr s1) (mem s1) 0x8048000"
proof -
  let ?start = "start_registers demo_L regs demo_guest"
  have init: "codecache_prologue_init demo_L (demo_before\<lparr>tb_phys_hash := (\<lambda>_. None), mem := setup_gdt 0x50000000 ?start\<rparr>) = Inr s1"
    using assms by (simp add: start_program_def demo_before_def demo_state_def)
  have m: "mem s1 = init_mem demo_L (setup_gdt 0x50000000 ?start)" using codecache_prologue_init_mem [OF init] by simp
  obtain s0 pc where "make_tb pc pc s0 = Inr (nb_tbs demo_before, s1)" "code_gen_ptr s0 = 0x9000000"
    by (rule cache_init_block [OF init]) (simp add: demo_before_def demo_state_def)
  then have c: "code_gen_ptr s1 = 0x9000000" using make_tb_new(10) by metis
  have far: "0x8048000 + of_nat q \<notin> region (c :: u32) n" if "q < 1000000" "0x8200000 \<le> c" "c \<le> 0xc0000000" "n \<le> 0x10000000" for c q n
  proof (rule region_far)
    have "unat ((0x8048000 :: u32) - c) = unat ((0x8048000 :: u32) - 0) + 2 ^ 32 - unat c"
      using that(2,3) by (simp add: unat_sub_if' word_le_nat_alt)
    then show "unat ((0x8048000 :: u32) - c) + q < 2 ^ 32" "n \<le> unat ((0x8048000 :: u32) - c)"
      using that by (simp_all add: word_le_nat_alt)
  qed
  have "mem s1 (0x8048000 + of_nat q) = demo_guest (0x8048000 + of_nat q)" if "q < 1000000" for q
  proof -
    let ?a = "0x8048000 + of_nat q :: u32"
    have "mem s1 ?a = setup_gdt 0x50000000 ?start ?a"
      unfolding m by (rule init_mem_frame; rule far [OF that])
        (simp_all add: demo_L_def reg_addr_def a_regs_def a_ret_hash_table_def a_sieve_hashtable_def)
    also have "\<dots> = ?start ?a" by (rule setup_gdt_frame, rule far [OF that]) simp_all
    also have "\<dots> = demo_guest ?a" by (rule start_registers_frame, rule far [OF that]) (simp_all add: demo_L_def)
    finally show ?thesis .
  qed
  then have "\<not> is_prefix_byte (mem s1 (0x8048000 + of_nat q))" "0x8048000 + of_nat q \<notin> region 0x9000000 code_max" if "q < 1000000" for q
    using that demo_guest_prefix demo_code_apart by auto
  then show ?thesis unfolding guest_code_def c by (intro allI impI exI [of _ 0]) simp
qed

theorem main_enters_program_witness:
  "\<exists>s1. start_program demo_L 0x50000000 (init_thread demo_image) demo_before = Inr s1 \<and>
     (case cpu_exec_enter demo_L blank_ds 0 s1 of Inl e \<Rightarrow> e \<in> exec_errors | Inr (tb, s2) \<Rightarrow> tb_pc (tbs s2 tb) = 0x8048000)"
proof -
  obtain s1 where s1: "start_program demo_L 0x50000000 (init_thread demo_image) demo_before = Inr s1" using demo_started by blast
  have sp: "region (start_stack demo_image - 4) 4 \<inter> region (0xbf000000 - 16) 20 = {}"
      "region (start_stack demo_image - 4) 4 \<inter> region (l_env demo_L) env_size = {}"
    using region_apart [of 0 4 "0x3f00fff4" 20 "0x7ffefffc"] region_apart [of 0 env_size "0x5ffefffc" 4 "0x20000000"]
    by (simp_all add: demo_image_def demo_L_def Int_commute)
  have "guest_code (code_gen_ptr s1) (mem s1) (info_entry demo_image)" using demo_guest_code [OF s1] by (simp add: demo_image_def)
  from main_enters_program [OF demo_layout demo_before_start(2,1) demo_gdt s1 this, where g = "\<lambda>_. 0xbf000000" and ds = blank_ds] demo_stack sp s1
  show ?thesis by (auto simp: cpu_exec_start_def demo_image_def split: sum.splits)
qed

end
