(* ===== verification/Inline_Cache.thy ===== *)
theory Inline_Cache
  imports Exec_Loop
begin

text \<open>
  The inline cache of an indirect branch (\<^verbatim>\<open>cemit_ind_opt\<close> of \<^verbatim>\<open>src/target-i386/translate.c\<close>, filled by
  \<^verbatim>\<open>patch_ind_opt\<close> and \<^verbatim>\<open>patch_jmp_target\<close> of \<^verbatim>\<open>src/cpu-exec.c\<close>) and the dispatch of an indirect branch:
  the code that the emitter leaves is a lookup in three slots and then, once they are full, in the sieve.
  The cache, like the sieve, is an instance of the interface \<open>dispatcher\<close>; \<open>dispatcher_chain\<close> puts one in
  front of another.
\<close>

section \<open>The code of an inline cache\<close>

text \<open>
  The probes and hit paths of \<^verbatim>\<open>cemit_ind_opt\<close>, behind its push of \<^verbatim>\<open>%ecx\<close>: three probes of twelve
  bytes, 32 bytes of exit code, three hit paths of ten bytes.
\<close>

record inline_cache =
  ic_at :: u32
  ic_src :: "nat \<Rightarrow> u32"
  ic_dest :: "nat \<Rightarrow> u32"

definition probe_addr :: "inline_cache \<Rightarrow> nat \<Rightarrow> u32" where
  "probe_addr c i = ic_at c + of_nat (12 * i)"

definition hit_addr :: "inline_cache \<Rightarrow> nat \<Rightarrow> u32" where
  "hit_addr c i = ic_at c + of_nat (68 + 10 * i)"

definition ic_out :: "inline_cache \<Rightarrow> u32" where
  "ic_out c = ic_at c + 36"

definition probe_bytes :: "u32 \<Rightarrow> nat \<Rightarrow> u8 list" where
  "probe_bytes src i = [0x8b, 0x4c, 0x24, 4] @ [0x8d, 0x89] @ bytes32 (- src) @ [0xe3, of_nat (56 - 2 * i)]"

definition hit_bytes :: "u32 \<Rightarrow> u32 \<Rightarrow> u8 list" where
  "hit_bytes p dest = [0x59] @ [0x8d, 0x64, 0x24, 4] @ 0xe9 # bytes32 (dest - (p + 6) - 4)"

definition ic_valid :: "inline_cache \<Rightarrow> memory \<Rightarrow> bool" where
  "ic_valid c m \<longleftrightarrow> (\<forall>i<IND_SLOT_MAX. bytes_at m (probe_addr c i) (probe_bytes (ic_src c i) i) \<and>
     bytes_at m (hit_addr c i) (hit_bytes (hit_addr c i) (ic_dest c i)))"

text \<open>The slots are probed in order.\<close>

definition ic_target :: "inline_cache \<Rightarrow> u32 \<Rightarrow> u32 option" where
  "ic_target c t = map_of (map (\<lambda>i. (ic_src c i, ic_dest c i)) [0, 1, 2]) t"

section \<open>Running it\<close>

lemma probe_insns:
  assumes "ic_valid c m" "i < 3"
  shows "insns_at m (probe_addr c i) [(H_mov_load ECX (O_mem (Some ESP) None 4), 4),
     (H_lea ECX (O_mem (Some ECX) None (- ic_src c i)), 6), (H_jecxz (sext8 (of_nat (56 - 2 * i))), 2)]"
proof (rule insns_at_assembles)
  let ?b = "[[0x8b, 0x4c, 0x24, 4], [0x8d, 0x89] @ bytes32 (- ic_src c i), [0xe3, of_nat (56 - 2 * i)]]"
  show "bytes_at m (probe_addr c i) (concat ?b)" using assms by (simp add: ic_valid_def probe_bytes_def)
  show "assembles ?b [(H_mov_load ECX (O_mem (Some ESP) None 4), 4),
     (H_lea ECX (O_mem (Some ECX) None (- ic_src c i)), 6), (H_jecxz (sext8 (of_nat (56 - 2 * i))), 2)]"
    by (simp add: encodings)
qed

lemma hit_insns:
  assumes "ic_valid c m" "i < 3"
  shows "insns_at m (hit_addr c i) [(H_pop (O_reg ECX), 1), (H_lea ESP (O_mem (Some ESP) None 4), 4),
     (H_jmp (ic_dest c i - (hit_addr c i + 6) - 4), 5)]"
proof (rule insns_at_assembles)
  let ?b = "[[0x59], [0x8d, 0x64, 0x24, 4], 0xe9 # bytes32 (ic_dest c i - (hit_addr c i + 6) - 4)]"
  show "bytes_at m (hit_addr c i) (concat ?b)" using assms by (simp add: ic_valid_def hit_bytes_def)
  show "assembles ?b [(H_pop (O_reg ECX), 1), (H_lea ESP (O_mem (Some ESP) None 4), 4),
     (H_jmp (ic_dest c i - (hit_addr c i + 6) - 4), 5)]" by (simp add: encodings)
qed

lemma slot_cases: "i < (3 :: nat) \<Longrightarrow> (i = 0 \<Longrightarrow> P) \<Longrightarrow> (i = 1 \<Longrightarrow> P) \<Longrightarrow> (i = 2 \<Longrightarrow> P) \<Longrightarrow> P"
  by linarith

lemma probe_distance:
  assumes "i < 3"
  shows "probe_addr c i + 12 + sext8 (of_nat (56 - 2 * i)) = hit_addr c i"
  using assms by (rule slot_cases) (simp_all add: probe_addr_def hit_addr_def sext8_def add.assoc)

lemma hit_runs:
  assumes "ic_valid c m" "i < 3"
  shows "runs \<lparr>h_eip = hit_addr c i, h_reg = g, h_flags = f, h_mem = m\<rparr>
     \<lparr>h_eip = ic_dest c i, h_reg = g(ECX := ld32 m (g ESP), ESP := g ESP + 8), h_flags = f, h_mem = m\<rparr>"
  unfolding runs_def using hit_insns [OF assms]
  by (intro exI [of _ 3]) (simp add: run_simps add.commute [of "hit_addr c i"] add.commute [of "g 4"])

lemma probe_hit:
  assumes "ic_valid c m" "i < 3" "ld32 m (g ESP + 4) = ic_src c i"
  shows "runs \<lparr>h_eip = probe_addr c i, h_reg = g, h_flags = f, h_mem = m\<rparr>
     \<lparr>h_eip = ic_dest c i, h_reg = g(ECX := ld32 m (g ESP), ESP := g ESP + 8), h_flags = f, h_mem = m\<rparr>"
proof -
  have "hrun 3 \<lparr>h_eip = probe_addr c i, h_reg = g, h_flags = f, h_mem = m\<rparr> =
      Some \<lparr>h_eip = hit_addr c i, h_reg = g(ECX := 0), h_flags = f, h_mem = m\<rparr>"
    using probe_insns [OF assms(1,2)] assms(3) probe_distance [OF assms(2), of c]
    by (simp add: run_simps add.commute [of "probe_addr c i"] add.commute [of "g 4"])
  from runs_trans [OF runs_hrun [OF this] hit_runs [OF assms(1,2)]] show ?thesis by simp
qed

lemma probe_miss:
  assumes "ic_valid c m" "i < 3" "ld32 m (g ESP + 4) \<noteq> ic_src c i"
  shows "\<exists>v. runs \<lparr>h_eip = probe_addr c i, h_reg = g, h_flags = f, h_mem = m\<rparr>
     \<lparr>h_eip = probe_addr c (Suc i), h_reg = g(ECX := v), h_flags = f, h_mem = m\<rparr>"
proof -
  have "probe_addr c (Suc i) = 12 + probe_addr c i" by (simp add: probe_addr_def algebra_simps)
  then show ?thesis
    unfolding runs_def using probe_insns [OF assms(1,2)] assms(3)
    by (intro exI [of _ 3] exI [of _ "ld32 m (g ESP + 4) - ic_src c i"])
      (simp add: run_simps add.commute [of "probe_addr c i"] add.commute [of "g 4"])
qed

text \<open>Probing from slot \<open>i\<close> on.\<close>

lemma probes_run:
  assumes "ic_valid c m" "i \<le> 3"
  shows "case map_of (map (\<lambda>i. (ic_src c i, ic_dest c i)) [i..<3]) (ld32 m (g ESP + 4)) of
      Some tc \<Rightarrow> runs \<lparr>h_eip = probe_addr c i, h_reg = g, h_flags = f, h_mem = m\<rparr>
        \<lparr>h_eip = tc, h_reg = g(ECX := ld32 m (g ESP), ESP := g ESP + 8), h_flags = f, h_mem = m\<rparr>
    | None \<Rightarrow> \<exists>v. runs \<lparr>h_eip = probe_addr c i, h_reg = g, h_flags = f, h_mem = m\<rparr>
        \<lparr>h_eip = ic_out c, h_reg = g(ECX := v), h_flags = f, h_mem = m\<rparr>"
  using assms(2)
proof (induction "3 - i" arbitrary: i g)
  case 0
  then have "i = 3" by simp
  then show ?case by (auto simp: probe_addr_def ic_out_def intro!: exI [of _ "g ECX"])
next
  case (Suc n)
  then have i: "i < 3" and up: "[i..<3] = i # [Suc i..<3]" by (simp_all add: upt_conv_Cons)
  show ?case
  proof (cases "ld32 m (g ESP + 4) = ic_src c i")
    case True
    then show ?thesis using probe_hit [OF assms(1) i, of g f] by (simp add: up)
  next
    case False
    from probe_miss [OF assms(1) i, of g f] False obtain v where
      v: "runs \<lparr>h_eip = probe_addr c i, h_reg = g, h_flags = f, h_mem = m\<rparr>
        \<lparr>h_eip = probe_addr c (Suc i), h_reg = g(ECX := v), h_flags = f, h_mem = m\<rparr>" by blast
    have "n = 3 - Suc i" using Suc.hyps(2) by simp
    then show ?thesis
      using Suc.hyps(1) [of "Suc i" "g(ECX := v)"] i False runs_trans [OF v]
      by (fastforce simp: up split: option.splits)
  qed
qed

interpretation inline_code: dispatcher ic_valid ic_at ic_target ic_out
proof
  have up: "[0..<3] = [0, 1, 2 :: nat]" by (simp add: upt_rec)
  have p0: "probe_addr c 0 = ic_at c" for c by (simp add: probe_addr_def)
  fix c m f and g :: "u8 \<Rightarrow> u32"
  assume v: "ic_valid c m"
  note run = probes_run [OF v, of 0 g f, unfolded up p0, folded ic_target_def]
  show "runs \<lparr>h_eip = ic_at c, h_reg = g, h_flags = f, h_mem = m\<rparr>
       \<lparr>h_eip = tc, h_reg = g(ECX := ld32 m (g ESP), ESP := g ESP + 8), h_flags = f, h_mem = m\<rparr>"
    if "ic_target c (ld32 m (g ESP + 4)) = Some tc" for tc using run that by simp
  show "\<exists>v. runs \<lparr>h_eip = ic_at c, h_reg = g, h_flags = f, h_mem = m\<rparr>
       \<lparr>h_eip = ic_out c, h_reg = g(ECX := v), h_flags = f, h_mem = m\<rparr>"
    if "ic_target c (ld32 m (g ESP + 4)) = None" using run that by simp
qed

section \<open>Emitting it\<close>

lemma bytes_at_upd:
  assumes "bytes_at m q bs" "n < length bs" "length bs \<le> 2 ^ 32"
  shows "bytes_at (m(q + of_nat n := b)) q (bs[n := b])"
  using assms
proof (induction bs arbitrary: q n)
  case (Cons x xs)
  show ?case
  proof (cases n)
    case 0
    have "bytes_at (m(q := b)) (q + 1) xs"
    proof (rule bytes_at_frame)
      show "bytes_at m (q + 1) xs" using Cons.prems(1) by simp
      fix a assume "a \<in> region (q + 1) (length xs)"
      moreover have "q \<notin> region (q + 1) (length xs)"
        using Cons.prems(3) by (simp add: region_def unsigned_minus_1_eq_mask mask_eq_exp_minus_1)
      ultimately show "(m(q := b)) a = m a" by auto
    qed
    then show ?thesis using 0 by (simp add: fun_upd_same del: fun_upd_apply)
  next
    case (Suc k)
    have "q \<noteq> q + of_nat (Suc k)"
    proof
      assume "q = q + of_nat (Suc k)"
      then have "(of_nat (Suc k) :: u32) = 0" by (metis add_cancel_left_right)
      then have "unat (of_nat (Suc k) :: u32) = 0" by simp
      then show False using Cons.prems(2,3) Suc by (simp add: unat_of_nat_u32 del: of_nat_Suc)
    qed
    with Suc Cons.IH [of "q + 1" k] Cons.prems show ?thesis by (simp add: add.assoc fun_upd_other del: fun_upd_apply)
  qed
qed simp

lemma bytes_at_extend:
  assumes "bytes_at m q xs" "length xs + length ys \<le> 2 ^ 32 - 1"
  shows "bytes_at (write_bytes m (q + of_nat (length xs)) ys) q (xs @ ys)"
proof -
  have "region (q + of_nat 0) (length xs) \<inter> region (q + of_nat (length xs)) (length ys) = {}"
    using assms(2) by (intro region_apart) simp_all
  then have "bytes_at (write_bytes m (q + of_nat (length xs)) ys) q xs" using assms(1) by (subst bytes_at_write_other) simp_all
  moreover have "bytes_at (write_bytes m (q + of_nat (length xs)) ys) (q + of_nat (length xs)) ys"
    using assms(2) by (intro bytes_at_write_bytes) simp
  ultimately show ?thesis by simp
qed

text \<open>A cache just emitted: no slot is filled.\<close>

definition fresh_cache :: "u32 \<Rightarrow> inline_cache" where
  "fresh_cache p = \<lparr>ic_at = p, ic_src = (\<lambda>_. NEED_PATCH_32), ic_dest = (\<lambda>i. p + of_nat (68 + 10 * i) + 10 + NEED_PATCH_32)\<rparr>"

definition ic_slots :: "inline_cache \<Rightarrow> TranslationBlock \<Rightarrow> bool" where
  "ic_slots c t \<longleftrightarrow> jind_src_addr t = map (\<lambda>i. probe_addr c i + 6) [0, 1, 2] \<and>
     jind_dest_addr t = map (\<lambda>i. hit_addr c i + 6) [0, 1, 2] \<and> ind_enter_sieve t = ic_out c"

definition raw_probe :: "u8 list" where
  "raw_probe = [0x8b, 0x4c, 0x24, 4, 0x8d, 0x89] @ bytes32 (- NEED_PATCH_32) @ [0xe3, NEED_PATCH_8]"

lemma emit_upd: "emit bs (upd_tb i f s) = upd_tb i f (emit bs s)"
  by (simp add: emit_def upd_tb_def)

lemma ind_probe_mem:
  "ind_probe i s = (code_ptr s + 11, upd_tb (cur_tb s) (jind_src_addr_update (\<lambda>xs. xs[i := code_ptr s + 6])) (emit raw_probe s))"
  by (simp add: ind_probe_def Let_def raw_probe_def emit_upd emit_emit2 emit_code_ptr)

lemma ind_hit_mem:
  assumes "ind_hit i p s = Inr s'"
  shows "s' = upd_tb (cur_tb s) (jind_dest_addr_update (\<lambda>xs. xs[i := code_ptr s + 6]))
     (emit ([0x59, 0x8d, 0x64, 0x24, 4, 0xe9] @ bytes32 NEED_PATCH_32) (poke8 p (ucast (code_ptr s - p - 1)) s))"
  using assms by (simp add: ind_hit_def Let_def emit_upd emit_emit2 emit_code_ptr split: if_splits)

definition cache_bytes :: "layout \<Rightarrow> u32 \<Rightarrow> u32 \<Rightarrow> u32 \<Rightarrow> u32 \<Rightarrow> u8 list" where
  "cache_bytes L p r t e = concat (map (probe_bytes NEED_PATCH_32) [0, 1, 2]) @ exit_bytes L (p + 36) r t e @
     concat (map (\<lambda>i. [0x59, 0x8d, 0x64, 0x24, 4, 0xe9] @ bytes32 NEED_PATCH_32) [0, 1, 2 :: nat])"

lemma raw_probe_set: "raw_probe[11 := of_nat (56 - 2 * i)] = probe_bytes NEED_PATCH_32 i"
  using list_update_length [of "[0x8b, 0x4c, 0x24, 4, 0x8d, 0x89] @ bytes32 (- NEED_PATCH_32) @ [0xe3]" NEED_PATCH_8 "[]"]
  by (simp add: raw_probe_def probe_bytes_def)

lemma length_raw_probe [simp]: "length raw_probe = 12" "length (probe_bytes x i) = 12"
  by (simp_all add: raw_probe_def probe_bytes_def)

lemma list_update_Cons_numeral: "(x # xs)[numeral k := y] = x # xs[pred_numeral k := y]"
  by (simp add: numeral_eq_Suc)

lemma ind_hit_bytes:
  assumes "ind_hit i (q + of_nat n) s = Inr s'" "bytes_at (mem s) q bs" "code_ptr s = q + of_nat (length bs)"
    and "n < length bs" "length bs < 1000" "b = ucast (code_ptr s - (q + of_nat n) - 1)"
  shows "bytes_at (mem s') q (bs[n := b] @ [0x59, 0x8d, 0x64, 0x24, 4, 0xe9] @ bytes32 NEED_PATCH_32)"
    and "code_ptr s' = q + of_nat (length bs + 10)" "cur_tb s' = cur_tb s"
    and "tbs s' = (tbs s)(cur_tb s := jind_dest_addr_update (\<lambda>xs. xs[i := code_ptr s + 6]) (tbs s (cur_tb s)))"
proof -
  let ?h = "[0x59, 0x8d, 0x64, 0x24, 4, 0xe9] @ bytes32 NEED_PATCH_32 :: u8 list"
  note eq = ind_hit_mem [OF assms(1)]
  show "code_ptr s' = q + of_nat (length bs + 10)" "cur_tb s' = cur_tb s"
    "tbs s' = (tbs s)(cur_tb s := jind_dest_addr_update (\<lambda>xs. xs[i := code_ptr s + 6]) (tbs s (cur_tb s)))"
    using assms(3) by (simp_all add: eq emit_code_ptr)
  have "bytes_at ((mem s)(q + of_nat n := b)) q (bs[n := b])" using assms(2,4,5) by (intro bytes_at_upd) simp_all
  then have "bytes_at (write_bytes ((mem s)(q + of_nat n := b)) (q + of_nat (length (bs[n := b]))) ?h) q (bs[n := b] @ ?h)"
    using assms(5) by (intro bytes_at_extend) simp_all
  moreover have "mem s' = write_bytes ((mem s)(q + of_nat n := b)) (q + of_nat (length (bs[n := b]))) ?h"
    by (simp add: eq emit_def poke8_def assms(3,6) del: write_bytes.simps)
  ultimately show "bytes_at (mem s') q (bs[n := b] @ ?h)" by (simp only:)
qed

lemma cemit_ind_opt_code:
  assumes "cemit_ind_opt L t s = Inr s'" "tb_addr L (cur_tb s) \<noteq> - 1" "t \<noteq> - 1" "tb_shape (tbs s (cur_tb s))"
  shows "mem s' (code_ptr s) = 0x51"
    and "bytes_at (mem s') (code_ptr s + 1) (cache_bytes L (code_ptr s + 1) (tb_addr L (cur_tb s)) t (tb_ret_addr s))"
    and "ic_slots (fresh_cache (code_ptr s + 1)) (tbs s' (cur_tb s))" "cur_tb s' = cur_tb s"
    and "jmp_ind_index (tbs s' (cur_tb s)) = jmp_ind_index (tbs s (cur_tb s))"
proof -
  let ?q = "code_ptr s" and ?tb = "cur_tb s"
  let ?ex = "exit_bytes L (?q + 37) (tb_addr L ?tb) t (tb_ret_addr s)"
  let ?A = "[0x51] @ raw_probe @ raw_probe @ raw_probe @ ?ex"
  let ?f = "\<lambda>b. ind_enter_sieve_update (\<lambda>_. ?q + 37) (jind_src_addr_update (\<lambda>xs. xs[0 := ?q + 7, 1 := ?q + 19, 2 := ?q + 31]) b)"
  let ?s5 = "upd_tb ?tb ?f (emit ?A s)"
  have lx: "length ?ex = 32" using assms(2,3) by (simp add: exit_bytes_length)
  have len: "length ?A = 69" by (simp add: lx)
  have run: "and_then (ind_hit 0 (?q + of_nat 12) ?s5) (\<lambda>s. and_then (ind_hit 1 (?q + of_nat 24) s) (ind_hit 2 (?q + of_nat 36))) = Inr s'"
    using assms(1)
    by (simp add: cemit_ind_opt_def Let_def ind_probe_mem cemit_exit_tb_bytes emit_upd emit_emit2 emit_code_ptr comp_def
      add.commute [of "code_ptr s"] del: and_then_eq_Inr)
  have "mem ?s5 = write_bytes (mem s) ?q ?A" "code_ptr ?s5 = ?q + of_nat (length ?A)" by (simp_all add: emit_def)
  moreover have "bytes_at (write_bytes (mem s) ?q ?A) ?q ?A" by (rule bytes_at_write_bytes) (simp only: len, simp)
  ultimately have b5: "bytes_at (mem ?s5) ?q ?A" "code_ptr ?s5 = ?q + of_nat (length ?A)" by (simp_all only:)
  from run obtain s6 s7 where hits: "ind_hit 0 (?q + of_nat 12) ?s5 = Inr s6" "ind_hit 1 (?q + of_nat 24) s6 = Inr s7"
    "ind_hit 2 (?q + of_nat 36) s7 = Inr s'" by auto
  let ?h = "[0x59, 0x8d, 0x64, 0x24, 4, 0xe9] @ bytes32 NEED_PATCH_32 :: u8 list"
  have d0: "56 = ucast (code_ptr ?s5 - (?q + of_nat 12) - 1)" "12 < length ?A" "length ?A < 1000" unfolding b5(2) len by simp_all
  note h0 = ind_hit_bytes [OF hits(1) b5 d0(2,3,1)]
  let ?B = "?A[12 := 56] @ ?h"
  have lb: "length ?B = 79" by (simp add: lx)
  have c6: "code_ptr s6 = ?q + of_nat (length ?B)" "cur_tb s6 = ?tb" using h0(2,3) unfolding lb len by simp_all
  have d1: "54 = ucast (code_ptr s6 - (?q + of_nat 24) - 1)" "24 < length ?B" "length ?B < 1000" unfolding c6(1) lb by simp_all
  note h1 = ind_hit_bytes [OF hits(2) h0(1) c6(1) d1(2,3,1)]
  let ?C = "?B[24 := 54] @ ?h"
  have lc: "length ?C = 89" by (simp add: lx)
  have c7: "code_ptr s7 = ?q + of_nat (length ?C)" "cur_tb s7 = ?tb" using h1(2,3) c6(2) unfolding lb lc by simp_all
  have d2: "52 = ucast (code_ptr s7 - (?q + of_nat 36) - 1)" "36 < length ?C" "length ?C < 1000" unfolding c7(1) lc by simp_all
  note h2 = ind_hit_bytes [OF hits(3) h1(1) c7(1) d2(2,3,1)]
  have code: "?C[36 := 52] @ ?h = [0x51] @ cache_bytes L (?q + 1) (tb_addr L ?tb) t (tb_ret_addr s)"
    using raw_probe_set [of 0] raw_probe_set [of 1] raw_probe_set [of 2]
    by (simp add: cache_bytes_def list_update_append list_update_Cons_numeral lx add.commute [of "code_ptr s"])
  show "mem s' (code_ptr s) = 0x51"
    and "bytes_at (mem s') (code_ptr s + 1) (cache_bytes L (code_ptr s + 1) (tb_addr L (cur_tb s)) t (tb_ret_addr s))"
    using h2(1) unfolding code by simp_all
  show "cur_tb s' = cur_tb s" using h2(3) c7(2) by simp
  show "jmp_ind_index (tbs s' (cur_tb s)) = jmp_ind_index (tbs s (cur_tb s))"
    using h0(4) h1(4) h2(4) c6(2) c7(2) by simp
  show "ic_slots (fresh_cache (code_ptr s + 1)) (tbs s' (cur_tb s))"
  proof -
    obtain x0 x1 x2 y0 y1 y2 where "jind_src_addr (tbs s ?tb) = [x0, x1, x2]" "jind_dest_addr (tbs s ?tb) = [y0, y1, y2]"
      using assms(4) by (auto simp: tb_shape_def length_Suc_conv numeral_3_eq_3)
    then show ?thesis
      using h0(4) h1(4) h2(4) c6(2) c7(2) unfolding c7(1) c6(1) b5(2) len lb lc
      by (simp add: ic_slots_def fresh_cache_def probe_addr_def hit_addr_def ic_out_def add.assoc)
  qed
qed

section \<open>Filling it\<close>

lemma fresh_cache_valid:
  assumes "bytes_at m p (cache_bytes L p r t e)" "r \<noteq> - 1" "t \<noteq> - 1"
  shows "ic_valid (fresh_cache p) m" "bytes_at m (ic_out (fresh_cache p)) (exit_bytes L (ic_out (fresh_cache p)) r t e)"
proof -
  have lx: "length (exit_bytes L (p + 36) r t e) = 32" using assms(2,3) by (simp add: exit_bytes_length)
  have "bytes_at m (probe_addr (fresh_cache p) i) (probe_bytes NEED_PATCH_32 i)"
    "bytes_at m (hit_addr (fresh_cache p) i) ([0x59, 0x8d, 0x64, 0x24, 4, 0xe9] @ bytes32 NEED_PATCH_32)" if "i < 3" for i
    using that assms(1) by (rule_tac slot_cases [of i]; simp add: cache_bytes_def probe_addr_def hit_addr_def fresh_cache_def lx add.assoc)+
  then show "ic_valid (fresh_cache p) m"
    by (simp add: ic_valid_def hit_bytes_def fresh_cache_def hit_addr_def add.assoc)
  show "bytes_at m (ic_out (fresh_cache p)) (exit_bytes L (ic_out (fresh_cache p)) r t e)"
    using assms(1) by (simp add: cache_bytes_def ic_out_def fresh_cache_def add.assoc)
qed

text \<open>The cache of a block, with the first \<open>n\<close> slots filled.\<close>

definition cache_at :: "inline_cache \<Rightarrow> nat \<Rightarrow> nat \<Rightarrow> trans_state \<Rightarrow> bool" where
  "cache_at c n tb s \<longleftrightarrow> ic_valid c (mem s) \<and> ic_slots c (tbs s tb) \<and> jmp_ind_index (tbs s tb) = of_nat n \<and> n \<le> IND_SLOT_MAX \<and>
     (\<forall>i<IND_SLOT_MAX. n \<le> i \<longrightarrow> ic_src c i = NEED_PATCH_32)"

definition ic_fill :: "nat \<Rightarrow> u32 \<Rightarrow> u32 \<Rightarrow> inline_cache \<Rightarrow> inline_cache" where
  "ic_fill k src dest c = c\<lparr>ic_src := (ic_src c)(k := src), ic_dest := (ic_dest c)(k := dest)\<rparr>"

lemma ic_fill_addr [simp]:
  "probe_addr (ic_fill k src dest c) i = probe_addr c i" "hit_addr (ic_fill k src dest c) i = hit_addr c i"
  "ic_out (ic_fill k src dest c) = ic_out c" "ic_at (ic_fill k src dest c) = ic_at c"
  by (simp_all add: ic_fill_def probe_addr_def hit_addr_def ic_out_def)

lemma ic_slots_fill [simp]: "ic_slots (ic_fill k src dest c) t = ic_slots c t"
  by (simp add: ic_slots_def)

text \<open>The regions of the cache, all within its 98 bytes.\<close>

lemma ic_apart:
  assumes "a + n \<le> b" "b + k \<le> 98"
  shows "region (ic_at c + of_nat a) n \<inter> region (ic_at c + of_nat b) k = {}"
  using assms by (intro region_apart) simp_all

lemma ic_slot_regions:
  assumes "k < 3"
  shows "i < 3 \<Longrightarrow> i \<noteq> k \<Longrightarrow> region (probe_addr c i) 12 \<inter> region (probe_addr c k + 6) 4 = {}"
    and "i < 3 \<Longrightarrow> region (hit_addr c i) 10 \<inter> region (probe_addr c k + 6) 4 = {}"
    and "i < 3 \<Longrightarrow> region (probe_addr c i) 12 \<inter> region (hit_addr c k + 6) 4 = {}"
    and "i < 3 \<Longrightarrow> i \<noteq> k \<Longrightarrow> region (hit_addr c i) 10 \<inter> region (hit_addr c k + 6) 4 = {}"
proof -
  have p: "probe_addr c k + 6 = ic_at c + of_nat (12 * k + 6)" and h: "hit_addr c k + 6 = ic_at c + of_nat (68 + 10 * k + 6)"
    by (simp_all add: probe_addr_def hit_addr_def add.assoc)
  show "i < 3 \<Longrightarrow> i \<noteq> k \<Longrightarrow> region (probe_addr c i) 12 \<inter> region (probe_addr c k + 6) 4 = {}"
    unfolding p probe_addr_def using assms ic_apart [of "12 * i" 12 "12 * k + 6" 4 c] ic_apart [of "12 * k + 6" 4 "12 * i" 12 c]
    by (cases "i < k") (simp_all add: Int_commute add.assoc)
  show "i < 3 \<Longrightarrow> region (hit_addr c i) 10 \<inter> region (probe_addr c k + 6) 4 = {}"
    unfolding p hit_addr_def using assms ic_apart [of "12 * k + 6" 4 "68 + 10 * i" 10 c] by (simp add: Int_commute add.assoc)
  show "i < 3 \<Longrightarrow> region (probe_addr c i) 12 \<inter> region (hit_addr c k + 6) 4 = {}"
    unfolding h probe_addr_def using assms ic_apart [of "12 * i" 12 "68 + 10 * k + 6" 4 c] by (simp add: add.assoc)
  show "i < 3 \<Longrightarrow> i \<noteq> k \<Longrightarrow> region (hit_addr c i) 10 \<inter> region (hit_addr c k + 6) 4 = {}"
    unfolding h hit_addr_def using assms ic_apart [of "68 + 10 * i" 10 "68 + 10 * k + 6" 4 c]
      ic_apart [of "68 + 10 * k + 6" 4 "68 + 10 * i" 10 c]
    by (cases "i < k") (simp_all add: Int_commute add.assoc)
qed


lemma probe_refill:
  assumes "bytes_at m p (probe_bytes x i)"
  shows "bytes_at (st32 m (p + 6) (- src)) p (probe_bytes src i)"
proof -
  have s: "probe_bytes y i = [0x8b, 0x4c, 0x24, 4, 0x8d, 0x89] @ bytes32 (- y) @ [0xe3, of_nat (56 - 2 * i)]" for y
    by (simp add: probe_bytes_def)
  have "region p 6 \<inter> region (p + 6) 4 = {}" "region (p + 10) 2 \<inter> region (p + 6) 4 = {}"
    using region_apart [of 0 6 6 4 p] region_apart [of 6 4 10 2 p] by (simp_all add: Int_commute)
  with assms show ?thesis
    unfolding s bytes_at_append by (auto simp: bytes_at_bytes32 ld32_st32 add.assoc simp del: bytes_at.simps
      intro: bytes_at_st32_apart [where n = 6] bytes_at_st32_apart [where n = 2])
qed

lemma hit_refill:
  assumes "bytes_at m p (hit_bytes p x)"
  shows "bytes_at (st32 m (p + 6) (dest - (p + 6) - 4)) p (hit_bytes p dest)"
proof -
  have s: "hit_bytes p y = [0x59, 0x8d, 0x64, 0x24, 4, 0xe9] @ bytes32 (y - (p + 6) - 4)" for y by (simp add: hit_bytes_def)
  have "region p 6 \<inter> region (p + 6) 4 = {}" using region_apart [of 0 6 6 4 p] by simp
  with assms show ?thesis
    unfolding s bytes_at_append by (auto simp: bytes_at_bytes32 ld32_st32 simp del: bytes_at.simps intro: bytes_at_st32_apart [where n = 6])
qed

lemma length_hit [simp]: "length (hit_bytes p x) = 10"
  by (simp add: hit_bytes_def)

lemma ic_valid_fill:
  assumes "ic_valid c m" "k < 3"
  shows "ic_valid (ic_fill k src dest c) (st32 (st32 m (probe_addr c k + 6) (- src)) (hit_addr c k + 6) (dest - (hit_addr c k + 6) - 4))"
proof -
  let ?m1 = "st32 m (probe_addr c k + 6) (- src)" and ?c = "ic_fill k src dest c"
  let ?m2 = "st32 ?m1 (hit_addr c k + 6) (dest - (hit_addr c k + 6) - 4)"
  note reg = ic_slot_regions [OF assms(2)]
  have "bytes_at ?m2 (probe_addr c i) (probe_bytes (ic_src ?c i) i) \<and> bytes_at ?m2 (hit_addr c i) (hit_bytes (hit_addr c i) (ic_dest ?c i))"
    if i: "i < 3" for i
  proof (cases "i = k")
    case True
    have "bytes_at ?m1 (probe_addr c k) (probe_bytes src k)"
      using assms by (intro probe_refill [of _ _ "ic_src c k"]) (simp add: ic_valid_def)
    then have "bytes_at ?m2 (probe_addr c k) (probe_bytes src k)" by (rule bytes_at_st32_apart [OF _ reg(3) [OF assms(2)]]) simp
    moreover have "bytes_at ?m1 (hit_addr c k) (hit_bytes (hit_addr c k) (ic_dest c k))"
      by (rule bytes_at_st32_apart [OF _ reg(2) [OF assms(2)]]) (use assms in \<open>simp_all add: ic_valid_def\<close>)
    then have "bytes_at ?m2 (hit_addr c k) (hit_bytes (hit_addr c k) dest)" by (rule hit_refill)
    ultimately show ?thesis by (simp add: True ic_fill_def)
  next
    case False
    have "bytes_at ?m1 (probe_addr c i) (probe_bytes (ic_src c i) i)"
      by (rule bytes_at_st32_apart [OF _ reg(1) [OF i False]]) (use assms i in \<open>simp_all add: ic_valid_def\<close>)
    then have "bytes_at ?m2 (probe_addr c i) (probe_bytes (ic_src c i) i)" by (rule bytes_at_st32_apart [OF _ reg(3) [OF i]]) simp
    moreover have "bytes_at ?m1 (hit_addr c i) (hit_bytes (hit_addr c i) (ic_dest c i))"
      by (rule bytes_at_st32_apart [OF _ reg(2) [OF i]]) (use assms i in \<open>simp_all add: ic_valid_def\<close>)
    then have "bytes_at ?m2 (hit_addr c i) (hit_bytes (hit_addr c i) (ic_dest c i))"
      by (rule bytes_at_st32_apart [OF _ reg(4) [OF i False]]) simp
    ultimately show ?thesis using False by (simp add: ic_fill_def)
  qed
  then show ?thesis by (simp add: ic_valid_def)
qed

lemma ic_target_fill:
  assumes "k < 3" "\<forall>i<3. k \<le> i \<longrightarrow> ic_src c i = NEED_PATCH_32" "t \<noteq> NEED_PATCH_32"
  shows "ic_target (ic_fill k src dest c) t = (if t = src \<and> ic_target c t = None then Some dest else ic_target c t)"
  using assms by (rule_tac slot_cases [of k]) (auto simp: ic_target_def ic_fill_def)

text \<open>
  C8: Filling the inline cache.  While a slot is free, \<^verbatim>\<open>patch_ind_opt\<close> adds the pair of
  \<^verbatim>\<open>env->eip\<close> and the new block's host code to the map that the cache of the left block implements,
  unless the cache already answers for that address, and counts the slot; the address
  \<^verbatim>\<open>NEED_PATCH_32\<close>, which marks a free slot, is the only one excepted.
\<close>

theorem patch_ind_opt_adds:
  assumes "cache_at c n prev s" "n < IND_SLOT_MAX" "patch_ind_opt L prev tb s = Inr s'"
  shows "\<exists>c'. cache_at c' (Suc n) prev s' \<and> ic_at c' = ic_at c \<and>
     (\<forall>t. t \<noteq> NEED_PATCH_32 \<longrightarrow> ic_target c' t =
        (if t = ld32 (mem s) (a_eip L) \<and> ic_target c t = None then Some (tc_ptr (tbs s tb)) else ic_target c t))"
proof -
  let ?t = "tbs s prev" and ?c = "ic_fill n (ld32 (mem s) (a_eip L)) (tc_ptr (tbs s tb)) c"
  have at: "ic_valid c (mem s)" "ic_slots c ?t" "jmp_ind_index ?t = of_nat n" "\<forall>i<3. n \<le> i \<longrightarrow> ic_src c i = NEED_PATCH_32"
    using assms(1) by (simp_all add: cache_at_def)
  have n: "unat (of_nat n :: u32) = n" using assms(2) by (simp add: unat_of_nat_u32)
  have lt: "(of_nat n :: u32) < 3" using n assms(2) by (simp add: word_less_nat_alt)
  have slots: "jind_src_addr ?t ! n = probe_addr c n + 6" "jind_dest_addr ?t ! n = hit_addr c n + 6"
    "length (jind_src_addr ?t) = 3" "length (jind_dest_addr ?t) = 3"
    using at(2) assms(2) by (auto simp: ic_slots_def elim: slot_cases)
  have mem: "mem s' = st32 (st32 (mem s) (probe_addr c n + 6) (- ld32 (mem s) (a_eip L))) (hit_addr c n + 6)
      (tc_ptr (tbs s tb) - (hit_addr c n + 6) - 4)"
    and tb: "ic_slots c (tbs s' prev)" "jmp_ind_index (tbs s' prev) = of_nat (Suc n)"
    using assms(2,3) at(2) slots
    by (auto simp: patch_ind_opt_def patch_jmp_target_def Let_def at(3) n lt poke32_def ic_slots_def)
  have "cache_at ?c (Suc n) prev s'"
    using tb assms(2) at(4) ic_valid_fill [OF at(1) assms(2)] by (auto simp: cache_at_def mem) (auto simp: ic_fill_def)
  then show ?thesis using ic_target_fill [OF assms(2) at(4)] by (intro exI [of _ ?c]) simp
qed

section \<open>An inline cache in front of the sieve\<close>

text \<open>\<^verbatim>\<open>jmp q\<close> at \<open>p\<close>.\<close>

definition jumps_to :: "memory \<Rightarrow> u32 \<Rightarrow> u32 \<Rightarrow> bool" where
  "jumps_to m p q \<longleftrightarrow> bytes_at m p (0xe9 # bytes32 (q - (p + 5)))"

text \<open>A dispatcher whose miss exit jumps to another dispatcher is a dispatcher for both tables.\<close>

locale dispatcher_chain =
  first: dispatcher valid1 entry1 target1 out1 + second: dispatcher valid2 entry2 target2 out2
  for valid1 :: "'c \<Rightarrow> memory \<Rightarrow> bool" and entry1 :: "'c \<Rightarrow> u32" and target1 :: "'c \<Rightarrow> u32 \<Rightarrow> u32 option" and out1 :: "'c \<Rightarrow> u32"
    and valid2 :: "'d \<Rightarrow> memory \<Rightarrow> bool" and entry2 :: "'d \<Rightarrow> u32" and target2 :: "'d \<Rightarrow> u32 \<Rightarrow> u32 option" and out2 :: "'d \<Rightarrow> u32"
begin

lemma enter_second:
  assumes "valid1 c m" "jumps_to m (out1 c) (entry2 d)" "target1 c (ld32 m (g ESP + 4)) = None"
  obtains v where "runs \<lparr>h_eip = entry1 c, h_reg = g, h_flags = f, h_mem = m\<rparr>
     \<lparr>h_eip = entry2 d, h_reg = g(ECX := v), h_flags = f, h_mem = m\<rparr>"
  using first.miss [OF assms(1), of g f, OF assms(3)] jmp_runs [OF assms(2) [unfolded jumps_to_def]]
  by (auto intro: runs_trans)

end

sublocale dispatcher_chain \<subseteq> chained: dispatcher
  "\<lambda>cd m. valid1 (fst cd) m \<and> valid2 (snd cd) m \<and> jumps_to m (out1 (fst cd)) (entry2 (snd cd))"
  "\<lambda>cd. entry1 (fst cd)" "\<lambda>cd t. case target1 (fst cd) t of Some tc \<Rightarrow> Some tc | None \<Rightarrow> target2 (snd cd) t" "\<lambda>cd. out2 (snd cd)"
proof
  fix cd m f tc and g :: "u8 \<Rightarrow> u32"
  assume v: "valid1 (fst cd) m \<and> valid2 (snd cd) m \<and> jumps_to m (out1 (fst cd)) (entry2 (snd cd))"
    and t: "(case target1 (fst cd) (ld32 m (g ESP + 4)) of Some tc \<Rightarrow> Some tc | None \<Rightarrow> target2 (snd cd) (ld32 m (g ESP + 4))) = Some tc"
  show "runs \<lparr>h_eip = entry1 (fst cd), h_reg = g, h_flags = f, h_mem = m\<rparr>
       \<lparr>h_eip = tc, h_reg = g(ECX := ld32 m (g ESP), ESP := g ESP + 8), h_flags = f, h_mem = m\<rparr>"
  proof (cases "target1 (fst cd) (ld32 m (g ESP + 4))")
    case None
    from v None obtain w where "runs \<lparr>h_eip = entry1 (fst cd), h_reg = g, h_flags = f, h_mem = m\<rparr>
       \<lparr>h_eip = entry2 (snd cd), h_reg = g(ECX := w), h_flags = f, h_mem = m\<rparr>" by (metis enter_second)
    moreover have "runs \<lparr>h_eip = entry2 (snd cd), h_reg = g(ECX := w), h_flags = f, h_mem = m\<rparr>
       \<lparr>h_eip = tc, h_reg = g(ECX := ld32 m (g ESP), ESP := g ESP + 8), h_flags = f, h_mem = m\<rparr>"
      using second.hit [of "snd cd" m "g(ECX := w)" tc f] v t None by simp
    ultimately show ?thesis by (rule runs_trans)
  next
    case (Some x)
    then show ?thesis using first.hit [of "fst cd" m g x f] v t by simp
  qed
next
  fix cd m f and g :: "u8 \<Rightarrow> u32"
  assume v: "valid1 (fst cd) m \<and> valid2 (snd cd) m \<and> jumps_to m (out1 (fst cd)) (entry2 (snd cd))"
    and t: "(case target1 (fst cd) (ld32 m (g ESP + 4)) of Some tc \<Rightarrow> Some tc | None \<Rightarrow> target2 (snd cd) (ld32 m (g ESP + 4))) = None"
  then have n: "target1 (fst cd) (ld32 m (g ESP + 4)) = None" "target2 (snd cd) (ld32 m (g ESP + 4)) = None" by (auto split: option.splits)
  from v n obtain w where w: "runs \<lparr>h_eip = entry1 (fst cd), h_reg = g, h_flags = f, h_mem = m\<rparr>
       \<lparr>h_eip = entry2 (snd cd), h_reg = g(ECX := w), h_flags = f, h_mem = m\<rparr>" by (metis enter_second)
  from second.miss [of "snd cd" m "g(ECX := w)" f] v n obtain x where
    "runs \<lparr>h_eip = entry2 (snd cd), h_reg = g(ECX := w), h_flags = f, h_mem = m\<rparr>
       \<lparr>h_eip = out2 (snd cd), h_reg = g(ECX := x), h_flags = f, h_mem = m\<rparr>" by auto
  with w show "\<exists>v. runs \<lparr>h_eip = entry1 (fst cd), h_reg = g, h_flags = f, h_mem = m\<rparr>
       \<lparr>h_eip = out2 (snd cd), h_reg = g(ECX := v), h_flags = f, h_mem = m\<rparr>" by (blast intro: runs_trans)
qed

interpretation cache_sieve: dispatcher_chain ic_valid ic_at ic_target ic_out sieve_valid sv_stub sieve_target sv_out ..

section \<open>An indirect branch\<close>

text \<open>The push of \<^verbatim>\<open>%ecx\<close> in front of the cache.\<close>

definition pushed :: "(u8 \<Rightarrow> u32) \<Rightarrow> memory \<Rightarrow> memory" where
  "pushed g m = st32 m (g ESP - 4) (g ECX)"

lemma push_runs:
  assumes "m (p - 1) = 0x51"
  shows "runs \<lparr>h_eip = p - 1, h_reg = g, h_flags = f, h_mem = m\<rparr>
     \<lparr>h_eip = p, h_reg = g(ESP := g ESP - 4), h_flags = f, h_mem = pushed g m\<rparr>"
  by (rule runs_insn [OF encodes_push_ecx]) (use assms in \<open>simp_all add: run_simps pushed_def\<close>)

lemma pushed_target: "ld32 (pushed g m) (g ESP) = ld32 m (g ESP)" "ld32 (pushed g m) (g ESP - 4) = g ECX"
  using region_apart [of 0 4 4 4 "g ESP - 4"] by (simp_all add: pushed_def ld32_st32 ld32_st32_other Int_commute)

lemma pushed_below: "ld32 (pushed g m) ((g(ESP := g ESP - 4)) ESP + 4) = ld32 m (g ESP)"
  by (simp add: pushed_target)

lemma after_pop:
  "(g(ESP := g ESP - 4))(ECX := ld32 (pushed g m) ((g(ESP := g ESP - 4)) ESP), ESP := (g(ESP := g ESP - 4)) ESP + 8) = g(ESP := g ESP + 4)"
  by (simp add: fun_eq_iff pushed_target)

text \<open>
  C7: An indirect branch whose cache is full.  Its code, entered with the guest target on top of the
  stack, is a lookup in the cache and then in the sieve: it reaches the host code of a known target with
  all registers as they were, the target popped and no memory changed but the word below the stack; an
  unknown target leaves through the epilogue with the target in \<^verbatim>\<open>env->eip\<close>.
\<close>

theorem indirect_branch_dispatch:
  assumes "m (ic_at c - 1) = 0x51" "ic_valid c (pushed g m)" "sieve_valid d (pushed g m)"
    and "jumps_to (pushed g m) (ic_out c) (sv_stub d)"
    and "bytes_at (pushed g m) (sv_out d) (exit_bytes L (sv_out d) (- 1) IND_TYPE_CALL e)" "env_apart L (sv_out d) 32"
  shows "runs \<lparr>h_eip = ic_at c - 1, h_reg = g, h_flags = f, h_mem = m\<rparr>
     (case (case ic_target c (ld32 m (g ESP)) of Some tc \<Rightarrow> Some tc | None \<Rightarrow> sieve_target d (ld32 m (g ESP))) of
        Some tc \<Rightarrow> \<lparr>h_eip = tc, h_reg = g(ESP := g ESP + 4), h_flags = f, h_mem = pushed g m\<rparr>
      | None \<Rightarrow> \<lparr>h_eip = e, h_reg = g(ESP := g ESP + 4), h_flags = f,
          h_mem = exit_mem L (- 1) IND_TYPE_CALL (ld32 m (g ESP)) (pushed g m)\<rparr>)"
    (is "runs ?h (case ?t of Some tc \<Rightarrow> ?hit tc | None \<Rightarrow> ?miss)")
proof (cases ?t)
  case (Some tc)
  with cache_sieve.chained.hit [of "(c, d)" "pushed g m" "g(ESP := g ESP - 4)" tc f, unfolded pushed_below after_pop fst_conv snd_conv]
    runs_trans [OF push_runs [of m "ic_at c" g f, OF assms(1)]] assms(2-4)
  show ?thesis by simp
next
  case None
  with cache_sieve.chained.miss_exit [of "(c, d)" "pushed g m" "g(ESP := g ESP - 4)" L "- 1" IND_TYPE_CALL e f, unfolded pushed_below after_pop fst_conv snd_conv]
    runs_trans [OF push_runs [of m "ic_at c" g f, OF assms(1)]] assms(2-6)
  show ?thesis by simp
qed

text \<open>The three displacements fit: the emitter never gives up.\<close>

lemma cemit_ind_opt_total:
  assumes "tb_addr L (cur_tb s) \<noteq> - 1" "t \<noteq> - 1"
  shows "\<exists>s'. cemit_ind_opt L t s = Inr s'"
proof -
  have "length (exit_bytes L (code_ptr s + 37) (tb_addr L (cur_tb s)) t (tb_ret_addr s)) = 32" using assms by (simp add: exit_bytes_length)
  then show ?thesis
    by (simp add: cemit_ind_opt_def Let_def ind_probe_mem cemit_exit_tb_bytes emit_upd emit_emit2 emit_code_ptr ind_hit_def poke8_def
      add.commute [of "code_ptr s"] raw_probe_def del: and_then_eq_Inr)
qed

text \<open>
  \<^verbatim>\<open>cemit_ind_opt\<close> never gives up, and what it emits is an inline cache with no slot filled, its
  addresses recorded in the block, in front of code that leaves the block for the translator.
\<close>

theorem cemit_ind_opt_emits:
  assumes "tb_addr L (cur_tb s) \<noteq> - 1" "t \<noteq> - 1" "tb_shape (tbs s (cur_tb s))" "jmp_ind_index (tbs s (cur_tb s)) = 0"
  shows "\<exists>s'. cemit_ind_opt L t s = Inr s' \<and> mem s' (code_ptr s) = 0x51 \<and>
     cache_at (fresh_cache (code_ptr s + 1)) 0 (cur_tb s) s' \<and>
     bytes_at (mem s') (code_ptr s + 37) (exit_bytes L (code_ptr s + 37) (tb_addr L (cur_tb s)) t (tb_ret_addr s)) \<and>
     (\<forall>x. x \<noteq> NEED_PATCH_32 \<longrightarrow> ic_target (fresh_cache (code_ptr s + 1)) x = None)"
proof -
  obtain s' where s': "cemit_ind_opt L t s = Inr s'" using cemit_ind_opt_total [OF assms(1,2)] by blast
  note code = cemit_ind_opt_code [OF s' assms(1-3)]
  show ?thesis
    using s' code assms(4) fresh_cache_valid [OF code(2) assms(1,2)]
    by (auto simp: cache_at_def fresh_cache_def ic_out_def ic_target_def add.assoc)
qed

section \<open>A full cache\<close>

lemma ic_valid_frame:
  assumes "ic_valid c m" "\<And>a. a \<in> region (ic_at c) 36 \<or> a \<in> region (ic_at c + 68) 30 \<Longrightarrow> m' a = m a"
  shows "ic_valid c m'"
proof -
  have "region (probe_addr c i) 12 \<subseteq> region (ic_at c) 36" "region (hit_addr c i) 10 \<subseteq> region (ic_at c + 68) 30" if "i < 3" for i
  proof -
    show "region (probe_addr c i) 12 \<subseteq> region (ic_at c) 36"
      unfolding probe_addr_def by (rule subset_trans [OF region_shift region_mono]) (use that in simp)
    have "hit_addr c i = ic_at c + 68 + of_nat (10 * i)" by (simp add: hit_addr_def add.assoc)
    then show "region (hit_addr c i) 10 \<subseteq> region (ic_at c + 68) 30"
      by (simp only:) (rule subset_trans [OF region_shift region_mono], use that in simp)
  qed
  note reg = this
  show ?thesis
    unfolding ic_valid_def
  proof (intro allI impI conjI)
    fix i assume i: "i < IND_SLOT_MAX"
    then have b: "bytes_at m (probe_addr c i) (probe_bytes (ic_src c i) i)"
      "bytes_at m (hit_addr c i) (hit_bytes (hit_addr c i) (ic_dest c i))" using assms(1) by (simp_all add: ic_valid_def)
    show "bytes_at m' (probe_addr c i) (probe_bytes (ic_src c i) i)"
      by (rule bytes_at_frame [OF b(1)], rule assms(2)) (use reg(1) [OF i] in auto)
    show "bytes_at m' (hit_addr c i) (hit_bytes (hit_addr c i) (ic_dest c i))"
      by (rule bytes_at_frame [OF b(2)], rule assms(2)) (use reg(2) [OF i] in auto)
  qed
qed

text \<open>\<^verbatim>\<open>ind_patch_sieve\<close> makes the miss exit of the cache jump to the sieve and keeps the slots.\<close>

lemma ind_patch_sieve_chains:
  assumes "ic_valid c (mem s)"
  shows "ic_valid c (mem (ind_patch_sieve (ic_out c) s))" "jumps_to (mem (ind_patch_sieve (ic_out c) s)) (ic_out c) (sieve_stub s)"
proof -
  have bs: "sieve_stub s - (ic_out c + 1) - 4 = sieve_stub s - (ic_out c + 5)" by simp
  have "region (ic_at c) 36 \<inter> region (ic_out c) 5 = {}" "region (ic_at c + 68) 30 \<inter> region (ic_out c) 5 = {}"
    using ic_apart [of 0 36 36 5 c] ic_apart [of 36 5 68 30 c] by (simp_all add: ic_out_def Int_commute)
  then show "ic_valid c (mem (ind_patch_sieve (ic_out c) s))"
    unfolding ind_patch_sieve_eq by (intro ic_valid_frame [OF assms]) (auto simp del: write_bytes.simps intro!: write_bytes_frame)
  show "jumps_to (mem (ind_patch_sieve (ic_out c) s)) (ic_out c) (sieve_stub s)"
    unfolding ind_patch_sieve_eq jumps_to_def bs by (simp add: bytes_at_write_bytes del: write_bytes.simps bytes_at.simps)
qed


section \<open>An indirect branch of the example\<close>

definition ind_code :: "u8 list" where
  "ind_code = 0x51 # cache_bytes demo_L 0x9000001 0x30000000 IND_TYPE_JMP 0x1f000041"

definition ind_mem :: memory where
  "ind_mem = write_bytes (write_bytes boot_mem 0x9000000 ind_code) 0x9000025 (0xe9 # bytes32 (0x14000000 - 0x900002a))"

lemma ind_code_length: "length ind_code = 99"
  by (simp add: ind_code_def cache_bytes_def exit_bytes_length)

lemma ind_mem_frame: "a \<notin> region 0x9000000 99 \<Longrightarrow> a \<notin> region 0x7ffefffc 4 \<Longrightarrow> pushed (\<lambda>_. 0x7fff0000) ind_mem a = boot_mem a"
proof -
  assume a: "a \<notin> region 0x9000000 99" "a \<notin> region 0x7ffefffc 4"
  have "region (0x9000000 + of_nat 37) 5 \<subseteq> region (0x9000000 :: u32) 99" by (rule subset_trans [OF region_shift region_mono]) simp
  then have "a \<notin> region 0x9000025 5" using a(1) by auto
  with a show ?thesis by (simp add: pushed_def ind_mem_def st32_frame write_bytes_frame ind_code_length del: write_bytes.simps)
qed

theorem indirect_branch_dispatch_witness:
  "runs \<lparr>h_eip = 0x9000000, h_reg = (\<lambda>_. 0x7fff0000), h_flags = 0, h_mem = ind_mem\<rparr>
     (case (case ic_target (fresh_cache 0x9000001) (ld32 ind_mem 0x7fff0000) of Some tc \<Rightarrow> Some tc | None \<Rightarrow> None) of
        Some tc \<Rightarrow> \<lparr>h_eip = tc, h_reg = (\<lambda>_. 0x7fff0000)(ESP := 0x7fff0000 + 4), h_flags = 0, h_mem = pushed (\<lambda>_. 0x7fff0000) ind_mem\<rparr>
      | None \<Rightarrow> \<lparr>h_eip = 0x1f000041, h_reg = (\<lambda>_. 0x7fff0000)(ESP := 0x7fff0000 + 4), h_flags = 0,
          h_mem = exit_mem demo_L (- 1) IND_TYPE_CALL (ld32 ind_mem 0x7fff0000) (pushed (\<lambda>_. 0x7fff0000) ind_mem)\<rparr>)"
proof -
  let ?g = "\<lambda>_ :: u8. 0x7fff0000 :: u32" and ?c = "fresh_cache 0x9000001" and ?d = "empty_sieve demo_L"
  let ?m = "pushed ?g ind_mem"
  have code: "bytes_at (write_bytes boot_mem 0x9000000 ind_code) 0x9000000 ind_code" by (rule bytes_at_write_bytes) (simp add: ind_code_length)
  have stack: "region (0x9000000 + of_nat n) l \<inter> region (0x7ffefffc :: u32) 4 = {}" if "n + l \<le> 99" for n l
    using region_apart [of n l "0x76fefffc" 4 "0x9000000"] that by simp
  have "bytes_at (write_bytes boot_mem 0x9000000 ind_code) 0x9000001 (cache_bytes demo_L 0x9000001 0x30000000 IND_TYPE_JMP 0x1f000041)"
    using code by (simp add: ind_code_def del: write_bytes.simps)
  from fresh_cache_valid(1) [OF this] have v: "ic_valid ?c (write_bytes boot_mem 0x9000000 ind_code)" by simp
  have at: "ic_at ?c = 0x9000001" "ic_out ?c = 0x9000025" by (simp_all add: fresh_cache_def ic_out_def)
  have v': "ic_valid ?c ?m"
  proof (rule ic_valid_frame [OF v], unfold at)
    have "region (0x9000001 :: u32) 36 \<inter> region 0x9000025 5 = {}" "region (0x9000001 + 68 :: u32) 30 \<inter> region 0x9000025 5 = {}"
      using region_apart [of 1 36 37 5 "0x9000000"] region_apart [of 37 5 69 30 "0x9000000"] by (simp_all add: Int_commute)
    moreover fix a :: u32 assume "a \<in> region 0x9000001 36 \<or> a \<in> region (0x9000001 + 68) 30"
    ultimately show "?m a = write_bytes boot_mem 0x9000000 ind_code a"
      using stack [of 1 36] stack [of 69 30] unfolding pushed_def ind_mem_def
      by (intro trans [OF st32_frame write_bytes_frame]) (auto simp del: write_bytes.simps)
  qed
  have j: "jumps_to ?m 0x9000025 0x14000000"
  proof -
    have "bytes_at ind_mem 0x9000025 (0xe9 # bytes32 (0x14000000 - 0x900002a))"
      unfolding ind_mem_def by (rule bytes_at_write_bytes) simp
    then have "bytes_at ?m 0x9000025 (0xe9 # bytes32 (0x14000000 - 0x900002a))"
      unfolding pushed_def by (rule bytes_at_st32_apart [where n = 5]) (use stack [of 37 5] in simp_all)
    then show ?thesis by (simp add: jumps_to_def del: bytes_at.simps)
  qed
  have keep: "?m a = boot_mem a" if "a \<in> region 0x14000000 16 \<or> a \<in> region (0x20000000 :: u32) env_size \<or> a \<in> region (0x1f000000 :: u32) 2048" for a
  proof (rule ind_mem_frame)
    show "a \<notin> region 0x9000000 99"
      using that region_apart [of 0 99 "0xb000000" 16 "0x9000000"] region_apart [of 0 99 "0x17000000" env_size "0x9000000"]
        region_apart [of 0 99 "0x16000000" 2048 "0x9000000"] by auto
    show "a \<notin> region 0x7ffefffc 4"
      using that region_apart [of 0 16 "0x6bfefffc" 4 "0x14000000"] region_apart [of 0 env_size "0x5ffefffc" 4 "0x20000000"]
        region_apart [of 0 2048 "0x60fefffc" 4 "0x1f000000"] by auto
  qed
  have sv: "sieve_valid ?d ?m"
    by (rule sieve_valid_frame [OF boot_mem_ok(2)]; rule keep) (use env_table [of demo_L] in \<open>auto simp: empty_sieve_def demo_L_def\<close>)
  have rt: "runtime_code demo_L ?m"
    by (rule runtime_code_frame [OF boot_mem_ok(1)], rule keep) (simp add: demo_L_def)
  have push: "ind_mem (ic_at ?c - 1) = 0x51"
  proof -
    have "ind_mem 0x9000000 = write_bytes boot_mem 0x9000000 ind_code 0x9000000"
      unfolding ind_mem_def by (rule write_bytes_frame) (simp add: region_def)
    then show ?thesis using code by (simp add: at ind_code_def del: write_bytes.simps)
  qed
  have "l_prologue demo_L = 0x1f000000" by (simp add: demo_L_def)
  note exit = runtime_exit [OF rt demo_layout, unfolded this]
  have d: "sv_stub ?d = 0x14000000" "sv_out ?d = 0x1f000100" by (simp_all add: empty_sieve_def demo_L_def)
  from indirect_branch_dispatch [of ind_mem ?c ?g ?d demo_L "0x1f000041" 0, OF push v' sv, unfolded d at empty_sieve_target] j exit
  show ?thesis by simp
qed


lemma demo_ind:
  obtains s where "cemit_ind_opt demo_L IND_TYPE_JMP (demo_state boot_mem) = Inr s" "cache_at (fresh_cache 0x9000001) 0 0 s"
proof -
  have cur: "cur_tb (demo_state boot_mem) = 0" "code_ptr (demo_state boot_mem) = 0x9000000" "tb_addr demo_L 0 \<noteq> - 1"
    "tb_shape (tbs (demo_state boot_mem) 0)" "jmp_ind_index (tbs (demo_state boot_mem) 0) = 0"
    by (simp_all add: demo_state_def demo_L_def tb_addr_def demo_tb_def tb_shape_def blank_tb_def)
  obtain s where s: "cemit_ind_opt demo_L IND_TYPE_JMP (demo_state boot_mem) = Inr s"
    using cemit_ind_opt_total [of demo_L "demo_state boot_mem" IND_TYPE_JMP] cur by auto
  note code = cemit_ind_opt_code [OF s, unfolded cur(1,2)]
  have "cache_at (fresh_cache 0x9000001) 0 0 s"
    using code(2,3,5) cur fresh_cache_valid(1) [of "mem s" "0x9000001" demo_L "tb_addr demo_L 0" IND_TYPE_JMP] 
    by (auto simp: cache_at_def fresh_cache_def)
  with s show thesis by (rule that)
qed

theorem cemit_ind_opt_emits_witness:
  "\<exists>s'. cemit_ind_opt demo_L IND_TYPE_JMP (demo_state boot_mem) = Inr s' \<and> mem s' 0x9000000 = 0x51 \<and>
     cache_at (fresh_cache 0x9000001) 0 0 s' \<and> ic_target (fresh_cache 0x9000001) 0x8048000 = None"
proof -
  have cur: "cur_tb (demo_state boot_mem) = 0" "code_ptr (demo_state boot_mem) = 0x9000000" "tb_addr demo_L 0 \<noteq> - 1"
    "tb_shape (tbs (demo_state boot_mem) 0)" "jmp_ind_index (tbs (demo_state boot_mem) 0) = 0"
    by (simp_all add: demo_state_def demo_L_def tb_addr_def demo_tb_def tb_shape_def blank_tb_def)
  from cemit_ind_opt_emits [of demo_L "demo_state boot_mem" IND_TYPE_JMP, unfolded cur(1,2), OF cur(3) _ cur(4,5)]
  show ?thesis by auto
qed

theorem patch_ind_opt_adds_witness:
  "\<exists>s s' c'. cemit_ind_opt demo_L IND_TYPE_JMP (demo_state boot_mem) = Inr s \<and> patch_ind_opt demo_L 0 0 s = Inr s' \<and>
     cache_at c' 1 0 s' \<and> ic_target c' 0x8048000 =
       (if 0x8048000 = ld32 (mem s) (a_eip demo_L) then Some (tc_ptr (tbs s 0)) else None)"
proof -
  obtain s where s: "cemit_ind_opt demo_L IND_TYPE_JMP (demo_state boot_mem) = Inr s" "cache_at (fresh_cache 0x9000001) 0 0 s"
    using demo_ind by blast
  obtain s' where s': "patch_ind_opt demo_L 0 0 s = Inr s'"
    using s(2) by (auto simp: patch_ind_opt_def patch_jmp_target_def cache_at_def ic_slots_def Let_def)
  have "ic_target (fresh_cache 0x9000001) 0x8048000 = None" by (simp add: ic_target_def fresh_cache_def)
  with patch_ind_opt_adds [OF s(2) _ s'] s s' show ?thesis by fastforce
qed

end
