(* ===== verification/Signals.thy ===== *)
theory Signals
  imports Page_Table
begin

unbundle bit_operations_syntax

text \<open>
  The guest's signals (\<^verbatim>\<open>src/linux-user/signal.c\<close>, its part for a 32-bit i386 guest, with the structures of
  \<^verbatim>\<open>src/linux-user/qemu.h\<close> and the start-up of \<^verbatim>\<open>src/linux-user/main.c\<close>): the tables that number the host's
  signals for the guest, signal sets, the queues of pending signals and the pool their entries come
  from, the guest's actions and its alternate stack, and the delivery of a signal.
\<close>

section \<open>Signal numbers\<close>

text \<open>Guest and host have the byte order of the i386, so the swapping accessors of \<^verbatim>\<open>src/cpu-all.h\<close> are identities.\<close>

definition tswap32 :: "u32 \<Rightarrow> u32" where "tswap32 s = s"

abbreviation (input) tswapl :: "u32 \<Rightarrow> u32" where "tswapl \<equiv> tswap32"

text \<open>The host's \<^verbatim>\<open>_NSIG\<close> of its C library, one more than \<^verbatim>\<open>__SIGRTMAX\<close>, and the guest's constants.\<close>

abbreviation (input) "NSIG \<equiv> 65 :: int"
abbreviation (input) "TARGET_NSIG \<equiv> 64 :: int"
abbreviation (input) "SIGILL \<equiv> 4 :: int"
abbreviation (input) "SIGTRAP \<equiv> 5 :: int"
abbreviation (input) "SIGABRT \<equiv> 6 :: int"
abbreviation (input) "SIGBUS \<equiv> 7 :: int"
abbreviation (input) "SIGFPE \<equiv> 8 :: int"
abbreviation (input) "SIGKILL \<equiv> 9 :: int"
abbreviation (input) "SIGSEGV \<equiv> 11 :: int"
abbreviation (input) "SIGCHLD \<equiv> 17 :: int"
abbreviation (input) "SIGCONT \<equiv> 18 :: int"
abbreviation (input) "SIGSTOP \<equiv> 19 :: int"
abbreviation (input) "SIGTSTP \<equiv> 20 :: int"
abbreviation (input) "SIGTTIN \<equiv> 21 :: int"
abbreviation (input) "SIGTTOU \<equiv> 22 :: int"
abbreviation (input) "SIGURG \<equiv> 23 :: int"
abbreviation (input) "SIGWINCH \<equiv> 28 :: int"
abbreviation (input) "SIGIO \<equiv> 29 :: int"
abbreviation (input) "SIGRTMIN \<equiv> 32 :: int"
abbreviation (input) "SIGRTMAX \<equiv> 64 :: int"

abbreviation (input) "TARGET_SIG_DFL \<equiv> 0 :: u32"
abbreviation (input) "TARGET_SIG_IGN \<equiv> 1 :: u32"
abbreviation (input) "TARGET_SIG_ERR \<equiv> - 1 :: u32"
abbreviation (input) "TARGET_SA_SIGINFO \<equiv> 4 :: u32"
abbreviation (input) "TARGET_SA_RESTORER \<equiv> 0x04000000 :: u32"
abbreviation (input) "TARGET_SA_ONSTACK \<equiv> 0x08000000 :: u32"
abbreviation (input) "TARGET_SA_RESTART \<equiv> 0x10000000 :: u32"
abbreviation (input) "TARGET_SA_NODEFER \<equiv> 0x40000000 :: u32"
abbreviation (input) "TARGET_SA_RESETHAND \<equiv> 0x80000000 :: u32"
abbreviation (input) "TARGET_SS_ONSTACK \<equiv> 1 :: u32"
abbreviation (input) "TARGET_SS_DISABLE \<equiv> 2 :: u32"
abbreviation (input) "MINSIGSTKSZ \<equiv> 2048 :: u32"
abbreviation (input) "MAX_SIGQUEUE_SIZE \<equiv> 1024 :: int"
abbreviation (input) "EAGAIN \<equiv> 11 :: int"
abbreviation (input) "TARGET_EPERM \<equiv> 1 :: int"
abbreviation (input) "TARGET_ENOMEM \<equiv> 12 :: int"
abbreviation (input) "TARGET_EFAULT \<equiv> 14 :: int"
abbreviation (input) "TARGET_EINVAL \<equiv> 22 :: int"

section \<open>State\<close>

text \<open>\<^verbatim>\<open>target_siginfo_t\<close>; the union \<^verbatim>\<open>_sifields\<close> is its 29 words.\<close>

record target_siginfo =
  si_signo :: u32
  si_errno :: u32
  si_code :: u32
  sifields :: "u32 list"

text \<open>What the program reads of the host's \<^verbatim>\<open>siginfo_t\<close>.\<close>

record host_siginfo =
  h_signo :: u32
  h_code :: u32
  h_fd :: u32
  h_pid :: u32
  h_uid :: u32
  h_sival_ptr :: u32

text \<open>
  A pointer to a \<^verbatim>\<open>struct sigqueue\<close>: the entry embedded in \<^verbatim>\<open>sigtab[i]\<close>, or an entry of the pool
  \<^verbatim>\<open>sigqueue_table\<close>.
\<close>

datatype sigq_ptr = Sig_info int | Sig_pool int

record sigqueue =
  q_next :: "sigq_ptr option"
  q_info :: target_siginfo

record emulated_sigtable =
  pending :: bool
  first :: "sigq_ptr option"

record target_sigaction =
  sa_handler :: u32
  sa_flags :: u32
  sa_restorer :: u32
  sa_mask :: "u32 list"

record target_sigaltstack =
  ss_sp :: u32
  ss_flags :: u32
  ss_size :: u32

text \<open>The action the host's kernel has for a signal, and the flags it was installed with.\<close>

datatype host_handler = Host_DFL | Host_IGN | Host_signal_handler

record host_action =
  ha_handler :: host_handler
  ha_restart :: bool

text \<open>
  The statics of \<^verbatim>\<open>signal.c\<close>, the signal part of the thread's \<^verbatim>\<open>TaskState\<close> (\<open>qstore\<close> is the contents of the
  entries), the registers of the guest that delivery looks at, the guest's memory and page table, and
  the host's side: the kernel's actions, the mask of blocked signals and the signals the process sent
  itself.
\<close>

record signal_state =
  host_to_target_signal_table :: "int \<Rightarrow> u8"
  target_to_host_signal_table :: "int \<Rightarrow> u8"
  sigact_table :: "int \<Rightarrow> target_sigaction"
  sigaltstack_used :: target_sigaltstack
  sigtab :: "int \<Rightarrow> emulated_sigtable"
  qstore :: "sigq_ptr \<Rightarrow> sigqueue"
  first_free :: "sigq_ptr option"
  signal_pending :: bool
  r_esp :: u32
  seg_ss :: u32
  eflags :: u32
  v86_addr :: u32
  guest_mem :: memory
  vm :: vm_state
  host_actions :: "int \<Rightarrow> host_action"
  host_mask :: "int set"
  sent :: "int list"

section \<open>Conversion tables and signal sets\<close>

text \<open>
  The initialiser gives every signal of the guest the host's number, but for the first and last
  real-time signal, which it swaps; entry 0 and the entries it does not name are 0.
\<close>

definition initial_signal_table :: "int \<Rightarrow> u8" where
  "initial_signal_table i =
     (if 1 \<le> i \<and> i \<le> 31 then word_of_int i
      else if i = SIGRTMIN then word_of_int SIGRTMAX
      else if i = SIGRTMAX then word_of_int SIGRTMIN
      else 0)"

definition host_to_target_signal :: "signal_state \<Rightarrow> int \<Rightarrow> int outcome" where
  "host_to_target_signal s sig =
     (if sig \<ge> NSIG then Inr sig
      else if sig < 0 then Inl Out_Of_Bounds
      else Inr (uint (host_to_target_signal_table s sig)))"

definition target_to_host_signal :: "signal_state \<Rightarrow> int \<Rightarrow> int outcome" where
  "target_to_host_signal s sig =
     (if sig \<ge> NSIG then Inr sig
      else if sig < 0 then Inl Out_Of_Bounds
      else Inr (uint (target_to_host_signal_table s sig)))"

text \<open>
  The guest's signal set is two words.  For a signal number outside of 1 to 64 the index leaves the
  array or the shift is undefined.
\<close>

definition target_sigemptyset :: "u32 list" where
  "target_sigemptyset = [0, 0]"

definition target_sigaddset :: "u32 list \<Rightarrow> int \<Rightarrow> u32 list outcome" where
  "target_sigaddset ss signum =
     (if signum < 1 \<or> signum > TARGET_NSIG then Inl Out_Of_Bounds
      else let signum = nat (signum - 1); mask = push_bit (signum mod 32) 1
           in Inr (ss[signum div 32 := ss ! (signum div 32) OR mask]))"

definition target_sigismember :: "u32 list \<Rightarrow> int \<Rightarrow> bool outcome" where
  "target_sigismember ss signum =
     (if signum < 1 \<or> signum > TARGET_NSIG then Inl Out_Of_Bounds
      else let signum = nat (signum - 1); mask = push_bit (signum mod 32) 1
           in Inr (ss ! (signum div 32) AND mask \<noteq> 0))"

text \<open>The C library's \<^verbatim>\<open>sigaddset\<close> refuses numbers that are not signals; \<^verbatim>\<open>sigismember\<close> is membership.\<close>

definition sigaddset :: "int set \<Rightarrow> int \<Rightarrow> int set" where
  "sigaddset ss signo = (if 1 \<le> signo \<and> signo < NSIG then insert signo ss else ss)"

fun host_to_target_sigset_loop :: "signal_state \<Rightarrow> int set \<Rightarrow> int list \<Rightarrow> u32 list \<Rightarrow> u32 list outcome" where
  "host_to_target_sigset_loop s ss [] d = Inr d"
| "host_to_target_sigset_loop s ss (i # js) d =
     (if i \<in> ss
      then and_then (host_to_target_signal s i) (\<lambda>sig.
           and_then (target_sigaddset d sig) (host_to_target_sigset_loop s ss js))
      else host_to_target_sigset_loop s ss js d)"

definition host_to_target_sigset_internal :: "signal_state \<Rightarrow> int set \<Rightarrow> u32 list outcome" where
  "host_to_target_sigset_internal s ss = host_to_target_sigset_loop s ss [1..TARGET_NSIG] target_sigemptyset"

definition host_to_target_sigset :: "signal_state \<Rightarrow> int set \<Rightarrow> u32 list outcome" where
  "host_to_target_sigset s ss = and_then (host_to_target_sigset_internal s ss) (\<lambda>d1. Inr (map tswapl d1))"

fun target_to_host_sigset_loop :: "signal_state \<Rightarrow> u32 list \<Rightarrow> int list \<Rightarrow> int set \<Rightarrow> int set outcome" where
  "target_to_host_sigset_loop s ss [] d = Inr d"
| "target_to_host_sigset_loop s ss (i # js) d =
     and_then (target_sigismember ss i) (\<lambda>b.
       if b then and_then (target_to_host_signal s i) (\<lambda>sig.
                 target_to_host_sigset_loop s ss js (sigaddset d sig))
       else target_to_host_sigset_loop s ss js d)"

definition target_to_host_sigset_internal :: "signal_state \<Rightarrow> u32 list \<Rightarrow> int set outcome" where
  "target_to_host_sigset_internal s ss = target_to_host_sigset_loop s ss [1..TARGET_NSIG] {}"

definition target_to_host_sigset :: "signal_state \<Rightarrow> u32 list \<Rightarrow> int set outcome" where
  "target_to_host_sigset s ss = target_to_host_sigset_internal s (map tswapl ss)"

definition host_to_target_old_sigset :: "signal_state \<Rightarrow> int set \<Rightarrow> u32 outcome" where
  "host_to_target_old_sigset s sigset = and_then (host_to_target_sigset s sigset) (\<lambda>d. Inr (d ! 0))"

definition target_to_host_old_sigset :: "signal_state \<Rightarrow> u32 \<Rightarrow> int set outcome" where
  "target_to_host_old_sigset s old_sigset = target_to_host_sigset s [old_sigset, 0]"

section \<open>Signal information\<close>

definition host_to_target_siginfo_noswap :: "signal_state \<Rightarrow> target_siginfo \<Rightarrow> host_siginfo \<Rightarrow> target_siginfo outcome" where
  "host_to_target_siginfo_noswap s tinfo info =
     and_then (host_to_target_signal s (sint (h_signo info))) (\<lambda>sig.
       let tinfo = tinfo\<lparr>si_signo := word_of_int sig, si_errno := 0, si_code := h_code info\<rparr> in
       Inr (if sig = SIGILL \<or> sig = SIGFPE \<or> sig = SIGSEGV \<or> sig = SIGBUS \<or> sig = SIGTRAP
            then tinfo\<lparr>sifields := (sifields tinfo)[0 := 0]\<rparr>
            else if sig = SIGIO then tinfo\<lparr>sifields := (sifields tinfo)[1 := h_fd info]\<rparr>
            else if sig \<ge> SIGRTMIN
            then tinfo\<lparr>sifields := (sifields tinfo)[0 := h_pid info, 1 := h_uid info, 2 := h_sival_ptr info]\<rparr>
            else tinfo))"

text \<open>The copy made by \<^verbatim>\<open>tswap_siginfo\<close> has only the fields of the signal's member of the union.\<close>

definition tswap_siginfo :: "target_siginfo \<Rightarrow> target_siginfo \<Rightarrow> target_siginfo" where
  "tswap_siginfo tinfo info =
     (let sig = sint (si_signo info); f = sifields info;
          tinfo = tinfo\<lparr>si_signo := tswap32 (word_of_int sig), si_errno := tswap32 (si_errno info), si_code := tswap32 (si_code info)\<rparr>
      in if sig = SIGILL \<or> sig = SIGFPE \<or> sig = SIGSEGV \<or> sig = SIGBUS \<or> sig = SIGTRAP
         then tinfo\<lparr>sifields := (sifields tinfo)[0 := tswapl (f ! 0)]\<rparr>
         else if sig = SIGIO then tinfo\<lparr>sifields := (sifields tinfo)[1 := tswap32 (f ! 1)]\<rparr>
         else if sig \<ge> SIGRTMIN
         then tinfo\<lparr>sifields := (sifields tinfo)[0 := tswap32 (f ! 0), 1 := tswap32 (f ! 1), 2 := tswapl (f ! 2)]\<rparr>
         else tinfo)"

definition host_to_target_siginfo :: "signal_state \<Rightarrow> target_siginfo \<Rightarrow> host_siginfo \<Rightarrow> target_siginfo outcome" where
  "host_to_target_siginfo s tinfo info =
     and_then (host_to_target_siginfo_noswap s tinfo info) (\<lambda>tinfo. Inr (tswap_siginfo tinfo tinfo))"

definition target_to_host_siginfo :: "target_siginfo \<Rightarrow> host_siginfo \<Rightarrow> host_siginfo" where
  "target_to_host_siginfo tinfo info =
     info\<lparr>h_signo := tswap32 (si_signo tinfo), h_code := tswap32 (si_code tinfo),
          h_pid := tswap32 (sifields tinfo ! 0), h_uid := tswap32 (sifields tinfo ! 1),
          h_sival_ptr := tswapl (sifields tinfo ! 2)\<rparr>"

section \<open>Start-up\<close>

definition fatal_signal :: "int \<Rightarrow> bool" where
  "fatal_signal sig \<longleftrightarrow> sig \<notin> {SIGCHLD, SIGURG, SIGWINCH, SIGCONT, SIGSTOP, SIGTSTP, SIGTTIN, SIGTTOU}"

definition core_dump_signal :: "int \<Rightarrow> bool" where
  "core_dump_signal sig \<longleftrightarrow> sig \<in> {SIGABRT, SIGFPE, SIGILL, 3, SIGSEGV, SIGTRAP, SIGBUS}"

fun fill_table :: "int list \<Rightarrow> (int \<Rightarrow> u8) \<Rightarrow> int \<Rightarrow> u8" where
  "fill_table [] t = t"
| "fill_table (i # js) t = fill_table js (if t i = 0 then t(i := word_of_int i) else t)"

fun invert_table :: "int list \<Rightarrow> (int \<Rightarrow> u8) \<Rightarrow> (int \<Rightarrow> u8) \<Rightarrow> int \<Rightarrow> u8" where
  "invert_table [] t u = u"
| "invert_table (i # js) t u = invert_table js t (u(uint (t i) := word_of_int i))"

definition blank_sigaction :: target_sigaction where
  "blank_sigaction = \<lparr>sa_handler = 0, sa_flags = 0, sa_restorer = 0, sa_mask = [0, 0]\<rparr>"

definition init_action :: "signal_state \<Rightarrow> int \<Rightarrow> signal_state outcome" where
  "init_action s i =
     and_then (target_to_host_signal s i) (\<lambda>host_sig.
       let k = sigact_table s (i - 1); oact = ha_handler (host_actions s host_sig);
           s = (if oact = Host_IGN then s\<lparr>sigact_table := (sigact_table s)(i - 1 := k\<lparr>sa_handler := TARGET_SIG_IGN\<rparr>)\<rparr>
                else if oact = Host_DFL then s\<lparr>sigact_table := (sigact_table s)(i - 1 := k\<lparr>sa_handler := TARGET_SIG_DFL\<rparr>)\<rparr>
                else s)
       in Inr (if fatal_signal i
               then s\<lparr>host_actions := (host_actions s)(host_sig := \<lparr>ha_handler = Host_signal_handler, ha_restart = False\<rparr>)\<rparr>
               else s))"

fun init_actions :: "int list \<Rightarrow> signal_state \<Rightarrow> signal_state outcome" where
  "init_actions [] s = Inr s"
| "init_actions (i # js) s = and_then (init_action s i) (init_actions js)"

definition signal_init :: "signal_state \<Rightarrow> signal_state outcome" where
  "signal_init s =
     (let t = fill_table [1..NSIG - 1] (host_to_target_signal_table s);
          u = invert_table [1..NSIG - 1] t (target_to_host_signal_table s)
      in init_actions [1..TARGET_NSIG]
           (s\<lparr>host_to_target_signal_table := t, target_to_host_signal_table := u, sigact_table := (\<lambda>_. blank_sigaction)\<rparr>))"

text \<open>\<^verbatim>\<open>init_task_state\<close> links the pool into the free list; the contents of the task are zeroed before it.\<close>

fun link_pool :: "int list \<Rightarrow> (sigq_ptr \<Rightarrow> sigqueue) \<Rightarrow> sigq_ptr \<Rightarrow> sigqueue" where
  "link_pool [] q = q"
| "link_pool (i # js) q = link_pool js (q(Sig_pool i := (q (Sig_pool i))\<lparr>q_next := Some (Sig_pool (i + 1))\<rparr>))"

definition init_task_state :: "signal_state \<Rightarrow> signal_state" where
  "init_task_state s =
     (let i = MAX_SIGQUEUE_SIZE - 1;
          q = link_pool [0..MAX_SIGQUEUE_SIZE - 2] (qstore s)
      in s\<lparr>first_free := Some (Sig_pool 0), qstore := q(Sig_pool i := (q (Sig_pool i))\<lparr>q_next := None\<rparr>)\<rparr>)"

section \<open>Queueing a signal\<close>

definition alloc_sigqueue :: "signal_state \<Rightarrow> sigq_ptr option \<times> signal_state" where
  "alloc_sigqueue s =
     (case first_free s of
        None \<Rightarrow> (None, s)
      | Some q \<Rightarrow> (Some q, s\<lparr>first_free := q_next (qstore s q)\<rparr>))"

definition free_sigqueue :: "sigq_ptr \<Rightarrow> signal_state \<Rightarrow> signal_state" where
  "free_sigqueue q s =
     s\<lparr>qstore := (qstore s)(q := (qstore s q)\<lparr>q_next := first_free s\<rparr>), first_free := Some q\<rparr>"

text \<open>
  \<^verbatim>\<open>force_sig\<close> does not return: the process installs the default action for the host's signal, sends it
  to itself and waits for it.  The core file it may write before is not part of the state.
\<close>

definition force_sig :: "signal_state \<Rightarrow> int \<Rightarrow> 'a outcome" where
  "force_sig s target_sig = and_then (target_to_host_signal s target_sig) (\<lambda>host_sig. Inl (Killed_By host_sig))"

text \<open>The signals whose default action stops the process, and those it ignores.\<close>

definition stop_signal :: "int \<Rightarrow> bool" where
  "stop_signal sig \<longleftrightarrow> sig = SIGTSTP \<or> sig = SIGTTIN \<or> sig = SIGTTOU"

definition ignored_signal :: "int \<Rightarrow> bool" where
  "ignored_signal sig \<longleftrightarrow> sig = SIGCHLD \<or> sig = SIGURG \<or> sig = SIGWINCH \<or> sig = SIGCONT"

text \<open>
  The walk \<^verbatim>\<open>while (*pq != NULL) pq = &(*pq)->next\<close>: the place \<^verbatim>\<open>pq\<close> ends at is the field \<^verbatim>\<open>first\<close> (\<open>None\<close>) or
  the field \<^verbatim>\<open>next\<close> of an entry.
\<close>

partial_function (option) last_place :: "(sigq_ptr \<Rightarrow> sigqueue) \<Rightarrow> sigq_ptr option \<Rightarrow> sigq_ptr option \<Rightarrow> sigq_ptr option option" where
  "last_place st pq p = (case p of None \<Rightarrow> Some pq | Some a \<Rightarrow> last_place st (Some a) (q_next (st a)))"

definition store_place :: "int \<Rightarrow> sigq_ptr option \<Rightarrow> sigq_ptr \<Rightarrow> signal_state \<Rightarrow> signal_state" where
  "store_place i pq q s =
     (case pq of
        None \<Rightarrow> s\<lparr>sigtab := (sigtab s)(i := (sigtab s i)\<lparr>first := Some q\<rparr>)\<rparr>
      | Some a \<Rightarrow> s\<lparr>qstore := (qstore s)(a := (qstore s a)\<lparr>q_next := Some q\<rparr>)\<rparr>)"

definition queue_entry :: "int \<Rightarrow> sigq_ptr option \<Rightarrow> sigq_ptr \<Rightarrow> target_siginfo \<Rightarrow> signal_state \<Rightarrow> int \<times> signal_state" where
  "queue_entry i pq q info s =
     (let s = store_place i pq q s;
          s = s\<lparr>qstore := (qstore s)(q := \<lparr>q_next = None, q_info = info\<rparr>)\<rparr>;
          s = s\<lparr>sigtab := (sigtab s)(i := (sigtab s i)\<lparr>pending := True\<rparr>)\<rparr>
      in (1, s\<lparr>signal_pending := True\<rparr>))"

text \<open>
  \<^verbatim>\<open>queue_signal\<close>.  Its local \<^verbatim>\<open>queue\<close> is read without ever being assigned (the call that set it is commented
  out); its value is the argument \<open>queue\<close>.
\<close>

definition queue_signal :: "bool \<Rightarrow> int \<Rightarrow> target_siginfo \<Rightarrow> signal_state \<Rightarrow> (int \<times> signal_state) outcome" where
  "queue_signal queue sig info s =
     (if sig < 1 \<or> sig > TARGET_NSIG then Inl Out_Of_Bounds
      else
        let k = sigtab s (sig - 1); handler = sa_handler (sigact_table s (sig - 1)) in
        if \<not> queue \<and> handler = TARGET_SIG_DFL then
          (if stop_signal sig then Inr (0, s\<lparr>sent := SIGSTOP # sent s\<rparr>)
           else if \<not> ignored_signal sig then force_sig s sig
           else Inr (0, s))
        else if \<not> queue \<and> handler = TARGET_SIG_IGN then Inr (0, s)
        else if \<not> queue \<and> handler = TARGET_SIG_ERR then force_sig s sig
        else if sig < SIGRTMIN then
          (if \<not> pending k then Inr (queue_entry (sig - 1) None (Sig_info (sig - 1)) info s) else Inr (0, s))
        else if \<not> pending k then Inr (queue_entry (sig - 1) None (Sig_info (sig - 1)) info s)
        else
          let (q, s) = alloc_sigqueue s in
          case q of
            None \<Rightarrow> Inr (- EAGAIN, s)
          | Some q \<Rightarrow>
              (case last_place (qstore s) None (first k) of
                 None \<Rightarrow> Inl Never_Returns
               | Some pq \<Rightarrow> Inr (queue_entry (sig - 1) pq q info s)))"

text \<open>
  The handler the program installs for the host's signals.  \<^verbatim>\<open>cpu_signal_handler\<close> and \<^verbatim>\<open>cpu_exit\<close> do
  nothing but abort in this program.
\<close>

definition cpu_signal_handler :: "int \<Rightarrow> int outcome" where
  "cpu_signal_handler host_signum = Inl Aborted"

definition cpu_exit :: "signal_state \<Rightarrow> signal_state outcome" where
  "cpu_exit s = Inl Aborted"

definition host_signal_rest :: "bool \<Rightarrow> target_siginfo \<Rightarrow> int \<Rightarrow> host_siginfo \<Rightarrow> signal_state \<Rightarrow> signal_state outcome" where
  "host_signal_rest queue tinfo host_signum info s =
     and_then (host_to_target_signal s host_signum) (\<lambda>sig.
       if sig < 1 \<or> sig > TARGET_NSIG then Inr s
       else
         and_then (host_to_target_siginfo_noswap s tinfo info) (\<lambda>tinfo.
         and_then (queue_signal queue sig tinfo s) (\<lambda>(r, s). if r = 1 then cpu_exit s else Inr s)))"

definition host_signal_handler :: "bool \<Rightarrow> target_siginfo \<Rightarrow> int \<Rightarrow> host_siginfo \<Rightarrow> signal_state \<Rightarrow> signal_state outcome" where
  "host_signal_handler queue tinfo host_signum info s =
     (if (host_signum = SIGSEGV \<or> host_signum = SIGBUS) \<and> 0 <s h_code info
      then and_then (cpu_signal_handler host_signum) (\<lambda>r.
             if r \<noteq> 0 then Inr s else host_signal_rest queue tinfo host_signum info s)
      else host_signal_rest queue tinfo host_signum info s)"

section \<open>Actions and the alternate stack\<close>

definition on_sig_stack :: "signal_state \<Rightarrow> u32 \<Rightarrow> bool" where
  "on_sig_stack s sp \<longleftrightarrow> sp - ss_sp (sigaltstack_used s) < ss_size (sigaltstack_used s)"

definition sas_ss_flags :: "signal_state \<Rightarrow> u32 \<Rightarrow> u32" where
  "sas_ss_flags s sp =
     (if ss_size (sigaltstack_used s) = 0 then TARGET_SS_DISABLE
      else if on_sig_stack s sp then TARGET_SS_ONSTACK else 0)"

text \<open>\<^verbatim>\<open>copy_to_user\<close> of \<^verbatim>\<open>src/linux-user/uaccess.c\<close>.  The guest's memory is addressed by the guest's addresses.\<close>

definition copy_to_user :: "u32 \<Rightarrow> u8 list \<Rightarrow> signal_state \<Rightarrow> (int \<times> signal_state) outcome" where
  "copy_to_user gaddr bs s =
     and_then (lock_user VERIFY_WRITE gaddr (of_nat (length bs)) (vm s)) (\<lambda>(p, v).
       let s = s\<lparr>vm := v\<rparr> in
       Inr (if p \<noteq> 0 then (0, s\<lparr>guest_mem := write_bytes (guest_mem s) gaddr bs\<rparr>) else (- TARGET_EFAULT, s)))"

text \<open>The second half of \<^verbatim>\<open>do_sigaltstack\<close>, which stores the old values.\<close>

definition altstack_out :: "u32 \<Rightarrow> target_sigaltstack \<Rightarrow> signal_state \<Rightarrow> (int \<times> signal_state) outcome" where
  "altstack_out uoss_addr oss s =
     (if uoss_addr \<noteq> 0
      then and_then (copy_to_user uoss_addr (bytes32 (ss_sp oss) @ bytes32 (ss_flags oss) @ bytes32 (ss_size oss)) s)
             (\<lambda>(r, s). Inr (if r \<noteq> 0 then - TARGET_EFAULT else 0, s))
      else Inr (0, s))"

definition do_sigaltstack :: "u32 \<Rightarrow> u32 \<Rightarrow> u32 \<Rightarrow> signal_state \<Rightarrow> (int \<times> signal_state) outcome" where
  "do_sigaltstack uss_addr uoss_addr sp s =
     (let u = sigaltstack_used s;
          oss = \<lparr>ss_sp = ss_sp u, ss_flags = sas_ss_flags s sp, ss_size = ss_size u\<rparr> in
      if uss_addr \<noteq> 0 then
        and_then (lock_user VERIFY_READ uss_addr 12 (vm s)) (\<lambda>(p, v).
          let s = s\<lparr>vm := v\<rparr>; m = guest_mem s;
              sp' = ld32 m uss_addr; flags = ld32 m (uss_addr + 4); sz = ld32 m (uss_addr + 8) in
          if p = 0 then Inr (- TARGET_EFAULT, s)
          else if on_sig_stack s sp then Inr (- TARGET_EPERM, s)
          else if flags \<noteq> TARGET_SS_DISABLE \<and> flags \<noteq> TARGET_SS_ONSTACK \<and> flags \<noteq> 0 then Inr (- TARGET_EINVAL, s)
          else if flags = TARGET_SS_DISABLE then
            altstack_out uoss_addr oss (s\<lparr>sigaltstack_used := (sigaltstack_used s)\<lparr>ss_sp := 0, ss_size := 0\<rparr>\<rparr>)
          else if sz < MINSIGSTKSZ then Inr (- TARGET_ENOMEM, s)
          else altstack_out uoss_addr oss (s\<lparr>sigaltstack_used := (sigaltstack_used s)\<lparr>ss_sp := sp', ss_size := sz\<rparr>\<rparr>))
      else altstack_out uoss_addr oss s)"

text \<open>
  \<^verbatim>\<open>do_sigaction\<close>; the second component is what it stores at \<^verbatim>\<open>oact\<close> when the caller asks for it.
  \<open>answer_to\<close> is the host kernel's answer to \<^verbatim>\<open>sigaction\<close>, which changes its table when it answers 0.
\<close>

definition host_disposition :: "int \<Rightarrow> target_sigaction \<Rightarrow> host_action" where
  "host_disposition sig k =
     \<lparr>ha_handler = (if sa_handler k = TARGET_SIG_IGN then Host_IGN
                    else if sa_handler k = TARGET_SIG_DFL then (if fatal_signal sig then Host_signal_handler else Host_DFL)
                    else Host_signal_handler),
      ha_restart = (sa_flags k AND TARGET_SA_RESTART \<noteq> 0)\<rparr>"

definition swap_action :: "target_sigaction \<Rightarrow> target_sigaction" where
  "swap_action k = \<lparr>sa_handler = tswapl (sa_handler k), sa_flags = tswapl (sa_flags k),
     sa_restorer = tswapl (sa_restorer k), sa_mask = sa_mask k\<rparr>"

definition do_sigaction ::
    "(int \<Rightarrow> host_action \<Rightarrow> int) \<Rightarrow> int \<Rightarrow> target_sigaction option \<Rightarrow> signal_state \<Rightarrow> (int \<times> target_sigaction option \<times> signal_state) outcome" where
  "do_sigaction answer_to sig act s =
     (if sig < 1 \<or> sig > TARGET_NSIG \<or> sig = SIGKILL \<or> sig = SIGSTOP then Inr (- TARGET_EINVAL, None, s)
      else
        let oact = swap_action (sigact_table s (sig - 1)) in
        case act of
          None \<Rightarrow> Inr (0, Some oact, s)
        | Some act \<Rightarrow>
            let k = swap_action act; s = s\<lparr>sigact_table := (sigact_table s)(sig - 1 := k)\<rparr> in
            and_then (target_to_host_signal s sig) (\<lambda>host_sig.
              if host_sig \<noteq> SIGSEGV \<and> host_sig \<noteq> SIGBUS then
                (let act1 = host_disposition sig k; r = answer_to host_sig act1 in
                 Inr (r, Some oact, if r = 0 then s\<lparr>host_actions := (host_actions s)(host_sig := act1)\<rparr> else s))
              else Inr (0, Some oact, s)))"


section \<open>Delivery\<close>

text \<open>
  The FPU and segment registers are not emulated: the helpers for them only abort.  What follows a call
  of one of them is never reached, and is left out of the definitions below.
\<close>

definition cpu_x86_fsave :: "u32 \<Rightarrow> 'a outcome" where
  "cpu_x86_fsave ptr = Inl Aborted"

definition cpu_x86_load_seg :: "u32 \<Rightarrow> 'a outcome" where
  "cpu_x86_load_seg selector = Inl Aborted"

abbreviation (input) "USER_DS \<equiv> 0x2b :: u32"
abbreviation (input) "VM_MASK \<equiv> 0x20000 :: u32"

text \<open>The sizes of \<^verbatim>\<open>struct sigframe\<close>, \<^verbatim>\<open>struct rt_sigframe\<close> and \<^verbatim>\<open>struct target_vm86plus_struct\<close>.\<close>

abbreviation (input) "sizeof_sigframe \<equiv> 732 :: u32"
abbreviation (input) "sizeof_rt_sigframe \<equiv> 892 :: u32"
abbreviation (input) "sizeof_vm86plus \<equiv> 196 :: u32"

definition get_sigframe :: "target_sigaction \<Rightarrow> signal_state \<Rightarrow> u32 \<Rightarrow> u32" where
  "get_sigframe ka s frame_size =
     (let u = sigaltstack_used s;
          esp = (if sa_flags ka AND TARGET_SA_ONSTACK \<noteq> 0
                 then (if sas_ss_flags s (r_esp s) = 0 then ss_sp u + ss_size u else r_esp s)
                 else if seg_ss s AND 0xffff \<noteq> USER_DS \<and> sa_flags ka AND TARGET_SA_RESTORER = 0 \<and> sa_restorer ka \<noteq> 0
                 then sa_restorer ka
                 else r_esp s)
      in (esp - frame_size) AND - 8)"

text \<open>
  \<^verbatim>\<open>setup_frame\<close> and \<^verbatim>\<open>setup_rt_frame\<close> up to the \<^verbatim>\<open>cpu_x86_fsave\<close> of \<^verbatim>\<open>setup_sigcontext\<close>, which comes after the
  stores to the frame; the offsets are those of the member \<^verbatim>\<open>fpstate\<close>.
\<close>

definition setup_frame :: "int \<Rightarrow> target_sigaction \<Rightarrow> u32 list \<Rightarrow> signal_state \<Rightarrow> signal_state outcome" where
  "setup_frame sig ka ss s =
     (let frame_addr = get_sigframe ka s sizeof_sigframe in
      and_then (lock_user VERIFY_WRITE frame_addr sizeof_sigframe (vm s)) (\<lambda>(frame, v).
        if frame = 0 then force_sig s SIGSEGV else cpu_x86_fsave (frame_addr + 96)))"

definition setup_rt_frame :: "int \<Rightarrow> target_sigaction \<Rightarrow> target_siginfo \<Rightarrow> u32 list \<Rightarrow> signal_state \<Rightarrow> signal_state outcome" where
  "setup_rt_frame sig ka info ss s =
     (let frame_addr = get_sigframe ka s sizeof_rt_sigframe in
      and_then (lock_user VERIFY_WRITE frame_addr sizeof_rt_sigframe (vm s)) (\<lambda>(frame, v).
        if frame = 0 then force_sig s SIGSEGV else cpu_x86_fsave (frame_addr + 260)))"

definition save_v86_state :: "signal_state \<Rightarrow> signal_state outcome" where
  "save_v86_state s =
     and_then (lock_user VERIFY_WRITE (v86_addr s) sizeof_vm86plus (vm s)) (\<lambda>(p, v).
       if p = 0 then Inr (s\<lparr>vm := v\<rparr>) else cpu_x86_load_seg 0)"

text \<open>
  \<^verbatim>\<open>do_sigreturn\<close> and \<^verbatim>\<open>do_rt_sigreturn\<close>, up to the first \<^verbatim>\<open>cpu_x86_load_seg\<close> of \<^verbatim>\<open>restore_sigcontext\<close>; the guest's
  mask is read from the frame first.
\<close>

definition restore_sigcontext :: "u32 \<Rightarrow> signal_state \<Rightarrow> int outcome" where
  "restore_sigcontext sc s = cpu_x86_load_seg (ucast (ld16 (guest_mem s) sc))"

definition do_sigreturn :: "signal_state \<Rightarrow> (int \<times> signal_state) outcome" where
  "do_sigreturn s =
     (let frame_addr = r_esp s - 8 in
      and_then (lock_user VERIFY_READ frame_addr sizeof_sigframe (vm s)) (\<lambda>(frame, v).
        if frame = 0 then force_sig s SIGSEGV
        else
          let ss = [ld32 (guest_mem s) (frame_addr + 88), ld32 (guest_mem s) (frame_addr + 720)] in
          and_then (target_to_host_sigset_internal s ss) (\<lambda>set.
          and_then (restore_sigcontext (frame_addr + 8) s) (\<lambda>r.
            if r \<noteq> 0 then force_sig s SIGSEGV else Inr (r, s\<lparr>host_mask := set\<rparr>)))))"

definition do_rt_sigreturn :: "signal_state \<Rightarrow> (int \<times> signal_state) outcome" where
  "do_rt_sigreturn s =
     (let frame_addr = r_esp s - 4 in
      and_then (lock_user VERIFY_READ frame_addr sizeof_rt_sigframe (vm s)) (\<lambda>(frame, v).
        if frame = 0 then force_sig s SIGSEGV
        else
          let ss = [ld32 (guest_mem s) (frame_addr + 252), ld32 (guest_mem s) (frame_addr + 256)] in
          and_then (target_to_host_sigset s ss) (\<lambda>set.
          and_then (restore_sigcontext (frame_addr + 164) s) (\<lambda>r.
            if r \<noteq> 0 then force_sig s SIGSEGV else Inr (r, s\<lparr>host_mask := set\<rparr>)))))"

text \<open>What \<^verbatim>\<open>process_pending_signals\<close> does with the signal it has taken from its queue.\<close>

definition run_handler :: "int \<Rightarrow> target_siginfo \<Rightarrow> signal_state \<Rightarrow> signal_state outcome" where
  "run_handler sig info s =
     (let sa = sigact_table s (sig - 1) in
      and_then (target_to_host_sigset s (sa_mask sa)) (\<lambda>set.
      and_then (target_to_host_signal s sig) (\<lambda>host_sig.
        let set = (if sa_flags sa AND TARGET_SA_NODEFER = 0 then sigaddset set host_sig else set);
            old_set = host_mask s; s = s\<lparr>host_mask := host_mask s \<union> set\<rparr> in
        and_then (host_to_target_sigset_internal s old_set) (\<lambda>target_old_set.
        and_then (if eflags s AND VM_MASK \<noteq> 0 then save_v86_state s else Inr s) (\<lambda>s.
        and_then (if sa_flags sa AND TARGET_SA_SIGINFO \<noteq> 0 then setup_rt_frame sig sa info target_old_set s
                  else setup_frame sig sa target_old_set s) (\<lambda>s.
          Inr (if sa_flags sa AND TARGET_SA_RESETHAND \<noteq> 0
               then s\<lparr>sigact_table := (sigact_table s)(sig - 1 := (sigact_table s (sig - 1))\<lparr>sa_handler := TARGET_SIG_DFL\<rparr>)\<rparr>
               else s)))))))"

definition deliver_signal :: "int \<Rightarrow> target_siginfo \<Rightarrow> signal_state \<Rightarrow> signal_state outcome" where
  "deliver_signal sig info s =
     (let handler = sa_handler (sigact_table s (sig - 1)) in
      if handler = TARGET_SIG_DFL then
        (if stop_signal sig then Inr (s\<lparr>sent := SIGSTOP # sent s\<rparr>)
         else if \<not> ignored_signal sig then force_sig s sig
         else Inr s)
      else if handler = TARGET_SIG_IGN then Inr s
      else if handler = TARGET_SIG_ERR then force_sig s sig
      else run_handler sig info s)"

text \<open>The loop over \<^verbatim>\<open>sigtab\<close>: the first signal with an entry pending.\<close>

fun first_pending :: "signal_state \<Rightarrow> int list \<Rightarrow> int option" where
  "first_pending s [] = None"
| "first_pending s (sig # sigs) = (if pending (sigtab s (sig - 1)) then Some sig else first_pending s sigs)"

definition dequeue_signal :: "int \<Rightarrow> sigq_ptr \<Rightarrow> signal_state \<Rightarrow> signal_state" where
  "dequeue_signal i q s =
     (let n = q_next (qstore s q); k = (sigtab s i)\<lparr>first := n\<rparr>
      in s\<lparr>sigtab := (sigtab s)(i := if n = None then k\<lparr>pending := False\<rparr> else k)\<rparr>)"

definition process_pending_signals :: "signal_state \<Rightarrow> signal_state outcome" where
  "process_pending_signals s =
     (if \<not> signal_pending s then Inr s
      else case first_pending s [1..TARGET_NSIG] of
        None \<Rightarrow> Inr (s\<lparr>signal_pending := False\<rparr>)
      | Some sig \<Rightarrow>
          (case first (sigtab s (sig - 1)) of
             None \<Rightarrow> Inl Null_Dereference
           | Some q \<Rightarrow>
               and_then (deliver_signal sig (q_info (qstore s q)) (dequeue_signal (sig - 1) q s)) (\<lambda>s.
                 Inr (if q \<noteq> Sig_info (sig - 1) then free_sigqueue q s else s))))"

section \<open>The conversion tables\<close>

text \<open>The renumbering the tables stand for: it swaps the first and the last real-time signal.\<close>

definition swap_rt :: "int \<Rightarrow> int" where
  "swap_rt sig = (if sig = SIGRTMIN then SIGRTMAX else if sig = SIGRTMAX then SIGRTMIN else sig)"

lemma swap_rt_swap_rt [simp]: "swap_rt (swap_rt sig) = sig"
  by (simp add: swap_rt_def)

lemma swap_rt_ge [simp]: "1 \<le> swap_rt sig \<longleftrightarrow> 1 \<le> sig" "0 < swap_rt sig \<longleftrightarrow> 0 < sig"
  by (auto simp: swap_rt_def)

lemma swap_rt_le [simp]: "swap_rt sig \<le> 64 \<longleftrightarrow> sig \<le> 64" "swap_rt sig < 65 \<longleftrightarrow> sig < 65"
  by (auto simp: swap_rt_def)

definition tables_ok :: "signal_state \<Rightarrow> bool" where
  "tables_ok s \<longleftrightarrow> (\<forall>sig. 1 \<le> sig \<longrightarrow> sig \<le> 64 \<longrightarrow>
     host_to_target_signal s sig = Inr (swap_rt sig) \<and> target_to_host_signal s sig = Inr (swap_rt sig))"

lemma fill_table_at: "distinct js \<Longrightarrow> fill_table js t i = (if i \<in> set js \<and> t i = 0 then word_of_int i else t i)"
  by (induction js arbitrary: t) auto

lemma invert_table_notin: "j \<notin> (\<lambda>i. uint (t i)) ` set js \<Longrightarrow> invert_table js t u j = u j"
  by (induction js arbitrary: u) auto

lemma invert_table_at:
  "inj_on (\<lambda>i. uint (t i)) (set js) \<Longrightarrow> distinct js \<Longrightarrow> i \<in> set js \<Longrightarrow> invert_table js t u (uint (t i)) = word_of_int i"
proof (induction js arbitrary: u)
  case (Cons j js)
  show ?case
  proof (cases "i = j")
    case True
    then have "uint (t i) \<notin> (\<lambda>i. uint (t i)) ` set js" using Cons.prems by (auto simp: inj_on_def)
    then show ?thesis using True by (simp add: invert_table_notin)
  qed (use Cons in auto)
qed simp

lemma uint_byte: "1 \<le> i \<Longrightarrow> i \<le> 64 \<Longrightarrow> uint (word_of_int i :: u8) = i"
  by (simp add: uint_word_of_int)

lemma filled_table:
  assumes "1 \<le> i" "i \<le> 64"
  shows "fill_table [1..64] initial_signal_table i = word_of_int (swap_rt i)"
proof -
  have "word_of_int i \<noteq> (0 :: u8)" using assms uint_byte [of i] by (auto simp flip: uint_0_iff)
  then show ?thesis using assms by (auto simp: fill_table_at initial_signal_table_def swap_rt_def)
qed

lemma init_action_tables:
  assumes "init_action s j = Inr t"
  shows "host_to_target_signal_table t = host_to_target_signal_table s \<and> target_to_host_signal_table t = target_to_host_signal_table s"
proof -
  obtain h where "target_to_host_signal s j = Inr h" using assms by (auto simp: init_action_def)
  then show ?thesis using assms [symmetric] unfolding init_action_def by (simp add: Let_def)
qed

lemma init_actions_tables:
  "init_actions js s = Inr s' \<Longrightarrow> host_to_target_signal_table s' = host_to_target_signal_table s \<and>
     target_to_host_signal_table s' = target_to_host_signal_table s"
proof (induction js arbitrary: s)
  case (Cons j js)
  obtain t where t: "init_action s j = Inr t" "init_actions js t = Inr s'" using Cons.prems by auto
  then show ?case using Cons.IH [OF t(2)] init_action_tables [OF t(1)] by simp
qed simp

lemma init_actions_returns: "\<forall>j\<in>set js. 0 \<le> j \<Longrightarrow> \<exists>s'. init_actions js s = Inr s'"
proof (induction js arbitrary: s)
  case (Cons j js)
  then have "\<exists>h. target_to_host_signal s j = Inr h" by (simp add: target_to_host_signal_def)
  then obtain h where h: "target_to_host_signal s j = Inr h" by blast
  obtain t where "init_action s j = Inr t" unfolding init_action_def h and_then_Inr Let_def by blast
  then show ?case using Cons by simp
qed simp

lemma signal_init_returns: "\<exists>s'. signal_init s = Inr s'"
  unfolding signal_init_def Let_def by (rule init_actions_returns) auto

lemma signal_init_tables:
  assumes "signal_init s = Inr s'" "host_to_target_signal_table s = initial_signal_table"
  shows "tables_ok s'"
proof -
  let ?t = "fill_table [1..64] initial_signal_table"
  have t: "host_to_target_signal_table s' = ?t" and
    u: "target_to_host_signal_table s' = invert_table [1..64] ?t (target_to_host_signal_table s)"
    using assms by (auto simp: signal_init_def Let_def dest!: init_actions_tables)
  have val: "uint (?t i) = swap_rt i" if "1 \<le> i" "i \<le> 64" for i
    using that by (simp add: filled_table uint_byte)
  have inj: "inj_on (\<lambda>i. uint (?t i)) (set [1..64])"
    by (rule inj_onI) (metis atLeastAtMost_iff set_upto swap_rt_swap_rt val)
  have "uint (target_to_host_signal_table s' sig) = swap_rt sig" if "1 \<le> sig" "sig \<le> 64" for sig
    using invert_table_at [OF inj, of "swap_rt sig" "target_to_host_signal_table s"] that val [of "swap_rt sig"] by (simp add: u uint_byte)
  then show ?thesis using val t by (simp add: tables_ok_def host_to_target_signal_def target_to_host_signal_def)
qed

section \<open>Signal sets\<close>

text \<open>The signals of a guest's set.\<close>

definition members :: "u32 list \<Rightarrow> int set" where
  "members ss = {sig. 1 \<le> sig \<and> sig \<le> 64 \<and> bit (ss ! (nat (sig - 1) div 32)) (nat (sig - 1) mod 32)}"

lemma target_sigismember_eq: "1 \<le> sig \<Longrightarrow> sig \<le> 64 \<Longrightarrow> target_sigismember ss sig = Inr (sig \<in> members ss)"
  by (simp add: target_sigismember_def members_def Let_def and_exp_eq_0_iff_not_bit)

lemma members_addset:
  assumes "length ss = 2" "1 \<le> sig" "sig \<le> 64" "target_sigaddset ss sig = Inr ss'"
  shows "length ss' = 2" "members ss' = insert sig (members ss)"
proof -
  let ?n = "nat (sig - 1)"
  have ss': "ss' = ss[?n div 32 := ss ! (?n div 32) OR push_bit (?n mod 32) 1]"
    using assms by (simp add: target_sigaddset_def Let_def)
  then show "length ss' = 2" using assms by simp
  have "bit (ss' ! (m div 32)) (m mod 32) \<longleftrightarrow> m = ?n \<or> bit (ss ! (m div 32)) (m mod 32)" if "m < 64" for m
  proof (cases "m div 32 = ?n div 32")
    case True
    then have "m = ?n \<longleftrightarrow> m mod 32 = ?n mod 32" by (metis div_mult_mod_eq)
    then show ?thesis using True assms by (auto simp: ss' bit_simps)
  next
    case False
    then show ?thesis by (auto simp: ss')
  qed
  then show "members ss' = insert sig (members ss)" using assms by (auto simp: members_def)
qed

lemma members_eqI:
  assumes "length ss = 2" "length ss' = 2" "members ss = members ss'"
  shows "ss = ss'"
proof -
  have b: "bit (ss ! (m div 32)) (m mod 32) = bit (ss' ! (m div 32)) (m mod 32)" if "m < 64" for m
    using assms(3) that by (auto simp: members_def set_eq_iff dest: spec [of _ "int m + 1"])
  have "bit (ss ! j) n = bit (ss' ! j) n" if "j < 2" "n < 32" for j n
    using b [of "32 * j + n"] that by simp
  then show ?thesis using assms by (auto intro!: nth_equalityI bit_word_eqI)
qed


lemma host_to_target_loop:
  assumes "tables_ok s" "set js \<subseteq> {1..64}" "length d = 2"
  shows "\<exists>d'. host_to_target_sigset_loop s H js d = Inr d' \<and> length d' = 2 \<and> members d' = members d \<union> swap_rt ` (H \<inter> set js)"
  using assms
proof (induction js arbitrary: d)
  case (Cons j js)
  have j: "host_to_target_signal s j = Inr (swap_rt j)" "1 \<le> swap_rt j" "swap_rt j \<le> 64"
    using Cons.prems by (auto simp: tables_ok_def)
  then obtain d' where d': "target_sigaddset d (swap_rt j) = Inr d'"
    by (simp add: target_sigaddset_def Let_def)
  note add = members_addset [OF Cons.prems(3) j(2,3) d']
  show ?case
  proof (cases "j \<in> H")
    case True
    with Cons.IH [of d'] Cons.prems add show ?thesis by (auto simp: j d')
  next
    case False
    with Cons.IH [of d] Cons.prems show ?thesis by auto
  qed
qed simp

lemma target_to_host_loop:
  assumes "tables_ok s" "set js \<subseteq> {1..64}"
  shows "target_to_host_sigset_loop s ss js d = Inr (d \<union> swap_rt ` (members ss \<inter> set js))"
  using assms
proof (induction js arbitrary: d)
  case (Cons j js)
  have "target_to_host_signal s j = Inr (swap_rt j)" "sigaddset d (swap_rt j) = insert (swap_rt j) d"
    using Cons.prems by (auto simp: tables_ok_def sigaddset_def)
  moreover have "target_sigismember ss j = Inr (j \<in> members ss)" using Cons.prems by (simp add: target_sigismember_eq)
  ultimately show ?case using Cons by auto
qed simp

lemma members_range [simp]: "members ss \<inter> {1..64} = members ss"
  by (auto simp: members_def)

lemma members_empty [simp]: "members target_sigemptyset = {}"
proof -
  have "[0, 0 :: u32] ! n = 0" if "n < 2" for n using that by (cases n) auto
  then show ?thesis by (auto simp: members_def target_sigemptyset_def)
qed

lemma length_empty [simp]: "length target_sigemptyset = 2"
  by (simp add: target_sigemptyset_def)

lemma map_tswapl [simp]: "map tswapl ss = ss"
  by (induction ss) (simp_all add: tswap32_def)

text \<open>Both conversions are the renumbering, taken over the sets.\<close>

lemma target_to_host_sigset_eq:
  assumes "tables_ok s"
  shows "target_to_host_sigset s ss = Inr (swap_rt ` members ss)" "target_to_host_sigset_internal s ss = Inr (swap_rt ` members ss)"
  using target_to_host_loop [OF assms, of "[1..64]"]
  by (simp_all add: target_to_host_sigset_def target_to_host_sigset_internal_def)

lemma host_to_target_sigset_eq:
  assumes "tables_ok s"
  obtains ss where "host_to_target_sigset s H = Inr ss" "host_to_target_sigset_internal s H = Inr ss"
    "length ss = 2" "members ss = swap_rt ` (H \<inter> {1..64})"
  using host_to_target_loop [OF assms, of "[1..64]" target_sigemptyset H]
  by (auto simp: host_to_target_sigset_def host_to_target_sigset_internal_def)

end
