(* ===== verification/Signal_Queues.thy ===== *)
theory Signal_Queues
  imports Signals
begin

unbundle bit_operations_syntax

text \<open>
  The queues of pending signals as lists: who owns the entries of the pool, what \<^verbatim>\<open>queue_signal\<close> and
  \<^verbatim>\<open>process_pending_signals\<close> do to the lists, the contract of such queues and what follows from it, and
  the end of a process whose guest handles a signal.
\<close>

section \<open>The queues as lists\<close>

text \<open>The entries a pointer leads to.\<close>

primrec chain :: "(sigq_ptr \<Rightarrow> sigqueue) \<Rightarrow> sigq_ptr option \<Rightarrow> sigq_ptr list \<Rightarrow> bool" where
  "chain st p [] \<longleftrightarrow> p = None"
| "chain st p (a # as) \<longleftrightarrow> p = Some a \<and> chain st (q_next (st a)) as"

lemma chain_None [simp]: "chain st None xs \<longleftrightarrow> xs = []"
  by (cases xs) auto

lemma chain_Some [simp]: "chain st (Some a) xs \<longleftrightarrow> (\<exists>ys. xs = a # ys \<and> chain st (q_next (st a)) ys)"
  by (cases xs) auto

lemma chain_other [simp]: "a \<notin> set xs \<Longrightarrow> chain (st(a := v)) p xs = chain st p xs"
  by (induction xs arbitrary: p) auto

lemma last_place_chain: "chain st p xs \<Longrightarrow> last_place st pq p = Some (if xs = [] then pq else Some (last xs))"
  by (induction xs arbitrary: p pq) (subst last_place.simps, simp)+

text \<open>Appending the entry \<open>q\<close>: the last entry points to it, and it points nowhere.\<close>

lemma chain_snoc:
  assumes "chain st p xs" "xs \<noteq> []" "distinct xs" "q \<notin> set xs"
  shows "chain (st(last xs := (st (last xs))\<lparr>q_next := Some q\<rparr>, q := \<lparr>q_next = None, q_info = i\<rparr>)) p (xs @ [q])"
  using assms
proof (induction xs arbitrary: p)
  case (Cons a xs)
  show ?case
  proof (cases "xs = []")
    case False
    then have "last xs \<in> set xs" by simp
    with False Cons show ?thesis by (auto simp: fun_upd_twist)
  qed (use Cons.prems in auto)
qed simp

definition pool :: "sigq_ptr set" where
  "pool = Sig_pool ` {0..<MAX_SIGQUEUE_SIZE}"

lemma Sig_info_pool [simp]: "Sig_info i \<notin> pool"
  by (auto simp: pool_def)

text \<open>
  Who owns the entries: \<open>fs\<close> is the free list and \<open>ps i\<close> the queue of the signal \<open>i + 1\<close>, in order.  A queue
  holds its embedded entry only at its head, and entries of the pool; a signal that is not real-time
  has one entry at most; no entry is in two lists, and no entry of the pool is lost.
\<close>

definition queue_ok :: "signal_state \<Rightarrow> int \<Rightarrow> sigq_ptr list \<Rightarrow> bool" where
  "queue_ok s i ps \<longleftrightarrow>
     chain (qstore s) (first (sigtab s i)) ps \<and> pending (sigtab s i) = (ps \<noteq> []) \<and> distinct ps \<and>
     set ps \<subseteq> insert (Sig_info i) pool \<and> set (tl ps) \<subseteq> pool \<and> (i < 31 \<longrightarrow> length ps \<le> 1) \<and>
     (ps \<noteq> [] \<longrightarrow> signal_pending s)"

definition owners :: "signal_state \<Rightarrow> (int \<Rightarrow> sigq_ptr list) \<Rightarrow> sigq_ptr list \<Rightarrow> bool" where
  "owners s ps fs \<longleftrightarrow>
     chain (qstore s) (first_free s) fs \<and> distinct fs \<and> set fs \<subseteq> pool \<and>
     (\<forall>i\<in>{0..63}. queue_ok s i (ps i) \<and> set (ps i) \<inter> set fs = {}) \<and>
     (\<forall>i\<in>{0..63}. \<forall>j\<in>{0..63}. i \<noteq> j \<longrightarrow> set (ps i) \<inter> set (ps j) = {}) \<and>
     pool \<subseteq> set fs \<union> (\<Union>i\<in>{0..63}. set (ps i))"

text \<open>The abstract state: the information queued for each signal, oldest first, and the number of free entries.\<close>

definition signal_rel :: "signal_state \<Rightarrow> (int \<Rightarrow> target_siginfo list) \<Rightarrow> nat \<Rightarrow> bool" where
  "signal_rel s Q n \<longleftrightarrow> (\<exists>ps fs. owners s ps fs \<and> length fs = n \<and>
     (\<forall>i\<in>{0..63}. Q i = map (\<lambda>p. q_info (qstore s p)) (ps i)))"

lemma card_pool: "card pool = 1024"
  by (simp add: pool_def card_image inj_on_def)

lemma signal_rel_capacity:
  assumes "signal_rel s Q n"
  shows "1024 \<le> n + (\<Sum>i\<in>{0..63}. length (Q i))"
proof -
  obtain ps fs where o: "owners s ps fs" "length fs = n" "\<forall>i\<in>{0..63}. Q i = map (\<lambda>p. q_info (qstore s p)) (ps i)"
    using assms by (auto simp: signal_rel_def)
  have "card pool \<le> card (set fs \<union> (\<Union>i\<in>{0..63}. set (ps i)))"
    using o(1) by (auto simp: owners_def intro!: card_mono)
  also have "\<dots> \<le> card (set fs) + (\<Sum>i\<in>{0..63}. card (set (ps i)))"
    by (rule order.trans [OF card_Un_le]) (simp add: card_UN_le)
  also have "\<dots> \<le> length fs + (\<Sum>i\<in>{0..63}. length (ps i))"
    by (intro add_mono sum_mono card_length)
  finally show ?thesis using o by (simp add: card_pool)
qed

lemma signal_rel_cong:
  assumes "qstore s' = qstore s" "first_free s' = first_free s" "sigtab s' = sigtab s" "signal_pending s' = signal_pending s"
  shows "signal_rel s' Q n = signal_rel s Q n"
  using assms by (simp add: signal_rel_def owners_def queue_ok_def)

lemma link_pool_next:
  "q_next (link_pool js q (Sig_pool i)) = (if i \<in> set js then Some (Sig_pool (i + 1)) else q_next (q (Sig_pool i)))"
  by (induction js arbitrary: q) auto

lemma pool_chain:
  assumes "\<And>j. i \<le> j \<Longrightarrow> j < n \<Longrightarrow> q_next (st (Sig_pool j)) = Some (Sig_pool (j + 1))" "q_next (st (Sig_pool n)) = None" "i \<le> n"
  shows "chain st (Some (Sig_pool i)) (map Sig_pool [i..n])"
  using assms
proof (induction "[i..n]" arbitrary: i)
  case (Cons a as)
  show ?case
  proof (cases "i = n")
    case False
    then have i: "[i..n] = i # [i + 1..n]" "i < n" using Cons.prems by (auto simp: upto_rec1)
    then have "chain st (Some (Sig_pool (i + 1))) (map Sig_pool [i + 1..n])"
      using Cons.hyps(2) Cons.prems by (intro Cons.hyps(1)) auto
    then show ?thesis using i Cons.prems(1) [of i] by simp
  qed (use Cons.prems in simp)
qed simp

lemma init_task_state_rel:
  assumes "\<And>i. 0 \<le> i \<Longrightarrow> i \<le> 63 \<Longrightarrow> \<not> pending (sigtab s i) \<and> first (sigtab s i) = None"
  shows "signal_rel (init_task_state s) (\<lambda>_. []) 1024"
proof -
  let ?s = "init_task_state s" and ?fs = "map Sig_pool [0..1023]"
  have st: "sigtab ?s = sigtab s" "first_free ?s = Some (Sig_pool 0)"
    by (simp_all add: init_task_state_def Let_def)
  have nx: "q_next (qstore ?s (Sig_pool j)) = (if j = 1023 then None else if 0 \<le> j \<and> j < 1023 then Some (Sig_pool (j + 1)) else q_next (qstore s (Sig_pool j)))" for j
    by (simp add: init_task_state_def Let_def link_pool_next)
  have "chain (qstore ?s) (first_free ?s) ?fs"
    unfolding st by (rule pool_chain) (simp_all add: nx)
  moreover have "distinct ?fs" by (simp add: distinct_map inj_on_def)
  moreover have "set ?fs = pool" by (auto simp: pool_def)
  ultimately have "owners ?s (\<lambda>_. []) ?fs" using assms by (simp add: owners_def queue_ok_def st)
  then show ?thesis unfolding signal_rel_def by (intro exI [of _ "\<lambda>_. []"] exI [of _ ?fs]) simp
qed

section \<open>Queueing\<close>

text \<open>A queue of another signal does not notice a change of an entry it does not own.\<close>

lemma queue_ok_other:
  assumes "queue_ok s i ps" "\<And>p. p \<in> set ps \<Longrightarrow> qstore s' p = qstore s p" "sigtab s' i = sigtab s i"
    "signal_pending s \<longrightarrow> signal_pending s'"
  shows "queue_ok s' i ps"
proof -
  have "chain st p xs \<Longrightarrow> (\<And>a. a \<in> set xs \<Longrightarrow> st' a = st a) \<Longrightarrow> chain st' p xs" for st st' p xs
    by (induction xs arbitrary: p) auto
  with assms show ?thesis by (auto simp: queue_ok_def)
qed

lemma ownersD:
  assumes "owners s ps fs"
  shows "chain (qstore s) (first_free s) fs" "distinct fs" "set fs \<subseteq> pool"
    "i \<in> {0..63} \<Longrightarrow> queue_ok s i (ps i)" "i \<in> {0..63} \<Longrightarrow> set (ps i) \<inter> set fs = {}"
    "i \<in> {0..63} \<Longrightarrow> j \<in> {0..63} \<Longrightarrow> i \<noteq> j \<Longrightarrow> set (ps i) \<inter> set (ps j) = {}"
    "pool \<subseteq> set fs \<union> (\<Union>i\<in>{0..63}. set (ps i))"
  using assms unfolding owners_def by blast+

lemma queue_ok_info: "queue_ok s j ps \<Longrightarrow> i \<noteq> j \<Longrightarrow> Sig_info i \<notin> set ps"
  unfolding queue_ok_def using Sig_info_pool by blast

text \<open>
  One step on the queue of the signal \<open>i + 1\<close>: its queue and the free list are given new entries, all
  other queues keep theirs.
\<close>

lemma owners_step:
  assumes o: "owners s ps fs" and i: "i \<in> {0..63}"
    and q: "queue_ok s' i qs" "chain (qstore s') (first_free s') fs'" "distinct fs'" "set fs' \<subseteq> pool" "set qs \<inter> set fs' = {}"
    and own: "set qs \<union> set fs' \<subseteq> insert (Sig_info i) (set (ps i) \<union> set fs)" "pool \<inter> (set (ps i) \<union> set fs) \<subseteq> set qs \<union> set fs'"
    and frame: "\<And>p. p \<notin> insert (Sig_info i) (set (ps i) \<union> set fs) \<Longrightarrow> qstore s' p = qstore s p"
      "\<And>j. j \<noteq> i \<Longrightarrow> sigtab s' j = sigtab s j" "signal_pending s \<longrightarrow> signal_pending s'"
  shows "owners s' (ps(i := qs)) fs'"
proof -
  have oth: "p \<notin> insert (Sig_info i) (set (ps i) \<union> set fs)" if "j \<in> {0..63}" "j \<noteq> i" "p \<in> set (ps j)" for j p
  proof -
    have "p \<noteq> Sig_info i" using queue_ok_info [OF ownersD(4) [OF o that(1)] that(2) [symmetric]] that(3) by metis
    moreover have "p \<notin> set (ps i)" using ownersD(6) [OF o that(1) i that(2)] that(3) by (simp add: disjoint_iff)
    moreover have "p \<notin> set fs" using ownersD(5) [OF o that(1)] that(3) by (simp add: disjoint_iff)
    ultimately show ?thesis by simp
  qed
  have ok: "queue_ok s' j (ps j)" if "j \<in> {0..63}" "j \<noteq> i" for j
    by (rule queue_ok_other [OF ownersD(4) [OF o that(1)] frame(1) frame(2) [OF that(2)] frame(3)]) (rule oth [OF that])
  have 1: "set (ps j) \<inter> set qs = {}" "set (ps j) \<inter> set fs' = {}" if "j \<in> {0..63}" "j \<noteq> i" for j
    using oth [OF that] own(1) by blast+
  have 2: "set (ps j) \<inter> set (ps k) = {}" if "j \<in> {0..63}" "k \<in> {0..63}" "j \<noteq> k" for j k
    using ownersD(6) [OF o that] .
  have "pool \<subseteq> set fs' \<union> (\<Union>j\<in>{0..63}. set ((ps(i := qs)) j))"
  proof
    fix p assume p: "p \<in> pool"
    then consider "p \<in> set (ps i) \<union> set fs" | j where "j \<in> {0..63}" "j \<noteq> i" "p \<in> set (ps j)"
      using ownersD(7) [OF o] by blast
    then show "p \<in> set fs' \<union> (\<Union>j\<in>{0..63}. set ((ps(i := qs)) j))"
    proof cases
      case 1
      then have "p \<in> set fs' \<or> p \<in> set ((ps(i := qs)) i)" using own(2) p by auto
      then show ?thesis using i by blast
    next
      case 2
      then have "p \<in> set ((ps(i := qs)) j)" by simp
      then show ?thesis using 2(1) by blast
    qed
  qed
  moreover have "queue_ok s' j ((ps(i := qs)) j) \<and> set ((ps(i := qs)) j) \<inter> set fs' = {}" if "j \<in> {0..63}" for j
    using q ok [OF that] 1(2) [OF that] by (cases "j = i") simp_all
  moreover have "set ((ps(i := qs)) j) \<inter> set ((ps(i := qs)) k) = {}" if "j \<in> {0..63}" "k \<in> {0..63}" "j \<noteq> k" for j k
    using 1(1) [OF that(1)] 1(1) [OF that(2)] 2 [OF that] that(3) by (cases "j = i"; cases "k = i") (simp_all add: Int_commute)
  ultimately show ?thesis using q unfolding owners_def by blast
qed


lemma queue_first_rel:
  assumes r: "signal_rel s Q n" and i: "i \<in> {0..63}" and e: "Q i = []"
  shows "signal_rel (snd (queue_entry i None (Sig_info i) info s)) (Q(i := [info])) n"
proof -
  let ?s = "snd (queue_entry i None (Sig_info i) info s)"
  obtain ps fs where o: "owners s ps fs" "length fs = n" and Q: "\<forall>i\<in>{0..63}. Q i = map (\<lambda>p. q_info (qstore s p)) (ps i)"
    using r by (auto simp: signal_rel_def)
  have pi: "ps i = []" using Q i e by (metis Nil_is_map_conv)
  have fr: "qstore ?s = (qstore s)(Sig_info i := \<lparr>q_next = None, q_info = info\<rparr>)" "first_free ?s = first_free s"
    "sigtab ?s = (sigtab s)(i := (sigtab s i)\<lparr>first := Some (Sig_info i), pending := True\<rparr>)" "signal_pending ?s"
    by (simp_all add: queue_entry_def store_place_def Let_def)
  have nf: "Sig_info i \<notin> set fs" using ownersD(3) [OF o(1)] Sig_info_pool by blast
  have "queue_ok ?s i [Sig_info i]" by (simp add: queue_ok_def fr)
  moreover have "chain (qstore ?s) (first_free ?s) fs" using ownersD(1) [OF o(1)] nf by (simp add: fr)
  ultimately have "owners ?s (ps(i := [Sig_info i])) fs"
    using ownersD(2,3) [OF o(1)] nf pi fr by (intro owners_step [OF o(1) i]) auto
  moreover have "(Q(i := [info])) j = map (\<lambda>p. q_info (qstore ?s p)) ((ps(i := [Sig_info i])) j)" if "j \<in> {0..63}" for j
    using Q that queue_ok_info [OF ownersD(4) [OF o(1) that], of i] by (auto simp: fr)
  ultimately show ?thesis using o(2) unfolding signal_rel_def by blast
qed

lemma queue_pool_rel:
  assumes r: "signal_rel s Q n" and i: "i \<in> {0..63}" "31 \<le> i" and e: "Q i \<noteq> []" and n: "n \<noteq> 0"
  obtains q t pq where "alloc_sigqueue s = (Some q, t)" "last_place (qstore t) None (first (sigtab s i)) = Some pq"
    "signal_rel (snd (queue_entry i pq q info t)) (Q(i := Q i @ [info])) (n - 1)"
proof -
  obtain ps fs where o: "owners s ps fs" "length fs = n" and Q: "\<forall>i\<in>{0..63}. Q i = map (\<lambda>p. q_info (qstore s p)) (ps i)"
    using r by (auto simp: signal_rel_def)
  obtain q fs' where fs: "fs = q # fs'" using o(2) n by (cases fs) auto
  have pi: "ps i \<noteq> []" using Q i(1) e by (metis Nil_is_map_conv)
  let ?t = "s\<lparr>first_free := q_next (qstore s q)\<rparr>" and ?a = "last (ps i)"
  let ?s = "snd (queue_entry i (Some ?a) q info ?t)"
  have ff: "first_free s = Some q" "chain (qstore s) (q_next (qstore s q)) fs'" using ownersD(1) [OF o(1)] by (auto simp: fs)
  note ok = ownersD(4) [OF o(1) i(1)] and dj = ownersD(5) [OF o(1) i(1)]
  have ch: "chain (qstore s) (first (sigtab s i)) (ps i)" "distinct (ps i)" "pending (sigtab s i)"
    using ok pi by (auto simp: queue_ok_def)
  have a0: "?a \<notin> set fs" using dj last_in_set [OF pi] by (simp add: disjoint_iff)
  have a: "?a \<in> set (ps i)" "?a \<notin> set fs" "q \<notin> set (ps i)" "q \<noteq> ?a" "q \<notin> set fs'" "q \<in> pool"
    using a0 dj last_in_set [OF pi] ownersD(2,3) [OF o(1)] by (auto simp: fs)
  have al: "alloc_sigqueue s = (Some q, ?t)" by (simp add: alloc_sigqueue_def ff)
  have lp: "last_place (qstore ?t) None (first (sigtab s i)) = Some (Some ?a)"
    using last_place_chain [OF ch(1), of None] pi by simp
  have fr: "qstore ?s = (qstore s)(?a := (qstore s ?a)\<lparr>q_next := Some q\<rparr>, q := \<lparr>q_next = None, q_info = info\<rparr>)"
    "first_free ?s = q_next (qstore s q)" "sigtab ?s = (sigtab s)(i := (sigtab s i)\<lparr>pending := True\<rparr>)" "signal_pending ?s"
    by (simp_all add: queue_entry_def store_place_def Let_def)
  have "queue_ok ?s i (ps i @ [q])"
    using ok chain_snoc [OF ch(1) pi ch(2) a(3), of info] a i pi by (auto simp: queue_ok_def fr)
  moreover have "chain (qstore ?s) (first_free ?s) fs'" using ff a by (simp add: fr fs)
  ultimately have "owners ?s (ps(i := ps i @ [q])) fs'"
    using ownersD(2,3) [OF o(1)] a dj by (intro owners_step [OF o(1) i(1)]) (auto simp: fr fs)
  moreover have "(Q(i := Q i @ [info])) j = map (\<lambda>p. q_info (qstore ?s p)) ((ps(i := ps i @ [q])) j)" if "j \<in> {0..63}" for j
  proof (cases "j = i")
    case True
    then show ?thesis using Q i a(3,4) by (auto simp: fr)
  next
    case False
    have "q \<notin> set (ps j)" using ownersD(5) [OF o(1) that] by (auto simp: fs)
    then show ?thesis using Q that False by (auto simp: fr)
  qed
  moreover have "length fs' = n - 1" using o(2) fs by simp
  ultimately have "signal_rel ?s (Q(i := Q i @ [info])) (n - 1)" unfolding signal_rel_def by blast
  with al lp show ?thesis by (rule that)
qed

lemma signal_rel_queue:
  assumes "signal_rel s Q n" "i \<in> {0..63}"
  shows "pending (sigtab s i) = (Q i \<noteq> [])" "Q i \<noteq> [] \<Longrightarrow> signal_pending s"
    "first (sigtab s i) = None \<longleftrightarrow> Q i = []"
proof -
  obtain ps fs where o: "owners s ps fs" and Q: "\<forall>i\<in>{0..63}. Q i = map (\<lambda>p. q_info (qstore s p)) (ps i)"
    using assms by (auto simp: signal_rel_def)
  have "queue_ok s i (ps i)" "Q i = [] \<longleftrightarrow> ps i = []" using ownersD(4) [OF o assms(2)] Q assms(2) by auto
  then show "pending (sigtab s i) = (Q i \<noteq> [])" "Q i \<noteq> [] \<Longrightarrow> signal_pending s" "first (sigtab s i) = None \<longleftrightarrow> Q i = []"
    by (auto simp: queue_ok_def)
qed

lemma alloc_none: "signal_rel s Q 0 \<Longrightarrow> alloc_sigqueue s = (None, s)"
  by (auto simp: signal_rel_def owners_def alloc_sigqueue_def)

text \<open>What the guest's action makes of a signal: stop the process, nothing, kill the process, or its handler.\<close>

datatype verdict = Sig_Stop | Sig_Drop | Sig_Kill | Sig_Take

definition verdict :: "u32 \<Rightarrow> int \<Rightarrow> verdict" where
  "verdict handler sig =
     (if handler = TARGET_SIG_DFL then (if stop_signal sig then Sig_Stop else if ignored_signal sig then Sig_Drop else Sig_Kill)
      else if handler = TARGET_SIG_IGN then Sig_Drop
      else if handler = TARGET_SIG_ERR then Sig_Kill
      else Sig_Take)"

abbreviation handler_of :: "signal_state \<Rightarrow> int \<Rightarrow> u32" where
  "handler_of s sig \<equiv> sa_handler (sigact_table s (sig - 1))"

text \<open>The operations on the queues leave the rest of the state alone.\<close>

definition only_queues :: "signal_state \<Rightarrow> signal_state \<Rightarrow> bool" where
  "only_queues s s' \<longleftrightarrow> s' = s\<lparr>sigtab := sigtab s', qstore := qstore s', first_free := first_free s', signal_pending := signal_pending s'\<rparr>"

lemma only_queues_entry:
  "only_queues s t \<Longrightarrow> only_queues s (snd (queue_entry i pq q info t))"
  by (cases s; cases t) (simp add: only_queues_def queue_entry_def store_place_def Let_def split: option.split)

lemma only_queues_alloc: "only_queues s (snd (alloc_sigqueue s))"
  by (simp add: only_queues_def alloc_sigqueue_def split: option.split)

lemma only_queues_refl: "only_queues s s"
  by (simp add: only_queues_def)

text \<open>What becomes of a signal that is to be queued.\<close>

definition enqueued :: "signal_state \<Rightarrow> (int \<Rightarrow> target_siginfo list) \<Rightarrow> nat \<Rightarrow> int \<Rightarrow> target_siginfo \<Rightarrow> int \<Rightarrow> signal_state \<Rightarrow> bool" where
  "enqueued s Q n sig info r s' \<longleftrightarrow> only_queues s s' \<and>
     (if Q (sig - 1) = [] then r = 1 \<and> signal_rel s' (Q(sig - 1 := [info])) n
      else if sig < SIGRTMIN then r = 0 \<and> s' = s
      else if n = 0 then r = - EAGAIN \<and> s' = s
      else r = 1 \<and> signal_rel s' (Q(sig - 1 := Q (sig - 1) @ [info])) (n - 1))"

lemma enqueued_full: "enqueued s Q n sig info (- EAGAIN) s' \<Longrightarrow> n = 0"
  by (simp add: enqueued_def split: if_splits)

lemma queue_signal_rel:
  assumes r: "signal_rel s Q n" and sig: "1 \<le> sig" "sig \<le> 64" and v: "queue \<or> verdict (handler_of s sig) sig = Sig_Take"
  shows "\<exists>r s'. queue_signal queue sig info s = Inr (r, s') \<and> enqueued s Q n sig info r s'"
proof -
  let ?i = "sig - 1" and ?k = "sigtab s (sig - 1)"
  have i: "?i \<in> {0..63}" using sig by simp
  have p: "pending ?k = (Q ?i \<noteq> [])" by (rule signal_rel_queue(1) [OF r i])
  have nv: "\<not> (\<not> queue \<and> handler_of s sig = TARGET_SIG_DFL)" "\<not> (\<not> queue \<and> handler_of s sig = TARGET_SIG_IGN)"
    "\<not> (\<not> queue \<and> handler_of s sig = TARGET_SIG_ERR)"
    using v by (auto simp: verdict_def split: if_splits)
  have qs: "queue_signal queue sig info s =
        (if sig < SIGRTMIN \<and> pending ?k then Inr (0, s)
         else if \<not> pending ?k then Inr (queue_entry ?i None (Sig_info ?i) info s)
         else let (q, s) = alloc_sigqueue s in
           case q of None \<Rightarrow> Inr (- EAGAIN, s)
           | Some q \<Rightarrow> (case last_place (qstore s) None (first ?k) of None \<Rightarrow> Inl Never_Returns
               | Some pq \<Rightarrow> Inr (queue_entry ?i pq q info s)))"
    using nv sig by (cases queue; cases "sig < SIGRTMIN"; cases "pending ?k") (simp_all add: queue_signal_def Let_def)
  have one: "queue_entry j pq q info t = (1, snd (queue_entry j pq q info t))" for j pq q t
    by (simp add: queue_entry_def Let_def)
  consider "Q ?i = []" | "Q ?i \<noteq> []" "sig < SIGRTMIN" | "Q ?i \<noteq> []" "\<not> sig < SIGRTMIN" "n = 0" | "Q ?i \<noteq> []" "\<not> sig < SIGRTMIN" "n \<noteq> 0"
    by blast
  then show ?thesis
  proof cases
    case 1
    let ?e = "queue_entry ?i None (Sig_info ?i) info s"
    have "enqueued s Q n sig info 1 (snd ?e)"
      using queue_first_rel [OF r i 1, of info] only_queues_entry [OF only_queues_refl] 1 by (simp add: enqueued_def)
    then show ?thesis using one [of ?i None "Sig_info ?i" s] 1 p unfolding qs by auto
  next
    case 3
    then show ?thesis using alloc_none [of s Q] r p only_queues_refl unfolding qs enqueued_def by simp
  next
    case 4
    obtain q t pq where t: "alloc_sigqueue s = (Some q, t)" "last_place (qstore t) None (first ?k) = Some pq"
      "signal_rel (snd (queue_entry ?i pq q info t)) (Q(?i := Q ?i @ [info])) (n - 1)"
      using queue_pool_rel [OF r i _ 4(1,3), of info thesis] 4(2) by auto
    have "enqueued s Q n sig info 1 (snd (queue_entry ?i pq q info t))"
      using t only_queues_entry only_queues_alloc [of s] 4 by (simp add: enqueued_def)
    then show ?thesis using t 4 one [of ?i pq q t] p unfolding qs by auto
  qed (use p in \<open>simp add: qs enqueued_def only_queues_refl\<close>)
qed

section \<open>Delivery\<close>

lemma dequeue_rel:
  assumes r: "signal_rel s Q n" and i: "i \<in> {0..63}" and q: "first (sigtab s i) = Some q"
  shows "Q i = q_info (qstore s q) # tl (Q i)"
    "q = Sig_info i \<Longrightarrow> signal_rel (dequeue_signal i q s) (Q(i := tl (Q i))) n"
    "q \<noteq> Sig_info i \<Longrightarrow> signal_rel (free_sigqueue q (dequeue_signal i q s)) (Q(i := tl (Q i))) (Suc n)"
proof -
  obtain ps fs where o: "owners s ps fs" "length fs = n" and Q: "\<forall>i\<in>{0..63}. Q i = map (\<lambda>p. q_info (qstore s p)) (ps i)"
    using r by (auto simp: signal_rel_def)
  note ok = ownersD(4) [OF o(1) i] and dj = ownersD(5) [OF o(1) i]
  obtain qs where qs: "ps i = q # qs" "chain (qstore s) (q_next (qstore s q)) qs" "q \<notin> set qs"
    using ok q by (auto simp: queue_ok_def)
  show "Q i = q_info (qstore s q) # tl (Q i)" using Q i qs by simp
  have tab: "sigtab (dequeue_signal i q s) j = (if j = i then (sigtab s i)\<lparr>first := q_next (qstore s q), pending := qs \<noteq> []\<rparr> else sigtab s j)" for j
    using ok qs by (cases qs) (auto simp: dequeue_signal_def Let_def queue_ok_def)
  have same: "qstore (dequeue_signal i q s) = qstore s" "first_free (dequeue_signal i q s) = first_free s"
    "signal_pending (dequeue_signal i q s) = signal_pending s"
    by (simp_all add: dequeue_signal_def Let_def)
  have sub: "set qs \<subseteq> set (ps i)" "q \<in> set (ps i)" "q \<notin> set fs" using qs dj by auto
  have info: "Sig_info i \<notin> set qs" "set qs \<subseteq> pool" "set (tl qs) \<subseteq> pool" "q \<noteq> Sig_info i \<Longrightarrow> q \<in> pool"
    using ok qs Sig_info_pool by (cases qs; auto simp: queue_ok_def)+
  have rest: "(Q(i := tl (Q i))) j = map (\<lambda>p. q_info (qstore s p)) ((ps(i := qs)) j)" if "j \<in> {0..63}" for j
    using Q i qs that by auto
  show "signal_rel (dequeue_signal i q s) (Q(i := tl (Q i))) n" if "q = Sig_info i"
  proof -
    have np: "q \<notin> pool" using that by simp
    have "queue_ok (dequeue_signal i q s) i qs" using ok qs info by (auto simp: queue_ok_def tab same)
    then have "owners (dequeue_signal i q s) (ps(i := qs)) fs"
      using ownersD(1-3) [OF o(1)] dj qs np by (intro owners_step [OF o(1) i]) (auto simp: same tab)
    with rest o(2) show ?thesis unfolding signal_rel_def same by blast
  qed
  let ?t = "free_sigqueue q (dequeue_signal i q s)"
  have free: "qstore ?t = (qstore s)(q := (qstore s q)\<lparr>q_next := first_free s\<rparr>)" "first_free ?t = Some q"
    "signal_pending ?t = signal_pending s" "sigtab ?t = sigtab (dequeue_signal i q s)"
    by (simp_all add: free_sigqueue_def same)
  show "signal_rel ?t (Q(i := tl (Q i))) (Suc n)" if "q \<noteq> Sig_info i"
  proof -
    have "queue_ok ?t i qs" using ok qs info by (auto simp: queue_ok_def tab free)
    moreover have "chain (qstore ?t) (first_free ?t) (q # fs)" using ownersD(1) [OF o(1)] sub by (simp add: free)
    ultimately have "owners ?t (ps(i := qs)) (q # fs)"
      using ownersD(2,3) [OF o(1)] dj qs info that sub by (intro owners_step [OF o(1) i]) (auto simp: free tab)
    moreover have "q_info (qstore ?t p) = q_info (qstore s p)" for p by (simp add: free)
    ultimately show ?thesis using rest o(2) unfolding signal_rel_def by (intro exI [of _ "ps(i := qs)"] exI [of _ "q # fs"]) simp
  qed
qed

lemma lock_user_small:
  assumes "page_ok v" "len \<noteq> 0" "unat len \<le> 4096"
  obtains p where "lock_user ty a len v = Inr (p, v)"
  using page_check_range_spec [OF assms(1) small_not_whole [OF assms(2,3), of a]]
  by (auto simp: lock_user_def access_ok_def)

lemma force_sig_killed: "tables_ok s \<Longrightarrow> 1 \<le> sig \<Longrightarrow> sig \<le> 64 \<Longrightarrow> force_sig s sig = Inl (Killed_By (swap_rt sig))"
  by (simp add: force_sig_def tables_ok_def)

lemma swap_rt_segv: "swap_rt 11 = 11"
  by (simp add: swap_rt_def)

definition lost :: "abort_reason set" where
  "lost = {Aborted, Killed_By SIGSEGV}"

lemma setup_frames_lost:
  assumes "tables_ok s" "page_ok (vm s)"
  shows "\<exists>e\<in>lost. setup_frame sig ka ss s = Inl e" "\<exists>e\<in>lost. setup_rt_frame sig ka info ss s = Inl e"
proof -
  obtain p where "lock_user 1 (get_sigframe ka s 732) 732 (vm s) = Inr (p, vm s)" by (rule lock_user_small [OF assms(2)]) auto
  then show "\<exists>e\<in>lost. setup_frame sig ka ss s = Inl e"
    using force_sig_killed [OF assms(1), of 11] by (auto simp: setup_frame_def lost_def cpu_x86_fsave_def Let_def swap_rt_segv)
  obtain p where "lock_user 1 (get_sigframe ka s 892) 892 (vm s) = Inr (p, vm s)" by (rule lock_user_small [OF assms(2)]) auto
  then show "\<exists>e\<in>lost. setup_rt_frame sig ka info ss s = Inl e"
    using force_sig_killed [OF assms(1), of 11] by (auto simp: setup_rt_frame_def lost_def cpu_x86_fsave_def Let_def swap_rt_segv)
qed

lemma tables_ok_cong: "host_to_target_signal_table s' = host_to_target_signal_table s \<Longrightarrow>
    target_to_host_signal_table s' = target_to_host_signal_table s \<Longrightarrow> tables_ok s' = tables_ok s"
  by (simp add: tables_ok_def host_to_target_signal_def target_to_host_signal_def)

lemma run_handler_lost:
  assumes t: "tables_ok s" and v: "page_ok (vm s)" and sig: "1 \<le> sig" "sig \<le> 64"
  shows "\<exists>e\<in>lost. run_handler sig info s = Inl e"
proof -
  let ?sa = "sigact_table s (sig - 1)"
  obtain hs where hs: "target_to_host_sigset s (sa_mask ?sa) = Inr hs" using target_to_host_sigset_eq [OF t] by blast
  have h: "target_to_host_signal s sig = Inr (swap_rt sig)" using t sig by (simp add: tables_ok_def)
  let ?set = "if sa_flags ?sa AND TARGET_SA_NODEFER = 0 then sigaddset hs (swap_rt sig) else hs"
  let ?s = "s\<lparr>host_mask := host_mask s \<union> ?set\<rparr>"
  have t': "tables_ok ?s" using t by (simp add: tables_ok_def host_to_target_signal_def target_to_host_signal_def)
  obtain ss where ss: "host_to_target_sigset_internal ?s (host_mask s) = Inr ss" using host_to_target_sigset_eq [OF t'] by blast
  obtain p where p: "lock_user 1 (v86_addr ?s) 196 (vm ?s) = Inr (p, vm ?s)"
    using lock_user_small [of "vm ?s" 196 1 "v86_addr ?s" thesis] v by simp
  let ?body = "\<lambda>u. if sa_flags ?sa AND TARGET_SA_SIGINFO \<noteq> 0 then setup_rt_frame sig ?sa info ss u else setup_frame sig ?sa ss u"
  have frame: "\<exists>e\<in>lost. ?body ?s = Inl e"
    using setup_frames_lost(1) [OF t', of sig ?sa ss] setup_frames_lost(2) [OF t', of sig ?sa info ss] v by simp
  have v86: "save_v86_state ?s = Inr ?s \<or> save_v86_state ?s = Inl Aborted"
    using p by (auto simp: save_v86_state_def cpu_x86_load_seg_def)
  show ?thesis
  proof (cases "eflags s AND VM_MASK \<noteq> 0 \<and> save_v86_state ?s = Inl Aborted")
    case True
    then show ?thesis by (simp add: run_handler_def Let_def hs h ss lost_def)
  next
    case False
    then have "(if eflags ?s AND VM_MASK \<noteq> 0 then save_v86_state ?s else Inr ?s) = Inr ?s" using v86 by auto
    then show ?thesis using frame by (auto simp: run_handler_def Let_def hs h ss)
  qed
qed

lemma sigreturn_lost:
  assumes "tables_ok s" "page_ok (vm s)"
  shows "\<exists>e\<in>lost. do_sigreturn s = Inl e" "\<exists>e\<in>lost. do_rt_sigreturn s = Inl e"
proof -
  obtain p where "lock_user 0 (r_esp s - 8) 732 (vm s) = Inr (p, vm s)" by (rule lock_user_small [OF assms(2)]) auto
  then show "\<exists>e\<in>lost. do_sigreturn s = Inl e"
    using force_sig_killed [OF assms(1), of 11]
    by (auto simp: do_sigreturn_def lost_def restore_sigcontext_def cpu_x86_load_seg_def Let_def swap_rt_segv target_to_host_sigset_eq [OF assms(1)])
  obtain p where "lock_user 0 (r_esp s - 4) 892 (vm s) = Inr (p, vm s)" by (rule lock_user_small [OF assms(2)]) auto
  then show "\<exists>e\<in>lost. do_rt_sigreturn s = Inl e"
    using force_sig_killed [OF assms(1), of 11]
    by (auto simp: do_rt_sigreturn_def lost_def restore_sigcontext_def cpu_x86_load_seg_def Let_def swap_rt_segv target_to_host_sigset_eq [OF assms(1)])
qed

lemma first_pending_filter: "first_pending s sigs = (case filter (\<lambda>sig. pending (sigtab s (sig - 1))) sigs of [] \<Rightarrow> None | sig # _ \<Rightarrow> Some sig)"
  by (induction sigs) auto

lemma filter_ConsD: "filter P xs = y # ys \<Longrightarrow> P y \<and> y \<in> set xs"
  by (drule arg_cong [of _ _ set]) auto

text \<open>The signals with an entry queued, the lowest first.\<close>

definition waiting :: "(int \<Rightarrow> target_siginfo list) \<Rightarrow> int list" where
  "waiting Q = filter (\<lambda>sig. Q (sig - 1) \<noteq> []) [1..64]"

lemma first_pending_rel: "signal_rel s Q n \<Longrightarrow> first_pending s [1..64] = (case waiting Q of [] \<Rightarrow> None | sig # _ \<Rightarrow> Some sig)"
proof -
  assume "signal_rel s Q n"
  then have "filter (\<lambda>sig. pending (sigtab s (sig - 1))) [1..64] = waiting Q"
    unfolding waiting_def by (intro filter_cong) (auto simp: signal_rel_queue(1))
  then show ?thesis by (simp add: first_pending_filter)
qed

text \<open>Queueing and delivery go through the queues only; the other fields may change freely.\<close>

definition queue_frame :: "signal_state \<Rightarrow> signal_state \<Rightarrow> bool" where
  "queue_frame s s' \<longleftrightarrow> qstore s' = qstore s \<and> first_free s' = first_free s \<and> sigtab s' = sigtab s \<and>
     signal_pending s' = signal_pending s"

lemma queue_frame_rel: "queue_frame s s' \<Longrightarrow> signal_rel s' Q n = signal_rel s Q n"
  unfolding queue_frame_def by (intro signal_rel_cong) auto

lemma queue_frame_free: "queue_frame s s' \<Longrightarrow> queue_frame (free_sigqueue q s) (free_sigqueue q s')"
  by (simp add: queue_frame_def free_sigqueue_def)

lemma deliver_signal_verdict:
  assumes "tables_ok s" "page_ok (vm s)" "1 \<le> sig" "sig \<le> 64"
  shows "case verdict (handler_of s sig) sig of
      Sig_Stop \<Rightarrow> deliver_signal sig info s = Inr (s\<lparr>sent := SIGSTOP # sent s\<rparr>)
    | Sig_Drop \<Rightarrow> deliver_signal sig info s = Inr s
    | Sig_Kill \<Rightarrow> deliver_signal sig info s = Inl (Killed_By (swap_rt sig))
    | Sig_Take \<Rightarrow> \<exists>e\<in>lost. deliver_signal sig info s = Inl e"
  using run_handler_lost [OF assms, of info] by (simp add: deliver_signal_def verdict_def Let_def force_sig_killed [OF assms(1,3,4)])

text \<open>What becomes of the oldest entry of the lowest waiting signal.\<close>

definition delivered :: "signal_state \<Rightarrow> (int \<Rightarrow> target_siginfo list) \<Rightarrow> nat \<Rightarrow> int \<Rightarrow> signal_state outcome \<Rightarrow> bool" where
  "delivered s Q n sig r \<longleftrightarrow>
     (case verdict (handler_of s sig) sig of
        Sig_Kill \<Rightarrow> r = Inl (Killed_By (swap_rt sig))
      | Sig_Take \<Rightarrow> \<exists>e\<in>lost. r = Inl e
      | v \<Rightarrow> \<exists>s' n'. r = Inr s' \<and> n' \<in> {n, n + 1} \<and> signal_rel s' (Q(sig - 1 := tl (Q (sig - 1)))) n' \<and>
               only_queues (if v = Sig_Stop then s\<lparr>sent := SIGSTOP # sent s\<rparr> else s) s')"

lemma process_pending_rel:
  assumes r: "signal_rel s Q n" and t: "tables_ok s" "page_ok (vm s)" and w: "waiting Q = sig # sigs"
  shows "delivered s Q n sig (process_pending_signals s)"
proof -
  have sig: "1 \<le> sig" "sig \<le> 64" "Q (sig - 1) \<noteq> []" using filter_ConsD [OF w [unfolded waiting_def]] by auto
  then have i: "sig - 1 \<in> {0..63}" by simp
  obtain q where q: "first (sigtab s (sig - 1)) = Some q" using signal_rel_queue(3) [OF r i] sig(3) by fastforce
  note deq = dequeue_rel [OF r i q]
  let ?d = "dequeue_signal (sig - 1) q s" and ?info = "q_info (qstore s q)"
  let ?fin = "\<lambda>s. if q \<noteq> Sig_info (sig - 1) then free_sigqueue q s else s"
  have p: "process_pending_signals s = and_then (deliver_signal sig ?info ?d) (\<lambda>s. Inr (?fin s))"
    using signal_rel_queue(2) [OF r i sig(3)] by (simp add: process_pending_signals_def first_pending_rel [OF r] w q)
  have d: "tables_ok ?d" "page_ok (vm ?d)" "handler_of ?d sig = handler_of s sig" "sent ?d = sent s"
    using t by (simp_all add: dequeue_signal_def Let_def tables_ok_def host_to_target_signal_def target_to_host_signal_def)
  have rel: "\<exists>n'\<in>{n, n + 1}. signal_rel (?fin s') (Q(sig - 1 := tl (Q (sig - 1)))) n'" if "queue_frame ?d s'" for s'
    using deq(2,3) queue_frame_rel [OF that] queue_frame_rel [OF queue_frame_free [OF that]] by auto
  have stop: "queue_frame ?d (?d\<lparr>sent := x\<rparr>)" "queue_frame ?d ?d" for x by (simp_all add: queue_frame_def)
  have only: "only_queues s (?fin ?d)" "only_queues (s\<lparr>sent := x\<rparr>) (?fin (?d\<lparr>sent := x\<rparr>))" for x
    by (simp_all add: only_queues_def dequeue_signal_def free_sigqueue_def Let_def)
  show ?thesis
    using deliver_signal_verdict [OF d(1,2) sig(1,2), of ?info] rel [OF stop(1)] rel [OF stop(2)] only d(4)
    unfolding delivered_def d(3) p by (cases "verdict (handler_of s sig) sig") fastforce+
qed

section \<open>The order of delivery\<close>

text \<open>
  What a client of the queues relies on: an accepted signal goes to the end of its queue, a delivery
  takes the head of one queue, and a refused signal changes no queue.  Runs of the two operations then
  keep the order of arrival within each signal.
\<close>

datatype 'i sig_op = Sig_Put int 'i | Sig_Next

fun sig_run :: "(int \<Rightarrow> 'i \<Rightarrow> 's \<Rightarrow> (int \<times> 's) outcome) \<Rightarrow> ('s \<Rightarrow> 's outcome) \<Rightarrow> 'i sig_op list \<Rightarrow> 's \<Rightarrow> ((int \<times> 'i) list \<times> 's) outcome" where
  "sig_run put next_sig [] s = Inr ([], s)"
| "sig_run put next_sig (Sig_Put sig x # ops) s =
     and_then (put sig x s) (\<lambda>(r, s). and_then (sig_run put next_sig ops s) (\<lambda>(acc, s).
       Inr (if r = 1 then (sig, x) # acc else acc, s)))"
| "sig_run put next_sig (Sig_Next # ops) s = and_then (next_sig s) (sig_run put next_sig ops)"

definition sig_ops_ok :: "'i sig_op list \<Rightarrow> bool" where
  "sig_ops_ok ops \<longleftrightarrow> (\<forall>sig x. Sig_Put sig x \<in> set ops \<longrightarrow> 1 \<le> sig \<and> sig \<le> 64)"

text \<open>The information accepted for the signal \<open>i + 1\<close>, in the order of arrival.\<close>

definition accepted :: "(int \<times> 'i) list \<Rightarrow> int \<Rightarrow> 'i list" where
  "accepted acc i = map snd (filter (\<lambda>p. fst p = i + 1) acc)"

lemma accepted_simps [simp]:
  "accepted [] i = []" "accepted ((sig, x) # acc) i = (if sig = i + 1 then x # accepted acc i else accepted acc i)"
  by (simp_all add: accepted_def)

text \<open>The number of entries in the queues.\<close>

definition total :: "(int \<Rightarrow> 'i list) \<Rightarrow> nat" where
  "total Q = (\<Sum>i\<in>{0..63}. length (Q i))"

lemma total_put: "i \<in> {0..63} \<Longrightarrow> total (Q(i := Q i @ [x])) = Suc (total Q)"
  unfolding total_def by (subst (1 2) sum.remove [of _ i]) (auto cong: sum.cong_simp)

lemma total_next: "total Q \<le> Suc (total (Q(i := tl (Q i))))"
proof (cases "i \<in> {0..63}")
  case True
  then show ?thesis unfolding total_def by (subst (1 2) sum.remove [of _ i]) (auto cong: sum.cong_simp)
next
  case False
  then have "total (Q(i := tl (Q i))) = total Q" unfolding total_def by (intro sum.cong) auto
  then show ?thesis by simp
qed

definition nexts :: "'i sig_op list \<Rightarrow> nat" where
  "nexts ops = length (filter (\<lambda>op. op = Sig_Next) ops)"

lemma nexts_simps [simp]:
  "nexts [] = 0" "nexts (Sig_Put sig x # ops) = nexts ops" "nexts (Sig_Next # ops) = Suc (nexts ops)"
  by (simp_all add: nexts_def)

locale signal_queues =
  fixes R :: "'s \<Rightarrow> (int \<Rightarrow> 'i list) \<Rightarrow> bool"
    and put :: "int \<Rightarrow> 'i \<Rightarrow> 's \<Rightarrow> (int \<times> 's) outcome"
    and next_sig :: "'s \<Rightarrow> 's outcome"
  assumes put_law: "\<lbrakk>R s Q; 1 \<le> sig; sig \<le> 64; put sig x s = Inr (r, s')\<rbrakk> \<Longrightarrow>
      R s' (if r = 1 then Q(sig - 1 := Q (sig - 1) @ [x]) else Q)"
    and next_law: "\<lbrakk>R s Q; next_sig s = Inr s'\<rbrakk> \<Longrightarrow> \<exists>i. R s' (Q(i := tl (Q i)))"
begin

lemma run_fifo:
  assumes "R s Q" "sig_ops_ok ops" "sig_run put next_sig ops s = Inr (acc, s')"
  shows "\<exists>Q'. R s' Q' \<and> (\<forall>i. \<exists>k. Q' i = drop k (Q i @ accepted acc i)) \<and> total Q + length acc \<le> total Q' + nexts ops"
  using assms
proof (induction ops arbitrary: s Q acc)
  case (Cons op ops)
  have ok: "sig_ops_ok ops" using Cons.prems(2) by (simp add: sig_ops_ok_def)
  show ?case
  proof (cases op)
    case (Sig_Put sig x)
    obtain r t acc' where t: "put sig x s = Inr (r, t)" "sig_run put next_sig ops t = Inr (acc', s')"
      "acc = (if r = 1 then (sig, x) # acc' else acc')"
      using Cons.prems(3) Sig_Put by auto
    have sig: "1 \<le> sig" "sig \<le> 64" using Cons.prems(2) Sig_Put by (auto simp: sig_ops_ok_def)
    from put_law [OF Cons.prems(1) sig t(1)] Cons.IH [OF _ ok t(2)]
    obtain Q' where Q': "R s' Q'" "\<forall>i. \<exists>k. Q' i = drop k ((if r = 1 then Q(sig - 1 := Q (sig - 1) @ [x]) else Q) i @ accepted acc' i)"
      "total (if r = 1 then Q(sig - 1 := Q (sig - 1) @ [x]) else Q) + length acc' \<le> total Q' + nexts ops"
      by blast
    have "(if r = 1 then Q(sig - 1 := Q (sig - 1) @ [x]) else Q) i @ accepted acc' i = Q i @ accepted acc i" for i
      by (auto simp: t(3))
    moreover have "total Q + length acc \<le> total Q' + nexts (op # ops)"
      using Q'(3) total_put [of "sig - 1" Q x] sig by (auto simp: t(3) Sig_Put split: if_splits)
    ultimately show ?thesis using Q' by metis
  next
    case Sig_Next
    obtain t where t: "next_sig s = Inr t" "sig_run put next_sig ops t = Inr (acc, s')" using Cons.prems(3) Sig_Next by auto
    obtain j where "R t (Q(j := tl (Q j)))" using next_law [OF Cons.prems(1) t(1)] by blast
    from Cons.IH [OF this ok t(2)] obtain Q' where
      Q': "R s' Q'" "\<And>i. \<exists>k. Q' i = drop k ((Q(j := tl (Q j))) i @ accepted acc i)"
      "total (Q(j := tl (Q j))) + length acc \<le> total Q' + nexts ops" by blast
    have "\<exists>k. Q' i = drop k (Q i @ accepted acc i)" for i
    proof -
      obtain k where k: "Q' i = drop k ((Q(j := tl (Q j))) i @ accepted acc i)" using Q'(2) by blast
      show ?thesis
      proof (cases "i = j \<and> Q j \<noteq> []")
        case True
        then have "Q' i = drop (Suc k) (Q i @ accepted acc i)" using k by (cases "Q i") auto
        then show ?thesis by blast
      qed (use k in auto)
    qed
    moreover have "total Q + length acc \<le> total Q' + nexts (op # ops)" using Q'(3) total_next [of Q j] by (simp add: Sig_Next)
    ultimately show ?thesis using Q'(1) by blast
  qed
next
  case Nil
  then show ?case by (intro exI [of _ Q]) (auto intro: exI [of _ 0])
qed

end

text \<open>The program's queues keep the contract as long as the process runs.\<close>

definition running :: "signal_state \<Rightarrow> (int \<Rightarrow> target_siginfo list) \<Rightarrow> bool" where
  "running s Q \<longleftrightarrow> tables_ok s \<and> page_ok (vm s) \<and> (\<exists>n Q'. signal_rel s Q' n \<and> (\<forall>i\<in>{0..63}. Q i = Q' i))"

lemma signal_rel_ext: "signal_rel s Q n \<Longrightarrow> (\<And>i. i \<in> {0..63} \<Longrightarrow> Q' i = Q i) \<Longrightarrow> signal_rel s Q' n"
  by (simp add: signal_rel_def)

lemma runningD: "running s Q \<Longrightarrow> \<exists>n. signal_rel s Q n"
  unfolding running_def using signal_rel_ext by blast

lemma runningI: "signal_rel s Q n \<Longrightarrow> tables_ok s \<Longrightarrow> page_ok (vm s) \<Longrightarrow> running s Q"
  by (auto simp: running_def)

lemma tables_ok_update [simp]:
  "tables_ok (s\<lparr>sent := x\<rparr>) = tables_ok s" "tables_ok (s\<lparr>signal_pending := b\<rparr>) = tables_ok s"
  by (rule tables_ok_cong; simp)+

lemma only_queues_running: "only_queues s s' \<Longrightarrow> tables_ok s' = tables_ok s \<and> vm s' = vm s \<and> sigact_table s' = sigact_table s \<and> sent s' = sent s"
  by (cases s; cases s') (simp add: only_queues_def tables_ok_def host_to_target_signal_def target_to_host_signal_def)

lemma queue_signal_refused:
  assumes "tables_ok s" "1 \<le> sig" "sig \<le> 64" "\<not> queue" "verdict (handler_of s sig) sig \<noteq> Sig_Take"
  shows "queue_signal queue sig info s =
    (case verdict (handler_of s sig) sig of
       Sig_Stop \<Rightarrow> Inr (0, s\<lparr>sent := SIGSTOP # sent s\<rparr>)
     | Sig_Kill \<Rightarrow> Inl (Killed_By (swap_rt sig))
     | _ \<Rightarrow> Inr (0, s))"
proof -
  have "handler_of s sig = TARGET_SIG_DFL \<or> handler_of s sig = TARGET_SIG_IGN \<or> handler_of s sig = TARGET_SIG_ERR"
    using assms(5) by (auto simp: verdict_def split: if_splits)
  then show ?thesis
    using assms(2-4) by (elim disjE) (simp_all add: queue_signal_def verdict_def Let_def force_sig_killed [OF assms(1-3)])
qed

lemma running_put:
  assumes R: "running s Q" and sig: "1 \<le> sig" "sig \<le> 64" and q: "queue_signal queue sig x s = Inr (r, s')"
  shows "running s' (if r = 1 then Q(sig - 1 := Q (sig - 1) @ [x]) else Q)"
proof -
  obtain n where rel: "signal_rel s Q n" using runningD [OF R] by blast
  have ok: "tables_ok s" "page_ok (vm s)" using R by (auto simp: running_def)
  show ?thesis
  proof (cases "queue \<or> verdict (handler_of s sig) sig = Sig_Take")
    case True
    then have e: "enqueued s Q n sig x r s'" using queue_signal_rel [OF rel sig True, of x] q by auto
    then have "tables_ok s'" "page_ok (vm s')" using only_queues_running ok by (auto simp: enqueued_def)
    then show ?thesis using e rel by (auto simp: enqueued_def intro: runningI split: if_splits)
  next
    case False
    then have "(s' = s \<or> s' = s\<lparr>sent := SIGSTOP # sent s\<rparr>) \<and> r = 0"
      using queue_signal_refused [OF ok(1) sig, of queue x] q by (cases "verdict (handler_of s sig) sig") simp_all
    moreover have "tables_ok (s\<lparr>sent := SIGSTOP # sent s\<rparr>)" using ok(1) by simp
    moreover have "signal_rel (s\<lparr>sent := SIGSTOP # sent s\<rparr>) Q n" using rel by (rule signal_rel_cong [THEN iffD2, rotated -1]) simp_all
    ultimately show ?thesis using R ok(2) by (auto intro: runningI)
  qed
qed

lemma signal_rel_idle:
  assumes "signal_rel s Q n" "\<And>i. i \<in> {0..63} \<Longrightarrow> Q i = []"
  shows "signal_rel (s\<lparr>signal_pending := False\<rparr>) Q n"
proof -
  obtain ps fs where o: "owners s ps fs" "length fs = n" and Q: "\<forall>i\<in>{0..63}. Q i = map (\<lambda>p. q_info (qstore s p)) (ps i)"
    using assms by (auto simp: signal_rel_def)
  have "ps i = []" if "i \<in> {0..63}" for i using Q assms(2) that by (metis Nil_is_map_conv)
  then have "owners (s\<lparr>signal_pending := False\<rparr>) ps fs" using o(1) by (simp add: owners_def queue_ok_def)
  then show ?thesis using o(2) Q unfolding signal_rel_def by auto
qed

lemma running_next:
  assumes R: "running s Q" and p: "process_pending_signals s = Inr s'"
  shows "\<exists>i. running s' (Q(i := tl (Q i)))"
proof -
  obtain n where rel: "signal_rel s Q n" using runningD [OF R] by blast
  have ok: "tables_ok s" "page_ok (vm s)" using R by (auto simp: running_def)
  show ?thesis
  proof (cases "waiting Q")
    case Nil
    then have Q: "Q i = []" if "i \<in> {0..63}" for i
      using that unfolding waiting_def filter_empty_conv by (auto dest: bspec [of _ _ "i + 1"])
    have "s' = s \<or> s' = s\<lparr>signal_pending := False\<rparr>"
      using p Nil first_pending_rel [OF rel] by (auto simp: process_pending_signals_def split: if_splits)
    moreover have "running (s\<lparr>signal_pending := False\<rparr>) Q"
      using signal_rel_idle [OF rel Q] ok by (auto intro: runningI)
    ultimately show ?thesis using R Q [of 0] by (intro exI [of _ 0]) (auto simp: fun_upd_idem)
  next
    case (Cons sig sigs)
    have d: "delivered s Q n sig (Inr s')" using process_pending_rel [OF rel ok Cons] p by simp
    then obtain t n' where t: "only_queues t s'" "t = s \<or> t = s\<lparr>sent := SIGSTOP # sent s\<rparr>"
      "signal_rel s' (Q(sig - 1 := tl (Q (sig - 1)))) n'"
      unfolding delivered_def by (cases "verdict (handler_of s sig) sig") auto
    moreover have "tables_ok t" "page_ok (vm t)" using t(2) ok by auto
    ultimately have "running s' (Q(sig - 1 := tl (Q (sig - 1))))" using only_queues_running [OF t(1)] by (auto intro: runningI)
    then show ?thesis by blast
  qed
qed


interpretation guest_signals: signal_queues running "\<lambda>sig x s. queue_signal (queue sig x s) sig x s" process_pending_signals for queue
  by unfold_locales (erule (3) running_put, erule (1) running_next)

section \<open>A task to look at\<close>

text \<open>A task just set up whose guest has a handler for signal 40 and default actions otherwise.\<close>

definition demo_info :: "u32 \<Rightarrow> target_siginfo" where
  "demo_info v = \<lparr>si_signo = 40, si_errno = 0, si_code = - 1, sifields = replicate 29 v\<rparr>"

definition demo_start :: signal_state where
  "demo_start =
     \<lparr>host_to_target_signal_table = initial_signal_table, target_to_host_signal_table = (\<lambda>_. 0),
      sigact_table = (\<lambda>_. blank_sigaction), sigaltstack_used = \<lparr>ss_sp = 0, ss_flags = TARGET_SS_DISABLE, ss_size = 0\<rparr>,
      sigtab = (\<lambda>_. \<lparr>pending = False, first = None\<rparr>),
      qstore = (\<lambda>_. \<lparr>q_next = None, q_info = demo_info 0\<rparr>), first_free = None, signal_pending = False,
      r_esp = 0xbffff000, seg_ss = USER_DS, eflags = 0x202, v86_addr = 0, guest_mem = (\<lambda>_. 0), vm = demo_vm,
      host_actions = (\<lambda>_. \<lparr>ha_handler = Host_DFL, ha_restart = False\<rparr>), host_mask = {}, sent = []\<rparr>"

definition demo_task :: signal_state where
  "demo_task = (init_task_state demo_start)\<lparr>
     host_to_target_signal_table := (\<lambda>i. word_of_int (swap_rt i)), target_to_host_signal_table := (\<lambda>i. word_of_int (swap_rt i)),
     sigact_table := (\<lambda>_. blank_sigaction)(39 := blank_sigaction\<lparr>sa_handler := 0x8048000\<rparr>)\<rparr>"

lemma demo_task_facts:
  "signal_rel demo_task (\<lambda>_. []) 1024" "tables_ok demo_task" "page_ok (vm demo_task)"
  "handler_of demo_task sig = (if sig = 40 then 0x8048000 else 0)"
proof -
  have "signal_rel (init_task_state demo_start) (\<lambda>_. []) 1024" by (rule init_task_state_rel) (simp add: demo_start_def)
  then show "signal_rel demo_task (\<lambda>_. []) 1024"
    unfolding demo_task_def by (rule signal_rel_cong [THEN iffD2, rotated -1]) simp_all
  show "tables_ok demo_task"
    by (simp add: demo_task_def tables_ok_def host_to_target_signal_def target_to_host_signal_def uint_byte)
  show "page_ok (vm demo_task)" by (simp add: demo_task_def init_task_state_def demo_start_def Let_def demo_vm_ok)
  show "handler_of demo_task sig = (if sig = 40 then 0x8048000 else 0)" by (auto simp: demo_task_def blank_sigaction_def)
qed

section \<open>Properties\<close>

text \<open>
  C24: \<^verbatim>\<open>queue_signal\<close> implements the queues.  A signal whose action is the default or to be ignored stops the
  process, is dropped or kills the process; any other is appended to its queue, in order, if it is the
  first of its number or a real-time signal, is dropped if it is an ordinary signal already waiting, and
  is refused with \<^verbatim>\<open>EAGAIN\<close>, changing nothing, exactly when the pool is used up.  The unassigned local
  \<^verbatim>\<open>queue\<close>, when it is not 0, sends every signal to its queue.  The walk along the queue always ends.
\<close>

theorem queue_signal_implements:
  assumes "signal_rel s Q n" "tables_ok s" "1 \<le> sig" "sig \<le> 64"
  shows "case if queue then Sig_Take else verdict (handler_of s sig) sig of
      Sig_Stop \<Rightarrow> queue_signal queue sig info s = Inr (0, s\<lparr>sent := SIGSTOP # sent s\<rparr>)
    | Sig_Drop \<Rightarrow> queue_signal queue sig info s = Inr (0, s)
    | Sig_Kill \<Rightarrow> queue_signal queue sig info s = Inl (Killed_By (swap_rt sig))
    | Sig_Take \<Rightarrow> \<exists>r s'. queue_signal queue sig info s = Inr (r, s') \<and> enqueued s Q n sig info r s' \<and>
        (r = - EAGAIN \<longrightarrow> 1024 \<le> total Q)"
proof (cases "queue \<or> verdict (handler_of s sig) sig = Sig_Take")
  case True
  then obtain r s' where e: "queue_signal queue sig info s = Inr (r, s')" "enqueued s Q n sig info r s'"
    using queue_signal_rel [OF assms(1,3,4) True, of info] by blast
  then have "r = - EAGAIN \<longrightarrow> 1024 \<le> total Q"
    using enqueued_full [of s Q n sig info s'] signal_rel_capacity [OF assms(1)] by (auto simp: total_def)
  then show ?thesis using True e by auto
next
  case False
  then show ?thesis
    using queue_signal_refused [OF assms(2-4), of queue info] by (cases "verdict (handler_of s sig) sig") simp_all
qed

theorem queue_signal_implements_witness:
  "\<exists>s'. queue_signal False 40 (demo_info 7) demo_task = Inr (1, s') \<and> signal_rel s' ((\<lambda>_. [])(39 := [demo_info 7])) 1024"
proof -
  have "verdict (handler_of demo_task 40) 40 = Sig_Take" unfolding demo_task_facts by (simp add: verdict_def)
  then show ?thesis
    using queue_signal_implements [OF demo_task_facts(1,2), of 40 False "demo_info 7"] by (auto simp: enqueued_def)
qed

text \<open>
  C25: \<^verbatim>\<open>process_pending_signals\<close> implements delivery.  With nothing queued it only clears the flag;
  otherwise it takes the oldest entry of the waiting signal with the lowest number, gives an entry of the
  pool back, and does what the guest's action asks for.  It keeps the lists and the pool well formed, and
  changes nothing else.  A signal for which the guest has a handler ends the process.
\<close>

theorem process_pending_signals_implements:
  assumes "signal_rel s Q n" "tables_ok s" "page_ok (vm s)"
  shows "case waiting Q of
      [] \<Rightarrow> process_pending_signals s = Inr (s\<lparr>signal_pending := False\<rparr>) \<and> signal_rel (s\<lparr>signal_pending := False\<rparr>) Q n
    | sig # _ \<Rightarrow> delivered s Q n sig (process_pending_signals s)"
proof (cases "waiting Q")
  case Nil
  then have "Q i = []" if "i \<in> {0..63}" for i
    using that unfolding waiting_def filter_empty_conv by (auto dest: bspec [of _ _ "i + 1"])
  then have "signal_rel (s\<lparr>signal_pending := False\<rparr>) Q n" by (rule signal_rel_idle [OF assms(1)])
  moreover have "process_pending_signals s = Inr (s\<lparr>signal_pending := False\<rparr>)"
  proof (cases "signal_pending s")
    case False
    then have "s\<lparr>signal_pending := False\<rparr> = s" by (cases s) simp
    then show ?thesis using False by (simp add: process_pending_signals_def)
  qed (simp add: process_pending_signals_def first_pending_rel [OF assms(1)] Nil)
  ultimately show ?thesis using Nil by simp
qed (use process_pending_rel [OF assms] in simp)

theorem process_pending_signals_implements_witness:
  "\<exists>s s'. queue_signal True 17 (demo_info 7) demo_task = Inr (1, s) \<and> process_pending_signals s = Inr s' \<and>
     sigact_table s' = sigact_table demo_task \<and> sent s' = []"
proof -
  let ?Q = "(\<lambda>_. [])(16 := [demo_info 7]) :: int \<Rightarrow> target_siginfo list"
  obtain s where s: "queue_signal True 17 (demo_info 7) demo_task = Inr (1, s)" "only_queues demo_task s" "signal_rel s ?Q 1024"
    using queue_signal_rel [OF demo_task_facts(1), of 17 True "demo_info 7"] by (auto simp: enqueued_def)
  have w: "waiting ?Q = [17]" by (simp add: waiting_def upto.simps)
  have v: "verdict (handler_of s 17) 17 = Sig_Drop"
    using only_queues_running [OF s(2)] demo_task_facts(4) [of 17] by (simp add: verdict_def stop_signal_def ignored_signal_def)
  obtain s' where "process_pending_signals s = Inr s'" "only_queues s s'"
    using process_pending_signals_implements [OF s(3)] only_queues_running [OF s(2)] demo_task_facts(2,3) v
    by (auto simp: w delivered_def)
  moreover have "sent demo_task = []" by (simp add: demo_task_def init_task_state_def demo_start_def Let_def)
  ultimately show ?thesis using s(1,2) only_queues_running by metis
qed


text \<open>
  C26: whatever the order in which signals arrive and are delivered, the information waiting for a signal
  is always a final part of the information accepted for it, in the order of arrival, and each delivery
  takes at most one entry: nothing accepted is lost, duplicated, reordered or moved to another signal.
\<close>

theorem signal_queues_fifo:
  assumes "signal_rel s (\<lambda>_. []) n" "tables_ok s" "page_ok (vm s)" "sig_ops_ok ops"
    "sig_run (\<lambda>sig x s. queue_signal (queue sig x s) sig x s) process_pending_signals ops s = Inr (acc, s')"
  shows "\<exists>Q n'. signal_rel s' Q n' \<and> (\<forall>i. \<exists>k. Q i = drop k (accepted acc i)) \<and> length acc \<le> total Q + nexts ops"
  using guest_signals.run_fifo [OF runningI [OF assms(1-3)] assms(4,5)] runningD by (fastforce simp: total_def)

theorem signal_queues_fifo_witness:
  "\<exists>s' Q n. sig_run (\<lambda>sig x s. queue_signal False sig x s) process_pending_signals
       [Sig_Put 40 (demo_info 1), Sig_Put 40 (demo_info 2)] demo_task = Inr ([(40, demo_info 1), (40, demo_info 2)], s') \<and>
     signal_rel s' Q n \<and> (\<exists>k. Q 39 = drop k [demo_info 1, demo_info 2]) \<and> 2 \<le> total Q"
proof -
  let ?put = "\<lambda>sig x s. queue_signal False sig x s"
  let ?Q = "(\<lambda>_. [])(39 := [demo_info 1]) :: int \<Rightarrow> target_siginfo list"
  have v: "verdict (handler_of demo_task 40) 40 = Sig_Take" unfolding demo_task_facts by (simp add: verdict_def)
  obtain t where t: "queue_signal False 40 (demo_info 1) demo_task = Inr (1, t)" "only_queues demo_task t" "signal_rel t ?Q 1024"
    using queue_signal_rel [OF demo_task_facts(1), of 40 False "demo_info 1"] v by (auto simp: enqueued_def)
  have "verdict (handler_of t 40) 40 = Sig_Take" using v only_queues_running [OF t(2)] by simp
  then obtain u where u: "queue_signal False 40 (demo_info 2) t = Inr (1, u)"
    using queue_signal_rel [OF t(3), of 40 False "demo_info 2"] by (auto simp: enqueued_def)
  have run: "sig_run ?put process_pending_signals [Sig_Put 40 (demo_info 1), Sig_Put 40 (demo_info 2)] demo_task =
      Inr ([(40, demo_info 1), (40, demo_info 2)], u)"
    using t(1) u by simp
  have "sig_ops_ok [Sig_Put 40 (demo_info 1), Sig_Put 40 (demo_info 2)]" by (simp add: sig_ops_ok_def)
  from signal_queues_fifo [OF demo_task_facts(1-3) this run] obtain Q n where
    Q: "signal_rel u Q n" "\<And>i. \<exists>k. Q i = drop k (accepted [(40, demo_info 1), (40, demo_info 2)] i)" "2 \<le> total Q" by auto
  have "\<exists>k. Q 39 = drop k [demo_info 1, demo_info 2]" using Q(2) [of 39] by (simp add: accepted_def)
  with Q(1,3) run show ?thesis by blast
qed

text \<open>
  after \<^verbatim>\<open>signal_init\<close> the two conversions of signal sets are inverse to each other: the guest's mask
  comes back from the host unchanged, and the host's set comes back with the signals 1 to 64 it has.
  Neither leaves an array.
\<close>

theorem sigset_roundtrip:
  assumes "signal_init s = Inr s'" "host_to_target_signal_table s = initial_signal_table" "length ss = 2"
  shows "and_then (target_to_host_sigset s' ss) (host_to_target_sigset s') = Inr ss \<and>
    and_then (host_to_target_sigset s' H) (target_to_host_sigset s') = Inr (H \<inter> {1..64})"
proof
  note t = signal_init_tables [OF assms(1,2)]
  have sw: "swap_rt ` swap_rt ` A = A" for A by (simp add: image_image)
  show "and_then (target_to_host_sigset s' ss) (host_to_target_sigset s') = Inr ss"
  proof -
    obtain ss' where "host_to_target_sigset s' (swap_rt ` members ss) = Inr ss'" "length ss' = 2"
      "members ss' = swap_rt ` (swap_rt ` members ss \<inter> {1..64})" by (rule host_to_target_sigset_eq [OF t])
    moreover have "swap_rt ` members ss \<inter> {1..64} = swap_rt ` members ss" by (auto simp: members_def)
    ultimately show ?thesis using members_eqI [of ss' ss] assms(3) by (simp add: target_to_host_sigset_eq [OF t] sw)
  qed
  obtain ss' where "host_to_target_sigset s' H = Inr ss'" "members ss' = swap_rt ` (H \<inter> {1..64})"
    by (rule host_to_target_sigset_eq [OF t])
  then show "and_then (host_to_target_sigset s' H) (target_to_host_sigset s') = Inr (H \<inter> {1..64})"
    by (simp add: target_to_host_sigset_eq [OF t] sw)
qed


theorem sigset_roundtrip_witness:
  "\<exists>s'. signal_init demo_start = Inr s' \<and>
     and_then (target_to_host_sigset s' [0x80000002, 1]) (host_to_target_sigset s') = Inr [0x80000002, 1] \<and>
     and_then (host_to_target_sigset s' {2, 64, 70}) (target_to_host_sigset s') = Inr {2, 64}"
proof -
  obtain s' where s': "signal_init demo_start = Inr s'" using signal_init_returns by blast
  have "{2, 64, 70} \<inter> {1..64} = {2, 64 :: int}" by auto
  then show ?thesis using sigset_roundtrip [OF s', of "[0x80000002, 1]" "{2, 64, 70}"] s' by (simp add: demo_start_def)
qed

text \<open>
  C27: a signal the guest handles ends the process.  When it arrives it is queued and the request to leave
  the translated code aborts; delivering it aborts, or kills the process when the frame does not fit on
  the guest's stack; the return from a handler does the same; and a memory fault of the host aborts at
  once.  No handler of a guest ever runs.
\<close>

theorem guest_handler_ends_process:
  assumes "signal_rel s Q n" "tables_ok s" "page_ok (vm s)" "1 \<le> sig" "sig \<le> 64" "verdict (handler_of s sig) sig = Sig_Take"
    "h_signo info = word_of_int (swap_rt sig)"
  shows "(Q (sig - 1) = [] \<longrightarrow> host_signal_handler queue tinfo (swap_rt sig) info s = Inl Aborted) \<and>
    (\<exists>e\<in>lost. deliver_signal sig i s = Inl e) \<and> (\<exists>e\<in>lost. do_sigreturn s = Inl e) \<and> (\<exists>e\<in>lost. do_rt_sigreturn s = Inl e) \<and>
    (sig = SIGSEGV \<and> 0 <s h_code info \<longrightarrow> host_signal_handler queue tinfo sig info s = Inl Aborted)"
proof -
  have h: "host_to_target_signal s (swap_rt sig) = Inr sig" using assms(2,4,5) by (simp add: tables_ok_def)
  have "- (2 ^ 31) \<le> swap_rt sig" "swap_rt sig < 2 ^ 31" using assms(4,5) by (simp_all add: swap_rt_def)
  then have "sint (word_of_int (swap_rt sig) :: u32) = swap_rt sig"
    by (simp add: sint_sbintrunc' signed_take_bit_int_eq_self)
  then obtain t where t: "host_to_target_siginfo_noswap s tinfo info = Inr t"
    by (simp add: host_to_target_siginfo_noswap_def assms(7) h Let_def)
  have "host_signal_handler queue tinfo (swap_rt sig) info s = Inl Aborted" if first: "Q (sig - 1) = []"
  proof -
    obtain s' where "queue_signal queue sig t s = Inr (1, s')"
      using queue_signal_rel [OF assms(1,4,5), of queue t] assms(6) first by (auto simp: enqueued_def)
    then have "host_signal_rest queue tinfo (swap_rt sig) info s = Inl Aborted"
      using assms(4,5) by (simp add: host_signal_rest_def h t cpu_exit_def)
    then show ?thesis by (simp add: host_signal_handler_def cpu_signal_handler_def)
  qed
  moreover have "\<exists>e\<in>lost. deliver_signal sig i s = Inl e"
    using deliver_signal_verdict [OF assms(2-5), of i] assms(6) by simp
  ultimately show ?thesis
    using sigreturn_lost [OF assms(2,3)] by (auto simp: host_signal_handler_def cpu_signal_handler_def)
qed

theorem guest_handler_ends_process_witness:
  "host_signal_handler False (demo_info 0) 40 \<lparr>h_signo = 40, h_code = 0, h_fd = 0, h_pid = 5, h_uid = 0, h_sival_ptr = 3\<rparr> demo_task = Inl Aborted"
proof -
  have "verdict (handler_of demo_task 40) 40 = Sig_Take" unfolding demo_task_facts by (simp add: verdict_def)
  from guest_handler_ends_process [OF demo_task_facts(1-3) _ _ this, of "\<lparr>h_signo = 40, h_code = 0, h_fd = 0, h_pid = 5, h_uid = 0, h_sival_ptr = 3\<rparr>" False "demo_info 0"]
  show ?thesis by (simp add: swap_rt_def)
qed

end
