(* ===== verification/Core_Dump.thy ===== *)
theory Core_Dump
  imports Load_Elf
begin

text \<open>
  The core file that a program leaves when a signal ends it (\<^verbatim>\<open>elf_core_dump\<close> of \<^verbatim>\<open>src/linux-user/elfload.c\<close>, with
  \<^verbatim>\<open>copy_from_user\<close> of \<^verbatim>\<open>src/linux-user/uaccess.c\<close>): an ELF header, a program header for the notes and one for each
  region of memory, the notes, and the regions' contents.  \<^verbatim>\<open>qemu_malloc\<close> ends the process when there is no memory,
  so allocations succeed here.
\<close>

unbundle bit_operations_syntax

section \<open>The file\<close>

text \<open>
  What a call of \<^verbatim>\<open>write\<close> comes to: it fails with an error number, or writes at most so many bytes.
  The answers to the first calls are a list; all later calls write everything.
\<close>

datatype write_answer = Write_Fails int | Written nat

record core_file =
  f_data :: "nat \<Rightarrow> u8"
  f_pos :: nat
  f_answers :: "write_answer list"
  f_errno :: int

text \<open>
  The rest of the host: the limit on core files, whether the time is known (an error number) and what it is,
  opening a file (an error number, or what the file holds; it is not truncated), whether the file can be
  positioned (an error number), the three bytes behind the literal \<^verbatim>\<open>"CORE"\<close> and its null, and the process's identity.
\<close>

record core_host =
  rlim_core :: "64 word"
  time_errno :: int
  time_stamp :: "u8 list"
  open_core :: "u8 list \<Rightarrow> int + (nat \<Rightarrow> u8)"
  seek_errno :: int
  behind_name :: "u8 list"
  write_answers :: "write_answer list"
  h_getpid :: u32
  h_getppid :: u32
  h_getpgrp :: u32
  h_getsid :: u32
  h_uid :: u32
  h_gid :: u32

abbreviation (input) "ESPIPE \<equiv> 29 :: int"
abbreviation (input) "EFAULT \<equiv> 14 :: int"
abbreviation (input) "EINTR \<equiv> 4 :: int"
abbreviation (input) "RLIM_INFINITY \<equiv> - 1 :: 64 word"

definition put_at :: "nat \<Rightarrow> u8 list \<Rightarrow> (nat \<Rightarrow> u8) \<Rightarrow> nat \<Rightarrow> u8" where
  "put_at p bs d k = (if p \<le> k \<and> k < p + length bs then bs ! (k - p) else d k)"

text \<open>One call of \<^verbatim>\<open>write\<close>: the number of bytes written, or -1 with the error number set.\<close>

definition write_bytes_to :: "nat \<Rightarrow> u8 list \<Rightarrow> core_file \<Rightarrow> int \<times> core_file" where
  "write_bytes_to n bs f =
     (let n = min n (length bs)
      in (int n, f\<lparr>f_data := put_at (f_pos f) (take n bs) (f_data f), f_pos := f_pos f + n\<rparr>))"

definition host_write :: "u8 list \<Rightarrow> core_file \<Rightarrow> int \<times> core_file" where
  "host_write bs f =
     (case f_answers f of
        [] \<Rightarrow> write_bytes_to (length bs) bs f
      | a # as \<Rightarrow>
          (let f = f\<lparr>f_answers := as\<rparr> in
           case a of
             Write_Fails e \<Rightarrow> (- 1, f\<lparr>f_errno := e\<rparr>)
           | Written n \<Rightarrow> write_bytes_to n bs f))"

text \<open>The loop of \<^verbatim>\<open>dump_write\<close> over the bytes that are left.\<close>

function dump_loop :: "u8 list \<Rightarrow> core_file \<Rightarrow> int \<times> core_file" where
  "dump_loop bs f =
     (let (bytes_written, f') = host_write bs f in
      if bytes_written < 0
      then (if f_errno f' \<noteq> EINTR then (- 1, f') else if bs \<noteq> [] then dump_loop bs f' else (0, f'))
      else if bytes_written = 0 then (- 1, f')
      else let rest = drop (nat bytes_written) bs in if rest \<noteq> [] then dump_loop rest f' else (0, f'))"
  by pat_completeness auto
termination
  by (relation "measure (\<lambda>(bs, f). length (f_answers f))")
    (auto simp: host_write_def write_bytes_to_def Let_def split: list.splits write_answer.splits)

declare dump_loop.simps [simp del]


text \<open>
  \<^verbatim>\<open>dump_write\<close>.  What the limit leaves is cut to the 32 bits of a \<^verbatim>\<open>size_t\<close>; an array longer than that is
  written up to the limit only.
\<close>

definition dump_write :: "core_host \<Rightarrow> u8 list \<Rightarrow> core_file \<Rightarrow> int \<times> core_file" where
  "dump_write h bs f =
     (if seek_errno h \<noteq> 0 then
        (let f = f\<lparr>f_errno := seek_errno h\<rparr> in if seek_errno h = ESPIPE then dump_loop bs f else (- 1, f))
      else if unat (rlim_core h) \<le> f_pos f then (- 1, f)
      else if rlim_core h = RLIM_INFINITY then dump_loop bs f
      else let limit_left = ucast (rlim_core h - of_nat (f_pos f)) :: u32
        in dump_loop (if unat limit_left \<ge> length bs then bs else take (unat limit_left) bs) f)"

section \<open>The regions of memory\<close>

record vm_area_struct =
  vma_start :: u32
  vma_end :: u32
  vma_flags :: u32

definition vma_add_mapping :: "vm_area_struct list \<Rightarrow> u32 \<Rightarrow> u32 \<Rightarrow> u32 \<Rightarrow> vm_area_struct list" where
  "vma_add_mapping mm start end flags = mm @ [\<lparr>vma_start = start, vma_end = end, vma_flags = flags\<rparr>]"

definition vma_walker :: "vm_area_struct list walk_fn" where
  "vma_walker mm start end flags = (0, vma_add_mapping mm start end flags)"

text \<open>Copying from the guest; the test for reading changes nothing in the table of pages.\<close>

definition copy_from_user :: "u32 \<Rightarrow> nat \<Rightarrow> loader_state \<Rightarrow> (int \<times> u8 list) outcome" where
  "copy_from_user gaddr len s =
     and_then (lock_user VERIFY_READ gaddr (of_nat len) (l_vm s)) (\<lambda>(ghptr, _).
       Inr (if ghptr \<noteq> 0 then (0, read_bytes (l_mem s) gaddr len) else (- EFAULT, [])))"

definition get_user_ual :: "u32 \<Rightarrow> loader_state \<Rightarrow> u32 outcome" where
  "get_user_ual gaddr s =
     and_then (lock_user VERIFY_READ gaddr 4 (l_vm s)) (\<lambda>(hptr, _).
       Inr (if hptr \<noteq> 0 then ld32 (l_mem s) gaddr else 0))"

abbreviation (input) "ELFMAG \<equiv> [0x7f, 0x45, 0x4c, 0x46] :: u8 list"

text \<open>\<^verbatim>\<open>vma_dump_size\<close> ignores whether the first page could be copied.\<close>

definition vma_dump_size :: "loader_state \<Rightarrow> vm_area_struct \<Rightarrow> u32 outcome" where
  "vma_dump_size s vma =
     and_then (access_ok VERIFY_READ (vma_start vma) TARGET_PAGE_SIZE (l_vm s)) (\<lambda>(ok, _).
       if \<not> ok then Inr 0
       else if vma_flags vma AND PAGE_EXEC \<noteq> 0 then
         and_then (copy_from_user (vma_start vma) 4096 s) (\<lambda>(error, page).
           if error \<noteq> 0 then Inl Uninitialised
           else if take 4 page = ELFMAG then Inr 0
           else Inr (vma_end vma - vma_start vma))
       else Inr (vma_end vma - vma_start vma))"

section \<open>Headers\<close>

text \<open>The structures as they lie in the file.\<close>

definition fill_elf_header :: "int \<Rightarrow> u8 list" where
  "fill_elf_header segs =
     ELFMAG @ [1, 1, 1, 0] @ replicate 8 0 @                   \<comment> \<open>\<^verbatim>\<open>e_ident\<close>: 32 bits, little endian, version, ABI\<close>
     bytes16 4 @ bytes16 3 @ bytes32 1 @                       \<comment> \<open>\<^verbatim>\<open>ET_CORE\<close>, \<^verbatim>\<open>EM_386\<close>, \<^verbatim>\<open>EV_CURRENT\<close>\<close>
     bytes32 0 @ bytes32 52 @ bytes32 0 @ bytes32 0 @          \<comment> \<open>entry, offsets of the tables, flags\<close>
     bytes16 52 @ bytes16 32 @ bytes16 (of_int segs) @ bytes16 0 @ bytes16 0 @ bytes16 0"

definition phdr_bytes :: "elf_phdr \<Rightarrow> u32 \<Rightarrow> u8 list" where
  "phdr_bytes ph align =
     bytes32 (p_type ph) @ bytes32 (p_offset ph) @ bytes32 (p_vaddr ph) @ bytes32 0 @
     bytes32 (p_filesz ph) @ bytes32 (p_memsz ph) @ bytes32 (p_flags ph) @ bytes32 align"

definition fill_elf_note_phdr :: "int \<Rightarrow> nat \<Rightarrow> elf_phdr" where
  "fill_elf_note_phdr sz offset =
     \<lparr>p_type = 4, p_offset = of_nat offset, p_vaddr = 0, p_filesz = of_int sz, p_memsz = 0, p_flags = 0\<rparr>"

definition vma_phdr :: "vm_area_struct \<Rightarrow> nat \<Rightarrow> u32 \<Rightarrow> elf_phdr" where
  "vma_phdr vma offset filesz =
     \<lparr>p_type = PT_LOAD, p_offset = of_nat offset, p_vaddr = vma_start vma, p_filesz = filesz,
      p_memsz = vma_end vma - vma_start vma,
      p_flags = (if vma_flags vma AND PAGE_READ \<noteq> 0 then 4 else 0) OR (if vma_flags vma AND PAGE_WRITE \<noteq> 0 then 2 else 0) OR
        (if vma_flags vma AND PAGE_EXEC \<noteq> 0 then 1 else 0)\<rparr>"

section \<open>Notes\<close>

record memelfnote =
  n_name :: "u8 list"
  n_namesz :: nat
  n_namesz_rounded :: nat
  n_type :: u32
  n_datasz :: nat
  n_data :: "u8 list"
  n_notesz :: nat

definition roundup :: "nat \<Rightarrow> nat \<Rightarrow> nat" where
  "roundup x y = (x + (y - 1)) div y * y"

definition fill_note :: "u8 list \<Rightarrow> u32 \<Rightarrow> u8 list \<Rightarrow> memelfnote" where
  "fill_note name type data =
     (let namesz = length name + 1; rounded = roundup namesz 4; datasz = roundup (length data) 4
      in \<lparr>n_name = name @ [0], n_namesz = namesz, n_namesz_rounded = rounded, n_type = type, n_datasz = datasz,
          n_data = data, n_notesz = 12 + rounded + datasz\<rparr>)"

definition zero_note :: memelfnote where
  "zero_note = \<lparr>n_name = [], n_namesz = 0, n_namesz_rounded = 0, n_type = 0, n_datasz = 0, n_data = [], n_notesz = 0\<rparr>"

definition CORE :: "u8 list" where
  "CORE = map of_char ''CORE''"

text \<open>A thread: its number and the registers that \<^verbatim>\<open>elf_core_copy_regs\<close> copies.\<close>

record core_cpu =
  c_tid :: u32
  c_regs :: "nat \<Rightarrow> u32"
  c_eip :: u32
  c_eflags :: u32
  c_selector :: "nat \<Rightarrow> u32"

definition elf_core_copy_regs :: "core_cpu \<Rightarrow> u32 list" where
  "elf_core_copy_regs env =
     [c_regs env 3, c_regs env 1, c_regs env 2, c_regs env 6, c_regs env 7, c_regs env 5, c_regs env 0,
      c_selector env 3 AND 0xffff, c_selector env 0 AND 0xffff, c_selector env 4 AND 0xffff, c_selector env 5 AND 0xffff,
      c_regs env 0, c_eip env, c_selector env 1 AND 0xffff, c_eflags env, c_regs env 4, c_selector env 2 AND 0xffff]"

text \<open>
  \<^verbatim>\<open>fill_prstatus\<close> and the registers: the signal, its code and error number, the current signal with two bytes of
  padding, the signals pending and held, the four numbers of the process, four times, the registers, no
  floating point.
\<close>

definition fill_prstatus :: "core_host \<Rightarrow> core_cpu \<Rightarrow> int \<Rightarrow> u8 list" where
  "fill_prstatus h env signr =
     bytes32 (of_int signr) @ bytes32 0 @ bytes32 0 @ bytes16 (of_int signr) @ bytes16 0 @ bytes32 0 @ bytes32 0 @
     bytes32 (c_tid env) @ bytes32 (h_getppid h) @ bytes32 (h_getpgrp h) @ bytes32 (h_getsid h) @ replicate 32 0 @
     concat (map bytes32 (elf_core_copy_regs env)) @ bytes32 0"

definition basename :: "u8 list \<Rightarrow> u8 list" where
  "basename filename = rev (takeWhile (\<lambda>c. c \<noteq> 0x2f) (rev filename))"

text \<open>A field of \<open>n\<close> characters, as \<^verbatim>\<open>strncpy\<close> and the cleared structure leave it.\<close>

definition char_field :: "nat \<Rightarrow> u8 list \<Rightarrow> u8 list" where
  "char_field n s = take n (s @ replicate n 0)"

text \<open>
  \<^verbatim>\<open>fill_psinfo\<close>: state, name, zombie, nice value; flags; user and group, 16 bits each; the four numbers; the name; the
  arguments.  When the arguments cannot be read the structure stays cleared, and the caller ignores the error.
\<close>

definition fill_psinfo :: "core_host \<Rightarrow> u8 list \<Rightarrow> loader_state \<Rightarrow> (int \<times> u8 list) outcome" where
  "fill_psinfo h filename s =
     (let len = unat (arg_end s - arg_start s); len = (if len \<ge> 80 then 79 else len) in
      and_then (copy_from_user (arg_start s) len s) (\<lambda>(error, psargs).
        Inr (if error \<noteq> 0 then (- EFAULT, replicate 124 0)
             else (0, replicate 4 0 @ bytes32 0 @ bytes16 (ucast (h_uid h)) @ bytes16 (ucast (h_gid h)) @
               bytes32 (h_getpid h) @ bytes32 (h_getppid h) @ bytes32 (h_getpgrp h) @ bytes32 (h_getsid h) @
               char_field 16 (basename filename) @ char_field 80 (map (\<lambda>c. if c = 0 then 0x20 else c) psargs)))))"

text \<open>The length of the auxiliary vector, in words; a type that cannot be read counts as the last.\<close>

partial_function (option) auxv_loop :: "loader_state \<Rightarrow> u32 \<Rightarrow> u32 \<Rightarrow> u32 outcome option" where
  "auxv_loop s auxv i =
     (case get_user_ual auxv s of
        Inl e \<Rightarrow> Some (Inl e)
      | Inr val \<Rightarrow> if val \<noteq> 0 then auxv_loop s (auxv + 8) (i + 2) else Some (Inr (i + 2)))"

definition fill_auxv_note :: "loader_state \<Rightarrow> memelfnote outcome" where
  "fill_auxv_note s =
     (case auxv_loop s (saved_auxv s) 0 of
        None \<Rightarrow> Inl Never_Returns
      | Some r \<Rightarrow> and_then r (\<lambda>i. let len = i * 4 in
          and_then (lock_user VERIFY_READ (saved_auxv s) len (l_vm s)) (\<lambda>(p, _).
            Inr (if p \<noteq> 0 then fill_note CORE 6 (read_bytes (l_mem s) (saved_auxv s) (unat len)) else zero_note))))"

text \<open>The notes: three of the thread that got the signal, and the status of every other thread.\<close>

record elf_note_info =
  i_notes :: "memelfnote list"
  i_threads :: "memelfnote list"
  i_notes_size :: int

definition thread_note :: "core_host \<Rightarrow> core_cpu \<Rightarrow> memelfnote" where
  "thread_note h env = fill_note CORE 1 (fill_prstatus h env 0)"

fun fill_thread_info :: "core_host \<Rightarrow> core_cpu list \<Rightarrow> elf_note_info \<Rightarrow> elf_note_info" where
  "fill_thread_info h [] info = info"
| "fill_thread_info h (env # cpus) info =
     (let n = thread_note h env
      in fill_thread_info h cpus (info\<lparr>i_threads := i_threads info @ [n], i_notes_size := i_notes_size info + int (n_notesz n)\<rparr>))"

definition fill_note_info :: "core_host \<Rightarrow> u8 list \<Rightarrow> core_cpu \<Rightarrow> core_cpu list \<Rightarrow> int \<Rightarrow> loader_state \<Rightarrow> elf_note_info outcome" where
  "fill_note_info h filename env cpus signr s =
     and_then (fill_psinfo h filename s) (\<lambda>(_, psinfo).
     and_then (fill_auxv_note s) (\<lambda>auxv.
       let notes = [fill_note CORE 1 (fill_prstatus h env signr), fill_note CORE 3 psinfo, auxv]
       in Inr (fill_thread_info h cpus
            \<lparr>i_notes = notes, i_threads = [], i_notes_size = int (sum_list (map n_notesz notes))\<rparr>)))"

text \<open>Writing: the name is written up to its rounded length, beyond the literal's end.\<close>

definition write_note :: "core_host \<Rightarrow> memelfnote \<Rightarrow> core_file \<Rightarrow> int \<times> core_file" where
  "write_note h men f =
     (let (r, f) = dump_write h (bytes32 (of_nat (n_namesz men)) @ bytes32 (of_nat (n_datasz men)) @ bytes32 (n_type men)) f in
      if r \<noteq> 0 then (- 1, f)
      else let (r, f) = dump_write h (take (n_namesz_rounded men) (n_name men @ behind_name h)) f in
      if r \<noteq> 0 then (- 1, f)
      else let (r, f) = dump_write h (n_data men) f in
      if r \<noteq> 0 then (- 1, f) else (0, f))"

fun write_notes :: "core_host \<Rightarrow> memelfnote list \<Rightarrow> core_file \<Rightarrow> int \<times> core_file" where
  "write_notes h [] f = (0, f)"
| "write_notes h (n # ns) f = (let (error, f) = write_note h n f in if error \<noteq> 0 then (error, f) else write_notes h ns f)"

definition write_note_info :: "core_host \<Rightarrow> elf_note_info \<Rightarrow> core_file \<Rightarrow> int \<times> core_file" where
  "write_note_info h info f =
     (let (error, f) = write_notes h (i_notes info) f in if error \<noteq> 0 then (error, f) else write_notes h (i_threads info) f)"

section \<open>The core file\<close>

definition core_dump_filename :: "core_host \<Rightarrow> u8 list \<Rightarrow> int + u8 list" where
  "core_dump_filename h filename =
     (if time_errno h \<noteq> 0 then Inl (time_errno h)
      else Inr (take 4095 (map of_char ''qemu_'' @ basename filename @ map of_char ''_'' @ time_stamp h @ map of_char ''_'' @
        decimal (unat (h_getpid h)) @ map of_char ''.core'')))"

text \<open>The program headers of the regions; the results of writing them are ignored.\<close>

fun write_headers :: "core_host \<Rightarrow> loader_state \<Rightarrow> vm_area_struct list \<Rightarrow> nat \<Rightarrow> core_file \<Rightarrow> core_file outcome" where
  "write_headers h s [] offset f = Inr f"
| "write_headers h s (vma # mm) offset f =
     and_then (vma_dump_size s vma) (\<lambda>sz.
       write_headers h s mm (offset + unat sz) (snd (dump_write h (phdr_bytes (vma_phdr vma offset sz) 4096) f)))"

text \<open>The pages of a region; the first component says whether the dump goes on.\<close>

partial_function (option) dump_pages :: "core_host \<Rightarrow> loader_state \<Rightarrow> u32 \<Rightarrow> u32 \<Rightarrow> core_file \<Rightarrow> (bool \<times> core_file) outcome option" where
  "dump_pages h s end addr f =
     (if addr < end then
        (case copy_from_user addr 4096 s of
           Inl e \<Rightarrow> Some (Inl e)
         | Inr (error, page) \<Rightarrow>
             if error \<noteq> 0 then Some (Inr (False, f\<lparr>f_errno := - error\<rparr>))
             else let (r, f) = dump_write h page f in
               if r < 0 then Some (Inr (False, f)) else dump_pages h s end (addr + TARGET_PAGE_SIZE) f)
      else Some (Inr (True, f)))"

fun dump_memory :: "core_host \<Rightarrow> loader_state \<Rightarrow> vm_area_struct list \<Rightarrow> core_file \<Rightarrow> core_file outcome" where
  "dump_memory h s [] f = Inr f"
| "dump_memory h s (vma # mm) f =
     and_then (vma_dump_size s vma) (\<lambda>sz.
       case dump_pages h s (vma_start vma + sz) (vma_start vma) f of
         None \<Rightarrow> Inl Never_Returns
       | Some r \<Rightarrow> and_then r (\<lambda>(go, f). if go then dump_memory h s mm f else Inr f))"

text \<open>
  The file's contents.  When the first header cannot be written, the notes are freed before they have been filled in.
\<close>

definition write_core :: "core_host \<Rightarrow> u8 list \<Rightarrow> core_cpu \<Rightarrow> core_cpu list \<Rightarrow> int \<Rightarrow> loader_state \<Rightarrow> core_file \<Rightarrow> core_file outcome" where
  "write_core h filename env cpus signr s f =
     (let mm = snd (walk_memory_regions vma_walker (l_vm s) []);
          segs = length mm;
          (r, f) = dump_write h (fill_elf_header (int segs + 1)) f
      in if r \<noteq> 0 then Inl Uninitialised
         else and_then (fill_note_info h filename env cpus signr s) (\<lambda>info.
           let offset = 52 + (segs + 1) * 32;
               (r, f) = dump_write h (phdr_bytes (fill_elf_note_phdr (i_notes_size info) offset) 0) f
           in if r \<noteq> 0 then Inr f
              else and_then (write_headers h s mm (roundup (offset + nat (i_notes_size info)) 4096) f) (\<lambda>f.
                let (r, f) = write_note_info h info f in
                if r < 0 then Inr f
                else if seek_errno h \<noteq> 0 then Inr (f\<lparr>f_errno := seek_errno h\<rparr>)
                else dump_memory h s mm (f\<lparr>f_pos := roundup (f_pos f) 4096\<rparr>))))"

text \<open>The result, and the file unless none was written.\<close>

definition elf_core_dump :: "core_host \<Rightarrow> u8 list \<Rightarrow> core_cpu \<Rightarrow> core_cpu list \<Rightarrow> int \<Rightarrow> loader_state \<Rightarrow> (int \<times> core_file option) outcome" where
  "elf_core_dump h filename env cpus signr s =
     (if rlim_core h = 0 then Inr (0, None)
      else case core_dump_filename h filename of
        Inl e \<Rightarrow> Inr (- e, None)
      | Inr corefile \<Rightarrow>
          (case open_core h corefile of
             Inl e \<Rightarrow> Inr (- e, None)
           | Inr data \<Rightarrow>
               and_then (write_core h filename env cpus signr s
                  \<lparr>f_data = data, f_pos = 0, f_answers = write_answers h, f_errno = 0\<rparr>)
                 (\<lambda>f. Inr (- f_errno f, Some f))))"

section \<open>Writing everything\<close>

text \<open>A host on which every write gets on, though perhaps in parts and with interruptions, and whose files have no limit.\<close>

fun gets_on :: "write_answer \<Rightarrow> bool" where
  "gets_on (Write_Fails e) = (e = EINTR)"
| "gets_on (Written n) = (0 < n)"

definition unlimited :: "core_host \<Rightarrow> bool" where
  "unlimited h \<longleftrightarrow> rlim_core h = RLIM_INFINITY \<and> seek_errno h = 0 \<and> 3 \<le> length (behind_name h)"

definition dumped :: "u8 list \<Rightarrow> core_file \<Rightarrow> core_file \<Rightarrow> bool" where
  "dumped bs f f' \<longleftrightarrow> f_data f' = put_at (f_pos f) bs (f_data f) \<and> f_pos f' = f_pos f + length bs \<and>
     set (f_answers f') \<subseteq> set (f_answers f) \<and>
     (f_errno f' = f_errno f \<or> f_errno f' = EINTR \<and> Write_Fails EINTR \<in> set (f_answers f))"

lemma put_at_append: "put_at (p + length xs) ys (put_at p xs d) = put_at p (xs @ ys) d"
  by (auto simp: put_at_def fun_eq_iff nth_append)

lemma put_at_Nil [simp]: "put_at p [] d = d"
  by (auto simp: put_at_def fun_eq_iff)

lemma dumped_Nil [simp]: "dumped [] f f"
  by (simp add: dumped_def)

lemma dumped_append: "dumped xs f g \<Longrightarrow> dumped ys g k \<Longrightarrow> dumped (xs @ ys) f k"
  by (auto simp: dumped_def put_at_append)

lemma gets_on_dumped: "dumped bs f f' \<Longrightarrow> list_all gets_on (f_answers f) \<Longrightarrow> list_all gets_on (f_answers f')"
  by (auto simp: dumped_def list_all_iff)

lemma host_write_on:
  assumes "list_all gets_on (f_answers f)" "bs \<noteq> []" "host_write bs f = (n, f')"
  shows "n < 0 \<and> f_errno f' = EINTR \<and> dumped [] f f' \<or> 0 < n \<and> nat n \<le> length bs \<and> dumped (take (nat n) bs) f f' \<and> (f_answers f = [] \<longrightarrow> nat n = length bs)"
proof (cases "f_answers f")
  case Nil
  with assms(3) have "n = int (length bs)" "f' = f\<lparr>f_data := put_at (f_pos f) bs (f_data f), f_pos := f_pos f + length bs\<rparr>"
    by (simp_all add: host_write_def write_bytes_to_def Let_def)
  with assms(2) Nil show ?thesis by (simp add: dumped_def)
next
  case (Cons a as)
  show ?thesis
  proof (cases a)
    case (Write_Fails e)
    with assms Cons have "n = - 1" "f' = f\<lparr>f_answers := as, f_errno := EINTR\<rparr>" "e = EINTR" by (auto simp: host_write_def)
    with Cons Write_Fails show ?thesis by (auto simp: dumped_def)
  next
    case (Written k)
    let ?k = "min k (length bs)"
    from Written assms(1,3) Cons have "n = int ?k" "0 < k"
      "f' = f\<lparr>f_answers := as, f_data := put_at (f_pos f) (take ?k bs) (f_data f), f_pos := f_pos f + ?k\<rparr>"
      by (auto simp: host_write_def write_bytes_to_def Let_def)
    with assms(2) Cons show ?thesis by (auto simp: dumped_def)
  qed
qed

lemma dump_loop_on:
  assumes "list_all gets_on (f_answers f)" "bs \<noteq> []"
  shows "\<exists>f'. dump_loop bs f = (0, f') \<and> dumped bs f f'"
  using assms
proof (induction bs f rule: dump_loop.induct)
  case (1 bs f)
  obtain n f' where w: "host_write bs f = (n, f')" by (cases "host_write bs f")
  from host_write_on [OF "1.prems" w] consider
      (again) "n < 0" "f_errno f' = EINTR" "dumped [] f f'"
    | (some) "0 < n" "nat n \<le> length bs" "dumped (take (nat n) bs) f f'" by blast
  then show ?case
  proof cases
    case again
    obtain g where "dump_loop bs f' = (0, g)" "dumped bs f' g"
      using "1.IH"(1) [OF w [symmetric] refl again(1)] again gets_on_dumped [OF again(3)] "1.prems" by auto
    then show ?thesis using again w "1.prems"(2) dumped_append [OF again(3)] by (subst dump_loop.simps) simp
  next
    case some
    show ?thesis
    proof (cases "drop (nat n) bs = []")
      case True
      with some have "take (nat n) bs = bs" by simp
      with True some w show ?thesis by (subst dump_loop.simps) simp
    next
      case False
      obtain g where "dump_loop (drop (nat n) bs) f' = (0, g)" "dumped (drop (nat n) bs) f' g"
        using "1.IH"(2) [OF w [symmetric] refl _ _ refl False] some gets_on_dumped [OF some(3)] "1.prems" False by auto
      then show ?thesis using some w False dumped_append [OF some(3), of "drop (nat n) bs" g] by (subst dump_loop.simps) simp
    qed
  qed
qed

lemma dump_write_on:
  assumes "unlimited h" "list_all gets_on (f_answers f)" "bs \<noteq> []" "f_pos f < 2 ^ 63"
  obtains f' where "dump_write h bs f = (0, f')" "dumped bs f f'" "list_all gets_on (f_answers f')"
proof -
  obtain f' where f': "dump_loop bs f = (0, f')" "dumped bs f f'" using dump_loop_on [OF assms(2,3)] by blast
  moreover have "unat (- 1 :: 64 word) = 0xffffffffffffffff" by (simp add: unsigned_minus_1_eq_mask mask_eq_exp_minus_1)
  ultimately show thesis using that assms(1,4) gets_on_dumped [OF f'(2) assms(2)] by (simp add: dump_write_def unlimited_def)
qed

section \<open>Reading the guest's memory\<close>

lemma unat_plus: "unat a + k < 2 ^ 32 \<Longrightarrow> unat (a + of_nat k :: u32) = unat a + k"
  by (simp add: unat_word_ariths unat_of_nat)

definition readable :: "vm_state \<Rightarrow> u32 \<Rightarrow> nat \<Rightarrow> bool" where
  "readable v a n \<longleftrightarrow> 0 < n \<and> unat a + n \<le> 2 ^ 32 \<and>
     (\<forall>k<n. page_allows 1 (page_get_flags v (a + of_nat k)) \<and> a + of_nat k + guest_base v \<noteq> 0)"

lemma readable_part: "readable v a n \<Longrightarrow> i + m \<le> n \<Longrightarrow> 0 < m \<Longrightarrow> readable v (a + of_nat i) m"
proof -
  assume r: "readable v a n" and i: "i + m \<le> n" "0 < m"
  then have "unat a + i < 2 ^ 32" by (simp add: readable_def)
  then have u: "unat (a + of_nat i) = unat a + i" by (rule unat_plus)
  have "page_allows 1 (page_get_flags v (a + of_nat i + of_nat k)) \<and> a + of_nat i + of_nat k + guest_base v \<noteq> 0" if "k < m" for k
  proof -
    from i that have "i + k < n" by simp
    with r have "page_allows 1 (page_get_flags v (a + of_nat (i + k))) \<and> a + of_nat (i + k) + guest_base v \<noteq> 0"
      unfolding readable_def by blast
    then show ?thesis by (simp add: add.assoc)
  qed
  then show ?thesis using r i u by (simp add: readable_def)
qed

lemma check_readable:
  assumes "page_ok v" "readable v a n" "n \<le> 2 ^ 31"
  shows "page_check_range a (of_nat n) 1 v = Inr (0, v)"
proof -
  let ?last = "a + of_nat n - 1"
  have n: "0 < n" "unat a + n \<le> 2 ^ 32" using assms(2) by (simp_all add: readable_def)
  have last: "?last = a + of_nat (n - 1)" using n by (simp add: of_nat_diff)
  have u: "unat ?last = unat a + (n - 1)" unfolding last using n by (intro unat_plus) simp
  have nz: "of_nat n \<noteq> (0 :: u32)" using n assms(3) unat_of_nat_u32 [of n] by auto
  have w: "\<not> whole_space a ?last"
  proof
    assume "whole_space a ?last"
    then have "unat a div 4096 = 0" "unat ?last div 4096 = 0xfffff"
      unfolding whole_space_def word_unat_eq_iff page_of_nat by simp_all
    then have "unat a < 4096" "4096 * 0xfffff \<le> unat ?last" unfolding div_page by simp_all
    then show False using u n assms(3) by simp
  qed
  have "page_allows 1 (page_get_flags v b)" if b: "page_of a \<le> page_of b" "page_of b \<le> page_of ?last" for b
  proof -
    define q where "q = unat b div 4096"
    let ?k = "max (unat a) (4096 * q) - unat a"
    have le: "unat a div 4096 \<le> q" "q \<le> unat ?last div 4096"
      using b by (simp_all add: q_def word_le_nat_alt page_of_nat)
    have "4096 * (unat ?last div 4096) \<le> unat ?last" by (rule times_div_less_eq_dividend)
    with le(2) have "4096 * q \<le> unat ?last" by linarith
    then have k: "?k < n" using u n(1) by linarith
    have uk: "unat (a + of_nat ?k) = max (unat a) (4096 * q)"
    proof -
      have "unat a + ?k < 2 ^ 32" using k n(2) by linarith
      from unat_plus [OF this] show ?thesis by linarith
    qed
    have "max (unat a) (4096 * q) div 4096 = q"
    proof (cases "4096 * q \<le> unat a")
      case True
      then have "unat a div 4096 = q" using le(1) unfolding div_page by linarith
      with True show ?thesis by (simp add: max_def)
    qed (simp add: max_def)
    then have "unat (a + of_nat ?k) div 4096 = unat b div 4096" unfolding uk q_def [symmetric] .
    then have "page_of (a + of_nat ?k) = page_of b" unfolding word_unat_eq_iff page_of_nat .
    then show ?thesis using assms(2) k unfolding readable_def page_get_flags_desc by metis
  qed
  moreover have "\<not> ?last < a" using u by (simp add: word_less_nat_alt)
  ultimately show ?thesis using nz by (simp add: page_check_range_spec [OF assms(1) w] del: word_less_sub1)
qed

lemma lock_readable:
  assumes "page_ok v" "readable v a n" "n \<le> 2 ^ 31"
  shows "lock_user VERIFY_READ a (of_nat n) v = Inr (a + guest_base v, v)" "a + guest_base v \<noteq> 0"
proof -
  show "lock_user VERIFY_READ a (of_nat n) v = Inr (a + guest_base v, v)"
    using check_readable [OF assms] by (simp add: lock_user_def access_ok_def)
  have "0 < n" using assms(2) by (simp add: readable_def)
  then have "a + of_nat 0 + guest_base v \<noteq> 0" using assms(2) unfolding readable_def by blast
  then show "a + guest_base v \<noteq> 0" by simp
qed

lemma copy_readable:
  assumes "page_ok (l_vm s)" "readable (l_vm s) a n" "n \<le> 2 ^ 31"
  shows "copy_from_user a n s = Inr (0, read_bytes (l_mem s) a n)"
  using lock_readable [OF assms] by (simp add: copy_from_user_def)

lemma access_unreadable:
  assumes "page_ok v" "\<not> page_allows 1 (page_get_flags v a)"
  shows "access_ok VERIFY_READ a TARGET_PAGE_SIZE v = Inr (False, v)"
proof -
  have w: "\<not> whole_space a (a + TARGET_PAGE_SIZE - 1)"
  proof
    assume "whole_space a (a + TARGET_PAGE_SIZE - 1)"
    then have "unat a < 4096" "4096 * 0xfffff \<le> unat (a + TARGET_PAGE_SIZE - 1)"
      by (auto simp: whole_space_def word_unat_eq_iff page_of_nat div_page)
    moreover have "a + TARGET_PAGE_SIZE - 1 = a + 0xfff" by simp
    ultimately show False by (simp add: unat_word_ariths)
  qed
  have "\<exists>b. page_of a \<le> page_of b \<and> page_of b \<le> page_of (a + TARGET_PAGE_SIZE - 1) \<and> \<not> page_allows 1 (page_get_flags v b)"
    if "a \<le> a + TARGET_PAGE_SIZE - 1"
    using that assms(2) by (intro exI [of _ a]) (simp add: word_le_nat_alt page_of_nat div_le_mono del: word_le_sub1)
  then have "a + TARGET_PAGE_SIZE - 1 < a \<or>
     \<not> (\<forall>b. page_of a \<le> page_of b \<and> page_of b \<le> page_of (a + TARGET_PAGE_SIZE - 1) \<longrightarrow> page_allows 1 (page_get_flags v b))"
    by (meson leI)
  then have "page_check_range a TARGET_PAGE_SIZE PAGE_READ v = Inr (- 1, v)"
    unfolding page_check_range_spec [OF assms(1) w] by (auto simp del: word_less_sub1)
  then show ?thesis by (simp add: access_ok_def)
qed

section \<open>The parts of the file\<close>

definition note_bytes :: "core_host \<Rightarrow> memelfnote \<Rightarrow> u8 list" where
  "note_bytes h n = bytes32 (of_nat (n_namesz n)) @ bytes32 (of_nat (n_datasz n)) @ bytes32 (n_type n) @
     take (n_namesz_rounded n) (n_name n @ behind_name h) @ n_data n"

text \<open>A note with the name \<^verbatim>\<open>CORE\<close>, whose data is a number of whole words and not empty.\<close>

definition core_note :: "memelfnote \<Rightarrow> bool" where
  "core_note n \<longleftrightarrow> n_name n = CORE @ [0] \<and> n_namesz_rounded n = 8 \<and> n_data n \<noteq> [] \<and> n_notesz n = 20 + length (n_data n)"

lemma fill_note_core: "4 dvd length d \<Longrightarrow> d \<noteq> [] \<Longrightarrow> core_note (fill_note CORE type d)"
  by (auto simp: core_note_def fill_note_def roundup_def CORE_def Let_def elim: dvdE)

lemma note_bytes_length: "unlimited h \<Longrightarrow> core_note n \<Longrightarrow> length (note_bytes h n) = n_notesz n"
  by (simp add: note_bytes_def core_note_def CORE_def unlimited_def)

lemma write_note_on:
  assumes "unlimited h" "core_note n" "list_all gets_on (f_answers f)" "f_pos f + n_notesz n < 2 ^ 63"
  obtains f' where "write_note h n f = (0, f')" "dumped (note_bytes h n) f f'" "list_all gets_on (f_answers f')"
proof -
  let ?a = "bytes32 (of_nat (n_namesz n)) @ bytes32 (of_nat (n_datasz n)) @ bytes32 (n_type n)"
  let ?b = "take (n_namesz_rounded n) (n_name n @ behind_name h)"
  have ne: "?a \<noteq> []" "?b \<noteq> []" "n_data n \<noteq> []" using assms(2) by (simp_all add: core_note_def bytes32_def CORE_def)
  have len: "length ?a = 12" "length ?b = 8" "n_notesz n = 20 + length (n_data n)"
    using assms(1,2) by (simp_all add: core_note_def CORE_def unlimited_def)
  obtain f1 where f1: "dump_write h ?a f = (0, f1)" "dumped ?a f f1" "list_all gets_on (f_answers f1)"
    using dump_write_on [OF assms(1,3) ne(1)] assms(4) by auto
  have p1: "f_pos f1 = f_pos f + 12" using f1(2) unfolding dumped_def len by simp
  obtain f2 where f2: "dump_write h ?b f1 = (0, f2)" "dumped ?b f1 f2" "list_all gets_on (f_answers f2)"
    using dump_write_on [OF assms(1) f1(3) ne(2)] assms(4) len(3) p1 by auto
  have p2: "f_pos f2 = f_pos f + 20" using f2(2) p1 unfolding dumped_def len by simp
  obtain f3 where f3: "dump_write h (n_data n) f2 = (0, f3)" "dumped (n_data n) f2 f3" "list_all gets_on (f_answers f3)"
    using dump_write_on [OF assms(1) f2(3) ne(3)] assms(4) len(3) p2 by auto
  have "dumped (note_bytes h n) f f3"
    using dumped_append [OF f1(2) dumped_append [OF f2(2) f3(2)]] by (simp add: note_bytes_def)
  moreover have "write_note h n f = (0, f3)" unfolding write_note_def f1(1) prod.case Let_def by (simp add: f2(1) f3(1) del: take_append)
  ultimately show thesis using that f3(3) by blast
qed

lemma write_notes_on:
  assumes "unlimited h" "list_all core_note ns" "list_all gets_on (f_answers f)" "f_pos f + sum_list (map n_notesz ns) < 2 ^ 63"
  shows "\<exists>f'. write_notes h ns f = (0, f') \<and> dumped (concat (map (note_bytes h) ns)) f f'"
  using assms(2-)
proof (induction ns arbitrary: f)
  case (Cons n ns)
  then have n: "core_note n" "f_pos f + n_notesz n < 2 ^ 63" by simp_all
  obtain g where g: "write_note h n f = (0, g)" "dumped (note_bytes h n) f g" "list_all gets_on (f_answers g)"
    by (rule write_note_on [OF assms(1) n(1) Cons.prems(2) n(2)])
  moreover have "f_pos g = f_pos f + n_notesz n" using g(2) note_bytes_length [OF assms(1) n(1)] by (simp add: dumped_def)
  ultimately obtain k where "write_notes h ns g = (0, k)" "dumped (concat (map (note_bytes h) ns)) g k"
    using Cons.IH [of g] Cons.prems by (auto simp: add.assoc)
  with g show ?case by (auto intro: dumped_append)
qed simp

text \<open>The headers of the regions, when the region \<open>vma\<close> has \<open>sz vma\<close> bytes in the file.\<close>

fun header_list :: "(vm_area_struct \<Rightarrow> u32) \<Rightarrow> vm_area_struct list \<Rightarrow> nat \<Rightarrow> u8 list list" where
  "header_list sz [] offset = []"
| "header_list sz (vma # mm) offset =
     phdr_bytes (vma_phdr vma offset (sz vma)) 4096 # header_list sz mm (offset + unat (sz vma))"

lemma phdr_bytes_length [simp]: "length (phdr_bytes ph align) = 32"
  by (simp add: phdr_bytes_def)

lemma header_list_length [simp]: "length (header_list sz mm offset) = length mm"
  by (induction mm arbitrary: offset) simp_all

lemma write_headers_on:
  assumes "unlimited h" "list_all (\<lambda>vma. vma_dump_size s vma = Inr (sz vma)) mm"
    and "list_all gets_on (f_answers f)" "f_pos f + 32 * length mm < 2 ^ 63"
  shows "\<exists>f'. write_headers h s mm offset f = Inr f' \<and> dumped (concat (header_list sz mm offset)) f f'"
  using assms(2-)
proof (induction mm arbitrary: f offset)
  case (Cons vma mm)
  let ?b = "phdr_bytes (vma_phdr vma offset (sz vma)) 4096"
  have ne: "?b \<noteq> []" using phdr_bytes_length by (metis list.size(3) zero_neq_numeral)
  obtain g where g: "dump_write h ?b f = (0, g)" "dumped ?b f g" "list_all gets_on (f_answers g)"
    using dump_write_on [OF assms(1) Cons.prems(2) ne] Cons.prems(3) by auto
  have "f_pos g = f_pos f + 32" using g(2) by (simp add: dumped_def)
  then obtain k where "write_headers h s mm (offset + unat (sz vma)) g = Inr k"
      "dumped (concat (header_list sz mm (offset + unat (sz vma)))) g k"
    using Cons.IH [of g] Cons.prems g(3) by fastforce
  with g Cons.prems(1) show ?case by (auto intro: dumped_append)
qed simp

lemma read_bytes_append: "read_bytes m p (i + j) = read_bytes m p i @ read_bytes m (p + of_nat i) j"
  by (induction i arbitrary: p) (simp_all add: add.assoc add.commute [of 1])

lemma dump_pages_on:
  assumes "page_ok (l_vm s)" "unlimited h" "n = 0 \<or> readable (l_vm s) addr (4096 * n)" "unat addr + 4096 * n < 2 ^ 32"
    and "list_all gets_on (f_answers f)" "f_pos f + 4096 * n < 2 ^ 63"
  shows "\<exists>f'. dump_pages h s (addr + of_nat (4096 * n)) addr f = Some (Inr (True, f')) \<and> dumped (read_bytes (l_mem s) addr (4096 * n)) f f'"
  using assms(3-)
proof (induction n arbitrary: addr f)
  case 0
  then show ?case by (subst dump_pages.simps) simp
next
  case (Suc n)
  let ?stop = "addr + of_nat (4096 * Suc n)" and ?b = "read_bytes (l_mem s) addr 4096"
  have r: "readable (l_vm s) addr (4096 * Suc n)" using Suc.prems(1) by simp
  have "addr < ?stop" using unat_plus [of addr "4096 * Suc n"] Suc.prems(2) by (simp add: word_less_nat_alt)
  moreover have "copy_from_user addr 4096 s = Inr (0, ?b)"
    using copy_readable [OF assms(1)] readable_part [OF r, of 0 4096] by simp
  moreover obtain g where g: "dump_write h ?b f = (0, g)" "dumped ?b f g" "list_all gets_on (f_answers g)"
    using dump_write_on [OF assms(2) Suc.prems(3), of ?b] Suc.prems(4) by (auto simp flip: length_greater_0_conv)
  ultimately have step: "dump_pages h s ?stop addr f = dump_pages h s ?stop (addr + TARGET_PAGE_SIZE) g"
    by (subst dump_pages.simps) simp
  have nx: "?stop = addr + TARGET_PAGE_SIZE + of_nat (4096 * n)" by simp
  have a: "unat (addr + TARGET_PAGE_SIZE) = unat addr + 4096" using unat_plus [of addr 4096] Suc.prems(2) by simp
  have "n = 0 \<or> readable (l_vm s) (addr + TARGET_PAGE_SIZE) (4096 * n)" using readable_part [OF r, of 4096 "4096 * n"] by auto
  moreover have "f_pos g = f_pos f + 4096" using g(2) by (simp add: dumped_def)
  ultimately obtain k where k: "dump_pages h s (addr + TARGET_PAGE_SIZE + of_nat (4096 * n)) (addr + TARGET_PAGE_SIZE) g = Some (Inr (True, k))"
      "dumped (read_bytes (l_mem s) (addr + TARGET_PAGE_SIZE) (4096 * n)) g k"
    using Suc.IH [of "addr + TARGET_PAGE_SIZE" g] Suc.prems(2,4) a g(3) by auto
  have "read_bytes (l_mem s) addr (4096 * Suc n) = ?b @ read_bytes (l_mem s) (addr + TARGET_PAGE_SIZE) (4096 * n)"
    using read_bytes_append [of "l_mem s" addr 4096 "4096 * n"] by simp
  then show ?case using dumped_append [OF g(2) k(2)] k(1) step nx by (metis)
qed

section \<open>The regions\<close>

text \<open>
  A region that the file can hold: its size is a number of pages, and it can be read from the first byte to the last, or
  its first byte cannot.
\<close>

definition region_ok :: "vm_state \<Rightarrow> vm_area_struct \<Rightarrow> bool" where
  "region_ok v vma \<longleftrightarrow> vma_start vma < vma_end vma \<and> unat (vma_end vma - vma_start vma) mod 4096 = 0 \<and>
     (readable v (vma_start vma) (unat (vma_end vma - vma_start vma)) \<and> vma_end vma - vma_start vma \<le> 2 ^ 31 \<or>
      \<not> page_allows 1 (page_get_flags v (vma_start vma)))"

text \<open>How much of it the file holds: nothing of a region that cannot be read, or that is executable and starts like an ELF file.\<close>

definition core_size :: "loader_state \<Rightarrow> vm_area_struct \<Rightarrow> u32" where
  "core_size s vma =
     (if \<not> page_allows 1 (page_get_flags (l_vm s) (vma_start vma)) \<or>
         vma_flags vma AND PAGE_EXEC \<noteq> 0 \<and> read_bytes (l_mem s) (vma_start vma) 4 = ELFMAG
      then 0 else vma_end vma - vma_start vma)"

lemma region_size:
  assumes "region_ok v vma"
  shows "unat (vma_start vma) + unat (vma_end vma - vma_start vma) < 2 ^ 32" "4096 \<le> unat (vma_end vma - vma_start vma)"
    "\<exists>n. unat (vma_end vma - vma_start vma) = 4096 * n"
proof -
  have lt: "vma_start vma < vma_end vma" using assms by (simp add: region_ok_def)
  then have u: "unat (vma_end vma - vma_start vma) = unat (vma_end vma) - unat (vma_start vma)" "unat (vma_start vma) < unat (vma_end vma)"
    using unat_sub [OF less_imp_le [OF lt]] by (simp_all add: word_less_nat_alt)
  then show "unat (vma_start vma) + unat (vma_end vma - vma_start vma) < 2 ^ 32" using u32_less [of "vma_end vma"] by simp
  show n: "\<exists>n. unat (vma_end vma - vma_start vma) = 4096 * n" using assms by (simp add: region_ok_def mod_eq_0_iff_dvd dvd_def)
  then show "4096 \<le> unat (vma_end vma - vma_start vma)" using u by (metis One_nat_def Suc_leI mult.right_neutral mult_0_right mult_le_mono2 not_gr_zero zero_less_diff)
qed

lemma take_read_bytes: "k \<le> n \<Longrightarrow> take k (read_bytes m p n) = read_bytes m p k"
  using read_bytes_append [of m p k "n - k"] by simp

lemma vma_dump_size_ok:
  assumes "page_ok (l_vm s)" "region_ok (l_vm s) vma"
  shows "vma_dump_size s vma = Inr (core_size s vma)"
proof (cases "page_allows 1 (page_get_flags (l_vm s) (vma_start vma))")
  case True
  then have r: "readable (l_vm s) (vma_start vma) (unat (vma_end vma - vma_start vma))" using assms(2) by (simp add: region_ok_def)
  have p: "readable (l_vm s) (vma_start vma) 4096" using readable_part [OF r, of 0 4096] region_size(2) [OF assms(2)] by simp
  have "access_ok VERIFY_READ (vma_start vma) TARGET_PAGE_SIZE (l_vm s) = Inr (True, l_vm s)"
    using check_readable [OF assms(1) p] by (simp add: access_ok_def)
  moreover have "copy_from_user (vma_start vma) 4096 s = Inr (0, read_bytes (l_mem s) (vma_start vma) 4096)"
    using copy_readable [OF assms(1) p] by simp
  ultimately show ?thesis using True by (simp add: vma_dump_size_def core_size_def take_read_bytes)
next
  case False
  then show ?thesis using access_unreadable [OF assms(1) False] by (simp add: vma_dump_size_def core_size_def)
qed

lemma dump_memory_on:
  assumes "page_ok (l_vm s)" "unlimited h" "list_all (region_ok (l_vm s)) mm"
    and "list_all gets_on (f_answers f)" "f_pos f + sum_list (map (\<lambda>vma. unat (core_size s vma)) mm) < 2 ^ 63"
  shows "\<exists>f'. dump_memory h s mm f = Inr f' \<and>
     dumped (concat (map (\<lambda>vma. read_bytes (l_mem s) (vma_start vma) (unat (core_size s vma))) mm)) f f'"
  using assms(3-)
proof (induction mm arbitrary: f)
  case (Cons vma mm)
  let ?z = "core_size s vma" and ?b = "read_bytes (l_mem s) (vma_start vma) (unat (core_size s vma))"
  have ok: "region_ok (l_vm s) vma" using Cons.prems(1) by simp
  obtain n where n: "unat ?z = 4096 * n" "n = 0 \<or> readable (l_vm s) (vma_start vma) (4096 * n)" "unat (vma_start vma) + 4096 * n < 2 ^ 32"
  proof (cases "?z = 0")
    case True
    with that [of 0] show thesis by (simp add: u32_less)
  next
    case False
    then have "?z = vma_end vma - vma_start vma" "page_allows 1 (page_get_flags (l_vm s) (vma_start vma))"
      by (auto simp: core_size_def split: if_splits)
    with region_size [OF ok] ok that show thesis unfolding region_ok_def by metis
  qed
  have "vma_start vma + of_nat (4096 * n) = vma_start vma + ?z" unfolding n(1) [symmetric] by simp
  with dump_pages_on [OF assms(1,2) n(2,3) Cons.prems(2)] Cons.prems(3) n(1)
  obtain g where g: "dump_pages h s (vma_start vma + ?z) (vma_start vma) f = Some (Inr (True, g))" "dumped ?b f g" by auto
  have "f_pos g = f_pos f + unat ?z" using g(2) by (simp add: dumped_def)
  then obtain k where "dump_memory h s mm g = Inr k"
      "dumped (concat (map (\<lambda>vma. read_bytes (l_mem s) (vma_start vma) (unat (core_size s vma))) mm)) g k"
    using Cons.IH [of g] Cons.prems gets_on_dumped [OF g(2) Cons.prems(2)] by (auto simp: add.assoc)
  with g vma_dump_size_ok [OF assms(1) ok] show ?case by (auto intro: dumped_append)
qed simp

text \<open>The walk over the table visits what \<^verbatim>\<open>page_dump\<close> prints.\<close>

definition vma_of :: "u32 \<times> u32 \<times> u32 \<Rightarrow> vm_area_struct" where
  "vma_of r = (case r of (start, end, flags) \<Rightarrow> \<lparr>vma_start = start, vma_end = end, vma_flags = flags\<rparr>)"

definition core_regions :: "vm_state \<Rightarrow> vm_area_struct list" where
  "core_regions v = map vma_of (page_dump v)"

lemma walk_end_vma:
  "walk_memory_regions_end vma_walker e prot (d, map vma_of p) =
     (let (rc, d', p') = walk_memory_regions_end dump_region e prot (d, p) in (rc, d', map vma_of p'))"
  "fst (walk_memory_regions_end dump_region e prot (d, p)) = 0"
  "length (snd (snd (walk_memory_regions_end dump_region e prot (d, p)))) \<le> length p + 1"
  by (simp_all add: walk_memory_regions_end_def vma_walker_def vma_add_mapping_def dump_region_def vma_of_def)

lemma walk_table_vma:
  "walk_table vma_walker pd base js (d, map vma_of p) =
     (let (rc, d', p') = walk_table dump_region pd base js (d, p) in (rc, d', map vma_of p')) \<and>
   fst (walk_table dump_region pd base js (d, p)) = 0 \<and>
   length (snd (snd (walk_table dump_region pd base js (d, p)))) \<le> length p + length js"
proof (induction js arbitrary: d p)
  case (Cons i js)
  obtain rc d' p' where e: "walk_memory_regions_end dump_region (base OR push_bit 12 (of_nat i)) (pd_flags (pd i)) (d, p) = (rc, d', p')"
    using prod_cases3 by blast
  with walk_end_vma [of "base OR push_bit 12 (of_nat i)" "pd_flags (pd i)" d p] have "rc = 0" "length p' \<le> length p + 1" by simp_all
  with Cons.IH [of d' p'] Cons.IH [of d p] e walk_end_vma(1) [of "base OR push_bit 12 (of_nat i)" "pd_flags (pd i)" d p]
  show ?case by (auto simp: Let_def)
qed simp

lemma walk_1_vma:
  "walk_memory_regions_1 vma_walker lp base (d, map vma_of p) =
     (let (rc, d', p') = walk_memory_regions_1 dump_region lp base (d, p) in (rc, d', map vma_of p')) \<and>
   fst (walk_memory_regions_1 dump_region lp base (d, p)) = 0 \<and>
   length (snd (snd (walk_memory_regions_1 dump_region lp base (d, p)))) \<le> length p + 1024"
proof (cases lp)
  case None
  with walk_end_vma [of base 0 d p] show ?thesis by (simp add: walk_memory_regions_1_def)
next
  case (Some pd)
  then show ?thesis using walk_table_vma [of pd base "[0..<1024]" d p] unfolding walk_memory_regions_1_def by (simp del: upt_rec_numeral)
qed

lemma walk_l1_vma:
  "walk_l1 vma_walker v js (d, map vma_of p) =
     (let (rc, d', p') = walk_l1 dump_region v js (d, p) in (rc, d', map vma_of p')) \<and>
   fst (walk_l1 dump_region v js (d, p)) = 0 \<and>
   length (snd (snd (walk_l1 dump_region v js (d, p)))) \<le> length p + 1024 * length js"
proof (induction js arbitrary: d p)
  case (Cons i js)
  obtain rc d' p' where e: "walk_memory_regions_1 dump_region (l1_map v i) (push_bit 10 (of_nat i)) (d, p) = (rc, d', p')"
    using prod_cases3 by blast
  with walk_1_vma [of "l1_map v i" "push_bit 10 (of_nat i)" d p] Cons.IH [of d' p'] show ?case by (auto simp: Let_def)
qed simp

lemma walk_regions_vma:
  "snd (walk_memory_regions vma_walker v []) = core_regions v" "length (core_regions v) \<le> 2 ^ 21"
proof -
  obtain rc d p where w: "walk_l1 dump_region v [0..<1024] (idle, []) = (rc, d, p)" using prod_cases3 by blast
  with walk_l1_vma [of v "[0..<1024]" idle "[]"] have "rc = 0" "length p \<le> 1024 * 1024"
    "walk_l1 vma_walker v [0..<1024] (idle, []) = (0, d, map vma_of p)" by (simp_all del: upt_rec_numeral)
  with w walk_end_vma [of 0 0 d p]
  show "snd (walk_memory_regions vma_walker v []) = core_regions v" "length (core_regions v) \<le> 2 ^ 21"
    unfolding core_regions_def page_dump_def walk_memory_regions_def by (auto simp: Let_def split: prod.split simp del: upt_rec_numeral)
qed

section \<open>The auxiliary vector\<close>

text \<open>\<open>n\<close> entries and the last, all readable.\<close>

definition has_auxv :: "loader_state \<Rightarrow> nat \<Rightarrow> bool" where
  "has_auxv s n \<longleftrightarrow> n < 2 ^ 20 \<and> readable (l_vm s) (saved_auxv s) (8 * (n + 1)) \<and>
     (\<forall>k<n. ld32 (l_mem s) (saved_auxv s + of_nat (8 * k)) \<noteq> 0) \<and> ld32 (l_mem s) (saved_auxv s + of_nat (8 * n)) = 0"

lemma auxv_loop_ends:
  assumes "page_ok (l_vm s)" "has_auxv s n" "j \<le> n"
  shows "auxv_loop s (saved_auxv s + of_nat (8 * j)) (of_nat (2 * j)) = Some (Inr (of_nat (2 * (n + 1))))"
  using assms(3)
proof (induction "n - j" arbitrary: j)
  case 0
  let ?a = "saved_auxv s + of_nat (8 * j)"
  have j: "j = n" using 0 by simp
  have r: "readable (l_vm s) ?a 4" using assms(2) unfolding has_auxv_def j by (elim conjE) (rule readable_part, auto)
  have "get_user_ual ?a s = Inr 0" using lock_readable [OF assms(1) r] assms(2) by (simp add: get_user_ual_def has_auxv_def j)
  then show ?case using j by (subst auxv_loop.simps) (simp add: add.commute)
next
  case (Suc m)
  let ?a = "saved_auxv s + of_nat (8 * j)"
  have j: "j < n" "m = n - Suc j" "Suc j \<le> n" using Suc(2) by simp_all
  have r: "readable (l_vm s) ?a 4" using assms(2) j(1) unfolding has_auxv_def by (elim conjE) (rule readable_part, auto)
  have "get_user_ual ?a s = Inr (ld32 (l_mem s) ?a)" using lock_readable [OF assms(1) r] by (simp add: get_user_ual_def)
  moreover have "ld32 (l_mem s) ?a \<noteq> 0" using assms(2) j(1) unfolding has_auxv_def by blast
  ultimately have "auxv_loop s ?a (of_nat (2 * j)) = auxv_loop s (?a + 8) (of_nat (2 * j) + 2)" by (subst auxv_loop.simps) simp
  also have "?a + 8 = saved_auxv s + of_nat (8 * Suc j)" by simp
  also have "of_nat (2 * j) + (2 :: u32) = of_nat (2 * Suc j)" by simp
  also have "auxv_loop s (saved_auxv s + of_nat (8 * Suc j)) (of_nat (2 * Suc j)) = Some (Inr (of_nat (2 * (n + 1))))"
    by (rule Suc(1) [OF j(2,3)])
  finally show ?case .
qed

lemma fill_auxv_note_ok:
  assumes "page_ok (l_vm s)" "has_auxv s n"
  shows "fill_auxv_note s = Inr (fill_note CORE 6 (read_bytes (l_mem s) (saved_auxv s) (8 * (n + 1))))"
proof -
  have n: "n < 2 ^ 20" and r: "readable (l_vm s) (saved_auxv s) (8 * (n + 1))" using assms(2) by (simp_all add: has_auxv_def)
  have len: "of_nat (2 * (n + 1)) * 4 = (of_nat (8 * (n + 1)) :: u32)" by simp
  have u: "unat (of_nat (8 * (n + 1)) :: u32) = 8 * (n + 1)" using n by (intro unat_of_nat_u32) simp
  have l: "lock_user VERIFY_READ (saved_auxv s) (of_nat (8 * (n + 1))) (l_vm s) = Inr (saved_auxv s + guest_base (l_vm s), l_vm s)"
    and nz: "saved_auxv s + guest_base (l_vm s) \<noteq> 0" using lock_readable [OF assms(1) r] n by auto
  have e: "auxv_loop s (saved_auxv s) 0 = Some (Inr (of_nat (2 * (n + 1))))" using auxv_loop_ends [OF assms, of 0] by simp
  show ?thesis unfolding fill_auxv_note_def e option.case and_then_Inr Let_def len l prod.case u using nz by simp
qed

section \<open>The whole file\<close>

lemma check_read_keeps: "\<exists>r. page_check_range a l PAGE_READ v = Inr (r, v)"
proof -
  have "\<exists>r. check_range_loop n b PAGE_READ v = Inr (r, v)" for n b
  proof (induction n arbitrary: b)
    case (Suc n)
    then obtain r where "check_range_loop n (b + TARGET_PAGE_SIZE) PAGE_READ v = Inr (r, v)" by blast
    then show ?case by (auto simp: Let_def split: option.split)
  qed simp
  then show ?thesis by (simp add: page_check_range_def Let_def)
qed

lemma copy_from_user_total: "\<exists>e d. copy_from_user a n s = Inr (e, d) \<and> (e = 0 \<longrightarrow> length d = n)"
proof -
  obtain r where "page_check_range a (of_nat n) PAGE_READ (l_vm s) = Inr (r, l_vm s)" using check_read_keeps by blast
  then show ?thesis by (cases "r = 0 \<and> a + guest_base (l_vm s) \<noteq> 0") (auto simp: copy_from_user_def lock_user_def access_ok_def)
qed

lemma fill_prstatus_length [simp]: "length (fill_prstatus h env signr) = 144"
  by (simp add: fill_prstatus_def elf_core_copy_regs_def)

lemma fill_psinfo_total: "\<exists>e d. fill_psinfo h filename s = Inr (e, d) \<and> length d = 124"
proof -
  let ?l = "unat (arg_end s - arg_start s)"
  obtain e d where "copy_from_user (arg_start s) (if ?l \<ge> 80 then 79 else ?l) s = Inr (e, d)" using copy_from_user_total by blast
  then show ?thesis by (auto simp: fill_psinfo_def Let_def char_field_def)
qed

lemma thread_note_core: "core_note (thread_note h env)"
  unfolding thread_note_def by (rule fill_note_core) (simp, metis fill_prstatus_length list.size(3) zero_neq_numeral)

lemma thread_note_size [simp]: "n_notesz (thread_note h env) = 164"
  by (simp add: thread_note_def fill_note_def CORE_def roundup_def Let_def)

lemma fill_thread_info_all:
  "fill_thread_info h cpus info =
     info\<lparr>i_threads := i_threads info @ map (thread_note h) cpus, i_notes_size := i_notes_size info + 164 * int (length cpus)\<rparr>"
  by (induction cpus arbitrary: info) (simp_all add: Let_def)

lemma fill_note_info_ok:
  assumes "page_ok (l_vm s)" "has_auxv s n"
  obtains info where "fill_note_info h filename env cpus signr s = Inr info"
    "hd (i_notes info) = fill_note CORE 1 (fill_prstatus h env signr)" "i_notes info \<noteq> []"
    "list_all core_note (i_notes info @ i_threads info)" "sum_list (map n_notesz (i_notes info @ i_threads info)) < 2 ^ 24 + 164 * length cpus"
    "i_notes_size info = int (sum_list (map n_notesz (i_notes info @ i_threads info)))"
proof -
  obtain e d where d: "fill_psinfo h filename s = Inr (e, d)" "length d = 124" using fill_psinfo_total by blast
  let ?x = "read_bytes (l_mem s) (saved_auxv s) (8 * (n + 1))"
  let ?notes = "[fill_note CORE 1 (fill_prstatus h env signr), fill_note CORE 3 d, fill_note CORE 6 ?x]"
  let ?info = "\<lparr>i_notes = ?notes, i_threads = map (thread_note h) cpus,
    i_notes_size = int (sum_list (map n_notesz ?notes)) + 164 * int (length cpus)\<rparr>"
  have "fill_note_info h filename env cpus signr s = Inr ?info"
    unfolding fill_note_info_def d(1) fill_auxv_note_ok [OF assms] and_then_Inr prod.case Let_def fill_thread_info_all by simp
  moreover have "core_note (fill_note CORE 1 (fill_prstatus h env signr))"
    by (rule fill_note_core) (simp, metis fill_prstatus_length list.size(3) zero_neq_numeral)
  moreover have "core_note (fill_note CORE 3 d)" by (rule fill_note_core) (use d(2) in auto)
  moreover have "core_note (fill_note CORE 6 ?x)" by (rule fill_note_core) (simp_all flip: length_greater_0_conv)
  moreover have "sum_list (map n_notesz (map (thread_note h) cpus)) = 164 * length cpus" by (induction cpus) simp_all
  moreover have "n_notesz (fill_note CORE 1 (fill_prstatus h env signr)) = 164" "n_notesz (fill_note CORE 3 d) = 144"
    using d(2) by (simp_all add: fill_note_def CORE_def roundup_def Let_def)
  moreover have "n_notesz (fill_note CORE 6 ?x) = 28 + 8 * n"
    by (simp add: fill_note_def CORE_def roundup_def Let_def) presburger
  ultimately show thesis using assms(2) by (intro that [of ?info]) (simp_all add: has_auxv_def list_all_iff thread_note_core del: map_map)
qed

definition file_bytes :: "core_file \<Rightarrow> nat \<Rightarrow> nat \<Rightarrow> u8 list" where
  "file_bytes f p n = map (f_data f) [p..<p + n]"

lemma put_at_read: "p \<le> q \<Longrightarrow> q + n \<le> p + length bs \<Longrightarrow> map (put_at p bs d) [q..<q + n] = take n (drop (q - p) bs)"
  by (rule nth_equalityI) (auto simp: put_at_def)

lemma put_at_below: "q + n \<le> p \<Longrightarrow> map (put_at p bs d) [q..<q + n] = map d [q..<q + n]"
  by (rule nth_equalityI) (auto simp: put_at_def)

lemma take_drop_concat:
  "i < length xss \<Longrightarrow> take (length (xss ! i)) (drop (sum_list (map length (take i xss))) (concat xss)) = xss ! i \<and>
     sum_list (map length (take i xss)) + length (xss ! i) \<le> length (concat xss)"
proof (induction xss arbitrary: i)
  case (Cons xs xss)
  then show ?case by (cases i) auto
qed simp

lemma header_list_nth:
  "i < length mm \<Longrightarrow> header_list sz mm off ! i =
     phdr_bytes (vma_phdr (mm ! i) (off + sum_list (map (\<lambda>vma. unat (sz vma)) (take i mm))) (sz (mm ! i))) 4096"
proof (induction mm arbitrary: i off)
  case (Cons vma mm)
  then show ?case by (cases i) (auto simp: add.assoc)
qed simp

text \<open>
  What \<^verbatim>\<open>write_core\<close> leaves on such a host: the headers and the notes from the start of the file on, and the
  memory from the next multiple of 4096 on.
\<close>

definition core_head :: "core_host \<Rightarrow> loader_state \<Rightarrow> elf_note_info \<Rightarrow> u8 list" where
  "core_head h s info =
     (let mm = core_regions (l_vm s); offset = 52 + (length mm + 1) * 32 in
      fill_elf_header (int (length mm) + 1) @ phdr_bytes (fill_elf_note_phdr (i_notes_size info) offset) 0 @
      concat (header_list (core_size s) mm (roundup (offset + nat (i_notes_size info)) 4096)) @
      concat (map (note_bytes h) (i_notes info @ i_threads info)))"

definition core_memory :: "loader_state \<Rightarrow> u8 list list" where
  "core_memory s = map (\<lambda>vma. read_bytes (l_mem s) (vma_start vma) (unat (core_size s vma))) (core_regions (l_vm s))"

lemma elf_header_length [simp]: "length (fill_elf_header k) = 52"
  by (simp add: fill_elf_header_def)

lemma roundup_le: "roundup x 4096 \<le> x + 4095"
  unfolding roundup_def using div_times_less_eq_dividend [of "x + 4095" 4096] by simp

lemma concat_length_32: "list_all (\<lambda>xs. length xs = n) xss \<Longrightarrow> length (concat xss) = n * length xss"
  by (induction xss) auto

lemma header_list_lengths: "list_all (\<lambda>xs. length xs = 32) (header_list sz mm off)"
  by (induction mm arbitrary: off) simp_all

lemma core_head_length:
  assumes "unlimited h" "list_all core_note (i_notes info @ i_threads info)"
    and "i_notes_size info = int (sum_list (map n_notesz (i_notes info @ i_threads info)))"
  shows "length (core_head h s info) = 52 + (length (core_regions (l_vm s)) + 1) * 32 + nat (i_notes_size info)"
proof -
  have "length (concat (map (note_bytes h) ns)) = sum_list (map n_notesz ns)" if "list_all core_note ns" for ns
    using that by (induction ns) (simp_all add: note_bytes_length [OF assms(1)])
  from this [OF assms(2)] show ?thesis
    using assms(3) concat_length_32 [OF header_list_lengths] by (simp add: core_head_def Let_def)
qed

lemma core_memory_bound: "length (concat (core_memory s)) \<le> 2 ^ 53"
proof -
  have "length (concat (map (\<lambda>vma. read_bytes m (a vma) (unat (z vma :: u32))) xs)) \<le> 2 ^ 32 * length xs" for m a z and xs :: "vm_area_struct list"
  proof (induction xs)
    case (Cons x xs)
    then show ?case using u32_less [of "z x"] by simp
  qed simp
  from this [of "l_mem s" vma_start "core_size s" "core_regions (l_vm s)"] walk_regions_vma(2) [of "l_vm s"]
  show ?thesis unfolding core_memory_def by simp
qed

lemma write_core_on:
  assumes ok: "page_ok (l_vm s)" "has_auxv s n" "list_all (region_ok (l_vm s)) (core_regions (l_vm s))"
    and h: "unlimited h" "list_all gets_on (f_answers f)" "f_pos f = 0"
    and info: "fill_note_info h filename env cpus signr s = Inr info" "list_all core_note (i_notes info @ i_threads info)"
      "i_notes_size info = int (sum_list (map n_notesz (i_notes info @ i_threads info)))" "nat (i_notes_size info) < 2 ^ 40"
  shows "\<exists>f'. write_core h filename env cpus signr s f = Inr f' \<and>
     f_data f' = put_at (roundup (length (core_head h s info)) 4096) (concat (core_memory s)) (put_at 0 (core_head h s info) (f_data f)) \<and>
     (f_errno f' = f_errno f \<or> f_errno f' = EINTR \<and> Write_Fails EINTR \<in> set (f_answers f))"
proof -
  let ?mm = "core_regions (l_vm s)"
  let ?off = "52 + (length ?mm + 1) * 32"
  let ?data = "roundup (?off + nat (i_notes_size info)) 4096"
  let ?hdr = "fill_elf_header (int (length ?mm) + 1)" and ?nph = "phdr_bytes (fill_elf_note_phdr (i_notes_size info) ?off) 0"
  let ?phs = "concat (header_list (core_size s) ?mm ?data)"
  have mm: "length ?mm \<le> 2 ^ 21" "length ?phs = 32 * length ?mm"
    using walk_regions_vma(2) concat_length_32 [OF header_list_lengths] by simp_all
  have ne: "?hdr \<noteq> []" "?nph \<noteq> []" by (metis elf_header_length list.size(3) zero_neq_numeral, metis phdr_bytes_length list.size(3) zero_neq_numeral)
  obtain f1 where f1: "dump_write h ?hdr f = (0, f1)" "dumped ?hdr f f1" "list_all gets_on (f_answers f1)"
    using dump_write_on [OF h(1,2) ne(1)] h(3) by auto
  have p1: "f_pos f1 = 52" using f1(2) h(3) by (simp add: dumped_def)
  obtain f2 where f2: "dump_write h ?nph f1 = (0, f2)" "dumped ?nph f1 f2" "list_all gets_on (f_answers f2)"
    using dump_write_on [OF h(1) f1(3) ne(2)] p1 by auto
  have p2: "f_pos f2 = 84" using f2(2) p1 by (simp add: dumped_def)
  have sizes: "list_all (\<lambda>vma. vma_dump_size s vma = Inr (core_size s vma)) ?mm"
    using ok(3) vma_dump_size_ok [OF ok(1)] by (auto simp: list_all_iff)
  have "f_pos f2 + 32 * length ?mm < 2 ^ 63" using p2 mm(1) by simp
  then obtain f3 where f3: "write_headers h s ?mm ?data f2 = Inr f3" "dumped ?phs f2 f3"
    using write_headers_on [OF h(1) sizes f2(3)] by blast
  have g3: "list_all gets_on (f_answers f3)" by (rule gets_on_dumped [OF f3(2) f2(3)])
  have p3: "f_pos f3 = ?off" using f3(2) p2 mm(2) by (simp add: dumped_def)
  have small: "f_pos f3 + sum_list (map n_notesz (i_notes info @ i_threads info)) < 2 ^ 63" using p3 mm(1) info(3,4) by simp
  have nok: "list_all core_note (i_notes info)" "list_all core_note (i_threads info)" using info(2) by simp_all
  have "f_pos f3 + sum_list (map n_notesz (i_notes info)) < 2 ^ 63" using small by simp
  then obtain f4 where f4: "write_notes h (i_notes info) f3 = (0, f4)" "dumped (concat (map (note_bytes h) (i_notes info))) f3 f4"
    using write_notes_on [OF h(1) nok(1) g3] by blast
  have g4: "list_all gets_on (f_answers f4)" by (rule gets_on_dumped [OF f4(2) g3])
  have "length (concat (map (note_bytes h) ns)) = sum_list (map n_notesz ns)" if "list_all core_note ns" for ns
    using that by (induction ns) (simp_all add: note_bytes_length [OF h(1)])
  then have "f_pos f4 = f_pos f3 + sum_list (map n_notesz (i_notes info))" using f4(2) nok(1) by (simp add: dumped_def)
  then have "f_pos f4 + sum_list (map n_notesz (i_threads info)) < 2 ^ 63" using small by simp
  then obtain f5 where f5: "write_notes h (i_threads info) f4 = (0, f5)" "dumped (concat (map (note_bytes h) (i_threads info))) f4 f5"
    using write_notes_on [OF h(1) nok(2) g4] by blast
  have g5: "list_all gets_on (f_answers f5)" by (rule gets_on_dumped [OF f5(2) g4])
  have head: "dumped (core_head h s info) f f5"
    using dumped_append [OF f1(2) dumped_append [OF f2(2) dumped_append [OF f3(2) dumped_append [OF f4(2) f5(2)]]]]
    by (simp add: core_head_def Let_def)
  have p5: "f_pos f5 = ?off + nat (i_notes_size info)" using head h(3) core_head_length [OF h(1) info(2,3), of s] by (simp add: dumped_def)
  let ?f5 = "f5\<lparr>f_pos := roundup (f_pos f5) 4096\<rparr>"
  have rl: "roundup (f_pos f5) 4096 \<le> f_pos f5 + 4095" by (simp add: roundup_le)
  have "f_pos ?f5 + sum_list (map (\<lambda>vma. unat (core_size s vma)) ?mm) < 2 ^ 63"
  proof -
    have "sum_list (map (\<lambda>vma. unat (core_size s vma)) ?mm) = length (concat (core_memory s))"
      by (simp add: core_memory_def length_concat o_def)
    with core_memory_bound [of s] have m: "sum_list (map (\<lambda>vma. unat (core_size s vma)) ?mm) \<le> 2 ^ 53" by (simp only:)
    have "f_pos ?f5 \<le> f_pos f5 + 4095" using rl by simp
    with p5 mm(1) info(4) m show ?thesis by simp
  qed
  then obtain f6 where f6: "dump_memory h s ?mm ?f5 = Inr f6" "dumped (concat (core_memory s)) ?f5 f6"
    using dump_memory_on [OF ok(1) h(1) ok(3), of ?f5] g5 by (auto simp: core_memory_def)
  have "write_core h filename env cpus signr s f = Inr f6"
    unfolding write_core_def Let_def walk_regions_vma(1) f1(1) prod.case info(1) and_then_Inr
    using f2(1) f3(1) f4(1) f5(1) f6(1) h(1) by (simp add: write_note_info_def unlimited_def)
  moreover have "f_data f6 = put_at (roundup (length (core_head h s info)) 4096) (concat (core_memory s)) (put_at 0 (core_head h s info) (f_data f))"
    using f6(2) head h(3) p5 core_head_length [OF h(1) info(2,3), of s] by (simp add: dumped_def)
  moreover have "f_errno f6 = f_errno f \<or> f_errno f6 = EINTR \<and> Write_Fails EINTR \<in> set (f_answers f)"
    using f6(2) head unfolding dumped_def by auto
  ultimately show ?thesis by blast
qed

lemma head_header:
  assumes "i < length (core_regions (l_vm s))"
  shows "take 32 (drop (52 + 32 * (i + 1)) (core_head h s info)) =
     phdr_bytes (vma_phdr (core_regions (l_vm s) ! i)
       (roundup (52 + (length (core_regions (l_vm s)) + 1) * 32 + nat (i_notes_size info)) 4096 +
          sum_list (map (\<lambda>vma. unat (core_size s vma)) (take i (core_regions (l_vm s)))))
       (core_size s (core_regions (l_vm s) ! i))) 4096"
proof -
  let ?mm = "core_regions (l_vm s)"
  let ?off = "roundup (52 + (length ?mm + 1) * 32 + nat (i_notes_size info)) 4096"
  let ?hl = "header_list (core_size s) ?mm ?off"
  let ?A = "fill_elf_header (int (length ?mm) + 1) @ phdr_bytes (fill_elf_note_phdr (i_notes_size info) (52 + (length ?mm + 1) * 32)) 0"
  let ?N = "concat (map (note_bytes h) (i_notes info @ i_threads info))"
  have H: "core_head h s info = ?A @ concat ?hl @ ?N" by (simp add: core_head_def Let_def)
  have i: "i < length ?hl" using assms by simp
  have "list_all (\<lambda>xs. length xs = 32) (take i ?hl)" using header_list_lengths [of "core_size s" ?mm ?off] by (auto simp: list_all_iff dest: in_set_takeD)
  then have "sum_list (map length (take i ?hl)) = 32 * i"
    using concat_length_32 [of 32 "take i ?hl"] i by (simp add: length_concat min_def)
  moreover have "length (?hl ! i) = 32" using header_list_nth [OF assms] by simp
  ultimately have c: "take 32 (drop (32 * i) (concat ?hl)) = ?hl ! i" "32 * i + 32 \<le> length (concat ?hl)"
    using take_drop_concat [OF i] by simp_all
  have "length ?A = 84" by simp
  then have "drop (52 + 32 * (i + 1)) (core_head h s info) = drop (32 * i) (concat ?hl @ ?N)"
    unfolding H drop_append by simp
  then have "take 32 (drop (52 + 32 * (i + 1)) (core_head h s info)) = ?hl ! i" using c by simp
  then show ?thesis using header_list_nth [OF assms] by simp
qed

lemma head_registers:
  assumes "unlimited h" "i_notes info \<noteq> []" "hd (i_notes info) = fill_note CORE 1 (fill_prstatus h env signr)"
  shows "take 68 (drop (52 + 32 * (length (core_regions (l_vm s)) + 1) + 92) (core_head h s info)) = concat (map bytes32 (elf_core_copy_regs env)) \<and>
     52 + 32 * (length (core_regions (l_vm s)) + 1) + 160 \<le> length (core_head h s info)"
proof -
  let ?mm = "core_regions (l_vm s)"
  let ?st = "fill_prstatus h env signr"
  obtain ns where ns: "i_notes info = fill_note CORE 1 ?st # ns" using assms(2,3) by (cases "i_notes info") auto
  let ?A = "fill_elf_header (int (length ?mm) + 1) @ phdr_bytes (fill_elf_note_phdr (i_notes_size info) (52 + (length ?mm + 1) * 32)) 0 @
    concat (header_list (core_size s) ?mm (roundup (52 + (length ?mm + 1) * 32 + nat (i_notes_size info)) 4096))"
  let ?a = "bytes32 5 @ bytes32 144 @ bytes32 1 @ take 8 ((CORE @ [0]) @ behind_name h)"
  let ?rest = "concat (map (note_bytes h) (ns @ i_threads info))"
  let ?b = "bytes32 (of_int signr) @ bytes32 0 @ bytes32 0 @ bytes16 (of_int signr) @ bytes16 0 @ bytes32 0 @ bytes32 0 @
     bytes32 (c_tid env) @ bytes32 (h_getppid h) @ bytes32 (h_getpgrp h) @ bytes32 (h_getsid h) @ replicate 32 0"
  let ?r = "concat (map bytes32 (elf_core_copy_regs env))"
  have n: "note_bytes h (fill_note CORE 1 ?st) = ?a @ ?st"
    by (simp add: note_bytes_def fill_note_def roundup_def CORE_def Let_def)
  have st: "?st = ?b @ ?r @ bytes32 0" by (simp add: fill_prstatus_def)
  have H: "core_head h s info = (?A @ ?a @ ?b) @ ?r @ bytes32 0 @ ?rest"
    by (simp only: core_head_def Let_def ns append_Cons list.map concat.simps n, simp only: st append_assoc)
  have len: "length (?A @ ?a @ ?b) = 52 + 32 * (length ?mm + 1) + 92"
    using assms(1) concat_length_32 [OF header_list_lengths] by (simp add: unlimited_def CORE_def)
  have r: "length ?r = 68" by (simp add: elf_core_copy_regs_def)
  have "drop (52 + 32 * (length ?mm + 1) + 92) (core_head h s info) = ?r @ bytes32 0 @ ?rest"
    unfolding H len [symmetric] append_eq_conv_conj [symmetric] by simp
  moreover have "length (core_head h s info) \<ge> length (?A @ ?a @ ?b) + 68" unfolding H length_append r by simp
  ultimately show ?thesis using r len by simp
qed

text \<open>
  The file for regions as the walk over the table gives them, whatever they have to do with what is mapped: the
  headers, the registers, and for each region a header that says where in the file its bytes are and how many of them.
\<close>

lemma core_file_regions:
  assumes "page_ok (l_vm s)" "has_auxv s n" "list_all (region_ok (l_vm s)) (core_regions (l_vm s))"
    and "unlimited h" "list_all gets_on (write_answers h)" "length cpus < 2 ^ 20"
    and "core_dump_filename h filename = Inr name" "open_core h name = Inr data"
  shows "\<exists>r f. elf_core_dump h filename env cpus signr s = Inr (r, Some f) \<and>
     (r = 0 \<or> r = - EINTR \<and> Write_Fails EINTR \<in> set (write_answers h)) \<and>
     (let mm = core_regions (l_vm s); notes = 52 + 32 * (length mm + 1) in
      file_bytes f 0 52 = fill_elf_header (int (length mm) + 1) \<and>
      (\<exists>size. file_bytes f 52 32 = phdr_bytes (fill_elf_note_phdr size notes) 0) \<and>
      file_bytes f (notes + 92) 68 = concat (map bytes32 (elf_core_copy_regs env)) \<and>
      (\<forall>i<length mm. \<exists>offset. offset \<le> 2 ^ 28 + sum_list (map (\<lambda>vma. unat (core_size s vma)) mm) \<and>
         file_bytes f (52 + 32 * (i + 1)) 32 = phdr_bytes (vma_phdr (mm ! i) offset (core_size s (mm ! i))) 4096 \<and>
         file_bytes f offset (unat (core_size s (mm ! i))) =
           read_bytes (l_mem s) (vma_start (mm ! i)) (unat (core_size s (mm ! i)))))"
proof -
  let ?mm = "core_regions (l_vm s)" and ?f0 = "\<lparr>f_data = data, f_pos = 0, f_answers = write_answers h, f_errno = 0\<rparr>"
  obtain info where info: "fill_note_info h filename env cpus signr s = Inr info"
    "hd (i_notes info) = fill_note CORE 1 (fill_prstatus h env signr)" "i_notes info \<noteq> []"
    "list_all core_note (i_notes info @ i_threads info)" "sum_list (map n_notesz (i_notes info @ i_threads info)) < 2 ^ 24 + 164 * length cpus"
    "i_notes_size info = int (sum_list (map n_notesz (i_notes info @ i_threads info)))" by (rule fill_note_info_ok [OF assms(1,2)])
  let ?H = "core_head h s info" and ?M = "concat (core_memory s)"
  let ?P = "roundup (length ?H) 4096"
  have "nat (i_notes_size info) < 2 ^ 40" using info(5,6) assms(6) by simp
  from write_core_on [OF assms(1-4) _ _ info(1,4,6) this, of ?f0] assms(5) obtain f where f:
    "write_core h filename env cpus signr s ?f0 = Inr f" "f_data f = put_at ?P ?M (put_at 0 ?H data)"
    "f_errno f = 0 \<or> f_errno f = EINTR \<and> Write_Fails EINTR \<in> set (write_answers h)" by auto
  have H: "length ?H = 52 + (length ?mm + 1) * 32 + nat (i_notes_size info)" by (rule core_head_length [OF assms(4) info(4,6)])
  have P: "length ?H \<le> ?P" using div_mult_mod_eq [of "length ?H + 4095" 4096] mod_less_divisor [of 4096 "length ?H + 4095"]
    unfolding roundup_def by linarith
  have head: "file_bytes f q m = take m (drop q ?H)" if "q + m \<le> length ?H" for q m
  proof -
    have "q + m \<le> ?P" using that P by simp
    note put_at_below [OF this, of ?M "put_at 0 ?H data"]
    also have "map (put_at 0 ?H data) [q..<q + m] = take m (drop q ?H)" using put_at_read [of 0 q m ?H data] that by simp
    finally show ?thesis unfolding file_bytes_def f(2) .
  qed
  have dump: "elf_core_dump h filename env cpus signr s = Inr (- f_errno f, Some f)"
    using assms(4,7,8) f(1) by (simp add: elf_core_dump_def unlimited_def)
  have a: "file_bytes f 0 52 = fill_elf_header (int (length ?mm) + 1)" using head [of 0 52] H by (simp add: core_head_def Let_def)
  have b: "file_bytes f 52 32 = phdr_bytes (fill_elf_note_phdr (i_notes_size info) (52 + 32 * (length ?mm + 1))) 0"
    using head [of 52 32] H by (simp add: core_head_def Let_def mult.commute)
  have c: "file_bytes f (52 + 32 * (length ?mm + 1) + 92) 68 = concat (map bytes32 (elf_core_copy_regs env))"
    using head head_registers [OF assms(4) info(3,2), of s] by simp
  have d: "\<exists>offset. offset \<le> 2 ^ 28 + sum_list (map (\<lambda>vma. unat (core_size s vma)) ?mm) \<and> file_bytes f (52 + 32 * (i + 1)) 32 = phdr_bytes (vma_phdr (?mm ! i) offset (core_size s (?mm ! i))) 4096 \<and>
      file_bytes f offset (unat (core_size s (?mm ! i))) = read_bytes (l_mem s) (vma_start (?mm ! i)) (unat (core_size s (?mm ! i)))"
    if i: "i < length ?mm" for i
  proof -
    let ?o = "sum_list (map (\<lambda>vma. unat (core_size s vma)) (take i ?mm))"
    let ?n = "unat (core_size s (?mm ! i))"
    have "i < length (core_memory s)" using i by (simp add: core_memory_def)
    from take_drop_concat [OF this] have m: "take ?n (drop ?o ?M) = read_bytes (l_mem s) (vma_start (?mm ! i)) ?n" "?o + ?n \<le> length ?M"
      using i by (simp_all add: core_memory_def take_map o_def)
    have "file_bytes f (?P + ?o) ?n = take ?n (drop ?o ?M)"
      unfolding file_bytes_def f(2) using put_at_read [of ?P "?P + ?o" ?n ?M] m(2) by simp
    moreover have "file_bytes f (52 + 32 * (i + 1)) 32 = phdr_bytes (vma_phdr (?mm ! i) (?P + ?o) (core_size s (?mm ! i))) 4096"
      using head [of "52 + 32 * (i + 1)" 32] head_header [OF i, of h info] i H by simp
    moreover have "?P + ?o \<le> 2 ^ 28 + sum_list (map (\<lambda>vma. unat (core_size s vma)) ?mm)"
    proof -
      have "sum_list (map (\<lambda>vma. unat (core_size s vma)) ?mm) = ?o + sum_list (map (\<lambda>vma. unat (core_size s vma)) (drop i ?mm))"
        by (simp flip: sum_list_append map_append)
      moreover have "?P \<le> 2 ^ 28" using roundup_le [of "length ?H"] H walk_regions_vma(2) [of "l_vm s"] info(5,6) assms(6) by simp
      ultimately show ?thesis by linarith
    qed
    ultimately show ?thesis using m(1) by auto
  qed
  show ?thesis unfolding Let_def
    by (rule exI [of _ "- f_errno f"], rule exI [of _ f]) (use dump f(3) a b c d in auto)
qed

section \<open>Programs in the first table\<close>

text \<open>
  The walk over the table gives the right addresses for the pages of its first entry only.  For a program that lies below
  0x3ff000 the regions are the runs of pages with the same protection.  Pages are counted here: a run
  \<open>(i, j, f)\<close> has the pages from \<open>i\<close> to before \<open>j\<close>.
\<close>

definition runs_below :: "(nat \<Rightarrow> u32) \<Rightarrow> nat \<Rightarrow> (nat \<times> nat \<times> u32) list \<Rightarrow> bool" where
  "runs_below fl st rs \<longleftrightarrow>
     (\<forall>(i, j, f)\<in>set rs. i < j \<and> j \<le> st \<and> f \<noteq> 0 \<and> (\<forall>k. i \<le> k \<and> k < j \<longrightarrow> fl k = f)) \<and>
     sorted_wrt (\<lambda>(_, j, _) (i, _). j \<le> i) rs \<and>
     (\<forall>k < st. fl k \<noteq> 0 \<longrightarrow> (\<exists>(i, j, f)\<in>set rs. i \<le> k \<and> k < j)) \<and> sum_list (map (\<lambda>(i, j, f). j - i) rs) \<le> st"

definition page_run :: "nat \<times> nat \<times> u32 \<Rightarrow> u32 \<times> u32 \<times> u32" where
  "page_run = (\<lambda>(i, j, f). (push_bit 12 (of_nat i), push_bit 12 (of_nat j), f))"

lemma runs_below_snoc:
  "runs_below fl i rs \<Longrightarrow> i < j \<Longrightarrow> f \<noteq> 0 \<Longrightarrow> \<forall>k. i \<le> k \<and> k < j \<longrightarrow> fl k = f \<Longrightarrow> runs_below fl j (rs @ [(i, j, f)])"
  unfolding runs_below_def sorted_wrt_append by (fastforce simp: not_less)

lemma runs_below_skip: "runs_below fl j rs \<Longrightarrow> fl j = 0 \<Longrightarrow> runs_below fl (Suc j) rs"
  by (fastforce simp: runs_below_def less_Suc_eq)

definition walking :: "(nat \<Rightarrow> u32) \<Rightarrow> nat \<Rightarrow> walk_memory_regions_data \<Rightarrow> (u32 \<times> u32 \<times> u32) list \<Rightarrow> bool" where
  "walking fl j d p \<longleftrightarrow> (\<exists>rs st. p = map page_run rs \<and> runs_below fl st rs \<and>
     (if wd_prot d = 0 then wd_start d = - 1 \<and> st = j
      else wd_start d = push_bit 12 (of_nat st) \<and> st < j \<and> (\<forall>k. st \<le> k \<and> k < j \<longrightarrow> fl k = wd_prot d)))"

lemma page_start_not_all: "push_bit 12 x \<noteq> (- 1 :: u32)"
proof
  assume "push_bit 12 x = (- 1 :: u32)"
  then have "bit (push_bit 12 x) 0 = bit (- 1 :: u32) 0" by simp
  then show False by (simp add: bit_simps)
qed

lemma walking_step:
  assumes "walking fl j d p"
  shows "\<exists>d' p'. (if fl j \<noteq> wd_prot d then walk_memory_regions_end dump_region (push_bit 12 (of_nat j)) (fl j) (d, p) else (0, d, p)) = (0, d', p') \<and>
     walking fl (Suc j) d' p'"
proof -
  from assms obtain rs st where w: "p = map page_run rs" "runs_below fl st rs"
    "if wd_prot d = 0 then wd_start d = - 1 \<and> st = j
     else wd_start d = push_bit 12 (of_nat st) \<and> st < j \<and> (\<forall>k. st \<le> k \<and> k < j \<longrightarrow> fl k = wd_prot d)"
    unfolding walking_def by blast
  let ?new = "\<lparr>wd_start = (if fl j \<noteq> 0 then push_bit 12 (of_nat j) else - 1), wd_prot = fl j\<rparr>"
  consider (same) "fl j = wd_prot d" | (first) "fl j \<noteq> wd_prot d" "wd_prot d = 0" | (other) "fl j \<noteq> wd_prot d" "wd_prot d \<noteq> 0" by blast
  then show ?thesis
  proof cases
    case same
    have "walking fl (Suc j) d p"
    proof (cases "wd_prot d = 0")
      case True
      then have "runs_below fl (Suc j) rs" using runs_below_skip [of fl j rs] w same by simp
      then show ?thesis using w True unfolding walking_def by (intro exI [of _ rs] exI [of _ "Suc j"]) simp
    next
      case False
      then show ?thesis using w same unfolding walking_def by (intro exI [of _ rs] exI [of _ st]) (auto simp: less_Suc_eq)
    qed
    then show ?thesis using same by simp
  next
    case first
    then have "walking fl (Suc j) ?new p"
      using w unfolding walking_def by (intro exI [of _ rs] exI [of _ j]) (auto simp: less_Suc_eq)
    then show ?thesis using first w(3) by (simp add: walk_memory_regions_end_def)
  next
    case other
    have r: "runs_below fl j (rs @ [(st, j, wd_prot d)])" using w other by (intro runs_below_snoc) auto
    have "walking fl (Suc j) ?new (map page_run (rs @ [(st, j, wd_prot d)]))"
    proof (cases "fl j = 0")
      case True
      then show ?thesis using runs_below_skip [OF r] unfolding walking_def
        by (intro exI [of _ "rs @ [(st, j, wd_prot d)]"] exI [of _ "Suc j"]) simp
    next
      case False
      then show ?thesis using r unfolding walking_def
        by (intro exI [of _ "rs @ [(st, j, wd_prot d)]"] exI [of _ j]) (auto simp: less_Suc_eq)
    qed
    moreover have "map page_run (rs @ [(st, j, wd_prot d)]) = p @ [(wd_start d, push_bit 12 (of_nat j), wd_prot d)]"
      using w(1,3) other(2) by (simp add: page_run_def)
    ultimately show ?thesis
      using other w(3) page_start_not_all by (simp add: walk_memory_regions_end_def dump_region_def)
  qed
qed

lemma walk_first_table:
  "\<exists>d p. walk_table dump_region pd 0 [0..<j] (idle, []) = (0, d, p) \<and> walking (\<lambda>k. pd_flags (pd k)) j d p"
proof (induction j)
  case 0
  have "walking (\<lambda>k. pd_flags (pd k)) 0 idle []" unfolding walking_def by (intro exI [of _ "[]"] exI [of _ 0]) (simp add: runs_below_def)
  then show ?case by simp
next
  case (Suc j)
  then obtain d p where "walk_table dump_region pd 0 [0..<j] (idle, []) = (0, d, p)" "walking (\<lambda>k. pd_flags (pd k)) j d p" by blast
  with walking_step [OF this(2)] show ?case by (auto simp: walk_table_append)
qed

definition page_flags_at :: "vm_state \<Rightarrow> nat \<Rightarrow> u32" where
  "page_flags_at v k = page_get_flags v (push_bit 12 (of_nat k))"

lemma page_start_nat: "k \<le> 1024 \<Longrightarrow> unat (push_bit 12 (of_nat k) :: u32) = 4096 * k"
  using unat_of_nat_u32 [of k] by (simp add: push_bit_eq_mult unat_word_ariths mult.commute)

lemma page_start_loc:
  assumes "k < 1024"
  shows "page_loc (page_of (push_bit 12 (of_nat k))) = (0, k)"
proof -
  have p: "unat (page_of (push_bit 12 (of_nat k))) = k" unfolding page_of_nat using page_start_nat [of k] assms by simp
  have mask: "(0x3ff :: u32) = mask 10" by (simp add: mask_eq_exp_minus_1)
  have "drop_bit 10 (page_of (push_bit 12 (of_nat k))) = 0"
    unfolding word_unat_eq_iff using p assms by (simp add: drop_bit_eq_div unat_div)
  moreover have "unat (page_of (push_bit 12 (of_nat k)) AND 0x3ff) = k"
    unfolding mask take_bit_eq_mask [symmetric] using p assms by (simp add: take_bit_eq_mod unat_mod)
  ultimately show "page_loc (page_of (push_bit 12 (of_nat k))) = (0, k)" by (simp add: page_loc_def)
qed

lemma page_flags_of:
  assumes "unat a < 4096 * 1024"
  shows "page_get_flags v a = page_flags_at v (unat a div 4096)"
proof -
  let ?k = "unat a div 4096"
  have k: "?k < 1024" using assms by (simp add: less_mult_imp_div_less)
  have "page_of (push_bit 12 (of_nat ?k)) = page_of a"
    unfolding word_unat_eq_iff page_of_nat using page_start_nat [of ?k] k by simp
  then show ?thesis by (simp add: page_flags_at_def page_get_flags_desc)
qed

lemma low_page_dump:
  assumes low: "\<And>a. page_get_flags v a \<noteq> 0 \<Longrightarrow> a < 0x3ff000"
  obtains rs where "page_dump v = map page_run rs" "runs_below (page_flags_at v) 1024 rs"
proof -
  have fl: "page_flags_at v k = pd_flags (page_desc v (0, k))" if "k < 1024" for k
    unfolding page_flags_at_def page_get_flags_desc page_start_loc [OF that] ..
  have zero: "pd_flags (pd j) = 0" if h: "l1_map v i = Some pd" "i < 1024" "j < 1024" "i \<noteq> 0" for i j pd
  proof -
    obtain b where b: "page_loc (page_of b) = (i, j)" using page_loc_onto [OF h(2,3)] .
    have "\<not> b < 0x3ff000"
    proof
      assume "b < 0x3ff000"
      then have "unat (page_of b) < 1024" by (simp add: word_less_nat_alt page_of_nat less_mult_imp_div_less)
      then have "drop_bit 10 (page_of b) = 0" unfolding word_unat_eq_iff by (simp add: drop_bit_eq_div unat_div)
      then show False using b h(4) by (simp add: page_loc_def)
    qed
    then show ?thesis using low [of b] h(1) unfolding page_get_flags_desc b by (auto simp: page_desc_def)
  qed
  have last: "page_flags_at v 1023 = 0"
  proof -
    have "\<not> push_bit 12 (of_nat 1023) < (0x3ff000 :: u32)" by simp
    then show ?thesis using low [of "push_bit 12 (of_nat 1023)"] unfolding page_flags_at_def by blast
  qed
  have first: "\<exists>rs. walk_memory_regions_1 dump_region (l1_map v 0) 0 (idle, []) = (0, idle, map page_run rs) \<and>
      runs_below (page_flags_at v) 1024 rs"
  proof (cases "l1_map v 0")
    case None
    then have "page_flags_at v k = 0" if "k < 1024" for k using fl [OF that] by (simp add: page_desc_def blank_page_def)
    then have "runs_below (page_flags_at v) 1024 []" by (simp add: runs_below_def)
    moreover have "walk_memory_regions_1 dump_region (l1_map v 0) 0 (idle, []) = (0, idle, map page_run [])"
      by (simp add: None walk_memory_regions_1_def walk_memory_regions_end_def)
    ultimately show ?thesis by blast
  next
    case (Some pd)
    have pd: "pd_flags (pd k) = page_flags_at v k" if "k < 1024" for k using fl [OF that] by (simp add: page_desc_def Some)
    obtain d p where w: "walk_table dump_region pd 0 [0..<1024] (idle, []) = (0, d, p)" "walking (\<lambda>k. pd_flags (pd k)) 1024 d p"
      using walk_first_table by blast
    then obtain rs st where r: "p = map page_run rs" "runs_below (\<lambda>k. pd_flags (pd k)) st rs"
      "if wd_prot d = 0 then wd_start d = - 1 \<and> st = 1024
       else wd_start d = push_bit 12 (of_nat st) \<and> st < 1024 \<and> (\<forall>k. st \<le> k \<and> k < 1024 \<longrightarrow> pd_flags (pd k) = wd_prot d)"
      unfolding walking_def by blast
    have z: "wd_prot d = 0"
    proof (rule ccontr)
      assume nz: "wd_prot d \<noteq> 0"
      then have "st < 1024" "\<forall>k. st \<le> k \<and> k < 1024 \<longrightarrow> pd_flags (pd k) = wd_prot d" using r(3) by simp_all
      then have "pd_flags (pd 1023) = wd_prot d" by simp
      with pd [of 1023] last nz show False by simp
    qed
    then have d: "d = idle" "st = 1024" using r(3) by (simp_all add: z)
    have "runs_below (page_flags_at v) 1024 rs"
      using r(2) pd unfolding d(2) runs_below_def by fastforce
    then show ?thesis using w(1) unfolding walk_memory_regions_1_def Some option.case r(1) d(1) by blast
  qed
  then obtain rs where rs: "walk_memory_regions_1 dump_region (l1_map v 0) 0 (idle, []) = (0, idle, map page_run rs)"
    "runs_below (page_flags_at v) 1024 rs" by blast
  have "[0..<1024] = 0 # [Suc 0..<1024]" by (rule upt_conv_Cons) simp
  moreover have "walk_l1 dump_region v [Suc 0..<1024] (idle, p) = (0, idle, p)" for p
    by (rule walk_l1_skip) (use zero in auto)
  ultimately have "walk_l1 dump_region v [0..<1024] (idle, []) = (0, idle, map page_run rs)" using rs(1) by simp
  then have "page_dump v = map page_run rs"
    unfolding page_dump_def walk_memory_regions_def by (simp add: walk_memory_regions_end_def del: upt_rec_numeral upt.simps)
  with rs(2) that show thesis by blast
qed

text \<open>
  The regions that a program has: whole pages, in the order of their addresses, each region with the same flags throughout, and together all
  that is mapped.
\<close>

definition in_region :: "u32 \<Rightarrow> vm_area_struct \<Rightarrow> bool" where
  "in_region a vma \<longleftrightarrow> vma_start vma \<le> a \<and> a < vma_end vma"

definition mapped_regions :: "vm_state \<Rightarrow> vm_area_struct list \<Rightarrow> bool" where
  "mapped_regions v mm \<longleftrightarrow>
     sorted_wrt (\<lambda>vma vma'. vma_end vma \<le> vma_start vma') mm \<and>
     (\<forall>vma\<in>set mm. vma_start vma < vma_end vma \<and> unat (vma_start vma) mod 4096 = 0 \<and> unat (vma_end vma) mod 4096 = 0 \<and>
        vma_flags vma \<noteq> 0 \<and> (\<forall>a. in_region a vma \<longrightarrow> page_get_flags v a = vma_flags vma)) \<and>
     (\<forall>a. page_get_flags v a \<noteq> 0 \<longrightarrow> (\<exists>vma\<in>set mm. in_region a vma))"

lemma run_region:
  assumes "i < j" "j \<le> 1024"
  shows "in_region a (vma_of (page_run (i, j, f))) \<longleftrightarrow> i \<le> unat a div 4096 \<and> unat a div 4096 < j"
    "unat (vma_start (vma_of (page_run (i, j, f)))) = 4096 * i"
    "unat (vma_end (vma_of (page_run (i, j, f))) - vma_start (vma_of (page_run (i, j, f)))) = 4096 * (j - i)"
    "vma_flags (vma_of (page_run (i, j, f))) = f"
    "vma_start (vma_of (page_run (i, j, f))) < vma_end (vma_of (page_run (i, j, f)))"
    "unat (vma_end (vma_of (page_run (i, j, f)))) = 4096 * j"
proof -
  have u: "unat (push_bit 12 (of_nat i) :: u32) = 4096 * i" "unat (push_bit 12 (of_nat j) :: u32) = 4096 * j"
    using page_start_nat assms by simp_all
  have "push_bit 12 (of_nat i) \<le> a \<longleftrightarrow> i \<le> unat a div 4096" "a < push_bit 12 (of_nat j) \<longleftrightarrow> unat a div 4096 < j"
    unfolding word_le_nat_alt word_less_nat_alt u by linarith+
  then show "in_region a (vma_of (page_run (i, j, f))) \<longleftrightarrow> i \<le> unat a div 4096 \<and> unat a div 4096 < j"
    by (simp add: in_region_def page_run_def vma_of_def)
  have "(push_bit 12 (of_nat i) :: u32) \<le> push_bit 12 (of_nat j)" unfolding word_le_nat_alt u using assms by simp
  then show "unat (vma_end (vma_of (page_run (i, j, f))) - vma_start (vma_of (page_run (i, j, f)))) = 4096 * (j - i)"
    by (simp add: page_run_def vma_of_def unat_sub u diff_mult_distrib2)
  show "vma_start (vma_of (page_run (i, j, f))) < vma_end (vma_of (page_run (i, j, f)))"
    using assms by (simp add: page_run_def vma_of_def word_less_nat_alt u)
qed (use page_start_nat assms in \<open>simp_all add: page_run_def vma_of_def\<close>)

lemma low_regions:
  assumes low: "\<And>a. page_get_flags (l_vm s) a \<noteq> 0 \<Longrightarrow> a < 0x3ff000 \<and> a + guest_base (l_vm s) \<noteq> 0"
  shows "list_all (region_ok (l_vm s)) (core_regions (l_vm s))" "mapped_regions (l_vm s) (core_regions (l_vm s))"
    "sum_list (map (\<lambda>vma. unat (core_size s vma)) (core_regions (l_vm s))) \<le> 2 ^ 22"
proof -
  let ?v = "l_vm s"
  from low_page_dump [of ?v] low obtain rs where rs: "page_dump ?v = map page_run rs" "runs_below (page_flags_at ?v) 1024 rs" by blast
  have mm: "core_regions ?v = map (\<lambda>r. vma_of (page_run r)) rs" by (simp add: core_regions_def rs(1))
  have run: "i < j" "j \<le> 1024" "f \<noteq> 0" "i \<le> k \<Longrightarrow> k < j \<Longrightarrow> page_flags_at ?v k = f" if "(i, j, f) \<in> set rs" for i j f k
    using rs(2) that unfolding runs_below_def by fastforce+
  have flags: "page_get_flags ?v a = f" if r: "(i, j, f) \<in> set rs" "in_region a (vma_of (page_run (i, j, f)))" for i j f a
  proof -
    have k: "i \<le> unat a div 4096" "unat a div 4096 < j" using r(2) run_region(1) [OF run(1,2) [OF r(1)]] by simp_all
    then have "unat a < 4096 * 1024" using run(2) [OF r(1)] by linarith
    then show ?thesis using page_flags_of run(4) [OF r(1) k] by simp
  qed
  show "mapped_regions ?v (core_regions ?v)"
    unfolding mapped_regions_def
  proof (intro conjI ballI allI impI)
    have "vma_end (vma_of (page_run p)) \<le> vma_start (vma_of (page_run q))"
      if "p \<in> set rs" "q \<in> set rs" "(\<lambda>(_, j, _) (i, _). j \<le> i) p q" for p q
    proof -
      obtain i j f i' j' f' where pq: "p = (i, j, f)" "q = (i', j', f')" by (cases p, cases q) auto
      then have "j \<le> 1024" "i' \<le> 1024" "j \<le> i'" using that run(1,2) by fastforce+
      then show ?thesis using page_start_nat by (simp add: pq page_run_def vma_of_def word_le_nat_alt)
    qed
    moreover have "sorted_wrt (\<lambda>(_, j, _) (i, _). j \<le> i) rs" using rs(2) by (simp add: runs_below_def)
    ultimately show "sorted_wrt (\<lambda>vma vma'. vma_end vma \<le> vma_start vma') (core_regions ?v)"
      unfolding mm sorted_wrt_map by (rule sorted_wrt_mono_rel)
  next
    fix vma assume "vma \<in> set (core_regions ?v)"
    then obtain i j f where r: "(i, j, f) \<in> set rs" "vma = vma_of (page_run (i, j, f))" unfolding mm by auto
    note fl = run_region(4) [OF run(1,2) [OF r(1)], of f]
    show "unat (vma_start vma) mod 4096 = 0" "unat (vma_end vma) mod 4096 = 0"
      unfolding r(2) run_region(2,6) [OF run(1,2) [OF r(1)]] by simp_all
    show "vma_start vma < vma_end vma" unfolding r(2) by (rule run_region(5) [OF run(1,2) [OF r(1)]])
    show "vma_flags vma \<noteq> 0" unfolding r(2) fl by (rule run(3) [OF r(1)])
    fix a assume "in_region a vma"
    then show "page_get_flags ?v a = vma_flags vma" using flags [OF r(1)] unfolding r(2) fl by blast
  next
    fix a assume nz: "page_get_flags ?v a \<noteq> 0"
    then have a: "unat a < 4096 * 1023" using low by (simp add: word_less_nat_alt)
    let ?k = "unat a div 4096"
    have "?k < 1024" using a by (simp add: less_mult_imp_div_less)
    moreover have "page_get_flags ?v a = page_flags_at ?v ?k" by (rule page_flags_of) (use a in simp)
    with nz have "page_flags_at ?v ?k \<noteq> 0" by metis
    ultimately have "\<exists>(i, j, f)\<in>set rs. i \<le> ?k \<and> ?k < j" using rs(2) unfolding runs_below_def by blast
    then obtain i j f where r: "(i, j, f) \<in> set rs" "i \<le> ?k" "?k < j" by blast
    then have "in_region a (vma_of (page_run (i, j, f)))" using run_region(1) [OF run(1,2) [OF r(1)]] by simp
    then show "\<exists>vma\<in>set (core_regions ?v). in_region a vma" unfolding mm using r(1) by force
  qed
  have "region_ok ?v (vma_of (page_run (i, j, f)))" if r: "(i, j, f) \<in> set rs" for i j f
  proof -
    let ?vma = "vma_of (page_run (i, j, f))"
    note ij = run(1,2) [OF r] and R = run_region [OF run(1,2) [OF r]]
    have st: "unat (vma_start ?vma + of_nat n) = 4096 * i + n" if "n < 4096 * (j - i)" for n
      using unat_plus [of "vma_start ?vma" n] R(2) [of f] that ij by simp
    have "in_region (vma_start ?vma + of_nat n) ?vma" if "n < 4096 * (j - i)" for n
      unfolding R(1) st [OF that] using that ij by (auto simp: div_less_iff_less_mult)
    then have fl: "page_get_flags ?v (vma_start ?vma + of_nat n) = f" if "n < 4096 * (j - i)" for n using flags [OF r] that by metis
    have "in_region (vma_start ?vma) ?vma" unfolding R(1,2) using ij by simp
    then have f0: "page_get_flags ?v (vma_start ?vma) = f" by (rule flags [OF r])
    have "vma_start ?vma < vma_end ?vma" using \<open>in_region (vma_start ?vma) ?vma\<close> unfolding in_region_def by simp
    moreover have "vma_end ?vma - vma_start ?vma \<le> 2 ^ 31" unfolding word_le_nat_alt R(3) using ij by simp
    moreover have "readable ?v (vma_start ?vma) (unat (vma_end ?vma - vma_start ?vma))" if "page_allows 1 f"
      unfolding readable_def R(2,3)
    proof (intro conjI allI impI)
      fix n assume n: "n < 4096 * (j - i)"
      show "page_allows 1 (page_get_flags ?v (vma_start ?vma + of_nat n))" using fl [OF n] that by metis
      show "vma_start ?vma + of_nat n + guest_base ?v \<noteq> 0"
        using fl [OF n] run(3) [OF r] low [of "vma_start ?vma + of_nat n"] by metis
    qed (use ij in simp_all)
    moreover have "unat (vma_end ?vma - vma_start ?vma) mod 4096 = 0" unfolding R(3) by simp
    ultimately show ?thesis unfolding region_ok_def f0 by blast
  qed
  then show "list_all (region_ok ?v) (core_regions ?v)" unfolding mm by (auto simp: list_all_iff)
  have "sum_list (map (\<lambda>vma. unat (core_size s vma)) (core_regions ?v)) \<le> sum_list (map (\<lambda>(i, j, f). 4096 * (j - i)) rs)"
    unfolding mm map_map
  proof (rule sum_list_mono)
    fix r assume "r \<in> set rs"
    moreover obtain i j f where r: "r = (i, j, f)" by (cases r) auto
    ultimately have rr: "(i, j, f) \<in> set rs" by simp
    have "unat (core_size s (vma_of (page_run r))) \<le> 4096 * (j - i)"
      using run_region(3) [OF run(1,2) [OF rr], of f] by (simp add: core_size_def r)
    then show "((\<lambda>vma. unat (core_size s vma)) \<circ> (\<lambda>r. vma_of (page_run r))) r \<le> (\<lambda>(i, j, f). 4096 * (j - i)) r"
      by (simp add: r)
  qed
  also have "\<dots> = 4096 * sum_list (map (\<lambda>(i, j, f). j - i) rs)"
    by (simp add: sum_list_const_mult [symmetric] case_prod_unfold)
  also have "\<dots> \<le> 2 ^ 22" using rs(2) by (simp add: runs_below_def)
  finally show "sum_list (map (\<lambda>vma. unat (core_size s vma)) (core_regions ?v)) \<le> 2 ^ 22" .
qed

text \<open>How much of a region the file is to hold: all of it, unless it cannot be read, or is executable and starts like an ELF file.\<close>

definition held_size :: "loader_state \<Rightarrow> vm_area_struct \<Rightarrow> u32" where
  "held_size s vma =
     (if page_allows 1 (vma_flags vma) \<and> (vma_flags vma AND PAGE_EXEC = 0 \<or> read_bytes (l_mem s) (vma_start vma) 4 \<noteq> ELFMAG)
      then vma_end vma - vma_start vma else 0)"

lemma core_size_held: "mapped_regions (l_vm s) mm \<Longrightarrow> vma \<in> set mm \<Longrightarrow> core_size s vma = held_size s vma"
  unfolding mapped_regions_def in_region_def by (auto simp: core_size_def held_size_def)

text \<open>
  C40: What a core file holds.  For a program all of whose mapped pages lie below 0x3ff000, none of them at the host's
  address 0, that has a readable auxiliary vector which ends, fewer than \<open>2 ^ 20\<close> other threads, no limit on the size of core
  files, and a file that can be opened and positioned and takes all that is written, though perhaps in parts and with
  interruptions: \<^verbatim>\<open>elf_core_dump\<close> returns 0, or the error of an interruption it has got over.  The file starts with the ELF
  header and the header of the notes; the first note has the registers where a debugger looks for them.  The mapped memory
  is divided into regions with the same flags throughout, in the order of their addresses; the file has a header for each
  region, with its addresses and rights, that says where in the file its bytes are, and there they are: all of them, or none
  if the region cannot be read or is an executable one that starts like an ELF file.  (Without the bound on the addresses
  nothing of this holds but the headers and registers of \<open>core_file_regions\<close>: \<open>core_misses_page\<close>.)
\<close>

theorem core_file_holds_memory:
  assumes "page_ok (l_vm s)" "has_auxv s n"
    and "\<And>a. page_get_flags (l_vm s) a \<noteq> 0 \<Longrightarrow> a < 0x3ff000 \<and> a + guest_base (l_vm s) \<noteq> 0"
    and "unlimited h" "list_all gets_on (write_answers h)" "length cpus < 2 ^ 20"
    and "core_dump_filename h filename = Inr name" "open_core h name = Inr data"
  shows "\<exists>r f mm. elf_core_dump h filename env cpus signr s = Inr (r, Some f) \<and>
     (r = 0 \<or> r = - EINTR \<and> Write_Fails EINTR \<in> set (write_answers h)) \<and> mapped_regions (l_vm s) mm \<and>
     (let notes = 52 + 32 * (length mm + 1) in
      file_bytes f 0 52 = fill_elf_header (int (length mm) + 1) \<and>
      (\<exists>size. file_bytes f 52 32 = phdr_bytes (fill_elf_note_phdr size notes) 0) \<and>
      file_bytes f (notes + 92) 68 = concat (map bytes32 (elf_core_copy_regs env)) \<and>
      (\<forall>i<length mm. \<exists>offset. offset < 2 ^ 31 \<and>
         file_bytes f (52 + 32 * (i + 1)) 32 = phdr_bytes (vma_phdr (mm ! i) offset (held_size s (mm ! i))) 4096 \<and>
         file_bytes f offset (unat (held_size s (mm ! i))) =
           read_bytes (l_mem s) (vma_start (mm ! i)) (unat (held_size s (mm ! i)))))"
proof -
  let ?mm = "core_regions (l_vm s)"
  note regions = low_regions [of s, OF assms(3)]
  have held: "core_size s (?mm ! i) = held_size s (?mm ! i)" if "i < length ?mm" for i
    using core_size_held [OF regions(2)] that by simp
  obtain r f where f: "elf_core_dump h filename env cpus signr s = Inr (r, Some f)"
    "r = 0 \<or> r = - EINTR \<and> Write_Fails EINTR \<in> set (write_answers h)"
    "file_bytes f 0 52 = fill_elf_header (int (length ?mm) + 1)"
    "\<exists>size. file_bytes f 52 32 = phdr_bytes (fill_elf_note_phdr size (52 + 32 * (length ?mm + 1))) 0"
    "file_bytes f (52 + 32 * (length ?mm + 1) + 92) 68 = concat (map bytes32 (elf_core_copy_regs env))"
    "\<forall>i<length ?mm. \<exists>offset. offset \<le> 2 ^ 28 + sum_list (map (\<lambda>vma. unat (core_size s vma)) ?mm) \<and>
       file_bytes f (52 + 32 * (i + 1)) 32 = phdr_bytes (vma_phdr (?mm ! i) offset (core_size s (?mm ! i))) 4096 \<and>
       file_bytes f offset (unat (core_size s (?mm ! i))) = read_bytes (l_mem s) (vma_start (?mm ! i)) (unat (core_size s (?mm ! i)))"
    using core_file_regions [OF assms(1,2) regions(1) assms(4-8), of env signr] unfolding Let_def by blast
  have "\<exists>offset. offset < 2 ^ 31 \<and> file_bytes f (52 + 32 * (i + 1)) 32 = phdr_bytes (vma_phdr (?mm ! i) offset (held_size s (?mm ! i))) 4096 \<and>
     file_bytes f offset (unat (held_size s (?mm ! i))) = read_bytes (l_mem s) (vma_start (?mm ! i)) (unat (held_size s (?mm ! i)))"
    if i: "i < length ?mm" for i
  proof -
    have "o' < 2 ^ 31" if "o' \<le> 2 ^ 28 + sum_list (map (\<lambda>vma. unat (core_size s vma)) ?mm)" for o' using that regions(3) by simp
    then show ?thesis using f(6) i unfolding held [OF i, symmetric] by blast
  qed
  with f(1-5) regions(2) show ?thesis unfolding Let_def by blast
qed

section \<open>Limits and wrong addresses\<close>

text \<open>
  The limit on the size of core files: at the limit \<^verbatim>\<open>dump_write\<close> fails, below it it cuts what it writes and reports
  success, and it fails where the room left is a multiple of 4 GB, though everything would fit.
\<close>

theorem dump_write_limited:
  assumes "seek_errno h = 0" "rlim_core h \<noteq> RLIM_INFINITY" "f_answers f = []" "bs \<noteq> []" "length bs < 2 ^ 32"
  shows "dump_write h bs f =
     (let room = (unat (rlim_core h) - f_pos f) mod 2 ^ 32 in
      if unat (rlim_core h) \<le> f_pos f then (- 1, f)
      else if room = 0 then (- 1, f)
      else (0, f\<lparr>f_data := put_at (f_pos f) (take room bs) (f_data f), f_pos := f_pos f + min room (length bs)\<rparr>))"
proof (cases "unat (rlim_core h) \<le> f_pos f")
  case False
  let ?left = "ucast (rlim_core h - of_nat (f_pos f)) :: u32"
  have lim: "unat (rlim_core h) < 2 ^ 64" using unsigned_less [of "rlim_core h"] by simp
  have "unat (of_nat (f_pos f) :: 64 word) = f_pos f" using False lim by (simp add: unat_of_nat)
  moreover from this have "of_nat (f_pos f) \<le> rlim_core h" using False by (simp add: word_le_nat_alt)
  ultimately have "unat (rlim_core h - of_nat (f_pos f)) = unat (rlim_core h) - f_pos f" by (simp add: unat_sub)
  then have left: "unat ?left = (unat (rlim_core h) - f_pos f) mod 2 ^ 32" by (simp add: unsigned_ucast_eq take_bit_eq_mod)
  have nil: "dump_loop [] f = (- 1, f)"
    using assms(3) by (subst dump_loop.simps) (simp add: host_write_def write_bytes_to_def Let_def)
  have all: "dump_loop xs f = (0, f\<lparr>f_data := put_at (f_pos f) xs (f_data f), f_pos := f_pos f + length xs\<rparr>)" if "xs \<noteq> []" for xs
    using assms(3) that by (subst dump_loop.simps) (simp add: host_write_def write_bytes_to_def Let_def)
  show ?thesis using False assms(1,2,4) left
    by (auto simp: dump_write_def Let_def nil all min_def)
qed (use assms in \<open>simp add: dump_write_def\<close>)

text \<open>
  A program with one page above the first 4 MB: the walk over the table gives an address that is not mapped, and
  the core file holds nothing of the program.
\<close>

theorem core_misses_page:
  assumes "\<And>b. page_get_flags (l_vm s) b = (if page_of b = page_of a then flags else 0)" "flags \<noteq> 0"
    and "page_of a AND 0x3ff \<noteq> 0x3ff" "drop_bit 22 a \<noteq> 0"
  shows "\<exists>vma. core_regions (l_vm s) = [vma] \<and> core_size s vma = 0"
proof -
  let ?b = "push_bit 10 (drop_bit 22 a) OR push_bit 12 (page_of a AND 0x3ff)"
  have mask: "(0x3ff :: u32) = mask 10" by (simp add: mask_eq_exp_minus_1)
  have b: "drop_bit 22 ?b = 0" unfolding mask by (rule bit_word_eqI) (auto simp: bit_simps dest: bit_imp_le_length)
  have "page_of ?b \<noteq> page_of a"
  proof
    assume "page_of ?b = page_of a"
    then have "drop_bit 10 (page_of ?b) = drop_bit 10 (page_of a)" by (rule arg_cong)
    then have "drop_bit 22 ?b = drop_bit 22 a" by (simp only: drop_bit_drop_bit) simp
    with b assms(4) show False by simp
  qed
  then have "\<not> page_allows 1 (page_get_flags (l_vm s) ?b)" unfolding assms(1) by (simp add: page_allows_def)
  then show ?thesis using page_dump_single [OF assms(1-3)] by (simp add: core_regions_def vma_of_def core_size_def)
qed

section \<open>A small core file\<close>

text \<open>One page at the address 0x9000, whose last eight bytes are an empty auxiliary vector; the first write is done in two parts.\<close>

definition demo_dump_host :: core_host where
  "demo_dump_host = \<lparr>rlim_core = - 1, time_errno = 0, time_stamp = map of_char ''20100101-000000'', open_core = (\<lambda>_. Inr (\<lambda>_. 0)),
     seek_errno = 0, behind_name = [0, 0, 0], write_answers = [Written 10], h_getpid = 42, h_getppid = 1, h_getpgrp = 42, h_getsid = 42,
     h_uid = 1000, h_gid = 1000\<rparr>"

definition demo_dump_state :: "vm_state \<Rightarrow> loader_state" where
  "demo_dump_state v = \<lparr>l_vm = v, l_mem = (\<lambda>a. if 0x9ff8 \<le> a then 0 else ucast a), info_load_addr = 0, start_code = 0, end_code = 0,
     start_data = 0, end_data = 0, start_brk = 0, info_brk = 0, start_mmap = 0, info_mmap = 0, rss = 0, start_stack = 0,
     stack_limit = 0, info_entry = 0, saved_auxv = 0x9ff8, arg_start = 0x9100, arg_end = 0x9104, personality = 0\<rparr>"

definition demo_cpu :: core_cpu where
  "demo_cpu = \<lparr>c_tid = 42, c_regs = (\<lambda>i. of_nat i), c_eip = 0x9000, c_eflags = 0x202, c_selector = (\<lambda>_. 0x2b)\<rparr>"

lemma demo_page:
  obtains v where "page_ok v" "guest_base v = 0" "readable v 0x9000 4096"
    "\<forall>b. page_get_flags v b = (if page_of b = page_of 0x9000 then 0x1b else 0)"
proof -
  have ok: "flags_ok 0xb" "\<not> whole_space 0x9000 (0xa000 - 1)" by (simp_all add: flags_ok_def whole_space_def)
  obtain v where v: "page_set_flags 0x9000 0xa000 0xb demo_vm = Inr v"
    using page_set_flags_total [OF demo_vm_ok(1) ok(1) demo_vm_ok(2), of "0x9000" "0xa000"] by auto
  note spec = page_set_flags_spec [OF demo_vm_ok(1) ok(1) _ ok(2) v]
  have gb: "guest_base v = 0" using spec by (simp add: keeps_flags_def) (simp add: demo_vm_def)
  have fl: "page_get_flags v b = (if page_of b = page_of 0x9000 then 0x1b else 0)" for b
    using spec by (auto simp: demo_vm_ok(3) stored_flags_def)
  have "page_of (0x9000 + of_nat k) = page_of 0x9000" if "k < 4096" for k
    using that unat_plus [of "0x9000" k] by (simp add: word_unat_eq_iff page_of_nat)
  moreover have "0x9000 + of_nat k \<noteq> (0 :: u32)" if "k < 4096" for k
    using that unat_plus [of "0x9000" k] by (auto simp: word_unat_eq_iff)
  ultimately have r: "readable v 0x9000 4096" by (simp add: readable_def fl gb page_allows_def)
  have "page_ok v" using spec by simp
  with that gb r fl show thesis by blast
qed

lemma demo_mapped:
  assumes "mapped_regions v mm" "\<And>b. page_get_flags v b = (if page_of b = page_of 0x9000 then 0x1b else 0)"
  shows "mm = [\<lparr>vma_start = 0x9000, vma_end = 0xa000, vma_flags = 0x1b\<rparr>]"
proof -
  have page: "page_get_flags v b \<noteq> 0 \<longleftrightarrow> 0x9000 \<le> unat b \<and> unat b < 0xa000" for b
    by (simp add: assms(2) word_unat_eq_iff page_of_nat) linarith
  have one: "vma = \<lparr>vma_start = 0x9000, vma_end = 0xa000, vma_flags = 0x1b\<rparr>" if vma: "vma \<in> set mm" for vma
  proof -
    have r: "vma_start vma < vma_end vma" "unat (vma_start vma) mod 4096 = 0" "unat (vma_end vma) mod 4096 = 0" "vma_flags vma \<noteq> 0"
      "\<And>a. vma_start vma \<le> a \<Longrightarrow> a < vma_end vma \<Longrightarrow> page_get_flags v a = vma_flags vma"
      using assms(1) vma unfolding mapped_regions_def in_region_def by blast+
    have fl: "page_get_flags v (vma_start vma) = vma_flags vma" using r(1) by (intro r(5)) simp_all
    with r(4) have "page_get_flags v (vma_start vma) \<noteq> 0" by metis
    then have st: "0x9000 \<le> unat (vma_start vma)" "unat (vma_start vma) < 0xa000" using page by blast+
    have "1 \<le> vma_end vma" using r(1) unfolding word_le_nat_alt word_less_nat_alt by simp
    then have u: "unat (vma_end vma - 1) = unat (vma_end vma) - 1" using unat_sub by fastforce
    then have l: "vma_start vma \<le> vma_end vma - 1" "vma_end vma - 1 < vma_end vma"
      using r(1) unfolding word_le_nat_alt word_less_nat_alt by linarith+
    have "page_get_flags v (vma_end vma - 1) \<noteq> 0" unfolding r(5) [OF l] by (rule r(4))
    then have en: "unat (vma_end vma) - 1 < 0xa000" using page u by metis
    obtain p q where pq: "unat (vma_start vma) = 4096 * p" "unat (vma_end vma) = 4096 * q" using r(2,3) by (metis mod_0_imp_dvd dvdE)
    have "p < q" using r(1) pq by (simp add: word_less_nat_alt)
    then have "p = 9" "q = 10" using st en unfolding pq by linarith+
    then have "unat (vma_start vma) = 0x9000" "unat (vma_end vma) = 0xa000" using pq by simp_all
    moreover have "vma_flags vma = 0x1b" using fl r(4) assms(2) by (metis (full_types))
    ultimately show ?thesis by (simp add: word_unat_eq_iff)
  qed
  have "\<exists>vma\<in>set mm. in_region 0x9000 vma" using assms(1) page [of "0x9000"] unfolding mapped_regions_def by simp
  then obtain x xs where mm: "mm = x # xs" by (cases mm) auto
  have "xs = []"
  proof (rule ccontr)
    assume "xs \<noteq> []"
    then obtain y ys where "xs = y # ys" by (cases xs) auto
    then have "vma_end x \<le> vma_start y" using assms(1) by (simp add: mapped_regions_def mm)
    moreover have "x \<in> set mm" "y \<in> set mm" using \<open>xs = y # ys\<close> by (simp_all add: mm)
    ultimately show False using one [of x] one [of y] by simp
  qed
  then show ?thesis using one by (simp add: mm)
qed

theorem core_file_holds_memory_witness:
  "\<exists>v f. elf_core_dump demo_dump_host (map of_char ''/bin/true'') demo_cpu [] 11 (demo_dump_state v) = Inr (0, Some f) \<and>
     file_bytes f 0 52 = fill_elf_header 2 \<and>
     file_bytes f 208 68 = concat (map bytes32 (elf_core_copy_regs demo_cpu)) \<and>
     (\<exists>offset. file_bytes f 84 32 = phdr_bytes \<lparr>p_type = 1, p_offset = of_nat offset, p_vaddr = 0x9000, p_filesz = 0x1000,
         p_memsz = 0x1000, p_flags = 6\<rparr> 4096 \<and>
       file_bytes f offset 4096 = read_bytes (\<lambda>a. if 0x9ff8 \<le> a then 0 else ucast a) 0x9000 4096)"
proof -
  obtain v where v: "page_ok v" "guest_base v = 0" "readable v 0x9000 4096"
    "\<forall>b. page_get_flags v b = (if page_of b = page_of 0x9000 then 0x1b else 0)" by (rule demo_page)
  let ?s = "demo_dump_state v" and ?vma = "\<lparr>vma_start = 0x9000, vma_end = 0xa000, vma_flags = 0x1b\<rparr>"
  have s: "l_vm ?s = v" "l_mem ?s = (\<lambda>a. if 0x9ff8 \<le> a then 0 else ucast a)" "saved_auxv ?s = 0x9ff8" by (simp_all add: demo_dump_state_def)
  have "readable v 0x9ff8 8" using readable_part [OF v(3), of 4088 8] by simp
  then have auxv: "has_auxv ?s 0" by (simp add: has_auxv_def s ld32_def)
  have low: "a < 0x3ff000 \<and> a + guest_base (l_vm ?s) \<noteq> 0" if "page_get_flags (l_vm ?s) a \<noteq> 0" for a
  proof -
    have "unat a div 4096 = 9" using that by (simp add: s v(4) [rule_format] word_unat_eq_iff page_of_nat split: if_splits)
    then have "0x9000 \<le> unat a \<and> unat a < 0xa000" by linarith
    then show ?thesis by (auto simp: s v(2) word_less_nat_alt)
  qed
  have h: "unlimited demo_dump_host" "list_all gets_on (write_answers demo_dump_host)" "length [] < (2 :: nat) ^ 20"
    by (simp_all add: demo_dump_host_def unlimited_def)
  obtain name where name: "core_dump_filename demo_dump_host (map of_char ''/bin/true'') = Inr name"
    by (simp add: core_dump_filename_def demo_dump_host_def)
  have data: "open_core demo_dump_host name = Inr (\<lambda>_. 0)" by (simp add: demo_dump_host_def)
  have size: "held_size ?s ?vma = 0x1000" by (simp add: held_size_def page_allows_def)
  have ph: "vma_phdr ?vma offset 0x1000 =
    \<lparr>p_type = 1, p_offset = of_nat offset, p_vaddr = 0x9000, p_filesz = 0x1000, p_memsz = 0x1000, p_flags = 6\<rparr>" for offset
    by (simp add: vma_phdr_def)
  have one: "mm = [?vma]" if "mapped_regions (l_vm ?s) mm" for mm using demo_mapped that v(4) unfolding s by blast
  obtain r f mm where f: "elf_core_dump demo_dump_host (map of_char ''/bin/true'') demo_cpu [] 11 ?s = Inr (r, Some f)"
    "r = 0 \<or> r = - EINTR \<and> Write_Fails EINTR \<in> set (write_answers demo_dump_host)" "mapped_regions (l_vm ?s) mm"
    and c: "let notes = 52 + 32 * (length mm + 1) in
      file_bytes f 0 52 = fill_elf_header (int (length mm) + 1) \<and>
      (\<exists>size. file_bytes f 52 32 = phdr_bytes (fill_elf_note_phdr size notes) 0) \<and>
      file_bytes f (notes + 92) 68 = concat (map bytes32 (elf_core_copy_regs demo_cpu)) \<and>
      (\<forall>i<length mm. \<exists>offset. offset < 2 ^ 31 \<and>
         file_bytes f (52 + 32 * (i + 1)) 32 = phdr_bytes (vma_phdr (mm ! i) offset (held_size ?s (mm ! i))) 4096 \<and>
         file_bytes f offset (unat (held_size ?s (mm ! i))) =
           read_bytes (l_mem ?s) (vma_start (mm ! i)) (unat (held_size ?s (mm ! i))))"
    using core_file_holds_memory [OF _ auxv low h name data, of demo_cpu 11] v(1) unfolding s(1) by blast
  have "r = 0" using f(2) by (simp add: demo_dump_host_def)
  moreover have mm: "mm = [?vma]" by (rule one [OF f(3)])
  ultimately show ?thesis using f(1) c unfolding mm
    by (intro exI [of _ v] exI [of _ f]) (auto simp: s(2) size ph Let_def)
qed

end
