(* ===== verification/Symbols.thy ===== *)
theory Symbols
  imports Prelude "HOL-Library.Multiset"
begin

text \<open>
  The symbols of the program, which the log shows (\<^verbatim>\<open>load_symbols\<close> and \<^verbatim>\<open>lookup_symbolxx\<close> of
  \<^verbatim>\<open>src/linux-user/elfload.c\<close>, \<^verbatim>\<open>lookup_symbol\<close> of \<^verbatim>\<open>src/disas.c\<close>): the symbol table of the file is read, everything but
  functions is thrown away in place, the rest is sorted by address, and an address is looked up by binary search.
\<close>

unbundle bit_operations_syntax

section \<open>Reading the file\<close>

text \<open>\<^verbatim>\<open>lseek\<close> and \<^verbatim>\<open>read\<close>: all the bytes asked for, or nothing the caller can use.\<close>

definition read_at :: "u8 list \<Rightarrow> nat \<Rightarrow> nat \<Rightarrow> u8 list option" where
  "read_at file off n = (if n = 0 \<or> off + n \<le> length file then Some (take n (drop off file)) else None)"

definition le32 :: "u8 list \<Rightarrow> nat \<Rightarrow> u32" where
  "le32 bs i = (ucast (bs ! i) :: u32) OR push_bit 8 (ucast (bs ! (i + 1))) OR push_bit 16 (ucast (bs ! (i + 2))) OR push_bit 24 (ucast (bs ! (i + 3)))"

definition le16 :: "u8 list \<Rightarrow> nat \<Rightarrow> u16" where
  "le16 bs i = (ucast (bs ! i) :: u16) OR push_bit 8 (ucast (bs ! (i + 1)))"

record elf_shdr =
  sh_type :: u32
  sh_offset :: u32
  sh_size :: u32
  sh_link :: u32

definition shdr_of :: "u8 list \<Rightarrow> elf_shdr" where
  "shdr_of bs = \<lparr>sh_type = le32 bs 4, sh_offset = le32 bs 16, sh_size = le32 bs 20, sh_link = le32 bs 24\<rparr>"

record elf_sym =
  st_name :: u32
  st_value :: u32
  st_size :: u32
  st_info :: u8
  st_shndx :: u16

definition sym_of :: "u8 list \<Rightarrow> elf_sym" where
  "sym_of bs = \<lparr>st_name = le32 bs 0, st_value = le32 bs 4, st_size = le32 bs 8, st_info = bs ! 12, st_shndx = le16 bs 14\<rparr>"

definition syms_of :: "u8 list \<Rightarrow> nat \<Rightarrow> elf_sym list" where
  "syms_of bs n = map (\<lambda>i. sym_of (take 16 (drop (16 * i) bs))) [0..<n]"

abbreviation (input) "SHT_SYMTAB \<equiv> 2 :: u32"

text \<open>The loop over the section headers: the first symbol table and the strings it links to.\<close>

fun find_symtab :: "u8 list \<Rightarrow> u32 \<Rightarrow> nat list \<Rightarrow> (elf_shdr \<times> elf_shdr) option" where
  "find_symtab file shoff [] = None"
| "find_symtab file shoff (i # is) =
     (case read_at file (unat shoff + 40 * i) 40 of
        None \<Rightarrow> None
      | Some bs \<Rightarrow>
          (let sechdr = shdr_of bs in
           if sh_type sechdr = SHT_SYMTAB
           then map_option (\<lambda>bs. (sechdr, shdr_of bs)) (read_at file (unat (shoff + 40 * sh_link sechdr)) 40)
           else find_symtab file shoff is))"

section \<open>Throwing away and sorting\<close>

text \<open>Defined in a section of the file, and a function.\<close>

definition wanted :: "elf_sym \<Rightarrow> bool" where
  "wanted s \<longleftrightarrow> \<not> (st_shndx s = 0 \<or> st_shndx s \<ge> 0xff00 \<or> ucast (st_info s) AND 0xf \<noteq> (2 :: u32))"

text \<open>The loop that fills the place of an entry with the last one; \<open>nsyms\<close> entries of the array count.\<close>

function discard :: "elf_sym list \<Rightarrow> nat \<Rightarrow> nat \<Rightarrow> elf_sym list \<times> nat" where
  "discard syms i nsyms =
     (if i < nsyms then
        (if \<not> wanted (syms ! i)
         then let nsyms = nsyms - 1 in discard (if i < nsyms then syms[i := syms ! nsyms] else syms) i nsyms
         else discard syms (i + 1) nsyms)
      else (syms, nsyms))"
  by pat_completeness auto
termination by (relation "measure (\<lambda>(syms, i, nsyms). nsyms - i)") auto

declare discard.simps [simp del]

text \<open>\<^verbatim>\<open>symcmp\<close> orders by the value; \<^verbatim>\<open>qsort\<close> with it sorts by the value.\<close>

definition symcmp :: "elf_sym \<Rightarrow> elf_sym \<Rightarrow> int" where
  "symcmp sym0 sym1 = (if st_value sym0 < st_value sym1 then - 1 else if st_value sym0 > st_value sym1 then 1 else 0)"

definition qsort_syms :: "elf_sym list \<Rightarrow> elf_sym list" where
  "qsort_syms syms = sort_key st_value syms"

lemma qsort_symcmp: "sorted_wrt (\<lambda>x y. symcmp x y \<le> 0) (qsort_syms syms)"
proof -
  have "sorted (map st_value (qsort_syms syms))" by (simp add: qsort_syms_def)
  then show ?thesis unfolding sorted_map by (rule sorted_wrt_mono_rel [rotated]) (simp add: symcmp_def)
qed

section \<open>The tables of symbols\<close>

record syminfo =
  disas_num_syms :: nat
  disas_symtab :: "elf_sym list"
  disas_strtab :: "u8 list"

text \<open>
  \<open>malloc k\<close> says whether the \<open>k\<close>th call of \<^verbatim>\<open>malloc\<close> succeeds; the first is not tested.  Whatever fails later leaves the list of
  tables as it is.
\<close>

definition load_symbols :: "(nat \<Rightarrow> bool) \<Rightarrow> u8 list \<Rightarrow> u32 \<Rightarrow> u16 \<Rightarrow> syminfo list \<Rightarrow> syminfo list outcome" where
  "load_symbols malloc file shoff shnum syminfos =
     (case find_symtab file shoff [0..<unat shnum] of
        None \<Rightarrow> Inr syminfos
      | Some (symtab, strtab) \<Rightarrow>
          if \<not> malloc 1 then Inr syminfos
          else if \<not> malloc 0 then Inl Null_Dereference
          else if \<not> malloc 2 then Inr syminfos
          else (case read_at file (unat (sh_offset symtab)) (unat (sh_size symtab)) of
              None \<Rightarrow> Inr syminfos
            | Some bs \<Rightarrow>
                (let nsyms = unat (sh_size symtab) div 16;
                     (syms, nsyms) = discard (syms_of bs nsyms) 0 nsyms;
                     syms = qsort_syms (take nsyms syms)
                 in case read_at file (unat (sh_offset strtab)) (unat (sh_size strtab)) of
                      None \<Rightarrow> Inr syminfos
                    | Some strings \<Rightarrow> Inr (\<lparr>disas_num_syms = nsyms, disas_symtab = syms, disas_strtab = strings\<rparr> # syminfos))))"

definition symfind :: "u32 \<Rightarrow> elf_sym \<Rightarrow> int" where
  "symfind key s = (if key < st_value s then - 1 else if key \<ge> st_value s + st_size s then 1 else 0)"

text \<open>\<^verbatim>\<open>bsearch\<close> halves the part between \<open>l\<close> and \<open>u\<close>.\<close>

function bsearch :: "u32 \<Rightarrow> elf_sym list \<Rightarrow> nat \<Rightarrow> nat \<Rightarrow> nat option" where
  "bsearch key syms l u =
     (if l < u then
        (let idx = (l + u) div 2; c = symfind key (syms ! idx) in
         if c < 0 then bsearch key syms l idx else if c > 0 then bsearch key syms (idx + 1) u else Some idx)
      else None)"
  by pat_completeness auto
termination by (relation "measure (\<lambda>(key, syms, l, u). u - l)") auto

declare bsearch.simps [simp del]

text \<open>The string at an offset of the table; the source does not test that it lies within it.\<close>

definition string_at :: "u8 list \<Rightarrow> nat \<Rightarrow> u8 list outcome" where
  "string_at strtab off = (if 0 \<in> set (drop off strtab) then Inr (takeWhile (\<lambda>c. c \<noteq> 0) (drop off strtab)) else Inl Out_Of_Bounds)"

definition lookup_symbolxx :: "syminfo \<Rightarrow> u32 \<Rightarrow> u8 list outcome" where
  "lookup_symbolxx s orig_addr =
     (case bsearch orig_addr (disas_symtab s) 0 (disas_num_syms s) of
        None \<Rightarrow> Inr []
      | Some i \<Rightarrow> string_at (disas_strtab s) (unat (st_name (disas_symtab s ! i))))"

fun lookup_symbol :: "syminfo list \<Rightarrow> u32 \<Rightarrow> u8 list outcome" where
  "lookup_symbol [] orig_addr = Inr []"
| "lookup_symbol (s # syminfos) orig_addr =
     and_then (lookup_symbolxx s orig_addr) (\<lambda>symbol. if symbol \<noteq> [] then Inr symbol else lookup_symbol syminfos orig_addr)"

section \<open>What is kept\<close>

lemma take_update_last:
  assumes "i < n" "n < length xs"
  shows "mset (take n (xs[i := xs ! n])) + {#xs ! i#} = mset (take (Suc n) xs)"
proof -
  have "mset (take n (xs[i := xs ! n])) = add_mset (xs ! n) (mset (take n xs) - {#xs ! i#})"
    using assms by (simp add: take_update_swap mset_update)
  moreover have "xs ! i \<in># mset (take n xs)" using assms by (auto simp: in_set_conv_nth)
  ultimately show ?thesis using assms by (simp add: take_Suc_conv_app_nth)
qed

lemma discard_keeps:
  assumes "discard syms i n = (syms', n')" "i \<le> n" "n \<le> length syms" "list_all wanted (take i syms)"
  shows "n' \<le> length syms' \<and> mset (take n' syms') = filter_mset wanted (mset (take n syms))"
  using assms
proof (induction syms i n rule: discard.induct)
  case (1 syms i n)
  show ?case
  proof (cases "i < n")
    case False
    then have "i = n" using "1.prems"(2) by simp
    have "syms' = syms" "n' = n" using "1.prems"(1) False by (simp_all add: discard.simps [of syms i n])
    moreover have "filter_mset wanted (mset (take n syms)) = mset (filter wanted (take n syms))" by simp
    moreover have "filter wanted (take n syms) = take n syms" using "1.prems"(4) \<open>i = n\<close> by (simp add: list_all_iff)
    ultimately show ?thesis using "1.prems"(3) by simp
  next
    case True
    show ?thesis
    proof (cases "wanted (syms ! i)")
      case w: True
      have d: "discard syms (i + 1) n = (syms', n')" using "1.prems"(1) True w by (simp add: discard.simps [of syms i n])
      have "list_all wanted (take (i + 1) syms)" using "1.prems"(3,4) True w by (simp add: take_Suc_conv_app_nth)
      with "1.IH"(2) [OF True] w d "1.prems"(3) True show ?thesis by simp
    next
      case w: False
      let ?m = "n - 1" and ?xs = "if i < n - 1 then syms[i := syms ! (n - 1)] else syms"
      have d: "discard ?xs i ?m = (syms', n')" using "1.prems"(1) True w by (simp add: discard.simps [of syms i n] Let_def split: if_splits)
      have pre: "take i ?xs = take i syms" by simp
      have "filter_mset wanted (mset (take ?m ?xs)) = filter_mset wanted (mset (take n syms))"
      proof (cases "i < ?m")
        case i: True
        have "mset (take ?m ?xs) + {#syms ! i#} = mset (take n syms)" using take_update_last [OF i, of syms] "1.prems"(3) i by simp
        then have "filter_mset wanted (mset (take ?m ?xs) + {#syms ! i#}) = filter_mset wanted (mset (take n syms))" by simp
        then show ?thesis using w by simp
      next
        case False
        then have "i = ?m" using True by simp
        then have "take n syms = take ?m syms @ [syms ! i]" using True "1.prems"(3) take_Suc_conv_app_nth [of i syms] by simp
        then show ?thesis using False w by simp
      qed
      moreover have "i \<le> ?m" "?m \<le> length ?xs" "list_all wanted (take i ?xs)" using "1.prems"(3,4) True pre by auto
      ultimately show ?thesis using "1.IH"(1) [OF True w refl d] by simp
    qed
  qed
qed

section \<open>Looking up\<close>

definition covers :: "u32 \<Rightarrow> elf_sym \<Rightarrow> bool" where
  "covers a s \<longleftrightarrow> st_value s \<le> a \<and> a < st_value s + st_size s"

text \<open>Functions do not overlap, unless they are two names of one; a function does not go beyond the end of memory.\<close>

definition apart_syms :: "elf_sym list \<Rightarrow> bool" where
  "apart_syms syms \<longleftrightarrow> list_all (\<lambda>x. st_value x \<le> st_value x + st_size x \<and>
     list_all (\<lambda>y. (st_value x < st_value y \<longrightarrow> st_value x + st_size x \<le> st_value y) \<and>
                   (st_value x = st_value y \<longrightarrow> st_size x = st_size y)) syms) syms"

lemma apart_symsD:
  assumes "apart_syms syms" "x \<in> set syms" "y \<in> set syms" "st_value x \<le> st_value y"
  shows "st_value x + st_size x \<le> st_value y + st_size y" "st_value x < st_value y \<Longrightarrow> st_value x + st_size x \<le> st_value y"
proof -
  have le: "st_value y \<le> st_value y + st_size y" using assms(1,3) unfolding apart_syms_def list_all_iff by blast
  have xy: "(st_value x < st_value y \<longrightarrow> st_value x + st_size x \<le> st_value y) \<and> (st_value x = st_value y \<longrightarrow> st_size x = st_size y)"
    using assms(1-3) unfolding apart_syms_def list_all_iff by blast
  then have lt: "st_value x < st_value y \<Longrightarrow> st_value x + st_size x \<le> st_value y" by blast
  show "st_value x < st_value y \<Longrightarrow> st_value x + st_size x \<le> st_value y" by (rule lt)
  show "st_value x + st_size x \<le> st_value y + st_size y"
  proof (cases "st_value x = st_value y")
    case True
    with xy show ?thesis by simp
  next
    case False
    with assms(4) have "st_value x < st_value y" by simp
    from lt [OF this] le show ?thesis by (rule order_trans)
  qed
qed

lemma bsearch_finds:
  assumes "apart_syms syms" "sorted (map st_value syms)" "u \<le> length syms"
    and "\<forall>j<length syms. covers a (syms ! j) \<longrightarrow> l \<le> j \<and> j < u"
  shows "case bsearch a syms l u of None \<Rightarrow> \<forall>j<length syms. \<not> covers a (syms ! j) | Some i \<Rightarrow> i < length syms \<and> covers a (syms ! i)"
  using assms
proof (induction a syms l u rule: bsearch.induct)
  case (1 a syms l u)
  show ?case
  proof (cases "l < u")
    case False
    then show ?thesis using "1.prems"(4) by (auto simp: bsearch.simps [of a syms l u])
  next
    case lu: True
    let ?i = "(l + u) div 2"
    have i: "?i < u" "l \<le> ?i" "?i < length syms" using lu "1.prems"(3) by simp_all
    note assms = "1.prems"(1,2)
    have sorted: "st_value (syms ! j) \<le> st_value (syms ! k)" if "j \<le> k" "k < length syms" for j k
      using sorted_nth_mono [OF assms(2), of j k] that by (cases "j < length syms") auto
    show ?thesis
    proof (cases "symfind a (syms ! ?i)" "0 :: int" rule: linorder_cases)
      case less
      then have a: "a < st_value (syms ! ?i)" by (auto simp: symfind_def split: if_splits)
      have "\<forall>j<length syms. covers a (syms ! j) \<longrightarrow> l \<le> j \<and> j < ?i"
      proof (intro allI impI)
        fix j assume j: "j < length syms" "covers a (syms ! j)"
        have "\<not> ?i \<le> j" using sorted [of ?i j] j a by (auto simp: covers_def)
        with "1.prems"(4) j show "l \<le> j \<and> j < ?i" by simp
      qed
      with "1.IH"(1) [OF lu refl refl less] i less lu "1.prems" show ?thesis by (subst bsearch.simps) (simp add: Let_def)
    next
      case greater
      then have a: "st_value (syms ! ?i) + st_size (syms ! ?i) \<le> a" by (auto simp: symfind_def split: if_splits)
      have "\<forall>j<length syms. covers a (syms ! j) \<longrightarrow> ?i + 1 \<le> j \<and> j < u"
      proof (intro allI impI)
        fix j assume j: "j < length syms" "covers a (syms ! j)"
        have "\<not> j \<le> ?i"
        proof
          assume "j \<le> ?i"
          then have "st_value (syms ! j) + st_size (syms ! j) \<le> st_value (syms ! ?i) + st_size (syms ! ?i)"
            using apart_symsD(1) [OF assms(1), of "syms ! j" "syms ! ?i"] sorted [of j ?i] j(1) i by simp
          with a j(2) show False by (auto simp: covers_def)
        qed
        with "1.prems"(4) j show "?i + 1 \<le> j \<and> j < u" by simp
      qed
      with "1.IH"(2) [OF lu refl refl _ greater] i greater lu "1.prems" show ?thesis by (subst bsearch.simps) (simp add: Let_def)
    next
      case equal
      then have "covers a (syms ! ?i)" by (auto simp: symfind_def covers_def split: if_splits)
      with equal i lu show ?thesis by (subst bsearch.simps) (simp add: Let_def)
    qed
  qed
qed

text \<open>What the search gives is a function that holds the address, whatever the table.\<close>

lemma bsearch_sound: "bsearch a syms l u = Some i \<Longrightarrow> i < u \<and> covers a (syms ! i)"
proof (induction a syms l u rule: bsearch.induct)
  case (1 a syms l u)
  then show ?case
    by (subst (asm) (3) bsearch.simps) (fastforce simp: Let_def symfind_def covers_def split: if_splits)
qed

text \<open>
  A symbol that names a function of the program: the low four bits of its kind are 2 (\<^verbatim>\<open>STT_FUNC\<close>), and it is
  defined in a section of the file, whose number is neither 0 (undefined) nor one of the reserved ones from 0xff00 on.
\<close>

definition is_function :: "elf_sym \<Rightarrow> bool" where
  "is_function x \<longleftrightarrow> unat (st_info x) mod 16 = 2 \<and> 1 \<le> unat (st_shndx x) \<and> unat (st_shndx x) \<le> 0xfeff"

lemma wanted_is_function: "wanted x = is_function x"
proof -
  have "unat (ucast (st_info x) AND 0xf :: u32) = unat (st_info x) mod 16"
  proof -
    have "(0xf :: u32) = mask 4" by (simp add: mask_eq_exp_minus_1)
    then have "unat (ucast (st_info x) AND 0xf :: u32) = take_bit 4 (unat (ucast (st_info x) :: u32))"
      by (metis take_bit_eq_mask unsigned_take_bit_eq)
    moreover have "unat (ucast (st_info x) :: u32) = unat (st_info x)"
      using unsigned_less [of "st_info x", where ?'a = nat] by (simp add: unsigned_ucast_eq take_bit_nat_eq_self)
    ultimately show ?thesis by (simp add: take_bit_eq_mod)
  qed
  then have "ucast (st_info x) AND 0xf = (2 :: u32) \<longleftrightarrow> unat (st_info x) mod 16 = 2"
    by (simp add: word_unat_eq_iff)
  moreover have "\<not> (st_shndx x = 0 \<or> st_shndx x \<ge> 0xff00) \<longleftrightarrow> 1 \<le> unat (st_shndx x) \<and> unat (st_shndx x) \<le> 0xfeff"
    by (auto simp: word_le_nat_alt unat_eq_zero Suc_le_eq unat_gt_0)
  ultimately show ?thesis by (auto simp: wanted_def is_function_def)
qed

lemma wanted_eq: "wanted = is_function"
  by (rule ext) (rule wanted_is_function)

text \<open>The functions of a file's symbol table in the order of the file, and its table of strings.\<close>

definition file_functions :: "u8 list \<Rightarrow> u32 \<Rightarrow> u16 \<Rightarrow> (elf_sym list \<times> u8 list) option" where
  "file_functions file shoff shnum =
     (case find_symtab file shoff [0..<unat shnum] of
        None \<Rightarrow> None
      | Some (symtab, strtab) \<Rightarrow>
          (case read_at file (unat (sh_offset symtab)) (unat (sh_size symtab)) of
             None \<Rightarrow> None
           | Some bs \<Rightarrow> map_option (Pair (filter is_function (syms_of bs (unat (sh_size symtab) div 16))))
                          (read_at file (unat (sh_offset strtab)) (unat (sh_size strtab)))))"

lemma apart_syms_set: "set xs = set ys \<Longrightarrow> apart_syms xs = apart_syms ys"
  by (simp add: apart_syms_def list_all_iff)

lemma load_symbols_table:
  assumes "malloc 0 \<and> malloc 1 \<and> malloc 2" "file_functions file shoff shnum = Some (fs, strings)"
  shows "\<exists>s. load_symbols malloc file shoff shnum syminfos = Inr (s # syminfos) \<and> mset (disas_symtab s) = mset fs \<and>
     sorted (map st_value (disas_symtab s)) \<and> disas_num_syms s = length (disas_symtab s) \<and> disas_strtab s = strings"
proof -
  from assms(2) obtain symtab strtab bs where f: "find_symtab file shoff [0..<unat shnum] = Some (symtab, strtab)"
    "read_at file (unat (sh_offset symtab)) (unat (sh_size symtab)) = Some bs"
    "read_at file (unat (sh_offset strtab)) (unat (sh_size strtab)) = Some strings"
    "fs = filter is_function (syms_of bs (unat (sh_size symtab) div 16))"
    by (auto simp: file_functions_def split: option.splits)
  let ?n = "unat (sh_size symtab) div 16"
  obtain syms n where d: "discard (syms_of bs ?n) 0 ?n = (syms, n)" by (cases "discard (syms_of bs ?n) 0 ?n")
  have len: "length (syms_of bs ?n) = ?n" by (simp add: syms_of_def)
  then have k: "n \<le> length syms" "mset (take n syms) = mset fs" using discard_keeps [OF d] f(4) unfolding wanted_eq by simp_all
  then show ?thesis using assms(1) by (simp add: load_symbols_def f(1-3) d qsort_syms_def)
qed

lemma lookup_sound:
  assumes "disas_num_syms s = length (disas_symtab s)"
  shows "lookup_symbolxx s a = Inr [] \<or>
     (\<exists>x\<in>set (disas_symtab s). covers a x \<and> lookup_symbolxx s a = string_at (disas_strtab s) (unat (st_name x)))"
  using assms bsearch_sound [of a "disas_symtab s" 0 "disas_num_syms s"]
  by (auto simp: lookup_symbolxx_def split: option.splits)

lemma lookup_in_table:
  assumes "apart_syms (disas_symtab s)" "sorted (map st_value (disas_symtab s))" "disas_num_syms s = length (disas_symtab s)"
  shows "if \<exists>x\<in>set (disas_symtab s). covers a x
     then \<exists>x\<in>set (disas_symtab s). covers a x \<and> lookup_symbolxx s a = string_at (disas_strtab s) (unat (st_name x))
     else lookup_symbolxx s a = Inr []"
proof -
  have b: "case bsearch a (disas_symtab s) 0 (disas_num_syms s) of None \<Rightarrow> \<forall>j<length (disas_symtab s). \<not> covers a (disas_symtab s ! j)
    | Some i \<Rightarrow> i < length (disas_symtab s) \<and> covers a (disas_symtab s ! i)"
    using bsearch_finds [OF assms(1,2), of "disas_num_syms s" a 0] assms(3) by simp
  then show ?thesis
  proof (cases "bsearch a (disas_symtab s) 0 (disas_num_syms s)")
    case (Some i)
    let ?x = "disas_symtab s ! i"
    have "?x \<in> set (disas_symtab s)" "covers a ?x" using b Some by simp_all
    moreover have "lookup_symbolxx s a = string_at (disas_strtab s) (unat (st_name ?x))" by (simp add: lookup_symbolxx_def Some)
    ultimately show ?thesis by auto
  qed (auto simp: lookup_symbolxx_def in_set_conv_nth)
qed

text \<open>
  C39: Looking up an address.  When an allocation fails, \<^verbatim>\<open>load_symbols\<close> leaves the list of tables as it is or, for the one it does not
  test, stops.  Otherwise a file without a symbol table changes nothing, and of one with a table it keeps exactly the symbols that name
  functions, sorted by address, although it fills holes with the last entries.  A search of that table for an address gives nothing or the
  name of a function that holds the address.  It finds one whenever there is one provided that no two functions overlap except under
  several names and none goes beyond the end of memory (\<open>apart_syms\<close>); without that it may miss one.
\<close>

theorem lookup_finds_function:
  "if \<not> (malloc 0 \<and> malloc 1 \<and> malloc 2)
   then load_symbols malloc file shoff shnum syminfos = Inr syminfos \<or>
     \<not> malloc 0 \<and> load_symbols malloc file shoff shnum syminfos = Inl Null_Dereference
   else case file_functions file shoff shnum of
     None \<Rightarrow> load_symbols malloc file shoff shnum syminfos = Inr syminfos
   | Some (fs, strings) \<Rightarrow>
       (\<exists>s. load_symbols malloc file shoff shnum syminfos = Inr (s # syminfos) \<and>
          mset (disas_symtab s) = mset fs \<and> sorted (map st_value (disas_symtab s)) \<and>
          (lookup_symbolxx s a = Inr [] \<or>
             (\<exists>x\<in>set fs. covers a x \<and> lookup_symbolxx s a = string_at strings (unat (st_name x)))) \<and>
          (apart_syms fs \<and> (\<exists>x\<in>set fs. covers a x) \<longrightarrow>
             (\<exists>x\<in>set fs. covers a x \<and> lookup_symbolxx s a = string_at strings (unat (st_name x)))))"
proof (cases "malloc 0 \<and> malloc 1 \<and> malloc 2")
  case False
  then show ?thesis by (auto simp: load_symbols_def Let_def case_prod_unfold split: option.splits)
next
  case ok: True
  show ?thesis
  proof (cases "file_functions file shoff shnum")
    case None
    then show ?thesis using ok by (auto simp: file_functions_def load_symbols_def Let_def case_prod_unfold split: option.splits)
  next
    case (Some r)
    obtain fs strings where r: "r = (fs, strings)" by (cases r)
    obtain s where s: "load_symbols malloc file shoff shnum syminfos = Inr (s # syminfos)" "mset (disas_symtab s) = mset fs"
      "sorted (map st_value (disas_symtab s))" "disas_num_syms s = length (disas_symtab s)" "disas_strtab s = strings"
      using load_symbols_table [OF ok Some [unfolded r]] by blast
    have set: "set (disas_symtab s) = set fs" using s(2) by (rule mset_eq_setD)
    have sound: "lookup_symbolxx s a = Inr [] \<or> (\<exists>x\<in>set fs. covers a x \<and> lookup_symbolxx s a = string_at strings (unat (st_name x)))"
      using lookup_sound [OF s(4), of a] unfolding set s(5) .
    have found: "apart_syms fs \<and> (\<exists>x\<in>set fs. covers a x) \<longrightarrow>
        (\<exists>x\<in>set fs. covers a x \<and> lookup_symbolxx s a = string_at strings (unat (st_name x)))"
      using lookup_in_table [OF _ s(3,4), of a] unfolding apart_syms_set [OF set] set s(5) by presburger
    from s(1-3) sound found show ?thesis using ok unfolding Some r option.case prod.case by (simp only: if_False not_True_eq_False simp_thms) blast
  qed
qed

text \<open>
  The search does miss a function when another lies within it: the middle one of three sorted by address ends before
  the address looked for, and the last one begins after the first, so the first is never looked at.
\<close>

lemma lookup_misses_overlapped:
  fixes f g h :: elf_sym
  defines "f \<equiv> \<lparr>st_name = 1, st_value = 0x1000, st_size = 0x100, st_info = 2, st_shndx = 1\<rparr>"
    and "g \<equiv> \<lparr>st_name = 1, st_value = 0x1010, st_size = 8, st_info = 2, st_shndx = 1\<rparr>"
    and "h \<equiv> \<lparr>st_name = 1, st_value = 0x1020, st_size = 0, st_info = 2, st_shndx = 1\<rparr>"
  shows "covers 0x1050 f" "lookup_symbolxx \<lparr>disas_num_syms = 3, disas_symtab = [f, g, h], disas_strtab = [0, 0x66, 0]\<rparr> 0x1050 = Inr []"
  by (simp_all add: f_def g_def h_def covers_def lookup_symbolxx_def bsearch.simps symfind_def Let_def)

section \<open>A small file\<close>

text \<open>Two section headers, three symbols of which one is no function, and their names.\<close>

definition demo_symbol_file :: "u8 list" where
  "demo_symbol_file =
     concat (map bytes32 [0, 2, 0, 0, 80, 48, 1, 0, 4, 16]) @ concat (map bytes32 [0, 3, 0, 0, 128, 6, 0, 0, 1, 0]) @
     concat (map bytes32 [1, 0x8049000, 16]) @ [1, 0, 5, 0] @
     concat (map bytes32 [3, 0x8048020, 32]) @ [2, 0, 1, 0] @
     concat (map bytes32 [1, 0x8048000, 32]) @ [0x12, 0, 1, 0] @ [0, 0x66, 0, 0x67, 0x68, 0]"

lemma demo_functions:
  "file_functions demo_symbol_file 0 2 = Some ([\<lparr>st_name = 3, st_value = 0x8048020, st_size = 32, st_info = 2, st_shndx = 1\<rparr>,
     \<lparr>st_name = 1, st_value = 0x8048000, st_size = 32, st_info = 0x12, st_shndx = 1\<rparr>], [0, 0x66, 0, 0x67, 0x68, 0])"
  unfolding file_functions_def wanted_eq [symmetric] by code_simp

theorem lookup_finds_function_witness:
  "\<exists>s. load_symbols (\<lambda>_. True) demo_symbol_file 0 2 [] = Inr [s] \<and> lookup_symbolxx s 0x8048025 = Inr [0x67, 0x68]"
proof -
  have st: "string_at [0, 0x66, 0, 0x67, 0x68, 0] 3 = Inr [0x67, 0x68]" by (simp add: string_at_def)
  show ?thesis using lookup_finds_function [of "\<lambda>_. True" demo_symbol_file 0 2 "[]" "0x8048025"]
    by (auto simp: demo_functions apart_syms_def covers_def st)
qed

end
