(* ===== verification/Envlist.thy ===== *)
theory Envlist
  imports Prelude "HOL-Library.Sublist"
begin

text \<open>
  The list of environment variables (\<^verbatim>\<open>src/envlist.c\<close>): creating and freeing it, setting and removing
  variables, one at a time or from a comma separated string, and the array of strings that is
  handed to the program.  What it promises, a map from names to values, is the locale
  \<open>environment\<close>; the operations on the list are its interpretation.
\<close>

section \<open>Strings and memory\<close>

text \<open>A string of C is the list of its bytes without the final null.\<close>

type_synonym cstring = "u8 list"

definition ascii :: "string \<Rightarrow> cstring" where
  "ascii s = map of_char s"

abbreviation (input) "EQ_SIGN \<equiv> (0x3d :: u8)"

abbreviation (input) "COMMA \<equiv> (0x2c :: u8)"

abbreviation (input) "EINVAL \<equiv> (22 :: int)"

text \<open>What the source uses of \<^verbatim>\<open>string.h\<close>.\<close>

fun strncmp :: "cstring \<Rightarrow> cstring \<Rightarrow> nat \<Rightarrow> int" where
  "strncmp _ _ 0 = 0"
| "strncmp [] [] (Suc n) = 0"
| "strncmp [] (b # bs) (Suc n) = - uint b"
| "strncmp (a # as) [] (Suc n) = uint a"
| "strncmp (a # as) (b # bs) (Suc n) = (if a = b then strncmp as bs n else uint a - uint b)"

fun strchr :: "cstring \<Rightarrow> u8 \<Rightarrow> nat option" where
  "strchr [] c = None"
| "strchr (a # as) c = (if a = c then Some 0 else map_option Suc (strchr as c))"

text \<open>
  \<^verbatim>\<open>strtok_r\<close>: the next token up to a separator and what is left, after separators at the front.
\<close>

definition strtok :: "u8 \<Rightarrow> cstring \<Rightarrow> (cstring \<times> cstring) option" where
  "strtok c s =
     (let s = dropWhile (\<lambda>b. b = c) s in
      if s = [] then None
      else Some (takeWhile (\<lambda>b. b \<noteq> c) s, drop 1 (dropWhile (\<lambda>b. b \<noteq> c) s)))"

text \<open>
  The allocator: which of the calls of \<^verbatim>\<open>malloc\<close> succeed, how many calls there have been, how many blocks are
  allocated, and the last error.
\<close>

record alloc_state =
  grants :: "nat \<Rightarrow> bool"
  calls :: nat
  live :: nat
  errno :: int

definition malloc :: "alloc_state \<Rightarrow> bool \<times> alloc_state" where
  "malloc h =
     (if grants h (calls h) then (True, h\<lparr>calls := Suc (calls h), live := Suc (live h)\<rparr>)
      else (False, h\<lparr>calls := Suc (calls h), errno := 12\<rparr>))"

definition free :: "alloc_state \<Rightarrow> alloc_state" where
  "free h = h\<lparr>live := live h - 1\<rparr>"

section \<open>The list\<close>

record envlist =
  el_entries :: "cstring list"
  el_count :: u32

definition envlist_create :: "alloc_state \<Rightarrow> envlist option \<times> alloc_state" where
  "envlist_create h =
     (case malloc h of
        (False, h) \<Rightarrow> (None, h)
      | (True, h) \<Rightarrow> (Some \<lparr>el_entries = [], el_count = 0\<rparr>, h))"

text \<open>Each entry is two blocks, the entry itself and its string.\<close>

fun free_entries :: "cstring list \<Rightarrow> alloc_state \<Rightarrow> alloc_state" where
  "free_entries [] h = h"
| "free_entries (v # vs) h = free_entries vs (free (free h))"

definition envlist_free :: "envlist option \<Rightarrow> alloc_state \<Rightarrow> alloc_state outcome" where
  "envlist_free el h =
     (case el of None \<Rightarrow> Inl Assertion_Failed | Some e \<Rightarrow> Inr (free (free_entries (el_entries e) h)))"

text \<open>The loop that looks for an entry that agrees with a string in its first \<open>n\<close> characters.\<close>

fun find_entry :: "cstring \<Rightarrow> nat \<Rightarrow> cstring list \<Rightarrow> nat option" where
  "find_entry env n [] = None"
| "find_entry env n (v # vs) =
     (if strncmp v env n = 0 then Some 0 else map_option Suc (find_entry env n vs))"

definition remove_entry :: "nat \<Rightarrow> envlist \<Rightarrow> alloc_state \<Rightarrow> envlist \<times> alloc_state" where
  "remove_entry k e h =
     (e\<lparr>el_entries := take k (el_entries e) @ drop (Suc k) (el_entries e)\<rparr>, free (free h))"

definition envlist_setenv :: "envlist option \<Rightarrow> cstring option \<Rightarrow> alloc_state \<Rightarrow> int \<times> envlist option \<times> alloc_state" where
  "envlist_setenv el env h =
     (case (el, env) of
        (Some e, Some v) \<Rightarrow>
          (case strchr v EQ_SIGN of
             None \<Rightarrow> (EINVAL, el, h)
           | Some eq_sign \<Rightarrow>
               let envname_len = eq_sign + 1;
                   (e, h) = (case find_entry v envname_len (el_entries e) of
                               Some k \<Rightarrow> remove_entry k e h
                             | None \<Rightarrow> (e\<lparr>el_count := el_count e + 1\<rparr>, h));
                   (entry, h) = malloc h in
               if \<not> entry then (errno h, Some e, h)
               else
                 let (ev_var, h) = malloc h in
                 if \<not> ev_var then (errno h, Some e, free h)
                 else (0, Some (e\<lparr>el_entries := v # el_entries e\<rparr>), h))
      | _ \<Rightarrow> (EINVAL, el, h))"

definition envlist_unsetenv :: "envlist option \<Rightarrow> cstring option \<Rightarrow> alloc_state \<Rightarrow> int \<times> envlist option \<times> alloc_state" where
  "envlist_unsetenv el env h =
     (case (el, env) of
        (Some e, Some v) \<Rightarrow>
          if strchr v EQ_SIGN \<noteq> None then (EINVAL, el, h)
          else
            (case find_entry v (length v) (el_entries e) of
               Some k \<Rightarrow> let (e, h) = remove_entry k e h in (0, Some (e\<lparr>el_count := el_count e - 1\<rparr>), h)
             | None \<Rightarrow> (0, el, h))
      | _ \<Rightarrow> (EINVAL, el, h))"

text \<open>
  A comma separated string.  When the callback fails, what is returned is \<^verbatim>\<open>errno\<close>.
\<close>

lemma strtok_shorter: "strtok c s = Some (t, r) \<Longrightarrow> length r < length s"
  using length_dropWhile_le [of "\<lambda>b. b = c" s] length_dropWhile_le [of "\<lambda>b. b \<noteq> c" "dropWhile (\<lambda>b. b = c) s"]
  by (cases "dropWhile (\<lambda>b. b = c) s") (auto simp: strtok_def split: if_splits)

function parse_loop :: "(envlist option \<Rightarrow> cstring option \<Rightarrow> alloc_state \<Rightarrow> int \<times> envlist option \<times> alloc_state) \<Rightarrow>
    cstring \<Rightarrow> envlist option \<Rightarrow> alloc_state \<Rightarrow> int \<times> envlist option \<times> alloc_state" where
  "parse_loop callback tmpenv el h =
     (case strtok COMMA tmpenv of
        None \<Rightarrow> (0, el, free h)
      | Some (envvar, rest) \<Rightarrow>
          let (r, el, h) = callback el (Some envvar) h in
          if r \<noteq> 0 then (errno h, el, free h) else parse_loop callback rest el h)"
  by pat_completeness auto
termination by (relation "measure (\<lambda>(_, s, _). length s)") (auto simp: strtok_shorter)

declare parse_loop.simps [simp del]

definition envlist_parse :: "envlist option \<Rightarrow> cstring option \<Rightarrow> (envlist option \<Rightarrow> cstring option \<Rightarrow> alloc_state \<Rightarrow> int \<times> envlist option \<times> alloc_state) \<Rightarrow>
    alloc_state \<Rightarrow> int \<times> envlist option \<times> alloc_state" where
  "envlist_parse el env callback h =
     (case (el, env) of
        (Some _, Some s) \<Rightarrow>
          let (tmpenv, h) = malloc h in
          if \<not> tmpenv then (errno h, el, h) else parse_loop callback s el h
      | _ \<Rightarrow> (EINVAL, el, h))"

definition envlist_parse_set :: "envlist option \<Rightarrow> cstring option \<Rightarrow> alloc_state \<Rightarrow> int \<times> envlist option \<times> alloc_state" where
  "envlist_parse_set el env = envlist_parse el env envlist_setenv"

definition envlist_parse_unset :: "envlist option \<Rightarrow> cstring option \<Rightarrow> alloc_state \<Rightarrow> int \<times> envlist option \<times> alloc_state" where
  "envlist_parse_unset el env = envlist_parse el env envlist_unsetenv"

text \<open>
  The array of strings.  It has room for \<open>room\<close> pointers; a string that cannot be copied is stored as a null
  pointer.
\<close>

fun copy_entries :: "nat \<Rightarrow> cstring list \<Rightarrow> cstring option list \<Rightarrow> alloc_state \<Rightarrow> (cstring option list \<times> alloc_state) outcome" where
  "copy_entries room [] env h = (if length env < room then Inr (env @ [None], h) else Inl Out_Of_Bounds)"
| "copy_entries room (v # vs) env h =
     (if length env < room
      then let (ok, h) = malloc h in copy_entries room vs (env @ [if ok then Some v else None]) h
      else Inl Out_Of_Bounds)"

definition envlist_to_environ :: "envlist \<Rightarrow> alloc_state \<Rightarrow> ((cstring option list option \<times> u32) \<times> alloc_state) outcome" where
  "envlist_to_environ e h =
     (let (env, h) = malloc h in
      if \<not> env then Inr ((None, 0), h)
      else and_then (copy_entries (unat ((el_count e + 1) * 4) div 4) (el_entries e) [] h)
             (\<lambda>(env, h). Inr ((Some env, el_count e), h)))"

text \<open>What a reader that stops at the null pointer sees of such an array.\<close>

definition environ_strings :: "cstring option list \<Rightarrow> cstring list" where
  "environ_strings env = map the (takeWhile (\<lambda>v. v \<noteq> None) env)"

section \<open>Names and values\<close>

lemma ascii_eq [simp]: "ascii s = ascii t \<longleftrightarrow> s = t"
proof -
  have "inj (of_char :: char \<Rightarrow> u8)"
  proof (rule injI)
    fix c d :: char
    assume "of_char c = (of_char d :: u8)"
    then have "unat (of_nat (of_char c) :: u8) = unat (of_nat (of_char d) :: u8)"
      by (simp only: of_nat_of_char)
    then have "(of_char c :: nat) = of_char d"
      using nat_of_char_less_256 [of c] nat_of_char_less_256 [of d] by (simp add: unat_of_nat del: of_nat_of_char)
    then show "c = d" by simp
  qed
  then show ?thesis by (simp add: ascii_def inj_map_eq_map)
qed

lemma ascii_take [simp]: "take n (ascii s) = ascii (take n s)"
  by (simp add: ascii_def take_map)

lemma ascii_drop [simp]: "drop n (ascii s) = ascii (drop n s)"
  by (simp add: ascii_def drop_map)

definition env_name :: "cstring \<Rightarrow> cstring" where
  "env_name v = takeWhile (\<lambda>b. b \<noteq> EQ_SIGN) v"

definition env_value :: "cstring \<Rightarrow> cstring" where
  "env_value v = drop (Suc (length (env_name v))) v"

definition env_map :: "cstring list \<Rightarrow> cstring \<Rightarrow> cstring option" where
  "env_map vs = map_of (map (\<lambda>v. (env_name v, env_value v)) vs)"

text \<open>Entries are strings \<^verbatim>\<open>name=value\<close>, and no two have the same name.\<close>

definition entries_wf :: "cstring list \<Rightarrow> bool" where
  "entries_wf vs \<longleftrightarrow> (\<forall>v\<in>set vs. 0 \<notin> set v \<and> EQ_SIGN \<in> set v) \<and> distinct (map env_name vs)"

lemma strncmp_zero:
  "0 \<notin> set a \<Longrightarrow> 0 \<notin> set b \<Longrightarrow> strncmp a b n = 0 \<longleftrightarrow> take n a = take n b"
  by (induction a b n rule: strncmp.induct) (auto simp: unsigned_eq_0_iff dest: unsigned_word_eqI)

lemma strchr_None [simp]: "strchr s c = None \<longleftrightarrow> c \<notin> set s"
  by (induction s) auto

lemma strchr_member: "c \<in> set s \<Longrightarrow> strchr s c = Some (length (takeWhile (\<lambda>b. b \<noteq> c) s))"
  by (induction s) auto

lemma env_name_append [simp]: "EQ_SIGN \<notin> set u \<Longrightarrow> env_name (u @ w) = u @ env_name w"
  unfolding env_name_def by (rule takeWhile_append2) auto

lemma env_name_sign [simp]: "env_name (EQ_SIGN # w) = []"
  by (simp add: env_name_def)

lemma env_name_clean [simp]: "EQ_SIGN \<notin> set (env_name v)"
  by (auto simp: env_name_def dest: set_takeWhileD)

lemma env_name_take:
  assumes "EQ_SIGN \<in> set v"
  shows "take (Suc (length (env_name v))) v = env_name v @ [EQ_SIGN]"
  using split_list_first [OF assms] by clarsimp

text \<open>A prefix that ends with the sign is the name and nothing else.\<close>

lemma same_name:
  assumes "EQ_SIGN \<in> set v" "EQ_SIGN \<in> set w"
  shows "take (Suc (length (env_name w))) v = take (Suc (length (env_name w))) w \<longleftrightarrow> env_name v = env_name w"
proof
  assume "take (Suc (length (env_name w))) v = take (Suc (length (env_name w))) w"
  then have "take (Suc (length (env_name w))) v = env_name w @ [EQ_SIGN]"
    by (simp only: env_name_take [OF assms(2)])
  then have "v = env_name w @ EQ_SIGN # drop (Suc (length (env_name w))) v"
    by (metis append_Cons append_Nil append_assoc append_take_drop_id)
  then have "env_name v = env_name (env_name w @ EQ_SIGN # drop (Suc (length (env_name w))) v)"
    by (rule arg_cong)
  then show "env_name v = env_name w" by simp
next
  assume "env_name v = env_name w"
  then show "take (Suc (length (env_name w))) v = take (Suc (length (env_name w))) w"
    using env_name_take [OF assms(1)] env_name_take [OF assms(2)] by simp
qed

lemma prefix_name:
  assumes "EQ_SIGN \<notin> set u"
  shows "prefix u v \<longleftrightarrow> prefix u (env_name v)"
proof
  assume "prefix u v"
  then show "prefix u (env_name v)"
    using assms by (auto elim!: prefixE)
next
  assume "prefix u (env_name v)"
  then show "prefix u v"
    by (metis env_name_def prefix_order.trans takeWhile_is_prefix)
qed

section \<open>What the loop over the entries removes\<close>

fun drop_first :: "('a \<Rightarrow> bool) \<Rightarrow> 'a list \<Rightarrow> 'a list" where
  "drop_first P [] = []"
| "drop_first P (x # xs) = (if P x then xs else x # drop_first P xs)"

lemma find_entry_None: "find_entry env n vs = None \<longleftrightarrow> (\<forall>v\<in>set vs. strncmp v env n \<noteq> 0)"
  by (induction vs) auto

lemma find_entry_Some:
  "find_entry env n vs = Some k \<Longrightarrow> k < length vs \<and> take k vs @ drop (Suc k) vs = drop_first (\<lambda>v. strncmp v env n = 0) vs"
  by (induction vs arbitrary: k) (auto split: if_splits)

lemma drop_first_none: "\<forall>x\<in>set xs. \<not> P x \<Longrightarrow> drop_first P xs = xs"
  by (induction xs) auto

lemma drop_first_cong: "(\<And>x. x \<in> set xs \<Longrightarrow> P x = Q x) \<Longrightarrow> drop_first P xs = drop_first Q xs"
  by (induction xs) auto

lemma drop_first_subset: "set (drop_first P xs) \<subseteq> set xs"
  by (induction xs) auto

lemma drop_first_distinct: "distinct (map f xs) \<Longrightarrow> distinct (map f (drop_first P xs))"
  using drop_first_subset [of P] by (induction xs) (auto split: if_splits)

lemma drop_first_unique:
  "distinct (map f xs) \<Longrightarrow> drop_first (\<lambda>x. f x = a) xs = filter (\<lambda>x. f x \<noteq> a) xs"
proof (induction xs)
  case (Cons x xs)
  then have "f x = a \<Longrightarrow> filter (\<lambda>x. f x \<noteq> a) xs = xs"
    by (intro filter_True) (auto simp: image_iff)
  with Cons show ?case by simp
qed simp

lemma drop_first_wf: "entries_wf vs \<Longrightarrow> entries_wf (drop_first P vs)"
  using drop_first_subset [of P vs] by (auto simp: entries_wf_def drop_first_distinct)

lemma env_map_filter: "env_map (filter (\<lambda>v. env_name v \<noteq> a) vs) = (env_map vs)(a := None)"
  by (induction vs) (auto simp: env_map_def fun_eq_iff)

lemma env_map_drop_first:
  "entries_wf vs \<Longrightarrow> env_map (drop_first (\<lambda>v. env_name v = a) vs) = (env_map vs)(a := None)"
  by (simp add: entries_wf_def drop_first_unique env_map_filter)

lemma env_map_Cons: "env_map (v # vs) = (env_map vs)(env_name v \<mapsto> env_value v)"
  by (simp add: env_map_def)

lemma env_map_dom: "dom (env_map vs) = env_name ` set vs"
  by (force simp: env_map_def dom_map_of_conv_image_fst)

section \<open>The operations\<close>

lemma set_match:
  assumes "entries_wf vs" "0 \<notin> set v" "EQ_SIGN \<in> set v" "w \<in> set vs"
  shows "strncmp w v (Suc (length (env_name v))) = 0 \<longleftrightarrow> env_name w = env_name v"
  using assms by (simp add: entries_wf_def strncmp_zero same_name)

lemma unset_match:
  assumes "entries_wf vs" "0 \<notin> set u" "EQ_SIGN \<notin> set u" "w \<in> set vs"
  shows "strncmp w u (length u) = 0 \<longleftrightarrow> prefix u (env_name w)"
proof -
  have "strncmp w u (length u) = 0 \<longleftrightarrow> take (length u) w = u"
    using assms by (simp add: entries_wf_def strncmp_zero)
  also have "\<dots> \<longleftrightarrow> prefix u w"
    by (auto simp: prefix_def) (metis append_take_drop_id)
  finally show ?thesis
    using assms(3) by (simp add: prefix_name [of u w, symmetric])
qed

text \<open>
  Setting a variable, with the old entry of that name removed first; the list of entries afterwards depends on
  which of the two allocations succeed, the count on whether there was an old entry.
\<close>

definition others :: "cstring \<Rightarrow> cstring list \<Rightarrow> cstring list" where
  "others a vs = drop_first (\<lambda>w. env_name w = a) vs"

definition set_count :: "cstring \<Rightarrow> envlist \<Rightarrow> u32" where
  "set_count a e = (if a \<in> env_name ` set (el_entries e) then el_count e else el_count e + 1)"

lemma set_found:
  assumes "entries_wf (el_entries e)" "0 \<notin> set v" "EQ_SIGN \<in> set v"
  shows "(case find_entry v (Suc (length (env_name v))) (el_entries e) of
            Some k \<Rightarrow> remove_entry k e h | None \<Rightarrow> (e\<lparr>el_count := el_count e + 1\<rparr>, h)) =
         (\<lparr>el_entries = others (env_name v) (el_entries e), el_count = set_count (env_name v) e\<rparr>,
          if env_name v \<in> env_name ` set (el_entries e) then free (free h) else h)"
proof -
  note m = set_match [OF assms]
  have d: "drop_first (\<lambda>w. strncmp w v (Suc (length (env_name v))) = 0) (el_entries e) = others (env_name v) (el_entries e)"
    unfolding others_def by (rule drop_first_cong) (rule m)
  show ?thesis
  proof (cases "find_entry v (Suc (length (env_name v))) (el_entries e)")
    case None
    then have "\<forall>w\<in>set (el_entries e). env_name w \<noteq> env_name v"
      using m by (simp add: find_entry_None)
    with None show ?thesis
      by (auto simp: others_def set_count_def drop_first_none image_iff)
  next
    case (Some k)
    then have "env_name v \<in> env_name ` set (el_entries e)"
      using m find_entry_None [of v "Suc (length (env_name v))" "el_entries e"] by (metis imageI option.distinct(1))
    with Some find_entry_Some [OF Some] d show ?thesis
      by (auto simp: remove_entry_def set_count_def)
  qed
qed

lemma setenv_run:
  fixes h :: alloc_state
  assumes "entries_wf (el_entries e)" "0 \<notin> set v" "EQ_SIGN \<in> set v"
  defines "g \<equiv> (if env_name v \<in> env_name ` set (el_entries e) then free (free h) else h)"
  defines "e1 \<equiv> \<lparr>el_entries = others (env_name v) (el_entries e), el_count = set_count (env_name v) e\<rparr>"
  shows "envlist_setenv (Some e) (Some v) h =
     (if \<not> grants h (calls h) then (12, Some e1, snd (malloc g))
      else if \<not> grants h (Suc (calls h)) then (12, Some e1, free (snd (malloc (snd (malloc g)))))
      else (0, Some (e1\<lparr>el_entries := v # el_entries e1\<rparr>), snd (malloc (snd (malloc g)))))"
proof -
  have "strchr v EQ_SIGN = Some (length (env_name v))"
    using assms(3) by (simp add: strchr_member env_name_def)
  then show ?thesis
    using set_found [OF assms(1-3), of h]
    by (auto simp: envlist_setenv_def g_def e1_def malloc_def free_def Let_def)
qed

lemma unsetenv_run:
  assumes "entries_wf (el_entries e)" "0 \<notin> set u" "EQ_SIGN \<notin> set u"
  shows "envlist_unsetenv (Some e) (Some u) h =
     (if \<exists>w\<in>set (el_entries e). prefix u (env_name w)
      then (0, Some \<lparr>el_entries = drop_first (\<lambda>w. prefix u (env_name w)) (el_entries e), el_count = el_count e - 1\<rparr>, free (free h))
      else (0, Some e, h))"
proof -
  note m = unset_match [OF assms]
  have d: "drop_first (\<lambda>w. strncmp w u (length u) = 0) (el_entries e) = drop_first (\<lambda>w. prefix u (env_name w)) (el_entries e)"
    by (rule drop_first_cong) (rule m)
  show ?thesis
  proof (cases "find_entry u (length u) (el_entries e)")
    case None
    then have "\<not> (\<exists>w\<in>set (el_entries e). prefix u (env_name w))"
      using m by (auto simp: find_entry_None)
    with None assms show ?thesis by (simp add: envlist_unsetenv_def)
  next
    case (Some k)
    then have "\<exists>w\<in>set (el_entries e). prefix u (env_name w)"
      using m find_entry_None [of u "length u" "el_entries e"] by auto
    with Some find_entry_Some [OF Some] d assms show ?thesis
      by (auto simp: envlist_unsetenv_def remove_entry_def)
  qed
qed

lemma others_wf: "entries_wf vs \<Longrightarrow> entries_wf (others a vs)"
  unfolding others_def by (rule drop_first_wf)

lemma others_names: "entries_wf vs \<Longrightarrow> env_name ` set (others a vs) = env_name ` set vs - {a}"
  by (auto simp: others_def entries_wf_def drop_first_unique)

lemma set_entries_wf:
  "entries_wf vs \<Longrightarrow> 0 \<notin> set v \<Longrightarrow> EQ_SIGN \<in> set v \<Longrightarrow> entries_wf (v # others (env_name v) vs)"
  using others_wf [of vs "env_name v"] others_names [of vs "env_name v"]
  by (auto simp: entries_wf_def)

lemma drop_first_length: "\<exists>x\<in>set xs. P x \<Longrightarrow> length xs = Suc (length (drop_first P xs))"
  by (induction xs) auto

lemma others_length:
  "length vs = length (others a vs) + (if a \<in> env_name ` set vs then 1 else 0)"
  by (induction vs) (auto simp: others_def)

section \<open>The list stays well formed\<close>

text \<open>
  What holds between calls, also when allocations fail: \<open>b\<close> blocks belong to others, the count is never too small,
  and it is exact while no allocation fails.
\<close>

definition envlist_inv :: "nat \<Rightarrow> envlist \<Rightarrow> alloc_state \<Rightarrow> bool" where
  "envlist_inv b e h \<longleftrightarrow> entries_wf (el_entries e) \<and> length (el_entries e) \<le> unat (el_count e) \<and>
     live h = b + 2 * length (el_entries e) \<and>
     ((\<forall>n. grants h n) \<longrightarrow> unat (el_count e) = length (el_entries e))"

lemma grants_kept [simp]: "grants (free h) = grants h" "grants (snd (malloc h)) = grants h"
  by (simp_all add: free_def malloc_def)

lemma set_count_unat:
  "unat (el_count e) < 2 ^ 32 - 1 \<Longrightarrow>
   unat (set_count a e) = unat (el_count e) + (if a \<in> env_name ` set (el_entries e) then 0 else 1)"
  by (auto simp: set_count_def unat_word_ariths)

lemma setenv_inv:
  assumes inv: "envlist_inv b e h" and v: "0 \<notin> set v" and c: "unat (el_count e) < 2 ^ 32 - 1"
  shows "\<exists>r e' h'. envlist_setenv (Some e) (Some v) h = (r, Some e', h') \<and> envlist_inv b e' h' \<and>
           unat (el_count e') \<le> unat (el_count e) + 1 \<and> grants h' = grants h"
proof (cases "EQ_SIGN \<in> set v")
  case False
  then have n: "strchr v EQ_SIGN = None" by simp
  show ?thesis using inv by (simp add: envlist_setenv_def n)
next
  case True
  have wf: "entries_wf (el_entries e)" using inv by (simp add: envlist_inv_def)
  note run = setenv_run [OF wf v True, of h]
  note n = set_count_unat [OF c, of "env_name v"] others_length [of "el_entries e" "env_name v"]
  note w = set_entries_wf [OF wf v True] others_wf [OF wf, of "env_name v"]
  show ?thesis
    unfolding run using inv n w
    by (cases "grants h (calls h)"; cases "grants h (Suc (calls h))")
      (auto simp: envlist_inv_def malloc_def free_def split: if_splits)
qed

lemma unsetenv_inv:
  assumes inv: "envlist_inv b e h" and v: "0 \<notin> set v"
  shows "\<exists>r e' h'. envlist_unsetenv (Some e) (Some v) h = (r, Some e', h') \<and> envlist_inv b e' h' \<and>
           unat (el_count e') \<le> unat (el_count e) + 1 \<and> grants h' = grants h"
proof (cases "EQ_SIGN \<in> set v")
  case True
  then show ?thesis using inv by (simp add: envlist_unsetenv_def)
next
  case False
  have wf: "entries_wf (el_entries e)" using inv by (simp add: envlist_inv_def)
  note run = unsetenv_run [OF wf v False, of h]
  show ?thesis
  proof (cases "\<exists>w\<in>set (el_entries e). prefix v (env_name w)")
    case True
    note l = drop_first_length [OF True] drop_first_wf [OF wf, of "\<lambda>w. prefix v (env_name w)"]
    have "1 \<le> unat (el_count e)" using l inv by (simp add: envlist_inv_def)
    then have "unat (el_count e - 1) = unat (el_count e) - 1"
      by (simp add: unat_sub_if')
    with run True inv l show ?thesis
      by (auto simp: envlist_inv_def free_def)
  qed (use run inv in auto)
qed

text \<open>The comma separated strings, for either of the two callbacks.\<close>

lemma strtok_chars: "strtok c s = Some (t, r) \<Longrightarrow> set t \<subseteq> set s \<and> set r \<subseteq> set s"
  by (auto simp: strtok_def Let_def split: if_splits dest!: in_set_dropD set_takeWhileD set_dropWhileD)

definition keeps_inv :: "(envlist option \<Rightarrow> cstring option \<Rightarrow> alloc_state \<Rightarrow> int \<times> envlist option \<times> alloc_state) \<Rightarrow> bool" where
  "keeps_inv f \<longleftrightarrow> (\<forall>b e h v. envlist_inv b e h \<longrightarrow> 0 \<notin> set v \<longrightarrow> unat (el_count e) < 2 ^ 32 - 1 \<longrightarrow>
     (\<exists>r e' h'. f (Some e) (Some v) h = (r, Some e', h') \<and> envlist_inv b e' h' \<and>
        unat (el_count e') \<le> unat (el_count e) + 1 \<and> grants h' = grants h))"

lemma keeps_inv_setenv: "keeps_inv envlist_setenv"
  unfolding keeps_inv_def using setenv_inv by blast

lemma keeps_inv_unsetenv: "keeps_inv envlist_unsetenv"
  unfolding keeps_inv_def using unsetenv_inv by blast

lemma free_inv: "envlist_inv (Suc b) e h \<Longrightarrow> envlist_inv b e (free h)"
  by (auto simp: envlist_inv_def free_def)

lemma parse_loop_inv:
  assumes "keeps_inv f" "envlist_inv (Suc b) e h" "0 \<notin> set s" "unat (el_count e) + length s < 2 ^ 32 - 1"
  shows "\<exists>r e' h'. parse_loop f s (Some e) h = (r, Some e', h') \<and> envlist_inv b e' h' \<and>
           unat (el_count e') \<le> unat (el_count e) + length s \<and> grants h' = grants h"
  using assms(2-4)
proof (induction s arbitrary: e h rule: length_induct)
  case (1 s)
  show ?case
  proof (cases "strtok COMMA s")
    case None
    then show ?thesis using "1.prems" by (simp add: parse_loop.simps free_inv)
  next
    case (Some p)
    obtain t r where tok: "strtok COMMA s = Some (t, r)" using Some by (cases p) auto
    have z: "0 \<notin> set t" "0 \<notin> set r" and l: "length r < length s"
      using strtok_chars [OF tok] strtok_shorter [OF tok] "1.prems"(2) by auto
    obtain q e1 h1 where c: "f (Some e) (Some t) h = (q, Some e1, h1)" and i: "envlist_inv (Suc b) e1 h1"
      and n: "unat (el_count e1) \<le> unat (el_count e) + 1" and g: "grants h1 = grants h"
      using assms(1) "1.prems" z unfolding keeps_inv_def by (metis add_lessD1)
    show ?thesis
    proof (cases "q = 0")
      case True
      have "\<exists>r' e' h'. parse_loop f r (Some e1) h1 = (r', Some e', h') \<and> envlist_inv b e' h' \<and>
              unat (el_count e') \<le> unat (el_count e1) + length r \<and> grants h' = grants h1"
        using "1.IH" l i z n "1.prems"(3) by (simp add: less_diff_conv)
      with True tok c n g l show ?thesis
        by (auto simp: parse_loop.simps [of f s])
    next
      case False
      with tok c i n g l show ?thesis
        by (auto simp: parse_loop.simps [of f s] free_inv)
    qed
  qed
qed

lemma parse_inv:
  assumes "keeps_inv f" "envlist_inv b e h" "0 \<notin> set s" "unat (el_count e) + length s < 2 ^ 32 - 1"
  shows "\<exists>r e' h'. envlist_parse (Some e) (Some s) f h = (r, Some e', h') \<and> envlist_inv b e' h' \<and>
           unat (el_count e') \<le> unat (el_count e) + length s \<and> grants h' = grants h"
proof (cases "grants h (calls h)")
  case True
  let ?h = "h\<lparr>calls := Suc (calls h), live := Suc (live h)\<rparr>"
  have "envlist_inv (Suc b) e ?h" using assms(2) by (simp add: envlist_inv_def)
  from parse_loop_inv [OF assms(1) this assms(3,4)] True show ?thesis
    by (simp add: envlist_parse_def malloc_def)
next
  case False
  with assms(2) show ?thesis by (auto simp: envlist_parse_def malloc_def envlist_inv_def)
qed

section \<open>Giving the list back\<close>

lemma free_live [simp]: "live (free h) = live h - 1"
  by (simp add: free_def)

lemma free_entries_live: "2 * length vs \<le> live h \<Longrightarrow> live (free_entries vs h) = live h - 2 * length vs"
  by (induction vs arbitrary: h) (auto simp: free_def)

lemma envlist_free_live:
  "envlist_inv (Suc b) e h \<Longrightarrow> \<exists>h'. envlist_free (Some e) h = Inr h' \<and> live h' = b"
  by (auto simp: envlist_free_def envlist_inv_def free_entries_live)

lemma copy_entries_run:
  "length env + length vs < room \<Longrightarrow>
   \<exists>as h'. copy_entries room vs env h = Inr (env @ as @ [None], h') \<and> length as = length vs \<and> grants h' = grants h \<and>
     (\<forall>i<length vs. as ! i = None \<or> as ! i = Some (vs ! i)) \<and> ((\<forall>n. grants h n) \<longrightarrow> as = map Some vs)"
proof (induction vs arbitrary: env h)
  case (Cons v vs)
  let ?a = "if fst (malloc h) then Some v else None"
  obtain as h' where r: "copy_entries room vs (env @ [?a]) (snd (malloc h)) = Inr ((env @ [?a]) @ as @ [None], h')"
    and a: "length as = length vs" "grants h' = grants h" "\<forall>i<length vs. as ! i = None \<or> as ! i = Some (vs ! i)"
      "(\<forall>n. grants h n) \<longrightarrow> as = map Some vs"
    using Cons.IH [of "env @ [?a]" "snd (malloc h)"] Cons.prems by auto
  have all: "(\<forall>n. grants h n) \<longrightarrow> fst (malloc h)" by (simp add: malloc_def)
  show ?case
    using r a all Cons.prems
    by (intro exI [of _ "?a # as"] exI [of _ h']) (auto simp: case_prod_beta nth_Cons split: nat.split)
qed simp

lemma environ_strings_prefix:
  assumes "length as = length vs" "\<forall>i<length vs. as ! i = None \<or> as ! i = Some (vs ! i)"
  shows "prefix (environ_strings (as @ [None])) vs"
  using assms
proof (induction as vs rule: list_induct2)
  case (Cons a as v vs)
  have "\<forall>i<length vs. as ! i = None \<or> as ! i = Some (vs ! i)" "a = None \<or> a = Some v"
    using Cons.prems by (auto dest: spec [of _ "Suc _"])
  with Cons.IH show ?case by (auto simp: environ_strings_def)
qed (simp add: environ_strings_def)

lemma environ_strings_all: "environ_strings (map Some vs @ [None]) = vs"
  by (induction vs) (auto simp: environ_strings_def)

lemma to_environ_run:
  assumes "envlist_inv b e h" "unat (el_count e) + 1 < 2 ^ 30" "grants h (calls h)"
  shows "\<exists>env h'. envlist_to_environ e h = Inr ((Some env, el_count e), h') \<and>
     length env = length (el_entries e) + 1 \<and> prefix (environ_strings env) (el_entries e) \<and>
     ((\<forall>n. grants h n) \<longrightarrow> environ_strings env = el_entries e \<and> unat (el_count e) = length (el_entries e))"
proof -
  have "unat ((el_count e + 1) * 4) div 4 = unat (el_count e) + 1"
    using assms(2) by (simp add: unat_word_ariths)
  moreover have "length (el_entries e) \<le> unat (el_count e)" using assms(1) by (simp add: envlist_inv_def)
  ultimately have "length ([] :: cstring option list) + length (el_entries e) < unat ((el_count e + 1) * 4) div 4"
    by simp
  from copy_entries_run [OF this, of "snd (malloc h)"] obtain as h' where
    r: "copy_entries (unat ((el_count e + 1) * 4) div 4) (el_entries e) [] (snd (malloc h)) = Inr (as @ [None], h')"
    and a: "length as = length (el_entries e)" "\<forall>i<length (el_entries e). as ! i = None \<or> as ! i = Some (el_entries e ! i)"
      "(\<forall>n. grants h n) \<longrightarrow> as = map Some (el_entries e)"
    by auto
  have m: "malloc h = (True, snd (malloc h))" using assms(3) by (simp add: malloc_def)
  have "envlist_to_environ e h = Inr ((Some (as @ [None]), el_count e), h')"
    unfolding envlist_to_environ_def using r by (subst m) simp
  with a environ_strings_prefix [OF a(1,2)] assms(1) show ?thesis
    by (auto simp: environ_strings_all envlist_inv_def)
qed

lemma free_entries_grants [simp]: "grants (free_entries vs h) = grants h"
  by (induction vs arbitrary: h) simp_all

lemma copy_entries_grants: "copy_entries room vs env h = Inr (env', h') \<Longrightarrow> grants h' = grants h"
  by (induction vs arbitrary: env h) (auto simp: Let_def case_prod_beta split: if_splits)

lemma to_environ_grants: "envlist_to_environ e h = Inr (r, h') \<Longrightarrow> grants h' = grants h"
  by (auto simp: envlist_to_environ_def Let_def case_prod_beta split: if_splits dest!: copy_entries_grants)

section \<open>The promise of the list\<close>

text \<open>A change of the environment: a variable is set by a string \<^verbatim>\<open>name=value\<close>, or removed by its name.\<close>

datatype change = Set_Var cstring | Unset_Var cstring

fun changed_name :: "change \<Rightarrow> cstring" where
  "changed_name (Set_Var v) = env_name v"
| "changed_name (Unset_Var u) = u"

fun changed_value :: "change \<Rightarrow> cstring option" where
  "changed_value (Set_Var v) = Some (env_value v)"
| "changed_value (Unset_Var u) = None"

fun change_ok :: "change \<Rightarrow> bool" where
  "change_ok (Set_Var v) \<longleftrightarrow> 0 \<notin> set v \<and> EQ_SIGN \<in> set v"
| "change_ok (Unset_Var u) \<longleftrightarrow> 0 \<notin> set u \<and> EQ_SIGN \<notin> set u"

text \<open>
  No name that is removed is the beginning of another name that is or becomes defined: the code compares only as
  many characters as the name has.
\<close>

definition unsets_exact :: "cstring set \<Rightarrow> change list \<Rightarrow> bool" where
  "unsets_exact names cs \<longleftrightarrow>
     (\<forall>u m. Unset_Var u \<in> set cs \<longrightarrow> m \<in> names \<union> changed_name ` set cs \<longrightarrow> prefix u m \<longrightarrow> m = u)"

definition last_value :: "(cstring \<Rightarrow> cstring option) \<Rightarrow> change list \<Rightarrow> cstring \<Rightarrow> cstring option" where
  "last_value m cs n = (case find (\<lambda>c. changed_name c = n) (rev cs) of None \<Rightarrow> m n | Some c \<Rightarrow> changed_value c)"

lemma find_append: "find P (xs @ ys) = (case find P xs of None \<Rightarrow> find P ys | Some x \<Rightarrow> Some x)"
  by (induction xs) auto

lemma last_value_Cons: "last_value m (c # cs) = last_value (m(changed_name c := changed_value c)) cs"
  by (rule ext) (auto simp: last_value_def find_append split: option.splits)

lemma last_value_Nil [simp]: "last_value m [] = m"
  by (rule ext) (simp add: last_value_def)

lemma unsets_exact_Cons:
  assumes "unsets_exact (dom m) (c # cs)"
  shows "unsets_exact (dom (m(changed_name c := changed_value c))) cs"
  using assms unfolding unsets_exact_def
  by (auto simp: dom_def split: if_splits)

lemma unsets_exact_head: "unsets_exact N (Unset_Var u # cs) \<Longrightarrow> \<forall>m\<in>N. prefix u m \<longrightarrow> m = u"
  by (meson list.set_intros(1) unsets_exact_def UnI1)

locale environment =
  fixes lookup :: "'s \<Rightarrow> cstring \<Rightarrow> cstring option"
    and set_var :: "cstring \<Rightarrow> 's \<Rightarrow> 's"
    and unset_var :: "cstring \<Rightarrow> 's \<Rightarrow> 's"
    and invar :: "'s \<Rightarrow> bool"
  assumes lookup_set: "invar s \<Longrightarrow> change_ok (Set_Var v) \<Longrightarrow> lookup (set_var v s) = (lookup s)(env_name v \<mapsto> env_value v)"
    and invar_set: "invar s \<Longrightarrow> change_ok (Set_Var v) \<Longrightarrow> invar (set_var v s)"
    and lookup_unset: "invar s \<Longrightarrow> change_ok (Unset_Var u) \<Longrightarrow> \<forall>m\<in>dom (lookup s). prefix u m \<longrightarrow> m = u \<Longrightarrow>
          lookup (unset_var u s) = (lookup s)(u := None)"
    and invar_unset: "invar s \<Longrightarrow> change_ok (Unset_Var u) \<Longrightarrow> invar (unset_var u s)"
begin

primrec apply_change :: "change \<Rightarrow> 's \<Rightarrow> 's" where
  "apply_change (Set_Var v) s = set_var v s"
| "apply_change (Unset_Var u) s = unset_var u s"

lemma invar_change: "invar s \<Longrightarrow> change_ok c \<Longrightarrow> invar (apply_change c s)"
  by (cases c) (auto intro: invar_set invar_unset)

lemma lookup_change:
  "invar s \<Longrightarrow> change_ok c \<Longrightarrow> unsets_exact (dom (lookup s)) (c # cs) \<Longrightarrow>
   lookup (apply_change c s) = (lookup s)(changed_name c := changed_value c)"
  by (cases c) (simp_all add: lookup_set lookup_unset [OF _ _ unsets_exact_head])

lemma last_change_wins:
  "invar s \<Longrightarrow> \<forall>c\<in>set cs. change_ok c \<Longrightarrow> unsets_exact (dom (lookup s)) cs \<Longrightarrow>
   invar (fold apply_change cs s) \<and> lookup (fold apply_change cs s) = last_value (lookup s) cs"
proof (induction cs arbitrary: s)
  case (Cons c cs)
  have l: "lookup (apply_change c s) = (lookup s)(changed_name c := changed_value c)"
    using lookup_change [of s c cs] Cons.prems by simp
  have "unsets_exact (dom (lookup (apply_change c s))) cs"
    unfolding l using Cons.prems(3) by (rule unsets_exact_Cons)
  then have "invar (fold apply_change cs (apply_change c s)) \<and>
      lookup (fold apply_change cs (apply_change c s)) = last_value (lookup (apply_change c s)) cs"
    using Cons.prems invar_change by (intro Cons.IH) auto
  then show ?case by (simp only: l last_value_Cons fold_Cons o_apply)
qed simp

end

text \<open>The list keeps the promise while there is memory.\<close>

definition list_lookup :: "envlist option \<times> alloc_state \<Rightarrow> cstring \<Rightarrow> cstring option" where
  "list_lookup = (\<lambda>(el, h). case el of None \<Rightarrow> Map.empty | Some e \<Rightarrow> env_map (el_entries e))"

definition list_set :: "cstring \<Rightarrow> envlist option \<times> alloc_state \<Rightarrow> envlist option \<times> alloc_state" where
  "list_set v = (\<lambda>(el, h). snd (envlist_setenv el (Some v) h))"

definition list_unset :: "cstring \<Rightarrow> envlist option \<times> alloc_state \<Rightarrow> envlist option \<times> alloc_state" where
  "list_unset u = (\<lambda>(el, h). snd (envlist_unsetenv el (Some u) h))"

definition list_invar :: "envlist option \<times> alloc_state \<Rightarrow> bool" where
  "list_invar = (\<lambda>(el, h). (\<exists>e. el = Some e \<and> entries_wf (el_entries e)) \<and> (\<forall>n. grants h n))"

lemma list_set_run:
  assumes "entries_wf (el_entries e)" "\<forall>n. grants h n" "0 \<notin> set v" "EQ_SIGN \<in> set v"
  shows "\<exists>e' h'. envlist_setenv (Some e) (Some v) h = (0, Some e', h') \<and> grants h' = grants h \<and>
           el_entries e' = v # others (env_name v) (el_entries e)"
  unfolding setenv_run [OF assms(1,3,4), of h] using assms(2) by (simp add: malloc_def free_def)

lemma list_unset_run:
  assumes "entries_wf (el_entries e)" "0 \<notin> set u" "EQ_SIGN \<notin> set u"
  shows "\<exists>e' h'. envlist_unsetenv (Some e) (Some u) h = (0, Some e', h') \<and> grants h' = grants h \<and>
           el_entries e' = drop_first (\<lambda>w. prefix u (env_name w)) (el_entries e)"
  unfolding unsetenv_run [OF assms, of h] by (auto simp: drop_first_none)

lemma others_map: "entries_wf vs \<Longrightarrow> env_map (v # others (env_name v) vs) = (env_map vs)(env_name v \<mapsto> env_value v)"
  by (simp add: env_map_Cons others_def env_map_drop_first)

lemma exact_map:
  assumes "entries_wf vs" "\<forall>m\<in>dom (env_map vs). prefix u m \<longrightarrow> m = u"
  shows "env_map (drop_first (\<lambda>w. prefix u (env_name w)) vs) = (env_map vs)(u := None)"
proof -
  have "drop_first (\<lambda>w. prefix u (env_name w)) vs = drop_first (\<lambda>w. env_name w = u) vs"
    using assms(2) by (intro drop_first_cong) (auto simp: env_map_dom)
  then show ?thesis using assms(1) by (simp add: env_map_drop_first)
qed

interpretation el: environment list_lookup list_set list_unset list_invar
proof (unfold_locales, goal_cases)
  case (1 s v)
  then obtain e h where s: "s = (Some e, h)" "entries_wf (el_entries e)" "\<forall>n. grants h n"
    by (auto simp: list_invar_def)
  with list_set_run [OF s(2,3), of v] 1 show ?case
    by (auto simp: list_lookup_def list_set_def others_map)
next
  case (2 s v)
  then obtain e h where s: "s = (Some e, h)" "entries_wf (el_entries e)" "\<forall>n. grants h n"
    by (auto simp: list_invar_def)
  with list_set_run [OF s(2,3), of v] 2 show ?case
    by (auto simp: list_invar_def list_set_def set_entries_wf)
next
  case (3 s u)
  then obtain e h where s: "s = (Some e, h)" "entries_wf (el_entries e)" "\<forall>n. grants h n"
    by (auto simp: list_invar_def)
  with list_unset_run [OF s(2), of u h] 3 show ?case
    by (auto simp: list_lookup_def list_unset_def exact_map)
next
  case (4 s u)
  then obtain e h where s: "s = (Some e, h)" "entries_wf (el_entries e)" "\<forall>n. grants h n"
    by (auto simp: list_invar_def)
  with list_unset_run [OF s(2), of u h] 4 show ?case
    by (auto simp: list_invar_def list_unset_def drop_first_wf)
qed

section \<open>Any sequence of calls\<close>

datatype env_op = Op_Setenv cstring | Op_Unsetenv cstring | Op_Parse_Set cstring | Op_Parse_Unset cstring

fun env_step :: "env_op \<Rightarrow> envlist option \<times> alloc_state \<Rightarrow> envlist option \<times> alloc_state" where
  "env_step (Op_Setenv v) (el, h) = snd (envlist_setenv el (Some v) h)"
| "env_step (Op_Unsetenv u) (el, h) = snd (envlist_unsetenv el (Some u) h)"
| "env_step (Op_Parse_Set s) (el, h) = snd (envlist_parse_set el (Some s) h)"
| "env_step (Op_Parse_Unset s) (el, h) = snd (envlist_parse_unset el (Some s) h)"

fun op_text :: "env_op \<Rightarrow> cstring" where
  "op_text (Op_Setenv v) = v"
| "op_text (Op_Unsetenv u) = u"
| "op_text (Op_Parse_Set s) = s"
| "op_text (Op_Parse_Unset s) = s"

lemma env_step_inv:
  assumes "envlist_inv b e h" "0 \<notin> set (op_text op)" "unat (el_count e) + length (op_text op) + 1 < 2 ^ 32 - 1"
  shows "\<exists>e' h'. env_step op (Some e, h) = (Some e', h') \<and> envlist_inv b e' h' \<and>
           unat (el_count e') \<le> unat (el_count e) + length (op_text op) + 1"
proof (cases op)
  case (Op_Setenv v)
  with setenv_inv [OF assms(1), of v] assms(2,3) show ?thesis by fastforce
next
  case (Op_Unsetenv u)
  with unsetenv_inv [OF assms(1), of u] assms(2,3) show ?thesis by fastforce
next
  case (Op_Parse_Set s)
  with parse_inv [OF keeps_inv_setenv assms(1), of s] assms(2,3) show ?thesis
    by (fastforce simp: envlist_parse_set_def)
next
  case (Op_Parse_Unset s)
  with parse_inv [OF keeps_inv_unsetenv assms(1), of s] assms(2,3) show ?thesis
    by (fastforce simp: envlist_parse_unset_def)
qed

lemma env_steps_inv:
  assumes "envlist_inv b e h" "\<forall>op\<in>set ops. 0 \<notin> set (op_text op)"
    "unat (el_count e) + (\<Sum>op\<leftarrow>ops. length (op_text op) + 1) < 2 ^ 30 - 1"
  shows "\<exists>e' h'. fold env_step ops (Some e, h) = (Some e', h') \<and> envlist_inv b e' h' \<and>
           unat (el_count e') < 2 ^ 30 - 1"
  using assms
proof (induction ops arbitrary: e h)
  case (Cons op ops)
  then obtain e1 h1 where s: "env_step op (Some e, h) = (Some e1, h1)" "envlist_inv b e1 h1"
      "unat (el_count e1) \<le> unat (el_count e) + length (op_text op) + 1"
    using env_step_inv [of b e h op] by auto
  with Cons.IH [OF s(2)] Cons.prems show ?case by simp
qed auto

text \<open>
  C35: The list of environment variables under any sequence of calls, with any of the allocations failing.  From
  a new list on, every entry is a string with an equals sign and no two entries have the same name.  Freeing
  the list gives back all the memory it took.  The array of strings made from it never runs past its end: it has one
  place for each entry and one for the null pointer, and a reader finds the entries up to the first that could
  not be copied, all of them if memory sufficed; then the count is the number of entries.
\<close>

theorem envlist_calls:
  assumes "envlist_create h = (Some e0, h0)"
    and "\<forall>op\<in>set ops. 0 \<notin> set (op_text op)"
    and "(\<Sum>op\<leftarrow>ops. length (op_text op) + 1) < 2 ^ 30 - 1"
  shows "\<exists>e h1. fold env_step ops (Some e0, h0) = (Some e, h1) \<and> entries_wf (el_entries e) \<and>
     (\<exists>h2. envlist_free (Some e) h1 = Inr h2 \<and> live h2 = live h) \<and>
     (grants h1 (calls h1) \<longrightarrow>
        (\<exists>env h3. envlist_to_environ e h1 = Inr ((Some env, el_count e), h3) \<and>
           length env = length (el_entries e) + 1 \<and> prefix (environ_strings env) (el_entries e) \<and>
           ((\<forall>n. grants h1 n) \<longrightarrow> environ_strings env = el_entries e \<and> unat (el_count e) = length (el_entries e))))"
proof -
  have e0: "e0 = \<lparr>el_entries = [], el_count = 0\<rparr>" "live h0 = Suc (live h)"
    using assms(1) by (auto simp: envlist_create_def malloc_def split: if_splits)
  then have "envlist_inv (Suc (live h)) e0 h0"
    by (simp add: envlist_inv_def entries_wf_def)
  from env_steps_inv [OF this assms(2)] assms(3) e0(1) obtain e h1 where
    r: "fold env_step ops (Some e0, h0) = (Some e, h1)" and i: "envlist_inv (Suc (live h)) e h1"
    and c: "unat (el_count e) < 2 ^ 30 - 1" by auto
  have "unat (el_count e) + 1 < 2 ^ 30" using c by simp
  note t = to_environ_run [OF i this]
  have "entries_wf (el_entries e)" using i by (simp add: envlist_inv_def)
  then show ?thesis
    using r t envlist_free_live [OF i] by blast
qed

definition demo_heap :: alloc_state where
  "demo_heap = \<lparr>grants = (\<lambda>n. n \<noteq> 4), calls = 0, live = 5, errno = 0\<rparr>"

text \<open>The copy of the second variable fails.\<close>

theorem envlist_calls_witness:
  "let ops = [Op_Setenv (ascii ''HOME=/''), Op_Setenv (ascii ''A=b''), Op_Parse_Unset (ascii ''HO,B'')];
       h0 = demo_heap\<lparr>calls := 1, live := 6\<rparr> in
   \<exists>e h1. fold env_step ops (Some \<lparr>el_entries = [], el_count = 0\<rparr>, h0) = (Some e, h1) \<and> entries_wf (el_entries e) \<and>
     (\<exists>h2. envlist_free (Some e) h1 = Inr h2 \<and> live h2 = 5)"
  unfolding Let_def
  using envlist_calls [of demo_heap "\<lparr>el_entries = [], el_count = 0\<rparr>" "demo_heap\<lparr>calls := 1, live := 6\<rparr>"
      "[Op_Setenv (ascii ''HOME=/''), Op_Setenv (ascii ''A=b''), Op_Parse_Unset (ascii ''HO,B'')]"]
  by (simp add: envlist_create_def malloc_def demo_heap_def ascii_def) blast

end
