(* ===== verification/Options.thy ===== *)
theory Options
  imports Envlist
begin

text \<open>
  The command line (\<^verbatim>\<open>main\<close> of \<^verbatim>\<open>src/linux-user/main.c\<close> up to the call of \<^verbatim>\<open>loader_exec\<close>, with the log masks of
  \<^verbatim>\<open>src/exec.c\<close>): the environment the program inherits, the stack limit, the loop over the options, and the
  arguments and the environment the program is started with.
\<close>

unbundle bit_operations_syntax

section \<open>Numbers\<close>

text \<open>What the source uses of \<^verbatim>\<open>strtoul\<close> with base 0 and of \<^verbatim>\<open>atoi\<close>, for a \<^verbatim>\<open>long\<close> of 32 bits.\<close>

definition isspace :: "u8 \<Rightarrow> bool" where
  "isspace c \<longleftrightarrow> c = 0x20 \<or> 9 \<le> c \<and> c \<le> 13"

definition digit :: "u8 \<Rightarrow> nat" where
  "digit c =
     (if 0x30 \<le> c \<and> c \<le> 0x39 then unat (c - 0x30)
      else if 0x61 \<le> c \<and> c \<le> 0x7a then unat (c - 0x57)
      else if 0x41 \<le> c \<and> c \<le> 0x5a then unat (c - 0x37) else 99)"

definition digits_value :: "nat \<Rightarrow> cstring \<Rightarrow> nat" where
  "digits_value base ds = foldl (\<lambda>n c. n * base + digit c) 0 ds"

text \<open>The sign, and what follows it.\<close>

fun sign :: "cstring \<Rightarrow> bool \<times> cstring" where
  "sign [] = (False, [])"
| "sign (c # cs) = (if c = 0x2d then (True, cs) else if c = 0x2b then (False, cs) else (False, c # cs))"

definition hex_prefix :: "cstring \<Rightarrow> bool" where
  "hex_prefix t \<longleftrightarrow> length t > 2 \<and> t ! 0 = 0x30 \<and> (t ! 1 = 0x78 \<or> t ! 1 = 0x58) \<and> digit (t ! 2) < 16"

definition strtoul :: "cstring \<Rightarrow> u32 \<times> cstring" where
  "strtoul s =
     (let (neg, t) = sign (dropWhile isspace s);
          (base, t) = (if hex_prefix t then (16, drop 2 t) else if take 1 t = [0x30] then (8, t) else (10, t));
          ds = takeWhile (\<lambda>c. digit c < base) t; n = digits_value base ds in
      if ds = [] then (0, s)
      else (if n \<ge> 2 ^ 32 then - 1 else if neg then - of_nat n else of_nat n, drop (length ds) t))"

definition atoi :: "cstring \<Rightarrow> int" where
  "atoi s =
     (let (neg, t) = sign (dropWhile isspace s); n = int (digits_value 10 (takeWhile (\<lambda>c. digit c < 10) t)) in
      if neg then max (- n) (- (2 ^ 31)) else min n (2 ^ 31 - 1))"

section \<open>Log masks\<close>

definition cpu_log_items :: "(u32 \<times> cstring) list" where
  "cpu_log_items =
     [(1, ascii ''out_asm''), (2, ascii ''in_asm''), (4, ascii ''op''), (8, ascii ''op_opt''), (0x10, ascii ''int''),
      (0x20, ascii ''exec''), (0x100, ascii ''cpu''), (0x40, ascii ''pcall''), (0x200, ascii ''cpu_reset'')]"

definition all_masks :: u32 where
  "all_masks = foldl (\<lambda>mask (m, _). mask OR m) 0 cpu_log_items"

text \<open>One item: its mask, which is 0 for one that is not known.\<close>

definition log_item :: "cstring \<Rightarrow> u32" where
  "log_item name =
     (if name = ascii ''all'' then all_masks
      else case find (\<lambda>(_, n). n = name) cpu_log_items of None \<Rightarrow> 0 | Some (m, _) \<Rightarrow> m)"

function log_mask_loop :: "cstring \<Rightarrow> u32 \<Rightarrow> u32" where
  "log_mask_loop p flags =
     (let p1 = (case strchr p COMMA of None \<Rightarrow> length p | Some i \<Rightarrow> i); m = log_item (take p1 p) in
      if m = 0 then 0
      else if p1 < length p then log_mask_loop (drop (p1 + 1) p) (flags OR m)
      else flags OR m)"
  by pat_completeness auto
termination by (relation "measure (\<lambda>(p, _). length p)") auto

declare log_mask_loop.simps [simp del]

definition cpu_str_to_log_mask :: "cstring \<Rightarrow> u32" where
  "cpu_str_to_log_mask str = log_mask_loop str 0"

section \<open>The loop over the options\<close>

text \<open>
  How the program ends before it has started another: \<^verbatim>\<open>usage\<close>, \<^verbatim>\<open>exit (1)\<close>, or a read behind the null pointer at
  the end of \<^verbatim>\<open>argv\<close>.
\<close>

datatype stop = Usage | Exit_1 | Beyond_Argv

definition or_stop :: "stop + 'a \<Rightarrow> ('a \<Rightarrow> stop + 'b) \<Rightarrow> stop + 'b" where
  "or_stop r f = (case r of Inl e \<Rightarrow> Inl e | Inr x \<Rightarrow> f x)"

lemma or_stop_simps [simp]: "or_stop (Inl e) f = Inl e" "or_stop (Inr x) f = f x"
  by (simp_all add: or_stop_def)

text \<open>What the options set.\<close>

record cmd_line =
  c_list :: "envlist option"
  c_heap :: alloc_state
  loglevel :: u32
  logfile :: bool
  log_append :: bool
  argv0 :: "cstring option"
  stack_size :: u32
  interp_prefix :: "cstring option"
  host_page_size :: u32
  gdbstub_port :: int
  uname_release :: "cstring option"
  cpu_model :: "cstring option"
  singlestep :: bool
  do_strace :: bool
  prof_run :: bool

definition cpu_set_log :: "bool \<Rightarrow> u32 \<Rightarrow> cmd_line \<Rightarrow> stop + cmd_line" where
  "cpu_set_log fopen_ok flags s =
     (let s = s\<lparr>loglevel := flags\<rparr> in
      if flags \<noteq> 0 \<and> \<not> logfile s
      then if fopen_ok then Inr (s\<lparr>logfile := True, log_append := True\<rparr>) else Inl Exit_1
      else if flags = 0 \<and> logfile s then Inr (s\<lparr>logfile := False\<rparr>) else Inr s)"

text \<open>The string at a place of \<^verbatim>\<open>argv\<close>, which ends with a null pointer.\<close>

definition arg :: "cstring list \<Rightarrow> nat \<Rightarrow> stop + cstring option" where
  "arg argv i = (if i < length argv then Inr (Some (argv ! i)) else if i = length argv then Inr None else Inl Beyond_Argv)"

text \<open>Sizes may end with a unit.\<close>

definition size_suffix :: "u32 \<Rightarrow> cstring \<Rightarrow> u32" where
  "size_suffix n r =
     (if take 1 r = ascii ''M'' then n * (1024 * 1024)
      else if take 1 r = ascii ''k'' \<or> take 1 r = ascii ''K'' then n * 1024 else n)"

text \<open>
  An option whose name is \<open>r\<close> and whose argument, if it has one, is at \<open>optind\<close>.  The result says whether the loop is
  left.
\<close>

definition one_option :: "bool \<Rightarrow> cstring list \<Rightarrow> cstring \<Rightarrow> nat \<Rightarrow> cmd_line \<Rightarrow> stop + (bool \<times> nat \<times> cmd_line)" where
  "one_option fopen_ok argv r optind s =
     (if r = ascii ''-'' then Inr (True, optind, s)
      else if r = ascii ''d'' then
        if optind \<ge> length argv then Inr (True, optind, s)
        else or_stop (arg argv optind) (\<lambda>a.
          let mask = cpu_str_to_log_mask (the a) in
          if mask = 0 then Inl Exit_1
          else or_stop (cpu_set_log fopen_ok mask s) (\<lambda>s. Inr (False, optind + 1, s)))
      else if r = ascii ''E'' then
        or_stop (arg argv optind) (\<lambda>a.
          let (ret, el, h) = envlist_setenv (c_list s) a (c_heap s) in
          if ret \<noteq> 0 then Inl Usage else Inr (False, optind + 1, s\<lparr>c_list := el, c_heap := h\<rparr>))
      else if r = ascii ''U'' then
        or_stop (arg argv optind) (\<lambda>a.
          let (ret, el, h) = envlist_unsetenv (c_list s) a (c_heap s) in
          if ret \<noteq> 0 then Inl Usage else Inr (False, optind + 1, s\<lparr>c_list := el, c_heap := h\<rparr>))
      else if r = ascii ''0'' then
        or_stop (arg argv optind) (\<lambda>a. Inr (False, optind + 1, s\<lparr>argv0 := a\<rparr>))
      else if r = ascii ''s'' then
        if optind \<ge> length argv then Inr (True, optind, s)
        else or_stop (arg argv optind) (\<lambda>a.
          let (n, rest) = strtoul (the a) in
          if n = 0 then Inl Usage else Inr (False, optind + 1, s\<lparr>stack_size := size_suffix n rest\<rparr>))
      else if r = ascii ''L'' then
        or_stop (arg argv optind) (\<lambda>a. Inr (False, optind + 1, s\<lparr>interp_prefix := a\<rparr>))
      else if r = ascii ''p'' then
        if optind \<ge> length argv then Inr (True, optind, s)
        else or_stop (arg argv optind) (\<lambda>a.
          let n = of_int (atoi (the a)) :: u32 in
          if n = 0 \<or> n AND (n - 1) \<noteq> 0 then Inl Exit_1
          else Inr (False, optind + 1, s\<lparr>host_page_size := n\<rparr>))
      else if r = ascii ''g'' then
        if optind \<ge> length argv then Inr (True, optind, s)
        else or_stop (arg argv optind) (\<lambda>a. Inr (False, optind + 1, s\<lparr>gdbstub_port := atoi (the a)\<rparr>))
      else if r = ascii ''r'' then
        or_stop (arg argv optind) (\<lambda>a. Inr (False, optind + 1, s\<lparr>uname_release := a\<rparr>))
      else if r = ascii ''cpu'' then
        or_stop (arg argv optind) (\<lambda>a.
          if a = None \<or> a = Some (ascii ''?'') then Inl Exit_1
          else Inr (False, optind + 1, s\<lparr>cpu_model := a\<rparr>))
      else if r = ascii ''drop-ld-preload'' then
        let (_, el, h) = envlist_unsetenv (c_list s) (Some (ascii ''LD_PRELOAD'')) (c_heap s) in
        Inr (False, optind, s\<lparr>c_list := el, c_heap := h\<rparr>)
      else if r = ascii ''singlestep'' then Inr (False, optind, s\<lparr>singlestep := True\<rparr>)
      else if r = ascii ''strace'' then Inr (False, optind, s\<lparr>do_strace := True\<rparr>)
      else if r = ascii ''prof'' then Inr (False, optind, s\<lparr>prof_run := True\<rparr>)
      else Inl Usage)"

lemma one_option_advances: "one_option fopen_ok argv r optind s = Inr (b, i, s') \<Longrightarrow> optind \<le> i"
  by (auto simp: one_option_def or_stop_def Let_def split: if_splits sum.splits prod.splits)

function option_loop :: "bool \<Rightarrow> cstring list \<Rightarrow> nat \<Rightarrow> cmd_line \<Rightarrow> stop + (nat \<times> cmd_line)" where
  "option_loop fopen_ok argv optind s =
     (if optind \<ge> length argv then Inr (optind, s)
      else
        let r = argv ! optind in
        if take 1 r \<noteq> ascii ''-'' then Inr (optind, s)
        else case one_option fopen_ok argv (drop 1 r) (optind + 1) s of
          Inl e \<Rightarrow> Inl e
        | Inr (left, i, s) \<Rightarrow> if left then Inr (i, s) else option_loop fopen_ok argv i s)"
  by pat_completeness auto
termination
  by (relation "measure (\<lambda>(_, argv, optind, _). length argv - optind)") (auto dest!: one_option_advances)

declare option_loop.simps [simp del]

section \<open>What the program is started with\<close>

text \<open>
  What \<^verbatim>\<open>main\<close> finds: the environment, the stack limit (or that it cannot be read), whether the log file can be
  opened, and the built-in prefix of the interpreter.
\<close>

record main_host =
  environ :: "cstring list"
  rlimit_stack :: "u64 option"
  fopen_ok :: bool
  default_prefix :: cstring

fun add_environ :: "cstring list \<Rightarrow> envlist option \<times> alloc_state \<Rightarrow> envlist option \<times> alloc_state" where
  "add_environ [] eh = eh"
| "add_environ (v # wrk) (el, h) = add_environ wrk (snd (envlist_setenv el (Some v) h))"

text \<open>A limit counts if it is a \<^verbatim>\<open>target_long\<close> and not the value for no limit.\<close>

definition initial_stack_size :: "u64 option \<Rightarrow> u32" where
  "initial_stack_size lim =
     (case lim of
        None \<Rightarrow> 8 * 1024 * 1024
      | Some cur \<Rightarrow> if cur \<noteq> - 1 \<and> cur = scast (ucast cur :: u32) then ucast cur else 8 * 1024 * 1024)"

definition initial_cmd_line :: "main_host \<Rightarrow> envlist option \<times> alloc_state \<Rightarrow> cmd_line" where
  "initial_cmd_line m = (\<lambda>(el, h).
     \<lparr>c_list = el, c_heap = h, loglevel = 0, logfile = False, log_append = False, argv0 = None,
      stack_size = initial_stack_size (rlimit_stack m), interp_prefix = Some (default_prefix m), host_page_size = 0,
      gdbstub_port = 0, uname_release = None, cpu_model = None, singlestep = False, do_strace = False, prof_run = False\<rparr>)"

definition parse_command_line :: "main_host \<Rightarrow> cstring list \<Rightarrow> alloc_state \<Rightarrow> stop + (nat \<times> cmd_line)" where
  "parse_command_line m argv h =
     (if length argv \<le> 1 then Inl Usage
      else case envlist_create h of
        (None, h) \<Rightarrow> Inl Exit_1
      | (Some e, h) \<Rightarrow>
          or_stop (option_loop (fopen_ok m) argv 1 (initial_cmd_line m (add_environ (environ m) (Some e, h)))) (\<lambda>(optind, s).
            if optind \<ge> length argv then Inl Usage else Inr (optind, s)))"




section \<open>Every command line\<close>

text \<open>
  What holds in the loop: a null pointer was stored only if there is nothing more to read, and the size of host pages
  is a power of two or not set.
\<close>

definition loop_inv :: "cstring list \<Rightarrow> nat \<Rightarrow> cmd_line \<Rightarrow> bool" where
  "loop_inv argv optind s \<longleftrightarrow> 1 \<le> optind \<and> optind \<le> length argv + 1 \<and> (optind \<le> length argv \<longrightarrow> interp_prefix s \<noteq> None) \<and>
     c_list s \<noteq> None \<and> (host_page_size s = 0 \<or> host_page_size s AND (host_page_size s - 1) = 0)"

lemma setenv_Some: "envlist_setenv (Some e) a h = (r, el, h') \<Longrightarrow> \<exists>e'. el = Some e'"
  by (auto simp: envlist_setenv_def Let_def remove_entry_def malloc_def split: option.splits if_splits)

lemma unsetenv_Some: "envlist_unsetenv (Some e) a h = (r, el, h') \<Longrightarrow> \<exists>e'. el = Some e'"
  by (auto simp: envlist_unsetenv_def Let_def remove_entry_def split: option.splits if_splits)

lemma arg_before [simp]: "i \<le> length argv \<Longrightarrow> arg argv i = Inr (if i < length argv then Some (argv ! i) else None)"
  by (simp add: arg_def)

lemma set_log_inv: "cpu_set_log ok flags s = Inr s' \<Longrightarrow> loop_inv argv i s' = loop_inv argv i s"
  by (auto simp: cpu_set_log_def Let_def loop_inv_def split: if_splits)

lemma set_log_stop: "cpu_set_log ok flags s \<noteq> Inl Beyond_Argv"
  by (simp add: cpu_set_log_def Let_def)

definition step_good :: "cstring list \<Rightarrow> stop + (bool \<times> nat \<times> cmd_line) \<Rightarrow> bool" where
  "step_good argv r \<longleftrightarrow> (case r of Inl e \<Rightarrow> e \<noteq> Beyond_Argv | Inr (_, i, s) \<Rightarrow> loop_inv argv i s)"

lemma step_good_if: "(b \<Longrightarrow> step_good argv x) \<Longrightarrow> (\<not> b \<Longrightarrow> step_good argv y) \<Longrightarrow> step_good argv (if b then x else y)"
  by simp

lemma step_good_Inr [simp]: "step_good argv (Inr (b, i, s)) = loop_inv argv i s"
  by (simp add: step_good_def)

lemma step_good_Inl [simp]: "step_good argv (Inl e) = (e \<noteq> Beyond_Argv)"
  by (simp add: step_good_def)

lemma step_good_set:
  assumes "loop_inv argv optind s" "optind \<le> length argv"
  shows "step_good argv (let (ret, el, h) = envlist_setenv (c_list s) a (c_heap s) in
           if ret \<noteq> 0 then Inl Usage else Inr (False, optind + 1, s\<lparr>c_list := el, c_heap := h\<rparr>))"
  using assms by (auto simp: loop_inv_def split: prod.split dest: setenv_Some)

lemma step_good_unset:
  assumes "loop_inv argv optind s" "optind \<le> length argv"
  shows "step_good argv (let (ret, el, h) = envlist_unsetenv (c_list s) a (c_heap s) in
           if ret \<noteq> 0 then Inl Usage else Inr (False, optind + 1, s\<lparr>c_list := el, c_heap := h\<rparr>))"
    "step_good argv (let (ret, el, h) = envlist_unsetenv (c_list s) a (c_heap s) in
       Inr (False, optind, s\<lparr>c_list := el, c_heap := h\<rparr>))"
  using assms by (auto simp: loop_inv_def split: prod.split dest: unsetenv_Some)

lemma step_good_log:
  assumes "loop_inv argv optind s" "optind \<le> length argv" "\<not> length argv \<le> optind"
  shows "step_good argv (let m = cpu_str_to_log_mask a in if m = 0 then Inl Exit_1
           else or_stop (cpu_set_log ok m s) (\<lambda>s. Inr (False, optind + 1, s)))"
  using assms by (auto simp: cpu_set_log_def Let_def loop_inv_def)

lemma one_option_inv:
  assumes "optind \<le> length argv" "loop_inv argv optind s"
  shows "step_good argv (one_option ok argv r optind s)"
  unfolding one_option_def arg_before [OF assms(1)] or_stop_simps
  using assms
  by (intro step_good_if step_good_set step_good_unset step_good_log)
    (auto simp: loop_inv_def Let_def split: prod.split)

lemma option_loop_inv:
  "loop_inv argv optind s \<Longrightarrow>
   (case option_loop ok argv optind s of Inl e \<Rightarrow> e \<noteq> Beyond_Argv | Inr (i, s') \<Rightarrow> loop_inv argv i s')"
proof (induction ok argv optind s rule: option_loop.induct)
  case (1 ok argv optind s)
  show ?case
  proof (cases "optind \<ge> length argv \<or> take 1 (argv ! optind) \<noteq> ascii ''-''")
    case True
    with "1.prems" show ?thesis by (subst option_loop.simps) (auto simp: Let_def)
  next
    case False
    have "loop_inv argv (optind + 1) s" using "1.prems" False by (auto simp: loop_inv_def)
    then have g: "step_good argv (one_option ok argv (drop 1 (argv ! optind)) (optind + 1) s)"
      using False by (intro one_option_inv) auto
    show ?thesis
    proof (cases "one_option ok argv (drop 1 (argv ! optind)) (optind + 1) s")
      case (Inl e)
      with False g show ?thesis by (subst option_loop.simps) (simp add: Let_def)
    next
      case (Inr t)
      then obtain l i s' where t: "one_option ok argv (drop 1 (argv ! optind)) (optind + 1) s = Inr (l, i, s')"
        by (cases t) auto
      with g have "loop_inv argv i s'" by simp
      with False t "1.IH" [OF _ refl _ t refl refl] show ?thesis
        by (subst option_loop.simps) (auto simp: Let_def)
    qed
  qed
qed

lemma add_environ_Some: "\<exists>e' h'. add_environ vs (Some e, h) = (Some e', h')"
proof (induction vs arbitrary: e h)
  case (Cons v vs)
  obtain r el h' where r: "envlist_setenv (Some e) (Some v) h = (r, el, h')" by (metis prod_cases3)
  with Cons.IH setenv_Some [OF r] show ?case by auto
qed simp

text \<open>
  C34: Every command line comes to an end: \<^verbatim>\<open>main\<close> never reads behind the null pointer that ends \<^verbatim>\<open>argv\<close>, and stops with
  the text on its usage or with the status 1, or it finds a program to start, which is one of the arguments.  Then the
  prefix for the interpreter is not a null pointer, there is a list of variables, and the size of host pages is
  unset or a power of two.
\<close>

theorem parse_command_line_ends:
  "case parse_command_line m argv h of
     Inl e \<Rightarrow> e = Usage \<or> e = Exit_1
   | Inr (optind, s) \<Rightarrow> 1 \<le> optind \<and> optind < length argv \<and> interp_prefix s \<noteq> None \<and> c_list s \<noteq> None \<and>
       (host_page_size s = 0 \<or> host_page_size s AND (host_page_size s - 1) = 0)"
proof (cases "length argv \<le> 1 \<or> fst (envlist_create h) = None")
  case True
  then show ?thesis by (auto simp: parse_command_line_def split: prod.split)
next
  case False
  then obtain e h' where c: "envlist_create h = (Some e, h')" by (cases "envlist_create h") auto
  let ?s = "initial_cmd_line m (add_environ (environ m) (Some e, h'))"
  have "loop_inv argv 1 ?s"
    using False add_environ_Some [of "environ m" e h'] by (auto simp: loop_inv_def initial_cmd_line_def)
  from option_loop_inv [OF this, of "fopen_ok m"] c False show ?thesis
    by (cases "option_loop (fopen_ok m) argv 1 ?s")
      (auto simp: parse_command_line_def loop_inv_def intro: stop.exhaust)
qed

section \<open>Well-formed command lines\<close>

text \<open>The options as a user means them, how they are written, and when they are acceptable.\<close>

datatype cmd_option =
    Opt_Log cstring | Opt_Set cstring | Opt_Unset cstring | Opt_Argv0 cstring | Opt_Stack cstring
  | Opt_Prefix cstring | Opt_Page cstring | Opt_Gdb cstring | Opt_Release cstring | Opt_Cpu cstring
  | Opt_Drop_Preload | Opt_Singlestep | Opt_Strace | Opt_Prof




text \<open>What it does to everything else.\<close>

fun opt_sets :: "cmd_option \<Rightarrow> cmd_line \<Rightarrow> cmd_line" where
  "opt_sets (Opt_Log a) s = s\<lparr>loglevel := cpu_str_to_log_mask a, logfile := True, log_append := \<not> logfile s \<or> log_append s\<rparr>"
| "opt_sets (Opt_Argv0 a) s = s\<lparr>argv0 := Some a\<rparr>"
| "opt_sets (Opt_Stack a) s = s\<lparr>stack_size := (case strtoul a of (n, r) \<Rightarrow> size_suffix n r)\<rparr>"
| "opt_sets (Opt_Prefix a) s = s\<lparr>interp_prefix := Some a\<rparr>"
| "opt_sets (Opt_Page a) s = s\<lparr>host_page_size := of_int (atoi a)\<rparr>"
| "opt_sets (Opt_Gdb a) s = s\<lparr>gdbstub_port := atoi a\<rparr>"
| "opt_sets (Opt_Release a) s = s\<lparr>uname_release := Some a\<rparr>"
| "opt_sets (Opt_Cpu a) s = s\<lparr>cpu_model := Some a\<rparr>"
| "opt_sets Opt_Singlestep s = s\<lparr>singlestep := True\<rparr>"
| "opt_sets Opt_Strace s = s\<lparr>do_strace := True\<rparr>"
| "opt_sets Opt_Prof s = s\<lparr>prof_run := True\<rparr>"
| "opt_sets _ s = s"

definition with_list :: "cmd_line \<Rightarrow> envlist option \<times> alloc_state \<Rightarrow> cmd_line" where
  "with_list s = (\<lambda>(el, h). s\<lparr>c_list := el, c_heap := h\<rparr>)"




lemma with_list_proj [simp]: "c_list (with_list s p) = fst p" "c_heap (with_list s p) = snd p"
  by (simp_all add: with_list_def case_prod_beta)

lemma opt_sets_list [simp]: "c_list (opt_sets o1 s) = c_list s" "c_heap (opt_sets o1 s) = c_heap s"
  by (cases o1; simp)+



















section \<open>The environment of the program\<close>














end
