(* ===== verification/Guest_Path.thy ===== *)
theory Guest_Path
  imports Envlist
begin

text \<open>
  Names of files below a prefix (\<^verbatim>\<open>src/path.c\<close>, with \<^verbatim>\<open>pstrcpy\<close> and \<^verbatim>\<open>pstrcat\<close> of \<^verbatim>\<open>src/cutils.c\<close>): a directory is read once
  into a tree of elements with links to their parents, and absolute names are looked up in it.  The loader opens the
  interpreter of a program through it.  Allocations are taken to succeed; the source does not test them.
\<close>

section \<open>Strings\<close>

abbreviation (input) "SLASH \<equiv> (0x2f :: u8)"

fun pstrcpy_loop :: "nat \<Rightarrow> cstring \<Rightarrow> cstring" where
  "pstrcpy_loop room [] = []"
| "pstrcpy_loop room (c # str) = (if room = 0 then [] else c # pstrcpy_loop (room - 1) str)"

definition pstrcpy :: "cstring \<Rightarrow> int \<Rightarrow> cstring \<Rightarrow> cstring" where
  "pstrcpy buf buf_size str = (if buf_size \<le> 0 then buf else pstrcpy_loop (nat buf_size - 1) str)"

text \<open>The copy begins at the end of the string in the buffer.\<close>

definition pstrcat :: "cstring \<Rightarrow> int \<Rightarrow> cstring \<Rightarrow> cstring" where
  "pstrcat buf buf_size s =
     (if int (length buf) < buf_size then buf @ pstrcpy [] (buf_size - int (length buf)) s else buf)"

text \<open>The first \<open>n\<close> characters of the one string are the other.\<close>

fun strneq :: "cstring \<Rightarrow> nat \<Rightarrow> cstring \<Rightarrow> bool" where
  "strneq s1 0 s2 \<longleftrightarrow> s2 = []"
| "strneq (a # s1) (Suc n) (b # s2) \<longleftrightarrow> a = b \<and> strneq s1 n s2"
| "strneq _ (Suc n) _ \<longleftrightarrow> False"

section \<open>The tree\<close>

datatype pathelem = Pathelem (pe_name: cstring) (pathname: cstring) (entries: "pathelem list")

text \<open>
  The file system: the names in a directory as \<^verbatim>\<open>readdir\<close> returns them, for the names of files that
  \<^verbatim>\<open>opendir\<close> can open.
\<close>

type_synonym dirs = "cstring \<Rightarrow> cstring list option"

definition new_entry :: "cstring \<Rightarrow> cstring \<Rightarrow> pathelem" where
  "new_entry root name = Pathelem name (root @ SLASH # name) []"

text \<open>The fuel bounds the depth of the directories; without enough there is no result.\<close>

fun add_dir_maybe :: "dirs \<Rightarrow> nat \<Rightarrow> pathelem \<Rightarrow> pathelem option"
  and add_names :: "dirs \<Rightarrow> nat \<Rightarrow> cstring list \<Rightarrow> pathelem \<Rightarrow> pathelem option"
  and add_entry :: "dirs \<Rightarrow> nat \<Rightarrow> pathelem \<Rightarrow> cstring \<Rightarrow> pathelem option" where
  "add_dir_maybe fs 0 path = None"
| "add_dir_maybe fs (Suc fuel) path =
     (case fs (pathname path) of None \<Rightarrow> Some path | Some names \<Rightarrow> add_names fs fuel names path)"
| "add_names fs fuel [] path = Some path"
| "add_names fs fuel (d # names) path =
     (if d \<noteq> ascii ''.'' \<and> d \<noteq> ascii ''..''
      then Option.bind (add_entry fs fuel path d) (add_names fs fuel names)
      else add_names fs fuel names path)"
| "add_entry fs fuel root name =
     Option.bind (add_dir_maybe fs fuel (new_entry (pathname root) name))
       (\<lambda>e. Some (Pathelem (pe_name root) (pathname root) (entries root @ [e])))"

text \<open>
  An element is addressed by its place: the indices of the entries on the way from the root.  The links to the parents
  are a map from places to places.
\<close>

type_synonym place = "nat list"

fun elem_at :: "pathelem \<Rightarrow> place \<Rightarrow> pathelem" where
  "elem_at t [] = t"
| "elem_at t (i # p) = elem_at (entries t ! i) p"

fun set_parents :: "pathelem \<Rightarrow> place \<Rightarrow> place \<Rightarrow> (place \<Rightarrow> place) \<Rightarrow> place \<Rightarrow> place"
  and set_children :: "pathelem list \<Rightarrow> nat \<Rightarrow> place \<Rightarrow> (place \<Rightarrow> place) \<Rightarrow> place \<Rightarrow> place" where
  "set_parents (Pathelem n q es) child parent m = set_children es 0 child (m(child := parent))"
| "set_children [] i child m = m"
| "set_children (e # es) i child m = set_children es (Suc i) child (set_parents e (child @ [i]) child m)"

text \<open>The loop over the entries.\<close>

fun find_child :: "cstring \<Rightarrow> nat \<Rightarrow> pathelem list \<Rightarrow> nat option" where
  "find_child name namelen [] = None"
| "find_child name namelen (e # es) =
     (if strneq name namelen (pe_name e) then Some 0 else map_option Suc (find_child name namelen es))"

function follow_path :: "pathelem \<Rightarrow> (place \<Rightarrow> place) \<Rightarrow> place \<Rightarrow> cstring \<Rightarrow> cstring option" where
  "follow_path base parent cursor name =
     (let name = dropWhile (\<lambda>c. c = SLASH) name; namelen = length (takeWhile (\<lambda>c. c \<noteq> SLASH) name) in
      if namelen = 0 then Some (pathname (elem_at base cursor))
      else if strneq name namelen (ascii ''..'') then follow_path base parent (parent cursor) (drop namelen name)
      else if strneq name namelen (ascii ''.'') then follow_path base parent cursor (drop namelen name)
      else case find_child name namelen (entries (elem_at base cursor)) of
        Some i \<Rightarrow> follow_path base parent (cursor @ [i]) (drop namelen name)
      | None \<Rightarrow> None)"
  by pat_completeness auto

lemma drop_component_shorter:
  fixes name :: cstring
  assumes "s = dropWhile (\<lambda>c. c = SLASH) name" "n = length (takeWhile (\<lambda>c. c \<noteq> SLASH) s)" "n \<noteq> 0"
  shows "length (drop n s) < length name"
proof -
  have "length s \<le> length name" using assms(1) by (simp add: length_dropWhile_le)
  moreover have "n \<le> length s" using assms(2) by (simp add: length_takeWhile_le)
  ultimately show ?thesis using assms(3) by simp
qed

termination follow_path
  by (relation "measure (\<lambda>(_, _, _, name). length name)", rule wf_measure)
    (simp only: in_measure case_prod_conv, rule drop_component_shorter [OF refl refl], assumption)+

declare follow_path.simps [simp del]

text \<open>
  Reading the directory named by the prefix, relative names from the working directory.  Nothing is found
  through a prefix that is empty or the root, or a directory without entries.
\<close>

definition init_paths :: "dirs \<Rightarrow> cstring option \<Rightarrow> nat \<Rightarrow> cstring \<Rightarrow> (pathelem \<times> (place \<Rightarrow> place)) option option outcome" where
  "init_paths fs cwd fuel pref =
     (if pref = [] \<or> pref = [SLASH] then Inr (Some None)
      else
        and_then
          (if hd pref \<noteq> SLASH
           then (case cwd of
                   None \<Rightarrow> Inl Aborted
                 | Some cwd \<Rightarrow> Inr (pstrcat (pstrcat (pstrcpy [] 4096 cwd) 4096 [SLASH]) 4096 pref))
           else Inr (pstrcpy [] 4096 (tl pref))) (\<lambda>pref_buf.
        case add_dir_maybe fs fuel (new_entry [] pref_buf) of
          None \<Rightarrow> Inr None
        | Some base \<Rightarrow>
            if entries base = [] then Inr (Some None)
            else Inr (Some (Some (base, set_parents base [] [] (\<lambda>_. []))))))"

definition path :: "(pathelem \<times> (place \<Rightarrow> place)) option \<Rightarrow> cstring \<Rightarrow> cstring" where
  "path base name =
     (case base of
        None \<Rightarrow> name
      | Some (t, parent) \<Rightarrow>
          if take 1 name \<noteq> [SLASH] then name
          else case follow_path t parent [] name of None \<Rightarrow> name | Some p \<Rightarrow> p)"

section \<open>What the tree holds\<close>

text \<open>
  Below an element are the files of its directory, in the order they were read, each with its own name
  appended to the name of the directory.
\<close>

definition listing :: "dirs \<Rightarrow> cstring \<Rightarrow> cstring list" where
  "listing fs q = (case fs q of None \<Rightarrow> [] | Some names \<Rightarrow> filter (\<lambda>d. d \<noteq> ascii ''.'' \<and> d \<noteq> ascii ''..'') names)"

fun reads :: "dirs \<Rightarrow> pathelem \<Rightarrow> bool" where
  "reads fs (Pathelem n q es) \<longleftrightarrow> map pe_name es = listing fs q \<and>
     (\<forall>e\<in>set es. pathname e = q @ SLASH # pe_name e \<and> reads fs e)"

lemma add_reads:
  "add_dir_maybe fs fuel p = Some t \<Longrightarrow> entries p = [] \<Longrightarrow> reads fs t \<and> pe_name t = pe_name p \<and> pathname t = pathname p"
  "add_names fs fuel names p = Some t \<Longrightarrow> \<exists>es. entries t = entries p @ es \<and> pe_name t = pe_name p \<and> pathname t = pathname p \<and>
     map pe_name es = filter (\<lambda>d. d \<noteq> ascii ''.'' \<and> d \<noteq> ascii ''..'') names \<and>
     (\<forall>e\<in>set es. pathname e = pathname p @ SLASH # pe_name e \<and> reads fs e)"
  "add_entry fs fuel p d = Some t \<Longrightarrow> \<exists>e. entries t = entries p @ [e] \<and> pe_name t = pe_name p \<and> pathname t = pathname p \<and>
     pe_name e = d \<and> pathname e = pathname p @ SLASH # d \<and> reads fs e"
proof (induction fs fuel p and fs fuel names p and fs fuel p d arbitrary: t and t and t
    rule: add_dir_maybe_add_names_add_entry.induct)
  case (2 fs fuel path)
  show ?case
  proof (cases "fs (pathname path)")
    case None
    with 2 show ?thesis by (cases path) (auto simp: listing_def)
  next
    case (Some names)
    with "2.IH" [OF Some] "2.prems" show ?thesis
      by (cases t) (fastforce simp: listing_def)
  qed
next
  case (4 fs fuel d names path)
  show ?case
  proof (cases "d \<noteq> ascii ''.'' \<and> d \<noteq> ascii ''..''")
    case True
    with "4.prems" obtain u where u: "add_entry fs fuel path d = Some u" "add_names fs fuel names u = Some t"
      by (auto simp: bind_eq_Some_conv)
    from "4.IH"(1) [OF True u(1)] obtain e where e: "entries u = entries path @ [e]" "pe_name u = pe_name path"
      "pathname u = pathname path" "pe_name e = d" "pathname e = pathname path @ SLASH # d" "reads fs e" by auto
    from "4.IH"(2) [OF True u] obtain es where "entries t = entries u @ es \<and> pe_name t = pe_name u \<and> pathname t = pathname u \<and>
       map pe_name es = filter (\<lambda>d. d \<noteq> ascii ''.'' \<and> d \<noteq> ascii ''..'') names \<and>
       (\<forall>e\<in>set es. pathname e = pathname u @ SLASH # pe_name e \<and> reads fs e)" by blast
    with e True show ?thesis by (intro exI [of _ "e # es"]) auto
  next
    case False
    with "4.IH"(3) "4.prems" show ?thesis by auto
  qed
next
  case (5 fs fuel root name)
  then show ?case by (auto simp: bind_eq_Some_conv new_entry_def)
qed auto

lemma reads_entries:
  "reads fs t \<longleftrightarrow> map pe_name (entries t) = listing fs (pathname t) \<and>
     (\<forall>e\<in>set (entries t). pathname e = pathname t @ SLASH # pe_name e \<and> reads fs e)"
  by (cases t) simp

text \<open>
  The directories are read to the end if their depth is bounded: \<open>rank\<close> decreases from a directory to those in it, and
  the fuel is more than the rank.
\<close>

definition well_founded_dirs :: "dirs \<Rightarrow> (cstring \<Rightarrow> nat) \<Rightarrow> bool" where
  "well_founded_dirs fs rank \<longleftrightarrow>
     (\<forall>q d. d \<in> set (listing fs q) \<longrightarrow> fs (q @ SLASH # d) \<noteq> None \<longrightarrow> rank (q @ SLASH # d) < rank q)"

lemma add_returns:
  "well_founded_dirs fs rank \<Longrightarrow> fs (pathname p) = None \<and> 0 < fuel \<or> rank (pathname p) + 1 < fuel \<Longrightarrow>
     \<exists>t. add_dir_maybe fs fuel p = Some t"
  "well_founded_dirs fs rank \<Longrightarrow> set (filter (\<lambda>d. d \<noteq> ascii ''.'' \<and> d \<noteq> ascii ''..'') names) \<subseteq> set (listing fs (pathname p)) \<Longrightarrow>
     rank (pathname p) < fuel \<Longrightarrow> \<exists>t. add_names fs fuel names p = Some t"
  "well_founded_dirs fs rank \<Longrightarrow> d \<in> set (listing fs (pathname p)) \<Longrightarrow> rank (pathname p) < fuel \<Longrightarrow>
     \<exists>t. add_entry fs fuel p d = Some t"
proof (induction fs fuel p and fs fuel names p and fs fuel p d
    rule: add_dir_maybe_add_names_add_entry.induct)
  case (2 fs fuel path)
  then show ?case by (cases "fs (pathname path)") (auto simp: listing_def)
next
  case (4 fs fuel d names path)
  show ?case
  proof (cases "d \<noteq> ascii ''.'' \<and> d \<noteq> ascii ''..''")
    case True
    with 4 obtain u where u: "add_entry fs fuel path d = Some u" by auto
    have "pathname u = pathname path" using add_reads(3) [OF u] by auto
    with "4.IH"(2) [OF True u] "4.prems" True u show ?thesis by simp
  next
    case False
    with 4 show ?thesis by auto
  qed
next
  case (5 fs fuel root name)
  let ?e = "new_entry (pathname root) name"
  have "fs (pathname ?e) \<noteq> None \<Longrightarrow> rank (pathname ?e) < rank (pathname root)"
    using "5.prems"(1,2) unfolding well_founded_dirs_def new_entry_def pathelem.sel by blast
  then have "fs (pathname ?e) = None \<and> 0 < fuel \<or> rank (pathname ?e) + 1 < fuel"
    using "5.prems"(3) by linarith
  with "5.IH" "5.prems"(1) show ?case by auto
qed auto

section \<open>Places\<close>

fun valid :: "pathelem \<Rightarrow> place \<Rightarrow> bool" where
  "valid t [] \<longleftrightarrow> True"
| "valid t (i # p) \<longleftrightarrow> i < length (entries t) \<and> valid (entries t ! i) p"

fun names_at :: "pathelem \<Rightarrow> place \<Rightarrow> cstring list" where
  "names_at t [] = []"
| "names_at t (i # p) = pe_name (entries t ! i) # names_at (entries t ! i) p"

text \<open>A name below a directory.\<close>

definition below :: "cstring \<Rightarrow> cstring list \<Rightarrow> cstring" where
  "below root ns = root @ concat (map (\<lambda>n. SLASH # n) ns)"

lemma elem_at_snoc [simp]: "elem_at t (p @ [i]) = entries (elem_at t p) ! i"
  by (induction t p rule: elem_at.induct) auto

lemma valid_snoc [simp]: "valid t (p @ [i]) \<longleftrightarrow> valid t p \<and> i < length (entries (elem_at t p))"
  by (induction t p rule: elem_at.induct) auto

lemma names_at_snoc [simp]: "names_at t (p @ [i]) = names_at t p @ [pe_name (entries (elem_at t p) ! i)]"
  by (induction t p rule: elem_at.induct) auto

lemma valid_butlast: "valid t p \<Longrightarrow> valid t (butlast p)"
  by (cases p rule: rev_cases) auto

lemma names_at_butlast: "names_at t (butlast p) = butlast (names_at t p)"
  by (cases p rule: rev_cases) auto

lemma reads_at:
  "reads fs t \<Longrightarrow> valid t p \<Longrightarrow> reads fs (elem_at t p) \<and> pathname (elem_at t p) = below (pathname t) (names_at t p)"
proof (induction p rule: rev_induct)
  case (snoc i p)
  then have r: "reads fs (elem_at t p)" "pathname (elem_at t p) = below (pathname t) (names_at t p)"
    and i: "i < length (entries (elem_at t p))" by auto
  have "entries (elem_at t p) ! i \<in> set (entries (elem_at t p))" using i by simp
  with r show ?case by (subst (asm) reads_entries) (auto simp: below_def)
qed (simp add: below_def)

text \<open>The links lead to the parents, from the root to itself.\<close>

lemma set_parents_at:
  "set_parents t child parent m q =
     (if q = child then parent
      else if \<exists>p. p \<noteq> [] \<and> valid t p \<and> q = child @ p then butlast q else m q)"
  "set_children es k child m q =
     (if \<exists>i p. k \<le> i \<and> i < k + length es \<and> valid (es ! (i - k)) p \<and> q = child @ i # p then butlast q else m q)"
proof (induction t child parent m and es k child m arbitrary: q and q rule: set_parents_set_children.induct)
  case (1 n s es child parent m)
  have "(\<exists>i p. 0 \<le> i \<and> i < 0 + length es \<and> valid (es ! (i - 0)) p \<and> q = child @ i # p) \<longleftrightarrow>
        (\<exists>p. p \<noteq> [] \<and> valid (Pathelem n s es) p \<and> q = child @ p)"
    by (metis valid.elims(2) valid.simps(2) list.distinct(1) pathelem.sel(3) add_0 diff_zero le0)
  then show ?case
    by (simp only: set_parents.simps "1.IH" fun_upd_apply) auto
next
  case (3 e es k child m)
  have split: "(\<exists>i p. k \<le> i \<and> i < k + length (e # es) \<and> valid ((e # es) ! (i - k)) p \<and> q = child @ i # p) \<longleftrightarrow>
      (\<exists>i p. Suc k \<le> i \<and> i < Suc k + length es \<and> valid (es ! (i - Suc k)) p \<and> q = child @ i # p) \<or>
      (\<exists>p. valid e p \<and> q = child @ k # p)" (is "?l \<longleftrightarrow> ?r \<or> ?e")
  proof
    assume ?l
    then obtain i p where *: "k \<le> i" "i < k + length (e # es)" "valid ((e # es) ! (i - k)) p" "q = child @ i # p" by blast
    show "?r \<or> ?e"
    proof (cases "i = k")
      case False
      then have "Suc k \<le> i" "(e # es) ! (i - k) = es ! (i - Suc k)" using *(1) by (auto simp: nth_Cons')
      with * show ?thesis by auto
    qed (use * in auto)
  next
    assume "?r \<or> ?e"
    then show ?l
    proof
      assume ?r
      then obtain i p where "Suc k \<le> i" "i < Suc k + length es" "valid (es ! (i - Suc k)) p" "q = child @ i # p" by blast
      then show ?l by (intro exI [of _ i] exI [of _ p]) (auto simp: nth_Cons')
    next
      assume ?e
      then show ?l by (auto intro: exI [of _ k])
    qed
  qed
  have first: "(q = child @ [k] \<or> (\<exists>p. p \<noteq> [] \<and> valid e p \<and> q = (child @ [k]) @ p)) \<longleftrightarrow> (\<exists>p. valid e p \<and> q = child @ k # p)"
    by (metis append.assoc append_Cons append_Nil valid.simps(1))
  show ?case
    unfolding split set_children.simps "3.IH" using first by auto
qed auto

lemma parent_of: "valid t q \<Longrightarrow> set_parents t [] [] m q = butlast q"
  unfolding set_parents_at by auto

section \<open>Looking up a name\<close>

text \<open>
  The reference: the parts of a name between its slashes, and the walk along them through the directories as the file system
  lists them.  The walk keeps the names from the prefix on; two dots remove the last, and stay at the prefix.
\<close>

function components :: "cstring \<Rightarrow> cstring list" where
  "components name =
     (let name = dropWhile (\<lambda>c. c = SLASH) name; n = length (takeWhile (\<lambda>c. c \<noteq> SLASH) name) in
      if n = 0 then [] else take n name # components (drop n name))"
  by pat_completeness auto

termination components
  by (relation "measure length", rule wf_measure)
    (simp only: in_measure, rule drop_component_shorter [OF refl refl], assumption)

declare components.simps [simp del]

fun fs_walk :: "dirs \<Rightarrow> cstring \<Rightarrow> cstring list \<Rightarrow> cstring list \<Rightarrow> cstring list option" where
  "fs_walk fs root ns [] = Some ns"
| "fs_walk fs root ns (c # cs) =
     (if c = ascii ''..'' then fs_walk fs root (butlast ns) cs
      else if c = ascii ''.'' then fs_walk fs root ns cs
      else if c \<in> set (listing fs (below root ns)) then fs_walk fs root (ns @ [c]) cs
      else None)"

lemma strneq_take: "n \<le> length s1 \<Longrightarrow> strneq s1 n s2 \<longleftrightarrow> take n s1 = s2"
  by (induction s1 n s2 rule: strneq.induct) auto

lemma find_child_None: "find_child name n es = None \<longleftrightarrow> (\<forall>e\<in>set es. \<not> strneq name n (pe_name e))"
  by (induction es) auto

lemma find_child_Some: "find_child name n es = Some i \<Longrightarrow> i < length es \<and> strneq name n (pe_name (es ! i))"
  by (induction es arbitrary: i) (auto split: if_splits)

lemma follow_path_walks:
  assumes "reads fs t"
  shows "valid t cursor \<Longrightarrow> follow_path t (set_parents t [] [] m) cursor name =
    map_option (below (pathname t)) (fs_walk fs (pathname t) (names_at t cursor) (components name))"
proof (induction name arbitrary: cursor rule: length_induct)
  case (1 name)
  let ?p = "set_parents t [] [] m" and ?s = "dropWhile (\<lambda>c. c = SLASH) name"
  let ?n = "length (takeWhile (\<lambda>c. c \<noteq> SLASH) ?s)"
  let ?w = "\<lambda>ns cs. map_option (below (pathname t)) (fs_walk fs (pathname t) ns cs)"
  have at: "reads fs (elem_at t cursor)" "pathname (elem_at t cursor) = below (pathname t) (names_at t cursor)"
    using reads_at [OF assms "1.prems"] by auto
  show ?case
  proof (cases "?n = 0")
    case True
    then show ?thesis by (simp only: follow_path.simps [of _ _ _ name] components.simps [of name] Let_def) (simp add: at)
  next
    case False
    note shorter = drop_component_shorter [OF refl refl False]
    have IH: "follow_path t ?p q (drop ?n ?s) = ?w (names_at t q) (components (drop ?n ?s))" if "valid t q" for q
      using "1.IH" shorter that by blast
    have eq: "strneq ?s ?n x \<longleftrightarrow> take ?n ?s = x" for x
      by (rule strneq_take) (simp add: length_takeWhile_le)
    have c: "components name = take ?n ?s # components (drop ?n ?s)"
      by (subst components.simps) (simp only: Let_def False if_False)
    have l: "map pe_name (entries (elem_at t cursor)) = listing fs (below (pathname t) (names_at t cursor))"
      using at by (metis reads_entries)
    have f: "follow_path t ?p cursor name =
        (if take ?n ?s = ascii ''..'' then follow_path t ?p (?p cursor) (drop ?n ?s)
         else if take ?n ?s = ascii ''.'' then follow_path t ?p cursor (drop ?n ?s)
         else case find_child ?s ?n (entries (elem_at t cursor)) of
           Some i \<Rightarrow> follow_path t ?p (cursor @ [i]) (drop ?n ?s) | None \<Rightarrow> None)"
      by (subst follow_path.simps) (simp only: Let_def False if_False eq)
    have dots: "?thesis" if "take ?n ?s = ascii ''..'' \<or> take ?n ?s = ascii ''.''"
      using that unfolding f c
      by (auto simp: IH "1.prems" valid_butlast parent_of names_at_butlast simp del: drop_append)
    have other: "?thesis" if "take ?n ?s \<noteq> ascii ''..''" "take ?n ?s \<noteq> ascii ''.''"
    proof (cases "find_child ?s ?n (entries (elem_at t cursor))")
      case None
      then have "take ?n ?s \<notin> set (listing fs (below (pathname t) (names_at t cursor)))"
        unfolding l [symmetric] by (auto simp: find_child_None eq)
      with None that show ?thesis unfolding f c by simp
    next
      case (Some i)
      then have i: "i < length (entries (elem_at t cursor))" "take ?n ?s = pe_name (entries (elem_at t cursor) ! i)"
        using find_child_Some [OF Some] by (auto simp: eq)
      then have "take ?n ?s \<in> set (listing fs (below (pathname t) (names_at t cursor)))"
        unfolding l [symmetric] by simp
      moreover have "valid t (cursor @ [i])" "names_at t (cursor @ [i]) = names_at t cursor @ [take ?n ?s]"
        using i "1.prems" by auto
      ultimately show ?thesis unfolding f c using Some that IH [of "cursor @ [i]"] by simp
    qed
    show ?thesis using dots other by blast
  qed
qed

lemma pstrcpy_loop_take: "pstrcpy_loop room s = take room s"
  by (induction s arbitrary: room) (auto simp: take_Cons')

lemma pstrcpy_take: "pstrcpy [] 4096 s = take 4095 s"
  by (simp add: pstrcpy_def pstrcpy_loop_take)

lemma pstrcat_take:
  assumes "length b \<le> 4095"
  shows "pstrcat b 4096 s = take 4095 (b @ s)"
proof -
  have "nat (4096 - int (length b)) - 1 = 4095 - length b" using assms by simp
  with assms show ?thesis by (simp add: pstrcat_def pstrcpy_def pstrcpy_loop_take)
qed

lemma take_take_append: "take n (take n a @ b) = take n (a @ b)"
  by (simp add: min_def)

text \<open>The directory that is read.\<close>

definition prefix_root :: "cstring \<Rightarrow> cstring \<Rightarrow> cstring" where
  "prefix_root cwd pref = SLASH # take 4095 (if hd pref = SLASH then tl pref else cwd @ SLASH # pref)"

lemma init_paths_run:
  assumes "pref \<noteq> []" "pref \<noteq> [SLASH]"
  shows "init_paths fs (Some cwd) fuel pref =
     (case add_dir_maybe fs fuel (Pathelem (take 4095 (if hd pref = SLASH then tl pref else cwd @ SLASH # pref)) (prefix_root cwd pref) []) of
        None \<Rightarrow> Inr None
      | Some base \<Rightarrow>
          if entries base = [] then Inr (Some None)
          else Inr (Some (Some (base, set_parents base [] [] (\<lambda>_. [])))))"
  using assms
  by (auto simp: init_paths_def pstrcpy_take pstrcat_take take_take_append new_entry_def prefix_root_def simp del: take_append split: option.split)

text \<open>
  C36: What a name is turned into.  If the directories below the prefix have a bounded depth, reading them ends, and then
  an absolute name is looked up as a walk through the directories as they were read would do it: empty parts and
  single dots are passed over, two dots go back but never above the prefix, every other part has to be listed.  If the walk
  succeeds the result is the prefix followed by the names the walk has kept, a file below the prefix; otherwise, and for
  relative names, and where there is nothing below the prefix, it is the name itself.
\<close>

theorem path_resolves:
  assumes "well_founded_dirs fs rank" and "rank (prefix_root cwd pref) + 1 < fuel"
    and "pref \<noteq> []" and "pref \<noteq> [SLASH]"
  shows "\<exists>base. init_paths fs (Some cwd) fuel pref = Inr (Some base) \<and>
    (\<forall>name. path base name =
       (if take 1 name = [SLASH] \<and> listing fs (prefix_root cwd pref) \<noteq> []
        then (case fs_walk fs (prefix_root cwd pref) [] (components name) of None \<Rightarrow> name | Some ns \<Rightarrow> below (prefix_root cwd pref) ns)
        else name))"
proof -
  let ?e = "Pathelem (take 4095 (if hd pref = SLASH then tl pref else cwd @ SLASH # pref)) (prefix_root cwd pref) []"
  obtain t where t: "add_dir_maybe fs fuel ?e = Some t"
    using add_returns(1) [OF assms(1), of ?e fuel] assms(2) by auto
  have r: "reads fs t" "pathname t = prefix_root cwd pref" using add_reads(1) [OF t] by auto
  then have "entries t = [] \<longleftrightarrow> listing fs (prefix_root cwd pref) = []"
    by (metis reads_entries list.map_disc_iff)
  moreover have "follow_path t (set_parents t [] [] m) [] name =
      map_option (below (prefix_root cwd pref)) (fs_walk fs (prefix_root cwd pref) [] (components name))" for m name
    using follow_path_walks [OF r(1), of "[]" m name] r(2) by simp
  ultimately show ?thesis
    unfolding init_paths_run [OF assms(3,4)] t by (auto simp: path_def split: option.split)
qed

definition demo_dirs :: dirs where
  "demo_dirs = [ascii ''/usr'' \<mapsto> [ascii ''.'', ascii ''lib''], ascii ''/usr/lib'' \<mapsto> [ascii ''ld.so'', ascii ''..'']]"

theorem path_resolves_witness:
  "\<exists>base. init_paths demo_dirs (Some (ascii ''/'')) 5 (ascii ''/usr'') = Inr (Some base) \<and>
     path base (ascii ''/../lib/./ld.so'') = ascii ''/usr/lib/ld.so'' \<and> path base (ascii ''/etc'') = ascii ''/etc''"
proof -
  have root: "prefix_root (ascii ''/'') (ascii ''/usr'') = ascii ''/usr''" by (simp add: prefix_root_def ascii_def)
  have walks: "fs_walk demo_dirs (ascii ''/usr'') [] (components (ascii ''/../lib/./ld.so'')) = Some [ascii ''lib'', ascii ''ld.so'']"
    "fs_walk demo_dirs (ascii ''/usr'') [] (components (ascii ''/etc'')) = None"
    by (code_simp, code_simp)
  have l: "listing demo_dirs (ascii ''/usr'') \<noteq> []" by code_simp
  have "well_founded_dirs demo_dirs (\<lambda>q. if q = ascii ''/usr'' then 1 else 0)"
    by (auto simp: well_founded_dirs_def listing_def demo_dirs_def ascii_def split: if_splits)
  from path_resolves [OF this, where cwd = "ascii ''/''" and pref = "ascii ''/usr''" and fuel = 5] obtain base where
    i: "init_paths demo_dirs (Some (ascii ''/'')) 5 (ascii ''/usr'') = Inr (Some base)" and
    p: "path base name = (if take 1 name = [SLASH] \<and> listing demo_dirs (ascii ''/usr'') \<noteq> []
        then (case fs_walk demo_dirs (ascii ''/usr'') [] (components name) of None \<Rightarrow> name | Some ns \<Rightarrow> below (ascii ''/usr'') ns)
        else name)" for name
    unfolding root by (auto simp: ascii_def)
  show ?thesis
    using i p [of "ascii ''/../lib/./ld.so''"] p [of "ascii ''/etc''"] walks l
    by (intro exI [of _ base]) (simp add: below_def ascii_def)
qed

end
