(* ===== verification/Thunk.thy ===== *)
theory Thunk
  imports Prelude
begin

text \<open>
  Data types of the guest described at run time (\<^verbatim>\<open>src/thunk.c\<close>, \<^verbatim>\<open>src/thunk.h\<close>): descriptions of types as sequences of codes,
  the layout of structures for guest and host, the conversion of a value in memory from one layout to the
  other, and tables that translate bit masks.  Longs and pointers have 32 bits on both sides.
\<close>

unbundle bit_operations_syntax

section \<open>Descriptions of types\<close>

abbreviation (input) "TYPE_NULL \<equiv> (0 :: nat)"
abbreviation (input) "TYPE_CHAR \<equiv> (1 :: nat)"
abbreviation (input) "TYPE_SHORT \<equiv> (2 :: nat)"
abbreviation (input) "TYPE_INT \<equiv> (3 :: nat)"
abbreviation (input) "TYPE_LONG \<equiv> (4 :: nat)"
abbreviation (input) "TYPE_ULONG \<equiv> (5 :: nat)"
abbreviation (input) "TYPE_PTRVOID \<equiv> (6 :: nat)"
abbreviation (input) "TYPE_LONGLONG \<equiv> (7 :: nat)"
abbreviation (input) "TYPE_ULONGLONG \<equiv> (8 :: nat)"
abbreviation (input) "TYPE_PTR \<equiv> (9 :: nat)"
abbreviation (input) "TYPE_ARRAY \<equiv> (10 :: nat)"
abbreviation (input) "TYPE_STRUCT \<equiv> (11 :: nat)"
abbreviation (input) "MAX_STRUCTS \<equiv> (128 :: nat)"

text \<open>
  A pointer into a description is what is left of it.  The description of one type is passed over; the result is
  null for a code that is none.
\<close>

type_synonym argtype = "nat list"

fun thunk_type_next :: "argtype \<Rightarrow> argtype option outcome" where
  "thunk_type_next [] = Inl Out_Of_Bounds"
| "thunk_type_next (type # p) =
     (if TYPE_CHAR \<le> type \<and> type \<le> TYPE_ULONGLONG then Inr (Some p)
      else if type = TYPE_PTR then thunk_type_next p
      else if type = TYPE_ARRAY then thunk_type_next (drop 1 p)
      else if type = TYPE_STRUCT then Inr (Some (drop 1 p))
      else Inr None)"

text \<open>
  A registered structure: its fields, and for the guest (\<open>False\<close>) and the host (\<open>True\<close>) the offsets of the fields, the
  size and the alignment; or functions that convert it.
\<close>

record struct_entry =
  field_types :: argtype
  nb_fields :: nat
  field_offsets :: "bool \<Rightarrow> int list"
  convert :: "(bool \<Rightarrow> u32 \<Rightarrow> u32 \<Rightarrow> memory \<Rightarrow> memory) option"
  se_size :: "bool \<Rightarrow> int"
  se_align :: "bool \<Rightarrow> int"

text \<open>The table begins as zeros.\<close>

definition no_entry :: struct_entry where
  "no_entry = \<lparr>field_types = [], nb_fields = 0, field_offsets = (\<lambda>_. []), convert = None, se_size = (\<lambda>_. 0), se_align = (\<lambda>_. 0)\<rparr>"

type_synonym structs = "nat \<Rightarrow> struct_entry"

definition struct_at :: "structs \<Rightarrow> argtype \<Rightarrow> struct_entry outcome" where
  "struct_at tab p = (case p of [] \<Rightarrow> Inl Out_Of_Bounds | sid # _ \<Rightarrow> if sid < MAX_STRUCTS then Inr (tab sid) else Inl Out_Of_Bounds)"

fun scalar_size :: "nat \<Rightarrow> nat" where
  "scalar_size type =
     (if type = TYPE_CHAR then 1 else if type = TYPE_SHORT then 2 else if type = TYPE_INT then 4
      else if type = TYPE_LONGLONG \<or> type = TYPE_ULONGLONG then 8 else 4)"

declare scalar_size.simps [simp del]

fun thunk_type_size :: "structs \<Rightarrow> argtype \<Rightarrow> bool \<Rightarrow> int outcome" where
  "thunk_type_size tab [] is_host = Inl Out_Of_Bounds"
| "thunk_type_size tab (type # p) is_host =
     (if TYPE_CHAR \<le> type \<and> type \<le> TYPE_PTR then Inr (int (scalar_size type))
      else if type = TYPE_ARRAY then
        (case p of
           [] \<Rightarrow> Inl Out_Of_Bounds
         | len # p \<Rightarrow> and_then (thunk_type_size tab p is_host) (\<lambda>n. Inr (int len * n)))
      else if type = TYPE_STRUCT then and_then (struct_at tab p) (\<lambda>se. Inr (se_size se is_host))
      else Inr (- 1))"

fun thunk_type_align :: "structs \<Rightarrow> argtype \<Rightarrow> bool \<Rightarrow> int outcome" where
  "thunk_type_align tab [] is_host = Inl Out_Of_Bounds"
| "thunk_type_align tab (type # p) is_host =
     (if TYPE_CHAR \<le> type \<and> type \<le> TYPE_PTR then Inr (int (scalar_size type))
      else if type = TYPE_ARRAY then
        (case p of [] \<Rightarrow> Inl Out_Of_Bounds | len # p \<Rightarrow> thunk_type_align tab p is_host)
      else if type = TYPE_STRUCT then and_then (struct_at tab p) (\<lambda>se. Inr (se_align se is_host))
      else Inr (- 1))"

section \<open>The layout of a structure\<close>

lemma type_next_shorter: "thunk_type_next p = Inr (Some q) \<Longrightarrow> length q < length p"
  by (induction p arbitrary: q rule: thunk_type_next.induct) (fastforce split: if_splits)+

text \<open>Counting the fields.\<close>

function count_fields :: "argtype \<Rightarrow> nat outcome" where
  "count_fields p =
     (if p = [] then Inl Out_Of_Bounds
      else if hd p = TYPE_NULL then Inr 0
      else case thunk_type_next p of
        Inl e \<Rightarrow> Inl e
      | Inr None \<Rightarrow> Inl Null_Dereference
      | Inr (Some q) \<Rightarrow> and_then (count_fields q) (\<lambda>n. Inr (Suc n)))"
  by pat_completeness auto
termination by (relation "measure length") (auto simp: type_next_shorter)

declare count_fields.simps [simp del]

text \<open>
  The layout is computed in a C \<^verbatim>\<open>int\<close>; a sum that does not fit one is undefined.  A size that is too large is noticed when
  it is added to the offset.
\<close>

definition int_ok :: "int \<Rightarrow> int outcome" where
  "int_ok x = (if - 2147483648 \<le> x \<and> x \<le> 2147483647 then Inr x else Inl Int_Overflow)"

definition align_up :: "int \<Rightarrow> int \<Rightarrow> int outcome" where
  "align_up offset align =
     and_then (int_ok (offset + align)) (\<lambda>x. and_then (int_ok (x - 1)) (\<lambda>x. Inr (x AND NOT (align - 1))))"

text \<open>The loop over the fields, with the offset reached and the largest alignment; at the end the offsets, the offset and the alignment.\<close>

fun layout_fields :: "structs \<Rightarrow> bool \<Rightarrow> nat \<Rightarrow> argtype option \<Rightarrow> int \<Rightarrow> int \<Rightarrow> (int list \<times> int \<times> int) outcome" where
  "layout_fields tab i 0 type_ptr offset max_align = Inr ([], offset, max_align)"
| "layout_fields tab i (Suc n) None offset max_align = Inl Null_Dereference"
| "layout_fields tab i (Suc n) (Some p) offset max_align =
     and_then (thunk_type_size tab p i) (\<lambda>size.
     and_then (thunk_type_align tab p i) (\<lambda>align.
     and_then (align_up offset align) (\<lambda>offset.
     and_then (int_ok (offset + size)) (\<lambda>next_offset.
     and_then (thunk_type_next p) (\<lambda>q.
     and_then (layout_fields tab i n q next_offset (if align > max_align then align else max_align)) (\<lambda>(offs, e, a).
     Inr (offset # offs, e, a)))))))"

definition layout_side :: "structs \<Rightarrow> bool \<Rightarrow> nat \<Rightarrow> argtype \<Rightarrow> (int list \<times> int \<times> int) outcome" where
  "layout_side tab i n types =
     and_then (layout_fields tab i n (Some types) 0 1) (\<lambda>(offs, offset, max_align).
     and_then (align_up offset max_align) (\<lambda>size. Inr (offs, size, max_align)))"

definition thunk_register_struct :: "nat \<Rightarrow> argtype \<Rightarrow> structs \<Rightarrow> structs outcome" where
  "thunk_register_struct sid types tab =
     (if sid \<ge> MAX_STRUCTS then Inl Out_Of_Bounds
      else
        and_then (count_fields types) (\<lambda>n.
        and_then (layout_side tab False n types) (\<lambda>(offs0, size0, align0).
        and_then (layout_side tab True n types) (\<lambda>(offs1, size1, align1).
        Inr (tab(sid := (tab sid)\<lparr>field_types := types, nb_fields := n,
               field_offsets := (\<lambda>h. if h then offs1 else offs0),
               se_size := (\<lambda>h. if h then size1 else size0), se_align := (\<lambda>h. if h then align1 else align0)\<rparr>))))))"

definition thunk_register_struct_direct :: "nat \<Rightarrow> struct_entry \<Rightarrow> structs \<Rightarrow> structs outcome" where
  "thunk_register_struct_direct sid se1 tab = (if sid \<ge> MAX_STRUCTS then Inl Out_Of_Bounds else Inr (tab(sid := se1)))"

section \<open>Converting a value\<close>

text \<open>
  An assignment through pointers to a type of \<open>n\<close> bytes; the byte order is the same on both sides.
\<close>

definition copy_scalar :: "nat \<Rightarrow> u32 \<Rightarrow> u32 \<Rightarrow> memory \<Rightarrow> memory" where
  "copy_scalar n dst src m = write_bytes m dst (read_bytes m src n)"

text \<open>The loops over the elements of an array and over the fields of a structure, around the conversion \<open>conv\<close> of one value.\<close>

fun convert_array :: "(u32 \<Rightarrow> u32 \<Rightarrow> memory \<Rightarrow> (argtype option \<times> memory) outcome) \<Rightarrow> nat \<Rightarrow> u32 \<Rightarrow> u32 \<Rightarrow> int \<Rightarrow> int \<Rightarrow> memory \<Rightarrow> memory outcome" where
  "convert_array conv 0 d s dst_size src_size m = Inr m"
| "convert_array conv (Suc n) d s dst_size src_size m =
     and_then (conv d s m) (\<lambda>(_, m).
       convert_array conv n (d + of_int dst_size) (s + of_int src_size) dst_size src_size m)"

fun convert_fields :: "(u32 \<Rightarrow> u32 \<Rightarrow> argtype \<Rightarrow> memory \<Rightarrow> (argtype option \<times> memory) outcome) \<Rightarrow> (int \<times> int) list \<Rightarrow> u32 \<Rightarrow> u32 \<Rightarrow> argtype option \<Rightarrow> memory \<Rightarrow> memory outcome" where
  "convert_fields conv [] d s p m = Inr m"
| "convert_fields conv ((od, os) # offs) d s p m =
     (case p of
        None \<Rightarrow> Inl Null_Dereference
      | Some p \<Rightarrow> and_then (conv (d + of_int od) (s + of_int os) p m) (\<lambda>(q, m). convert_fields conv offs d s q m))"

text \<open>
  The fuel bounds the nesting of the description.  The code for a pointer is not known here; like any other it
  is reported and passed over.
\<close>

primrec thunk_convert :: "structs \<Rightarrow> nat \<Rightarrow> bool \<Rightarrow> u32 \<Rightarrow> u32 \<Rightarrow> argtype \<Rightarrow> memory \<Rightarrow> (argtype option \<times> memory) outcome" where
  "thunk_convert tab 0 to_host = (\<lambda>dst src p m. Inl Never_Returns)"
| "thunk_convert tab (Suc f) to_host = (\<lambda>dst src p m.
     case p of
       [] \<Rightarrow> Inl Out_Of_Bounds
     | type # p \<Rightarrow>
         if TYPE_CHAR \<le> type \<and> type \<le> TYPE_ULONGLONG then Inr (Some p, copy_scalar (scalar_size type) dst src m)
         else if type = TYPE_ARRAY then
           (case p of
              [] \<Rightarrow> Inl Out_Of_Bounds
            | array_length # p \<Rightarrow>
                and_then (thunk_type_size tab p to_host) (\<lambda>dst_size.
                and_then (thunk_type_size tab p (\<not> to_host)) (\<lambda>src_size.
                and_then (convert_array (\<lambda>d s m. thunk_convert tab f to_host d s p m) array_length dst src dst_size src_size m) (\<lambda>m.
                and_then (thunk_type_next p) (\<lambda>q. Inr (q, m))))))
         else if type = TYPE_STRUCT then
           and_then (struct_at tab p) (\<lambda>se.
             case convert se of
               Some conv \<Rightarrow> Inr (Some (drop 1 p), conv to_host dst src m)
             | None \<Rightarrow>
                 and_then (convert_fields (thunk_convert tab f to_host)
                     (take (nb_fields se) (zip (field_offsets se to_host) (field_offsets se (\<not> to_host)))) dst src (Some (field_types se)) m) (\<lambda>m.
                 Inr (Some (drop 1 p), m)))
         else Inr (Some p, m))"

section \<open>Bit masks\<close>

text \<open>Which bits of a mask on the one side mean which bits of a mask on the other; a null mask ends the table.\<close>

record bitmask_trans =
  x86_mask :: u32
  x86_bits :: u32
  alpha_mask :: u32
  alpha_bits :: u32

fun to_host_loop :: "u32 \<Rightarrow> bitmask_trans list \<Rightarrow> u32 \<Rightarrow> u32" where
  "to_host_loop x [] alpha = alpha"
| "to_host_loop x (b # tbl) alpha =
     (if x86_mask b \<noteq> 0 \<and> alpha_mask b \<noteq> 0
      then to_host_loop x tbl (if x AND x86_mask b = x86_bits b then alpha OR alpha_bits b else alpha)
      else alpha)"

definition target_to_host_bitmask :: "u32 \<Rightarrow> bitmask_trans list \<Rightarrow> u32" where
  "target_to_host_bitmask x tbl = to_host_loop x tbl 0"

fun to_target_loop :: "u32 \<Rightarrow> bitmask_trans list \<Rightarrow> u32 \<Rightarrow> u32" where
  "to_target_loop a [] x = x"
| "to_target_loop a (b # tbl) x =
     (if x86_mask b \<noteq> 0 \<and> alpha_mask b \<noteq> 0
      then to_target_loop a tbl (if a AND alpha_mask b = alpha_bits b then x OR x86_bits b else x)
      else x)"

definition host_to_target_bitmask :: "u32 \<Rightarrow> bitmask_trans list \<Rightarrow> u32" where
  "host_to_target_bitmask a tbl = to_target_loop a tbl 0"

section \<open>Types\<close>

text \<open>
  The types a description can stand for, a structure with its number and its fields; their descriptions, and their sizes and
  alignments as the rules of C give them.  A pointer to a type is left out: no structure has one.
\<close>

datatype ctype = Scalar nat | Array nat ctype | Struct nat "ctype list"

fun descr :: "ctype \<Rightarrow> argtype" where
  "descr (Scalar c) = [c]"
| "descr (Array n t) = TYPE_ARRAY # n # descr t"
| "descr (Struct sid fs) = [TYPE_STRUCT, sid]"

definition round_up :: "nat \<Rightarrow> nat \<Rightarrow> nat" where
  "round_up x a = (x + a - 1) div a * a"

fun place_fields :: "(nat \<times> nat) list \<Rightarrow> nat \<Rightarrow> nat list" where
  "place_fields [] x = []"
| "place_fields ((s, a) # ds) x = round_up x a # place_fields ds (round_up x a + s)"

fun fields_end :: "(nat \<times> nat) list \<Rightarrow> nat \<Rightarrow> nat" where
  "fields_end [] x = x"
| "fields_end ((s, a) # ds) x = fields_end ds (round_up x a + s)"

fun max_align :: "(nat \<times> nat) list \<Rightarrow> nat \<Rightarrow> nat" where
  "max_align [] m = m"
| "max_align ((s, a) # ds) m = max_align ds (max m a)"

fun dims :: "ctype \<Rightarrow> nat \<times> nat" where
  "dims (Scalar c) = (scalar_size c, scalar_size c)"
| "dims (Array n t) = (n * fst (dims t), snd (dims t))"
| "dims (Struct sid fs) =
     (let ds = map dims fs in (round_up (fields_end ds 0) (max_align ds 1), max_align ds 1))"

text \<open>A structure is registered with its fields.\<close>

definition entry_for :: "ctype list \<Rightarrow> struct_entry \<Rightarrow> bool" where
  "entry_for fs se \<longleftrightarrow>
     (\<exists>rest. field_types se = concat (map descr fs) @ TYPE_NULL # rest) \<and> nb_fields se = length fs \<and>
     (\<forall>i. field_offsets se i = map int (place_fields (map dims fs) 0) \<and>
        se_size se i = int (fst (dims (Struct 0 fs))) \<and> se_align se i = int (snd (dims (Struct 0 fs))))"

fun known :: "structs \<Rightarrow> ctype \<Rightarrow> bool" where
  "known tab (Scalar c) \<longleftrightarrow> TYPE_CHAR \<le> c \<and> c \<le> TYPE_ULONGLONG"
| "known tab (Array n t) \<longleftrightarrow> known tab t"
| "known tab (Struct sid fs) \<longleftrightarrow> sid < MAX_STRUCTS \<and> convert (tab sid) = None \<and> entry_for fs (tab sid) \<and> (\<forall>t\<in>set fs. known tab t)"

lemma next_descr: "known tab t \<Longrightarrow> thunk_type_next (descr t @ rest) = Inr (Some rest)"
  by (induction t) auto

lemma size_descr: "known tab t \<Longrightarrow> thunk_type_size tab (descr t @ rest) i = Inr (int (fst (dims t)))"
proof (induction t)
  case (Struct sid fs)
  then show ?case by (auto simp: struct_at_def entry_for_def)
qed auto

lemma align_descr: "known tab t \<Longrightarrow> thunk_type_align tab (descr t @ rest) i = Inr (int (snd (dims t)))"
proof (induction t)
  case (Struct sid fs)
  then show ?case by (auto simp: struct_at_def entry_for_def)
qed auto

text \<open>Alignments are 1, 2, 4 or 8.\<close>

definition alignment :: "nat \<Rightarrow> bool" where
  "alignment a \<longleftrightarrow> a \<in> {1, 2, 4, 8}"

lemma alignment_1 [simp]: "alignment 1" "alignment (Suc 0)"
  by (simp_all add: alignment_def)

lemma max_align_ok: "alignment m \<Longrightarrow> \<forall>d\<in>set ds. alignment (snd d) \<Longrightarrow> alignment (max_align ds m)"
  by (induction ds m rule: max_align.induct) (auto simp: max_def)

lemma dims_align: "known tab t \<Longrightarrow> alignment (snd (dims t))"
proof (induction t)
  case (Scalar c)
  then show ?case by (auto simp: alignment_def scalar_size.simps)
next
  case (Struct sid fs)
  then have "\<forall>d\<in>set (map dims fs). alignment (snd d)" by auto
  from max_align_ok [OF alignment_1(1) this] show ?case by (simp add: Let_def)
qed auto

lemma and_not_mask: "(x :: int) AND NOT (mask k) = x div 2 ^ k * 2 ^ k"
proof -
  have "x AND NOT (mask k) = push_bit k (drop_bit k x)"
    by (rule bit_eqI) (auto simp: bit_simps)
  then show ?thesis by (simp add: push_bit_eq_mult drop_bit_eq_div)
qed

lemma round_up_power: "(int x + 2 ^ k - 1) AND NOT (2 ^ k - 1) = int (round_up x (2 ^ k))"
proof -
  have n: "int x + 2 ^ k - 1 = int (x + 2 ^ k - 1)"
    by (subst of_nat_diff) (simp_all add: trans_le_add2)
  have "int (x + 2 ^ k - 1) AND NOT (2 ^ k - 1) = int (x + 2 ^ k - 1) AND NOT (mask k)"
    by (simp add: mask_eq_exp_minus_1)
  also have "\<dots> = int (x + 2 ^ k - 1) div 2 ^ k * 2 ^ k"
    by (rule and_not_mask)
  finally show ?thesis unfolding n round_up_def by (simp only: zdiv_int of_nat_mult of_nat_power of_nat_numeral)
qed

lemma align_up_nat: "alignment a \<Longrightarrow> x + a \<le> 2147483647 \<Longrightarrow> align_up (int x) (int a) = Inr (int (round_up x a))"
  using round_up_power [of x 0] round_up_power [of x 1] round_up_power [of x 2] round_up_power [of x 3]
  by (auto simp: alignment_def align_up_def int_ok_def)

lemma round_up_ge: "alignment a \<Longrightarrow> x \<le> round_up x a"
  by (auto simp: alignment_def round_up_def)

lemma fields_end_ge: "\<forall>d\<in>set ds. alignment (snd d) \<Longrightarrow> x \<le> fields_end ds x"
proof (induction ds x rule: fields_end.induct)
  case (2 s a ds x)
  then have "x \<le> round_up x a" using round_up_ge by simp
  with 2 show ?case by simp
qed simp

text \<open>A structure whose size leaves room for one more alignment is laid out without overflow.\<close>

definition fits_int :: "ctype list \<Rightarrow> bool" where
  "fits_int fs \<longleftrightarrow> fst (dims (Struct 0 fs)) + 8 \<le> 2147483647"

section \<open>Registering a structure\<close>

lemma descr_known: "known tab t \<Longrightarrow> \<exists>c p. descr t = c # p \<and> c \<noteq> TYPE_NULL"
  by (cases t) auto

lemma count_descr:
  "\<forall>t\<in>set fs. known tab t \<Longrightarrow> count_fields (concat (map descr fs) @ TYPE_NULL # rest) = Inr (length fs)"
proof (induction fs)
  case Nil
  then show ?case by (simp add: count_fields.simps)
next
  case (Cons t fs)
  let ?r = "concat (map descr fs) @ TYPE_NULL # rest"
  obtain c p where "descr t = c # p" "c \<noteq> TYPE_NULL" using descr_known Cons.prems by (metis list.set_intros(1))
  moreover have "thunk_type_next (descr t @ ?r) = Inr (Some ?r)"
    by (rule next_descr [of tab]) (simp add: Cons.prems)
  ultimately show ?case
    using Cons by (subst count_fields.simps) simp
qed

lemma layout_fields_descr:
  "\<forall>t\<in>set fs. known tab t \<Longrightarrow> fields_end (map dims fs) x + 8 \<le> 2147483647 \<Longrightarrow>
   layout_fields tab i (length fs) (Some (concat (map descr fs) @ rest)) (int x) (int m) =
     Inr (map int (place_fields (map dims fs) x), int (fields_end (map dims fs) x), int (max_align (map dims fs) m))"
proof (induction fs arbitrary: x m)
  case (Cons t fs)
  let ?r = "concat (map descr fs) @ rest"
  obtain s a where d: "dims t = (s, a)" by (cases "dims t")
  have k: "known tab t" "\<forall>t\<in>set fs. known tab t" using Cons.prems(1) by auto
  have al: "alignment a" "\<forall>d\<in>set (map dims fs). alignment (snd d)" using dims_align [OF k(1)] dims_align k(2) d by auto
  have le: "fields_end (map dims fs) (round_up x a + s) + 8 \<le> 2147483647" using Cons.prems(2) d by simp
  moreover have "round_up x a + s \<le> fields_end (map dims fs) (round_up x a + s)" by (rule fields_end_ge [OF al(2)])
  ultimately have fit: "x + a \<le> 2147483647" "int (round_up x a) + int s \<le> 2147483647"
    using round_up_ge [OF al(1), of x] al(1) by (auto simp: alignment_def)
  have "thunk_type_size tab (descr t @ ?r) i = Inr (int s)" "thunk_type_align tab (descr t @ ?r) i = Inr (int a)"
    using size_descr [OF k(1)] align_descr [OF k(1)] d by simp_all
  moreover have "align_up (int x) (int a) = Inr (int (round_up x a))" by (rule align_up_nat [OF al(1) fit(1)])
  moreover have "(if int a > int m then int a else int m) = int (max m a)" by simp
  moreover have "int_ok (int (round_up x a) + int s) = Inr (int (round_up x a + s))" using fit(2) by (simp add: int_ok_def)
  ultimately show ?case
    using next_descr [OF k(1), of ?r] Cons.IH [OF k(2) le, of "max m a"] d by simp
qed simp

lemma layout_side_descr:
  assumes "\<forall>t\<in>set fs. known tab t" "fits_int fs"
  shows "layout_side tab i (length fs) (concat (map descr fs) @ rest) =
     Inr (map int (place_fields (map dims fs) 0), int (fst (dims (Struct 0 fs))), int (snd (dims (Struct 0 fs))))"
proof -
  have al: "alignment (max_align (map dims fs) 1)"
    using max_align_ok [of 1 "map dims fs"] dims_align assms(1) by (force simp: alignment_def)
  have "fields_end (map dims fs) 0 + 8 \<le> 2147483647"
    using round_up_ge [OF al, of "fields_end (map dims fs) 0"] assms(2) by (simp add: fits_int_def Let_def)
  moreover from this al have "fields_end (map dims fs) 0 + max_align (map dims fs) 1 \<le> 2147483647" by (auto simp: alignment_def)
  ultimately show ?thesis
    using layout_fields_descr [OF assms(1), of 0 i rest 1] align_up_nat [OF al]
    by (simp add: layout_side_def Let_def)
qed

lemma register_known:
  assumes "\<forall>t\<in>set fs. known tab t" "sid < MAX_STRUCTS" "fits_int fs"
  shows "\<exists>tab'. thunk_register_struct sid (concat (map descr fs) @ TYPE_NULL # rest) tab = Inr tab' \<and>
     entry_for fs (tab' sid) \<and> convert (tab' sid) = convert (tab sid) \<and> (\<forall>k. k \<noteq> sid \<longrightarrow> tab' k = tab k)"
  using assms count_descr [OF assms(1), of rest] layout_side_descr [OF assms(1,3), of _ "TYPE_NULL # rest"]
  by (auto simp: thunk_register_struct_def entry_for_def)

text \<open>The placement is the one of C.\<close>

lemma round_up_dvd: "a dvd round_up x a"
  by (simp add: round_up_def)

lemma round_up_least: "alignment a \<Longrightarrow> a dvd y \<Longrightarrow> x \<le> y \<Longrightarrow> round_up x a \<le> y"
  by (auto simp: alignment_def round_up_def dvd_def)

lemma place_fields_length [simp]: "length (place_fields ds x) = length ds"
  by (induction ds x rule: place_fields.induct) auto

lemma place_fields_spec:
  assumes "\<forall>d\<in>set ds. alignment (snd d)"
  shows "j < length ds \<Longrightarrow> snd (ds ! j) dvd place_fields ds x ! j \<and> x \<le> place_fields ds x ! j \<and>
     place_fields ds x ! j + fst (ds ! j) \<le> (if Suc j < length ds then place_fields ds x ! Suc j else fields_end ds x)"
  using assms
proof (induction ds arbitrary: x j)
  case (Cons d ds)
  obtain s a where d: "d = (s, a)" by (cases d)
  have a: "alignment a" "x \<le> round_up x a" using Cons.prems d round_up_ge by auto
  show ?case
  proof (cases j)
    case 0
    have "round_up x a + s \<le> place_fields ds (round_up x a + s) ! 0" if "ds \<noteq> []"
      using Cons.IH [of 0 "round_up x a + s"] Cons.prems(2) that by simp
    moreover have "round_up x a + s \<le> fields_end ds (round_up x a + s)"
      using fields_end_ge Cons.prems(2) by simp
    ultimately show ?thesis using 0 d a round_up_dvd by simp
  next
    case (Suc k)
    then show ?thesis
      using Cons.IH [of k "round_up x a + s"] Cons.prems d a by auto
  qed
qed simp

lemma alignment_dvd: "alignment a \<Longrightarrow> alignment b \<Longrightarrow> a \<le> b \<Longrightarrow> a dvd b"
  by (auto simp: alignment_def)

lemma max_align_ge: "m \<le> max_align ds m"
  by (induction ds m rule: max_align.induct) auto

lemma max_align_all: "d \<in> set ds \<Longrightarrow> snd d \<le> max_align ds m"
proof (induction ds m rule: max_align.induct)
  case (2 s' a' ds m)
  then show ?case using max_align_ge [of "max m a'" ds] by auto
qed simp

text \<open>Every field lies at the next multiple of its alignment after the one before it.\<close>

lemma place_fields_nth:
  "j < length ds \<Longrightarrow> place_fields ds x ! j =
     round_up (if j = 0 then x else place_fields ds x ! (j - 1) + fst (ds ! (j - 1))) (snd (ds ! j))"
proof (induction ds arbitrary: x j)
  case (Cons d ds)
  obtain s a where d: "d = (s, a)" by (cases d)
  show ?case
  proof (cases j)
    case (Suc k)
    then show ?thesis using Cons.IH [of k "round_up x a + s"] Cons.prems d by (cases k) auto
  qed (simp add: d)
qed simp

lemma fields_end_last: "ds \<noteq> [] \<Longrightarrow> fields_end ds x = place_fields ds x ! (length ds - 1) + fst (ds ! (length ds - 1))"
proof (induction ds x rule: fields_end.induct)
  case (2 s a ds x)
  then show ?case by (cases ds) auto
qed simp

lemma max_align_attained: "max_align ds m = m \<or> (\<exists>d\<in>set ds. max_align ds m = snd d)"
  by (induction ds m rule: max_align.induct) (auto simp: max_def split: if_splits)

lemma place_dims:
  assumes "\<forall>t\<in>set fs. known tab t" "j < length fs"
  defines "ds \<equiv> map dims fs"
  shows "snd (dims (fs ! j)) dvd place_fields ds 0 ! j"
    "place_fields ds 0 ! j + fst (dims (fs ! j)) \<le> (if Suc j < length fs then place_fields ds 0 ! Suc j else fst (dims (Struct 0 fs)))"
    "snd (dims (fs ! j)) dvd snd (dims (Struct 0 fs))"
proof -
  have a: "\<forall>d\<in>set ds. alignment (snd d)" using assms(1) dims_align by (auto simp: ds_def)
  have m: "alignment (max_align ds 1)" using max_align_ok [OF alignment_1(1) a] .
  have d: "ds ! j = dims (fs ! j)" "ds ! j \<in> set ds" using assms(2) by (auto simp: ds_def)
  have p: "snd (dims (fs ! j)) dvd place_fields ds 0 ! j"
    "place_fields ds 0 ! j + fst (dims (fs ! j)) \<le> (if Suc j < length fs then place_fields ds 0 ! Suc j else fields_end ds 0)"
    using place_fields_spec [OF a, of j 0] assms(2) d(1) by (simp_all add: ds_def)
  then show "snd (dims (fs ! j)) dvd place_fields ds 0 ! j" by simp
  show "place_fields ds 0 ! j + fst (dims (fs ! j)) \<le> (if Suc j < length fs then place_fields ds 0 ! Suc j else fst (dims (Struct 0 fs)))"
    using p(2) round_up_ge [OF m, of "fields_end ds 0"] by (auto simp: Let_def ds_def)
  have "snd (dims (fs ! j)) dvd max_align ds 1"
    using a d max_align_all [OF d(2), of 1] by (intro alignment_dvd m) auto
  then show "snd (dims (fs ! j)) dvd snd (dims (Struct 0 fs))" by (simp add: Let_def ds_def)
qed

lemma struct_dvd: "snd (dims (Struct 0 fs)) dvd fst (dims (Struct 0 fs))"
  by (simp add: Let_def round_up_dvd)

text \<open>
  The layout that the rules of C ask for, given the sizes and alignments of the fields: each field lies at the least
  multiple of its alignment that is not before the end of the field before it, the structure is aligned for all its fields and
  not more than one of them needs, and its size is the least multiple of its alignment that holds the fields.
\<close>

definition least_multiple :: "int \<Rightarrow> int \<Rightarrow> int \<Rightarrow> bool" where
  "least_multiple a x y \<longleftrightarrow> a dvd y \<and> x \<le> y \<and> (\<forall>z. a dvd z \<and> x \<le> z \<longrightarrow> y \<le> z)"

definition end_before :: "(nat \<times> nat) list \<Rightarrow> int list \<Rightarrow> nat \<Rightarrow> int" where
  "end_before ds offs j = (if j = 0 then 0 else offs ! (j - 1) + int (fst (ds ! (j - 1))))"

definition c_layout :: "(nat \<times> nat) list \<Rightarrow> int list \<Rightarrow> int \<Rightarrow> int \<Rightarrow> bool" where
  "c_layout ds offs sz align \<longleftrightarrow> length offs = length ds \<and>
     (\<forall>j<length ds. least_multiple (int (snd (ds ! j))) (end_before ds offs j) (offs ! j)) \<and>
     (\<forall>d\<in>set ds. int (snd d) dvd align) \<and> (align = 1 \<or> align \<in> (int \<circ> snd) ` set ds) \<and>
     least_multiple align (end_before ds offs (length ds)) sz"

lemma least_multiple_round_up:
  assumes "alignment a"
  shows "least_multiple (int a) (int x) (int (round_up x a))"
  unfolding least_multiple_def
proof (intro conjI allI impI)
  fix z assume z: "int a dvd z \<and> int x \<le> z"
  then obtain n where n: "z = int n" by (metis nonneg_int_cases of_nat_0_le_iff order_trans)
  with z have "round_up x a \<le> n" by (intro round_up_least [OF assms]) auto
  then show "int (round_up x a) \<le> z" by (simp add: n)
qed (simp_all add: round_up_dvd round_up_ge [OF assms])

lemma c_layout_place:
  assumes "\<forall>d\<in>set ds. alignment (snd d)"
  shows "c_layout ds (map int (place_fields ds 0)) (int (round_up (fields_end ds 0) (max_align ds 1))) (int (max_align ds 1))"
proof -
  let ?o = "map int (place_fields ds 0)"
  have m: "alignment (max_align ds 1)" by (rule max_align_ok [OF alignment_1(1) assms])
  have before: "end_before ds ?o j = int (if j = 0 then 0 else place_fields ds 0 ! (j - 1) + fst (ds ! (j - 1)))" if "j \<le> length ds" for j
    using that by (auto simp: end_before_def)
  have "least_multiple (int (snd (ds ! j))) (end_before ds ?o j) (?o ! j)" if "j < length ds" for j
  proof -
    have "?o ! j = int (round_up (if j = 0 then 0 else place_fields ds 0 ! (j - 1) + fst (ds ! (j - 1))) (snd (ds ! j)))"
      using place_fields_nth [OF that, of 0] that by simp
    then show ?thesis unfolding before [OF less_imp_le [OF that]] using assms that by (simp only: least_multiple_round_up nth_mem)
  qed
  moreover have "end_before ds ?o (length ds) = int (fields_end ds 0)"
    unfolding before [OF order_refl] using fields_end_last [of ds 0] by (cases "ds = []") auto
  moreover have "int (snd d) dvd int (max_align ds 1)" if "d \<in> set ds" for d
    using that assms m max_align_all [OF that, of 1] by (simp add: alignment_dvd)
  moreover have "int (max_align ds 1) = 1 \<or> int (max_align ds 1) \<in> (int \<circ> snd) ` set ds"
    using max_align_attained [of ds 1] by force
  ultimately show ?thesis using least_multiple_round_up [OF m] by (simp add: c_layout_def)
qed

text \<open>
  C37: The layout of a structure.  Registering a structure whose fields are of known types, and whose layout leaves room for
  one more alignment in an \<^verbatim>\<open>int\<close> (\<open>fits_int\<close>), succeeds without an overflow, changes no other structure, and gives it for guest
  and host the layout of C: every field lies at the least multiple of its alignment after the field before it, the alignment
  of the structure is the largest of its fields', and its size is the least multiple of that alignment that holds the fields.
\<close>

theorem thunk_register_struct_layout:
  assumes "\<forall>t\<in>set fs. known tab t" and "sid < MAX_STRUCTS" and "fits_int fs"
  shows "\<exists>tab'. thunk_register_struct sid (concat (map descr fs) @ TYPE_NULL # rest) tab = Inr tab' \<and>
    (\<forall>k. k \<noteq> sid \<longrightarrow> tab' k = tab k) \<and> nb_fields (tab' sid) = length fs \<and>
    (\<forall>i. c_layout (map dims fs) (field_offsets (tab' sid) i) (se_size (tab' sid) i) (se_align (tab' sid) i) \<and>
       se_size (tab' sid) i \<le> 2147483647)"
proof -
  obtain tab' where r: "thunk_register_struct sid (concat (map descr fs) @ TYPE_NULL # rest) tab = Inr tab'"
      "\<forall>k. k \<noteq> sid \<longrightarrow> tab' k = tab k" and e: "entry_for fs (tab' sid)"
    using register_known [OF assms] by auto
  have "\<forall>d\<in>set (map dims fs). alignment (snd d)" using assms(1) dims_align by auto
  from c_layout_place [OF this] e
  have "c_layout (map dims fs) (field_offsets (tab' sid) i) (se_size (tab' sid) i) (se_align (tab' sid) i)" for i
    by (simp add: entry_for_def Let_def)
  moreover have "se_size (tab' sid) i \<le> 2147483647" "nb_fields (tab' sid) = length fs" for i
    using e assms(3) by (simp_all add: entry_for_def fits_int_def)
  ultimately show ?thesis using r by blast
qed

theorem thunk_register_struct_layout_witness:
  "\<exists>tab'. thunk_register_struct 2 [TYPE_CHAR, TYPE_ULONG, TYPE_ARRAY, 3, TYPE_SHORT, TYPE_NULL] (\<lambda>_. no_entry) = Inr tab' \<and>
     least_multiple 4 (field_offsets (tab' 2) True ! 0 + 1) (field_offsets (tab' 2) True ! 1) \<and>
     least_multiple (se_align (tab' 2) True) (field_offsets (tab' 2) True ! 2 + 6) (se_size (tab' 2) True)"
proof -
  let ?fs = "[Scalar 1, Scalar 5, Array 3 (Scalar 2)]"
  have k: "\<forall>t\<in>set ?fs. known (\<lambda>_. no_entry) t" "2 < MAX_STRUCTS" "fits_int ?fs"
    by (simp_all add: fits_int_def Let_def scalar_size.simps round_up_def)
  obtain tab' where t: "thunk_register_struct 2 (concat (map descr ?fs) @ TYPE_NULL # []) (\<lambda>_. no_entry) = Inr tab'"
    and l: "c_layout (map dims ?fs) (field_offsets (tab' 2) True) (se_size (tab' 2) True) (se_align (tab' 2) True)"
    using thunk_register_struct_layout [OF k, of "[]"] by blast
  have "least_multiple 4 (field_offsets (tab' 2) True ! 0 + 1) (field_offsets (tab' 2) True ! 1)"
    using l unfolding c_layout_def by (auto simp: end_before_def scalar_size.simps dest!: spec [of _ "Suc 0"])
  moreover have "least_multiple (se_align (tab' 2) True) (field_offsets (tab' 2) True ! 2 + 6) (se_size (tab' 2) True)"
    using l by (simp add: c_layout_def end_before_def scalar_size.simps numeral_2_eq_2)
  ultimately show ?thesis using t by auto
qed

section \<open>What a conversion copies\<close>

text \<open>The bytes of a value that are not padding, counted from its beginning.\<close>

primrec bytes_of :: "ctype \<Rightarrow> nat set" where
  "bytes_of (Scalar c) = {..<scalar_size c}"
| "bytes_of (Array n t) = (\<Union>i<n. (+) (i * fst (dims t)) ` bytes_of t)"
| "bytes_of (Struct sid fs) = (\<Union>(x, B)\<in>set (zip (place_fields (map dims fs) 0) (map bytes_of fs)). (+) x ` B)"

definition copied :: "nat set \<Rightarrow> u32 \<Rightarrow> u32 \<Rightarrow> memory \<Rightarrow> memory \<Rightarrow> bool" where
  "copied S d s m m' \<longleftrightarrow> (\<forall>a. m' a = (if a \<in> (\<lambda>k. d + of_nat k) ` S then m (s + (a - d)) else m a))"

definition apart :: "u32 \<Rightarrow> u32 \<Rightarrow> nat \<Rightarrow> bool" where
  "apart d s n \<longleftrightarrow> (\<forall>k<n. \<forall>l<n. s + of_nat k \<noteq> d + of_nat l)"

lemma copied_empty [simp]: "copied {} d s m m"
  by (simp add: copied_def)

lemma copied_seq:
  assumes "copied S d s m m1" "copied T d s m1 m2" "apart d s n" "S \<subseteq> {..<n}" "T \<subseteq> {..<n}"
  shows "copied (S \<union> T) d s m m2"
  unfolding copied_def
proof
  fix a
  show "m2 a = (if a \<in> (\<lambda>k. d + of_nat k) ` (S \<union> T) then m (s + (a - d)) else m a)"
  proof (cases "a \<in> (\<lambda>k. d + of_nat k) ` T")
    case True
    then obtain k where k: "k \<in> T" "a = d + of_nat k" by auto
    have "s + of_nat k \<notin> (\<lambda>l. d + of_nat l) ` S"
      using assms(3-5) k(1) by (auto simp: apart_def)
    with k assms(1,2) show ?thesis by (auto simp: copied_def)
  next
    case False
    with assms(1,2) show ?thesis by (auto simp: copied_def)
  qed
qed

lemma copied_shift:
  assumes "copied S (d + of_nat x) (s + of_nat x) m m'"
  shows "copied ((+) x ` S) d s m m'"
proof -
  have "(\<lambda>k. d + of_nat x + of_nat k) ` S = (\<lambda>k. d + of_nat k) ` ((+) x ` S)"
    by (auto simp: image_image add.assoc)
  with assms show ?thesis by (simp add: copied_def algebra_simps)
qed

lemma apart_shift:
  assumes "apart d s n" "x + k \<le> n"
  shows "apart (d + of_nat x) (s + of_nat x) k"
  unfolding apart_def
proof (intro allI impI)
  fix i j assume "i < k" "j < k"
  then have "s + of_nat (x + i) \<noteq> d + of_nat (x + j)" using assms unfolding apart_def by auto
  then show "s + of_nat x + of_nat i \<noteq> d + of_nat x + of_nat j" by (simp add: add.assoc)
qed

lemma apart_less: "apart d s n \<Longrightarrow> k \<le> n \<Longrightarrow> apart d s k"
  by (auto simp: apart_def)

lemma copied_scalar:
  assumes "n \<le> 8"
  shows "copied {..<n} d s m (copy_scalar n d s m)"
  unfolding copied_def
proof
  fix a
  show "copy_scalar n d s m a = (if a \<in> (\<lambda>k. d + of_nat k) ` {..<n} then m (s + (a - d)) else m a)"
  proof (cases "a \<in> (\<lambda>k. d + of_nat k) ` {..<n}")
    case True
    then obtain k where k: "k < n" "a = d + of_nat k" by auto
    have "write_bytes m d (read_bytes m s n) (d + of_nat k) = read_bytes m s n ! k"
      using k(1) assms by (intro write_bytes_at) auto
    with k show ?thesis by (auto simp: copy_scalar_def read_bytes_nth)
  next
    case False
    have "a \<notin> region d n"
    proof
      assume "a \<in> region d n"
      then have "unat (a - d) < n" "a = d + of_nat (unat (a - d))" by (auto simp: region_def)
      with False show False by blast
    qed
    with False show ?thesis by (simp add: copy_scalar_def write_bytes_frame)
  qed
qed

lemma place_bound:
  assumes "\<forall>t\<in>set fs. known tab t" "j < length fs"
  shows "place_fields (map dims fs) 0 ! j + fst (dims (fs ! j)) \<le> fst (dims (Struct 0 fs))"
  using assms(2)
proof (induction "length fs - Suc j" arbitrary: j)
  case 0
  then show ?case using place_dims(2) [OF assms(1), of j] by auto
next
  case (Suc k)
  have j: "Suc j < length fs" "k = length fs - Suc (Suc j)" using Suc.hyps(2) by simp_all
  have "place_fields (map dims fs) 0 ! j + fst (dims (fs ! j)) \<le> place_fields (map dims fs) 0 ! Suc j"
    using place_dims(2) [OF assms(1), of j] j by simp
  with Suc.hyps(1) [OF j(2,1)] show ?case by linarith
qed

lemma bytes_of_bound: "known tab t \<Longrightarrow> bytes_of t \<subseteq> {..<fst (dims t)}"
proof (induction t)
  case (Array n t)
  show ?case
  proof
    fix b assume "b \<in> bytes_of (Array n t)"
    then obtain i k where b: "i < n" "k \<in> bytes_of t" "b = i * fst (dims t) + k" by auto
    have "k < fst (dims t)" using Array b(2) by auto
    then have "b < Suc i * fst (dims t)" using b(3) by simp
    also have "\<dots> \<le> n * fst (dims t)" using b(1) by (intro mult_le_mono1) simp
    finally show "b \<in> {..<fst (dims (Array n t))}" by simp
  qed
next
  case (Struct sid fs)
  then have k: "\<forall>t\<in>set fs. known tab t" by simp
  have "(+) (place_fields (map dims fs) 0 ! j) ` bytes_of (fs ! j) \<subseteq> {..<fst (dims (Struct 0 fs))}" if "j < length fs" for j
  proof -
    have "bytes_of (fs ! j) \<subseteq> {..<fst (dims (fs ! j))}" using Struct.IH [of "fs ! j"] k that by simp
    with place_bound [OF k that] show ?thesis by fastforce
  qed
  then have "bytes_of (Struct sid fs) \<subseteq> {..<fst (dims (Struct 0 fs))}"
    by (fastforce simp: set_zip)
  then show ?case by simp
qed simp

text \<open>The loops: if the conversion of one value copies its bytes, so do they.\<close>

lemma convert_array_copies:
  assumes conv: "\<And>d s m. apart d s z \<Longrightarrow> \<exists>q m'. conv d s m = Inr (q, m') \<and> copied B d s m m'" and B: "B \<subseteq> {..<z}"
  shows "apart d s (n * z) \<Longrightarrow>
    \<exists>m'. convert_array conv n d s (int z) (int z) m = Inr m' \<and> copied (\<Union>i<n. (+) (i * z) ` B) d s m m'"
proof (induction n arbitrary: d s m)
  case (Suc n)
  obtain q m1 where c: "conv d s m = Inr (q, m1)" "copied B d s m m1"
    using conv [of d s m] apart_less [OF Suc.prems, of z] by auto
  obtain m2 where r: "convert_array conv n (d + of_nat z) (s + of_nat z) (int z) (int z) m1 = Inr m2"
    "copied (\<Union>i<n. (+) (i * z) ` B) (d + of_nat z) (s + of_nat z) m1 m2"
    using Suc.IH [of "d + of_nat z" "s + of_nat z" m1] apart_shift [OF Suc.prems, of z "n * z"] by auto
  have later: "(+) z ` (\<Union>i<n. (+) (i * z) ` B) = (\<Union>i<n. (+) (Suc i * z) ` B)"
    by (auto simp: image_UN image_image add.assoc)
  have "{..<Suc n} = insert 0 (Suc ` {..<n})" by (rule lessThan_Suc_eq_insert_0)
  then have all: "(\<Union>i<Suc n. (+) (i * z) ` B) = B \<union> (\<Union>i<n. (+) (Suc i * z) ` B)" by auto
  have "(\<Union>i<n. (+) (Suc i * z) ` B) \<subseteq> {..<Suc n * z}"
  proof (rule UN_least)
    fix i assume "i \<in> {..<n}"
    then have "Suc i * z + z \<le> Suc n * z" by (metis lessThan_iff Suc_leI add.commute mult_Suc mult_le_mono1 Suc_le_mono)
    with B show "(+) (Suc i * z) ` B \<subseteq> {..<Suc n * z}" by fastforce
  qed
  moreover have "B \<subseteq> {..<Suc n * z}" using B by auto
  ultimately have "copied (B \<union> (\<Union>i<n. (+) (Suc i * z) ` B)) d s m m2"
    using copied_shift [OF r(2)] unfolding later by (intro copied_seq [OF c(2) _ Suc.prems]) auto
  with c r all show ?case by simp
qed simp

lemma convert_fields_copies:
  assumes conv: "\<And>t d s rest m. t \<in> set fs \<Longrightarrow> apart d s (fst (dims t)) \<Longrightarrow>
      \<exists>m'. conv d s (descr t @ rest) m = Inr (Some rest, m') \<and> copied (bytes_of t) d s m m'"
    and "\<forall>(x, t)\<in>set (zip xs fs). x + fst (dims t) \<le> n \<and> bytes_of t \<subseteq> {..<fst (dims t)}"
    and "length xs = length fs" and "apart d s n"
  shows "\<exists>m'. convert_fields conv (map (\<lambda>x. (int x, int x)) xs) d s (Some (concat (map descr fs) @ rest)) m = Inr m' \<and>
     copied (\<Union>(x, B)\<in>set (zip xs (map bytes_of fs)). (+) x ` B) d s m m'"
  using assms
proof (induction fs arbitrary: xs m)
  case (Cons t fs)
  then obtain x ys where xs: "xs = x # ys" "length ys = length fs" by (cases xs) auto
  have b: "x + fst (dims t) \<le> n" "bytes_of t \<subseteq> {..<fst (dims t)}"
    "\<forall>(x, t)\<in>set (zip ys fs). x + fst (dims t) \<le> n \<and> bytes_of t \<subseteq> {..<fst (dims t)}"
    using Cons.prems(2) xs by auto
  obtain m1 where c: "conv (d + of_nat x) (s + of_nat x) (descr t @ concat (map descr fs) @ rest) m = Inr (Some (concat (map descr fs) @ rest), m1)"
    "copied (bytes_of t) (d + of_nat x) (s + of_nat x) m m1"
    using Cons.prems(1) [of t] apart_shift [OF Cons.prems(4) b(1)] by force
  obtain m2 where r: "convert_fields conv (map (\<lambda>x. (int x, int x)) ys) d s (Some (concat (map descr fs) @ rest)) m1 = Inr m2"
    "copied (\<Union>(x, B)\<in>set (zip ys (map bytes_of fs)). (+) x ` B) d s m1 m2"
    using Cons.IH [OF Cons.prems(1) b(3) xs(2) Cons.prems(4), of m1] by auto
  have "(\<Union>(x, B)\<in>set (zip ys (map bytes_of fs)). (+) x ` B) \<subseteq> {..<n}"
  proof
    fix k assume "k \<in> (\<Union>(x, B)\<in>set (zip ys (map bytes_of fs)). (+) x ` B)"
    then obtain y u where "(y, u) \<in> set (zip ys fs)" "k \<in> (+) y ` bytes_of u" by (auto simp: zip_map2)
    with b(3) show "k \<in> {..<n}" by fastforce
  qed
  moreover have "(+) x ` bytes_of t \<subseteq> {..<n}" using b(1,2) by fastforce
  ultimately have "copied ((+) x ` bytes_of t \<union> (\<Union>(x, B)\<in>set (zip ys (map bytes_of fs)). (+) x ` B)) d s m m2"
    by (intro copied_seq [OF copied_shift [OF c(2)] r(2) Cons.prems(4)])
  with c(1) r(1) xs show ?case by simp
qed simp

lemma zip_same: "zip (map f xs) (map f xs) = map (\<lambda>x. (f x, f x)) xs"
  by (induction xs) auto

lemma convert_copied:
  "known tab t \<Longrightarrow> size t < fuel \<Longrightarrow> apart d s (fst (dims t)) \<Longrightarrow>
   \<exists>m'. thunk_convert tab fuel th d s (descr t @ rest) m = Inr (Some rest, m') \<and> copied (bytes_of t) d s m m'"
proof (induction t arbitrary: fuel d s rest m)
  case (Scalar c)
  then obtain f where f: "fuel = Suc f" by (cases fuel) auto
  have "scalar_size c \<le> 8" by (simp add: scalar_size.simps)
  with Scalar f copied_scalar show ?case by simp
next
  case (Array n t)
  then obtain f where f: "fuel = Suc f" "size t < f" by (cases fuel) auto
  let ?z = "fst (dims t)"
  have k: "known tab t" using Array.prems by simp
  have one: "\<exists>q m'. thunk_convert tab f th d s (descr t @ rest) m = Inr (q, m') \<and> copied (bytes_of t) d s m m'"
    if "apart d s ?z" for d s m
    using Array.IH [OF k f(2) that] by blast
  obtain m' where "convert_array (\<lambda>d s m. thunk_convert tab f th d s (descr t @ rest) m) n d s (int ?z) (int ?z) m = Inr m'"
    "copied (\<Union>i<n. (+) (i * ?z) ` bytes_of t) d s m m'"
    using convert_array_copies [OF one bytes_of_bound [OF k]] Array.prems(3) by fastforce
  with f size_descr [OF k] next_descr [OF k] show ?case by simp
next
  case (Struct sid fs)
  then obtain f where f: "fuel = Suc f" "size_list size fs < f" by (cases fuel) auto
  let ?xs = "place_fields (map dims fs) 0"
  have k: "\<forall>t\<in>set fs. known tab t" and e: "entry_for fs (tab sid)" "convert (tab sid) = None" "sid < MAX_STRUCTS"
    using Struct.prems(1) by auto
  obtain rest' where types: "field_types (tab sid) = concat (map descr fs) @ rest'" using e(1) by (auto simp: entry_for_def)
  have "size t < f" if "t \<in> set fs" for t
    using size_list_estimation' [OF that order_refl, of size] f(2) by simp
  then have conv: "\<exists>m'. thunk_convert tab f th d s (descr t @ rest) m = Inr (Some rest, m') \<and> copied (bytes_of t) d s m m'"
    if "t \<in> set fs" "apart d s (fst (dims t))" for t d s rest m
    using Struct.IH [OF that(1) _ _ that(2)] k that(1) by blast
  have place: "\<forall>(x, t)\<in>set (zip ?xs fs). x + fst (dims t) \<le> fst (dims (Struct 0 fs)) \<and> bytes_of t \<subseteq> {..<fst (dims t)}"
  proof (clarify, intro conjI)
    fix x t assume "(x, t) \<in> set (zip ?xs fs)"
    then obtain j where j: "j < length fs" "x = ?xs ! j" "t = fs ! j" by (auto simp: set_zip)
    show "x + fst (dims t) \<le> fst (dims (Struct 0 fs))" unfolding j(2,3) by (rule place_bound [OF k j(1)])
    show "bytes_of t \<subseteq> {..<fst (dims t)}" unfolding j(3) using k j(1) by (intro bytes_of_bound [of tab]) simp
  qed
  have "apart d s (fst (dims (Struct 0 fs)))" using Struct.prems(3) by simp
  from convert_fields_copies [OF conv place _ this, where rest = rest' and m = m] obtain m' where
    "convert_fields (thunk_convert tab f th) (map (\<lambda>x. (int x, int x)) ?xs) d s (Some (concat (map descr fs) @ rest')) m = Inr m'"
    "copied (\<Union>(x, B)\<in>set (zip ?xs (map bytes_of fs)). (+) x ` B) d s m m'"
    by auto
  with f e types show ?case
    by (simp add: struct_at_def entry_for_def zip_same)
qed

text \<open>
  C38: What a conversion does.  For a value of a known type, with enough fuel and source and destination apart, it
  succeeds, passes over exactly the description of the type, copies every byte of the value that is not
  padding to the same place in the destination, and changes nothing else in memory, in either direction.
\<close>

theorem thunk_convert_copies:
  assumes "known tab t" and "size t < fuel"
    and "\<forall>k<fst (dims t). \<forall>l<fst (dims t). src + of_nat k \<noteq> dst + of_nat l"
  shows "\<exists>m'. thunk_convert tab fuel to_host dst src (descr t @ rest) m = Inr (Some rest, m') \<and>
     (\<forall>a. m' a = (if a \<in> (\<lambda>k. dst + of_nat k) ` bytes_of t then m (src + (a - dst)) else m a))"
  using convert_copied [OF assms(1,2)] assms(3) unfolding apart_def copied_def by blast

theorem thunk_convert_copies_witness:
  "\<exists>m'. thunk_convert (\<lambda>_. no_entry) 3 True 0x1000 0x2000 [TYPE_ARRAY, 3, TYPE_SHORT, TYPE_INT] (\<lambda>a. ucast a) = Inr (Some [TYPE_INT], m') \<and>
     m' 0x1005 = 5 \<and> m' 0x1006 = 6 \<and> m' 0x1017 = 0x17"
proof -
  have "0x2000 + of_nat k \<noteq> 0x1000 + (of_nat l :: u32)" if "k < 6" "l < 6" for k l
  proof
    assume "0x2000 + of_nat k = 0x1000 + (of_nat l :: u32)"
    then have "0x1000 + of_nat k = (of_nat l :: u32)" by simp
    then have "unat (0x1000 + of_nat k :: u32) = unat (of_nat l :: u32)" by (rule arg_cong)
    with that show False by (simp add: unat_word_ariths unat_of_nat)
  qed
  then obtain m' where c: "thunk_convert (\<lambda>_. no_entry) 3 True 0x1000 0x2000 (descr (Array 3 (Scalar 2)) @ [TYPE_INT]) (\<lambda>a. ucast a) = Inr (Some [TYPE_INT], m')"
    and a: "m' a = (if a \<in> (\<lambda>k. 0x1000 + of_nat k) ` bytes_of (Array 3 (Scalar 2)) then ucast (0x2000 + (a - 0x1000)) else ucast a)" for a
    using thunk_convert_copies [of "\<lambda>_. no_entry" "Array 3 (Scalar 2)" 3 "0x2000" "0x1000" True "[TYPE_INT]" "\<lambda>a. ucast a"]
    by (auto simp: scalar_size.simps)
  have "bytes_of (Array 3 (Scalar 2)) = {0, 1, 2, 3, 4, 5}"
    by (auto simp: scalar_size.simps lessThan_nat_numeral lessThan_Suc numeral_eq_Suc)
  with c a [of "0x1005"] a [of "0x1006"] a [of "0x1017"] show ?thesis by auto
qed

end
