(* ===== verification/Thunk_Tables.thy ===== *)
theory Thunk_Tables
  imports Thunk
begin

text \<open>
  The tables that \<^verbatim>\<open>syscall_init\<close> sets up (\<^verbatim>\<open>src/linux-user/syscall.c\<close>): the structures of
  \<^verbatim>\<open>src/linux-user/syscall_types.h\<close>, the conversion of terminal settings, the sizes in the numbers of
  \<^verbatim>\<open>ioctl\<close> requests, and the translation of error numbers.  The constants of the host's headers are those of Linux for i386, which
  are the guest's.
\<close>

unbundle bit_operations_syntax

section \<open>Terminal settings\<close>

text \<open>An entry whose mask and bits are the same on both sides.\<close>

definition same :: "u32 \<Rightarrow> u32 \<Rightarrow> bitmask_trans" where
  "same m b = \<lparr>x86_mask = m, x86_bits = b, alpha_mask = m, alpha_bits = b\<rparr>"

definition iflag_tbl :: "bitmask_trans list" where
  "iflag_tbl =
    [same 1 1, same 2 2, same 4 4, same 8 8, same 0x10 0x10, same 0x20 0x20, same 0x40 0x40, same 0x80 0x80,
     same 0x100 0x100, same 0x200 0x200, same 0x400 0x400, same 0x800 0x800, same 0x1000 0x1000,
     same 0x2000 0x2000, same 0 0]"

definition oflag_tbl :: "bitmask_trans list" where
  "oflag_tbl =
    [same 1 1, same 2 2, same 4 4, same 8 8, same 0x10 0x10, same 0x20 0x20, same 0x40 0x40, same 0x80 0x80,
     same 0x100 0, same 0x100 0x100, same 0x600 0, same 0x600 0x200, same 0x600 0x400, same 0x600 0x600,
     same 0x1800 0, same 0x1800 0x800, same 0x1800 0x1000, same 0x1800 0x1800, same 0x2000 0, same 0x2000 0x2000,
     same 0x4000 0, same 0x4000 0x4000, same 0x8000 0, same 0x8000 0x8000, same 0 0]"

definition cflag_tbl :: "bitmask_trans list" where
  "cflag_tbl =
    [same 0x100f 0, same 0x100f 1, same 0x100f 2, same 0x100f 3, same 0x100f 4, same 0x100f 5, same 0x100f 6,
     same 0x100f 7, same 0x100f 8, same 0x100f 9, same 0x100f 0xa, same 0x100f 0xb, same 0x100f 0xc,
     same 0x100f 0xd, same 0x100f 0xe, same 0x100f 0xf, same 0x100f 0x1001, same 0x100f 0x1002,
     same 0x100f 0x1003, same 0x100f 0x1004, same 0x30 0, same 0x30 0x10, same 0x30 0x20, same 0x30 0x30,
     same 0x40 0x40, same 0x80 0x80, same 0x100 0x100, same 0x200 0x200, same 0x400 0x400, same 0x800 0x800,
     same 0x80000000 0x80000000, same 0 0]"

definition lflag_tbl :: "bitmask_trans list" where
  "lflag_tbl =
    [same 1 1, same 2 2, same 4 4, same 8 8, same 0x10 0x10, same 0x20 0x20, same 0x40 0x40, same 0x80 0x80,
     same 0x100 0x100, same 0x200 0x200, same 0x400 0x400, same 0x800 0x800, same 0x1000 0x1000,
     same 0x4000 0x4000, same 0x8000 0x8000, same 0 0]"

text \<open>
  The structure \<^verbatim>\<open>termios\<close>: four words of flags, the line discipline, and 19 control characters, of which the first 17
  are converted, each to its own place.
\<close>

fun copy_cc :: "nat list \<Rightarrow> u32 \<Rightarrow> u32 \<Rightarrow> memory \<Rightarrow> memory" where
  "copy_cc [] dst src m = m"
| "copy_cc (i # is) dst src m = copy_cc is dst src (m(dst + 17 + of_nat i := m (src + 17 + of_nat i)))"

definition control_chars :: "nat list" where
  "control_chars = [0, 1, 2, 3, 4, 5, 6, 7, 8, 9, 10, 11, 12, 13, 14, 15, 16]"

definition target_to_host_termios :: "u32 \<Rightarrow> u32 \<Rightarrow> memory \<Rightarrow> memory" where
  "target_to_host_termios dst src m =
     (let m = st32 m dst (target_to_host_bitmask (ld32 m src) iflag_tbl);
          m = st32 m (dst + 4) (target_to_host_bitmask (ld32 m (src + 4)) oflag_tbl);
          m = st32 m (dst + 8) (target_to_host_bitmask (ld32 m (src + 8)) cflag_tbl);
          m = st32 m (dst + 12) (target_to_host_bitmask (ld32 m (src + 12)) lflag_tbl);
          m = m(dst + 16 := m (src + 16));
          m = write_bytes m (dst + 17) (replicate 19 0) in
      copy_cc control_chars dst src m)"

definition host_to_target_termios :: "u32 \<Rightarrow> u32 \<Rightarrow> memory \<Rightarrow> memory" where
  "host_to_target_termios dst src m =
     (let m = st32 m dst (host_to_target_bitmask (ld32 m src) iflag_tbl);
          m = st32 m (dst + 4) (host_to_target_bitmask (ld32 m (src + 4)) oflag_tbl);
          m = st32 m (dst + 8) (host_to_target_bitmask (ld32 m (src + 8)) cflag_tbl);
          m = st32 m (dst + 12) (host_to_target_bitmask (ld32 m (src + 12)) lflag_tbl);
          m = m(dst + 16 := m (src + 16));
          m = write_bytes m (dst + 17) (replicate 19 0) in
      copy_cc control_chars dst src m)"

definition struct_termios_def :: struct_entry where
  "struct_termios_def = no_entry\<lparr>
     convert := Some (\<lambda>to_host. if to_host then target_to_host_termios else host_to_target_termios),
     se_size := (\<lambda>_. 36), se_align := (\<lambda>_. 4)\<rparr>"

section \<open>Structures\<close>

text \<open>The descriptions, with the numbers the structures get from their order.\<close>

definition struct_defs :: "(nat \<times> argtype) list" where
  "struct_defs =
    [(1, [TYPE_SHORT, TYPE_SHORT, TYPE_SHORT, TYPE_SHORT, TYPE_NULL]),
      (2, [TYPE_INT, TYPE_INT, TYPE_CHAR, TYPE_CHAR, TYPE_INT, TYPE_CHAR, TYPE_CHAR, TYPE_INT, TYPE_CHAR, 
        TYPE_CHAR, TYPE_INT, TYPE_CHAR, TYPE_CHAR, TYPE_INT, TYPE_ARRAY, 32, TYPE_INT, TYPE_NULL]),
      (3, [TYPE_INT, TYPE_INT, TYPE_INT, TYPE_INT, TYPE_ARRAY, 16, TYPE_INT, TYPE_NULL]),
      (4, [TYPE_SHORT, TYPE_ARRAY, 14, TYPE_CHAR, TYPE_NULL]),
      (5, [TYPE_ULONG, TYPE_STRUCT, 4, TYPE_STRUCT, 4, TYPE_STRUCT, 4, TYPE_SHORT, TYPE_SHORT, TYPE_ULONG, 
        TYPE_PTRVOID, TYPE_SHORT, TYPE_PTRVOID, TYPE_ULONG, TYPE_ULONG, TYPE_SHORT, TYPE_NULL]),
      (6, [TYPE_ULONG, TYPE_ULONG, TYPE_SHORT, TYPE_CHAR, TYPE_CHAR, TYPE_CHAR, TYPE_CHAR, TYPE_CHAR, TYPE_CHAR, 
        TYPE_NULL]),
      (7, [TYPE_ARRAY, 16, TYPE_CHAR, TYPE_STRUCT, 4, TYPE_NULL]),
      (8, [TYPE_ARRAY, 16, TYPE_CHAR, TYPE_SHORT, TYPE_NULL]),
      (9, [TYPE_ARRAY, 16, TYPE_CHAR, TYPE_INT, TYPE_NULL]),
      (10, [TYPE_ARRAY, 16, TYPE_CHAR, TYPE_STRUCT, 6, TYPE_NULL]),
      (11, [TYPE_ARRAY, 16, TYPE_CHAR, TYPE_ARRAY, 16, TYPE_CHAR, TYPE_NULL]),
      (12, [TYPE_ARRAY, 16, TYPE_CHAR, TYPE_PTRVOID, TYPE_NULL]),
      (13, [TYPE_INT, TYPE_PTRVOID, TYPE_NULL]),
      (14, [TYPE_STRUCT, 4, TYPE_STRUCT, 4, TYPE_INT, TYPE_STRUCT, 4, TYPE_ARRAY, 16, TYPE_CHAR, TYPE_NULL]),
      (15, [TYPE_STRUCT, 4, TYPE_STRUCT, 4, TYPE_INT, TYPE_STRUCT, 4, TYPE_NULL]),
      (16, [TYPE_CHAR, TYPE_CHAR, TYPE_CHAR, TYPE_CHAR, TYPE_CHAR, TYPE_INT, TYPE_PTRVOID, TYPE_NULL, TYPE_NULL]),
      (17, [TYPE_CHAR, TYPE_CHAR, TYPE_SHORT, TYPE_ULONG, TYPE_NULL]),
      (18, [TYPE_LONG, TYPE_LONG, TYPE_SHORT, TYPE_ARRAY, 256, TYPE_CHAR, TYPE_NULL]),
      (19, [TYPE_CHAR, TYPE_CHAR, TYPE_SHORT, TYPE_NULL]),
      (20, [TYPE_CHAR, TYPE_ARRAY, 512, TYPE_CHAR, TYPE_NULL]),
      (21, [TYPE_INT, TYPE_INT, TYPE_INT, TYPE_INT, TYPE_NULL]),
      (22, [TYPE_INT, TYPE_INT, TYPE_INT, TYPE_NULL]),
      (23, [TYPE_ARRAY, 16, TYPE_CHAR, TYPE_ARRAY, 32, TYPE_CHAR, TYPE_INT, TYPE_ARRAY, 10, TYPE_INT, TYPE_NULL]),
      (24, [TYPE_INT, TYPE_SHORT, TYPE_ULONG, TYPE_SHORT, TYPE_INT, TYPE_INT, TYPE_INT, TYPE_INT, TYPE_ARRAY, 64, 
        TYPE_CHAR, TYPE_ARRAY, 32, TYPE_CHAR, TYPE_ARRAY, 2, TYPE_ULONG, TYPE_ARRAY, 4, TYPE_CHAR, TYPE_NULL]),
      (25, [TYPE_ULONGLONG, TYPE_ULONGLONG, TYPE_ULONGLONG, TYPE_ULONGLONG, TYPE_ULONG, TYPE_ULONG, TYPE_ULONG, 
        TYPE_ULONG, TYPE_ARRAY, 64, TYPE_CHAR, TYPE_ARRAY, 64, TYPE_CHAR, TYPE_ARRAY, 32, TYPE_CHAR, 
        TYPE_ARRAY, 2, TYPE_ULONGLONG, TYPE_NULL]),
      (26, [TYPE_SHORT, TYPE_INT, TYPE_NULL]),
      (27, [TYPE_LONG, TYPE_LONG, TYPE_LONG, TYPE_LONG, TYPE_LONG, TYPE_INT, TYPE_INT, TYPE_NULL]),
      (28, [TYPE_LONG, TYPE_NULL]),
      (29, [TYPE_ARRAY, 16, TYPE_CHAR, TYPE_ULONG, TYPE_INT, TYPE_INT, TYPE_INT, TYPE_INT, TYPE_SHORT, 
        TYPE_SHORT, TYPE_SHORT, TYPE_INT, TYPE_ULONG, TYPE_INT, TYPE_INT, TYPE_ARRAY, 3, TYPE_CHAR, 
        TYPE_NULL]),
      (30, [TYPE_INT, TYPE_INT, TYPE_INT, TYPE_INT, TYPE_INT, TYPE_INT, TYPE_INT, TYPE_INT, TYPE_ARRAY, 3, 
        TYPE_INT, TYPE_ARRAY, 3, TYPE_INT, TYPE_ARRAY, 3, TYPE_INT, TYPE_ARRAY, 3, TYPE_INT, TYPE_INT, 
        TYPE_INT, TYPE_INT, TYPE_INT, TYPE_INT, TYPE_INT, TYPE_INT, TYPE_INT, TYPE_INT, TYPE_INT, TYPE_INT, 
        TYPE_INT, TYPE_INT, TYPE_INT, TYPE_INT, TYPE_ARRAY, 5, TYPE_INT, TYPE_NULL]),
      (31, [TYPE_SHORT, TYPE_SHORT, TYPE_SHORT, TYPE_NULL])]"

text \<open>The register calls, in order.\<close>

fun register_structs :: "(nat \<times> argtype) list \<Rightarrow> structs \<Rightarrow> structs outcome" where
  "register_structs [] tab = Inr tab"
| "register_structs ((sid, types) # ds) tab = and_then (thunk_register_struct sid types tab) (register_structs ds)"

definition init_structs :: "structs outcome" where
  "init_structs = and_then (thunk_register_struct_direct 0 struct_termios_def (\<lambda>_. no_entry)) (register_structs struct_defs)"

section \<open>Error numbers\<close>

abbreviation (input) "ERRNO_TABLE_SIZE \<equiv> (1200 :: nat)"

definition errno_entries :: "(nat \<times> nat) list" where
  "errno_entries =
    [(43, 43), (44, 44), (45, 45), (46, 46), (47, 47), (48, 48), (49, 49), (50, 50), (51, 51), (35, 35), (37, 37),
     (52, 52), (53, 53), (54, 54), (55, 55), (56, 56), (57, 57), (59, 59), (60, 60), (61, 61), (62, 62), (63, 63),
     (64, 64), (65, 65), (66, 66), (67, 67), (68, 68), (69, 69), (70, 70), (71, 71), (73, 73), (72, 72), (74, 74),
     (36, 36), (75, 75), (76, 76), (77, 77), (78, 78), (79, 79), (80, 80), (81, 81), (82, 82), (83, 83), (84, 84),
     (38, 38), (40, 40), (85, 85), (86, 86), (39, 39), (87, 87), (88, 88), (89, 89), (90, 90), (91, 91), (92, 92),
     (93, 93), (94, 94), (95, 95), (96, 96), (97, 97), (98, 98), (99, 99), (100, 100), (101, 101), (102, 102),
     (103, 103), (104, 104), (105, 105), (106, 106), (107, 107), (117, 117), (118, 118), (119, 119), (120, 120),
     (121, 121), (108, 108), (109, 109), (110, 110), (111, 111), (112, 112), (113, 113), (114, 114), (115, 115),
     (116, 116), (125, 125), (123, 123), (124, 124), (126, 126), (127, 127), (128, 128), (129, 129), (130, 130),
     (131, 131)]"

definition host_to_target_errno_table :: "nat \<Rightarrow> nat" where
  "host_to_target_errno_table i = (case map_of errno_entries i of None \<Rightarrow> 0 | Some e \<Rightarrow> e)"

text \<open>The loop that builds the other table.\<close>

definition build_errno_table :: "(nat \<Rightarrow> nat) \<Rightarrow> nat \<Rightarrow> nat" where
  "build_errno_table tbl = fold (\<lambda>i t. t(host_to_target_errno_table i := i)) [0..<ERRNO_TABLE_SIZE] tbl"

definition host_to_target_errno :: "nat \<Rightarrow> nat" where
  "host_to_target_errno err = (if host_to_target_errno_table err \<noteq> 0 then host_to_target_errno_table err else err)"

definition target_to_host_errno :: "(nat \<Rightarrow> nat) \<Rightarrow> nat \<Rightarrow> nat" where
  "target_to_host_errno tbl err = (if tbl err \<noteq> 0 then tbl err else err)"

section \<open>The initialisation\<close>

record ioctl_entry =
  target_cmd :: u32
  host_cmd :: u32
  arg_type :: argtype

text \<open>
  The requests: a size of all ones is replaced by the size of the type the argument points to, which ends the
  program if the argument is no pointer.  The table of error numbers is built again at every entry.
\<close>

definition patch_cmd :: "structs \<Rightarrow> ioctl_entry \<Rightarrow> ioctl_entry outcome" where
  "patch_cmd tab ie =
     (if drop_bit 16 (target_cmd ie) AND 0x3fff = 0x3fff
      then
        (case arg_type ie of
           [] \<Rightarrow> Inl Out_Of_Bounds
         | t # p \<Rightarrow>
             if t \<noteq> TYPE_PTR then Inl Aborted
             else and_then (thunk_type_size tab p False) (\<lambda>size.
               Inr (ie\<lparr>target_cmd := (target_cmd ie AND NOT (push_bit 16 0x3fff)) OR push_bit 16 (of_int size)\<rparr>)))
      else Inr ie)"

fun patch_ioctls :: "structs \<Rightarrow> ioctl_entry list \<Rightarrow> (nat \<Rightarrow> nat) \<Rightarrow> (ioctl_entry list \<times> (nat \<Rightarrow> nat)) outcome" where
  "patch_ioctls tab [] tbl = Inl Out_Of_Bounds"
| "patch_ioctls tab (ie # ies) tbl =
     (if target_cmd ie = 0 then Inr (ie # ies, tbl)
      else
        and_then (patch_cmd tab ie) (\<lambda>ie'.
        and_then (patch_ioctls tab ies (build_errno_table tbl)) (\<lambda>(ies', tbl).
        Inr (ie' # ies', tbl))))"

definition syscall_init :: "ioctl_entry list \<Rightarrow> (structs \<times> ioctl_entry list \<times> (nat \<Rightarrow> nat)) outcome" where
  "syscall_init ioctls =
     and_then init_structs (\<lambda>tab.
     and_then (patch_ioctls tab ioctls (\<lambda>_. 0)) (\<lambda>(ies, tbl). Inr (tab, ies, tbl)))"

section \<open>What the structures are\<close>

abbreviation (input) "t_sockaddr \<equiv> Struct 4 [Scalar TYPE_SHORT, Array 14 (Scalar TYPE_CHAR)]"

abbreviation (input) "t_ifmap \<equiv> Struct 6 [Scalar TYPE_ULONG, Scalar TYPE_ULONG, Scalar TYPE_SHORT, Scalar TYPE_CHAR, Scalar TYPE_CHAR, Scalar TYPE_CHAR, Scalar TYPE_CHAR, Scalar TYPE_CHAR, Scalar TYPE_CHAR]"

text \<open>The fields of the structures as types; one description ends twice.\<close>

definition struct_types :: "(nat \<times> ctype list \<times> argtype) list" where
  "struct_types =
    [(1, [Scalar TYPE_SHORT, Scalar TYPE_SHORT, Scalar TYPE_SHORT, Scalar TYPE_SHORT], []),
     (2, [Scalar TYPE_INT, Scalar TYPE_INT, Scalar TYPE_CHAR, Scalar TYPE_CHAR, Scalar TYPE_INT,
         Scalar TYPE_CHAR, Scalar TYPE_CHAR, Scalar TYPE_INT, Scalar TYPE_CHAR, Scalar TYPE_CHAR,
         Scalar TYPE_INT, Scalar TYPE_CHAR, Scalar TYPE_CHAR, Scalar TYPE_INT, Array 32 (Scalar TYPE_INT)], []),
     (3, [Scalar TYPE_INT, Scalar TYPE_INT, Scalar TYPE_INT, Scalar TYPE_INT, Array 16 (Scalar TYPE_INT)], []),
     (4, [Scalar TYPE_SHORT, Array 14 (Scalar TYPE_CHAR)], []),
     (5, [Scalar TYPE_ULONG, t_sockaddr, t_sockaddr, t_sockaddr, Scalar TYPE_SHORT, Scalar TYPE_SHORT,
         Scalar TYPE_ULONG, Scalar TYPE_PTRVOID, Scalar TYPE_SHORT, Scalar TYPE_PTRVOID, Scalar TYPE_ULONG,
         Scalar TYPE_ULONG, Scalar TYPE_SHORT], []),
     (6, [Scalar TYPE_ULONG, Scalar TYPE_ULONG, Scalar TYPE_SHORT, Scalar TYPE_CHAR, Scalar TYPE_CHAR,
         Scalar TYPE_CHAR, Scalar TYPE_CHAR, Scalar TYPE_CHAR, Scalar TYPE_CHAR], []),
     (7, [Array 16 (Scalar TYPE_CHAR), t_sockaddr], []),
     (8, [Array 16 (Scalar TYPE_CHAR), Scalar TYPE_SHORT], []),
     (9, [Array 16 (Scalar TYPE_CHAR), Scalar TYPE_INT], []),
     (10, [Array 16 (Scalar TYPE_CHAR), t_ifmap], []),
     (11, [Array 16 (Scalar TYPE_CHAR), Array 16 (Scalar TYPE_CHAR)], []),
     (12, [Array 16 (Scalar TYPE_CHAR), Scalar TYPE_PTRVOID], []),
     (13, [Scalar TYPE_INT, Scalar TYPE_PTRVOID], []),
     (14, [t_sockaddr, t_sockaddr, Scalar TYPE_INT, t_sockaddr, Array 16 (Scalar TYPE_CHAR)], []),
     (15, [t_sockaddr, t_sockaddr, Scalar TYPE_INT, t_sockaddr], []),
     (16, [Scalar TYPE_CHAR, Scalar TYPE_CHAR, Scalar TYPE_CHAR, Scalar TYPE_CHAR, Scalar TYPE_CHAR,
         Scalar TYPE_INT, Scalar TYPE_PTRVOID], [TYPE_NULL]),
     (17, [Scalar TYPE_CHAR, Scalar TYPE_CHAR, Scalar TYPE_SHORT, Scalar TYPE_ULONG], []),
     (18, [Scalar TYPE_LONG, Scalar TYPE_LONG, Scalar TYPE_SHORT, Array 256 (Scalar TYPE_CHAR)], []),
     (19, [Scalar TYPE_CHAR, Scalar TYPE_CHAR, Scalar TYPE_SHORT], []),
     (20, [Scalar TYPE_CHAR, Array 512 (Scalar TYPE_CHAR)], []),
     (21, [Scalar TYPE_INT, Scalar TYPE_INT, Scalar TYPE_INT, Scalar TYPE_INT], []),
     (22, [Scalar TYPE_INT, Scalar TYPE_INT, Scalar TYPE_INT], []),
     (23, [Array 16 (Scalar TYPE_CHAR), Array 32 (Scalar TYPE_CHAR), Scalar TYPE_INT,
         Array 10 (Scalar TYPE_INT)], []),
     (24, [Scalar TYPE_INT, Scalar TYPE_SHORT, Scalar TYPE_ULONG, Scalar TYPE_SHORT, Scalar TYPE_INT,
         Scalar TYPE_INT, Scalar TYPE_INT, Scalar TYPE_INT, Array 64 (Scalar TYPE_CHAR),
         Array 32 (Scalar TYPE_CHAR), Array 2 (Scalar TYPE_ULONG), Array 4 (Scalar TYPE_CHAR)], []),
     (25, [Scalar TYPE_ULONGLONG, Scalar TYPE_ULONGLONG, Scalar TYPE_ULONGLONG, Scalar TYPE_ULONGLONG,
         Scalar TYPE_ULONG, Scalar TYPE_ULONG, Scalar TYPE_ULONG, Scalar TYPE_ULONG,
         Array 64 (Scalar TYPE_CHAR), Array 64 (Scalar TYPE_CHAR), Array 32 (Scalar TYPE_CHAR),
         Array 2 (Scalar TYPE_ULONGLONG)], []),
     (26, [Scalar TYPE_SHORT, Scalar TYPE_INT], []),
     (27, [Scalar TYPE_LONG, Scalar TYPE_LONG, Scalar TYPE_LONG, Scalar TYPE_LONG, Scalar TYPE_LONG,
         Scalar TYPE_INT, Scalar TYPE_INT], []),
     (28, [Scalar TYPE_LONG], []),
     (29, [Array 16 (Scalar TYPE_CHAR), Scalar TYPE_ULONG, Scalar TYPE_INT, Scalar TYPE_INT, Scalar TYPE_INT,
         Scalar TYPE_INT, Scalar TYPE_SHORT, Scalar TYPE_SHORT, Scalar TYPE_SHORT, Scalar TYPE_INT,
         Scalar TYPE_ULONG, Scalar TYPE_INT, Scalar TYPE_INT, Array 3 (Scalar TYPE_CHAR)], []),
     (30, [Scalar TYPE_INT, Scalar TYPE_INT, Scalar TYPE_INT, Scalar TYPE_INT, Scalar TYPE_INT,
         Scalar TYPE_INT, Scalar TYPE_INT, Scalar TYPE_INT, Array 3 (Scalar TYPE_INT),
         Array 3 (Scalar TYPE_INT), Array 3 (Scalar TYPE_INT), Array 3 (Scalar TYPE_INT), Scalar TYPE_INT,
         Scalar TYPE_INT, Scalar TYPE_INT, Scalar TYPE_INT, Scalar TYPE_INT, Scalar TYPE_INT,
         Scalar TYPE_INT, Scalar TYPE_INT, Scalar TYPE_INT, Scalar TYPE_INT, Scalar TYPE_INT,
         Scalar TYPE_INT, Scalar TYPE_INT, Scalar TYPE_INT, Scalar TYPE_INT, Array 5 (Scalar TYPE_INT)], []),
     (31, [Scalar TYPE_SHORT, Scalar TYPE_SHORT, Scalar TYPE_SHORT], [])]"

section \<open>Registering them\<close>

lemma struct_defs_types:
  "struct_defs = map (\<lambda>(sid, fs, r). (sid, concat (map descr fs) @ TYPE_NULL # r)) struct_types"
  by (simp add: struct_defs_def struct_types_def)

primrec struct_ids :: "ctype \<Rightarrow> nat set" where
  "struct_ids (Scalar c) = {}"
| "struct_ids (Array n t) = struct_ids t"
| "struct_ids (Struct sid fs) = insert sid (\<Union> (set (map struct_ids fs)))"

lemma known_cong: "\<forall>k\<in>struct_ids t. tab' k = tab k \<Longrightarrow> known tab' t = known tab t"
  by (induction t) auto

text \<open>A type uses only structures that come earlier, with the same fields.\<close>

text \<open>A generous bound of a type's size: a scalar has at most eight bytes, and at most as many are left out before a field.\<close>

fun size_bound :: "ctype \<Rightarrow> nat" where
  "size_bound (Scalar c) = 8"
| "size_bound (Array n t) = n * size_bound t"
| "size_bound (Struct sid fs) = sum_list (map (\<lambda>t. size_bound t + 8) fs) + 8"

lemma round_up_le: "a \<le> 8 \<Longrightarrow> round_up x a \<le> x + 8"
  using div_times_less_eq_dividend [of "x + a - 1" a] unfolding round_up_def by linarith

lemma max_align_le: "m \<le> 8 \<Longrightarrow> \<forall>d\<in>set ds. snd d \<le> 8 \<Longrightarrow> max_align ds m \<le> 8"
  by (induction ds m rule: max_align.induct) auto

lemma dims_align_le: "snd (dims t) \<le> 8"
proof (induction t)
  case (Struct sid fs)
  have "\<forall>d\<in>set (map dims fs). snd d \<le> 8" using Struct by simp
  then show ?case by (simp add: Let_def max_align_le)
qed (auto simp: scalar_size.simps)

lemma fields_end_le: "fields_end (map dims fs) x \<le> x + sum_list (map (\<lambda>t. fst (dims t) + 8) fs)"
proof (induction fs arbitrary: x)
  case (Cons t fs)
  obtain s a where d: "dims t = (s, a)" by (cases "dims t")
  then have "round_up x a \<le> x + 8" using dims_align_le [of t] by (intro round_up_le) simp
  with Cons.IH [of "round_up x a + s"] d show ?case by simp
qed simp

lemma dims_size_le: "fst (dims t) \<le> size_bound t"
proof (induction t)
  case (Struct sid fs)
  have "round_up (fields_end (map dims fs) 0) (max_align (map dims fs) 1) \<le> fields_end (map dims fs) 0 + 8"
    by (intro round_up_le max_align_le) (auto simp: dims_align_le)
  moreover have "sum_list (map (\<lambda>t. fst (dims t) + 8) fs) \<le> sum_list (map (\<lambda>t. size_bound t + 8) fs)"
    using Struct by (intro sum_list_mono) auto
  ultimately show ?case using fields_end_le [of fs 0] by (simp add: Let_def)
qed (auto simp: scalar_size.simps)

lemma fits_int_bound: "size_bound (Struct 0 fs) + 8 \<le> 2147483647 \<Longrightarrow> fits_int fs"
  using dims_size_le [of "Struct 0 fs"] unfolding fits_int_def by linarith

fun uses :: "(nat \<times> ctype list) list \<Rightarrow> ctype \<Rightarrow> bool" where
  "uses earlier (Scalar c) \<longleftrightarrow> TYPE_CHAR \<le> c \<and> c \<le> TYPE_ULONGLONG"
| "uses earlier (Array n t) \<longleftrightarrow> uses earlier t"
| "uses earlier (Struct sid fs) \<longleftrightarrow> (sid, fs) \<in> set earlier"

fun in_order :: "(nat \<times> ctype list) list \<Rightarrow> (nat \<times> ctype list \<times> argtype) list \<Rightarrow> bool" where
  "in_order earlier [] \<longleftrightarrow> True"
| "in_order earlier ((sid, fs, r) # ds) \<longleftrightarrow>
     sid < MAX_STRUCTS \<and> sid \<noteq> 0 \<and> sid \<notin> fst ` set earlier \<and> (\<forall>t\<in>set fs. uses earlier t) \<and> fits_int fs \<and> in_order ((sid, fs) # earlier) ds"

definition all_known :: "structs \<Rightarrow> (nat \<times> ctype list) list \<Rightarrow> bool" where
  "all_known tab earlier \<longleftrightarrow>
     (\<forall>(sid, fs)\<in>set earlier. known tab (Struct sid fs) \<and> struct_ids (Struct sid fs) \<subseteq> fst ` set earlier)"

lemma uses_known:
  "all_known tab earlier \<Longrightarrow> uses earlier t \<Longrightarrow> known tab t \<and> struct_ids t \<subseteq> fst ` set earlier"
  by (induction t) (auto simp: all_known_def simp del: known.simps(3) struct_ids.simps(3))

lemma register_all_known:
  assumes "in_order earlier ds" "all_known tab earlier" "\<forall>k. k \<noteq> 0 \<longrightarrow> convert (tab k) = None"
  shows "\<exists>tab'. register_structs (map (\<lambda>(sid, fs, r). (sid, concat (map descr fs) @ TYPE_NULL # r)) ds) tab = Inr tab' \<and>
     all_known tab' (map (\<lambda>(sid, fs, r). (sid, fs)) (rev ds) @ earlier) \<and> tab' 0 = tab 0"
  using assms
proof (induction earlier ds arbitrary: tab rule: in_order.induct)
  case (2 earlier sid fs r ds)
  have k: "\<forall>t\<in>set fs. known tab t" "\<forall>t\<in>set fs. struct_ids t \<subseteq> fst ` set earlier"
    using uses_known [OF "2.prems"(2)] "2.prems"(1) by auto
  have sid: "sid < MAX_STRUCTS" "sid \<noteq> 0" "sid \<notin> fst ` set earlier" "fits_int fs" using "2.prems"(1) by auto
  obtain tab1 where t: "thunk_register_struct sid (concat (map descr fs) @ TYPE_NULL # r) tab = Inr tab1"
    "entry_for fs (tab1 sid)" "convert (tab1 sid) = convert (tab sid)" "\<forall>k. k \<noteq> sid \<longrightarrow> tab1 k = tab k"
    using register_known [OF k(1) sid(1,4)] by blast
  have same: "known tab1 u = known tab u" if "struct_ids u \<subseteq> fst ` set earlier" for u
  proof (intro known_cong ballI)
    fix k assume "k \<in> struct_ids u"
    then have "k \<noteq> sid" using that sid(3) by blast
    then show "tab1 k = tab k" using t(4) by simp
  qed
  have old: "known tab1 (Struct s gs) \<and> struct_ids (Struct s gs) \<subseteq> fst ` set earlier" if "(s, gs) \<in> set earlier" for s gs
    using "2.prems"(2) that same [of "Struct s gs"] unfolding all_known_def by blast
  have "known tab1 (Struct sid fs)"
    using t(2,3) sid k same "2.prems"(3) by auto
  moreover have "struct_ids (Struct sid fs) \<subseteq> fst ` set ((sid, fs) # earlier)" using k(2) by auto
  ultimately have "all_known tab1 ((sid, fs) # earlier)"
    using old unfolding all_known_def by (auto simp del: known.simps struct_ids.simps)
  moreover have "\<forall>k. k \<noteq> 0 \<longrightarrow> convert (tab1 k) = None" using t(3,4) "2.prems"(3) by metis
  moreover have "tab1 0 = tab 0" using t(4) sid(2) by simp
  ultimately obtain tab' where
    "register_structs (map (\<lambda>(sid, fs, r). (sid, concat (map descr fs) @ TYPE_NULL # r)) ds) tab1 = Inr tab'"
    "all_known tab' (map (\<lambda>(sid, fs, r). (sid, fs)) (rev ds) @ (sid, fs) # earlier)" "tab' 0 = tab 0"
    using "2.IH" [of tab1] "2.prems"(1) by auto
  with t(1) show ?case by simp
qed simp

lemma init_structs_known:
  "\<exists>tab. init_structs = Inr tab \<and> tab 0 = struct_termios_def \<and>
     (\<forall>p\<in>set struct_types. known tab (Struct (fst p) (fst (snd p))))"
proof -
  have "\<forall>p\<in>set struct_types. fits_int (fst (snd p))"
    by (rule ballI, rule fits_int_bound) (auto simp: struct_types_def)
  then have order: "in_order [] struct_types" by (simp add: struct_types_def)
  let ?tab = "(\<lambda>_. no_entry)(0 := struct_termios_def)"
  obtain tab where r: "register_structs struct_defs ?tab = Inr tab"
    "all_known tab (map (\<lambda>(sid, fs, r). (sid, fs)) (rev struct_types))" "tab 0 = struct_termios_def"
    using register_all_known [OF order, of ?tab] by (auto simp: all_known_def no_entry_def struct_defs_types)
  have "known tab (Struct (fst p) (fst (snd p)))" if "p \<in> set struct_types" for p
  proof -
    have "(fst p, fst (snd p)) \<in> set (map (\<lambda>(sid, fs, r). (sid, fs)) (rev struct_types))"
      using that by (force simp: case_prod_beta)
    with r(2) show ?thesis unfolding all_known_def by blast
  qed
  with r show ?thesis by (simp add: init_structs_def thunk_register_struct_direct_def)
qed

text \<open>
  Every structure the guest can pass to a request is known.  The register calls of \<^verbatim>\<open>syscall_init\<close> all succeed, whatever
  the requests are, and afterwards every structure of the list is registered with the fields it is described with and
  laid out for them, so that a value of it can be measured and converted; the structure of terminal settings has its own
  conversion.
\<close>

theorem syscall_init_structs:
  "\<exists>tab. init_structs = Inr tab \<and> tab 0 = struct_termios_def \<and>
     list_all (\<lambda>(sid, fs, r). known tab (Struct sid fs)) struct_types"
proof -
  obtain tab where "init_structs = Inr tab" "tab 0 = struct_termios_def"
    "\<forall>p\<in>set struct_types. known tab (Struct (fst p) (fst (snd p)))"
    using init_structs_known by blast
  then show ?thesis by (intro exI [of _ tab]) (auto simp: list_all_iff simp del: known.simps)
qed

section \<open>Error numbers there and back\<close>

lemma errno_same: "\<forall>(a, b)\<in>set errno_entries. a = b \<and> 0 < a \<and> a < 1199"
  by (simp add: errno_entries_def)

definition listed :: "nat \<Rightarrow> bool" where
  "listed n \<longleftrightarrow> map_of errno_entries n \<noteq> None"

lemma listed_bounds: "listed n \<Longrightarrow> 0 < n \<and> n < 1199"
  using errno_same by (auto simp: listed_def dest!: map_of_SomeD)

lemma host_table: "host_to_target_errno_table n = (if listed n then n else 0)"
  using errno_same by (auto simp: host_to_target_errno_table_def listed_def split: option.split dest!: map_of_SomeD)

lemma build_range:
  "fold (\<lambda>i t. t(host_to_target_errno_table i := i)) [0..<n] tbl j =
     (if j = 0 then (if n = 0 then tbl 0 else if \<exists>i<n. \<not> listed i then Max {i. i < n \<and> \<not> listed i} else tbl 0)
      else if listed j \<and> j < n then j else tbl j)"
proof (induction n arbitrary: j)
  case (Suc n)
  have "{i. i < Suc n \<and> \<not> listed i} = (if listed n then {i. i < n \<and> \<not> listed i} else insert n {i. i < n \<and> \<not> listed i})"
    by (auto simp: less_Suc_eq)
  moreover have "Max (insert n {i. i < n \<and> \<not> listed i}) = n" by (rule Max_eqI) auto
  moreover have "\<not> listed 0" using listed_bounds by blast
  ultimately show ?case
    using Suc listed_bounds [of n] by (auto simp: host_table less_Suc_eq)
qed simp

lemma build_errno: "build_errno_table tbl = (\<lambda>j. if j = 0 then 1199 else if listed j then j else tbl j)"
proof
  fix j
  have n: "\<not> listed 1199" using listed_bounds by blast
  have "Max {i. i < 1200 \<and> \<not> listed i} = 1199" by (rule Max_eqI) (use n in auto)
  then show "build_errno_table tbl j = (if j = 0 then 1199 else if listed j then j else tbl j)"
    using n listed_bounds [of j] unfolding build_errno_table_def build_range by (auto intro: exI [of _ 1199])
qed

definition errno_table :: "nat \<Rightarrow> nat" where
  "errno_table j = (if j = 0 then 1199 else if listed j then j else 0)"

lemma build_again: "build_errno_table errno_table = errno_table"
  by (rule ext) (simp add: build_errno errno_table_def)

lemma patch_errno: "patch_ioctls tab ies errno_table = Inr (ies', tbl) \<Longrightarrow> tbl = errno_table"
  by (induction tab ies errno_table arbitrary: ies' rule: patch_ioctls.induct)
    (auto simp: build_again split: if_splits)

text \<open>
  Error numbers survive the way from the host to the guest and back.  Once \<^verbatim>\<open>syscall_init\<close> has returned, having
  seen at least one request, every error number from 1 to 1199 is translated back to itself, and so is every one
  of the guest.  The number 0, which is no error, becomes 1199: all the numbers without an entry of their own leave
  their mark at the place 0, the last of them for good.
\<close>

theorem errno_roundtrip:
  assumes "syscall_init (ie # ioctls) = Inr (tab, ies, tbl)" and "target_cmd ie \<noteq> 0" and "0 < n" and "n < ERRNO_TABLE_SIZE"
  shows "target_to_host_errno tbl (host_to_target_errno n) = n \<and> host_to_target_errno (target_to_host_errno tbl n) = n \<and>
     target_to_host_errno tbl 0 = 1199"
proof -
  obtain tab' ies' where "patch_ioctls tab' ioctls (build_errno_table (\<lambda>_. 0)) = Inr (ies', tbl)"
    using assms(1,2) by (auto simp: syscall_init_def split: if_splits)
  moreover have "build_errno_table (\<lambda>_. 0) = errno_table"
    by (rule ext) (simp add: build_errno errno_table_def)
  ultimately have "tbl = errno_table" using patch_errno by simp
  with assms(3) show ?thesis
    by (auto simp: target_to_host_errno_def host_to_target_errno_def host_table errno_table_def)
qed

text \<open>A request whose size is the one of the structure of its argument, and one that needs none.\<close>

definition demo_ioctls :: "ioctl_entry list" where
  "demo_ioctls = [\<lparr>target_cmd = 0x5413, host_cmd = 0x5413, arg_type = [TYPE_PTR, TYPE_STRUCT, 1]\<rparr>, \<lparr>target_cmd = 0, host_cmd = 0, arg_type = []\<rparr>]"

theorem errno_roundtrip_witness:
  "\<exists>tab tbl. syscall_init demo_ioctls = Inr (tab, demo_ioctls, tbl) \<and>
     target_to_host_errno tbl (host_to_target_errno 38) = 38 \<and> target_to_host_errno tbl 0 = 1199"
proof -
  obtain tab where "init_structs = Inr tab" using init_structs_known by blast
  then have init: "syscall_init demo_ioctls = Inr (tab, demo_ioctls, build_errno_table (\<lambda>_. 0))"
    by (simp add: syscall_init_def demo_ioctls_def patch_cmd_def)
  show ?thesis
    using errno_roundtrip [OF init [unfolded demo_ioctls_def(1)], of 38] init by (auto simp: demo_ioctls_def)
qed

end
