(* ===== verification/Termios.thy ===== *)
theory Termios
  imports Thunk_Tables
begin

text \<open>
  What the conversion of terminal settings does.  The tables of \<^verbatim>\<open>src/linux-user/syscall.c\<close> describe fields of a word of
  flags by listing the values a field can have; a field with all its values in the table is passed on as it is, and so a
  table of such fields is a mask.
\<close>

unbundle bit_operations_syntax

section \<open>Tables of fields\<close>

definition field_rows :: "u32 \<times> u32 list \<Rightarrow> bitmask_trans list" where
  "field_rows f = map (same (fst f)) (snd f)"

definition kept :: "u32 \<Rightarrow> u32 \<times> u32 list \<Rightarrow> u32" where
  "kept x f = (if x AND fst f \<in> set (snd f) then x AND fst f else 0)"

lemma or_same: "(a :: u32) OR b OR b = a OR b"
  by (rule bit_word_eqI) (auto simp: bit_or_iff)

lemma same_simps [simp]: "x86_mask (same m v) = m" "x86_bits (same m v) = v" "alpha_mask (same m v) = m" "alpha_bits (same m v) = v"
  by (simp_all add: same_def)

lemma field_row_loop:
  assumes "m \<noteq> 0"
  shows "to_host_loop x (map (same m) vs @ tbl) acc = to_host_loop x tbl (acc OR kept x (m, vs))"
  using assms
proof (induction vs arbitrary: acc)
  case (Cons v vs)
  have "(if x AND m = v then acc OR v else acc) OR kept x (m, vs) = acc OR kept x (m, v # vs)"
    by (auto simp: kept_def or_same)
  then have "to_host_loop x (map (same m) vs @ tbl) (if x AND m = v then acc OR v else acc) =
      to_host_loop x tbl (acc OR kept x (m, v # vs))"
    using Cons by metis
  with Cons.prems show ?case by (cases "x AND m = v") simp_all
qed (simp add: kept_def)

lemma fields_loop:
  assumes "\<forall>f\<in>set fs. fst f \<noteq> 0"
  shows "to_host_loop x (concat (map field_rows fs) @ [same 0 0]) acc = fold (\<lambda>f w. w OR kept x f) fs acc"
  using assms
  by (induction fs arbitrary: acc) (auto simp: field_rows_def field_row_loop)

text \<open>A field is whole when all its values are listed.\<close>

definition whole :: "u32 \<times> u32 list \<Rightarrow> bool" where
  "whole f \<longleftrightarrow> (\<forall>x. kept x f = x AND fst f)"

lemma whole_fields: "\<forall>f\<in>set fs. whole f \<Longrightarrow> fold (\<lambda>f w. w OR kept x f) fs (x AND a) = x AND fold (\<lambda>f w. w OR fst f) fs a"
proof (induction fs arbitrary: a)
  case (Cons f fs)
  have "x AND a OR x AND fst f = x AND (a OR fst f)"
    by (rule bit_word_eqI) (auto simp: bit_simps)
  with Cons show ?case by (simp add: whole_def)
qed simp

lemma whole_bit: "whole (push_bit k 1, [push_bit k 1])"
proof -
  have "x AND push_bit k 1 = (if bit x k then push_bit k 1 else 0)" for x :: u32
    by (rule bit_word_eqI) (auto simp: bit_simps)
  then show ?thesis by (simp add: whole_def kept_def)
qed

lemma whole_bit_0: "whole (push_bit k 1, [0, push_bit k 1])"
proof -
  have "kept x (push_bit k 1, [0, push_bit k 1]) = kept x (push_bit k 1, [push_bit k 1])" for x
    by (simp add: kept_def)
  with whole_bit [of k] show ?thesis by (simp add: whole_def)
qed

lemma whole_two: "whole (push_bit k 3, [0, push_bit k 1, push_bit k 2, push_bit k 3])"
proof -
  have "x AND push_bit k 3 \<in> {0, push_bit k 1, push_bit k 2, push_bit k 3}" for x :: u32
  proof -
    have "x AND push_bit k (mask 2) = push_bit k (take_bit 2 (drop_bit k x))"
      by (rule bit_word_eqI) (auto simp: bit_simps)
    then have "x AND push_bit k 3 = push_bit k (take_bit 2 (drop_bit k x))" by (simp add: mask_eq_exp_minus_1)
    moreover have "unat (take_bit 2 (drop_bit k x)) < 4"
      using take_bit_nat_less_exp [of 2 "unat (drop_bit k x)"] by (simp add: unsigned_take_bit_eq)
    then have "unat (take_bit 2 (drop_bit k x)) \<in> {0, 1, 2, 3}" by auto
    then have "take_bit 2 (drop_bit k x) \<in> {0, 1, 2, 3}" by (auto simp: word_unat_eq_iff)
    ultimately show ?thesis by auto
  qed
  then show ?thesis by (auto simp: whole_def kept_def)
qed

lemma fold_kept: "fold (\<lambda>f w. w OR kept x f) fs a = a OR fold (\<lambda>f w. w OR kept x f) fs 0"
proof (induction fs arbitrary: a)
  case (Cons f fs)
  show ?case by (simp add: Cons [of "a OR kept x f"] Cons [of "kept x f"] or.assoc)
qed simp

text \<open>The masks the tables stand for; of the speeds only those up to 460800 baud are listed.\<close>

definition bauds :: "u32 list" where
  "bauds = [0, 1, 2, 3, 4, 5, 6, 7, 8, 9, 0xa, 0xb, 0xc, 0xd, 0xe, 0xf, 0x1001, 0x1002, 0x1003, 0x1004]"

abbreviation (input) "flag k \<equiv> (push_bit k 1 :: u32, [push_bit k 1 :: u32])"
abbreviation (input) "choice k \<equiv> (push_bit k 1 :: u32, [0, push_bit k 1 :: u32])"
abbreviation (input) "choice2 k \<equiv> (push_bit k 3 :: u32, [0, push_bit k 1, push_bit k 2, push_bit k 3 :: u32])"

lemma whole_flags: "\<forall>k\<in>set ks. k < 32 \<Longrightarrow> \<forall>f\<in>set (map (\<lambda>k. flag k) ks). fst f \<noteq> 0 \<and> whole f"
  using whole_bit by auto

lemma whole_choice: "k < 32 \<Longrightarrow> fst (choice k) \<noteq> 0 \<and> whole (choice k)"
  using whole_bit_0 by auto

lemma whole_choice2: "k < 31 \<Longrightarrow> fst (choice2 k) \<noteq> 0 \<and> whole (choice2 k)"
proof -
  assume "k < 31"
  then have "bit (push_bit k 3 :: u32) k" by (simp add: bit_push_bit_iff)
  then have "push_bit k 3 \<noteq> (0 :: u32)" by auto
  with whole_two show ?thesis by simp
qed

lemma whole_loop:
  assumes "\<forall>f\<in>set fs. fst f \<noteq> 0 \<and> whole f"
  shows "to_host_loop x (concat (map field_rows fs) @ [same 0 0]) acc = acc OR (x AND fold (\<lambda>f w. w OR fst f) fs 0)"
proof -
  have "fold (\<lambda>f w. w OR kept x f) fs 0 = x AND fold (\<lambda>f w. w OR fst f) fs 0"
    using whole_fields [of fs x 0] assms by simp
  then show ?thesis using assms by (subst fields_loop) (simp, subst fold_kept, simp)
qed

lemma iflag_mask: "target_to_host_bitmask x iflag_tbl = x AND 0x3fff"
proof -
  let ?fs = "map (\<lambda>k. flag k) [0..<14]"
  have "iflag_tbl = concat (map field_rows ?fs) @ [same 0 0]"
    by (simp add: iflag_tbl_def field_rows_def upt_rec)
  then show ?thesis
    using whole_loop [OF whole_flags, of "[0..<14]" x 0] by (simp add: target_to_host_bitmask_def upt_rec)
qed

lemma oflag_mask: "target_to_host_bitmask x oflag_tbl = x AND 0xffff"
proof -
  let ?fs = "map (\<lambda>k. flag k) [0..<8] @ [choice 8, choice2 9, choice2 11, choice 13, choice 14, choice 15]"
  have "oflag_tbl = concat (map field_rows ?fs) @ [same 0 0]"
    by (simp add: oflag_tbl_def field_rows_def upt_rec)
  moreover have "\<forall>f\<in>set ?fs. fst f \<noteq> 0 \<and> whole f"
    using whole_flags [of "[0..<8]"] whole_choice [of 8] whole_choice [of 13] whole_choice [of 14] whole_choice [of 15]
      whole_choice2 [of 9] whole_choice2 [of 11]
    unfolding set_append set_map list.set by (simp add: ball_Un)
  ultimately show ?thesis
    using whole_loop [of ?fs x 0] by (simp add: target_to_host_bitmask_def upt_rec)
qed

lemma lflag_mask: "target_to_host_bitmask x lflag_tbl = x AND 0xdfff"
proof -
  let ?fs = "map (\<lambda>k. flag k) ([0..<13] @ [14, 15])"
  have "lflag_tbl = concat (map field_rows ?fs) @ [same 0 0]"
    by (simp add: lflag_tbl_def field_rows_def upt_rec)
  then show ?thesis
    using whole_loop [OF whole_flags, of "[0..<13] @ [14, 15]" x 0] by (simp add: target_to_host_bitmask_def upt_rec)
qed

definition control_flags :: "u32 \<Rightarrow> u32" where
  "control_flags x = (if x AND 0x100f \<in> set bauds then x AND 0x100f else 0) OR (x AND 0x80000ff0)"

lemma cflag_mask: "target_to_host_bitmask x cflag_tbl = control_flags x"
proof -
  let ?fs = "choice2 4 # map (\<lambda>k. flag k) [6, 7, 8, 9, 10, 11, 31]"
  have tbl: "cflag_tbl = map (same 0x100f) bauds @ concat (map field_rows ?fs) @ [same 0 0]"
    by (simp add: cflag_tbl_def field_rows_def bauds_def)
  have whole: "\<forall>f\<in>set ?fs. fst f \<noteq> 0 \<and> whole f"
    using whole_flags [of "[6, 7, 8, 9, 10, 11, 31]"] whole_choice2 [of 4] by simp
  have "target_to_host_bitmask x cflag_tbl = (0 OR kept x (0x100f, bauds)) OR (x AND fold (\<lambda>f w. w OR fst f) ?fs 0)"
    unfolding target_to_host_bitmask_def tbl by (subst field_row_loop, simp, rule whole_loop [OF whole])
  then show ?thesis by (simp add: control_flags_def kept_def)
qed

definition same_sides :: "bitmask_trans \<Rightarrow> bool" where
  "same_sides r \<longleftrightarrow> x86_mask r = alpha_mask r \<and> x86_bits r = alpha_bits r"

lemma host_to_target_same: "\<forall>r\<in>set tbl. same_sides r \<Longrightarrow> host_to_target_bitmask x tbl = target_to_host_bitmask x tbl"
proof -
  have "\<forall>r\<in>set tbl. same_sides r \<Longrightarrow> to_target_loop x tbl acc = to_host_loop x tbl acc" for acc
    by (induction tbl arbitrary: acc) (auto simp: same_sides_def)
  then show "\<forall>r\<in>set tbl. same_sides r \<Longrightarrow> host_to_target_bitmask x tbl = target_to_host_bitmask x tbl"
    by (simp add: host_to_target_bitmask_def target_to_host_bitmask_def)
qed

lemma both_directions: "host_to_target_termios = target_to_host_termios"
proof -
  have "host_to_target_bitmask x tbl = target_to_host_bitmask x tbl" if "tbl \<in> {iflag_tbl, oflag_tbl, cflag_tbl, lflag_tbl}" for x tbl
    using that by (intro host_to_target_same) (auto simp: iflag_tbl_def oflag_tbl_def cflag_tbl_def lflag_tbl_def same_sides_def)
  then show ?thesis by (intro ext) (simp add: host_to_target_termios_def target_to_host_termios_def)
qed

section \<open>The structure as a run of bytes\<close>

lemma write_bytes_apply:
  assumes "length bs < 2 ^ 32"
  shows "write_bytes m p bs a = (if a \<in> region p (length bs) then bs ! unat (a - p) else m a)"
proof (cases "a \<in> region p (length bs)")
  case True
  then have "write_bytes m p bs (p + of_nat (unat (a - p))) = bs ! unat (a - p)"
    using assms by (intro write_bytes_at) (simp_all add: region_def)
  with True show ?thesis by simp
qed (simp add: write_bytes_frame)

lemma write_bytes_over:
  assumes "length us = length ys" "length (ys @ zs) < 2 ^ 32"
  shows "write_bytes (write_bytes m p (us @ zs)) p ys = write_bytes m p (ys @ zs)"
proof
  fix a
  show "write_bytes (write_bytes m p (us @ zs)) p ys a = write_bytes m p (ys @ zs) a"
    using assms by (simp add: write_bytes_apply region_def nth_append)
qed

lemma copy_cc_run:
  assumes "\<forall>k<n. \<forall>l<n. src + 17 + of_nat k \<noteq> dst + 17 + of_nat l"
  shows "copy_cc [i..<n] dst src m = write_bytes m (dst + 17 + of_nat i) (read_bytes m (src + 17 + of_nat i) (n - i))"
proof (induction "n - i" arbitrary: i m)
  case (Suc k)
  let ?m = "m(dst + 17 + of_nat i := m (src + 17 + of_nat i))"
  have i: "i < n" "k = n - Suc i" using Suc.hyps(2) by simp_all
  have "read_bytes ?m (src + 17 + of_nat (Suc i)) (n - Suc i) = read_bytes m (src + 17 + of_nat (Suc i)) (n - Suc i)"
  proof (rule nth_equalityI)
    fix j assume "j < length (read_bytes ?m (src + 17 + of_nat (Suc i)) (n - Suc i))"
    then have j: "j < n - Suc i" by simp
    then have "src + 17 + of_nat (Suc i + j) \<noteq> dst + 17 + of_nat i" using assms i(1) by (metis add.commute less_diff_conv)
    with j show "read_bytes ?m (src + 17 + of_nat (Suc i)) (n - Suc i) ! j = read_bytes m (src + 17 + of_nat (Suc i)) (n - Suc i) ! j"
      by (simp add: read_bytes_nth add.assoc)
  qed simp
  moreover have "n - i = Suc (n - Suc i)" using i(1) by simp
  ultimately show ?case
    using Suc.hyps(1) [OF i(2), of ?m] i(1) by (simp add: upt_conv_Cons algebra_simps)
qed simp

lemma write_grow: "write_bytes (write_bytes m p xs) (p + of_nat (length xs)) ys = write_bytes m p (xs @ ys)"
  by (simp add: write_bytes_append)

lemma source_untouched:
  assumes "apart dst src 36" "length bs \<le> 36" "j < 36"
  shows "write_bytes m dst bs (src + of_nat j) = m (src + of_nat j)"
proof (rule write_bytes_frame)
  show "src + of_nat j \<notin> region dst (length bs)"
  proof
    assume "src + of_nat j \<in> region dst (length bs)"
    then have "unat (src + of_nat j - dst) < 36" "src + of_nat j = dst + of_nat (unat (src + of_nat j - dst))"
      using assms(2) by (simp_all add: region_def)
    with assms(1,3) show False unfolding apart_def by blast
  qed
qed

lemma source_word:
  assumes "apart dst src 36" "length bs \<le> 36" "j + 4 \<le> 36"
  shows "ld32 (write_bytes m dst bs) (src + of_nat j) = ld32 m (src + of_nat j)"
proof -
  have "write_bytes m dst bs (src + of_nat j + of_nat i) = m (src + of_nat j + of_nat i)" if "i < 4" for i
    using source_untouched [OF assms(1,2), of "j + i"] assms(3) that by (simp add: add.assoc)
  from this [of 0] this [of 1] this [of 2] this [of 3] show ?thesis by (simp add: ld32_def)
qed

lemma source_run:
  assumes "apart dst src 36" "length bs \<le> 36" "j + n \<le> 36"
  shows "read_bytes (write_bytes m dst bs) (src + of_nat j) n = read_bytes m (src + of_nat j) n"
proof (rule nth_equalityI)
  fix i assume "i < length (read_bytes (write_bytes m dst bs) (src + of_nat j) n)"
  then show "read_bytes (write_bytes m dst bs) (src + of_nat j) n ! i = read_bytes m (src + of_nat j) n ! i"
    using source_untouched [OF assms(1,2), of "j + i"] assms(3) by (simp add: read_bytes_nth add.assoc)
qed simp

text \<open>The 36 bytes the guest's structure becomes.\<close>

definition settings :: "memory \<Rightarrow> u32 \<Rightarrow> u8 list" where
  "settings m src =
     bytes32 (ld32 m src AND 0x3fff) @ bytes32 (ld32 m (src + 4) AND 0xffff) @ bytes32 (control_flags (ld32 m (src + 8))) @
     bytes32 (ld32 m (src + 12) AND 0xdfff) @ read_bytes m (src + 16) 18 @ [0, 0]"

lemma control_chars_upt: "control_chars = [0..<17]"
  by (simp add: control_chars_def upt_rec)

lemma termios_bytes:
  assumes "apart dst src 36"
  shows "target_to_host_termios dst src m = write_bytes m dst (settings m src)"
proof -
  let ?a = "bytes32 (ld32 m src AND 0x3fff)" and ?b = "bytes32 (ld32 m (src + 4) AND 0xffff)"
    and ?c = "bytes32 (control_flags (ld32 m (src + 8)))" and ?d = "bytes32 (ld32 m (src + 12) AND 0xdfff)"
  let ?bs = "?a @ ?b @ ?c @ ?d @ [m (src + 16)]"
  have run: "read_bytes (write_bytes m dst (?bs @ replicate 19 0)) (src + 17) 17 = read_bytes m (src + 17) 17"
    using source_run [OF assms, of "?bs @ replicate 19 0" 17 17 m] by simp
  have words: "ld32 (write_bytes m dst ?a) (src + 4) = ld32 m (src + 4)"
    "ld32 (write_bytes m dst (?a @ ?b)) (src + 8) = ld32 m (src + 8)"
    "ld32 (write_bytes m dst (?a @ ?b @ ?c)) (src + 12) = ld32 m (src + 12)"
    "write_bytes m dst (?a @ ?b @ ?c @ ?d) (src + 16) = m (src + 16)"
    using source_word [OF assms, of ?a 4 m] source_word [OF assms, of "?a @ ?b" 8 m]
      source_word [OF assms, of "?a @ ?b @ ?c" 12 m] source_untouched [OF assms, of "?a @ ?b @ ?c @ ?d" 16 m] by simp_all
  have grow: "write_bytes (write_bytes m dst ?a) (dst + 4) ?b = write_bytes m dst (?a @ ?b)"
    "write_bytes (write_bytes m dst (?a @ ?b)) (dst + 8) ?c = write_bytes m dst (?a @ ?b @ ?c)"
    "write_bytes (write_bytes m dst (?a @ ?b @ ?c)) (dst + 12) ?d = write_bytes m dst (?a @ ?b @ ?c @ ?d)"
    "(write_bytes m dst (?a @ ?b @ ?c @ ?d))(dst + 16 := m (src + 16)) = write_bytes m dst ?bs"
    "write_bytes (write_bytes m dst ?bs) (dst + 17) (replicate 19 0) = write_bytes m dst (?bs @ replicate 19 0)"
    using write_grow [of m dst ?a ?b] write_grow [of m dst "?a @ ?b" ?c] write_grow [of m dst "?a @ ?b @ ?c" ?d]
      write_grow [of m dst "?a @ ?b @ ?c @ ?d" "[m (src + 16)]"] write_grow [of m dst ?bs "replicate 19 0"] by simp_all
  have "target_to_host_termios dst src m = copy_cc [0..<17] dst src (write_bytes m dst (?bs @ replicate 19 0))"
    unfolding target_to_host_termios_def Let_def st32_def iflag_mask oflag_mask cflag_mask lflag_mask words grow control_chars_upt ..
  also have "\<dots> = write_bytes (write_bytes m dst (?bs @ replicate 19 0)) (dst + 17) (read_bytes m (src + 17) 17)"
  proof (subst copy_cc_run)
    show "\<forall>k<17. \<forall>l<17. src + 17 + of_nat k \<noteq> dst + 17 + of_nat l"
      using apart_shift [OF assms, of 17 17] by (simp add: apart_def)
  qed (use run in simp)
  also have "\<dots> = write_bytes (write_bytes (write_bytes m dst ?bs) (dst + 17) (replicate 17 0 @ [0, 0])) (dst + 17) (read_bytes m (src + 17) 17)"
    unfolding grow(5) [symmetric] by (simp add: numeral_eq_Suc)
  also have "\<dots> = write_bytes (write_bytes m dst ?bs) (dst + 17) (read_bytes m (src + 17) 17 @ [0, 0])"
    by (rule write_bytes_over) simp_all
  also have "\<dots> = write_bytes m dst (settings m src)"
  proof -
    have "read_bytes m (src + 16) 18 = m (src + 16) # read_bytes m (src + 17) 17"
      by (simp add: numeral_eq_Suc add.assoc)
    then show ?thesis
      using write_grow [of m dst ?bs "read_bytes m (src + 17) 17 @ [0, 0]"] by (simp add: settings_def)
  qed
  finally show ?thesis .
qed

text \<open>
  What the guest's terminal settings become.  For structures that do not overlap, the conversion writes 36
  bytes at its destination and nothing else: the input, output and local flags without the bits that no entry of their
  tables names, the control flags with the speed if it is one of the twenty listed and as speed 0 (which hangs up the line)
  if it is not, the line discipline, the first 17 control characters, and zeros for the last two.  The
  conversion in the other direction is the same function.
\<close>

theorem termios_converted:
  assumes "apart dst src 36"
  shows "target_to_host_termios dst src m = write_bytes m dst (settings m src) \<and>
     host_to_target_termios dst src m = write_bytes m dst (settings m src) \<and>
     length (settings m src) = 36"
  using termios_bytes [OF assms] both_directions by (simp add: settings_def)

lemma settings_control:
  "ld32 (write_bytes m dst (settings m src)) (dst + 8) = control_flags (ld32 m (src + 8))"
proof -
  have "bytes_at (write_bytes m dst (settings m src)) dst (settings m src)"
    by (rule bytes_at_write_bytes) (simp add: settings_def)
  then show ?thesis
    by (subst (asm) (2) settings_def) (simp add: bytes_at_bytes32 add.commute)
qed

text \<open>A speed of 500000 baud (0x1005) is lost, its neighbour 460800 (0x1004) is not.\<close>

theorem termios_converted_witness:
  "ld32 (target_to_host_termios 200 0 (st32 (\<lambda>_. 0) 8 0x1005)) 208 = 0 \<and>
     ld32 (target_to_host_termios 200 0 (st32 (\<lambda>_. 0) 8 0x1004)) 208 = 0x1004"
proof -
  have apart: "apart 200 0 36"
    by (auto simp: apart_def word_unat_eq_iff unat_word_ariths unat_of_nat_u32)
  have flags: "control_flags 0x1005 = 0" "control_flags 0x1004 = 0x1004" by (simp_all add: control_flags_def bauds_def)
  have "ld32 (target_to_host_termios 200 0 (st32 (\<lambda>_. 0) 8 v)) 208 = control_flags v" for v
    using termios_converted [OF apart, of "st32 (\<lambda>_. 0) 8 v"] settings_control [of "st32 (\<lambda>_. 0) 8 v" 200 0]
    by (simp add: ld32_st32)
  with flags show ?thesis by simp
qed

end
