(* ===== verification/Spec2Isabelle.thy ===== *)
theory Spec2Isabelle
  imports Start_Up Inline_Cache Mmap_Rights Signal_Queues Load_Elf_Maps Core_Dump Symbols Options Guest_Path Termios
begin

text \<open>
  A verification of \<^verbatim>\<open>unitrans\<close>, a user-mode dynamic binary translator from i386 to i386 that grew out
  of \<^verbatim>\<open>qemu\<close>.  All source files named below are under \<^verbatim>\<open>src/\<close>; the build is the one of
  \<^verbatim>\<open>configure\<close> for an i386 host and guest with the options of \<^verbatim>\<open>target-i386/opt-def.h\<close>.

  \<^bold>\<open>The program\<close>

  \<^verbatim>\<open>main\<close> (\<^verbatim>\<open>linux-user/main.c\<close>) reads the command line, sets up the environment and the arguments of
  the guest program, loads the program and its ELF interpreter into its own address space (\<^verbatim>\<open>loader_exec\<close>,
  \<^verbatim>\<open>load_elf_binary\<close>), sets the registers the loader computed and calls \<^verbatim>\<open>cpu_loop\<close>, which calls
  \<^verbatim>\<open>cpu_exec\<close> (\<^verbatim>\<open>cpu-exec.c\<close>).  That loop looks up the block of code for \<^verbatim>\<open>env->eip\<close> in a directory of
  translated blocks (\<^verbatim>\<open>exec.c\<close>); a missing block is translated: \<^verbatim>\<open>gen_target_code\<close> decodes one instruction
  after the other (\<^verbatim>\<open>target-i386/decode.c\<close>, tables in \<^verbatim>\<open>decode-table.c\<close>) and calls the emitter its table
  entry names (\<^verbatim>\<open>target-i386/translate.c\<close>), which copies a plain instruction and rewrites a branch.  At the
  end \<^verbatim>\<open>lazy_patch\<close> makes each direct branch jump to its target's code or, where that is not translated
  yet, to an exit stub.  The prologue of the code cache hands the processor to the block.  The code comes
  back through the epilogue, with \<^verbatim>\<open>env->ret_tb\<close> and the slot of the branch that was taken; the loop
  translates the target and links the branch to it.  Branches whose target is known only at run time go
  through code that looks the target up: an inline cache of three slots, then the sieve, a hash table made
  of code; returns go through a return cache.  System calls of the guest run natively (\<^verbatim>\<open>emit_int\<close> copies
  the instruction).  Beside this stand the table of the guest's pages, the functions that map memory, the
  queues of signals, and the descriptions of the kernel's data types, all inherited from \<^verbatim>\<open>qemu\<close>.

  \<^bold>\<open>Theories\<close>

  What all parts share:
  - \<^verbatim>\<open>Prelude.thy\<close>: words of 32, 16 and 8 bits, memory as a function from addresses to bytes with little-endian
    loads and stores, runs of written bytes, and the type \<^verbatim>\<open>outcome\<close> of a C function that may abort, leave an
    array, call a null pointer, overflow a signed integer or be refused.

  The translator:
  - \<^verbatim>\<open>Opcode_Tables.thy\<close>: the tables of \<^verbatim>\<open>decode-table.c\<close> entry by entry, with the types of \<^verbatim>\<open>decode.h\<close>.
  - \<^verbatim>\<open>Decoder.thy\<close>: \<^verbatim>\<open>simple_disas_insn\<close> of \<^verbatim>\<open>decode.c\<close>, stage by stage.  A decode advances over the prefixes and then
    1 to 11 bytes, and fails to return only in a memory that is nothing but prefixes.
  - \<^verbatim>\<open>TB_Cache.thy\<close>: the array \<^verbatim>\<open>tbs\<close>, the hash chains and the jump cache of \<^verbatim>\<open>exec.c\<close>, \<^verbatim>\<open>exec-all.h\<close> and \<^verbatim>\<open>cpu-exec.c\<close>
    (\<^verbatim>\<open>make_tb\<close>, \<^verbatim>\<open>tb_alloc\<close>, \<^verbatim>\<open>tb_free\<close>, \<^verbatim>\<open>tb_link_page\<close>, \<^verbatim>\<open>tb_find_slow\<close>, \<^verbatim>\<open>tb_find_fast\<close>).  The locale
    tb_directory is the contract, a map that a new block overrides; the lookup through both caches is the
    newest block in every reachable state.
  - \<^verbatim>\<open>Emitter.thy\<close>: the emitters of \<^verbatim>\<open>translate.c\<close> and \<^verbatim>\<open>cemit-inline.c\<close> (record \<^verbatim>\<open>cpu\<close> for the part of \<^verbatim>\<open>env\<close> they use,
    record \<^verbatim>\<open>layout\<close> for the addresses that the linker and the allocator choose).  \<^verbatim>\<open>Emitter_Inv.thy\<close>: the invariant of a
    block that is being translated.  \<^verbatim>\<open>Translate_Block.thy\<close>: \<^verbatim>\<open>gen_target_code\<close> and \<^verbatim>\<open>lazy_patch\<close>, that a translation
    ends (in a state, a refusal, or the call of a null pointer at an instruction without an emit function), stays within
    its areas and leaves every branch linked.  \<^verbatim>\<open>Block_Growth.thy\<close>: that the blocks already there
    stay as they are.
  - \<^verbatim>\<open>Host_Machine.thy\<close>: the instructions of the processor that the emitted run-time code consists of, decoded from the
    bytes in memory.  It is a model of hardware, used to say what emitted code does when it runs.
  - \<^verbatim>\<open>Runtime_Code.thy\<close>: \<^verbatim>\<open>codecache_prologue_init\<close>, \<^verbatim>\<open>add_sieve_entry\<close> and \<^verbatim>\<open>ind_patch_sieve\<close>.  \<^verbatim>\<open>Sieve.thy\<close>: the sieve's code
    run on that machine.  The locale dispatcher is the contract of code that finds a host address for a guest
    address; the sieve is one interpretation of it.  \<^verbatim>\<open>Code_Cache.thy\<close>: prologue, epilogue, the filling of the sieve.
  - \<^verbatim>\<open>Exec_Loop.thy\<close>: \<^verbatim>\<open>cpu_exec\<close> with \<^verbatim>\<open>tb_add_jump\<close> and \<^verbatim>\<open>tb_set_jmp_target\<close>; a round of the loop is a function, the
    loop is the inductive relation \<^verbatim>\<open>cpu_exec_step\<close>, in which what translated code does to memory and which exit
    it takes is a parameter.
  - \<^verbatim>\<open>Inline_Cache.thy\<close>: the code of \<^verbatim>\<open>cemit_ind_opt\<close> and \<^verbatim>\<open>patch_ind_opt\<close> as a second dispatcher.  The locale
    dispatcher_chain puts one dispatcher before another; cache and sieve are its interpretation.

  The guest's memory, signals and start:
  - \<^verbatim>\<open>Page_Table.thy\<close>: the two-level table of page flags (\<^verbatim>\<open>page_find_alloc\<close>, \<^verbatim>\<open>page_set_flags\<close>, \<^verbatim>\<open>page_get_flags\<close>,
    \<^verbatim>\<open>page_check_range\<close>, \<^verbatim>\<open>page_dump\<close>, \<^verbatim>\<open>cpu_memory_rw_debug\<close>), with the locale page_flags as its contract: a
    function from pages to flags.
  - \<^verbatim>\<open>Mmap.thy\<close>, \<^verbatim>\<open>Mmap_Rights.thy\<close>: \<^verbatim>\<open>linux-user/mmap.c\<close> over the page table and a log of the calls of the host's kernel,
    whose answers are a parameter.  What each call leaves in the table; what it asks the kernel for where a page of the
    host holds several of the guest.
  - \<^verbatim>\<open>Signals.thy\<close>, \<^verbatim>\<open>Signal_Queues.thy\<close>: \<^verbatim>\<open>linux-user/signal.c\<close>.  Numbers and sets of signals, the pool and the queues, actions,
    frames and delivery; the locale signal_queues is the contract (a queue for each signal, first in, first out),
    interpreted on \<^verbatim>\<open>queue_signal\<close> and \<^verbatim>\<open>process_pending_signals\<close>.
  - \<^verbatim>\<open>Loader.thy\<close>, \<^verbatim>\<open>Loader_Stack.thy\<close>, \<^verbatim>\<open>Load_Elf.thy\<close>, \<^verbatim>\<open>Load_Elf_Maps.thy\<close>: \<^verbatim>\<open>linux-user/elfload.c\<close> and \<^verbatim>\<open>linuxload.c\<close>.  The strings
    and the tables on the stack, the segments, the interpreter, room in the host's address space, the result.
  - \<^verbatim>\<open>Core_Dump.thy\<close>: \<^verbatim>\<open>elf_core_dump\<close> of \<^verbatim>\<open>linux-user/elfload.c\<close>, the file that \<^verbatim>\<open>force_sig\<close> leaves, written through a host that may
    write in parts, be interrupted or reach a limit.  It holds the memory of programs below 4 MB only, because the walk over the
    table of pages gives wrong addresses further up; both are theorems.
  - \<^verbatim>\<open>Symbols.thy\<close>: \<^verbatim>\<open>load_symbols\<close> of \<^verbatim>\<open>elfload.c\<close> and \<^verbatim>\<open>lookup_symbol\<close> of \<^verbatim>\<open>disas.c\<close>, compared with the functions of the file; the search
    finds a function for certain only where functions do not overlap.
  - \<^verbatim>\<open>Envlist.thy\<close>: \<^verbatim>\<open>envlist.c\<close>, with the locale environment (a map from names to values) as its contract.  \<^verbatim>\<open>Options.thy\<close>:
    \<^verbatim>\<open>main\<close> up to \<^verbatim>\<open>loader_exec\<close>.  \<^verbatim>\<open>Guest_Path.thy\<close>: \<^verbatim>\<open>path.c\<close>, compared with a walk through the file system.
  - \<^verbatim>\<open>Thunk.thy\<close>, \<^verbatim>\<open>Thunk_Tables.thy\<close>, \<^verbatim>\<open>Termios.thy\<close>: \<^verbatim>\<open>thunk.c\<close>, the calls that \<^verbatim>\<open>syscall_init\<close> makes of it, and the conversion of
    terminal settings of \<^verbatim>\<open>linux-user/syscall.c\<close>.
  - \<^verbatim>\<open>Start_Up.thy\<close>: from the return of the loader to the entry of the first block; here loader, tables, translator
    and prologue meet.

  \<^bold>\<open>How the code is represented\<close>

  A C structure is a record with the members the code uses; pointers to blocks, to entries of the pool of signals and to
  nodes of a list are indices or names, null is \<^verbatim>\<open>None\<close>.  \<^verbatim>\<open>unsigned long\<close> and all addresses are words of 32 bits
  and wrap.  Guest and host share one memory, as they do in the program (\<^verbatim>\<open>ldub_code\<close> reads through the address
  itself).  A function that may stop the process returns an outcome: \<^verbatim>\<open>abort\<close>, a failed assertion, an access
  outside an array, \<^verbatim>\<open>exit\<close> with its status.  What the host's kernel, the allocator, a file or a directory answers
  is an argument.

  \<^bold>\<open>Bounds\<close>

  A translation takes at most 8193 instructions (\<^verbatim>\<open>MAX_INSNS\<close> and one more), each of at most 15 bytes with four
  prefixes and each translated to at most 185 bytes: 1600000 bytes hold them all.  At most 256 patches of 35
  bytes make 8960 bytes of exit stubs; the code tests neither of the two sizes.  Room for the code is what
  \<^verbatim>\<open>tb_alloc\<close> leaves below the end of the buffer, of 128 MB; the stubs go into the sieve's area of 64 MB, whose
  bound only \<^verbatim>\<open>add_sieve_entry\<close> tests, so the theorems about a round of \<^verbatim>\<open>cpu_exec\<close> ask for 8987 free bytes there, the stubs
  and a node of 27.  The machine of \<^verbatim>\<open>Host_Machine.thy\<close> is deterministic, and \<^verbatim>\<open>runs\<close> says that some number of its steps leads from
  one state to another.  \<^verbatim>\<open>thunk_convert\<close> takes fuel, and the property about it says that the size of the type is enough;
  \<^verbatim>\<open>add_dir_maybe\<close> takes fuel, and the property about \<^verbatim>\<open>path\<close> says that the depth of the directories is
  enough.  The layout of a structure is computed in a C
  \<^verbatim>\<open>int\<close>, and the property about it asks that it leaves room for one more alignment there.  All other loops are recursions that end, or partial functions with theorems that say when they end.

  \<^bold>\<open>Not modelled\<close>

  - \<^verbatim>\<open>do_syscall\<close> and its helpers (\<^verbatim>\<open>linux-user/syscall.c\<close>), the log of system calls (\<^verbatim>\<open>strace.c\<close>) and the structures
    of \<^verbatim>\<open>syscall_defs.h\<close> that only they use: no code calls \<^verbatim>\<open>do_syscall\<close>, because \<^verbatim>\<open>int\<close> instructions are copied, and
    the switch of \<^verbatim>\<open>cpu_loop\<close> over exceptions is disabled with \<^verbatim>\<open>#if 00\<close>.
  - What translated code computes: a plain instruction is copied, and its meaning is the processor's.
    \<^verbatim>\<open>cpu_exec_step\<close> leaves open what it does to memory, except that it leaves the translator's own areas alone.
  - The disassembler (the rest of \<^verbatim>\<open>disas.c\<close>, \<^verbatim>\<open>i386-dis.c\<close>) and the texts of the log.
  - \<^verbatim>\<open>fpu/softfloat.c\<close>: third-party arithmetic that translated code does not call.  \<^verbatim>\<open>gdbstub.c\<close>: not in the
    object lists of \<^verbatim>\<open>Makefile.target\<close>.  \<^verbatim>\<open>linux-user/flatload.c\<close>, the parts of \<^verbatim>\<open>signal.c\<close> and \<^verbatim>\<open>elfload.c\<close> for
    other guests, and \<^verbatim>\<open>m68k-sim.c\<close>: not built for i386.
  - \<^verbatim>\<open>ind-prof.c\<close>, \<^verbatim>\<open>retrans-ind.c\<close> and all that stands behind options \<^verbatim>\<open>opt-def.h\<close> does not define; locks that
    need \<^verbatim>\<open>CONFIG_USE_NPTL\<close>.
  - \<^verbatim>\<open>qemu-timer.c\<close>, \<^verbatim>\<open>osdep.c\<close>, \<^verbatim>\<open>qemu-malloc.c\<close> and the other wrappers of the host's library.
\<close>

end
